(* ===== verification/Prelude.thy ===== *)
theory Prelude
  imports Main "HOL-Library.Word" "HOL-Library.AList"
begin

unbundle bit_operations_syntax

text \<open>
  Shared vocabulary of the development: machine integers, byte buffers, the outcome of Rust code
  that can return an error or panic, big-endian integers, UTF-8 validation as
  \<^verbatim>\<open>std::str::from_utf8\<close> does it, and counted sequences on the wire.

  \<^item> \<open>u8\<close>, \<open>u16\<close>, \<open>u32\<close>, \<open>u64\<close> are words of that width. \<open>usize\<close> values that the code
    only adds and compares are \<open>nat\<close>.
  \<^item> A \<open>&[u8]\<close> or \<open>Vec<u8>\<close> is a \<open>bytes\<close> list. A \<open>String\<close> is the \<open>bytes\<close> list of its UTF-8
    encoding (\<open>str\<close>); the invariant of the Rust type is \<open>utf8_valid\<close>.
  \<^item> \<open>Instant\<close>, \<open>SystemTime\<close> and \<open>Duration\<close> are natural numbers of nanoseconds, so Rust's
    saturating differences are subtraction on \<open>nat\<close>.
  \<^item> \<open>outcome\<close> keeps a panic apart from an error value: an index out of bounds is \<open>Panic\<close>, so
    "never panics" is a theorem and not an assumption.
\<close>

section \<open>Types\<close>

type_synonym u8 = "8 word"
type_synonym u16 = "16 word"
type_synonym u32 = "32 word"
type_synonym u64 = "64 word"
type_synonym bytes = "u8 list"
type_synonym str = "u8 list"
type_synonym time = nat
type_synonym duration = nat

definition secs :: "nat \<Rightarrow> duration" where
  "secs n = n * 1000000000"

definition millis :: "nat \<Rightarrow> duration" where
  "millis n = n * 1000000"

named_theorems outcome_simps "case analysis of outcomes"
named_theorems wire_simps "lengths and decodings of wire encodings"
named_theorems step_inv "operations preserve their component's invariant"

section \<open>Outcomes of Rust code\<close>

datatype ('e, 'a) outcome = Ok 'a | Err 'e | Panic

fun and_then :: "('e, 'a) outcome \<Rightarrow> ('a \<Rightarrow> ('e, 'b) outcome) \<Rightarrow> ('e, 'b) outcome" where
  "and_then (Ok a) f = f a"
| "and_then (Err e) f = Err e"
| "and_then Panic f = Panic"

lemma and_then_eq_Ok [outcome_simps]:
  "and_then m f = Ok b \<longleftrightarrow> (\<exists>a. m = Ok a \<and> f a = Ok b)"
  by (cases m) auto

lemma and_then_eq_Err [outcome_simps]:
  "and_then m f = Err e \<longleftrightarrow> m = Err e \<or> (\<exists>a. m = Ok a \<and> f a = Err e)"
  by (cases m) auto

lemma and_then_eq_Panic [outcome_simps]:
  "and_then m f = Panic \<longleftrightarrow> m = Panic \<or> (\<exists>a. m = Ok a \<and> f a = Panic)"
  by (cases m) auto

lemma and_then_assoc: "and_then (and_then m f) g = and_then m (\<lambda>a. and_then (f a) g)"
  by (cases m) simp_all

lemma and_then_cong [fundef_cong]:
  "m = m' \<Longrightarrow> (\<And>a. m' = Ok a \<Longrightarrow> f a = f' a) \<Longrightarrow> and_then m f = and_then m' f'"
  by (cases m') auto

text \<open>\<open>buf[i]\<close> and \<open>buf[a..b]\<close>: a panic when the index is out of bounds.\<close>

definition byte_at :: "bytes \<Rightarrow> nat \<Rightarrow> ('e, u8) outcome" where
  "byte_at buf i = (if i < length buf then Ok (buf ! i) else Panic)"

definition slice_at :: "bytes \<Rightarrow> nat \<Rightarrow> nat \<Rightarrow> ('e, bytes) outcome" where
  "slice_at buf a b = (if a \<le> b \<and> b \<le> length buf then Ok (take (b - a) (drop a buf)) else Panic)"

text \<open>\<open>m.ok_or(e)?\<close>\<close>

definition ok_or :: "'a option \<Rightarrow> 'e \<Rightarrow> ('e, 'a) outcome" where
  "ok_or m e = (case m of None \<Rightarrow> Err e | Some a \<Rightarrow> Ok a)"

lemma byte_at_Ok [simp]: "i < length buf \<Longrightarrow> byte_at buf i = Ok (buf ! i)"
  by (simp add: byte_at_def)

lemma slice_at_Ok [simp]:
  "a \<le> b \<Longrightarrow> b \<le> length buf \<Longrightarrow> slice_at buf a b = Ok (take (b - a) (drop a buf))"
  by (simp add: slice_at_def)

lemma ok_or_simps [simp]: "ok_or None e = Err e" "ok_or (Some a) e = Ok a"
  by (simp_all add: ok_or_def)

lemma ok_or_not_Panic [simp]: "ok_or m e \<noteq> Panic"
  by (cases m) simp_all

text \<open>\<open>buf.get(a..b)\<close>: \<open>None\<close> when out of bounds.\<close>

definition get_range :: "bytes \<Rightarrow> nat \<Rightarrow> nat \<Rightarrow> bytes option" where
  "get_range buf a b = (if a \<le> b \<and> b \<le> length buf then Some (take (b - a) (drop a buf)) else None)"

lemma split_at2: "xs = take n xs @ take m (drop n xs) @ drop (n + m) xs"
  by (metis append_take_drop_id drop_drop add.commute)

lemma get_range_length: "get_range buf a b = Some s \<Longrightarrow> length s = b - a"
  by (auto simp: get_range_def split: if_splits)

lemma set_map_filter: "set (List.map_filter f xs) = {y. \<exists>x\<in>set xs. f x = Some y}"
  by (induction xs) (auto simp: List.map_filter_simps split: option.splits)

lemma find_Some: "List.find P xs = Some x \<Longrightarrow> x \<in> set xs \<and> P x"
  by (induction xs) (auto split: if_splits)

lemma find_None: "List.find P xs = None \<longleftrightarrow> (\<forall>x\<in>set xs. \<not> P x)"
  by (induction xs) auto

section \<open>Big-endian integers\<close>

text \<open>\<open>uN::to_be_bytes\<close> and \<open>uN::from_be_bytes\<close>.\<close>

definition to_be :: "nat \<Rightarrow> 'a::len word \<Rightarrow> bytes" where
  "to_be n w = map (\<lambda>i. ucast (drop_bit (8 * i) w)) (rev [0..<n])"

definition of_be :: "bytes \<Rightarrow> 'a::len word" where
  "of_be bs = foldl (\<lambda>acc b. push_bit 8 acc OR ucast b) 0 bs"

lemma length_to_be [simp, wire_simps]: "length (to_be n w) = n"
  by (simp add: to_be_def)

lemma of_be_Nil [simp]: "of_be [] = 0"
  by (simp add: of_be_def)

lemma of_be_snoc: "of_be (bs @ [b]) = (push_bit 8 (of_be bs) OR ucast b)"
  by (simp add: of_be_def)

lemma to_be_Suc: "to_be (Suc n) w = to_be n (drop_bit 8 w) @ [ucast w]"
proof -
  have "rev [0..<Suc n] = map Suc (rev [0..<n]) @ [0]"
    by (metis map_Suc_upt rev.simps(2) rev_map upt_conv_Cons zero_less_Suc)
  then show ?thesis
    by (simp add: to_be_def drop_bit_drop_bit o_def mult.commute add.commute)
qed

lemma to_be_0 [simp]: "to_be 0 w = []"
  by (simp add: to_be_def)

lemma of_be_to_be: "of_be (to_be n w) = take_bit (8 * n) w"
proof (induction n arbitrary: w)
  case 0
  then show ?case by simp
next
  case (Suc n)
  have "of_be (to_be (Suc n) w) = (push_bit 8 (take_bit (8 * n) (drop_bit 8 w)) OR ucast (ucast w :: u8))"
    by (simp add: to_be_Suc of_be_snoc Suc.IH)
  also have "\<dots> = take_bit (8 * Suc n) w"
    by (rule bit_word_eqI) (auto simp: bit_simps)
  finally show ?case .
qed

lemma of_be_to_be_full [simp]: "LENGTH('a) \<le> 8 * n \<Longrightarrow> of_be (to_be n w) = (w :: 'a::len word)"
  by (simp add: of_be_to_be take_bit_word_eq_self)

lemma of_be_to_be_16 [simp]: "of_be (to_be 2 w) = (w :: u16)"
  by simp

lemma of_be_to_be_32 [simp]: "of_be (to_be 4 w) = (w :: u32)"
  by simp

lemma of_be_to_be_64 [simp]: "of_be (to_be 8 w) = (w :: u64)"
  by simp

lemma to_be_of_be_aux:
  "8 * length bs \<le> LENGTH('a) \<Longrightarrow> to_be (length bs) (of_be bs :: 'a::len word) = bs"
proof (induction bs rule: rev_induct)
  case Nil
  then show ?case by simp
next
  case (snoc b bs)
  let ?w = "of_be bs :: 'a word"
  have bound: "take_bit (LENGTH('a) - 8) ?w = ?w"
  proof -
    have "of_be (to_be (length bs) ?w) = take_bit (8 * length bs) ?w"
      by (rule of_be_to_be)
    with snoc have eq: "?w = take_bit (8 * length bs) ?w" by simp
    have "8 * length bs \<le> LENGTH('a) - 8" using snoc.prems by simp
    then show ?thesis by (metis eq min.absorb2 take_bit_take_bit)
  qed
  have hi: "drop_bit 8 (push_bit 8 ?w OR ucast b) = ?w"
  proof (rule bit_word_eqI)
    fix i assume "i < LENGTH('a)"
    have "bit ?w i \<Longrightarrow> i + 8 < LENGTH('a)"
      by (subst (asm) bound [symmetric]) (auto simp: bit_simps)
    moreover have "\<not> bit b (i + 8)"
      using bit_imp_le_length [of b "i + 8"] by auto
    ultimately show "bit (drop_bit 8 (push_bit 8 ?w OR ucast b)) i = bit ?w i"
      using \<open>i < LENGTH('a)\<close> by (auto simp: bit_simps add.commute)
  qed
  have lo: "ucast (push_bit 8 ?w OR ucast b) = b"
    by (rule bit_word_eqI) (use snoc.prems in \<open>auto simp: bit_simps\<close>)
  have "to_be (length (bs @ [b])) (of_be (bs @ [b]) :: 'a word) = to_be (length bs) ?w @ [b]"
    by (simp only: length_append list.size add_Suc_right add_0_right to_be_Suc of_be_snoc hi lo)
  with snoc show ?case by simp
qed

lemma to_be_of_be [simp]:
  "length bs = n \<Longrightarrow> 8 * n \<le> LENGTH('a) \<Longrightarrow> to_be n (of_be bs :: 'a::len word) = bs"
  using to_be_of_be_aux by blast

text \<open>A length that fits a byte survives the cast \<open>len as u8\<close> and back.\<close>

lemma unat_of_nat_u8 [simp]: "n < 256 \<Longrightarrow> unat (of_nat n :: u8) = n"
  by (simp add: unat_of_nat)

lemma unat_of_nat_u16 [simp]: "n < 65536 \<Longrightarrow> unat (of_nat n :: u16) = n"
  by (simp add: unat_of_nat)

lemma unat_u8_less: "unat (b :: u8) < 256"
  using unsigned_less [of b, where ?'a = nat] by simp

lemma unat_u16_less: "unat (b :: u16) < 65536"
  using unsigned_less [of b, where ?'a = nat] by simp

section \<open>UTF-8, as \<^verbatim>\<open>std::str::from_utf8\<close> accepts it\<close>

text \<open>
  \<open>utf8_next\<close> reads one character: the table of well-formed sequences (no overlong form, no
  surrogate, nothing above U+10FFFF), which is the one Rust's validator uses.
\<close>

definition cont_in :: "nat \<Rightarrow> nat \<Rightarrow> u8 \<Rightarrow> bool" where
  "cont_in lo hi b \<longleftrightarrow> lo \<le> unat b \<and> unat b \<le> hi"

definition cont_bits :: "u8 \<Rightarrow> nat" where
  "cont_bits b = unat b - 0x80"

fun utf8_next :: "bytes \<Rightarrow> (nat \<times> bytes) option" where
  "utf8_next [] = None"
| "utf8_next (b # r) =
     (let x = unat b in
      if x < 0x80 then Some (x, r)
      else if 0xC2 \<le> x \<and> x \<le> 0xDF then
        (case r of
           c1 # r' \<Rightarrow> if cont_in 0x80 0xBF c1 then Some ((x - 0xC0) * 64 + cont_bits c1, r') else None
         | _ \<Rightarrow> None)
      else if 0xE0 \<le> x \<and> x \<le> 0xEF then
        (case r of
           c1 # c2 # r' \<Rightarrow>
             if cont_in (if x = 0xE0 then 0xA0 else 0x80) (if x = 0xED then 0x9F else 0xBF) c1
                \<and> cont_in 0x80 0xBF c2
             then Some ((x - 0xE0) * 4096 + cont_bits c1 * 64 + cont_bits c2, r') else None
         | _ \<Rightarrow> None)
      else if 0xF0 \<le> x \<and> x \<le> 0xF4 then
        (case r of
           c1 # c2 # c3 # r' \<Rightarrow>
             if cont_in (if x = 0xF0 then 0x90 else 0x80) (if x = 0xF4 then 0x8F else 0xBF) c1
                \<and> cont_in 0x80 0xBF c2 \<and> cont_in 0x80 0xBF c3
             then Some ((x - 0xF0) * 262144 + cont_bits c1 * 4096 + cont_bits c2 * 64
                        + cont_bits c3, r') else None
         | _ \<Rightarrow> None)
      else None)"

lemma utf8_next_shorter: "utf8_next bs = Some (c, r) \<Longrightarrow> length r < length bs"
  by (cases bs) (auto simp: Let_def split: if_splits list.splits)

function utf8_chars :: "bytes \<Rightarrow> nat list option" where
  "utf8_chars bs =
     (if bs = [] then Some []
      else case utf8_next bs of
             None \<Rightarrow> None
           | Some (c, r) \<Rightarrow> map_option ((#) c) (utf8_chars r))"
  by pat_completeness auto
termination
  by (relation "measure length") (auto dest: utf8_next_shorter)

declare utf8_chars.simps [simp del]

definition utf8_valid :: "bytes \<Rightarrow> bool" where
  "utf8_valid bs \<longleftrightarrow> utf8_chars bs \<noteq> None"

definition from_utf8 :: "bytes \<Rightarrow> str option" where
  "from_utf8 bs = (if utf8_valid bs then Some bs else None)"

definition is_ascii :: "bytes \<Rightarrow> bool" where
  "is_ascii bs \<longleftrightarrow> list_all (\<lambda>b. unat b < 128) bs"

lemma utf8_chars_Nil [simp]: "utf8_chars [] = Some []"
  by (subst utf8_chars.simps) simp

lemma utf8_chars_ascii_Cons [simp]:
  "unat b < 128 \<Longrightarrow> utf8_chars (b # bs) = map_option ((#) (unat b)) (utf8_chars bs)"
  by (subst utf8_chars.simps) simp

lemma utf8_chars_ascii: "is_ascii bs \<Longrightarrow> utf8_chars bs = Some (map unat bs)"
  by (induction bs) (simp_all add: is_ascii_def)

lemma ascii_utf8_valid [simp]: "is_ascii bs \<Longrightarrow> utf8_valid bs"
  by (simp add: utf8_valid_def utf8_chars_ascii)

lemma utf8_valid_Nil [simp]: "utf8_valid []"
  by (simp add: utf8_valid_def)

lemma from_utf8_valid [simp]: "utf8_valid bs \<Longrightarrow> from_utf8 bs = Some bs"
  by (simp add: from_utf8_def)

lemma from_utf8_Some_iff: "from_utf8 bs = Some s \<longleftrightarrow> utf8_valid bs \<and> s = bs"
  by (auto simp: from_utf8_def)

lemma from_utf8_None_iff: "from_utf8 bs = None \<longleftrightarrow> \<not> utf8_valid bs"
  by (simp add: from_utf8_def)

text \<open>Characters: \<^verbatim>\<open>char::is_whitespace\<close> (White\_Space), \<^verbatim>\<open>char::is_control\<close> (Cc), \<^verbatim>\<open>str::trim\<close>.\<close>

definition is_whitespace :: "nat \<Rightarrow> bool" where
  "is_whitespace c \<longleftrightarrow>
     (0x09 \<le> c \<and> c \<le> 0x0D) \<or> c = 0x20 \<or> c = 0x85 \<or> c = 0xA0 \<or> c = 0x1680
     \<or> (0x2000 \<le> c \<and> c \<le> 0x200A) \<or> c = 0x2028 \<or> c = 0x2029 \<or> c = 0x202F \<or> c = 0x205F
     \<or> c = 0x3000"

definition is_control :: "nat \<Rightarrow> bool" where
  "is_control c \<longleftrightarrow> c \<le> 0x1F \<or> (0x7F \<le> c \<and> c \<le> 0x9F)"

definition trim_chars :: "nat list \<Rightarrow> nat list" where
  "trim_chars cs = rev (dropWhile is_whitespace (rev (dropWhile is_whitespace cs)))"

lemma trim_chars_subset: "set (trim_chars cs) \<subseteq> set cs"
  by (auto simp: trim_chars_def dest!: set_dropWhileD)

text \<open>\<^verbatim>\<open>str::trim\<close> on the bytes: each character with its encoding, the whitespace dropped at both ends.\<close>

function char_slices :: "bytes \<Rightarrow> (nat \<times> bytes) list" where
  "char_slices bs =
     (case utf8_next bs of
        None \<Rightarrow> []
      | Some (c, r) \<Rightarrow> (c, take (length bs - length r) bs) # char_slices r)"
  by pat_completeness auto
termination
  by (relation "measure length") (auto dest: utf8_next_shorter)

declare char_slices.simps [simp del]

definition str_trim :: "str \<Rightarrow> str" where
  "str_trim s =
     (let ws = (\<lambda>p. is_whitespace (fst p))
      in concat (map snd (rev (dropWhile ws (rev (dropWhile ws (char_slices s)))))))"

lemma char_slices_ascii: "is_ascii bs \<Longrightarrow> char_slices bs = map (\<lambda>b. (unat b, [b])) bs"
proof (induction bs)
  case Nil
  then show ?case by (subst char_slices.simps) simp
next
  case (Cons b bs)
  then show ?case by (subst char_slices.simps) (simp add: is_ascii_def)
qed

lemma dropWhile_none: "list_all (\<lambda>x. \<not> P x) xs \<Longrightarrow> dropWhile P xs = xs"
  by (cases xs) simp_all

lemma str_trim_graphic:
  assumes "is_ascii s" "list_all (\<lambda>b. \<not> is_whitespace (unat b)) s"
  shows "str_trim s = s"
proof -
  let ?m = "map (\<lambda>b. (unat b, [b])) s"
  let ?ws = "\<lambda>p :: nat \<times> bytes. is_whitespace (fst p)"
  have a: "list_all (\<lambda>p. \<not> ?ws p) ?m" using assms(2) by (simp add: list_all_iff)
  then have "dropWhile ?ws ?m = ?m" by (rule dropWhile_none)
  moreover have "dropWhile ?ws (rev ?m) = rev ?m" by (rule dropWhile_none) (use a in \<open>simp add: list_all_iff\<close>)
  ultimately show ?thesis using assms(1) by (simp add: str_trim_def Let_def char_slices_ascii comp_def)
qed

text \<open>An ASCII literal as bytes.\<close>

definition ascii :: "string \<Rightarrow> bytes" where
  "ascii s = map (\<lambda>c. of_nat (of_char c)) s"

text \<open>\<open>format!("{n}")\<close> of an unsigned integer.\<close>

fun show_nat :: "nat \<Rightarrow> str" where
  "show_nat n = (if n < 10 then [of_nat (48 + n)] else show_nat (n div 10) @ [of_nat (48 + n mod 10)])"

declare show_nat.simps [simp del]

section \<open>Counted sequences on the wire\<close>

text \<open>
  \<open>for _ in 0..n { read one item }\<close> over the rest of a buffer. \<open>seq_codec\<close> is the contract of
  one item's encoder and decoder; a \<open>strict_codec\<close> also decodes nothing but encodings.
\<close>

fun dec_many :: "(bytes \<Rightarrow> ('e, 'a \<times> bytes) outcome) \<Rightarrow> nat \<Rightarrow> bytes
    \<Rightarrow> ('e, 'a list \<times> bytes) outcome" where
  "dec_many dec 0 bs = Ok ([], bs)"
| "dec_many dec (Suc n) bs =
     and_then (dec bs) (\<lambda>(a, r).
     and_then (dec_many dec n r) (\<lambda>(xs, r'). Ok (a # xs, r')))"

lemma dec_many_not_Panic:
  assumes "\<And>bs. dec bs \<noteq> Panic"
  shows "dec_many dec n bs \<noteq> Panic"
  by (induction n arbitrary: bs) (auto simp: outcome_simps assms split: prod.splits)

lemma dec_many_length: "dec_many dec n bs = Ok (xs, r) \<Longrightarrow> length xs = n"
  by (induction n arbitrary: bs xs r) (auto simp: outcome_simps split: prod.splits)

locale seq_codec =
  fixes enc :: "'a \<Rightarrow> bytes"
    and dec :: "bytes \<Rightarrow> ('e, 'a \<times> bytes) outcome"
    and wf :: "'a \<Rightarrow> bool"
  assumes dec_enc: "wf a \<Longrightarrow> dec (enc a @ r) = Ok (a, r)"
begin

lemma dec_many_enc:
  "list_all wf xs \<Longrightarrow> dec_many dec (length xs) (concat (map enc xs) @ r) = Ok (xs, r)"
  by (induction xs) (simp_all add: dec_enc)

lemma dec_many_enc_all:
  "list_all wf xs \<Longrightarrow> dec_many dec (length xs) (concat (map enc xs)) = Ok (xs, [])"
  using dec_many_enc [of xs "[]"] by simp

end

locale strict_codec = seq_codec +
  assumes dec_sound: "dec bs = Ok (a, r) \<Longrightarrow> wf a \<and> bs = enc a @ r"
begin

lemma dec_many_sound:
  "dec_many dec n bs = Ok (xs, r) \<Longrightarrow> list_all wf xs \<and> bs = concat (map enc xs) @ r"
proof (induction n arbitrary: bs xs r)
  case 0
  then show ?case by simp
next
  case (Suc n)
  from Suc.prems obtain a r1 xs' where
    d: "dec bs = Ok (a, r1)" and m: "dec_many dec n r1 = Ok (xs', r)" and xs: "xs = a # xs'"
    by (auto simp: outcome_simps split: prod.splits)
  from dec_sound [OF d] Suc.IH [OF m] show ?case by (simp add: xs)
qed

lemma dec_many_wf: "dec_many dec n bs = Ok (xs, r) \<Longrightarrow> list_all wf xs \<and> length xs = n"
  using dec_many_sound dec_many_length by blast

end

end
