(* ===== verification/Tables.thy ===== *)
theory Tables
  imports Prelude
begin

text \<open>
  Hash maps as association lists. The list order stands for the unspecified iteration order of
  \<^verbatim>\<open>std::collections::HashMap\<close>: nothing is proved that depends on it. \<open>hash_map\<close> is the interface
  the components use (what a lookup returns after an insert, a remove or a retain, and what each
  does to the number of entries); \<open>tbl\<close> interprets it on the operations below.

  \<open>flow_cache\<close> is the interface of a table that remembers keys for a time and is capped in size;
  the packet filter and the rebinder both keep such tables.
\<close>

section \<open>Operations\<close>

type_synonym ('k, 'v) table = "('k \<times> 'v) list"

definition tget :: "('k, 'v) table \<Rightarrow> 'k \<Rightarrow> 'v option" where
  "tget t k = map_of t k"

definition tput :: "'k \<Rightarrow> 'v \<Rightarrow> ('k, 'v) table \<Rightarrow> ('k, 'v) table" where
  "tput k v t = AList.update k v t"

definition tdel :: "'k \<Rightarrow> ('k, 'v) table \<Rightarrow> ('k, 'v) table" where
  "tdel k t = filter (\<lambda>e. fst e \<noteq> k) t"

definition tretain :: "('k \<Rightarrow> 'v \<Rightarrow> bool) \<Rightarrow> ('k, 'v) table \<Rightarrow> ('k, 'v) table" where
  "tretain P t = filter (\<lambda>e. P (fst e) (snd e)) t"

definition thas :: "('k, 'v) table \<Rightarrow> 'k \<Rightarrow> bool" where
  "thas t k \<longleftrightarrow> tget t k \<noteq> None"

definition twf :: "('k, 'v) table \<Rightarrow> bool" where
  "twf t \<longleftrightarrow> distinct (map fst t)"

section \<open>The interface\<close>

locale hash_map =
  fixes get :: "'m \<Rightarrow> 'k \<Rightarrow> 'v option"
    and put :: "'k \<Rightarrow> 'v \<Rightarrow> 'm \<Rightarrow> 'm"
    and del :: "'k \<Rightarrow> 'm \<Rightarrow> 'm"
    and retain :: "('k \<Rightarrow> 'v \<Rightarrow> bool) \<Rightarrow> 'm \<Rightarrow> 'm"
    and len :: "'m \<Rightarrow> nat"
    and empty :: "'m"
    and wf :: "'m \<Rightarrow> bool"
  assumes get_put: "get (put k v m) j = (if j = k then Some v else get m j)"
    and get_del: "get (del k m) j = (if j = k then None else get m j)"
    and get_retain: "wf m \<Longrightarrow> get (retain P m) j =
          (case get m j of None \<Rightarrow> None | Some v \<Rightarrow> if P j v then Some v else None)"
    and get_empty: "get empty j = None"
    and len_put: "len (put k v m) = (if get m k = None then Suc (len m) else len m)"
    and len_del: "len (del k m) \<le> len m"
    and len_retain: "len (retain P m) \<le> len m"
    and len_empty: "len empty = 0"
    and wf_put: "wf m \<Longrightarrow> wf (put k v m)"
    and wf_del: "wf m \<Longrightarrow> wf (del k m)"
    and wf_retain: "wf m \<Longrightarrow> wf (retain P m)"
    and wf_empty: "wf empty"
begin

lemma get_put_same: "get (put k v m) k = Some v"
  by (simp add: get_put)

lemma get_retain_Some:
  "wf m \<Longrightarrow> get (retain P m) j = Some v \<longleftrightarrow> get m j = Some v \<and> P j v"
  by (auto simp: get_retain split: option.splits)

lemma len_put_le: "len (put k v m) \<le> Suc (len m)"
  by (simp add: len_put)

end

lemma map_of_filter_distinct:
  "distinct (map fst t) \<Longrightarrow> map_of (filter (\<lambda>e. P (fst e) (snd e)) t) k =
     (case map_of t k of None \<Rightarrow> None | Some v \<Rightarrow> if P k v then Some v else None)"
proof (induction t)
  case Nil
  then show ?case by simp
next
  case (Cons e t)
  obtain a b where e: "e = (a, b)" by (cases e)
  from Cons.prems e have "a \<notin> fst ` set t" by simp
  then have "map_of t a = None" by (simp add: map_of_eq_None_iff)
  with Cons e show ?case by auto
qed

lemma map_of_filter_key: "map_of (filter (\<lambda>e. fst e \<noteq> k) t) j = (if j = k then None else map_of t j)"
  by (induction t) auto

lemma length_AList_update:
  "length (AList.update k v t) = (if map_of t k = None then Suc (length t) else length t)"
  by (induction t) auto

interpretation tbl: hash_map tget tput tdel tretain length "[]" twf
proof (unfold_locales, goal_cases)
  case (1 k v m j)
  then show ?case by (simp add: tget_def tput_def update_conv')
next
  case (2 k m j)
  then show ?case by (simp add: tget_def tdel_def map_of_filter_key)
next
  case (3 m P j)
  then show ?case by (simp add: tget_def tretain_def twf_def map_of_filter_distinct)
next
  case (5 k v m)
  then show ?case by (simp add: tget_def tput_def length_AList_update)
next
  case (9 m k v)
  then show ?case by (simp add: twf_def tput_def distinct_update)
qed (auto simp: tget_def tdel_def tretain_def twf_def distinct_map_filter)

lemmas table_simps = tbl.get_put tbl.get_del tbl.get_empty tbl.len_put tbl.len_empty
lemmas table_wf [intro, simp] = tbl.wf_put tbl.wf_del tbl.wf_retain tbl.wf_empty

lemma tget_in_set: "tget t k = Some v \<Longrightarrow> (k, v) \<in> set t"
  by (simp add: tget_def map_of_SomeD)

lemma tget_of_set: "twf t \<Longrightarrow> (k, v) \<in> set t \<Longrightarrow> tget t k = Some v"
  by (simp add: tget_def twf_def)

lemma set_tretain [simp]: "set (tretain P t) = {e \<in> set t. P (fst e) (snd e)}"
  by (auto simp: tretain_def)

lemma set_tdel [simp]: "set (tdel k t) = {e \<in> set t. fst e \<noteq> k}"
  by (auto simp: tdel_def)

lemma set_tput_subset: "set (tput k v t) \<subseteq> insert (k, v) (set t)"
  by (induction t) (auto simp: tput_def)

lemma set_tput: "twf t \<Longrightarrow> set (tput k v t) = insert (k, v) {e \<in> set t. fst e \<noteq> k}"
proof (induction t)
  case Nil
  then show ?case by (simp add: tput_def)
next
  case (Cons e t)
  then show ?case by (cases e) (force simp: tput_def twf_def)
qed

lemma tput_fresh: "tget t k = None \<Longrightarrow> tput k v t = t @ [(k, v)]"
  by (induction t) (auto simp: tput_def tget_def split: if_splits)

section \<open>Capped tables of recent keys\<close>

text \<open>
  \<open>remember k now\<close> notes that \<open>k\<close> was used at \<open>now\<close>; \<open>alive k now\<close> says whether it still counts.
  A table never holds more than \<open>cap\<close> keys, a key is alive only if it was remembered less than
  \<open>idle\<close> ago, and remembering makes no other key alive.
\<close>

locale flow_cache =
  fixes seen :: "'c \<Rightarrow> 'k \<Rightarrow> time option"
    and remember :: "'k \<Rightarrow> time \<Rightarrow> 'c \<Rightarrow> 'c"
    and size_of :: "'c \<Rightarrow> nat"
    and cap :: nat
    and idle :: duration
    and ok :: "'c \<Rightarrow> bool"
  assumes ok_remember: "ok c \<Longrightarrow> ok (remember k now c)"
    and cap_remember: "ok c \<Longrightarrow> size_of c \<le> cap \<Longrightarrow> size_of (remember k now c) \<le> cap"
    and seen_remember: "ok c \<Longrightarrow> seen (remember k now c) j = Some t \<Longrightarrow>
          seen c j = Some t \<or> (j = k \<and> t = now)"
begin

definition alive :: "'c \<Rightarrow> 'k \<Rightarrow> time \<Rightarrow> bool" where
  "alive c k now \<longleftrightarrow> (\<exists>t. seen c k = Some t \<and> now - t < idle)"

definition remember_all :: "('k \<times> time) list \<Rightarrow> 'c \<Rightarrow> 'c" where
  "remember_all ops c = fold (\<lambda>(k, now). remember k now) ops c"

lemma remember_all_ok: "ok c \<Longrightarrow> ok (remember_all ops c)"
  by (induction ops arbitrary: c) (auto simp: remember_all_def ok_remember split: prod.splits)

lemma remember_all_cap: "ok c \<Longrightarrow> size_of c \<le> cap \<Longrightarrow> size_of (remember_all ops c) \<le> cap"
  by (induction ops arbitrary: c)
     (auto simp: remember_all_def ok_remember cap_remember split: prod.splits)

lemma remember_all_seen:
  "ok c \<Longrightarrow> seen (remember_all ops c) k = Some t \<Longrightarrow> seen c k = Some t \<or> (k, t) \<in> set ops"
proof (induction ops arbitrary: c)
  case Nil
  then show ?case by (simp add: remember_all_def)
next
  case (Cons op ops)
  obtain j now where op: "op = (j, now)" by (cases op)
  from Cons.prems op have "seen (remember_all ops (remember j now c)) k = Some t"
    by (simp add: remember_all_def)
  from Cons.IH [OF ok_remember [OF Cons.prems(1)] this]
  show ?case using seen_remember [OF Cons.prems(1)] op by fastforce
qed

lemma alive_was_remembered:
  assumes "ok c" "\<And>j. seen c j = None" "alive (remember_all ops c) k now"
  shows "\<exists>t. (k, t) \<in> set ops \<and> now - t < idle"
  using assms remember_all_seen [of c ops k] by (fastforce simp: alive_def)

end

end
