(* ===== verification/Framing.thy ===== *)
theory Framing
  imports Tables
begin

text \<open>
  \<^verbatim>\<open>crates/game-bridge/src/framing.rs\<close>: game datagrams cut into link-sized chunks and put together
  again. \<open>reassembler\<close> is generation 1 (one buffer), \<open>channel_reassembler\<close> generation 2 (one buffer
  per channel id, bits 1 to 3 of the header byte).
\<close>

section \<open>Constants\<close>

definition MAX_DATAGRAM_LEN :: nat where "MAX_DATAGRAM_LEN = 65535"
definition MAX_CHUNK :: nat where "MAX_CHUNK = 1900"
definition LINK_PLAINTEXT_CAP :: nat where "LINK_PLAINTEXT_CAP = 1967"

definition FLAG_FINAL :: u8 where "FLAG_FINAL = 0x01"
definition CHANNEL_MASK :: u8 where "CHANNEL_MASK = 0x0E"
definition CHANNEL_SHIFT :: nat where "CHANNEL_SHIFT = 1"
definition MAX_CHANNEL :: u8 where "MAX_CHANNEL = 7"
definition CHANNEL_GAME :: u8 where "CHANNEL_GAME = 0"
definition FRAMING_V1 :: u8 where "FRAMING_V1 = 1"
definition FRAMING_V2 :: u8 where "FRAMING_V2 = 2"

lemmas framing_consts = MAX_DATAGRAM_LEN_def MAX_CHUNK_def LINK_PLAINTEXT_CAP_def FLAG_FINAL_def
  CHANNEL_MASK_def CHANNEL_SHIFT_def MAX_CHANNEL_def CHANNEL_GAME_def FRAMING_V1_def FRAMING_V2_def

definition supports_channels :: "u8 \<Rightarrow> bool" where
  "supports_channels protocol_version \<longleftrightarrow> protocol_version \<ge> FRAMING_V2"

section \<open>Sending\<close>

text \<open>The \<open>while offset < datagram.len()\<close> loop of \<open>frame\<close>, from an offset.\<close>

function frame_from :: "bytes \<Rightarrow> nat \<Rightarrow> bytes list" where
  "frame_from datagram offset =
     (if offset < length datagram then
        let end' = min (offset + MAX_CHUNK) (length datagram);
            is_final = (end' = length datagram);
            chunk = (if is_final then FLAG_FINAL else 0) # take (end' - offset) (drop offset datagram)
        in chunk # frame_from datagram end'
      else [])"
  by pat_completeness auto
termination
  by (relation "measure (\<lambda>(d, off). length d - off)") (auto simp: MAX_CHUNK_def)

declare frame_from.simps [simp del]

definition frame :: "bytes \<Rightarrow> bytes list" where
  "frame datagram = (if datagram = [] then [[FLAG_FINAL]] else frame_from datagram 0)"

datatype channel_too_large = ChannelTooLarge u8

definition frame_on_channel :: "bytes \<Rightarrow> u8 \<Rightarrow> (channel_too_large, bytes list) outcome" where
  "frame_on_channel datagram channel =
     (if channel > MAX_CHANNEL then Err (ChannelTooLarge channel)
      else let tag = push_bit CHANNEL_SHIFT channel AND CHANNEL_MASK;
               chunks = frame datagram
           in if list_all (\<lambda>chunk. chunk \<noteq> []) chunks
              then Ok (map (\<lambda>chunk. chunk[0 := chunk ! 0 OR tag]) chunks)
              else Panic)"

definition header_channel :: "u8 \<Rightarrow> u8" where
  "header_channel header = drop_bit CHANNEL_SHIFT (header AND CHANNEL_MASK)"

fun channel_of :: "bytes \<Rightarrow> u8 option" where
  "channel_of [] = None"
| "channel_of (header # _) = Some (header_channel header)"

definition is_final_header :: "u8 \<Rightarrow> bool" where
  "is_final_header header \<longleftrightarrow> header AND FLAG_FINAL \<noteq> 0"

section \<open>Receiving\<close>

record reassembler =
  r_buf :: bytes

definition new_reassembler :: reassembler where
  "new_reassembler = \<lparr>r_buf = []\<rparr>"

fun push :: "reassembler \<Rightarrow> bytes \<Rightarrow> bytes option \<times> reassembler" where
  "push r [] = (None, r)"
| "push r (header # body) =
     (let buf = r_buf r @ body in
      if is_final_header header
      then (if length buf > MAX_DATAGRAM_LEN then (None, r\<lparr>r_buf := []\<rparr>)
            else (Some buf, r\<lparr>r_buf := []\<rparr>))
      else (None, r\<lparr>r_buf := buf\<rparr>))"

definition reset :: "reassembler \<Rightarrow> reassembler" where
  "reset r = r\<lparr>r_buf := []\<rparr>"

record channel_reassembler =
  cr_buffers :: "(u8, bytes) table"

definition new_channel_reassembler :: channel_reassembler where
  "new_channel_reassembler = \<lparr>cr_buffers = []\<rparr>"

fun channel_push :: "channel_reassembler \<Rightarrow> bytes \<Rightarrow> (u8 \<times> bytes) option \<times> channel_reassembler" where
  "channel_push r [] = (None, r)"
| "channel_push r (header # body) =
     (let channel = header_channel header;
          entry = (case tget (cr_buffers r) channel of None \<Rightarrow> [] | Some b \<Rightarrow> b);
          buf = entry @ body
      in if \<not> is_final_header header
         then (None, r\<lparr>cr_buffers := tput channel buf (cr_buffers r)\<rparr>)
         else let r' = r\<lparr>cr_buffers := tput channel [] (cr_buffers r)\<rparr> in
              if length buf > MAX_DATAGRAM_LEN then (None, r') else (Some (channel, buf), r'))"

definition channel_reset :: "channel_reassembler \<Rightarrow> channel_reassembler" where
  "channel_reset r = r\<lparr>cr_buffers := []\<rparr>"

text \<open>Feeding chunks one by one, collecting what each push returned.\<close>

fun push_all :: "reassembler \<Rightarrow> bytes list \<Rightarrow> bytes option list \<times> reassembler" where
  "push_all r [] = ([], r)"
| "push_all r (c # cs) =
     (let (out, r') = push r c; (outs, r'') = push_all r' cs in (out # outs, r''))"

fun channel_push_all :: "channel_reassembler \<Rightarrow> bytes list
    \<Rightarrow> (u8 \<times> bytes) option list \<times> channel_reassembler" where
  "channel_push_all r [] = ([], r)"
| "channel_push_all r (c # cs) =
     (let (out, r') = channel_push r c; (outs, r'') = channel_push_all r' cs in (out # outs, r''))"

text \<open>The recursion through projections, which is how the proofs below unfold it.\<close>

lemma push_all_Cons:
  "push_all r (c # cs) =
     (fst (push r c) # fst (push_all (snd (push r c)) cs), snd (push_all (snd (push r c)) cs))"
  by (simp add: Let_def split_def)

lemma channel_push_all_Cons:
  "channel_push_all r (c # cs) =
     (fst (channel_push r c) # fst (channel_push_all (snd (channel_push r c)) cs),
      snd (channel_push_all (snd (channel_push r c)) cs))"
  by (simp add: Let_def split_def)

declare push_all.simps(2) [simp del] push_all_Cons [simp]
declare channel_push_all.simps(2) [simp del] channel_push_all_Cons [simp]

section \<open>Headers\<close>

lemma final_flag_final [simp]: "is_final_header FLAG_FINAL"
  by (simp add: is_final_header_def framing_consts)

lemma zero_not_final [simp]: "\<not> is_final_header 0"
  by (simp add: is_final_header_def)

lemma channel_tag_bits:
  assumes "channel \<le> MAX_CHANNEL" "h = 0 \<or> h = FLAG_FINAL"
  shows "header_channel (h OR (push_bit CHANNEL_SHIFT channel AND CHANNEL_MASK)) = channel"
    and "is_final_header (h OR (push_bit CHANNEL_SHIFT channel AND CHANNEL_MASK)) \<longleftrightarrow> h = FLAG_FINAL"
proof -
  have "unat channel \<le> 7"
    using assms(1) by (simp add: MAX_CHANNEL_def word_le_nat_alt)
  then have "unat channel \<in> {0, 1, 2, 3, 4, 5, 6, 7}" by auto
  then have ch: "channel \<in> {0, 1, 2, 3, 4, 5, 6, 7}"
    by (auto simp: word_unat_eq_iff)
  from ch assms(2)
  show "header_channel (h OR (push_bit CHANNEL_SHIFT channel AND CHANNEL_MASK)) = channel"
    by (auto simp: header_channel_def framing_consts)
  from ch assms(2)
  show "is_final_header (h OR (push_bit CHANNEL_SHIFT channel AND CHANNEL_MASK)) \<longleftrightarrow> h = FLAG_FINAL"
    by (auto simp: is_final_header_def framing_consts)
qed

section \<open>The shape of a framed datagram\<close>

lemma frame_from_step:
  assumes "off < length d"
  shows "frame_from d off =
     (if off + MAX_CHUNK < length d
      then (0 # take MAX_CHUNK (drop off d)) # frame_from d (off + MAX_CHUNK)
      else [FLAG_FINAL # drop off d])"
proof (cases "off + MAX_CHUNK < length d")
  case True
  with assms show ?thesis by (subst frame_from.simps) (simp add: Let_def)
next
  case False
  then have "frame_from d (length d) = []" by (subst frame_from.simps) simp
  with False assms show ?thesis by (subst frame_from.simps) (simp add: Let_def min_def)
qed

lemma frame_from_chunks:
  "c \<in> set (frame_from d off) \<Longrightarrow>
     \<exists>h body. c = h # body \<and> (h = 0 \<or> h = FLAG_FINAL) \<and> length body \<le> MAX_CHUNK"
proof (induction d off rule: frame_from.induct)
  case (1 d off)
  show ?case
  proof (cases "off < length d")
    case False
    with "1.prems" show ?thesis by (subst (asm) frame_from.simps) simp
  next
    case lt: True
    show ?thesis
    proof (cases "off + MAX_CHUNK < length d")
      case True
      with lt "1.prems" have "c = 0 # take MAX_CHUNK (drop off d) \<or> c \<in> set (frame_from d (off + MAX_CHUNK))"
        by (simp add: frame_from_step)
      then show ?thesis using "1.IH" [OF lt refl refl refl] True by (auto simp: min_def)
    next
      case False
      with lt "1.prems" have "c = FLAG_FINAL # drop off d" by (simp add: frame_from_step)
      with False show ?thesis by auto
    qed
  qed
qed

lemma frame_chunks:
  "c \<in> set (frame d) \<Longrightarrow>
     \<exists>h body. c = h # body \<and> (h = 0 \<or> h = FLAG_FINAL) \<and> length body \<le> MAX_CHUNK"
  by (auto simp: frame_def split: if_splits dest: frame_from_chunks)

lemma frame_nonempty: "list_all (\<lambda>c. c \<noteq> []) (frame d)"
  by (auto simp: list_all_iff dest: frame_chunks)

lemma frame_on_channel_Ok:
  "channel \<le> MAX_CHANNEL \<Longrightarrow> frame_on_channel d channel =
     Ok (map (\<lambda>c. c[0 := c ! 0 OR (push_bit CHANNEL_SHIFT channel AND CHANNEL_MASK)]) (frame d))"
  using frame_nonempty [of d] by (simp add: frame_on_channel_def Let_def)

section \<open>Generation 1 round trip\<close>

lemma push_all_frame_from:
  "off < length d \<Longrightarrow> length d \<le> MAX_DATAGRAM_LEN \<Longrightarrow>
   push_all \<lparr>r_buf = take off d\<rparr> (frame_from d off) =
     (replicate (length (frame_from d off) - 1) None @ [Some d], new_reassembler)"
proof (induction d off rule: frame_from.induct)
  case (1 d off)
  show ?case
  proof (cases "off + MAX_CHUNK < length d")
    case True
    have ne: "frame_from d (off + MAX_CHUNK) \<noteq> []"
      using True by (subst frame_from.simps) (simp add: Let_def)
    have buf: "take off d @ take MAX_CHUNK (drop off d) = take (off + MAX_CHUNK) d"
      by (simp add: take_add)
    have "push_all \<lparr>r_buf = take (off + MAX_CHUNK) d\<rparr> (frame_from d (off + MAX_CHUNK)) =
        (replicate (length (frame_from d (off + MAX_CHUNK)) - 1) None @ [Some d], new_reassembler)"
      using "1.IH" [OF "1.prems"(1) refl refl refl] True "1.prems"(2) by (simp add: min_def)
    moreover have "Suc (length (frame_from d (off + MAX_CHUNK)) - 1) = length (frame_from d (off + MAX_CHUNK))"
      using ne by (cases "frame_from d (off + MAX_CHUNK)") simp_all
    ultimately show ?thesis
      using True "1.prems"(1)
      by (simp add: frame_from_step [of off d] buf Let_def replicate_Suc [symmetric] del: replicate_Suc)
  next
    case False
    with "1.prems" show ?thesis
      by (simp add: frame_from_step Let_def new_reassembler_def)
  qed
qed

lemma push_all_frame:
  assumes "length d \<le> MAX_DATAGRAM_LEN"
  shows "push_all new_reassembler (frame d) =
     (replicate (length (frame d) - 1) None @ [Some d], new_reassembler)"
proof (cases "d = []")
  case True
  then show ?thesis by (simp add: frame_def new_reassembler_def MAX_DATAGRAM_LEN_def)
next
  case False
  then show ?thesis
    using push_all_frame_from [of 0 d] assms by (simp add: frame_def new_reassembler_def)
qed

lemma push_all_append:
  "push_all r (xs @ ys) =
     (fst (push_all r xs) @ fst (push_all (snd (push_all r xs)) ys),
      snd (push_all (snd (push_all r xs)) ys))"
  by (induction xs arbitrary: r) simp_all

text \<open>Datagrams delivered, in order.\<close>

definition delivered :: "'a option list \<Rightarrow> 'a list" where
  "delivered outs = List.map_filter id outs"

lemma delivered_simps [simp]:
  "delivered [] = []"
  "delivered (None # outs) = delivered outs"
  "delivered (Some d # outs) = d # delivered outs"
  "delivered (xs @ ys) = delivered xs @ delivered ys"
  "delivered (replicate n None) = []"
proof -
  show "delivered (xs @ ys) = delivered xs @ delivered ys"
    by (induction xs) (auto simp: delivered_def List.map_filter_def)
  show "delivered (replicate n None) = []"
    by (induction n) (auto simp: delivered_def List.map_filter_def)
qed (simp_all add: delivered_def List.map_filter_def)

lemma push_all_frames:
  "list_all (\<lambda>d. length d \<le> MAX_DATAGRAM_LEN) ds \<Longrightarrow>
     delivered (fst (push_all new_reassembler (concat (map frame ds)))) = ds
     \<and> snd (push_all new_reassembler (concat (map frame ds))) = new_reassembler"
proof (induction ds)
  case Nil
  then show ?case by simp
next
  case (Cons d ds)
  then show ?case
    by (simp add: push_all_append push_all_frame)
qed

section \<open>Generation 2: one generation 1 reassembler per channel\<close>

definition chan_view :: "channel_reassembler \<Rightarrow> u8 \<Rightarrow> reassembler" where
  "chan_view r ch = \<lparr>r_buf = (case tget (cr_buffers r) ch of None \<Rightarrow> [] | Some b \<Rightarrow> b)\<rparr>"

definition on_channel :: "u8 \<Rightarrow> bytes \<Rightarrow> bool" where
  "on_channel ch c \<longleftrightarrow> channel_of c = Some ch"

text \<open>What the pushes of one channel's chunks returned.\<close>

definition outputs_on :: "u8 \<Rightarrow> bytes list \<Rightarrow> (u8 \<times> bytes) option list \<Rightarrow> bytes option list" where
  "outputs_on ch cs outs = map (map_option snd \<circ> snd) (filter (on_channel ch \<circ> fst) (zip cs outs))"

lemma chan_view_new [simp]: "chan_view new_channel_reassembler ch = new_reassembler"
  by (simp add: chan_view_def new_channel_reassembler_def new_reassembler_def table_simps)

lemma channel_push_own:
  "on_channel ch c \<Longrightarrow>
     push (chan_view r ch) c =
       (map_option snd (fst (channel_push r c)), chan_view (snd (channel_push r c)) ch)"
  by (cases c) (auto simp: on_channel_def chan_view_def Let_def table_simps)

lemma channel_push_other:
  "\<not> on_channel ch c \<Longrightarrow> chan_view (snd (channel_push r c)) ch = chan_view r ch"
  by (cases c) (auto simp: on_channel_def chan_view_def Let_def table_simps)

lemma channel_push_tag: "fst (channel_push r c) = Some (k, d) \<Longrightarrow> on_channel k c"
  by (cases c) (auto simp: on_channel_def Let_def split: if_splits)

lemma length_channel_push_all [simp]: "length (fst (channel_push_all r cs)) = length cs"
  by (induction cs arbitrary: r) simp_all

lemma channel_push_all_view:
  "push_all (chan_view r ch) (filter (on_channel ch) cs) =
     (outputs_on ch cs (fst (channel_push_all r cs)), chan_view (snd (channel_push_all r cs)) ch)"
proof (induction cs arbitrary: r)
  case Nil
  then show ?case by (simp add: outputs_on_def)
next
  case (Cons c cs)
  show ?case
  proof (cases "on_channel ch c")
    case True
    with Cons [of "snd (channel_push r c)"] channel_push_own [of ch c r] show ?thesis
      by (simp add: outputs_on_def)
  next
    case False
    with Cons [of "snd (channel_push r c)"] channel_push_other [of ch c r] show ?thesis
      by (simp add: outputs_on_def)
  qed
qed

text \<open>The same with the channel each was handed to: its own.\<close>

definition tagged_outputs :: "u8 \<Rightarrow> bytes list \<Rightarrow> (u8 \<times> bytes) option list \<Rightarrow> (u8 \<times> bytes) option list" where
  "tagged_outputs ch cs outs = map snd (filter (on_channel ch \<circ> fst) (zip cs outs))"

lemma tagged_output: "on_channel ch c \<Longrightarrow>
    fst (channel_push r c) = map_option (Pair ch) (map_option snd (fst (channel_push r c)))"
  using channel_push_tag [of r c] by (cases "fst (channel_push r c)") (auto simp: on_channel_def)

lemma tagged_outputs_own:
  "tagged_outputs ch cs (fst (channel_push_all r cs))
     = map (map_option (Pair ch)) (outputs_on ch cs (fst (channel_push_all r cs)))"
proof (induction cs arbitrary: r)
  case (Cons c cs)
  then show ?case using tagged_output [of ch c r] by (simp add: tagged_outputs_def outputs_on_def)
qed (simp add: tagged_outputs_def outputs_on_def)

lemma delivered_by_channel:
  "(k, d) \<in> set (delivered (fst (channel_push_all r cs))) \<longleftrightarrow>
     d \<in> set (delivered (outputs_on k cs (fst (channel_push_all r cs))))"
proof (induction cs arbitrary: r)
  case Nil
  then show ?case by (simp add: outputs_on_def)
next
  case (Cons c cs)
  let ?out = "fst (channel_push r c)" and ?r = "snd (channel_push r c)"
  show ?case
  proof (cases ?out)
    case None
    with Cons [of ?r] show ?thesis by (auto simp: outputs_on_def)
  next
    case (Some kd)
    then have "on_channel (fst kd) c" using channel_push_tag [of r c] by (cases kd) auto
    then have "on_channel k c \<longleftrightarrow> k = fst kd" by (auto simp: on_channel_def)
    with Some Cons [of ?r] show ?thesis by (cases kd) (auto simp: outputs_on_def)
  qed
qed

text \<open>The reserved bits are ignored by generation 1: a tagged chunk is pushed as an untagged one.\<close>

lemma push_cong_header:
  "is_final_header h = is_final_header h' \<Longrightarrow> push r (h # body) = push r (h' # body)"
  by simp

lemma push_tagged:
  assumes ch: "channel \<le> MAX_CHANNEL" and c: "c \<in> set (frame d)"
  shows "push r (c[0 := c ! 0 OR (push_bit CHANNEL_SHIFT channel AND CHANNEL_MASK)]) = push r c"
    and "on_channel channel (c[0 := c ! 0 OR (push_bit CHANNEL_SHIFT channel AND CHANNEL_MASK)])"
proof -
  let ?tag = "push_bit CHANNEL_SHIFT channel AND CHANNEL_MASK"
  obtain h body where c': "c = h # body" and h: "h = 0 \<or> h = FLAG_FINAL"
    using frame_chunks [OF c] by blast
  have upd: "c[0 := c ! 0 OR ?tag] = (h OR ?tag) # body"
    by (simp only: c' list_update_code nth_Cons_0)
  have "is_final_header (h OR ?tag) = is_final_header h"
    unfolding channel_tag_bits(2) [OF ch h] using h by (auto simp: FLAG_FINAL_def is_final_header_def)
  then show "push r (c[0 := c ! 0 OR ?tag]) = push r c"
    unfolding upd unfolding c' by (rule push_cong_header)
  show "on_channel channel (c[0 := c ! 0 OR ?tag])"
    unfolding upd on_channel_def channel_of.simps channel_tag_bits(1) [OF ch h] by (rule refl)
qed

lemma push_all_cong:
  "(\<And>c r. c \<in> set cs \<Longrightarrow> push r (f c) = push r c) \<Longrightarrow> push_all r (map f cs) = push_all r cs"
  by (induction cs arbitrary: r) simp_all

lemma push_all_frame_on_channel:
  assumes "channel \<le> MAX_CHANNEL" "frame_on_channel d channel = Ok cs"
  shows "push_all r cs = push_all r (frame d)" and "list_all (on_channel channel) cs"
proof -
  let ?f = "\<lambda>c. c[0 := c ! 0 OR (push_bit CHANNEL_SHIFT channel AND CHANNEL_MASK)]"
  have cs: "cs = map ?f (frame d)"
    using assms frame_on_channel_Ok by simp
  show "push_all r cs = push_all r (frame d)"
    unfolding cs by (rule push_all_cong) (rule push_tagged(1) [OF assms(1)])
  show "list_all (on_channel channel) cs"
    unfolding cs using push_tagged(2) [OF assms(1)] by (auto simp: list_all_iff)
qed

lemma filter_shuffles:
  "zs \<in> shuffles xs ys \<Longrightarrow> list_all P xs \<Longrightarrow> list_all (\<lambda>y. \<not> P y) ys \<Longrightarrow> filter P zs = xs"
proof (induction xs ys arbitrary: zs rule: shuffles.induct)
  case (1 ys)
  then show ?case by (simp add: filter_empty_conv list_all_iff)
next
  case (2 xs)
  then show ?case by (simp add: filter_id_conv list_all_iff)
next
  case (3 x xs y ys)
  then show ?case by auto
qed

section \<open>Properties\<close>

text \<open>
  Round trip of generation 1: any sequence of datagrams, framed back to back and pushed chunk
  by chunk into a fresh reassembler, comes out complete and in order, and leaves the buffer empty.
\<close>

theorem frame_round_trip:
  assumes "list_all (\<lambda>d. length d \<le> MAX_DATAGRAM_LEN) ds"
  shows "delivered (fst (push_all new_reassembler (concat (map frame ds)))) = ds
     \<and> snd (push_all new_reassembler (concat (map frame ds))) = new_reassembler"
  using assms by (rule push_all_frames)

theorem frame_round_trip_witness:
  "delivered (fst (push_all new_reassembler (concat (map frame [[1, 2], [], [3]])))) = [[1, 2], [], [3]]"
proof -
  have h: "list_all (\<lambda>d. length d \<le> MAX_DATAGRAM_LEN) [[1, 2], [], [3 :: u8]]"
    by (simp add: MAX_DATAGRAM_LEN_def)
  show ?thesis using frame_round_trip [OF h] by blast
qed

text \<open>
  C34. Channel isolation: whatever chunks arrive in whatever order, a generation 2 receiver behaves
  on each channel exactly as a generation 1 receiver fed only that channel's chunks, in the outputs
  it gives, each handed to that very channel, and in the buffer it keeps.
\<close>

theorem channels_do_not_braid:
  "tagged_outputs ch cs (fst (channel_push_all r cs))
     = map (map_option (Pair ch)) (fst (push_all (chan_view r ch) (filter (on_channel ch) cs)))
   \<and> chan_view (snd (channel_push_all r cs)) ch
     = snd (push_all (chan_view r ch) (filter (on_channel ch) cs))"
  by (simp add: channel_push_all_view tagged_outputs_own)

text \<open>
  Two datagrams sent on two different channels of one link both arrive, tagged with their own
  channel, under every interleaving of their chunks, and nothing else is delivered.
\<close>

theorem interleaved_channels_round_trip:
  assumes "c1 \<le> MAX_CHANNEL" "c2 \<le> MAX_CHANNEL" "c1 \<noteq> c2"
    and "length d1 \<le> MAX_DATAGRAM_LEN" "length d2 \<le> MAX_DATAGRAM_LEN"
    and "frame_on_channel d1 c1 = Ok xs" "frame_on_channel d2 c2 = Ok ys"
    and "cs \<in> shuffles xs ys"
  shows "set (delivered (fst (channel_push_all new_channel_reassembler cs))) = {(c1, d1), (c2, d2)}"
proof -
  let ?outs = "fst (channel_push_all new_channel_reassembler cs)"
  have on: "list_all (on_channel c1) xs" "list_all (on_channel c2) ys"
    using assms push_all_frame_on_channel(2) by blast+
  then have other: "list_all (\<lambda>c. \<not> on_channel c2 c) xs" "list_all (\<lambda>c. \<not> on_channel c1 c) ys"
    using assms(3) by (auto simp: list_all_iff on_channel_def)
  have f1: "filter (on_channel c1) cs = xs" and f2: "filter (on_channel c2) cs = ys"
    using filter_shuffles [of cs xs ys] filter_shuffles [of cs ys xs] assms(8) on other
    by (simp_all add: shuffles_commutes)
  have "set cs = set xs \<union> set ys" using assms(8) by (rule set_shuffles)
  then have f3: "filter (on_channel k) cs = []" if "k \<noteq> c1" "k \<noteq> c2" for k
    using on that by (fastforce simp: list_all_iff on_channel_def filter_empty_conv)
  have view: "outputs_on k cs ?outs = fst (push_all new_reassembler (filter (on_channel k) cs))" for k
    using channel_push_all_view [of new_channel_reassembler k cs] by simp
  have "set (delivered (outputs_on k cs ?outs)) =
      (if k = c1 then {d1} else if k = c2 then {d2} else {})" for k
    using assms push_all_frame_on_channel(1) [OF assms(1,6)] push_all_frame_on_channel(1) [OF assms(2,7)]
    by (auto simp: view f1 f2 f3 push_all_frame)
  then show ?thesis
    using assms(3) by (auto simp: delivered_by_channel split: if_splits)
qed

theorem interleaved_channels_round_trip_witness:
  "set (delivered (fst (channel_push_all new_channel_reassembler [[7, 9], [1, 5]]))) = {(0, [5]), (3, [9])}"
proof -
  have f: "frame [5] = [[1, 5]]" "frame [9] = [[1, 9]]"
    by (simp_all add: frame_def frame_from_step framing_consts)
  have h: "frame_on_channel [5] 0 = Ok [[1, 5]]" "frame_on_channel [9] 3 = Ok [[7, 9]]"
    by (simp_all add: frame_on_channel_def f Let_def framing_consts)
  have s: "[[7, 9], [1, 5]] \<in> shuffles [[1, 5 :: u8]] [[7, 9]]" by simp
  show ?thesis
    by (rule interleaved_channels_round_trip [OF _ _ _ _ _ h s]) (simp_all add: framing_consts)
qed

text \<open>
  Compatibility with generation 1: channel 0 is byte for byte generation 1's format; every
  chunk on any channel fits one link packet; and a generation 1 receiver cannot tell a tagged
  stream from an untagged one, which is why a tag is sent only to a peer that announced it.
\<close>

theorem channel_framing_compatible:
  "frame_on_channel d CHANNEL_GAME = Ok (frame d)
   \<and> (channel > MAX_CHANNEL \<longrightarrow> frame_on_channel d channel = Err (ChannelTooLarge channel))
   \<and> (channel \<le> MAX_CHANNEL \<longrightarrow>
       (\<exists>cs. frame_on_channel d channel = Ok cs \<and> push_all r cs = push_all r (frame d)
         \<and> (\<forall>c \<in> set cs. length c \<le> MAX_CHUNK + 1 \<and> length c < LINK_PLAINTEXT_CAP)))"
proof (intro conjI impI)
  have "map (\<lambda>c. c[0 := c ! 0 OR (push_bit CHANNEL_SHIFT CHANNEL_GAME AND CHANNEL_MASK)]) (frame d) = frame d"
    by (rule map_idI) (auto dest: frame_chunks simp: CHANNEL_GAME_def)
  then show "frame_on_channel d CHANNEL_GAME = Ok (frame d)"
    by (subst frame_on_channel_Ok) (simp_all add: CHANNEL_GAME_def)
  show "frame_on_channel d channel = Err (ChannelTooLarge channel)" if "channel > MAX_CHANNEL"
    using that by (simp add: frame_on_channel_def)
  assume ch: "channel \<le> MAX_CHANNEL"
  then obtain cs where cs: "frame_on_channel d channel = Ok cs" by (simp add: frame_on_channel_Ok)
  moreover have "length c \<le> MAX_CHUNK + 1" if "c \<in> set cs" for c
    using that cs ch by (auto simp: frame_on_channel_Ok dest!: frame_chunks)
  ultimately show "\<exists>cs. frame_on_channel d channel = Ok cs \<and> push_all r cs = push_all r (frame d)
      \<and> (\<forall>c \<in> set cs. length c \<le> MAX_CHUNK + 1 \<and> length c < LINK_PLAINTEXT_CAP)"
    using push_all_frame_on_channel(1) [OF ch cs] by (fastforce simp: framing_consts)
qed

theorem channel_framing_compatible_witness:
  "frame_on_channel [9] 8 = Err (ChannelTooLarge 8)
   \<and> (\<exists>cs. frame_on_channel [9] 3 = Ok cs \<and> push_all new_reassembler cs = push_all new_reassembler (frame [9]))"
  using channel_framing_compatible [of "[9]" 8 new_reassembler]
    channel_framing_compatible [of "[9]" 3 new_reassembler]
  by (auto simp: MAX_CHANNEL_def)

lemma push_nonfinal: "\<not> is_final_header h \<Longrightarrow> push r (h # body) = (None, r\<lparr>r_buf := r_buf r @ body\<rparr>)"
  by simp

lemma push_all_nonfinal:
  "\<not> is_final_header h \<Longrightarrow> push_all r (replicate n (h # body)) =
     (replicate n None, r\<lparr>r_buf := r_buf r @ concat (replicate n body)\<rparr>)"
  by (induction n arbitrary: r) (simp_all add: Let_def)

text \<open>
  The 64 KiB guard acts only when a final chunk arrives: a peer that never sends one grows the
  buffer by every chunk it sends, without bound and without any output, on every channel.
\<close>

theorem unfinished_buffer_unbounded:
  "push_all new_reassembler (replicate n (0 # replicate MAX_CHUNK b)) =
     (replicate n None, \<lparr>r_buf = replicate (n * MAX_CHUNK) b\<rparr>)"
proof -
  have "concat (replicate n (replicate m b)) = replicate (n * m) b" for m
    by (induction n) (simp_all add: replicate_add)
  then show ?thesis by (simp add: push_all_nonfinal new_reassembler_def)
qed

end
