(* ===== verification/Console.thy ===== *)
theory Console
  imports Prelude
begin

text \<open>
  \<^verbatim>\<open>crates/game-bridge/src/console.rs\<close>: what the platform types at a running game's console. A pack names a
  protocol; every word comes from here, and what crosses from a caller (a map, a name, a reason, a Steam
  ID, a number of bots) is checked first. The engines behind the consoles are not part of the repository:
  one is any function \<open>reads\<close> that takes a line apart into commands and those into words, and what the code
  relies on in it is \<open>takes_plain\<close> and \<open>takes_quoted\<close>. The lemmas say that each line made is read as the one
  command meant, whatever the caller sent.
\<close>

section \<open>Text\<close>

text \<open>\<open>s.chars()\<close> with each character's bytes is \<open>char_slices\<close>; the characters alone.\<close>

definition chars_of :: "str \<Rightarrow> nat list" where
  "chars_of s = map fst (char_slices s)"

definition starts_with :: "str \<Rightarrow> str \<Rightarrow> bool" where
  "starts_with pre s \<longleftrightarrow> take (length pre) s = pre"

definition find_text :: "str \<Rightarrow> str \<Rightarrow> nat option" where
  "find_text pat s = List.find (\<lambda>i. starts_with pat (drop i s)) [0..<Suc (length s)]"

definition contains :: "str \<Rightarrow> str \<Rightarrow> bool" where
  "contains pat s \<longleftrightarrow> find_text pat s \<noteq> None"

text \<open>\<open>s.split(pat).nth(1)\<close>.\<close>

definition second_piece :: "str \<Rightarrow> str \<Rightarrow> str option" where
  "second_piece pat s =
     (case find_text pat s of None \<Rightarrow> None | Some i \<Rightarrow>
        let rest = drop (i + length pat) s in
        Some (case find_text pat rest of None \<Rightarrow> rest | Some j \<Rightarrow> take j rest))"

fun split_at_byte :: "u8 \<Rightarrow> str \<Rightarrow> (str \<times> str) option" where
  "split_at_byte c [] = None"
| "split_at_byte c (b # s) = (if b = c then Some ([], s) else map_option (\<lambda>(l, r). (b # l, r)) (split_at_byte c s))"

fun split_all :: "u8 \<Rightarrow> str \<Rightarrow> str list" where
  "split_all c [] = [[]]"
| "split_all c (b # s) =
     (if b = c then [] # split_all c s
      else case split_all c s of p # ps \<Rightarrow> (b # p) # ps | [] \<Rightarrow> [[b]])"

text \<open>\<open>split_whitespace\<close>, the words as characters with their bytes.\<close>

fun split_words :: "(nat \<times> bytes) list \<Rightarrow> (nat \<times> bytes) list \<Rightarrow> (nat \<times> bytes) list list" where
  "split_words cur [] = (if cur = [] then [] else [cur])"
| "split_words cur (c # cs) =
     (if is_whitespace (fst c) then (if cur = [] then [] else [cur]) @ split_words [] cs
      else split_words (cur @ [c]) cs)"

definition is_digit :: "u8 \<Rightarrow> bool" where
  "is_digit b \<longleftrightarrow> 48 \<le> unat b \<and> unat b \<le> 57"

definition is_alnum :: "u8 \<Rightarrow> bool" where
  "is_alnum b \<longleftrightarrow> is_digit b \<or> (65 \<le> unat b \<and> unat b \<le> 90) \<or> (97 \<le> unat b \<and> unat b \<le> 122)"

text \<open>\<open>str::parse::<u32>\<close>: an optional plus, then digits, refused when too large.\<close>

definition digits_value :: "str \<Rightarrow> nat" where
  "digits_value s = foldl (\<lambda>n b. 10 * n + (unat b - 48)) 0 s"

definition parse_u32 :: "str \<Rightarrow> u32 option" where
  "parse_u32 s =
     (let ds = (if length s > 1 \<and> hd s = 43 then tl s else s) in
      if ds = [] \<or> \<not> list_all is_digit ds \<or> digits_value ds \<ge> 2 ^ 32 then None
      else Some (of_nat (digits_value ds)))"

section \<open>Names\<close>

definition MAX_MAP_NAME_LEN :: nat where "MAX_MAP_NAME_LEN = 64"

datatype map_name_error = MapEmpty | MapTooLong nat | MapNotAllowed nat | Traversal | NoMaps

definition map_char :: "nat \<Rightarrow> bool" where
  "map_char c \<longleftrightarrow> (48 \<le> c \<and> c \<le> 57) \<or> (65 \<le> c \<and> c \<le> 90) \<or> (97 \<le> c \<and> c \<le> 122) \<or> c = 95 \<or> c = 45 \<or> c = 46 \<or> c = 47"

definition validate_map_name :: "str \<Rightarrow> (map_name_error, unit) outcome" where
  "validate_map_name name =
     (if name = [] then Err MapEmpty
      else if length name > MAX_MAP_NAME_LEN then Err (MapTooLong (length name))
      else case List.find (\<lambda>c. \<not> map_char c) (chars_of name) of
        Some c \<Rightarrow> Err (MapNotAllowed c)
      | None \<Rightarrow>
          if starts_with (ascii ''/'') name \<or> starts_with (ascii ''.'') name \<or> contains (ascii ''..'') name
          then Err Traversal else Ok ())"

datatype server_name_error = NotAllowed nat | OptionWord str

definition word_text :: "(nat \<times> bytes) list \<Rightarrow> str" where
  "word_text w = concat (map snd w)"

definition validate_server_name :: "str \<Rightarrow> (server_name_error, unit) outcome" where
  "validate_server_name name =
     (case List.find (\<lambda>c. c = 59 \<or> c = 34 \<or> c = 43 \<or> is_control c) (chars_of name) of
        Some c \<Rightarrow> Err (NotAllowed c)
      | None \<Rightarrow>
          (case List.find (\<lambda>w. starts_with [45] w \<and> length w > 1) (map word_text (split_words [] (char_slices name))) of
             Some word \<Rightarrow> Err (OptionWord word)
           | None \<Rightarrow> Ok ()))"

definition MAX_CONSOLE_LINE_LEN :: nat where "MAX_CONSOLE_LINE_LEN = 256"

datatype console_line_error = LineEmpty | LineTooLong nat | LineControl nat

definition validate_console_line :: "str \<Rightarrow> (console_line_error, unit) outcome" where
  "validate_console_line line =
     (if str_trim line = [] then Err LineEmpty
      else if length line > MAX_CONSOLE_LINE_LEN then Err (LineTooLong (length line))
      else case List.find is_control (chars_of line) of
        Some c \<Rightarrow> Err (LineControl c) | None \<Rightarrow> Ok ())"

section \<open>Protocols\<close>

datatype console_protocol = Goldsrc | Source | Minecraft | Bedrock

fun has_maps :: "console_protocol \<Rightarrow> bool" where
  "has_maps Minecraft = False" | "has_maps Bedrock = False" | "has_maps _ = True"

definition change_map :: "console_protocol \<Rightarrow> str \<Rightarrow> (map_name_error, str) outcome" where
  "change_map p name =
     (if \<not> has_maps p then Err NoMaps
      else and_then (validate_map_name name) (\<lambda>_.
        case p of Goldsrc \<Rightarrow> Ok (ascii ''changelevel '' @ name) | Source \<Rightarrow> Ok (ascii ''changelevel '' @ name)
        | _ \<Rightarrow> Panic))"

fun before_backup :: "console_protocol \<Rightarrow> str list" where
  "before_backup Minecraft = [ascii ''save-off'', ascii ''save-all flush'']"
| "before_backup Bedrock = [ascii ''save hold'']"
| "before_backup _ = []"

fun after_backup :: "console_protocol \<Rightarrow> str list" where
  "after_backup Minecraft = [ascii ''save-on'']"
| "after_backup Bedrock = [ascii ''save resume'']"
| "after_backup _ = []"

fun backup_ready :: "console_protocol \<Rightarrow> (str option \<times> str) option" where
  "backup_ready Minecraft = Some (None, ascii ''Saved the game'')"
| "backup_ready Bedrock = Some (Some (ascii ''save query''), ascii ''Data saved'')"
| "backup_ready _ = None"

definition say :: "console_protocol \<Rightarrow> str \<Rightarrow> (server_name_error, str) outcome" where
  "say p message = and_then (validate_server_name message) (\<lambda>_. Ok (ascii ''say '' @ message))"

fun player_count_line :: "console_protocol \<Rightarrow> str option" where
  "player_count_line Bedrock = Some (ascii ''list'')"
| "player_count_line _ = None"

definition parse_player_count :: "str \<Rightarrow> (u32 \<times> u32) option" where
  "parse_player_count log_line =
     (case second_piece (ascii ''There are '') log_line of None \<Rightarrow> None | Some rest \<Rightarrow>
     (case split_at_byte 47 rest of None \<Rightarrow> None | Some (online, rest) \<Rightarrow>
     (case split_at_byte 32 rest of None \<Rightarrow> None | Some (most, rest) \<Rightarrow>
        if \<not> starts_with (ascii ''players online'') rest then None
        else case parse_u32 online of None \<Rightarrow> None | Some a \<Rightarrow>
             (case parse_u32 most of None \<Rightarrow> None | Some b \<Rightarrow> Some (a, b)))))"

section \<open>Bots\<close>

definition MAX_BOTS :: u8 where "MAX_BOTS = 32"

datatype bot_protocol = Zbot | Yapb

datatype bot_count_error = TooMany u8 u8

definition quota_lines :: "bot_protocol \<Rightarrow> u8 \<Rightarrow> (bot_count_error, str list) outcome" where
  "quota_lines p count =
     (if count > MAX_BOTS then Err (TooMany count MAX_BOTS)
      else Ok (case p of
          Zbot \<Rightarrow> [ascii ''bot_join_after_player 0'', ascii ''bot_quota '' @ show_nat (unat count)]
        | Yapb \<Rightarrow> [ascii ''yb_autovacate 0'', ascii ''yb_quota '' @ show_nat (unat count)]))"

section \<open>Moderation\<close>

datatype player_action = Kick | Ban | Unban | Op | Deop

datatype target_kind = MinecraftName | Gamertag | PlayerName | SteamId

datatype ban_list_kind = GameFile | NodeRecord | NoBanList

definition MAX_REASON_LEN :: nat where "MAX_REASON_LEN = 120"
definition MAX_PLAYER_NAME_LEN :: nat where "MAX_PLAYER_NAME_LEN = 64"

datatype moderation_error = NotSupported player_action | BadTarget target_kind str | ReasonTooLong | BadReason server_name_error

definition is_minecraft_name :: "str \<Rightarrow> bool" where
  "is_minecraft_name s \<longleftrightarrow> 1 \<le> length s \<and> length s \<le> 16 \<and> list_all (\<lambda>b. is_alnum b \<or> b = 95) s"

definition is_gamertag :: "str \<Rightarrow> bool" where
  "is_gamertag s \<longleftrightarrow> 1 \<le> length s \<and> length s \<le> 16 \<and> \<not> starts_with [32] s \<and> \<not> starts_with [32] (rev s)
     \<and> \<not> contains (ascii ''  '') s \<and> list_all (\<lambda>b. is_alnum b \<or> b = 32) s"

definition steam_digits :: "str \<Rightarrow> bool" where
  "steam_digits p \<longleftrightarrow> p \<noteq> [] \<and> length p \<le> 10 \<and> list_all is_digit p"

definition is_steam_id :: "str \<Rightarrow> bool" where
  "is_steam_id s =
     (if starts_with (ascii ''STEAM_'') s then
        (case split_all 58 (drop 6 s) of
           [x, y, z] \<Rightarrow> x \<in> set (map (\<lambda>d. [d]) [48, 49, 50, 51, 52, 53]) \<and> y \<in> set [[48], [49]] \<and> steam_digits z
         | _ \<Rightarrow> False)
      else starts_with (ascii ''[U:1:'') s \<and> drop 5 s \<noteq> [] \<and> last (drop 5 s) = 93
        \<and> steam_digits (butlast (drop 5 s)))"

fun supports :: "console_protocol \<Rightarrow> player_action \<Rightarrow> bool" where
  "supports Minecraft a = True"
| "supports Bedrock a = (a \<in> {Kick, Op, Deop})"
| "supports _ a = (a \<notin> {Op, Deop})"

fun target_kind_of :: "console_protocol \<Rightarrow> player_action \<Rightarrow> target_kind" where
  "target_kind_of Minecraft a = MinecraftName"
| "target_kind_of Bedrock a = Gamertag"
| "target_kind_of _ Kick = PlayerName"
| "target_kind_of _ _ = SteamId"

fun ban_list :: "console_protocol \<Rightarrow> ban_list_kind" where
  "ban_list Minecraft = GameFile" | "ban_list Bedrock = NoBanList" | "ban_list _ = NodeRecord"

fun valid_target :: "target_kind \<Rightarrow> str \<Rightarrow> bool" where
  "valid_target MinecraftName target = is_minecraft_name target"
| "valid_target Gamertag target = is_gamertag target"
| "valid_target SteamId target = is_steam_id target"
| "valid_target PlayerName target =
     (str_trim target \<noteq> [] \<and> length target \<le> MAX_PLAYER_NAME_LEN \<and> validate_server_name target = Ok ())"

definition check_reason :: "str option \<Rightarrow> (moderation_error, str option) outcome" where
  "check_reason reason =
     (case map_option str_trim reason of
        None \<Rightarrow> Ok None
      | Some r \<Rightarrow>
          if r = [] then Ok None
          else if length r > MAX_REASON_LEN then Err ReasonTooLong
          else case validate_server_name r of
            Ok _ \<Rightarrow> Ok (Some r) | Err e \<Rightarrow> Err (BadReason e) | Panic \<Rightarrow> Panic)"

fun action_line :: "console_protocol \<Rightarrow> player_action \<Rightarrow> str \<Rightarrow> str option \<Rightarrow> str option" where
  "action_line Minecraft Kick t r = Some (ascii ''kick '' @ t @ (case r of None \<Rightarrow> [] | Some r \<Rightarrow> 32 # r))"
| "action_line Minecraft Ban t r = Some (ascii ''ban '' @ t @ (case r of None \<Rightarrow> [] | Some r \<Rightarrow> 32 # r))"
| "action_line Minecraft Unban t r = Some (ascii ''pardon '' @ t)"
| "action_line Minecraft Op t r = Some (ascii ''op '' @ t)"
| "action_line Minecraft Deop t r = Some (ascii ''deop '' @ t)"
| "action_line Bedrock Kick t r = Some (ascii ''kick '' @ [34] @ t @ [34] @ (case r of None \<Rightarrow> [] | Some r \<Rightarrow> 32 # r))"
| "action_line Bedrock Op t r = Some (ascii ''op '' @ [34] @ t @ [34])"
| "action_line Bedrock Deop t r = Some (ascii ''deop '' @ [34] @ t @ [34])"
| "action_line Bedrock _ t r = None"
| "action_line _ Kick t r = Some (ascii ''kick '' @ [34] @ t @ [34])"
| "action_line _ Ban t r = Some (ascii ''banid 0 '' @ t @ ascii '' kick'')"
| "action_line _ Unban t r = Some (ascii ''removeid '' @ t)"
| "action_line _ _ t r = None"

definition moderation_lines :: "console_protocol \<Rightarrow> player_action \<Rightarrow> str \<Rightarrow> str option
    \<Rightarrow> (moderation_error, str list) outcome" where
  "moderation_lines p action target reason =
     (if \<not> supports p action then Err (NotSupported action)
      else let kind = target_kind_of p action in
      if \<not> valid_target kind target then Err (BadTarget kind target)
      else and_then (check_reason reason) (\<lambda>r.
        case action_line p action target r of Some line \<Rightarrow> Ok [line] | None \<Rightarrow> Panic))"

definition reapply_bans :: "console_protocol \<Rightarrow> str list \<Rightarrow> str list" where
  "reapply_bans p steam_ids =
     (if ban_list p = NodeRecord then map (\<lambda>i. ascii ''banid 0 '' @ i) (filter is_steam_id steam_ids) else [])"

section \<open>How a console reads a line\<close>

text \<open>The bytes the module's notes say start or end a command: control characters, \<open>;\<close> and \<open>+\<close>; a quote (34)
  is the fourth kind they name.\<close>

definition breaks :: "u8 \<Rightarrow> bool" where
  "breaks b \<longleftrightarrow> unat b < 32 \<or> b = 127 \<or> b = 59 \<or> b = 43"

definition plain :: "str \<Rightarrow> bool" where
  "plain s \<longleftrightarrow> list_all (\<lambda>b. \<not> breaks b \<and> b \<noteq> 34) s"

definition space_words :: "str \<Rightarrow> str list" where
  "space_words s = filter (\<lambda>w. w \<noteq> []) (split_all 32 s)"

text \<open>
  What the code relies on in an engine. A line without any of those bytes is one command, of the words its
  spaces part (\<open>takes_plain\<close>); and a pair of quotes around a text without any makes one word of it, between
  the words before and after (\<open>takes_quoted\<close>; no quote is typed at a Minecraft console). Nothing is
  assumed of any other line.
\<close>

definition takes_plain :: "(str \<Rightarrow> str list list) \<Rightarrow> bool" where
  "takes_plain reads \<longleftrightarrow> (\<forall>l. plain l \<longrightarrow> reads l = [space_words l])"

definition takes_quoted :: "(str \<Rightarrow> str list list) \<Rightarrow> bool" where
  "takes_quoted reads \<longleftrightarrow> (\<forall>a t b. plain a \<and> plain t \<and> plain b \<and> (b = [] \<or> hd b = 32)
     \<longrightarrow> reads (a @ [32, 34] @ t @ [34] @ b) = [space_words a @ t # space_words b])"

section \<open>Characters and their bytes\<close>

text \<open>A character's own bytes are read as that character, whatever follows.\<close>

lemma utf8_next_split:
  assumes "utf8_next bs = Some (c, r)"
  shows "\<exists>p. p \<noteq> [] \<and> bs = p @ r \<and> (\<forall>x. utf8_next (p @ x) = Some (c, x))
    \<and> ((\<exists>b. p = [b] \<and> c = unat b \<and> unat b < 128) \<or> list_all (\<lambda>b. 128 \<le> unat b) p)"
proof (cases bs)
  case Nil
  with assms show ?thesis by simp
next
  case (Cons b t)
  consider "unat b < 128" | "0xC2 \<le> unat b" "unat b \<le> 0xDF" | "0xE0 \<le> unat b" "unat b \<le> 0xEF" | "0xF0 \<le> unat b" "unat b \<le> 0xF4"
    using assms Cons by (fastforce simp: Let_def split: if_splits)
  then show ?thesis
  proof cases
    case 1
    with assms Cons show ?thesis by (intro exI [of _ "[b]"]) simp
  next
    case 2
    with assms Cons obtain c1 where "t = c1 # r" "cont_in 0x80 0xBF c1" "c = (unat b - 0xC0) * 64 + cont_bits c1"
      by (auto simp: Let_def split: list.splits if_splits)
    with 2 Cons show ?thesis by (intro exI [of _ "[b, c1]"]) (simp add: cont_in_def)
  next
    case 3
    let ?lo = "if unat b = 0xE0 then 0xA0 else 0x80" and ?hi = "if unat b = 0xED then 0x9F else 0xBF"
    from 3 assms Cons obtain c1 c2 where t: "t = c1 # c2 # r" and c: "cont_in ?lo ?hi c1" "cont_in 0x80 0xBF c2"
      "c = (unat b - 0xE0) * 4096 + cont_bits c1 * 64 + cont_bits c2"
      by (auto simp: Let_def split: list.splits if_splits)
    from c(1) have "128 \<le> unat c1" by (auto simp: cont_in_def split: if_splits)
    with 3 c t Cons show ?thesis by (intro exI [of _ "[b, c1, c2]"]) (simp add: cont_in_def)
  next
    case 4
    let ?lo = "if unat b = 0xF0 then 0x90 else 0x80" and ?hi = "if unat b = 0xF4 then 0x8F else 0xBF"
    from 4 assms Cons obtain c1 c2 c3 where t: "t = c1 # c2 # c3 # r"
      and c: "cont_in ?lo ?hi c1" "cont_in 0x80 0xBF c2" "cont_in 0x80 0xBF c3"
      "c = (unat b - 0xF0) * 262144 + cont_bits c1 * 4096 + cont_bits c2 * 64 + cont_bits c3"
      by (auto simp: Let_def split: list.splits if_splits)
    from c(1) have "128 \<le> unat c1" by (auto simp: cont_in_def split: if_splits)
    with 4 c t Cons show ?thesis by (intro exI [of _ "[b, c1, c2, c3]"]) (simp add: cont_in_def)
  qed
qed

definition own_char :: "nat \<times> bytes \<Rightarrow> bool" where
  "own_char p \<longleftrightarrow> snd p \<noteq> [] \<and> (\<forall>x. utf8_next (snd p @ x) = Some (fst p, x))
    \<and> (\<forall>b\<in>set (snd p). unat b < 128 \<longrightarrow> snd p = [b] \<and> fst p = unat b)"

lemma char_slices_Nil [simp]: "char_slices [] = []"
  by (subst char_slices.simps) simp

lemma char_slices_own:
  "list_all own_char (char_slices s)"
proof (induction s rule: char_slices.induct)
  case (1 s)
  show ?case
  proof (cases "utf8_next s")
    case (Some q)
    obtain c r where q: "q = (c, r)" by (cases q)
    from utf8_next_split [of s c r] Some q obtain p where "p \<noteq> []" "s = p @ r" "\<forall>x. utf8_next (p @ x) = Some (c, x)"
      "(\<exists>b. p = [b] \<and> c = unat b \<and> unat b < 128) \<or> list_all (\<lambda>b. 128 \<le> unat b) p" by auto
    then have "own_char (c, take (length s - length r) s)" by (auto simp: own_char_def list_all_iff)
    with 1 Some q show ?thesis by (subst char_slices.simps) simp
  qed (subst char_slices.simps, simp)
qed

lemma char_slices_whole: "utf8_valid s \<Longrightarrow> concat (map snd (char_slices s)) = s"
proof (induction s rule: char_slices.induct)
  case (1 s)
  show ?case
  proof (cases "s = []")
    case False
    with "1.prems" obtain c r where n: "utf8_next s = Some (c, r)"
      unfolding utf8_valid_def by (subst (asm) utf8_chars.simps) (auto split: option.splits)
    then have "utf8_valid r" using "1.prems" False
      unfolding utf8_valid_def by (subst (asm) utf8_chars.simps) auto
    moreover obtain p where "s = p @ r" using utf8_next_split [OF n] by blast
    ultimately show ?thesis using "1.IH" [OF n refl] n by (subst char_slices.simps) simp
  qed simp
qed

lemma char_slices_concat: "list_all own_char ps \<Longrightarrow> char_slices (concat (map snd ps)) = ps"
proof (induction ps)
  case (Cons p ps)
  then have "utf8_next (snd p @ concat (map snd ps)) = Some (fst p, concat (map snd ps))" by (simp add: own_char_def)
  with Cons show ?case by (subst char_slices.simps) simp
qed simp

lemma utf8_valid_concat: "list_all own_char ps \<Longrightarrow> utf8_valid (concat (map snd ps))"
proof (induction ps)
  case (Cons p ps)
  then have "utf8_next (snd p @ concat (map snd ps)) = Some (fst p, concat (map snd ps))" "snd p \<noteq> []"
    by (simp_all add: own_char_def)
  with Cons show ?case unfolding utf8_valid_def by (subst utf8_chars.simps) auto
qed simp

lemma str_trim_slices:
  "\<exists>ps. str_trim s = concat (map snd ps) \<and> set ps \<subseteq> set (char_slices s)"
  unfolding str_trim_def Let_def
  by (intro exI conjI, rule refl) (auto dest!: set_dropWhileD)

lemma utf8_valid_trim [simp]: "utf8_valid (str_trim s)"
proof -
  obtain ps where "str_trim s = concat (map snd ps)" "set ps \<subseteq> set (char_slices s)" using str_trim_slices by blast
  moreover from this(2) have "list_all own_char ps"
    using char_slices_own [of s] unfolding list_all_iff by blast
  ultimately show ?thesis by (simp add: utf8_valid_concat)
qed

lemma ascii_byte_char:
  assumes "utf8_valid s" "b \<in> set s" "unat b < 128"
  shows "unat b \<in> set (chars_of s)"
proof -
  from assms(2) have "b \<in> set (concat (map snd (char_slices s)))" by (simp add: char_slices_whole [OF assms(1)])
  then obtain p where "p \<in> set (char_slices s)" "b \<in> set (snd p)" by auto
  with char_slices_own [of s] assms(3) show ?thesis by (force simp: list_all_iff own_char_def chars_of_def)
qed

section \<open>What the checks let through\<close>

lemma plain_append [simp]: "plain (s @ t) \<longleftrightarrow> plain s \<and> plain t"
  by (simp add: plain_def)

lemma plain_Cons: "plain (b # s) \<longleftrightarrow> \<not> breaks b \<and> b \<noteq> 34 \<and> plain s"
  by (simp add: plain_def)

lemma plain_Nil [simp]: "plain []"
  by (simp add: plain_def)

lemma server_name_plain:
  assumes "validate_server_name s = Ok ()" "utf8_valid s"
  shows "plain s"
proof -
  have no: "\<not> (c = 59 \<or> c = 34 \<or> c = 43 \<or> is_control c)" if "c \<in> set (chars_of s)" for c
    using assms(1) that by (auto simp: validate_server_name_def find_None split: option.splits)
  show ?thesis
    unfolding plain_def list_all_iff
  proof
    fix b assume b: "b \<in> set s"
    show "\<not> breaks b \<and> b \<noteq> 34"
    proof (cases "unat b < 128")
      case True
      with no [OF ascii_byte_char [OF assms(2) b]] show ?thesis
        by (auto simp: breaks_def is_control_def)
    next
      case False
      then show ?thesis by (auto simp: breaks_def)
    qed
  qed
qed

lemma alnum_plain: "is_alnum b \<Longrightarrow> \<not> breaks b \<and> b \<noteq> 34 \<and> b \<noteq> 32"
  by (auto simp: is_alnum_def is_digit_def breaks_def)

lemma digit_plain: "is_digit b \<Longrightarrow> \<not> breaks b \<and> b \<noteq> 34 \<and> b \<noteq> 32"
  by (auto simp: is_digit_def breaks_def)

definition one_word :: "str \<Rightarrow> bool" where
  "one_word s \<longleftrightarrow> s \<noteq> [] \<and> plain s \<and> 32 \<notin> set s"

lemma minecraft_name_word:
  assumes "is_minecraft_name s"
  shows "one_word s"
proof -
  have "\<not> breaks b \<and> b \<noteq> 34 \<and> b \<noteq> 32" if "b \<in> set s" for b
    using assms that alnum_plain [of b] by (auto simp: is_minecraft_name_def list_all_iff breaks_def)
  with assms show ?thesis by (auto simp: is_minecraft_name_def one_word_def plain_def list_all_iff)
qed

lemma gamertag_plain:
  assumes "is_gamertag s"
  shows "s \<noteq> []" "plain s"
proof -
  have "\<not> breaks b \<and> b \<noteq> 34" if "b \<in> set s" for b
    using assms that alnum_plain [of b] by (auto simp: is_gamertag_def list_all_iff breaks_def)
  with assms show "s \<noteq> []" "plain s" by (auto simp: is_gamertag_def plain_def list_all_iff)
qed

lemma steam_digits_word: "steam_digits s \<Longrightarrow> one_word s"
  by (auto simp: steam_digits_def one_word_def plain_def list_all_iff dest: digit_plain)

lemma split_all_join:
  "split_all c s = ps \<Longrightarrow> s = concat (map (\<lambda>p. p @ [c]) (butlast ps)) @ last ps \<and> ps \<noteq> []"
proof (induction s arbitrary: ps)
  case (Cons b s)
  obtain q qs where q: "split_all c s = q # qs" using Cons.IH [OF refl] by (cases "split_all c s") auto
  with Cons.IH [OF refl] Cons.prems show ?case by (cases qs) (auto split: if_splits)
qed auto

lemma steam_id_word:
  assumes "is_steam_id s"
  shows "one_word s"
proof (cases "starts_with (ascii ''STEAM_'') s")
  case True
  then obtain x y z where xyz: "split_all 58 (drop 6 s) = [x, y, z]"
    "x \<in> set (map (\<lambda>d. [d]) [48, 49, 50, 51, 52, 53])" "y \<in> set [[48], [49]]" "steam_digits z"
    using assms by (auto simp: is_steam_id_def split: list.splits)
  have t: "take 6 s = ascii ''STEAM_''" using True by (simp add: starts_with_def ascii_def eval_nat_numeral)
  have d: "drop 6 s = x @ [58] @ y @ [58] @ z" using split_all_join [OF xyz(1)] by simp
  have s: "s = ascii ''STEAM_'' @ x @ [58] @ y @ [58] @ z"
    using append_take_drop_id [of 6 s, symmetric] unfolding t d .
  have "plain (ascii ''STEAM_'')" "32 \<notin> set (ascii ''STEAM_'')" by (simp_all add: ascii_def plain_Cons breaks_def)
  moreover have "plain x" "plain y" "32 \<notin> set x" "32 \<notin> set y" using xyz(2,3) by (auto simp: plain_Cons breaks_def)
  ultimately show ?thesis using steam_digits_word [OF xyz(4)]
    unfolding s one_word_def by (simp add: plain_Cons breaks_def)
next
  case False
  then have h: "starts_with (ascii ''[U:1:'') s" "drop 5 s \<noteq> []" "last (drop 5 s) = 93" "steam_digits (butlast (drop 5 s))"
    using assms by (auto simp: is_steam_id_def)
  have t: "take 5 s = ascii ''[U:1:''" using h(1) by (simp add: starts_with_def ascii_def eval_nat_numeral)
  define d where "d = butlast (drop 5 s)"
  have d': "drop 5 s = d @ [93]" using h(2,3) append_butlast_last_id [of "drop 5 s"] by (simp add: d_def)
  have s: "s = ascii ''[U:1:'' @ d @ [93]"
    using append_take_drop_id [of 5 s, symmetric] unfolding t d' .
  have "one_word d" using steam_digits_word [OF h(4)] by (simp add: d_def)
  then show ?thesis unfolding s one_word_def by (simp add: plain_Cons breaks_def ascii_def)
qed

lemma map_name_word:
  assumes "validate_map_name s = Ok ()" "utf8_valid s"
  shows "one_word s"
proof -
  have ok: "map_char c" if "c \<in> set (chars_of s)" for c
    using assms(1) that by (auto simp: validate_map_name_def find_None split: option.splits if_splits)
  have "\<not> breaks b \<and> b \<noteq> 34 \<and> b \<noteq> 32" if b: "b \<in> set s" for b
  proof (cases "unat b < 128")
    case True
    with ok [OF ascii_byte_char [OF assms(2) b]] show ?thesis by (auto simp: breaks_def map_char_def)
  next
    case False
    then show ?thesis by (auto simp: breaks_def)
  qed
  moreover have "s \<noteq> []" using assms(1) by (auto simp: validate_map_name_def)
  ultimately show ?thesis by (auto simp: one_word_def plain_def list_all_iff)
qed

section \<open>How a line made of checked parts is read\<close>

lemma split_all_none: "c \<notin> set w \<Longrightarrow> split_all c w = [w]"
  by (induction w) auto

lemma split_all_piece: "c \<notin> set w \<Longrightarrow> split_all c (w @ c # s) = w # split_all c s"
  by (induction w) auto

lemma space_words_Nil [simp]: "space_words [] = []"
  by (simp add: space_words_def)

lemma space_words_space [simp]: "space_words (32 # s) = space_words s"
  by (simp add: space_words_def)

lemma space_words_word: "one_word w \<Longrightarrow> space_words (w @ 32 # s) = w # space_words s"
  by (simp add: space_words_def split_all_piece one_word_def)

lemma space_words_one: "one_word w \<Longrightarrow> space_words w = [w]"
  by (simp add: space_words_def split_all_none one_word_def)

lemma one_word_plain: "one_word w \<Longrightarrow> plain w"
  by (simp add: one_word_def)

lemma plain_space: "plain (32 # s) \<longleftrightarrow> plain s"
  by (simp add: plain_Cons breaks_def)

lemma reads_plain: "takes_plain reads \<Longrightarrow> plain l \<Longrightarrow> reads l = [space_words l]"
  by (simp add: takes_plain_def)

text \<open>Words typed one after the other are read as those words.\<close>

lemma reads_words:
  assumes "takes_plain reads" "one_word u" "plain s"
  shows "reads (u @ 32 # s) = [u # space_words s]"
  using reads_plain [OF assms(1), of "u @ 32 # s"] assms(2,3)
  by (simp add: one_word_plain plain_space space_words_word)

lemma two_words:
  assumes "takes_plain reads" "one_word u" "one_word w"
  shows "reads (u @ 32 # w) = [[u, w]]"
  using reads_words [OF assms(1,2) one_word_plain [OF assms(3)]] by (simp add: space_words_one [OF assms(3)])

lemma reads_quoted:
  assumes "takes_quoted reads" "one_word u" "plain t" "plain b" "b = [] \<or> hd b = 32"
  shows "reads (u @ 32 # 34 # t @ 34 # b) = [u # t # space_words b]"
  using assms one_word_plain [OF assms(2)] unfolding takes_quoted_def by (simp add: space_words_one [OF assms(2)])

section \<open>Numbers\<close>

lemma show_nat_digits: "list_all is_digit (show_nat n) \<and> show_nat n \<noteq> []"
proof (induction n rule: show_nat.induct)
  case (1 n)
  have d: "is_digit (of_nat (48 + k))" if "k < 10" for k using that by (simp add: is_digit_def del: of_nat_add)
  show ?case
  proof (cases "n < 10")
    case True
    then show ?thesis using d by (subst (1 2) show_nat.simps) (simp del: of_nat_add)
  next
    case False
    then show ?thesis using 1 d [of "n mod 10"] by (subst (1 2) show_nat.simps) (simp del: of_nat_add)
  qed
qed

lemma digits_value_show [simp]: "digits_value (show_nat n) = n"
proof (induction n rule: show_nat.induct)
  case (1 n)
  show ?case
  proof (cases "n < 10")
    case True
    then show ?thesis by (subst show_nat.simps) (simp add: digits_value_def del: of_nat_add)
  next
    case False
    have "unat (of_nat (48 + n mod 10) :: u8) - 48 = n mod 10" by (simp del: of_nat_add)
    with 1 False show ?thesis by (subst show_nat.simps) (simp add: digits_value_def del: of_nat_add)
  qed
qed

lemma parse_show: "parse_u32 (show_nat (unat (n :: u32))) = Some n"
proof -
  have "hd (show_nat (unat n)) \<noteq> 43"
    using show_nat_digits [of "unat n"] by (cases "show_nat (unat n)") (auto simp: is_digit_def)
  then show ?thesis
    using show_nat_digits [of "unat n"] unsigned_less [of n, where ?'a = nat]
    by (simp add: parse_u32_def)
qed

lemma show_nat_word: "one_word (show_nat n)"
  using show_nat_digits [of n] by (auto simp: one_word_def plain_def list_all_iff dest: digit_plain)

lemma split_at_byte_append: "c \<notin> set l \<Longrightarrow> split_at_byte c (l @ c # r) = Some (l, r)"
  by (induction l) auto

lemma player_count_read:
  assumes "find_text (ascii ''There are '') (pre @ ascii ''There are '' @ rest) = Some (length pre)"
    "\<not> contains (ascii ''There are '') rest"
    "rest = show_nat (unat a) @ 47 # show_nat (unat b) @ 32 # ascii ''players online'' @ post"
  shows "parse_player_count (pre @ ascii ''There are '' @ rest) = Some (a, b)"
proof -
  have "second_piece (ascii ''There are '') (pre @ ascii ''There are '' @ rest) = Some rest"
    using assms(1,2) by (simp add: second_piece_def contains_def)
  moreover have "47 \<notin> set (show_nat n)" "32 \<notin> set (show_nat n)" for n
    using show_nat_digits [of n] by (auto simp: list_all_iff is_digit_def)
  ultimately show ?thesis
    by (simp add: parse_player_count_def assms(3) split_at_byte_append starts_with_def parse_show)
qed

section \<open>Properties\<close>

text \<open>What an action means, as the words of one command; a reason is as many words as it has.\<close>

fun meant :: "console_protocol \<Rightarrow> player_action \<Rightarrow> str \<Rightarrow> str option \<Rightarrow> str list" where
  "meant Minecraft Kick t r = ascii ''kick'' # t # (case r of None \<Rightarrow> [] | Some r \<Rightarrow> space_words (str_trim r))"
| "meant Minecraft Ban t r = ascii ''ban'' # t # (case r of None \<Rightarrow> [] | Some r \<Rightarrow> space_words (str_trim r))"
| "meant Minecraft Unban t r = [ascii ''pardon'', t]"
| "meant _ Op t r = [ascii ''op'', t]"
| "meant _ Deop t r = [ascii ''deop'', t]"
| "meant Bedrock Kick t r = ascii ''kick'' # t # (case r of None \<Rightarrow> [] | Some r \<Rightarrow> space_words (str_trim r))"
| "meant _ Kick t r = [ascii ''kick'', t]"
| "meant _ Ban t r = [ascii ''banid'', ascii ''0'', t, ascii ''kick'']"
| "meant _ Unban t r = [ascii ''removeid'', t]"

lemma check_reason_Ok:
  assumes "check_reason r = Ok r'"
  shows "(case r of None \<Rightarrow> [] | Some r \<Rightarrow> space_words (str_trim r)) = (case r' of None \<Rightarrow> [] | Some r \<Rightarrow> space_words r)"
    "r' = Some x \<Longrightarrow> plain x"
proof -
  have p: "validate_server_name (str_trim y) = Ok () \<Longrightarrow> plain (str_trim y)" for y
    by (rule server_name_plain) simp_all
  show "(case r of None \<Rightarrow> [] | Some r \<Rightarrow> space_words (str_trim r)) = (case r' of None \<Rightarrow> [] | Some r \<Rightarrow> space_words r)"
    "r' = Some x \<Longrightarrow> plain x"
    using assms p by (auto simp: check_reason_def split: option.splits if_splits outcome.splits)
qed

lemma valid_target_plain:
  assumes "valid_target k t" "utf8_valid t"
  shows "plain t" "t \<noteq> []" "k \<in> {MinecraftName, SteamId} \<Longrightarrow> one_word t"
  using assms minecraft_name_word [of t] steam_id_word [of t] gamertag_plain [of t] server_name_plain [of t]
  by (cases k; auto simp: one_word_def str_trim_def)+

lemma verbs:
  "one_word (ascii ''kick'')" "one_word (ascii ''ban'')" "one_word (ascii ''pardon'')" "one_word (ascii ''op'')"
  "one_word (ascii ''deop'')" "one_word (ascii ''banid'')" "one_word (ascii ''0'')" "one_word (ascii ''removeid'')"
  "one_word (ascii ''say'')" "one_word (ascii ''changelevel'')" "one_word (ascii ''bot_join_after_player'')"
  "one_word (ascii ''bot_quota'')" "one_word (ascii ''yb_autovacate'')" "one_word (ascii ''yb_quota'')"
  by (simp_all add: one_word_def ascii_def plain_Cons breaks_def)

lemma verb_spaces:
  "ascii ''kick '' = ascii ''kick'' @ [32]" "ascii ''ban '' = ascii ''ban'' @ [32]"
  "ascii ''pardon '' = ascii ''pardon'' @ [32]" "ascii ''op '' = ascii ''op'' @ [32]"
  "ascii ''deop '' = ascii ''deop'' @ [32]" "ascii ''banid 0 '' = ascii ''banid'' @ 32 # ascii ''0'' @ [32]"
  "ascii '' kick'' = 32 # ascii ''kick''" "ascii ''removeid '' = ascii ''removeid'' @ [32]"
  "ascii ''say '' = ascii ''say'' @ [32]" "ascii ''changelevel '' = ascii ''changelevel'' @ [32]"
  by (simp_all add: ascii_def)

text \<open>\<open>banid 0\<close>, with what follows the ID.\<close>

lemma banid_reads:
  assumes "takes_plain reads" "one_word t"
  shows "reads (ascii ''banid'' @ 32 # ascii ''0'' @ 32 # t) = [[ascii ''banid'', ascii ''0'', t]]"
    "reads (ascii ''banid'' @ 32 # ascii ''0'' @ 32 # t @ 32 # ascii ''kick'')
       = [[ascii ''banid'', ascii ''0'', t, ascii ''kick'']]"
proof -
  have p: "plain (ascii ''0'' @ 32 # t)" "plain (ascii ''0'' @ 32 # t @ 32 # ascii ''kick'')"
    using verbs assms(2) by (simp_all add: one_word_plain plain_space)
  show "reads (ascii ''banid'' @ 32 # ascii ''0'' @ 32 # t) = [[ascii ''banid'', ascii ''0'', t]]"
    using reads_words [OF assms(1) verbs(6) p(1)] by (simp add: space_words_word space_words_one verbs assms(2))
  show "reads (ascii ''banid'' @ 32 # ascii ''0'' @ 32 # t @ 32 # ascii ''kick'')
       = [[ascii ''banid'', ascii ''0'', t, ascii ''kick'']]"
    using reads_words [OF assms(1) verbs(6) p(2)] by (simp add: space_words_word space_words_one verbs assms(2))
qed

lemma word_and_reason:
  assumes "takes_plain reads" "one_word u" "one_word t" "plain x"
  shows "reads (u @ 32 # t @ 32 # x) = [u # t # space_words x]"
  using reads_words [OF assms(1,2), of "t @ 32 # x"] assms(3,4)
  by (simp add: one_word_plain plain_space space_words_word)

lemma action_read:
  assumes "action_line p a t r = Some l" "valid_target (target_kind_of p a) t" "utf8_valid t" "supports p a"
    "\<And>x. r = Some x \<Longrightarrow> plain x" "takes_plain reads" "p \<noteq> Minecraft \<Longrightarrow> takes_quoted reads"
  shows "reads l = [meant p a t None @ (if p \<in> {Minecraft, Bedrock} \<and> a = Kick \<or> p = Minecraft \<and> a = Ban
      then (case r of None \<Rightarrow> [] | Some r \<Rightarrow> space_words r) else [])]"
proof -
  note t = valid_target_plain [OF assms(2,3)]
  have w: "one_word t" if "target_kind_of p a \<in> {MinecraftName, SteamId}" using t(3) [OF that] .
  have two: "reads (u @ 32 # t) = [[u, t]]" if "one_word u" "one_word t" for u
    using two_words [OF assms(6) that] .
  have three: "reads (u @ 32 # t @ 32 # x) = [u # t # space_words x]" if "one_word u" "one_word t" "r = Some x" for u x
    using word_and_reason [OF assms(6) that(1,2) assms(5) [OF that(3)]] .
  have quoted: "reads (u @ 32 # 34 # t @ [34]) = [[u, t]]" if "one_word u" "p \<noteq> Minecraft" for u
    using reads_quoted [OF assms(7) [OF that(2)] that(1) t(1), of "[]"] by simp
  have quoted_more: "reads (u @ 32 # 34 # t @ 34 # 32 # x) = [u # t # space_words x]"
    if "one_word u" "p \<noteq> Minecraft" "r = Some x" for u x
    using reads_quoted [OF assms(7) [OF that(2)] that(1) t(1), of "32 # x"] assms(5) [OF that(3)] by (simp add: plain_space)
  note ban = banid_reads [OF assms(6)]
  show ?thesis
    using assms(1,4) w
    by (cases p; cases a; cases r)
      (auto simp: verb_spaces verbs two three quoted quoted_more ban)
qed

lemma meant_reason:
  "supports p a \<Longrightarrow> meant p a t r = meant p a t None @ (if p \<in> {Minecraft, Bedrock} \<and> a = Kick \<or> p = Minecraft \<and> a = Ban
     then (case r of None \<Rightarrow> [] | Some r \<Rightarrow> space_words (str_trim r)) else [])"
  by (cases p; cases a) simp_all

lemma moderation_reads:
  assumes "moderation_lines p a t r = Ok ls" "utf8_valid t" "takes_plain reads" "p \<noteq> Minecraft \<Longrightarrow> takes_quoted reads"
  shows "\<exists>l. ls = [l] \<and> reads l = [meant p a t r]"
proof -
  from assms(1) obtain r' l where sup: "supports p a" "valid_target (target_kind_of p a) t"
    and r': "check_reason r = Ok r'" and l: "action_line p a t r' = Some l" "ls = [l]"
    by (auto simp: moderation_lines_def Let_def and_then_eq_Ok split: if_splits option.splits)
  have "reads l = [meant p a t r]"
    unfolding meant_reason [OF sup(1), of t r] check_reason_Ok(1) [OF r']
    by (rule action_read [OF l(1) sup(2) assms(2) sup(1) check_reason_Ok(2) [OF r'] assms(3,4)])
  with l(2) show ?thesis by simp
qed

lemma moderation_total: "moderation_lines p a t r \<noteq> Panic"
proof -
  have "validate_server_name x \<noteq> Panic" for x by (simp add: validate_server_name_def split: option.split)
  then have "check_reason r \<noteq> Panic"
    by (auto simp: check_reason_def split: option.split outcome.split)
  moreover have "action_line p a t r' \<noteq> None" if "supports p a" for r' using that by (cases p; cases a) simp_all
  ultimately have "and_then (check_reason r) (\<lambda>r. case action_line p a t r of Some line \<Rightarrow> Ok [line] | None \<Rightarrow> Panic) \<noteq> Panic"
    if "supports p a" using that by (auto simp: and_then_eq_Panic split: option.splits) (metis option.distinct(1))
  then show ?thesis by (simp add: moderation_lines_def Let_def)
qed

lemma say_reads:
  assumes "say p m = Ok l" "utf8_valid m" "takes_plain reads"
  shows "reads l = [ascii ''say'' # space_words m]"
proof -
  have v: "validate_server_name m = Ok ()" "l = ascii ''say'' @ 32 # m"
    using assms(1) by (auto simp: say_def and_then_eq_Ok verb_spaces)
  show ?thesis unfolding v(2) by (rule reads_words [OF assms(3) verbs(9) server_name_plain [OF v(1) assms(2)]])
qed

lemma map_reads:
  assumes "change_map p m = Ok l" "utf8_valid m" "takes_plain reads"
  shows "reads l = [[ascii ''changelevel'', m]] \<and> has_maps p"
proof -
  have v: "has_maps p" "validate_map_name m = Ok ()" "l = ascii ''changelevel'' @ 32 # m"
    using assms(1) by (cases p; auto simp: change_map_def and_then_eq_Ok verb_spaces)+
  from two_words [OF assms(3) verbs(10) map_name_word [OF v(2) assms(2)]] v show ?thesis by simp
qed

lemma bans_read:
  assumes "l \<in> set (reapply_bans p ids)" "takes_plain reads"
  shows "\<exists>i\<in>set ids. is_steam_id i \<and> reads l = [[ascii ''banid'', ascii ''0'', i]]"
proof -
  from assms obtain i where i: "i \<in> set ids" "is_steam_id i" "l = ascii ''banid'' @ 32 # ascii ''0'' @ 32 # i"
    by (auto simp: reapply_bans_def verb_spaces split: if_splits)
  with banid_reads(1) [OF assms(2) steam_id_word [OF i(2)]] show ?thesis by blast
qed

lemma quota_reads:
  assumes "quota_lines p n = Ok ls" "takes_plain reads"
  shows "n \<le> 32 \<and> map reads ls = (case p of
      Zbot \<Rightarrow> [[[ascii ''bot_join_after_player'', ascii ''0'']], [[ascii ''bot_quota'', show_nat (unat n)]]]
    | Yapb \<Rightarrow> [[[ascii ''yb_autovacate'', ascii ''0'']], [[ascii ''yb_quota'', show_nat (unat n)]]])"
proof -
  note t = two_words [OF assms(2) verbs(11,7)] two_words [OF assms(2) verbs(12) show_nat_word [of "unat n"]]
    two_words [OF assms(2) verbs(13,7)] two_words [OF assms(2) verbs(14) show_nat_word [of "unat n"]]
  show ?thesis
    using assms(1) t by (cases p) (auto simp: quota_lines_def MAX_BOTS_def ascii_def split: if_splits)
qed

lemma never_panics: "change_map p m \<noteq> Panic" "say p m \<noteq> Panic" "quota_lines b n \<noteq> Panic"
proof -
  have "validate_map_name m \<noteq> Panic" by (simp add: validate_map_name_def split: option.split)
  then show "change_map p m \<noteq> Panic" by (cases p) (auto simp: change_map_def and_then_eq_Panic)
  have "validate_server_name m \<noteq> Panic" by (simp add: validate_server_name_def split: option.split)
  then show "say p m \<noteq> Panic" by (simp add: say_def and_then_eq_Panic)
  show "quota_lines b n \<noteq> Panic" by (simp add: quota_lines_def)
qed

section \<open>A console\<close>

text \<open>One reader that keeps the laws, for concrete lines: the four kinds of bytes start another command in or
  out of quotes, a space parts two words, and a pair of quotes makes one word of what is between them.\<close>

fun commands :: "str \<Rightarrow> str \<Rightarrow> str list" where
  "commands cur [] = [cur]"
| "commands cur (b # s) = (if breaks b then cur # commands [] s else commands (cur @ [b]) s)"

fun words_in :: "bool \<Rightarrow> str \<Rightarrow> str \<Rightarrow> str list" where
  "words_in quoted cur [] = (if cur = [] then [] else [cur])"
| "words_in False cur (b # s) =
     (if b = 32 \<or> b = 34 then (if cur = [] then [] else [cur]) @ words_in (b = 34) [] s
      else words_in False (cur @ [b]) s)"
| "words_in True cur (b # s) = (if b = 34 then cur # words_in False [] s else words_in True (cur @ [b]) s)"

definition console_reads :: "str \<Rightarrow> str list list" where
  "console_reads line = map (words_in False []) (commands [] line)"

lemma commands_plain: "list_all (\<lambda>b. \<not> breaks b) s \<Longrightarrow> commands cur s = [cur @ s]"
  by (induction s arbitrary: cur) simp_all

lemma words_in_space: "34 \<notin> set s \<Longrightarrow> words_in False cur s =
    (case split_all 32 s of w # ws \<Rightarrow> filter (\<lambda>w. w \<noteq> []) ((cur @ w) # ws) | [] \<Rightarrow> [])"
proof (induction s arbitrary: cur)
  case (Cons b s)
  obtain w ws where "split_all 32 s = w # ws" using split_all_join [of 32 s, OF refl] by (cases "split_all 32 s") auto
  with Cons show ?case by auto
qed simp

lemma words_in_plain: "34 \<notin> set s \<Longrightarrow> words_in False [] s = space_words s"
  by (cases "split_all 32 s") (simp_all add: words_in_space space_words_def)

lemma words_in_quoted: "34 \<notin> set t \<Longrightarrow> words_in True cur (t @ 34 # s) = (cur @ t) # words_in False [] s"
  by (induction t arbitrary: cur) auto

lemma words_in_then_quote: "34 \<notin> set a \<Longrightarrow> words_in False cur (a @ 32 # 34 # s) =
    words_in False cur a @ words_in True [] s"
  by (induction a arbitrary: cur) auto

lemma plain_no_quote: "plain s \<Longrightarrow> 34 \<notin> set s \<and> list_all (\<lambda>b. \<not> breaks b) s"
  by (auto simp: plain_def list_all_iff)

lemma console_takes_plain: "takes_plain console_reads"
  unfolding takes_plain_def using plain_no_quote
  by (simp add: console_reads_def commands_plain words_in_plain)

lemma console_takes_quoted: "takes_quoted console_reads"
proof -
  have "console_reads (a @ [32, 34] @ t @ [34] @ b) = [space_words a @ t # space_words b]"
    if "plain a" "plain t" "plain b" for a t b
  proof -
    note n = plain_no_quote [OF that(1)] plain_no_quote [OF that(2)] plain_no_quote [OF that(3)]
    have "list_all (\<lambda>b. \<not> breaks b) (a @ [32, 34] @ t @ [34] @ b)" using n by (simp add: breaks_def)
    then show ?thesis using n
      by (simp add: console_reads_def commands_plain words_in_then_quote words_in_quoted words_in_plain)
  qed
  then show ?thesis unfolding takes_quoted_def by blast
qed


text \<open>A Bedrock server's answer is read as the counts it states: whatever precedes and follows it on the
  line, as long as its words come first and once.\<close>

theorem player_count_round_trip:
  assumes "find_text (ascii ''There are '') (pre @ ascii ''There are '' @ rest) = Some (length pre)"
    "\<not> contains (ascii ''There are '') rest"
    "rest = show_nat (unat a) @ 47 # show_nat (unat b) @ 32 # ascii ''players online'' @ post"
  shows "parse_player_count (pre @ ascii ''There are '' @ rest) = Some (a, b)"
  by (rule player_count_read [OF assms])

text \<open>A Steam ID and a message, as sent.\<close>

lemma sample_id: "is_steam_id (ascii ''STEAM_0:1:5'')" "utf8_valid (ascii ''STEAM_0:1:5'')"
  by code_simp+


theorem player_count_round_trip_witness:
  "parse_player_count (ascii ''[INFO] There are 1/10 players online:'') = Some (1, 10)"
proof -
  have "show_nat 1 = ascii ''1''" by (subst show_nat.simps) (simp add: ascii_def)
  moreover have "show_nat 10 = ascii ''10''" by code_simp
  ultimately have r: "ascii ''1/10 players online:'' = show_nat (unat (1 :: u32)) @ 47 # show_nat (unat (10 :: u32)) @ 32 # ascii ''players online'' @ ascii '':''"
    by (simp add: ascii_def)
  have a: "find_text (ascii ''There are '') (ascii ''[INFO] '' @ ascii ''There are '' @ ascii ''1/10 players online:'') = Some (length (ascii ''[INFO] ''))"
    by code_simp
  have b: "\<not> contains (ascii ''There are '') (ascii ''1/10 players online:'')" by code_simp
  have "ascii ''[INFO] There are 1/10 players online:'' = ascii ''[INFO] '' @ ascii ''There are '' @ ascii ''1/10 players online:''"
    by (simp add: ascii_def)
  with player_count_round_trip [OF a b r] show ?thesis by simp
qed

end
