(* ===== verification/Announce.thy ===== *)
theory Announce
  imports Prelude
begin

text \<open>
  \<^verbatim>\<open>crates/game-bridge/src/announce.rs\<close>: the server-browser announce record, its encoder and its
  decoder. Every index the decoder uses is a checked access of the model (\<open>byte_at\<close>, \<open>slice_at\<close>), so
  that it never panics on any input is a theorem. A \<open>String\<close> field is its UTF-8 bytes.
\<close>

section \<open>Constants\<close>

definition MAX_ANNOUNCE_APP_DATA_LEN :: nat where "MAX_ANNOUNCE_APP_DATA_LEN = 316"
definition MAX_RATCHETED_ANNOUNCE_APP_DATA_LEN :: nat where "MAX_RATCHETED_ANNOUNCE_APP_DATA_LEN = 284"
definition RECORD_VERSION :: u8 where "RECORD_VERSION = 1"
definition MAX_GAME_ID_LEN :: nat where "MAX_GAME_ID_LEN = 24"
definition MAX_NAME_LEN :: nat where "MAX_NAME_LEN = 48"
definition MAX_MAP_LEN :: nat where "MAX_MAP_LEN = 32"

definition FLAG_PASSWORDED :: u8 where "FLAG_PASSWORDED = 0x01"
definition FLAG_ALLOWLISTED :: u8 where "FLAG_ALLOWLISTED = 0x02"
definition FLAG_DEDICATED :: u8 where "FLAG_DEDICATED = 0x04"
definition FLAG_TRANSPORT_MODE_MASK :: u8 where "FLAG_TRANSPORT_MODE_MASK = 0x18"
definition FLAG_TRANSPORT_MODE_SHIFT :: nat where "FLAG_TRANSPORT_MODE_SHIFT = 3"
definition FLAG_CHAT :: u8 where "FLAG_CHAT = 0x20"

lemmas announce_lens = MAX_ANNOUNCE_APP_DATA_LEN_def MAX_RATCHETED_ANNOUNCE_APP_DATA_LEN_def
  MAX_GAME_ID_LEN_def MAX_NAME_LEN_def MAX_MAP_LEN_def
lemmas announce_flag_consts = FLAG_PASSWORDED_def FLAG_ALLOWLISTED_def FLAG_DEDICATED_def
  FLAG_TRANSPORT_MODE_MASK_def FLAG_TRANSPORT_MODE_SHIFT_def FLAG_CHAT_def

section \<open>Flags\<close>

record announce_flags =
  af_passworded :: bool
  af_allowlisted :: bool
  af_dedicated :: bool
  af_transport_mode :: u8
  af_chat :: bool

definition flags_from_byte :: "u8 \<Rightarrow> announce_flags" where
  "flags_from_byte b =
     \<lparr>af_passworded = (b AND FLAG_PASSWORDED \<noteq> 0),
      af_allowlisted = (b AND FLAG_ALLOWLISTED \<noteq> 0),
      af_dedicated = (b AND FLAG_DEDICATED \<noteq> 0),
      af_transport_mode = drop_bit FLAG_TRANSPORT_MODE_SHIFT (b AND FLAG_TRANSPORT_MODE_MASK),
      af_chat = (b AND FLAG_CHAT \<noteq> 0)\<rparr>"

definition flags_to_byte :: "announce_flags \<Rightarrow> u8" where
  "flags_to_byte f =
     (let b = 0;
          b = (if af_passworded f then b OR FLAG_PASSWORDED else b);
          b = (if af_allowlisted f then b OR FLAG_ALLOWLISTED else b);
          b = (if af_dedicated f then b OR FLAG_DEDICATED else b);
          b = (if af_chat f then b OR FLAG_CHAT else b)
      in b OR (push_bit FLAG_TRANSPORT_MODE_SHIFT (af_transport_mode f) AND FLAG_TRANSPORT_MODE_MASK))"

definition is_transport_mode_known :: "announce_flags \<Rightarrow> bool" where
  "is_transport_mode_known f \<longleftrightarrow> af_transport_mode f \<ge> 1 \<and> af_transport_mode f \<le> 3"

definition default_flags :: announce_flags where
  "default_flags = \<lparr>af_passworded = False, af_allowlisted = False, af_dedicated = False,
     af_transport_mode = 1, af_chat = False\<rparr>"

section \<open>The record\<close>

record tlv =
  tlv_kind :: u8
  tlv_data :: bytes

record announce_record =
  rec_protocol_version :: u8
  rec_flags :: announce_flags
  rec_min_link_class :: u8
  rec_players :: u8
  rec_max_players :: u8
  rec_game_id :: str
  rec_name :: str
  rec_map :: str
  rec_tlvs :: "tlv list"

definition is_min_link_class_known :: "announce_record \<Rightarrow> bool" where
  "is_min_link_class_known r \<longleftrightarrow> rec_min_link_class r \<ge> 1 \<and> rec_min_link_class r \<le> 3"

datatype encode_error =
    GameIdEmpty | EncGameIdNotAscii | GameIdTooLong | NameTooLong | MapTooLong
  | UnknownMinLinkClass | UnknownTransportMode | TlvTooLong | OutputTooLong

definition encode_tlv :: "tlv \<Rightarrow> bytes" where
  "encode_tlv t = tlv_kind t # of_nat (length (tlv_data t)) # tlv_data t"

definition encoded_size :: "announce_record \<Rightarrow> nat" where
  "encoded_size r =
     6 + (1 + length (rec_game_id r)) + (1 + length (rec_name r)) + (1 + length (rec_map r))
       + sum_list (map (\<lambda>t. 2 + length (tlv_data t)) (rec_tlvs r))"

definition encode :: "announce_record \<Rightarrow> (encode_error, bytes) outcome" where
  "encode r =
     (if rec_game_id r = [] then Err GameIdEmpty
      else if length (rec_game_id r) > MAX_GAME_ID_LEN then Err GameIdTooLong
      else if \<not> is_ascii (rec_game_id r) then Err EncGameIdNotAscii
      else if length (rec_name r) > MAX_NAME_LEN then Err NameTooLong
      else if length (rec_map r) > MAX_MAP_LEN then Err MapTooLong
      else if rec_min_link_class r < 1 \<or> rec_min_link_class r > 3 then Err UnknownMinLinkClass
      else if af_transport_mode (rec_flags r) < 1 \<or> af_transport_mode (rec_flags r) > 3
           then Err UnknownTransportMode
      else if list_ex (\<lambda>t. length (tlv_data t) > 255) (rec_tlvs r) then Err TlvTooLong
      else if encoded_size r > MAX_RATCHETED_ANNOUNCE_APP_DATA_LEN then Err OutputTooLong
      else Ok (
        [RECORD_VERSION, rec_protocol_version r, flags_to_byte (rec_flags r), rec_min_link_class r,
         rec_players r, rec_max_players r]
        @ of_nat (length (rec_game_id r)) # rec_game_id r
        @ of_nat (length (rec_name r)) # rec_name r
        @ of_nat (length (rec_map r)) # rec_map r
        @ concat (map encode_tlv (rec_tlvs r))))"

section \<open>Decoding\<close>

datatype announce_info = Record announce_record | Legacy "str option"

datatype decode_error =
    Truncated | InvalidUtf8 | GameIdNotAscii | TlvTruncated
  | InvalidGameIdLen nat | InvalidNameLen nat | InvalidMapLen nat | OverBudget nat

text \<open>The three length-prefixed fields; each returns the field and the position after it.\<close>

definition decode_game_id :: "bytes \<Rightarrow> nat \<Rightarrow> (decode_error, str \<times> nat) outcome" where
  "decode_game_id d pos =
     and_then (byte_at d pos) (\<lambda>b.
     let n = unat b in
     if n = 0 \<or> n > MAX_GAME_ID_LEN then Err (InvalidGameIdLen n)
     else let pos = pos + 1 in
       if pos + n > length d then Err Truncated
       else and_then (slice_at d pos (pos + n)) (\<lambda>s.
         if \<not> is_ascii s then Err GameIdNotAscii
         else case from_utf8 s of None \<Rightarrow> Err GameIdNotAscii | Some s \<Rightarrow> Ok (s, pos + n)))"

definition decode_name :: "bytes \<Rightarrow> nat \<Rightarrow> (decode_error, str \<times> nat) outcome" where
  "decode_name d pos =
     (if pos \<ge> length d then Err Truncated
      else and_then (byte_at d pos) (\<lambda>b.
        let n = unat b in
        if n > MAX_NAME_LEN then Err (InvalidNameLen n)
        else let pos = pos + 1 in
          if pos + n > length d then Err Truncated
          else and_then (slice_at d pos (pos + n)) (\<lambda>s.
            case from_utf8 s of None \<Rightarrow> Err InvalidUtf8 | Some s \<Rightarrow> Ok (s, pos + n))))"

definition decode_map :: "bytes \<Rightarrow> nat \<Rightarrow> (decode_error, str \<times> nat) outcome" where
  "decode_map d pos =
     (if pos \<ge> length d then Err Truncated
      else and_then (byte_at d pos) (\<lambda>b.
        let n = unat b in
        if n > MAX_MAP_LEN then Err (InvalidMapLen n)
        else let pos = pos + 1 in
          if pos + n > length d then Err Truncated
          else and_then (slice_at d pos (pos + n)) (\<lambda>s.
            case from_utf8 s of None \<Rightarrow> Err InvalidUtf8 | Some s \<Rightarrow> Ok (s, pos + n))))"

function decode_tlvs :: "bytes \<Rightarrow> nat \<Rightarrow> (decode_error, tlv list) outcome" where
  "decode_tlvs d pos =
     (if pos < length d then
        if pos + 2 > length d then Err Truncated
        else
          and_then (byte_at d pos) (\<lambda>kind.
          and_then (byte_at d (pos + 1)) (\<lambda>len.
          if pos + 2 + unat len > length d then Err TlvTruncated
          else and_then (slice_at d (pos + 2) (pos + 2 + unat len)) (\<lambda>data.
               and_then (decode_tlvs d (pos + 2 + unat len)) (\<lambda>tlvs.
               Ok (\<lparr>tlv_kind = kind, tlv_data = data\<rparr> # tlvs)))))
      else Ok [])"
  by pat_completeness auto
termination
  by (relation "measure (\<lambda>(d, pos). length d - pos)") auto

declare decode_tlvs.simps [simp del]

definition decode_record :: "bytes \<Rightarrow> (decode_error, announce_info) outcome" where
  "decode_record d =
     (if length d < 7 then Err Truncated
      else
        and_then (byte_at d 1) (\<lambda>protocol_version.
        and_then (byte_at d 2) (\<lambda>fb.
        and_then (byte_at d 3) (\<lambda>min_link_class.
        and_then (byte_at d 4) (\<lambda>players.
        and_then (byte_at d 5) (\<lambda>max_players.
        and_then (decode_game_id d 6) (\<lambda>(game_id, pos).
        and_then (decode_name d pos) (\<lambda>(name, pos).
        and_then (decode_map d pos) (\<lambda>(mp, pos).
        and_then (decode_tlvs d pos) (\<lambda>tlvs.
        Ok (Record
          \<lparr>rec_protocol_version = protocol_version, rec_flags = flags_from_byte fb,
           rec_min_link_class = min_link_class, rec_players = players,
           rec_max_players = max_players, rec_game_id = game_id, rec_name = name, rec_map = mp,
           rec_tlvs = tlvs\<rparr>)))))))))))"

definition decode :: "bytes \<Rightarrow> (decode_error, announce_info) outcome" where
  "decode d =
     (if length d > MAX_ANNOUNCE_APP_DATA_LEN then Err (OverBudget (length d))
      else if d = [] then Ok (Legacy None)
      else and_then (byte_at d 0) (\<lambda>version.
        if version \<noteq> RECORD_VERSION
        then (case from_utf8 d of Some s \<Rightarrow> Ok (Legacy (Some s)) | None \<Rightarrow> Err InvalidUtf8)
        else decode_record d))"

section \<open>Flags round trip\<close>

lemma u8_le3_cases: "(m :: u8) \<le> 3 \<Longrightarrow> m \<in> {0, 1, 2, 3}"
proof -
  assume "m \<le> 3"
  then have "unat m \<le> 3" by (simp add: word_le_nat_alt)
  then have "unat m \<in> {0, 1, 2, 3}" by auto
  then show ?thesis by (auto simp: word_unat_eq_iff)
qed

lemma flags_from_to_byte: "af_transport_mode f \<le> 3 \<Longrightarrow> flags_from_byte (flags_to_byte f) = f"
  using u8_le3_cases [of "af_transport_mode f"]
  by (cases f) (auto simp: flags_from_byte_def flags_to_byte_def announce_flag_consts Let_def)

lemma and_flag_eq_0: "n < 8 \<Longrightarrow> (b AND push_bit n 1 = (0 :: u8)) \<longleftrightarrow> \<not> bit b n"
proof -
  assume n: "n < 8"
  have "b AND push_bit n 1 = push_bit n (of_bool (bit b n))"
    by (rule bit_word_eqI) (auto simp: bit_simps)
  with n show ?thesis by (auto simp: bit_eq_iff [of "push_bit n 1"] bit_simps)
qed

lemma flag_bits:
  "b AND FLAG_PASSWORDED = 0 \<longleftrightarrow> \<not> bit b 0"
  "b AND FLAG_ALLOWLISTED = 0 \<longleftrightarrow> \<not> bit b 1"
  "b AND FLAG_DEDICATED = 0 \<longleftrightarrow> \<not> bit b 2"
  "b AND FLAG_CHAT = 0 \<longleftrightarrow> \<not> bit b 5"
  using and_flag_eq_0 [of 0 b] and_flag_eq_0 [of 1 b] and_flag_eq_0 [of 2 b] and_flag_eq_0 [of 5 b]
  by (simp_all add: announce_flag_consts)

lemma flags_to_from_byte: "flags_to_byte (flags_from_byte b) = b AND 0x3F"
proof (rule bit_word_eqI)
  fix i assume "i < LENGTH(8)"
  then have "i \<in> {0, 1, 2, 3, 4, 5, 6, 7}" by auto
  then show "bit (flags_to_byte (flags_from_byte b)) i = bit (b AND 0x3F) i"
    unfolding flags_to_byte_def flags_from_byte_def Let_def
    by (auto simp: flag_bits) (auto simp: announce_flag_consts bit_simps)
qed

lemma transport_mode_from_byte: "af_transport_mode (flags_from_byte b) \<le> 3"
proof -
  have "drop_bit 3 (b AND 0x18) = (drop_bit 3 b AND 3 :: u8)"
    by (simp add: drop_bit_and)
  moreover have "drop_bit 3 b AND 3 \<le> (3 :: u8)" by (rule word_and_le1)
  ultimately show ?thesis by (simp add: flags_from_byte_def announce_flag_consts)
qed

section \<open>Field lemmas\<close>

lemma take_drop_app: "length p = pos \<Longrightarrow> take (length s) (drop (Suc pos) (p @ x # s @ rest)) = s"
  by simp

lemma decode_game_id_enc:
  assumes "s \<noteq> []" "length s \<le> MAX_GAME_ID_LEN" "is_ascii s"
  shows "decode_game_id (p @ of_nat (length s) # s @ rest) (length p) = Ok (s, length p + 1 + length s)"
  using assms by (simp add: decode_game_id_def Let_def announce_lens nth_append)

lemma decode_name_enc:
  assumes "length s \<le> MAX_NAME_LEN" "utf8_valid s"
  shows "decode_name (p @ of_nat (length s) # s @ rest) (length p) = Ok (s, length p + 1 + length s)"
  using assms by (simp add: decode_name_def Let_def announce_lens nth_append)

lemma decode_map_enc:
  assumes "length s \<le> MAX_MAP_LEN" "utf8_valid s"
  shows "decode_map (p @ of_nat (length s) # s @ rest) (length p) = Ok (s, length p + 1 + length s)"
  using assms by (simp add: decode_map_def Let_def announce_lens nth_append)

lemma decode_tlvs_enc:
  assumes "list_all (\<lambda>t. length (tlv_data t) \<le> 255) ts"
  shows "decode_tlvs (p @ concat (map encode_tlv ts)) (length p) = Ok ts"
  using assms
proof (induction ts arbitrary: p)
  case Nil
  then show ?case by (subst decode_tlvs.simps) simp
next
  case (Cons t ts)
  let ?n = "length (tlv_data t)" and ?rest = "concat (map encode_tlv ts)"
  let ?d = "p @ tlv_kind t # of_nat ?n # tlv_data t @ ?rest"
  have IH: "decode_tlvs ?d (length p + 2 + ?n) = Ok ts"
    using Cons.IH [of "p @ tlv_kind t # of_nat ?n # tlv_data t"] Cons.prems by simp
  have "decode_tlvs ?d (length p) = Ok (t # ts)"
    using Cons.prems by (subst decode_tlvs.simps) (simp add: IH [simplified] nth_append)
  then show ?case by (simp add: encode_tlv_def [of t])
qed

text \<open>What a successful read says about the buffer.\<close>

definition has_field :: "bytes \<Rightarrow> nat \<Rightarrow> str \<Rightarrow> nat \<Rightarrow> bool" where
  "has_field d pos s pos' \<longleftrightarrow>
     pos' = pos + 1 + length s \<and> pos' \<le> length d \<and> drop pos d = of_nat (length s) # s @ drop pos' d"

lemma has_field_read:
  assumes "pos < length d" "n = unat (d ! pos)" "pos + 1 + n \<le> length d"
  shows "has_field d pos (take n (drop (pos + 1) d)) (pos + 1 + n)"
proof -
  have "drop pos d = d ! pos # drop (Suc pos) d" using assms(1) by (rule Cons_nth_drop_Suc [symmetric])
  moreover have "drop (Suc pos) d = take n (drop (Suc pos) d) @ drop (Suc pos + n) d"
    by (metis append_take_drop_id drop_drop add.commute)
  moreover have "length (take n (drop (Suc pos) d)) = n" using assms(3) by simp
  moreover have "of_nat n = d ! pos" using assms(2) by simp
  ultimately show ?thesis using assms(3) by (simp add: has_field_def del: length_take)
qed

lemma decode_game_id_field:
  "decode_game_id d pos = Ok (s, pos') \<Longrightarrow>
     has_field d pos s pos' \<and> s \<noteq> [] \<and> length s \<le> MAX_GAME_ID_LEN \<and> is_ascii s"
  using has_field_read [of pos d "unat (d ! pos)"]
  by (auto simp: decode_game_id_def byte_at_def outcome_simps Let_def from_utf8_Some_iff
      split: if_splits option.splits)

lemma decode_name_field:
  "decode_name d pos = Ok (s, pos') \<Longrightarrow>
     has_field d pos s pos' \<and> length s \<le> MAX_NAME_LEN \<and> utf8_valid s"
  using has_field_read [of pos d "unat (d ! pos)"]
  by (auto simp: decode_name_def outcome_simps Let_def from_utf8_Some_iff
      split: if_splits option.splits)

lemma decode_map_field:
  "decode_map d pos = Ok (s, pos') \<Longrightarrow>
     has_field d pos s pos' \<and> length s \<le> MAX_MAP_LEN \<and> utf8_valid s"
  using has_field_read [of pos d "unat (d ! pos)"]
  by (auto simp: decode_map_def outcome_simps Let_def from_utf8_Some_iff
      split: if_splits option.splits)

lemma decode_tlvs_sound:
  "decode_tlvs d pos = Ok ts \<Longrightarrow> pos \<le> length d \<Longrightarrow>
     drop pos d = concat (map encode_tlv ts) \<and> list_all (\<lambda>t. length (tlv_data t) \<le> 255) ts"
proof (induction d pos arbitrary: ts rule: decode_tlvs.induct)
  case (1 d pos)
  show ?case
  proof (cases "pos < length d")
    case False
    with "1.prems" show ?thesis by (subst (asm) decode_tlvs.simps) simp
  next
    case lt: True
    let ?n = "unat (d ! (pos + 1))"
    have l2: "pos + 2 \<le> length d" and ln: "pos + 2 + ?n \<le> length d"
      using "1.prems" lt by (subst (asm) decode_tlvs.simps; auto split: if_splits)+
    then obtain ts' where rec: "decode_tlvs d (pos + 2 + ?n) = Ok ts'"
      and ts: "ts = \<lparr>tlv_kind = d ! pos, tlv_data = take ?n (drop (pos + 2) d)\<rparr> # ts'"
      using "1.prems" lt by (subst (asm) decode_tlvs.simps) (auto simp: outcome_simps)
    have IH: "drop (pos + 2 + ?n) d = concat (map encode_tlv ts')
        \<and> list_all (\<lambda>t. length (tlv_data t) \<le> 255) ts'"
      using "1.IH" [OF lt _ _ _ _ _ rec ln] l2 ln by simp
    have "drop pos d = d ! pos # d ! (pos + 1) # drop (pos + 2) d"
      using lt l2 by (simp add: Cons_nth_drop_Suc)
    moreover have "drop (pos + 2) d = take ?n (drop (pos + 2) d) @ drop (pos + 2 + ?n) d"
      by (metis append_take_drop_id drop_drop add.commute)
    moreover have "length (take ?n (drop (pos + 2) d)) = ?n" using ln by simp
    moreover have "of_nat ?n = d ! (pos + 1)" by simp
    ultimately have "drop pos d =
        encode_tlv \<lparr>tlv_kind = d ! pos, tlv_data = take ?n (drop (pos + 2) d)\<rparr> @ drop (pos + 2 + ?n) d"
      unfolding encode_tlv_def by simp
    moreover have "length (tlv_data (hd ts)) \<le> 255"
      using unat_u8_less [of "d ! (pos + 1)"] by (simp add: ts)
    ultimately show ?thesis using IH by (simp add: ts)
  qed
qed

section \<open>Whole records\<close>

lemma u8_ge_1: "1 \<le> (b :: u8) \<longleftrightarrow> b \<noteq> 0"
  by (auto simp: word_le_nat_alt unat_eq_0 Suc_le_eq unat_gt_0)

lemma encode_Ok_iff:
  "encode r = Ok bs \<longleftrightarrow>
     rec_game_id r \<noteq> [] \<and> length (rec_game_id r) \<le> MAX_GAME_ID_LEN \<and> is_ascii (rec_game_id r)
     \<and> length (rec_name r) \<le> MAX_NAME_LEN \<and> length (rec_map r) \<le> MAX_MAP_LEN
     \<and> is_min_link_class_known r \<and> is_transport_mode_known (rec_flags r)
     \<and> list_all (\<lambda>t. length (tlv_data t) \<le> 255) (rec_tlvs r)
     \<and> encoded_size r \<le> MAX_RATCHETED_ANNOUNCE_APP_DATA_LEN
     \<and> bs = [RECORD_VERSION, rec_protocol_version r, flags_to_byte (rec_flags r), rec_min_link_class r,
              rec_players r, rec_max_players r]
           @ of_nat (length (rec_game_id r)) # rec_game_id r
           @ of_nat (length (rec_name r)) # rec_name r
           @ of_nat (length (rec_map r)) # rec_map r
           @ concat (map encode_tlv (rec_tlvs r))"
  by (auto simp: encode_def is_min_link_class_known_def is_transport_mode_known_def not_le not_less
      list_ex_iff list_all_iff u8_ge_1)

lemma length_concat_tlvs:
  "length (concat (map encode_tlv ts)) = sum_list (map (\<lambda>t. 2 + length (tlv_data t)) ts)"
  by (induction ts) (simp_all add: encode_tlv_def)

lemma encode_length: "encode r = Ok bs \<Longrightarrow> length bs = encoded_size r"
  by (auto simp: encode_Ok_iff encoded_size_def length_concat_tlvs)

lemma encode_bound: "encode r = Ok bs \<Longrightarrow> length bs \<le> MAX_RATCHETED_ANNOUNCE_APP_DATA_LEN"
  using encode_length [of r bs] by (simp add: encode_Ok_iff)

lemma decode_record_encode:
  assumes enc: "encode r = Ok bs" and utf: "utf8_valid (rec_name r)" "utf8_valid (rec_map r)"
  shows "decode_record bs = Ok (Record r)"
proof -
  let ?hd = "[RECORD_VERSION, rec_protocol_version r, flags_to_byte (rec_flags r), rec_min_link_class r,
              rec_players r, rec_max_players r]"
  let ?g = "rec_game_id r" and ?n = "rec_name r" and ?m = "rec_map r"
    and ?ts = "concat (map encode_tlv (rec_tlvs r))"
  let ?p1 = "?hd @ of_nat (length ?g) # ?g"
  let ?p2 = "?p1 @ of_nat (length ?n) # ?n"
  let ?p3 = "?p2 @ of_nat (length ?m) # ?m"
  from enc have bs: "bs = ?p3 @ ?ts" by (simp add: encode_Ok_iff)
  from enc have c: "?g \<noteq> []" "length ?g \<le> MAX_GAME_ID_LEN" "is_ascii ?g" "length ?n \<le> MAX_NAME_LEN"
    "length ?m \<le> MAX_MAP_LEN" "list_all (\<lambda>t. length (tlv_data t) \<le> 255) (rec_tlvs r)"
    "af_transport_mode (rec_flags r) \<le> 3"
    by (simp_all add: encode_Ok_iff is_transport_mode_known_def)
  have g: "decode_game_id bs 6 = Ok (?g, length ?p1)"
    using decode_game_id_enc [OF c(1-3), of ?hd "of_nat (length ?n) # ?n @ of_nat (length ?m) # ?m @ ?ts"]
    by (simp add: bs eval_nat_numeral)
  have n: "decode_name bs (length ?p1) = Ok (?n, length ?p2)"
    using decode_name_enc [OF c(4) utf(1), of ?p1 "of_nat (length ?m) # ?m @ ?ts"] by (simp add: bs)
  have mp: "decode_map bs (length ?p2) = Ok (?m, length ?p3)"
    using decode_map_enc [OF c(5) utf(2), of ?p2 ?ts] by (simp add: bs)
  have t: "decode_tlvs bs (length ?p3) = Ok (rec_tlvs r)"
    using decode_tlvs_enc [OF c(6), of ?p3] by (simp only: bs)
  have len: "7 \<le> length bs" by (simp add: bs)
  have hdr: "bs ! 1 = rec_protocol_version r" "bs ! 2 = flags_to_byte (rec_flags r)"
    "bs ! 3 = rec_min_link_class r" "bs ! 4 = rec_players r" "bs ! 5 = rec_max_players r"
    by (simp_all add: bs)
  show ?thesis
    using len by (simp only: decode_record_def g n mp t hdr byte_at_def and_then.simps prod.case) (simp add: not_less flags_from_to_byte [OF c(7)])
qed

lemma decode_encode:
  assumes "encode r = Ok bs" "utf8_valid (rec_name r)" "utf8_valid (rec_map r)"
  shows "decode bs = Ok (Record r)"
  using decode_record_encode [OF assms] encode_bound [OF assms(1)] assms(1)
  by (simp add: decode_def encode_Ok_iff announce_lens)

lemma decode_Record:
  assumes "decode d = Ok (Record r)"
  shows "length d \<le> MAX_ANNOUNCE_APP_DATA_LEN \<and> d ! 0 = RECORD_VERSION \<and> 7 \<le> length d
    \<and> decode_record d = Ok (Record r)"
  using assms by (auto simp: decode_def decode_record_def outcome_simps split: if_splits option.splits)

lemma drop6: "6 \<le> length d \<Longrightarrow> d = [d ! 0, d ! 1, d ! 2, d ! 3, d ! 4, d ! 5] @ drop 6 d"
  by (cases d; cases "tl d"; cases "tl (tl d)"; cases "tl (tl (tl d))"; cases "tl (tl (tl (tl d)))";
      cases "tl (tl (tl (tl (tl d))))") (auto simp: eval_nat_numeral)

lemma decode_record_layout:
  assumes "decode_record d = Ok (Record r)"
  shows "d = [d ! 0, rec_protocol_version r, d ! 2, rec_min_link_class r, rec_players r, rec_max_players r]
           @ of_nat (length (rec_game_id r)) # rec_game_id r
           @ of_nat (length (rec_name r)) # rec_name r
           @ of_nat (length (rec_map r)) # rec_map r
           @ concat (map encode_tlv (rec_tlvs r))"
    and "rec_flags r = flags_from_byte (d ! 2)"
    and "rec_game_id r \<noteq> []" "length (rec_game_id r) \<le> MAX_GAME_ID_LEN" "is_ascii (rec_game_id r)"
    and "length (rec_name r) \<le> MAX_NAME_LEN" "length (rec_map r) \<le> MAX_MAP_LEN"
    and "utf8_valid (rec_name r)" "utf8_valid (rec_map r)"
    and "list_all (\<lambda>t. length (tlv_data t) \<le> 255) (rec_tlvs r)"
proof -
  obtain p1 p2 p3 where len: "7 \<le> length d"
    and g: "decode_game_id d 6 = Ok (rec_game_id r, p1)"
    and n: "decode_name d p1 = Ok (rec_name r, p2)"
    and mp: "decode_map d p2 = Ok (rec_map r, p3)"
    and t: "decode_tlvs d p3 = Ok (rec_tlvs r)"
    and hdr: "d ! 1 = rec_protocol_version r" "rec_flags r = flags_from_byte (d ! 2)"
      "d ! 3 = rec_min_link_class r" "d ! 4 = rec_players r" "d ! 5 = rec_max_players r"
    using assms by (auto simp: decode_record_def outcome_simps split: if_splits prod.splits)
  note fields = decode_game_id_field [OF g] decode_name_field [OF n] decode_map_field [OF mp]
  then have "p3 \<le> length d" by (simp add: has_field_def)
  note ts = decode_tlvs_sound [OF t this]
  have "drop 6 d = of_nat (length (rec_game_id r)) # rec_game_id r
           @ of_nat (length (rec_name r)) # rec_name r
           @ of_nat (length (rec_map r)) # rec_map r
           @ concat (map encode_tlv (rec_tlvs r))"
    using fields ts by (simp add: has_field_def)
  moreover have "d = [d ! 0, d ! 1, d ! 2, d ! 3, d ! 4, d ! 5] @ drop 6 d"
    using len by (intro drop6) simp
  ultimately show "d = [d ! 0, rec_protocol_version r, d ! 2, rec_min_link_class r, rec_players r, rec_max_players r]
           @ of_nat (length (rec_game_id r)) # rec_game_id r
           @ of_nat (length (rec_name r)) # rec_name r
           @ of_nat (length (rec_map r)) # rec_map r
           @ concat (map encode_tlv (rec_tlvs r))"
    by (simp only: hdr)
  show "list_all (\<lambda>t. length (tlv_data t) \<le> 255) (rec_tlvs r)" using ts by simp
  show "rec_flags r = flags_from_byte (d ! 2)" by (fact hdr(2))
  show "rec_game_id r \<noteq> []" "length (rec_game_id r) \<le> MAX_GAME_ID_LEN" "is_ascii (rec_game_id r)"
    "length (rec_name r) \<le> MAX_NAME_LEN" "length (rec_map r) \<le> MAX_MAP_LEN"
    "utf8_valid (rec_name r)" "utf8_valid (rec_map r)"
    using fields by auto
qed

lemma decode_fields_not_Panic:
  "pos < length d \<Longrightarrow> decode_game_id d pos \<noteq> Panic"
  "decode_name d pos \<noteq> Panic" "decode_map d pos \<noteq> Panic"
  by (auto simp: decode_game_id_def decode_name_def decode_map_def outcome_simps Let_def
      split: option.splits)

lemma decode_tlvs_not_Panic: "decode_tlvs d pos \<noteq> Panic"
proof (induction d pos rule: decode_tlvs.induct)
  case (1 d pos)
  show ?case
  proof
    assume P: "decode_tlvs d pos = Panic"
    then have "pos < length d" "pos + 2 \<le> length d" "pos + 2 + unat (d ! (pos + 1)) \<le> length d"
      "decode_tlvs d (pos + 2 + unat (d ! (pos + 1))) = Panic"
      by (subst (asm) decode_tlvs.simps; auto simp: outcome_simps split: if_splits)+
    then show False using "1.IH" by simp
  qed
qed

lemma decode_record_not_Panic: "decode_record d \<noteq> Panic"
  using decode_tlvs_not_Panic
  by (auto simp: decode_record_def outcome_simps decode_fields_not_Panic)

lemma decode_not_Panic: "decode d \<noteq> Panic"
  by (auto simp: decode_def outcome_simps decode_record_not_Panic split: option.splits)

lemma encode_decode:
  assumes dec: "decode d = Ok (Record r)" and len: "length d \<le> MAX_RATCHETED_ANNOUNCE_APP_DATA_LEN"
    and known: "is_min_link_class_known r" "is_transport_mode_known (rec_flags r)"
  shows "encode r = Ok (d[2 := d ! 2 AND 0x3F])"
proof -
  from decode_Record [OF dec] have v: "d ! 0 = RECORD_VERSION" and dr: "decode_record d = Ok (Record r)"
    by simp_all
  note lay = decode_record_layout [OF dr]
  let ?tl = "of_nat (length (rec_game_id r)) # rec_game_id r
           @ of_nat (length (rec_name r)) # rec_name r
           @ of_nat (length (rec_map r)) # rec_map r
           @ concat (map encode_tlv (rec_tlvs r))"
  have len': "length d = 6 + length ?tl" by (subst lay(1)) simp
  have size: "encoded_size r \<le> MAX_RATCHETED_ANNOUNCE_APP_DATA_LEN"
    using len len' by (simp add: encoded_size_def length_concat_tlvs)
  have "d[2 := d ! 2 AND 0x3F] =
     ([d ! 0, rec_protocol_version r, d ! 2, rec_min_link_class r, rec_players r, rec_max_players r] @ ?tl)
       [2 := flags_to_byte (rec_flags r)]"
    by (simp only: lay(1) [symmetric] lay(2) flags_to_from_byte)
  also have "\<dots> = [RECORD_VERSION, rec_protocol_version r, flags_to_byte (rec_flags r),
       rec_min_link_class r, rec_players r, rec_max_players r] @ ?tl"
    by (simp add: v eval_nat_numeral)
  finally show ?thesis
    using lay(3-) known size by (simp add: encode_Ok_iff)
qed

lemma decode_legacy_iff:
  "decode d = Ok (Legacy l) \<longleftrightarrow>
     length d \<le> MAX_ANNOUNCE_APP_DATA_LEN
     \<and> (d = [] \<and> l = None \<or> d \<noteq> [] \<and> d ! 0 \<noteq> RECORD_VERSION \<and> utf8_valid d \<and> l = Some d)"
  by (auto simp: decode_def decode_record_def outcome_simps from_utf8_Some_iff from_utf8_None_iff
      split: option.splits)

section \<open>Properties\<close>

text \<open>Every record the encoder accepts is read back unchanged, every field and every TLV included, and
  its encoding fits a ratcheted announce (284 bytes). The name and the map are Rust strings, which is
  the only hypothesis beside the encoder's success.
\<close>
theorem announce_round_trip:
  assumes "encode r = Ok bs" "utf8_valid (rec_name r)" "utf8_valid (rec_map r)"
  shows "decode bs = Ok (Record r) \<and> length bs \<le> MAX_RATCHETED_ANNOUNCE_APP_DATA_LEN"
  using decode_encode [OF assms] encode_bound [OF assms(1)] by simp

definition sample_record :: announce_record where
  "sample_record =
     \<lparr>rec_protocol_version = 2,
      rec_flags = \<lparr>af_passworded = True, af_allowlisted = False, af_dedicated = True,
                   af_transport_mode = 2, af_chat = True\<rparr>,
      rec_min_link_class = 2, rec_players = 3, rec_max_players = 16,
      rec_game_id = [0x71, 0x33], rec_name = [0x48, 0x69], rec_map = [0x64, 0x6D],
      rec_tlvs = [\<lparr>tlv_kind = 7, tlv_data = [1, 2]\<rparr>]\<rparr>"

definition sample_bytes :: bytes where
  "sample_bytes = [1, 2, 0x35, 2, 3, 16, 2, 0x71, 0x33, 2, 0x48, 0x69, 2, 0x64, 0x6D, 7, 2, 1, 2]"

lemma sample_encode: "encode sample_record = Ok sample_bytes"
  by (simp add: encode_Ok_iff sample_record_def sample_bytes_def announce_lens is_ascii_def
      is_min_link_class_known_def is_transport_mode_known_def encoded_size_def encode_tlv_def
      RECORD_VERSION_def flags_to_byte_def announce_flag_consts)

lemma sample_utf8: "utf8_valid (rec_name sample_record)" "utf8_valid (rec_map sample_record)"
  by (simp_all add: sample_record_def is_ascii_def)

lemma sample_decode: "decode sample_bytes = Ok (Record sample_record)"
  using decode_encode [OF sample_encode sample_utf8] .

theorem announce_round_trip_witness:
  "decode sample_bytes = Ok (Record sample_record) \<and> length sample_bytes \<le> MAX_RATCHETED_ANNOUNCE_APP_DATA_LEN"
  using announce_round_trip [OF sample_encode sample_utf8] .

text \<open>The decoder panics on no input, and what it reads as a record is what the bytes say: encoding the
  record again gives the same bytes, apart from the two reserved flag bits, which come back cleared.
  The link class and the transport mode are the only values the decoder passes through unchecked.
\<close>
theorem announce_decode_sound:
  "decode d \<noteq> Panic \<and>
   (decode d = Ok (Record r) \<and> length d \<le> MAX_RATCHETED_ANNOUNCE_APP_DATA_LEN
    \<and> is_min_link_class_known r \<and> is_transport_mode_known (rec_flags r)
    \<longrightarrow> encode r = Ok (d[2 := d ! 2 AND 0x3F]))"
  using decode_not_Panic encode_decode by blast

lemma sample_known: "is_min_link_class_known sample_record"
  "is_transport_mode_known (rec_flags sample_record)"
  "length sample_bytes \<le> MAX_RATCHETED_ANNOUNCE_APP_DATA_LEN"
  by (simp_all add: sample_record_def sample_bytes_def announce_lens is_min_link_class_known_def
      is_transport_mode_known_def)

theorem announce_decode_sound_witness:
  "encode sample_record = Ok (sample_bytes[2 := sample_bytes ! 2 AND 0x3F])"
  using announce_decode_sound [of sample_bytes sample_record] sample_decode sample_known by simp

end
