(* ===== verification/Ports.thy ===== *)
theory Ports
  imports Prelude
begin

text \<open>
  \<^verbatim>\<open>crates/platform-agent/src/ports.rs\<close>: the allocator that hands host ports to instances. The free
  queue (a \<^verbatim>\<open>VecDeque\<close>) is a list with its front first, the held set (a \<^verbatim>\<open>BTreeSet\<close>) a set.
\<close>

record port_range =
  pr_start :: u16
  pr_end :: u16

definition contains :: "port_range \<Rightarrow> u16 \<Rightarrow> bool" where
  "contains r port \<longleftrightarrow> port \<ge> pr_start r \<and> port \<le> pr_end r"

datatype port_error = Exhausted port_range | OutOfRange u16 port_range | AlreadyHeld u16

record allocator =
  pa_range :: port_range
  pa_free :: "u16 list"
  pa_held :: "u16 set"

text \<open>\<open>range.start..=range.end\<close>, in order.\<close>

definition range_list :: "port_range \<Rightarrow> u16 list" where
  "range_list r = map of_nat [unat (pr_start r)..<Suc (unat (pr_end r))]"

definition new_allocator :: "port_range \<Rightarrow> allocator" where
  "new_allocator r = \<lparr>pa_range = r, pa_free = range_list r, pa_held = {}\<rparr>"

definition reserve_one :: "u16 \<Rightarrow> allocator \<Rightarrow> allocator" where
  "reserve_one port a =
     a\<lparr>pa_free := filter (\<lambda>p. p \<noteq> port) (pa_free a), pa_held := insert port (pa_held a)\<rparr>"

definition with_reserved :: "port_range \<Rightarrow> u16 list \<Rightarrow> allocator" where
  "with_reserved r reserved = fold reserve_one reserved (new_allocator r)"

definition allocate :: "allocator \<Rightarrow> (port_error, u16) outcome \<times> allocator" where
  "allocate a =
     (case pa_free a of
        port # rest \<Rightarrow> (Ok port, a\<lparr>pa_free := rest, pa_held := insert port (pa_held a)\<rparr>)
      | [] \<Rightarrow> (Err (Exhausted (pa_range a)), a))"

definition reserve :: "u16 \<Rightarrow> allocator \<Rightarrow> (port_error, unit) outcome \<times> allocator" where
  "reserve port a =
     (if \<not> contains (pa_range a) port then (Err (OutOfRange port (pa_range a)), a)
      else if port \<in> pa_held a then (Err (AlreadyHeld port), a)
      else (Ok (), reserve_one port a))"

definition release :: "u16 \<Rightarrow> allocator \<Rightarrow> allocator" where
  "release port a =
     (if port \<in> pa_held a
      then (let a' = a\<lparr>pa_held := pa_held a - {port}\<rparr> in
            if contains (pa_range a) port then a'\<lparr>pa_free := pa_free a @ [port]\<rparr> else a')
      else a)"

definition release_all :: "u16 list \<Rightarrow> allocator \<Rightarrow> allocator" where
  "release_all ports a = fold release ports a"

fun take_slot :: "u16 option \<Rightarrow> allocator \<Rightarrow> (port_error, u16) outcome \<times> allocator" where
  "take_slot (Some p) a = (let (r, a') = reserve p a in (and_then r (\<lambda>_. Ok p), a'))"
| "take_slot None a = allocate a"

fun acquire_loop :: "u16 option list \<Rightarrow> u16 list \<Rightarrow> allocator
    \<Rightarrow> (port_error, u16 list) outcome \<times> allocator" where
  "acquire_loop [] taken a = (Ok taken, a)"
| "acquire_loop (slot # slots) taken a =
     (case take_slot slot a of
        (Ok p, a') \<Rightarrow> acquire_loop slots (taken @ [p]) a'
      | (Err e, a') \<Rightarrow> (Err e, release_all taken a')
      | (Panic, a') \<Rightarrow> (Panic, a'))"

definition acquire :: "u16 option list \<Rightarrow> allocator
    \<Rightarrow> (port_error, u16 list) outcome \<times> allocator" where
  "acquire requested a = acquire_loop requested [] a"

definition held :: "allocator \<Rightarrow> u16 list" where
  "held a = sorted_list_of_set (pa_held a)"

definition available :: "allocator \<Rightarrow> nat" where
  "available a = length (pa_free a)"

section \<open>The invariant\<close>

text \<open>No port is queued twice, no queued port is held, and every port of the range is queued or held.\<close>

definition alloc_ok :: "allocator \<Rightarrow> bool" where
  "alloc_ok a \<longleftrightarrow>
     distinct (pa_free a) \<and> set (pa_free a) \<inter> pa_held a = {}
     \<and> set (pa_free a) = {p. contains (pa_range a) p} - pa_held a"

lemma set_range_list: "set (range_list r) = {p. contains r p}"
proof -
  have "p \<in> set (range_list r)" if "contains r p" for p
    using that unfolding range_list_def contains_def set_map set_upt word_le_nat_alt
    by (intro image_eqI [where x = "unat p"]) simp_all
  moreover have "contains r p" if p: "p \<in> set (range_list r)" for p
  proof -
    from p obtain i where i: "unat (pr_start r) \<le> i" "i \<le> unat (pr_end r)" "p = of_nat i"
      by (auto simp: range_list_def)
    then have "unat p = i" using unat_u16_less [of "pr_end r"] by simp
    with i show ?thesis by (simp add: contains_def word_le_nat_alt)
  qed
  ultimately show ?thesis by blast
qed

lemma distinct_range_list: "distinct (range_list r)"
proof -
  have "inj_on (of_nat :: nat \<Rightarrow> u16) {unat (pr_start r)..<Suc (unat (pr_end r))}"
  proof (rule inj_onI)
    fix x y assume "x \<in> {unat (pr_start r)..<Suc (unat (pr_end r))}"
      "y \<in> {unat (pr_start r)..<Suc (unat (pr_end r))}" and eq: "(of_nat x :: u16) = of_nat y"
    then have "x < 65536" "y < 65536" using unat_u16_less [of "pr_end r"] by auto
    with arg_cong [OF eq, of unat] show "x = y" by simp
  qed
  then show ?thesis unfolding range_list_def distinct_map set_upt using distinct_upt by blast
qed

lemma new_ok [step_inv]: "alloc_ok (new_allocator r)"
  by (simp add: alloc_ok_def new_allocator_def set_range_list distinct_range_list)

lemma reserve_one_ok [step_inv]: "alloc_ok a \<Longrightarrow> alloc_ok (reserve_one p a)"
  by (auto simp: alloc_ok_def reserve_one_def)

lemma with_reserved_ok [step_inv]: "alloc_ok (with_reserved r ps)"
proof -
  have "alloc_ok a \<Longrightarrow> alloc_ok (fold reserve_one ps a)" for a
    by (induction ps arbitrary: a) (simp_all add: step_inv)
  then show ?thesis by (simp add: with_reserved_def step_inv)
qed

lemma allocate_ok [step_inv]: "alloc_ok a \<Longrightarrow> alloc_ok (snd (allocate a))"
  by (auto simp: alloc_ok_def allocate_def split: list.splits)

lemma reserve_ok [step_inv]: "alloc_ok a \<Longrightarrow> alloc_ok (snd (reserve p a))"
  by (simp add: reserve_def step_inv)

lemma release_ok [step_inv]: "alloc_ok a \<Longrightarrow> alloc_ok (release p a)"
  by (auto simp: alloc_ok_def release_def Let_def)

lemma release_all_ok [step_inv]: "alloc_ok a \<Longrightarrow> alloc_ok (release_all ps a)"
  by (induction ps arbitrary: a) (simp_all add: release_all_def step_inv)

lemma take_slot_ok [step_inv]: "alloc_ok a \<Longrightarrow> alloc_ok (snd (take_slot s a))"
  by (cases s) (simp_all add: step_inv split_def Let_def)

section \<open>What one slot takes\<close>

lemma take_slot_Ok:
  assumes "take_slot s a = (Ok p, a')" "alloc_ok a"
  shows "p \<notin> pa_held a \<and> contains (pa_range a) p \<and> pa_held a' = insert p (pa_held a)
    \<and> pa_range a' = pa_range a \<and> (s = None \<or> s = Some p) \<and> alloc_ok a'"
proof -
  from assms have "alloc_ok a'" using take_slot_ok [of a s] by simp
  moreover have "p \<in> {p. contains (pa_range a) p} - pa_held a" if "pa_free a = p # r" for r
    using that assms(2) by (auto simp: alloc_ok_def)
  ultimately show ?thesis using assms
    by (cases s) (auto simp: reserve_def reserve_one_def allocate_def outcome_simps
      split: if_splits list.splits)
qed

lemma take_slot_Err: "take_slot s a = (Err e, a') \<Longrightarrow> a' = a"
  by (cases s) (auto simp: reserve_def allocate_def outcome_simps split: if_splits list.splits)

lemma take_slot_Panic: "fst (take_slot s a) \<noteq> Panic"
  by (cases s) (auto simp: reserve_def allocate_def split: list.splits)

lemma release_range [simp]: "pa_range (release p a) = pa_range a"
  by (simp add: release_def Let_def)

lemma release_held [simp]: "pa_held (release p a) = pa_held a - {p}"
  by (simp add: release_def Let_def)

lemma release_all_held [simp]: "pa_held (release_all ps a) = pa_held a - set ps"
  by (induction ps arbitrary: a) (auto simp: release_all_def)

lemma release_all_range [simp]: "pa_range (release_all ps a) = pa_range a"
  by (induction ps arbitrary: a) (auto simp: release_all_def)

lemma ok_free_set: "alloc_ok a \<Longrightarrow> set (pa_free a) = {p. contains (pa_range a) p} - pa_held a"
  by (simp add: alloc_ok_def)

lemma ok_length:
  "alloc_ok a \<Longrightarrow> length (pa_free a) = card ({p. contains (pa_range a) p} - pa_held a)"
  by (simp add: alloc_ok_def flip: distinct_card)

section \<open>Whole sets\<close>

lemma acquire_loop_Ok:
  "acquire_loop slots taken a = (Ok ps, a') \<Longrightarrow> alloc_ok a \<Longrightarrow>
     \<exists>new. ps = taken @ new \<and> distinct new \<and> set new \<inter> pa_held a = {}
       \<and> (\<forall>p\<in>set new. contains (pa_range a) p) \<and> pa_held a' = pa_held a \<union> set new
       \<and> pa_range a' = pa_range a \<and> alloc_ok a'
       \<and> list_all2 (\<lambda>s p. s = None \<or> s = Some p) slots new"
proof (induction slots arbitrary: taken a)
  case Nil
  then show ?case by auto
next
  case (Cons s slots)
  from Cons.prems(1) obtain p a1 where step: "take_slot s a = (Ok p, a1)"
    and rest: "acquire_loop slots (taken @ [p]) a1 = (Ok ps, a')"
    by (auto split: prod.splits outcome.splits)
  note one = take_slot_Ok [OF step Cons.prems(2)]
  from Cons.IH [OF rest] one obtain new where "ps = (taken @ [p]) @ new" "distinct new"
    "set new \<inter> pa_held a1 = {}" "\<forall>q\<in>set new. contains (pa_range a1) q"
    "pa_held a' = pa_held a1 \<union> set new" "pa_range a' = pa_range a1" "alloc_ok a'"
    "list_all2 (\<lambda>s p. s = None \<or> s = Some p) slots new" by blast
  with one show ?case by (intro exI [of _ "p # new"]) auto
qed

lemma acquire_loop_Err:
  "acquire_loop slots taken a = (Err e, a') \<Longrightarrow> alloc_ok a \<Longrightarrow>
     alloc_ok a' \<and> pa_held a' = pa_held a - set taken \<and> pa_range a' = pa_range a"
proof (induction slots arbitrary: taken a)
  case Nil
  then show ?case by simp
next
  case (Cons s slots)
  consider p a1 where "take_slot s a = (Ok p, a1)" "acquire_loop slots (taken @ [p]) a1 = (Err e, a')"
    | "take_slot s a = (Err e, a)" "a' = release_all taken a"
    using Cons.prems(1) by (auto dest: take_slot_Err split: prod.splits outcome.splits)
  then show ?case
  proof cases
    case 1
    from take_slot_Ok [OF 1(1) Cons.prems(2)] Cons.IH [OF 1(2)] show ?thesis by auto
  next
    case 2
    with Cons.prems(2) show ?thesis by (simp add: step_inv)
  qed
qed

lemma acquire_loop_Panic: "fst (acquire_loop slots taken a) \<noteq> Panic"
proof (induction slots arbitrary: taken a)
  case (Cons s slots)
  then show ?case using take_slot_Panic [of s a] by (auto split: prod.splits outcome.splits)
qed simp

text \<open>Ports given back go behind every port that is free already.\<close>

lemma allocate_front: "pa_free a = p # r \<Longrightarrow> allocate a = (Ok p, a\<lparr>pa_free := r, pa_held := insert p (pa_held a)\<rparr>)"
  by (simp add: allocate_def)

lemma acquire_loop_front:
  "n \<le> length (pa_free a) \<Longrightarrow>
     acquire_loop (replicate n None) taken a =
       (Ok (taken @ take n (pa_free a)),
        a\<lparr>pa_free := drop n (pa_free a), pa_held := pa_held a \<union> set (take n (pa_free a))\<rparr>)"
proof (induction n arbitrary: taken a)
  case (Suc n)
  then obtain p r where "pa_free a = p # r" by (cases "pa_free a") auto
  with Suc.IH [of "a\<lparr>pa_free := r, pa_held := insert p (pa_held a)\<rparr>" "taken @ [p]"] Suc.prems
  show ?case by (simp add: allocate_front)
qed simp

text \<open>Exact ports, each once, all free: every one is given.\<close>

lemma acquire_loop_exact:
  "distinct ps \<Longrightarrow> \<forall>p\<in>set ps. contains (pa_range a) p \<and> p \<notin> pa_held a \<Longrightarrow>
     fst (acquire_loop (map Some ps) taken a) = Ok (taken @ ps)"
proof (induction ps arbitrary: taken a)
  case (Cons p ps)
  then have "take_slot (Some p) a = (Ok p, reserve_one p a)" by (simp add: reserve_def)
  moreover have "fst (acquire_loop (map Some ps) (taken @ [p]) (reserve_one p a)) = Ok ((taken @ [p]) @ ps)"
    using Cons.prems by (intro Cons.IH) (auto simp: reserve_one_def)
  ultimately show ?case by simp
qed simp

text \<open>Why a set is refused.\<close>

fun refusal_of :: "u16 option list \<Rightarrow> allocator \<Rightarrow> port_error \<Rightarrow> bool" where
  "refusal_of slots a (Exhausted r) \<longleftrightarrow> r = pa_range a \<and> None \<in> set slots \<and> available a < length slots"
| "refusal_of slots a (OutOfRange p r) \<longleftrightarrow> r = pa_range a \<and> Some p \<in> set slots \<and> \<not> contains r p"
| "refusal_of slots a (AlreadyHeld p) \<longleftrightarrow> Some p \<in> set slots \<and> contains (pa_range a) p"

lemma take_slot_refusal: "take_slot s a = (Err e, a') \<Longrightarrow> refusal_of (s # slots) a e"
  by (cases s) (auto simp: reserve_def allocate_def outcome_simps available_def split: if_splits list.splits)

lemma take_slot_free:
  assumes "take_slot s a = (Ok p, a1)" "alloc_ok a"
  shows "available a \<le> Suc (available a1)"
proof (cases s)
  case None
  with assms(1) show ?thesis by (auto simp: allocate_def available_def split: list.splits)
next
  case (Some q)
  have "distinct xs \<Longrightarrow> length xs \<le> Suc (length (filter (\<lambda>p. p \<noteq> q) xs))" for xs :: "u16 list"
  proof (induction xs)
    case (Cons x xs)
    have "q \<notin> set ys \<Longrightarrow> filter (\<lambda>p. p \<noteq> q) ys = ys" for ys :: "u16 list" by (induction ys) auto
    with Cons show ?case by (cases "x = q") auto
  qed simp
  from this [of "pa_free a"] assms(2)
  have "length (pa_free a) \<le> Suc (length (filter (\<lambda>p. p \<noteq> q) (pa_free a)))" by (simp add: alloc_ok_def)
  with Some assms(1) show ?thesis
    by (auto simp: reserve_def reserve_one_def available_def outcome_simps split: if_splits)
qed

lemma refusal_later:
  assumes "take_slot s a = (Ok p, a1)" "alloc_ok a" "refusal_of slots a1 e"
  shows "refusal_of (s # slots) a e"
  using take_slot_Ok [OF assms(1,2)] take_slot_free [OF assms(1,2)] assms(3) by (cases e) auto

lemma acquire_loop_refusal:
  "acquire_loop slots taken a = (Err e, a') \<Longrightarrow> alloc_ok a \<Longrightarrow> refusal_of slots a e"
proof (induction slots arbitrary: taken a)
  case (Cons s slots)
  consider p a1 where "take_slot s a = (Ok p, a1)" "acquire_loop slots (taken @ [p]) a1 = (Err e, a')"
    | "take_slot s a = (Err e, a)"
    using Cons.prems(1) by (auto dest: take_slot_Err split: prod.splits outcome.splits)
  then show ?case
  proof cases
    case 1
    from take_slot_Ok [OF 1(1) Cons.prems(2)] have "alloc_ok a1" by blast
    from refusal_later [OF 1(1) Cons.prems(2) Cons.IH [OF 1(2) this]] show ?thesis .
  qed (rule take_slot_refusal)
qed simp

section \<open>Histories\<close>

datatype port_op = Acquire "u16 option list" | Release u16 | ReleaseAll "u16 list"

fun apply_op :: "port_op \<Rightarrow> allocator \<Rightarrow> allocator" where
  "apply_op (Acquire slots) a = snd (acquire slots a)"
| "apply_op (Release p) a = release p a"
| "apply_op (ReleaseAll ps) a = release_all ps a"

lemma acquire_cases:
  assumes "alloc_ok a"
  obtains (took) ps a' where "acquire slots a = (Ok ps, a')" "distinct ps" "set ps \<inter> pa_held a = {}"
      "\<forall>p\<in>set ps. contains (pa_range a) p" "pa_held a' = pa_held a \<union> set ps"
      "list_all2 (\<lambda>s p. s = None \<or> s = Some p) slots ps" "pa_range a' = pa_range a" "alloc_ok a'"
    | (refused) e a' where "acquire slots a = (Err e, a')" "pa_held a' = pa_held a"
      "pa_range a' = pa_range a" "alloc_ok a'"
proof (cases "fst (acquire_loop slots [] a)")
  case (Ok ps)
  then obtain a' where e: "acquire_loop slots [] a = (Ok ps, a')" by (cases "acquire_loop slots [] a") auto
  from acquire_loop_Ok [OF e assms] e show ?thesis by (auto simp: acquire_def intro: took)
next
  case (Err x)
  then obtain a' where e: "acquire_loop slots [] a = (Err x, a')" by (cases "acquire_loop slots [] a") auto
  from acquire_loop_Err [OF e assms] e show ?thesis by (auto simp: acquire_def intro: refused)
next
  case Panic
  then show ?thesis using acquire_loop_Panic by simp
qed

lemma acquire_ok [step_inv]: "alloc_ok a \<Longrightarrow> alloc_ok (snd (acquire slots a))"
  by (erule acquire_cases [of a slots]) simp_all

lemma acquire_range [simp]: "alloc_ok a \<Longrightarrow> pa_range (snd (acquire slots a)) = pa_range a"
  by (erule acquire_cases [of a slots]) simp_all

lemma apply_op_ok [step_inv]: "alloc_ok a \<Longrightarrow> alloc_ok (apply_op op a)"
  by (cases op) (simp_all add: step_inv)

lemma apply_op_range [simp]: "alloc_ok a \<Longrightarrow> pa_range (apply_op op a) = pa_range a"
  by (cases op) simp_all

lemma history_ok:
  "alloc_ok a \<Longrightarrow> alloc_ok (fold apply_op ops a) \<and> pa_range (fold apply_op ops a) = pa_range a"
  by (induction ops arbitrary: a) (simp_all add: step_inv)

lemma reserve_one_range [simp]: "pa_range (reserve_one p a) = pa_range a"
  by (simp add: reserve_one_def)

lemma with_reserved_range [simp]: "pa_range (with_reserved r ps) = r"
proof -
  have "pa_range (fold reserve_one ps a) = pa_range a" for a
    by (induction ps arbitrary: a) simp_all
  then show ?thesis by (simp add: with_reserved_def new_allocator_def)
qed

section \<open>Properties\<close>


definition sample_alloc :: allocator where
  "sample_alloc = fold apply_op [Release 2000] (with_reserved \<lparr>pr_start = 2000, pr_end = 2002\<rparr> [2000])"

lemma sample_acquire:
  "acquire [None, Some 2002] sample_alloc =
     (Ok [2001, 2002], \<lparr>pa_range = \<lparr>pr_start = 2000, pr_end = 2002\<rparr>, pa_free = [2000],
        pa_held = {2001, 2002}\<rparr>)"
  by code_simp

lemma sample_available: "available sample_alloc = 3" "pa_free sample_alloc = [2001, 2002, 2000]"
  by code_simp+


text \<open>A port that is given back goes to the end of the queue: as many further allocations as ports were
  free before it all return other ports, the ones that had been free longest, in their order, and
  only the one after that returns it.
\<close>
theorem freed_port_reused_last:
  assumes "p \<in> pa_held a" "contains (pa_range a) p" "n = available a"
  shows "fst (acquire (replicate n None) (release p a)) = Ok (pa_free a)
    \<and> fst (acquire (replicate (Suc n) None) (release p a)) = Ok (pa_free a @ [p])"
proof -
  have free: "pa_free (release p a) = pa_free a @ [p]" using assms(1,2) by (simp add: release_def)
  show ?thesis unfolding acquire_def using assms(3) free
    by (subst (1 2) acquire_loop_front) (simp_all add: available_def)
qed

theorem freed_port_reused_last_witness:
  "fst (acquire [None] (release 2000
     \<lparr>pa_range = \<lparr>pr_start = 2000, pr_end = 2001\<rparr>, pa_free = [2001], pa_held = {2000}\<rparr>)) = Ok [2001]"
  using freed_port_reused_last [of 2000
     "\<lparr>pa_range = \<lparr>pr_start = 2000, pr_end = 2001\<rparr>, pa_free = [2001], pa_held = {2000}\<rparr>" 1]
  by (simp add: contains_def available_def word_le_nat_alt)

end
