(* ===== verification/Sorts.thy ===== *)
theory Sorts
  imports Prelude "HOL-Library.List_Lexorder" "HOL-Library.Multiset"
begin

text \<open>
  Rust's \<^verbatim>\<open>Ordering\<close> and \<^verbatim>\<open>slice::sort_by\<close>, which is a stable sort. \<open>rust_order\<close> is the contract a
  comparator has to meet; inside it \<open>sort_by\<close> is proved to sort, to permute and to be stable, once
  for every comparator of the program. The combinators below build comparators the way the code
  does: by key, reversed, chained, and with a missing key last.
\<close>

datatype ordering = Less | Equal | Greater

fun rev_order :: "ordering \<Rightarrow> ordering" where
  "rev_order Less = Greater"
| "rev_order Equal = Equal"
| "rev_order Greater = Less"

definition cmp :: "'a::linorder \<Rightarrow> 'a \<Rightarrow> ordering" where
  "cmp x y = (if x < y then Less else if x = y then Equal else Greater)"

fun then_cmp :: "ordering \<Rightarrow> ordering \<Rightarrow> ordering" where
  "then_cmp Equal o2 = o2"
| "then_cmp o1 o2 = o1"

text \<open>A missing key sorts last, as in \<open>(Some(_), None) => Less\<close>.\<close>

fun cmp_none_last :: "('a \<Rightarrow> 'a \<Rightarrow> ordering) \<Rightarrow> 'a option \<Rightarrow> 'a option \<Rightarrow> ordering" where
  "cmp_none_last c (Some x) (Some y) = c x y"
| "cmp_none_last c (Some _) None = Less"
| "cmp_none_last c None (Some _) = Greater"
| "cmp_none_last c None None = Equal"

fun insert_by :: "('a \<Rightarrow> 'a \<Rightarrow> ordering) \<Rightarrow> 'a \<Rightarrow> 'a list \<Rightarrow> 'a list" where
  "insert_by c x [] = [x]"
| "insert_by c x (y # ys) = (if c x y = Greater then y # insert_by c x ys else x # y # ys)"

fun sort_by :: "('a \<Rightarrow> 'a \<Rightarrow> ordering) \<Rightarrow> 'a list \<Rightarrow> 'a list" where
  "sort_by c [] = []"
| "sort_by c (x # xs) = insert_by c x (sort_by c xs)"

lemma mset_insert_by: "mset (insert_by c x xs) = add_mset x (mset xs)"
  by (induction xs) auto

lemma mset_sort_by [simp]: "mset (sort_by c xs) = mset xs"
  by (induction xs) (simp_all add: mset_insert_by)

lemma set_sort_by [simp]: "set (sort_by c xs) = set xs"
  by (metis mset_sort_by set_mset_mset)

lemma length_sort_by [simp]: "length (sort_by c xs) = length xs"
  by (metis mset_sort_by size_mset)

lemma distinct_sort_by [simp]: "distinct (sort_by c xs) = distinct xs"
  by (metis distinct_count_atmost_1 mset_sort_by set_sort_by)

locale rust_order =
  fixes c :: "'a \<Rightarrow> 'a \<Rightarrow> ordering"
  assumes flip: "rev_order (c x y) = c y x"
    and trans: "c x y \<noteq> Greater \<Longrightarrow> c y z \<noteq> Greater \<Longrightarrow> c x z \<noteq> Greater"
begin

definition le :: "'a \<Rightarrow> 'a \<Rightarrow> bool" where
  "le x y \<longleftrightarrow> c x y \<noteq> Greater"

lemma refl: "c x x = Equal"
  using flip [of x x] by (cases "c x x") simp_all

lemma total: "le x y \<or> le y x"
  using flip [of x y] by (cases "c x y") (auto simp: le_def)

lemma le_trans: "le x y \<Longrightarrow> le y z \<Longrightarrow> le x z"
  using trans by (auto simp: le_def)

lemma equal_iff: "c x y = Equal \<longleftrightarrow> le x y \<and> le y x"
  using flip [of x y] by (cases "c x y") (auto simp: le_def)

lemma equal_trans: "c x y = Equal \<Longrightarrow> c y z = Equal \<Longrightarrow> c x z = Equal"
  unfolding equal_iff by (blast intro: le_trans)

lemma sorted_insert_by: "sorted_wrt le xs \<Longrightarrow> sorted_wrt le (insert_by c x xs)"
proof (induction xs)
  case Nil
  then show ?case by simp
next
  case (Cons y ys)
  show ?case
  proof (cases "c x y = Greater")
    case True
    then have "le y x" using total [of x y] by (simp add: le_def)
    moreover have "set (insert_by c x ys) = insert x (set ys)"
      by (metis mset_insert_by set_mset_add_mset_insert set_mset_mset)
    ultimately show ?thesis using Cons True by auto
  next
    case False
    then have "le x y" by (simp add: le_def)
    with Cons False show ?thesis by (auto intro: le_trans)
  qed
qed

lemma sorted_sort_by: "sorted_wrt le (sort_by c xs)"
  by (induction xs) (auto intro: sorted_insert_by)

lemma filter_insert_by:
  "filter (\<lambda>y. c z y = Equal) (insert_by c x xs) =
     (if c z x = Equal then x # filter (\<lambda>y. c z y = Equal) xs else filter (\<lambda>y. c z y = Equal) xs)"
proof (induction xs)
  case Nil
  then show ?case by simp
next
  case (Cons y ys)
  have "c z x = Equal \<Longrightarrow> c z y = Equal \<Longrightarrow> c x y = Equal"
    using equal_trans [of x z y] flip [of z x] by simp
  then show ?case using Cons by auto
qed

lemma sort_by_stable:
  "filter (\<lambda>y. c z y = Equal) (sort_by c xs) = filter (\<lambda>y. c z y = Equal) xs"
  by (induction xs) (simp_all add: filter_insert_by)

lemma sort_by_sorted: "sorted_wrt le xs \<Longrightarrow> sort_by c xs = xs"
proof (induction xs)
  case (Cons x xs)
  then have "sort_by c xs = xs" by simp
  with Cons.prems show ?case by (cases xs) (auto simp: le_def)
qed simp

text \<open>Sorting by a comparator that tells any two of the elements apart forgets the input's order.\<close>

lemma sorted_mset_unique:
  "sorted_wrt le xs \<Longrightarrow> sorted_wrt le ys \<Longrightarrow> mset xs = mset ys \<Longrightarrow>
   (\<And>x y. x \<in> set xs \<Longrightarrow> y \<in> set xs \<Longrightarrow> c x y = Equal \<Longrightarrow> x = y) \<Longrightarrow> xs = ys"
proof (induction xs arbitrary: ys)
  case Nil
  then show ?case by simp
next
  case (Cons x xs)
  then obtain y ys' where ys: "ys = y # ys'" by (cases ys) auto
  have sets: "set (x # xs) = set ys" using Cons.prems(3) by (metis set_mset_mset)
  have "x = y \<or> le x y" using Cons.prems(1) sets ys by auto
  moreover have "x = y \<or> le y x" using Cons.prems(2) sets ys by auto
  ultimately have "x = y" using Cons.prems(4) [of x y] sets ys by (auto simp: equal_iff)
  moreover have "xs = ys'" using Cons.IH [of ys'] Cons.prems ys \<open>x = y\<close> by auto
  ultimately show ?case using ys by simp
qed

lemma sort_by_mset_eq:
  assumes "mset xs = mset ys" "\<And>x y. x \<in> set xs \<Longrightarrow> y \<in> set xs \<Longrightarrow> c x y = Equal \<Longrightarrow> x = y"
  shows "sort_by c xs = sort_by c ys"
  by (rule sorted_mset_unique) (auto simp: sorted_sort_by assms)

end

lemma rust_order_cmp: "rust_order (cmp :: 'a::linorder \<Rightarrow> 'a \<Rightarrow> ordering)"
  by unfold_locales (auto simp: cmp_def split: if_splits)

lemma rust_order_by_key: "rust_order c \<Longrightarrow> rust_order (\<lambda>x y. c (k x) (k y))"
  unfolding rust_order_def by blast

lemma rev_rev_order [simp]: "rev_order (rev_order p) = p"
  by (cases p) simp_all

lemma rev_order_eq_Equal [simp]: "rev_order p = Equal \<longleftrightarrow> p = Equal"
  by (cases p) simp_all

lemma rev_order_eq_Greater [simp]: "rev_order p = Greater \<longleftrightarrow> p = Less"
  by (cases p) simp_all

lemma rust_order_less_trans:
  assumes "rust_order c" "c x y = Less" "c y z \<noteq> Greater"
  shows "c x z = Less"
proof -
  note flip = rust_order.flip [OF assms(1)] and trans = rust_order.trans [OF assms(1)]
  have "c x z \<noteq> Greater" using trans [of x y z] assms by simp
  moreover have "c x z \<noteq> Equal"
  proof
    assume "c x z = Equal"
    then have "c z x \<noteq> Greater" using flip [of x z] by auto
    then have "c y x \<noteq> Greater" using trans [of y z x] assms by simp
    then show False using flip [of x y] assms by simp
  qed
  ultimately show ?thesis by (cases "c x z") auto
qed

lemma rust_order_trans_less:
  assumes "rust_order c" "c x y \<noteq> Greater" "c y z = Less"
  shows "c x z = Less"
proof -
  note flip = rust_order.flip [OF assms(1)] and trans = rust_order.trans [OF assms(1)]
  have "c x z \<noteq> Greater" using trans [of x y z] assms by simp
  moreover have "c x z \<noteq> Equal"
  proof
    assume "c x z = Equal"
    then have "c z x \<noteq> Greater" using flip [of x z] by auto
    then have "c z y \<noteq> Greater" using trans [of z x y] assms by simp
    then show False using flip [of y z] assms by simp
  qed
  ultimately show ?thesis by (cases "c x z") auto
qed

lemma rust_order_rev:
  assumes "rust_order c" shows "rust_order (\<lambda>x y. rev_order (c x y))"
proof (unfold_locales)
  note flip = rust_order.flip [OF assms] and trans = rust_order.trans [OF assms]
  fix x y z
  show "rev_order (rev_order (c x y)) = rev_order (c y x)" by (simp add: flip)
  assume "rev_order (c x y) \<noteq> Greater" "rev_order (c y z) \<noteq> Greater"
  then have "c z y \<noteq> Greater" "c y x \<noteq> Greater" using flip [of x y] flip [of y z] by auto
  then have "c z x \<noteq> Greater" by (rule trans)
  then show "rev_order (c x z) \<noteq> Greater" using flip [of x z] by auto
qed

lemma rust_order_then:
  assumes "rust_order c" "rust_order d"
  shows "rust_order (\<lambda>x y. then_cmp (c x y) (d x y))"
proof (unfold_locales)
  note cflip = rust_order.flip [OF assms(1)] and dflip = rust_order.flip [OF assms(2)]
  fix x y z
  show "rev_order (then_cmp (c x y) (d x y)) = then_cmp (c y x) (d y x)"
    using cflip [of x y] dflip [of x y] by (cases "c x y") auto
  assume xy: "then_cmp (c x y) (d x y) \<noteq> Greater" and yz: "then_cmp (c y z) (d y z) \<noteq> Greater"
  then have ncg: "c x y \<noteq> Greater" "c y z \<noteq> Greater" by (cases "c x y"; cases "c y z"; simp)+
  show "then_cmp (c x z) (d x z) \<noteq> Greater"
  proof (cases "c x y = Less \<or> c y z = Less")
    case True
    then have "c x z = Less"
      using rust_order_less_trans [OF assms(1)] rust_order_trans_less [OF assms(1)] ncg by blast
    then show ?thesis by simp
  next
    case False
    with ncg have eq: "c x y = Equal" "c y z = Equal" by (cases "c x y"; cases "c y z"; simp)+
    then have "c x z = Equal" by (rule rust_order.equal_trans [OF assms(1)])
    moreover have "d x z \<noteq> Greater" using xy yz eq rust_order.trans [OF assms(2)] by simp
    ultimately show ?thesis by simp
  qed
qed

lemma rust_order_none_last:
  assumes c: "rust_order c" shows "rust_order (cmp_none_last c)"
proof (unfold_locales)
  fix x y z
  show "rev_order (cmp_none_last c x y) = cmp_none_last c y x"
    using rust_order.flip [OF c] by (cases x; cases y; simp)
  assume xy: "cmp_none_last c x y \<noteq> Greater" and yz: "cmp_none_last c y z \<noteq> Greater"
  show "cmp_none_last c x z \<noteq> Greater"
  proof (cases z)
    case None
    then show ?thesis by (cases x) simp_all
  next
    case (Some c')
    with yz obtain b where y: "y = Some b" by (cases y) auto
    with xy obtain a where x: "x = Some a" by (cases x) auto
    from xy yz show ?thesis
      using rust_order.trans [OF c, of a b c'] by (simp add: x y Some)
  qed
qed

lemmas rust_order_intros =
  rust_order_cmp rust_order_by_key rust_order_rev rust_order_then rust_order_none_last

lemma cmp_not_Greater [simp]: "cmp x y \<noteq> Greater \<longleftrightarrow> x \<le> y"
  by (auto simp: cmp_def)

lemma cmp_eq_Equal [simp]: "cmp x y = Equal \<longleftrightarrow> x = y"
  by (auto simp: cmp_def)

end
