(* ===== verification/Quota.thy ===== *)
theory Quota
  imports Sorts Tables
begin

text \<open>
  \<^verbatim>\<open>crates/platform-index/src/quota.rs\<close>: who may start another server, and which servers are stopped
  for being idle. The clock is an argument. \<^verbatim>\<open>SystemTime\<close> and \<^verbatim>\<open>Duration\<close> are nanoseconds as \<open>nat\<close>, so
  \<open>age_since\<close> is the saturating difference; a sum of durations that Rust would refuse (over 2^64
  seconds) is not modelled as a panic.
\<close>

type_synonym account_id = str

record account_limits =
  al_max_instances :: "u32 option"
  al_create_cooldown :: "duration option option"
  al_never_reap :: bool
  al_classes :: "str list"
  al_max_backups :: "u32 option"

record quota_policy =
  max_instances_per_account :: u32
  max_total_instances :: u32
  idle_timeout :: "duration option"
  min_lifetime :: duration
  create_cooldown :: "duration option"
  overrides :: "(account_id, account_limits) table"
  stopped_expiry :: "duration option"
  max_backups_per_account :: "u32 option"

definition default_policy :: quota_policy where
  "default_policy =
     \<lparr>max_instances_per_account = 3, max_total_instances = 20,
      idle_timeout = Some (secs (30 * 60)), min_lifetime = secs (5 * 60),
      create_cooldown = Some (secs 30), overrides = [], stopped_expiry = None,
      max_backups_per_account = None\<rparr>"

record instance_record =
  ir_instance_id :: str
  ir_account :: account_id
  ir_created_at :: time
  ir_last_player_seen :: "time option"
  ir_players_now :: u32
  ir_exempt_from_reaping :: bool

datatype deny_reason =
    AccountInstanceLimit (lim: u32) (have_now: u32)
  | NodeInstanceLimit (lim: u32) (have_now: u32)
  | Cooldown duration
  | AccountBackupLimit (lim: u32) (have_now: u32)

datatype reap_reason = IdleTooLong duration | NeverHadPlayers duration

definition age_since :: "time \<Rightarrow> time \<Rightarrow> duration" where
  "age_since at now = now - at"

section \<open>Limits of an account\<close>

definition override_of :: "quota_policy \<Rightarrow> account_id \<Rightarrow> account_limits option" where
  "override_of p account = tget (overrides p) account"

definition max_instances_for :: "quota_policy \<Rightarrow> account_id \<Rightarrow> u32" where
  "max_instances_for p account =
     (case Option.bind (override_of p account) al_max_instances of
        Some n \<Rightarrow> n | None \<Rightarrow> max_instances_per_account p)"

definition max_backups_for :: "quota_policy \<Rightarrow> account_id \<Rightarrow> u32 option" where
  "max_backups_for p account =
     (case Option.bind (override_of p account) al_max_backups of
        Some n \<Rightarrow> Some n | None \<Rightarrow> max_backups_per_account p)"

definition admit_backup :: "quota_policy \<Rightarrow> account_id \<Rightarrow> u32 \<Rightarrow> (deny_reason, unit) outcome" where
  "admit_backup p account held =
     (case max_backups_for p account of
        Some limit \<Rightarrow> if held \<ge> limit then Err (AccountBackupLimit limit held) else Ok ()
      | None \<Rightarrow> Ok ())"

definition never_reaped :: "quota_policy \<Rightarrow> account_id \<Rightarrow> bool" where
  "never_reaped p account = (case override_of p account of Some l \<Rightarrow> al_never_reap l | None \<Rightarrow> False)"

definition stopped_expiry_for :: "quota_policy \<Rightarrow> account_id \<Rightarrow> duration option" where
  "stopped_expiry_for p account = (if never_reaped p account then None else stopped_expiry p)"

definition may_use_class :: "quota_policy \<Rightarrow> account_id \<Rightarrow> str \<Rightarrow> bool" where
  "may_use_class p account class =
     (case override_of p account of Some l \<Rightarrow> class \<in> set (al_classes l) | None \<Rightarrow> False)"

definition stopped_expired :: "quota_policy \<Rightarrow> account_id \<Rightarrow> duration \<Rightarrow> bool" where
  "stopped_expired p account stopped_for =
     (case stopped_expiry_for p account of Some after \<Rightarrow> stopped_for \<ge> after | None \<Rightarrow> False)"

definition cooldown_for :: "quota_policy \<Rightarrow> account_id \<Rightarrow> duration option" where
  "cooldown_for p account =
     (case Option.bind (override_of p account) al_create_cooldown of
        Some own \<Rightarrow> own | None \<Rightarrow> create_cooldown p)"

definition held_by :: "account_id \<Rightarrow> instance_record list \<Rightarrow> u32" where
  "held_by account existing = of_nat (length (filter (\<lambda>i. ir_account i = account) existing))"

section \<open>Admission\<close>

text \<open>The youngest age of the account's instances (\<^verbatim>\<open>.map(age).min()\<close>).\<close>

fun youngest_age :: "account_id \<Rightarrow> time \<Rightarrow> instance_record list \<Rightarrow> duration option" where
  "youngest_age account now [] = None"
| "youngest_age account now (i # is) =
     (if ir_account i = account
      then (case youngest_age account now is of
              None \<Rightarrow> Some (age_since (ir_created_at i) now)
            | Some a \<Rightarrow> Some (min (age_since (ir_created_at i) now) a))
      else youngest_age account now is)"

definition admit :: "quota_policy \<Rightarrow> account_id \<Rightarrow> instance_record list \<Rightarrow> time
    \<Rightarrow> (deny_reason, unit) outcome" where
  "admit p account existing now =
     (let held = held_by account existing; limit = max_instances_for p account in
      if held \<ge> limit then Err (AccountInstanceLimit limit held)
      else let total = of_nat (length existing) in
      if total \<ge> max_total_instances p then Err (NodeInstanceLimit (max_total_instances p) total)
      else case cooldown_for p account of
             None \<Rightarrow> Ok ()
           | Some cooldown \<Rightarrow>
               (case youngest_age account now existing of
                  None \<Rightarrow> Ok ()
                | Some since \<Rightarrow> if since < cooldown then Err (Cooldown (cooldown - since)) else Ok ()))"

section \<open>Reaping\<close>

definition reap_one :: "quota_policy \<Rightarrow> duration \<Rightarrow> time \<Rightarrow> instance_record
    \<Rightarrow> (str \<times> reap_reason) option" where
  "reap_one p timeout now i =
     (if ir_exempt_from_reaping i then None
      else if never_reaped p (ir_account i) then None
      else if ir_players_now i > 0 then None
      else let age = age_since (ir_created_at i) now in
      if age < min_lifetime p then None
      else case ir_last_player_seen i of
             Some seen \<Rightarrow>
               let idle_for = age_since seen now in
               if idle_for > timeout then Some (ir_instance_id i, IdleTooLong idle_for) else None
           | None \<Rightarrow>
               if age > min_lifetime p + timeout
               then Some (ir_instance_id i, NeverHadPlayers age) else None)"

definition to_reap :: "quota_policy \<Rightarrow> instance_record list \<Rightarrow> time \<Rightarrow> (str \<times> reap_reason) list" where
  "to_reap p existing now =
     (case idle_timeout p of
        None \<Rightarrow> []
      | Some timeout \<Rightarrow>
          sort_by (\<lambda>a b. cmp (fst a) (fst b)) (List.map_filter (reap_one p timeout now) existing))"

interpretation by_id: rust_order "\<lambda>a b :: str \<times> reap_reason. cmp (fst a) (fst b)"
  by (rule rust_order_by_key [OF rust_order_cmp])

lemma by_id_le: "by_id.le = (\<lambda>a b. fst a \<le> fst b)"
  by (intro ext) (simp add: by_id.le_def)

section \<open>Lemmas on admission\<close>

lemma youngest_age_le:
  "i \<in> set is \<Longrightarrow> ir_account i = account \<Longrightarrow>
     \<exists>a. youngest_age account now is = Some a \<and> a \<le> age_since (ir_created_at i) now"
  by (induction "is") (auto split: option.splits)

lemma youngest_age_None_iff:
  "youngest_age account now is = None \<longleftrightarrow> (\<forall>i\<in>set is. ir_account i \<noteq> account)"
  by (induction "is") (auto split: option.splits)

lemma admit_Ok:
  assumes "admit p account existing now = Ok ()" "length existing < 2 ^ 32"
  shows "length (filter (\<lambda>i. ir_account i = account) existing) < unat (max_instances_for p account)"
    and "length existing < unat (max_total_instances p)"
    and "cooldown_for p account = Some c \<Longrightarrow> i \<in> set existing \<Longrightarrow> ir_account i = account \<Longrightarrow>
           ir_created_at i + c \<le> now \<or> c = 0"
proof -
  have small: "length (filter (\<lambda>i. ir_account i = account) existing) < 2 ^ 32"
    using length_filter_le assms(2) by (rule le_less_trans)
  have u: "n < 2 ^ 32 \<Longrightarrow> unat (of_nat n :: u32) = n" for n :: nat
    by (simp add: unat_of_nat)
  show "length (filter (\<lambda>i. ir_account i = account) existing) < unat (max_instances_for p account)"
    using assms(1) u [OF small]
    by (auto simp: admit_def Let_def held_by_def not_le word_less_nat_alt split: if_splits)
  show "length existing < unat (max_total_instances p)"
    using assms(1) u [OF assms(2)]
    by (auto simp: admit_def Let_def not_le word_less_nat_alt split: if_splits)
  assume "cooldown_for p account = Some c" "i \<in> set existing" "ir_account i = account"
  then show "ir_created_at i + c \<le> now \<or> c = 0"
    using assms(1) youngest_age_le [of i existing account now]
    by (auto simp: admit_def Let_def age_since_def split: if_splits)
qed

lemma admit_complete:
  assumes "held_by account existing < max_instances_for p account"
    "of_nat (length existing) < max_total_instances p"
    "\<And>c i. cooldown_for p account = Some c \<Longrightarrow> i \<in> set existing \<Longrightarrow> ir_account i = account \<Longrightarrow>
       ir_created_at i + c \<le> now"
  shows "admit p account existing now = Ok ()"
proof -
  have "youngest_age account now is = Some a \<Longrightarrow> \<exists>i\<in>set is. ir_account i = account \<and> a = now - ir_created_at i"
    for a "is"
    by (induction "is" arbitrary: a) (auto simp: age_since_def min_def split: if_splits option.splits)
  then show ?thesis using assms(1,2) assms(3)
    by (force simp: admit_def Let_def not_le split: option.splits)
qed

section \<open>Lemmas on reaping\<close>

lemma set_to_reap:
  "r \<in> set (to_reap p existing now) \<longleftrightarrow>
     (\<exists>timeout i. idle_timeout p = Some timeout \<and> i \<in> set existing \<and> reap_one p timeout now i = Some r)"
  by (cases "idle_timeout p") (auto simp: to_reap_def set_map_filter)

lemma reap_one_Some:
  "reap_one p timeout now i = Some (sid, why) \<longleftrightarrow>
     sid = ir_instance_id i \<and> \<not> ir_exempt_from_reaping i \<and> \<not> never_reaped p (ir_account i)
     \<and> ir_players_now i = 0 \<and> min_lifetime p \<le> now - ir_created_at i
     \<and> (case ir_last_player_seen i of
          Some seen \<Rightarrow> timeout < now - seen \<and> why = IdleTooLong (now - seen)
        | None \<Rightarrow> min_lifetime p + timeout < now - ir_created_at i \<and> why = NeverHadPlayers (now - ir_created_at i))"
  by (auto simp: reap_one_def age_since_def Let_def not_less word_neq_0_conv split: option.splits if_splits)

lemma map_filter_ids:
  assumes "distinct (map ir_instance_id existing)"
    "x \<in> set (List.map_filter (reap_one p t now) existing)"
    "y \<in> set (List.map_filter (reap_one p t now) existing)" "fst x = fst y"
  shows "x = y"
proof -
  from assms obtain i j where "i \<in> set existing" "reap_one p t now i = Some x"
    "j \<in> set existing" "reap_one p t now j = Some y"
    by (auto simp: set_map_filter)
  moreover from this assms(4) have "ir_instance_id i = ir_instance_id j"
    by (cases x; cases y) (simp add: reap_one_Some)
  ultimately show ?thesis using assms(1) by (auto simp: distinct_map inj_on_def)
qed

lemma to_reap_any_order:
  assumes "distinct (map ir_instance_id existing)" "mset existing = mset other"
  shows "to_reap p existing now = to_reap p other now"
proof (cases "idle_timeout p")
  case (Some t)
  have "mset (List.map_filter (reap_one p t now) existing) = mset (List.map_filter (reap_one p t now) other)"
    using assms(2) by (simp add: List.map_filter_def mset_filter)
  then show ?thesis
    unfolding to_reap_def Some option.case
    by (rule by_id.sort_by_mset_eq) (use map_filter_ids [OF assms(1)] in \<open>auto simp: cmp_eq_Equal\<close>)
qed (simp add: to_reap_def)

section \<open>Properties\<close>

text \<open>Reaping stops exactly the servers that are neither pinned nor of an account that is never reaped,
  have nobody on, are older than the minimum lifetime, and have been empty longer than the timeout
  (or never had a player for longer than both together); the answer names each server by id, in id
  order, and does not depend on the order the records were collected in. A record whose timestamps
  lie in the future is never reaped, however far the clock moved.
\<close>
theorem reaping_exact:
  assumes "idle_timeout p = Some timeout"
  shows "(set (to_reap p existing now) =
     {(ir_instance_id i, why) | i why. i \<in> set existing
        \<and> \<not> ir_exempt_from_reaping i \<and> \<not> never_reaped p (ir_account i)
        \<and> ir_players_now i = 0 \<and> min_lifetime p \<le> now - ir_created_at i
        \<and> (case ir_last_player_seen i of
             Some seen \<Rightarrow> timeout < now - seen \<and> why = IdleTooLong (now - seen)
           | None \<Rightarrow> min_lifetime p + timeout < now - ir_created_at i
               \<and> why = NeverHadPlayers (now - ir_created_at i))})
   \<and> sorted (map fst (to_reap p existing now))
   \<and> (distinct (map ir_instance_id existing) \<and> mset existing = mset other \<longrightarrow>
        to_reap p existing now = to_reap p other now)"
proof (intro conjI impI)
  show "set (to_reap p existing now) =
     {(ir_instance_id i, why) | i why. i \<in> set existing
        \<and> \<not> ir_exempt_from_reaping i \<and> \<not> never_reaped p (ir_account i)
        \<and> ir_players_now i = 0 \<and> min_lifetime p \<le> now - ir_created_at i
        \<and> (case ir_last_player_seen i of
             Some seen \<Rightarrow> timeout < now - seen \<and> why = IdleTooLong (now - seen)
           | None \<Rightarrow> min_lifetime p + timeout < now - ir_created_at i
               \<and> why = NeverHadPlayers (now - ir_created_at i))}"
    by (auto simp: set_to_reap assms reap_one_Some)
  show "sorted (map fst (to_reap p existing now))"
    using by_id.sorted_sort_by
    by (auto simp: to_reap_def sorted_map by_id_le split: option.splits)
qed (auto intro: to_reap_any_order)

definition sample_policy :: quota_policy where
  "sample_policy = default_policy\<lparr>overrides := [([1], \<lparr>al_max_instances = Some 9, al_create_cooldown = None,
     al_never_reap = True, al_classes = [], al_max_backups = None\<rparr>)]\<rparr>"

definition sample_instances :: "instance_record list" where
  "sample_instances =
     [\<lparr>ir_instance_id = [9], ir_account = [2], ir_created_at = 0, ir_last_player_seen = Some (secs 10),
       ir_players_now = 0, ir_exempt_from_reaping = False\<rparr>,
      \<lparr>ir_instance_id = [3], ir_account = [2], ir_created_at = 0, ir_last_player_seen = None,
       ir_players_now = 0, ir_exempt_from_reaping = False\<rparr>,
      \<lparr>ir_instance_id = [4], ir_account = [1], ir_created_at = 0, ir_last_player_seen = None,
       ir_players_now = 0, ir_exempt_from_reaping = False\<rparr>]"

lemma sample_timeout: "idle_timeout sample_policy = Some (secs 1800)"
  by (simp add: sample_policy_def default_policy_def)

theorem reaping_exact_witness:
  "to_reap sample_policy sample_instances (secs 9000) =
     [([3], NeverHadPlayers (secs 9000)), ([9], IdleTooLong (secs 8990))]
   \<and> to_reap sample_policy (rev sample_instances) (secs 9000) =
     to_reap sample_policy sample_instances (secs 9000)"
proof -
  have nr: "never_reaped sample_policy [2] = False" "never_reaped sample_policy [1] = True"
    by (simp_all add: sample_policy_def never_reaped_def override_of_def tget_def)
  have ml: "min_lifetime sample_policy = secs 300"
    by (simp add: sample_policy_def default_policy_def)
  have "List.map_filter (reap_one sample_policy (secs 1800) (secs 9000)) sample_instances =
     [([9], IdleTooLong (secs 8990)), ([3], NeverHadPlayers (secs 9000))]"
    by (simp add: sample_instances_def reap_one_def List.map_filter_simps age_since_def nr ml secs_def)
  then have "to_reap sample_policy sample_instances (secs 9000) =
     [([3], NeverHadPlayers (secs 9000)), ([9], IdleTooLong (secs 8990))]"
    by (simp add: to_reap_def sample_timeout cmp_def)
  moreover have "distinct (map ir_instance_id sample_instances)" by (simp add: sample_instances_def)
  moreover have "mset sample_instances = mset (rev sample_instances)" by simp
  ultimately show ?thesis
    using conjunct2 [OF conjunct2 [OF reaping_exact [OF sample_timeout,
        of sample_instances "secs 9000" "rev sample_instances"]]] by (metis mset_rev)
qed

end
