(* ===== verification/Schedule.thy ===== *)
theory Schedule
  imports Prelude
begin

text \<open>
  \<^verbatim>\<open>crates/platform-agent/src/schedule.rs\<close>, the backup schedule of \<^verbatim>\<open>backups.rs\<close>, and what
  \<^verbatim>\<open>Agent::scheduled_restarts\<close> and \<^verbatim>\<open>Agent::scheduled_backups\<close> do with one server on each visit.
  Unix seconds (\<^verbatim>\<open>i64\<close>) are \<open>int\<close>; they are far from the ends of the type, so its overflow is not
  modelled. Saving the schedule, sending the warning and making the backup are other components: the
  visit takes their results as arguments.
\<close>

section \<open>The daily restart window\<close>

record restart_schedule =
  start_utc :: u8
  end_utc :: u8
  with_players :: bool

datatype restart_decision = NotNow | Wait str | Restart | WarnThenRestart

definition validate :: "restart_schedule \<Rightarrow> (str, unit) outcome" where
  "validate s =
     (if start_utc s > 23 \<or> end_utc s > 23 then Err (ascii ''a window's hours are 0 to 23'')
      else if start_utc s = end_utc s then Err (ascii ''a window has to be at least an hour long'')
      else Ok ())"

definition window_start :: "restart_schedule \<Rightarrow> int \<Rightarrow> int option" where
  "window_start s now =
     (let day = now - now mod 86400;
          hour = (of_int (now mod 86400 div 3600) :: u8);
          start = day + uint (start_utc s) * 3600
      in if start_utc s < end_utc s
         then (if start_utc s \<le> hour \<and> hour < end_utc s then Some start else None)
         else if hour \<ge> start_utc s then Some start
         else if hour < end_utc s then Some (start - 86400)
         else None)"

definition decision :: "restart_schedule \<Rightarrow> u32 option \<Rightarrow> int \<Rightarrow> bool \<Rightarrow> int option \<Rightarrow> restart_decision" where
  "decision s humans now can_warn last_unix =
     (case window_start s now of
        None \<Rightarrow> NotNow
      | Some began \<Rightarrow>
          if (case last_unix of Some at \<Rightarrow> at \<ge> began | None \<Rightarrow> False) then NotNow
          else if humans = Some 0 then Restart
          else let busy = (case humans of
                    Some n \<Rightarrow> show_nat (unat n) @ ascii '' playing''
                  | None \<Rightarrow> ascii ''it cannot be asked whether anyone is playing'') in
            if with_players s \<and> can_warn then WarnThenRestart
            else if with_players s
            then Wait (ascii ''waiting for it to empty: '' @ busy
              @ ascii ''. Its game has no console to warn players on, so it never restarts with them on'')
            else Wait (ascii ''waiting for it to empty: '' @ busy))"

text \<open>
  One visit of \<open>scheduled_restarts\<close> to a running server that is not being moved. \<open>v_line\<close> is what
  \<open>say\<close> of the game's console gave for the warning (\<open>None\<close> when there is no line), \<open>v_saved\<close> and
  \<open>v_warned\<close> whether the save and the sending worked. The result is the stored last restart, the
  reason shown while waiting, whether the players were warned and whether \<open>restart\<close> was called.
\<close>

record visit =
  v_now :: int
  v_humans :: "u32 option"
  v_console :: bool
  v_line :: "str option"
  v_saved :: bool
  v_warned :: bool

record visit_result =
  vr_last :: "int option"
  vr_wait :: "str option"
  vr_warning :: "str option"
  vr_restarted :: bool

definition restart_visit :: "restart_schedule \<Rightarrow> visit \<Rightarrow> int option \<Rightarrow> visit_result" where
  "restart_visit s v last_unix =
     (let idle = \<lparr>vr_last = last_unix, vr_wait = None, vr_warning = None, vr_restarted = False\<rparr>;
          go = (\<lambda>warn.
            if \<not> v_saved v then idle
            else let r = idle\<lparr>vr_last := Some (v_now v)\<rparr> in
              case warn of
                None \<Rightarrow> r\<lparr>vr_restarted := True\<rparr>
              | Some line \<Rightarrow> if v_warned v then r\<lparr>vr_warning := Some line, vr_restarted := True\<rparr> else r)
      in case decision s (v_humans v) (v_now v) (v_console v) last_unix of
           NotNow \<Rightarrow> idle
         | Wait why \<Rightarrow> idle\<lparr>vr_wait := Some why\<rparr>
         | Restart \<Rightarrow> go None
         | WarnThenRestart \<Rightarrow> go (if v_console v then v_line v else None))"

text \<open>The visits of a server one after the other: the times at which it was restarted.\<close>

fun restarts :: "restart_schedule \<Rightarrow> visit list \<Rightarrow> int option \<Rightarrow> int list" where
  "restarts s [] last_unix = []"
| "restarts s (v # vs) last_unix =
     (let r = restart_visit s v last_unix in
      (if vr_restarted r then [v_now v] else []) @ restarts s vs (vr_last r))"

section \<open>Scheduled backups\<close>

record backup_schedule =
  every_hours :: u32
  keep :: u32

definition validate_backup :: "backup_schedule \<Rightarrow> (str, unit) outcome" where
  "validate_backup b =
     (if \<not> (1 \<le> every_hours b \<and> every_hours b \<le> 24 * 30)
      then Err (ascii ''a backup schedule runs every 1 hour to 30 days'')
      else if \<not> (1 \<le> keep b \<and> keep b \<le> 100)
      then Err (ascii ''a backup schedule keeps 1 to 100 backups'')
      else Ok ())"

definition due :: "backup_schedule \<Rightarrow> int \<Rightarrow> int option \<Rightarrow> bool" where
  "due b now last_unix =
     (case last_unix of None \<Rightarrow> True | Some at \<Rightarrow> now - at \<ge> uint (every_hours b) * 3600)"

record stored_schedule =
  bs_schedule :: backup_schedule
  bs_last_unix :: "int option"
  bs_made :: "str list"

definition record_backup :: "str \<Rightarrow> stored_schedule \<Rightarrow> str list \<times> stored_schedule" where
  "record_backup name st =
     (let made = bs_made st @ [name];
          extra = length made - unat (keep (bs_schedule st))
      in (take extra made, st\<lparr>bs_made := drop extra made\<rparr>))"

text \<open>
  One visit of \<open>scheduled_backups\<close>: \<open>bv_name\<close> is the new backup's name, \<open>None\<close> when making it failed;
  the two saves may fail. The result is the schedule as kept on disk and the backups deleted.
\<close>

record backup_visit =
  bv_now :: int
  bv_saved :: bool
  bv_name :: "str option"
  bv_saved_after :: bool

definition visit_backup :: "backup_visit \<Rightarrow> stored_schedule \<Rightarrow> str list \<times> stored_schedule" where
  "visit_backup v st =
     (if \<not> due (bs_schedule st) (bv_now v) (bs_last_unix st) then ([], st)
      else let st1 = st\<lparr>bs_last_unix := Some (bv_now v)\<rparr> in
      if \<not> bv_saved v then ([], st)
      else case bv_name v of
             None \<Rightarrow> ([], st1)
           | Some name \<Rightarrow>
               let (prune, st2) = record_backup name st1 in
               if bv_saved_after v then (prune, st2) else ([], st1))"

section \<open>What the window is\<close>

definition window_hours :: "restart_schedule \<Rightarrow> int" where
  "window_hours s = (uint (end_utc s) - uint (start_utc s)) mod 24"

lemma validate_Ok:
  "validate s = Ok () \<longleftrightarrow> uint (start_utc s) \<le> 23 \<and> uint (end_utc s) \<le> 23 \<and> start_utc s \<noteq> end_utc s"
  by (simp add: validate_def word_less_alt not_less)

lemma hour_of: "0 \<le> h \<Longrightarrow> h < 24 \<Longrightarrow> uint (of_int h :: u8) = h"
  by (simp add: uint_word_of_int)

text \<open>The reference: the windows are \<open>[d * 86400 + start, + hours)\<close>, one for each day \<open>d\<close>.\<close>

lemma window_start_iff:
  assumes "validate s = Ok ()"
  shows "window_start s now = Some b \<longleftrightarrow>
     (\<exists>d. b = d * 86400 + uint (start_utc s) * 3600 \<and> b \<le> now \<and> now < b + window_hours s * 3600)"
proof -
  define S where "S = uint (start_utc s)"
  define E where "E = uint (end_utc s)"
  define h where "h = now mod 86400 div 3600"
  define d0 where "d0 = now div 86400"
  have day: "now - now mod 86400 = d0 * 86400" by (simp add: d0_def minus_mod_eq_div_mult)
  have now: "now = d0 * 86400 + now mod 86400" by (simp add: d0_def)
  have mb: "0 \<le> now mod 86400" "now mod 86400 < 86400" by simp_all
  have hb: "0 \<le> h" "h < 24" by (simp_all add: h_def)
  have "now mod 86400 = 3600 * h + now mod 86400 mod 3600" by (simp add: h_def)
  moreover have "0 \<le> now mod 86400 mod 3600" "now mod 86400 mod 3600 < 3600" by simp_all
  ultimately have h: "h * 3600 \<le> now mod 86400" "now mod 86400 < (h + 1) * 3600" by simp_all
  have SE: "0 \<le> S" "S \<le> 23" "0 \<le> E" "E \<le> 23" "S \<noteq> E"
    using assms by (simp_all add: validate_Ok S_def E_def word_uint_eq_iff)
  have cmp: "start_utc s < end_utc s \<longleftrightarrow> S < E"
    "start_utc s \<le> of_int h \<longleftrightarrow> S \<le> h" "(of_int h :: u8) < end_utc s \<longleftrightarrow> h < E"
    using hour_of [OF hb] by (simp_all add: word_less_alt word_le_def S_def E_def)
  have "(E - S) mod 24 = (E - S + 24) mod 24" by simp
  then have len: "window_hours s = (if S < E then E - S else E - S + 24)"
    using SE by (auto simp: window_hours_def S_def [symmetric] E_def [symmetric] mod_pos_pos_trivial
        simp del: mod_add_self2)
  have code: "window_start s now =
      (if S < E then (if S \<le> h \<and> h < E then Some (d0 * 86400 + S * 3600) else None)
       else if S \<le> h then Some (d0 * 86400 + S * 3600)
       else if h < E then Some (d0 * 86400 + S * 3600 - 86400) else None)"
    unfolding window_start_def Let_def day h_def [symmetric] S_def [symmetric] by (simp add: cmp)
  have ex: "(\<exists>d. b = d * 86400 + S * 3600 \<and> b \<le> now \<and> now < b + window_hours s * 3600) \<longleftrightarrow>
      (b = d0 * 86400 + S * 3600 \<and> b \<le> now \<and> now < b + window_hours s * 3600) \<or>
      (b = (d0 - 1) * 86400 + S * 3600 \<and> now < b + window_hours s * 3600)"
  proof
    assume "\<exists>d. b = d * 86400 + S * 3600 \<and> b \<le> now \<and> now < b + window_hours s * 3600"
    then obtain d where d: "b = d * 86400 + S * 3600" "b \<le> now" "now < b + window_hours s * 3600" by blast
    have "d \<le> d0" using d now mb SE by linarith
    moreover have "d \<ge> d0 - 1" using d now mb SE len by (auto split: if_splits)
    ultimately have "d = d0 \<or> d = d0 - 1" by linarith
    with d show "(b = d0 * 86400 + S * 3600 \<and> b \<le> now \<and> now < b + window_hours s * 3600) \<or>
      (b = (d0 - 1) * 86400 + S * 3600 \<and> now < b + window_hours s * 3600)" by auto
  next
    assume "(b = d0 * 86400 + S * 3600 \<and> b \<le> now \<and> now < b + window_hours s * 3600) \<or>
      (b = (d0 - 1) * 86400 + S * 3600 \<and> now < b + window_hours s * 3600)"
    moreover have "(d0 - 1) * 86400 + S * 3600 \<le> d0 * 86400" using SE by simp
    then have "(d0 - 1) * 86400 + S * 3600 \<le> now" using now mb by linarith
    ultimately show "\<exists>d. b = d * 86400 + S * 3600 \<and> b \<le> now \<and> now < b + window_hours s * 3600" by blast
  qed
  show ?thesis
    unfolding S_def [symmetric] unfolding ex unfolding code len
    using now mb h SE by (auto split: if_splits)
qed

lemma decision_in_window:
  "decision s humans now can_warn last_unix \<in> {Restart, WarnThenRestart} \<Longrightarrow>
     \<exists>b. window_start s now = Some b \<and> (\<forall>at. last_unix = Some at \<longrightarrow> at < b)"
  by (auto simp: decision_def Let_def not_le split: option.splits if_splits)

lemma restart_visit_last:
  "vr_last (restart_visit s v last_unix) = last_unix \<or>
   vr_last (restart_visit s v last_unix) = Some (v_now v) \<and>
   decision s (v_humans v) (v_now v) (v_console v) last_unix \<in> {Restart, WarnThenRestart}"
  by (cases "decision s (v_humans v) (v_now v) (v_console v) last_unix")
     (auto simp: restart_visit_def Let_def split: option.splits)

lemma restart_visit_restarted:
  "vr_restarted (restart_visit s v last_unix) \<Longrightarrow>
   vr_last (restart_visit s v last_unix) = Some (v_now v) \<and>
   decision s (v_humans v) (v_now v) (v_console v) last_unix \<in> {Restart, WarnThenRestart}"
  by (cases "decision s (v_humans v) (v_now v) (v_console v) last_unix")
     (auto simp: restart_visit_def Let_def split: option.splits if_splits)

lemma record_backup_parts:
  assumes "record_backup name st = (pruned, st')"
  shows "pruned @ bs_made st' = bs_made st @ [name]" "length (bs_made st') \<le> unat (keep (bs_schedule st))"
    "pruned \<noteq> [] \<Longrightarrow> length (bs_made st') = unat (keep (bs_schedule st))"
    "bs_schedule st' = bs_schedule st" "bs_last_unix st' = bs_last_unix st"
  using assms by (auto simp: record_backup_def Let_def simp del: take_append drop_append append_take_drop_id)
    (simp_all add: append_take_drop_id del: take_append drop_append)

lemma window_start_le: "validate s = Ok () \<Longrightarrow> window_start s now = Some b \<Longrightarrow> b \<le> now"
  by (auto simp: window_start_iff)

lemma restarts_after:
  assumes "validate s = Ok ()"
  shows "sorted (map v_now vs) \<Longrightarrow> (\<And>v at. v \<in> set vs \<Longrightarrow> last_unix = Some at \<Longrightarrow> at \<le> v_now v) \<Longrightarrow>
     (\<forall>t\<in>set (restarts s vs last_unix).
        \<exists>b. window_start s t = Some b \<and> (\<forall>at. last_unix = Some at \<longrightarrow> at < b))
     \<and> sorted_wrt (\<lambda>t1 t2. \<exists>b. window_start s t2 = Some b \<and> t1 < b) (restarts s vs last_unix)"
proof (induction vs arbitrary: last_unix)
  case Nil
  then show ?case by simp
next
  case (Cons v vs)
  let ?r = "restart_visit s v last_unix"
  have dec: "\<exists>b. window_start s (v_now v) = Some b \<and> (\<forall>at. last_unix = Some at \<longrightarrow> at < b)"
    if "decision s (v_humans v) (v_now v) (v_console v) last_unix \<in> {Restart, WarnThenRestart}"
    using that by (rule decision_in_window)
  have lastle: "at \<le> v_now w" if "w \<in> set vs" "vr_last ?r = Some at" for w at
    using restart_visit_last [of s v last_unix] Cons.prems that by auto
  from Cons.IH [OF _ lastle] Cons.prems(1)
  have IH: "\<forall>t\<in>set (restarts s vs (vr_last ?r)).
        \<exists>b. window_start s t = Some b \<and> (\<forall>at. vr_last ?r = Some at \<longrightarrow> at < b)"
    and srt: "sorted_wrt (\<lambda>t1 t2. \<exists>b. window_start s t2 = Some b \<and> t1 < b) (restarts s vs (vr_last ?r))"
    by auto
  have later: "\<forall>at. last_unix = Some at \<longrightarrow> at < b"
    if "window_start s t = Some b" "\<forall>at. vr_last ?r = Some at \<longrightarrow> at < b" for t b
    using restart_visit_last [of s v last_unix] that dec window_start_le [OF assms] Cons.prems(2)
    by fastforce
  have all: "\<forall>t\<in>set (restarts s vs (vr_last ?r)).
        \<exists>b. window_start s t = Some b \<and> (\<forall>at. last_unix = Some at \<longrightarrow> at < b)"
    using IH later by blast
  show ?case
  proof (cases "vr_restarted ?r")
    case True
    note rs = restart_visit_restarted [OF this]
    then have "\<forall>t\<in>set (restarts s vs (vr_last ?r)). \<exists>b. window_start s t = Some b \<and> v_now v < b"
      using IH by auto
    with True all dec [OF conjunct2 [OF rs]] srt show ?thesis by (simp add: Let_def)
  next
    case False
    with all srt show ?thesis by (simp add: Let_def)
  qed
qed

lemma visit_backup_parts:
  assumes "visit_backup v st = (pruned, st')"
  shows "pruned = [] \<and> bs_made st' = bs_made st \<or>
      (\<exists>name. bv_name v = Some name \<and> pruned @ bs_made st' = bs_made st @ [name]
        \<and> length (bs_made st') \<le> unat (keep (bs_schedule st))
        \<and> (pruned \<noteq> [] \<longrightarrow> length (bs_made st') = unat (keep (bs_schedule st))))"
    and "bs_last_unix st' = bs_last_unix st \<or> bs_last_unix st' = Some (bv_now v)
        \<and> (\<forall>at. bs_last_unix st = Some at \<longrightarrow> bv_now v \<ge> at + uint (every_hours (bs_schedule st)) * 3600)"
    and "bs_schedule st' = bs_schedule st"
proof -
  let ?st1 = "st\<lparr>bs_last_unix := Some (bv_now v)\<rparr>"
  have due: "due (bs_schedule st) (bv_now v) (bs_last_unix st) \<Longrightarrow> bs_last_unix st = Some at \<Longrightarrow>
      bv_now v \<ge> at + uint (every_hours (bs_schedule st)) * 3600" for at
    by (simp add: due_def)
  obtain p st2 where rec: "record_backup (the (bv_name v)) ?st1 = (p, st2)" by fastforce
  note parts = record_backup_parts [OF rec, simplified]
  show "pruned = [] \<and> bs_made st' = bs_made st \<or>
      (\<exists>name. bv_name v = Some name \<and> pruned @ bs_made st' = bs_made st @ [name]
        \<and> length (bs_made st') \<le> unat (keep (bs_schedule st))
        \<and> (pruned \<noteq> [] \<longrightarrow> length (bs_made st') = unat (keep (bs_schedule st))))"
    using assms parts rec by (auto simp: visit_backup_def Let_def split: if_splits option.splits)
  show "bs_last_unix st' = bs_last_unix st \<or> bs_last_unix st' = Some (bv_now v)
        \<and> (\<forall>at. bs_last_unix st = Some at \<longrightarrow> bv_now v \<ge> at + uint (every_hours (bs_schedule st)) * 3600)"
    "bs_schedule st' = bs_schedule st"
    using assms parts rec due by (auto simp: visit_backup_def Let_def split: if_splits option.splits)
qed

section \<open>Properties\<close>

text \<open>A scheduled restart happens at most once in each daily window, and only inside one. The windows of
  a valid schedule are, for each day, the hours from its start to its end, past midnight when the end
  is the smaller hour. Whatever the visits meet (failed saves, failed warnings, players, consoles),
  every restart of a server lies in a window, and of two restarts the second lies in a window that
  opened after the first.
\<close>
theorem one_restart_per_window:
  assumes "validate s = Ok ()" "sorted (map v_now vs)"
  shows "(\<forall>t\<in>set (restarts s vs None). window_start s t \<noteq> None)
   \<and> sorted_wrt (\<lambda>t1 t2. \<exists>b. window_start s t2 = Some b \<and> t1 < b) (restarts s vs None)
   \<and> (\<forall>t b. window_start s t = Some b \<longleftrightarrow>
        (\<exists>d. b = d * 86400 + uint (start_utc s) * 3600 \<and> b \<le> t \<and> t < b + window_hours s * 3600))"
  using restarts_after [OF assms, of None] window_start_iff [OF assms(1)] by fastforce

definition sample_schedule :: restart_schedule where
  "sample_schedule = \<lparr>start_utc = 22, end_utc = 4, with_players = False\<rparr>"

definition sample_visits :: "visit list" where
  "sample_visits = map (\<lambda>t. \<lparr>v_now = t, v_humans = Some 0, v_console = False, v_line = None,
     v_saved = True, v_warned = True\<rparr>) [70000, 82800, 90000, 170000]"

theorem one_restart_per_window_witness:
  "restarts sample_schedule sample_visits None = [82800, 170000]
   \<and> (\<exists>b. window_start sample_schedule 170000 = Some b \<and> 82800 < b)"
proof -
  have r: "restarts sample_schedule sample_visits None = [82800, 170000]"
    by (simp add: sample_visits_def sample_schedule_def restart_visit_def decision_def window_start_def
        word_less_alt word_le_def uint_word_of_int Let_def)
  have "validate sample_schedule = Ok ()" "sorted (map v_now sample_visits)"
    by (simp_all add: sample_schedule_def sample_visits_def validate_def)
  from conjunct1 [OF conjunct2 [OF one_restart_per_window [OF this]]] r show ?thesis
    by (simp only: sorted_wrt.simps list.set) blast
qed

text \<open>C37.
  A backup schedule keeps at most \<open>keep\<close> of the backups it made, the newest ones, in order: it deletes
  the oldest first and only backups it made itself. Two attempts are at least \<open>every_hours\<close> apart, and
  what was made is, at every moment, what was deleted followed by what is kept.
\<close>
theorem backup_schedule_keeps_newest:
  assumes "visit_backup v st = (pruned, st')"
  shows "(pruned \<noteq> [] \<or> bs_made st' \<noteq> bs_made st \<longrightarrow>
      (\<exists>name. bv_name v = Some name \<and> pruned @ bs_made st' = bs_made st @ [name]
        \<and> length (bs_made st') \<le> unat (keep (bs_schedule st))
        \<and> (pruned \<noteq> [] \<longrightarrow> length (bs_made st') = unat (keep (bs_schedule st)))))
   \<and> (bs_last_unix st' \<noteq> bs_last_unix st \<longrightarrow> bs_last_unix st' = Some (bv_now v)
        \<and> (\<forall>at. bs_last_unix st = Some at \<longrightarrow> bv_now v \<ge> at + uint (every_hours (bs_schedule st)) * 3600))
   \<and> bs_schedule st' = bs_schedule st"
  using visit_backup_parts [OF assms] by blast

theorem backup_schedule_keeps_newest_witness:
  "bs_made (snd (visit_backup \<lparr>bv_now = 7200, bv_saved = True, bv_name = Some [3], bv_saved_after = True\<rparr>
     \<lparr>bs_schedule = \<lparr>every_hours = 2, keep = 2\<rparr>, bs_last_unix = Some 0, bs_made = [[1], [2]]\<rparr>)) = [[2], [3]]"
proof -
  have "visit_backup \<lparr>bv_now = 7200, bv_saved = True, bv_name = Some [3], bv_saved_after = True\<rparr>
     \<lparr>bs_schedule = \<lparr>every_hours = 2, keep = 2\<rparr>, bs_last_unix = Some 0, bs_made = [[1], [2]]\<rparr> =
     ([[1]], \<lparr>bs_schedule = \<lparr>every_hours = 2, keep = 2\<rparr>, bs_last_unix = Some 7200, bs_made = [[2], [3]]\<rparr>)"
    by (simp add: visit_backup_def record_backup_def due_def)
  from backup_schedule_keeps_newest [OF this] this show ?thesis by simp
qed

end
