(* ===== verification/Lan_Room.thy ===== *)
theory Lan_Room
  imports Prelude
begin

text \<open>
  \<^verbatim>\<open>crates/game-bridge/src/lan.rs\<close>, first half: a room's subnet, the address an identity derives, and
  the member table the host keeps. An \<^verbatim>\<open>Ipv4Addr\<close> is its \<open>u32\<close>; an \<^verbatim>\<open>IdentityHash\<close> is its 16 bytes.
  \<open>mask_for\<close> shifts by at most 32 places only for a prefix length of 0 to 32, which \<open>RoomSubnet::new\<close>
  guarantees (16 to 24); \<open>subnet_ok\<close> states what it guarantees.
\<close>

type_synonym ipv4 = u32
type_synonym identity = bytes

definition LAN_MTU :: nat where "LAN_MTU = 1400"
definition MAX_MEMBERS :: nat where "MAX_MEMBERS = 32"
definition DEFAULT_ROOM_PREFIX :: ipv4 where "DEFAULT_ROOM_PREFIX = 0xC6130000"
definition DEFAULT_ROOM_PREFIX_LEN :: u8 where "DEFAULT_ROOM_PREFIX_LEN = 16"
definition ALLOWED_RANGE :: ipv4 where "ALLOWED_RANGE = 0xC6120000"
definition ALLOWED_RANGE_LEN :: u8 where "ALLOWED_RANGE_LEN = 15"

lemmas room_consts = DEFAULT_ROOM_PREFIX_def DEFAULT_ROOM_PREFIX_LEN_def ALLOWED_RANGE_def ALLOWED_RANGE_LEN_def

section \<open>Addresses\<close>

text \<open>\<^verbatim>\<open>Ipv4Addr::octets\<close>, \<^verbatim>\<open>is_broadcast\<close>, \<^verbatim>\<open>is_multicast\<close> of the standard library.\<close>

definition octets :: "ipv4 \<Rightarrow> bytes" where
  "octets a = to_be 4 a"

definition last_octet :: "ipv4 \<Rightarrow> u8" where
  "last_octet a = octets a ! 3"

definition limited_broadcast :: "ipv4 \<Rightarrow> bool" where
  "limited_broadcast a \<longleftrightarrow> a = 0xFFFFFFFF"

definition multicast :: "ipv4 \<Rightarrow> bool" where
  "multicast a \<longleftrightarrow> (let o0 = octets a ! 0 in 224 \<le> o0 \<and> o0 \<le> 239)"

record room_subnet =
  rs_prefix :: ipv4
  rs_prefix_len :: u8

definition default_subnet :: room_subnet where
  "default_subnet = \<lparr>rs_prefix = DEFAULT_ROOM_PREFIX, rs_prefix_len = DEFAULT_ROOM_PREFIX_LEN\<rparr>"

definition mask_for :: "u8 \<Rightarrow> u32" where
  "mask_for prefix_len = push_bit (32 - unat prefix_len) 0xFFFFFFFF"

definition new_subnet :: "ipv4 \<Rightarrow> u8 \<Rightarrow> room_subnet option" where
  "new_subnet prefix prefix_len =
     (if \<not> (16 \<le> prefix_len \<and> prefix_len \<le> 24) then None
      else let mask = mask_for prefix_len; prefix = prefix AND mask in
        if prefix AND mask_for ALLOWED_RANGE_LEN \<noteq> ALLOWED_RANGE then None
        else Some \<lparr>rs_prefix = prefix, rs_prefix_len = prefix_len\<rparr>)"

definition mask_of :: "room_subnet \<Rightarrow> u32" where
  "mask_of s = mask_for (rs_prefix_len s)"

definition in_subnet :: "room_subnet \<Rightarrow> ipv4 \<Rightarrow> bool" where
  "in_subnet s addr \<longleftrightarrow> addr AND mask_of s = rs_prefix s"

definition broadcast :: "room_subnet \<Rightarrow> ipv4" where
  "broadcast s = (rs_prefix s OR NOT (mask_of s))"

definition is_broadcast :: "room_subnet \<Rightarrow> ipv4 \<Rightarrow> bool" where
  "is_broadcast s addr \<longleftrightarrow> limited_broadcast addr \<or> addr = broadcast s \<or> multicast addr"

definition is_assignable :: "room_subnet \<Rightarrow> ipv4 \<Rightarrow> bool" where
  "is_assignable s addr \<longleftrightarrow>
     (let last = last_octet addr in in_subnet s addr \<and> last \<noteq> 0 \<and> last \<noteq> 255)"

definition is_pseudo_broadcast :: "room_subnet \<Rightarrow> ipv4 \<Rightarrow> bool" where
  "is_pseudo_broadcast s addr \<longleftrightarrow>
     in_subnet s addr \<and> \<not> is_broadcast s addr \<and> \<not> is_assignable s addr"

definition with_host :: "room_subnet \<Rightarrow> u32 \<Rightarrow> ipv4" where
  "with_host s host = (rs_prefix s OR (host AND NOT (mask_of s)))"

definition derive_address :: "room_subnet \<Rightarrow> identity \<Rightarrow> nat \<Rightarrow> ipv4 option" where
  "derive_address s ident attempt =
     (case get_range ident (attempt * 2) (attempt * 2 + 2) of
        None \<Rightarrow> None
      | Some pair \<Rightarrow> Some (with_host s (ucast (of_be pair :: u16))))"

section \<open>The member table\<close>

record lan_member =
  lm_identity :: identity
  lm_address :: ipv4

datatype refusal = Full | NotAllowed | NoAddress | Other u8

definition refusal_to_byte :: "refusal \<Rightarrow> u8" where
  "refusal_to_byte r = (case r of Full \<Rightarrow> 1 | NotAllowed \<Rightarrow> 2 | NoAddress \<Rightarrow> 3 | Other b \<Rightarrow> b)"

definition refusal_from_byte :: "u8 \<Rightarrow> refusal" where
  "refusal_from_byte b =
     (if b = 1 then Full else if b = 2 then NotAllowed else if b = 3 then NoAddress else Other b)"

record member_table =
  mt_subnet :: room_subnet
  mt_capacity :: nat
  mt_members :: "lan_member list"
  mt_epoch :: u32

definition new_table :: "room_subnet \<Rightarrow> nat \<Rightarrow> member_table" where
  "new_table s capacity =
     \<lparr>mt_subnet = s, mt_capacity = min (max capacity 1) MAX_MEMBERS, mt_members = [], mt_epoch = 0\<rparr>"

definition address_of :: "member_table \<Rightarrow> identity \<Rightarrow> ipv4 option" where
  "address_of t ident = map_option lm_address (List.find (\<lambda>m. lm_identity m = ident) (mt_members t))"

definition identity_at :: "member_table \<Rightarrow> ipv4 \<Rightarrow> identity option" where
  "identity_at t addr = map_option lm_identity (List.find (\<lambda>m. lm_address m = addr) (mt_members t))"

definition taken :: "member_table \<Rightarrow> ipv4 \<Rightarrow> bool" where
  "taken t a \<longleftrightarrow> list_ex (\<lambda>m. lm_address m = a) (mt_members t)"

definition free_address :: "member_table \<Rightarrow> identity \<Rightarrow> ipv4 option" where
  "free_address t ident =
     (case List.find (\<lambda>a. is_assignable (mt_subnet t) a \<and> \<not> taken t a)
             (List.map_filter (derive_address (mt_subnet t) ident) [0..<8]) of
        Some a \<Rightarrow> Some a
      | None \<Rightarrow>
          (let hosts = NOT (mask_of (mt_subnet t)) in
           List.find (\<lambda>a. is_assignable (mt_subnet t) a \<and> \<not> taken t a)
             (map (\<lambda>h. with_host (mt_subnet t) (of_nat h)) [1..<unat hosts])))"

definition admit :: "identity \<Rightarrow> member_table \<Rightarrow> (refusal, ipv4) outcome \<times> member_table" where
  "admit ident t =
     (case address_of t ident of
        Some addr \<Rightarrow> (Ok addr, t)
      | None \<Rightarrow>
          if length (mt_members t) \<ge> mt_capacity t then (Err Full, t)
          else case free_address t ident of
                 None \<Rightarrow> (Err NoAddress, t)
               | Some address \<Rightarrow>
                   (Ok address,
                    t\<lparr>mt_members := mt_members t @ [\<lparr>lm_identity = ident, lm_address = address\<rparr>],
                      mt_epoch := mt_epoch t + 1\<rparr>))"

definition remove :: "identity \<Rightarrow> member_table \<Rightarrow> bool \<times> member_table" where
  "remove ident t =
     (let before = length (mt_members t);
          members = filter (\<lambda>m. lm_identity m \<noteq> ident) (mt_members t);
          changed = (length members \<noteq> before);
          t' = t\<lparr>mt_members := members\<rparr>
      in (changed, if changed then t'\<lparr>mt_epoch := mt_epoch t + 1\<rparr> else t'))"

section \<open>Masks\<close>

definition subnet_ok :: "room_subnet \<Rightarrow> bool" where
  "subnet_ok s \<longleftrightarrow> new_subnet (rs_prefix s) (rs_prefix_len s) = Some s"

lemma prefix_len_cases:
  assumes "16 \<le> (l :: u8)" "l \<le> 24"
  shows "l \<in> {16, 17, 18, 19, 20, 21, 22, 23, 24}"
proof -
  have "unat l \<in> {16, 17, 18, 19, 20, 21, 22, 23, 24}"
    using assms by (auto simp: word_le_nat_alt)
  then show ?thesis by (auto simp: word_unat_eq_iff)
qed

lemma mask_for_bit: "bit (mask_for l) n \<longleftrightarrow> 32 - unat l \<le> n \<and> n < 32"
proof -
  have ones: "(0xFFFFFFFF :: u32) = - 1" by simp
  show ?thesis unfolding mask_for_def ones by (auto simp: bit_simps)
qed

lemma new_subnet_Some:
  assumes "new_subnet p l = Some s"
  shows "16 \<le> unat l \<and> unat l \<le> 24 \<and> rs_prefix_len s = l \<and> rs_prefix s = p AND mask_for l \<and> subnet_ok s"
  using assms by (auto simp: new_subnet_def subnet_ok_def Let_def word_le_nat_alt and.assoc split: if_splits)

lemma subnet_ok_facts:
  assumes "subnet_ok s"
  shows "16 \<le> unat (rs_prefix_len s)" "unat (rs_prefix_len s) \<le> 24"
    "rs_prefix s AND mask_of s = rs_prefix s"
    "rs_prefix s AND mask_for ALLOWED_RANGE_LEN = ALLOWED_RANGE"
  using assms new_subnet_Some [of "rs_prefix s" "rs_prefix_len s" s]
  by (auto simp: subnet_ok_def mask_of_def new_subnet_def Let_def split: if_splits)

lemma default_subnet_ok: "subnet_ok default_subnet"
  by (simp add: subnet_ok_def default_subnet_def new_subnet_def room_consts mask_for_def)

lemma last_octet_ucast: "last_octet a = ucast a"
  by (simp add: last_octet_def octets_def to_be_def upt_rec)

lemma mask_low_bits:
  assumes "subnet_ok s" "n < 8"
  shows "\<not> bit (mask_of s) n"
  using assms subnet_ok_facts(1,2) [OF assms(1)] by (simp add: mask_of_def mask_for_bit)

lemma prefix_low_bits: "subnet_ok s \<Longrightarrow> n < 8 \<Longrightarrow> \<not> bit (rs_prefix s) n"
  using mask_low_bits [of s n] subnet_ok_facts(3) [of s] by (metis bit_and_iff)

lemma broadcast_last: "subnet_ok s \<Longrightarrow> last_octet (broadcast s) = 255"
proof -
  assume ok: "subnet_ok s"
  have "ucast (broadcast s) = (mask 8 :: u8)"
    by (rule bit_word_eqI) (use ok in \<open>auto simp: broadcast_def bit_simps dest: mask_low_bits\<close>)
  then show ?thesis by (simp add: last_octet_ucast mask_eq_exp_minus_1)
qed

lemma with_host_last: "subnet_ok s \<Longrightarrow> last_octet (with_host s h) = ucast h"
  unfolding last_octet_ucast
  by (rule bit_word_eqI) (auto simp: with_host_def bit_simps dest: mask_low_bits prefix_low_bits)

lemma with_host_in: "subnet_ok s \<Longrightarrow> in_subnet s (with_host s h)"
proof -
  assume "subnet_ok s"
  then have "rs_prefix s AND mask_of s = rs_prefix s" by (rule subnet_ok_facts)
  then have "\<And>n. bit (rs_prefix s) n \<Longrightarrow> bit (mask_of s) n" by (metis bit_and_iff)
  then show ?thesis unfolding in_subnet_def
    by (intro bit_word_eqI) (auto simp: with_host_def bit_simps)
qed

lemma in_subnet_range:
  assumes "subnet_ok s" "in_subnet s a"
  shows "a AND mask_for ALLOWED_RANGE_LEN = ALLOWED_RANGE"
proof -
  have sub: "mask_of s AND mask_for ALLOWED_RANGE_LEN = mask_for ALLOWED_RANGE_LEN"
    by (rule bit_word_eqI)
       (use subnet_ok_facts(1,2) [OF assms(1)] in \<open>auto simp: mask_of_def mask_for_bit bit_simps room_consts\<close>)
  have "a AND mask_for ALLOWED_RANGE_LEN = (a AND mask_of s) AND mask_for ALLOWED_RANGE_LEN"
    by (simp only: and.assoc sub)
  also have "\<dots> = ALLOWED_RANGE"
    using assms(2) subnet_ok_facts(4) [OF assms(1)] by (simp add: in_subnet_def)
  finally show ?thesis .
qed

lemma in_range_octet: "a AND mask_for ALLOWED_RANGE_LEN = ALLOWED_RANGE \<Longrightarrow> octets a ! 0 = 198"
proof -
  assume eq: "a AND mask_for ALLOWED_RANGE_LEN = ALLOWED_RANGE"
  have "drop_bit 24 a = drop_bit 24 (a AND mask_for ALLOWED_RANGE_LEN)"
    by (rule bit_word_eqI) (auto simp: bit_simps mask_for_bit room_consts dest: bit_imp_le_length)
  also have "\<dots> = 198" by (simp add: eq ALLOWED_RANGE_def)
  finally show ?thesis by (simp add: octets_def to_be_def upt_rec)
qed

lemma in_subnet_not_multicast:
  "subnet_ok s \<Longrightarrow> in_subnet s a \<Longrightarrow> \<not> multicast a \<and> \<not> limited_broadcast a"
  using in_range_octet [OF in_subnet_range, of s a]
  by (auto simp: multicast_def limited_broadcast_def octets_def to_be_def upt_rec)

lemma assignable_not_broadcast: "subnet_ok s \<Longrightarrow> is_assignable s a \<Longrightarrow> \<not> is_broadcast s a"
  using in_subnet_not_multicast [of s a] broadcast_last [of s]
  by (auto simp: is_assignable_def is_broadcast_def Let_def)

section \<open>The table's invariant\<close>

definition table_ok :: "member_table \<Rightarrow> bool" where
  "table_ok t \<longleftrightarrow>
     subnet_ok (mt_subnet t) \<and> mt_capacity t \<le> MAX_MEMBERS \<and> length (mt_members t) \<le> mt_capacity t
     \<and> distinct (map lm_identity (mt_members t)) \<and> distinct (map lm_address (mt_members t))
     \<and> list_all (\<lambda>m. is_assignable (mt_subnet t) (lm_address m)) (mt_members t)"

lemma find_distinct:
  "distinct (map f xs) \<Longrightarrow> x \<in> set xs \<Longrightarrow> f x = k \<Longrightarrow> List.find (\<lambda>y. f y = k) xs = Some x"
  by (induction xs) (auto simp: image_iff)

lemma member_eta [simp]: "\<lparr>lm_identity = lm_identity m, lm_address = lm_address m\<rparr> = (m :: lan_member)"
  by simp

lemma address_of_None: "address_of t ident = None \<longleftrightarrow> ident \<notin> lm_identity ` set (mt_members t)"
  by (auto simp: address_of_def find_None)

lemma address_of_Some:
  "table_ok t \<Longrightarrow> address_of t ident = Some a \<longleftrightarrow> \<lparr>lm_identity = ident, lm_address = a\<rparr> \<in> set (mt_members t)"
  using find_distinct [of lm_identity "mt_members t" "\<lparr>lm_identity = ident, lm_address = a\<rparr>" ident]
  by (auto simp: table_ok_def address_of_def dest!: find_Some)

lemma identity_at_Some:
  "table_ok t \<Longrightarrow> identity_at t a = Some ident \<longleftrightarrow> \<lparr>lm_identity = ident, lm_address = a\<rparr> \<in> set (mt_members t)"
  using find_distinct [of lm_address "mt_members t" "\<lparr>lm_identity = ident, lm_address = a\<rparr>" a]
  by (auto simp: table_ok_def identity_at_def dest!: find_Some)

lemma taken_iff: "taken t a \<longleftrightarrow> a \<in> lm_address ` set (mt_members t)"
  by (auto simp: taken_def list_ex_iff)

lemma free_address_ok:
  "free_address t ident = Some a \<Longrightarrow> is_assignable (mt_subnet t) a \<and> \<not> taken t a"
  by (auto simp: free_address_def Let_def split: option.splits dest: find_Some)

lemma host_addresses_assignable:
  assumes "subnet_ok s" "1 \<le> h" "h < 255"
  shows "is_assignable s (with_host s (of_nat h))"
proof -
  have "ucast (of_nat h :: u32) = (of_nat h :: u8)"
    unfolding word_unat_eq_iff using assms by (simp add: unat_of_nat unsigned_ucast_eq take_bit_nat_def)
  moreover have "unat (of_nat h :: u8) = h" using assms by simp
  ultimately show ?thesis
    using assms with_host_in [of s "of_nat h"] with_host_last [of s "of_nat h"]
    by (auto simp: is_assignable_def Let_def word_unat_eq_iff)
qed

lemma free_address_exists:
  assumes ok: "table_ok t"
  shows "free_address t ident \<noteq> None"
proof
  let ?s = "mt_subnet t"
  assume none: "free_address t ident = None"
  have s: "subnet_ok ?s" using ok by (simp add: table_ok_def)
  have hosts: "255 \<le> unat (NOT (mask_of ?s))"
  proof -
    have "(mask 8 :: u32) = mask 8 AND NOT (mask_of ?s)"
      by (rule bit_word_eqI) (use s in \<open>auto simp: bit_simps dest: mask_low_bits\<close>)
    also have "\<dots> \<le> NOT (mask_of ?s)" by (rule word_and_le1)
    finally show ?thesis by (simp add: word_le_nat_alt mask_eq_exp_minus_1)
  qed
  have "with_host ?s (of_nat h) \<in> lm_address ` set (mt_members t)" if "h \<in> {1..<255}" for h
    using none that host_addresses_assignable [OF s] hosts
    by (auto simp: free_address_def Let_def find_None taken_iff split: option.splits)
  then have sub: "(\<lambda>h. with_host ?s (of_nat h)) ` {1..<255} \<subseteq> set (map lm_address (mt_members t))"
    by auto
  have "inj_on (\<lambda>h. with_host ?s (of_nat h)) {1..<255}"
  proof (rule inj_onI)
    fix x y :: nat assume r: "x \<in> {1..<255}" "y \<in> {1..<255}"
      and "with_host ?s (of_nat x) = with_host ?s (of_nat y)"
    then have "(ucast (of_nat x :: u32) :: u8) = ucast (of_nat y :: u32)"
      using with_host_last [OF s] by metis
    then have "unat (ucast (of_nat x :: u32) :: u8) = unat (ucast (of_nat y :: u32) :: u8)" by simp
    with r show "x = y" by (simp add: unat_of_nat unsigned_ucast_eq take_bit_nat_def)
  qed
  then have "card ((\<lambda>h. with_host ?s (of_nat h)) ` {1..<255}) = 254" by (simp add: card_image)
  then have "254 \<le> card (set (map lm_address (mt_members t)))"
    using sub by (metis card_mono List.finite_set)
  also have "\<dots> \<le> 32" using ok card_length [of "map lm_address (mt_members t)"]
    by (simp add: table_ok_def MAX_MEMBERS_def)
  finally show False by simp
qed

lemma new_table_ok [step_inv]: "subnet_ok s \<Longrightarrow> table_ok (new_table s capacity)"
  by (simp add: table_ok_def new_table_def)

lemma admit_cases:
  assumes "table_ok t" "admit ident t = (r, t')"
  shows "(\<exists>a. r = Ok a \<and> address_of t ident = Some a \<and> t' = t)
    \<or> (r = Err Full \<and> address_of t ident = None \<and> length (mt_members t) = mt_capacity t \<and> t' = t)
    \<or> (\<exists>a. r = Ok a \<and> address_of t ident = None \<and> length (mt_members t) < mt_capacity t
        \<and> is_assignable (mt_subnet t) a \<and> \<not> taken t a
        \<and> t' = t\<lparr>mt_members := mt_members t @ [\<lparr>lm_identity = ident, lm_address = a\<rparr>],
                 mt_epoch := mt_epoch t + 1\<rparr>)"
  using assms free_address_exists [OF assms(1), of ident]
  by (auto simp: admit_def table_ok_def split: option.splits if_splits dest: free_address_ok)

lemma admit_ok [step_inv]: "table_ok t \<Longrightarrow> table_ok (snd (admit ident t))"
  using admit_cases [of t ident "fst (admit ident t)" "snd (admit ident t)"]
  by (auto simp: table_ok_def address_of_None taken_iff)

lemma remove_ok [step_inv]: "table_ok t \<Longrightarrow> table_ok (snd (remove ident t))"
  by (auto simp: table_ok_def remove_def Let_def distinct_map_filter list_all_iff
      intro: order_trans [OF length_filter_le])

text \<open>The host's table after a history of joins and leaves.\<close>

datatype table_op = Admit identity | Remove identity

fun apply_table :: "table_op \<Rightarrow> member_table \<Rightarrow> member_table" where
  "apply_table (Admit i) t = snd (admit i t)"
| "apply_table (Remove i) t = snd (remove i t)"

lemma apply_table_ok [step_inv]: "table_ok t \<Longrightarrow> table_ok (apply_table op t)"
  by (cases op) (simp_all add: step_inv)

lemma history_table_ok: "table_ok t \<Longrightarrow> table_ok (fold apply_table ops t)"
  by (induction ops arbitrary: t) (simp_all add: step_inv)

definition room_after :: "room_subnet \<Rightarrow> nat \<Rightarrow> table_op list \<Rightarrow> member_table" where
  "room_after s capacity ops = fold apply_table ops (new_table s capacity)"

lemma room_after_ok: "subnet_ok s \<Longrightarrow> table_ok (room_after s capacity ops)"
  by (simp add: room_after_def history_table_ok step_inv)

lemma room_after_capacity: "mt_capacity (room_after s capacity ops) = min (max capacity 1) MAX_MEMBERS"
proof -
  have "mt_capacity (fold apply_table ops t) = mt_capacity t" for t
  proof (induction ops arbitrary: t)
    case (Cons op ops)
    have "mt_capacity (apply_table op t) = mt_capacity t"
      by (cases op) (auto simp: admit_def remove_def Let_def split: option.splits)
    with Cons show ?case by simp
  qed simp
  then show ?thesis by (simp add: room_after_def new_table_def)
qed

section \<open>Properties\<close>

text \<open>C16.
  After any history of joins and leaves in any subnet the constructor accepts: no two members share
  an address or an identity, no more are seated than the room's capacity, nobody sits on an address
  that reaches everybody (the limited, directed and multicast broadcasts, and the \<open>.0\<close> and \<open>.255\<close>
  pseudo-broadcasts), and every address lies in \<open>198.18.0.0/15\<close>.
\<close>
theorem room_addresses_sound:
  assumes "new_subnet p l = Some s" and t: "t = room_after s capacity ops"
  shows "distinct (map lm_address (mt_members t)) \<and> distinct (map lm_identity (mt_members t))
    \<and> length (mt_members t) \<le> min (max capacity 1) MAX_MEMBERS
    \<and> (\<forall>m\<in>set (mt_members t). \<not> is_broadcast (mt_subnet t) (lm_address m)
         \<and> \<not> is_pseudo_broadcast (mt_subnet t) (lm_address m)
         \<and> lm_address m AND mask_for ALLOWED_RANGE_LEN = ALLOWED_RANGE)"
proof -
  have ok: "table_ok t" using room_after_ok new_subnet_Some [OF assms(1)] by (simp add: t)
  have cap: "mt_capacity t = min (max capacity 1) MAX_MEMBERS" by (simp add: t room_after_capacity)
  have "is_assignable (mt_subnet t) (lm_address m)" if "m \<in> set (mt_members t)" for m
    using ok that by (auto simp: table_ok_def list_all_iff)
  with ok cap show ?thesis
    using assignable_not_broadcast [of "mt_subnet t"] in_subnet_range [of "mt_subnet t"]
    by (auto simp: table_ok_def is_pseudo_broadcast_def is_assignable_def Let_def)
qed

definition sample_id :: "u8 \<Rightarrow> identity" where
  "sample_id b = [0, b, 1, b] @ replicate 12 0"

definition sample_room :: member_table where
  "sample_room = room_after default_subnet 8 [Admit (sample_id 5), Admit (sample_id 6), Remove (sample_id 5)]"

lemma sample_new_subnet: "new_subnet 0xC6130000 16 = Some default_subnet"
  by (simp add: new_subnet_def default_subnet_def room_consts mask_for_def)

lemma sample_room_members:
  "mt_members sample_room = [\<lparr>lm_identity = sample_id 6, lm_address = 0xC6130006\<rparr>]"
  by (simp add: sample_room_def room_after_def new_table_def admit_def remove_def address_of_def
      free_address_def List.map_filter_simps upt_rec derive_address_def get_range_def sample_id_def
      with_host_def default_subnet_def room_consts mask_of_def mask_for_def is_assignable_def
      in_subnet_def last_octet_ucast taken_def of_be_def MAX_MEMBERS_def)

theorem room_addresses_sound_witness:
  "length (mt_members sample_room) = 1 \<and> \<not> is_broadcast (mt_subnet sample_room) 0xC6130006"
  using room_addresses_sound [OF sample_new_subnet sample_room_def] sample_room_members by simp

text \<open>C32.
  The only refusal \<open>admit\<close> gives is that the room is full: \<open>NoAddress\<close> cannot happen, because every
  subnet has at least 254 assignable addresses. Someone already seated keeps their address and leaves
  the table and its epoch alone; a newcomer gets an address nobody holds and moves nobody.
\<close>
theorem admit_outcomes:
  assumes "new_subnet p l = Some s" and "admit ident (room_after s capacity ops) = (r, t')"
  shows "(case r of
      Ok a \<Rightarrow> address_of t' ident = Some a
        \<and> (\<forall>i b. address_of (room_after s capacity ops) i = Some b \<longrightarrow> address_of t' i = Some b)
        \<and> (address_of (room_after s capacity ops) ident \<noteq> None \<longrightarrow> t' = room_after s capacity ops)
        \<and> (address_of (room_after s capacity ops) ident = None \<longrightarrow>
             \<not> taken (room_after s capacity ops) a \<and> mt_epoch t' = mt_epoch (room_after s capacity ops) + 1)
    | Err e \<Rightarrow> e = Full \<and> t' = room_after s capacity ops
        \<and> length (mt_members t') = min (max capacity 1) MAX_MEMBERS
    | Panic \<Rightarrow> False)"
proof -
  let ?t = "room_after s capacity ops"
  have ok: "table_ok ?t" using room_after_ok new_subnet_Some [OF assms(1)] by simp
  then have ok': "table_ok t'" using admit_ok [of ?t ident] assms(2) by simp
  show ?thesis
    using admit_cases [OF ok assms(2)] address_of_Some [OF ok] address_of_Some [OF ok']
      room_after_capacity [of s capacity ops] by auto
qed

lemma sample_admit: "fst (admit (sample_id 6) sample_room) = Ok 0xC6130006"
  by (simp add: admit_def address_of_def sample_room_members)

theorem admit_outcomes_witness:
  "fst (admit (sample_id 6) sample_room) = Ok 0xC6130006 \<and> snd (admit (sample_id 6) sample_room) = sample_room"
proof -
  have adm: "admit (sample_id 6) (room_after default_subnet 8
      [Admit (sample_id 5), Admit (sample_id 6), Remove (sample_id 5)]) =
      (Ok 0xC6130006, snd (admit (sample_id 6) sample_room))"
    using sample_admit by (cases "admit (sample_id 6) sample_room") (simp add: sample_room_def)
  have "address_of sample_room (sample_id 6) \<noteq> None"
    by (simp add: address_of_def sample_room_members)
  with admit_outcomes [OF sample_new_subnet adm] sample_admit show ?thesis
    by (simp add: sample_room_def)
qed

end
