(* ===== verification/Lan_Wire.thy ===== *)
theory Lan_Wire
  imports Lan_Room Framing
begin

text \<open>
  \<^verbatim>\<open>crates/game-bridge/src/lan.rs\<close>, second half: the messages on a member's link and where the host
  sends a packet. The entries of \<open>Members\<close> and \<open>Names\<close> are counted sequences, each an interpretation
  of the codec interface of \<^verbatim>\<open>Prelude\<close>.
\<close>

definition MSG_HELLO :: u8 where "MSG_HELLO = 0x01"
definition MSG_MEMBERS :: u8 where "MSG_MEMBERS = 0x02"
definition MSG_REFUSED :: u8 where "MSG_REFUSED = 0x03"
definition MSG_PACKET :: u8 where "MSG_PACKET = 0x04"
definition MSG_NAME :: u8 where "MSG_NAME = 0x05"
definition MSG_NAMES :: u8 where "MSG_NAMES = 0x06"
definition MSG_CHAT :: u8 where "MSG_CHAT = 0x07"
definition MSG_CHAT_FROM :: u8 where "MSG_CHAT_FROM = 0x08"

lemmas msg_consts = MSG_HELLO_def MSG_MEMBERS_def MSG_REFUSED_def MSG_PACKET_def MSG_NAME_def
  MSG_NAMES_def MSG_CHAT_def MSG_CHAT_FROM_def

definition MAX_NAME_BYTES :: nat where "MAX_NAME_BYTES = 32"
definition MAX_CHAT_BYTES :: nat where "MAX_CHAT_BYTES = 280"
definition MEMBER_ENTRY_LEN :: nat where "MEMBER_ENTRY_LEN = 16 + 4"

definition plain_text :: "str \<Rightarrow> nat \<Rightarrow> bool" where
  "plain_text txt max_len \<longleftrightarrow>
     txt \<noteq> [] \<and> length txt \<le> max_len
     \<and> (case utf8_chars txt of
          None \<Rightarrow> False
        | Some cs \<Rightarrow> trim_chars cs = cs
            \<and> \<not> list_ex (\<lambda>c. is_control c \<or> c = 0x2028 \<or> c = 0x2029) cs)"

definition valid_name :: "str \<Rightarrow> bool" where
  "valid_name name = plain_text name MAX_NAME_BYTES"

definition valid_chat :: "str \<Rightarrow> bool" where
  "valid_chat txt = plain_text txt MAX_CHAT_BYTES"

datatype lan_message =
    Hello u8
  | Members u32 room_subnet "lan_member list"
  | Refused refusal
  | Packet bytes
  | Name str
  | Names "(identity \<times> str) list"
  | Chat str
  | ChatFrom identity str
  | Unknown u8

datatype lan_decode_error =
  Empty | LanTruncated | TooManyMembers nat | BadSubnet | PacketTooLarge nat | BadText

definition text_of :: "bytes \<Rightarrow> (str \<Rightarrow> bool) \<Rightarrow> (lan_decode_error, str) outcome" where
  "text_of bs valid =
     (case from_utf8 bs of
        None \<Rightarrow> Err BadText
      | Some txt \<Rightarrow> if \<not> valid txt then Err BadText else Ok txt)"

definition identity_of :: "bytes \<Rightarrow> (lan_decode_error, identity) outcome" where
  "identity_of bs = slice_at bs 0 16"

section \<open>Entries\<close>

definition enc_member :: "lan_member \<Rightarrow> bytes" where
  "enc_member m = lm_identity m @ octets (lm_address m)"

definition dec_member :: "bytes \<Rightarrow> (lan_decode_error, lan_member \<times> bytes) outcome" where
  "dec_member bs =
     (if length bs < MEMBER_ENTRY_LEN then Err LanTruncated
      else Ok (\<lparr>lm_identity = take 16 bs, lm_address = of_be (take 4 (drop 16 bs))\<rparr>,
               drop MEMBER_ENTRY_LEN bs))"

definition enc_name :: "identity \<times> str \<Rightarrow> bytes" where
  "enc_name e = fst e @ of_nat (length (snd e)) # snd e"

definition dec_name :: "bytes \<Rightarrow> (lan_decode_error, (identity \<times> str) \<times> bytes) outcome" where
  "dec_name entries =
     (if length entries < 17 then Err LanTruncated
      else and_then (byte_at entries 16) (\<lambda>b.
        let len = unat b; end' = 17 + len in
        if length entries < end' then Err LanTruncated
        else and_then (identity_of entries) (\<lambda>i.
             and_then (slice_at entries 17 end') (\<lambda>s.
             and_then (text_of s valid_name) (\<lambda>txt.
             Ok ((i, txt), drop end' entries))))))"

section \<open>Messages\<close>

definition encode :: "lan_message \<Rightarrow> bytes" where
  "encode msg = (case msg of
     Hello version \<Rightarrow> [MSG_HELLO, version]
   | Members epoch subnet members \<Rightarrow>
       let members = take (min (length members) MAX_MEMBERS) members in
       MSG_MEMBERS # to_be 4 epoch @ octets (rs_prefix subnet)
         @ [rs_prefix_len subnet, of_nat (length members)] @ concat (map enc_member members)
   | Refused r \<Rightarrow> [MSG_REFUSED, refusal_to_byte r]
   | Packet p \<Rightarrow> MSG_PACKET # p
   | Name name \<Rightarrow> MSG_NAME # name
   | Names names \<Rightarrow>
       let names = take MAX_MEMBERS (filter (\<lambda>e. valid_name (snd e)) names) in
       [MSG_NAMES, of_nat (length names)] @ concat (map enc_name names)
   | Chat txt \<Rightarrow> MSG_CHAT # txt
   | ChatFrom i txt \<Rightarrow> MSG_CHAT_FROM # i @ txt
   | Unknown t \<Rightarrow> [t])"

definition decode_members :: "bytes \<Rightarrow> (lan_decode_error, lan_message) outcome" where
  "decode_members rest =
     (if length rest < 10 then Err LanTruncated
      else let epoch = of_be (take 4 rest); prefix = of_be (take 4 (drop 4 rest)) in
        and_then (byte_at rest 8) (\<lambda>plen.
        and_then (ok_or (new_subnet prefix plen) BadSubnet) (\<lambda>subnet.
        and_then (byte_at rest 9) (\<lambda>n.
        let count = unat n in
        if count > MAX_MEMBERS then Err (TooManyMembers count)
        else let entries = drop 10 rest in
          if length entries < count * MEMBER_ENTRY_LEN then Err LanTruncated
          else and_then (dec_many dec_member count entries) (\<lambda>(members, _).
               Ok (Members epoch subnet members))))))"

definition decode_names :: "bytes \<Rightarrow> (lan_decode_error, lan_message) outcome" where
  "decode_names rest = (case rest of
     [] \<Rightarrow> Err LanTruncated
   | count # entries \<Rightarrow>
       if unat count > MAX_MEMBERS then Err (TooManyMembers (unat count))
       else and_then (dec_many dec_name (unat count) entries) (\<lambda>(names, _). Ok (Names names)))"

definition decode :: "bytes \<Rightarrow> (lan_decode_error, lan_message) outcome" where
  "decode buf = (case buf of
     [] \<Rightarrow> Err Empty
   | kind # rest \<Rightarrow>
       if kind = MSG_HELLO then (case rest of [] \<Rightarrow> Err LanTruncated | v # _ \<Rightarrow> Ok (Hello v))
       else if kind = MSG_MEMBERS then decode_members rest
       else if kind = MSG_REFUSED then
         (case rest of [] \<Rightarrow> Err LanTruncated | b # _ \<Rightarrow> Ok (Refused (refusal_from_byte b)))
       else if kind = MSG_PACKET then
         (if length rest > LAN_MTU then Err (PacketTooLarge (length rest)) else Ok (Packet rest))
       else if kind = MSG_NAME then and_then (text_of rest valid_name) (\<lambda>n. Ok (Name n))
       else if kind = MSG_NAMES then decode_names rest
       else if kind = MSG_CHAT then and_then (text_of rest valid_chat) (\<lambda>t. Ok (Chat t))
       else if kind = MSG_CHAT_FROM then
         (if length rest < 16 then Err LanTruncated
          else and_then (identity_of rest) (\<lambda>i.
               and_then (slice_at rest 16 (length rest)) (\<lambda>s.
               and_then (text_of s valid_chat) (\<lambda>t. Ok (ChatFrom i t)))))
       else Ok (Unknown kind))"

definition snapshot :: "member_table \<Rightarrow> lan_message" where
  "snapshot t = Members (mt_epoch t) (mt_subnet t) (mt_members t)"

section \<open>The codecs of the entries\<close>

definition wf_member :: "lan_member \<Rightarrow> bool" where
  "wf_member m \<longleftrightarrow> length (lm_identity m) = 16"

definition wf_name :: "identity \<times> str \<Rightarrow> bool" where
  "wf_name e \<longleftrightarrow> length (fst e) = 16 \<and> valid_name (snd e)"

lemma plain_text_facts: "plain_text t n \<Longrightarrow> utf8_valid t \<and> length t \<le> n \<and> t \<noteq> []"
  by (auto simp: plain_text_def utf8_valid_def split: option.splits)

lemma text_of_Ok [simp]: "text_of bs valid = Ok t \<longleftrightarrow> t = bs \<and> utf8_valid bs \<and> valid bs"
  by (auto simp: text_of_def from_utf8_Some_iff from_utf8_None_iff split: option.splits)

lemma text_of_not_Panic [simp]: "text_of bs valid \<noteq> Panic"
  by (simp add: text_of_def split: option.splits)

lemma text_of_name [simp]: "valid_name n \<Longrightarrow> text_of n valid_name = Ok n"
  using plain_text_facts by (auto simp: valid_name_def)

lemma text_of_chat [simp]: "valid_chat n \<Longrightarrow> text_of n valid_chat = Ok n"
  using plain_text_facts by (auto simp: valid_chat_def)

lemma length_octets [simp]: "length (octets a) = 4"
  by (simp add: octets_def)

lemma of_be_octets [simp]: "of_be (octets a) = a"
  by (simp add: octets_def)

lemma octets_of_be [simp]: "length bs = 4 \<Longrightarrow> octets (of_be bs) = bs"
  by (simp add: octets_def)

interpretation member_codec: strict_codec enc_member dec_member wf_member
proof
  fix m r bs
  show "wf_member m \<Longrightarrow> dec_member (enc_member m @ r) = Ok (m, r)"
    by (simp add: wf_member_def enc_member_def dec_member_def MEMBER_ENTRY_LEN_def)
  assume "dec_member bs = Ok (m, r)"
  then have len: "20 \<le> length bs" and m: "m = \<lparr>lm_identity = take 16 bs, lm_address = of_be (take 4 (drop 16 bs))\<rparr>"
    and r: "r = drop 20 bs"
    by (auto simp: dec_member_def MEMBER_ENTRY_LEN_def split: if_splits)
  have "bs = take 16 bs @ take 4 (drop 16 bs) @ drop 20 bs"
    using split_at2 [of bs 16 4] by simp
  with len show "wf_member m \<and> bs = enc_member m @ r"
    by (simp add: m r wf_member_def enc_member_def)
qed

lemma dec_name_code:
  assumes "17 \<le> length bs"
  shows "dec_name bs =
     (if length bs < 17 + unat (bs ! 16) then Err LanTruncated
      else and_then (text_of (take (unat (bs ! 16)) (drop 17 bs)) valid_name)
             (\<lambda>txt. Ok ((take 16 bs, txt), drop (17 + unat (bs ! 16)) bs)))"
  using assms by (simp add: dec_name_def identity_of_def Let_def)

lemma dec_name_Ok:
  assumes "dec_name bs = Ok (e, r)"
  shows "wf_name e \<and> bs = enc_name e @ r"
proof -
  define n where "n = unat (bs ! 16)"
  from assms have l17: "17 \<le> length bs" by (simp add: dec_name_def split: if_splits)
  from assms have ln: "17 + n \<le> length bs" and e: "e = (take 16 bs, take n (drop 17 bs))"
    and r: "r = drop (17 + n) bs" and v: "valid_name (take n (drop 17 bs))"
    unfolding dec_name_code [OF l17] n_def [symmetric] by (auto simp: outcome_simps split: if_splits)
  have s17: "(17 :: nat) = Suc 16" by simp
  have "bs = take 16 bs @ bs ! 16 # drop 17 bs"
    unfolding s17 by (rule id_take_nth_drop) (use l17 in simp)
  moreover have "drop 17 bs = take n (drop 17 bs) @ r"
    by (metis append_take_drop_id drop_drop add.commute r)
  moreover have "length (take n (drop 17 bs)) = n" "of_nat n = bs ! 16" using ln by (simp_all add: n_def)
  ultimately have "bs = enc_name e @ r" unfolding enc_name_def e fst_conv snd_conv
    by (metis append_Cons append_assoc)
  moreover have "wf_name e" using l17 v by (simp add: wf_name_def e)
  ultimately show ?thesis by blast
qed

interpretation name_codec: strict_codec enc_name dec_name wf_name
proof
  fix e r bs
  show "wf_name e \<Longrightarrow> dec_name (enc_name e @ r) = Ok (e, r)"
  proof -
    assume wf: "wf_name e"
    have "length (snd e) \<le> 32" using wf plain_text_facts [of "snd e"]
      by (simp add: wf_name_def valid_name_def MAX_NAME_BYTES_def)
    with wf show ?thesis
      by (cases e) (simp add: wf_name_def enc_name_def dec_name_def identity_of_def Let_def nth_append)
  qed
  show "dec_name bs = Ok (e, r) \<Longrightarrow> wf_name e \<and> bs = enc_name e @ r" by (rule dec_name_Ok)
qed

section \<open>Whole messages\<close>

text \<open>The messages a well-behaved peer sends; \<open>decode\<close> yields no other.\<close>

definition wf_message :: "lan_message \<Rightarrow> bool" where
  "wf_message msg = (case msg of
     Hello _ \<Rightarrow> True
   | Members _ s ms \<Rightarrow> subnet_ok s \<and> length ms \<le> MAX_MEMBERS \<and> list_all wf_member ms
   | Refused r \<Rightarrow> r \<notin> {Other 1, Other 2, Other 3}
   | Packet p \<Rightarrow> length p \<le> LAN_MTU
   | Name n \<Rightarrow> valid_name n
   | Names ns \<Rightarrow> length ns \<le> MAX_MEMBERS \<and> list_all wf_name ns
   | Chat t \<Rightarrow> valid_chat t
   | ChatFrom i t \<Rightarrow> length i = 16 \<and> valid_chat t
   | Unknown k \<Rightarrow> k \<notin> {MSG_HELLO, MSG_MEMBERS, MSG_REFUSED, MSG_PACKET, MSG_NAME, MSG_NAMES, MSG_CHAT, MSG_CHAT_FROM})"

lemma new_subnet_ok: "subnet_ok s \<Longrightarrow> new_subnet (rs_prefix s) (rs_prefix_len s) = Some s"
  by (simp add: subnet_ok_def)

lemma length_members: "list_all wf_member ms \<Longrightarrow> length (concat (map enc_member ms)) = length ms * MEMBER_ENTRY_LEN"
  by (induction ms) (auto simp: wf_member_def enc_member_def MEMBER_ENTRY_LEN_def)

lemma decode_members_encode:
  assumes "subnet_ok s" "length ms \<le> MAX_MEMBERS" "list_all wf_member ms"
  shows "decode_members (to_be 4 epoch @ octets (rs_prefix s)
         @ [rs_prefix_len s, of_nat (length ms)] @ concat (map enc_member ms)) = Ok (Members epoch s ms)"
  using assms
  by (simp add: decode_members_def Let_def nth_append MAX_MEMBERS_def new_subnet_ok length_members
      member_codec.dec_many_enc_all)

lemma decode_names_encode:
  assumes "length ns \<le> MAX_MEMBERS" "list_all wf_name ns"
  shows "decode_names (of_nat (length ns) # concat (map enc_name ns)) = Ok (Names ns)"
  using assms by (simp add: decode_names_def MAX_MEMBERS_def name_codec.dec_many_enc_all)

lemma refusal_round_trip: "r \<notin> {Other 1, Other 2, Other 3} \<Longrightarrow> refusal_from_byte (refusal_to_byte r) = r"
  by (cases r) (auto simp: refusal_from_byte_def refusal_to_byte_def)

lemma filter_wf_names: "list_all wf_name ns \<Longrightarrow> filter (\<lambda>e. valid_name (snd e)) ns = ns"
  by (auto simp: filter_id_conv list_all_iff wf_name_def)

lemma lan_decode_encode: "wf_message m \<Longrightarrow> decode (encode m) = Ok m"
proof (cases m)
  case (Members e s ms)
  moreover assume "wf_message m"
  ultimately show ?thesis
    using decode_members_encode [of s ms e]
    by (simp add: wf_message_def decode_def encode_def msg_consts Let_def min_def)
next
  case (Names ns)
  moreover assume "wf_message m"
  ultimately show ?thesis
    using decode_names_encode [of ns] filter_wf_names [of ns]
    by (simp add: wf_message_def decode_def encode_def msg_consts Let_def)
next
  case (Refused r)
  moreover assume "wf_message m"
  ultimately show ?thesis
    using refusal_round_trip [of r] by (simp add: wf_message_def decode_def encode_def msg_consts)
qed (auto simp: wf_message_def decode_def encode_def msg_consts identity_of_def)

lemma dec_member_not_Panic: "dec_member bs \<noteq> Panic"
  by (simp add: dec_member_def)

lemma dec_name_not_Panic: "dec_name bs \<noteq> Panic"
  by (auto simp: dec_name_def identity_of_def outcome_simps Let_def)

lemma lan_decode_not_Panic: "decode buf \<noteq> Panic"
proof (cases buf)
  case (Cons k rest)
  have "decode_members rest \<noteq> Panic"
    using dec_many_not_Panic [OF dec_member_not_Panic]
    by (auto simp: decode_members_def Let_def outcome_simps)
  moreover have "decode_names rest \<noteq> Panic"
    using dec_many_not_Panic [OF dec_name_not_Panic]
    by (auto simp: decode_names_def outcome_simps split: list.splits)
  ultimately show ?thesis
    by (auto simp: Cons decode_def identity_of_def outcome_simps split: list.splits)
qed (simp add: decode_def)

lemma refusal_from_byte_wf: "refusal_from_byte b \<notin> {Other 1, Other 2, Other 3}"
  by (simp add: refusal_from_byte_def)

lemma decode_members_wf: "decode_members rest = Ok m \<Longrightarrow> wf_message m"
  using new_subnet_Some
  by (auto simp: decode_members_def Let_def outcome_simps ok_or_def wf_message_def not_less
      dest: member_codec.dec_many_wf split: if_splits option.splits)

lemma decode_names_wf: "decode_names rest = Ok m \<Longrightarrow> wf_message m"
  by (auto simp: decode_names_def outcome_simps wf_message_def not_less
      dest: name_codec.dec_many_wf split: if_splits list.splits)

lemma decode_wf: "decode buf = Ok m \<Longrightarrow> wf_message m"
proof (cases buf)
  case (Cons k rest)
  assume "decode buf = Ok m"
  with Cons show ?thesis
    using decode_members_wf [of rest m] decode_names_wf [of rest m] refusal_from_byte_wf
    by (auto simp: decode_def wf_message_def identity_of_def outcome_simps not_less
        split: if_splits list.splits)
qed (simp add: decode_def)

lemma sum_list_bound: "(\<And>x. x \<in> set xs \<Longrightarrow> f x \<le> c) \<Longrightarrow> sum_list (map f xs) \<le> length xs * (c :: nat)"
  by (induction xs) (auto intro: add_le_mono)

lemma encode_fits: "wf_message m \<Longrightarrow> length (encode m) \<le> LINK_PLAINTEXT_CAP"
proof (cases m)
  case (Members e s ms)
  moreover assume "wf_message m"
  ultimately show ?thesis
    by (simp add: wf_message_def encode_def Let_def min_def length_members LINK_PLAINTEXT_CAP_def
        MAX_MEMBERS_def MEMBER_ENTRY_LEN_def)
next
  case (Names ns)
  moreover assume wf: "wf_message m"
  moreover have "length (concat (map enc_name ns)) \<le> length ns * 49"
  proof -
    have "length (enc_name e) \<le> 49" if "e \<in> set ns" for e
      using wf that plain_text_facts [of "snd e"]
      by (auto simp: Names wf_message_def list_all_iff wf_name_def enc_name_def valid_name_def MAX_NAME_BYTES_def)
    then show ?thesis using sum_list_bound [of ns "\<lambda>e. length (enc_name e)" 49]
      by (simp add: length_concat o_def)
  qed
  ultimately show ?thesis
    using filter_wf_names [of ns]
    by (simp add: wf_message_def encode_def Let_def LINK_PLAINTEXT_CAP_def MAX_MEMBERS_def)
next
  case (Name n)
  moreover assume "wf_message m"
  ultimately show ?thesis using plain_text_facts [of n MAX_NAME_BYTES]
    by (auto simp: wf_message_def encode_def valid_name_def LINK_PLAINTEXT_CAP_def MAX_NAME_BYTES_def)
next
  case (Chat n)
  moreover assume "wf_message m"
  ultimately show ?thesis using plain_text_facts [of n MAX_CHAT_BYTES]
    by (auto simp: wf_message_def encode_def valid_chat_def LINK_PLAINTEXT_CAP_def MAX_CHAT_BYTES_def)
next
  case (ChatFrom i n)
  moreover assume "wf_message m"
  ultimately show ?thesis using plain_text_facts [of n MAX_CHAT_BYTES]
    by (auto simp: wf_message_def encode_def valid_chat_def LINK_PLAINTEXT_CAP_def MAX_CHAT_BYTES_def)
qed (auto simp: wf_message_def encode_def LINK_PLAINTEXT_CAP_def LAN_MTU_def)

section \<open>Routing\<close>

definition ipv4_endpoints :: "bytes \<Rightarrow> (ipv4 \<times> ipv4) option" where
  "ipv4_endpoints packet =
     (if length packet < 20 \<or> drop_bit 4 (packet ! 0) \<noteq> 4 \<or> (packet ! 0 AND 0x0F) < 5 then None
      else Some (of_be (take 4 (drop 12 packet)), of_be (take 4 (drop 16 packet))))"

datatype drop_reason = NotIpv4 | TooLarge | UnknownSender | SpoofedSource | UnknownDestination | ToSelf

datatype route = Broadcast | Unicast identity | Drop drop_reason

definition route_packet :: "member_table \<Rightarrow> identity \<Rightarrow> bytes \<Rightarrow> route" where
  "route_packet t sender packet =
     (if length packet > LAN_MTU then Drop TooLarge
      else case ipv4_endpoints packet of
        None \<Rightarrow> Drop NotIpv4
      | Some (src, dst) \<Rightarrow>
          (case address_of t sender of
             None \<Rightarrow> Drop UnknownSender
           | Some own \<Rightarrow>
               if src \<noteq> own then Drop SpoofedSource
               else if is_broadcast (mt_subnet t) dst then Broadcast
               else case identity_at t dst of
                      Some i \<Rightarrow> if i = sender then Drop ToSelf else Unicast i
                    | None \<Rightarrow> Drop UnknownDestination))"

lemma route_sent:
  assumes ok: "table_ok t" and r: "route_packet t sender packet = r" and sent: "\<And>d. r \<noteq> Drop d"
  obtains src dst where "length packet \<le> LAN_MTU" "ipv4_endpoints packet = Some (src, dst)"
    "address_of t sender = Some src" "is_broadcast (mt_subnet t) dst \<longleftrightarrow> r = Broadcast"
    "\<And>i. r = Unicast i \<Longrightarrow> address_of t i = Some dst \<and> i \<noteq> sender"
  using r sent address_of_Some [OF ok] identity_at_Some [OF ok]
  by (auto simp: route_packet_def not_less split: if_splits option.splits prod.splits)

lemma same_address_same_member:
  "table_ok t \<Longrightarrow> address_of t i = Some a \<Longrightarrow> address_of t j = Some a \<Longrightarrow> i = j"
  by (metis identity_at_Some address_of_Some option.inject)

section \<open>Properties\<close>

text \<open>Every message a build sends is read back unchanged and fits one link packet; the decoder panics on
  no input; and whatever it accepts is such a message, so a message that was decoded can be sent on
  and is read the same by the next build.
\<close>
theorem lan_message_round_trip:
  "(wf_message m \<longrightarrow> decode (encode m) = Ok m \<and> length (encode m) \<le> LINK_PLAINTEXT_CAP)
   \<and> decode buf \<noteq> Panic
   \<and> (decode buf = Ok m \<longrightarrow> wf_message m)"
  using lan_decode_encode encode_fits lan_decode_not_Panic decode_wf by blast

theorem lan_message_round_trip_witness:
  "decode (encode (Names [(sample_id 3, [0x41, 0x42])])) = Ok (Names [(sample_id 3, [0x41, 0x42])])"
proof -
  have "wf_message (Names [(sample_id 3, [0x41, 0x42])])"
    by (simp add: wf_message_def MAX_MEMBERS_def wf_name_def sample_id_def valid_name_def plain_text_def
        MAX_NAME_BYTES_def trim_chars_def is_whitespace_def is_control_def)
  then show ?thesis using lan_message_round_trip by blast
qed

text \<open>C12.
  No member can speak as another. In any room the host can reach, a packet it passes on carries as its
  source the sender's own address, which no other seated member holds; a packet for one member goes
  to the member seated at its destination, who is not the sender; and it goes to everybody exactly
  when its destination is a broadcast of the room.
\<close>
theorem routing_never_spoofs:
  assumes "new_subnet p l = Some s" "t = room_after s capacity ops"
    and "route_packet t sender packet = r" "\<forall>d. r \<noteq> Drop d"
  shows "\<exists>src dst. ipv4_endpoints packet = Some (src, dst) \<and> length packet \<le> LAN_MTU
     \<and> address_of t sender = Some src \<and> (\<forall>i. address_of t i = Some src \<longrightarrow> i = sender)
     \<and> (is_broadcast (mt_subnet t) dst \<longleftrightarrow> r = Broadcast)
     \<and> (\<forall>i. r = Unicast i \<longrightarrow> address_of t i = Some dst \<and> i \<noteq> sender)"
proof -
  have ok: "table_ok t" using room_after_ok new_subnet_Some [OF assms(1)] by (simp add: assms(2))
  show ?thesis
    by (rule route_sent [OF ok assms(3)]) (use assms(4) same_address_same_member [OF ok] in blast)+
qed

definition sample_packet :: bytes where
  "sample_packet = [0x45, 0, 0, 20, 0, 0, 0, 0, 64, 17, 0, 0, 198, 19, 0, 6, 255, 255, 255, 255]"

lemma sample_endpoints: "ipv4_endpoints sample_packet = Some (0xC6130006, 0xFFFFFFFF)"
  by (simp add: sample_packet_def ipv4_endpoints_def of_be_def)

lemma sample_route: "route_packet sample_room (sample_id 6) sample_packet = Broadcast"
  by (simp add: route_packet_def sample_endpoints LAN_MTU_def address_of_def
      sample_room_members is_broadcast_def limited_broadcast_def) (simp add: sample_packet_def)

theorem routing_never_spoofs_witness:
  "address_of sample_room (sample_id 6) = Some 0xC6130006 \<and> is_broadcast (mt_subnet sample_room) 0xFFFFFFFF"
proof -
  have "\<forall>d. Broadcast \<noteq> Drop d" by simp
  from routing_never_spoofs [OF sample_new_subnet sample_room_def sample_route this] sample_endpoints
  show ?thesis by auto
qed

end
