(* ===== verification/Lan_Filter.thy ===== *)
theory Lan_Filter
  imports Lan_Wire Tables Sorts
begin

text \<open>
  \<^verbatim>\<open>crates/game-bridge/src/lan_filter.rs\<close>: what a member's adapter lets in and out. The flow table is
  an interpretation of \<open>flow_cache\<close>. Locks and atomics are not modelled: each operation is one step.
  An \<^verbatim>\<open>Instant\<close> difference saturates at zero, which is subtraction on \<open>nat\<close>.
\<close>

definition PROTO_ICMP :: u8 where "PROTO_ICMP = 1"
definition PROTO_TCP :: u8 where "PROTO_TCP = 6"
definition PROTO_UDP :: u8 where "PROTO_UDP = 17"
definition FLOW_IDLE :: duration where "FLOW_IDLE = secs 180"
definition FRAGMENT_WINDOW :: duration where "FRAGMENT_WINDOW = secs 30"
definition MAX_FLOWS :: nat where "MAX_FLOWS = 4096"

lemmas proto_consts = PROTO_ICMP_def PROTO_TCP_def PROTO_UDP_def

datatype lan_proto = Udp | Tcp

record lan_port =
  lp_proto :: lan_proto
  lp_port :: u16

record lan_policy =
  po_ports :: "lan_port list"
  po_any :: bool

definition lists :: "lan_policy \<Rightarrow> lan_proto \<Rightarrow> u16 \<Rightarrow> bool" where
  "lists p proto port \<longleftrightarrow> list_ex (\<lambda>q. lp_proto q = proto \<and> lp_port q = port) (po_ports p)"

definition declares :: "lan_policy \<Rightarrow> lan_proto \<Rightarrow> u16 \<Rightarrow> bool" where
  "declares p proto port \<longleftrightarrow> po_any p \<or> lists p proto port"

section \<open>Reading a packet\<close>

datatype fragment = Whole | First | Rest

record parsed =
  pa_src :: ipv4
  pa_dst :: ipv4
  pa_protocol :: u8
  pa_id :: u16
  pa_fragment :: fragment
  pa_ports :: "(u16 \<times> u16) option"

definition ihl_of :: "bytes \<Rightarrow> nat" where
  "ihl_of packet = unat (packet ! 0 AND 0x0F) * 4"

definition be16 :: "bytes \<Rightarrow> nat \<Rightarrow> u16" where
  "be16 packet at = of_be [packet ! at, packet ! (at + 1)]"

definition parse :: "bytes \<Rightarrow> parsed option" where
  "parse packet =
     (case ipv4_endpoints packet of
        None \<Rightarrow> None
      | Some (src, dst) \<Rightarrow>
          let ihl = ihl_of packet in
          if length packet < ihl then None
          else let ident = be16 packet 4;
              flags_offset = be16 packet 6;
              more = (flags_offset AND 0x2000 \<noteq> 0);
              off = flags_offset AND 0x1FFF;
              fragment = (if off = 0 then (if more then First else Whole) else Rest);
              protocol = packet ! 9;
              result = (\<lambda>ports. \<lparr>pa_src = src, pa_dst = dst, pa_protocol = protocol, pa_id = ident,
                                 pa_fragment = fragment, pa_ports = ports\<rparr>)
          in if (protocol = PROTO_UDP \<or> protocol = PROTO_TCP) \<and> fragment \<noteq> Rest
             then (case get_range packet ihl (ihl + 4) of
                     None \<Rightarrow> None
                   | Some t \<Rightarrow> Some (result (Some (be16 t 0, be16 t 2))))
             else Some (result None))"

definition lan_proto_of :: "u8 \<Rightarrow> lan_proto option" where
  "lan_proto_of protocol =
     (if protocol = PROTO_UDP then Some Udp else if protocol = PROTO_TCP then Some Tcp else None)"

section \<open>Ports a player allowed\<close>

definition LOWEST_ALLOWABLE_PORT :: u16 where "LOWEST_ALLOWABLE_PORT = 1024"

definition REMOTE_SERVICES :: "u16 list" where
  "REMOTE_SERVICES = [1433, 1434, 1521, 2049, 2375, 2376, 3306, 3389, 5432, 5900, 5901, 5902, 5903,
     5985, 5986, 6379, 9200, 11211, 27017]"

definition OS_CHATTER :: "u16 list" where
  "OS_CHATTER = [53, 67, 68, 123, 137, 138, 139, 445, 1900, 3702, 5353, 5355, 27031, 27032, 27033,
     27034, 27035, 27036]"

definition is_allowable :: "u16 \<Rightarrow> bool" where
  "is_allowable port \<longleftrightarrow>
     port \<ge> LOWEST_ALLOWABLE_PORT \<and> port \<notin> set OS_CHATTER \<and> port \<notin> set REMOTE_SERVICES"

definition is_os_chatter :: "u16 \<Rightarrow> bool" where
  "is_os_chatter port \<longleftrightarrow> port \<in> set OS_CHATTER"

record extra_ports =
  ep_ports :: "lan_port list"
  ep_any_high :: bool
  ep_generation :: u64

definition new_extra :: extra_ports where
  "new_extra = \<lparr>ep_ports = [], ep_any_high = False, ep_generation = 0\<rparr>"

definition dedup :: "lan_port list \<Rightarrow> lan_port list" where
  "dedup ps = foldl (\<lambda>acc p. if p \<in> set acc then acc else acc @ [p]) [] ps"

definition set_extra :: "lan_port list \<Rightarrow> extra_ports \<Rightarrow> (u16, unit) outcome \<times> extra_ports" where
  "set_extra ports e =
     (case List.find (\<lambda>p. \<not> is_allowable (lp_port p)) ports of
        Some p \<Rightarrow> (Err (lp_port p), e)
      | None \<Rightarrow> (Ok (), e\<lparr>ep_ports := dedup ports, ep_generation := ep_generation e + 1\<rparr>))"

definition set_any_high :: "bool \<Rightarrow> extra_ports \<Rightarrow> extra_ports" where
  "set_any_high on e = e\<lparr>ep_any_high := on, ep_generation := ep_generation e + 1\<rparr>"

section \<open>The filter\<close>

type_synonym flow_key = "lan_proto \<times> u16 \<times> ipv4 \<times> u16"
type_synonym fragment_key = "ipv4 \<times> u16 \<times> u8"

definition ANY_MEMBER :: ipv4 where "ANY_MEMBER = 0"

record lan_filter =
  lf_base :: lan_policy
  lf_policy :: lan_policy
  lf_extra_generation :: u64
  lf_any_high :: bool
  lf_flows :: "(flow_key, time) table"
  lf_fragments :: "(fragment_key, time) table"

definition new_filter :: "lan_policy \<Rightarrow> lan_filter" where
  "new_filter policy =
     \<lparr>lf_base = policy, lf_policy = policy, lf_extra_generation = 0, lf_any_high = False,
      lf_flows = [], lf_fragments = []\<rparr>"

definition sync_extra :: "extra_ports \<Rightarrow> lan_filter \<Rightarrow> lan_filter" where
  "sync_extra extra f =
     (if ep_generation extra = lf_extra_generation f then f
      else f\<lparr>lf_policy := (lf_base f)\<lparr>po_ports :=
               foldl (\<lambda>acc p. if p \<in> set acc then acc else acc @ [p]) (po_ports (lf_base f)) (ep_ports extra)\<rparr>,
             lf_any_high := ep_any_high extra,
             lf_extra_generation := ep_generation extra\<rparr>)"

definition admits :: "lan_filter \<Rightarrow> lan_proto \<Rightarrow> u16 \<Rightarrow> bool" where
  "admits f proto port \<longleftrightarrow>
     declares (lf_policy f) proto port \<or> (lf_any_high f \<and> is_allowable port)"

definition remember_flow :: "flow_key \<Rightarrow> time \<Rightarrow> (flow_key, time) table \<Rightarrow> (flow_key, time) table" where
  "remember_flow key now flows =
     (if \<not> thas flows key \<and> length flows \<ge> MAX_FLOWS
      then (let flows' = tretain (\<lambda>_ t. now - t < FLOW_IDLE) flows in
            if length flows' \<ge> MAX_FLOWS then flows' else tput key now flows')
      else tput key now flows)"

definition refresh_flow :: "flow_key \<Rightarrow> time \<Rightarrow> lan_filter \<Rightarrow> bool \<times> lan_filter" where
  "refresh_flow key now f =
     (case tget (lf_flows f) key of
        Some seen \<Rightarrow>
          if now - seen < FLOW_IDLE then (True, f\<lparr>lf_flows := tput key now (lf_flows f)\<rparr>) else (False, f)
      | None \<Rightarrow> (False, f))"

definition note_flow :: "flow_key \<Rightarrow> time \<Rightarrow> lan_filter \<Rightarrow> lan_filter" where
  "note_flow key now f = f\<lparr>lf_flows := remember_flow key now (lf_flows f)\<rparr>"

definition outbound :: "bytes \<Rightarrow> room_subnet \<Rightarrow> time \<Rightarrow> lan_filter \<Rightarrow> bool \<times> lan_filter" where
  "outbound packet subnet now f =
     (case parse packet of
        None \<Rightarrow> (False, f)
      | Some p \<Rightarrow>
          if is_broadcast subnet (pa_dst p) then
            (case (lan_proto_of (pa_protocol p), pa_ports p) of
               (Some proto, Some (sport, dport)) \<Rightarrow>
                 let allowed = (if is_os_chatter dport then lists (lf_policy f) proto dport
                                else admits f proto dport) in
                 (allowed, if allowed then note_flow (proto, sport, ANY_MEMBER, dport) now f else f)
             | (Some _, None) \<Rightarrow> (po_any (lf_policy f) \<or> pa_fragment p = Rest, f)
             | (None, _) \<Rightarrow> (po_any (lf_policy f), f))
          else
            (case (lan_proto_of (pa_protocol p), pa_ports p) of
               (Some proto, Some (sport, dport)) \<Rightarrow>
                 (True, note_flow (proto, sport, pa_dst p, dport) now f)
             | _ \<Rightarrow> (True, f)))"

text \<open>\<open>admits(..) || refresh_flow(..) || refresh_flow(..)\<close>, evaluated from the left.\<close>

definition admit_or_reply :: "lan_proto \<Rightarrow> u16 \<Rightarrow> u16 \<Rightarrow> ipv4 \<Rightarrow> time \<Rightarrow> lan_filter \<Rightarrow> bool \<times> lan_filter" where
  "admit_or_reply proto sport dport src now f =
     (if admits f proto dport then (True, f)
      else let (live, f') = refresh_flow (proto, dport, src, sport) now f in
        if live then (True, f') else refresh_flow (proto, dport, ANY_MEMBER, sport) now f')"

definition inbound :: "bytes \<Rightarrow> time \<Rightarrow> lan_filter \<Rightarrow> bool \<times> lan_filter" where
  "inbound packet now f =
     (case parse packet of
        None \<Rightarrow> (False, f)
      | Some p \<Rightarrow>
          if pa_protocol p = PROTO_ICMP then (True, f)
          else let key = (pa_src p, pa_id p, pa_protocol p) in
          if pa_fragment p = Rest then
            ((case tget (lf_fragments f) key of
                Some t \<Rightarrow> now - t < FRAGMENT_WINDOW | None \<Rightarrow> False), f)
          else
            (case lan_proto_of (pa_protocol p) of
               None \<Rightarrow> (po_any (lf_policy f), f)
             | Some proto \<Rightarrow>
                 (case pa_ports p of
                    None \<Rightarrow> (False, f)
                  | Some (sport, dport) \<Rightarrow>
                      let (allowed, f1) = admit_or_reply proto sport dport (pa_src p) now f
                      in if allowed \<and> pa_fragment p = First
                         then (True, f1\<lparr>lf_fragments := tput key now
                                 (tretain (\<lambda>_ t. now - t < FRAGMENT_WINDOW) (lf_fragments f1))\<rparr>)
                         else (allowed, f1))))"

section \<open>The flow table as a capped cache\<close>

interpretation filter_flows: flow_cache tget remember_flow length MAX_FLOWS FLOW_IDLE twf
proof
  fix c :: "(flow_key, time) table" and k now j t
  show "twf c \<Longrightarrow> twf (remember_flow k now c)"
    by (simp add: remember_flow_def Let_def)
  show "length (remember_flow k now c) \<le> MAX_FLOWS" if "twf c" "length c \<le> MAX_FLOWS"
    using that tbl.len_retain [of "\<lambda>_ t. now - t < FLOW_IDLE" c]
    by (auto simp: remember_flow_def thas_def Let_def tbl.len_put not_le)
  show "twf c \<Longrightarrow> tget (remember_flow k now c) j = Some t \<Longrightarrow> tget c j = Some t \<or> (j = k \<and> t = now)"
    by (auto simp: remember_flow_def Let_def tbl.get_put tbl.get_retain split: if_splits option.splits)
qed

section \<open>A member's history\<close>

datatype filter_event =
    SendPacket bytes room_subnet time
  | Deliver bytes time
  | Sync extra_ports

fun apply_event :: "filter_event \<Rightarrow> lan_filter \<Rightarrow> lan_filter" where
  "apply_event (SendPacket p s now) f = snd (outbound p s now f)"
| "apply_event (Deliver p now) f = snd (inbound p now f)"
| "apply_event (Sync e) f = sync_extra e f"

text \<open>The flow a sent packet opens, when it opens one: to its destination, or to anybody for a broadcast.\<close>

definition opens :: "filter_event \<Rightarrow> flow_key \<Rightarrow> bool" where
  "opens ev key = (case ev of
     SendPacket packet subnet _ \<Rightarrow>
       (\<exists>p proto sport dport. parse packet = Some p \<and> lan_proto_of (pa_protocol p) = Some proto
          \<and> pa_ports p = Some (sport, dport)
          \<and> key = (proto, sport, if is_broadcast subnet (pa_dst p) then ANY_MEMBER else pa_dst p, dport))
   | _ \<Rightarrow> False)"

definition filter_after :: "lan_policy \<Rightarrow> filter_event list \<Rightarrow> lan_filter" where
  "filter_after policy evs = fold apply_event evs (new_filter policy)"

lemma filter_after_snoc [simp]: "filter_after policy (evs @ [ev]) = apply_event ev (filter_after policy evs)"
  by (simp add: filter_after_def)

lemma filter_after_Nil [simp]: "filter_after policy [] = new_filter policy"
  by (simp add: filter_after_def)

text \<open>
  What a history says of a flow. It was \<open>opened\<close> when a packet of it left this side, not held back by
  the filter; it was \<open>heard\<close> of when it was opened, and when a packet answering it was let in. A packet
  is \<open>let_in\<close> when the policy admits its port or it answers an open flow heard of recently; a later
  fragment is \<open>vouched\<close> for when the first one of its datagram was let in.
\<close>

definition opened :: "lan_policy \<Rightarrow> filter_event list \<Rightarrow> flow_key \<Rightarrow> time \<Rightarrow> bool" where
  "opened policy evs key t \<longleftrightarrow> (\<exists>xs packet subnet ys. evs = xs @ SendPacket packet subnet t # ys
     \<and> opens (SendPacket packet subnet t) key \<and> fst (outbound packet subnet t (filter_after policy xs)))"

definition answers :: "parsed \<Rightarrow> flow_key \<Rightarrow> bool" where
  "answers p key \<longleftrightarrow> (\<exists>proto sport dport far. lan_proto_of (pa_protocol p) = Some proto
     \<and> pa_ports p = Some (sport, dport) \<and> far \<in> {pa_src p, ANY_MEMBER} \<and> key = (proto, dport, far, sport))"

definition heard :: "lan_policy \<Rightarrow> filter_event list \<Rightarrow> flow_key \<Rightarrow> time \<Rightarrow> bool" where
  "heard policy evs key t \<longleftrightarrow> opened policy evs key t
     \<or> (\<exists>xs packet ys p. evs = xs @ Deliver packet t # ys \<and> parse packet = Some p \<and> answers p key
          \<and> fst (inbound packet t (filter_after policy xs)))"

definition let_in :: "lan_policy \<Rightarrow> filter_event list \<Rightarrow> parsed \<Rightarrow> time \<Rightarrow> bool" where
  "let_in policy evs p now \<longleftrightarrow>
     (\<exists>proto sport dport. lan_proto_of (pa_protocol p) = Some proto \<and> pa_ports p = Some (sport, dport)
        \<and> admits (filter_after policy evs) proto dport)
     \<or> (\<exists>key. answers p key \<and> (\<exists>t. opened policy evs key t)
        \<and> (\<exists>t. heard policy evs key t \<and> now - t < FLOW_IDLE))"

definition vouched :: "lan_policy \<Rightarrow> filter_event list \<Rightarrow> fragment_key \<Rightarrow> time \<Rightarrow> bool" where
  "vouched policy evs key t \<longleftrightarrow> (\<exists>xs packet ys q. evs = xs @ Deliver packet t # ys \<and> parse packet = Some q
     \<and> pa_fragment q = First \<and> key = (pa_src q, pa_id q, pa_protocol q) \<and> let_in policy xs q t)"

lemma opened_later: "opened policy evs key t \<Longrightarrow> opened policy (evs @ rest) key t"
  by (auto simp: opened_def) blast

lemma heard_later: "heard policy evs key t \<Longrightarrow> heard policy (evs @ rest) key t"
  unfolding heard_def using opened_later [of policy evs key t] by fastforce

lemma vouched_later: "vouched policy evs key t \<Longrightarrow> vouched policy (evs @ rest) key t"
  by (auto simp: vouched_def) blast

lemma opened_now: "opens (SendPacket packet subnet t) key \<Longrightarrow>
    fst (outbound packet subnet t (filter_after policy evs)) \<Longrightarrow>
    opened policy (evs @ [SendPacket packet subnet t]) key t"
  unfolding opened_def by blast

lemma heard_now: "parse packet = Some p \<Longrightarrow> answers p key \<Longrightarrow>
    fst (inbound packet t (filter_after policy evs)) \<Longrightarrow> heard policy (evs @ [Deliver packet t]) key t"
  unfolding heard_def by blast

lemma vouched_now: "parse packet = Some p \<Longrightarrow> pa_fragment p = First \<Longrightarrow> let_in policy evs p t \<Longrightarrow>
    vouched policy (evs @ [Deliver packet t]) (pa_src p, pa_id p, pa_protocol p) t"
  unfolding vouched_def by blast

text \<open>The tables hold only what the history explains.\<close>

definition explained :: "lan_policy \<Rightarrow> filter_event list \<Rightarrow> (flow_key, time) table \<Rightarrow> (fragment_key, time) table \<Rightarrow> bool" where
  "explained policy evs flows fragments \<longleftrightarrow> twf flows \<and> length flows \<le> MAX_FLOWS \<and> twf fragments
     \<and> (\<forall>key t. tget flows key = Some t \<longrightarrow> (\<exists>s. opened policy evs key s) \<and> heard policy evs key t)
     \<and> (\<forall>key t. tget fragments key = Some t \<longrightarrow> vouched policy evs key t)"

lemma explained_later: "explained policy evs flows fragments \<Longrightarrow> explained policy (evs @ rest) flows fragments"
  using opened_later heard_later vouched_later unfolding explained_def by meson

lemma explained_remember:
  assumes "explained policy evs flows fragments" "opened policy evs key now"
  shows "explained policy evs (remember_flow key now flows) fragments"
proof -
  have "heard policy evs key now" using assms(2) by (simp add: heard_def)
  with assms filter_flows.ok_remember [of flows key now] filter_flows.cap_remember [of flows key now]
    filter_flows.seen_remember [of flows key now]
  show ?thesis unfolding explained_def by blast
qed

lemma explained_refresh:
  assumes "explained policy evs flows fragments" "heard policy evs key now" "tget flows key = Some t"
  shows "explained policy evs (tput key now flows) fragments"
  using assms by (auto simp: explained_def tbl.get_put tbl.len_put)

lemma explained_vouch:
  assumes "explained policy evs flows fragments" "vouched policy evs key now"
  shows "explained policy evs flows (tput key now (tretain (\<lambda>_ t. now - t < FRAGMENT_WINDOW) fragments))"
  using assms by (auto simp: explained_def tbl.get_put tbl.get_retain split: option.splits if_splits)

section \<open>What one packet does to the tables\<close>

lemma outbound_tables:
  "lf_fragments (snd (outbound packet s now f)) = lf_fragments f
   \<and> (lf_flows (snd (outbound packet s now f)) = lf_flows f
      \<or> (\<exists>key. fst (outbound packet s now f) \<and> opens (SendPacket packet s now) key
           \<and> lf_flows (snd (outbound packet s now f)) = remember_flow key now (lf_flows f)))"
proof (cases "\<exists>p proto sport dport. parse packet = Some p \<and> lan_proto_of (pa_protocol p) = Some proto
    \<and> pa_ports p = Some (sport, dport)")
  case True
  then obtain p proto sport dport where q: "parse packet = Some p" "lan_proto_of (pa_protocol p) = Some proto"
      "pa_ports p = Some (sport, dport)" by blast
  define key where "key = (proto, sport, if is_broadcast s (pa_dst p) then ANY_MEMBER else pa_dst p, dport)"
  have "opens (SendPacket packet s now) key" using q by (simp add: opens_def key_def)
  moreover have "outbound packet s now f = (False, f) \<or> outbound packet s now f = (True, note_flow key now f)"
    using q by (auto simp: outbound_def Let_def key_def)
  ultimately show ?thesis by (elim disjE) (auto simp: note_flow_def simp del: split_paired_Ex)
qed (auto simp: outbound_def split: option.splits)

lemma refresh_cases:
  obtains "refresh_flow key now f = (False, f)"
  | t where "refresh_flow key now f = (True, f\<lparr>lf_flows := tput key now (lf_flows f)\<rparr>)"
      "tget (lf_flows f) key = Some t" "now - t < FLOW_IDLE"
proof (cases "\<exists>t. tget (lf_flows f) key = Some t \<and> now - t < FLOW_IDLE")
  case True
  with that(2) show thesis by (auto simp: refresh_flow_def)
next
  case False
  then have "refresh_flow key now f = (False, f)" by (auto simp: refresh_flow_def split: option.splits)
  with that(1) show thesis .
qed

lemma admit_or_reply_cases:
  obtains "admit_or_reply proto sport dport src now f = (False, f)"
  | "admit_or_reply proto sport dport src now f = (True, f)" "admits f proto dport"
  | far t where "far \<in> {src, ANY_MEMBER}"
      "admit_or_reply proto sport dport src now f
         = (True, f\<lparr>lf_flows := tput (proto, dport, far, sport) now (lf_flows f)\<rparr>)"
      "tget (lf_flows f) (proto, dport, far, sport) = Some t" "now - t < FLOW_IDLE"
proof (cases "admits f proto dport")
  case False
  show thesis
  proof (cases rule: refresh_cases [of "(proto, dport, src, sport)" now f])
    case 1
    with False that show thesis
      by (cases rule: refresh_cases [of "(proto, dport, ANY_MEMBER, sport)" now f])
        (auto simp: admit_or_reply_def)
  next
    case 2
    with False that show thesis by (auto simp: admit_or_reply_def)
  qed
qed (use that in \<open>auto simp: admit_or_reply_def\<close>)

lemma inbound_transport:
  assumes "parse packet = Some p" "pa_protocol p \<noteq> PROTO_ICMP" "pa_fragment p \<noteq> Rest"
    "lan_proto_of (pa_protocol p) = Some proto" "pa_ports p = Some (sport, dport)"
    "admit_or_reply proto sport dport (pa_src p) now f = (allowed, f1)"
  shows "inbound packet now f = (allowed, if allowed \<and> pa_fragment p = First
     then f1\<lparr>lf_fragments := tput (pa_src p, pa_id p, pa_protocol p) now
            (tretain (\<lambda>_ t. now - t < FRAGMENT_WINDOW) (lf_fragments f1))\<rparr>
     else f1)"
  using assms by (auto simp: inbound_def Let_def)

lemma inbound_cases:
  obtains (same) "snd (inbound packet now f) = f"
  | (transport) p proto sport dport where "parse packet = Some p" "pa_protocol p \<noteq> PROTO_ICMP"
      "pa_fragment p \<noteq> Rest" "lan_proto_of (pa_protocol p) = Some proto" "pa_ports p = Some (sport, dport)"
proof (cases "\<exists>p proto ports. parse packet = Some p \<and> pa_protocol p \<noteq> PROTO_ICMP \<and> pa_fragment p \<noteq> Rest
    \<and> lan_proto_of (pa_protocol p) = Some proto \<and> pa_ports p = Some ports")
  case True
  with transport show thesis by (metis surj_pair)
next
  case False
  then have "snd (inbound packet now f) = f"
    by (auto simp: inbound_def Let_def split: option.splits)
  with same show thesis .
qed

lemma admitted_let_in:
  assumes "explained policy evs (lf_flows (filter_after policy evs)) fragments"
    "lan_proto_of (pa_protocol p) = Some proto" "pa_ports p = Some (sport, dport)"
    "fst (admit_or_reply proto sport dport (pa_src p) now (filter_after policy evs))"
  shows "let_in policy evs p now"
proof (cases rule: admit_or_reply_cases [of proto sport dport "pa_src p" now "filter_after policy evs"])
  case (3 far t)
  with assms have "answers p (proto, dport, far, sport)" unfolding answers_def by blast
  moreover have "(\<exists>s. opened policy evs (proto, dport, far, sport) s) \<and> heard policy evs (proto, dport, far, sport) t"
    using assms(1) 3(3) unfolding explained_def by blast
  ultimately show ?thesis using 3(4) unfolding let_in_def by blast
qed (use assms in \<open>auto simp: let_in_def\<close>)

lemma inbound_explained:
  assumes ex: "explained policy evs (lf_flows (filter_after policy evs)) (lf_fragments (filter_after policy evs))"
  shows "explained policy (evs @ [Deliver packet now])
     (lf_flows (snd (inbound packet now (filter_after policy evs))))
     (lf_fragments (snd (inbound packet now (filter_after policy evs))))"
proof (cases rule: inbound_cases [of packet now "filter_after policy evs"])
  case same
  with explained_later [OF ex] show ?thesis by simp
next
  case (transport p proto sport dport)
  let ?f = "filter_after policy evs" and ?evs = "evs @ [Deliver packet now]"
  obtain allowed f1 where a: "admit_or_reply proto sport dport (pa_src p) now ?f = (allowed, f1)"
    by (cases "admit_or_reply proto sport dport (pa_src p) now ?f")
  note inb = inbound_transport [OF transport a]
  have f1: "explained policy ?evs (lf_flows f1) (lf_fragments f1)"
  proof (cases rule: admit_or_reply_cases [of proto sport dport "pa_src p" now ?f])
    case (3 far t)
    have "heard policy ?evs (proto, dport, far, sport) now"
      using 3 a transport inb by (intro heard_now) (auto simp: answers_def)
    from explained_refresh [OF explained_later [OF ex] this 3(3)] 3(2) a show ?thesis by auto
  qed (use a explained_later [OF ex] in auto)
  show ?thesis
  proof (cases "allowed \<and> pa_fragment p = First")
    case True
    with admitted_let_in [OF ex transport(4,5)] a have "let_in policy evs p now" by simp
    from explained_vouch [OF f1 vouched_now [OF transport(1) _ this]] True inb show ?thesis by simp
  qed (use f1 inb in auto)
qed

lemma outbound_explained:
  assumes ex: "explained policy evs (lf_flows (filter_after policy evs)) (lf_fragments (filter_after policy evs))"
  shows "explained policy (evs @ [SendPacket packet s now])
     (lf_flows (snd (outbound packet s now (filter_after policy evs))))
     (lf_fragments (snd (outbound packet s now (filter_after policy evs))))"
  using outbound_tables [of packet s now "filter_after policy evs"] explained_later [OF ex]
    explained_remember [OF explained_later [OF ex] opened_now]
  by fastforce

lemma filter_after_explained:
  "explained policy evs (lf_flows (filter_after policy evs)) (lf_fragments (filter_after policy evs))"
proof (induction evs rule: rev_induct)
  case Nil
  show ?case by (simp add: explained_def new_filter_def table_simps MAX_FLOWS_def)
next
  case (snoc ev evs)
  show ?case
  proof (cases ev)
    case (Sync e)
    with explained_later [OF snoc] show ?thesis by (simp add: sync_extra_def)
  qed (use inbound_explained [OF snoc] outbound_explained [OF snoc] in simp_all)
qed

lemma inbound_reason:
  assumes "fst (inbound packet now f)" "parse packet = Some p"
  shows "pa_protocol p = PROTO_ICMP
    \<or> (\<exists>t. pa_fragment p = Rest \<and> tget (lf_fragments f) (pa_src p, pa_id p, pa_protocol p) = Some t
         \<and> now - t < FRAGMENT_WINDOW)
    \<or> (pa_fragment p \<noteq> Rest \<and> lan_proto_of (pa_protocol p) = None \<and> po_any (lf_policy f))
    \<or> (\<exists>proto sport dport. pa_fragment p \<noteq> Rest \<and> lan_proto_of (pa_protocol p) = Some proto
         \<and> pa_ports p = Some (sport, dport) \<and> fst (admit_or_reply proto sport dport (pa_src p) now f))"
  using assms by (auto simp: inbound_def Let_def split_def split: option.splits if_splits)

section \<open>What a player can open\<close>

lemma foldl_add_set:
  "set (foldl (\<lambda>acc p. if p \<in> set acc then acc else acc @ [p]) ps qs) = set ps \<union> set qs"
  by (induction qs arbitrary: ps) auto

lemma set_extra_allowable:
  "(\<forall>p\<in>set (ep_ports e). is_allowable (lp_port p)) \<Longrightarrow>
   (\<forall>p\<in>set (ep_ports (snd (set_extra ps e))). is_allowable (lp_port p))"
  using foldl_add_set [of "[]" ps]
  by (auto simp: set_extra_def dedup_def find_None split: option.splits)

datatype extra_op = SetPorts "lan_port list" | SetAnyHigh bool

fun apply_extra :: "extra_op \<Rightarrow> extra_ports \<Rightarrow> extra_ports" where
  "apply_extra (SetPorts ps) e = snd (set_extra ps e)"
| "apply_extra (SetAnyHigh b) e = set_any_high b e"

definition extra_after :: "extra_op list \<Rightarrow> extra_ports" where
  "extra_after ops = fold apply_extra ops new_extra"

lemma extra_after_allowable: "\<forall>p\<in>set (ep_ports (extra_after ops)). is_allowable (lp_port p)"
proof -
  have all: "(\<forall>p\<in>set (ep_ports e). is_allowable (lp_port p)) \<Longrightarrow>
      (\<forall>p\<in>set (ep_ports (fold apply_extra ops e)). is_allowable (lp_port p))" for e
  proof (induction ops arbitrary: e)
    case (Cons op ops)
    show ?case
    proof (cases op)
      case (SetPorts ps)
      with Cons.IH [OF set_extra_allowable [OF Cons.prems]] show ?thesis by simp
    next
      case (SetAnyHigh b)
      with Cons.prems Cons.IH [of "set_any_high b e"] show ?thesis by (simp add: set_any_high_def)
    qed
  qed simp
  show ?thesis unfolding extra_after_def by (rule all) (simp add: new_extra_def)
qed

text \<open>Only what the player set reaches the filter: the syncs of a history read some \<open>extra_after\<close>.\<close>

definition honest_syncs :: "filter_event list \<Rightarrow> bool" where
  "honest_syncs evs \<longleftrightarrow> (\<forall>e. Sync e \<in> set evs \<longrightarrow> (\<exists>ops. e = extra_after ops))"

definition policy_bounded :: "lan_policy \<Rightarrow> lan_filter \<Rightarrow> bool" where
  "policy_bounded policy f \<longleftrightarrow> lf_base f = policy \<and> po_any (lf_policy f) = po_any policy
     \<and> (\<forall>proto port. lists (lf_policy f) proto port \<longrightarrow> lists policy proto port \<or> is_allowable port)
     \<and> (\<forall>proto port. lists policy proto port \<longrightarrow> lists (lf_policy f) proto port)"

lemma refresh_keeps_policy [simp]:
  "lf_base (snd (refresh_flow k now f)) = lf_base f" "lf_policy (snd (refresh_flow k now f)) = lf_policy f"
  by (auto simp: refresh_flow_def split: option.splits)

lemma admit_or_reply_keeps_policy [simp]:
  "lf_base (snd (admit_or_reply proto sport dport src now f)) = lf_base f"
  "lf_policy (snd (admit_or_reply proto sport dport src now f)) = lf_policy f"
  by (simp_all add: admit_or_reply_def split_def Let_def)

lemma keeps_policy:
  "lf_base (snd (outbound p s now f)) = lf_base f" "lf_policy (snd (outbound p s now f)) = lf_policy f"
  "lf_base (snd (inbound p now f)) = lf_base f" "lf_policy (snd (inbound p now f)) = lf_policy f"
  by (auto simp: outbound_def inbound_def note_flow_def Let_def split_def split: option.splits prod.splits)

lemma sync_bounded:
  assumes "policy_bounded policy f" "\<forall>p\<in>set (ep_ports e). is_allowable (lp_port p)"
  shows "policy_bounded policy (sync_extra e f)"
  using assms by (auto simp: policy_bounded_def sync_extra_def lists_def list_ex_iff foldl_add_set)

lemma history_bounded:
  "policy_bounded policy f \<Longrightarrow> honest_syncs evs \<Longrightarrow> policy_bounded policy (fold apply_event evs f)"
proof (induction evs arbitrary: f)
  case (Cons ev evs)
  have "policy_bounded policy (apply_event ev f)"
  proof (cases ev)
    case (Sync e)
    with Cons.prems obtain ops where "e = extra_after ops" by (auto simp: honest_syncs_def)
    with Sync Cons.prems sync_bounded extra_after_allowable show ?thesis by simp
  qed (use Cons.prems in \<open>auto simp: policy_bounded_def keeps_policy\<close>)
  with Cons show ?case by (simp add: honest_syncs_def)
qed simp

lemma filter_after_bounded: "honest_syncs evs \<Longrightarrow> policy_bounded policy (filter_after policy evs)"
  unfolding filter_after_def by (rule history_bounded) (simp_all add: policy_bounded_def new_filter_def)

section \<open>What was refused\<close>

definition EPHEMERAL_FROM :: u16 where "EPHEMERAL_FROM = 32768"
definition REFUSED_CAP :: nat where "REFUSED_CAP = 64"
definition REFUSED_REMEMBER :: duration where "REFUSED_REMEMBER = secs 600"

datatype drop_direction = Inbound | OutboundBroadcast

record refused =
  re_direction :: drop_direction
  re_proto :: lan_proto
  re_local_port :: u16
  re_peer :: ipv4
  re_peer_port :: u16
  re_count :: u64
  re_last :: time

type_synonym refused_key = "drop_direction \<times> lan_proto \<times> u16 \<times> ipv4 \<times> u16"
type_synonym refused_log = "(refused_key, refused) table"

definition suggested_port :: "refused \<Rightarrow> u16" where
  "suggested_port r = (case re_direction r of
     OutboundBroadcast \<Rightarrow> re_peer_port r
   | Inbound \<Rightarrow> if re_local_port r \<ge> EPHEMERAL_FROM then re_peer_port r else re_local_port r)"

definition count_refused :: "refused_key \<Rightarrow> time \<Rightarrow> refused_log \<Rightarrow> refused option \<times> refused_log" where
  "count_refused key now log =
     (let log = tretain (\<lambda>_ r. now - re_last r < REFUSED_REMEMBER) log in
      case tget log key of
        Some r \<Rightarrow> (None, tput key (r\<lparr>re_count := re_count r + 1, re_last := now\<rparr>) log)
      | None \<Rightarrow>
          if length log \<ge> REFUSED_CAP then (None, log)
          else let (direction, proto, local_port, peer, peer_port) = key;
                   r = \<lparr>re_direction = direction, re_proto = proto, re_local_port = local_port,
                        re_peer = peer, re_peer_port = peer_port, re_count = 1, re_last = now\<rparr>
               in (Some r, tput key r log))"

definition saw :: "drop_direction \<Rightarrow> bytes \<Rightarrow> time \<Rightarrow> refused_log \<Rightarrow> refused option \<times> refused_log" where
  "saw direction packet now log =
     (case parse packet of None \<Rightarrow> (None, log) | Some p \<Rightarrow>
     (case lan_proto_of (pa_protocol p) of None \<Rightarrow> (None, log) | Some proto \<Rightarrow>
     (case pa_ports p of None \<Rightarrow> (None, log) | Some (sport, dport) \<Rightarrow>
        let (local_port, peer, peer_port) = (case direction of
              Inbound \<Rightarrow> (dport, pa_src p, sport) | OutboundBroadcast \<Rightarrow> (sport, pa_dst p, dport)) in
        if dport \<in> set OS_CHATTER \<or> sport \<in> set OS_CHATTER then (None, log)
        else count_refused (direction, proto, local_port, peer, peer_port) now log)))"

definition forget :: "lan_port list \<Rightarrow> refused_log \<Rightarrow> refused_log" where
  "forget ports log =
     tretain (\<lambda>_ r. \<not> list_ex (\<lambda>p. lp_proto p = re_proto r \<and> lp_port p = suggested_port r) ports) log"

definition refused_order :: "refused \<Rightarrow> refused \<Rightarrow> ordering" where
  "refused_order a b =
     then_cmp (rev_order (cmp (re_count a) (re_count b))) (cmp (re_local_port a) (re_local_port b))"

definition refused_now :: "time \<Rightarrow> refused_log \<Rightarrow> refused list \<times> refused_log" where
  "refused_now now log =
     (let log = tretain (\<lambda>_ r. now - re_last r < REFUSED_REMEMBER) log
      in (sort_by refused_order (map snd log), log))"

interpretation refused_sort: rust_order refused_order
  unfolding refused_order_def [abs_def]
  by (rule rust_order_then [OF rust_order_rev [OF rust_order_by_key [OF rust_order_cmp, of re_count]]
        rust_order_by_key [OF rust_order_cmp, of re_local_port]])

lemma count_refused_bounded:
  assumes "length log \<le> REFUSED_CAP"
  shows "length (snd (count_refused key now log)) \<le> REFUSED_CAP"
proof -
  define log' where "log' = tretain (\<lambda>_ r. now - re_last r < REFUSED_REMEMBER) log"
  have "length log' \<le> REFUSED_CAP" using tbl.len_retain assms unfolding log'_def by (rule order_trans)
  then show ?thesis
    unfolding count_refused_def Let_def log'_def [symmetric]
    by (auto simp: tbl.len_put not_le split: option.splits prod.splits)
qed

lemma saw_bounded: "length log \<le> REFUSED_CAP \<Longrightarrow> length (snd (saw d packet now log)) \<le> REFUSED_CAP"
  by (cases d) (auto simp: saw_def count_refused_bounded split: option.splits)

section \<open>Properties\<close>

text \<open>C1.
  What a member's filter lets in. In any history of sends, deliveries and port changes, a delivered
  packet passes only if it is ICMP; or a later fragment of a datagram whose first fragment came less
  than 30 s ago and was itself let in; or a whole packet or first fragment of a protocol other than
  UDP and TCP under \<open>any\<close>; or let in for its ports: the policy admits the destination port, or the
  packet answers a flow this side opened (it sent a packet from that port to that very address and
  port, or a broadcast to that port, and the filter let that packet out) and the last packet of that
  flow, sent or let in, is less than 180 s old. The flow table never holds more than 4096 flows.
\<close>
theorem filter_lets_in_only_replies:
  assumes "f = filter_after policy evs" "fst (inbound packet now f)" "parse packet = Some p"
  shows "length (lf_flows f) \<le> MAX_FLOWS \<and>
   (pa_protocol p = PROTO_ICMP
    \<or> (pa_fragment p = Rest
       \<and> (\<exists>t. vouched policy evs (pa_src p, pa_id p, pa_protocol p) t \<and> now - t < FRAGMENT_WINDOW))
    \<or> (pa_fragment p \<noteq> Rest \<and> lan_proto_of (pa_protocol p) = None \<and> po_any (lf_policy f))
    \<or> (pa_fragment p \<noteq> Rest \<and> let_in policy evs p now))"
proof -
  have ex: "explained policy evs (lf_flows f) (lf_fragments f)"
    using filter_after_explained by (simp add: assms(1))
  have fragment: "tget (lf_fragments f) key = Some t \<Longrightarrow> vouched policy evs key t" for key t
    using ex unfolding explained_def by blast
  have port: "lan_proto_of (pa_protocol p) = Some proto \<Longrightarrow> pa_ports p = Some (sport, dport) \<Longrightarrow>
      fst (admit_or_reply proto sport dport (pa_src p) now f) \<Longrightarrow> let_in policy evs p now"
    for proto sport dport
    using admitted_let_in ex assms(1) by blast
  have "length (lf_flows f) \<le> MAX_FLOWS" using ex by (simp add: explained_def)
  with inbound_reason [OF assms(2,3)] fragment port show ?thesis by blast
qed

definition sample_udp :: "bytes" where
  "sample_udp = [0x45, 0, 0, 28, 0, 1, 0, 0, 64, 17, 0, 0, 198, 19, 0, 7, 198, 19, 0, 6,
                 0x1F, 0x90, 0x26, 0xAC, 0, 8, 0, 0]"

definition sample_reply :: "bytes" where
  "sample_reply = [0x45, 0, 0, 28, 0, 1, 0, 0, 64, 17, 0, 0, 198, 19, 0, 6, 198, 19, 0, 7,
                   0x26, 0xAC, 0x1F, 0x90, 0, 8, 0, 0]"

definition sample_policy :: lan_policy where
  "sample_policy = \<lparr>po_ports = [], po_any = False\<rparr>"

lemma sample_parse:
  "parse sample_udp = Some \<lparr>pa_src = 0xC6130007, pa_dst = 0xC6130006, pa_protocol = 17, pa_id = 1,
     pa_fragment = Whole, pa_ports = Some (8080, 9900)\<rparr>"
  "parse sample_reply = Some \<lparr>pa_src = 0xC6130006, pa_dst = 0xC6130007, pa_protocol = 17, pa_id = 1,
     pa_fragment = Whole, pa_ports = Some (9900, 8080)\<rparr>"
  by (simp_all add: sample_udp_def sample_reply_def parse_def ipv4_endpoints_def of_be_def ihl_of_def
      be16_def get_range_def proto_consts Let_def)

lemma sample_not_broadcast: "\<not> is_broadcast default_subnet 0xC6130006"
  by (rule assignable_not_broadcast [OF default_subnet_ok])
    (simp add: is_assignable_def last_octet_ucast in_subnet_def mask_of_def mask_for_def
      default_subnet_def room_consts)

definition sample_filter :: lan_filter where
  "sample_filter = filter_after sample_policy [SendPacket sample_udp default_subnet (secs 5)]"

lemma sample_filter_flows: "lf_flows sample_filter = [((Udp, 8080, 0xC6130006, 9900), secs 5)]"
  by (simp add: sample_filter_def filter_after_def outbound_def sample_parse sample_not_broadcast
      lan_proto_of_def proto_consts note_flow_def remember_flow_def new_filter_def MAX_FLOWS_def tput_def)

lemma sample_inbound: "fst (inbound sample_reply (secs 6) sample_filter)"
  by (simp add: inbound_def admit_or_reply_def sample_parse proto_consts lan_proto_of_def refresh_flow_def split_def
      sample_filter_flows tget_def secs_def FLOW_IDLE_def Let_def)

theorem filter_lets_in_only_replies_witness:
  "let_in sample_policy [SendPacket sample_udp default_subnet (secs 5)]
     \<lparr>pa_src = 0xC6130006, pa_dst = 0xC6130007, pa_protocol = 17, pa_id = 1,
      pa_fragment = Whole, pa_ports = Some (9900, 8080)\<rparr> (secs 6)"
  using filter_lets_in_only_replies [OF sample_filter_def sample_inbound sample_parse(2)]
  by (simp add: proto_consts lan_proto_of_def)

text \<open>A player's extra ports and the last-resort switch never open a machine's own services. Whatever is
  set and whenever the filter picks it up, a port is admitted only if the pack declares it or it is
  at least 1024 and neither operating-system chatter nor a remote-access or database service; and a
  broadcast to a chatter port leaves the machine only if the pack itself lists that port.
\<close>
theorem extras_never_open_services:
  assumes "honest_syncs evs" "f = filter_after policy evs"
  shows "(admits f proto port \<longrightarrow> declares policy proto port \<or> is_allowable port)
    \<and> (parse packet = Some p \<and> lan_proto_of (pa_protocol p) = Some proto
       \<and> pa_ports p = Some (sport, dport) \<and> is_broadcast subnet (pa_dst p) \<and> is_os_chatter dport
       \<longrightarrow> fst (outbound packet subnet now f) = lists policy proto dport)"
proof -
  have b: "policy_bounded policy f" using filter_after_bounded assms by simp
  have "is_os_chatter dport \<Longrightarrow> lists (lf_policy f) proto dport = lists policy proto dport"
    using b by (auto simp: policy_bounded_def is_allowable_def is_os_chatter_def)
  then show ?thesis using b
    by (auto simp: policy_bounded_def admits_def declares_def outbound_def Let_def)
qed

theorem extras_never_open_services_witness:
  "\<not> admits (filter_after sample_policy [Sync (extra_after [SetAnyHigh True])]) Tcp 3389"
proof -
  have h: "honest_syncs [Sync (extra_after [SetAnyHigh True])]" by (auto simp: honest_syncs_def)
  have "\<not> is_allowable 3389" by (simp add: is_allowable_def REMOTE_SERVICES_def)
  moreover have "\<not> declares sample_policy Tcp 3389"
    by (simp add: declares_def lists_def sample_policy_def)
  ultimately show ?thesis using extras_never_open_services [OF h refl, where policy = sample_policy and proto = Tcp and port = 3389]
    by blast
qed

end
