(* ===== verification/Lan_Rebind.thy ===== *)
theory Lan_Rebind
  imports Lan_Filter
begin

text \<open>
  \<^verbatim>\<open>crates/game-bridge/src/lan_rebind.rs\<close>: translating between the room address and the address a game
  listens on, with the RFC 1624 checksum updates, and the tables of translated flows. Finding where
  the game is (\<^verbatim>\<open>survey_on\<close>) asks the operating system and is not modelled: a survey is an input, and
  so is the probe that tells a pinned socket (\<open>rb_pinned\<close>, \<open>None\<close> where it cannot be told).
\<close>

definition FLOW_IDLE :: duration where "FLOW_IDLE = secs 300"
definition MAX_FLOWS :: nat where "MAX_FLOWS = 4096"
definition FRAGMENT_WINDOW :: duration where "FRAGMENT_WINDOW = secs 5"
definition PINNED_DSCP :: u8 where "PINNED_DSCP = 0x01"

section \<open>Bytes in place\<close>

text \<open>\<open>packet[at..at + bs.len()].copy_from_slice(bs)\<close>, where the range is within the packet.\<close>

definition write_at :: "nat \<Rightarrow> bytes \<Rightarrow> bytes \<Rightarrow> bytes" where
  "write_at at bs packet = take at packet @ bs @ drop (at + length bs) packet"

definition slice :: "nat \<Rightarrow> nat \<Rightarrow> bytes \<Rightarrow> bytes" where
  "slice at n packet = take n (drop at packet)"

definition read16 :: "bytes \<Rightarrow> nat \<Rightarrow> u16" where
  "read16 packet at = be16 packet at"

section \<open>Checksums\<close>

fun pairs16 :: "bytes \<Rightarrow> u16 list" where
  "pairs16 (a # b # r) = of_be [a, b] # pairs16 r"
| "pairs16 _ = []"

text \<open>\<open>while acc >> 16 != 0 { acc = (acc & 0xffff) + (acc >> 16) }\<close>.\<close>

function fold16 :: "u32 \<Rightarrow> u32" where
  "fold16 acc = (if drop_bit 16 acc \<noteq> 0 then fold16 ((acc AND 0xFFFF) + drop_bit 16 acc) else acc)"
  by pat_completeness auto

lemma unat_low16: "unat ((acc :: u32) AND 0xFFFF) = unat acc mod 65536"
proof -
  have "(0xFFFF :: u32) = mask 16" by (simp add: mask_eq_exp_minus_1)
  then have "acc AND 0xFFFF = take_bit 16 acc" by (simp only: take_bit_eq_mask)
  then show ?thesis by (simp only: unsigned_take_bit_eq) (simp add: take_bit_eq_mod)
qed

lemma unat_high16: "unat (drop_bit 16 (acc :: u32)) = unat acc div 65536"
  by (simp add: drop_bit_eq_div unat_div_distrib)

lemma unat_fold_step:
  "unat ((acc AND 0xFFFF) + drop_bit 16 (acc :: u32)) = unat acc mod 65536 + unat acc div 65536"
proof -
  have "unat acc < 65536 * 65536" using unsigned_less [of acc, where ?'a = nat] by simp
  then have "unat acc div 65536 < 65536" by (simp add: less_mult_imp_div_less)
  moreover have "unat acc mod 65536 < 65536" by simp
  ultimately have "unat acc mod 65536 + unat acc div 65536 < 4294967296" by linarith
  then show ?thesis by (simp add: unat_word_ariths unat_low16 unat_high16)
qed

lemma fold_step_less:
  assumes "drop_bit 16 (acc :: u32) \<noteq> 0"
  shows "unat ((acc AND 0xFFFF) + drop_bit 16 acc) < unat acc"
proof -
  have "unat acc div 65536 \<noteq> 0" using assms by (simp flip: unat_high16 add: unat_eq_0)
  moreover have "unat acc = 65536 * (unat acc div 65536) + unat acc mod 65536" by simp
  ultimately show ?thesis unfolding unat_fold_step by linarith
qed

termination fold16
  by (relation "measure unat") (simp_all add: fold_step_less)

declare fold16.simps [simp del]

definition checksum_adjust :: "u16 \<Rightarrow> bytes \<Rightarrow> bytes \<Rightarrow> u16" where
  "checksum_adjust csum old new =
     (let acc = foldl (\<lambda>acc (o', n). acc + ucast (NOT o') + ucast n) (ucast (NOT csum) :: u32)
                  (zip (pairs16 old) (pairs16 new))
      in NOT (ucast (fold16 acc) :: u16))"

definition adjust_at :: "nat \<Rightarrow> bytes \<Rightarrow> bytes \<Rightarrow> bytes \<Rightarrow> bytes" where
  "adjust_at at old new packet =
     write_at at (to_be 2 (checksum_adjust (read16 packet at) old new)) packet"

definition adjust_udp_at :: "nat \<Rightarrow> bytes \<Rightarrow> bytes \<Rightarrow> bytes \<Rightarrow> bytes" where
  "adjust_udp_at at old new packet =
     (let sum = read16 packet at in
      if sum = 0 then packet
      else let sum = checksum_adjust sum old new in
           write_at at (to_be 2 (if sum = 0 then 0xFFFF else sum)) packet)"

section \<open>Packets\<close>

definition set_dscp :: "u8 \<Rightarrow> bytes \<Rightarrow> bytes" where
  "set_dscp dscp packet =
     (if length packet < 20 then packet
      else let old = [packet ! 0, packet ! 1];
               p = packet[1 := (push_bit 2 dscp OR (packet ! 1 AND 0x03))];
               new = [p ! 0, p ! 1]
           in adjust_at 10 old new p)"

definition transport :: "bytes \<Rightarrow> (lan_proto \<times> u16 \<times> u16) option" where
  "transport packet =
     (let ihl = ihl_of packet in
      if read16 packet 6 AND 0x1FFF \<noteq> 0 then None
      else case lan_proto_of (packet ! 9) of
             None \<Rightarrow> None
           | Some proto \<Rightarrow>
               (case get_range packet ihl (ihl + 4) of
                  None \<Rightarrow> None
                | Some t \<Rightarrow> Some (proto, be16 t 0, be16 t 2)))"

definition is_icmp_error :: "u8 \<Rightarrow> bool" where
  "is_icmp_error kind \<longleftrightarrow> kind \<in> {3, 4, 5, 11, 12}"

definition quoted_transport :: "bytes \<Rightarrow> (lan_proto \<times> u16 \<times> ipv4 \<times> u16) option" where
  "quoted_transport packet =
     (case get_range packet (ihl_of packet) (length packet) of
        None \<Rightarrow> None
      | Some icmp \<Rightarrow>
          if length icmp < 8 \<or> \<not> is_icmp_error (icmp ! 0) then None
          else let inner = drop 8 icmp in
            (case ipv4_endpoints inner of
               None \<Rightarrow> None
             | Some (_, inner_dst) \<Rightarrow>
                 (case transport inner of
                    None \<Rightarrow> None
                  | Some (proto, sport, dport) \<Rightarrow> Some (proto, sport, inner_dst, dport))))"

datatype field = Src | Dst

fun offset :: "field \<Rightarrow> nat" where
  "offset Src = 12"
| "offset Dst = 16"

fun opposite :: "field \<Rightarrow> field" where
  "opposite Src = Dst"
| "opposite Dst = Src"

text \<open>The closure \<open>change\<close> of \<open>rewrite_quoted\<close>: bytes inside an ICMP error, and its checksum with them.\<close>

definition change :: "nat \<Rightarrow> nat \<Rightarrow> bytes \<Rightarrow> bytes \<Rightarrow> bytes" where
  "change icmp_sum at bs packet =
     (let before = slice at (length bs) packet in
      adjust_at icmp_sum before bs (write_at at bs packet))"

definition quoted_checksum :: "nat \<Rightarrow> nat \<Rightarrow> bytes \<Rightarrow> bytes \<Rightarrow> bytes \<Rightarrow> bytes" where
  "quoted_checksum icmp_sum inner old new packet =
     (let inner_ihl = unat (packet ! inner AND 0x0F) * 4;
          transport = inner + inner_ihl
      in if read16 packet (inner + 6) AND 0x1FFF \<noteq> 0 then packet
         else if packet ! (inner + 9) = PROTO_UDP \<and> length packet \<ge> transport + 8
                 \<and> read16 packet (transport + 6) \<noteq> 0 then
           (let sum = checksum_adjust (read16 packet (transport + 6)) old new;
                sum = (if sum = 0 then 0xFFFF else sum)
            in change icmp_sum (transport + 6) (to_be 2 sum) packet)
         else if packet ! (inner + 9) = PROTO_TCP \<and> length packet \<ge> transport + 18 then
           (let sum = checksum_adjust (read16 packet (transport + 16)) old new
            in change icmp_sum (transport + 16) (to_be 2 sum) packet)
         else packet)"

definition rewrite_quoted :: "nat \<Rightarrow> field \<Rightarrow> bytes \<Rightarrow> bytes \<Rightarrow> bytes \<Rightarrow> bytes" where
  "rewrite_quoted ihl f old new packet =
     (let inner = ihl + 8; at = inner + offset f; icmp_sum = ihl + 2 in
      if slice at 4 packet \<noteq> old \<or> drop_bit 4 (packet ! inner) \<noteq> 4 then packet
      else let p1 = change icmp_sum at new packet;
               sum = checksum_adjust (read16 p1 (inner + 10)) old new;
               p2 = change icmp_sum (inner + 10) (to_be 2 sum) p1
           in quoted_checksum icmp_sum inner old new p2)"

text \<open>The checksums of a first fragment that cover the addresses (the \<open>match packet[9]\<close> of \<open>rewrite\<close>).\<close>

definition adjust_transport :: "nat \<Rightarrow> field \<Rightarrow> bytes \<Rightarrow> bytes \<Rightarrow> bytes \<Rightarrow> bytes" where
  "adjust_transport ihl f old new packet =
     (if read16 packet 6 AND 0x1FFF \<noteq> 0 then packet
      else if packet ! 9 = PROTO_TCP \<and> length packet \<ge> ihl + 18 then adjust_at (ihl + 16) old new packet
      else if packet ! 9 = PROTO_UDP \<and> length packet \<ge> ihl + 8 then adjust_udp_at (ihl + 6) old new packet
      else if packet ! 9 = PROTO_ICMP \<and> length packet \<ge> ihl + 8 + 20 \<and> is_icmp_error (packet ! ihl)
      then rewrite_quoted ihl (opposite f) old new packet
      else packet)"

definition rewrite :: "field \<Rightarrow> ipv4 \<Rightarrow> bytes \<Rightarrow> bool \<times> bytes" where
  "rewrite f to packet =
     (let ihl = ihl_of packet in
      if length packet < max ihl 20 then (False, packet)
      else let at = offset f; old = slice at 4 packet; new = octets to in
        if old = new then (False, packet)
        else (True, adjust_transport ihl f old new (adjust_at 10 old new (write_at at new packet))))"

section \<open>The rebinder\<close>

record rebound =
  rd_port :: lan_port
  rd_address :: ipv4
  rd_pinned :: bool

record survey =
  sv_locals :: "ipv4 list"
  sv_broadcasts :: "ipv4 list"
  sv_rebound :: "rebound list"

record flow =
  fl_to :: ipv4
  fl_pinned :: bool
  fl_seen :: time

type_synonym search_key = "lan_proto \<times> u16 \<times> u16"

record rebinder =
  rb_survey :: survey
  rb_flows :: "(flow_key, flow) table"
  rb_searches :: "(search_key, flow) table"
  rb_fragments :: "(fragment_key, ipv4 \<times> bool \<times> time) table"
  rb_pinned :: "(u16 \<Rightarrow> bool) option"

record outbound_done =
  od_source :: bool
  od_broadcast :: bool

definition new_rebinder :: "(u16 \<Rightarrow> bool) option \<Rightarrow> rebinder" where
  "new_rebinder pinned =
     \<lparr>rb_survey = \<lparr>sv_locals = [], sv_broadcasts = [], sv_rebound = []\<rparr>, rb_flows = [], rb_searches = [],
      rb_fragments = [], rb_pinned = pinned\<rparr>"

definition update :: "survey \<Rightarrow> rebinder \<Rightarrow> bool \<times> rebinder" where
  "update sv r = (sv_rebound sv \<noteq> sv_rebound (rb_survey r), r\<lparr>rb_survey := sv\<rparr>)"

text \<open>One table's insertion: sweep when full and the key is new, then insert if there is room.\<close>

definition remember :: "ipv4 \<Rightarrow> bool \<Rightarrow> 'k \<Rightarrow> time \<Rightarrow> ('k, flow) table \<Rightarrow> ('k, flow) table" where
  "remember to pinned key now flows =
     (let flows' = (if \<not> thas flows key \<and> length flows \<ge> MAX_FLOWS
                    then tretain (\<lambda>_ f. now - fl_seen f < FLOW_IDLE) flows else flows)
      in if length flows' < MAX_FLOWS
         then tput key \<lparr>fl_to = to, fl_pinned = pinned, fl_seen = now\<rparr> flows' else flows')"

definition is_pinned :: "rebinder \<Rightarrow> flow option \<Rightarrow> ipv4 \<Rightarrow> lan_proto \<Rightarrow> u16 \<Rightarrow> bool" where
  "is_pinned r known src proto sport =
     (let probe = (proto = Udp \<and> (case rb_pinned r of Some p \<Rightarrow> p sport | None \<Rightarrow> False)) in
      case known of Some f \<Rightarrow> if fl_to f = src then fl_pinned f else probe | None \<Rightarrow> probe)"

definition note_outbound :: "ipv4 \<Rightarrow> ipv4 \<Rightarrow> bytes \<Rightarrow> room_subnet \<Rightarrow> time \<Rightarrow> rebinder \<Rightarrow> rebinder" where
  "note_outbound src dst packet subnet now r =
     (case transport packet of
        None \<Rightarrow> r
      | Some (proto, sport, dport) \<Rightarrow>
          if is_broadcast subnet dst then
            (let pinned = is_pinned r (tget (rb_searches r) (proto, sport, dport)) src proto sport in
             r\<lparr>rb_searches := remember src pinned (proto, sport, dport) now (rb_searches r)\<rparr>)
          else
            (let pinned = is_pinned r (tget (rb_flows r) (proto, sport, dst, dport)) src proto sport in
             r\<lparr>rb_flows := remember src pinned (proto, sport, dst, dport) now (rb_flows r)\<rparr>))"

definition outbound :: "bytes \<Rightarrow> ipv4 \<Rightarrow> room_subnet \<Rightarrow> time \<Rightarrow> rebinder
    \<Rightarrow> outbound_done \<times> bytes \<times> rebinder" where
  "outbound packet room subnet now r =
     (case ipv4_endpoints packet of
        None \<Rightarrow> (\<lparr>od_source = False, od_broadcast = False\<rparr>, packet, r)
      | Some (src, dst) \<Rightarrow>
          let (bc, packet) =
                (if dst \<in> set (sv_broadcasts (rb_survey r)) \<or> is_pseudo_broadcast subnet dst
                 then rewrite Dst (broadcast subnet) packet else (False, packet))
          in if src = room \<or> src \<notin> set (sv_locals (rb_survey r))
             then (\<lparr>od_source = False, od_broadcast = bc\<rparr>, packet, r)
             else let dst = (case ipv4_endpoints packet of None \<Rightarrow> dst | Some (_, d) \<Rightarrow> d);
                      r' = note_outbound src dst packet subnet now r;
                      (sc, packet) = rewrite Src room packet
                  in (\<lparr>od_source = sc, od_broadcast = bc\<rparr>, packet, r'))"

definition target :: "lan_proto \<Rightarrow> u16 \<Rightarrow> ipv4 \<Rightarrow> u16 \<Rightarrow> time \<Rightarrow> rebinder
    \<Rightarrow> (ipv4 \<times> bool) option \<times> rebinder" where
  "target proto local_port peer peer_port now r =
     (let fallback = map_option (\<lambda>b. (rd_address b, rd_pinned b))
            (List.find (\<lambda>b. lp_proto (rd_port b) = proto \<and> lp_port (rd_port b) = local_port)
               (sv_rebound (rb_survey r)));
          search = (case tget (rb_searches r) (proto, local_port, peer_port) of
              Some f \<Rightarrow> if now - fl_seen f < FLOW_IDLE
                then (Some (fl_to f, fl_pinned f),
                      r\<lparr>rb_searches := tput (proto, local_port, peer_port) (f\<lparr>fl_seen := now\<rparr>) (rb_searches r)\<rparr>)
                else (fallback, r)
            | None \<Rightarrow> (fallback, r))
      in case tget (rb_flows r) (proto, local_port, peer, peer_port) of
           Some f \<Rightarrow> if now - fl_seen f < FLOW_IDLE
             then (Some (fl_to f, fl_pinned f),
                   r\<lparr>rb_flows := tput (proto, local_port, peer, peer_port) (f\<lparr>fl_seen := now\<rparr>) (rb_flows r)\<rparr>)
             else search
         | None \<Rightarrow> search)"

definition inbound_target :: "bytes \<Rightarrow> ipv4 \<Rightarrow> time \<Rightarrow> rebinder \<Rightarrow> (ipv4 \<times> bool) option \<times> rebinder" where
  "inbound_target packet src now r =
     (let protocol = packet ! 9; ident = be16 packet 4; off = be16 packet 6 AND 0x1FFF in
      if off \<noteq> 0 then
        ((case tget (rb_fragments r) (src, ident, protocol) of
            Some (to, pinned, t) \<Rightarrow> if now - t < FRAGMENT_WINDOW then Some (to, pinned) else None
          | None \<Rightarrow> None), r)
      else if protocol = PROTO_ICMP then
        (case quoted_transport packet of
           None \<Rightarrow> (None, r)
         | Some (proto, sport, inner_dst, dport) \<Rightarrow> target proto sport inner_dst dport now r)
      else
        (case transport packet of
           None \<Rightarrow> (None, r)
         | Some (proto, sport, dport) \<Rightarrow> target proto dport src sport now r))"

text \<open>The rest of \<open>inbound\<close>, once the target is known.\<close>

definition translate :: "bytes \<Rightarrow> ipv4 \<Rightarrow> ipv4 \<Rightarrow> bool \<Rightarrow> time \<Rightarrow> rebinder \<Rightarrow> bytes option \<times> rebinder" where
  "translate packet src to pinned now r =
     (let flags = be16 packet 6;
          r' = (if flags AND 0x1FFF = 0 \<and> flags AND 0x2000 \<noteq> 0
                then r\<lparr>rb_fragments := tput (src, be16 packet 4, packet ! 9) (to, pinned, now)
                       (tretain (\<lambda>_ (_, _, t). now - t < FRAGMENT_WINDOW) (rb_fragments r))\<rparr>
                else r);
          (changed, out) = rewrite Dst to packet
      in (if changed then Some (if pinned then set_dscp PINNED_DSCP out else out) else None, r'))"

definition inbound :: "bytes \<Rightarrow> ipv4 \<Rightarrow> time \<Rightarrow> rebinder \<Rightarrow> bytes option \<times> rebinder" where
  "inbound packet room now r =
     (case ipv4_endpoints packet of
        None \<Rightarrow> (None, r)
      | Some (src, dst) \<Rightarrow>
          if dst \<noteq> room then (None, r)
          else let (found, r1) = inbound_target packet src now r in
            (case found of
               None \<Rightarrow> (None, r1)
             | Some (to, pinned) \<Rightarrow> translate packet src to pinned now r1))"

section \<open>Sums of 16-bit words\<close>

text \<open>
  A checksum is right when the 16-bit words it covers sum to a multiple of 65535 (ones' complement
  zero). \<open>same_sum\<close> is equality of such sums; a last odd byte counts as the high one.
\<close>

fun word_sum :: "bytes \<Rightarrow> nat" where
  "word_sum (a # b # r) = unat a * 256 + unat b + word_sum r"
| "word_sum [a] = unat a * 256"
| "word_sum [] = 0"

definition region_sum :: "nat \<Rightarrow> nat \<Rightarrow> bytes \<Rightarrow> nat" where
  "region_sum lo hi packet = word_sum (slice lo (hi - lo) packet)"

definition same_sum :: "nat \<Rightarrow> nat \<Rightarrow> bool" where
  "same_sum a b \<longleftrightarrow> a mod 65535 = b mod 65535"

lemma same_sum_int: "same_sum a b \<longleftrightarrow> (\<exists>k. int a = int b + 65535 * k)"
proof -
  have "int (a mod 65535) = int a mod 65535" "int (b mod 65535) = int b mod 65535"
    by (simp_all add: zmod_int)
  then have "same_sum a b \<longleftrightarrow> int a mod 65535 = int b mod 65535"
    unfolding same_sum_def by linarith
  also have "\<dots> \<longleftrightarrow> 65535 dvd (int a - int b)" by (rule mod_eq_dvd_iff)
  also have "\<dots> \<longleftrightarrow> (\<exists>k. int a = int b + 65535 * k)" by (auto simp: dvd_def algebra_simps)
  finally show ?thesis .
qed

lemma same_sum_refl [simp]: "same_sum a a"
  by (simp add: same_sum_def)

lemma same_sum_trans: "same_sum a b \<Longrightarrow> same_sum b c \<Longrightarrow> same_sum a c"
  by (simp add: same_sum_def)

lemma same_sum_add: "same_sum a b \<Longrightarrow> same_sum c d \<Longrightarrow> same_sum (a + c) (b + d)"
  unfolding same_sum_def by (metis mod_add_eq)

lemma word_sum_append: "even (length xs) \<Longrightarrow> word_sum (xs @ ys) = word_sum xs + word_sum ys"
  by (induction xs rule: word_sum.induct) auto

lemma unat_ucast_up: "LENGTH('a) \<le> LENGTH('b) \<Longrightarrow> unat (ucast (w :: 'a::len word) :: 'b::len word) = unat w"
proof -
  assume "LENGTH('a) \<le> LENGTH('b)"
  then have le: "(2 :: nat) ^ LENGTH('a) \<le> 2 ^ LENGTH('b)" by (rule power_increasing) simp
  have "unat w < 2 ^ LENGTH('a)" by (rule unsigned_less)
  from this le have "unat w < 2 ^ LENGTH('b)" by (rule order_less_le_trans)
  then show ?thesis by (simp add: unsigned_ucast_eq take_bit_nat_eq_self_iff)
qed

lemma unat_not16: "unat (NOT (x :: u16)) = 65535 - unat x"
proof -
  have "NOT x = 65535 - x" by (simp add: not_eq_complement)
  moreover have "x \<le> 65535" using unat_u16_less [of x] by (simp add: word_le_nat_alt)
  ultimately show ?thesis by (simp add: unat_sub)
qed

lemma of_be_pair: "unat (of_be [a, b] :: u16) = unat a * 256 + unat b"
proof -
  have "push_bit 8 (ucast a :: u16) OR ucast b = push_bit 8 (ucast a) + ucast b"
  proof (rule disjunctive_add [symmetric])
    fix n
    have "bit b n \<Longrightarrow> n < 8" using bit_imp_le_length [of b n] by simp
    then show "\<not> bit (push_bit 8 (ucast a :: u16)) n \<or> \<not> bit (ucast b :: u16) n"
      by (auto simp: bit_simps)
  qed
  then have e: "(of_be [a, b] :: u16) = push_bit 8 (ucast a) + ucast b" by (simp add: of_be_def)
  have "unat a * 256 + unat b < 65536" using unat_u8_less [of a] unat_u8_less [of b] by linarith
  then show ?thesis unfolding e
    by (simp add: push_bit_eq_mult unat_word_ariths unat_ucast_up)
qed

lemma word_sum_pairs: "even (length xs) \<Longrightarrow> word_sum xs = sum_list (map unat (pairs16 xs))"
  by (induction xs rule: pairs16.induct) (auto simp: of_be_pair)

lemma word_sum_to_be: "word_sum (to_be 2 (w :: u16)) = unat w"
proof -
  have "of_be (to_be 2 w) = w" by simp
  moreover obtain a b where "to_be 2 w = [a, b]"
    using length_to_be [of 2 w] by (cases "to_be 2 w"; cases "tl (to_be 2 w)") auto
  ultimately show ?thesis using of_be_pair [of a b] by simp
qed

section \<open>The incremental update\<close>

lemma fold16_same: "same_sum (unat (fold16 acc)) (unat acc) \<and> unat (fold16 acc) < 65536"
proof (induction acc rule: fold16.induct)
  case (1 acc)
  show ?case
  proof (cases "drop_bit 16 acc = 0")
    case True
    then have "unat acc div 65536 = 0" by (simp flip: unat_high16)
    then have "unat acc < 65536" by simp
    moreover have "fold16 acc = acc" by (subst fold16.simps) (simp add: True)
    ultimately show ?thesis by simp
  next
    case False
    let ?a = "(acc AND 0xFFFF) + drop_bit 16 acc"
    have "unat acc = 65535 * (unat acc div 65536) + (unat acc mod 65536 + unat acc div 65536)"
      by simp
    then have "same_sum (unat ?a) (unat acc)"
      unfolding unat_fold_step same_sum_def by (metis mod_mult_self4)
    moreover have "fold16 acc = fold16 ?a" by (subst fold16.simps) (simp add: False)
    ultimately show ?thesis using "1.IH" [OF False] by (auto intro: same_sum_trans)
  qed
qed

lemma adjust_acc:
  assumes "length ps \<le> 100" "unat acc0 \<le> 65535 * k" "k \<le> 100"
  shows "unat (foldl (\<lambda>acc (o', n). acc + ucast (NOT o') + ucast n) (acc0 :: u32) (ps :: (u16 \<times> u16) list)) =
     unat acc0 + sum_list (map (\<lambda>(o', n). 65535 - unat o' + unat n) ps)"
proof -
  have step: "unat (acc + ucast (NOT o') + ucast n) = unat acc + (65535 - unat o' + unat n)"
    if "unat acc \<le> 65535 * 400" for acc :: u32 and o' n :: u16
  proof -
    have "unat (ucast (NOT o') :: u32) = 65535 - unat o'" "unat (ucast n :: u32) = unat n"
      by (simp_all add: unat_ucast_up unat_not16)
    with that unat_u16_less [of n] show ?thesis by (simp add: unat_word_ariths)
  qed
  have "unat acc \<le> 65535 * j \<Longrightarrow> j + 2 * length ps \<le> 400 \<Longrightarrow>
      unat (foldl (\<lambda>acc (o', n). acc + ucast (NOT o') + ucast n) (acc :: u32) ps) =
      unat acc + sum_list (map (\<lambda>(o', n). 65535 - unat o' + unat (n :: u16)) ps)" for j acc
  proof (induction ps arbitrary: acc j)
    case (Cons p ps)
    obtain o' n where p: "p = (o', n)" by (cases p)
    have "unat acc \<le> 65535 * 400" using Cons.prems by simp
    note s = step [OF this, of o' n]
    have "unat (acc + ucast (NOT o') + ucast n) \<le> 65535 * (j + 2)"
      unfolding s using Cons.prems(1) unat_u16_less [of n] by simp
    from Cons.IH [OF this] Cons.prems(2) show ?case by (simp add: p s)
  qed simp
  from this [of acc0 k] assms show ?thesis by simp
qed

lemma sum_zip_pairs:
  "length (os :: u16 list) = length (ns :: u16 list) \<Longrightarrow>
   int (sum_list (map (\<lambda>(o', n). 65535 - unat o' + unat n) (zip os ns))) =
     65535 * int (length os) - int (sum_list (map unat os)) + int (sum_list (map unat ns))"
proof (induction os ns rule: list_induct2)
  case (Cons x xs y ys)
  have "int (65535 - unat (x :: u16)) = 65535 - int (unat x)"
    using unat_u16_less [of x] by (simp add: of_nat_diff)
  with Cons show ?case by (simp add: algebra_simps)
qed simp

lemma length_pairs16: "length (pairs16 xs) = length xs div 2"
  by (induction xs rule: pairs16.induct) auto

theorem checksum_adjust_sum:
  assumes "length old = length new" "even (length old)" "length old \<le> 200"
  shows "same_sum (unat (checksum_adjust s old new) + word_sum new) (unat s + word_sum old)"
proof -
  let ?ps = "zip (pairs16 old) (pairs16 new)"
  define acc where "acc = foldl (\<lambda>acc (o', n). acc + ucast (NOT o') + ucast n) (ucast (NOT s) :: u32) ?ps"
  have s: "unat (ucast (NOT s) :: u32) = 65535 - unat s"
    by (simp add: unat_ucast_up unat_not16)
  have "unat acc = unat (ucast (NOT s) :: u32) + sum_list (map (\<lambda>(o', n). 65535 - unat o' + unat n) ?ps)"
    unfolding acc_def by (rule adjust_acc [where k = 1]) (use assms s in \<open>simp_all add: length_pairs16\<close>)
  then have ua: "int (unat acc) = 65535 - int (unat s) + 65535 * int (length (pairs16 old))
      - int (word_sum old) + int (word_sum new)"
    using sum_zip_pairs [of "pairs16 old" "pairs16 new"] assms s unat_u16_less [of s]
    by (simp add: length_pairs16 word_sum_pairs of_nat_diff)
  obtain k where k: "int (unat (fold16 acc)) = int (unat acc) + 65535 * k"
    using fold16_same [of acc] by (auto simp: same_sum_int)
  have f: "unat (fold16 acc) \<le> 65535" using fold16_same [of acc] by simp
  have "unat (ucast (fold16 acc) :: u16) = unat (fold16 acc)"
    using f by (simp add: unsigned_ucast_eq take_bit_nat_eq_self_iff)
  then have "unat (checksum_adjust s old new) = 65535 - unat (fold16 acc)"
    by (simp add: checksum_adjust_def unat_not16 flip: acc_def)
  then have r: "int (unat (checksum_adjust s old new)) = 65535 - int (unat (fold16 acc))"
    using f by (simp add: of_nat_diff)
  have "int (unat (checksum_adjust s old new) + word_sum new) =
      int (unat s + word_sum old) + 65535 * (- int (length (pairs16 old)) - k)"
    using r k ua by (simp add: algebra_simps)
  then show ?thesis unfolding same_sum_int by blast
qed

section \<open>Writes and regions\<close>

lemma length_write_at [simp]: "at + length bs \<le> length p \<Longrightarrow> length (write_at at bs p) = length p"
  by (simp add: write_at_def)

lemma slice_write_same: "n = length bs \<Longrightarrow> at + n \<le> length p \<Longrightarrow> slice at n (write_at at bs p) = bs"
  by (simp add: write_at_def slice_def)

lemma slice_write_before: "lo + n \<le> at \<Longrightarrow> at \<le> length p \<Longrightarrow> slice lo n (write_at at bs p) = slice lo n p"
  by (simp add: write_at_def slice_def take_drop min_def)

lemma slice_write_after:
  "at + length bs \<le> lo \<Longrightarrow> at + length bs \<le> length p \<Longrightarrow> slice lo n (write_at at bs p) = slice lo n p"
  by (simp add: write_at_def slice_def drop_Cons' min_def)

lemma nth_write_at:
  "i < at \<or> at + length bs \<le> i \<Longrightarrow> at + length bs \<le> length p \<Longrightarrow> write_at at bs p ! i = p ! i"
  by (cases "i < at"; cases bs) (auto simp: write_at_def nth_append min_def)

lemma slice_split: "lo \<le> mid \<Longrightarrow> mid \<le> hi \<Longrightarrow> slice lo (hi - lo) p = slice lo (mid - lo) p @ slice mid (hi - mid) p"
proof -
  assume "lo \<le> mid" "mid \<le> hi"
  then have "hi - lo = (mid - lo) + (hi - mid)" "(mid - lo) + lo = mid" by simp_all
  then show ?thesis by (metis drop_drop slice_def take_add)
qed

lemma length_slice: "at + n \<le> length p \<Longrightarrow> length (slice at n p) = n"
  by (simp add: slice_def)

lemma region_split:
  assumes "lo \<le> mid" "mid \<le> hi" "even (mid - lo)" "mid \<le> length p"
  shows "region_sum lo hi p = region_sum lo mid p + region_sum mid hi p"
  unfolding region_sum_def slice_split [OF assms(1,2)]
  by (rule word_sum_append) (use assms in \<open>simp add: length_slice\<close>)

lemma region_write_out:
  assumes "at + length bs \<le> lo \<or> hi \<le> at" "at + length bs \<le> length p"
  shows "region_sum lo hi (write_at at bs p) = region_sum lo hi p"
proof (cases "lo \<le> hi")
  case True
  with assms show ?thesis unfolding region_sum_def
    by (auto simp: slice_write_before slice_write_after)
qed (simp add: region_sum_def slice_def)

lemma region_write_in:
  assumes "lo \<le> at" "at + length bs \<le> hi" "hi \<le> length p" "even (at - lo)" "even (length bs)"
  shows "region_sum lo hi (write_at at bs p) + word_sum (slice at (length bs) p) =
         region_sum lo hi p + word_sum bs"
proof -
  let ?e = "at + length bs"
  have split: "region_sum lo hi q = region_sum lo at q + word_sum (slice at (length bs) q) + region_sum ?e hi q"
    if "length q = length p" for q
    using region_split [of lo at hi q] region_split [of at ?e hi q] assms that
    by (simp add: region_sum_def)
  have "length (write_at at bs p) = length p" using assms by simp
  from split [OF this] split [OF refl] show ?thesis
    using assms by (simp add: region_write_out slice_write_same)
qed

lemma same_sum_cancel: "same_sum (a + c) (b + c) \<Longrightarrow> same_sum a b"
  unfolding same_sum_int by (simp add: algebra_simps)

lemma same_sum_via: "same_sum (r2 + n) (r1 + m) \<Longrightarrow> r1 + m = r0 + n \<Longrightarrow> same_sum r2 r0"
  by (metis same_sum_cancel)

lemma slice2: "at + 2 \<le> length p \<Longrightarrow> slice at 2 p = [p ! at, p ! (at + 1)]"
  by (simp add: slice_def numeral_2_eq_2 take_Suc_conv_app_nth nth_append)

lemma word_sum_slice2: "at + 2 \<le> length p \<Longrightarrow> word_sum (slice at 2 p) = unat (read16 p at)"
  by (simp add: slice2 read16_def be16_def of_be_pair)

lemma read16_write: "at + 2 \<le> length p \<Longrightarrow> read16 (write_at at (to_be 2 w) p) at = w"
proof -
  assume len: "at + 2 \<le> length p"
  then have "slice at 2 (write_at at (to_be 2 w) p) = to_be 2 w"
    by (intro slice_write_same) simp_all
  then have "[write_at at (to_be 2 w) p ! at, write_at at (to_be 2 w) p ! (at + 1)] = to_be 2 w"
    using len slice2 [of at "write_at at (to_be 2 w) p"] by simp
  then show ?thesis unfolding read16_def be16_def by simp
qed

text \<open>An update's operands: two or four bytes replaced by as many.\<close>

definition operands :: "bytes \<Rightarrow> bytes \<Rightarrow> bool" where
  "operands old new \<longleftrightarrow> length old = length new \<and> length old \<in> {2, 4}"

lemma length_adjust_at [simp]: "at + 2 \<le> length p \<Longrightarrow> length (adjust_at at old new p) = length p"
  by (simp add: adjust_at_def)

lemma region_set_sum:
  assumes "lo \<le> at" "at + 2 \<le> hi" "hi \<le> length p" "even (at - lo)"
    "same_sum (unat (w :: u16) + word_sum new) (unat (read16 p at) + word_sum old)"
  shows "same_sum (region_sum lo hi (write_at at (to_be 2 w) p) + word_sum new) (region_sum lo hi p + word_sum old)"
proof -
  have "region_sum lo hi (write_at at (to_be 2 w) p) + unat (read16 p at) = region_sum lo hi p + unat w"
    using region_write_in [of lo at "to_be 2 w" hi p] assms by (simp add: word_sum_to_be word_sum_slice2)
  with assms(5) show ?thesis unfolding same_sum_int
    by (smt (verit) of_nat_add)
qed

lemma region_adjust_in:
  assumes "lo \<le> at" "at + 2 \<le> hi" "hi \<le> length p" "even (at - lo)" "operands old new"
  shows "same_sum (region_sum lo hi (adjust_at at old new p) + word_sum new) (region_sum lo hi p + word_sum old)"
  unfolding adjust_at_def
  by (rule region_set_sum [OF assms(1-4)])
     (rule checksum_adjust_sum; use assms(5) in \<open>auto simp: operands_def\<close>)

lemma region_adjust_out:
  "at + 2 \<le> lo \<or> hi \<le> at \<Longrightarrow> at + 2 \<le> length p \<Longrightarrow> region_sum lo hi (adjust_at at old new p) = region_sum lo hi p"
  by (simp add: adjust_at_def region_write_out)

lemma length_change [simp]:
  "cs + 2 \<le> length p \<Longrightarrow> at + length bs \<le> length p \<Longrightarrow> length (change cs at bs p) = length p"
  by (simp add: change_def Let_def)

lemma region_change:
  assumes "lo \<le> cs" "cs + 2 \<le> hi" "lo \<le> at" "at + length bs \<le> hi" "hi \<le> length p"
    "even (cs - lo)" "even (at - lo)" "length bs \<in> {2, 4}"
  shows "same_sum (region_sum lo hi (change cs at bs p)) (region_sum lo hi p)"
proof -
  let ?before = "slice at (length bs) p" and ?p1 = "write_at at bs p"
  have "same_sum (region_sum lo hi (adjust_at cs ?before bs ?p1) + word_sum bs)
      (region_sum lo hi ?p1 + word_sum ?before)"
    using assms by (intro region_adjust_in) (auto simp: operands_def length_slice)
  moreover have "region_sum lo hi ?p1 + word_sum ?before = region_sum lo hi p + word_sum bs"
    using assms by (intro region_write_in) auto
  ultimately show ?thesis unfolding change_def Let_def by (rule same_sum_via)
qed

lemma change_before:
  "lo + n \<le> cs \<Longrightarrow> cs + 2 \<le> at \<Longrightarrow> at + length bs \<le> length p \<Longrightarrow> slice lo n (change cs at bs p) = slice lo n p"
  by (simp add: change_def Let_def adjust_at_def slice_write_before)

section \<open>Rewriting an address\<close>

lemma quoted_checksum_keeps:
  assumes "inner = ihl + 8" "even ihl" "ihl + 28 \<le> length p" "operands old new"
  shows "length (quoted_checksum (ihl + 2) inner old new p) = length p"
    and "same_sum (region_sum ihl (length p) (quoted_checksum (ihl + 2) inner old new p)) (region_sum ihl (length p) p)"
    and "lo + n \<le> ihl \<Longrightarrow> slice lo n (quoted_checksum (ihl + 2) inner old new p) = slice lo n p"
  using assms
  by (auto simp: quoted_checksum_def Let_def change_before intro!: region_change)

lemma rewrite_quoted_keeps:
  assumes "even ihl" "ihl + 28 \<le> length p" "operands old new" "length old = 4"
  shows "length (rewrite_quoted ihl f old new p) = length p"
    and "same_sum (region_sum ihl (length p) (rewrite_quoted ihl f old new p)) (region_sum ihl (length p) p)"
    and "lo + n \<le> ihl \<Longrightarrow> slice lo n (rewrite_quoted ihl f old new p) = slice lo n p"
proof -
  have off: "offset f \<in> {12, 16}" by (cases f) auto
  have new4: "length new = 4" using assms by (simp add: operands_def)
  let ?p1 = "change (ihl + 2) (ihl + 8 + offset f) new p"
  let ?s = "checksum_adjust (read16 ?p1 (ihl + 8 + 10)) old new"
  let ?p2 = "change (ihl + 2) (ihl + 8 + 10) (to_be 2 ?s) ?p1"
  have l1: "length ?p1 = length p" using assms(2) new4 off by auto
  have l2: "length ?p2 = length p" using assms(2) l1 by auto
  have s1: "same_sum (region_sum ihl (length p) ?p1) (region_sum ihl (length p) p)"
    using assms new4 off by (intro region_change) auto
  have s2: "same_sum (region_sum ihl (length p) ?p2) (region_sum ihl (length p) ?p1)"
    using assms l1 by (intro region_change) auto
  have b2: "lo + n \<le> ihl \<Longrightarrow> slice lo n ?p2 = slice lo n p" for lo n
    using assms(2) l1 new4 off by (auto simp: change_before)
  note q = quoted_checksum_keeps [of "ihl + 8" ihl ?p2 old new, unfolded l2]
  show "length (rewrite_quoted ihl f old new p) = length p"
    using q(1) assms l2 by (simp add: rewrite_quoted_def Let_def)
  show "same_sum (region_sum ihl (length p) (rewrite_quoted ihl f old new p)) (region_sum ihl (length p) p)"
    using q(2) assms s1 s2 by (auto simp: rewrite_quoted_def Let_def intro: same_sum_trans)
  show "lo + n \<le> ihl \<Longrightarrow> slice lo n (rewrite_quoted ihl f old new p) = slice lo n p"
    using q(3) assms b2 by (simp add: rewrite_quoted_def Let_def)
qed

lemma adjust_transport_before:
  assumes "even ihl" "20 \<le> ihl" "ihl \<le> length p" "operands old new" "length old = 4"
  shows "length (adjust_transport ihl f old new p) = length p"
    and "lo + n \<le> ihl \<Longrightarrow> slice lo n (adjust_transport ihl f old new p) = slice lo n p"
  using assms rewrite_quoted_keeps [of ihl p old new, where f = "opposite f"]
  by (auto simp: adjust_transport_def adjust_at_def adjust_udp_at_def Let_def slice_write_before)

lemma adjust_udp_region:
  assumes "lo \<le> at" "at + 2 \<le> length p" "even (at - lo)" "operands old new" "read16 p at \<noteq> 0"
  shows "same_sum (region_sum lo (length p) (adjust_udp_at at old new p) + word_sum new)
      (region_sum lo (length p) p + word_sum old) \<and> read16 (adjust_udp_at at old new p) at \<noteq> 0"
proof -
  let ?s = "checksum_adjust (read16 p at) old new"
  have c: "same_sum (unat ?s + word_sum new) (unat (read16 p at) + word_sum old)"
    by (rule checksum_adjust_sum; use assms(4) in \<open>auto simp: operands_def\<close>)
  have "same_sum (unat (if ?s = 0 then 0xFFFF else ?s) + word_sum new) (unat (read16 p at) + word_sum old)"
  proof (cases "?s = 0")
    case True
    have "same_sum (65535 + word_sum new) (word_sum new)" by (simp add: same_sum_def)
    moreover have "same_sum (word_sum new) (unat (read16 p at) + word_sum old)" using c True by simp
    ultimately show ?thesis using True by (auto intro: same_sum_trans)
  qed (use c in simp)
  then show ?thesis
    unfolding adjust_udp_at_def Let_def using assms
    by (auto intro!: region_set_sum simp: read16_write)
qed

text \<open>What a rewrite of \<open>p\<close> into \<open>q\<close> keeps, when \<open>old\<close> became \<open>new\<close>.\<close>

definition header_sum :: "bytes \<Rightarrow> nat" where
  "header_sum p = region_sum 0 (ihl_of p) p"

definition pseudo_sum :: "bytes \<Rightarrow> nat" where
  "pseudo_sum p = region_sum 12 20 p + unat (p ! 9) + (length p - ihl_of p)"

definition payload_sum :: "bytes \<Rightarrow> nat" where
  "payload_sum p = region_sum (ihl_of p) (length p) p"

definition later_fragment :: "bytes \<Rightarrow> bool" where
  "later_fragment p \<longleftrightarrow> read16 p 6 AND 0x1FFF \<noteq> 0"

lemma slice_nth: "i < n \<Longrightarrow> lo + n \<le> length p \<Longrightarrow> slice lo n p ! i = p ! (lo + i)"
  by (simp add: slice_def)

lemma same_prefix_nth:
  "slice 0 n p = slice 0 n q \<Longrightarrow> length p = length q \<Longrightarrow> n \<le> length p \<Longrightarrow> i < n \<Longrightarrow> p ! i = q ! i"
  by (metis add_0 slice_nth)

lemma rewrite_facts:
  fixes p :: bytes and f :: field and to :: ipv4
  defines "p1 \<equiv> adjust_at 10 (slice (offset f) 4 p) (octets to) (write_at (offset f) (octets to) p)"
  defines "q \<equiv> adjust_transport (ihl_of p) f (slice (offset f) 4 p) (octets to) p1"
  assumes ihl: "20 \<le> ihl_of p" "ihl_of p \<le> length p"
  shows "length p1 = length p" "length q = length p"
    "\<And>i. i < 10 \<Longrightarrow> q ! i = p ! i" "\<And>i. i < 10 \<Longrightarrow> p1 ! i = p ! i" "ihl_of q = ihl_of p"
    "slice (offset f) 4 q = octets to" "slice (offset (opposite f)) 4 q = slice (offset (opposite f)) 4 p"
    "drop (ihl_of p) p1 = drop (ihl_of p) p"
    "same_sum (header_sum q) (header_sum p)"
    "region_sum 12 20 q + word_sum (slice (offset f) 4 p) = region_sum 12 20 p + word_sum (octets to)"
proof -
  let ?old = "slice (offset f) 4 p" and ?new = "octets to" and ?p0 = "write_at (offset f) (octets to) p"
  have off: "offset f \<in> {12, 16}" by (cases f) auto
  have ops: "operands ?old ?new" "length ?old = 4"
    using ihl off by (auto simp: operands_def length_slice)
  have even: "even (ihl_of p)" by (simp add: ihl_of_def)
  have l0: "length ?p0 = length p" using ihl off by auto
  then show l1: "length p1 = length p" using ihl by (simp add: p1_def)
  note adj = adjust_transport_before [OF even ihl(1) _ ops, where p = p1 and f = f, unfolded l1, OF ihl(2)]
  show l2: "length q = length p" using adj(1) by (simp add: q_def)
  have low1: "p1 ! i = p ! i" if "i < 10" for i
    using that off ihl l0 by (auto simp: p1_def adjust_at_def nth_write_at)
  then show "\<And>i. i < 10 \<Longrightarrow> p1 ! i = p ! i" .
  have hd: "slice lo n q = slice lo n p1" if "lo + n \<le> ihl_of p" for lo n
    using adj(2) [OF that] by (simp add: q_def)
  show low: "\<And>i. i < 10 \<Longrightarrow> q ! i = p ! i"
    using same_prefix_nth [OF hd [of 0 20]] low1 ihl l1 l2 by simp
  from low [of 0] show ihl_q: "ihl_of q = ihl_of p" by (simp add: ihl_of_def)
  show "slice (offset f) 4 q = ?new"
    using off ihl l0 hd [of "offset f" 4]
    by (auto simp: p1_def adjust_at_def slice_write_after slice_write_same)
  show "slice (offset (opposite f)) 4 q = slice (offset (opposite f)) 4 p"
    using ihl l0 hd [of "offset (opposite f)" 4]
    by (cases f) (auto simp: p1_def adjust_at_def slice_write_after slice_write_before)
  show "drop (ihl_of p) p1 = drop (ihl_of p) p"
  proof -
    have "slice (ihl_of p) (length p) p1 = slice (ihl_of p) (length p) p"
      using ihl off l0 by (auto simp: p1_def adjust_at_def slice_write_after)
    then show ?thesis using l1 by (simp add: slice_def)
  qed
  have reg: "region_sum lo hi q = region_sum lo hi p1" if "hi \<le> ihl_of p" for lo hi
    using that hd [of lo "hi - lo"] by (cases "lo \<le> hi") (auto simp: region_sum_def slice_def)
  have "same_sum (region_sum 0 (ihl_of p) p1 + word_sum ?new) (region_sum 0 (ihl_of p) ?p0 + word_sum ?old)"
    unfolding p1_def by (rule region_adjust_in) (use ihl l0 ops in simp_all)
  moreover have "region_sum 0 (ihl_of p) ?p0 + word_sum ?old = region_sum 0 (ihl_of p) p + word_sum ?new"
    using region_write_in [of 0 "offset f" ?new "ihl_of p" p] off ihl by auto
  ultimately have "same_sum (region_sum 0 (ihl_of p) p1) (region_sum 0 (ihl_of p) p)" by (rule same_sum_via)
  then show "same_sum (header_sum q) (header_sum p)" by (simp add: header_sum_def ihl_q reg)
  have "region_sum 12 20 p1 = region_sum 12 20 ?p0"
    unfolding p1_def by (rule region_adjust_out) (use l0 ihl in simp_all)
  then show "region_sum 12 20 q + word_sum ?old = region_sum 12 20 p + word_sum ?new"
    using region_write_in [of 12 "offset f" ?new 20 p] off ihl by (auto simp: reg)
qed

lemma region_of_drop: "drop n p = drop n q \<Longrightarrow> region_sum n m p = region_sum n m q"
  by (simp add: region_sum_def slice_def)

lemma read16_of_drop: "drop n p = drop n q \<Longrightarrow> n \<le> at \<Longrightarrow> at + 1 < length p \<Longrightarrow> length p = length q \<Longrightarrow>
   read16 p at = read16 q at"
proof -
  assume d: "drop n p = drop n q" and n: "n \<le> at" "at + 1 < length p" "length p = length q"
  have "p ! i = q ! i" if "n \<le> i" "i < length p" for i
    using arg_cong [OF d, of "\<lambda>xs. xs ! (i - n)"] that n by simp
  then show ?thesis using n by (simp add: read16_def be16_def)
qed

lemma rewrite_True:
  assumes "rewrite f to p = (True, q)" "20 \<le> ihl_of p"
  shows "ihl_of p \<le> length p" "q = adjust_transport (ihl_of p) f (slice (offset f) 4 p) (octets to)
      (adjust_at 10 (slice (offset f) 4 p) (octets to) (write_at (offset f) (octets to) p))"
  using assms by (auto simp: rewrite_def Let_def split: if_splits)

text \<open>Inside the quote of an ICMP error at \<open>inner\<close>: its header's length, and where the checksum of its
  transport header lies, if the quote reaches that far and its sender computed one.\<close>

definition quoted_ihl :: "nat \<Rightarrow> bytes \<Rightarrow> nat" where
  "quoted_ihl inner p = unat (p ! inner AND 0x0F) * 4"

definition quoted_sum_at :: "nat \<Rightarrow> bytes \<Rightarrow> nat option" where
  "quoted_sum_at inner p =
     (let transport = inner + quoted_ihl inner p in
      if read16 p (inner + 6) AND 0x1FFF \<noteq> 0 then None
      else if p ! (inner + 9) = PROTO_UDP \<and> length p \<ge> transport + 8 \<and> read16 p (transport + 6) \<noteq> 0
      then Some (transport + 6)
      else if p ! (inner + 9) = PROTO_TCP \<and> length p \<ge> transport + 18 then Some (transport + 16)
      else None)"

text \<open>
  What a rewrite of the quote must do: the address is the new one; the quoted header still sums to what
  it did; so do the quoted addresses with the quoted transport checksum, which never becomes the UDP
  \<open>0\<close> for "none"; and no other byte of the quote changes.
\<close>

definition quote_follows :: "nat \<Rightarrow> field \<Rightarrow> bytes \<Rightarrow> bytes \<Rightarrow> bytes \<Rightarrow> bool" where
  "quote_follows inner f new p q \<longleftrightarrow>
     slice (inner + offset f) 4 q = new
     \<and> same_sum (region_sum inner (inner + 20) q) (region_sum inner (inner + 20) p)
     \<and> (\<forall>at. quoted_sum_at inner p = Some at \<longrightarrow>
          same_sum (region_sum (inner + 12) (inner + 20) q + unat (read16 q at))
                   (region_sum (inner + 12) (inner + 20) p + unat (read16 p at))
          \<and> (p ! (inner + 9) = PROTO_UDP \<longrightarrow> read16 q at \<noteq> 0))
     \<and> (\<forall>i. inner \<le> i \<and> i < length p \<and> i \<notin> {inner + 10, inner + 11}
          \<and> i \<notin> {inner + offset f ..< inner + offset f + 4}
          \<and> (\<forall>at. quoted_sum_at inner p = Some at \<longrightarrow> i \<notin> {at, at + 1}) \<longrightarrow> q ! i = p ! i)"

lemma nth_change:
  "cs + 2 \<le> length p \<Longrightarrow> at + length bs \<le> length p \<Longrightarrow> i < cs \<or> cs + 2 \<le> i \<Longrightarrow> i < at \<or> at + length bs \<le> i \<Longrightarrow>
   change cs at bs p ! i = p ! i"
  by (simp add: change_def Let_def adjust_at_def nth_write_at)

lemma slice_change_same:
  "cs + 2 \<le> at \<Longrightarrow> n = length bs \<Longrightarrow> at + n \<le> length p \<Longrightarrow> slice at n (change cs at bs p) = bs"
  by (simp add: change_def Let_def adjust_at_def slice_write_after slice_write_same)

lemma slice_change_other:
  "cs + 2 \<le> lo \<Longrightarrow> cs + 2 \<le> length p \<Longrightarrow> lo + n \<le> at \<or> at + length bs \<le> lo \<Longrightarrow> at + length bs \<le> length p \<Longrightarrow>
   slice lo n (change cs at bs p) = slice lo n p"
  by (auto simp: change_def Let_def adjust_at_def slice_write_after slice_write_before)

lemma region_change_in:
  "cs + 2 \<le> lo \<Longrightarrow> cs + 2 \<le> length p \<Longrightarrow> at + length bs \<le> length p \<Longrightarrow>
   region_sum lo hi (change cs at bs p) = region_sum lo hi (write_at at bs p)"
  by (simp add: change_def Let_def region_adjust_out)

lemma read16_nth: "p ! at = q ! at \<Longrightarrow> p ! (at + 1) = q ! (at + 1) \<Longrightarrow> read16 p at = read16 q at"
  by (simp add: read16_def be16_def)

lemma read16_change_same:
  assumes "cs + 2 \<le> at" "at + 2 \<le> length p"
  shows "read16 (change cs at (to_be 2 w) p) at = w"
proof -
  have l: "length (change cs at (to_be 2 w) p) = length p" using assms by simp
  have "slice at 2 (change cs at (to_be 2 w) p) = to_be 2 w"
    using assms by (intro slice_change_same) simp_all
  then have "[change cs at (to_be 2 w) p ! at, change cs at (to_be 2 w) p ! (at + 1)] = to_be 2 w"
    using assms l by (simp add: slice2)
  then show ?thesis unfolding read16_def be16_def by simp
qed

text \<open>The two changes every quoted header gets: its address and its own checksum.\<close>

lemma quoted_header:
  fixes p :: bytes and f :: field and new :: bytes and ihl :: nat
  defines "p1 \<equiv> change (ihl + 2) (ihl + 8 + offset f) new p"
  defines "p2 \<equiv> change (ihl + 2) (ihl + 8 + 10)
      (to_be 2 (checksum_adjust (read16 p1 (ihl + 8 + 10)) (slice (ihl + 8 + offset f) 4 p) new)) p1"
  assumes len: "ihl + 28 \<le> length p" and new: "length new = 4"
  shows "length p2 = length p"
    "slice (ihl + 8 + offset f) 4 p2 = new"
    "same_sum (region_sum (ihl + 8) (ihl + 28) p2) (region_sum (ihl + 8) (ihl + 28) p)"
    "region_sum (ihl + 20) (ihl + 28) p2 + word_sum (slice (ihl + 8 + offset f) 4 p)
       = region_sum (ihl + 20) (ihl + 28) p + word_sum new"
    "\<And>i. ihl + 8 \<le> i \<Longrightarrow> i \<notin> {ihl + 18, ihl + 19} \<Longrightarrow> i \<notin> {ihl + 8 + offset f ..< ihl + 8 + offset f + 4} \<Longrightarrow>
       p2 ! i = p ! i"
proof -
  let ?at = "ihl + 8 + offset f"
  let ?old = "slice ?at 4 p"
  have off: "offset f \<in> {12, 16}" by (cases f) auto
  have ops: "length ?old = 4" using len off by (auto simp: length_slice)
  have l1: "length p1 = length p" using len new off by (auto simp: p1_def)
  then show l2: "length p2 = length p" using len by (simp add: p2_def)
  have "slice ?at 4 p2 = slice ?at 4 p1"
    unfolding p2_def using len off l1 by (intro slice_change_other) auto
  also have "\<dots> = new" unfolding p1_def using len off new by (intro slice_change_same) auto
  finally show "slice ?at 4 p2 = new" .
  have R1: "region_sum lo hi p1 + word_sum ?old = region_sum lo hi p + word_sum new"
    if "ihl + 8 \<le> lo" "lo \<le> ihl + 20" "hi = ihl + 28" "even (ihl + 8 + lo)" for lo hi
  proof -
    have "region_sum lo hi p1 = region_sum lo hi (write_at ?at new p)"
      unfolding p1_def using that len off new by (intro region_change_in) auto
    moreover have "region_sum lo hi (write_at ?at new p) + word_sum (slice ?at (length new) p)
        = region_sum lo hi p + word_sum new"
      using that len off new by (intro region_write_in) auto
    ultimately show ?thesis by (simp add: new)
  qed
  define w where "w = checksum_adjust (read16 p1 (ihl + 18)) ?old new"
  have i18: "ihl + 8 + 10 = ihl + 18" by simp
  have p2: "p2 = change (ihl + 2) (ihl + 18) (to_be 2 w) p1" unfolding p2_def i18 w_def ..
  have w: "same_sum (unat w + word_sum new) (unat (read16 p1 (ihl + 18)) + word_sum ?old)"
    unfolding w_def by (rule checksum_adjust_sum) (simp_all add: ops new)
  have "ihl + 18 + 2 \<le> ihl + 28" "ihl + 28 \<le> length p1" "even (ihl + 18 - (ihl + 8))" using len l1 by simp_all
  from region_set_sum [OF _ this w]
  have "same_sum (region_sum (ihl + 8) (ihl + 28) (write_at (ihl + 18) (to_be 2 w) p1) + word_sum new)
      (region_sum (ihl + 8) (ihl + 28) p1 + word_sum ?old)" by simp
  moreover have "region_sum (ihl + 8) (ihl + 28) p2 = region_sum (ihl + 8) (ihl + 28) (write_at (ihl + 18) (to_be 2 w) p1)"
    unfolding p2 using len l1 by (simp add: region_change_in)
  ultimately have "same_sum (region_sum (ihl + 8) (ihl + 28) p2 + word_sum new)
      (region_sum (ihl + 8) (ihl + 28) p1 + word_sum ?old)" by simp
  moreover have "region_sum (ihl + 8) (ihl + 28) p1 + word_sum ?old = region_sum (ihl + 8) (ihl + 28) p + word_sum new"
    by (rule R1) simp_all
  ultimately show "same_sum (region_sum (ihl + 8) (ihl + 28) p2) (region_sum (ihl + 8) (ihl + 28) p)"
    by (rule same_sum_via)
  have "region_sum (ihl + 20) (ihl + 28) p2 = region_sum (ihl + 20) (ihl + 28) p1"
    unfolding p2 using len l1 by (simp add: region_change_in region_write_out)
  then show "region_sum (ihl + 20) (ihl + 28) p2 + word_sum ?old = region_sum (ihl + 20) (ihl + 28) p + word_sum new"
    using R1 [of "ihl + 20" "ihl + 28"] by simp
  fix i assume i: "ihl + 8 \<le> i" "i \<notin> {ihl + 18, ihl + 19}" "i \<notin> {?at ..< ?at + 4}"
  have "p2 ! i = p1 ! i" unfolding p2 using i len l1 by (intro nth_change) auto
  also have "\<dots> = p ! i" unfolding p1_def using i len off new by (intro nth_change) auto
  finally show "p2 ! i = p ! i" .
qed

lemma rewrite_quoted_result:
  assumes len: "ihl + 28 \<le> length p" and new: "length new = 4"
    and old: "slice (ihl + 8 + offset f) 4 p = old" and four: "drop_bit 4 (p ! (ihl + 8)) = 4"
    and long: "20 \<le> quoted_ihl (ihl + 8) p"
  shows "quote_follows (ihl + 8) f new p (rewrite_quoted ihl f old new p)"
proof -
  let ?inner = "ihl + 8"
  have idx: "?inner + 20 = ihl + 28" "?inner + 12 = ihl + 20" "?inner + 10 = ihl + 18" "?inner + 11 = ihl + 19"
    by simp_all
  have off: "offset f \<in> {12, 16}" by (cases f) auto
  define p1 where "p1 = change (ihl + 2) (ihl + 8 + offset f) new p"
  define p2 where "p2 = change (ihl + 2) (ihl + 8 + 10)
      (to_be 2 (checksum_adjust (read16 p1 (ihl + 8 + 10)) old new)) p1"
  note h = quoted_header [OF len new, where f = f, folded p1_def, unfolded old, folded p2_def]
  have q: "rewrite_quoted ihl f old new p = quoted_checksum (ihl + 2) ?inner old new p2"
    using old four by (simp add: rewrite_quoted_def Let_def p1_def p2_def)
  have low: "p2 ! i = p ! i" if "ihl + 8 \<le> i" "i < ihl + 18 \<or> ihl + 28 \<le> i" for i
    using that off by (intro h(5)) auto
  have r16: "read16 p2 i = read16 p i" if "ihl + 8 \<le> i" "i + 1 < ihl + 18 \<or> ihl + 28 \<le> i" for i
    using that by (intro read16_nth low) auto
  have ihl2: "quoted_ihl ?inner p2 = quoted_ihl ?inner p" by (simp add: quoted_ihl_def low)
  have at: "quoted_sum_at ?inner p2 = quoted_sum_at ?inner p"
  proof -
    let ?t = "?inner + quoted_ihl ?inner p"
    have "read16 p2 (?inner + 6) = read16 p (?inner + 6)" "read16 p2 (?t + 6) = read16 p (?t + 6)"
      using long by (intro r16; simp)+
    moreover have "p2 ! (?inner + 9) = p ! (?inner + 9)" by (rule low) simp_all
    ultimately show ?thesis unfolding quoted_sum_at_def Let_def ihl2 h(1) by (simp only:)
  qed
  show ?thesis
  proof (cases "quoted_sum_at ?inner p")
    case None
    then have "quoted_checksum (ihl + 2) ?inner old new p2 = p2"
      unfolding at [symmetric]
      by (auto simp: quoted_sum_at_def quoted_checksum_def quoted_ihl_def Let_def split: if_splits)
    with None h(2,3,5) show ?thesis unfolding quote_follows_def q idx by simp
  next
    case (Some a)
    have a: "ihl + 28 \<le> a" "a + 2 \<le> length p"
      using Some long by (auto simp: quoted_sum_at_def Let_def split: if_splits)
    have "\<exists>w :: u16. quoted_checksum (ihl + 2) ?inner old new p2 = change (ihl + 2) a (to_be 2 w) p2
        \<and> same_sum (unat w + word_sum new) (unat (read16 p2 a) + word_sum old)
        \<and> (p ! (?inner + 9) = PROTO_UDP \<longrightarrow> w \<noteq> 0)"
    proof -
      let ?s = "checksum_adjust (read16 p2 a) old new"
      have "length old = 4" using old len off by (auto simp: length_slice)
      then have s: "same_sum (unat ?s + word_sum new) (unat (read16 p2 a) + word_sum old)"
        by (intro checksum_adjust_sum) (simp_all add: new)
      have z: "same_sum (65535 + word_sum new) (unat (read16 p2 a) + word_sum old)" if "?s = 0"
        using s that by (simp add: same_sum_def)
      have p9: "p2 ! (?inner + 9) = p ! (?inner + 9)" by (rule low) simp_all
      show ?thesis
      proof (cases "p ! (?inner + 9) = PROTO_UDP")
        case True
        then have "quoted_checksum (ihl + 2) ?inner old new p2
            = change (ihl + 2) a (to_be 2 (if ?s = 0 then 0xFFFF else ?s)) p2"
          using Some p9 unfolding at [symmetric]
          by (auto simp: quoted_sum_at_def quoted_checksum_def quoted_ihl_def Let_def proto_consts split: if_splits)
        moreover have "same_sum (unat (if ?s = 0 then 0xFFFF else ?s) + word_sum new)
            (unat (read16 p2 a) + word_sum old)" using s z by (cases "?s = 0") simp_all
        moreover have "(if ?s = 0 then 0xFFFF else ?s) \<noteq> 0" by simp
        ultimately show ?thesis by blast
      next
        case False
        then have "quoted_checksum (ihl + 2) ?inner old new p2 = change (ihl + 2) a (to_be 2 ?s) p2"
          using Some p9 unfolding at [symmetric]
          by (auto simp: quoted_sum_at_def quoted_checksum_def quoted_ihl_def Let_def split: if_splits)
        with s False show ?thesis by blast
      qed
    qed
    then obtain w :: u16 where w: "rewrite_quoted ihl f old new p = change (ihl + 2) a (to_be 2 w) p2"
        "same_sum (unat w + word_sum new) (unat (read16 p2 a) + word_sum old)"
        "p ! (?inner + 9) = PROTO_UDP \<longrightarrow> w \<noteq> 0" unfolding q by blast
    let ?q = "change (ihl + 2) a (to_be 2 w) p2"
    have R: "region_sum lo (ihl + 28) ?q = region_sum lo (ihl + 28) p2" if "ihl + 8 \<le> lo" for lo
      using that a h(1) by (simp add: region_change_in region_write_out)
    have "slice (?inner + offset f) 4 ?q = new"
      using a off h(1,2) by (subst slice_change_other) auto
    moreover have ra: "read16 ?q a = w" using a h(1) by (intro read16_change_same) simp_all
    moreover have "same_sum (region_sum (ihl + 20) (ihl + 28) p2 + unat w)
        (region_sum (ihl + 20) (ihl + 28) p + unat (read16 p a))"
    proof -
      have "read16 p2 a = read16 p a" using a by (intro r16) simp_all
      then have "same_sum (region_sum (ihl + 20) (ihl + 28) p2 + word_sum old + (unat w + word_sum new))
          (region_sum (ihl + 20) (ihl + 28) p + word_sum new + (unat (read16 p a) + word_sum old))"
        using same_sum_add [OF same_sum_refl w(2), of "region_sum (ihl + 20) (ihl + 28) p2 + word_sum old"] h(4)
        by simp
      then have "same_sum (region_sum (ihl + 20) (ihl + 28) p2 + unat w + (word_sum old + word_sum new))
          (region_sum (ihl + 20) (ihl + 28) p + unat (read16 p a) + (word_sum old + word_sum new))"
        by (simp add: algebra_simps)
      then show ?thesis by (rule same_sum_cancel)
    qed
    moreover have "?q ! i = p ! i" if "?inner \<le> i" "i \<notin> {ihl + 18, ihl + 19}"
        "i \<notin> {?inner + offset f ..< ?inner + offset f + 4}" "i \<notin> {a, a + 1}" for i
    proof -
      have "?q ! i = p2 ! i" using that a h(1) by (intro nth_change) auto
      with that show ?thesis by (simp add: h(5))
    qed
    ultimately show ?thesis
      using Some h(3) w(3) R [of ?inner] R [of "ihl + 20"] unfolding quote_follows_def w(1) idx by simp
  qed
qed

text \<open>An ICMP error whose quote holds, in the opposite field, the address this rewrite replaces.\<close>

definition quotes_own :: "field \<Rightarrow> bytes \<Rightarrow> bool" where
  "quotes_own f p \<longleftrightarrow>
     (let ihl = ihl_of p; inner = ihl + 8 in
      ihl + 28 \<le> length p \<and> is_icmp_error (p ! ihl) \<and> drop_bit 4 (p ! inner) = 4
      \<and> slice (inner + offset (opposite f)) 4 p = slice (offset f) 4 p)"

lemma nth_of_drop: "drop n p = drop n q \<Longrightarrow> n \<le> i \<Longrightarrow> i < length p \<Longrightarrow> length p = length q \<Longrightarrow> p ! i = q ! i"
  using nth_drop [of n p "i - n"] nth_drop [of n q "i - n"] by simp

lemma slice_of_drop: "drop n p = drop n q \<Longrightarrow> n \<le> lo \<Longrightarrow> slice lo k p = slice lo k q"
  by (metis drop_drop le_add_diff_inverse2 slice_def)

text \<open>What a quote must do depends on it alone, not on the header before it.\<close>

lemma quote_follows_drop:
  assumes d: "drop (ihl_of p) p1 = drop (ihl_of p) p" "length p1 = length p" and len: "ihl_of p + 28 \<le> length p"
    and long: "20 \<le> quoted_ihl (ihl_of p + 8) p"
  shows "quoted_ihl (ihl_of p + 8) p1 = quoted_ihl (ihl_of p + 8) p"
    "quote_follows (ihl_of p + 8) f new p1 q = quote_follows (ihl_of p + 8) f new p q"
proof -
  let ?inner = "ihl_of p + 8"
  have n: "p1 ! i = p ! i" if "?inner \<le> i" "i < length p" for i
    using that d by (intro nth_of_drop [OF d(1)]) simp_all
  show ihl: "quoted_ihl ?inner p1 = quoted_ihl ?inner p" using len by (simp add: quoted_ihl_def n)
  have r16: "read16 p1 i = read16 p i" if "?inner \<le> i" "i + 1 < length p" for i
    using that by (intro read16_nth n) simp_all
  have reg: "region_sum lo hi p1 = region_sum lo hi p" if "?inner \<le> lo" for lo hi
    using that slice_of_drop [OF d(1), of lo] by (simp add: region_sum_def)
  have at: "quoted_sum_at ?inner p1 = quoted_sum_at ?inner p"
  proof -
    let ?t = "?inner + quoted_ihl ?inner p"
    have "read16 p1 (?inner + 6) = read16 p (?inner + 6)" "p1 ! (?inner + 9) = p ! (?inner + 9)"
      using len by (auto intro: r16 n)
    moreover have "?t + 8 \<le> length p \<Longrightarrow> read16 p1 (?t + 6) = read16 p (?t + 6)" by (rule r16) simp_all
    ultimately show ?thesis unfolding quoted_sum_at_def Let_def ihl d(2) by auto
  qed
  have "read16 p1 a = read16 p a" if "quoted_sum_at ?inner p = Some a" for a
    using that by (intro r16) (auto simp: quoted_sum_at_def Let_def split: if_splits)
  moreover have "p1 ! (?inner + 9) = p ! (?inner + 9)" using len by (intro n) simp_all
  ultimately show "quote_follows ?inner f new p1 q = quote_follows ?inner f new p q"
    unfolding quote_follows_def at d(2) by (auto simp: reg n)
qed

text \<open>Every checksum stays right.\<close>

lemma rewrite_sums:
  assumes r: "rewrite f to p = (True, q)" and ihl: "20 \<le> ihl_of p"
  shows "same_sum (header_sum q) (header_sum p)"
    and "later_fragment p \<Longrightarrow> drop (ihl_of p) q = drop (ihl_of p) p"
    and "\<not> later_fragment p \<Longrightarrow> p ! 9 = PROTO_TCP \<Longrightarrow> length p \<ge> ihl_of p + 18 \<Longrightarrow>
          same_sum (pseudo_sum q + payload_sum q) (pseudo_sum p + payload_sum p)"
    and "\<not> later_fragment p \<Longrightarrow> p ! 9 = PROTO_UDP \<Longrightarrow> length p \<ge> ihl_of p + 8 \<Longrightarrow>
          (if read16 p (ihl_of p + 6) = 0 then drop (ihl_of p) q = drop (ihl_of p) p
           else same_sum (pseudo_sum q + payload_sum q) (pseudo_sum p + payload_sum p)
                \<and> read16 q (ihl_of p + 6) \<noteq> 0)"
    and "\<not> later_fragment p \<Longrightarrow> p ! 9 = PROTO_ICMP \<Longrightarrow> same_sum (payload_sum q) (payload_sum p)"
    and "\<not> later_fragment p \<Longrightarrow> p ! 9 = PROTO_ICMP \<Longrightarrow>
          (if quotes_own f p then 20 \<le> quoted_ihl (ihl_of p + 8) p
               \<longrightarrow> quote_follows (ihl_of p + 8) (opposite f) (octets to) p q
           else drop (ihl_of p) q = drop (ihl_of p) p)"
    and "slice (offset f) 4 q = octets to"
proof -
  let ?old = "slice (offset f) 4 p" and ?new = "octets to" and ?i = "ihl_of p"
  define p1 where "p1 = adjust_at 10 ?old ?new (write_at (offset f) ?new p)"
  note len = rewrite_True(1) [OF r ihl]
  have q: "q = adjust_transport ?i f ?old ?new p1" using rewrite_True(2) [OF r ihl] by (simp add: p1_def)
  note fs = rewrite_facts [OF ihl len, where f = f and to = to, folded p1_def, folded q]
  have ops: "operands ?old ?new" "length ?old = 4"
    using ihl len by (cases f; auto simp: operands_def length_slice)+
  have even: "even ?i" by (simp add: ihl_of_def)
  have frag: "later_fragment p \<longleftrightarrow> read16 p1 6 AND 0x1FFF \<noteq> 0"
    using fs(4) by (simp add: later_fragment_def read16_def be16_def)
  have proto: "p1 ! 9 = p ! 9" using fs(4) by simp
  have pay1: "region_sum ?i (length p) p1 = payload_sum p"
    unfolding payload_sum_def by (rule region_of_drop [OF fs(8)])
  have total: "same_sum (pseudo_sum q + payload_sum q) (pseudo_sum p + payload_sum p)"
    if "same_sum (region_sum ?i (length p) q + word_sum ?new) (region_sum ?i (length p) p1 + word_sum ?old)"
  proof -
    have "same_sum (region_sum 12 20 q + word_sum ?old + (payload_sum q + word_sum ?new))
        (region_sum 12 20 p + word_sum ?new + (payload_sum p + word_sum ?old))"
      using same_sum_add [OF same_sum_refl that, of "region_sum 12 20 q + word_sum ?old"] fs(10)
      by (simp add: payload_sum_def fs(2,5) pay1 [unfolded payload_sum_def])
    then have "same_sum ((pseudo_sum q + payload_sum q) + (word_sum ?old + word_sum ?new))
        ((pseudo_sum p + payload_sum p) + (word_sum ?old + word_sum ?new))"
      unfolding pseudo_sum_def same_sum_int fs(2,5) using fs(3) [of 9] by (simp add: algebra_simps)
    then show ?thesis by (rule same_sum_cancel)
  qed
  show "same_sum (header_sum q) (header_sum p)" by (rule fs(9))
  show "later_fragment p \<Longrightarrow> drop ?i q = drop ?i p" using frag fs(8) by (simp add: q adjust_transport_def)
  show "same_sum (pseudo_sum q + payload_sum q) (pseudo_sum p + payload_sum p)"
    if "\<not> later_fragment p" "p ! 9 = PROTO_TCP" "length p \<ge> ?i + 18"
  proof -
    have "q = adjust_at (?i + 16) ?old ?new p1" using that frag proto fs(1) by (simp add: q adjust_transport_def)
    then show ?thesis using that fs(1) ops by (intro total) (simp add: region_adjust_in)
  qed
  show "if read16 p (?i + 6) = 0 then drop ?i q = drop ?i p
           else same_sum (pseudo_sum q + payload_sum q) (pseudo_sum p + payload_sum p) \<and> read16 q (?i + 6) \<noteq> 0"
    if c: "\<not> later_fragment p" "p ! 9 = PROTO_UDP" "length p \<ge> ?i + 8"
  proof -
    have qq: "q = adjust_udp_at (?i + 6) ?old ?new p1"
      using c frag proto fs(1) by (simp add: q adjust_transport_def proto_consts)
    have r1: "read16 p1 (?i + 6) = read16 p (?i + 6)"
      using c fs(1) by (intro read16_of_drop [OF fs(8)]) simp_all
    show ?thesis
    proof (cases "read16 p (?i + 6) = 0")
      case True
      then show ?thesis using fs(8) by (simp add: qq adjust_udp_at_def r1)
    next
      case False
      then have "same_sum (region_sum ?i (length p) q + word_sum ?new) (region_sum ?i (length p) p1 + word_sum ?old)
          \<and> read16 q (?i + 6) \<noteq> 0"
        using adjust_udp_region [of ?i "?i + 6" p1 ?old ?new] c fs(1) ops r1 by (simp add: qq)
      with total False show ?thesis by simp
    qed
  qed
  show "slice (offset f) 4 q = ?new" by (rule fs(6))
  show "if quotes_own f p then 20 \<le> quoted_ihl (?i + 8) p \<longrightarrow> quote_follows (?i + 8) (opposite f) ?new p q
      else drop ?i q = drop ?i p" if c: "\<not> later_fragment p" "p ! 9 = PROTO_ICMP"
  proof (cases "?i + 28 \<le> length p \<and> is_icmp_error (p ! ?i)")
    case True
    then have il: "?i + 28 \<le> length p" and err: "is_icmp_error (p ! ?i)" by simp_all
    have n: "p1 ! i = p ! i" if "?i \<le> i" "i < length p" for i
      using that fs(1) by (intro nth_of_drop [OF fs(8)]) simp_all
    have sl: "slice (?i + 8 + offset (opposite f)) 4 p1 = slice (?i + 8 + offset (opposite f)) 4 p"
      by (rule slice_of_drop [OF fs(8)]) simp
    have qq: "q = rewrite_quoted ?i (opposite f) ?old ?new p1"
      using c frag proto il err fs(1) n [of ?i] by (simp add: q adjust_transport_def proto_consts)
    show ?thesis
    proof (cases "quotes_own f p")
      case own: True
      have "quote_follows (?i + 8) (opposite f) ?new p q" if long: "20 \<le> quoted_ihl (?i + 8) p"
      proof -
        have "slice (?i + 8 + offset (opposite f)) 4 p1 = ?old" "drop_bit 4 (p1 ! (?i + 8)) = 4"
          using own il n [of "?i + 8"] by (simp_all add: quotes_own_def Let_def sl)
        from rewrite_quoted_result [OF _ _ this] il long
        have "quote_follows (?i + 8) (opposite f) ?new p1 q"
          by (simp add: qq fs(1) quote_follows_drop(1) [OF fs(8,1) il long])
        then show ?thesis by (simp add: quote_follows_drop(2) [OF fs(8,1) il long])
      qed
      with own show ?thesis by simp
    next
      case False
      then have "q = p1" using il err n [of "?i + 8"]
        by (auto simp: qq rewrite_quoted_def quotes_own_def Let_def sl)
      with False fs(8) show ?thesis by simp
    qed
  next
    case False
    then have "\<not> quotes_own f p" by (auto simp: quotes_own_def Let_def)
    moreover have "q = p1"
    proof (cases "?i + 28 \<le> length p")
      case True
      then have "p1 ! ?i = p ! ?i" using fs(1) by (intro nth_of_drop [OF fs(8)]) simp_all
      with True False c frag proto show ?thesis by (auto simp: q adjust_transport_def proto_consts)
    qed (use c frag proto fs(1) in \<open>auto simp: q adjust_transport_def proto_consts\<close>)
    ultimately show ?thesis using fs(8) by simp
  qed
  show "same_sum (payload_sum q) (payload_sum p)" if c: "\<not> later_fragment p" "p ! 9 = PROTO_ICMP"
  proof (cases "length p1 \<ge> ?i + 8 + 20 \<and> is_icmp_error (p1 ! ?i)")
    case True
    then have "q = rewrite_quoted ?i (opposite f) ?old ?new p1"
      using c frag proto by (simp add: q adjust_transport_def proto_consts)
    moreover have "ihl_of p + 28 \<le> length p1" using True by simp
    ultimately show ?thesis
      using rewrite_quoted_keeps(2) [of ?i p1 ?old ?new, where f = "opposite f"] even ops fs(1,2,5) pay1
      by (simp add: payload_sum_def)
  next
    case False
    then have "q = p1" using c frag proto by (auto simp: q adjust_transport_def proto_consts)
    then show ?thesis using pay1 fs(2,5) by (simp add: payload_sum_def)
  qed
qed

section \<open>The tables of flows\<close>

definition flow_seen :: "('k, flow) table \<Rightarrow> 'k \<Rightarrow> time option" where
  "flow_seen t k = map_option fl_seen (tget t k)"

interpretation rebind_flows: flow_cache flow_seen "remember to pinned :: 'k \<Rightarrow> time \<Rightarrow> ('k, flow) table \<Rightarrow> ('k, flow) table"
  length MAX_FLOWS FLOW_IDLE twf for to pinned
proof
  fix c :: "('k, flow) table" and k now j t
  show "twf c \<Longrightarrow> twf (remember to pinned k now c)"
    by (simp add: remember_def Let_def)
  show "length (remember to pinned k now c) \<le> MAX_FLOWS" if "twf c" "length c \<le> MAX_FLOWS"
    using that tbl.len_retain [of "\<lambda>_ f. now - fl_seen f < FLOW_IDLE" c]
    by (auto simp: remember_def Let_def tbl.len_put not_le)
  show "twf c \<Longrightarrow> flow_seen (remember to pinned k now c) j = Some t \<Longrightarrow>
      flow_seen c j = Some t \<or> (j = k \<and> t = now)"
    by (auto simp: remember_def flow_seen_def Let_def tbl.get_put tbl.get_retain split: if_splits option.splits)
qed

lemma remember_get:
  "twf c \<Longrightarrow> tget (remember to pinned k now c) j = Some fl \<Longrightarrow> tget c j = Some fl \<or> fl_to fl = to"
  by (auto simp: remember_def Let_def tbl.get_put tbl.get_retain split: if_splits option.splits)

text \<open>A full table takes no packet of a flow it holds: neither its time nor its address is refreshed.\<close>

lemma full_table_not_refreshed:
  "length c \<ge> MAX_FLOWS \<Longrightarrow> thas c k \<Longrightarrow> remember to pinned k now c = c"
  by (simp add: remember_def Let_def)

definition table_in :: "ipv4 set \<Rightarrow> ('k, flow) table \<Rightarrow> bool" where
  "table_in A c \<longleftrightarrow> twf c \<and> length c \<le> MAX_FLOWS \<and> (\<forall>k fl. tget c k = Some fl \<longrightarrow> fl_to fl \<in> A)"

lemma remember_in: "table_in A c \<Longrightarrow> to \<in> A \<Longrightarrow> table_in A (remember to pinned k now c)"
  using remember_get [of c to pinned k now] rebind_flows.ok_remember [of c to pinned k now]
    rebind_flows.cap_remember [of c to pinned k now]
  unfolding table_in_def by blast

lemma touch_in: "table_in A c \<Longrightarrow> tget c k = Some fl \<Longrightarrow> table_in A (tput k (fl\<lparr>fl_seen := now\<rparr>) c)"
  unfolding table_in_def by (auto simp: tbl.len_put tbl.get_put)

lemma table_in_mono: "table_in A c \<Longrightarrow> A \<subseteq> B \<Longrightarrow> table_in B c"
  unfolding table_in_def by blast

declare split_paired_All [simp del] split_paired_Ex [simp del]

section \<open>A member's history\<close>

datatype rebind_event =
    Update survey
  | OutPacket bytes ipv4 room_subnet time
  | InPacket bytes ipv4 time

fun apply_rebind :: "rebind_event \<Rightarrow> rebinder \<Rightarrow> rebinder" where
  "apply_rebind (Update sv) r = snd (update sv r)"
| "apply_rebind (OutPacket p room s now) r = snd (snd (outbound p room s now r))"
| "apply_rebind (InPacket p room now) r = snd (inbound p room now r)"

definition survey_addresses :: "survey \<Rightarrow> ipv4 set" where
  "survey_addresses sv = set (sv_locals sv) \<union> rd_address ` set (sv_rebound sv)"

definition rebinder_in :: "ipv4 set \<Rightarrow> rebinder \<Rightarrow> bool" where
  "rebinder_in A r \<longleftrightarrow>
     survey_addresses (rb_survey r) \<subseteq> A \<and> table_in A (rb_flows r) \<and> table_in A (rb_searches r)
     \<and> (\<forall>e\<in>set (rb_fragments r). fst (snd e) \<in> A)"

lemma note_outbound_in:
  "rebinder_in A r \<Longrightarrow> src \<in> A \<Longrightarrow> rebinder_in A (note_outbound src dst packet subnet now r)"
  by (auto simp: note_outbound_def rebinder_in_def Let_def remember_in split: option.splits if_splits)

lemma outbound_in:
  assumes "rebinder_in A r"
  shows "rebinder_in A (snd (snd (outbound p room s now r)))"
proof -
  have "set (sv_locals (rb_survey r)) \<subseteq> A"
    using assms by (simp add: rebinder_in_def survey_addresses_def)
  then show ?thesis
    using assms by (auto simp: outbound_def Let_def split_def split: option.splits intro!: note_outbound_in)
qed

lemma target_in:
  assumes "rebinder_in A r"
  shows "rebinder_in A (snd (target proto lp peer pp now r))"
    and "fst (target proto lp peer pp now r) = Some (to, pinned) \<Longrightarrow> to \<in> A"
proof -
  have fb: "rd_address b \<in> A" if "List.find P (sv_rebound (rb_survey r)) = Some b" for P b
    using find_Some [OF that] assms by (auto simp: rebinder_in_def survey_addresses_def)
  have fl: "fl_to f \<in> A" if "tget (rb_flows r) k = Some f" for k f
    using assms that by (simp add: rebinder_in_def table_in_def)
  have se: "fl_to f \<in> A" if "tget (rb_searches r) k = Some f" for k f
    using assms that by (simp add: rebinder_in_def table_in_def)
  show "rebinder_in A (snd (target proto lp peer pp now r))"
    using assms by (auto simp: target_def Let_def rebinder_in_def touch_in split: option.splits)
  show "fst (target proto lp peer pp now r) = Some (to, pinned) \<Longrightarrow> to \<in> A"
    using fb fl se by (auto simp: target_def Let_def split: option.splits if_splits)
qed

lemma inbound_target_in:
  assumes "rebinder_in A r"
  shows "rebinder_in A (snd (inbound_target p src now r))"
    and "fst (inbound_target p src now r) = Some (to, pinned) \<Longrightarrow> to \<in> A"
proof -
  show "rebinder_in A (snd (inbound_target p src now r))"
    using assms target_in(1) [OF assms] by (auto simp: inbound_target_def Let_def split: option.splits)
  have fr: "a \<in> A" if "tget (rb_fragments r) k = Some (a, b, t)" for k a b t
    using assms tget_in_set [OF that] by (auto simp: rebinder_in_def)
  show "fst (inbound_target p src now r) = Some (to, pinned) \<Longrightarrow> to \<in> A"
    using fr target_in(2) [OF assms]
    by (auto simp: inbound_target_def Let_def split: option.splits if_splits)
qed

lemma fragments_in:
  "rebinder_in A r \<Longrightarrow> to \<in> A \<Longrightarrow>
   rebinder_in A (r\<lparr>rb_fragments := tput k (to, pinned, now) (tretain P (rb_fragments r))\<rparr>)"
  using set_tput_subset [of k "(to, pinned, now)" "tretain P (rb_fragments r)"]
  by (auto simp: rebinder_in_def)

lemma translate_in:
  "rebinder_in A r \<Longrightarrow> to \<in> A \<Longrightarrow> rebinder_in A (snd (translate p src to pinned now r))"
  by (simp add: translate_def Let_def split_def fragments_in)

lemma translate_Some:
  "fst (translate p src to pinned now r) = Some out \<Longrightarrow>
     \<exists>q. rewrite Dst to p = (True, q) \<and> out = (if pinned then set_dscp PINNED_DSCP q else q)"
  by (cases "rewrite Dst to p") (auto simp: translate_def Let_def split: if_splits)

lemma inbound_in:
  assumes "rebinder_in A r"
  shows "rebinder_in A (snd (inbound p room now r))"
proof (cases "ipv4_endpoints p")
  case (Some e)
  obtain src dst where e: "e = (src, dst)" by (cases e)
  obtain t r1 where t: "inbound_target p src now r = (t, r1)" by fastforce
  have r1: "rebinder_in A r1" using inbound_target_in(1) [OF assms, of p src now] t by simp
  have "rebinder_in A (snd (translate p src to pinned now r1))" if "t = Some (to, pinned)" for to pinned
    using inbound_target_in(2) [OF assms, of p src now to pinned] t that r1 by (simp add: translate_in)
  with Some e t r1 assms show ?thesis by (auto simp: inbound_def split: option.splits)
qed (simp add: inbound_def assms)

lemma inbound_Some:
  assumes "fst (inbound p room now r) = Some out" "rebinder_in A r"
  shows "\<exists>src to pinned q. ipv4_endpoints p = Some (src, room) \<and> to \<in> A
          \<and> rewrite Dst to p = (True, q) \<and> out = (if pinned then set_dscp PINNED_DSCP q else q)"
proof -
  from assms(1) obtain src where e: "ipv4_endpoints p = Some (src, room)"
    by (auto simp: inbound_def split: option.splits if_splits)
  obtain t r1 where t: "inbound_target p src now r = (t, r1)" by fastforce
  with assms(1) e obtain to pinned where tp: "t = Some (to, pinned)"
    by (auto simp: inbound_def split: option.splits)
  have "to \<in> A" using inbound_target_in(2) [OF assms(2), of p src now to pinned] t tp by simp
  moreover have "fst (translate p src to pinned now r1) = Some out"
    using assms(1) e t tp by (simp add: inbound_def)
  ultimately show ?thesis using translate_Some e by blast
qed

definition surveyed :: "rebind_event list \<Rightarrow> ipv4 set" where
  "surveyed evs = (\<Union>ev\<in>set evs. case ev of Update sv \<Rightarrow> survey_addresses sv | _ \<Rightarrow> {})"

lemma rebinder_in_mono: "rebinder_in A r \<Longrightarrow> A \<subseteq> B \<Longrightarrow> rebinder_in B r"
  by (auto simp: rebinder_in_def intro: table_in_mono)

lemma surveyed_Update [simp]: "surveyed [Update sv] = survey_addresses sv"
  by (simp add: surveyed_def)

lemma surveyed_packets [simp]: "surveyed [OutPacket p room s now] = {}" "surveyed [InPacket p room now] = {}"
  by (simp_all add: surveyed_def)

lemma update_in: "rebinder_in A r \<Longrightarrow> survey_addresses sv \<subseteq> A \<Longrightarrow> rebinder_in A (snd (update sv r))"
  by (simp add: update_def rebinder_in_def)

lemma apply_rebind_in:
  assumes "rebinder_in A r"
  shows "rebinder_in (A \<union> surveyed [ev]) (apply_rebind ev r)"
proof (cases ev)
  case (Update sv)
  have "rebinder_in (A \<union> survey_addresses sv) r" using assms by (rule rebinder_in_mono) simp
  then have "rebinder_in (A \<union> survey_addresses sv) (snd (update sv r))" by (rule update_in) simp
  with Update show ?thesis by simp
next
  case (OutPacket p room s now)
  with outbound_in [OF assms] show ?thesis by simp
next
  case (InPacket p room now)
  with inbound_in [OF assms] show ?thesis by simp
qed

definition rebinder_after :: "(u16 \<Rightarrow> bool) option \<Rightarrow> rebind_event list \<Rightarrow> rebinder" where
  "rebinder_after pinned evs = fold apply_rebind evs (new_rebinder pinned)"

lemma history_rebind_in: "rebinder_in A r \<Longrightarrow> rebinder_in (A \<union> surveyed evs) (fold apply_rebind evs r)"
proof (induction evs arbitrary: A r)
  case (Cons ev evs)
  from Cons.IH [OF apply_rebind_in [OF Cons.prems, of ev]] show ?case
    by (simp add: surveyed_def Un_assoc)
qed (simp add: surveyed_def)

lemma rebinder_after_in: "rebinder_in (surveyed evs) (rebinder_after pinned evs)"
proof -
  have "rebinder_in {} (new_rebinder pinned)"
    by (simp add: rebinder_in_def new_rebinder_def survey_addresses_def table_in_def table_simps MAX_FLOWS_def)
  from history_rebind_in [OF this, of evs] show ?thesis by (simp add: rebinder_after_def)
qed

section \<open>Setting the DSCP\<close>

lemma set_dscp_keeps:
  assumes "20 \<le> ihl_of p" "ihl_of p \<le> length p"
  shows "length (set_dscp d p) = length p" "same_sum (header_sum (set_dscp d p)) (header_sum p)"
    "drop 12 (set_dscp d p) = drop 12 p" "set_dscp d p ! 0 = p ! 0" "set_dscp d p ! 9 = p ! 9"
proof -
  let ?b = "(push_bit 2 d OR (p ! 1 AND 0x03)) :: u8"
  have len: "20 \<le> length p" using assms by simp
  have w: "p[1 := ?b] = write_at 0 [p ! 0, ?b] p"
    using len by (cases p; cases "tl p") (auto simp: write_at_def)
  have old: "[p ! 0, p ! 1] = slice 0 2 p" using len by (simp add: slice2)
  have new: "p[1 := ?b] ! 0 = p ! 0" "p[1 := ?b] ! 1 = ?b" using len by simp_all
  have def: "set_dscp d p = adjust_at 10 (slice 0 2 p) [p ! 0, ?b] (write_at 0 [p ! 0, ?b] p)"
  proof -
    have "set_dscp d p = adjust_at 10 [p ! 0, p ! 1] [p[1 := ?b] ! 0, p[1 := ?b] ! 1] (p[1 := ?b])"
      using len by (simp add: set_dscp_def Let_def)
    then show ?thesis unfolding new unfolding old w .
  qed
  have l0: "length (write_at 0 [p ! 0, ?b] p) = length p" using assms by simp
  then show l: "length (set_dscp d p) = length p" using assms by (simp add: def)
  show z: "set_dscp d p ! 0 = p ! 0"
    using assms l0 by (simp add: def adjust_at_def nth_write_at) (simp add: write_at_def)
  show "set_dscp d p ! 9 = p ! 9"
    using assms l0 by (simp add: def adjust_at_def nth_write_at)
  have "slice 12 (length p) (set_dscp d p) = slice 12 (length p) p"
    using assms l0 by (simp add: def adjust_at_def slice_write_after)
  then show "drop 12 (set_dscp d p) = drop 12 p" using l by (simp add: slice_def)
  have "same_sum (region_sum 0 (ihl_of p) (set_dscp d p) + word_sum [p ! 0, ?b])
      (region_sum 0 (ihl_of p) (write_at 0 [p ! 0, ?b] p) + word_sum (slice 0 2 p))"
    unfolding def by (rule region_adjust_in) (use assms l0 in \<open>simp_all add: operands_def length_slice\<close>)
  moreover have "region_sum 0 (ihl_of p) (write_at 0 [p ! 0, ?b] p) + word_sum (slice 0 2 p) =
      region_sum 0 (ihl_of p) p + word_sum [p ! 0, ?b]"
    using region_write_in [of 0 0 "[p ! 0, ?b]" "ihl_of p" p] assms by (simp add: numeral_2_eq_2)
  ultimately have "same_sum (region_sum 0 (ihl_of p) (set_dscp d p)) (region_sum 0 (ihl_of p) p)"
    by (rule same_sum_via)
  then show "same_sum (header_sum (set_dscp d p)) (header_sum p)"
    using z by (simp add: header_sum_def ihl_of_def)
qed

section \<open>Endpoints of a translated packet\<close>

lemma endpoints_slices:
  "ipv4_endpoints p = Some (src, dst) \<longleftrightarrow>
     20 \<le> length p \<and> drop_bit 4 (p ! 0) = 4 \<and> \<not> (p ! 0 AND 0x0F) < 5
     \<and> src = of_be (slice 12 4 p) \<and> dst = of_be (slice 16 4 p)"
  by (auto simp: ipv4_endpoints_def slice_def)

lemma endpoints_ihl: "ipv4_endpoints p = Some e \<Longrightarrow> 20 \<le> ihl_of p"
  by (cases e) (auto simp: endpoints_slices ihl_of_def not_less word_le_nat_alt)

lemma rewrite_endpoints:
  assumes "rewrite f to p = (True, q)" "ipv4_endpoints p = Some (src, dst)"
  shows "ipv4_endpoints q = Some (case f of Src \<Rightarrow> (to, dst) | Dst \<Rightarrow> (src, to)) \<and> length q = length p
    \<and> ihl_of q = ihl_of p"
proof -
  have ihl: "20 \<le> ihl_of p" using endpoints_ihl assms(2) by blast
  note len = rewrite_True(1) [OF assms(1) ihl]
  note fs = rewrite_facts [OF ihl len, where f = f and to = to, folded rewrite_True(2) [OF assms(1) ihl]]
  have "q ! 0 = p ! 0" by (rule fs(3)) simp
  then show ?thesis
    using assms(2) fs(2,5,6,7) by (cases f) (simp_all add: endpoints_slices)
qed

lemma rewrite_False: "rewrite f to p = (False, q) \<Longrightarrow> q = p"
  by (auto simp: rewrite_def Let_def split: if_splits)

lemma set_dscp_endpoints:
  assumes "ipv4_endpoints p = Some e" "ihl_of p \<le> length p"
  shows "ipv4_endpoints (set_dscp d p) = Some e"
proof -
  note ihl = endpoints_ihl [OF assms(1)]
  note k = set_dscp_keeps [OF ihl assms(2), of d]
  have "slice 12 4 (set_dscp d p) = slice 12 4 p" using k(3) by (simp add: slice_def)
  moreover have "drop 16 (set_dscp d p) = drop 16 p"
    using arg_cong [OF k(3), of "drop 4"] by simp
  then have "slice 16 4 (set_dscp d p) = slice 16 4 p" by (simp add: slice_def)
  ultimately show ?thesis using assms(1) k(1,4) by (cases e) (simp add: endpoints_slices)
qed

lemma inbound_result:
  assumes "rebinder_in A r" "fst (inbound p room now r) = Some out"
  shows "\<exists>src to. ipv4_endpoints p = Some (src, room) \<and> ipv4_endpoints out = Some (src, to) \<and> to \<in> A
    \<and> length out = length p \<and> same_sum (header_sum out) (header_sum p)"
proof -
  obtain src to pinned q where e: "ipv4_endpoints p = Some (src, room)" and A: "to \<in> A"
    and rw: "rewrite Dst to p = (True, q)" and out: "out = (if pinned then set_dscp PINNED_DSCP q else q)"
    using inbound_Some [OF assms(2,1)] by blast
  have ihl: "20 \<le> ihl_of p" using endpoints_ihl e by blast
  note len = rewrite_True(1) [OF rw ihl]
  have q: "ipv4_endpoints q = Some (src, to)" "length q = length p" "ihl_of q = ihl_of p"
    using rewrite_endpoints [OF rw e] by simp_all
  have "20 \<le> ihl_of q" "ihl_of q \<le> length q" using ihl len q by simp_all
  note k = set_dscp_keeps [OF this, of PINNED_DSCP]
  have hs: "same_sum (header_sum q) (header_sum p)" by (rule rewrite_sums(1) [OF rw ihl])
  then have "same_sum (header_sum out) (header_sum p)" using k(2) out by (auto intro: same_sum_trans)
  moreover have "ipv4_endpoints out = Some (src, to)" using q set_dscp_endpoints out len by auto
  moreover have "length out = length p" using k(1) q out by simp
  ultimately show ?thesis using e A by blast
qed

lemma outbound_result:
  assumes "ipv4_endpoints p = Some (src, dst)" "outbound p room subnet now r = (d, q, r')"
  shows "\<exists>src' dst'. ipv4_endpoints q = Some (src', dst')
     \<and> (src' = src \<or> src' = room \<and> src \<in> set (sv_locals (rb_survey r)))
     \<and> (dst' = dst \<or> dst' = broadcast subnet
          \<and> (dst \<in> set (sv_broadcasts (rb_survey r)) \<or> is_pseudo_broadcast subnet dst))"
proof -
  let ?bc = "dst \<in> set (sv_broadcasts (rb_survey r)) \<or> is_pseudo_broadcast subnet dst"
  obtain b p1 where p1: "(if ?bc then rewrite Dst (broadcast subnet) p else (False, p)) = (b, p1)" by fastforce
  have e1: "\<exists>dst'. ipv4_endpoints p1 = Some (src, dst') \<and> (dst' = dst \<or> dst' = broadcast subnet \<and> ?bc)"
    using p1 assms(1) rewrite_endpoints [of Dst "broadcast subnet" p p1 src dst]
      rewrite_False [of Dst "broadcast subnet" p p1] by (cases b) (auto split: if_splits)
  then obtain dst' where e1: "ipv4_endpoints p1 = Some (src, dst')" and d: "dst' = dst \<or> dst' = broadcast subnet \<and> ?bc"
    by blast
  show ?thesis
  proof (cases "src = room \<or> src \<notin> set (sv_locals (rb_survey r))")
    case True
    then have "q = p1" using assms p1 by (simp add: outbound_def Let_def split_def split: if_splits)
    with e1 d show ?thesis by blast
  next
    case False
    then have q: "q = snd (rewrite Src room p1)"
      using assms p1 by (simp add: outbound_def Let_def split_def split: if_splits)
    show ?thesis
    proof (cases "fst (rewrite Src room p1)")
      case True
      then have "rewrite Src room p1 = (True, q)" by (simp add: q prod_eq_iff)
      from rewrite_endpoints [OF this e1] d False show ?thesis by auto
    next
      case r: False
      then have "rewrite Src room p1 = (False, q)" by (simp add: q prod_eq_iff)
      from rewrite_False [OF this] e1 d show ?thesis by auto
    qed
  qed
qed

section \<open>Properties\<close>


lemma sample_udp_ihl: "ihl_of sample_udp = 20"
  by (simp add: sample_udp_def ihl_of_def)

lemma sample_rewrite: "fst (rewrite Dst 0xC0A80005 sample_udp)"
  by (simp add: rewrite_def Let_def sample_udp_ihl)
     (simp add: sample_udp_def slice_def octets_def to_be_def upt_rec)

text \<open>The far side answering \<open>sample_udp\<close> with "port unreachable", quoting it.\<close>

definition sample_error :: bytes where
  "sample_error = [0x45, 0, 0, 56, 0, 2, 0, 0, 64, 1, 0, 0, 198, 19, 0, 6, 198, 19, 0, 7,
                   3, 3, 0, 0, 0, 0, 0, 0] @ sample_udp"

lemma sample_error_facts:
  "ihl_of sample_error = 20" "length sample_error = 56" "sample_error ! 9 = PROTO_ICMP"
  "\<not> later_fragment sample_error" "quotes_own Dst sample_error" "quoted_ihl 28 sample_error = 20"
  "slice 16 4 sample_error \<noteq> octets 0xC0A80005"
  by (simp_all add: sample_error_def sample_udp_def ihl_of_def proto_consts later_fragment_def read16_def
      be16_def of_be_def quotes_own_def Let_def is_icmp_error_def slice_def quoted_ihl_def
      octets_def to_be_def upt_rec)


text \<open>Translation reaches only this machine's game. In any history of surveys and packets, a packet the
  room delivers is redirected only if it was for the room address, only to an address some survey
  named (one of this machine's own, or where a declared port was found), with its source and length
  kept and its header checksum right; a packet sent into the room keeps its source unless it came from
  one of this machine's own other addresses, which becomes the room address, and keeps its
  destination unless that was a broadcast of another network or a pseudo-broadcast; and neither
  table of flows ever holds more than 4096.
\<close>
theorem translation_confined:
  assumes "r = rebinder_after pinned evs"
  shows "(fst (inbound p room now r) = Some out \<longrightarrow>
      (\<exists>src to. ipv4_endpoints p = Some (src, room) \<and> ipv4_endpoints out = Some (src, to)
         \<and> to \<in> surveyed evs \<and> length out = length p \<and> same_sum (header_sum out) (header_sum p)))
    \<and> (ipv4_endpoints p = Some (src, dst) \<and> outbound p room subnet now r = (d, q, r') \<longrightarrow>
      (\<exists>src' dst'. ipv4_endpoints q = Some (src', dst')
         \<and> (src' = src \<or> src' = room \<and> src \<in> set (sv_locals (rb_survey r)))
         \<and> (dst' = dst \<or> dst' = broadcast subnet
              \<and> (dst \<in> set (sv_broadcasts (rb_survey r)) \<or> is_pseudo_broadcast subnet dst))))
    \<and> length (rb_flows r) \<le> MAX_FLOWS \<and> length (rb_searches r) \<le> MAX_FLOWS"
proof -
  have i: "rebinder_in (surveyed evs) r" using rebinder_after_in by (simp add: assms)
  show ?thesis
    using inbound_result [OF i, of p room now out] outbound_result [of p src dst room subnet now r d q r'] i
    by (auto simp: rebinder_in_def table_in_def)
qed

definition sample_survey :: survey where
  "sample_survey = \<lparr>sv_locals = [0xC0A80005], sv_broadcasts = [],
     sv_rebound = [\<lparr>rd_port = \<lparr>lp_proto = Udp, lp_port = 9900\<rparr>, rd_address = 0xC0A80005, rd_pinned = False\<rparr>]\<rparr>"

lemma sample_endpoints_udp: "ipv4_endpoints sample_udp = Some (0xC6130007, 0xC6130006)"
  by (simp add: sample_udp_def ipv4_endpoints_def of_be_def)

lemma sample_transport: "transport sample_udp = Some (Udp, 8080, 9900)"
  by (simp add: transport_def sample_udp_ihl)
     (simp add: sample_udp_def read16_def be16_def of_be_def lan_proto_of_def proto_consts get_range_def)

lemma sample_translated:
  "fst (inbound sample_udp 0xC6130006 9 (rebinder_after None [Update sample_survey])) =
     Some (snd (rewrite Dst 0xC0A80005 sample_udp))"
proof -
  have "inbound_target sample_udp 0xC6130007 9 (rebinder_after None [Update sample_survey]) =
      (Some (0xC0A80005, False), rebinder_after None [Update sample_survey])"
    by (simp add: inbound_target_def sample_transport Let_def)
       (simp add: sample_udp_def be16_def of_be_def proto_consts target_def rebinder_after_def update_def
          new_rebinder_def sample_survey_def tget_def)
  with sample_rewrite show ?thesis
    by (simp add: inbound_def sample_endpoints_udp translate_def Let_def split_def)
qed

theorem translation_confined_witness:
  "\<exists>src to. ipv4_endpoints (snd (rewrite Dst 0xC0A80005 sample_udp)) = Some (src, to)
     \<and> to \<in> surveyed [Update sample_survey]"
  using translation_confined [OF refl, where pinned = None and evs = "[Update sample_survey]" and p = sample_udp
      and room = "0xC6130006" and now = 9] sample_translated by blast

end
