(* ===== verification/Lan_Probe.thy ===== *)
theory Lan_Probe
  imports Lan_Rebind
begin

text \<open>
  \<^verbatim>\<open>crates/game-bridge/src/lan_check.rs\<close>, the packets of a room check: how a probe is recognised, the
  answer a member sends, the log of what the pump saw. The check that sends probes over a session and
  reports on them is not modelled.
\<close>

definition PROBE_TAG :: bytes where "PROBE_TAG = ascii ''gbl-room-check?1''"
definition REPLY_TAG :: bytes where "REPLY_TAG = ascii ''gbl-room-check!1''"
definition PAYLOAD_LEN :: nat where "PAYLOAD_LEN = 24"
definition FALLBACK_PORT :: u16 where "FALLBACK_PORT = 9"
definition LOG_CAP :: nat where "LOG_CAP = 512"

datatype kind = Probe | Reply

record check_packet =
  cp_kind :: kind
  cp_nonce :: u64
  cp_src :: ipv4
  cp_dst :: ipv4
  cp_sport :: u16
  cp_dport :: u16

definition parse_check :: "bytes \<Rightarrow> check_packet option" where
  "parse_check packet =
     (case ipv4_endpoints packet of
        None \<Rightarrow> None
      | Some (src, dst) \<Rightarrow>
          if packet ! 9 \<noteq> 17 \<or> be16 packet 6 AND 0x3FFF \<noteq> 0 then None
          else case get_range packet (ihl_of packet) (length packet) of
            None \<Rightarrow> None
          | Some udp \<Rightarrow>
              if length udp \<noteq> 8 + PAYLOAD_LEN \<or> unat (be16 udp 4) \<noteq> length udp then None
              else let payload = drop 8 udp;
                       done_with = (\<lambda>k. Some \<lparr>cp_kind = k, cp_nonce = of_be (take 8 (drop 16 payload)),
                           cp_src = src, cp_dst = dst, cp_sport = be16 udp 0, cp_dport = be16 udp 2\<rparr>)
                   in if take 16 payload = PROBE_TAG then done_with Probe
                      else if take 16 payload = REPLY_TAG then done_with Reply
                      else None)"

section \<open>Building a packet\<close>

text \<open>The sum of one byte run; the loop \<open>while sum > 0xffff\<close> is \<open>fold16\<close>.\<close>

fun sum_run :: "u32 \<Rightarrow> bytes \<Rightarrow> u32" where
  "sum_run acc (a # b # r) = sum_run (acc + ucast (of_be [a, b] :: u16)) r"
| "sum_run acc [z] = acc + push_bit 8 (ucast z)"
| "sum_run acc [] = acc"

definition checksum :: "bytes list \<Rightarrow> u16" where
  "checksum parts = NOT (ucast (fold16 (foldl sum_run 0 parts)))"

definition ip_header :: "nat \<Rightarrow> u16 \<Rightarrow> ipv4 \<Rightarrow> ipv4 \<Rightarrow> bytes" where
  "ip_header tot csum src dst =
     [0x45, 0] @ to_be 2 (of_nat tot :: u16) @ [0, 0, 0, 0, 64, 17] @ to_be 2 csum @ octets src @ octets dst"

definition udp_header :: "u16 \<Rightarrow> u16 \<Rightarrow> nat \<Rightarrow> u16 \<Rightarrow> bytes" where
  "udp_header sport dport udp_len csum =
     to_be 2 sport @ to_be 2 dport @ to_be 2 (of_nat udp_len :: u16) @ to_be 2 csum"

definition udp_packet :: "ipv4 \<Rightarrow> ipv4 \<Rightarrow> u16 \<Rightarrow> u16 \<Rightarrow> bytes \<Rightarrow> bytes" where
  "udp_packet src dst sport dport payload =
     (let udp_len = 8 + length payload;
          tot = 20 + udp_len;
          ip_sum = checksum [ip_header tot 0 src dst];
          pseudo = octets src @ octets dst @ [0, 17] @ to_be 2 (of_nat udp_len :: u16);
          udp_sum = checksum [pseudo, udp_header sport dport udp_len 0 @ payload];
          udp_sum = (if udp_sum = 0 then 0xFFFF else udp_sum)
      in ip_header tot ip_sum src dst @ udp_header sport dport udp_len udp_sum @ payload)"

definition answer :: "bytes \<Rightarrow> ipv4 \<Rightarrow> bytes option" where
  "answer packet own =
     (case parse_check packet of
        None \<Rightarrow> None
      | Some p \<Rightarrow>
          if cp_kind p \<noteq> Probe \<or> cp_src p = own then None
          else Some (udp_packet own (cp_src p) (cp_dport p) (cp_sport p) (REPLY_TAG @ to_be 8 (cp_nonce p))))"

definition is_probe :: "bytes \<Rightarrow> bool" where
  "is_probe packet = (case parse_check packet of None \<Rightarrow> False | Some p \<Rightarrow> cp_kind p = Probe)"

definition probe_port :: "lan_policy \<Rightarrow> u16 option" where
  "probe_port policy =
     (case List.find (\<lambda>p. lp_proto p = Udp) (po_ports policy) of
        Some p \<Rightarrow> Some (lp_port p)
      | None \<Rightarrow> if po_any policy then Some FALLBACK_PORT else None)"

section \<open>The probe log\<close>

record probe_log =
  pl_left :: "(u64, time) table"
  pl_delivered :: "(u64, ipv4 list) table"

definition new_probe_log :: probe_log where
  "new_probe_log = \<lparr>pl_left = [], pl_delivered = []\<rparr>"

definition saw_outbound :: "bytes \<Rightarrow> time \<Rightarrow> probe_log \<Rightarrow> probe_log" where
  "saw_outbound packet now log =
     (case parse_check packet of
        None \<Rightarrow> log
      | Some p \<Rightarrow>
          if cp_kind p = Probe
          then let kept = (if length (pl_left log) \<ge> LOG_CAP then [] else pl_left log)
               in log\<lparr>pl_left := tput (cp_nonce p) now kept\<rparr>
          else log)"

definition saw_delivered :: "bytes \<Rightarrow> probe_log \<Rightarrow> probe_log" where
  "saw_delivered packet log =
     (case parse_check packet of
        None \<Rightarrow> log
      | Some p \<Rightarrow>
          if cp_kind p = Reply
          then let kept = (if length (pl_delivered log) \<ge> LOG_CAP then [] else pl_delivered log);
                   seen = (case tget kept (cp_nonce p) of None \<Rightarrow> [] | Some s \<Rightarrow> s)
               in log\<lparr>pl_delivered := tput (cp_nonce p) (seen @ [cp_src p]) kept\<rparr>
          else log)"

definition probe_left :: "u64 \<Rightarrow> probe_log \<Rightarrow> bool" where
  "probe_left nonce log \<longleftrightarrow> thas (pl_left log) nonce"

definition probe_delivered :: "u64 \<Rightarrow> probe_log \<Rightarrow> ipv4 list" where
  "probe_delivered nonce log = (case tget (pl_delivered log) nonce of None \<Rightarrow> [] | Some s \<Rightarrow> s)"

lemma probe_log_bounded:
  "length (pl_left log) \<le> LOG_CAP \<Longrightarrow> length (pl_left (saw_outbound p now log)) \<le> LOG_CAP"
  "length (pl_delivered log) \<le> LOG_CAP \<Longrightarrow> length (pl_delivered (saw_delivered p log)) \<le> LOG_CAP"
  by (auto simp: saw_outbound_def saw_delivered_def Let_def tbl.len_put LOG_CAP_def split: option.splits)

section \<open>Checksums of a built packet\<close>

lemma word_sum_bound: "word_sum xs \<le> 65535 * length xs"
proof (induction xs rule: word_sum.induct)
  case (1 a b r)
  then show ?case using unat_u8_less [of a] unat_u8_less [of b] by simp
next
  case (2 a)
  then show ?case using unat_u8_less [of a] by simp
qed simp

lemma unat_sum_run:
  "unat acc + word_sum xs < 4294967296 \<Longrightarrow> unat (sum_run acc xs) = unat acc + word_sum xs"
proof (induction acc xs rule: sum_run.induct)
  case (1 acc a b r)
  have u: "unat (ucast (of_be [a, b] :: u16) :: u32) = unat a * 256 + unat b"
    by (subst unat_ucast_up) (simp_all add: of_be_pair)
  then have "unat (acc + ucast (of_be [a, b] :: u16)) = unat acc + (unat a * 256 + unat b)"
    using "1.prems" by (simp add: unat_word_ariths)
  with 1 show ?case by simp
next
  case (2 acc z)
  have "unat (push_bit 8 (ucast z :: u32)) = unat z * 256"
    using unat_u8_less [of z] by (simp add: push_bit_eq_mult unat_word_ariths unat_ucast_up mult.commute)
  with 2 show ?case by (simp add: unat_word_ariths)
qed simp

lemma unat_sum_runs:
  "unat acc + sum_list (map word_sum parts) < 4294967296 \<Longrightarrow>
     unat (foldl sum_run acc parts) = unat acc + sum_list (map word_sum parts)"
proof (induction parts arbitrary: acc)
  case (Cons p parts)
  then have "unat (sum_run acc p) = unat acc + word_sum p" by (intro unat_sum_run) simp
  with Cons show ?case by simp
qed simp

lemma checksum_zero:
  assumes "sum_list (map word_sum parts) < 4294967296"
  shows "same_sum (unat (checksum parts) + sum_list (map word_sum parts)) 0"
proof -
  let ?acc = "foldl sum_run 0 parts"
  have a: "unat ?acc = sum_list (map word_sum parts)" using unat_sum_runs [of 0 parts] assms by simp
  have f: "same_sum (unat (fold16 ?acc)) (unat ?acc)" "unat (fold16 ?acc) < 65536"
    using fold16_same [of ?acc] by simp_all
  then have "unat (ucast (fold16 ?acc) :: u16) = unat (fold16 ?acc)"
    by (simp add: unsigned_ucast_eq take_bit_nat_eq_self_iff)
  then have c: "unat (checksum parts) = 65535 - unat (fold16 ?acc)"
    by (simp add: checksum_def unat_not16)
  obtain k where "int (unat (fold16 ?acc)) = int (unat ?acc) + 65535 * k"
    using f(1) by (auto simp: same_sum_int)
  then have "int (unat (checksum parts) + sum_list (map word_sum parts)) = int 0 + 65535 * (1 - k)"
    using c f(2) a by (simp add: of_nat_diff)
  then show ?thesis unfolding same_sum_int by blast
qed

lemma word_sum_parts:
  "word_sum (ip_header tot c src dst) = word_sum (ip_header tot 0 src dst) + unat c"
  "word_sum (udp_header sport dport n c @ payload) = word_sum (udp_header sport dport n 0 @ payload) + unat c"
  by (simp_all add: ip_header_def udp_header_def word_sum_append word_sum_to_be)

lemma length_headers [simp]:
  "length (ip_header tot c src dst) = 20" "length (udp_header sport dport n c) = 8"
  by (simp_all add: ip_header_def udp_header_def)

lemma length_udp_packet [simp]: "length (udp_packet src dst sport dport payload) = 28 + length payload"
  by (simp add: udp_packet_def Let_def)

lemma word_sum_small: "length xs \<le> 60000 \<Longrightarrow> word_sum xs \<le> 3932100000"
  using word_sum_bound [of xs] by simp

lemma never_zero_same:
  "same_sum (unat u + m) 0 \<Longrightarrow> same_sum (unat (if u = 0 then 0xFFFF else u) + m) 0" for u :: u16
  by (cases "u = 0") (simp_all add: same_sum_def)

lemma built_udp_sum:
  assumes small: "length payload \<le> 1000"
    and uc: "uc = checksum [pseudo, udp_header sport dport (8 + length payload) 0 @ payload]"
    and pseudo: "pseudo = octets src @ octets dst @ [0, 17] @ to_be 2 (of_nat (8 + length payload) :: u16)"
  shows "same_sum (word_sum (octets src @ octets dst) + 17 + (8 + length payload)
           + word_sum (udp_header sport dport (8 + length payload) (if uc = 0 then 0xFFFF else uc) @ payload)) 0"
proof -
  define seg where "seg = udp_header sport dport (8 + length payload) 0 @ payload"
  have n: "unat (of_nat (8 + length payload) :: u16) = 8 + length payload"
    using small by (intro unat_of_nat_u16) simp
  have ps: "word_sum pseudo = word_sum (octets src @ octets dst) + 17 + (8 + length payload)"
    unfolding pseudo using n by (simp add: word_sum_append word_sum_to_be del: of_nat_add)
  have lp: "length pseudo = 12" unfolding pseudo by simp
  have ls: "length seg \<le> 1008" unfolding seg_def using small by simp
  have b: "sum_list (map word_sum [pseudo, seg]) < 4294967296"
    using word_sum_bound [of pseudo] word_sum_bound [of seg] lp ls by simp
  have "same_sum (unat uc + (word_sum pseudo + word_sum seg)) 0"
    using checksum_zero [OF b] by (simp add: uc seg_def)
  from never_zero_same [OF this]
  show ?thesis unfolding word_sum_parts(2) [of _ _ _ "if uc = 0 then 0xFFFF else uc"] ps seg_def [symmetric]
    by (simp only: ac_simps)
qed

text \<open>The fields of a built packet.\<close>

lemma udp_packet_shape:
  obtains ic uc where
    "udp_packet src dst sport dport payload =
       ip_header (28 + length payload) ic src dst @ udp_header sport dport (8 + length payload) uc @ payload"
    "same_sum (word_sum (ip_header (28 + length payload) ic src dst)) 0"
    "length payload \<le> 1000 \<Longrightarrow>
       same_sum (word_sum (octets src @ octets dst) + 17 + (8 + length payload)
                 + word_sum (udp_header sport dport (8 + length payload) uc @ payload)) 0"
proof -
  define ic where "ic = checksum [ip_header (28 + length payload) 0 src dst]"
  define pseudo where "pseudo = octets src @ octets dst @ [0, 17] @ to_be 2 (of_nat (8 + length payload) :: u16)"
  define uc where "uc = checksum [pseudo, udp_header sport dport (8 + length payload) 0 @ payload]"
  have t: "20 + (8 + length payload) = 28 + length payload" by simp
  have shape: "udp_packet src dst sport dport payload =
      ip_header (28 + length payload) ic src dst
        @ udp_header sport dport (8 + length payload) (if uc = 0 then 0xFFFF else uc) @ payload"
    unfolding udp_packet_def Let_def t ic_def uc_def pseudo_def by (rule refl)
  have "sum_list (map word_sum [ip_header (28 + length payload) 0 src dst]) < 4294967296"
    using word_sum_bound [of "ip_header (28 + length payload) 0 src dst"] by simp
  from checksum_zero [OF this]
  have ip: "same_sum (word_sum (ip_header (28 + length payload) ic src dst)) 0"
    unfolding word_sum_parts(1) [of "28 + length payload" ic src dst] ic_def [symmetric]
    by (simp add: add.commute)
  show thesis by (rule that [OF shape ip built_udp_sum [OF _ uc_def pseudo_def]])
qed

lemma header_fields:
  "length h = 20 \<Longrightarrow> i < 20 \<Longrightarrow> (h @ r) ! i = h ! i"
  by (simp add: nth_append)

lemma ip_header_nth:
  "ip_header t c s d ! 0 = 0x45" "ip_header t c s d ! 6 = 0" "ip_header t c s d ! 7 = 0"
  "ip_header t c s d ! 9 = 17" "take 4 (drop 12 (ip_header t c s d)) = octets s"
  "take 4 (drop 16 (ip_header t c s d)) = octets d"
  by (simp_all add: ip_header_def nth_append)

lemma be16_to_be: "be16 (to_be 2 w @ r) 0 = (w :: u16)"
proof -
  obtain a b where ab: "to_be 2 w = [a, b]"
    using length_to_be [of 2 w] by (cases "to_be 2 w"; cases "tl (to_be 2 w)") auto
  moreover have "of_be (to_be 2 w) = w" by simp
  ultimately show ?thesis by (simp add: be16_def)
qed

lemma be16_drop: "be16 (xs @ ys) (length xs + i) = be16 ys i"
  by (simp add: be16_def nth_append)

lemma udp_header_fields:
  "be16 (udp_header sp dp n c @ payload) 0 = sp"
  "be16 (udp_header sp dp n c @ payload) 2 = dp"
  "be16 (udp_header sp dp n c @ payload) 4 = of_nat n"
  "be16 (udp_header sp dp n c @ payload) 6 = c"
proof -
  let ?n = "to_be 2 (of_nat n :: u16)"
  show "be16 (udp_header sp dp n c @ payload) 0 = sp"
    by (simp add: udp_header_def be16_to_be)
  show "be16 (udp_header sp dp n c @ payload) 2 = dp"
    using be16_drop [of "to_be 2 sp" "to_be 2 dp @ ?n @ to_be 2 c @ payload" 0]
    by (simp add: udp_header_def be16_to_be)
  show "be16 (udp_header sp dp n c @ payload) 4 = of_nat n"
    using be16_drop [of "to_be 2 sp @ to_be 2 dp" "?n @ to_be 2 c @ payload" 0]
    by (simp add: udp_header_def be16_to_be)
  show "be16 (udp_header sp dp n c @ payload) 6 = c"
    using be16_drop [of "to_be 2 sp @ to_be 2 dp @ ?n" "to_be 2 c @ payload" 0]
    by (simp add: udp_header_def be16_to_be)
qed

lemma reply_tag [simp]: "length REPLY_TAG = 16" "REPLY_TAG \<noteq> PROBE_TAG"
  by (simp_all add: REPLY_TAG_def PROBE_TAG_def ascii_def)

lemma parse_built:
  assumes "p = ip_header (28 + length payload) ic src dst @ udp_header sport dport (8 + length payload) uc @ payload"
    "payload = REPLY_TAG @ to_be 8 nonce"
  shows "ipv4_endpoints p = Some (src, dst)" "ihl_of p = 20"
    and "parse_check p = Some \<lparr>cp_kind = Reply, cp_nonce = nonce, cp_src = src, cp_dst = dst,
            cp_sport = sport, cp_dport = dport\<rparr>"
proof -
  have len: "length payload = 24" using assms(2) by simp
  have h: "p ! 0 = 0x45" "p ! 6 = 0" "p ! 7 = 0" "p ! 9 = 17"
    using ip_header_nth unfolding assms(1) by (simp_all add: header_fields)
  have sd: "take 4 (drop 12 p) = octets src" "take 4 (drop 16 p) = octets dst"
    using ip_header_nth(5,6) unfolding assms(1) by simp_all
  show e: "ipv4_endpoints p = Some (src, dst)"
    using h sd len by (simp add: ipv4_endpoints_def assms(1) header_fields)
  show i: "ihl_of p = 20" using h by (simp add: ihl_of_def)
  have b6: "be16 p 6 = 0" using h by (simp add: be16_def of_be_def)
  have d: "drop 20 p = udp_header sport dport (8 + length payload) uc @ payload" by (simp add: assms(1))
  have "get_range p (ihl_of p) (length p) = Some (udp_header sport dport (8 + length payload) uc @ payload)"
    using d by (simp add: get_range_def i) (simp add: assms(1))
  then show "parse_check p = Some \<lparr>cp_kind = Reply, cp_nonce = nonce, cp_src = src, cp_dst = dst,
            cp_sport = sport, cp_dport = dport\<rparr>"
    using h(4) b6 len by (simp add: parse_check_def e PAYLOAD_LEN_def udp_header_fields Let_def)
      (simp add: assms(2))
qed

section \<open>Properties\<close>

lemma answer_facts:
  assumes "parse_check packet = Some p" "cp_kind p = Probe" "cp_src p \<noteq> own"
  obtains reply where "answer packet own = Some reply"
    "parse_check reply = Some \<lparr>cp_kind = Reply, cp_nonce = cp_nonce p, cp_src = own, cp_dst = cp_src p,
        cp_sport = cp_dport p, cp_dport = cp_sport p\<rparr>"
    "length reply = 52" "same_sum (header_sum reply) 0" "same_sum (pseudo_sum reply + payload_sum reply) 0"
proof -
  let ?pay = "REPLY_TAG @ to_be 8 (cp_nonce p)"
  let ?reply = "udp_packet own (cp_src p) (cp_dport p) (cp_sport p) ?pay"
  obtain ic uc where shape: "?reply = ip_header (28 + length ?pay) ic own (cp_src p)
        @ udp_header (cp_dport p) (cp_sport p) (8 + length ?pay) uc @ ?pay"
    and ip: "same_sum (word_sum (ip_header (28 + length ?pay) ic own (cp_src p))) 0"
    and udp: "length ?pay \<le> 1000 \<Longrightarrow> same_sum (word_sum (octets own @ octets (cp_src p)) + 17 + (8 + length ?pay)
                 + word_sum (udp_header (cp_dport p) (cp_sport p) (8 + length ?pay) uc @ ?pay)) 0"
    using udp_packet_shape [of own "cp_src p" "cp_dport p" "cp_sport p" ?pay] by metis
  note b = parse_built [OF shape refl]
  have hs: "header_sum ?reply = word_sum (ip_header (28 + length ?pay) ic own (cp_src p))"
    unfolding header_sum_def region_sum_def b(2) by (subst shape) (simp add: slice_def)
  have ends: "slice 12 8 ?reply = octets own @ octets (cp_src p)"
  proof -
    have "drop 12 (ip_header (28 + length ?pay) ic own (cp_src p)) = octets own @ octets (cp_src p)"
      by (simp add: ip_header_def)
    then show ?thesis by (subst shape) (simp add: slice_def)
  qed
  have nine: "?reply ! 9 = 17" by (subst shape) (simp add: header_fields ip_header_nth)
  have tail: "drop 20 ?reply = udp_header (cp_dport p) (cp_sport p) (8 + length ?pay) uc @ ?pay"
    by (subst shape) simp
  have ps: "pseudo_sum ?reply + payload_sum ?reply = word_sum (octets own @ octets (cp_src p)) + 17 + (8 + length ?pay)
                 + word_sum (udp_header (cp_dport p) (cp_sport p) (8 + length ?pay) uc @ ?pay)"
    unfolding pseudo_sum_def payload_sum_def region_sum_def b(2)
    using ends nine tail by (simp add: slice_def)
  show ?thesis
    by (rule that [of ?reply]) (use assms b(3) ip udp in \<open>simp_all add: answer_def hs ps\<close>)
qed

text \<open>Answering a room check. Every probe another member sends is answered, with the probe's nonce, from
  the member's own address and the port the probe came in on, back to the probe's source; the answer
  is recognised as a reply and never as a probe, so it is not answered again, and its IP and UDP
  checksums are right.
\<close>
theorem probe_answered:
  assumes "parse_check packet = Some p" "cp_kind p = Probe" "cp_src p \<noteq> own"
  shows "\<exists>reply. answer packet own = Some reply
    \<and> parse_check reply = Some \<lparr>cp_kind = Reply, cp_nonce = cp_nonce p, cp_src = own, cp_dst = cp_src p,
          cp_sport = cp_dport p, cp_dport = cp_sport p\<rparr>
    \<and> answer reply (cp_src p) = None \<and> \<not> is_probe reply
    \<and> same_sum (header_sum reply) 0 \<and> same_sum (pseudo_sum reply + payload_sum reply) 0"
  by (rule answer_facts [OF assms]) (auto simp: answer_def is_probe_def)

definition sample_probe :: bytes where
  "sample_probe = [0x45, 0, 0, 52, 0, 0, 0, 0, 64, 17, 0, 0, 198, 19, 0, 7, 198, 19, 0, 6,
                   0x1F, 0x90, 0x26, 0xAC, 0, 32, 0, 0] @ PROBE_TAG @ [0, 0, 0, 0, 0, 0, 0, 5]"

lemma length_probe_tag: "length PROBE_TAG = 16"
  by (simp add: PROBE_TAG_def ascii_def)

lemma sample_probe_parse:
  "parse_check sample_probe = Some \<lparr>cp_kind = Probe, cp_nonce = 5, cp_src = 0xC6130007,
     cp_dst = 0xC6130006, cp_sport = 8080, cp_dport = 9900\<rparr>"
  by (simp add: sample_probe_def parse_check_def ipv4_endpoints_def of_be_def ihl_of_def be16_def
      get_range_def PAYLOAD_LEN_def length_probe_tag Let_def)

theorem probe_answered_witness:
  "\<exists>reply. answer sample_probe 0xC6130006 = Some reply \<and> \<not> is_probe reply"
  using probe_answered [OF sample_probe_parse, of "0xC6130006"] by auto

end
