(* ===== verification/Lan_Pump.thy ===== *)
theory Lan_Pump
  imports Lan_Probe
begin

text \<open>
  \<^verbatim>\<open>crates/game-bridge/src/lan_pump.rs\<close>: the pump between a member's adapter and the room. One packet
  read from the adapter is \<open>pump_up\<close>, one packet the room delivers is \<open>pump_down\<close>, one round of the
  survey watch is \<open>watch_visit\<close>; the pump runs the three in one task, so a history is a sequence of
  them. What the session knows (own address, subnet, extra ports) is the \<open>room_view\<close> each step reads;
  the session's send, the adapter, the survey (\<^verbatim>\<open>lan_rebind::survey\<close>) and the firewall watch
  (\<^verbatim>\<open>lan_firewall.rs\<close>, which only reports) are outside. A step reads the clock once.
\<close>

definition SURVEY_EVERY :: duration where "SURVEY_EVERY = secs 2"
definition RESURVEY_FLOOR :: duration where "RESURVEY_FLOOR = millis 250"

record room_view =
  rv_own :: "ipv4 option"
  rv_subnet :: room_subnet
  rv_extra :: extra_ports

record pump =
  pm_filter :: lan_filter
  pm_rebinder :: rebinder
  pm_refused :: refused_log
  pm_probes :: probe_log

definition new_pump :: "lan_policy \<Rightarrow> (u16 \<Rightarrow> bool) option \<Rightarrow> pump" where
  "new_pump policy pinned =
     \<lparr>pm_filter = new_filter policy, pm_rebinder = new_rebinder pinned, pm_refused = [],
      pm_probes = new_probe_log\<rparr>"

section \<open>What the pump looks for in a packet\<close>

definition is_chatter_broadcast :: "bytes \<Rightarrow> room_subnet \<Rightarrow> bool" where
  "is_chatter_broadcast packet subnet =
     (case ipv4_endpoints packet of
        None \<Rightarrow> False
      | Some (_, dst) \<Rightarrow>
          let ihl = ihl_of packet;
              first = (be16 packet 6 AND 0x1FFF = 0)
          in is_broadcast subnet dst \<and> packet ! 9 = 17 \<and> first
             \<and> (case get_range packet (ihl + 2) (ihl + 4) of
                  None \<Rightarrow> False
                | Some p \<Rightarrow> is_os_chatter (be16 p 0)))"

text \<open>The tail of \<open>own_port_unreachable\<close>: the quoted datagram and its destination port.\<close>

definition quoted_udp_port :: "bytes \<Rightarrow> ipv4 \<Rightarrow> u16 option" where
  "quoted_udp_port quoted own =
     (case ipv4_endpoints quoted of
        None \<Rightarrow> None
      | Some (_, quoted_dst) \<Rightarrow>
          if quoted_dst \<noteq> own \<or> quoted ! 9 \<noteq> PROTO_UDP then None
          else if be16 quoted 6 AND 0x1FFF \<noteq> 0 then None
          else let quoted_ihl = ihl_of quoted in
            map_option (\<lambda>udp. be16 udp 2) (get_range quoted quoted_ihl (quoted_ihl + 8)))"

definition own_port_unreachable :: "bytes \<Rightarrow> ipv4 \<Rightarrow> u16 option" where
  "own_port_unreachable packet own =
     (case ipv4_endpoints packet of
        None \<Rightarrow> None
      | Some (src, _) \<Rightarrow>
          if src \<noteq> own \<or> packet ! 9 \<noteq> PROTO_ICMP \<or> be16 packet 6 AND 0x1FFF \<noteq> 0 then None
          else (case get_range packet (ihl_of packet) (length packet) of
                  None \<Rightarrow> None
                | Some icmp \<Rightarrow>
                    if length icmp < 8 \<or> icmp ! 0 \<noteq> 3 \<or> icmp ! 1 \<noteq> 3 then None
                    else quoted_udp_port (drop 8 icmp) own))"

section \<open>Packets from the adapter\<close>

datatype up_action =
    Sent bytes                      \<comment> \<open>handed to the session\<close>
  | ForeignSource                   \<comment> \<open>not from this member's address\<close>
  | Resurvey u16                    \<comment> \<open>a late survey's error: swallowed, and the watch woken\<close>
  | CopiedChatter                   \<comment> \<open>another network's chatter\<close>
  | CopiedRefused                   \<comment> \<open>another network's broadcast the filter refused\<close>
  | BroadcastRefused "refused option"

definition filter_up :: "bytes \<Rightarrow> bool \<Rightarrow> room_view \<Rightarrow> time \<Rightarrow> pump \<Rightarrow> up_action \<times> pump" where
  "filter_up packet copied room now p =
     (let (allowed, f) = Lan_Filter.outbound packet (rv_subnet room) now (sync_extra (rv_extra room) (pm_filter p));
          p = p\<lparr>pm_filter := f\<rparr>
      in if \<not> allowed then
           (if copied then (CopiedRefused, p)
            else let (new, log) = saw OutboundBroadcast packet now (pm_refused p)
                 in (BroadcastRefused new, p\<lparr>pm_refused := log\<rparr>))
         else (Sent packet, p\<lparr>pm_probes := saw_outbound packet now (pm_probes p)\<rparr>))"

definition late_survey :: "bytes \<Rightarrow> ipv4 \<Rightarrow> room_view \<Rightarrow> pump \<Rightarrow> u16 option \<times> pump" where
  "late_survey packet own room p =
     (case own_port_unreachable packet own of
        None \<Rightarrow> (None, p)
      | Some port \<Rightarrow>
          let f = sync_extra (rv_extra room) (pm_filter p)
          in (if admits f Udp port then Some port else None, p\<lparr>pm_filter := f\<rparr>))"

definition pump_up :: "bytes \<Rightarrow> room_view \<Rightarrow> time \<Rightarrow> pump \<Rightarrow> up_action \<times> pump" where
  "pump_up packet room now p =
     (case rv_own room of
        None \<Rightarrow> filter_up packet False room now p
      | Some own \<Rightarrow>
          let (translated, packet, r) = Lan_Rebind.outbound packet own (rv_subnet room) now (pm_rebinder p);
              p = p\<lparr>pm_rebinder := r\<rparr>
          in if (case ipv4_endpoints packet of Some (src, _) \<Rightarrow> src \<noteq> own | None \<Rightarrow> False)
             then (ForeignSource, p)
             else let (swallowed, p) = late_survey packet own room p in
               (case swallowed of
                  Some port \<Rightarrow> (Resurvey port, p)
                | None \<Rightarrow>
                    if od_source translated \<and> is_chatter_broadcast packet (rv_subnet room)
                    then (CopiedChatter, p)
                    else filter_up packet (od_source translated) room now p))"

section \<open>Packets from the room\<close>

datatype down_action =
    Delivered bytes                 \<comment> \<open>written to the adapter\<close>
  | SomeoneElse
  | NotAdmitted "refused option"
  | Answered "bytes option"         \<comment> \<open>a room check's probe, and the answer sent back\<close>

definition for_us :: "bytes \<Rightarrow> room_view \<Rightarrow> bool" where
  "for_us packet room =
     (case ipv4_endpoints packet of
        None \<Rightarrow> False
      | Some (_, dst) \<Rightarrow> Some dst = rv_own room \<or> is_broadcast (rv_subnet room) dst \<or> multicast dst)"

definition deliver :: "bytes \<Rightarrow> room_view \<Rightarrow> time \<Rightarrow> pump \<Rightarrow> down_action \<times> pump" where
  "deliver packet room now p =
     (let (translated, r) = (case rv_own room of
            None \<Rightarrow> (None, pm_rebinder p)
          | Some own \<Rightarrow> Lan_Rebind.inbound packet own now (pm_rebinder p))
      in (Delivered (case translated of None \<Rightarrow> packet | Some q \<Rightarrow> q),
          p\<lparr>pm_rebinder := r, pm_probes := saw_delivered packet (pm_probes p)\<rparr>))"

definition pump_down :: "bytes \<Rightarrow> room_view \<Rightarrow> time \<Rightarrow> pump \<Rightarrow> down_action \<times> pump" where
  "pump_down packet room now p =
     (let (allowed, f) = Lan_Filter.inbound packet now (sync_extra (rv_extra room) (pm_filter p));
          p = p\<lparr>pm_filter := f\<rparr>
      in if \<not> for_us packet room then (SomeoneElse, p)
         else if \<not> allowed then
           (let (new, log) = saw Inbound packet now (pm_refused p)
            in (NotAdmitted new, p\<lparr>pm_refused := log\<rparr>))
         else if is_probe packet then
           (Answered (case rv_own room of None \<Rightarrow> None | Some own \<Rightarrow> answer packet own), p)
         else deliver packet room now p)"

section \<open>The watch\<close>

definition watched_ports :: "lan_policy \<Rightarrow> extra_ports \<Rightarrow> lan_port list" where
  "watched_ports policy extra =
     (if po_any policy then []
      else foldl (\<lambda>ports p. if p \<in> set ports then ports else ports @ [p]) (po_ports policy) (ep_ports extra))"

text \<open>One visit: the ports to look for, the survey's answer, and what changed (\<open>set_rebound\<close>).\<close>

definition watch_visit :: "(ipv4 \<Rightarrow> lan_port list \<Rightarrow> survey) \<Rightarrow> lan_policy \<Rightarrow> room_view \<Rightarrow> pump
    \<Rightarrow> rebound list option \<times> pump" where
  "watch_visit survey policy room p =
     (case rv_own room of
        None \<Rightarrow> (None, p)
      | Some own \<Rightarrow>
          let (changed, r) = update (survey own (watched_ports policy (rv_extra room))) (pm_rebinder p)
          in (if changed then Some (sv_rebound (rb_survey r)) else None, p\<lparr>pm_rebinder := r\<rparr>))"

text \<open>How long a survey asked for out of turn waits.\<close>

definition resurvey_wait :: "time option \<Rightarrow> time \<Rightarrow> duration" where
  "resurvey_wait last_survey now =
     (let since = (case last_survey of None \<Rightarrow> RESURVEY_FLOOR | Some at \<Rightarrow> now - at)
      in if since < RESURVEY_FLOOR then RESURVEY_FLOOR - since else 0)"

lemma resurvey_spaced:
  "last_survey \<le> now \<Longrightarrow> last_survey + RESURVEY_FLOOR \<le> now + resurvey_wait (Some last_survey) now"
  by (auto simp: resurvey_wait_def Let_def)

section \<open>A pump's history\<close>

datatype pump_event =
    Up bytes room_view time
  | Down bytes room_view time
  | Watch survey room_view

fun apply_pump :: "lan_policy \<Rightarrow> pump_event \<Rightarrow> pump \<Rightarrow> pump" where
  "apply_pump policy (Up packet room now) p = snd (pump_up packet room now p)"
| "apply_pump policy (Down packet room now) p = snd (pump_down packet room now p)"
| "apply_pump policy (Watch sv room) p = snd (watch_visit (\<lambda>_ _. sv) policy room p)"

definition pump_after :: "lan_policy \<Rightarrow> (u16 \<Rightarrow> bool) option \<Rightarrow> pump_event list \<Rightarrow> pump" where
  "pump_after policy pinned evs = fold (apply_pump policy) evs (new_pump policy pinned)"

text \<open>Every step reads extra ports only a player's own calls made.\<close>

definition honest_room :: "room_view \<Rightarrow> bool" where
  "honest_room room \<longleftrightarrow> (\<exists>ops. rv_extra room = extra_after ops)"

fun event_room :: "pump_event \<Rightarrow> room_view" where
  "event_room (Up _ room _) = room"
| "event_room (Down _ room _) = room"
| "event_room (Watch _ room) = room"

definition pump_surveyed :: "pump_event list \<Rightarrow> ipv4 set" where
  "pump_surveyed evs = (\<Union>ev\<in>set evs. case ev of Watch sv _ \<Rightarrow> survey_addresses sv | _ \<Rightarrow> {})"

definition pump_ok :: "lan_policy \<Rightarrow> ipv4 set \<Rightarrow> pump \<Rightarrow> bool" where
  "pump_ok policy A p \<longleftrightarrow>
     policy_bounded policy (pm_filter p) \<and> rebinder_in A (pm_rebinder p)
     \<and> length (pm_refused p) \<le> REFUSED_CAP
     \<and> length (pl_left (pm_probes p)) \<le> LOG_CAP \<and> length (pl_delivered (pm_probes p)) \<le> LOG_CAP"

lemma sync_honest: "honest_room room \<Longrightarrow> policy_bounded policy f \<Longrightarrow>
    policy_bounded policy (sync_extra (rv_extra room) f)"
  using extra_after_allowable by (auto simp: honest_room_def intro!: sync_bounded)

lemma bounded_steps:
  "policy_bounded policy (snd (Lan_Filter.outbound q s now f)) \<longleftrightarrow> policy_bounded policy f"
  "policy_bounded policy (snd (Lan_Filter.inbound q now f)) \<longleftrightarrow> policy_bounded policy f"
  by (simp_all add: policy_bounded_def keeps_policy)

lemma probe_log_others [simp]:
  "pl_delivered (saw_outbound q now log) = pl_delivered log" "pl_left (saw_delivered q log) = pl_left log"
  by (auto simp: saw_outbound_def saw_delivered_def Let_def split: option.splits)

lemma filter_up_ok:
  assumes "pump_ok policy A p" "honest_room room"
  shows "pump_ok policy A (snd (filter_up packet copied room now p))"
  using assms
  by (simp add: filter_up_def split_def Let_def pump_ok_def bounded_steps sync_honest saw_bounded probe_log_bounded)

lemma late_survey_ok:
  assumes "pump_ok policy A p" "honest_room room"
  shows "pump_ok policy A (snd (late_survey packet own room p))"
  using assms by (simp add: late_survey_def pump_ok_def Let_def sync_honest split: option.split)

lemma rebinder_step_ok: "pump_ok policy A p \<Longrightarrow> rebinder_in A r \<Longrightarrow> pump_ok policy A (p\<lparr>pm_rebinder := r\<rparr>)"
  by (simp add: pump_ok_def)

lemma pump_up_ok:
  assumes "pump_ok policy A p" "honest_room room"
  shows "pump_ok policy A (snd (pump_up packet room now p))"
proof (cases "rv_own room")
  case None
  with filter_up_ok [OF assms] show ?thesis by (simp add: pump_up_def)
next
  case (Some own)
  define r where "r = snd (snd (Lan_Rebind.outbound packet own (rv_subnet room) now (pm_rebinder p)))"
  have "rebinder_in A r" using assms outbound_in by (simp add: pump_ok_def r_def)
  then have 1: "pump_ok policy A (p\<lparr>pm_rebinder := r\<rparr>)" by (rule rebinder_step_ok [OF assms(1)])
  note 2 = late_survey_ok [OF 1 assms(2)]
  note 3 = filter_up_ok [OF 2 assms(2)]
  show ?thesis
    using 1 2 3 Some by (simp add: pump_up_def split_def Let_def r_def split: option.split)
qed

lemma deliver_ok: "pump_ok policy A p \<Longrightarrow> pump_ok policy A (snd (deliver packet room now p))"
  by (simp add: deliver_def split_def Let_def pump_ok_def inbound_in probe_log_bounded split: option.split)

lemma pump_down_ok:
  assumes "pump_ok policy A p" "honest_room room"
  shows "pump_ok policy A (snd (pump_down packet room now p))"
proof -
  define f where "f = snd (Lan_Filter.inbound packet now (sync_extra (rv_extra room) (pm_filter p)))"
  have 1: "pump_ok policy A (p\<lparr>pm_filter := f\<rparr>)"
    using assms by (simp add: pump_ok_def f_def bounded_steps sync_honest)
  note 2 = deliver_ok [OF 1]
  show ?thesis using 1 2
    by (simp add: pump_down_def split_def Let_def f_def) (simp add: pump_ok_def saw_bounded)
qed

lemma watch_ok:
  "pump_ok policy A p \<Longrightarrow> survey_addresses sv \<subseteq> A \<Longrightarrow> pump_ok policy A (snd (watch_visit (\<lambda>_ _. sv) policy room p))"
  by (simp add: watch_visit_def split_def Let_def pump_ok_def update_in split: option.split)

lemma pump_history_ok:
  "pump_ok policy A p \<Longrightarrow> \<forall>ev\<in>set evs. honest_room (event_room ev) \<Longrightarrow>
     pump_ok policy (A \<union> pump_surveyed evs) (fold (apply_pump policy) evs p)"
proof (induction evs arbitrary: A p)
  case (Cons ev evs)
  let ?B = "A \<union> pump_surveyed [ev]"
  have B: "pump_ok policy ?B p"
    using Cons.prems(1) rebinder_in_mono [of A "pm_rebinder p" ?B] by (simp add: pump_ok_def)
  have "pump_ok policy ?B (apply_pump policy ev p)"
    using Cons.prems(2) pump_up_ok [OF B] pump_down_ok [OF B] watch_ok [OF B]
    by (cases ev) (simp_all add: pump_surveyed_def)
  from Cons.IH [OF this] Cons.prems(2) show ?case
    by (simp add: pump_surveyed_def Un_assoc)
qed (simp add: pump_surveyed_def)

lemma pump_after_ok:
  assumes "\<forall>ev\<in>set evs. honest_room (event_room ev)"
  shows "pump_ok policy (pump_surveyed evs) (pump_after policy pinned evs)"
proof -
  have "pump_ok policy {} (new_pump policy pinned)"
    by (simp add: pump_ok_def new_pump_def policy_bounded_def new_filter_def rebinder_in_def new_rebinder_def
        survey_addresses_def table_in_def table_simps Lan_Rebind.MAX_FLOWS_def new_probe_log_def)
  from pump_history_ok [OF this assms] show ?thesis by (simp add: pump_after_def)
qed

section \<open>What a step lets through\<close>

lemma parse_endpoints: "parse q = Some pa \<Longrightarrow> ipv4_endpoints q = Some (pa_src pa, pa_dst pa)"
  by (auto simp: parse_def Let_def split: option.splits if_splits)

lemma allowed_parse: "fst (Lan_Filter.outbound q s now f) \<Longrightarrow> \<exists>pa. parse q = Some pa"
  by (auto simp: Lan_Filter.outbound_def split: option.splits)

lemma filter_up_Sent:
  "filter_up q copied room now p = (Sent out, p') \<Longrightarrow>
     out = q \<and> fst (Lan_Filter.outbound q (rv_subnet room) now (sync_extra (rv_extra room) (pm_filter p)))"
  by (auto simp: filter_up_def split_def Let_def split: if_splits)

lemma source_kept:
  assumes "Lan_Rebind.outbound p room subnet now r = (d, q, r')" "\<not> od_source d"
    "ipv4_endpoints q = Some (src, dst)"
  shows "\<exists>dst. ipv4_endpoints p = Some (src, dst)"
proof (cases "ipv4_endpoints p")
  case None
  with assms show ?thesis by (simp add: Lan_Rebind.outbound_def)
next
  case (Some e)
  obtain src0 dst0 where e: "e = (src0, dst0)" by (cases e)
  let ?bc = "dst0 \<in> set (sv_broadcasts (rb_survey r)) \<or> is_pseudo_broadcast subnet dst0"
  obtain b p1 where p1: "(if ?bc then rewrite Dst (broadcast subnet) p else (False, p)) = (b, p1)" by fastforce
  have q: "q = p1"
    using assms(1,2) Some e p1 rewrite_False [of Src room p1]
    by (auto simp: Lan_Rebind.outbound_def Let_def split_def prod_eq_iff split: if_splits)
  have "\<exists>d. ipv4_endpoints p1 = Some (src0, d)"
    using p1 Some e rewrite_endpoints [of Dst "broadcast subnet" p p1 src0 dst0]
      rewrite_False [of Dst "broadcast subnet" p p1] by (cases b) (auto split: if_splits)
  with q assms(3) Some e show ?thesis by auto
qed

lemma pump_up_Sent:
  assumes "pump_up packet room now p = (Sent q, p')" "rv_own room = Some own"
  obtains d r where "Lan_Rebind.outbound packet own (rv_subnet room) now (pm_rebinder p) = (d, q, r)"
    "\<forall>src dst. ipv4_endpoints q = Some (src, dst) \<longrightarrow> src = own"
    "fst (late_survey q own room (p\<lparr>pm_rebinder := r\<rparr>)) = None"
    "od_source d \<longrightarrow> \<not> is_chatter_broadcast q (rv_subnet room)"
    "filter_up q (od_source d) room now (snd (late_survey q own room (p\<lparr>pm_rebinder := r\<rparr>))) = (Sent q, p')"
proof -
  obtain d q1 r where o: "Lan_Rebind.outbound packet own (rv_subnet room) now (pm_rebinder p) = (d, q1, r)"
    by (metis prod_cases3)
  obtain sw p2 where l: "late_survey q1 own room (p\<lparr>pm_rebinder := r\<rparr>) = (sw, p2)" by fastforce
  have s: "\<forall>src dst. ipv4_endpoints q1 = Some (src, dst) \<longrightarrow> src = own" "sw = None"
    "od_source d \<longrightarrow> \<not> is_chatter_broadcast q1 (rv_subnet room)"
    "filter_up q1 (od_source d) room now p2 = (Sent q, p')"
    using assms o l by (auto simp: pump_up_def Let_def split: if_splits option.splits)
  then have "q = q1" using filter_up_Sent by blast
  with s o l show thesis by (intro that [of d r]) simp_all
qed

lemma late_survey_None:
  "fst (late_survey q own room p) = None \<Longrightarrow> own_port_unreachable q own = Some port \<Longrightarrow>
     \<not> admits (sync_extra (rv_extra room) (pm_filter p)) Udp port"
  by (auto simp: late_survey_def Let_def split: if_splits)

lemma sent_broadcast:
  assumes "policy_bounded policy f" "fst (Lan_Filter.outbound q s now f)" "parse q = Some pa"
    "lan_proto_of (pa_protocol pa) = Some proto" "pa_ports pa = Some (sport, dport)" "is_broadcast s (pa_dst pa)"
  shows "if is_os_chatter dport then lists policy proto dport else declares policy proto dport \<or> is_allowable dport"
proof -
  have sent: "if is_os_chatter dport then lists (lf_policy f) proto dport else admits f proto dport"
    using assms(2-6) by (simp add: Lan_Filter.outbound_def Let_def split: if_splits)
  have "is_os_chatter dport \<Longrightarrow> \<not> is_allowable dport" by (simp add: is_allowable_def is_os_chatter_def)
  with sent assms(1) show ?thesis
    by (auto simp: policy_bounded_def admits_def declares_def split: if_splits)
qed

lemma sent_ports:
  assumes "policy_bounded policy f" "fst (Lan_Filter.outbound q s now f)"
  shows "\<forall>pa proto sport dport. parse q = Some pa \<and> lan_proto_of (pa_protocol pa) = Some proto
     \<and> pa_ports pa = Some (sport, dport) \<and> is_broadcast s (pa_dst pa)
     \<longrightarrow> (if is_os_chatter dport then lists policy proto dport
          else declares policy proto dport \<or> is_allowable dport)"
  using sent_broadcast [OF assms] by blast

text \<open>C21.
  What a member's machine puts into a room. In any history of the pump, a broadcast it sends to a UDP or
  TCP port operating systems chatter on goes to a port the game's pack itself lists, and one to any other
  port goes to a port the pack declares or a player may allow. Once the member has its room address,
  every packet it sends carries that address as its source; it is not this machine's "port unreachable"
  for a UDP port the filter admits; and a UDP broadcast to a chatter port is one that left this machine
  from the room address, not one the adapter copied from another network. Before that, packets go out
  as they are.
\<close>
theorem pump_sends_only_own_traffic:
  assumes "\<forall>ev\<in>set evs. honest_room (event_room ev)" "honest_room room"
    "p = pump_after policy pinned evs" "pump_up packet room now p = (Sent q, p')"
  shows "(\<forall>pa proto sport dport. parse q = Some pa \<and> lan_proto_of (pa_protocol pa) = Some proto
       \<and> pa_ports pa = Some (sport, dport) \<and> is_broadcast (rv_subnet room) (pa_dst pa)
       \<longrightarrow> (if is_os_chatter dport then lists policy proto dport
            else declares policy proto dport \<or> is_allowable dport))
    \<and> (case rv_own room of
         None \<Rightarrow> q = packet
       | Some own \<Rightarrow> (\<exists>dst. ipv4_endpoints q = Some (own, dst))
           \<and> (\<forall>port. own_port_unreachable q own = Some port \<longrightarrow>
                \<not> admits (sync_extra (rv_extra room) (pm_filter p)) Udp port)
           \<and> (is_chatter_broadcast q (rv_subnet room) \<longrightarrow> (\<exists>dst. ipv4_endpoints packet = Some (own, dst))))"
proof (cases "rv_own room")
  case None
  have ok: "pump_ok policy (pump_surveyed evs) p" using pump_after_ok assms(1,3) by blast
  then have "policy_bounded policy (sync_extra (rv_extra room) (pm_filter p))"
    using sync_honest assms(2) by (simp add: pump_ok_def)
  moreover have "filter_up packet False room now p = (Sent q, p')" using assms(4) None by (simp add: pump_up_def)
  note sent = filter_up_Sent [OF this]
  ultimately have bc: "policy_bounded policy (sync_extra (rv_extra room) (pm_filter p))" by simp
  show ?thesis unfolding None option.case sent [THEN conjunct1]
    by (rule conjI [OF sent_ports [OF bc sent [THEN conjunct2]] refl])
next
  case (Some own)
  obtain d r where o: "Lan_Rebind.outbound packet own (rv_subnet room) now (pm_rebinder p) = (d, q, r)"
    and src: "\<forall>src dst. ipv4_endpoints q = Some (src, dst) \<longrightarrow> src = own"
    and late: "fst (late_survey q own room (p\<lparr>pm_rebinder := r\<rparr>)) = None"
    and ch: "od_source d \<longrightarrow> \<not> is_chatter_broadcast q (rv_subnet room)"
    and fu: "filter_up q (od_source d) room now (snd (late_survey q own room (p\<lparr>pm_rebinder := r\<rparr>))) = (Sent q, p')"
    using pump_up_Sent [OF assms(4) Some] by metis
  let ?p2 = "snd (late_survey q own room (p\<lparr>pm_rebinder := r\<rparr>))"
  have ok: "pump_ok policy (pump_surveyed evs) p" using pump_after_ok assms(1,3) by blast
  have "rebinder_in (pump_surveyed evs) r" using outbound_in [of _ "pm_rebinder p"] ok o
    by (metis pump_ok_def snd_conv)
  then have "pump_ok policy (pump_surveyed evs) ?p2"
    using rebinder_step_ok [OF ok] late_survey_ok assms(2) by blast
  then have b: "policy_bounded policy (sync_extra (rv_extra room) (pm_filter ?p2))"
    using sync_honest assms(2) by (simp add: pump_ok_def)
  note al = filter_up_Sent [OF fu, THEN conjunct2]
  obtain pa where "parse q = Some pa" using allowed_parse [OF al] by blast
  then have e: "ipv4_endpoints q = Some (own, pa_dst pa)" using src parse_endpoints by auto
  have ex: "\<exists>dst. ipv4_endpoints q = Some (own, dst)" using e by blast
  have "\<forall>port. own_port_unreachable q own = Some port \<longrightarrow> \<not> admits (sync_extra (rv_extra room) (pm_filter p)) Udp port"
    using late_survey_None [OF late] by simp
  moreover have "is_chatter_broadcast q (rv_subnet room) \<longrightarrow> (\<exists>dst. ipv4_endpoints packet = Some (own, dst))"
    using source_kept [OF o _ e] ch by blast
  ultimately show ?thesis unfolding Some option.case
    by - (rule conjI [OF sent_ports [OF b al] conjI [OF ex conjI]]; assumption)
qed

definition sample_room :: room_view where
  "sample_room = \<lparr>rv_own = Some 0xC6130007, rv_subnet = default_subnet, rv_extra = extra_after []\<rparr>"

lemma sample_room_honest: "honest_room sample_room"
  by (auto simp: honest_room_def sample_room_def)

lemma sample_not_pseudo: "\<not> is_pseudo_broadcast default_subnet 0xC6130006"
  unfolding is_pseudo_broadcast_def
  by (simp add: is_assignable_def last_octet_ucast in_subnet_def mask_of_def mask_for_def
      default_subnet_def room_consts)

lemma sample_sent:
  "\<exists>p'. pump_up sample_udp sample_room 9 (pump_after sample_policy None []) = (Sent sample_udp, p')"
proof -
  let ?p = "pump_after sample_policy None []"
  have o: "Lan_Rebind.outbound sample_udp 0xC6130007 default_subnet 9 (pm_rebinder ?p) =
      (\<lparr>od_source = False, od_broadcast = False\<rparr>, sample_udp, pm_rebinder ?p)"
    by (simp add: Lan_Rebind.outbound_def sample_endpoints_udp pump_after_def new_pump_def new_rebinder_def
        sample_not_pseudo Let_def)
  have l: "own_port_unreachable sample_udp 0xC6130007 = None"
    by (simp add: own_port_unreachable_def sample_endpoints_udp) (simp add: sample_udp_def proto_consts)
  have "fst (Lan_Filter.outbound sample_udp default_subnet 9 f)" for f
    by (simp add: Lan_Filter.outbound_def sample_parse sample_not_broadcast lan_proto_of_def proto_consts)
  with o l show ?thesis
    by (simp add: pump_up_def sample_room_def sample_endpoints_udp late_survey_def filter_up_def split_def Let_def)
qed

theorem pump_sends_only_own_traffic_witness:
  "\<exists>dst. ipv4_endpoints sample_udp = Some (0xC6130007, dst)"
proof -
  obtain p' where s: "pump_up sample_udp sample_room 9 (pump_after sample_policy None []) = (Sent sample_udp, p')"
    using sample_sent by blast
  have "rv_own sample_room = Some 0xC6130007" by (simp add: sample_room_def)
  then show ?thesis
    using pump_sends_only_own_traffic [OF _ sample_room_honest refl s] by simp
qed

lemma pump_down_Delivered:
  assumes "pump_down packet room now p = (Delivered q, p')"
  shows "for_us packet room \<and> \<not> is_probe packet
    \<and> fst (Lan_Filter.inbound packet now (sync_extra (rv_extra room) (pm_filter p)))
    \<and> q = (case rv_own room of
         None \<Rightarrow> packet
       | Some own \<Rightarrow> (case fst (Lan_Rebind.inbound packet own now (pm_rebinder p)) of
           None \<Rightarrow> packet | Some out \<Rightarrow> out))"
  using assms
  by (auto simp: pump_down_def deliver_def split_def Let_def split: if_splits option.splits)

text \<open>What the room can put into a member's machine. In any history of the pump, a packet reaches the
  adapter only if it is addressed to this member's room address or broadcast to the room, the filter
  let it in, and it is no room check's probe; it arrives as the room delivered it, or, when it was for
  the room address, redirected to an address a survey of this machine named, with its source, length
  and header checksum kept. The logs it leaves stay within their caps.
\<close>
theorem pump_delivers_only_admitted:
  assumes "\<forall>ev\<in>set evs. honest_room (event_room ev)"
    "p = pump_after policy pinned evs" "pump_down packet room now p = (Delivered q, p')"
  shows "(\<exists>src dst. ipv4_endpoints packet = Some (src, dst)
       \<and> (rv_own room = Some dst \<or> is_broadcast (rv_subnet room) dst)
       \<and> (q = packet \<or> (rv_own room = Some dst \<and> length q = length packet
            \<and> same_sum (header_sum q) (header_sum packet)
            \<and> (\<exists>to\<in>pump_surveyed evs. ipv4_endpoints q = Some (src, to)))))
    \<and> fst (Lan_Filter.inbound packet now (sync_extra (rv_extra room) (pm_filter p)))
    \<and> \<not> is_probe packet
    \<and> length (pm_refused p) \<le> REFUSED_CAP \<and> length (pl_left (pm_probes p)) \<le> LOG_CAP"
proof -
  note d = pump_down_Delivered [OF assms(3)]
  have ok: "pump_ok policy (pump_surveyed evs) p" using pump_after_ok assms(1,2) by blast
  then have ri: "rebinder_in (pump_surveyed evs) (pm_rebinder p)" by (simp add: pump_ok_def)
  obtain src dst where e: "ipv4_endpoints packet = Some (src, dst)"
    and us: "rv_own room = Some dst \<or> is_broadcast (rv_subnet room) dst"
    using d by (auto simp: for_us_def is_broadcast_def split: option.splits)
  have "q = packet \<or> (rv_own room = Some dst \<and> length q = length packet
            \<and> same_sum (header_sum q) (header_sum packet)
            \<and> (\<exists>to\<in>pump_surveyed evs. ipv4_endpoints q = Some (src, to)))"
  proof (cases "q = packet")
    case False
    then obtain own where o: "rv_own room = Some own"
      "fst (Lan_Rebind.inbound packet own now (pm_rebinder p)) = Some q"
      using d by (auto split: option.splits)
    from inbound_result [OF ri o(2)] e o(1) show ?thesis by auto
  qed simp
  then show ?thesis using d e us ok by (auto simp: pump_ok_def)
qed

definition icmp_packet :: bytes where
  "icmp_packet = [0x45, 0, 0, 20, 0, 1, 0, 0, 64, 1, 0, 0, 198, 19, 0, 6, 198, 19, 0, 7]"

lemma icmp_packet_facts:
  "ipv4_endpoints icmp_packet = Some (0xC6130006, 0xC6130007)"
  "parse icmp_packet = Some \<lparr>pa_src = 0xC6130006, pa_dst = 0xC6130007, pa_protocol = 1, pa_id = 1,
     pa_fragment = Whole, pa_ports = None\<rparr>"
  "\<not> is_probe icmp_packet"
proof -
  show e: "ipv4_endpoints icmp_packet = Some (0xC6130006, 0xC6130007)"
    by (simp add: icmp_packet_def ipv4_endpoints_def of_be_def)
  have "ihl_of icmp_packet = 20" by (simp add: icmp_packet_def ihl_of_def)
  then show "parse icmp_packet = Some \<lparr>pa_src = 0xC6130006, pa_dst = 0xC6130007, pa_protocol = 1, pa_id = 1,
     pa_fragment = Whole, pa_ports = None\<rparr>"
    by (simp add: parse_def e Let_def) (simp add: icmp_packet_def be16_def of_be_def proto_consts)
  have "parse_check icmp_packet = None"
    by (simp add: parse_check_def e) (simp add: icmp_packet_def)
  then show "\<not> is_probe icmp_packet" by (simp add: is_probe_def)
qed

lemma sample_delivered:
  "\<exists>p'. pump_down icmp_packet sample_room 9 (pump_after sample_policy None []) = (Delivered icmp_packet, p')"
proof -
  let ?p = "pump_after sample_policy None []"
  have "ihl_of icmp_packet = 20" by (simp add: icmp_packet_def ihl_of_def)
  then have "quoted_transport icmp_packet = None"
    by (simp add: quoted_transport_def) (simp add: icmp_packet_def get_range_def)
  then have "inbound_target icmp_packet 0xC6130006 9 r = (None, r)" if "rb_fragments r = []" for r
    by (simp add: inbound_target_def Let_def that tget_def proto_consts)
      (simp add: icmp_packet_def)
  moreover have "rb_fragments (pm_rebinder ?p) = []"
    by (simp add: pump_after_def new_pump_def new_rebinder_def)
  ultimately have r: "Lan_Rebind.inbound icmp_packet 0xC6130007 9 (pm_rebinder ?p) = (None, pm_rebinder ?p)"
    by (simp add: Lan_Rebind.inbound_def icmp_packet_facts)
  have "Lan_Filter.inbound icmp_packet 9 f = (True, f)" for f
    by (simp add: Lan_Filter.inbound_def icmp_packet_facts proto_consts)
  with r show ?thesis
    by (simp add: pump_down_def for_us_def icmp_packet_facts sample_room_def deliver_def Let_def split_def)
qed

theorem pump_delivers_only_admitted_witness:
  "\<exists>src dst. ipv4_endpoints icmp_packet = Some (src, dst) \<and> \<not> is_probe icmp_packet"
proof -
  obtain p' where s: "pump_down icmp_packet sample_room 9 (pump_after sample_policy None []) = (Delivered icmp_packet, p')"
    using sample_delivered by blast
  show ?thesis using pump_delivers_only_admitted [OF _ refl s] by auto
qed

end
