(* ===== verification/Lan_Relay.thy ===== *)
theory Lan_Relay
  imports Prelude
begin

text \<open>
  \<^verbatim>\<open>crates/game-bridge/src/lan_relay.rs\<close>: the link between the elevated adapter helper and the
  launcher. A connection's bytes are a list that ends where the peer closed it; what reached the
  listener before the deadline is a list of arrivals. Hex for the command line (the \<^verbatim>\<open>hex\<close> crate), the
  sockets and the adapter are outside.
\<close>

definition RELAY_MAGIC :: bytes where "RELAY_MAGIC = ascii ''GBLR''"
definition RELAY_VERSION :: u8 where "RELAY_VERSION = 1"
definition TOKEN_LEN :: nat where "TOKEN_LEN = 32"
definition RELAY_BUF :: nat where "RELAY_BUF = 65536"

datatype relay_error = TimedOut | InvalidInput | InvalidData | UnexpectedEof | AcceptError

type_synonym relay_token = bytes

definition token_matches :: "relay_token \<Rightarrow> bytes \<Rightarrow> bool" where
  "token_matches token other \<longleftrightarrow>
     length other = TOKEN_LEN \<and> foldl (\<lambda>acc (a, b). acc OR (a XOR b)) 0 (zip token other) = 0"

section \<open>Proving the helper\<close>

text \<open>A connection: whether its peer is loopback, and the hello read before the timeout, if any.\<close>

record incoming =
  in_loopback :: bool
  in_hello :: "bytes option"

datatype arrival = Connection incoming | AcceptFailed

definition proven :: "relay_token \<Rightarrow> bytes \<Rightarrow> bool" where
  "proven token hello \<longleftrightarrow>
     take 4 hello = RELAY_MAGIC \<and> hello ! 4 = RELAY_VERSION \<and> token_matches token (drop 5 hello)"

text \<open>The accept loop over what arrives before the deadline; the connection it returns, by index.\<close>

fun accept_from :: "nat \<Rightarrow> relay_token \<Rightarrow> arrival list \<Rightarrow> (relay_error, nat) outcome" where
  "accept_from i token [] = Err TimedOut"
| "accept_from i token (AcceptFailed # _) = Err AcceptError"
| "accept_from i token (Connection c # rest) =
     (if \<not> in_loopback c then accept_from (Suc i) token rest
      else case in_hello c of
             None \<Rightarrow> accept_from (Suc i) token rest
           | Some hello \<Rightarrow> if proven token hello then Ok i else accept_from (Suc i) token rest)"

definition accept_helper :: "relay_token \<Rightarrow> arrival list \<Rightarrow> (relay_error, nat) outcome" where
  "accept_helper token arrivals = accept_from 0 token arrivals"

text \<open>What the helper sends first, and only to a loopback address.\<close>

definition connect_hello :: "bool \<Rightarrow> relay_token \<Rightarrow> (relay_error, bytes) outcome" where
  "connect_hello loopback token =
     (if \<not> loopback then Err InvalidInput else Ok (RELAY_MAGIC @ [RELAY_VERSION] @ token))"

section \<open>Frames\<close>

definition read_frame :: "nat \<Rightarrow> bytes \<Rightarrow> (relay_error, bytes option \<times> bytes) outcome" where
  "read_frame buf_len stream =
     (if length stream < 2 then Ok (None, [])
      else let len = unat (of_be (take 2 stream) :: u16) in
        if len = 0 \<or> len > buf_len then Err InvalidData
        else if length stream < 2 + len then Err UnexpectedEof
        else Ok (Some (take len (drop 2 stream)), drop (2 + len) stream))"

definition write_frame :: "bytes \<Rightarrow> (relay_error, bytes) outcome" where
  "write_frame packet =
     (if length packet > 65535 \<or> length packet = 0 then Err InvalidInput
      else Ok (to_be 2 (of_nat (length packet) :: u16) @ packet))"

text \<open>The two loops of \<open>relay\<close>: what reached the other side, and what ended the loop.\<close>

fun relay_write :: "bytes list \<Rightarrow> bytes \<times> relay_error option" where
  "relay_write [] = ([], None)"
| "relay_write (packet # rest) =
     (case write_frame packet of
        Ok frame \<Rightarrow> (let (stream, e) = relay_write rest in (frame @ stream, e))
      | Err e \<Rightarrow> ([], Some e)
      | Panic \<Rightarrow> ([], None))"

function relay_read :: "bytes \<Rightarrow> bytes list \<times> relay_error option" where
  "relay_read stream =
     (case read_frame RELAY_BUF stream of
        Ok (Some packet, rest) \<Rightarrow> (let (packets, e) = relay_read rest in (packet # packets, e))
      | Ok (None, _) \<Rightarrow> ([], None)
      | Err e \<Rightarrow> ([], Some e)
      | Panic \<Rightarrow> ([], None))"
  by pat_completeness auto
termination
  by (relation "measure length") (auto simp: read_frame_def Let_def split: if_splits)

declare relay_read.simps [simp del]

section \<open>Lemmas\<close>

lemma or_fold_zero:
  "foldl (\<lambda>acc (a, b). acc OR (a XOR b)) acc (zip xs ys) = 0 \<longleftrightarrow>
     acc = 0 \<and> (\<forall>(a, b)\<in>set (zip xs ys). a = (b :: u8))"
proof (induction xs ys arbitrary: acc rule: list_induct2')
  case (4 x xs y ys)
  have "(acc OR (x XOR y)) = 0 \<longleftrightarrow> acc = 0 \<and> x = y"
    by (metis or.right_neutral or_eq_0_iff xor_self_eq bit.xor_left_self xor.right_neutral)
  with 4 show ?case by auto
qed simp_all

lemma zip_all_eq: "length xs = length ys \<Longrightarrow> (\<forall>(a, b)\<in>set (zip xs ys). a = b) \<longleftrightarrow> xs = ys"
  by (induction xs ys rule: list_induct2) auto

lemma token_matches_iff:
  assumes "length token = TOKEN_LEN"
  shows "token_matches token other \<longleftrightarrow> other = token"
proof (cases "length other = TOKEN_LEN")
  case True
  with assms zip_all_eq [of token other] show ?thesis by (auto simp: token_matches_def or_fold_zero)
next
  case False
  with assms show ?thesis by (auto simp: token_matches_def)
qed

lemma proven_iff:
  assumes "length token = TOKEN_LEN" "length hello = 5 + TOKEN_LEN"
  shows "proven token hello \<longleftrightarrow> connect_hello True token = Ok hello"
proof -
  have cut: "hello = take 4 hello @ [hello ! 4] @ drop 5 hello"
    using assms(2) id_take_nth_drop [of 4 hello] by (simp add: TOKEN_LEN_def)
  have m: "length RELAY_MAGIC = 4" by (simp add: RELAY_MAGIC_def ascii_def)
  have "take 4 hello = RELAY_MAGIC \<and> hello ! 4 = RELAY_VERSION \<and> drop 5 hello = token
      \<longleftrightarrow> RELAY_MAGIC @ [RELAY_VERSION] @ token = hello" (is "?L \<longleftrightarrow> ?R")
  proof
    assume ?L then show ?R using cut by simp
  next
    assume ?R
    from this [symmetric] show ?L using m by (simp add: nth_append)
  qed
  then show ?thesis unfolding proven_def connect_hello_def token_matches_iff [OF assms(1)] by simp
qed

text \<open>A connection that proved itself: from this machine, saying exactly what the helper says.\<close>

definition genuine :: "relay_token \<Rightarrow> arrival \<Rightarrow> bool" where
  "genuine token a \<longleftrightarrow>
     (\<exists>c hello. a = Connection c \<and> in_loopback c \<and> in_hello c = Some hello
        \<and> connect_hello True token = Ok hello)"

definition hellos_full :: "arrival list \<Rightarrow> bool" where
  "hellos_full arrivals \<longleftrightarrow>
     (\<forall>a\<in>set arrivals. \<forall>c hello. a = Connection c \<longrightarrow> in_hello c = Some hello \<longrightarrow> length hello = 5 + TOKEN_LEN)"

lemma accept_step:
  assumes "length token = TOKEN_LEN" "hellos_full (Connection c # rest)"
  shows "accept_from n token (Connection c # rest) =
    (if genuine token (Connection c) then Ok n else accept_from (Suc n) token rest)"
proof (cases "in_hello c")
  case None
  then show ?thesis by (simp add: genuine_def)
next
  case (Some hello)
  with assms(2) have "length hello = 5 + TOKEN_LEN" by (simp add: hellos_full_def)
  from proven_iff [OF assms(1) this] Some show ?thesis by (simp add: genuine_def)
qed

lemma hellos_Cons: "hellos_full (a # rest) \<Longrightarrow> hellos_full rest"
  by (simp add: hellos_full_def)

lemma accept_from_iff:
  "length token = TOKEN_LEN \<Longrightarrow> hellos_full arrivals \<Longrightarrow>
     accept_from n token arrivals = Ok i \<longleftrightarrow>
     (\<exists>pre a post. arrivals = pre @ a # post \<and> i = n + length pre \<and> genuine token a
        \<and> (\<forall>b\<in>set pre. b \<noteq> AcceptFailed \<and> \<not> genuine token b))"
proof (induction arrivals arbitrary: n)
  case (Cons x rest)
  show ?case
  proof (cases x)
    case (Connection c)
    note step = accept_step [OF Cons.prems(1) Cons.prems(2) [unfolded Connection], of n]
    show ?thesis
    proof (cases "genuine token x")
      case True
      have "i = n \<longleftrightarrow> (\<exists>pre a post. x # rest = pre @ a # post \<and> i = n + length pre \<and> genuine token a
        \<and> (\<forall>b\<in>set pre. b \<noteq> AcceptFailed \<and> \<not> genuine token b))" (is "_ \<longleftrightarrow> ?R")
      proof
        assume "i = n" then show ?R using True by (intro exI [of _ "[]"]) auto
      next
        assume ?R
        then obtain pre a post where "x # rest = pre @ a # post" "i = n + length pre"
          "\<forall>b\<in>set pre. b \<noteq> AcceptFailed \<and> \<not> genuine token b" by blast
        then show "i = n" using True by (cases pre) auto
      qed
      then show ?thesis using step True Connection by auto
    next
      case False
      have "(\<exists>pre a post. x # rest = pre @ a # post \<and> i = n + length pre \<and> genuine token a
            \<and> (\<forall>b\<in>set pre. b \<noteq> AcceptFailed \<and> \<not> genuine token b))
        \<longleftrightarrow> (\<exists>pre a post. rest = pre @ a # post \<and> i = Suc n + length pre \<and> genuine token a
            \<and> (\<forall>b\<in>set pre. b \<noteq> AcceptFailed \<and> \<not> genuine token b))" (is "?L \<longleftrightarrow> ?R")
      proof
        assume ?L
        then obtain pre a post where p: "x # rest = pre @ a # post" "i = n + length pre" "genuine token a"
          "\<forall>b\<in>set pre. b \<noteq> AcceptFailed \<and> \<not> genuine token b" by blast
        then obtain pre' where "pre = x # pre'" using False by (cases pre) auto
        with p show ?R by (intro exI [of _ pre']) auto
      next
        assume ?R
        then obtain pre a post where "rest = pre @ a # post" "i = Suc n + length pre" "genuine token a"
          "\<forall>b\<in>set pre. b \<noteq> AcceptFailed \<and> \<not> genuine token b" by blast
        then show ?L using False Connection by (intro exI [of _ "x # pre"]) auto
      qed
      then show ?thesis
        using step False Connection Cons.IH [OF Cons.prems(1) hellos_Cons [OF Cons.prems(2)], of "Suc n"] by simp
    qed
  next
    case AcceptFailed
    have "\<not> genuine token AcceptFailed" by (simp add: genuine_def)
    with AcceptFailed show ?thesis by (auto simp: Cons_eq_append_conv)
  qed
qed simp

lemma write_read:
  assumes "write_frame packet = Ok frame"
  shows "relay_read (frame @ rest) = (packet # fst (relay_read rest), snd (relay_read rest))"
proof -
  have l: "0 < length packet" "length packet < 65536" and f: "frame = to_be 2 (of_nat (length packet) :: u16) @ packet"
    using assms by (auto simp: write_frame_def split: if_splits)
  have "read_frame RELAY_BUF (frame @ rest) = Ok (Some packet, rest)"
    using l by (simp add: read_frame_def f RELAY_BUF_def)
  then show ?thesis by (subst relay_read.simps) (simp add: split_def Let_def)
qed

text \<open>A stream cut inside a frame yields nothing of that frame.\<close>

lemma read_cut_frame:
  assumes "write_frame packet = Ok frame" "n < length frame"
  shows "fst (relay_read (take n frame)) = []"
proof -
  have l: "0 < length packet" "length packet < 65536" and f: "frame = to_be 2 (of_nat (length packet) :: u16) @ packet"
    using assms by (auto simp: write_frame_def split: if_splits)
  have len: "length frame = 2 + length packet" by (simp add: f)
  have "\<exists>e. read_frame RELAY_BUF (take n frame) = Err e \<or> read_frame RELAY_BUF (take n frame) = Ok (None, [])"
  proof (cases "n < 2")
    case True
    then have "length (take n frame) < 2" by simp
    then show ?thesis by (simp add: read_frame_def)
  next
    case False
    then have "take 2 (take n frame) = to_be 2 (of_nat (length packet) :: u16)" by (simp add: f min_def)
    then show ?thesis using False l assms(2) len by (simp add: read_frame_def Let_def min_def)
  qed
  then show ?thesis by (subst relay_read.simps) auto
qed

lemma relay_round:
  "relay_write packets = (stream, None) \<Longrightarrow> relay_read stream = (packets, None)
     \<and> (\<forall>n. \<exists>k. fst (relay_read (take n stream)) = take k packets)"
proof (induction packets arbitrary: stream)
  case Nil
  have "relay_read [] = ([], None)" by (subst relay_read.simps) (simp add: read_frame_def)
  with Nil show ?case by simp
next
  case (Cons packet rest)
  obtain frame s where w: "write_frame packet = Ok frame" "relay_write rest = (s, None)" "stream = frame @ s"
    using Cons.prems by (auto simp: write_frame_def split: outcome.splits prod.splits if_splits)
  note ih = Cons.IH [OF w(2)]
  have whole: "relay_read stream = (packet # rest, None)" using write_read [OF w(1), of s] ih w(3) by simp
  have "\<exists>k. fst (relay_read (take n stream)) = take k (packet # rest)" for n
  proof (cases "n < length frame")
    case True
    then show ?thesis using read_cut_frame [OF w(1) True] w(3) by (intro exI [of _ 0]) simp
  next
    case False
    then have "take n stream = frame @ take (n - length frame) s" by (simp add: w(3))
    moreover obtain k where "fst (relay_read (take (n - length frame) s)) = take k rest" using ih by blast
    ultimately show ?thesis using write_read [OF w(1)] by (intro exI [of _ "Suc k"]) simp
  qed
  with whole show ?case by blast
qed

section \<open>Properties\<close>

text \<open>Who becomes the adapter. The launcher hands the adapter's traffic to the first connection that comes
  from this machine and says exactly what the helper it started says, magic, version and the whole
  one-time token; any number of connections from elsewhere, silent, or with a wrong token before it
  neither get in nor keep the helper out.
\<close>
theorem only_the_helper_is_accepted:
  assumes "length token = TOKEN_LEN" "hellos_full arrivals"
  shows "accept_helper token arrivals = Ok i \<longleftrightarrow>
    i < length arrivals \<and> genuine token (arrivals ! i)
    \<and> (\<forall>j<i. arrivals ! j \<noteq> AcceptFailed \<and> \<not> genuine token (arrivals ! j))"
proof -
  have "(\<exists>pre a post. arrivals = pre @ a # post \<and> i = 0 + length pre \<and> genuine token a
        \<and> (\<forall>b\<in>set pre. b \<noteq> AcceptFailed \<and> \<not> genuine token b)) \<longleftrightarrow>
    i < length arrivals \<and> genuine token (arrivals ! i)
    \<and> (\<forall>j<i. arrivals ! j \<noteq> AcceptFailed \<and> \<not> genuine token (arrivals ! j))" (is "?L \<longleftrightarrow> ?R")
  proof
    assume ?L then show ?R by (auto simp: nth_append)
  next
    assume r: ?R
    then have "arrivals = take i arrivals @ arrivals ! i # drop (Suc i) arrivals" by (simp add: id_take_nth_drop)
    moreover have "\<forall>b\<in>set (take i arrivals). b \<noteq> AcceptFailed \<and> \<not> genuine token b"
      using r by (auto simp: in_set_conv_nth)
    ultimately show ?L using r by (metis add_0 length_take less_imp_le_nat min.absorb2)
  qed
  then show ?thesis unfolding accept_helper_def using accept_from_iff [OF assms, of 0 i] by simp
qed

theorem only_the_helper_is_accepted_witness:
  "accept_helper (replicate 32 7)
     [Connection \<lparr>in_loopback = True, in_hello = Some (replicate 37 0)\<rparr>,
      Connection \<lparr>in_loopback = True, in_hello = Some (RELAY_MAGIC @ [RELAY_VERSION] @ replicate 32 7)\<rparr>] = Ok 1"
proof -
  let ?t = "replicate 32 7 :: bytes"
  let ?bad = "Connection \<lparr>in_loopback = True, in_hello = Some (replicate 37 0)\<rparr>"
  let ?good = "Connection \<lparr>in_loopback = True, in_hello = Some (RELAY_MAGIC @ [RELAY_VERSION] @ ?t)\<rparr>"
  have m: "length RELAY_MAGIC = 4" "RELAY_MAGIC ! 0 = 71" by (simp_all add: RELAY_MAGIC_def ascii_def)
  have t: "length ?t = TOKEN_LEN" by (simp add: TOKEN_LEN_def)
  have h: "hellos_full [?bad, ?good]" using m by (simp add: hellos_full_def TOKEN_LEN_def)
  have g: "genuine ?t ?good" by (simp add: genuine_def connect_hello_def)
  have "replicate 37 0 \<noteq> RELAY_MAGIC @ [RELAY_VERSION] @ ?t"
  proof
    assume "replicate 37 0 = RELAY_MAGIC @ [RELAY_VERSION] @ ?t"
    then have "(replicate 37 0 :: bytes) ! 0 = RELAY_MAGIC ! 0" using m by (metis nth_append zero_less_numeral)
    then show False using m by simp
  qed
  then have "\<not> genuine ?t ?bad" by (simp add: genuine_def connect_hello_def)
  then show ?thesis using only_the_helper_is_accepted [OF t h, of 1] g by simp
qed

text \<open>Packets across the link. Whatever packets one side wrote (each of 1 to 65535 bytes), the other side
  reads exactly those, in order, and then a clean end; and wherever the stream is cut, what it reads
  is a prefix of them: a truncated packet is never delivered.
\<close>
theorem relay_delivers_whole_packets:
  assumes "relay_write packets = (stream, None)"
  shows "relay_read stream = (packets, None) \<and> (\<forall>n. \<exists>k. fst (relay_read (take n stream)) = take k packets)"
  using relay_round [OF assms] .

lemma sample_stream: "relay_write [[1, 2], [3]] = ([0, 2, 1, 2, 0, 1, 3], None)"
  by (simp add: write_frame_def to_be_def upt_rec)

theorem relay_delivers_whole_packets_witness:
  "relay_read [0, 2, 1, 2, 0, 1, 3] = ([[1, 2], [3]], None)"
  using relay_delivers_whole_packets [OF sample_stream] by simp

end
