(* ===== verification/Browse.thy ===== *)
theory Browse
  imports Announce Sorts
begin

text \<open>
  \<^verbatim>\<open>crates/game-bridge/src/browse.rs\<close> and the \<^verbatim>\<open>DiscoveredServer\<close> of \<^verbatim>\<open>relay.rs\<close>: filtering and ordering
  what a node has heard. \<open>lower\<close> is \<^verbatim>\<open>str::to_lowercase\<close>, a parameter (its Unicode tables are not
  written out; nothing is assumed of it).
\<close>

record discovered_server =
  ds_destination_hash :: bytes
  ds_last_seen :: time
  ds_hops :: u8
  ds_source_interface :: u64
  ds_info :: announce_info

fun record_of :: "announce_info \<Rightarrow> announce_record option" where
  "record_of (Record r) = Some r"
| "record_of (Legacy _) = None"

definition server_record :: "discovered_server \<Rightarrow> announce_record option" where
  "server_record row = record_of (ds_info row)"

definition server_name :: "discovered_server \<Rightarrow> str option" where
  "server_name row = (case ds_info row of
     Record r \<Rightarrow> if rec_name r \<noteq> [] then Some (rec_name r) else None
   | Legacy name \<Rightarrow> name)"

definition server_game_id :: "discovered_server \<Rightarrow> str option" where
  "server_game_id row = (case ds_info row of Record r \<Rightarrow> Some (rec_game_id r) | Legacy _ \<Rightarrow> None)"

section \<open>Queries\<close>

record browse_filter =
  bf_game_id :: "str option"
  bf_text :: "str option"
  bf_max_hops :: "u8 option"
  bf_max_link_class :: "u8 option"
  bf_has_players :: bool
  bf_not_full :: bool
  bf_exclude_passworded :: bool
  bf_exclude_allowlisted :: bool
  bf_transport_modes :: "u8 list option"
  bf_dedicated_only :: bool
  bf_include_legacy :: bool

definition default_filter :: browse_filter where
  "default_filter = \<lparr>bf_game_id = None, bf_text = None, bf_max_hops = None, bf_max_link_class = None,
     bf_has_players = False, bf_not_full = False, bf_exclude_passworded = False,
     bf_exclude_allowlisted = False, bf_transport_modes = None, bf_dedicated_only = False,
     bf_include_legacy = True\<rparr>"

datatype sort_key = Hops | Players | Name | LastSeen

record browse_query =
  bq_filter :: browse_filter
  bq_sort :: sort_key
  bq_descending :: bool
  bq_max_age :: "duration option"

definition default_query :: browse_query where
  "default_query = \<lparr>bq_filter = default_filter, bq_sort = Hops, bq_descending = False, bq_max_age = None\<rparr>"

definition filter_requires_record :: "browse_filter \<Rightarrow> bool" where
  "filter_requires_record f \<longleftrightarrow>
     bf_game_id f \<noteq> None \<or> bf_max_link_class f \<noteq> None \<or> bf_has_players f \<or> bf_not_full f
     \<or> bf_exclude_passworded f \<or> bf_exclude_allowlisted f \<or> bf_transport_modes f \<noteq> None
     \<or> bf_dedicated_only f"

text \<open>\<^verbatim>\<open>haystack.contains(needle)\<close>, which on valid UTF-8 is the same on characters and on bytes.\<close>

definition contains :: "str \<Rightarrow> str \<Rightarrow> bool" where
  "contains haystack needle \<longleftrightarrow>
     list_ex (\<lambda>i. take (length needle) (drop i haystack) = needle) [0..<Suc (length haystack)]"

definition text_matches :: "(str \<Rightarrow> str) \<Rightarrow> str option \<Rightarrow> str option \<Rightarrow> str \<Rightarrow> bool" where
  "text_matches lower name map' needle =
     (let needle_lower = lower needle in
      if needle_lower = [] then True
      else let hit = (\<lambda>s. case s of None \<Rightarrow> False | Some n \<Rightarrow> contains (lower n) needle_lower)
           in hit name \<or> hit map')"

definition is_stale :: "discovered_server \<Rightarrow> duration option \<Rightarrow> time \<Rightarrow> bool" where
  "is_stale row max_age now =
     (case max_age of
        None \<Rightarrow> False
      | Some m \<Rightarrow> if now < ds_last_seen row then False else now - ds_last_seen row > m)"

text \<open>The checks that need a record.\<close>

definition record_passes :: "announce_record \<Rightarrow> browse_filter \<Rightarrow> bool" where
  "record_passes r f \<longleftrightarrow>
     \<not> (case bf_game_id f of None \<Rightarrow> False | Some gid \<Rightarrow> rec_game_id r \<noteq> gid)
     \<and> \<not> (case bf_max_link_class f of None \<Rightarrow> False | Some m \<Rightarrow> rec_min_link_class r > m)
     \<and> \<not> (bf_has_players f \<and> rec_players r = 0)
     \<and> \<not> (bf_not_full f \<and> rec_players r \<ge> rec_max_players r)
     \<and> \<not> (bf_exclude_passworded f \<and> af_passworded (rec_flags r))
     \<and> \<not> (bf_exclude_allowlisted f \<and> af_allowlisted (rec_flags r))
     \<and> \<not> (case bf_transport_modes f of None \<Rightarrow> False
           | Some modes \<Rightarrow> af_transport_mode (rec_flags r) \<notin> set modes)
     \<and> \<not> (bf_dedicated_only f \<and> \<not> af_dedicated (rec_flags r))"

definition passes_filter :: "(str \<Rightarrow> str) \<Rightarrow> discovered_server \<Rightarrow> browse_filter \<Rightarrow> duration option
    \<Rightarrow> time \<Rightarrow> bool" where
  "passes_filter lower row f max_age now =
     (if is_stale row max_age now then False
      else if (case bf_max_hops f of None \<Rightarrow> False | Some m \<Rightarrow> ds_hops row > m) then False
      else if (case bf_text f of None \<Rightarrow> False
               | Some text \<Rightarrow> \<not> text_matches lower (server_name row) (map_option rec_map (server_record row)) text)
           then False
      else case server_record row of
        None \<Rightarrow> if filter_requires_record f then False
                else if \<not> bf_include_legacy f then False else True
      | Some r \<Rightarrow> record_passes r f)"

section \<open>Ordering\<close>

definition player_count :: "discovered_server \<Rightarrow> u8 option" where
  "player_count row = map_option rec_players (server_record row)"

definition name_lower :: "(str \<Rightarrow> str) \<Rightarrow> discovered_server \<Rightarrow> str option" where
  "name_lower lower row = map_option lower (server_name row)"

definition by_hops :: "discovered_server \<Rightarrow> discovered_server \<Rightarrow> ordering" where
  "by_hops a b = cmp (ds_hops a) (ds_hops b)"

definition by_players :: "discovered_server \<Rightarrow> discovered_server \<Rightarrow> ordering" where
  "by_players a b = cmp_none_last (\<lambda>x y. cmp y x) (player_count a) (player_count b)"

definition by_name :: "(str \<Rightarrow> str) \<Rightarrow> discovered_server \<Rightarrow> discovered_server \<Rightarrow> ordering" where
  "by_name lower a b = cmp_none_last cmp (name_lower lower a) (name_lower lower b)"

definition primary :: "(str \<Rightarrow> str) \<Rightarrow> sort_key \<Rightarrow> discovered_server \<Rightarrow> discovered_server \<Rightarrow> ordering" where
  "primary lower key a b = (case key of
     Hops \<Rightarrow> by_hops a b
   | Players \<Rightarrow> by_players a b
   | Name \<Rightarrow> by_name lower a b
   | LastSeen \<Rightarrow> cmp (ds_last_seen b) (ds_last_seen a))"

definition compare_rows :: "(str \<Rightarrow> str) \<Rightarrow> browse_query \<Rightarrow> discovered_server \<Rightarrow> discovered_server
    \<Rightarrow> ordering" where
  "compare_rows lower query a b =
     (let p = primary lower (bq_sort query) a b;
          p = (if bq_descending query then rev_order p else p)
      in if p \<noteq> Equal then p
         else if by_hops a b \<noteq> Equal then by_hops a b
         else if by_players a b \<noteq> Equal then by_players a b
         else by_name lower a b)"

definition browse :: "(str \<Rightarrow> str) \<Rightarrow> discovered_server list \<Rightarrow> browse_query \<Rightarrow> time
    \<Rightarrow> discovered_server list" where
  "browse lower rows query now =
     sort_by (compare_rows lower query)
       (filter (\<lambda>row. passes_filter lower row (bq_filter query) (bq_max_age query) now) rows)"

section \<open>The comparator is an order\<close>

lemma cmp_flip: "(\<lambda>x y. cmp y x) = (\<lambda>x y. rev_order (cmp x (y :: 'a::linorder)))"
  by (intro ext) (auto simp: cmp_def)

lemma rust_by_hops: "rust_order by_hops"
  unfolding by_hops_def [abs_def] by (rule rust_order_by_key [OF rust_order_cmp])

lemma rust_by_players: "rust_order by_players"
  unfolding by_players_def [abs_def] cmp_flip
  by (rule rust_order_by_key [OF rust_order_none_last [OF rust_order_rev [OF rust_order_cmp]]])

lemma rust_by_name: "rust_order (by_name lower)"
  unfolding by_name_def [abs_def]
  by (rule rust_order_by_key [OF rust_order_none_last [OF rust_order_cmp]])

lemma rust_primary: "rust_order (primary lower key)"
proof (cases key)
  case Hops
  then have "primary lower key = by_hops" by (simp add: primary_def [abs_def])
  then show ?thesis by (simp add: rust_by_hops)
next
  case Players
  then have "primary lower key = by_players" by (simp add: primary_def [abs_def])
  then show ?thesis by (simp add: rust_by_players)
next
  case Name
  then have "primary lower key = by_name lower" by (simp add: primary_def [abs_def])
  then show ?thesis by (simp add: rust_by_name)
next
  case LastSeen
  then have "primary lower key = (\<lambda>a b. rev_order (cmp (ds_last_seen a) (ds_last_seen b)))"
    by (auto simp: primary_def [abs_def] cmp_def intro!: ext)
  then show ?thesis by (simp add: rust_order_rev rust_order_by_key rust_order_cmp)
qed

lemma compare_rows_then:
  "compare_rows lower query a b =
     then_cmp (if bq_descending query then rev_order (primary lower (bq_sort query) a b)
               else primary lower (bq_sort query) a b)
       (then_cmp (by_hops a b) (then_cmp (by_players a b) (by_name lower a b)))"
  unfolding compare_rows_def Let_def
  by (cases "if bq_descending query then rev_order (primary lower (bq_sort query) a b)
               else primary lower (bq_sort query) a b"; cases "by_hops a b"; cases "by_players a b"; simp)

interpretation browse_order: rust_order "compare_rows lower query" for lower query
proof -
  have "rust_order (\<lambda>a b. if bq_descending query then rev_order (primary lower (bq_sort query) a b)
               else primary lower (bq_sort query) a b)"
    by (cases "bq_descending query") (simp_all add: rust_primary rust_order_rev)
  then show "rust_order (compare_rows lower query)"
    unfolding compare_rows_then [abs_def]
    by (intro rust_order_then rust_by_hops rust_by_players rust_by_name)
qed

section \<open>Properties\<close>

lemma browse_set: "set (browse lower rows query now) =
    {row \<in> set rows. passes_filter lower row (bq_filter query) (bq_max_age query) now}"
  by (simp add: browse_def)

lemma browse_distinct: "distinct (map f rows) \<Longrightarrow> distinct (map f (browse lower rows query now))"
proof -
  assume d: "distinct (map f rows)"
  let ?P = "\<lambda>row. passes_filter lower row (bq_filter query) (bq_max_age query) now"
  have "mset (map f (browse lower rows query now)) = mset (map f (filter ?P rows))" by (simp add: browse_def)
  moreover have "distinct (map f (filter ?P rows))" using d by (simp add: distinct_map_filter)
  ultimately show ?thesis by (metis mset_eq_imp_distinct_iff)
qed

lemma passes_needs_record:
  "passes_filter lower row f max_age now \<Longrightarrow> filter_requires_record f \<Longrightarrow> server_record row \<noteq> None"
  by (auto simp: passes_filter_def split: if_splits option.splits)

text \<open>What a browse returns. It is the rows that pass the filter, each as often as it was given, in an order
  where every row's comparison with a later one is not greater, rows the comparison cannot tell apart
  staying in the order they were heard; the comparison is a total preorder for every sort key in
  either direction; and a query that asks about anything a record carries never lists a legacy row.
\<close>
theorem browse_filters_and_sorts:
  "mset (browse lower rows query now) =
     mset (filter (\<lambda>row. passes_filter lower row (bq_filter query) (bq_max_age query) now) rows)
   \<and> sorted_wrt (\<lambda>a b. compare_rows lower query a b \<noteq> Greater) (browse lower rows query now)
   \<and> filter (\<lambda>b. compare_rows lower query a b = Equal) (browse lower rows query now) =
       filter (\<lambda>b. compare_rows lower query a b = Equal)
         (filter (\<lambda>row. passes_filter lower row (bq_filter query) (bq_max_age query) now) rows)
   \<and> \<not> (compare_rows lower query a b = Greater \<and> compare_rows lower query b a = Greater)
   \<and> \<not> (filter_requires_record (bq_filter query)
        \<and> list_ex (\<lambda>row. server_record row = None) (browse lower rows query now))"
proof -
  have "sorted_wrt (\<lambda>a b. compare_rows lower query a b \<noteq> Greater) (browse lower rows query now)"
    using browse_order.sorted_sort_by unfolding browse_def browse_order.le_def .
  moreover have "\<not> (compare_rows lower query a b = Greater \<and> compare_rows lower query b a = Greater)"
    using browse_order.total [of lower query a b] by (auto simp: browse_order.le_def)
  moreover have "\<not> (filter_requires_record (bq_filter query)
        \<and> list_ex (\<lambda>row. server_record row = None) (browse lower rows query now))"
    using passes_needs_record by (auto simp: list_ex_iff browse_set)
  ultimately show ?thesis
    by (simp add: browse_def browse_order.sort_by_stable)
qed

end
