(* ===== verification/Registry.thy ===== *)
theory Registry
  imports Browse Tables
begin

text \<open>
  \<^verbatim>\<open>crates/platform-index/src/registry.rs\<close>: what an index remembers of the servers it heard, and for
  how long. The registry is fed whole snapshots; \<open>registry_after\<close> is a history of them.
\<close>

definition DEFAULT_RETENTION :: duration where "DEFAULT_RETENTION = secs (15 * 60)"

record indexed_server =
  ix_server :: discovered_server
  ix_first_seen :: time

record registry =
  rg_servers :: "(bytes, indexed_server) table"
  rg_retention :: duration

definition new_registry :: registry where
  "new_registry = \<lparr>rg_servers = [], rg_retention = DEFAULT_RETENTION\<rparr>"

definition with_retention :: "duration \<Rightarrow> registry" where
  "with_retention retention = \<lparr>rg_servers = [], rg_retention = retention\<rparr>"

definition expire :: "time \<Rightarrow> registry \<Rightarrow> registry" where
  "expire now r =
     r\<lparr>rg_servers := tretain (\<lambda>_ s. if now < ds_last_seen (ix_server s) then True
          else now - ds_last_seen (ix_server s) \<le> rg_retention r) (rg_servers r)\<rparr>"

definition hear_one :: "time \<Rightarrow> discovered_server \<Rightarrow> (bytes, indexed_server) table
    \<Rightarrow> (bytes, indexed_server) table" where
  "hear_one now server servers =
     (let key = ds_destination_hash server in
      case tget servers key of
        Some existing \<Rightarrow> tput key (existing\<lparr>ix_server := server\<rparr>) servers
      | None \<Rightarrow> tput key \<lparr>ix_server = server, ix_first_seen = now\<rparr> servers)"

definition ingest :: "discovered_server list \<Rightarrow> time \<Rightarrow> registry \<Rightarrow> registry" where
  "ingest heard now r = expire now (r\<lparr>rg_servers := fold (hear_one now) heard (rg_servers r)\<rparr>)"

definition registry_len :: "registry \<Rightarrow> nat" where
  "registry_len r = length (rg_servers r)"

definition registry_is_empty :: "registry \<Rightarrow> bool" where
  "registry_is_empty r \<longleftrightarrow> rg_servers r = []"

definition registry_all :: "registry \<Rightarrow> indexed_server list" where
  "registry_all r =
     sort_by (\<lambda>a b. cmp (ds_destination_hash (ix_server a)) (ds_destination_hash (ix_server b)))
       (map snd (rg_servers r))"

definition query :: "(str \<Rightarrow> str) \<Rightarrow> browse_query \<Rightarrow> time \<Rightarrow> registry \<Rightarrow> discovered_server list" where
  "query lower q now r = browse lower (map (\<lambda>e. ix_server (snd e)) (rg_servers r)) q now"

definition first_seen :: "bytes \<Rightarrow> registry \<Rightarrow> time option" where
  "first_seen destination r = map_option ix_first_seen (tget (rg_servers r) destination)"

interpretation by_hash: rust_order
  "\<lambda>a b. cmp (ds_destination_hash (ix_server a)) (ds_destination_hash (ix_server b))"
  by (rule rust_order_by_key [OF rust_order_cmp])

section \<open>A history of snapshots\<close>

type_synonym snapshot = "discovered_server list \<times> time"

definition registry_after :: "duration \<Rightarrow> snapshot list \<Rightarrow> registry" where
  "registry_after retention snaps = fold (\<lambda>(heard, now). ingest heard now) snaps (with_retention retention)"

text \<open>The last announce of a destination the snapshots hold.\<close>

definition latest :: "snapshot list \<Rightarrow> bytes \<Rightarrow> discovered_server option" where
  "latest snaps k = List.find (\<lambda>s. ds_destination_hash s = k) (rev (concat (map fst snaps)))"

definition fresh :: "duration \<Rightarrow> time \<Rightarrow> discovered_server \<Rightarrow> bool" where
  "fresh retention now s \<longleftrightarrow> now \<le> ds_last_seen s + retention"

lemma expire_keeps: "(if now < ds_last_seen s then True else now - ds_last_seen s \<le> m) \<longleftrightarrow> fresh m now s"
  by (auto simp: fresh_def)

definition heard_table :: "snapshot list \<Rightarrow> (bytes, indexed_server) table \<Rightarrow> bool" where
  "heard_table snaps t \<longleftrightarrow> twf t
     \<and> (\<forall>k e. tget t k = Some e \<longrightarrow> latest snaps k = Some (ix_server e)
          \<and> (\<exists>(heard, now)\<in>set snaps. now = ix_first_seen e \<and> (\<exists>s\<in>set heard. ds_destination_hash s = k)))"

lemma find_append: "List.find P (xs @ ys) = (case List.find P xs of None \<Rightarrow> List.find P ys | Some x \<Rightarrow> Some x)"
  by (induction xs) auto

lemma latest_snoc_snap:
  "latest (snaps @ [(heard, now)]) k =
     (case List.find (\<lambda>s. ds_destination_hash s = k) (rev heard) of
        None \<Rightarrow> latest snaps k | Some s \<Rightarrow> Some s)"
  unfolding latest_def by (simp add: find_append)

lemma latest_key: "latest snaps k = Some s \<Longrightarrow> ds_destination_hash s = k"
  by (auto simp: latest_def find_Some_iff)

text \<open>What folding a snapshot in leaves under one key.\<close>

lemma fold_hear_get:
  "tget (fold (hear_one now) heard t) k =
     (case List.find (\<lambda>s. ds_destination_hash s = k) (rev heard) of
        None \<Rightarrow> tget t k
      | Some s \<Rightarrow> Some \<lparr>ix_server = s,
          ix_first_seen = (case tget t k of None \<Rightarrow> now | Some e \<Rightarrow> ix_first_seen e)\<rparr>)"
proof (induction heard rule: rev_induct)
  case (snoc x xs)
  show ?case
  proof (cases "ds_destination_hash x = k")
    case True
    with snoc show ?thesis
      by (cases "List.find (\<lambda>s. ds_destination_hash s = k) (rev xs)"; cases "tget t k")
        (simp_all add: hear_one_def Let_def tbl.get_put)
  next
    case False
    with snoc show ?thesis
      by (simp add: hear_one_def Let_def tbl.get_put split: option.splits)
  qed
qed simp

lemma fold_hear_wf: "twf t \<Longrightarrow> twf (fold (hear_one now) heard t)"
  by (induction heard arbitrary: t) (simp_all add: hear_one_def Let_def split: option.split)

lemma ingest_get:
  assumes "twf (rg_servers r)"
  shows "tget (rg_servers (ingest heard now r)) k =
    (case tget (fold (hear_one now) heard (rg_servers r)) k of
       None \<Rightarrow> None | Some e \<Rightarrow> if fresh (rg_retention r) now (ix_server e) then Some e else None)"
  using fold_hear_wf [OF assms, of now heard]
  by (simp add: ingest_def expire_def tbl.get_retain expire_keeps split: option.splits)

lemma ingest_wf: "twf (rg_servers r) \<Longrightarrow> twf (rg_servers (ingest heard now r))"
  by (simp add: ingest_def expire_def fold_hear_wf)

lemma ingest_retention [simp]: "rg_retention (ingest heard now r) = rg_retention r"
  by (simp add: ingest_def expire_def)

text \<open>The registry after a history: a destination is listed exactly while its last announce is fresh.\<close>

definition listed :: "duration \<Rightarrow> snapshot list \<Rightarrow> bytes \<Rightarrow> bool" where
  "listed retention snaps k \<longleftrightarrow>
     (\<exists>s. latest snaps k = Some s \<and> snd (last snaps) \<le> ds_last_seen s + retention)"

text \<open>It has been listed since \<open>t\<close>: it was heard in the snapshot of that time and not listed before that one,
  and has been listed after every snapshot since.\<close>

definition listed_since :: "duration \<Rightarrow> snapshot list \<Rightarrow> bytes \<Rightarrow> time \<Rightarrow> bool" where
  "listed_since retention snaps k t \<longleftrightarrow>
     (\<exists>before heard after. snaps = before @ (heard, t) # after \<and> k \<in> ds_destination_hash ` set heard
        \<and> \<not> listed retention before k
        \<and> (\<forall>mid rest. after = mid @ rest \<longrightarrow> listed retention (before @ (heard, t) # mid) k))"

lemma listed_since_now:
  "k \<in> ds_destination_hash ` set heard \<Longrightarrow> \<not> listed retention snaps k \<Longrightarrow>
   listed retention (snaps @ [(heard, now)]) k \<Longrightarrow> listed_since retention (snaps @ [(heard, now)]) k now"
  unfolding listed_since_def by (intro exI [of _ snaps] exI [of _ heard] exI [of _ "[]"]) simp

lemma listed_since_later:
  assumes "listed_since retention snaps k t" "listed retention (snaps @ [x]) k"
  shows "listed_since retention (snaps @ [x]) k t"
proof -
  obtain before heard after where s: "snaps = before @ (heard, t) # after" "k \<in> ds_destination_hash ` set heard"
      "\<not> listed retention before k"
    and run: "\<And>mid rest. after = mid @ rest \<Longrightarrow> listed retention (before @ (heard, t) # mid) k"
    using assms(1) unfolding listed_since_def by blast
  have "listed retention (before @ (heard, t) # mid) k" if "after @ [x] = mid @ rest" for mid rest
  proof (cases rest rule: rev_cases)
    case Nil
    with that have "mid = after @ [x]" by simp
    then show ?thesis using assms(2) s(1) by simp
  next
    case (snoc ys y)
    with that have "after = mid @ ys" by simp
    then show ?thesis by (rule run)
  qed
  with s show ?thesis unfolding listed_since_def
    by (intro exI [of _ before] exI [of _ heard] exI [of _ "after @ [x]"]) simp
qed

lemma listed_since_listed: "listed_since retention snaps k t \<Longrightarrow> listed retention snaps k"
  unfolding listed_since_def by force

text \<open>There is one such time.\<close>

lemma listed_since_unique:
  assumes "listed_since retention snaps k t" "listed_since retention snaps k t'"
  shows "t = t'"
proof -
  have no: False if eq: "b @ x # a = b' @ x' # a'" and le: "length b < length b'"
      and out: "\<not> listed retention b' k"
      and run: "\<And>mid rest. a = mid @ rest \<Longrightarrow> listed retention (b @ x # mid) k"
    for b b' a a' x x'
  proof -
    obtain us where us: "b' = b @ us" "x # a = us @ x' # a'"
      using eq le by (auto simp: append_eq_append_conv2)
    then obtain mid where "us = x # mid" using le by (cases us) auto
    with us run [of mid "x' # a'"] out show False by simp
  qed
  obtain b h a where s: "snaps = b @ (h, t) # a" "\<not> listed retention b k"
      "\<And>mid rest. a = mid @ rest \<Longrightarrow> listed retention (b @ (h, t) # mid) k"
    using assms(1) unfolding listed_since_def by blast
  obtain b' h' a' where s': "snaps = b' @ (h', t') # a'" "\<not> listed retention b' k"
      "\<And>mid rest. a' = mid @ rest \<Longrightarrow> listed retention (b' @ (h', t') # mid) k"
    using assms(2) unfolding listed_since_def by blast
  have eq: "b @ (h, t) # a = b' @ (h', t') # a'" using s(1) s'(1) by simp
  have "length b = length b'"
    using no [OF eq _ s'(2) s(3)] no [OF eq [symmetric] _ s(2) s'(3)] by (meson linorder_neqE_nat)
  with eq show ?thesis by simp
qed

definition remembers :: "duration \<Rightarrow> time \<Rightarrow> snapshot list \<Rightarrow> registry \<Rightarrow> bool" where
  "remembers retention now snaps r \<longleftrightarrow> twf (rg_servers r) \<and> rg_retention r = retention
     \<and> (\<forall>k. map_option ix_server (tget (rg_servers r) k) =
          (case latest snaps k of None \<Rightarrow> None | Some s \<Rightarrow> if fresh retention now s then Some s else None))
     \<and> (\<forall>k t. first_seen k r = Some t \<longrightarrow> listed_since retention snaps k t)"

lemma fresh_earlier: "fresh m now s \<Longrightarrow> before \<le> now \<Longrightarrow> fresh m before s"
  by (simp add: fresh_def)

lemma ingest_remembers:
  assumes "remembers retention before snaps r" "before \<le> now" "snaps \<noteq> [] \<Longrightarrow> before = snd (last snaps)"
  shows "remembers retention now (snaps @ [(heard, now)]) (ingest heard now r)"
proof -
  have wf: "twf (rg_servers r)" and ret: "rg_retention r = retention"
    and old: "\<And>k. map_option ix_server (tget (rg_servers r) k) =
          (case latest snaps k of None \<Rightarrow> None | Some s \<Rightarrow> if fresh retention before s then Some s else None)"
    and fs: "\<And>k t. first_seen k r = Some t \<Longrightarrow> listed_since retention snaps k t"
    using assms(1) by (auto simp: remembers_def)
  note get = ingest_get [OF wf, of heard now, unfolded ret fold_hear_get]
  have new: "map_option ix_server (tget (rg_servers (ingest heard now r)) k) =
      (case latest (snaps @ [(heard, now)]) k of None \<Rightarrow> None | Some s \<Rightarrow> if fresh retention now s then Some s else None)"
    for k
  proof (cases "List.find (\<lambda>s. ds_destination_hash s = k) (rev heard)")
    case None
    show ?thesis
    proof (cases "tget (rg_servers r) k")
      case None': None
      then have "\<forall>s. latest snaps k = Some s \<longrightarrow> \<not> fresh retention before s"
        using old [of k] by (auto split: option.splits if_splits)
      then have "\<forall>s. latest snaps k = Some s \<longrightarrow> \<not> fresh retention now s"
        using fresh_earlier assms(2) by blast
      then show ?thesis using None None' get [of k] by (auto simp: latest_snoc_snap split: option.splits)
    next
      case (Some e)
      then have "latest snaps k = Some (ix_server e)" using old [of k] by (auto split: option.splits if_splits)
      then show ?thesis using None Some get [of k] by (simp add: latest_snoc_snap)
    qed
  next
    case (Some s)
    then show ?thesis using get [of k] by (simp add: latest_snoc_snap)
  qed
  have here: "listed retention (snaps @ [(heard, now)]) k"
    if "first_seen k (ingest heard now r) = Some t" for k t
    using that new [of k] by (auto simp: first_seen_def listed_def fresh_def split: option.splits if_splits)
  have "listed_since retention (snaps @ [(heard, now)]) k t"
    if f: "first_seen k (ingest heard now r) = Some t" for k t
  proof (cases "tget (rg_servers r) k")
    case None
    then obtain s where s: "List.find (\<lambda>s. ds_destination_hash s = k) (rev heard) = Some s" and t: "t = now"
      using f get [of k] by (auto simp: first_seen_def split: option.splits if_splits)
    then have "s \<in> set heard \<and> ds_destination_hash s = k" using find_Some [OF s] by simp
    then have k: "k \<in> ds_destination_hash ` set heard" by auto
    have "\<forall>s. latest snaps k = Some s \<longrightarrow> \<not> fresh retention before s"
      using None old [of k] by (auto split: option.splits if_splits)
    then have "\<not> listed retention snaps k"
      using assms(3) by (cases "snaps = []") (auto simp: listed_def fresh_def latest_def)
    from listed_since_now [OF k this here [OF f]] show ?thesis by (simp add: t)
  next
    case (Some e)
    then have "t = ix_first_seen e" using f get [of k]
      by (auto simp: first_seen_def split: option.splits if_splits)
    with Some have "first_seen k r = Some t" by (simp add: first_seen_def)
    from listed_since_later [OF fs [OF this] here [OF f]] show ?thesis .
  qed
  with new wf ret show ?thesis by (simp add: remembers_def ingest_wf)
qed

lemma registry_after_snoc:
  "registry_after retention (snaps @ [(heard, now)]) = ingest heard now (registry_after retention snaps)"
  by (simp add: registry_after_def)

lemma registry_remembers:
  "sorted (map snd snaps) \<Longrightarrow> snaps \<noteq> [] \<Longrightarrow>
     remembers retention (snd (last snaps)) snaps (registry_after retention snaps)"
proof (induction snaps rule: rev_induct)
  case (snoc x xs)
  obtain heard now where x: "x = (heard, now)" by (cases x)
  have "remembers retention (if xs = [] then 0 else snd (last xs)) xs (registry_after retention xs)"
  proof (cases "xs = []")
    case True
    then show ?thesis
      by (simp add: remembers_def registry_after_def with_retention_def tbl.get_empty latest_def first_seen_def)
  next
    case False
    with snoc show ?thesis by (simp add: sorted_append)
  qed
  moreover have "(if xs = [] then 0 else snd (last xs)) \<le> now"
    using snoc.prems(1) x by (auto simp: sorted_append)
  ultimately show ?case
    using ingest_remembers [of retention "if xs = [] then 0 else snd (last xs)" xs "registry_after retention xs" now heard] x
    by (simp add: registry_after_snoc)
qed simp

lemma remembered_row:
  assumes "remembers retention now snaps r"
  shows "(j, e) \<in> set (rg_servers r) \<Longrightarrow> ds_destination_hash (ix_server e) = j"
    and "s \<in> set (map (\<lambda>e. ix_server (snd e)) (rg_servers r)) \<longleftrightarrow>
      latest snaps (ds_destination_hash s) = Some s \<and> now \<le> ds_last_seen s + retention"
proof -
  have wf: "twf (rg_servers r)"
    and srv: "\<And>k. map_option ix_server (tget (rg_servers r) k) =
      (case latest snaps k of None \<Rightarrow> None | Some s \<Rightarrow> if fresh retention now s then Some s else None)"
    using assms by (simp_all add: remembers_def)
  have srv': "map_option ix_server (tget (rg_servers r) k) = Some x \<longleftrightarrow>
      latest snaps k = Some x \<and> now \<le> ds_last_seen x + retention" for k x
    unfolding srv by (auto simp: fresh_def split: option.splits)
  have lat: "latest snaps j = Some (ix_server e) \<and> now \<le> ds_last_seen (ix_server e) + retention"
    if "(j, e) \<in> set (rg_servers r)" for j e
    using srv' [of j "ix_server e"] tget_of_set [OF wf that] by simp
  then show key: "(j, e) \<in> set (rg_servers r) \<Longrightarrow> ds_destination_hash (ix_server e) = j"
    using latest_key by blast
  show "s \<in> set (map (\<lambda>e. ix_server (snd e)) (rg_servers r)) \<longleftrightarrow>
      latest snaps (ds_destination_hash s) = Some s \<and> now \<le> ds_last_seen s + retention" (is "?L \<longleftrightarrow> ?R")
  proof
    assume ?L
    then obtain j e where "(j, e) \<in> set (rg_servers r)" "s = ix_server e" by auto
    with lat latest_key show ?R by metis
  next
    assume ?R
    then obtain e where e: "tget (rg_servers r) (ds_destination_hash s) = Some e" "ix_server e = s"
      using srv' [of "ds_destination_hash s" s] by auto
    show ?L using tget_in_set [OF e(1)] e(2) by force
  qed
qed

section \<open>Properties\<close>

text \<open>C40.
  An index lists the mesh, no more and no less. After any snapshots in the order of their times, a
  destination is remembered exactly when the last announce heard of it is at most the retention old,
  with exactly that announce; what it calls the first sighting is exactly the time since when it has been
  listed without a break: of the snapshot that held it when it was not listed, after every one since
  which it was, however often it was heard again; and the whole list comes sorted by destination, each at most once.
\<close>
theorem registry_mirrors_mesh:
  assumes "sorted (map snd snaps)" "snaps \<noteq> []" "r = registry_after retention snaps"
  shows "(map_option ix_server (tget (rg_servers r) k) = Some s
            \<longleftrightarrow> latest snaps k = Some s \<and> snd (last snaps) \<le> ds_last_seen s + retention)
    \<and> (first_seen k r = Some t \<longleftrightarrow> listed_since retention snaps k t)
    \<and> sorted (map (\<lambda>e. ds_destination_hash (ix_server e)) (registry_all r))
    \<and> distinct (map (\<lambda>e. ds_destination_hash (ix_server e)) (registry_all r))"
proof -
  have rem: "remembers retention (snd (last snaps)) snaps r" using registry_remembers assms by blast
  then have wf: "twf (rg_servers r)"
    and srv: "\<And>k. map_option ix_server (tget (rg_servers r) k) =
      (case latest snaps k of None \<Rightarrow> None | Some s \<Rightarrow> if fresh retention (snd (last snaps)) s then Some s else None)"
    by (simp_all add: remembers_def)
  have keys: "map (\<lambda>e. ds_destination_hash (ix_server (snd e))) (rg_servers r) = map fst (rg_servers r)"
    using remembered_row(1) [OF rem] by (auto intro: map_cong)
  have "mset (map (\<lambda>e. ds_destination_hash (ix_server e)) (registry_all r)) = mset (map fst (rg_servers r))"
    unfolding registry_all_def keys [symmetric] by (simp add: multiset.map_comp comp_def)
  then have "distinct (map (\<lambda>e. ds_destination_hash (ix_server e)) (registry_all r))"
    using wf unfolding twf_def by (metis mset_eq_imp_distinct_iff)
  moreover have "sorted (map (\<lambda>e. ds_destination_hash (ix_server e)) (registry_all r))"
    using by_hash.sorted_sort_by unfolding registry_all_def by_hash.le_def
    by (simp add: sorted_map)
  moreover have "map_option ix_server (tget (rg_servers r) k) = Some s
            \<longleftrightarrow> latest snaps k = Some s \<and> snd (last snaps) \<le> ds_last_seen s + retention"
    using srv [of k] by (auto simp: fresh_def split: option.splits if_splits)
  moreover have "first_seen k r = Some t \<longleftrightarrow> listed_since retention snaps k t"
  proof -
    have fs: "first_seen k r = Some t \<Longrightarrow> listed_since retention snaps k t" for t
      using rem by (simp add: remembers_def)
    have "\<exists>t. first_seen k r = Some t" if "listed retention snaps k"
      using that srv [of k] by (auto simp: listed_def fresh_def first_seen_def)
    with fs show ?thesis using listed_since_listed listed_since_unique by blast
  qed
  ultimately show ?thesis by blast
qed

definition sample_server :: discovered_server where
  "sample_server = \<lparr>ds_destination_hash = [7], ds_last_seen = 10, ds_hops = 1, ds_source_interface = 0,
     ds_info = Legacy None\<rparr>"

lemma sample_snaps: "sorted (map snd [([sample_server], 12)])" "[([sample_server], 12)] \<noteq> []"
  by simp_all

lemma sample_twice: "sorted (map snd [([sample_server], 12), ([sample_server], 14 :: time)])"
    "[([sample_server], 12), ([sample_server], 14)] \<noteq> []"
  by simp_all

text \<open>Heard at 12 and again at 14: first seen at 12.\<close>

theorem registry_mirrors_mesh_witness:
  "first_seen [7] (registry_after 5 [([sample_server], 12), ([sample_server], 14)]) = Some 12"
proof -
  have "listed 5 (([sample_server], 12) # mid) [7]" if "[([sample_server], 14)] = mid @ rest" for mid rest
    using that by (auto simp: Cons_eq_append_conv listed_def latest_def sample_server_def)
  then have "listed_since 5 [([sample_server], 12), ([sample_server], 14)] [7] 12"
    unfolding listed_since_def
    by (intro exI [of _ "[]"] exI [of _ "[sample_server]"] exI [of _ "[([sample_server], 14)]"])
      (simp add: listed_def latest_def sample_server_def)
  then show ?thesis using registry_mirrors_mesh [OF sample_twice refl, where retention = 5 and k = "[7]" and t = 12]
    by blast
qed

text \<open>An index answers like a launcher. A query over the registry, asked at or after the last snapshot,
  returns, each once, exactly the fresh last announces that pass the query's filter, in the order a
  launcher's own browse over those announces would be in: sorted by the same comparison.
\<close>
theorem index_answers_like_a_launcher:
  assumes "sorted (map snd snaps)" "snaps \<noteq> []" "r = registry_after retention snaps"
  shows "(s \<in> set (query lower q now r) \<longleftrightarrow>
       latest snaps (ds_destination_hash s) = Some s \<and> snd (last snaps) \<le> ds_last_seen s + retention
       \<and> passes_filter lower s (bq_filter q) (bq_max_age q) now)
    \<and> distinct (map ds_destination_hash (query lower q now r))
    \<and> sorted_wrt (\<lambda>a b. compare_rows lower q a b \<noteq> Greater) (query lower q now r)"
proof -
  have rem: "remembers retention (snd (last snaps)) snaps r" using registry_remembers assms by blast
  then have wf: "twf (rg_servers r)"
    and srv: "\<And>k. map_option ix_server (tget (rg_servers r) k) =
      (case latest snaps k of None \<Rightarrow> None | Some s \<Rightarrow> if fresh retention (snd (last snaps)) s then Some s else None)"
    by (simp_all add: remembers_def)
  note row = remembered_row [OF rem]
  have keys: "map (\<lambda>e. ds_destination_hash (ix_server (snd e))) (rg_servers r) = map fst (rg_servers r)"
    using row(1) by (auto intro: map_cong)
  let ?rows = "map (\<lambda>e. ix_server (snd e)) (rg_servers r)"
  have "map ds_destination_hash ?rows = map fst (rg_servers r)" unfolding keys [symmetric] by simp
  then have "distinct (map ds_destination_hash ?rows)" using wf by (metis twf_def)
  then have "distinct (map ds_destination_hash (query lower q now r))"
    unfolding query_def by (rule browse_distinct)
  moreover have "s \<in> set ?rows \<longleftrightarrow> latest snaps (ds_destination_hash s) = Some s
      \<and> snd (last snaps) \<le> ds_last_seen s + retention"
    using row(2) [of s] by simp
  moreover have "sorted_wrt (\<lambda>a b. compare_rows lower q a b \<noteq> Greater) (query lower q now r)"
    using browse_order.sorted_sort_by unfolding query_def browse_def browse_order.le_def .
  ultimately show ?thesis by (auto simp: query_def browse_set)
qed

theorem index_answers_like_a_launcher_witness:
  "sample_server \<in> set (query (\<lambda>t. t) default_query 13 (registry_after 5 [([sample_server], 12)]))"
  using index_answers_like_a_launcher [OF sample_snaps refl, where retention = 5 and s = sample_server
      and q = default_query and now = 13 and lower = "\<lambda>t. t"]
  by (simp add: latest_def sample_server_def passes_filter_def default_query_def default_filter_def is_stale_def
      server_record_def filter_requires_record_def)

end
