(* ===== verification/Index_Wire.thy ===== *)
theory Index_Wire
  imports Registry
begin

text \<open>
  \<^verbatim>\<open>crates/index-client/src/wire.rs\<close>: a query to an index and its answer, each in one link packet. A
  reader's position in the buffer is the rest of the buffer, so \<^verbatim>\<open>take\<close> cannot overflow.
\<close>

definition QUERY_SCHEMA :: u8 where "QUERY_SCHEMA = 1"
definition INDEX_ANNOUNCE :: bytes where "INDEX_ANNOUNCE = 0xFE # ascii ''LPI''"
definition MAX_RESPONSE_LEN :: nat where "MAX_RESPONSE_LEN = 1800"
definition ROW_LEGACY :: u8 where "ROW_LEGACY = 0"
definition ROW_RECORD :: u8 where "ROW_RECORD = 1"
definition FLAG_HAS_PLAYERS :: u8 where "FLAG_HAS_PLAYERS = 0x01"
definition FLAG_INCLUDE_LEGACY :: u8 where "FLAG_INCLUDE_LEGACY = 0x02"
definition FLAG_HAS_MAX_HOPS :: u8 where "FLAG_HAS_MAX_HOPS = 0x04"

lemmas index_consts = QUERY_SCHEMA_def MAX_RESPONSE_LEN_def ROW_LEGACY_def ROW_RECORD_def
  FLAG_HAS_PLAYERS_def FLAG_INCLUDE_LEGACY_def FLAG_HAS_MAX_HOPS_def

record index_query =
  iq_game_id :: str
  iq_max_hops :: "u8 option"
  iq_has_players :: bool
  iq_include_legacy :: bool

datatype wire_error = WireTruncated | WireInvalidUtf8 | UnsupportedSchema u8 | BadRow | TooLarge nat

record wire_row =
  wr_destination_hash :: bytes
  wr_hops :: u8
  wr_info :: announce_info

record query_result =
  qr_rows :: "wire_row list"
  qr_truncated :: bool
  qr_total_matched :: u16

definition take_bytes :: "nat \<Rightarrow> bytes \<Rightarrow> (wire_error, bytes \<times> bytes) outcome" where
  "take_bytes n buf = (if n > length buf then Err WireTruncated else Ok (take n buf, drop n buf))"

definition take_byte :: "bytes \<Rightarrow> (wire_error, u8 \<times> bytes) outcome" where
  "take_byte buf = and_then (take_bytes 1 buf) (\<lambda>(b, r). Ok (b ! 0, r))"

definition take_str :: "bytes \<Rightarrow> (wire_error, str \<times> bytes) outcome" where
  "take_str buf =
     and_then (take_byte buf) (\<lambda>(len, r).
     and_then (take_bytes (unat len) r) (\<lambda>(bs, r).
     case from_utf8 bs of None \<Rightarrow> Err WireInvalidUtf8 | Some s \<Rightarrow> Ok (s, r)))"

section \<open>Queries\<close>

definition encode_query :: "index_query \<Rightarrow> bytes" where
  "encode_query q =
     (let flags = 0;
          flags = (if iq_has_players q then flags OR FLAG_HAS_PLAYERS else flags);
          flags = (if iq_include_legacy q then flags OR FLAG_INCLUDE_LEGACY else flags);
          flags = (if iq_max_hops q \<noteq> None then flags OR FLAG_HAS_MAX_HOPS else flags);
          gid = take (min (length (iq_game_id q)) 24) (iq_game_id q)
      in [QUERY_SCHEMA, flags, case iq_max_hops q of None \<Rightarrow> 0 | Some h \<Rightarrow> h, of_nat (length gid)] @ gid)"

definition decode_query :: "bytes \<Rightarrow> (wire_error, index_query) outcome" where
  "decode_query buf =
     and_then (take_byte buf) (\<lambda>(schema, r).
     if schema \<noteq> QUERY_SCHEMA then Err (UnsupportedSchema schema) else
     and_then (take_byte r) (\<lambda>(flags, r).
     and_then (take_byte r) (\<lambda>(hops_byte, r).
     and_then (take_str r) (\<lambda>(game_id, r).
     Ok \<lparr>iq_game_id = game_id,
         iq_max_hops = (if flags AND FLAG_HAS_MAX_HOPS \<noteq> 0 then Some hops_byte else None),
         iq_has_players = (flags AND FLAG_HAS_PLAYERS \<noteq> 0),
         iq_include_legacy = (flags AND FLAG_INCLUDE_LEGACY \<noteq> 0)\<rparr>))))"

section \<open>Answers\<close>

text \<open>One row after its hash and hops; \<open>None\<close> when the record does not encode (\<open>continue\<close>).\<close>

definition encode_row :: "announce_info \<Rightarrow> bytes option" where
  "encode_row info =
     (case info of
        Record r \<Rightarrow> (case Announce.encode r of
            Ok bs \<Rightarrow> Some ([ROW_RECORD, of_nat (length bs)] @ bs)
          | _ \<Rightarrow> None)
      | Legacy name \<Rightarrow>
          let name = (case name of None \<Rightarrow> [] | Some n \<Rightarrow> n);
              name = take (min (length name) 48) name
          in Some ([ROW_LEGACY, of_nat (length name)] @ name))"

text \<open>The loop over the rows: \<open>used\<close> is \<open>buf.len()\<close>; the result is what it appends, \<open>written\<close> and
  \<open>truncated\<close>.\<close>

fun encode_rows :: "discovered_server list \<Rightarrow> nat \<Rightarrow> nat \<Rightarrow> bytes \<times> nat \<times> bool" where
  "encode_rows [] used written = ([], written, False)"
| "encode_rows (row # rows) used written =
     (if written = 255 then ([], written, True)
      else case encode_row (ds_info row) of
        None \<Rightarrow> encode_rows rows used written
      | Some e \<Rightarrow>
          if used + 17 + length e > MAX_RESPONSE_LEN then ([], written, True)
          else let (body, w, t) = encode_rows rows (used + 17 + length e) (written + 1)
               in (ds_destination_hash row @ [ds_hops row] @ e @ body, w, t))"

definition encode_result :: "discovered_server list \<Rightarrow> nat \<Rightarrow> bytes" where
  "encode_result rows total_matched =
     (let (body, written, truncated) = encode_rows rows 5 0;
          flags = (if truncated \<or> written < total_matched then 0x01 else 0)
      in [QUERY_SCHEMA, flags] @ to_be 2 (of_nat (min total_matched 65535) :: u16)
         @ [of_nat written] @ body)"

definition decode_info :: "u8 \<Rightarrow> bytes \<Rightarrow> (wire_error, announce_info) outcome" where
  "decode_info kind body =
     (if kind = ROW_RECORD then
        (case Announce.decode body of
           Ok (Record r) \<Rightarrow> Ok (Record r)
         | Ok (Legacy _) \<Rightarrow> Err BadRow
         | Err _ \<Rightarrow> Err BadRow
         | Panic \<Rightarrow> Panic)
      else if kind = ROW_LEGACY then
        (case from_utf8 body of
           None \<Rightarrow> Err WireInvalidUtf8
         | Some name \<Rightarrow> Ok (Legacy (if name \<noteq> [] then Some name else None)))
      else Err BadRow)"

definition decode_row :: "bytes \<Rightarrow> (wire_error, wire_row \<times> bytes) outcome" where
  "decode_row buf =
     and_then (take_bytes 16 buf) (\<lambda>(hash, r).
     and_then (take_byte r) (\<lambda>(hops, r).
     and_then (take_byte r) (\<lambda>(kind, r).
     and_then (take_byte r) (\<lambda>(len, r).
     and_then (take_bytes (unat len) r) (\<lambda>(body, r).
     and_then (decode_info kind body) (\<lambda>info.
     Ok (\<lparr>wr_destination_hash = hash, wr_hops = hops, wr_info = info\<rparr>, r)))))))"

definition decode_result :: "bytes \<Rightarrow> (wire_error, query_result) outcome" where
  "decode_result buf =
     (if length buf > MAX_RESPONSE_LEN then Err (TooLarge (length buf)) else
      and_then (take_byte buf) (\<lambda>(schema, r).
      if schema \<noteq> QUERY_SCHEMA then Err (UnsupportedSchema schema) else
      and_then (take_byte r) (\<lambda>(flags, r).
      and_then (take_bytes 2 r) (\<lambda>(tot, r).
      and_then (take_byte r) (\<lambda>(count, r).
      and_then (dec_many decode_row (unat count) r) (\<lambda>(rows, r).
      Ok \<lparr>qr_rows = rows, qr_truncated = (flags AND 0x01 \<noteq> 0), qr_total_matched = of_be tot\<rparr>))))))"

section \<open>Reading\<close>

lemma take_byte_Cons [simp]: "take_byte (b # r) = Ok (b, r)"
  by (simp add: take_byte_def take_bytes_def)

lemma take_byte_Nil [simp]: "take_byte [] = Err WireTruncated"
  by (simp add: take_byte_def take_bytes_def)

lemma take_bytes_append [simp]: "length xs = n \<Longrightarrow> take_bytes n (xs @ r) = Ok (xs, r)"
  by (simp add: take_bytes_def)

lemma take_bytes_not_Panic [simp]: "take_bytes n r \<noteq> Panic"
  by (simp add: take_bytes_def)

lemma take_byte_not_Panic [simp]: "take_byte r \<noteq> Panic"
  by (auto simp: take_byte_def outcome_simps split: prod.splits)

lemma take_str_not_Panic [simp]: "take_str r \<noteq> Panic"
  by (auto simp: take_str_def outcome_simps split: prod.splits option.splits)

lemma decode_info_not_Panic [simp]: "decode_info kind body \<noteq> Panic"
  by (auto simp: decode_info_def decode_not_Panic split: outcome.splits announce_info.splits option.splits)

lemma decode_row_not_Panic [simp]: "decode_row buf \<noteq> Panic"
  by (auto simp: decode_row_def outcome_simps split: prod.splits)

lemma decode_result_not_Panic: "decode_result buf \<noteq> Panic"
  by (auto simp: decode_result_def outcome_simps dec_many_not_Panic split: prod.splits)

lemma decode_query_not_Panic: "decode_query buf \<noteq> Panic"
  by (auto simp: decode_query_def outcome_simps split: prod.splits)

section \<open>Rows on the wire\<close>

text \<open>What a client sees of a row: an empty legacy name is no name.\<close>

fun wire_info :: "announce_info \<Rightarrow> announce_info" where
  "wire_info (Record r) = Record r"
| "wire_info (Legacy n) = Legacy (if n = Some [] then None else n)"

definition wire_row :: "discovered_server \<Rightarrow> wire_row" where
  "wire_row row = \<lparr>wr_destination_hash = ds_destination_hash row, wr_hops = ds_hops row,
     wr_info = wire_info (ds_info row)\<rparr>"

text \<open>A row that survives the trip: a record of at most 255 bytes, or a name of at most 48.\<close>

fun sendable_info :: "announce_info \<Rightarrow> bool" where
  "sendable_info (Record r) \<longleftrightarrow> (\<exists>bs. Announce.encode r = Ok bs \<and> length bs \<le> 255)
     \<and> utf8_valid (rec_name r) \<and> utf8_valid (rec_map r)"
| "sendable_info (Legacy n) \<longleftrightarrow> (case n of None \<Rightarrow> True | Some s \<Rightarrow> utf8_valid s \<and> length s \<le> 48)"

definition sendable :: "discovered_server \<Rightarrow> bool" where
  "sendable row \<longleftrightarrow> length (ds_destination_hash row) = 16 \<and> sendable_info (ds_info row)"

definition wire_ok :: "wire_row \<Rightarrow> bool" where
  "wire_ok w \<longleftrightarrow> length (wr_destination_hash w) = 16 \<and> sendable_info (wr_info w)
     \<and> wire_info (wr_info w) = wr_info w"

definition wire_bytes :: "wire_row \<Rightarrow> bytes" where
  "wire_bytes w = wr_destination_hash w @ [wr_hops w]
     @ (case encode_row (wr_info w) of None \<Rightarrow> [] | Some e \<Rightarrow> e)"

lemma wire_row_ok: "sendable row \<Longrightarrow> wire_ok (wire_row row)"
  by (cases "ds_info row") (auto simp: sendable_def wire_ok_def wire_row_def split: option.splits)

lemma encode_wire_info: "encode_row (wire_info i) = encode_row i"
  by (cases i) (auto simp: encode_row_def split: option.split)

interpretation row_codec: seq_codec wire_bytes decode_row wire_ok
proof
  fix w r
  assume ok: "wire_ok w"
  show "decode_row (wire_bytes w @ r) = Ok (w, r)"
  proof (cases "wr_info w")
    case (Record rec)
    then obtain bs where e: "Announce.encode rec = Ok bs" "length bs \<le> 255"
      and u: "utf8_valid (rec_name rec)" "utf8_valid (rec_map rec)"
      using ok by (auto simp: wire_ok_def)
    have "decode_info 1 bs = Ok (Record rec)"
      using decode_encode [OF e(1) u] by (simp add: decode_info_def index_consts)
    with e ok Record show ?thesis
      by (cases w) (simp add: decode_row_def wire_bytes_def encode_row_def wire_ok_def index_consts)
  next
    case (Legacy n)
    define name where "name = (case n of None \<Rightarrow> [] | Some x \<Rightarrow> x)"
    have v: "utf8_valid name" "length name \<le> 48"
      using ok Legacy by (auto simp: wire_ok_def name_def split: option.splits)
    have "encode_row (wr_info w) = Some ([0, of_nat (length name)] @ name)"
      using v by (simp add: encode_row_def Legacy name_def [symmetric] index_consts Let_def)
    moreover have "decode_info 0 name = Ok (wr_info w)"
      using v(1) ok Legacy by (cases n) (auto simp: decode_info_def index_consts name_def wire_ok_def)
    ultimately show ?thesis using ok v
      by (cases w) (simp add: decode_row_def wire_bytes_def wire_ok_def)
  qed
qed

lemma encode_row_sendable:
  assumes "sendable row"
  shows "\<exists>e. encode_row (ds_info row) = Some e
    \<and> wire_bytes (wire_row row) = ds_destination_hash row @ [ds_hops row] @ e
    \<and> length (wire_bytes (wire_row row)) = 17 + length e"
proof -
  obtain e where e: "encode_row (ds_info row) = Some e"
    using assms by (cases "ds_info row") (auto simp: sendable_def encode_row_def Let_def)
  then have "wire_bytes (wire_row row) = ds_destination_hash row @ [ds_hops row] @ e"
    by (simp add: wire_bytes_def wire_row_def encode_wire_info)
  with e assms show ?thesis by (simp add: sendable_def)
qed

definition rows_bytes :: "discovered_server list \<Rightarrow> bytes" where
  "rows_bytes rows = concat (map (\<lambda>row. wire_bytes (wire_row row)) rows)"

text \<open>The loop writes a prefix of the rows, the longest that fits.\<close>

lemma encode_rows_prefix:
  assumes "list_all sendable rows" "used \<le> MAX_RESPONSE_LEN" "written \<le> 255"
  shows "\<exists>n\<le>length rows. encode_rows rows used written = (rows_bytes (take n rows), written + n, n < length rows)
    \<and> used + length (rows_bytes (take n rows)) \<le> MAX_RESPONSE_LEN \<and> written + n \<le> 255
    \<and> (n < length rows \<longrightarrow>
         written + n = 255 \<or> used + length (rows_bytes (take (Suc n) rows)) > MAX_RESPONSE_LEN)"
  using assms
proof (induction rows arbitrary: used written)
  case Nil
  then show ?case by (simp add: rows_bytes_def)
next
  case (Cons row rows)
  obtain e where e: "encode_row (ds_info row) = Some e"
    "wire_bytes (wire_row row) = ds_destination_hash row @ [ds_hops row] @ e"
    "length (wire_bytes (wire_row row)) = 17 + length e"
    using encode_row_sendable [of row] Cons.prems(1) by auto
  show ?case
  proof (cases "written = 255 \<or> used + 17 + length e > MAX_RESPONSE_LEN")
    case True
    with Cons.prems e show ?thesis by (intro exI [of _ 0]) (auto simp: rows_bytes_def)
  next
    case False
    then have le: "used + 17 + length e \<le> MAX_RESPONSE_LEN" "written + 1 \<le> 255" using Cons.prems(3) by auto
    obtain n where n: "n \<le> length rows"
      "encode_rows rows (used + 17 + length e) (written + 1) = (rows_bytes (take n rows), written + 1 + n, n < length rows)"
      "used + 17 + length e + length (rows_bytes (take n rows)) \<le> MAX_RESPONSE_LEN" "written + 1 + n \<le> 255"
      "n < length rows \<Longrightarrow> written + 1 + n = 255
         \<or> used + 17 + length e + length (rows_bytes (take (Suc n) rows)) > MAX_RESPONSE_LEN"
      using Cons.IH [OF _ le] Cons.prems(1) by auto
    have pre: "rows_bytes (take (Suc m) (row # rows)) = ds_destination_hash row @ [ds_hops row] @ e @ rows_bytes (take m rows)"
      "length (rows_bytes (take (Suc m) (row # rows))) = 17 + length e + length (rows_bytes (take m rows))" for m
      using e by (simp_all add: rows_bytes_def)
    have run: "encode_rows (row # rows) used written = (rows_bytes (take (Suc n) (row # rows)), written + Suc n, Suc n < length (row # rows))"
      using False e(1) n(2) pre(1) by (simp del: take_Suc_Cons)
    have more: "written + Suc n = 255 \<or> used + length (rows_bytes (take (Suc (Suc n)) (row # rows))) > MAX_RESPONSE_LEN"
      if "Suc n < length (row # rows)"
      using n(5) that unfolding pre(2) by auto
    show ?thesis
    proof (intro exI [of _ "Suc n"] conjI impI)
      show "Suc n \<le> length (row # rows)" using n(1) by simp
      show "used + length (rows_bytes (take (Suc n) (row # rows))) \<le> MAX_RESPONSE_LEN" unfolding pre(2) using n(3) by simp
      show "written + Suc n \<le> 255" using n(4) by simp
    qed (rule run, rule more)
  qed
qed

lemma length_rows_bytes: "list_all sendable rows \<Longrightarrow> 5 + length (rows_bytes rows) \<le> MAX_RESPONSE_LEN \<Longrightarrow> length rows \<le> 255"
proof -
  assume s: "list_all sendable rows" and l: "5 + length (rows_bytes rows) \<le> MAX_RESPONSE_LEN"
  have "17 * length rows \<le> length (rows_bytes rows)"
    using s
  proof (induction rows)
    case (Cons row rows)
    then have "sendable row" by simp
    then obtain e :: bytes where "length (wire_bytes (wire_row row)) = 17 + length e" using encode_row_sendable [OF \<open>sendable row\<close>] by blast
    with Cons show ?case by (simp add: rows_bytes_def)
  qed simp
  with l show ?thesis by (simp add: MAX_RESPONSE_LEN_def)
qed

lemma wire_rows_concat: "rows_bytes rows = concat (map wire_bytes (map wire_row rows))"
  by (simp add: rows_bytes_def comp_def)

lemma result_round:
  assumes "list_all sendable rows"
  shows "\<exists>n\<le>length rows. length (encode_result rows tot) \<le> MAX_RESPONSE_LEN
    \<and> decode_result (encode_result rows tot) =
        Ok \<lparr>qr_rows = map wire_row (take n rows), qr_truncated = (n < length rows \<or> n < tot),
            qr_total_matched = of_nat (min tot 65535)\<rparr>
    \<and> (n < length rows \<longrightarrow> 5 + length (rows_bytes (take (Suc n) rows)) > MAX_RESPONSE_LEN)"
proof -
  obtain n where n: "n \<le> length rows" "encode_rows rows 5 0 = (rows_bytes (take n rows), n, n < length rows)"
    "5 + length (rows_bytes (take n rows)) \<le> MAX_RESPONSE_LEN" "n \<le> 255"
    "n < length rows \<Longrightarrow> n = 255 \<or> 5 + length (rows_bytes (take (Suc n) rows)) > MAX_RESPONSE_LEN"
    using encode_rows_prefix [OF assms, of 5 0] by (auto simp: MAX_RESPONSE_LEN_def)
  let ?body = "rows_bytes (take n rows)"
  let ?f = "if n < length rows \<or> n < tot then 0x01 else 0 :: u8"
  have enc: "encode_result rows tot = [1, ?f] @ to_be 2 (of_nat (min tot 65535) :: u16) @ [of_nat n] @ ?body"
    by (simp add: encode_result_def n(2) index_consts)
  have ok: "list_all wire_ok (map wire_row (take n rows))"
    using assms wire_row_ok by (auto simp: list_all_iff dest: in_set_takeD)
  have many: "dec_many decode_row n ?body = Ok (map wire_row (take n rows), [])"
    using row_codec.dec_many_enc_all [OF ok] n(1) by (simp add: wire_rows_concat)
  have cnt: "unat (of_nat n :: u8) = n" using n(4) by simp
  have len: "length (encode_result rows tot) \<le> MAX_RESPONSE_LEN" using n(3) enc by simp
  have dec: "decode_result (encode_result rows tot) =
        Ok \<lparr>qr_rows = map wire_row (take n rows), qr_truncated = (n < length rows \<or> n < tot),
            qr_total_matched = of_nat (min tot 65535)\<rparr>"
  proof -
    have "decode_result (encode_result rows tot) =
       and_then (dec_many decode_row (unat (of_nat n :: u8)) ?body) (\<lambda>(rows, r).
       Ok \<lparr>qr_rows = rows, qr_truncated = (?f AND 0x01 \<noteq> 0), qr_total_matched = of_nat (min tot 65535)\<rparr>)"
      using len by (simp only: decode_result_def not_less [symmetric] if_False) (simp add: enc index_consts)
    then show ?thesis by (simp add: cnt many)
  qed
  have "n < length rows \<Longrightarrow> 5 + length (rows_bytes (take (Suc n) rows)) > MAX_RESPONSE_LEN"
  proof (rule ccontr)
    assume l: "n < length rows" and c: "\<not> 5 + length (rows_bytes (take (Suc n) rows)) > MAX_RESPONSE_LEN"
    then have "n = 255" using n(5) by blast
    moreover have "list_all sendable (take (Suc n) rows)" using assms by (auto simp: list_all_iff dest: in_set_takeD)
    then have "length (take (Suc n) rows) \<le> 255" using length_rows_bytes [OF _ c [unfolded not_less]] by blast
    ultimately show False using l by simp
  qed
  with n(1) len dec show ?thesis by blast
qed

section \<open>Rows that do not survive\<close>

lemma encode_rows_bound:
  "list_all (\<lambda>row. length (ds_destination_hash row) = 16) rows \<Longrightarrow> used \<le> MAX_RESPONSE_LEN \<Longrightarrow> written \<le> 255 \<Longrightarrow>
     used + length (fst (encode_rows rows used written)) \<le> MAX_RESPONSE_LEN
     \<and> written \<le> fst (snd (encode_rows rows used written)) \<and> fst (snd (encode_rows rows used written)) \<le> 255"
proof (induction rows used written rule: encode_rows.induct)
  case (2 row rows used written)
  show ?case
  proof (cases "written = 255")
    case w: False
    show ?thesis
    proof (cases "encode_row (ds_info row)")
      case None
      with 2 w show ?thesis by simp
    next
      case (Some e)
      show ?thesis
      proof (cases "used + 17 + length e > MAX_RESPONSE_LEN")
        case False
        have "(used + 17 + length e) + length (fst (encode_rows rows (used + 17 + length e) (written + 1))) \<le> MAX_RESPONSE_LEN
          \<and> written + 1 \<le> fst (snd (encode_rows rows (used + 17 + length e) (written + 1)))
          \<and> fst (snd (encode_rows rows (used + 17 + length e) (written + 1))) \<le> 255"
          by (rule 2(2) [OF w Some False]) (use 2 w False in auto)
        with w Some False 2(3) show ?thesis by (simp add: split_def Let_def)
      qed (use w Some 2 in simp)
    qed
  qed (use 2 in simp)
qed simp

text \<open>An answer whose first row is encoded as \<open>e\<close>: how its decoding starts.\<close>

lemma first_row_decoded:
  assumes "list_all (\<lambda>row. length (ds_destination_hash row) = 16) (row # rows)"
    "encode_row (ds_info row) = Some e" "length e \<le> 1000"
  shows "\<exists>rest m f tt. decode_result (encode_result (row # rows) tot) =
     and_then (decode_row (ds_destination_hash row @ [ds_hops row] @ e @ rest)) (\<lambda>(w, r).
     and_then (dec_many decode_row m r) (\<lambda>(ws, r').
       Ok \<lparr>qr_rows = w # ws, qr_truncated = f, qr_total_matched = tt\<rparr>))"
proof -
  obtain b w t where run: "encode_rows rows (5 + 17 + length e) 1 = (b, w, t)" by (metis prod_cases3)
  have l: "\<not> 5 + 17 + length e > MAX_RESPONSE_LEN" using assms(3) by (simp add: MAX_RESPONSE_LEN_def)
  have "encode_rows (row # rows) 5 0 = (ds_destination_hash row @ [ds_hops row] @ e @ b, w, t)"
    using run assms(2) l by simp
  note enc = this
  have bd: "5 + length (ds_destination_hash row @ [ds_hops row] @ e @ b) \<le> MAX_RESPONSE_LEN" "w \<le> 255"
    using encode_rows_bound [OF assms(1), of 5 0, unfolded enc] by (simp_all add: MAX_RESPONSE_LEN_def)
  have "1 \<le> w" using encode_rows_bound [of rows "5 + 17 + length e" 1] run assms(1) l by simp
  then obtain m where m: "w = Suc m" by (cases w) auto
  let ?f = "if t \<or> w < tot then 0x01 else 0 :: u8"
  have e: "encode_result (row # rows) tot =
      [1, ?f] @ to_be 2 (of_nat (min tot 65535) :: u16) @ [of_nat w] @ ds_destination_hash row @ [ds_hops row] @ e @ b"
    by (simp only: encode_result_def enc Let_def prod.case index_consts append.simps append_assoc)
  have le: "\<not> length (encode_result (row # rows) tot) > MAX_RESPONSE_LEN" using bd(1) by (simp add: e)
  have "unat (of_nat w :: u8) = w" using bd(2) by simp
  then have cnt: "unat (of_nat w :: u8) = Suc m" unfolding m .
  have "decode_result (encode_result (row # rows) tot) =
      and_then (dec_many decode_row (Suc m) (ds_destination_hash row @ [ds_hops row] @ e @ b)) (\<lambda>(rows, r).
       Ok \<lparr>qr_rows = rows, qr_truncated = (?f AND 0x01 \<noteq> 0), qr_total_matched = of_nat (min tot 65535)\<rparr>)"
    using le by (simp only: decode_result_def if_False) (simp add: e index_consts cnt [symmetric])
  also have "\<dots> = and_then (decode_row (ds_destination_hash row @ [ds_hops row] @ e @ b)) (\<lambda>(w, r).
     and_then (dec_many decode_row m r) (\<lambda>(ws, r').
       Ok \<lparr>qr_rows = w # ws, qr_truncated = (?f AND 0x01 \<noteq> 0), qr_total_matched = of_nat (min tot 65535)\<rparr>))"
    by (simp add: and_then_assoc split_def)
  finally show ?thesis by blast
qed

lemma cut_name_spoils:
  assumes "list_all (\<lambda>row. length (ds_destination_hash row) = 16) (row # rows)"
    "ds_info row = Legacy (Some name)" "48 < length name" "\<not> utf8_valid (take 48 name)"
  shows "decode_result (encode_result (row # rows) tot) = Err WireInvalidUtf8"
proof -
  have e: "encode_row (ds_info row) = Some ([ROW_LEGACY, 48] @ take 48 name)"
    using assms(2,3) by (simp add: encode_row_def Let_def)
  have lb: "length ([ROW_LEGACY, 48] @ take 48 name) \<le> 1000" by simp
  obtain rest m f tt where d: "decode_result (encode_result (row # rows) tot) =
     and_then (decode_row (ds_destination_hash row @ [ds_hops row] @ ([ROW_LEGACY, 48] @ take 48 name) @ rest)) (\<lambda>(w, r).
     and_then (dec_many decode_row m r) (\<lambda>(ws, r').
       Ok \<lparr>qr_rows = w # ws, qr_truncated = f, qr_total_matched = tt\<rparr>))"
    using first_row_decoded [OF assms(1) e lb, of tot] by blast
  have "decode_row (ds_destination_hash row @ [ds_hops row] @ ([ROW_LEGACY, 48] @ take 48 name) @ rest) = Err WireInvalidUtf8"
    using assms(1,3,4) by (simp add: decode_row_def decode_info_def index_consts from_utf8_def)
  with d show ?thesis by simp
qed

lemma long_record_lost:
  assumes "list_all (\<lambda>row. length (ds_destination_hash row) = 16) (row # rows)"
    "ds_info row = Record r" "Announce.encode r = Ok bs" "255 < length bs"
    "decode_result (encode_result (row # rows) tot) = Ok res"
  shows "hd (qr_rows res) \<noteq> wire_row row"
proof
  assume hd: "hd (qr_rows res) = wire_row row"
  have b: "length bs \<le> 284" using encode_bound [OF assms(3)] by (simp add: announce_lens)
  let ?n = "of_nat (length bs) :: u8"
  have e: "encode_row (ds_info row) = Some ([ROW_RECORD, ?n] @ bs)" using assms(2,3) by (simp add: encode_row_def)
  have lb: "length ([ROW_RECORD, ?n] @ bs) \<le> 1000" using b by simp
  obtain rest m f tt where d: "decode_result (encode_result (row # rows) tot) =
     and_then (decode_row (ds_destination_hash row @ [ds_hops row] @ ([ROW_RECORD, ?n] @ bs) @ rest)) (\<lambda>(w, r).
     and_then (dec_many decode_row m r) (\<lambda>(ws, r').
       Ok \<lparr>qr_rows = w # ws, qr_truncated = f, qr_total_matched = tt\<rparr>))"
    using first_row_decoded [OF assms(1) e lb, of tot] by blast
  have "length bs mod 256 = length bs - 256" using assms(4) b by (subst mod_if) simp
  then have n: "unat ?n = length bs - 256" by (simp add: unat_of_nat)
  let ?dec = "decode_row (ds_destination_hash row @ [ds_hops row] @ ([ROW_RECORD, ?n] @ bs) @ rest)"
  have dec: "?dec = and_then (decode_info ROW_RECORD (take (length bs - 256) bs)) (\<lambda>info.
     Ok (\<lparr>wr_destination_hash = ds_destination_hash row, wr_hops = ds_hops row, wr_info = info\<rparr>,
         drop (length bs - 256) bs @ rest))"
  proof -
    have "take_bytes (length bs - 256) (bs @ rest) = Ok (take (length bs - 256) bs, drop (length bs - 256) bs @ rest)"
      by (simp add: take_bytes_def)
    then show ?thesis using assms(1) by (simp add: decode_row_def n)
  qed
  obtain info where info': "decode_info ROW_RECORD (take (length bs - 256) bs) = Ok info"
    using d assms(5) unfolding dec by (cases "decode_info ROW_RECORD (take (length bs - 256) bs)") simp_all
  have "wr_info (hd (qr_rows res)) = info"
    using d assms(5) unfolding dec info'
    by (cases "dec_many decode_row m (drop (length bs - 256) bs @ rest)") (auto split: prod.splits)
  then have info: "decode_info ROW_RECORD (take (length bs - 256) bs) = Ok (Record r)"
    using hd assms(2) info' by (simp add: wire_row_def)
  then have "Announce.decode (take (length bs - 256) bs) = Ok (Record r)"
    by (auto simp: decode_info_def index_consts split: outcome.splits announce_info.splits)
  from encode_decode [OF this] have "Announce.encode r =
      Ok ((take (length bs - 256) bs)[2 := take (length bs - 256) bs ! 2 AND 0x3F])"
    using b assms(3) by (simp add: announce_lens encode_Ok_iff del: take_append)
  then have "length bs = length (take (length bs - 256) bs)" unfolding assms(3) by (metis length_list_update outcome.inject(1))
  then show False using assms(4) by simp
qed

section \<open>Properties\<close>

text \<open>A query whose game id is valid text of at most 24 bytes is read back unchanged, "at most zero hops"
  kept apart from "any distance".\<close>

lemma query_round:
  assumes "utf8_valid (iq_game_id q)" "length (iq_game_id q) \<le> 24"
  shows "decode_query (encode_query q) = Ok q"
proof -
  have "take_str (of_nat (length (iq_game_id q)) # iq_game_id q) = Ok (iq_game_id q, [])"
    using assms take_bytes_append [of "iq_game_id q" "length (iq_game_id q)" "[]"]
    by (simp add: take_str_def)
  then show ?thesis using assms(2)
    by (cases q) (auto simp: encode_query_def decode_query_def index_consts Let_def split: option.split)
qed

text \<open>An answer across the mesh. An answer over rows whose records encode to at most 255 bytes and whose legacy
  names are at most 48 bytes fits the 1800-byte cap and is read back as a prefix of the rows, each
  intact; it leaves rows out only when one more would pass the cap, and then it is marked truncated, as
  it is when fewer than the matching rows were sent; the total is right up to 65535.
\<close>
theorem index_answer_round_trip:
  assumes "list_all sendable rows"
  shows "\<exists>n\<le>length rows. length (encode_result rows tot) \<le> MAX_RESPONSE_LEN
    \<and> decode_result (encode_result rows tot) =
        Ok \<lparr>qr_rows = map wire_row (take n rows), qr_truncated = (n < length rows \<or> n < tot),
            qr_total_matched = of_nat (min tot 65535)\<rparr>
    \<and> (n < length rows \<longrightarrow> 5 + length (rows_bytes (take (Suc n) rows)) > MAX_RESPONSE_LEN)"
  using result_round [OF assms] .

definition sample_rows :: "discovered_server list" where
  "sample_rows = [\<lparr>ds_destination_hash = replicate 16 3, ds_last_seen = 0, ds_hops = 2, ds_source_interface = 0,
     ds_info = Legacy (Some [0x48, 0x69])\<rparr>]"

lemma sample_rows_sendable: "list_all sendable sample_rows"
  by (simp add: sample_rows_def sendable_def is_ascii_def)

theorem index_answer_round_trip_witness:
  "\<exists>n\<le>1. decode_result (encode_result sample_rows 1) =
     Ok \<lparr>qr_rows = map wire_row (take n sample_rows), qr_truncated = (n < 1), qr_total_matched = 1\<rparr>"
  using index_answer_round_trip [OF sample_rows_sendable, of 1] by (auto simp: sample_rows_def)

text \<open>What one row can do to an answer. A legacy server whose name, a valid announce, runs past 48 bytes with a
  character across the 48th makes the whole answer unreadable when it comes first, whatever rows follow; and
  a record that encodes to more than 255 bytes, which the announce allows up to 284, never arrives: its
  length byte wraps.
\<close>
theorem one_row_can_spoil_an_answer:
  assumes "list_all (\<lambda>row. length (ds_destination_hash row) = 16) (row # rows)"
  shows "(ds_info row = Legacy (Some name) \<and> 48 < length name \<and> \<not> utf8_valid (take 48 name)
       \<longrightarrow> decode_result (encode_result (row # rows) tot) = Err WireInvalidUtf8)
    \<and> (ds_info row = Record r \<and> Announce.encode r = Ok bs \<and> 255 < length bs
        \<and> decode_result (encode_result (row # rows) tot) = Ok res
       \<longrightarrow> hd (qr_rows res) \<noteq> wire_row row)"
  using cut_name_spoils [OF assms] long_record_lost [OF assms] by blast

definition accented_name :: str where
  "accented_name = replicate 47 0x61 @ [0xC3, 0xA9]"

definition accented_server :: discovered_server where
  "accented_server = \<lparr>ds_destination_hash = replicate 16 9, ds_last_seen = 0, ds_hops = 1,
     ds_source_interface = 0, ds_info = Legacy (Some accented_name)\<rparr>"

lemma utf8_prefix_a: "utf8_chars (replicate n 0x61 @ s) = map_option (\<lambda>cs. replicate n 97 @ cs) (utf8_chars s)"
  by (induction n) (simp_all add: option.map_comp comp_def option.map_ident)

lemma accented_cut: "48 < length accented_name" "\<not> utf8_valid (take 48 accented_name)" "utf8_valid accented_name"
proof -
  have t: "take 48 accented_name = replicate 47 0x61 @ [0xC3]" by (simp add: accented_name_def)
  have c: "utf8_chars [0xC3 :: u8] = None" by (subst utf8_chars.simps) simp
  have d: "utf8_chars [0xC3 :: u8, 0xA9] \<noteq> None" by (subst utf8_chars.simps) (simp add: cont_in_def)
  show "48 < length accented_name" by (simp add: accented_name_def)
  show "\<not> utf8_valid (take 48 accented_name)" unfolding t utf8_valid_def utf8_prefix_a c by simp
  show "utf8_valid accented_name" unfolding accented_name_def utf8_valid_def utf8_prefix_a using d by simp
qed

theorem one_row_can_spoil_an_answer_witness:
  "decode_result (encode_result [accented_server] 1) = Err WireInvalidUtf8 \<and> utf8_valid accented_name"
  using one_row_can_spoil_an_answer [of accented_server "[]" accented_name 1] accented_cut
  by (simp add: accented_server_def)

end
