(* ===== verification/Auth.thy ===== *)
theory Auth
  imports Tables Sorts
begin

text \<open>
  \<^verbatim>\<open>crates/platform-auth/src/lib.rs\<close>: signing in to an index with a Reticulum identity. The Reticulum
  library (\<^verbatim>\<open>prns_core\<close>: reading a key, verifying, deriving the identity, signing) and the \<^verbatim>\<open>hex\<close> crate
  are the fields of a \<open>crypto\<close>; what the system's randomness gave is an argument, \<open>None\<close> when it gave
  nothing. \<open>hex_law\<close> and \<open>sign_law\<close> are their documented behaviour where a property needs it.
\<close>

definition AUTH_DOMAIN :: bytes where
  "AUTH_DOMAIN = ascii ''gaming-platform-prns/auth/v1'' @ [0, 0, 0, 0]"
definition NONCE_LEN :: nat where "NONCE_LEN = 32"
definition TOKEN_LEN :: nat where "TOKEN_LEN = 32"
definition DEFAULT_CHALLENGE_TTL :: duration where "DEFAULT_CHALLENGE_TTL = secs 60"
definition DEFAULT_SESSION_TTL :: duration where "DEFAULT_SESSION_TTL = secs (60 * 60 * 12)"
definition MAX_PENDING_CHALLENGES :: nat where "MAX_PENDING_CHALLENGES = 10000"
definition MAX_SESSIONS :: nat where "MAX_SESSIONS = 100000"
definition MAX_SESSIONS_PER_IDENTITY :: nat where "MAX_SESSIONS_PER_IDENTITY = 8"

datatype auth_error =
    UnknownChallenge | ChallengeExpired | MalformedPublicKey | MalformedSignature | BadSignature
  | UnknownSession | SessionExpired | ClockWentBackwards | NoEntropy | Busy

record challenge =
  ch_nonce :: str
  ch_audience :: str
  ch_expires_in_secs :: nat

record challenge_response =
  cr_nonce :: str
  cr_public_key :: str
  cr_signature :: str

record session =
  se_token :: str
  se_identity :: str
  se_expires_in_secs :: nat

text \<open>The libraries: hex both ways, a public key from bytes, a signature's check, a key's identity hash.\<close>

record 'k crypto =
  hex_encode :: "bytes \<Rightarrow> str"
  hex_decode :: "str \<Rightarrow> bytes option"
  key_from_slice :: "bytes \<Rightarrow> 'k option"
  key_verify :: "'k \<Rightarrow> bytes \<Rightarrow> bytes \<Rightarrow> bool"
  identity_hash :: "'k \<Rightarrow> bytes"

definition signing_material :: "bytes \<Rightarrow> bytes \<Rightarrow> bytes" where
  "signing_material audience nonce = AUTH_DOMAIN @ audience @ nonce"

definition constant_time_eq :: "bytes \<Rightarrow> bytes \<Rightarrow> bool" where
  "constant_time_eq a b =
     (if length a \<noteq> length b then False
      else foldl (\<lambda>diff (x, y). diff OR (x XOR y)) 0 (zip a b) = 0)"

definition decode_fixed :: "'k crypto \<Rightarrow> nat \<Rightarrow> str \<Rightarrow> bytes option" where
  "decode_fixed c n hex_str =
     (case hex_decode c (str_trim hex_str) of
        None \<Rightarrow> None
      | Some bs \<Rightarrow> if length bs = n then Some bs else None)"

record active_session =
  as_identity :: bytes
  as_created_at :: time
  as_expires_at :: time

record authenticator =
  au_audience :: bytes
  au_challenge_ttl :: duration
  au_session_ttl :: duration
  au_pending :: "(bytes, time) table"
  au_sessions :: "(bytes, active_session) table"

definition new_authenticator :: "bytes \<Rightarrow> authenticator" where
  "new_authenticator audience =
     \<lparr>au_audience = audience, au_challenge_ttl = DEFAULT_CHALLENGE_TTL, au_session_ttl = DEFAULT_SESSION_TTL,
      au_pending = [], au_sessions = []\<rparr>"

definition with_ttls :: "duration \<Rightarrow> duration \<Rightarrow> authenticator \<Rightarrow> authenticator" where
  "with_ttls challenge session a = a\<lparr>au_challenge_ttl := challenge, au_session_ttl := session\<rparr>"

definition sweep :: "time \<Rightarrow> authenticator \<Rightarrow> authenticator" where
  "sweep now a =
     a\<lparr>au_pending := tretain (\<lambda>_ expires. now \<le> expires) (au_pending a),
       au_sessions := tretain (\<lambda>_ s. now \<le> as_expires_at s) (au_sessions a)\<rparr>"

definition issue_challenge :: "'k crypto \<Rightarrow> bytes option \<Rightarrow> time \<Rightarrow> authenticator
    \<Rightarrow> (auth_error, challenge) outcome \<times> authenticator" where
  "issue_challenge c entropy now a =
     (let a = sweep now a in
      if length (au_pending a) \<ge> MAX_PENDING_CHALLENGES then (Err Busy, a)
      else case entropy of
        None \<Rightarrow> (Err NoEntropy, a)
      | Some nonce \<Rightarrow>
          (Ok \<lparr>ch_nonce = hex_encode c nonce, ch_audience = hex_encode c (au_audience a),
               ch_expires_in_secs = au_challenge_ttl a div 1000000000\<rparr>,
           a\<lparr>au_pending := tput nonce (now + au_challenge_ttl a) (au_pending a)\<rparr>))"

text \<open>The key and the signature of a response, checked against the material for this verifier.\<close>

definition check_response :: "'k crypto \<Rightarrow> bytes \<Rightarrow> bytes \<Rightarrow> challenge_response \<Rightarrow> (auth_error, bytes) outcome" where
  "check_response c audience nonce response =
     (case hex_decode c (str_trim (cr_public_key response)) of None \<Rightarrow> Err MalformedPublicKey | Some key_bytes \<Rightarrow>
     (case key_from_slice c key_bytes of None \<Rightarrow> Err MalformedPublicKey | Some public \<Rightarrow>
     (case hex_decode c (str_trim (cr_signature response)) of None \<Rightarrow> Err MalformedSignature | Some sig \<Rightarrow>
        if length sig \<noteq> 64 then Err MalformedSignature
        else if \<not> key_verify c public (signing_material audience nonce) sig then Err BadSignature
        else Ok (identity_hash c public))))"

text \<open>This identity's oldest sessions, dropped to make room for one more.\<close>

definition make_room :: "bytes \<Rightarrow> (bytes, active_session) table \<Rightarrow> (bytes, active_session) table" where
  "make_room identity sessions =
     (let own = map (\<lambda>(t, s). (t, as_created_at s)) (filter (\<lambda>e. as_identity (snd e) = identity) sessions);
          own = sort_by (\<lambda>a b. cmp (snd a) (snd b)) own
      in fold (\<lambda>(token, _) ss. tdel token ss) (take (length own + 1 - MAX_SESSIONS_PER_IDENTITY) own) sessions)"

definition open_session :: "'k crypto \<Rightarrow> bytes \<Rightarrow> bytes option \<Rightarrow> time \<Rightarrow> authenticator
    \<Rightarrow> (auth_error, session) outcome \<times> authenticator" where
  "open_session c identity entropy now a =
     (let own = length (filter (\<lambda>e. as_identity (snd e) = identity) (au_sessions a)) in
      if own < MAX_SESSIONS_PER_IDENTITY \<and> length (au_sessions a) \<ge> MAX_SESSIONS then (Err Busy, a)
      else let a = (if own \<ge> MAX_SESSIONS_PER_IDENTITY
                    then a\<lparr>au_sessions := make_room identity (au_sessions a)\<rparr> else a)
        in case entropy of
             None \<Rightarrow> (Err NoEntropy, a)
           | Some token \<Rightarrow>
               (Ok \<lparr>se_token = hex_encode c token, se_identity = hex_encode c identity,
                    se_expires_in_secs = au_session_ttl a div 1000000000\<rparr>,
                a\<lparr>au_sessions := tput token \<lparr>as_identity = identity, as_created_at = now,
                      as_expires_at = now + au_session_ttl a\<rparr> (au_sessions a)\<rparr>))"

definition verify :: "'k crypto \<Rightarrow> challenge_response \<Rightarrow> bytes option \<Rightarrow> time \<Rightarrow> authenticator
    \<Rightarrow> (auth_error, session) outcome \<times> authenticator" where
  "verify c response entropy now a =
     (let a = sweep now a in
      case decode_fixed c NONCE_LEN (cr_nonce response) of None \<Rightarrow> (Err UnknownChallenge, a) | Some nonce \<Rightarrow>
      (case tget (au_pending a) nonce of None \<Rightarrow> (Err UnknownChallenge, a) | Some expires_at \<Rightarrow>
         let a = a\<lparr>au_pending := tdel nonce (au_pending a)\<rparr> in
         if now > expires_at then (Err ChallengeExpired, a)
         else case check_response c (au_audience a) nonce response of
           Ok identity \<Rightarrow> open_session c identity entropy now a
         | Err e \<Rightarrow> (Err e, a)
         | Panic \<Rightarrow> (Panic, a)))"

definition authenticate :: "'k crypto \<Rightarrow> str \<Rightarrow> time \<Rightarrow> authenticator \<Rightarrow> (auth_error, bytes) outcome" where
  "authenticate c token_hex now a =
     (case decode_fixed c TOKEN_LEN token_hex of None \<Rightarrow> Err UnknownSession | Some token \<Rightarrow>
     (case tget (au_sessions a) token of None \<Rightarrow> Err UnknownSession | Some s \<Rightarrow>
        if \<not> constant_time_eq token token then Err UnknownSession
        else if now > as_expires_at s then Err SessionExpired
        else Ok (as_identity s)))"

definition revoke :: "'k crypto \<Rightarrow> str \<Rightarrow> authenticator \<Rightarrow> authenticator" where
  "revoke c token_hex a =
     (case decode_fixed c TOKEN_LEN token_hex of
        None \<Rightarrow> a
      | Some token \<Rightarrow> a\<lparr>au_sessions := tdel token (au_sessions a)\<rparr>)"

definition revoke_identity :: "bytes \<Rightarrow> authenticator \<Rightarrow> nat \<times> authenticator" where
  "revoke_identity identity a =
     (let kept = tretain (\<lambda>_ s. as_identity s \<noteq> identity) (au_sessions a)
      in (length (au_sessions a) - length kept, a\<lparr>au_sessions := kept\<rparr>))"

definition pending_challenges :: "authenticator \<Rightarrow> nat" where
  "pending_challenges a = length (au_pending a)"

definition active_sessions :: "authenticator \<Rightarrow> nat" where
  "active_sessions a = length (au_sessions a)"

section \<open>The client\<close>

text \<open>The secret key is what it shows of itself and how it signs.\<close>

record secret_key =
  sk_public :: bytes
  sk_sign :: "bytes \<Rightarrow> bytes"

definition answer_challenge :: "'k crypto \<Rightarrow> challenge \<Rightarrow> bytes \<Rightarrow> secret_key
    \<Rightarrow> (auth_error, challenge_response) outcome" where
  "answer_challenge c challenge expected_audience secret =
     (case decode_fixed c 16 (ch_audience challenge) of None \<Rightarrow> Err MalformedPublicKey | Some audience \<Rightarrow>
        if audience \<noteq> expected_audience then Err BadSignature
        else case decode_fixed c NONCE_LEN (ch_nonce challenge) of None \<Rightarrow> Err UnknownChallenge | Some nonce \<Rightarrow>
          Ok \<lparr>cr_nonce = ch_nonce challenge, cr_public_key = hex_encode c (sk_public secret),
              cr_signature = hex_encode c (sk_sign secret (signing_material expected_audience nonce))\<rparr>)"

section \<open>Sessions of one identity\<close>

definition own_count :: "bytes \<Rightarrow> (bytes, active_session) table \<Rightarrow> nat" where
  "own_count identity sessions = length (filter (\<lambda>e. as_identity (snd e) = identity) sessions)"

lemma own_count_le: "own_count i ss \<le> length ss"
  by (simp add: own_count_def)

lemma own_count_retain: "own_count i (tretain P ss) \<le> own_count i ss"
  by (induction ss) (auto simp: own_count_def tretain_def)

lemma own_count_del: "own_count i (tdel k ss) \<le> own_count i ss"
  by (induction ss) (auto simp: own_count_def tdel_def)

lemma own_count_put: "own_count i (tput k s ss) \<le> own_count i ss + of_bool (as_identity s = i)"
  by (induction ss) (auto simp: own_count_def tput_def)

lemma fold_tdel: "fold (\<lambda>e ss. tdel (fst e) ss) ts ss = filter (\<lambda>e. fst e \<notin> fst ` set ts) ss"
  by (induction ts arbitrary: ss) (auto simp: tdel_def intro!: filter_cong)

lemma tdel_pair: "(\<lambda>(token, _) ss. tdel token ss) = (\<lambda>e ss. tdel (fst e) ss)"
  by (simp add: split_def)

lemma own_count_without:
  assumes "twf ss" "T \<subseteq> fst ` set (filter (\<lambda>e. as_identity (snd e) = i) ss)"
  shows "own_count i (filter (\<lambda>e. fst e \<notin> T) ss) = own_count i ss - card T"
proof -
  let ?o = "filter (\<lambda>e. as_identity (snd e) = i) ss"
  have d: "distinct (map fst ?o)" using assms(1) by (simp add: twf_def distinct_map_filter)
  have "length (filter (\<lambda>e. fst e \<in> T) ?o) = length (filter (\<lambda>t. t \<in> T) (map fst ?o))"
    by (simp add: filter_map comp_def)
  also have "\<dots> = card ({t. t \<in> T} \<inter> set (map fst ?o))" using d by (rule distinct_length_filter)
  also have "{t. t \<in> T} \<inter> set (map fst ?o) = T" using assms(2) by auto
  finally have "length (filter (\<lambda>e. fst e \<in> T) ?o) = card T" .
  moreover have "own_count i (filter (\<lambda>e. fst e \<notin> T) ss) = length (filter (\<lambda>e. fst e \<notin> T) ?o)"
    unfolding own_count_def filter_filter by (intro arg_cong [where f = length] filter_cong) auto
  ultimately show ?thesis
    using sum_length_filter_compl [of "\<lambda>e. fst e \<in> T" ?o] unfolding own_count_def by linarith
qed

lemma own_count_filter: "own_count j (filter P ss) \<le> own_count j ss"
  by (induction ss) (auto simp: own_count_def)

text \<open>The tokens dropped to make room: as many of the identity's own as pass the limit.\<close>

lemma make_room_tokens:
  assumes "twf ss" "MAX_SESSIONS_PER_IDENTITY \<le> own_count i ss"
  shows "\<exists>T. make_room i ss = filter (\<lambda>e. fst e \<notin> T) ss
    \<and> T \<subseteq> fst ` set (filter (\<lambda>e. as_identity (snd e) = i) ss)
    \<and> card T = own_count i ss + 1 - MAX_SESSIONS_PER_IDENTITY"
proof -
  define own where "own = map (\<lambda>(t, s). (t, as_created_at s)) (filter (\<lambda>e. as_identity (snd e) = i) ss)"
  define srt where "srt = sort_by (\<lambda>a b. cmp (snd a) (snd b)) own"
  define k where "k = length own + 1 - MAX_SESSIONS_PER_IDENTITY"
  have n: "length own = own_count i ss" by (simp add: own_def own_count_def)
  have keys: "map fst own = map fst (filter (\<lambda>e. as_identity (snd e) = i) ss)"
    by (simp add: own_def comp_def split_def)
  have d: "distinct (map fst own)" unfolding keys using assms(1) by (simp add: twf_def distinct_map_filter)
  have ms: "mset (map fst srt) = mset (map fst own)" by (simp add: srt_def)
  have "distinct (take k (map fst srt))" using mset_eq_imp_distinct_iff [OF ms] d by simp
  then have "card (set (take k (map fst srt))) = length (take k (map fst srt))" by (rule distinct_card)
  moreover have "length srt = length own" by (simp add: srt_def)
  ultimately have c: "card (set (take k (map fst srt))) = k" by (simp add: k_def MAX_SESSIONS_PER_IDENTITY_def)
  have "set (take k (map fst srt)) \<subseteq> set (map fst own)"
    using set_take_subset [of k "map fst srt"] mset_eq_setD [OF ms] by simp
  then have sub: "set (take k (map fst srt)) \<subseteq> fst ` set (filter (\<lambda>e. as_identity (snd e) = i) ss)"
    unfolding keys by simp
  have "make_room i ss = filter (\<lambda>e. fst e \<notin> set (take k (map fst srt))) ss"
    by (simp add: make_room_def own_def [symmetric] srt_def [symmetric] tdel_pair fold_tdel k_def Let_def take_map)
  with sub c n show ?thesis by (intro exI conjI) (assumption, assumption, simp add: k_def)
qed

text \<open>Making room leaves one slot fewer than the limit, and touches nobody else's sessions.\<close>

lemma make_room_facts:
  assumes "twf ss" "MAX_SESSIONS_PER_IDENTITY \<le> own_count i ss"
  shows "own_count i (make_room i ss) = MAX_SESSIONS_PER_IDENTITY - 1"
    and "twf (make_room i ss)" "length (make_room i ss) < length ss"
    and "own_count j (make_room i ss) \<le> own_count j ss"
proof -
  obtain T where mr: "make_room i ss = filter (\<lambda>e. fst e \<notin> T) ss"
    and sub: "T \<subseteq> fst ` set (filter (\<lambda>e. as_identity (snd e) = i) ss)"
    and c: "card T = own_count i ss + 1 - MAX_SESSIONS_PER_IDENTITY"
    using make_room_tokens [OF assms] by blast
  show "own_count i (make_room i ss) = MAX_SESSIONS_PER_IDENTITY - 1"
    using own_count_without [OF assms(1) sub] c assms(2) unfolding mr by simp
  show "twf (make_room i ss)" using assms(1) unfolding mr twf_def by (rule distinct_map_filter)
  have "T \<noteq> {}" using c assms(2) by (intro notI) simp
  then obtain e where "e \<in> set ss" "fst e \<in> T" using sub by force
  then show "length (make_room i ss) < length ss" unfolding mr by (auto intro: length_filter_less)
  show "own_count j (make_room i ss) \<le> own_count j ss" unfolding mr by (rule own_count_filter)
qed

section \<open>The invariant\<close>

definition pending_ok :: "(bytes, time) table \<Rightarrow> bool" where
  "pending_ok p \<longleftrightarrow> twf p \<and> length p \<le> MAX_PENDING_CHALLENGES"

definition sessions_ok :: "(bytes, active_session) table \<Rightarrow> bool" where
  "sessions_ok ss \<longleftrightarrow> twf ss \<and> length ss \<le> MAX_SESSIONS \<and> (\<forall>i. own_count i ss \<le> MAX_SESSIONS_PER_IDENTITY)"

definition auth_ok :: "authenticator \<Rightarrow> bool" where
  "auth_ok a \<longleftrightarrow> pending_ok (au_pending a) \<and> sessions_ok (au_sessions a)"

lemma pending_ok_steps [step_inv]:
  "pending_ok p \<Longrightarrow> pending_ok (tretain P p)"
  "pending_ok p \<Longrightarrow> pending_ok (tdel k p)"
  "pending_ok p \<Longrightarrow> length p < MAX_PENDING_CHALLENGES \<Longrightarrow> pending_ok (tput k v p)"
  using tbl.len_retain [of P p] tbl.len_del [of k p]
  by (auto simp: pending_ok_def tbl.len_put)

lemma sessions_ok_filter: "sessions_ok ss \<Longrightarrow> sessions_ok (filter P ss)"
  unfolding sessions_ok_def twf_def
  by (meson distinct_map_filter length_filter_le order_trans own_count_filter)

lemma sessions_ok_steps [step_inv]:
  "sessions_ok ss \<Longrightarrow> sessions_ok (tretain Q ss)"
  "sessions_ok ss \<Longrightarrow> sessions_ok (tdel k ss)"
  by (simp_all add: tretain_def tdel_def sessions_ok_filter)

lemma sessions_ok_put [step_inv]:
  assumes "sessions_ok ss" "own_count (as_identity s) ss < MAX_SESSIONS_PER_IDENTITY" "length ss < MAX_SESSIONS"
  shows "sessions_ok (tput t s ss)"
proof -
  have "own_count i (tput t s ss) \<le> MAX_SESSIONS_PER_IDENTITY" for i
    using own_count_put [of i t s ss] assms(1,2) unfolding sessions_ok_def
    by (cases "as_identity s = i") (auto intro: order_trans)
  moreover have "length (tput t s ss) \<le> MAX_SESSIONS" using assms(3) by (simp add: tbl.len_put)
  ultimately show ?thesis using assms(1) by (simp add: sessions_ok_def)
qed

lemma make_room_ok:
  assumes "sessions_ok ss" "MAX_SESSIONS_PER_IDENTITY \<le> own_count i ss"
  shows "sessions_ok (make_room i ss) \<and> own_count i (make_room i ss) < MAX_SESSIONS_PER_IDENTITY
    \<and> length (make_room i ss) < MAX_SESSIONS"
proof -
  have wf: "twf ss" "length ss \<le> MAX_SESSIONS" using assms(1) by (simp_all add: sessions_ok_def)
  obtain T where mr: "make_room i ss = filter (\<lambda>e. fst e \<notin> T) ss" using make_room_tokens [OF wf(1) assms(2)] by blast
  have "sessions_ok (make_room i ss)" unfolding mr by (rule sessions_ok_filter [OF assms(1)])
  moreover have "length (make_room i ss) < MAX_SESSIONS" using make_room_facts(3) [OF wf(1) assms(2)] wf(2) by simp
  moreover have "own_count i (make_room i ss) < MAX_SESSIONS_PER_IDENTITY"
    using make_room_facts(1) [OF wf(1) assms(2)] by (simp add: MAX_SESSIONS_PER_IDENTITY_def)
  ultimately show ?thesis by blast
qed

lemma sweep_ok [step_inv]: "auth_ok a \<Longrightarrow> auth_ok (sweep now a)"
  by (simp add: auth_ok_def sweep_def step_inv)

lemma issue_ok [step_inv]: "auth_ok a \<Longrightarrow> auth_ok (snd (issue_challenge c e now a))"
  using sweep_ok [of a now]
  by (auto simp: issue_challenge_def Let_def auth_ok_def not_le intro: step_inv split: option.splits)

text \<open>\<open>open_session\<close> with the room made, in one equation.\<close>

definition roomy :: "bytes \<Rightarrow> (bytes, active_session) table \<Rightarrow> (bytes, active_session) table" where
  "roomy i ss = (if MAX_SESSIONS_PER_IDENTITY \<le> own_count i ss then make_room i ss else ss)"

lemma open_session_eq:
  "open_session c i e now a =
     (if own_count i (au_sessions a) < MAX_SESSIONS_PER_IDENTITY \<and> length (au_sessions a) \<ge> MAX_SESSIONS
      then (Err Busy, a)
      else case e of
        None \<Rightarrow> (Err NoEntropy, a\<lparr>au_sessions := roomy i (au_sessions a)\<rparr>)
      | Some token \<Rightarrow>
          (Ok \<lparr>se_token = hex_encode c token, se_identity = hex_encode c i,
               se_expires_in_secs = au_session_ttl a div 1000000000\<rparr>,
           a\<lparr>au_sessions := tput token \<lparr>as_identity = i, as_created_at = now,
                 as_expires_at = now + au_session_ttl a\<rparr> (roomy i (au_sessions a))\<rparr>))"
  by (cases e) (simp_all add: open_session_def own_count_def [symmetric] roomy_def Let_def)

lemma roomy_ok:
  assumes "sessions_ok ss" "\<not> (own_count i ss < MAX_SESSIONS_PER_IDENTITY \<and> length ss \<ge> MAX_SESSIONS)"
  shows "sessions_ok (roomy i ss) \<and> own_count i (roomy i ss) < MAX_SESSIONS_PER_IDENTITY
    \<and> length (roomy i ss) < MAX_SESSIONS"
  using assms make_room_ok [OF assms(1), of i] by (auto simp: roomy_def not_le)

lemma open_session_ok [step_inv]: "auth_ok a \<Longrightarrow> auth_ok (snd (open_session c i e now a))"
  using roomy_ok [of "au_sessions a" i] sessions_ok_put [of "roomy i (au_sessions a)"]
  by (auto simp: open_session_eq auth_ok_def split: option.split)

lemma verify_ok [step_inv]:
  assumes "auth_ok a"
  shows "auth_ok (snd (verify c response e now a))"
proof -
  have s: "auth_ok (sweep now a)" by (rule sweep_ok [OF assms])
  have d: "auth_ok ((sweep now a)\<lparr>au_pending := tdel n (au_pending (sweep now a))\<rparr>)" for n
    using s by (simp add: auth_ok_def step_inv)
  have o: "auth_ok (snd (open_session c i e now ((sweep now a)\<lparr>au_pending := tdel n (au_pending (sweep now a))\<rparr>)))" for i n
    by (rule open_session_ok [OF d])
  show ?thesis
    using s d o by (simp add: verify_def Let_def split: option.split outcome.split)
qed

lemma revoke_ok [step_inv]: "auth_ok a \<Longrightarrow> auth_ok (revoke c t a)" "auth_ok a \<Longrightarrow> auth_ok (snd (revoke_identity i a))"
  by (auto simp: revoke_def revoke_identity_def auth_ok_def Let_def step_inv split: option.split)

section \<open>A verifier's history\<close>

datatype auth_op =
    Issue "bytes option" time
  | Answer challenge_response "bytes option" time
  | Revoke str
  | RevokeIdentity bytes

fun apply_auth :: "'k crypto \<Rightarrow> auth_op \<Rightarrow> authenticator \<Rightarrow> authenticator" where
  "apply_auth c (Issue e now) a = snd (issue_challenge c e now a)"
| "apply_auth c (Answer r e now) a = snd (verify c r e now a)"
| "apply_auth c (Revoke t) a = revoke c t a"
| "apply_auth c (RevokeIdentity i) a = snd (revoke_identity i a)"

definition auth_after :: "'k crypto \<Rightarrow> authenticator \<Rightarrow> auth_op list \<Rightarrow> authenticator" where
  "auth_after c a ops = fold (apply_auth c) ops a"

definition fresh_verifier :: "bytes \<Rightarrow> duration \<Rightarrow> duration \<Rightarrow> authenticator" where
  "fresh_verifier audience challenge_ttl session_ttl = with_ttls challenge_ttl session_ttl (new_authenticator audience)"

lemma fresh_verifier_ok: "auth_ok (fresh_verifier audience ct st)"
  by (simp add: fresh_verifier_def with_ttls_def new_authenticator_def auth_ok_def pending_ok_def sessions_ok_def
      own_count_def table_simps)

lemma apply_auth_ok: "auth_ok a \<Longrightarrow> auth_ok (apply_auth c op a)"
  by (cases op) (simp_all add: step_inv)

lemma auth_after_ok: "auth_ok a \<Longrightarrow> auth_ok (auth_after c a ops)"
  unfolding auth_after_def by (induction ops arbitrary: a) (simp_all add: apply_auth_ok)

text \<open>Every pending challenge was issued, and expires a lifetime later.\<close>

definition issued_in :: "bytes \<Rightarrow> duration \<Rightarrow> auth_op list \<Rightarrow> authenticator \<Rightarrow> bool" where
  "issued_in audience ttl ops a \<longleftrightarrow> au_audience a = audience \<and> au_challenge_ttl a = ttl
     \<and> (\<forall>(n, x)\<in>set (au_pending a). \<exists>t. Issue (Some n) t \<in> set ops \<and> x = t + ttl)"

lemma open_session_rest [simp]:
  "au_pending (snd (open_session c i e now a)) = au_pending a"
  "au_audience (snd (open_session c i e now a)) = au_audience a"
  "au_challenge_ttl (snd (open_session c i e now a)) = au_challenge_ttl a"
  by (simp_all add: open_session_eq split: option.split)

lemma verify_pending:
  "set (au_pending (snd (verify c r e now a))) \<subseteq> set (au_pending a)
   \<and> au_audience (snd (verify c r e now a)) = au_audience a
   \<and> au_challenge_ttl (snd (verify c r e now a)) = au_challenge_ttl a"
  by (auto simp: verify_def Let_def sweep_def split: option.splits outcome.splits)

lemma issue_pending:
  "set (au_pending (snd (issue_challenge c e now a))) \<subseteq> set (au_pending a)
     \<union> {(n, now + au_challenge_ttl a) | n. e = Some n}
   \<and> au_audience (snd (issue_challenge c e now a)) = au_audience a
   \<and> au_challenge_ttl (snd (issue_challenge c e now a)) = au_challenge_ttl a"
proof (cases e)
  case None
  then show ?thesis by (auto simp: issue_challenge_def Let_def sweep_def)
next
  case (Some n)
  then show ?thesis
    using set_tput_subset [of n "now + au_challenge_ttl a" "tretain (\<lambda>_ expires. now \<le> expires) (au_pending a)"]
    by (auto simp: issue_challenge_def Let_def sweep_def)
qed

lemma apply_auth_issued:
  assumes "issued_in audience ttl ops a"
  shows "issued_in audience ttl (ops @ [op]) (apply_auth c op a)"
proof -
  have old: "\<exists>t. Issue (Some n) t \<in> set (ops @ [op]) \<and> x = t + ttl" if "(n, x) \<in> set (au_pending a)" for n x
    using assms that by (auto simp: issued_in_def)
  have rest: "au_audience a = audience" "au_challenge_ttl a = ttl" using assms by (simp_all add: issued_in_def)
  show ?thesis
  proof (cases op)
    case (Issue e now)
    have "\<exists>t. Issue (Some n) t \<in> set (ops @ [op]) \<and> x = t + ttl"
      if "(n, x) \<in> set (au_pending (apply_auth c op a))" for n x
    proof (cases "(n, x) \<in> set (au_pending a)")
      case False
      then have "e = Some n" "x = now + ttl"
        using that issue_pending [of c e now a] Issue rest by auto
      with Issue show ?thesis by auto
    qed (rule old)
    then show ?thesis using issue_pending [of c e now a] rest Issue by (auto simp: issued_in_def)
  next
    case (Answer r e now)
    then show ?thesis using verify_pending [of c r e now a] rest old unfolding issued_in_def
      by (simp, blast)
  next
    case (Revoke t)
    then show ?thesis using rest old by (auto simp: issued_in_def revoke_def split: option.split)
  next
    case (RevokeIdentity i)
    then show ?thesis using rest old by (auto simp: issued_in_def revoke_identity_def Let_def)
  qed
qed

lemma auth_after_issued: "issued_in audience ttl log a \<Longrightarrow> issued_in audience ttl (log @ ops) (auth_after c a ops)"
  unfolding auth_after_def
proof (induction ops arbitrary: log a)
  case (Cons op ops)
  from Cons.IH [OF apply_auth_issued [OF Cons.prems, of op c]] show ?case by simp
qed simp

lemma fresh_issued: "issued_in audience ct ops (auth_after c (fresh_verifier audience ct st) ops)"
  using auth_after_issued [of audience ct "[]" "fresh_verifier audience ct st" ops c]
  by (simp add: issued_in_def fresh_verifier_def with_ttls_def new_authenticator_def)

section \<open>Properties\<close>

text \<open>The response shows possession of the key it presents: the public key it carries reads as \<open>key\<close>, and
  the signature it carries is 64 bytes and verifies under that key over this verifier's domain, its
  identity and the nonce.\<close>

definition presents_proof :: "'k crypto \<Rightarrow> challenge_response \<Rightarrow> bytes \<Rightarrow> bytes \<Rightarrow> 'k \<Rightarrow> bool" where
  "presents_proof c response audience nonce key \<longleftrightarrow>
     (\<exists>key_bytes sig. hex_decode c (str_trim (cr_public_key response)) = Some key_bytes
        \<and> key_from_slice c key_bytes = Some key
        \<and> hex_decode c (str_trim (cr_signature response)) = Some sig \<and> length sig = 64
        \<and> key_verify c key (AUTH_DOMAIN @ audience @ nonce) sig)"

lemma check_response_Ok:
  "check_response c audience nonce r = Ok i \<Longrightarrow>
     \<exists>key. presents_proof c r audience nonce key \<and> i = identity_hash c key"
  by (auto simp: check_response_def presents_proof_def signing_material_def split: option.splits if_splits)

lemma open_session_Ok: "open_session c i e now a = (Ok s, a') \<Longrightarrow> se_identity s = hex_encode c i"
  by (auto simp: open_session_eq split: option.splits if_splits)

lemma verify_Ok:
  assumes "verify c r e now a = (Ok s, a')" "decode_fixed c NONCE_LEN (cr_nonce r) = Some nonce"
  shows "\<exists>x key. (nonce, x) \<in> set (au_pending a) \<and> now \<le> x
    \<and> presents_proof c r (au_audience a) nonce key \<and> se_identity s = hex_encode c (identity_hash c key)"
proof -
  obtain x where x: "tget (au_pending (sweep now a)) nonce = Some x" "now \<le> x"
    using assms by (auto simp: verify_def Let_def split: option.splits if_splits)
  let ?a = "(sweep now a)\<lparr>au_pending := tdel nonce (au_pending (sweep now a))\<rparr>"
  obtain i where i: "check_response c (au_audience a) nonce r = Ok i" "open_session c i e now ?a = (Ok s, a')"
    using assms x by (cases "check_response c (au_audience a) nonce r") (auto simp: verify_def Let_def sweep_def)
  have "(nonce, x) \<in> set (au_pending a)" using tget_in_set [OF x(1)] by (simp add: sweep_def)
  with x(2) check_response_Ok [OF i(1)] open_session_Ok [OF i(2)] show ?thesis by blast
qed

lemma verify_consumes:
  assumes "decode_fixed c NONCE_LEN (cr_nonce r) = Some nonce"
  shows "tget (au_pending (snd (verify c r e now a))) nonce = None"
  using assms by (simp add: verify_def Let_def tbl.get_del split: option.split outcome.split)

lemma verify_unknown:
  assumes "twf (au_pending a)" "tget (au_pending a) nonce = None" "decode_fixed c NONCE_LEN (cr_nonce r) = Some nonce"
  shows "fst (verify c r e now a) = Err UnknownChallenge"
  using assms by (simp add: verify_def Let_def sweep_def tbl.get_retain)

text \<open>The libraries' documented behaviour: hex reads back what it wrote, and a signature by the holder of
  a key verifies under that key.\<close>

definition hex_law :: "'k crypto \<Rightarrow> bool" where
  "hex_law c \<longleftrightarrow> (\<forall>bs. hex_decode c (str_trim (hex_encode c bs)) = Some bs)"

definition sign_law :: "'k crypto \<Rightarrow> secret_key \<Rightarrow> 'k \<Rightarrow> bool" where
  "sign_law c secret key \<longleftrightarrow> key_from_slice c (sk_public secret) = Some key
     \<and> (\<forall>m. length (sk_sign secret m) = 64 \<and> key_verify c key m (sk_sign secret m))"

lemma decode_hex: "hex_law c \<Longrightarrow> length bs = n \<Longrightarrow> decode_fixed c n (hex_encode c bs) = Some bs"
  by (simp add: hex_law_def decode_fixed_def)

lemma constant_time_eq_refl: "constant_time_eq xs xs"
proof -
  have "foldl (\<lambda>diff (x, y). diff OR (x XOR y)) 0 (zip xs xs) = (0 :: u8)"
    by (induction xs) simp_all
  then show ?thesis by (simp add: constant_time_eq_def)
qed

lemma sign_in_succeeds:
  assumes hex: "hex_law c" and sign: "sign_law c secret key" and aud: "length (au_audience a) = 16"
    and nonce: "length nonce = NONCE_LEN" and token: "length token = TOKEN_LEN"
    and issue: "issue_challenge c (Some nonce) t a = (Ok ch, a1)" and ok: "auth_ok a"
    and time: "t \<le> now" "now \<le> t + au_challenge_ttl a"
    and free: "length (au_sessions a) < MAX_SESSIONS"
  shows "\<exists>response s a2. answer_challenge c ch (au_audience a) secret = Ok response
    \<and> verify c response (Some token) now a1 = (Ok s, a2)
    \<and> authenticate c (se_token s) now a2 = Ok (identity_hash c key)"
proof -
  let ?sw = "sweep t a"
  have ch: "ch = \<lparr>ch_nonce = hex_encode c nonce, ch_audience = hex_encode c (au_audience a),
      ch_expires_in_secs = au_challenge_ttl a div 1000000000\<rparr>"
    and a1: "a1 = ?sw\<lparr>au_pending := tput nonce (t + au_challenge_ttl a) (au_pending ?sw)\<rparr>"
    using issue by (auto simp: issue_challenge_def Let_def sweep_def split: if_splits)
  let ?m = "signing_material (au_audience a) nonce"
  define response where "response = \<lparr>cr_nonce = hex_encode c nonce, cr_public_key = hex_encode c (sk_public secret),
      cr_signature = hex_encode c (sk_sign secret ?m)\<rparr>"
  have ans: "answer_challenge c ch (au_audience a) secret = Ok response"
    by (simp add: answer_challenge_def ch decode_hex [OF hex] aud nonce response_def)
  have chk: "check_response c (au_audience a) nonce response = Ok (identity_hash c key)"
    using sign hex by (simp add: check_response_def response_def hex_law_def sign_law_def)
  have ok1: "auth_ok a1" using issue_ok [OF ok, of c "Some nonce" t] issue by simp
  then have wf: "twf (au_pending a1)" "twf (au_sessions a1)" by (simp_all add: auth_ok_def pending_ok_def sessions_ok_def)
  have p: "tget (au_pending (sweep now a1)) nonce = Some (t + au_challenge_ttl a)"
    using wf(1) time(2) by (simp add: sweep_def tbl.get_retain a1 tbl.get_put)
  let ?a = "(sweep now a1)\<lparr>au_pending := tdel nonce (au_pending (sweep now a1))\<rparr>"
  have "length (au_sessions ?a) \<le> length (au_sessions a)"
    using tbl.len_retain order_trans by (simp add: sweep_def a1) blast
  then have room: "length (au_sessions ?a) < MAX_SESSIONS" using free by simp
  have aud1: "au_audience (sweep now a1) = au_audience a" by (simp add: sweep_def a1)
  have "decode_fixed c NONCE_LEN (cr_nonce response) = Some nonce"
    by (simp add: response_def decode_hex [OF hex nonce])
  then have v: "verify c response (Some token) now a1 = open_session c (identity_hash c key) (Some token) now ?a"
    using p chk time(2) aud1 by (simp add: verify_def Let_def)
  obtain s a2 where o: "open_session c (identity_hash c key) (Some token) now ?a = (Ok s, a2)"
    and s: "se_token s = hex_encode c token"
    and a2: "tget (au_sessions a2) token = Some \<lparr>as_identity = identity_hash c key, as_created_at = now,
        as_expires_at = now + au_session_ttl ?a\<rparr>"
    using room by (simp add: open_session_eq tbl.get_put)
  have "authenticate c (se_token s) now a2 = Ok (identity_hash c key)"
    by (simp add: authenticate_def s decode_hex [OF hex token] a2 constant_time_eq_refl)
  with ans v o show ?thesis by metis
qed

section \<open>A concrete verifier\<close>

fun letters :: "bytes \<Rightarrow> str" where
  "letters [] = []"
| "letters (b # r) = (0x61 + drop_bit 4 b) # (0x61 + (b AND 0x0F)) # letters r"

fun unletters :: "str \<Rightarrow> bytes option" where
  "unletters (a # b # r) = map_option ((#) (push_bit 4 (a - 0x61) OR (b - 0x61))) (unletters r)"
| "unletters [] = Some []"
| "unletters [_] = None"

definition sample_crypto :: "bytes crypto" where
  "sample_crypto = \<lparr>hex_encode = letters, hex_decode = unletters, key_from_slice = (\<lambda>k. Some k),
     key_verify = (\<lambda>k m sig. sig = k), identity_hash = take 16\<rparr>"

definition sample_secret :: secret_key where
  "sample_secret = \<lparr>sk_public = replicate 64 7, sk_sign = (\<lambda>_. replicate 64 7)\<rparr>"

lemma low_nibble: "b AND 0x0F = take_bit 4 (b :: u8)"
proof -
  have "(0x0F :: u8) = mask 4" by (simp add: mask_eq_exp_minus_1)
  then show ?thesis by (simp only: take_bit_eq_mask)
qed

lemma nibbles: "push_bit 4 (drop_bit 4 b) OR (b AND 0x0F) = (b :: u8)"
  unfolding low_nibble by (intro bit_word_eqI) (auto simp: bit_simps)

lemma unletters_letters: "unletters (letters bs) = Some bs"
  by (induction bs) (simp_all add: nibbles)

lemma letter_range: "unat x < 16 \<Longrightarrow> 97 \<le> unat (0x61 + x) \<and> unat (0x61 + x) \<le> 112" for x :: u8
  by (simp add: unat_word_ariths)

lemma nibble_range: "unat (drop_bit 4 b) < 16" "unat (b AND 0x0F) < 16" for b :: u8
proof -
  show "unat (drop_bit 4 b) < 16"
    using unat_u8_less [of b] by (simp add: drop_bit_eq_div unat_div_distrib)
  show "unat (b AND 0x0F) < 16" unfolding low_nibble by (simp only: unsigned_take_bit_eq) (simp add: take_bit_eq_mod)
qed

lemma letters_plain: "b \<in> set (letters bs) \<Longrightarrow> 97 \<le> unat b \<and> unat b \<le> 112"
  using letter_range nibble_range by (induction bs) auto

lemma sample_hex: "hex_law sample_crypto"
proof -
  have "str_trim (letters bs) = letters bs" for bs
    by (rule str_trim_graphic) (use letters_plain [of _ bs] in \<open>fastforce simp: is_ascii_def list_all_iff is_whitespace_def\<close>)+
  then show ?thesis by (simp add: hex_law_def sample_crypto_def unletters_letters)
qed

lemma sample_sign: "sign_law sample_crypto sample_secret (replicate 64 7)"
  by (simp add: sign_law_def sample_crypto_def sample_secret_def)

definition sample_verifier :: authenticator where
  "sample_verifier = fresh_verifier (replicate 16 1) (secs 60) (secs 600)"

lemma sample_issue: "\<exists>ch. issue_challenge sample_crypto (Some (replicate 32 2)) 5 sample_verifier =
    (Ok ch, auth_after sample_crypto sample_verifier [Issue (Some (replicate 32 2)) 5])"
proof -
  have "fst (issue_challenge sample_crypto (Some (replicate 32 2)) 5 sample_verifier) \<noteq> Err Busy"
    by (simp add: issue_challenge_def sample_verifier_def fresh_verifier_def with_ttls_def new_authenticator_def
        sweep_def MAX_PENDING_CHALLENGES_def tretain_def)
  then show ?thesis by (auto simp: auth_after_def issue_challenge_def Let_def split: if_splits)
qed

lemma sample_signed_in:
  "\<exists>response s a2. decode_fixed sample_crypto NONCE_LEN (cr_nonce response) = Some (replicate 32 2)
     \<and> verify sample_crypto response (Some (replicate 32 3)) 6
        (auth_after sample_crypto sample_verifier [Issue (Some (replicate 32 2)) 5]) = (Ok s, a2)"
proof -
  obtain ch where i: "issue_challenge sample_crypto (Some (replicate 32 2)) 5 sample_verifier =
    (Ok ch, auth_after sample_crypto sample_verifier [Issue (Some (replicate 32 2)) 5])" using sample_issue by blast
  have ok: "auth_ok sample_verifier" by (simp add: sample_verifier_def fresh_verifier_ok)
  have v: "length (au_audience sample_verifier) = 16" "au_challenge_ttl sample_verifier = secs 60"
    "length (au_sessions sample_verifier) < MAX_SESSIONS"
    by (simp_all add: sample_verifier_def fresh_verifier_def with_ttls_def new_authenticator_def MAX_SESSIONS_def)
  obtain response s a2 where r: "answer_challenge sample_crypto ch (au_audience sample_verifier) sample_secret = Ok response"
    and vr: "verify sample_crypto response (Some (replicate 32 3)) 6
        (auth_after sample_crypto sample_verifier [Issue (Some (replicate 32 2)) 5]) = (Ok s, a2)"
    using sign_in_succeeds [OF sample_hex sample_sign v(1) _ _ i ok, of "replicate 32 3" 6] v
    by (auto simp: NONCE_LEN_def TOKEN_LEN_def secs_def)
  have "ch_nonce ch = hex_encode sample_crypto (replicate 32 2)"
    using i by (auto simp: issue_challenge_def Let_def split: if_splits)
  then have "cr_nonce response = hex_encode sample_crypto (replicate 32 2)"
    using r by (auto simp: answer_challenge_def split: option.splits if_splits)
  then have "decode_fixed sample_crypto NONCE_LEN (cr_nonce response) = Some (replicate 32 2)"
    by (simp add: decode_hex [OF sample_hex] NONCE_LEN_def)
  with vr show ?thesis by blast
qed

text \<open>C7.
  What a sign-in proves. Whatever happened to the verifier before, a session is opened only for a nonce it
  issued at most the challenge lifetime ago, when the signature the response carries is one over its own
  domain, its own identity and that nonce, made with the very public key the response presents, and for
  the identity derived from that key; and the nonce is spent by
  the attempt, whatever came of it: the next answer to it is an unknown challenge.
\<close>
theorem sign_in_proves_fresh_possession:
  assumes "a = auth_after c (fresh_verifier audience ct st) ops"
    "verify c response e now a = (result, a')" "decode_fixed c NONCE_LEN (cr_nonce response) = Some nonce"
  shows "(result = Ok s \<longrightarrow>
      (\<exists>key t. Issue (Some nonce) t \<in> set ops \<and> now \<le> t + ct
         \<and> presents_proof c response audience nonce key
         \<and> se_identity s = hex_encode c (identity_hash c key)))
    \<and> (cr_nonce again = cr_nonce response \<longrightarrow> fst (verify c again e2 later a') = Err UnknownChallenge)"
proof -
  have iss: "issued_in audience ct ops a" using fresh_issued by (simp add: assms(1))
  have "auth_ok (snd (verify c response e now a))"
    unfolding assms(1) by (intro verify_ok auth_after_ok fresh_verifier_ok)
  then have ok: "twf (au_pending a')" using assms(2) by (simp add: auth_ok_def pending_ok_def)
  have "fst (verify c again e2 later a') = Err UnknownChallenge" if "cr_nonce again = cr_nonce response"
    using verify_unknown [OF ok] verify_consumes [OF assms(3)] assms(2,3) that by (metis snd_conv)
  moreover have "\<exists>key t. Issue (Some nonce) t \<in> set ops \<and> now \<le> t + ct
         \<and> presents_proof c response audience nonce key
         \<and> se_identity s = hex_encode c (identity_hash c key)" if "result = Ok s"
    using verify_Ok [OF assms(2) [unfolded that] assms(3)] iss unfolding issued_in_def by fastforce
  ultimately show ?thesis by blast
qed

theorem sign_in_proves_fresh_possession_witness:
  "\<exists>response s a2 key.
     verify sample_crypto response (Some (replicate 32 3)) 6
       (auth_after sample_crypto sample_verifier [Issue (Some (replicate 32 2)) 5]) = (Ok s, a2)
     \<and> presents_proof sample_crypto response (replicate 16 1) (replicate 32 2) key
     \<and> se_identity s = letters (take 16 key)"
proof -
  obtain response s a2 where d: "decode_fixed sample_crypto NONCE_LEN (cr_nonce response) = Some (replicate 32 2)"
    and v: "verify sample_crypto response (Some (replicate 32 3)) 6
      (auth_after sample_crypto (fresh_verifier (replicate 16 1) (secs 60) (secs 600)) [Issue (Some (replicate 32 2)) 5]) = (Ok s, a2)"
    using sample_signed_in unfolding sample_verifier_def by blast
  have sc: "hex_encode sample_crypto bs = letters bs" "identity_hash sample_crypto key = take 16 key" for bs key
    by (simp_all add: sample_crypto_def)
  from sign_in_proves_fresh_possession [OF refl v d, where s = s, unfolded sc]
  obtain key where "presents_proof sample_crypto response (replicate 16 1) (replicate 32 2) key"
    "se_identity s = letters (take 16 key)" by blast
  with v show ?thesis unfolding sample_verifier_def by blast
qed

lemma authenticate_Ok:
  "authenticate c token now a = Ok i \<Longrightarrow>
     \<exists>t s. tget (au_sessions a) t = Some s \<and> as_identity s = i \<and> now \<le> as_expires_at s"
  by (fastforce simp: authenticate_def not_less split: option.splits if_splits)

lemma revoked_out: "twf (au_sessions a) \<Longrightarrow> authenticate c token now (snd (revoke_identity i a)) \<noteq> Ok i"
proof
  assume wf: "twf (au_sessions a)" and "authenticate c token now (snd (revoke_identity i a)) = Ok i"
  from authenticate_Ok [OF this(2)] obtain t s where
    "tget (tretain (\<lambda>_ s. as_identity s \<noteq> i) (au_sessions a)) t = Some s" "as_identity s = i"
    by (auto simp: revoke_identity_def Let_def)
  with wf show False by (auto simp: tbl.get_retain split: option.splits if_splits)
qed

text \<open>How much a verifier holds. Whatever is asked of it, it never holds more than 10000 challenges, 100000
  sessions, or 8 sessions of one identity; an identity already holding 8 is never told the verifier is
  busy; and an identity whose sessions were ended is admitted on no token until it signs in again.
\<close>
theorem verifier_is_bounded:
  assumes "a = auth_after c (fresh_verifier audience ct st) ops"
  shows "pending_challenges a \<le> MAX_PENDING_CHALLENGES \<and> active_sessions a \<le> MAX_SESSIONS
    \<and> own_count i (au_sessions a) \<le> MAX_SESSIONS_PER_IDENTITY
    \<and> \<not> (own_count i (au_sessions a) = MAX_SESSIONS_PER_IDENTITY \<and> fst (open_session c i e now a) = Err Busy)
    \<and> authenticate c token now (snd (revoke_identity i a)) \<noteq> Ok i"
proof -
  have "auth_ok a" unfolding assms by (intro auth_after_ok fresh_verifier_ok)
  then have ok: "pending_ok (au_pending a)" "sessions_ok (au_sessions a)" by (simp_all add: auth_ok_def)
  have "\<not> (own_count i (au_sessions a) = MAX_SESSIONS_PER_IDENTITY \<and> fst (open_session c i e now a) = Err Busy)"
    by (auto simp: open_session_eq split: option.split)
  with ok revoked_out [of a c token now i] show ?thesis
    by (simp add: pending_ok_def sessions_ok_def pending_challenges_def active_sessions_def)
qed

theorem verifier_is_bounded_witness:
  "pending_challenges (auth_after sample_crypto (fresh_verifier [] 1 1) [Issue (Some [4]) 5]) \<le> MAX_PENDING_CHALLENGES"
  using verifier_is_bounded [OF refl] by blast

text \<open>An honest client gets in. The holder of a key who answers a challenge for the verifier it meant, within
  the challenge's lifetime and while sessions are free, is given a session, and its token resolves to the
  identity of that key; a challenge for another verifier is not answered at all.
\<close>
theorem honest_client_signs_in:
  assumes "hex_law c" "sign_law c secret key" "length audience = 16" "length nonce = NONCE_LEN"
    "length token = TOKEN_LEN" "a = auth_after c (fresh_verifier audience ct st) ops"
    "issue_challenge c (Some nonce) t a = (Ok ch, a1)" "t \<le> now" "now \<le> t + ct"
    "active_sessions a < MAX_SESSIONS"
  shows "(\<exists>response s a2. answer_challenge c ch audience secret = Ok response
      \<and> verify c response (Some token) now a1 = (Ok s, a2)
      \<and> authenticate c (se_token s) now a2 = Ok (identity_hash c key))
    \<and> (other \<noteq> audience \<longrightarrow> answer_challenge c ch other secret = Err BadSignature)"
proof -
  have ok: "auth_ok a" unfolding assms(6) by (intro auth_after_ok fresh_verifier_ok)
  have i: "au_audience a = audience" "au_challenge_ttl a = ct"
    using fresh_issued [of audience ct ops c st] assms(6) by (simp_all add: issued_in_def)
  have "answer_challenge c ch other secret = Err BadSignature" if "other \<noteq> audience"
    using assms(7) that i decode_hex [OF assms(1,3)]
    by (auto simp: issue_challenge_def answer_challenge_def Let_def sweep_def split: if_splits)
  moreover have "\<exists>response s a2. answer_challenge c ch audience secret = Ok response
      \<and> verify c response (Some token) now a1 = (Ok s, a2)
      \<and> authenticate c (se_token s) now a2 = Ok (identity_hash c key)"
    using sign_in_succeeds [OF assms(1,2) _ assms(4,5,7) ok assms(8)] assms(3,9,10) i
    by (simp add: active_sessions_def)
  ultimately show ?thesis by blast
qed

theorem honest_client_signs_in_witness:
  "\<exists>response s a2. verify sample_crypto response (Some (replicate 32 3)) 6
      (auth_after sample_crypto sample_verifier [Issue (Some (replicate 32 2)) 5]) = (Ok s, a2)
    \<and> authenticate sample_crypto (se_token s) 6 a2 = Ok (replicate 16 7)"
proof -
  obtain ch where "issue_challenge sample_crypto (Some (replicate 32 2)) 5 sample_verifier =
    (Ok ch, auth_after sample_crypto sample_verifier [Issue (Some (replicate 32 2)) 5])" using sample_issue by blast
  then have i: "issue_challenge sample_crypto (Some (replicate 32 2)) 5 (auth_after sample_crypto
      (fresh_verifier (replicate 16 1) (secs 60) (secs 600)) []) =
    (Ok ch, auth_after sample_crypto sample_verifier [Issue (Some (replicate 32 2)) 5])"
    by (simp add: auth_after_def sample_verifier_def)
  have "active_sessions (auth_after sample_crypto (fresh_verifier (replicate 16 1) (secs 60) (secs 600)) []) < MAX_SESSIONS"
    by (simp add: auth_after_def active_sessions_def fresh_verifier_def with_ttls_def new_authenticator_def MAX_SESSIONS_def)
  from honest_client_signs_in [OF sample_hex sample_sign _ _ _ refl i _ _ this, of "replicate 32 3" 6, THEN conjunct1]
  obtain response s a2 where "verify sample_crypto response (Some (replicate 32 3)) 6
      (auth_after sample_crypto sample_verifier [Issue (Some (replicate 32 2)) 5]) = (Ok s, a2)"
    "authenticate sample_crypto (se_token s) 6 a2 = Ok (identity_hash sample_crypto (replicate 64 7))"
    by (simp add: NONCE_LEN_def TOKEN_LEN_def secs_def) blast
  then show ?thesis by (auto simp: sample_crypto_def)
qed

end
