(* ===== verification/Accounts.thy ===== *)
theory Accounts
  imports Tables
begin

text \<open>
  \<^verbatim>\<open>crates/platform-agent/src/accounts.rs\<close>: a node's sign-in accounts, roles, passwords, authenticator
  codes (TOTP) and sessions. Argon2, SHA-1 and the QR renderer are parameters (\<open>libs\<close>); randomness, the
  clocks and whether the accounts file could be written are arguments of each operation, as reading and
  writing that file is outside. An operation whose write fails has already changed the accounts in
  memory, as the code does. Instants (\<open>at\<close>) and the wall clock (\<open>now\<close>) are in nanoseconds.
\<close>

definition SESSION_LIFETIME :: duration where "SESSION_LIFETIME = secs (12 * 3600)"
definition MAX_FAILURES :: nat where "MAX_FAILURES = 5"
definition FAILURE_WINDOW :: duration where "FAILURE_WINDOW = secs (15 * 60)"
definition LOCKOUT :: duration where "LOCKOUT = secs (5 * 60)"
definition MIN_PASSWORD_LEN :: nat where "MIN_PASSWORD_LEN = 10"
definition TOTP_STEP :: nat where "TOTP_STEP = 30"
definition TOTP_DIGITS :: nat where "TOTP_DIGITS = 6"

record totp =
  tp_secret :: str
  tp_enabled :: bool
  tp_last_step :: nat

datatype role = Admin | User

record user =
  us_username :: str
  us_password :: str
  us_totp :: "totp option"
  us_created_unix :: nat
  us_role :: role
  us_admin_requested_unix :: "nat option"
  us_key_salt :: "str option"

record account_view =
  av_username :: str
  av_totp_enabled :: bool
  av_created_unix :: nat
  av_role :: role
  av_admin_requested_unix :: "nat option"

datatype login_refusal = Wrong | NeedsCode | WrongCode | Throttled duration

datatype account_error =
    BadUsername | PasswordTooShort | PasswordTooLong | HashFailed | UsernameTaken | NoEntropy | SaveFailed
  | NoSuchAccount | LastAccount | LastAdmin | AlreadyAdmin | NotAsked | WrongCurrent | TurnOffFirst
  | SetUpFirst | CodesAlreadyOn | CodeNotRight | CodesOff | QrFailed

record account_session =
  at_username :: str
  at_expires :: time

record accounts =
  ac_users :: "user list"
  ac_sessions :: "(str, account_session) table"
  ac_failures :: "(str, time list) table"
  ac_decoy :: str

text \<open>\<open>argon2_verify password hash\<close>, \<open>sha1 bytes\<close> (20 bytes), \<open>qr_svg uri\<close>.\<close>

record libs =
  argon2_verify :: "str \<Rightarrow> str \<Rightarrow> bool"
  sha1 :: "bytes \<Rightarrow> bytes"
  qr_svg :: "str \<Rightarrow> str option"

section \<open>Text\<close>

definition is_lower :: "u8 \<Rightarrow> bool" where
  "is_lower b \<longleftrightarrow> 97 \<le> unat b \<and> unat b \<le> 122"

definition is_upper :: "u8 \<Rightarrow> bool" where
  "is_upper b \<longleftrightarrow> 65 \<le> unat b \<and> unat b \<le> 90"

definition is_digit :: "u8 \<Rightarrow> bool" where
  "is_digit b \<longleftrightarrow> 48 \<le> unat b \<and> unat b \<le> 57"

definition to_lower :: "u8 \<Rightarrow> u8" where
  "to_lower b = (if is_upper b then b + 32 else b)"

definition to_upper :: "u8 \<Rightarrow> u8" where
  "to_upper b = (if is_lower b then b - 32 else b)"

definition valid_username :: "str \<Rightarrow> bool" where
  "valid_username name \<longleftrightarrow>
     1 \<le> length name \<and> length name \<le> 32
     \<and> list_all (\<lambda>b. is_lower b \<or> is_digit b \<or> b \<in> {46, 95, 45}) name"

text \<open>\<^verbatim>\<open>str::parse::<u32>\<close>: an optional plus sign and at least one digit, no overflow.\<close>

definition parse_u32 :: "str \<Rightarrow> nat option" where
  "parse_u32 s =
     (let digits = (case s of c # r \<Rightarrow> if c = 43 then r else s | [] \<Rightarrow> []);
          v = foldl (\<lambda>acc b. acc * 10 + (unat b - 48)) 0 digits
      in if digits = [] \<or> \<not> list_all is_digit digits \<or> v \<ge> 2 ^ 32 then None else Some v)"

definition check_password :: "str \<Rightarrow> (account_error, unit) outcome" where
  "check_password p =
     (if (case utf8_chars p of None \<Rightarrow> 0 | Some cs \<Rightarrow> length cs) < MIN_PASSWORD_LEN then Err PasswordTooShort
      else if length p > 1024 then Err PasswordTooLong
      else Ok ())"

definition hex_digit :: "nat \<Rightarrow> u8" where
  "hex_digit d = (if d < 10 then of_nat (48 + d) else of_nat (55 + d))"

definition url_escape :: "str \<Rightarrow> str" where
  "url_escape s = concat (map (\<lambda>b.
     if is_upper b \<or> is_lower b \<or> is_digit b \<or> b \<in> {45, 46, 95, 126} then [b]
     else [37, hex_digit (unat b div 16), hex_digit (unat b mod 16)]) s)"

section \<open>Codes\<close>

definition B32 :: bytes where "B32 = ascii ''ABCDEFGHIJKLMNOPQRSTUVWXYZ234567''"

text \<open>The \<open>while bits >= 5\<close> loop: what it pushes, and the bits left.\<close>

fun b32_push :: "u32 \<Rightarrow> nat \<Rightarrow> str \<times> nat" where
  "b32_push buffer bits =
     (if bits \<ge> 5 then
        let c = B32 ! unat (drop_bit (bits - 5) buffer AND 31);
            (out, left) = b32_push buffer (bits - 5)
        in (c # out, left)
      else ([], bits))"

declare b32_push.simps [simp del]

fun b32_encode_from :: "u32 \<Rightarrow> nat \<Rightarrow> bytes \<Rightarrow> str" where
  "b32_encode_from buffer bits [] =
     (if bits > 0 then [B32 ! unat (push_bit (5 - bits) buffer AND 31)] else [])"
| "b32_encode_from buffer bits (b # data) =
     (let buffer = push_bit 8 buffer OR ucast b;
          (out, left) = b32_push buffer (bits + 8)
      in out @ b32_encode_from buffer left data)"

definition base32_encode :: "bytes \<Rightarrow> str" where
  "base32_encode data = b32_encode_from 0 0 data"

fun position :: "('a \<Rightarrow> bool) \<Rightarrow> 'a list \<Rightarrow> nat option" where
  "position P [] = None"
| "position P (x # xs) = (if P x then Some 0 else map_option Suc (position P xs))"

fun b32_decode_from :: "u32 \<Rightarrow> nat \<Rightarrow> bytes \<Rightarrow> bytes option" where
  "b32_decode_from buffer bits [] = Some []"
| "b32_decode_from buffer bits (c # text) =
     (case position (\<lambda>x. x = to_upper c) B32 of
        None \<Rightarrow> None
      | Some v \<Rightarrow>
          let buffer = push_bit 5 buffer OR of_nat v;
              bits = bits + 5
          in if bits \<ge> 8
             then map_option ((#) (ucast (drop_bit (bits - 8) buffer))) (b32_decode_from buffer (bits - 8) text)
             else b32_decode_from buffer bits text)"

definition base32_decode :: "str \<Rightarrow> bytes option" where
  "base32_decode text = b32_decode_from 0 0 (filter (\<lambda>c. c \<noteq> 61) text)"

definition hmac_sha1 :: "libs \<Rightarrow> bytes \<Rightarrow> bytes \<Rightarrow> bytes" where
  "hmac_sha1 l key msg =
     (let k = (if length key > 64 then sha1 l key @ replicate 44 0 else key @ replicate (64 - length key) 0)
      in sha1 l (map (\<lambda>b. b XOR 0x5C) k @ sha1 l (map (\<lambda>b. b XOR 0x36) k @ msg)))"

definition totp_at :: "libs \<Rightarrow> bytes \<Rightarrow> nat \<Rightarrow> nat" where
  "totp_at l secret step =
     (let mac = hmac_sha1 l secret (to_be 8 (of_nat step :: u64));
          off = unat (mac ! 19 AND 0x0F);
          bin = of_be [mac ! off AND 0x7F, mac ! (off + 1), mac ! (off + 2), mac ! (off + 3)] :: u32
      in unat bin mod 10 ^ TOTP_DIGITS)"

definition check_code :: "libs \<Rightarrow> str \<Rightarrow> str \<Rightarrow> nat \<Rightarrow> nat \<Rightarrow> nat option" where
  "check_code l secret_b32 code now_unix after =
     (case parse_u32 (filter (\<lambda>b. b \<noteq> 32) (str_trim code)) of None \<Rightarrow> None | Some code \<Rightarrow>
     (case base32_decode secret_b32 of None \<Rightarrow> None | Some secret \<Rightarrow>
        let now = now_unix div TOTP_STEP in
        List.find (\<lambda>step. totp_at l secret step = code)
          (filter (\<lambda>step. step > after) [now - 1, now, now + 1])))"

section \<open>The accounts\<close>

definition unix :: "time \<Rightarrow> nat" where
  "unix t = t div 1000000000"

definition view :: "user \<Rightarrow> account_view" where
  "view u = \<lparr>av_username = us_username u,
     av_totp_enabled = (case us_totp u of None \<Rightarrow> False | Some t \<Rightarrow> tp_enabled t),
     av_created_unix = us_created_unix u, av_role = us_role u,
     av_admin_requested_unix = us_admin_requested_unix u\<rparr>"

definition find_user :: "str \<Rightarrow> user list \<Rightarrow> user option" where
  "find_user username users = List.find (\<lambda>u. us_username u = username) users"

text \<open>Changing the user \<open>iter_mut().find(..)\<close> returns.\<close>

fun change_user :: "str \<Rightarrow> (user \<Rightarrow> user) \<Rightarrow> user list \<Rightarrow> user list" where
  "change_user username f [] = []"
| "change_user username f (u # us) =
     (if us_username u = username then f u # us else u # change_user username f us)"

definition saved :: "bool \<Rightarrow> 'a \<Rightarrow> (account_error, 'a) outcome" where
  "saved disk_ok v = (if disk_ok then Ok v else Err SaveFailed)"

definition any_account :: "accounts \<Rightarrow> bool" where
  "any_account a \<longleftrightarrow> ac_users a \<noteq> []"

definition list_accounts :: "accounts \<Rightarrow> account_view list" where
  "list_accounts a = map view (ac_users a)"

definition get_account :: "str \<Rightarrow> accounts \<Rightarrow> account_view option" where
  "get_account username a = map_option view (find_user username (ac_users a))"

definition role_of :: "str \<Rightarrow> accounts \<Rightarrow> role option" where
  "role_of username a = map_option us_role (find_user username (ac_users a))"

definition create_with_role :: "str \<Rightarrow> str \<Rightarrow> role \<Rightarrow> time \<Rightarrow> str option \<Rightarrow> str option \<Rightarrow> bool \<Rightarrow> accounts
    \<Rightarrow> (account_error, account_view) outcome \<times> accounts" where
  "create_with_role username password role now hashed salt disk_ok a =
     (if \<not> valid_username username then (Err BadUsername, a)
      else case check_password password of
        Err e \<Rightarrow> (Err e, a)
      | Panic \<Rightarrow> (Panic, a)
      | Ok _ \<Rightarrow>
          (case hashed of None \<Rightarrow> (Err HashFailed, a) | Some h \<Rightarrow>
           if list_ex (\<lambda>u. us_username u = username) (ac_users a) then (Err UsernameTaken, a)
           else case salt of None \<Rightarrow> (Err NoEntropy, a) | Some s \<Rightarrow>
             let u = \<lparr>us_username = username, us_password = h, us_totp = None, us_created_unix = unix now,
                      us_role = role, us_admin_requested_unix = None, us_key_salt = Some s\<rparr>
             in (saved disk_ok (view u), a\<lparr>ac_users := ac_users a @ [u]\<rparr>)))"

definition key_salt :: "str \<Rightarrow> str option \<Rightarrow> bool \<Rightarrow> accounts \<Rightarrow> (account_error, str) outcome \<times> accounts" where
  "key_salt username fresh disk_ok a =
     (case find_user username (ac_users a) of None \<Rightarrow> (Err NoSuchAccount, a) | Some u \<Rightarrow>
     (case us_key_salt u of Some salt \<Rightarrow> (Ok salt, a) | None \<Rightarrow>
     (case fresh of None \<Rightarrow> (Err NoEntropy, a) | Some salt \<Rightarrow>
        (saved disk_ok salt,
         a\<lparr>ac_users := change_user username (\<lambda>u. u\<lparr>us_key_salt := Some salt\<rparr>) (ac_users a)\<rparr>))))"

definition is_last_admin :: "user list \<Rightarrow> str \<Rightarrow> bool" where
  "is_last_admin users username \<longleftrightarrow>
     list_ex (\<lambda>u. us_username u = username \<and> us_role u = Admin) users
     \<and> length (filter (\<lambda>u. us_role u = Admin) users) = 1"

definition removable :: "user list \<Rightarrow> str \<Rightarrow> (account_error, unit) outcome" where
  "removable users username =
     (if \<not> list_ex (\<lambda>u. us_username u = username) users then Err NoSuchAccount
      else if length users = 1 then Err LastAccount
      else if is_last_admin users username then Err LastAdmin
      else Ok ())"

definition end_sessions_of :: "str \<Rightarrow> accounts \<Rightarrow> accounts" where
  "end_sessions_of username a =
     a\<lparr>ac_sessions := tretain (\<lambda>_ s. at_username s \<noteq> username) (ac_sessions a)\<rparr>"

definition remove_account :: "str \<Rightarrow> bool \<Rightarrow> accounts \<Rightarrow> (account_error, unit) outcome \<times> accounts" where
  "remove_account username disk_ok a =
     (case removable (ac_users a) username of
        Err e \<Rightarrow> (Err e, a)
      | Panic \<Rightarrow> (Panic, a)
      | Ok _ \<Rightarrow>
          let a = a\<lparr>ac_users := filter (\<lambda>u. us_username u \<noteq> username) (ac_users a)\<rparr>
          in if disk_ok then (Ok (), end_sessions_of username a) else (Err SaveFailed, a))"

definition set_role :: "str \<Rightarrow> role \<Rightarrow> bool \<Rightarrow> accounts \<Rightarrow> (account_error, account_view) outcome \<times> accounts" where
  "set_role username role disk_ok a =
     (if role = User \<and> is_last_admin (ac_users a) username then (Err LastAdmin, a)
      else case find_user username (ac_users a) of None \<Rightarrow> (Err NoSuchAccount, a) | Some u \<Rightarrow>
        let f = (\<lambda>u. u\<lparr>us_role := role, us_admin_requested_unix := None\<rparr>)
        in (saved disk_ok (view (f u)), a\<lparr>ac_users := change_user username f (ac_users a)\<rparr>))"

definition request_admin :: "str \<Rightarrow> time \<Rightarrow> bool \<Rightarrow> accounts \<Rightarrow> (account_error, account_view) outcome \<times> accounts" where
  "request_admin username now disk_ok a =
     (case find_user username (ac_users a) of None \<Rightarrow> (Err NoSuchAccount, a) | Some u \<Rightarrow>
        if us_role u = Admin then (Err AlreadyAdmin, a)
        else let f = (\<lambda>u. u\<lparr>us_admin_requested_unix :=
                 (case us_admin_requested_unix u of None \<Rightarrow> Some (unix now) | Some t \<Rightarrow> Some t)\<rparr>)
          in (saved disk_ok (view (f u)), a\<lparr>ac_users := change_user username f (ac_users a)\<rparr>))"

definition deny_admin :: "str \<Rightarrow> bool \<Rightarrow> accounts \<Rightarrow> (account_error, account_view) outcome \<times> accounts" where
  "deny_admin username disk_ok a =
     (case find_user username (ac_users a) of None \<Rightarrow> (Err NoSuchAccount, a) | Some u \<Rightarrow>
        if us_admin_requested_unix u = None then (Err NotAsked, a)
        else let f = (\<lambda>u. u\<lparr>us_admin_requested_unix := None\<rparr>)
          in (saved disk_ok (view (f u)), a\<lparr>ac_users := change_user username f (ac_users a)\<rparr>))"

section \<open>Signing in\<close>

definition throttled :: "str \<Rightarrow> time \<Rightarrow> accounts \<Rightarrow> duration option \<times> accounts" where
  "throttled key at a =
     (let list = filter (\<lambda>t. at - t < FAILURE_WINDOW) (case tget (ac_failures a) key of None \<Rightarrow> [] | Some l \<Rightarrow> l);
          a = a\<lparr>ac_failures := tput key list (ac_failures a)\<rparr>
      in if length list \<ge> MAX_FAILURES \<and> at - Max (set list) < LOCKOUT
         then (Some (LOCKOUT - (at - Max (set list))), a) else (None, a))"

definition note_failure :: "str \<Rightarrow> time \<Rightarrow> accounts \<Rightarrow> accounts" where
  "note_failure key at a =
     a\<lparr>ac_failures := tput key ((case tget (ac_failures a) key of None \<Rightarrow> [] | Some l \<Rightarrow> l) @ [at]) (ac_failures a)\<rparr>"

definition set_last_step :: "str \<Rightarrow> nat \<Rightarrow> accounts \<Rightarrow> accounts" where
  "set_last_step username step a =
     a\<lparr>ac_users := change_user username
         (\<lambda>u. u\<lparr>us_totp := map_option (\<lambda>t. t\<lparr>tp_last_step := step\<rparr>) (us_totp u)\<rparr>) (ac_users a)\<rparr>"

definition start_session :: "str \<Rightarrow> str \<Rightarrow> time \<Rightarrow> accounts \<Rightarrow> str \<times> accounts" where
  "start_session username token at a =
     (token, a\<lparr>ac_sessions := tput token \<lparr>at_username = username, at_expires = at + SESSION_LIFETIME\<rparr>
         (tretain (\<lambda>_ s. at_expires s > at) (ac_sessions a))\<rparr>)"

text \<open>\<open>login\<close> up to the code's check: the account found and the step of its code. No lock is held from here
  to \<open>login_finish\<close>, so other sign-ins may run in between.\<close>

definition login_check :: "libs \<Rightarrow> str \<Rightarrow> str \<Rightarrow> str option \<Rightarrow> time \<Rightarrow> time \<Rightarrow> accounts
    \<Rightarrow> (login_refusal, user \<times> nat option) outcome \<times> accounts" where
  "login_check l username password code at now a =
     (let key = map to_lower username;
          (wait, a) = throttled key at a
      in case wait of
        Some retry_after \<Rightarrow> (Err (Throttled retry_after), a)
      | None \<Rightarrow>
          let found = find_user key (ac_users a);
              hash = (case found of None \<Rightarrow> ac_decoy a | Some u \<Rightarrow> us_password u);
              password_ok = (argon2_verify l password hash \<and> found \<noteq> None)
          in case (if password_ok then found else None) of
            None \<Rightarrow> (Err Wrong, note_failure key at a)
          | Some user \<Rightarrow>
              (case us_totp user of
                 None \<Rightarrow> (Ok (user, None), a)
               | Some t \<Rightarrow>
                   if \<not> tp_enabled t then (Ok (user, None), a)
                   else case map_option str_trim code of
                     None \<Rightarrow> (Err NeedsCode, a)
                   | Some c \<Rightarrow>
                       if c = [] then (Err NeedsCode, a)
                       else case check_code l (tp_secret t) c (unix now) (tp_last_step t) of
                         Some step \<Rightarrow> (Ok (user, Some step), a)
                       | None \<Rightarrow> (Err WrongCode, note_failure key at a)))"

definition login_finish :: "str \<Rightarrow> user \<Rightarrow> nat option \<Rightarrow> str \<Rightarrow> time \<Rightarrow> accounts \<Rightarrow> str \<times> accounts" where
  "login_finish username user step token at a =
     (let a = (case step of None \<Rightarrow> a | Some s \<Rightarrow> set_last_step (us_username user) s a);
          a = a\<lparr>ac_failures := tdel (map to_lower username) (ac_failures a)\<rparr>
      in start_session (us_username user) token at a)"

definition login :: "libs \<Rightarrow> str \<Rightarrow> str \<Rightarrow> str option \<Rightarrow> time \<Rightarrow> time \<Rightarrow> str \<Rightarrow> accounts
    \<Rightarrow> (login_refusal, str) outcome \<times> accounts" where
  "login l username password code at now token a =
     (let (checked, a) = login_check l username password code at now a in
      case checked of
        Err e \<Rightarrow> (Err e, a)
      | Panic \<Rightarrow> (Panic, a)
      | Ok (user, step) \<Rightarrow>
          let (token, a) = login_finish username user step token at a in (Ok token, a))"

definition session :: "str \<Rightarrow> time \<Rightarrow> accounts \<Rightarrow> str option" where
  "session token at a =
     (case tget (ac_sessions a) token of
        None \<Rightarrow> None | Some s \<Rightarrow> if at_expires s > at then Some (at_username s) else None)"

definition end_session :: "str \<Rightarrow> accounts \<Rightarrow> accounts" where
  "end_session token a = a\<lparr>ac_sessions := tdel token (ac_sessions a)\<rparr>"

definition change_password :: "libs \<Rightarrow> str \<Rightarrow> str \<Rightarrow> str \<Rightarrow> str option \<Rightarrow> str option \<Rightarrow> bool \<Rightarrow> accounts
    \<Rightarrow> (account_error, unit) outcome \<times> accounts" where
  "change_password l username current new keep hashed disk_ok a =
     (case check_password new of Err e \<Rightarrow> (Err e, a) | Panic \<Rightarrow> (Panic, a) | Ok _ \<Rightarrow>
     (case hashed of None \<Rightarrow> (Err HashFailed, a) | Some h \<Rightarrow>
     (case find_user username (ac_users a) of None \<Rightarrow> (Err NoSuchAccount, a) | Some u \<Rightarrow>
        if \<not> argon2_verify l current (us_password u) then (Err WrongCurrent, a)
        else let a = a\<lparr>ac_users := change_user username (\<lambda>u. u\<lparr>us_password := h\<rparr>) (ac_users a)\<rparr>
          in if \<not> disk_ok then (Err SaveFailed, a)
             else (Ok (), a\<lparr>ac_sessions := tretain (\<lambda>token s. at_username s \<noteq> username \<or> Some token = keep)
                    (ac_sessions a)\<rparr>))))"

definition otpauth_uri :: "str \<Rightarrow> str \<Rightarrow> str \<Rightarrow> str" where
  "otpauth_uri issuer username secret =
     ascii ''otpauth://totp/'' @ url_escape (issuer @ [58] @ username) @ ascii ''?secret='' @ secret
     @ ascii ''&issuer='' @ url_escape issuer @ ascii ''&algorithm=SHA1&digits='' @ show_nat TOTP_DIGITS
     @ ascii ''&period='' @ show_nat TOTP_STEP"

definition begin_totp :: "libs \<Rightarrow> str \<Rightarrow> str \<Rightarrow> bytes option \<Rightarrow> bool \<Rightarrow> accounts
    \<Rightarrow> (account_error, str \<times> str \<times> str) outcome \<times> accounts" where
  "begin_totp l username issuer entropy disk_ok a =
     (case find_user username (ac_users a) of None \<Rightarrow> (Err NoSuchAccount, a) | Some u \<Rightarrow>
        if (case us_totp u of None \<Rightarrow> False | Some t \<Rightarrow> tp_enabled t) then (Err TurnOffFirst, a)
        else case entropy of None \<Rightarrow> (Err NoEntropy, a) | Some bs \<Rightarrow>
          let secret = base32_encode bs;
              a = a\<lparr>ac_users := change_user username
                  (\<lambda>u. u\<lparr>us_totp := Some \<lparr>tp_secret = secret, tp_enabled = False, tp_last_step = 0\<rparr>\<rparr>) (ac_users a)\<rparr>
          in if \<not> disk_ok then (Err SaveFailed, a)
             else case qr_svg l (otpauth_uri issuer username secret) of
               None \<Rightarrow> (Err QrFailed, a)
             | Some svg \<Rightarrow> (Ok (secret, otpauth_uri issuer username secret, svg), a))"

definition enable_totp :: "libs \<Rightarrow> str \<Rightarrow> str \<Rightarrow> time \<Rightarrow> bool \<Rightarrow> accounts
    \<Rightarrow> (account_error, unit) outcome \<times> accounts" where
  "enable_totp l username code now disk_ok a =
     (case find_user username (ac_users a) of None \<Rightarrow> (Err NoSuchAccount, a) | Some u \<Rightarrow>
     (case us_totp u of None \<Rightarrow> (Err SetUpFirst, a) | Some t \<Rightarrow>
        if tp_enabled t then (Err CodesAlreadyOn, a)
        else case check_code l (tp_secret t) code (unix now) 0 of None \<Rightarrow> (Err CodeNotRight, a) | Some step \<Rightarrow>
          (saved disk_ok (),
           a\<lparr>ac_users := change_user username
               (\<lambda>u. u\<lparr>us_totp := map_option (\<lambda>t. t\<lparr>tp_enabled := True, tp_last_step := step\<rparr>) (us_totp u)\<rparr>)
               (ac_users a)\<rparr>)))"

definition disable_totp :: "libs \<Rightarrow> str \<Rightarrow> str \<Rightarrow> time \<Rightarrow> bool \<Rightarrow> accounts
    \<Rightarrow> (account_error, unit) outcome \<times> accounts" where
  "disable_totp l username code now disk_ok a =
     (case find_user username (ac_users a) of None \<Rightarrow> (Err NoSuchAccount, a) | Some u \<Rightarrow>
     (case us_totp u of None \<Rightarrow> (Err CodesOff, a) | Some t \<Rightarrow>
        if \<not> tp_enabled t then (Err CodesOff, a)
        else case check_code l (tp_secret t) code (unix now) (tp_last_step t) of None \<Rightarrow> (Err CodeNotRight, a) | Some _ \<Rightarrow>
          (saved disk_ok (), a\<lparr>ac_users := change_user username (\<lambda>u. u\<lparr>us_totp := None\<rparr>) (ac_users a)\<rparr>)))"

section \<open>Runs\<close>

text \<open>Every call that changes the accounts, with the answers of the world around it.\<close>

datatype account_op =
    CreateAccount str str role time "str option" "str option" bool
  | KeySalt str "str option" bool
  | RemoveAccount str bool
  | SetRole str role bool
  | RequestAdmin str time bool
  | DenyAdmin str bool
  | Login str str "str option" time time str
  | EndSession str
  | ChangePassword str str str "str option" "str option" bool
  | BeginTotp str str "bytes option" bool
  | EnableTotp str str time bool
  | DisableTotp str str time bool

fun account_step :: "libs \<Rightarrow> account_op \<Rightarrow> accounts \<Rightarrow> accounts" where
  "account_step l (CreateAccount n p r now h s d) a = snd (create_with_role n p r now h s d a)"
| "account_step l (KeySalt n s d) a = snd (key_salt n s d a)"
| "account_step l (RemoveAccount n d) a = snd (remove_account n d a)"
| "account_step l (SetRole n r d) a = snd (set_role n r d a)"
| "account_step l (RequestAdmin n now d) a = snd (request_admin n now d a)"
| "account_step l (DenyAdmin n d) a = snd (deny_admin n d a)"
| "account_step l (Login n p c at now tok) a = snd (login l n p c at now tok a)"
| "account_step l (EndSession tok) a = end_session tok a"
| "account_step l (ChangePassword n p q k h d) a = snd (change_password l n p q k h d a)"
| "account_step l (BeginTotp n i e d) a = snd (begin_totp l n i e d a)"
| "account_step l (EnableTotp n c now d) a = snd (enable_totp l n c now d a)"
| "account_step l (DisableTotp n c now d) a = snd (disable_totp l n c now d a)"

definition account_run :: "libs \<Rightarrow> account_op list \<Rightarrow> accounts \<Rightarrow> accounts" where
  "account_run l ops a = fold (account_step l) ops a"

section \<open>What an operation does to the list of users\<close>

text \<open>
  Every operation leaves the users alone, adds one, drops the ones of a name, or changes the one of a
  name. The invariants below are proved over these shapes.
\<close>

named_theorems account_defs "the operations on the accounts"

lemmas account_op_defs [account_defs] =
  create_with_role_def key_salt_def remove_account_def set_role_def request_admin_def deny_admin_def
  end_session_def change_password_def begin_totp_def enable_totp_def disable_totp_def end_sessions_of_def
  start_session_def login_finish_def set_last_step_def note_failure_def

lemma throttled_users [simp]: "ac_users (snd (throttled k at a)) = ac_users a"
  by (simp add: throttled_def Let_def)

lemma throttled_sessions [simp]: "ac_sessions (snd (throttled k at a)) = ac_sessions a"
  by (simp add: throttled_def Let_def)

lemma throttled_decoy [simp]: "ac_decoy (snd (throttled k at a)) = ac_decoy a"
  by (simp add: throttled_def Let_def)

lemma note_failure_users [simp]: "ac_users (note_failure k at a) = ac_users a"
  by (simp add: note_failure_def)

lemma login_check_users [simp]: "ac_users (snd (login_check l n p c at now a)) = ac_users a"
  by (simp add: login_check_def split_def Let_def split: option.split)

lemma login_users:
  "ac_users (snd (login l n p c at now tok a)) =
     (case fst (login_check l n p c at now a) of
        Ok (u, Some s) \<Rightarrow> change_user (us_username u)
          (\<lambda>u. u\<lparr>us_totp := map_option (\<lambda>t. t\<lparr>tp_last_step := s\<rparr>) (us_totp u)\<rparr>) (ac_users a)
      | _ \<Rightarrow> ac_users a)"
  by (simp add: login_def login_finish_def start_session_def set_last_step_def split_def Let_def
      split: outcome.split option.split)

definition keeps_name :: "(user \<Rightarrow> user) \<Rightarrow> bool" where
  "keeps_name f \<longleftrightarrow> (\<forall>u. us_username (f u) = us_username u)"

lemma keeps_name_updates [simp]:
  "keeps_name (\<lambda>u. u\<lparr>us_totp := x u\<rparr>)"
  "keeps_name (\<lambda>u. u\<lparr>us_password := y u\<rparr>)"
  "keeps_name (\<lambda>u. u\<lparr>us_key_salt := z u\<rparr>)"
  "keeps_name (\<lambda>u. u\<lparr>us_admin_requested_unix := w u\<rparr>)"
  "keeps_name (\<lambda>u. u\<lparr>us_role := r, us_admin_requested_unix := w u\<rparr>)"
  by (simp_all add: keeps_name_def)

lemma change_user_names [simp]:
  "keeps_name f \<Longrightarrow> map us_username (change_user n f us) = map us_username us"
  by (induction us) (simp_all add: keeps_name_def)

lemma find_user_change:
  "keeps_name f \<Longrightarrow> find_user m (change_user n f us) =
     (if m = n then map_option f (find_user m us) else find_user m us)"
  by (induction us) (auto simp: find_user_def keeps_name_def)

lemma find_user_Nil [simp]: "find_user m [] = None"
  by (simp add: find_user_def)

lemma find_user_remove:
  "find_user m (filter (\<lambda>u. us_username u \<noteq> n) us) = (if m = n then None else find_user m us)"
  by (induction us) (auto simp: find_user_def)

lemma find_user_snoc:
  "find_user m (us @ [u]) =
     (case find_user m us of None \<Rightarrow> if us_username u = m then Some u else None | Some v \<Rightarrow> Some v)"
  by (induction us) (auto simp: find_user_def)

lemma find_user_Some: "find_user m us = Some u \<Longrightarrow> u \<in> set us \<and> us_username u = m"
  by (auto simp: find_user_def dest: find_Some)

section \<open>An admin always remains\<close>

definition has_admin :: "accounts \<Rightarrow> bool" where
  "has_admin a \<longleftrightarrow> list_ex (\<lambda>u. us_role u = Admin) (ac_users a)"

definition names_ok :: "accounts \<Rightarrow> bool" where
  "names_ok a \<longleftrightarrow> distinct (map us_username (ac_users a)) \<and> list_all valid_username (map us_username (ac_users a))"

lemma admin_survives_change:
  assumes "list_ex (\<lambda>u. us_role u = Admin) us" "\<And>u. us_role (f u) = us_role u"
  shows "list_ex (\<lambda>u. us_role u = Admin) (change_user n f us)"
  using assms(1) by (induction us) (auto simp: assms(2))

lemma admin_survives_promotion:
  assumes "list_ex (\<lambda>u. us_role u = Admin) us" "\<And>u. us_role (f u) = Admin"
  shows "list_ex (\<lambda>u. us_role u = Admin) (change_user n f us)"
  using assms(1) by (induction us) (auto simp: assms(2))

lemma other_admin:
  assumes "list_ex (\<lambda>u. us_role u = Admin) us" "distinct (map us_username us)" "\<not> is_last_admin us n"
  shows "\<exists>u\<in>set us. us_role u = Admin \<and> us_username u \<noteq> n"
proof (rule ccontr)
  assume "\<not> ?thesis"
  then have all: "u \<in> set us \<Longrightarrow> us_role u = Admin \<Longrightarrow> us_username u = n" for u by blast
  obtain v where v: "v \<in> set us" "us_role v = Admin" using assms(1) by (auto simp: list_ex_iff)
  let ?as = "filter (\<lambda>u. us_role u = Admin) us"
  have "set (map us_username ?as) \<subseteq> {n}" using all by auto
  moreover have "distinct (map us_username ?as)" using assms(2) by (rule distinct_map_filter)
  ultimately have "length (map us_username ?as) \<le> 1"
    using card_mono [of "{n}" "set (map us_username ?as)"] distinct_card by fastforce
  moreover have "length ?as > 0" using v by (auto simp: filter_empty_conv)
  ultimately have "length ?as = 1" unfolding length_map by linarith
  then show False using assms(3) v all by (auto simp: is_last_admin_def list_ex_iff)
qed

lemma other_admin_unchanged:
  assumes "u \<in> set us" "us_role u = Admin" "us_username u \<noteq> n"
  shows "list_ex (\<lambda>u. us_role u = Admin) (change_user n f us)"
proof -
  have "u \<in> set (change_user n f us)" using assms(1,3) by (induction us) auto
  with assms(2) show ?thesis by (auto simp: list_ex_iff)
qed

lemma has_admin_set_role:
  assumes "has_admin a" "names_ok a"
  shows "has_admin (snd (set_role n r d a))"
proof (cases r)
  case Admin
  with assms(1) show ?thesis
    by (auto simp: set_role_def has_admin_def admin_survives_promotion split: option.split)
next
  case User
  show ?thesis
  proof (cases "is_last_admin (ac_users a) n")
    case True
    with User assms(1) show ?thesis by (simp add: set_role_def)
  next
    case False
    with assms obtain v where "v \<in> set (ac_users a)" "us_role v = Admin" "us_username v \<noteq> n"
      using other_admin by (auto simp: has_admin_def names_ok_def)
    with assms(1) User False show ?thesis
      by (auto simp: set_role_def has_admin_def intro: other_admin_unchanged split: option.split)
  qed
qed

lemma has_admin_remove:
  assumes "has_admin a" "names_ok a"
  shows "has_admin (snd (remove_account n d a))"
proof (cases "removable (ac_users a) n")
  case (Ok x)
  then have "\<not> is_last_admin (ac_users a) n" by (auto simp: removable_def split: if_splits)
  with assms obtain v where "v \<in> set (ac_users a)" "us_role v = Admin" "us_username v \<noteq> n"
    using other_admin by (auto simp: has_admin_def names_ok_def)
  with Ok show ?thesis
    by (auto simp: remove_account_def has_admin_def end_sessions_of_def list_ex_iff Let_def)
qed (use assms in \<open>simp_all add: remove_account_def\<close>)

lemma has_admin_step:
  assumes "has_admin a" "names_ok a"
  shows "has_admin (account_step l x a)"
proof (cases x)
  case (SetRole n r d)
  with has_admin_set_role [OF assms] show ?thesis by simp
next
  case (RemoveAccount n d)
  with has_admin_remove [OF assms] show ?thesis by simp
next
  case (Login n p c at now tok)
  with assms(1) show ?thesis
    by (auto simp: has_admin_def login_users admin_survives_change split: outcome.split option.split)
qed (use assms(1) in \<open>simp_all add: has_admin_def account_defs Let_def admin_survives_change
      split: option.split outcome.split\<close>)

lemma names_ok_step:
  assumes "names_ok a"
  shows "names_ok (account_step l x a)"
proof (cases x)
  case (Login n p c at now tok)
  with assms show ?thesis by (simp add: names_ok_def login_users split: outcome.split option.split)
next
  case (CreateAccount n p r now h s d)
  with assms show ?thesis
    by (auto simp: names_ok_def create_with_role_def Let_def list_ex_iff split: option.split outcome.split)
next
  case (RemoveAccount n d)
  with assms show ?thesis
    by (auto simp: names_ok_def remove_account_def end_sessions_of_def Let_def list_all_iff
        intro: distinct_map_filter split: outcome.split)
qed (use assms in \<open>simp_all add: names_ok_def account_defs Let_def split: option.split outcome.split\<close>)

lemma accounts_run_ok:
  "has_admin a \<Longrightarrow> names_ok a \<Longrightarrow> has_admin (account_run l ops a) \<and> names_ok (account_run l ops a)"
  by (induction ops arbitrary: a) (simp_all add: account_run_def has_admin_step names_ok_step)

section \<open>A code is good once\<close>

text \<open>\<open>spent n K s us\<close>: while the secret of account \<open>n\<close> is \<open>K\<close>, it is on and the steps up to \<open>s\<close> are used.\<close>

definition spent :: "str \<Rightarrow> str \<Rightarrow> nat \<Rightarrow> user list \<Rightarrow> bool" where
  "spent n K s us =
     (case find_user n us of
        None \<Rightarrow> True
      | Some u \<Rightarrow> (case us_totp u of
           None \<Rightarrow> True
         | Some t \<Rightarrow> tp_secret t = K \<longrightarrow> tp_enabled t \<and> s \<le> tp_last_step t))"

fun makes_secret :: "str \<Rightarrow> account_op \<Rightarrow> bool" where
  "makes_secret K (BeginTotp n i e d) \<longleftrightarrow> map_option base32_encode e = Some K"
| "makes_secret K _ \<longleftrightarrow> False"

lemma check_code_sound:
  assumes "check_code l K c now after = Some s"
  shows "after < s \<and> s \<in> {now div TOTP_STEP - 1, now div TOTP_STEP, now div TOTP_STEP + 1}
    \<and> (\<exists>secret code. base32_decode K = Some secret \<and> parse_u32 (filter (\<lambda>b. b \<noteq> 32) (str_trim c)) = Some code
         \<and> totp_at l secret s = code)"
  using assms unfolding check_code_def
  by (auto simp: Let_def simp del: filter.simps split: option.splits dest!: find_Some)

lemma login_check_Ok:
  assumes "fst (login_check l n p c at now a) = Ok (u, st)"
  shows "find_user (map to_lower n) (ac_users a) = Some u
    \<and> argon2_verify l p (us_password u)
    \<and> (case us_totp u of
         Some t \<Rightarrow> if tp_enabled t
           then (\<exists>cd s. st = Some s \<and> check_code l (tp_secret t) cd (unix now) (tp_last_step t) = Some s)
           else st = None
       | None \<Rightarrow> st = None)"
  using assms unfolding login_check_def
  by (auto simp: split_def Let_def split: option.splits if_splits) metis

lemma spent_change_other:
  "keeps_name f \<Longrightarrow> (\<And>u. us_totp (f u) = us_totp u) \<Longrightarrow> spent n K s (change_user m f us) = spent n K s us"
  by (simp add: spent_def find_user_change split: option.split)

lemma spent_remove: "spent n K s us \<Longrightarrow> spent n K s (filter (\<lambda>u. us_username u \<noteq> m) us)"
  by (simp add: spent_def find_user_remove)

lemma spent_snoc: "spent n K s us \<Longrightarrow> us_totp u = None \<Longrightarrow> spent n K s (us @ [u])"
  by (simp add: spent_def find_user_snoc split: option.splits)

lemma spent_use:
  assumes "spent n K s us" "find_user m us = Some u" "us_totp u = Some t" "tp_last_step t < s'"
  shows "spent n K s (change_user m (\<lambda>u. u\<lparr>us_totp := map_option (\<lambda>t. t\<lparr>tp_last_step := s'\<rparr>) (us_totp u)\<rparr>) us)"
  using assms by (auto simp: spent_def find_user_change split: option.splits)

lemma spent_login:
  assumes "spent n K s (ac_users a)"
  shows "spent n K s (ac_users (snd (login l m p c at now tok a)))"
proof (cases "fst (login_check l m p c at now a)")
  case (Ok r)
  then obtain u st where r: "fst (login_check l m p c at now a) = Ok (u, st)" by (cases r) simp
  note c = login_check_Ok [OF r]
  show ?thesis
  proof (cases st)
    case (Some s')
    with c obtain t cd where t: "us_totp u = Some t" "check_code l (tp_secret t) cd (unix now) (tp_last_step t) = Some s'"
      by (auto split: option.splits if_splits)
    have f: "find_user (us_username u) (ac_users a) = Some u" using c find_user_Some by fastforce
    show ?thesis
      using spent_use [OF assms f t(1)] check_code_sound [OF t(2)] by (simp add: login_users r Some)
  qed (use assms r in \<open>simp add: login_users\<close>)
qed (use assms in \<open>simp_all add: login_users\<close>)

lemma spent_enable:
  assumes "spent n K s (ac_users a)"
  shows "spent n K s (ac_users (snd (enable_totp l m c now d a)))"
  using assms by (auto simp: enable_totp_def spent_def find_user_change split: option.splits if_splits)

lemma spent_disable:
  assumes "spent n K s (ac_users a)"
  shows "spent n K s (ac_users (snd (disable_totp l m c now d a)))"
  using assms by (auto simp: disable_totp_def spent_def find_user_change split: option.splits if_splits)

lemma spent_begin:
  assumes "spent n K s (ac_users a)" "map_option base32_encode e \<noteq> Some K"
  shows "spent n K s (ac_users (snd (begin_totp l m i e d a)))"
  using assms by (auto simp: begin_totp_def spent_def find_user_change Let_def split: option.splits if_splits)

lemma spent_step:
  assumes "spent n K s (ac_users a)" "\<not> makes_secret K x"
  shows "spent n K s (ac_users (account_step l x a))"
proof (cases x)
  case (Login m p c at now tok)
  with spent_login [OF assms(1)] show ?thesis by simp
next
  case (EnableTotp m c now d)
  with spent_enable [OF assms(1)] show ?thesis by simp
next
  case (DisableTotp m c now d)
  with spent_disable [OF assms(1)] show ?thesis by simp
next
  case (BeginTotp m i e d)
  with spent_begin [OF assms(1)] assms(2) show ?thesis by simp
qed (use assms(1) in \<open>simp_all add: account_op_defs Let_def spent_change_other spent_remove spent_snoc
      split: option.split outcome.split\<close>)

lemma spent_run:
  "spent n K s (ac_users a) \<Longrightarrow> list_all (\<lambda>x. \<not> makes_secret K x) ops
    \<Longrightarrow> spent n K s (ac_users (account_run l ops a))"
  by (induction ops arbitrary: a) (simp_all add: account_run_def spent_step)

lemma login_spends:
  assumes "fst (login_check l n p c at now a) = Ok (u, Some s)" "us_totp u = Some t"
  shows "spent (us_username u) (tp_secret t) s (ac_users (snd (login l n p c at now tok a)))"
proof -
  note c = login_check_Ok [OF assms(1)]
  then have f: "find_user (us_username u) (ac_users a) = Some u" using find_user_Some by fastforce
  have "tp_enabled t" using c assms(2) by (auto split: if_splits)
  with f show ?thesis by (simp add: login_users assms spent_def find_user_change)
qed

lemma spent_login_later:
  assumes "spent (us_username u) K s (ac_users a)" "fst (login_check l n p c at now a) = Ok (u, st)"
    "us_totp u = Some t" "tp_secret t = K"
  shows "\<exists>s'. st = Some s' \<and> s < s'"
proof -
  note c = login_check_Ok [OF assms(2)]
  then have f: "find_user (us_username u) (ac_users a) = Some u" using find_user_Some by fastforce
  with assms(1,3,4) have "tp_enabled t" "s \<le> tp_last_step t" by (simp_all add: spent_def)
  with c assms(3) check_code_sound show ?thesis by fastforce
qed

text \<open>The throttle's bookkeeping is the same a second time at the same instant.\<close>

lemma throttled_twice: "throttled k at (snd (throttled k at a)) = throttled k at a"
proof -
  have "tput k v (tput k v t) = tput k v t" for v :: "time list" and t
    by (induction t) (auto simp: tput_def)
  then show ?thesis
    by (simp add: throttled_def Let_def tbl.get_put)
qed

lemma login_check_Ok_state:
  "fst (login_check l n p c at now a) = Ok r \<Longrightarrow>
     snd (login_check l n p c at now a) = snd (throttled (map to_lower n) at a)"
  by (auto simp: login_check_def split_def Let_def split: option.splits if_splits)

lemma login_accepted:
  assumes "fst (login_check l n p c at now a) = Ok (u, st)"
  shows "login l n p c at now tok a =
    (Ok tok, snd (login_finish n u st tok at (snd (throttled (map to_lower n) at a))))"
  using assms by (simp add: login_def split_def Let_def login_check_Ok_state [OF assms])
    (simp add: login_finish_def start_session_def Let_def)

lemma login_check_twice:
  assumes "fst (login_check l n p c at now a) = Ok r"
  shows "login_check l n p c at now (snd (login_check l n p c at now a)) = login_check l n p c at now a"
proof -
  let ?b = "snd (throttled (map to_lower n) at a)"
  have "login_check l n p c at now ?b = login_check l n p c at now a"
    by (simp only: login_check_def throttled_twice split_def Let_def throttled_users throttled_decoy)
  with login_check_Ok_state [OF assms] show ?thesis by simp
qed

lemma session_after_finish:
  "session tok at (snd (login_finish n u st tok at a)) = Some (us_username u)"
  by (simp add: session_def login_finish_def start_session_def Let_def tbl.get_put SESSION_LIFETIME_def secs_def)

lemma session_kept_by_finish:
  assumes "session tok at a = Some m" "tok \<noteq> tok'" "twf (ac_sessions a)"
  shows "session tok at (snd (login_finish n u st tok' at a)) = Some m"
  using assms
  by (auto simp: session_def login_finish_def start_session_def set_last_step_def Let_def tbl.get_put
      tbl.get_retain split: option.splits if_splits)

lemma finish_sessions_wf:
  "twf (ac_sessions a) \<Longrightarrow> twf (ac_sessions (snd (login_finish n u st tok at a)))"
  by (simp add: login_finish_def start_session_def set_last_step_def Let_def split: option.split)

section \<open>Base32\<close>

lemma B32_letters:
  "list_all (\<lambda>v. position (\<lambda>x. x = to_upper (B32 ! v)) B32 = Some v \<and> B32 ! v \<noteq> 61) [0..<32]"
  by (simp add: B32_def ascii_def to_upper_def is_lower_def upt_rec)

lemma and_31: "(w :: u32) AND 31 = take_bit 5 w"
  by (simp add: take_bit_eq_mask mask_eq_exp_minus_1)

lemma unat_5_bits: "unat (take_bit 5 (w :: u32)) < 32"
  using take_bit_nat_less_exp [of 5 "unat w"] by (simp add: unsigned_take_bit_eq)

lemma b32_decode_letter:
  "b32_decode_from d n (B32 ! unat (take_bit 5 w) # text) =
     (let d = push_bit 5 d OR take_bit 5 w; n = n + 5
      in if n \<ge> 8 then map_option ((#) (ucast (drop_bit (n - 8) d))) (b32_decode_from d (n - 8) text)
         else b32_decode_from d n text)"
proof -
  have "position (\<lambda>x. x = to_upper (B32 ! unat (take_bit 5 w))) B32 = Some (unat (take_bit 5 w))"
    using B32_letters unat_5_bits [of w] by (simp add: list_all_iff)
  then show ?thesis by (simp add: Let_def)
qed

text \<open>
  Between two bytes the encoder holds back \<open>e < 5\<close> bits of the last one and the decoder holds the
  \<open>8 - e\<close> it has been given: together they are that byte.
\<close>

definition b32_pending :: "nat \<Rightarrow> u32 \<Rightarrow> u32 \<Rightarrow> u8 \<Rightarrow> bool" where
  "b32_pending e w d b \<longleftrightarrow> (e = 0 \<or> b = ucast (push_bit e d OR take_bit e w))"

lemma b32_byte_out:
  assumes "b = ucast (push_bit e d OR take_bit e w)" "1 \<le> e" "e \<le> 5"
    "\<And>i. i < e \<Longrightarrow> bit v (i + (5 - e)) = bit w i"
  shows "ucast (drop_bit (5 - e) (push_bit 5 (d :: u32) OR take_bit 5 v)) = (b :: u8)"
proof (rule bit_word_eqI)
  fix i assume "i < LENGTH(8)"
  then have i: "i < 8" by simp
  show "bit (ucast (drop_bit (5 - e) (push_bit 5 d OR take_bit 5 v)) :: u8) i = bit b i"
  proof (cases "i < e")
    case True
    then have "\<not> 5 \<le> 5 - e + i" "bit v (5 - e + i) = bit w i"
      using assms(3) assms(4) [of i] by (simp_all add: add.commute)
    with i True show ?thesis by (simp add: assms(1) bit_simps)
  next
    case False
    then have "5 \<le> 5 - e + i" "5 - e + i - 5 = i - e" using assms(2,3) by linarith+
    with i False show ?thesis by (auto simp: assms(1) bit_simps)
  qed
qed

lemma b32_pending_1:
  fixes d w :: u32 and c :: u8
  assumes "e \<le> 1"
  defines "w' \<equiv> push_bit 8 w OR ucast c"
  shows "c = ucast (push_bit (e + 3) (push_bit 5 d OR take_bit 5 (drop_bit (e + 3) w')) OR take_bit (e + 3) w')"
proof (rule bit_word_eqI)
  fix i assume "i < LENGTH(8)"
  then have i: "i < 8" by simp
  have "\<not> i < e + 3 \<Longrightarrow> e + 3 + (i - (e + 3)) = i \<and> i - (e + 3) < 5" using i by linarith
  then show "bit c i = bit (ucast (push_bit (e + 3) (push_bit 5 d OR take_bit 5 (drop_bit (e + 3) w'))
      OR take_bit (e + 3) w') :: u8) i"
    using i by (cases "i < e + 3") (auto simp: w'_def bit_simps)
qed

lemma b32_pending_2:
  fixes d w :: u32 and c :: u8
  assumes "2 \<le> e" "e \<le> 4"
  defines "w' \<equiv> push_bit 8 w OR ucast c"
  defines "d' \<equiv> push_bit 5 d OR take_bit 5 (drop_bit (e + 3) w')"
  shows "c = ucast (push_bit (e - 2) (push_bit 5 d' OR take_bit 5 (drop_bit (e - 2) w')) OR take_bit (e - 2) w')"
proof (rule bit_word_eqI)
  fix i assume "i < LENGTH(8)"
  then have i: "i < 8" by simp
  have lo: "\<not> i < e - 2 \<Longrightarrow> e - 2 + (i - (e - 2)) = i" by linarith
  have hi: "5 \<le> i - (e - 2) \<Longrightarrow> e + 3 + (i - (e - 2) - 5) = i \<and> i - (e - 2) - 5 < 5"
    using i assms(1) by linarith
  show "bit c i = bit (ucast (push_bit (e - 2) (push_bit 5 d' OR take_bit 5 (drop_bit (e - 2) w'))
      OR take_bit (e - 2) w') :: u8) i"
  proof (cases "i < e - 2")
    case True
    with i show ?thesis by (auto simp: w'_def bit_simps)
  next
    case False
    then show ?thesis
      using i lo hi by (cases "5 \<le> i - (e - 2)") (auto simp: w'_def d'_def bit_simps)
  qed
qed

lemma b32_first_out:
  fixes d w :: u32
  assumes "b32_pending e w d b" "1 \<le> e" "e \<le> 4"
  shows "ucast (drop_bit (5 - e) (push_bit 5 d OR take_bit 5 (drop_bit (e + 3) (push_bit 8 w OR ucast (c :: u8))))) = b"
  by (rule b32_byte_out [where w = w]) (use assms in \<open>auto simp: b32_pending_def bit_simps dest: bit_imp_le_length\<close>)

lemma b32_last_out:
  fixes d w :: u32
  assumes "b32_pending e w d b" "1 \<le> e" "e \<le> 4"
  shows "ucast (drop_bit (5 - e) (push_bit 5 d OR take_bit 5 (push_bit (5 - e) w))) = b"
  by (rule b32_byte_out [where w = w]) (use assms in \<open>auto simp: b32_pending_def bit_simps\<close>)

lemma b32_round:
  "e \<le> 4 \<Longrightarrow> b32_pending e w d b \<Longrightarrow>
     b32_decode_from d (if e = 0 then 0 else 8 - e) (b32_encode_from w e data)
       = Some ((if e = 0 then [] else [b]) @ data)"
proof (induction data arbitrary: e w d b)
  case Nil
  show ?case
  proof (cases "e = 0")
    case False
    with Nil have "(8 - e) + 5 - 8 = 5 - e" "8 \<le> (8 - e) + 5" "1 \<le> e" by linarith+
    with False show ?thesis
      using b32_last_out [OF Nil(2) _ Nil(1)]
      by (simp add: and_31 b32_decode_letter Let_def del: b32_decode_from.simps(2))
  qed simp
next
  case (Cons c data)
  define w' where "w' = push_bit 8 w OR ucast c"
  define d1 where "d1 = push_bit 5 d OR take_bit 5 (drop_bit (e + 3) w')"
  define d2 where "d2 = push_bit 5 d1 OR take_bit 5 (drop_bit (e - 2) w')"
  note out = b32_first_out [OF Cons.prems(2), of c, folded w'_def, folded d1_def]
    and one = b32_pending_1 [of e c d w, folded w'_def, folded d1_def]
    and two = b32_pending_2 [of e c d w, folded w'_def, folded d1_def, folded d2_def]
  note go = b32_push.simps and_31 b32_decode_letter Let_def w'_def [symmetric]
  consider "e = 0" | "e = 1" | "e = 2" | "e = 3" | "e = 4" using Cons.prems(1) by linarith
  then show ?case
  proof cases
    case 1
    have "b32_pending 3 w' d1 c" using one by (simp add: b32_pending_def 1)
    from Cons.IH [OF _ this] d1_def show ?thesis by (simp add: 1 go del: b32_decode_from.simps(2))
  next
    case 2
    have "b32_pending 4 w' d1 c" using one by (simp add: b32_pending_def 2)
    from Cons.IH [OF _ this] out d1_def show ?thesis by (simp add: 2 go del: b32_decode_from.simps(2))
  next
    case 3
    have "b32_pending 0 w' d2 c" by (simp add: b32_pending_def)
    from Cons.IH [OF _ this] out two [symmetric] d1_def d2_def show ?thesis by (simp add: 3 go del: b32_decode_from.simps(2))
  next
    case 4
    have "b32_pending 1 w' d2 c" using two by (simp add: b32_pending_def 4)
    from Cons.IH [OF _ this] out d1_def d2_def show ?thesis by (simp add: 4 go del: b32_decode_from.simps(2))
  next
    case 5
    have "b32_pending 2 w' d2 c" using two by (simp add: b32_pending_def 5)
    from Cons.IH [OF _ this] out d1_def d2_def show ?thesis by (simp add: 5 go del: b32_decode_from.simps(2))
  qed
qed

lemma b32_push_letters: "c \<in> set (fst (b32_push w n)) \<Longrightarrow> c \<noteq> 61"
proof (induction w n rule: b32_push.induct)
  case (1 w n)
  have "B32 ! unat (take_bit 5 (drop_bit (n - 5) w)) \<noteq> 61"
    using B32_letters unat_5_bits [of "drop_bit (n - 5) w"] by (simp add: list_all_iff)
  with 1 show ?case
    by (subst (asm) b32_push.simps) (auto simp: and_31 split_def Let_def split: if_splits)
qed

lemma b32_encode_letters: "c \<in> set (b32_encode_from w n data) \<Longrightarrow> c \<noteq> 61"
proof (induction data arbitrary: w n)
  case Nil
  have "B32 ! unat (take_bit 5 (push_bit (5 - n) w)) \<noteq> 61"
    using B32_letters unat_5_bits [of "push_bit (5 - n) w"] by (simp add: list_all_iff)
  with Nil show ?case by (auto simp: and_31 split: if_splits)
next
  case (Cons b data)
  then show ?case by (auto simp: split_def Let_def dest: b32_push_letters)
qed

lemma base32_round: "base32_decode (base32_encode data) = Some data"
proof -
  have "filter (\<lambda>c. c \<noteq> 61) (base32_encode data) = base32_encode data"
    unfolding base32_encode_def using b32_encode_letters by (simp add: filter_id_conv)
  then show ?thesis
    using b32_round [of 0 0 0 0 data] by (simp add: base32_decode_def base32_encode_def b32_pending_def)
qed

lemma fresh_code_accepted:
  assumes "parse_u32 (filter (\<lambda>b. b \<noteq> 32) (str_trim c)) = Some (totp_at l bs step)"
    "step \<in> {now div TOTP_STEP - 1, now div TOTP_STEP, now div TOTP_STEP + 1}" "after < step"
  shows "check_code l (base32_encode bs) c now after \<noteq> None"
proof -
  have "step \<in> set (filter (\<lambda>s. s > after) [now div TOTP_STEP - 1, now div TOTP_STEP, now div TOTP_STEP + 1])"
    using assms(2,3) by (simp only: set_filter list.set) auto
  then show ?thesis
    by (auto simp: check_code_def base32_round assms(1) find_None Let_def simp del: filter.simps)
qed

section \<open>What the accounts promise\<close>

text \<open>C9. Once a node has an admin, it always has one, whatever is called in whatever order and
  whether or not the accounts file could be written: accounts are created, removed, promoted and demoted,
  but the last admin is neither removed nor made a user. Usernames stay distinct and well formed.\<close>

theorem an_admin_always_remains:
  assumes "has_admin a" "names_ok a"
  shows "has_admin (account_run l ops a) \<and> names_ok (account_run l ops a)"
  using assms by (rule accounts_run_ok)

text \<open>C10. A code is good once, between calls: after a sign-in accepted the code of a step, and after
  any further calls that do not set that same secret up anew, another sign-in to the account under that
  secret takes a code of a strictly later step, and that step is one either side of its clock.\<close>

theorem a_code_is_good_once:
  assumes "fst (login_check l n p c at now a) = Ok (u, Some s)" "us_totp u = Some t"
    and "list_all (\<lambda>x. \<not> makes_secret (tp_secret t) x) ops"
    and "fst (login_check l n' p' c' at' now' (account_run l ops (snd (login l n p c at now token a)))) = Ok (v, st)"
    and "us_username v = us_username u" "us_totp v = Some t'" "tp_secret t' = tp_secret t"
  shows "\<exists>s'. st = Some s' \<and> s < s'
    \<and> s' \<in> {unix now' div TOTP_STEP - 1, unix now' div TOTP_STEP, unix now' div TOTP_STEP + 1}"
proof -
  let ?a = "account_run l ops (snd (login l n p c at now token a))"
  have "spent (us_username v) (tp_secret t) s (ac_users ?a)"
    using spent_run [OF login_spends [OF assms(1,2)] assms(3)] assms(5) by simp
  from spent_login_later [OF this assms(4,6,7)] obtain s' where s: "st = Some s'" "s < s'" by blast
  with login_check_Ok [OF assms(4)] assms(6) check_code_sound show ?thesis
    by (fastforce split: if_splits)
qed

text \<open>Two sign-ins at the same moment: the accounts are locked for the lookup and again for recording
  the used step, not in between. When a second sign-in with the same code is checked before the first has
  recorded its step, it is accepted too, and both end with a session that is good.\<close>

theorem racing_sign_ins_share_a_code:
  assumes "fst (login_check l n p c at now a) = Ok (u, Some s)" "twf (ac_sessions a)" "token1 \<noteq> token2"
  shows "(let a1 = snd (login_check l n p c at now a);
              (second, a2) = login_check l n p c at now a1;
              a3 = snd (login_finish n u (Some s) token1 at a2);
              a4 = snd (login_finish n u (Some s) token2 at a3)
          in second = Ok (u, Some s)
             \<and> session token1 at a4 = Some (us_username u) \<and> session token2 at a4 = Some (us_username u))"
proof -
  define b where "b = snd (login_check l n p c at now a)"
  have b: "fst (login_check l n p c at now b) = Ok (u, Some s)" "snd (login_check l n p c at now b) = b"
    using login_check_twice [OF assms(1)] assms(1) by (simp_all add: b_def)
  have wf: "twf (ac_sessions (snd (login_finish n u (Some s) token1 at b)))"
    using assms(2) login_check_Ok_state [OF assms(1)] by (simp add: finish_sessions_wf b_def)
  show ?thesis
    using session_kept_by_finish [OF session_after_finish assms(3) wf]
    by (simp add: Let_def split_def b session_after_finish flip: b_def)
qed

text \<open>What setting up codes hands out reads back: the secret is the Base32 of the drawn bytes, and a
  code computed from those bytes for a step within one of the clock turns codes on.\<close>

theorem a_fresh_secret_can_be_turned_on:
  assumes "begin_totp l n issuer (Some bs) True a = (Ok (secret, uri, svg), a1)"
    and "parse_u32 (filter (\<lambda>b. b \<noteq> 32) (str_trim c)) = Some (totp_at l bs step)"
    and "step \<in> {unix now div TOTP_STEP - 1, unix now div TOTP_STEP, unix now div TOTP_STEP + 1}" "0 < step"
  shows "base32_decode secret = Some bs \<and> fst (enable_totp l n c now True a1) = Ok ()
    \<and> (\<exists>v. get_account n (snd (enable_totp l n c now True a1)) = Some v \<and> av_totp_enabled v)"
proof -
  obtain u where u: "find_user n (ac_users a) = Some u" and s: "secret = base32_encode bs"
    and a1: "a1 = a\<lparr>ac_users := change_user n
      (\<lambda>u. u\<lparr>us_totp := Some \<lparr>tp_secret = base32_encode bs, tp_enabled = False, tp_last_step = 0\<rparr>\<rparr>) (ac_users a)\<rparr>"
    using assms(1) by (auto simp: begin_totp_def Let_def split: option.splits if_splits)
  obtain k where "check_code l (base32_encode bs) c (unix now) 0 = Some k"
    using fresh_code_accepted [OF assms(2-4)] by blast
  then show ?thesis
    by (simp add: a1 s u base32_round enable_totp_def find_user_change saved_def get_account_def view_def)
qed

section \<open>Witnesses\<close>

text \<open>A hash that copies the step through, so that the code of step \<open>k\<close> is \<open>k\<close>.\<close>

definition ex_libs :: libs where
  "ex_libs = \<lparr>argon2_verify = (=),
     sha1 = (\<lambda>x. (if length x = 72 then drop 68 x else take 4 (drop (length x - 20) x)) @ replicate 16 0),
     qr_svg = (\<lambda>u. Some u)\<rparr>"

definition ex_totp :: totp where
  "ex_totp = \<lparr>tp_secret = ascii ''AA'', tp_enabled = True, tp_last_step = 0\<rparr>"

definition ex_user :: user where
  "ex_user = \<lparr>us_username = ascii ''ann'', us_password = ascii ''pw'', us_totp = Some ex_totp,
     us_created_unix = 0, us_role = Admin, us_admin_requested_unix = None, us_key_salt = None\<rparr>"

definition ex_accounts :: accounts where
  "ex_accounts = \<lparr>ac_users = [ex_user], ac_sessions = [], ac_failures = [], ac_decoy = []\<rparr>"

lemmas ex_account_defs = ex_totp_def ex_user_def ex_accounts_def ascii_def

lemma ex_totp_at: "totp_at ex_libs [0] 1 = 1" "totp_at ex_libs [0] 2 = 2" "totp_at ex_libs [0] 3 = 3"
  by (simp_all add: totp_at_def hmac_sha1_def ex_libs_def to_be_def of_be_def TOTP_DIGITS_def upt_rec Let_def)

lemma ex_verify [simp]: "argon2_verify ex_libs p h \<longleftrightarrow> p = h"
  by (simp add: ex_libs_def)

lemma ex_decode: "base32_decode [65, 65] = Some [0]"
  by (simp add: base32_decode_def ascii_def B32_def to_upper_def is_lower_def)

lemma ex_parse: "parse_u32 (filter (\<lambda>b. b \<noteq> 32) (str_trim [50])) = Some 2"
    "parse_u32 (filter (\<lambda>b. b \<noteq> 32) (str_trim [51])) = Some 3"
  by (simp_all add: str_trim_graphic is_ascii_def is_whitespace_def parse_u32_def is_digit_def)

lemma ex_trim: "str_trim [50] = [50]" "str_trim [51] = [51]"
  by (simp_all add: str_trim_graphic is_ascii_def is_whitespace_def)

lemma ex_check: "check_code ex_libs [65, 65] [50] 60 0 = Some 2"
    "check_code ex_libs [65, 65] [51] 60 2 = Some 3"
  by (simp_all add: check_code_def ex_parse ex_decode ex_totp_at ex_totp_at [unfolded One_nat_def]
      TOTP_STEP_def Let_def)

lemma ex_first: "fst (login_check ex_libs [65, 110, 110] [112, 119] (Some [50]) 0 60000000000 ex_accounts)
    = Ok (ex_user, Some 2)"
  by (simp add: login_check_def throttled_def tput_def tget_def MAX_FAILURES_def ex_account_defs find_user_def
      to_lower_def is_upper_def ex_trim ex_check unix_def Let_def)

lemma ex_after: "account_run ex_libs [EndSession [7]]
    (snd (login ex_libs [65, 110, 110] [112, 119] (Some [50]) 0 60000000000 [7] ex_accounts))
    = ex_accounts\<lparr>ac_users := [ex_user\<lparr>us_totp := Some (ex_totp\<lparr>tp_last_step := 2\<rparr>)\<rparr>]\<rparr>"
  unfolding login_accepted [OF ex_first]
  by (simp add: account_run_def end_session_def login_finish_def set_last_step_def start_session_def throttled_def tput_def tdel_def tretain_def tget_def
      MAX_FAILURES_def ex_user_def ex_accounts_def ascii_def to_lower_def is_upper_def Let_def)

lemma ex_second: "fst (login_check ex_libs [97, 110, 110] [112, 119] (Some [51]) 0 60000000000
    (account_run ex_libs [EndSession [7]]
      (snd (login ex_libs [65, 110, 110] [112, 119] (Some [50]) 0 60000000000 [7] ex_accounts))))
    = Ok (ex_user\<lparr>us_totp := Some (ex_totp\<lparr>tp_last_step := 2\<rparr>)\<rparr>, Some 3)"
  unfolding ex_after
  by (simp add: login_check_def throttled_def tput_def tget_def MAX_FAILURES_def ex_account_defs find_user_def
      to_lower_def is_upper_def ex_trim ex_check unix_def Let_def)

theorem an_admin_always_remains_witness:
  "has_admin (account_run ex_libs [CreateAccount (ascii ''bob'') (ascii ''long enough'') User 0 (Some []) (Some []) True,
      SetRole (ascii ''ann'') User True, RemoveAccount (ascii ''ann'') True] ex_accounts)"
  by (rule an_admin_always_remains [THEN conjunct1])
    (simp_all add: has_admin_def names_ok_def ex_account_defs valid_username_def is_lower_def)

theorem a_code_is_good_once_witness: "(2::nat) < 3 \<and> check_code ex_libs [65, 65] [51] 60 2 = Some 3"
  using a_code_is_good_once [OF ex_first _ _ ex_second, of ex_totp "ex_totp\<lparr>tp_last_step := 2\<rparr>"]
  by (simp add: ex_user_def ex_totp_def ex_check)

theorem racing_sign_ins_share_a_code_witness:
  "session [1] 0 (snd (login_finish [65, 110, 110] ex_user (Some 2) [2] 0
      (snd (login_finish [65, 110, 110] ex_user (Some 2) [1] 0
        (snd (login_check ex_libs [65, 110, 110] [112, 119] (Some [50]) 0 60000000000
          (snd (login_check ex_libs [65, 110, 110] [112, 119] (Some [50]) 0 60000000000 ex_accounts))))))))
    = Some (ascii ''ann'')"
  using racing_sign_ins_share_a_code [OF ex_first, of "[1]" "[2]"]
  by (simp add: Let_def split_def ex_user_def) (simp add: ex_account_defs)

lemma ex_begin: "begin_totp ex_libs (ascii ''ann'') [] (Some [0]) True
    (ex_accounts\<lparr>ac_users := [ex_user\<lparr>us_totp := None\<rparr>]\<rparr>)
    = (Ok (base32_encode [0], otpauth_uri [] (ascii ''ann'') (base32_encode [0]),
         otpauth_uri [] (ascii ''ann'') (base32_encode [0])),
       ex_accounts\<lparr>ac_users := [ex_user\<lparr>us_totp := Some \<lparr>tp_secret = base32_encode [0], tp_enabled = False, tp_last_step = 0\<rparr>\<rparr>]\<rparr>)"
  by (simp add: begin_totp_def find_user_def ex_user_def ex_accounts_def ex_libs_def Let_def)

theorem a_fresh_secret_can_be_turned_on_witness:
  "fst (enable_totp ex_libs (ascii ''ann'') [50] 60000000000 True (ex_accounts\<lparr>ac_users :=
     [ex_user\<lparr>us_totp := Some \<lparr>tp_secret = base32_encode [0], tp_enabled = False, tp_last_step = 0\<rparr>\<rparr>]\<rparr>)) = Ok ()"
  using a_fresh_secret_can_be_turned_on [OF ex_begin, of "[50]" 2 60000000000]
  by (simp add: ex_parse ex_totp_at unix_def TOTP_STEP_def)

end
