(* ===== verification/Hosting.thy ===== *)
theory Hosting
  imports Quota
begin

text \<open>
  \<^verbatim>\<open>crates/platform-index/src/hosting.rs\<close>, the data and the decisions: the hosting file and what is refused in
  it, a node's instances as the index reports them, and who owns one. \<^verbatim>\<open>access.rs\<close>: who may see and run a server. What the index asks of its
  nodes is the record \<open>workers\<close>, a parameter: each call takes and returns the state of the world, and
  answers with an error text when the node, or the way to it, fails. Both transports (the uplink and
  loopback HTTP) are this one parameter. Byte and second counts (\<^verbatim>\<open>u64\<close>) are \<open>nat\<close>.
\<close>

section \<open>The hosting file\<close>

record node_config =
  nc_name :: str
  nc_api :: str
  nc_agent :: "str option"
  nc_priority :: int
  nc_class :: "str option"
  nc_region :: "str option"

record account_settings =
  as_max_instances :: "u32 option"
  as_create_cooldown_secs :: "nat option"
  as_never_reap :: bool
  as_classes :: "str list"
  as_max_backups :: "u32 option"

record quota_settings =
  qs_max_instances_per_account :: u32
  qs_max_total_instances :: u32
  qs_idle_timeout_secs :: "nat option"
  qs_min_lifetime_secs :: nat
  qs_create_cooldown_secs :: "nat option"
  qs_accounts :: "(str \<times> account_settings) list"
  qs_stopped_delete_after_days :: "nat option"
  qs_max_backups_per_account :: "u32 option"

record hosting_config =
  hc_games :: "str list"
  hc_nodes :: "node_config list"
  hc_quota :: quota_settings
  hc_admins :: "str list"

definition lower :: "u8 \<Rightarrow> bool" where
  "lower b \<longleftrightarrow> 97 \<le> unat b \<and> unat b \<le> 122"

definition upper :: "u8 \<Rightarrow> bool" where
  "upper b \<longleftrightarrow> 65 \<le> unat b \<and> unat b \<le> 90"

definition digit :: "u8 \<Rightarrow> bool" where
  "digit b \<longleftrightarrow> 48 \<le> unat b \<and> unat b \<le> 57"

definition ascii_lowercase :: "str \<Rightarrow> str" where
  "ascii_lowercase s = map (\<lambda>b. if upper b then b + 32 else b) s"

definition is_hexdigit :: "u8 \<Rightarrow> bool" where
  "is_hexdigit b \<longleftrightarrow> digit b \<or> (97 \<le> unat b \<and> unat b \<le> 102) \<or> (65 \<le> unat b \<and> unat b \<le> 70)"

definition valid_class :: "str \<Rightarrow> bool" where
  "valid_class class \<longleftrightarrow>
     class \<noteq> [] \<and> length class \<le> 32 \<and> list_all (\<lambda>b. lower b \<or> digit b \<or> b = 45 \<or> b = 95) class"

definition identity_hash :: "str \<Rightarrow> bool" where
  "identity_hash key \<longleftrightarrow> length key = 32 \<and> list_all is_hexdigit key"

datatype hosting_error =
    ZeroExpiryDays | ZeroBackups | AccountZeroBackups str | AccountBadClass str | NotAnIdentity str | ListedTwice str
  | BadNodeClass str | BadNodeRegion str | BadAdmin str
  | NotOffered | GameNotHosted str | NoName | BadName | ClassRefused | QuotaDenied deny_reason | BadRegion
  | NoNodeWithRoom | NoEntropy | NoSuchInstance | NodeGone | AlreadyRunning | AlreadyMoving
  | NoSuchWorker | AlreadyThere | OtherClass | OtherRegion | WorkerSilent | WorkerFull
  | NoRoomInRegion str | NoOtherWorker | TooOld str | TooBig str | Remote str | NotRestarted hosting_error
  | NotAdmin | AlreadyAdmin | AdminInFile | LastAdmin | NoSuchRequest | AlreadyDecided | AlreadyAsked
  | AlreadyInRegion | NoWorkerThere | NotSaved | NotGranted | BadBackupName | BadMapName | NotRunning

text \<open>\<open>validate\<close>: the account section's own checks, then the keys (\<^verbatim>\<open>qs_accounts\<close> is a \<^verbatim>\<open>BTreeMap\<close>, so in
  key order; \<open>seen\<close> are the keys already met, in lower case).\<close>

fun check_accounts :: "(str \<times> account_settings) list \<Rightarrow> (hosting_error, unit) outcome" where
  "check_accounts [] = Ok ()"
| "check_accounts ((key, a) # rest) =
     (if as_max_backups a = Some 0 then Err (AccountZeroBackups key)
      else case List.find (\<lambda>c. \<not> valid_class c) (as_classes a) of
        Some bad \<Rightarrow> Err (AccountBadClass key)
      | None \<Rightarrow> check_accounts rest)"

fun check_keys :: "str list \<Rightarrow> str list \<Rightarrow> (hosting_error, unit) outcome" where
  "check_keys seen [] = Ok ()"
| "check_keys seen (key # rest) =
     (if \<not> identity_hash key then Err (NotAnIdentity key)
      else if ascii_lowercase key \<in> set seen then Err (ListedTwice key)
      else check_keys (ascii_lowercase key # seen) rest)"

definition validate_settings :: "quota_settings \<Rightarrow> (hosting_error, unit) outcome" where
  "validate_settings s =
     (if qs_stopped_delete_after_days s = Some 0 then Err ZeroExpiryDays
      else if qs_max_backups_per_account s = Some 0 then Err ZeroBackups
      else and_then (check_accounts (qs_accounts s)) (\<lambda>_. check_keys [] (map fst (qs_accounts s))))"

text \<open>\<open>load\<close> once the file has been read and parsed.\<close>

definition check_config :: "hosting_config \<Rightarrow> (hosting_error, hosting_config) outcome" where
  "check_config c =
     and_then (validate_settings (hc_quota c)) (\<lambda>_.
       case List.find (\<lambda>x. \<not> valid_class x) (List.map_filter nc_class (hc_nodes c)) of
         Some bad \<Rightarrow> Err (BadNodeClass bad)
       | None \<Rightarrow>
           (case List.find (\<lambda>x. \<not> valid_class x) (List.map_filter nc_region (hc_nodes c)) of
              Some bad \<Rightarrow> Err (BadNodeRegion bad)
            | None \<Rightarrow>
                (case List.find (\<lambda>x. \<not> identity_hash x) (hc_admins c) of
                   Some bad \<Rightarrow> Err (BadAdmin bad)
                 | None \<Rightarrow> Ok c)))"

definition limits_of :: "account_settings \<Rightarrow> account_limits" where
  "limits_of a = \<lparr>al_max_instances = as_max_instances a,
     al_create_cooldown = map_option (\<lambda>n. if n > 0 then Some (secs n) else None) (as_create_cooldown_secs a),
     al_never_reap = as_never_reap a, al_classes = as_classes a, al_max_backups = as_max_backups a\<rparr>"

definition policy_of :: "quota_settings \<Rightarrow> quota_policy" where
  "policy_of s =
     \<lparr>max_instances_per_account = qs_max_instances_per_account s,
      max_total_instances = qs_max_total_instances s,
      idle_timeout = map_option secs (qs_idle_timeout_secs s),
      min_lifetime = secs (qs_min_lifetime_secs s),
      create_cooldown = map_option secs (qs_create_cooldown_secs s),
      overrides = fold (\<lambda>(key, a). tput (ascii_lowercase key) (limits_of a)) (qs_accounts s) [],
      stopped_expiry = map_option (\<lambda>days. secs (min (2 ^ 64 - 1) (days * 86400))) (qs_stopped_delete_after_days s),
      max_backups_per_account = qs_max_backups_per_account s\<rparr>"

definition quotas :: "hosting_config \<Rightarrow> quota_policy" where
  "quotas c = policy_of (hc_quota c)"

definition enabled :: "hosting_config \<Rightarrow> bool" where
  "enabled c \<longleftrightarrow> hc_games c \<noteq> [] \<and> hc_nodes c \<noteq> []"

definition hosts_game :: "hosting_config \<Rightarrow> str \<Rightarrow> bool" where
  "hosts_game c game \<longleftrightarrow> game \<in> set (hc_games c)"

text \<open>\<^verbatim>\<open>sort\<close> and \<^verbatim>\<open>dedup\<close> on words.\<close>

definition sorted_words :: "str list \<Rightarrow> str list" where
  "sorted_words ws = remdups_adj (sort ws)"

definition regions :: "hosting_config \<Rightarrow> str list" where
  "regions c = sorted_words (List.map_filter nc_region (hc_nodes c))"

section \<open>A node's instances\<close>

record instance_port =
  po_channel :: u8
  po_host_port :: u16
  po_udp :: bool

text \<open>A row of a node's reply.\<close>

record instance_row =
  rw_instance_id :: str
  rw_game_id :: str
  rw_name :: str
  rw_state :: str
  rw_port :: "u16 option"
  rw_ports :: "instance_port list"
  rw_owner :: "str option"
  rw_uptime_secs :: "nat option"
  rw_stopped_secs :: "nat option"
  rw_players_now :: "u32 option"
  rw_map_now :: "str option"
  rw_mesh_destination :: "str option"

record hosted_instance =
  hi_instance_id :: str
  hi_node :: str
  hi_game_id :: str
  hi_name :: str
  hi_state :: str
  hi_port :: "u16 option"
  hi_ports :: "instance_port list"
  hi_stopped_secs :: "nat option"
  hi_delete_in_secs :: "nat option"
  hi_owner :: "str option"
  hi_uptime_secs :: "nat option"
  hi_players_now :: "u32 option"
  hi_map_now :: "str option"
  hi_mesh_destination :: "str option"
  hi_region :: "str option"

record capacity_resp =
  cp_max_instances :: nat
  cp_running :: nat
  cp_port_range_start :: u16
  cp_port_range_end :: u16
  cp_memory_total_bytes :: "nat option"
  cp_memory_available_bytes :: "nat option"
  cp_cpus :: "u32 option"
  cp_disk_free_bytes :: "nat option"
  cp_disk_reserve_bytes :: "nat option"

record instance_options =
  io_eula_accepted_at :: "nat option"
  io_rest :: bytes

record instance_spec =
  sp_instance_id :: str
  sp_game_id :: str
  sp_name :: str
  sp_max_players :: u8
  sp_port :: "u16 option"
  sp_extra_ports :: "(u8 \<times> u16) list"
  sp_map :: "str option"
  sp_bots :: "u8 option"
  sp_restart_on_crash :: bool
  sp_owner :: "str option"
  sp_options :: instance_options

record backup =
  bk_name :: str
  bk_bytes :: nat
  bk_created_unix :: "int option"
  bk_started_unix :: "int option"

text \<open>What a node answers to a create: the state and the ports it picked.\<close>

record created =
  cr_state :: str
  cr_port :: "u16 option"
  cr_ports :: "instance_port list"

text \<open>One piece of an upload taken in (\<^verbatim>\<open>progress\<close>).\<close>

record progress =
  pg_received :: nat
  pg_upload :: str
  pg_backup :: "backup option"

section \<open>What the index asks of its nodes\<close>

type_synonym ('w, 'a) asked = "'w \<Rightarrow> (str + 'a) \<times> 'w"

text \<open>
  \<open>wk_read\<close> (\<^verbatim>\<open>backup_read\<close>) answers with the file's whole length and the piece at an offset;
  \<open>wk_write\<close> (\<^verbatim>\<open>backup_write\<close>) takes the upload's name, the offset, the whole length and a piece.
\<close>

record 'w workers =
  wk_list :: "node_config \<Rightarrow> ('w, instance_row list) asked"
  wk_capacity :: "node_config \<Rightarrow> ('w, capacity_resp) asked"
  wk_spec :: "node_config \<Rightarrow> str \<Rightarrow> ('w, instance_spec) asked"
  wk_create :: "node_config \<Rightarrow> instance_spec \<Rightarrow> str \<Rightarrow> ('w, created) asked"
  wk_stop :: "node_config \<Rightarrow> str \<Rightarrow> ('w, unit) asked"
  wk_start :: "node_config \<Rightarrow> str \<Rightarrow> ('w, unit) asked"
  wk_remove :: "node_config \<Rightarrow> str \<Rightarrow> ('w, unit) asked"
  wk_backups :: "node_config \<Rightarrow> str \<Rightarrow> ('w, backup list) asked"
  wk_make :: "node_config \<Rightarrow> str \<Rightarrow> int option \<Rightarrow> ('w, backup) asked"
  wk_read :: "node_config \<Rightarrow> str \<Rightarrow> str \<Rightarrow> nat \<Rightarrow> ('w, nat \<times> bytes) asked"
  wk_write :: "node_config \<Rightarrow> str \<Rightarrow> str option \<Rightarrow> nat \<Rightarrow> nat \<Rightarrow> bytes \<Rightarrow> ('w, progress) asked"
  wk_backup_delete :: "node_config \<Rightarrow> str \<Rightarrow> str \<Rightarrow> ('w, unit) asked"
  wk_restore :: "node_config \<Rightarrow> str \<Rightarrow> str \<Rightarrow> ('w, unit) asked"
  wk_merge :: "node_config \<Rightarrow> str \<Rightarrow> str \<Rightarrow> ('w, unit) asked"
  wk_identity :: "node_config \<Rightarrow> str \<Rightarrow> ('w, bytes option) asked"
  wk_set_identity :: "node_config \<Rightarrow> str \<Rightarrow> bytes \<Rightarrow> ('w, unit) asked"
  wk_logs :: "node_config \<Rightarrow> str \<Rightarrow> u32 \<Rightarrow> ('w, str \<times> bool) asked"
  wk_change_map :: "node_config \<Rightarrow> str \<Rightarrow> str \<Rightarrow> ('w, unit) asked"
  wk_maps :: "node_config \<Rightarrow> str \<Rightarrow> ('w, str list) asked"

section \<open>Ownership (\<^verbatim>\<open>access.rs\<close>)\<close>

definition is_owner :: "account_id \<Rightarrow> hosted_instance \<Rightarrow> bool" where
  "is_owner account server \<longleftrightarrow> hi_owner server = Some account"

text \<open>An access policy, and the one used when none is set.\<close>

record access =
  ax_may_see :: "account_id \<Rightarrow> hosted_instance \<Rightarrow> bool"
  ax_may_operate :: "account_id \<Rightarrow> hosted_instance \<Rightarrow> bool"

definition owner_only :: access where
  "owner_only = \<lparr>ax_may_see = is_owner, ax_may_operate = is_owner\<rparr>"

section \<open>Quotas over what the nodes report\<close>

text \<open>
  An uptime reaching back before 1970 reads as created in 1970; one that \<^verbatim>\<open>SystemTime\<close> cannot hold (an \<open>i64\<close> of
  seconds) reads as created now.
\<close>

definition record_for :: "hosted_instance \<Rightarrow> time \<Rightarrow> instance_record" where
  "record_for i now =
     \<lparr>ir_instance_id = hi_instance_id i,
      ir_account = (case hi_owner i of None \<Rightarrow> [] | Some a \<Rightarrow> a),
      ir_created_at = (case hi_uptime_secs i of None \<Rightarrow> now
        | Some s \<Rightarrow> if s > now div 1000000000 + 2 ^ 63 then now else now - secs s),
      ir_last_player_seen = None,
      ir_players_now = (case hi_players_now i of None \<Rightarrow> 0 | Some n \<Rightarrow> n),
      ir_exempt_from_reaping = (hi_players_now i = None)\<rparr>"

definition delete_in_secs :: "quota_policy \<Rightarrow> hosted_instance \<Rightarrow> nat option" where
  "delete_in_secs q i =
     (if hi_state i \<noteq> ascii ''stopped'' then None
      else case hi_stopped_secs i of None \<Rightarrow> None | Some stopped \<Rightarrow>
      (case stopped_expiry_for q (case hi_owner i of None \<Rightarrow> [] | Some a \<Rightarrow> a) of
         None \<Rightarrow> None | Some after \<Rightarrow> Some (after div 1000000000 - stopped)))"

section \<open>Listing\<close>

definition hosted_of :: "node_config \<Rightarrow> instance_row \<Rightarrow> hosted_instance" where
  "hosted_of node r =
     \<lparr>hi_instance_id = rw_instance_id r, hi_node = nc_name node, hi_game_id = rw_game_id r, hi_name = rw_name r,
      hi_state = rw_state r, hi_port = rw_port r, hi_ports = rw_ports r, hi_stopped_secs = rw_stopped_secs r,
      hi_delete_in_secs = None, hi_owner = rw_owner r, hi_uptime_secs = rw_uptime_secs r,
      hi_players_now = rw_players_now r, hi_map_now = rw_map_now r,
      hi_mesh_destination = rw_mesh_destination r, hi_region = nc_region node\<rparr>"

definition node_instances :: "'w workers \<Rightarrow> node_config \<Rightarrow> ('w, hosted_instance list) asked" where
  "node_instances W node w =
     (let (rows, w) = wk_list W node w in (map_sum id (map (hosted_of node)) rows, w))"

fun gather :: "'w workers \<Rightarrow> node_config list \<Rightarrow> 'w \<Rightarrow> hosted_instance list \<times> 'w" where
  "gather W [] w = ([], w)"
| "gather W (node # nodes) w =
     (let (rows, w) = node_instances W node w;
          (more, w) = gather W nodes w
      in ((case rows of Inr rs \<Rightarrow> rs | Inl _ \<Rightarrow> []) @ more, w))"

definition all_instances :: "'w workers \<Rightarrow> hosting_config \<Rightarrow> 'w \<Rightarrow> hosted_instance list \<times> 'w" where
  "all_instances W c w =
     (let (out, w) = gather W (hc_nodes c) w;
          out = map (\<lambda>i. i\<lparr>hi_delete_in_secs := delete_in_secs (quotas c) i\<rparr>) out
      in (sort_by (\<lambda>a b. cmp (hi_instance_id a) (hi_instance_id b)) out, w))"

definition instances_for :: "'w workers \<Rightarrow> access \<Rightarrow> hosting_config \<Rightarrow> account_id \<Rightarrow> 'w
    \<Rightarrow> hosted_instance list \<times> 'w" where
  "instances_for W ax c account w =
     (let (all, w) = all_instances W c w in (filter (ax_may_see ax account) all, w))"

definition find_for :: "'w workers \<Rightarrow> hosting_config \<Rightarrow> account_id \<Rightarrow> str
    \<Rightarrow> (account_id \<Rightarrow> hosted_instance \<Rightarrow> bool) \<Rightarrow> 'w
    \<Rightarrow> (hosting_error, hosted_instance \<times> node_config) outcome \<times> 'w" where
  "find_for W c account instance_id allowed w =
     (let (all, w) = all_instances W c w in
      case List.find (\<lambda>i. hi_instance_id i = instance_id) all of
        None \<Rightarrow> (Err NoSuchInstance, w)
      | Some found \<Rightarrow>
          if \<not> allowed account found then (Err NoSuchInstance, w)
          else case List.find (\<lambda>n. nc_name n = hi_node found) (hc_nodes c) of
            None \<Rightarrow> (Err NodeGone, w)
          | Some node \<Rightarrow> (Ok (found, node), w))"

definition owned :: "'w workers \<Rightarrow> hosting_config \<Rightarrow> account_id \<Rightarrow> str \<Rightarrow> 'w
    \<Rightarrow> (hosting_error, hosted_instance \<times> node_config) outcome \<times> 'w" where
  "owned W c account instance_id w = find_for W c account instance_id is_owner w"

definition operable :: "'w workers \<Rightarrow> access \<Rightarrow> hosting_config \<Rightarrow> account_id \<Rightarrow> str \<Rightarrow> 'w
    \<Rightarrow> (hosting_error, hosted_instance \<times> node_config) outcome \<times> 'w" where
  "operable W ax c account instance_id w = find_for W c account instance_id (ax_may_operate ax) w"

section \<open>Lemmas on listing and ownership\<close>

lemma find_for_Ok:
  assumes "find_for W c account iid allowed w = (Ok (found, node), w')"
  shows "allowed account found" "hi_instance_id found = iid" "node \<in> set (hc_nodes c)"
    "nc_name node = hi_node found" "found \<in> set (fst (all_instances W c w))" "w' = snd (all_instances W c w)"
  using assms by (auto simp: find_for_def split_def Let_def dest!: find_Some split: option.splits if_splits)

lemma find_for_world: "snd (find_for W c account iid allowed w) = snd (all_instances W c w)"
  by (simp add: find_for_def split_def Let_def split: option.split)

text \<open>Which answers a listing is made of.\<close>

fun listings :: "'w workers \<Rightarrow> node_config list \<Rightarrow> 'w \<Rightarrow> (node_config \<times> instance_row list) list" where
  "listings W [] w = []"
| "listings W (node # nodes) w =
     (let (rows, w) = wk_list W node w
      in (case rows of Inr rs \<Rightarrow> [(node, rs)] | Inl _ \<Rightarrow> []) @ listings W nodes w)"

lemma gather_listings: "fst (gather W nodes w) = concat (map (\<lambda>(n, rs). map (hosted_of n) rs) (listings W nodes w))"
  by (induction nodes arbitrary: w) (simp_all add: node_instances_def split_def Let_def split: sum.split)

lemma all_instances_reported:
  assumes "i \<in> set (fst (all_instances W c w))"
  shows "\<exists>n rs r. (n, rs) \<in> set (listings W (hc_nodes c) w) \<and> r \<in> set rs
    \<and> hi_instance_id i = rw_instance_id r \<and> hi_owner i = rw_owner r \<and> hi_node i = nc_name n \<and> hi_state i = rw_state r"
  using assms by (fastforce simp: all_instances_def split_def Let_def gather_listings hosted_of_def)

lemma listings_nodes: "(n, rs) \<in> set (listings W nodes w) \<Longrightarrow> n \<in> set nodes"
  by (induction nodes arbitrary: w) (auto simp: split_def Let_def split: sum.splits)

section \<open>Nodes that answer nothing\<close>

definition silent_workers :: "'w workers" where
  "silent_workers =
     \<lparr>wk_list = (\<lambda>n w. (Inl [], w)), wk_capacity = (\<lambda>n w. (Inl [], w)), wk_spec = (\<lambda>n i w. (Inl [], w)),
      wk_create = (\<lambda>n s a w. (Inl [], w)), wk_stop = (\<lambda>n i w. (Inl [], w)), wk_start = (\<lambda>n i w. (Inl [], w)),
      wk_remove = (\<lambda>n i w. (Inl [], w)), wk_backups = (\<lambda>n i w. (Inl [], w)),
      wk_make = (\<lambda>n i t w. (Inl [], w)), wk_read = (\<lambda>n i b k w. (Inl [], w)),
      wk_write = (\<lambda>n i u k t bs w. (Inl [], w)), wk_backup_delete = (\<lambda>n i b w. (Inl [], w)),
      wk_restore = (\<lambda>n i b w. (Inl [], w)), wk_merge = (\<lambda>n i b w. (Inl [], w)),
      wk_identity = (\<lambda>n i w. (Inl [], w)), wk_set_identity = (\<lambda>n i k w. (Inl [], w)),
      wk_logs = (\<lambda>n i k w. (Inl [], w)), wk_change_map = (\<lambda>n i m w. (Inl [], w)), wk_maps = (\<lambda>n g w. (Inl [], w))\<rparr>"

definition sample_node :: "str \<Rightarrow> int \<Rightarrow> node_config" where
  "sample_node name priority = \<lparr>nc_name = name, nc_api = [], nc_agent = None, nc_priority = priority,
     nc_class = None, nc_region = None\<rparr>"

definition sample_settings :: quota_settings where
  "sample_settings = \<lparr>qs_max_instances_per_account = 3, qs_max_total_instances = 20, qs_idle_timeout_secs = None,
     qs_min_lifetime_secs = 0, qs_create_cooldown_secs = None, qs_accounts = [], qs_stopped_delete_after_days = None,
     qs_max_backups_per_account = None\<rparr>"

definition sample_capacity :: "nat \<Rightarrow> nat \<Rightarrow> capacity_resp" where
  "sample_capacity running room = \<lparr>cp_max_instances = room, cp_running = running, cp_port_range_start = 0,
     cp_port_range_end = 0, cp_memory_total_bytes = None, cp_memory_available_bytes = None, cp_cpus = None,
     cp_disk_free_bytes = None, cp_disk_reserve_bytes = None\<rparr>"

definition sample_config :: "node_config list \<Rightarrow> hosting_config" where
  "sample_config nodes = \<lparr>hc_games = [ascii ''cs''], hc_nodes = nodes, hc_quota = sample_settings, hc_admins = []\<rparr>"

end
