(* ===== verification/Placement.thy ===== *)
theory Placement
  imports Hosting "HOL-Library.Product_Lexorder"
begin

text \<open>
  \<^verbatim>\<open>crates/platform-index/src/hosting.rs\<close>: which node a new server is placed on, and where a server may be
  moved. Every node is asked what it has room for; \<open>capacities\<close> lists the answers in the order asked, and
  the lemmas say what the choice is in terms of them.
\<close>

section \<open>Placement\<close>

definition MIN_FREE_MEMORY_BYTES :: nat where "MIN_FREE_MEMORY_BYTES = 1024 * 1024 * 1024"

type_synonym rank = "nat \<times> int \<times> nat \<times> nat \<times> nat"

definition rank_node :: "capacity_resp option \<Rightarrow> nat \<Rightarrow> int \<Rightarrow> rank option" where
  "rank_node capacity own_count priority =
     (case capacity of
        None \<Rightarrow> Some (0, priority, 0, 0, 2 ^ 64 - 1 - own_count)
      | Some cap \<Rightarrow>
          if cp_running cap \<ge> cp_max_instances cap then None
          else if (case cp_memory_available_bytes cap of None \<Rightarrow> False | Some m \<Rightarrow> m < MIN_FREE_MEMORY_BYTES) then None
          else if (case (cp_disk_free_bytes cap, cp_disk_reserve_bytes cap) of
                     (Some free, Some reserve) \<Rightarrow> free < reserve | _ \<Rightarrow> False) then None
          else Some (1, priority,
                 (case cp_memory_available_bytes cap of None \<Rightarrow> 0 | Some m \<Rightarrow> m) div (1024 * 1024),
                 (case (cp_disk_free_bytes cap, cp_disk_reserve_bytes cap) of
                    (Some free, Some reserve) \<Rightarrow> (free - reserve) div (1024 * 1024) | _ \<Rightarrow> 0),
                 cp_max_instances cap - cp_running cap))"

text \<open>\<open>node_capacity\<close>: an answer, or nothing if the node cannot be asked.\<close>

definition node_capacity :: "'w workers \<Rightarrow> node_config \<Rightarrow> 'w \<Rightarrow> capacity_resp option \<times> 'w" where
  "node_capacity W node w =
     (let (cap, w) = wk_capacity W node w in (case cap of Inr c \<Rightarrow> Some c | Inl _ \<Rightarrow> None, w))"

definition servers_on :: "hosted_instance list \<Rightarrow> node_config \<Rightarrow> nat" where
  "servers_on existing node = length (filter (\<lambda>i. hi_node i = nc_name node) existing)"

fun better :: "node_config \<times> ('r::linorder) \<Rightarrow> (node_config \<times> 'r) option \<Rightarrow> (node_config \<times> 'r) option" where
  "better new None = Some new"
| "better new (Some current) = (if snd new > snd current then Some new else Some current)"

fun pick_loop :: "'w workers \<Rightarrow> hosted_instance list \<Rightarrow> str option \<Rightarrow> node_config list
    \<Rightarrow> (node_config \<times> nat \<times> bool \<times> rank) option \<Rightarrow> 'w \<Rightarrow> (node_config \<times> nat \<times> bool \<times> rank) option \<times> 'w" where
  "pick_loop W existing region [] best w = (best, w)"
| "pick_loop W existing region (node # nodes) best w =
     (let (cap, w) = node_capacity W node w in
      case rank_node cap (servers_on existing node) (nc_priority node) of
        None \<Rightarrow> pick_loop W existing region nodes best w
      | Some r \<Rightarrow>
          let ranked = (fst r, region \<noteq> None \<and> nc_region node = region, r)
          in pick_loop W existing region nodes (better (node, ranked) best) w)"

definition pick_node_except :: "'w workers \<Rightarrow> hosting_config \<Rightarrow> hosted_instance list \<Rightarrow> str option \<Rightarrow> str option
    \<Rightarrow> str \<Rightarrow> 'w \<Rightarrow> node_config option \<times> 'w" where
  "pick_node_except W c existing class region except w =
     (let (best, w) = pick_loop W existing region
            (filter (\<lambda>n. nc_class n = class \<and> nc_name n \<noteq> except) (hc_nodes c)) None w
      in (map_option fst best, w))"

definition pick_node :: "'w workers \<Rightarrow> hosting_config \<Rightarrow> hosted_instance list \<Rightarrow> str option \<Rightarrow> str option
    \<Rightarrow> 'w \<Rightarrow> node_config option \<times> 'w" where
  "pick_node W c existing class region w = pick_node_except W c existing class region [] w"

section \<open>Where a server may be moved\<close>

datatype move_target = Auto | Worker str | Region str

definition move_candidates :: "hosting_config \<Rightarrow> node_config \<Rightarrow> move_target
    \<Rightarrow> (hosting_error, node_config list) outcome" where
  "move_candidates c from target =
     (let eligible = (\<lambda>n. nc_class n = nc_class from \<and> nc_name n \<noteq> nc_name from) in
      case target of
        Auto \<Rightarrow> Ok (filter (\<lambda>n. eligible n \<and> nc_region n = nc_region from) (hc_nodes c))
      | Worker name \<Rightarrow>
          (case List.find (\<lambda>n. nc_name n = name) (hc_nodes c) of
             None \<Rightarrow> Err NoSuchWorker
           | Some node \<Rightarrow>
               if nc_name node = nc_name from then Err AlreadyThere
               else if nc_class node \<noteq> nc_class from then Err OtherClass
               else if nc_region node \<noteq> nc_region from then Err OtherRegion
               else Ok [node])
      | Region region \<Rightarrow> Ok (filter (\<lambda>n. eligible n \<and> nc_region n = Some region) (hc_nodes c)))"

fun is_worker :: "move_target \<Rightarrow> bool" where
  "is_worker (Worker _) = True"
| "is_worker _ = False"

fun move_loop :: "'w workers \<Rightarrow> hosted_instance list \<Rightarrow> move_target \<Rightarrow> node_config list
    \<Rightarrow> (node_config \<times> rank) option \<Rightarrow> 'w \<Rightarrow> (hosting_error, (node_config \<times> rank) option) outcome \<times> 'w" where
  "move_loop W existing target [] best w = (Ok best, w)"
| "move_loop W existing target (node # nodes) best w =
     (let (cap, w) = node_capacity W node w in
      case rank_node cap (servers_on existing node) (nc_priority node) of
        Some r \<Rightarrow>
          if fst r = 1 then move_loop W existing target nodes (better (node, r) best) w
          else if is_worker target then (Err WorkerSilent, w)
          else move_loop W existing target nodes best w
      | None \<Rightarrow>
          if is_worker target then (Err WorkerFull, w)
          else move_loop W existing target nodes best w)"

definition choose_target :: "'w workers \<Rightarrow> hosting_config \<Rightarrow> hosted_instance list \<Rightarrow> node_config \<Rightarrow> move_target
    \<Rightarrow> 'w \<Rightarrow> (hosting_error, node_config) outcome \<times> 'w" where
  "choose_target W c existing from target w =
     (case move_candidates c from target of
        Err e \<Rightarrow> (Err e, w)
      | Panic \<Rightarrow> (Panic, w)
      | Ok candidates \<Rightarrow>
          let (best, w) = move_loop W existing target candidates None w in
          (and_then best (\<lambda>b. case b of
             Some (node, _) \<Rightarrow> Ok node
           | None \<Rightarrow> Err (case target of Region region \<Rightarrow> NoRoomInRegion region | _ \<Rightarrow> NoOtherWorker)), w))"

text \<open>\<open>move_targets\<close>: what an owner may pick from.\<close>

record move_worker =
  mw_name :: str
  mw_room :: str

record move_targets_view =
  mt_worker :: str
  mt_region :: "str option"
  mt_workers :: "move_worker list"
  mt_regions :: "str list"

fun rooms :: "'w workers \<Rightarrow> hosted_instance list \<Rightarrow> node_config list \<Rightarrow> 'w \<Rightarrow> move_worker list \<times> 'w" where
  "rooms W existing [] w = ([], w)"
| "rooms W existing (node # nodes) w =
     (let (cap, w) = node_capacity W node w;
          room = (case rank_node cap (servers_on existing node) (nc_priority node) of
             Some r \<Rightarrow> if fst r = 1 then ascii ''room'' else ascii ''silent'' | None \<Rightarrow> ascii ''full'');
          (more, w) = rooms W existing nodes w
      in (\<lparr>mw_name = nc_name node, mw_room = room\<rparr> # more, w))"

definition move_targets :: "'w workers \<Rightarrow> hosting_config \<Rightarrow> account_id \<Rightarrow> str \<Rightarrow> 'w
    \<Rightarrow> (hosting_error, move_targets_view) outcome \<times> 'w" where
  "move_targets W c account instance_id w =
     (let (found, w) = owned W c account instance_id w in
      case found of
        Err e \<Rightarrow> (Err e, w)
      | Panic \<Rightarrow> (Panic, w)
      | Ok (_, from) \<Rightarrow>
          let (existing, w) = all_instances W c w;
              same = filter (\<lambda>n. nc_class n = nc_class from) (hc_nodes c);
              (ws, w) = rooms W existing
                (filter (\<lambda>n. nc_name n \<noteq> nc_name from \<and> nc_region n = nc_region from) same) w
          in (Ok \<lparr>mt_worker = nc_name from, mt_region = nc_region from, mt_workers = ws,
                mt_regions = sorted_words (filter (\<lambda>r. Some r \<noteq> nc_region from) (List.map_filter nc_region same))\<rparr>, w))"

section \<open>Lemmas on placement\<close>

text \<open>The capacity each node answered, in the order asked.\<close>

fun capacities :: "'w workers \<Rightarrow> node_config list \<Rightarrow> 'w \<Rightarrow> (node_config \<times> capacity_resp option) list" where
  "capacities W [] w = []"
| "capacities W (node # nodes) w =
     (let (cap, w) = node_capacity W node w in (node, cap) # capacities W nodes w)"

lemma capacities_nodes [simp]: "map fst (capacities W nodes w) = nodes"
  by (induction nodes arbitrary: w) (simp_all add: split_def Let_def)

lemma capacities_node: "(n, cap) \<in> set (capacities W nodes w) \<Longrightarrow> n \<in> set nodes"
  by (metis capacities_nodes fst_conv image_eqI list.set_map)

lemma better_None [simp]: "better x b \<noteq> None"
  by (cases b) auto

lemma better_cases: "better x b = Some y \<Longrightarrow> y = x \<or> b = Some y"
  by (cases b) (auto split: if_splits)

lemma better_ge: "better x b = Some y \<Longrightarrow> snd x \<le> snd y \<and> (\<forall>z. b = Some z \<longrightarrow> snd z \<le> snd y)"
  by (cases b) (auto split: if_splits)

definition place_rank :: "hosted_instance list \<Rightarrow> str option \<Rightarrow> node_config \<Rightarrow> capacity_resp option
    \<Rightarrow> (nat \<times> bool \<times> rank) option" where
  "place_rank existing region node cap =
     map_option (\<lambda>r. (fst r, region \<noteq> None \<and> nc_region node = region, r))
       (rank_node cap (servers_on existing node) (nc_priority node))"

lemma pick_loop_None:
  "fst (pick_loop W existing region nodes best w) = None \<longleftrightarrow>
     best = None \<and> (\<forall>(n, cap)\<in>set (capacities W nodes w). place_rank existing region n cap = None)"
  by (induction nodes arbitrary: best w)
    (auto simp: place_rank_def split_def Let_def simp del: better.simps split: option.splits)

lemma pick_loop_Some:
  assumes "fst (pick_loop W existing region nodes best w) = Some (n, k)"
  shows "(best = Some (n, k) \<or> (\<exists>cap. (n, cap) \<in> set (capacities W nodes w) \<and> place_rank existing region n cap = Some k))
    \<and> (\<forall>x. best = Some x \<longrightarrow> snd x \<le> k)
    \<and> (\<forall>(m, cap)\<in>set (capacities W nodes w). \<forall>j. place_rank existing region m cap = Some j \<longrightarrow> j \<le> k)"
  using assms
proof (induction nodes arbitrary: best w)
  case Nil
  then show ?case by simp
next
  case (Cons m nodes)
  let ?cap = "fst (node_capacity W m w)" and ?w = "snd (node_capacity W m w)"
  show ?case
  proof (cases "place_rank existing region m ?cap")
    case None
    with Cons.prems have "fst (pick_loop W existing region nodes best ?w) = Some (n, k)"
      by (simp add: place_rank_def split_def Let_def split: option.splits)
    from Cons.IH [OF this] None show ?thesis by (auto simp: split_def Let_def)
  next
    case (Some j)
    with Cons.prems have "fst (pick_loop W existing region nodes (better (m, j) best) ?w) = Some (n, k)"
      by (auto simp: place_rank_def split_def Let_def simp del: better.simps split: option.splits)
    note ih = Cons.IH [OF this]
    obtain b where b: "better (m, j) best = Some b" using better_None by blast
    have "snd b \<le> k" using ih b by simp
    moreover have "j \<le> snd b" "\<And>z. best = Some z \<Longrightarrow> snd z \<le> snd b" using better_ge [OF b] by auto
    ultimately show ?thesis
      using ih Some better_cases [OF b] b by (auto simp: split_def Let_def intro: order_trans)
  qed
qed

lemma rank_node_answered: "rank_node cap own p = Some r \<Longrightarrow> fst r = (if cap = None then 0 else 1) \<and> fst (snd r) = p"
  by (auto simp: rank_node_def split: option.splits if_splits)

text \<open>A node has room: it said so, or it said nothing.\<close>

definition has_room :: "capacity_resp \<Rightarrow> bool" where
  "has_room cap \<longleftrightarrow> cp_running cap < cp_max_instances cap
     \<and> (\<forall>m. cp_memory_available_bytes cap = Some m \<longrightarrow> MIN_FREE_MEMORY_BYTES \<le> m)
     \<and> (\<forall>f r. cp_disk_free_bytes cap = Some f \<longrightarrow> cp_disk_reserve_bytes cap = Some r \<longrightarrow> r \<le> f)"

lemma rank_node_None_iff: "rank_node cap own p = None \<longleftrightarrow> (\<exists>c. cap = Some c \<and> \<not> has_room c)"
  by (auto simp: rank_node_def has_room_def not_le not_less split: option.splits)

text \<open>What the order of two ranks means.\<close>

lemma lex_le: "(a, b) \<le> (a', b') \<Longrightarrow> a \<le> a' \<and> (a = a' \<longrightarrow> b \<le> b')"
  for a a' :: "'a::linorder" and b b' :: "'b::linorder"
  by auto

lemma place_rank_le:
  assumes "place_rank existing region n cap = Some k" "place_rank existing region m cap' = Some j" "j \<le> k"
  shows "cap' = None \<or> (cap \<noteq> None
    \<and> ((region \<noteq> None \<and> nc_region m = region) \<longrightarrow> nc_region n = region)
    \<and> ((nc_region m = nc_region n \<or> region = None) \<longrightarrow> nc_priority m \<le> nc_priority n))"
proof -
  let ?in = "\<lambda>x. region \<noteq> None \<and> nc_region x = region"
  obtain r s where r: "rank_node cap (servers_on existing n) (nc_priority n) = Some r" "k = (fst r, ?in n, r)"
    and s: "rank_node cap' (servers_on existing m) (nc_priority m) = Some s" "j = (fst s, ?in m, s)"
    using assms by (auto simp: place_rank_def)
  note rr = rank_node_answered [OF r(1)] and ss = rank_node_answered [OF s(1)]
  have le: "(fst s, ?in m, s) \<le> (fst r, ?in n, r)" using assms(3) r(2) s(2) by simp
  note l1 = lex_le [OF le]
  show ?thesis
  proof (cases cap')
    case (Some c')
    then have "fst s = 1" using ss by simp
    with l1 have "1 \<le> fst r" by simp
    then have cap: "cap \<noteq> None" "fst r = 1" using rr by (auto split: if_splits)
    with l1 \<open>fst s = 1\<close> have le2: "(?in m, s) \<le> (?in n, r)" by simp
    note l2 = lex_le [OF le2]
    have pri: "nc_priority m \<le> nc_priority n" if "?in m = ?in n"
    proof -
      have "s \<le> r" using l2 that by simp
      then have "(fst s, snd s) \<le> (fst r, snd r)" by simp
      from lex_le [OF this] cap \<open>fst s = 1\<close> have "snd s \<le> snd r" by simp
      then have "(fst (snd s), snd (snd s)) \<le> (fst (snd r), snd (snd r))" by simp
      from lex_le [OF this] rr ss show ?thesis by simp
    qed
    have "?in m \<longrightarrow> ?in n" using conjunct1 [OF l2] by (simp only: le_bool_def)
    moreover have "(nc_region m = nc_region n \<or> region = None) \<longrightarrow> nc_priority m \<le> nc_priority n"
      using pri by auto
    ultimately show ?thesis using cap(1) by blast
  qed simp
qed

text \<open>\<open>n\<close>, which answered \<open>cap\<close>, is as good a choice as \<open>m\<close>, which answered \<open>cap'\<close>.\<close>

definition as_good :: "str option \<Rightarrow> node_config \<Rightarrow> capacity_resp option \<Rightarrow> node_config \<Rightarrow> capacity_resp option \<Rightarrow> bool" where
  "as_good region n cap m cap' \<longleftrightarrow>
     (case cap' of None \<Rightarrow> True | Some y \<Rightarrow> has_room y \<longrightarrow>
        cap \<noteq> None
        \<and> ((region \<noteq> None \<and> nc_region m = region) \<longrightarrow> nc_region n = region)
        \<and> ((nc_region m = nc_region n \<or> region = None) \<longrightarrow> nc_priority m \<le> nc_priority n))"

definition not_full :: "capacity_resp option \<Rightarrow> bool" where
  "not_full cap \<longleftrightarrow> (case cap of None \<Rightarrow> True | Some x \<Rightarrow> has_room x)"

lemma place_rank_None_iff: "place_rank existing region n cap = None \<longleftrightarrow> \<not> not_full cap"
  by (auto simp: place_rank_def rank_node_None_iff not_full_def split: option.split)

lemma best_as_good:
  assumes "place_rank existing region n cap = Some k"
    "\<And>j. place_rank existing region m cap' = Some j \<Longrightarrow> j \<le> k"
  shows "as_good region n cap m cap'"
proof (cases "place_rank existing region m cap'")
  case None
  then show ?thesis by (simp add: place_rank_None_iff not_full_def as_good_def split: option.splits)
next
  case (Some j)
  from place_rank_le [OF assms(1) Some assms(2) [OF Some]] show ?thesis
    by (auto simp: as_good_def split: option.split)
qed

lemma placement:
  assumes "pick_node_except W c existing class region except w = (chosen, w')"
  defines "asked \<equiv> capacities W (filter (\<lambda>n. nc_class n = class \<and> nc_name n \<noteq> except) (hc_nodes c)) w"
  shows "case chosen of
      None \<Rightarrow> list_all (\<lambda>(m, cap). \<not> not_full cap) asked
    | Some n \<Rightarrow> n \<in> set (hc_nodes c) \<and> nc_class n = class \<and> nc_name n \<noteq> except
        \<and> (\<exists>cap. (n, cap) \<in> set asked \<and> not_full cap \<and> list_all (\<lambda>(m, cap'). as_good region n cap m cap') asked)"
proof -
  let ?nodes = "filter (\<lambda>n. nc_class n = class \<and> nc_name n \<noteq> except) (hc_nodes c)"
  let ?loop = "pick_loop W existing region ?nodes None w"
  have chosen: "chosen = map_option fst (fst ?loop)"
    using assms(1) by (auto simp: pick_node_except_def split_def Let_def)
  show ?thesis
  proof (cases "fst ?loop")
    case None
    then show ?thesis
      using pick_loop_None [of W existing region ?nodes None w]
      by (simp add: chosen asked_def place_rank_None_iff list_all_iff split_def)
  next
    case (Some nk)
    obtain n k where nk: "nk = (n, k)" by (cases nk)
    note best = pick_loop_Some [OF Some [unfolded nk]]
    then obtain cap where cap: "(n, cap) \<in> set asked" "place_rank existing region n cap = Some k"
      by (auto simp: asked_def)
    have le: "j \<le> k" if "(m, cap') \<in> set asked" "place_rank existing region m cap' = Some j" for m cap' j
      using conjunct2 [OF conjunct2 [OF best]] that unfolding asked_def by blast
    have "n \<in> set ?nodes" by (rule capacities_node) (rule cap(1) [unfolded asked_def])
    then have "n \<in> set (hc_nodes c) \<and> nc_class n = class \<and> nc_name n \<noteq> except" by simp
    moreover have "not_full cap" using place_rank_None_iff [of existing region n cap] cap(2) by simp
    moreover have "as_good region n cap m cap'" if "(m, cap') \<in> set asked" for m cap'
      by (rule best_as_good [OF cap(2) le [OF that]])
    moreover have "chosen = Some n" using Some nk by (simp add: chosen)
    ultimately show ?thesis using cap(1) by (auto simp: list_all_iff)
  qed
qed

lemma move_loop_Ok:
  assumes "fst (move_loop W existing target nodes best w) = Ok (Some (n, r))"
  shows "best = Some (n, r) \<or> (\<exists>x. (n, Some x) \<in> set (capacities W nodes w) \<and> has_room x)"
  using assms
proof (induction nodes arbitrary: best w)
  case Nil
  then show ?case by simp
next
  case (Cons m nodes)
  obtain cap w1 where c: "node_capacity W m w = (cap, w1)" by fastforce
  show ?case
  proof (cases "rank_node cap (servers_on existing m) (nc_priority m)")
    case None
    then have "fst (move_loop W existing target nodes best w1) = Ok (Some (n, r))"
      using Cons.prems by (simp add: c split: if_splits)
    from Cons.IH [OF this] show ?thesis by (auto simp: c)
  next
    case (Some s)
    show ?thesis
    proof (cases "fst s = 1")
      case True
      obtain x where x: "cap = Some x" using rank_node_answered [OF Some] True by (cases cap) auto
      have room: "has_room x"
        using rank_node_None_iff [of "Some x" "servers_on existing m" "nc_priority m"] Some x by (metis option.distinct(1))
      have "fst (move_loop W existing target nodes (better (m, s) best) w1) = Ok (Some (n, r))"
        using Cons.prems True Some by (simp add: c del: better.simps)
      from Cons.IH [OF this] show ?thesis
        using x room better_cases [of "(m, s)" best "(n, r)"] by (auto simp: c)
    next
      case False
      then have "fst (move_loop W existing target nodes best w1) = Ok (Some (n, r))"
        using Cons.prems Some by (simp add: c split: if_splits)
      from Cons.IH [OF this] show ?thesis by (auto simp: c)
    qed
  qed
qed

lemma move_candidates_Ok:
  assumes "move_candidates c from target = Ok ns" "n \<in> set ns"
  shows "n \<in> set (hc_nodes c) \<and> nc_class n = nc_class from \<and> nc_name n \<noteq> nc_name from
    \<and> (case target of
         Auto \<Rightarrow> nc_region n = nc_region from
       | Worker name \<Rightarrow> nc_name n = name \<and> nc_region n = nc_region from
       | Region region \<Rightarrow> nc_region n = Some region)"
  using assms by (auto simp: move_candidates_def Let_def dest!: find_Some split: move_target.splits option.splits if_splits)

lemma choose_target_Ok:
  assumes "choose_target W c existing from target w = (Ok n, w')"
  shows "\<exists>ns x. move_candidates c from target = Ok ns \<and> (n, Some x) \<in> set (capacities W ns w) \<and> has_room x"
proof -
  obtain ns where ns: "move_candidates c from target = Ok ns"
    using assms by (cases "move_candidates c from target") (auto simp: choose_target_def)
  obtain b where "fst (move_loop W existing target ns None w) = Ok (Some b)" "fst b = n"
    using assms ns by (auto simp: choose_target_def split_def Let_def outcome_simps split: option.splits)
  then show ?thesis using move_loop_Ok [of W existing target ns None w n "snd b"] ns by (cases b) auto
qed

section \<open>What placement promises\<close>

text \<open>Where a new server goes. Only a node of exactly the class asked for (no class: only the nodes with
  none), not the one left out, and not one that said it is full. Silence is not room: if any such node
  answered that it has room, the chosen one did too; among those, one in the region asked for is taken if
  there is one, and no node in the chosen one's region (or anywhere, when no region was asked for) has a
  higher priority. Nothing is chosen only when every one of them said it is full.\<close>

theorem placement_by_what_nodes_answer:
  assumes "pick_node_except W c existing class region except w = (chosen, w')"
  shows "case chosen of
      None \<Rightarrow> list_all (\<lambda>(m, cap). \<not> not_full cap)
        (capacities W (filter (\<lambda>n. nc_class n = class \<and> nc_name n \<noteq> except) (hc_nodes c)) w)
    | Some n \<Rightarrow> n \<in> set (hc_nodes c) \<and> nc_class n = class \<and> nc_name n \<noteq> except
        \<and> (\<exists>cap. (n, cap) \<in> set (capacities W (filter (\<lambda>n. nc_class n = class \<and> nc_name n \<noteq> except) (hc_nodes c)) w)
          \<and> not_full cap
          \<and> list_all (\<lambda>(m, cap'). as_good region n cap m cap')
              (capacities W (filter (\<lambda>n. nc_class n = class \<and> nc_name n \<noteq> except) (hc_nodes c)) w))"
  using placement [OF assms] .

text \<open>Where a move may go. A server is only ever moved to another node of its own class that answered,
  just now, that it has room. Left to the index or to its owner's pick of a node it stays in its region;
  only a move to a named region takes it out, and only there.\<close>

theorem moves_stay_in_class_and_region:
  assumes "choose_target W c existing from target w = (Ok n, w')"
  shows "n \<in> set (hc_nodes c) \<and> nc_class n = nc_class from \<and> nc_name n \<noteq> nc_name from
    \<and> (case target of
         Auto \<Rightarrow> nc_region n = nc_region from
       | Worker name \<Rightarrow> nc_name n = name \<and> nc_region n = nc_region from
       | Region region \<Rightarrow> nc_region n = Some region)
    \<and> (\<exists>ns x. move_candidates c from target = Ok ns \<and> (n, Some x) \<in> set (capacities W ns w) \<and> has_room x)"
proof -
  from choose_target_Ok [OF assms] obtain ns x where
    ns: "move_candidates c from target = Ok ns" "(n, Some x) \<in> set (capacities W ns w)" "has_room x" by blast
  show ?thesis using move_candidates_Ok [OF ns(1) capacities_node [OF ns(2)]] ns by blast
qed

definition sample_workers :: "unit workers" where
  "sample_workers = silent_workers\<lparr>wk_capacity := (\<lambda>n w.
     (if nc_name n = [1] then Inr (sample_capacity 5 5) else if nc_name n = [2] then Inr (sample_capacity 4 5)
      else Inl [], w))\<rparr>"

definition sample_nodes :: hosting_config where
  "sample_nodes = sample_config [sample_node [1] 9, sample_node [2] 0, sample_node [3] 9]"

lemmas sample_place_defs = sample_workers_def sample_nodes_def sample_config_def sample_node_def
  sample_capacity_def silent_workers_def node_capacity_def rank_node_def

lemma sample_pick: "pick_node_except sample_workers sample_nodes [] None None [] ()
    = (Some (sample_node [2] 0), ())"
  by (simp add: pick_node_except_def sample_place_defs)

theorem placement_by_what_nodes_answer_witness:
  "not_full (Some (sample_capacity 4 5)) \<and> as_good None (sample_node [2] 0) (Some (sample_capacity 4 5)) (sample_node [3] 9) None"
  using placement_by_what_nodes_answer [OF sample_pick]
  by (auto simp: sample_place_defs as_good_def not_full_def has_room_def)

lemma sample_choose: "choose_target sample_workers sample_nodes [] (sample_node [1] 9) Auto ()
    = (Ok (sample_node [2] 0), ())"
  by (simp add: choose_target_def move_candidates_def sample_place_defs)

theorem moves_stay_in_class_and_region_witness:
  "nc_name (sample_node [2] 0) \<noteq> nc_name (sample_node [1] 9) \<and> has_room (sample_capacity 4 5)"
  using moves_stay_in_class_and_region [OF sample_choose]
  by (auto simp: sample_place_defs has_room_def)

end
