(* ===== verification/Carry.thy ===== *)
theory Carry
  imports Hosting
begin

text \<open>
  Carrying a backup from one node to another in pieces. The index's side is \<open>fetch_from\<close> and
  \<open>push_backup\<close> of \<^verbatim>\<open>crates/platform-index/src/hosting.rs\<close>; the node's side is \<open>backup_chunk\<close> and
  \<open>backup_upload_chunk\<close> of \<^verbatim>\<open>crates/platform-agent/src/agent.rs\<close> over the folder of
  \<^verbatim>\<open>crates/platform-agent/src/backups.rs\<close>. \<open>piece_source\<close> and \<open>piece_sink\<close> are what each side relies on
  in the other; both are interpreted on the node's side. An operation takes the state of the world and
  gives an answer and the new state, or nothing at all when it never returns: fetching asks for pieces
  until it has as many bytes as the node says there are, and a node can go on saying there are more.
\<close>

section \<open>Operations that ask\<close>

type_synonym ('w, 'a) act = "'w \<Rightarrow> ((hosting_error, 'a) outcome \<times> 'w) option"

definition ret :: "'a \<Rightarrow> ('w, 'a) act" where
  "ret a w = Some (Ok a, w)"

definition fail :: "hosting_error \<Rightarrow> ('w, 'a) act" where
  "fail e w = Some (Err e, w)"

text \<open>\<open>m?\<close> and then the rest.\<close>

definition bind_act :: "('w, 'a) act \<Rightarrow> ('a \<Rightarrow> ('w, 'b) act) \<Rightarrow> ('w, 'b) act" where
  "bind_act m f w =
     (case m w of
        None \<Rightarrow> None
      | Some (Ok a, w') \<Rightarrow> f a w'
      | Some (Err e, w') \<Rightarrow> Some (Err e, w')
      | Some (Panic, w') \<Rightarrow> Some (Panic, w'))"

text \<open>\<open>match m { Ok(a) => a, Err(e) => return h(e) }\<close> and \<open>m.map_err(h)?\<close>.\<close>

definition catch :: "('w, 'a) act \<Rightarrow> (hosting_error \<Rightarrow> ('w, 'a) act) \<Rightarrow> ('w, 'a) act" where
  "catch m h w =
     (case m w of
        None \<Rightarrow> None
      | Some (Err e, w') \<Rightarrow> h e w'
      | Some (Ok a, w') \<Rightarrow> Some (Ok a, w')
      | Some (Panic, w') \<Rightarrow> Some (Panic, w'))"

text \<open>\<open>let r = m;\<close> the answer kept as a value.\<close>

definition attempt :: "('w, 'a) act \<Rightarrow> ('w, (hosting_error, 'a) outcome) act" where
  "attempt m w =
     (case m w of
        None \<Rightarrow> None
      | Some (Ok a, w') \<Rightarrow> Some (Ok (Ok a), w')
      | Some (Err e, w') \<Rightarrow> Some (Ok (Err e), w')
      | Some (Panic, w') \<Rightarrow> Some (Panic, w'))"

fun remote :: "str + 'a \<Rightarrow> (hosting_error, 'a) outcome" where
  "remote (Inr a) = Ok a"
| "remote (Inl e) = Err (Remote e)"

definition ask :: "('w, 'a) asked \<Rightarrow> ('w, 'a) act" where
  "ask f w = Some (remote (fst (f w)), snd (f w))"

definition here :: "('w \<Rightarrow> (hosting_error, 'a) outcome \<times> 'w) \<Rightarrow> ('w, 'a) act" where
  "here f w = Some (f w)"

definition TRANSFER_CHUNK :: nat where "TRANSFER_CHUNK = 256 * 1024"
definition MAX_IMPORT_BYTES :: nat where "MAX_IMPORT_BYTES = 4 * 1024 * 1024 * 1024"

section \<open>Carrying a backup\<close>

text \<open>\<open>fetch_from\<close>: pieces from \<open>offset\<close> on, after the bytes \<open>got\<close> so far.\<close>

partial_function (option) fetch_loop ::
    "'w workers \<Rightarrow> node_config \<Rightarrow> str \<Rightarrow> str \<Rightarrow> nat \<Rightarrow> bytes \<Rightarrow> ('w, bytes) act" where
  "fetch_loop W node i name offset got w =
     (case ask (wk_read W node i name offset) w of
        None \<Rightarrow> None
      | Some (r, w') \<Rightarrow>
          (case r of
             Err e \<Rightarrow> Some (Err e, w')
           | Panic \<Rightarrow> Some (Panic, w')
           | Ok p \<Rightarrow>
               if snd p = [] \<and> offset < fst p then Some (Err (Remote []), w')
               else if offset + length (snd p) \<ge> fst p then Some (Ok (got @ snd p), w')
               else fetch_loop W node i name (offset + length (snd p)) (got @ snd p) w'))"

definition fetch_from :: "'w workers \<Rightarrow> node_config \<Rightarrow> str \<Rightarrow> backup \<Rightarrow> ('w, bytes) act" where
  "fetch_from W node i b = fetch_loop W node i (bk_name b) 0 []"

text \<open>\<open>push_backup\<close>: the file in pieces of \<open>TRANSFER_CHUNK\<close>; \<open>offset\<close> is what the node says it has.\<close>

function push_loop :: "'w workers \<Rightarrow> node_config \<Rightarrow> str \<Rightarrow> nat \<Rightarrow> bytes \<Rightarrow> str option \<Rightarrow> nat \<Rightarrow> ('w, backup) act" where
  "push_loop W node i len rest upload offset w =
     (case ask (wk_write W node i upload offset len (take TRANSFER_CHUNK rest)) w of
        None \<Rightarrow> None
      | Some (r, w') \<Rightarrow>
          (case r of
             Err e \<Rightarrow> Some (Err e, w')
           | Panic \<Rightarrow> Some (Panic, w')
           | Ok pg \<Rightarrow>
               (case pg_backup pg of
                  Some b \<Rightarrow> Some (Ok b, w')
                | None \<Rightarrow>
                    if rest = [] then Some (Err (Remote []), w')
                    else push_loop W node i len (drop TRANSFER_CHUNK rest) (Some (pg_upload pg)) (pg_received pg) w')))"
  by pat_completeness auto
termination
  by (relation "measure (\<lambda>(W, node, i, len, rest, upload, offset, w). length rest)") (auto simp: TRANSFER_CHUNK_def)

declare push_loop.simps [simp del]

definition push_backup :: "'w workers \<Rightarrow> node_config \<Rightarrow> str \<Rightarrow> bytes \<Rightarrow> ('w, backup) act" where
  "push_backup W node i file = push_loop W node i (length file) file None 0"

section \<open>The node's side\<close>

text \<open>Names the node makes, and no other name ever names a file.\<close>

definition BACKUP_SUFFIX :: str where "BACKUP_SUFFIX = ascii ''.tar.gz''"

definition strip_suffix :: "str \<Rightarrow> str \<Rightarrow> str option" where
  "strip_suffix suffix s =
     (if length suffix \<le> length s \<and> drop (length s - length suffix) s = suffix
      then Some (take (length s - length suffix) s) else None)"

fun split_once :: "u8 \<Rightarrow> str \<Rightarrow> (str \<times> str) option" where
  "split_once c [] = None"
| "split_once c (b # s) = (if b = c then Some ([], s) else map_option (\<lambda>(l, r). (b # l, r)) (split_once c s))"

definition digits :: "str \<Rightarrow> nat \<Rightarrow> bool" where
  "digits s n \<longleftrightarrow> length s = n \<and> list_all digit s"

definition valid_name :: "str \<Rightarrow> bool" where
  "valid_name name =
     (case strip_suffix BACKUP_SUFFIX name of None \<Rightarrow> False | Some stem \<Rightarrow>
     (case split_once 45 stem of None \<Rightarrow> False | Some (date, rest) \<Rightarrow>
        (let ((d, t), extra) = (case split_once 45 rest of
                Some (time, n) \<Rightarrow> ((date, time), Some n) | None \<Rightarrow> ((date, rest), None))
         in digits d 8 \<and> digits t 6
            \<and> (case extra of None \<Rightarrow> True | Some n \<Rightarrow> n \<noteq> [] \<and> length n \<le> 3 \<and> list_all digit n))))"

definition valid_upload_id :: "str \<Rightarrow> bool" where
  "valid_upload_id i \<longleftrightarrow> length i = 16 \<and> list_all (\<lambda>b. digit b \<or> (97 \<le> unat b \<and> unat b \<le> 102)) i"

definition hex_encode :: "bytes \<Rightarrow> str" where
  "hex_encode bs = concat (map (\<lambda>b.
     let d = (\<lambda>n. if n < 10 then of_nat (48 + n) else of_nat (87 + n)) in [d (unat b div 16), d (unat b mod 16)]) bs)"

text \<open>The backups folder of one server. Hidden partial files are the uploads arriving.\<close>

record backups_dir =
  bd_server :: bool
  bd_files :: "(str, bytes) table"
  bd_uploads :: "(str, bytes) table"

text \<open>
  What the node answers from: whether so many bytes fit above its reserve, which uploads have stopped
  growing, its randomness, whether an archive is one of its own, the clock's stamp and the clock.
\<close>

record chunk_env =
  ce_room :: "nat \<Rightarrow> bool"
  ce_stale :: "str \<Rightarrow> bool"
  ce_seed :: "bytes option"
  ce_archive_ok :: "bytes \<Rightarrow> bool"
  ce_stamp :: str
  ce_now :: int

datatype backup_error =
    NoSuchBackup | NothingThere | NotAtZero | TooLarge | NoServer | NoRoom | NoRandomness | NoUpload
  | NotFollowing | LongerThanSaid | NotABackup

text \<open>\<open>new_name\<close>: the stamp, then \<open>-2\<close>, \<open>-3\<close>, ... up to \<open>-999\<close> when taken.\<close>

definition name_at :: "str \<Rightarrow> nat \<Rightarrow> str" where
  "name_at stamp n = (if n = 1 then stamp @ BACKUP_SUFFIX else stamp @ [45] @ show_nat n @ BACKUP_SUFFIX)"

definition new_name :: "str \<Rightarrow> (str, bytes) table \<Rightarrow> str" where
  "new_name stamp files =
     (case List.find (\<lambda>n. \<not> thas files (name_at stamp n)) [1..<1000] of
        Some n \<Rightarrow> name_at stamp n | None \<Rightarrow> name_at stamp 999)"

definition backup_file :: "str \<Rightarrow> backups_dir \<Rightarrow> bytes option" where
  "backup_file name d = (if valid_name name then tget (bd_files d) name else None)"

definition backup_chunk :: "str \<Rightarrow> nat \<Rightarrow> nat \<Rightarrow> backups_dir \<Rightarrow> (backup_error, nat \<times> bytes) outcome" where
  "backup_chunk name offset most d =
     (case backup_file name d of None \<Rightarrow> Err NoSuchBackup | Some file \<Rightarrow>
        if offset > length file then Err NothingThere
        else Ok (length file, take most (drop offset file)))"

definition sweep_stale_uploads :: "chunk_env \<Rightarrow> backups_dir \<Rightarrow> backups_dir" where
  "sweep_stale_uploads E d =
     d\<lparr>bd_uploads := tretain (\<lambda>i _. \<not> (valid_upload_id i \<and> ce_stale E i)) (bd_uploads d)\<rparr>"

definition import_backup :: "chunk_env \<Rightarrow> str \<Rightarrow> bytes \<Rightarrow> backups_dir \<Rightarrow> (backup_error, backup) outcome \<times> backups_dir" where
  "import_backup E i file d =
     (let d = d\<lparr>bd_uploads := tdel i (bd_uploads d)\<rparr> in
      if \<not> ce_archive_ok E file then (Err NotABackup, d)
      else let name = new_name (ce_stamp E) (bd_files d) in
        (Ok \<lparr>bk_name = name, bk_bytes = length file, bk_created_unix = Some (ce_now E), bk_started_unix = None\<rparr>,
         d\<lparr>bd_files := tput name file (bd_files d)\<rparr>))"

text \<open>The upload a piece belongs to, made for the first one.\<close>

definition upload_of :: "chunk_env \<Rightarrow> str option \<Rightarrow> nat \<Rightarrow> nat \<Rightarrow> backups_dir \<Rightarrow> (backup_error, str) outcome \<times> backups_dir" where
  "upload_of E upload offset len d =
     (case upload of
        None \<Rightarrow>
          if offset \<noteq> 0 then (Err NotAtZero, d)
          else if len > MAX_IMPORT_BYTES then (Err TooLarge, d)
          else let d = sweep_stale_uploads E d in
            if \<not> bd_server d then (Err NoServer, d)
            else if \<not> ce_room E len then (Err NoRoom, d)
            else (case ce_seed E of None \<Rightarrow> (Err NoRandomness, d) | Some seed \<Rightarrow> (Ok (hex_encode seed), d))
      | Some i \<Rightarrow> if valid_upload_id i \<and> thas (bd_uploads d) i then (Ok i, d) else (Err NoUpload, d))"

definition backup_upload_chunk :: "chunk_env \<Rightarrow> str option \<Rightarrow> nat \<Rightarrow> nat \<Rightarrow> bytes \<Rightarrow> backups_dir
    \<Rightarrow> (backup_error, progress) outcome \<times> backups_dir" where
  "backup_upload_chunk E upload offset len data d =
     (let (found, d) = upload_of E upload offset len d in
      case found of
        Err e \<Rightarrow> (Err e, d)
      | Panic \<Rightarrow> (Panic, d)
      | Ok i \<Rightarrow>
          let got = (case tget (bd_uploads d) i of None \<Rightarrow> [] | Some bs \<Rightarrow> bs);
              received = offset + length data
          in if length got \<noteq> offset then (Err NotFollowing, d)
             else if received > len then (Err LongerThanSaid, d\<lparr>bd_uploads := tdel i (bd_uploads d)\<rparr>)
             else let d = d\<lparr>bd_uploads := tput i (got @ data) (bd_uploads d)\<rparr> in
               if received < len then (Ok \<lparr>pg_received = received, pg_upload = i, pg_backup = None\<rparr>, d)
               else let (made, d) = import_backup E i (got @ data) d in
                 (and_then made (\<lambda>b. Ok \<lparr>pg_received = received, pg_upload = i, pg_backup = Some b\<rparr>), d))"

section \<open>What each side relies on\<close>

text \<open>A node that serves a file: at every offset up to its end, a piece of it (an empty one only at the end)
  and its length.\<close>

locale piece_source =
  fixes get_piece :: "nat \<Rightarrow> ('w, nat \<times> bytes) asked"
    and ready :: "'w \<Rightarrow> bool"
    and content :: bytes
  assumes serves: "ready w \<Longrightarrow> offset \<le> length content \<Longrightarrow>
    \<exists>p w'. get_piece offset w = (Inr (length content, p), w') \<and> p = take (length p) (drop offset content)
      \<and> (offset < length content \<longrightarrow> p \<noteq> []) \<and> ready w'"
begin

lemma fetch_serves:
  assumes "\<And>k. wk_read W n i name k = get_piece k"
  shows "ready w \<Longrightarrow> offset \<le> length content \<Longrightarrow>
    \<exists>w'. fetch_loop W n i name offset (take offset content) w = Some (Ok content, w') \<and> ready w'"
proof (induction "length content - offset" arbitrary: offset w rule: less_induct)
  case less
  from serves [OF less.prems] obtain p w' where
    p: "get_piece offset w = (Inr (length content, p), w')" "p = take (length p) (drop offset content)"
      "offset < length content \<longrightarrow> p \<noteq> []" "ready w'" by blast
  have len: "length p \<le> length content - offset" using arg_cong [OF p(2), of length] by simp
  have next_piece: "take offset content @ p = take (offset + length p) content"
    using p(2) by (metis take_add)
  have step: "fetch_loop W n i name offset (take offset content) w =
      (if offset + length p \<ge> length content then Some (Ok (take (offset + length p) content), w')
       else fetch_loop W n i name (offset + length p) (take (offset + length p) content) w')"
    by (subst fetch_loop.simps) (use p assms next_piece in \<open>auto simp: ask_def\<close>)
  show ?case
  proof (cases "offset + length p \<ge> length content")
    case True
    then show ?thesis using step p(4) by simp
  next
    case False
    moreover from this have "offset < length content" by simp
    with p(3) have "0 < length p" by simp
    with False have "offset + length p \<le> length content"
        "length content - (offset + length p) < length content - offset" by linarith+
    ultimately show ?thesis using less.hyps [OF _ p(4)] step by simp
  qed
qed

end

text \<open>A node that takes a file in: every piece that follows on is taken, and the last one makes it a backup.\<close>

locale piece_sink =
  fixes put_piece :: "str option \<Rightarrow> nat \<Rightarrow> nat \<Rightarrow> bytes \<Rightarrow> ('w, progress) asked"
    and arriving :: "str option \<Rightarrow> bytes \<Rightarrow> 'w \<Rightarrow> bool"
    and stored :: "backup \<Rightarrow> 'w \<Rightarrow> bool"
    and content :: bytes
  assumes takes: "arriving u got w \<Longrightarrow> got @ data = take (length (got @ data)) content \<Longrightarrow>
    \<exists>pg w'. put_piece u (length got) (length content) data w = (Inr pg, w') \<and> pg_received pg = length (got @ data)
      \<and> (if length (got @ data) < length content
         then pg_backup pg = None \<and> arriving (Some (pg_upload pg)) (got @ data) w'
         else \<exists>b. pg_backup pg = Some b \<and> stored b w')"
begin

lemma push_takes:
  assumes "\<And>u k l bs. wk_write W n i u k l bs = put_piece u k l bs"
  shows "arriving u got w \<Longrightarrow> content = got @ rest \<Longrightarrow>
    \<exists>b w'. push_loop W n i (length content) rest u (length got) w = Some (Ok b, w') \<and> stored b w'"
proof (induction "length rest" arbitrary: u got rest w rule: less_induct)
  case less
  let ?p = "take TRANSFER_CHUNK rest"
  have whole: "content = (got @ ?p) @ drop TRANSFER_CHUNK rest" using less.prems(2) by simp
  then have pre: "got @ ?p = take (length (got @ ?p)) content" by (metis append_eq_conv_conj)
  from takes [OF less.prems(1) pre] obtain pg w' where
    pg: "put_piece u (length got) (length content) ?p w = (Inr pg, w')" "pg_received pg = length (got @ ?p)"
      "if length (got @ ?p) < length content then pg_backup pg = None \<and> arriving (Some (pg_upload pg)) (got @ ?p) w'
       else \<exists>b. pg_backup pg = Some b \<and> stored b w'" by blast
  show ?case
  proof (cases "length (got @ ?p) < length content")
    case True
    then have "rest \<noteq> []" using less.prems(2) by auto
    then have shorter: "length (drop TRANSFER_CHUNK rest) < length rest" by (simp add: TRANSFER_CHUNK_def)
    have "push_loop W n i (length content) rest u (length got) w =
        push_loop W n i (length content) (drop TRANSFER_CHUNK rest) (Some (pg_upload pg)) (length (got @ ?p)) w'"
      by (subst push_loop.simps) (use True pg assms \<open>rest \<noteq> []\<close> in \<open>simp add: ask_def\<close>)
    moreover have "arriving (Some (pg_upload pg)) (got @ ?p) w'" using pg(3) True by simp
    ultimately show ?thesis using less.hyps [OF shorter _ whole] by metis
  next
    case False
    then obtain b where "pg_backup pg = Some b" "stored b w'" using pg(3) by auto
    moreover from this have "push_loop W n i (length content) rest u (length got) w = Some (Ok b, w')"
      by (subst push_loop.simps) (use pg assms in \<open>simp add: ask_def\<close>)
    ultimately show ?thesis by blast
  qed
qed

end

section \<open>The node keeps the contracts\<close>

fun answer :: "('e, 'a) outcome \<Rightarrow> str + 'a" where
  "answer (Ok a) = Inr a"
| "answer _ = Inl []"

definition agent_read :: "str \<Rightarrow> nat \<Rightarrow> (backups_dir, nat \<times> bytes) asked" where
  "agent_read name offset d = (answer (backup_chunk name offset TRANSFER_CHUNK d), d)"

definition agent_write :: "chunk_env \<Rightarrow> str option \<Rightarrow> nat \<Rightarrow> nat \<Rightarrow> bytes \<Rightarrow> (backups_dir, progress) asked" where
  "agent_write E upload offset len data d =
     (let (r, d) = backup_upload_chunk E upload offset len data d in (answer r, d))"

text \<open>A node whose world is its folder, as the index asks it over its uplink.\<close>

definition agent_workers :: "chunk_env \<Rightarrow> backups_dir workers" where
  "agent_workers E = silent_workers\<lparr>wk_read := \<lambda>n i name k. agent_read name k,
     wk_write := \<lambda>n i u k l bs. agent_write E u k l bs\<rparr>"

interpretation agent_source: piece_source "agent_read name" "\<lambda>d. d = d0 \<and> backup_file name d = Some content" content
  for name d0 content
proof (unfold_locales, goal_cases)
  case (1 w offset)
  let ?p = "take TRANSFER_CHUNK (drop offset content)"
  have "backup_chunk name offset TRANSFER_CHUNK w = Ok (length content, ?p)"
    using 1 by (auto simp: backup_chunk_def)
  then have "agent_read name offset w = (Inr (length content, ?p), w)" by (simp add: agent_read_def)
  moreover have "?p = take (length ?p) (drop offset content)" by (cases "length content - offset \<le> TRANSFER_CHUNK") simp_all
  moreover have "offset < length content \<longrightarrow> ?p \<noteq> []" by (simp add: TRANSFER_CHUNK_def)
  ultimately show ?case using 1(1) by blast
qed

lemma hex_encode_length: "length (hex_encode bs) = 2 * length bs"
  by (induction bs) (simp_all add: hex_encode_def Let_def)

lemma hex_encode_digits: "list_all (\<lambda>b. digit b \<or> (97 \<le> unat b \<and> unat b \<le> 102)) (hex_encode bs)"
proof -
  have "digit (if n < 10 then of_nat (48 + n) else of_nat (87 + n))
      \<or> (97 \<le> unat (if n < 10 then of_nat (48 + n) else of_nat (87 + n) :: u8)
         \<and> unat (if n < 10 then of_nat (48 + n) else of_nat (87 + n) :: u8) \<le> 102)" if "n < 16" for n
  proof (cases "n < 10")
    case True
    then have "unat (of_nat (48 + n) :: u8) = 48 + n" by (intro unat_of_nat_u8) simp
    with True show ?thesis by (simp add: digit_def)
  next
    case False
    with that have "unat (of_nat (87 + n) :: u8) = 87 + n" by (intro unat_of_nat_u8) simp
    with False that show ?thesis by simp
  qed
  moreover have "unat b div 16 < 16" for b :: u8 using unat_u8_less [of b] by simp
  ultimately show ?thesis by (simp add: hex_encode_def list_all_iff Let_def del: of_nat_add)
qed

lemma made_id_valid: "length seed = 8 \<Longrightarrow> valid_upload_id (hex_encode seed)"
  using hex_encode_digits [of seed] by (simp add: valid_upload_id_def hex_encode_length)

text \<open>The node can take \<open>file\<close> in: there is room for all of it, and it is an archive of its kind.\<close>

definition accepts :: "chunk_env \<Rightarrow> bytes \<Rightarrow> bool" where
  "accepts E file \<longleftrightarrow> length file \<le> MAX_IMPORT_BYTES \<and> ce_room E (length file) \<and> ce_archive_ok E file
     \<and> (\<exists>seed. ce_seed E = Some seed \<and> length seed = 8)"

definition agent_arriving :: "chunk_env \<Rightarrow> bytes \<Rightarrow> str option \<Rightarrow> bytes \<Rightarrow> backups_dir \<Rightarrow> bool" where
  "agent_arriving E file u got d \<longleftrightarrow> accepts E file \<and> bd_server d \<and> twf (bd_uploads d) \<and> twf (bd_files d)
     \<and> (case u of
          None \<Rightarrow> got = [] \<and> \<not> thas (bd_uploads d) (hex_encode (the (ce_seed E)))
        | Some i \<Rightarrow> valid_upload_id i \<and> tget (bd_uploads d) i = Some got)"

text \<open>The backup \<open>b\<close> holds \<open>file\<close>; where the folder held \<open>files\<close> before, its name is one not taken, as long as
  one of the second's 999 is free, and every other backup is as it was.\<close>

definition agent_stored :: "chunk_env \<Rightarrow> (str, bytes) table \<Rightarrow> bytes \<Rightarrow> backup \<Rightarrow> backups_dir \<Rightarrow> bool" where
  "agent_stored E files file b d \<longleftrightarrow> bk_bytes b = length file \<and> tget (bd_files d) (bk_name b) = Some file
     \<and> (\<forall>name. name \<noteq> bk_name b \<longrightarrow> tget (bd_files d) name = tget files name)
     \<and> ((\<exists>n\<in>{1..<1000}. tget files (name_at (ce_stamp E) n) = None) \<longrightarrow> tget files (bk_name b) = None)"

lemma new_name_new:
  assumes "n \<in> {1..<1000}" "tget files (name_at stamp n) = None"
  shows "tget files (new_name stamp files) = None"
proof -
  have "List.find (\<lambda>n. \<not> thas files (name_at stamp n)) [1..<1000] \<noteq> None"
    using assms by (auto simp: find_None_iff thas_def)
  then obtain m where m: "List.find (\<lambda>n. \<not> thas files (name_at stamp n)) [1..<1000] = Some m" by blast
  then have "\<not> thas files (name_at stamp m)" by (auto simp: find_Some_iff)
  with m show ?thesis by (simp add: new_name_def thas_def)
qed

lemma import_stores:
  assumes "ce_archive_ok E file" "import_backup E i file d = (r, d')"
  shows "\<exists>b. r = Ok b \<and> agent_stored E (bd_files d) file b d'"
proof -
  let ?name = "new_name (ce_stamp E) (bd_files d)"
  let ?b = "\<lparr>bk_name = ?name, bk_bytes = length file, bk_created_unix = Some (ce_now E), bk_started_unix = None\<rparr>"
  have r: "r = Ok ?b" "bd_files d' = tput ?name file (bd_files d)"
    using assms by (auto simp: import_backup_def Let_def)
  have "agent_stored E (bd_files d) file ?b d'"
    using new_name_new [of _ "bd_files d" "ce_stamp E"] by (auto simp: agent_stored_def r(2) tbl.get_put)
  with r(1) show ?thesis by blast
qed

lemma upload_of_arriving:
  assumes "agent_arriving E file u got d"
  shows "\<exists>i d'. upload_of E u (length got) (length file) d = (Ok i, d') \<and> valid_upload_id i
    \<and> (case tget (bd_uploads d') i of None \<Rightarrow> [] | Some bs \<Rightarrow> bs) = got
    \<and> bd_server d' \<and> twf (bd_uploads d') \<and> twf (bd_files d') \<and> bd_files d' = bd_files d"
proof (cases u)
  case None
  then show ?thesis
    using assms made_id_valid
    by (auto simp: agent_arriving_def accepts_def upload_of_def sweep_stale_uploads_def Let_def thas_def
        tbl.get_retain split: option.split)
next
  case (Some i)
  then show ?thesis using assms by (auto simp: agent_arriving_def upload_of_def thas_def)
qed

lemma agent_takes:
  assumes "agent_arriving E file u got d" "got @ data = take (length (got @ data)) file"
  shows "\<exists>pg d'. agent_write E u (length got) (length file) data d = (Inr pg, d')
    \<and> pg_received pg = length (got @ data)
    \<and> (if length (got @ data) < length file
       then pg_backup pg = None \<and> agent_arriving E file (Some (pg_upload pg)) (got @ data) d' \<and> bd_files d' = bd_files d
       else \<exists>b. pg_backup pg = Some b \<and> agent_stored E (bd_files d) file b d')"
proof -
  from upload_of_arriving [OF assms(1)] obtain i d1 where
    i: "upload_of E u (length got) (length file) d = (Ok i, d1)" "valid_upload_id i"
      "(case tget (bd_uploads d1) i of None \<Rightarrow> [] | Some bs \<Rightarrow> bs) = got"
      "bd_server d1" "twf (bd_uploads d1)" "twf (bd_files d1)" "bd_files d1 = bd_files d" by blast
  have le: "length (got @ data) \<le> length file" using arg_cong [OF assms(2), of length] by simp
  have acc: "accepts E file" using assms(1) by (simp add: agent_arriving_def)
  show ?thesis
  proof (cases "length (got @ data) < length file")
    case True
    with i acc le show ?thesis
      by (simp add: agent_write_def backup_upload_chunk_def agent_arriving_def Let_def tbl.get_put)
  next
    case False
    with le have "length (got @ data) = length file" by simp
    then have whole: "got @ data = file" "length got + length data = length file" using assms(2) by simp_all
    let ?d = "d1\<lparr>bd_uploads := tput i file (bd_uploads d1)\<rparr>"
    obtain made d' where im: "import_backup E i file ?d = (made, d')" by fastforce
    with import_stores [OF _ im] acc obtain b where b: "made = Ok b" "agent_stored E (bd_files d1) file b d'"
      by (auto simp: accepts_def)
    have "agent_write E u (length got) (length file) data d
        = (Inr \<lparr>pg_received = length file, pg_upload = i, pg_backup = Some b\<rparr>, d')"
      using i(1,3) whole im b(1) by (simp add: agent_write_def backup_upload_chunk_def Let_def)
    with b(2) whole i(7) show ?thesis by simp
  qed
qed

interpretation agent_sink: piece_sink "agent_write E" "\<lambda>u got d. agent_arriving E content u got d \<and> bd_files d = files"
  "agent_stored E files content" content
  for E content files
  using agent_takes [of E content] by unfold_locales blast

section \<open>When fetching ends\<close>

definition honest_length :: "'w workers \<Rightarrow> node_config \<Rightarrow> str \<Rightarrow> str \<Rightarrow> nat \<Rightarrow> bool" where
  "honest_length W n i name most \<longleftrightarrow> (\<forall>k w t p. fst (wk_read W n i name k w) = Inr (t, p) \<longrightarrow> t \<le> most)"

lemma fetch_ends:
  assumes "honest_length W n i name most"
  shows "fetch_loop W n i name offset got w \<noteq> None"
proof (induction "most - offset" arbitrary: offset got w rule: less_induct)
  case less
  obtain r w' where r: "wk_read W n i name offset w = (r, w')" by fastforce
  show ?case
  proof (cases r)
    case (Inl e)
    with r show ?thesis by (subst fetch_loop.simps) (simp add: ask_def)
  next
    case (Inr tp)
    obtain t p where tp: "tp = (t, p)" by (cases tp)
    have "t \<le> most" using assms r Inr tp unfolding honest_length_def by (metis fst_conv)
    show ?thesis
    proof (cases "p = [] \<and> offset < t \<or> offset + length p \<ge> t")
      case True
      with r Inr tp show ?thesis by (subst fetch_loop.simps) (auto simp: ask_def)
    next
      case False
      then have "p \<noteq> []" "offset + length p < t" by auto
      then have "0 < length p" by simp
      with \<open>offset + length p < t\<close> \<open>t \<le> most\<close> have "most - (offset + length p) < most - offset" by linarith
      from less.hyps [OF this, of "got @ p" w'] show ?thesis
        using r Inr tp False by (subst fetch_loop.simps) (auto simp: ask_def)
    qed
  qed
qed

text \<open>A node that always has one more byte than it has sent.\<close>

definition growing_workers :: "unit workers" where
  "growing_workers = silent_workers\<lparr>wk_read := \<lambda>n i name k w. (Inr (k + 2, [0]), w)\<rparr>"

lemma growing_never_ends: "fetch_loop growing_workers n i name offset got w = None"
proof -
  have "W = growing_workers \<longrightarrow> False" if "fetch_loop W n i name offset got w = Some y"
    for W and y :: "(hosting_error, bytes) outcome \<times> unit"
  proof (rule fetch_loop.raw_induct [where P = "\<lambda>W n i name offset got w y. W = growing_workers \<longrightarrow> False",
        OF _ that], goal_cases)
    case (1 loop W n i name offset got w y)
    show ?case
    proof
      assume W: "W = growing_workers"
      with 1(2) have "loop W n i name (Suc offset) (got @ [0]) () = Some y"
        by (simp add: growing_workers_def ask_def)
      from 1(1) [OF this] W show False by blast
    qed
  qed
  then show ?thesis by (cases "fetch_loop growing_workers n i name offset got w") auto
qed

section \<open>What carrying a backup promises\<close>

text \<open>C28. A backup arrives as it left: what the index fetches from a node that holds it is that node's
  file, byte for byte, whatever its length; and what it pushes to a node with room for it becomes a
  backup of exactly those bytes, under the name the node answers with. It is a new one: every other
  backup of the server is as it was, and the name was not in use, unless all 999 names of that second
  were.\<close>

theorem a_backup_arrives_whole:
  assumes "backup_file (bk_name b) d1 = Some content" "agent_arriving E2 content None [] d2"
  shows "fetch_from (agent_workers E1) n1 i b d1 = Some (Ok content, d1)
    \<and> (\<exists>b' d2'. push_backup (agent_workers E2) n2 j content d2 = Some (Ok b', d2')
        \<and> bk_bytes b' = length content \<and> tget (bd_files d2') (bk_name b') = Some content
        \<and> (\<forall>name. name \<noteq> bk_name b' \<longrightarrow> tget (bd_files d2') name = tget (bd_files d2) name)
        \<and> ((\<exists>n\<in>{1..<1000}. tget (bd_files d2) (name_at (ce_stamp E2) n) = None)
             \<longrightarrow> tget (bd_files d2) (bk_name b') = None))"
proof
  have "wk_read (agent_workers E1) n1 i (bk_name b) k = agent_read (bk_name b) k" for k
    by (simp add: agent_workers_def)
  from agent_source.fetch_serves [OF this, of d1 d1 content 0] assms(1)
  have "fetch_loop (agent_workers E1) n1 i (bk_name b) 0 [] d1 = Some (Ok content, d1)" by auto
  then show "fetch_from (agent_workers E1) n1 i b d1 = Some (Ok content, d1)"
    by (simp add: fetch_from_def)
next
  have "wk_write (agent_workers E2) n2 j u k l bs = agent_write E2 u k l bs" for u k l bs
    by (simp add: agent_workers_def)
  from agent_sink.push_takes [OF this, where u = None and got = "[]" and rest = content and w = d2] assms(2)
  obtain b' d2' where "push_loop (agent_workers E2) n2 j (length content) content None 0 d2 = Some (Ok b', d2')"
      "agent_stored E2 (bd_files d2) content b' d2'" by auto
  then show "\<exists>b' d2'. push_backup (agent_workers E2) n2 j content d2 = Some (Ok b', d2')
        \<and> bk_bytes b' = length content \<and> tget (bd_files d2') (bk_name b') = Some content
        \<and> (\<forall>name. name \<noteq> bk_name b' \<longrightarrow> tget (bd_files d2') name = tget (bd_files d2) name)
        \<and> ((\<exists>n\<in>{1..<1000}. tget (bd_files d2) (name_at (ce_stamp E2) n) = None)
             \<longrightarrow> tget (bd_files d2) (bk_name b') = None)"
    unfolding push_backup_def agent_stored_def by blast
qed

lemma upload_grows:
  assumes "valid_upload_id i" "twf (bd_uploads d)" "tget (bd_uploads d) i = Some got" "length got + length data < len"
  shows "\<exists>d'. backup_upload_chunk E (Some i) (length got) len data d
      = (Ok \<lparr>pg_received = length got + length data, pg_upload = i, pg_backup = None\<rparr>, d')
    \<and> tget (bd_uploads d') i = Some (got @ data)"
  using assms by (simp add: backup_upload_chunk_def upload_of_def thas_def Let_def tbl.get_put)

text \<open>The limits on an upload, 4 GB and the disk reserve, are checked against the length its first piece
  names. Every later piece names a length of its own, held to neither: an upload taken in as a small
  one goes on growing, whatever room the node has.\<close>

theorem an_upload_outgrows_its_first_length:
  assumes "valid_upload_id i" "twf (bd_uploads d)" "tget (bd_uploads d) i = Some got"
    and "length got + length data < len" "MAX_IMPORT_BYTES < len" "\<not> ce_room E len"
  shows "\<exists>d'. backup_upload_chunk E (Some i) (length got) len data d
      = (Ok \<lparr>pg_received = length got + length data, pg_upload = i, pg_backup = None\<rparr>, d')
    \<and> tget (bd_uploads d') i = Some (got @ data)
    \<and> fst (backup_upload_chunk E None 0 len data d) = Err TooLarge"
proof -
  have "fst (backup_upload_chunk E None 0 len data d) = Err TooLarge"
    using assms(5) by (simp add: backup_upload_chunk_def upload_of_def)
  with upload_grows [OF assms(1-4), of E] show ?thesis by blast
qed

definition sample_env :: chunk_env where
  "sample_env = \<lparr>ce_room = \<lambda>n. n < 100, ce_stale = \<lambda>_. False, ce_seed = Some (replicate 8 7), ce_archive_ok = \<lambda>_. True,
     ce_stamp = [], ce_now = 0\<rparr>"

definition sample_name :: str where "sample_name = ascii ''20260101-101010.tar.gz''"

lemma sample_name_valid: "valid_name sample_name"
  by (simp add: valid_name_def sample_name_def strip_suffix_def BACKUP_SUFFIX_def ascii_def digits_def digit_def)

definition sample_dir :: backups_dir where
  "sample_dir = \<lparr>bd_server = True, bd_files = [(sample_name, [1, 2, 3])], bd_uploads = [(replicate 16 48, [9])]\<rparr>"

definition sample_backup :: backup where
  "sample_backup = \<lparr>bk_name = sample_name, bk_bytes = 3, bk_created_unix = None, bk_started_unix = None\<rparr>"

lemma sample_fits: "length [1, 2, 3 :: u8] \<le> MAX_IMPORT_BYTES"
  by (simp add: MAX_IMPORT_BYTES_def)

lemma sample_seed: "hex_encode (replicate 8 7) = concat (replicate 8 [48, 55])"
  by (simp add: hex_encode_def map_replicate)

lemma sample_seed_new: "concat (replicate 8 [48, 55]) \<noteq> (replicate 16 48 :: str)"
proof
  assume eq: "concat (replicate 8 [48, 55]) = (replicate 16 48 :: str)"
  have "(55 :: u8) \<in> set (concat (replicate 8 [48, 55]))" by simp
  then have "(55 :: u8) \<in> set (replicate 16 48)" by (simp only: eq)
  then show False by simp
qed

lemma sample_arriving: "agent_arriving sample_env [1, 2, 3] None [] sample_dir"
  using sample_fits sample_seed_new
  by (simp add: agent_arriving_def accepts_def sample_env_def sample_dir_def thas_def tget_def twf_def sample_seed)

theorem a_backup_arrives_whole_witness:
  "fst (the (fetch_from (agent_workers sample_env) (sample_node [] 0) [] sample_backup sample_dir)) = Ok [1, 2, 3]
   \<and> (\<exists>b' d2'. push_backup (agent_workers sample_env) (sample_node [] 0) [] [1, 2, 3] sample_dir = Some (Ok b', d2')
        \<and> tget (bd_files d2') (bk_name b') = Some [1, 2, 3] \<and> bk_name b' \<noteq> sample_name
        \<and> tget (bd_files d2') sample_name = Some [1, 2, 3])"
proof -
  have held: "backup_file (bk_name sample_backup) sample_dir = Some [1, 2, 3]"
    using sample_name_valid by (simp add: backup_file_def sample_dir_def sample_backup_def tget_def)
  have n: "name_at [] 1 \<noteq> sample_name"
    by (simp add: name_at_def sample_name_def BACKUP_SUFFIX_def ascii_def)
  then have free: "\<exists>n\<in>{1..<1000}. tget (bd_files sample_dir) (name_at (ce_stamp sample_env) n) = None"
    by (intro bexI [of _ 1]) (simp_all add: sample_dir_def sample_env_def tget_def)
  have old: "tget (bd_files sample_dir) sample_name = Some [1, 2, 3]" by (simp add: sample_dir_def tget_def)
  note carried = a_backup_arrives_whole [OF held sample_arriving, where ?E1.0 = sample_env and ?n1.0 = "sample_node [] 0"
      and ?n2.0 = "sample_node [] 0" and i = "[]" and j = "[]"]
  from carried [THEN conjunct2] obtain b' d2' where
    p: "push_backup (agent_workers sample_env) (sample_node [] 0) [] [1, 2, 3] sample_dir = Some (Ok b', d2')"
      "tget (bd_files d2') (bk_name b') = Some [1, 2, 3]"
      "\<forall>name. name \<noteq> bk_name b' \<longrightarrow> tget (bd_files d2') name = tget (bd_files sample_dir) name"
      "tget (bd_files sample_dir) (bk_name b') = None" using free by blast
  from p(4) old have "bk_name b' \<noteq> sample_name" by auto
  with p old carried [THEN conjunct1] show ?thesis by auto
qed

lemma honest_silent: "honest_length silent_workers n i name 0"
  by (simp add: honest_length_def silent_workers_def)

theorem an_upload_outgrows_its_first_length_witness:
  "fst (backup_upload_chunk sample_env (Some (replicate 16 48)) 1 (MAX_IMPORT_BYTES + 1) [5] sample_dir)
    = Ok \<lparr>pg_received = 2, pg_upload = replicate 16 48, pg_backup = None\<rparr>"
proof -
  have "valid_upload_id (replicate 16 48)" by (simp add: valid_upload_id_def digit_def list_all_iff)
  moreover have "twf (bd_uploads sample_dir)" "tget (bd_uploads sample_dir) (replicate 16 48) = Some [9]"
    by (simp_all add: sample_dir_def twf_def tget_def)
  moreover have "length [9 :: u8] + length [5 :: u8] < MAX_IMPORT_BYTES + 1" "MAX_IMPORT_BYTES < MAX_IMPORT_BYTES + 1"
      "\<not> ce_room sample_env (MAX_IMPORT_BYTES + 1)"
    by (simp_all add: MAX_IMPORT_BYTES_def sample_env_def)
  ultimately show ?thesis
    using an_upload_outgrows_its_first_length [of "replicate 16 48" sample_dir "[9]" "[5]" "MAX_IMPORT_BYTES + 1" sample_env]
    by auto
qed

end
