(* ===== verification/Node_Log.thy ===== *)
theory Node_Log
  imports Placement Carry
begin

text \<open>
  What the index asks of its nodes, in order. \<open>logged W\<close> is the nodes \<open>W\<close> with every call that can change a
  server written down, with its answer. \<open>keeps\<close> is a triple over the log, with one rule per way of composing
  operations, so that what an operation asks for is followed without unfolding it.
\<close>

section \<open>The log\<close>

datatype call =
    CCreate | CStop | CStart | CRemove | CMake | CRead | CWrite | CDelete | CRestore | CMerge | CIdentity | CSetIdentity | CMap

text \<open>The call, the node's name, the server's id, and whether it was answered with success.\<close>

type_synonym event = "call \<times> str \<times> str \<times> bool"

definition noting :: "call \<Rightarrow> str \<Rightarrow> str \<Rightarrow> ('w, 'a) asked \<Rightarrow> ('w \<times> event list, 'a) asked" where
  "noting k n i f s = (let (r, w) = f (fst s) in (r, w, snd s @ [(k, n, i, \<not> isl r)]))"

definition quiet :: "('w, 'a) asked \<Rightarrow> ('w \<times> event list, 'a) asked" where
  "quiet f s = (let (r, w) = f (fst s) in (r, w, snd s))"

definition logged :: "'w workers \<Rightarrow> ('w \<times> event list) workers" where
  "logged W =
     \<lparr>wk_list = \<lambda>n. quiet (wk_list W n),
      wk_capacity = \<lambda>n. quiet (wk_capacity W n),
      wk_spec = \<lambda>n i. quiet (wk_spec W n i),
      wk_create = \<lambda>n s a. noting CCreate (nc_name n) (sp_instance_id s) (wk_create W n s a),
      wk_stop = \<lambda>n i. noting CStop (nc_name n) i (wk_stop W n i),
      wk_start = \<lambda>n i. noting CStart (nc_name n) i (wk_start W n i),
      wk_remove = \<lambda>n i. noting CRemove (nc_name n) i (wk_remove W n i),
      wk_backups = \<lambda>n i. quiet (wk_backups W n i),
      wk_make = \<lambda>n i t. noting CMake (nc_name n) i (wk_make W n i t),
      wk_read = \<lambda>n i b k. noting CRead (nc_name n) i (wk_read W n i b k),
      wk_write = \<lambda>n i u k l bs. noting CWrite (nc_name n) i (wk_write W n i u k l bs),
      wk_backup_delete = \<lambda>n i b. noting CDelete (nc_name n) i (wk_backup_delete W n i b),
      wk_restore = \<lambda>n i b. noting CRestore (nc_name n) i (wk_restore W n i b),
      wk_merge = \<lambda>n i b. noting CMerge (nc_name n) i (wk_merge W n i b),
      wk_identity = \<lambda>n i. noting CIdentity (nc_name n) i (wk_identity W n i),
      wk_set_identity = \<lambda>n i k. noting CSetIdentity (nc_name n) i (wk_set_identity W n i k),
      wk_logs = \<lambda>n i k. quiet (wk_logs W n i k),
      wk_change_map = \<lambda>n i m. noting CMap (nc_name n) i (wk_change_map W n i m),
      wk_maps = \<lambda>n g. quiet (wk_maps W n g)\<rparr>"

lemma logged_simps:
  "wk_list (logged W) n = quiet (wk_list W n)"
  "wk_capacity (logged W) n = quiet (wk_capacity W n)"
  "wk_spec (logged W) n i = quiet (wk_spec W n i)"
  "wk_create (logged W) n s a = noting CCreate (nc_name n) (sp_instance_id s) (wk_create W n s a)"
  "wk_stop (logged W) n i = noting CStop (nc_name n) i (wk_stop W n i)"
  "wk_start (logged W) n i = noting CStart (nc_name n) i (wk_start W n i)"
  "wk_remove (logged W) n i = noting CRemove (nc_name n) i (wk_remove W n i)"
  "wk_backups (logged W) n i = quiet (wk_backups W n i)"
  "wk_make (logged W) n i t = noting CMake (nc_name n) i (wk_make W n i t)"
  "wk_read (logged W) n i b k = noting CRead (nc_name n) i (wk_read W n i b k)"
  "wk_write (logged W) n i u k l bs = noting CWrite (nc_name n) i (wk_write W n i u k l bs)"
  "wk_backup_delete (logged W) n i b = noting CDelete (nc_name n) i (wk_backup_delete W n i b)"
  "wk_restore (logged W) n i b = noting CRestore (nc_name n) i (wk_restore W n i b)"
  "wk_merge (logged W) n i b = noting CMerge (nc_name n) i (wk_merge W n i b)"
  "wk_identity (logged W) n i = noting CIdentity (nc_name n) i (wk_identity W n i)"
  "wk_set_identity (logged W) n i key = noting CSetIdentity (nc_name n) i (wk_set_identity W n i key)"
  "wk_logs (logged W) n i lines = quiet (wk_logs W n i lines)"
  "wk_change_map (logged W) n i m = noting CMap (nc_name n) i (wk_change_map W n i m)"
  "wk_maps (logged W) n g = quiet (wk_maps W n g)"
  by (simp_all add: logged_def)

text \<open>Calls that change a server; making, reading and deleting a backup do not.\<close>

definition changes :: "call \<Rightarrow> bool" where
  "changes k \<longleftrightarrow> k \<in> {CCreate, CStop, CStart, CRemove, CWrite, CRestore, CMerge, CSetIdentity, CMap}"

definition untouched :: "str \<Rightarrow> event list \<Rightarrow> bool" where
  "untouched A l \<longleftrightarrow> list_all (\<lambda>(k, n, i, ok). n = A \<longrightarrow> \<not> changes k) l"

lemma untouched_append [simp]: "untouched A (l @ l') \<longleftrightarrow> untouched A l \<and> untouched A l'"
  by (simp add: untouched_def)

lemma untouched_Nil [simp]: "untouched A []"
  by (simp add: untouched_def)

lemma untouched_one [simp]: "untouched A [(k, n, i, ok)] \<longleftrightarrow> (n = A \<longrightarrow> \<not> changes k)"
  by (simp add: untouched_def)

section \<open>Following the log\<close>

text \<open>
  \<open>keeps P m Q E\<close>: from any log satisfying \<open>P\<close>, when \<open>m\<close> returns, it returns a value with \<open>Q\<close> of it and the
  log, or an error with \<open>E\<close> of it and the log.
\<close>

fun answered :: "('a \<Rightarrow> event list \<Rightarrow> bool) \<Rightarrow> (hosting_error \<Rightarrow> event list \<Rightarrow> bool)
    \<Rightarrow> (hosting_error, 'a) outcome \<Rightarrow> event list \<Rightarrow> bool" where
  "answered Q E (Ok a) l = Q a l"
| "answered Q E (Err e) l = E e l"
| "answered Q E Panic l = False"

lemma answered_eta:
  "answered Q E (Ok a) = Q a" "answered Q E (Err e) = E e" "answered Q E Panic = (\<lambda>_. False)"
  by (simp_all add: fun_eq_iff)

definition keeps :: "(event list \<Rightarrow> bool) \<Rightarrow> ('w \<times> event list, 'a) act \<Rightarrow> ('a \<Rightarrow> event list \<Rightarrow> bool)
    \<Rightarrow> (hosting_error \<Rightarrow> event list \<Rightarrow> bool) \<Rightarrow> bool" where
  "keeps P m Q E \<longleftrightarrow> (\<forall>s r s'. P (snd s) \<longrightarrow> m s = Some (r, s') \<longrightarrow> answered Q E r (snd s'))"

lemma keepsI:
  "(\<And>s r s'. P (snd s) \<Longrightarrow> m s = Some (r, s') \<Longrightarrow> answered Q E r (snd s')) \<Longrightarrow> keeps P m Q E"
  by (simp add: keeps_def)

lemma keepsD: "keeps P m Q E \<Longrightarrow> P (snd s) \<Longrightarrow> m s = Some (r, s') \<Longrightarrow> answered Q E r (snd s')"
  unfolding keeps_def by blast

lemma answered_weaken:
  "answered Q E r l \<Longrightarrow> (\<And>a. Q a l \<Longrightarrow> Q' a l) \<Longrightarrow> (\<And>e. E e l \<Longrightarrow> E' e l) \<Longrightarrow> answered Q' E' r l"
  by (cases r) simp_all

lemma keeps_weaken:
  assumes "keeps P m Q E" "\<And>l. P' l \<Longrightarrow> P l" "\<And>a l. Q a l \<Longrightarrow> Q' a l" "\<And>e l. E e l \<Longrightarrow> E' e l"
  shows "keeps P' m Q' E'"
  by (rule keepsI, rule answered_weaken, rule keepsD [OF assms(1)]) (auto intro: assms(2-4))

lemma keeps_ret: "(\<And>l. P l \<Longrightarrow> Q a l) \<Longrightarrow> keeps P (ret a) Q E"
  by (rule keepsI) (auto simp: ret_def)

lemma keeps_fail: "(\<And>l. P l \<Longrightarrow> E e l) \<Longrightarrow> keeps P (fail e) Q E"
  by (rule keepsI) (auto simp: fail_def)

lemma keeps_bind:
  assumes "keeps P m R E" "\<And>a. keeps (R a) (f a) Q E"
  shows "keeps P (bind_act m f) Q E"
proof (rule keepsI)
  fix s r s' assume P: "P (snd s)" and run: "bind_act m f s = Some (r, s')"
  obtain x s1 where m: "m s = Some (x, s1)" using run by (auto simp: bind_act_def split: option.splits)
  note x = keepsD [OF assms(1) P m]
  show "answered Q E r (snd s')"
  proof (cases x)
    case (Ok a)
    then have "R a (snd s1)" "f a s1 = Some (r, s')" using x run m by (simp_all add: bind_act_def)
    then show ?thesis by (rule keepsD [OF assms(2)])
  next
    case (Err e)
    then show ?thesis using x run m by (auto simp: bind_act_def)
  next
    case Panic
    then show ?thesis using x by simp
  qed
qed

lemma keeps_catch:
  assumes "keeps P m Q R" "\<And>e. keeps (R e) (h e) Q E"
  shows "keeps P (catch m h) Q E"
proof (rule keepsI)
  fix s r s' assume P: "P (snd s)" and run: "catch m h s = Some (r, s')"
  obtain x s1 where m: "m s = Some (x, s1)" using run by (auto simp: catch_def split: option.splits)
  note x = keepsD [OF assms(1) P m]
  show "answered Q E r (snd s')"
  proof (cases x)
    case (Err e)
    then have "R e (snd s1)" "h e s1 = Some (r, s')" using x run m by (simp_all add: catch_def)
    then show ?thesis by (rule keepsD [OF assms(2)])
  next
    case (Ok a)
    then show ?thesis using x run m by (auto simp: catch_def)
  next
    case Panic
    then show ?thesis using x by simp
  qed
qed

lemma keeps_attempt:
  assumes "keeps P m Q E"
  shows "keeps P (attempt m) (answered Q E) E'"
proof (rule keepsI)
  fix s r s' assume P: "P (snd s)" and run: "attempt m s = Some (r, s')"
  obtain x s1 where m: "m s = Some (x, s1)" using run by (auto simp: attempt_def split: option.splits)
  note x = keepsD [OF assms P m]
  then show "answered (answered Q E) E' r (snd s')"
    using run m by (cases x) (auto simp: attempt_def)
qed

lemma keeps_ask_noting:
  assumes "\<And>a l. P l \<Longrightarrow> Q a (l @ [(k, n, i, True)])" "\<And>e l. P l \<Longrightarrow> E e (l @ [(k, n, i, False)])"
  shows "keeps P (ask (noting k n i f)) Q E"
proof (rule keepsI)
  fix s r s' assume "P (snd s)" "ask (noting k n i f) s = Some (r, s')"
  then show "answered Q E r (snd s')"
    using assms by (cases "fst (f (fst s))") (auto simp: ask_def noting_def split_def Let_def)
qed

lemma keeps_ask_quiet:
  assumes "\<And>a l. P l \<Longrightarrow> Q a l" "\<And>e l. P l \<Longrightarrow> E e l"
  shows "keeps P (ask (quiet f)) Q E"
proof (rule keepsI)
  fix s r s' assume "P (snd s)" "ask (quiet f) s = Some (r, s')"
  then show "answered Q E r (snd s')"
    using assms by (cases "fst (f (fst s))") (auto simp: ask_def quiet_def split_def Let_def)
qed

lemma keeps_here:
  assumes "\<And>s. P (snd s) \<Longrightarrow> answered Q E (fst (f s)) (snd s)" "\<And>s. snd (snd (f s)) = snd s"
  shows "keeps P (here f) Q E"
proof (rule keepsI)
  fix s r s' assume "P (snd s)" "here f s = Some (r, s')"
  then have "f s = (r, s')" by (simp add: here_def)
  then show "answered Q E r (snd s')" using assms(1) [OF \<open>P (snd s)\<close>] assms(2) [of s] by simp
qed

lemma keeps_exact: "(\<And>l. P l \<Longrightarrow> keeps (\<lambda>l'. l' = l) m Q E) \<Longrightarrow> keeps P m Q E"
  unfolding keeps_def by blast

section \<open>Logs that leave a node alone\<close>

definition calm :: "str \<Rightarrow> event list \<Rightarrow> event list \<Rightarrow> bool" where
  "calm A l0 l \<longleftrightarrow> (\<exists>m. l = l0 @ m \<and> untouched A m)"

definition calm_with :: "event set \<Rightarrow> str \<Rightarrow> event list \<Rightarrow> event list \<Rightarrow> bool" where
  "calm_with es A l0 l \<longleftrightarrow> (\<exists>m. l = l0 @ m \<and> untouched A m \<and> es \<subseteq> set m)"

lemma calm_refl: "calm A l l"
  by (simp add: calm_def)

lemma calm_calm_with: "calm A l0 l \<longleftrightarrow> calm_with {} A l0 l"
  by (simp add: calm_def calm_with_def)

lemma calm_with_calm: "calm_with es A l0 l \<Longrightarrow> calm A l0 l"
  by (auto simp: calm_def calm_with_def)

lemma calm_with_step:
  "calm_with es A l0 l \<Longrightarrow> \<not> (n = A \<and> changes k) \<Longrightarrow> calm_with es A l0 (l @ [(k, n, i, ok)])"
proof -
  assume "calm_with es A l0 l" and n: "\<not> (n = A \<and> changes k)"
  then obtain m where "l = l0 @ m" "untouched A m" "es \<subseteq> set m" by (auto simp: calm_with_def)
  with n show ?thesis unfolding calm_with_def by (intro exI [of _ "m @ [(k, n, i, ok)]"]) auto
qed

lemma calm_with_add:
  "calm_with es A l0 l \<Longrightarrow> \<not> (n = A \<and> changes k) \<Longrightarrow> calm_with (insert (k, n, i, ok) es) A l0 (l @ [(k, n, i, ok)])"
proof -
  assume "calm_with es A l0 l" and n: "\<not> (n = A \<and> changes k)"
  then obtain m where "l = l0 @ m" "untouched A m" "es \<subseteq> set m" by (auto simp: calm_with_def)
  with n show ?thesis unfolding calm_with_def by (intro exI [of _ "m @ [(k, n, i, ok)]"]) auto
qed

lemma calm_with_trans:
  assumes "calm_with es A l0 l" "calm A l l'"
  shows "calm_with es A l0 l'"
proof -
  from assms(1) obtain m where "l = l0 @ m" "untouched A m" "es \<subseteq> set m" by (auto simp: calm_with_def)
  moreover from assms(2) obtain m' where "l' = l @ m'" "untouched A m'" by (auto simp: calm_def)
  ultimately show ?thesis unfolding calm_with_def by (intro exI [of _ "m @ m'"]) auto
qed

text \<open>A call that does not change the node \<open>A\<close> keeps a log calm.\<close>

lemma keeps_calm:
  assumes "\<not> (n = A \<and> changes k)"
  shows "keeps (calm_with es A l0) (ask (noting k n i f)) (\<lambda>_. calm_with (insert (k, n, i, True) es) A l0)
    (\<lambda>_. calm_with es A l0)"
  by (rule keeps_ask_noting) (use assms in \<open>auto intro: calm_with_add calm_with_step\<close>)

lemma calm_with_mono: "calm_with es A l0 l \<Longrightarrow> es' \<subseteq> es \<Longrightarrow> calm_with es' A l0 l"
  by (auto simp: calm_with_def)

lemma keeps_calm_same:
  assumes "\<not> (n = A \<and> changes k)"
  shows "keeps (calm_with es A l0) (ask (noting k n i f)) (\<lambda>_. calm_with es A l0) (\<lambda>_. calm_with es A l0)"
  by (rule keeps_ask_noting) (use assms in \<open>auto intro: calm_with_step\<close>)

lemma keeps_attempt_calm:
  assumes "keeps P m (\<lambda>_. calm_with es A l0) (\<lambda>_. calm_with es A l0)"
  shows "keeps P (attempt m) (\<lambda>r l. r \<noteq> Panic \<and> calm_with es A l0 l) E"
  by (rule keeps_weaken [OF keeps_attempt [OF assms, of E]]) (auto elim: answered.elims)

section \<open>Asking changes no log\<close>

lemma gather_logged:
  "gather (logged W) nodes (w, l) = (fst (gather W nodes w), snd (gather W nodes w), l)"
  by (induction nodes arbitrary: w) (simp_all add: node_instances_def logged_simps quiet_def split_def Let_def)

lemma all_instances_logged:
  "all_instances (logged W) c (w, l) = (fst (all_instances W c w), snd (all_instances W c w), l)"
  by (simp add: all_instances_def gather_logged split_def Let_def)

lemma find_for_logged:
  "find_for (logged W) c account i allowed (w, l)
     = (fst (find_for W c account i allowed w), snd (find_for W c account i allowed w), l)"
  by (simp add: find_for_def all_instances_logged split_def Let_def split: option.split)

lemma owned_logged:
  "owned (logged W) c account i (w, l) = (fst (owned W c account i w), snd (owned W c account i w), l)"
  by (simp add: owned_def find_for_logged)

lemma node_capacity_logged:
  "node_capacity (logged W) n (w, l) = (fst (node_capacity W n w), snd (node_capacity W n w), l)"
  by (simp add: node_capacity_def logged_simps quiet_def split_def Let_def)

lemma find_for_not_Panic: "fst (find_for W c account i allowed w) \<noteq> Panic"
  by (simp add: find_for_def split_def Let_def split: option.split)

lemma owned_not_Panic: "fst (owned W c account i w) \<noteq> Panic"
  by (simp add: owned_def find_for_not_Panic)

end
