(* ===== verification/Moves.thy ===== *)
theory Moves
  imports Placement Carry
begin

text \<open>
  \<^verbatim>\<open>crates/platform-index/src/hosting.rs\<close>: moving a server to another node (\<open>relocate_to\<close>), with its files
  and its identity.
\<close>

definition MAX_LIVE_DELTAS :: nat where "MAX_LIVE_DELTAS = 3"
definition SMALL_DELTA_BYTES :: nat where "SMALL_DELTA_BYTES = 1024 * 1024"

text \<open>Whether an error's text holds \<open>unknown op\<close>.\<close>

fun contains_text :: "str \<Rightarrow> str \<Rightarrow> bool" where
  "contains_text needle [] = (needle = [])"
| "contains_text needle (b # s) = (take (length needle) (b # s) = needle \<or> contains_text needle s)"

definition unknown_op :: "hosting_error \<Rightarrow> bool" where
  "unknown_op e = (case e of Remote t \<Rightarrow> contains_text (ascii ''unknown op'') t | _ \<Rightarrow> False)"

definition old_agent :: "node_config \<Rightarrow> hosting_error \<Rightarrow> hosting_error" where
  "old_agent node e = (if unknown_op e then TooOld (nc_name node) else e)"

definition stop_on :: "'w workers \<Rightarrow> node_config \<Rightarrow> str \<Rightarrow> ('w, unit) act" where
  "stop_on W node i = ask (wk_stop W node i)"

definition remove_on :: "'w workers \<Rightarrow> node_config \<Rightarrow> str \<Rightarrow> ('w, unit) act" where
  "remove_on W node i = ask (wk_remove W node i)"

definition start_on :: "'w workers \<Rightarrow> node_config \<Rightarrow> str \<Rightarrow> ('w, unit) act" where
  "start_on W node i = catch (ask (wk_start W node i)) (\<lambda>e. fail (old_agent node e))"

definition copy_pass :: "'w workers \<Rightarrow> node_config \<Rightarrow> node_config \<Rightarrow> str \<Rightarrow> str \<Rightarrow> int option \<Rightarrow> ('w, int \<times> nat) act" where
  "copy_pass W from to old_id new_id since =
     bind_act (ask (wk_make W from old_id since)) (\<lambda>made.
     if bk_bytes made > MAX_IMPORT_BYTES then fail (TooBig (nc_name to))
     else case bk_started_unix made of None \<Rightarrow> fail (Remote (ascii ''unknown op'')) | Some started \<Rightarrow>
     bind_act (attempt (fetch_from W from old_id made)) (\<lambda>carried.
     bind_act (attempt (ask (wk_backup_delete W from old_id (bk_name made)))) (\<lambda>_.
     bind_act (\<lambda>w. Some (carried, w)) (\<lambda>file.
     bind_act (push_backup W to new_id file) (\<lambda>landed.
     bind_act (case since of
         None \<Rightarrow> bind_act (ask (wk_restore W to new_id (bk_name landed))) (\<lambda>_.
                 bind_act (attempt (ask (wk_backup_delete W to new_id (bk_name landed)))) (\<lambda>_. ret ()))
       | Some _ \<Rightarrow> ask (wk_merge W to new_id (bk_name landed))) (\<lambda>_.
     ret (started, bk_bytes made)))))))"

section \<open>A move\<close>

definition new_instance_id :: "str \<Rightarrow> bytes option \<Rightarrow> (hosting_error, str) outcome" where
  "new_instance_id game_id entropy =
     (case entropy of None \<Rightarrow> Err NoEntropy | Some bs \<Rightarrow>
        let prefix = take 16 (filter (\<lambda>b. lower b \<or> digit b \<or> b = 45) game_id);
            prefix = (if prefix = [] then ascii ''game'' else prefix)
        in Ok (prefix @ [45] @ hex_encode bs))"

text \<open>The copies of what changed, made while the old server still runs: at most \<open>n\<close>, until one is small.\<close>

fun live_deltas :: "'w workers \<Rightarrow> node_config \<Rightarrow> node_config \<Rightarrow> str \<Rightarrow> str \<Rightarrow> nat \<Rightarrow> int \<Rightarrow> ('w, int) act" where
  "live_deltas W from to old_id new_id 0 since = ret since"
| "live_deltas W from to old_id new_id (Suc n) since =
     bind_act (copy_pass W from to old_id new_id (Some since)) (\<lambda>(next, size).
       if size \<le> SMALL_DELTA_BYTES then ret next else live_deltas W from to old_id new_id n next)"

definition remove_new :: "'w workers \<Rightarrow> node_config \<Rightarrow> str \<Rightarrow> hosting_error \<Rightarrow> ('w, 'a) act" where
  "remove_new W to new_id e = bind_act (attempt (remove_on W to new_id)) (\<lambda>_. fail e)"

definition restart_old :: "'w workers \<Rightarrow> node_config \<Rightarrow> str \<Rightarrow> bool \<Rightarrow> hosting_error \<Rightarrow> ('w, 'a) act" where
  "restart_old W from old_id was_running e =
     (if was_running
      then bind_act (attempt (start_on W from old_id)) (\<lambda>r.
        case r of Err again \<Rightarrow> fail (NotRestarted e) | _ \<Rightarrow> fail e)
      else fail e)"

text \<open>The last part, with the old server down: the last delta, the identity, the start.\<close>

definition land :: "'w workers \<Rightarrow> node_config \<Rightarrow> node_config \<Rightarrow> str \<Rightarrow> str \<Rightarrow> bool \<Rightarrow> int \<Rightarrow> ('w, unit) act" where
  "land W from to old_id new_id was_running since =
     bind_act (if was_running
       then bind_act (catch (copy_pass W from to old_id new_id (Some since)) (\<lambda>e. fail (old_agent from e))) (\<lambda>_. ret ())
       else ret ()) (\<lambda>_.
     bind_act (catch (ask (wk_identity W from old_id)) (\<lambda>e. fail (old_agent from e))) (\<lambda>identity.
     bind_act (case identity of
         None \<Rightarrow> ret ()
       | Some key \<Rightarrow> catch (ask (wk_set_identity W to new_id key)) (\<lambda>e. fail (old_agent to e))) (\<lambda>_.
     if was_running then start_on W to new_id else ret ())))"

text \<open>From the new server's creation on.\<close>

definition move_files :: "'w workers \<Rightarrow> node_config \<Rightarrow> node_config \<Rightarrow> str \<Rightarrow> str \<Rightarrow> bool \<Rightarrow> ('w, unit) act" where
  "move_files W from to old_id new_id was_running =
     bind_act (catch (stop_on W to new_id) (remove_new W to new_id)) (\<lambda>_.
     bind_act (catch (copy_pass W from to old_id new_id None) (\<lambda>e. remove_new W to new_id (old_agent from e))) (\<lambda>(since, _).
     bind_act (if was_running
       then catch (live_deltas W from to old_id new_id MAX_LIVE_DELTAS since) (\<lambda>e. remove_new W to new_id (old_agent from e))
       else ret since) (\<lambda>since.
     bind_act (if was_running then catch (stop_on W from old_id) (remove_new W to new_id) else ret ()) (\<lambda>_.
     bind_act (attempt (land W from to old_id new_id was_running since)) (\<lambda>landed.
       case landed of
         Err e \<Rightarrow> catch (remove_new W to new_id e) (restart_old W from old_id was_running)
       | _ \<Rightarrow> bind_act (attempt (remove_on W from old_id)) (\<lambda>_. ret ()))))))"

definition relocate_to :: "'w workers \<Rightarrow> hosting_config \<Rightarrow> account_id \<Rightarrow> str \<Rightarrow> move_target \<Rightarrow> str set
    \<Rightarrow> bytes option \<Rightarrow> ('w, hosted_instance) act" where
  "relocate_to W c account instance_id target moving entropy =
     bind_act (here (owned W c account instance_id)) (\<lambda>(found, from).
     if instance_id \<in> moving then fail AlreadyMoving
     else bind_act (here (\<lambda>w. let (all, w) = all_instances W c w in (Ok all, w))) (\<lambda>existing.
     bind_act (here (choose_target W c existing from target)) (\<lambda>to.
     bind_act (catch (ask (wk_spec W from instance_id)) (\<lambda>e. fail (old_agent from e))) (\<lambda>spec.
     let was_running = (hi_state found = ascii ''running'') in
     bind_act (here (\<lambda>w. (new_instance_id (sp_game_id spec) entropy, w))) (\<lambda>new_id.
     let spec = spec\<lparr>sp_instance_id := new_id, sp_port := None, sp_extra_ports := []\<rparr> in
     bind_act (ask (wk_create W to spec account)) (\<lambda>made.
     bind_act (move_files W from to instance_id new_id was_running) (\<lambda>_.
     ret \<lparr>hi_instance_id = new_id, hi_node = nc_name to, hi_game_id = sp_game_id spec, hi_name = sp_name spec,
       hi_state = (if was_running then ascii ''running'' else ascii ''stopped''),
       hi_port = cr_port made, hi_ports = cr_ports made, hi_stopped_secs = None, hi_delete_in_secs = None,
       hi_owner = Some account, hi_uptime_secs = Some 0, hi_players_now = None, hi_map_now = None,
       hi_mesh_destination = None, hi_region = None\<rparr>)))))))"

definition relocate :: "'w workers \<Rightarrow> hosting_config \<Rightarrow> account_id \<Rightarrow> str \<Rightarrow> str set \<Rightarrow> bytes option
    \<Rightarrow> ('w, hosted_instance) act" where
  "relocate W c account instance_id moving entropy = relocate_to W c account instance_id Auto moving entropy"

end
