(* ===== verification/Move_Safety.thy ===== *)
theory Move_Safety
  imports Moves Node_Log
begin

text \<open>
  What a move asks of the nodes, in order: the lemmas follow the log through \<open>relocate_to\<close> with the
  triples of \<open>Node_Log\<close>.
\<close>

section \<open>Carrying a backup leaves the old node alone\<close>

lemma fetch_calm:
  assumes "fetch_loop V n i name k got s = Some (r, s')" "V = logged W"
  shows "calm A (snd s) (snd s') \<and> r \<noteq> Panic"
proof -
  let ?P = "\<lambda>V (n :: node_config) (i :: str) (name :: str) (k :: nat) (got :: bytes) s
    (y :: (hosting_error, bytes) outcome \<times> _ \<times> event list).
    V = logged W \<longrightarrow> calm A (snd s) (snd (snd y)) \<and> fst y \<noteq> Panic"
  have "?P V n i name k got s (r, s')"
  proof (rule fetch_loop.raw_induct [where P = ?P, OF _ assms(1)], goal_cases)
    case (1 loop V n i name k got s y)
    show ?case
    proof
      assume V: "V = logged W"
      obtain x w where x: "wk_read W n i name k (fst s) = (x, w)" by fastforce
      define s1 where "s1 = (w, snd s @ [(CRead, nc_name n, i, \<not> isl x)])"
      have read: "wk_read V n i name k s = (x, s1)"
        by (simp add: V logged_simps noting_def x s1_def)
      have c: "calm A (snd s) (snd s1)" by (auto simp: s1_def calm_def changes_def)
      show "calm A (snd s) (snd (snd y)) \<and> fst y \<noteq> Panic"
      proof (cases x)
        case (Inl e)
        then show ?thesis using 1(2) c by (auto simp: ask_def read)
      next
        case (Inr p)
        show ?thesis
        proof (cases "snd p = [] \<and> k < fst p \<or> fst p \<le> k + length (snd p)")
          case True
          then show ?thesis using 1(2) c Inr by (auto simp: ask_def read split: if_splits)
        next
          case False
          then have "loop V n i name (k + length (snd p)) (got @ snd p) s1 = Some y"
            using 1(2) Inr by (auto simp: ask_def read)
          from 1(1) [OF this] V have "calm A (snd s1) (snd (snd y)) \<and> fst y \<noteq> Panic" by blast
          then show ?thesis using c calm_with_trans [of "{}"] by (auto simp: calm_calm_with)
        qed
      qed
    qed
  qed
  then show ?thesis using assms(2) by simp
qed

lemma push_calm:
  assumes "push_loop (logged W) n i len rest u k s = Some (r, s')" "nc_name n \<noteq> A"
  shows "calm A (snd s) (snd s') \<and> r \<noteq> Panic"
  using assms
proof (induction "length rest" arbitrary: rest u k s rule: less_induct)
  case less
  obtain x w where x: "wk_write W n i u k len (take TRANSFER_CHUNK rest) (fst s) = (x, w)" by fastforce
  define s1 where "s1 = (w, snd s @ [(CWrite, nc_name n, i, \<not> isl x)])"
  have wr: "wk_write (logged W) n i u k len (take TRANSFER_CHUNK rest) s = (x, s1)"
    by (simp add: logged_simps noting_def x s1_def)
  have c: "calm A (snd s) (snd s1)" using less.prems(2) by (auto simp: s1_def calm_def)
  note run = less.prems(1) [unfolded push_loop.simps [of "logged W" n i len rest u k s] ask_def wr]
  show ?case
  proof (cases x)
    case (Inl e)
    then show ?thesis using run c by auto
  next
    case (Inr pg)
    show ?thesis
    proof (cases "pg_backup pg \<noteq> None \<or> rest = []")
      case True
      then show ?thesis using run c Inr by (auto split: option.splits)
    next
      case False
      then have rec: "push_loop (logged W) n i len (drop TRANSFER_CHUNK rest) (Some (pg_upload pg)) (pg_received pg) s1 = Some (r, s')"
        using run Inr by auto
      have "length (drop TRANSFER_CHUNK rest) < length rest" using False by (simp add: TRANSFER_CHUNK_def)
      from less.hyps [OF this rec less.prems(2)] show ?thesis
        using c calm_with_trans [of "{}"] by (auto simp: calm_calm_with)
    qed
  qed
qed

lemma keeps_fetch: "keeps (calm_with es A l0) (fetch_from (logged W) n i b) (\<lambda>_. calm_with es A l0) (\<lambda>_. calm_with es A l0)"
proof (rule keepsI)
  fix s r s' assume c: "calm_with es A l0 (snd s)" and run: "fetch_from (logged W) n i b s = Some (r, s')"
  have "calm A (snd s) (snd s') \<and> r \<noteq> Panic"
    using run unfolding fetch_from_def by (rule fetch_calm) (rule refl)
  with calm_with_trans [OF c] show "answered (\<lambda>_. calm_with es A l0) (\<lambda>_. calm_with es A l0) r (snd s')" by (cases r) auto
qed

lemma keeps_push:
  assumes "nc_name n \<noteq> A"
  shows "keeps (calm_with es A l0) (push_backup (logged W) n i file) (\<lambda>_. calm_with es A l0) (\<lambda>_. calm_with es A l0)"
proof (rule keepsI)
  fix s r s' assume c: "calm_with es A l0 (snd s)" and run: "push_backup (logged W) n i file s = Some (r, s')"
  have "calm A (snd s) (snd s') \<and> r \<noteq> Panic"
    using run assms unfolding push_backup_def by (rule push_calm)
  with calm_with_trans [OF c] show "answered (\<lambda>_. calm_with es A l0) (\<lambda>_. calm_with es A l0) r (snd s')" by (cases r) auto
qed

lemma keeps_pass:
  assumes "nc_name to \<noteq> nc_name from"
  shows "keeps (calm_with es (nc_name from) l0) (copy_pass (logged W) from to i j since)
    (\<lambda>_. calm_with (insert (if since = None then CRestore else CMerge, nc_name to, j, True) es) (nc_name from) l0)
    (\<lambda>_. calm_with es (nc_name from) l0)"
proof -
  let ?A = "nc_name from" and ?B = "nc_name to"
  let ?C = "calm_with es ?A l0"
  let ?k = "if since = None then CRestore else CMerge"
  have make: "keeps ?C (ask (wk_make (logged W) from i since)) (\<lambda>_. ?C) (\<lambda>_. ?C)"
    unfolding logged_simps by (rule keeps_calm_same) (simp add: changes_def)
  have del: "keeps ?C (attempt (ask (wk_backup_delete (logged W) from i b))) (\<lambda>_. ?C) (\<lambda>_. ?C)" for b
  proof -
    have "keeps ?C (ask (wk_backup_delete (logged W) from i b)) (\<lambda>_. ?C) (\<lambda>_. ?C)"
      unfolding logged_simps by (rule keeps_calm_same) (simp add: changes_def)
    from keeps_attempt_calm [OF this, of "\<lambda>_. ?C"] show ?thesis by (rule keeps_weaken) auto
  qed
  have restore: "keeps ?C (bind_act (ask (wk_restore (logged W) to j b))
      (\<lambda>_. bind_act (attempt (ask (wk_backup_delete (logged W) to j b))) (\<lambda>_. ret ())))
      (\<lambda>_. calm_with (insert (CRestore, ?B, j, True) es) ?A l0) (\<lambda>_. ?C)" for b
  proof (rule keeps_bind)
    show "keeps ?C (ask (wk_restore (logged W) to j b)) (\<lambda>_. calm_with (insert (CRestore, ?B, j, True) es) ?A l0) (\<lambda>_. ?C)"
      using assms by (simp add: logged_simps keeps_calm)
    show "keeps (calm_with (insert (CRestore, ?B, j, True) es) ?A l0)
        (bind_act (attempt (ask (wk_backup_delete (logged W) to j b))) (\<lambda>_. ret ()))
        (\<lambda>_. calm_with (insert (CRestore, ?B, j, True) es) ?A l0) (\<lambda>_. ?C)" for a
      by (rule keeps_bind [OF keeps_attempt_calm [of _ _ "insert (CRestore, ?B, j, True) es" ?A l0]])
        (use assms in \<open>auto simp: logged_simps intro: keeps_calm_same keeps_ret\<close>)
  qed
  have merge: "keeps ?C (ask (wk_merge (logged W) to j b)) (\<lambda>_. calm_with (insert (CMerge, ?B, j, True) es) ?A l0) (\<lambda>_. ?C)" for b
    using assms by (simp add: logged_simps keeps_calm)
  have lay: "keeps ?C (case since of
         None \<Rightarrow> bind_act (ask (wk_restore (logged W) to j b)) (\<lambda>_.
                 bind_act (attempt (ask (wk_backup_delete (logged W) to j b))) (\<lambda>_. ret ()))
       | Some _ \<Rightarrow> ask (wk_merge (logged W) to j b)) (\<lambda>_. calm_with (insert (?k, ?B, j, True) es) ?A l0) (\<lambda>_. ?C)" for b
    using restore merge by (cases since) simp_all
  show ?thesis
    unfolding copy_pass_def
  proof (rule keeps_bind [OF make])
    fix made :: backup
    show "keeps ?C (if bk_bytes made > MAX_IMPORT_BYTES then fail (TooBig (nc_name to))
     else case bk_started_unix made of None \<Rightarrow> fail (Remote (ascii ''unknown op'')) | Some started \<Rightarrow>
     bind_act (attempt (fetch_from (logged W) from i made)) (\<lambda>carried.
     bind_act (attempt (ask (wk_backup_delete (logged W) from i (bk_name made)))) (\<lambda>_.
     bind_act (\<lambda>w. Some (carried, w)) (\<lambda>file.
     bind_act (push_backup (logged W) to j file) (\<lambda>landed.
     bind_act (case since of
         None \<Rightarrow> bind_act (ask (wk_restore (logged W) to j (bk_name landed))) (\<lambda>_.
                 bind_act (attempt (ask (wk_backup_delete (logged W) to j (bk_name landed)))) (\<lambda>_. ret ()))
       | Some _ \<Rightarrow> ask (wk_merge (logged W) to j (bk_name landed))) (\<lambda>_.
     ret (started, bk_bytes made)))))))
      (\<lambda>_. calm_with (insert (?k, ?B, j, True) es) ?A l0) (\<lambda>_. ?C)"
    proof (cases "bk_bytes made > MAX_IMPORT_BYTES \<or> bk_started_unix made = None")
      case True
      then show ?thesis by (auto intro: keeps_fail)
    next
      case False
      then obtain t where t: "bk_started_unix made = Some t" "\<not> bk_bytes made > MAX_IMPORT_BYTES" by auto
      have fetch: "keeps ?C (attempt (fetch_from (logged W) from i made)) (\<lambda>r l. r \<noteq> Panic \<and> ?C l) (\<lambda>_. ?C)"
        by (rule keeps_attempt_calm [OF keeps_fetch])
      have carry: "keeps ?C (\<lambda>w. Some (carried, w)) (\<lambda>_. ?C) (\<lambda>_. ?C)"
        if "carried \<noteq> Panic" for carried :: "(hosting_error, bytes) outcome"
        by (rule keepsI) (use that in \<open>cases carried; auto\<close>)
      show ?thesis
        unfolding t(1) using t(2)
        apply (simp only: if_False option.case)
        apply (rule keeps_bind [OF fetch])
        subgoal for carried
          by (cases "carried = Panic", simp add: keeps_def [of "\<lambda>l. False"])
            (rule keeps_weaken [where P = ?C, OF keeps_bind [OF del keeps_bind [OF carry
              keeps_bind [OF keeps_push [OF assms] keeps_bind [OF lay keeps_ret]]]]], simp_all)
        done
    qed
  qed
qed

lemma keeps_deltas:
  assumes "nc_name to \<noteq> nc_name from"
  shows "keeps (calm_with es (nc_name from) l0) (live_deltas (logged W) from to i j n since)
    (\<lambda>_. calm_with es (nc_name from) l0) (\<lambda>_. calm_with es (nc_name from) l0)"
proof (induction n arbitrary: since)
  case 0
  then show ?case by (simp add: keeps_ret)
next
  case (Suc n)
  have pass: "keeps (calm_with es (nc_name from) l0) (copy_pass (logged W) from to i j (Some since))
      (\<lambda>_. calm_with es (nc_name from) l0) (\<lambda>_. calm_with es (nc_name from) l0)"
    by (rule keeps_weaken [OF keeps_pass [OF assms]]) (auto elim: calm_with_mono)
  show ?case
    unfolding live_deltas.simps by (rule keeps_bind [OF pass]) (use Suc keeps_ret in \<open>auto split: prod.split\<close>)
qed

section \<open>What a move did\<close>

text \<open>
  Old server \<open>i\<close> on the node \<open>A\<close>, new server \<open>j\<close> on the node \<open>B\<close>. \<open>move_done\<close>: the files were restored while
  the old node was left alone; if the old server ran it was stopped, one more delta was merged, and the new
  one was started last; the old identity was asked for in between; and the old server was removed after
  all of that.
\<close>

definition stopped :: "str \<Rightarrow> str \<Rightarrow> bool \<Rightarrow> event list" where
  "stopped A i running = (if running then [(CStop, A, i, True)] else [])"

definition before_stop :: "str \<Rightarrow> str \<Rightarrow> str \<Rightarrow> event list \<Rightarrow> event list \<Rightarrow> bool" where
  "before_stop A B j l0 l \<longleftrightarrow> (\<exists>m. l = l0 @ m \<and> untouched A m \<and> (CRestore, B, j, True) \<in> set m)"

definition landed_log :: "str \<Rightarrow> str \<Rightarrow> str \<Rightarrow> str \<Rightarrow> bool \<Rightarrow> event list \<Rightarrow> bool" where
  "landed_log A B i j running m \<longleftrightarrow> untouched A m \<and> (CIdentity, A, i, True) \<in> set m
     \<and> (running \<longrightarrow> (CMerge, B, j, True) \<in> set m \<and> m \<noteq> [] \<and> last m = (CStart, B, j, True))"

definition move_done :: "str \<Rightarrow> str \<Rightarrow> str \<Rightarrow> str \<Rightarrow> bool \<Rightarrow> event list \<Rightarrow> event list \<Rightarrow> bool" where
  "move_done A B i j running l0 l \<longleftrightarrow>
     (\<exists>m m' x. l = l0 @ m @ stopped A i running @ m' @ [(CRemove, A, i, x)]
        \<and> untouched A m \<and> (CRestore, B, j, True) \<in> set m \<and> landed_log A B i j running m')"

text \<open>
  \<open>move_undone\<close>: the new server was removed again, and either the old node was left alone; or the old
  server could not be stopped; or it was, and was asked to start again after.
\<close>

definition move_undone :: "str \<Rightarrow> str \<Rightarrow> str \<Rightarrow> str \<Rightarrow> bool \<Rightarrow> event list \<Rightarrow> event list \<Rightarrow> bool" where
  "move_undone A B i j running l0 l \<longleftrightarrow>
     (\<exists>m x. l = l0 @ m @ [(CRemove, B, j, x)] \<and> untouched A m)
     \<or> (running \<and> (\<exists>m x. l = l0 @ m @ [(CStop, A, i, False), (CRemove, B, j, x)] \<and> untouched A m))
     \<or> (running \<and> (\<exists>m m' x y. l = l0 @ m @ [(CStop, A, i, True)] @ m' @ [(CRemove, B, j, x), (CStart, A, i, y)]
          \<and> untouched A m \<and> untouched A m'))"

lemma keeps_remove_new:
  "keeps P (remove_new (logged W) to j e) Q (\<lambda>_ l. \<exists>l' x. P l' \<and> l = l' @ [(CRemove, nc_name to, j, x)])"
proof -
  let ?R = "\<lambda>l. \<exists>l' x. P l' \<and> l = l' @ [(CRemove, nc_name to, j, x)]"
  have "keeps P (remove_on (logged W) to j) (\<lambda>_. ?R) (\<lambda>_. ?R)"
    unfolding remove_on_def logged_simps by (rule keeps_ask_noting) blast+
  from keeps_attempt [OF this, of "\<lambda>_. ?R"]
  have "keeps P (attempt (remove_on (logged W) to j)) (\<lambda>_. ?R) (\<lambda>_. ?R)"
    by (rule keeps_weaken) (auto elim!: answered.elims)
  then show ?thesis
    unfolding remove_new_def by (rule keeps_bind) (rule keeps_fail)
qed

lemma keeps_start:
  assumes "\<And>a l. P l \<Longrightarrow> Q a (l @ [(CStart, nc_name n, i, True)])" "\<And>e l. P l \<Longrightarrow> E e (l @ [(CStart, nc_name n, i, False)])"
  shows "keeps P (start_on (logged W) n i) Q E"
proof -
  have "keeps P (ask (wk_start (logged W) n i)) Q (\<lambda>_ l. \<exists>l'. P l' \<and> l = l' @ [(CStart, nc_name n, i, False)])"
    unfolding logged_simps by (rule keeps_ask_noting) (auto intro: assms)
  then show ?thesis
    unfolding start_on_def by (rule keeps_catch) (auto intro!: keeps_fail assms(2))
qed

lemma keeps_restart_old:
  "keeps P (restart_old (logged W) from i running e) Q
     (\<lambda>_ l. \<exists>l'. P l' \<and> (if running then \<exists>y. l = l' @ [(CStart, nc_name from, i, y)] else l = l'))"
proof (cases running)
  case True
  let ?R = "\<lambda>l. \<exists>l' y. P l' \<and> l = l' @ [(CStart, nc_name from, i, y)]"
  have "keeps P (start_on (logged W) from i) (\<lambda>_. ?R) (\<lambda>_. ?R)" by (rule keeps_start) blast+
  from keeps_attempt [OF this, of "\<lambda>_. ?R"]
  have "keeps P (attempt (start_on (logged W) from i)) (\<lambda>_. ?R) (\<lambda>_. ?R)"
    by (rule keeps_weaken) (auto elim!: answered.elims)
  moreover have "keeps ?R (case r of Err again \<Rightarrow> fail (NotRestarted e) | _ \<Rightarrow> fail e) Q (\<lambda>_. ?R)"
    for r :: "(hosting_error, unit) outcome"
    by (cases r) (simp_all add: keeps_fail)
  ultimately have "keeps P (restart_old (logged W) from i running e) Q (\<lambda>_. ?R)"
    by (simp only: restart_old_def True if_True) (rule keeps_bind)
  then show ?thesis using True by simp
next
  case False
  then show ?thesis by (auto simp: restart_old_def intro!: keeps_fail)
qed

lemma keeps_land:
  assumes "nc_name to \<noteq> nc_name from"
  shows "keeps (\<lambda>l. l = l1) (land (logged W) from to i j running since)
    (\<lambda>_ l. \<exists>m. l = l1 @ m \<and> landed_log (nc_name from) (nc_name to) i j running m)
    (\<lambda>_ l. \<exists>m. l = l1 @ m \<and> untouched (nc_name from) m)"
proof -
  let ?A = "nc_name from" and ?B = "nc_name to"
  let ?es = "if running then {(CMerge, ?B, j, True)} else {}"
  let ?C = "calm_with ?es ?A l1" and ?E = "\<lambda>_ :: hosting_error. calm ?A l1"
  let ?D = "calm_with (insert (CIdentity, ?A, i, True) ?es) ?A l1"
  have merge: "keeps (\<lambda>l. l = l1) (if running
       then bind_act (catch (copy_pass (logged W) from to i j (Some since)) (\<lambda>e. fail (old_agent from e))) (\<lambda>_. ret ())
       else ret ()) (\<lambda>_. ?C) ?E"
  proof (cases running)
    case True
    have "keeps (\<lambda>l. l = l1) (copy_pass (logged W) from to i j (Some since)) (\<lambda>_. ?C) ?E"
      by (rule keeps_weaken [OF keeps_pass [OF assms, of "{}" l1]])
        (auto simp: True calm_calm_with calm_with_def)
    then have "keeps (\<lambda>l. l = l1) (catch (copy_pass (logged W) from to i j (Some since)) (\<lambda>e. fail (old_agent from e))) (\<lambda>_. ?C) ?E"
      by (rule keeps_catch) (rule keeps_fail)
    then have "keeps (\<lambda>l. l = l1) (bind_act (catch (copy_pass (logged W) from to i j (Some since)) (\<lambda>e. fail (old_agent from e))) (\<lambda>_. ret ())) (\<lambda>_. ?C) ?E"
      by (rule keeps_bind) (rule keeps_ret)
    with True show ?thesis by simp
  next
    case False
    then show ?thesis by (auto simp: calm_with_def intro!: keeps_ret)
  qed
  have idn: "keeps ?C (catch (ask (wk_identity (logged W) from i)) (\<lambda>e. fail (old_agent from e))) (\<lambda>_. ?D) ?E"
  proof (rule keeps_catch)
    show "keeps ?C (ask (wk_identity (logged W) from i)) (\<lambda>_. ?D) ?E"
      unfolding logged_simps
      by (rule keeps_weaken [OF keeps_calm [of ?A ?A CIdentity ?es l1]]) (auto simp: changes_def calm_with_calm)
  qed (rule keeps_fail)
  have setid: "keeps ?D (case x of None \<Rightarrow> ret () | Some key \<Rightarrow>
      catch (ask (wk_set_identity (logged W) to j key)) (\<lambda>e. fail (old_agent to e))) (\<lambda>_. ?D) ?E" for x
  proof (cases x)
    case (Some key)
    have "keeps ?D (ask (wk_set_identity (logged W) to j key)) (\<lambda>_. ?D) ?E"
      unfolding logged_simps
      by (rule keeps_weaken [OF keeps_calm_same]) (use assms calm_with_calm in auto)
    then show ?thesis unfolding Some option.case by (rule keeps_catch) (rule keeps_fail)
  qed (simp add: keeps_ret)
  have fin: "keeps ?D (if running then start_on (logged W) to j else ret ())
     (\<lambda>_ l. \<exists>m. l = l1 @ m \<and> landed_log ?A ?B i j running m) ?E"
  proof (cases running)
    case True
    have "keeps ?D (start_on (logged W) to j) (\<lambda>_ l. \<exists>m. l = l1 @ m \<and> landed_log ?A ?B i j running m) ?E"
    proof (rule keeps_start)
      fix l assume D: "?D l"
      then obtain m where m: "l = l1 @ m" "untouched ?A m" "(CIdentity, ?A, i, True) \<in> set m" "(CMerge, ?B, j, True) \<in> set m"
        by (auto simp: calm_with_def True)
      show "\<exists>m. l @ [(CStart, ?B, j, True)] = l1 @ m \<and> landed_log ?A ?B i j running m"
        by (rule exI [of _ "m @ [(CStart, ?B, j, True)]"]) (use m assms in \<open>auto simp: landed_log_def\<close>)
    next
      fix l assume D: "?D l"
      show "calm ?A l1 (l @ [(CStart, ?B, j, False)])"
        by (rule calm_with_calm, rule calm_with_step [OF D]) (use assms in auto)
    qed
    then show ?thesis by (simp only: True if_True)
  next
    case False
    then show ?thesis by (auto simp: calm_with_def landed_log_def intro!: keeps_ret)
  qed
  have "keeps (\<lambda>l. l = l1) (land (logged W) from to i j running since)
      (\<lambda>_ l. \<exists>m. l = l1 @ m \<and> landed_log ?A ?B i j running m) ?E"
    unfolding land_def by (rule keeps_bind [OF merge keeps_bind [OF idn keeps_bind [OF setid fin]]])
  then show ?thesis by (rule keeps_weaken) (auto simp: calm_def)
qed

lemma move_doneI:
  "untouched A m \<Longrightarrow> (CRestore, B, j, True) \<in> set m \<Longrightarrow> landed_log A B i j running m' \<Longrightarrow>
     move_done A B i j running l0 (l0 @ m @ stopped A i running @ m' @ [(CRemove, A, i, x)])"
  unfolding move_done_def by blast

lemma undone_calm:
  "\<exists>l' x. calm A l0 l' \<and> l = l' @ [(CRemove, B, j, x)] \<Longrightarrow> move_undone A B i j running l0 l"
  by (fastforce simp: move_undone_def calm_def)

lemma keeps_move_files:
  assumes "nc_name to \<noteq> nc_name from"
  shows "keeps (\<lambda>l. l = l0) (move_files (logged W) from to i j running)
    (\<lambda>_. move_done (nc_name from) (nc_name to) i j running l0)
    (\<lambda>_. move_undone (nc_name from) (nc_name to) i j running l0)"
proof -
  let ?A = "nc_name from" and ?B = "nc_name to"
  let ?U = "\<lambda>_ :: hosting_error. move_undone ?A ?B i j running l0"
  let ?S = "calm_with {(CRestore, ?B, j, True)} ?A l0"
  let ?R = "\<lambda>l. \<exists>m. l = l0 @ m @ stopped ?A i running \<and> untouched ?A m \<and> (CRestore, ?B, j, True) \<in> set m"
  have undo: "keeps (calm ?A l0) (remove_new (logged W) to j e) Q ?U" for e and Q :: "'x \<Rightarrow> event list \<Rightarrow> bool"
    by (rule keeps_weaken [OF keeps_remove_new [of "calm ?A l0"]]) (auto intro: undone_calm)
  have stop_new: "keeps (\<lambda>l. l = l0) (catch (stop_on (logged W) to j) (remove_new (logged W) to j)) (\<lambda>_. calm_with {} ?A l0) ?U"
  proof (rule keeps_catch [OF _ undo])
    show "keeps (\<lambda>l. l = l0) (stop_on (logged W) to j) (\<lambda>_. calm_with {} ?A l0) (\<lambda>_. calm ?A l0)"
      unfolding stop_on_def logged_simps
      by (rule keeps_weaken [OF keeps_calm_same [of ?B ?A CStop "{}" l0]]) (use assms in \<open>auto simp: calm_with_def calm_def\<close>)
  qed
  have copy: "keeps (calm_with {} ?A l0) (catch (copy_pass (logged W) from to i j None)
      (\<lambda>e. remove_new (logged W) to j (old_agent from e))) (\<lambda>_. ?S) ?U"
  proof (rule keeps_catch [OF _ undo])
    show "keeps (calm_with {} ?A l0) (copy_pass (logged W) from to i j None) (\<lambda>_. ?S) (\<lambda>_. calm ?A l0)"
      by (rule keeps_weaken [OF keeps_pass [OF assms, of "{}" l0]]) (auto simp: calm_calm_with)
  qed
  have deltas: "keeps ?S (if running
       then catch (live_deltas (logged W) from to i j MAX_LIVE_DELTAS since) (\<lambda>e. remove_new (logged W) to j (old_agent from e))
       else ret since) (\<lambda>_. ?S) ?U" for since
  proof (cases running)
    case True
    have "keeps ?S (catch (live_deltas (logged W) from to i j MAX_LIVE_DELTAS since)
        (\<lambda>e. remove_new (logged W) to j (old_agent from e))) (\<lambda>_. ?S) ?U"
    proof (rule keeps_catch [OF _ undo])
      show "keeps ?S (live_deltas (logged W) from to i j MAX_LIVE_DELTAS since) (\<lambda>_. ?S) (\<lambda>_. calm ?A l0)"
        by (rule keeps_weaken [OF keeps_deltas [OF assms]]) (auto intro: calm_with_calm)
    qed
    then show ?thesis by (simp only: True if_True)
  qed (simp add: keeps_ret)
  have stop_old: "keeps ?S (if running then catch (stop_on (logged W) from i) (remove_new (logged W) to j) else ret ()) (\<lambda>_. ?R) ?U"
  proof (cases running)
    case True
    let ?F = "\<lambda>l. \<exists>m. l = l0 @ m @ [(CStop, ?A, i, False)] \<and> untouched ?A m"
    have "keeps ?S (stop_on (logged W) from i) (\<lambda>_. ?R) (\<lambda>_. ?F)"
      unfolding stop_on_def logged_simps
      by (rule keeps_ask_noting) (auto simp: calm_with_def stopped_def True)
    moreover have "keeps ?F (remove_new (logged W) to j e) Q ?U" for e and Q :: "unit \<Rightarrow> event list \<Rightarrow> bool"
      by (rule keeps_weaken [OF keeps_remove_new [of ?F]]) (auto simp: move_undone_def True)
    ultimately have "keeps ?S (catch (stop_on (logged W) from i) (remove_new (logged W) to j)) (\<lambda>_. ?R) ?U"
      by (rule keeps_catch)
    then show ?thesis by (simp only: True if_True)
  next
    case False
    then show ?thesis by (auto simp: calm_with_def stopped_def intro!: keeps_ret)
  qed
  have land: "keeps ?R (attempt (land (logged W) from to i j running since))
      (answered (\<lambda>_ l. \<exists>l1 m. ?R l1 \<and> l = l1 @ m \<and> landed_log ?A ?B i j running m)
        (\<lambda>_ l. \<exists>l1 m. ?R l1 \<and> l = l1 @ m \<and> untouched ?A m)) ?U" for since
    by (rule keeps_attempt, rule keeps_exact, rule keeps_weaken [OF keeps_land [OF assms]]) blast+
  have finish: "keeps (answered (\<lambda>_ l. \<exists>l1 m. ?R l1 \<and> l = l1 @ m \<and> landed_log ?A ?B i j running m)
        (\<lambda>_ l. \<exists>l1 m. ?R l1 \<and> l = l1 @ m \<and> untouched ?A m) landed)
      (case landed of
         Err e \<Rightarrow> catch (remove_new (logged W) to j e) (restart_old (logged W) from i running)
       | _ \<Rightarrow> bind_act (attempt (remove_on (logged W) from i)) (\<lambda>_. ret ()))
      (\<lambda>_. move_done ?A ?B i j running l0) ?U" for landed :: "(hosting_error, unit) outcome"
  proof (cases landed)
    case (Ok x)
    let ?L = "\<lambda>l. \<exists>l1 m. ?R l1 \<and> l = l1 @ m \<and> landed_log ?A ?B i j running m"
    let ?D = "move_done ?A ?B i j running l0"
    have "keeps ?L (remove_on (logged W) from i) (\<lambda>_. ?D) (\<lambda>_. ?D)"
      unfolding remove_on_def logged_simps by (rule keeps_ask_noting) (auto intro: move_doneI)
    from keeps_attempt [OF this, of ?U]
    have "keeps ?L (attempt (remove_on (logged W) from i)) (\<lambda>_. ?D) ?U"
      by (rule keeps_weaken) (auto elim!: answered.elims)
    then have "keeps ?L (bind_act (attempt (remove_on (logged W) from i)) (\<lambda>_. ret ())) (\<lambda>_. ?D) ?U"
      by (rule keeps_bind) (rule keeps_ret)
    then show ?thesis by (simp only: Ok answered_eta outcome.case)
  next
    case (Err e)
    let ?L = "\<lambda>l. \<exists>l1 m. ?R l1 \<and> l = l1 @ m \<and> untouched ?A m"
    have "keeps ?L (catch (remove_new (logged W) to j e) (restart_old (logged W) from i running))
        (\<lambda>_. move_done ?A ?B i j running l0) ?U"
      by (rule keeps_catch [OF keeps_remove_new [of ?L]],
          rule keeps_weaken [OF keeps_restart_old [of "\<lambda>l. \<exists>l' x. ?L l' \<and> l = l' @ [(CRemove, ?B, j, x)]"]])
        (auto simp: move_undone_def stopped_def split: if_splits)
    then show ?thesis by (simp only: Err answered_eta outcome.case)
  qed (simp add: keeps_def)
  show ?thesis
    unfolding move_files_def
    by (rule keeps_bind [OF stop_new], rule keeps_bind [OF copy], unfold split_def,
        rule keeps_bind [OF deltas], rule keeps_bind [OF stop_old], rule keeps_bind [OF land], rule finish)
qed

section \<open>Choosing a node changes no log\<close>

lemma move_loop_logged: "snd (snd (move_loop (logged W) existing target nodes best s)) = snd s"
proof (induction nodes arbitrary: best s)
  case (Cons n nodes)
  obtain w l where s: "s = (w, l)" by (cases s)
  from Cons show ?case by (simp add: s node_capacity_logged split_def Let_def split: option.split)
qed simp

lemma choose_target_logged: "snd (snd (choose_target (logged W) c existing from target s)) = snd s"
  by (simp add: choose_target_def move_loop_logged split_def Let_def split: outcome.split)

lemma move_loop_not_Panic: "fst (move_loop W existing target nodes best w) \<noteq> Panic"
  by (induction nodes arbitrary: best w) (simp_all add: split_def Let_def split: option.split)

lemma choose_target_not_Panic: "fst (choose_target W c existing from target w) \<noteq> Panic"
proof -
  have "move_candidates c from target \<noteq> Panic"
    by (simp add: move_candidates_def Let_def split: move_target.split option.split)
  then show ?thesis
    using move_loop_not_Panic [of W existing target _ None w]
    by (auto simp: choose_target_def split_def Let_def outcome_simps split: outcome.splits option.splits)
qed

lemma choose_target_elsewhere:
  assumes "fst (choose_target W c existing from target w) = Ok n"
  shows "nc_name n \<noteq> nc_name from"
proof -
  obtain w' where "choose_target W c existing from target w = (Ok n, w')" using assms by (metis prod.collapse)
  from choose_target_Ok [OF this] obtain ns x where
    ns: "move_candidates c from target = Ok ns" "(n, Some x) \<in> set (capacities W ns w)" by blast
  from move_candidates_Ok [OF ns(1) capacities_node [OF ns(2)]] show ?thesis by simp
qed

section \<open>The outcome of a move\<close>

definition move_outcome :: "node_config \<Rightarrow> str \<Rightarrow> bool \<Rightarrow> (hosting_error, hosted_instance) outcome \<Rightarrow> event list \<Rightarrow> bool" where
  "move_outcome from i running r l \<longleftrightarrow>
     (case r of
        Panic \<Rightarrow> False
      | Ok h \<Rightarrow> hi_node h \<noteq> nc_name from
          \<and> move_done (nc_name from) (hi_node h) i (hi_instance_id h) running [(CCreate, hi_node h, hi_instance_id h, True)] l
      | Err e \<Rightarrow> l = [] \<or> (\<exists>B j. B \<noteq> nc_name from \<and> (l = [(CCreate, B, j, False)]
          \<or> move_undone (nc_name from) B i j running [(CCreate, B, j, True)] l)))"

lemma keeps_create_and_move:
  assumes "nc_name to \<noteq> nc_name from" "sp_instance_id spec = j"
    "\<And>made. hi_node (h made) = nc_name to \<and> hi_instance_id (h made) = j"
  shows "keeps (\<lambda>l. l = []) (bind_act (ask (wk_create (logged W) to spec account)) (\<lambda>made.
      bind_act (move_files (logged W) from to i j running) (\<lambda>_. ret (h made))))
    (\<lambda>a. move_outcome from i running (Ok a)) (\<lambda>e. move_outcome from i running (Err e))"
proof (rule keeps_bind)
  show "keeps (\<lambda>l. l = []) (ask (wk_create (logged W) to spec account)) (\<lambda>_ l. l = [(CCreate, nc_name to, j, True)])
      (\<lambda>e. move_outcome from i running (Err e))"
    unfolding logged_simps by (rule keeps_ask_noting) (use assms in \<open>auto simp: move_outcome_def\<close>)
  show "keeps (\<lambda>l. l = [(CCreate, nc_name to, j, True)])
      (bind_act (move_files (logged W) from to i j running) (\<lambda>_. ret (h made)))
      (\<lambda>a. move_outcome from i running (Ok a)) (\<lambda>e. move_outcome from i running (Err e))" for made
  proof (rule keeps_bind)
    show "keeps (\<lambda>l. l = [(CCreate, nc_name to, j, True)]) (move_files (logged W) from to i j running)
        (\<lambda>_. move_done (nc_name from) (nc_name to) i j running [(CCreate, nc_name to, j, True)])
        (\<lambda>e. move_outcome from i running (Err e))"
      by (rule keeps_weaken [OF keeps_move_files [OF assms(1)]]) (use assms(1) in \<open>auto simp: move_outcome_def\<close>)
  qed (rule keeps_ret, use assms in \<open>simp add: move_outcome_def\<close>)
qed

lemma keeps_relocate:
  assumes "fst (owned W c account i w) = Ok (found, from)"
    "relocate_to (logged W) c account i target moving entropy (w, []) = Some (r, s')"
  shows "move_outcome from i (hi_state found = ascii ''running'') r (snd s') \<and> (i \<in> moving \<longrightarrow> snd s' = [])"
proof -
  let ?running = "hi_state found = ascii ''running''"
  let ?E = "\<lambda>e l. move_outcome from i ?running (Err e) l \<and> (i \<in> moving \<longrightarrow> l = [])"
  let ?Q = "\<lambda>a l. move_outcome from i ?running (Ok a) l \<and> i \<notin> moving"
  define rest where "rest = (\<lambda>(found :: hosted_instance, from). if i \<in> moving then fail AlreadyMoving
     else bind_act (here (\<lambda>w. let (all, w) = all_instances (logged W) c w in (Ok all, w))) (\<lambda>existing.
     bind_act (here (choose_target (logged W) c existing from target)) (\<lambda>to.
     bind_act (catch (ask (wk_spec (logged W) from i)) (\<lambda>e. fail (old_agent from e))) (\<lambda>spec.
     let was_running = (hi_state found = ascii ''running'') in
     bind_act (here (\<lambda>w. (new_instance_id (sp_game_id spec) entropy, w))) (\<lambda>new_id.
     let spec = spec\<lparr>sp_instance_id := new_id, sp_port := None, sp_extra_ports := []\<rparr> in
     bind_act (ask (wk_create (logged W) to spec account)) (\<lambda>made.
     bind_act (move_files (logged W) from to i new_id was_running) (\<lambda>_.
     ret \<lparr>hi_instance_id = new_id, hi_node = nc_name to, hi_game_id = sp_game_id spec, hi_name = sp_name spec,
       hi_state = (if was_running then ascii ''running'' else ascii ''stopped''),
       hi_port = cr_port made, hi_ports = cr_ports made, hi_stopped_secs = None, hi_delete_in_secs = None,
       hi_owner = Some account, hi_uptime_secs = Some 0, hi_players_now = None, hi_map_now = None,
       hi_mesh_destination = None, hi_region = None\<rparr>)))))))"
  have run: "rest (found, from) (snd (owned W c account i w), []) = Some (r, s')"
    using assms(2) unfolding relocate_to_def rest_def [symmetric]
    by (simp add: bind_act_def here_def owned_logged assms(1))
  have "keeps (\<lambda>l. l = []) (rest (found, from)) ?Q ?E"
  proof (cases "i \<in> moving")
    case True
    then show ?thesis by (auto simp: rest_def move_outcome_def intro!: keeps_fail)
  next
    case False
    have all_listed: "keeps (\<lambda>l. l = []) (here (\<lambda>s. case all_instances (logged W) c s of (all, s) \<Rightarrow> (Ok all, s))) (\<lambda>_ l. l = []) ?E"
    proof (rule keeps_here)
      show "snd (snd (case all_instances (logged W) c s of (all, s) \<Rightarrow> (Ok all, s))) = snd s" for s
        by (cases s) (simp add: all_instances_logged)
    qed (simp add: split_def Let_def)
    have choose: "keeps (\<lambda>l. l = []) (here (choose_target (logged W) c existing from target))
        (\<lambda>to l. l = [] \<and> nc_name to \<noteq> nc_name from) ?E" for existing
    proof (rule keeps_here)
      fix s :: "'a \<times> event list" assume "snd s = []"
      then show "answered (\<lambda>to l. l = [] \<and> nc_name to \<noteq> nc_name from) ?E
          (fst (choose_target (logged W) c existing from target s)) (snd s)"
        using choose_target_not_Panic [of "logged W" c existing "from" target s]
          choose_target_elsewhere [of "logged W" c existing "from" target s]
        by (cases "fst (choose_target (logged W) c existing from target s)") (simp_all add: move_outcome_def)
    qed (rule choose_target_logged)
    have spec_read: "keeps (\<lambda>l. l = [] \<and> nc_name to \<noteq> nc_name from) (catch (ask (wk_spec (logged W) from i)) (\<lambda>e. fail (old_agent from e)))
        (\<lambda>_ l. l = [] \<and> nc_name to \<noteq> nc_name from) ?E" for to
    proof (rule keeps_catch)
      show "keeps (\<lambda>l. l = [] \<and> nc_name to \<noteq> nc_name from) (ask (wk_spec (logged W) from i))
          (\<lambda>_ l. l = [] \<and> nc_name to \<noteq> nc_name from) (\<lambda>_ l. l = [])"
        unfolding logged_simps by (rule keeps_ask_quiet) simp_all
    qed (rule keeps_fail, simp add: move_outcome_def)
    have fresh: "keeps (\<lambda>l. l = [] \<and> nc_name to \<noteq> nc_name from) (here (\<lambda>s. (new_instance_id game entropy, s)))
        (\<lambda>_ l. l = [] \<and> nc_name to \<noteq> nc_name from) ?E" for to game
      by (rule keeps_here) (auto simp: move_outcome_def new_instance_id_def Let_def split: option.split)
    have create: "keeps (\<lambda>l. l = [] \<and> nc_name to \<noteq> nc_name from)
        (bind_act (ask (wk_create (logged W) to (sp\<lparr>sp_instance_id := j, sp_port := None, sp_extra_ports := []\<rparr>) account))
          (\<lambda>made. bind_act (move_files (logged W) from to i j ?running) (\<lambda>_.
             ret \<lparr>hi_instance_id = j, hi_node = nc_name to, hi_game_id = g, hi_name = n, hi_state = st,
               hi_port = cr_port made, hi_ports = cr_ports made, hi_stopped_secs = None, hi_delete_in_secs = None,
               hi_owner = Some account, hi_uptime_secs = Some 0, hi_players_now = None, hi_map_now = None,
               hi_mesh_destination = None, hi_region = None\<rparr>))) ?Q ?E" for to sp j g n st
    proof (cases "nc_name to = nc_name from")
      case False
      then show ?thesis
        by (intro keeps_weaken [OF keeps_create_and_move [OF False]]) (use \<open>i \<notin> moving\<close> in auto)
    qed (simp add: keeps_def)
    show ?thesis
      unfolding rest_def split_conv Let_def if_not_P [OF False]
      by (rule keeps_bind [OF all_listed], rule keeps_bind [OF choose], rule keeps_bind [OF spec_read],
          rule keeps_bind [OF fresh], rule create)
  qed
  from keepsD [OF this _ run] have "answered ?Q ?E r (snd s')" by simp
  then show ?thesis by (cases r) (auto simp: move_outcome_def)
qed

section \<open>When a move returns\<close>

definition ends :: "('w, 'a) act \<Rightarrow> bool" where
  "ends m \<longleftrightarrow> (\<forall>s. m s \<noteq> None)"

lemma ends_simple [intro, simp]: "ends (ret a)" "ends (fail e)" "ends (ask f)" "ends (here g)" "ends (\<lambda>w. Some (r, w))"
  by (simp_all add: ends_def ret_def fail_def ask_def here_def)

lemma ends_bind [intro]: "ends m \<Longrightarrow> (\<And>a. ends (f a)) \<Longrightarrow> ends (bind_act m f)"
  unfolding ends_def bind_act_def by (auto split: option.splits outcome.splits)

lemma ends_catch [intro]: "ends m \<Longrightarrow> (\<And>e. ends (h e)) \<Longrightarrow> ends (catch m h)"
  unfolding ends_def catch_def by (auto split: option.splits outcome.splits)

lemma ends_attempt [intro]: "ends m \<Longrightarrow> ends (attempt m)"
  unfolding ends_def attempt_def by (auto split: option.splits outcome.splits)

lemma ends_push: "ends (push_backup W n i content)"
proof -
  have "push_loop W n i len rest u k s \<noteq> None" for len rest u k s
    by (induction W n i len rest u k s rule: push_loop.induct)
      (subst push_loop.simps, auto simp: ask_def split: outcome.splits option.splits)
  then show ?thesis by (simp add: ends_def push_backup_def)
qed

text \<open>A node that never states a length beyond some bound for any backup of a server: each backup has its own.\<close>

definition lengths_bounded :: "'w workers \<Rightarrow> node_config \<Rightarrow> str \<Rightarrow> bool" where
  "lengths_bounded W n i \<longleftrightarrow> (\<forall>name. \<exists>most. honest_length W n i name most)"

lemma ends_fetch: "lengths_bounded W n i \<Longrightarrow> ends (fetch_from W n i b)"
  unfolding lengths_bounded_def ends_def fetch_from_def using fetch_ends by metis

lemma ends_pass:
  assumes "lengths_bounded W from i"
  shows "ends (copy_pass W from to i j since)"
  unfolding copy_pass_def
  by (auto intro!: ends_bind ends_attempt ends_push ends_fetch [OF assms] split: option.split)

lemma ends_deltas:
  assumes "lengths_bounded W from i"
  shows "ends (live_deltas W from to i j n since)"
  by (induction n arbitrary: since) (auto intro!: ends_bind ends_pass [OF assms])

lemma ends_calls:
  "ends (remove_new W n j e)" "ends (restart_old W n i running e)" "ends (stop_on W n x)" "ends (remove_on W n x)"
  "ends (start_on W n x)"
  unfolding remove_new_def restart_old_def stop_on_def remove_on_def start_on_def
  by (auto intro!: ends_bind ends_catch ends_attempt split: outcome.split)

lemma ends_land:
  assumes "lengths_bounded W from i"
  shows "ends (land W from to i j running since)"
  unfolding land_def
  by (auto intro!: ends_bind ends_catch ends_calls ends_pass [OF assms] split: option.split)

lemma ends_move_files:
  assumes "lengths_bounded W from i"
  shows "ends (move_files W from to i j running)"
  unfolding move_files_def
  by (auto intro!: ends_bind ends_catch ends_attempt ends_calls ends_pass [OF assms] ends_deltas [OF assms]
      ends_land [OF assms] split: outcome.split)

lemma endsD: "ends m \<Longrightarrow> m s \<noteq> None"
  by (simp add: ends_def)

lemma bind_here_ok: "g w = (Ok a, w1) \<Longrightarrow> bind_act (here g) f w = f a w1"
  by (simp add: bind_act_def here_def)

lemma move_ends:
  assumes "\<And>found from. fst (owned W c account i w) = Ok (found, from) \<Longrightarrow> lengths_bounded W from i"
  shows "relocate_to W c account i target moving entropy w \<noteq> None"
proof (cases "fst (owned W c account i w)")
  case (Ok p)
  obtain found "from" where p: "p = (found, from)" by (cases p)
  obtain w1 where own: "owned W c account i w = (Ok (found, from), w1)" using Ok p by (cases "owned W c account i w") simp
  have files: "ends (move_files W from to i j running)" for to j running by (rule ends_move_files [OF assms [OF Ok [unfolded p]]])
  show ?thesis
    unfolding relocate_to_def Let_def bind_here_ok [where g = "owned W c account i", OF own] prod.case
    by (rule endsD) (auto intro!: ends_bind ends_catch files)
qed (auto simp: relocate_to_def bind_act_def here_def split: prod.split)

section \<open>What a move promises\<close>

text \<open>C3. A move leaves one server. It is refused, and no node is asked to change anything, for anyone but
  the owner, for a server already being moved, and when no node can take it. Otherwise the new server is
  made, on another node, and whatever then fails, and wherever: either the move is done (the files were
  copied while the old server ran, it was stopped, what had changed since was merged, its identity was
  asked for, the new server was started, and only then the old one removed), or it is undone (the new
  server is removed, and the old one either was never touched, or could not be stopped, or was stopped and
  then asked to start again). The old server is never removed by a move that fails.\<close>

theorem a_move_leaves_one_server:
  assumes "relocate_to (logged W) c account i target moving entropy (w, []) = Some (r, w', l)"
  shows "case fst (owned W c account i w) of
      Err e \<Rightarrow> r = Err e \<and> l = []
    | Ok (found, from) \<Rightarrow> is_owner account found \<and> move_outcome from i (hi_state found = ascii ''running'') r l
        \<and> (i \<in> moving \<longrightarrow> l = [])
    | Panic \<Rightarrow> False"
proof (cases "fst (owned W c account i w)")
  case (Ok p)
  obtain found "from" where p: "p = (found, from)" by (cases p)
  have "is_owner account found"
    using find_for_Ok(1) [of W c account i is_owner w found "from"] Ok p unfolding owned_def by (metis prod.collapse)
  with keeps_relocate [OF Ok [unfolded p] assms] show ?thesis by (simp add: Ok p)
next
  case (Err e)
  then show ?thesis
    using assms by (simp add: relocate_to_def bind_act_def here_def owned_logged)
qed (simp add: owned_not_Panic)

text \<open>C32. A move returns whenever the node the server is on has, for each backup of that server, some length beyond
  which it never states the backup to be, whatever else it and every other node answers: a move makes at most
  five copies. Nothing in the index sees to such a bound, though: fetching from a node that answers every piece
  with one byte and a length one more than it has sent never ends.\<close>

theorem a_move_returns_if_nodes_let_it:
  "((\<forall>found from. fst (owned W c account j w) = Ok (found, from) \<longrightarrow> (\<forall>name. \<exists>most. honest_length W from j name most))
      \<longrightarrow> relocate_to W c account j target moving entropy w \<noteq> None)
    \<and> fetch_from growing_workers n' i' b () = None"
  using move_ends [of W c account j w target moving entropy]
  by (simp add: fetch_from_def growing_never_ends lengths_bounded_def)

definition sample_row :: instance_row where
  "sample_row = \<lparr>rw_instance_id = [9], rw_game_id = [], rw_name = [], rw_state = ascii ''running'', rw_port = None,
     rw_ports = [], rw_owner = Some [97], rw_uptime_secs = None, rw_stopped_secs = None, rw_players_now = None,
     rw_map_now = None, rw_mesh_destination = None\<rparr>"

definition sample_spec :: instance_spec where
  "sample_spec = \<lparr>sp_instance_id = [9], sp_game_id = [], sp_name = [], sp_max_players = 8, sp_port = None,
     sp_extra_ports = [], sp_map = None, sp_bots = None, sp_restart_on_crash = False, sp_owner = None,
     sp_options = \<lparr>io_eula_accepted_at = None, io_rest = []\<rparr>\<rparr>"

definition sample_made :: backup where
  "sample_made = \<lparr>bk_name = [], bk_bytes = 1, bk_created_unix = None, bk_started_unix = Some 7\<rparr>"

definition sample_movers :: "unit workers" where
  "sample_movers = silent_workers
     \<lparr>wk_list := \<lambda>n w. (Inr (if nc_name n = [1] then [sample_row] else []), w),
      wk_capacity := \<lambda>n w. (Inr (sample_capacity 0 5), w),
      wk_spec := \<lambda>n i w. (Inr sample_spec, w),
      wk_create := \<lambda>n s a w. (Inr \<lparr>cr_state = [], cr_port = None, cr_ports = []\<rparr>, w),
      wk_stop := \<lambda>n i w. (Inr (), w), wk_start := \<lambda>n i w. (Inr (), w), wk_remove := \<lambda>n i w. (Inr (), w),
      wk_make := \<lambda>n i t w. (Inr sample_made, w), wk_read := \<lambda>n i b k w. (Inr (1, [5]), w),
      wk_write := \<lambda>n i u k len bs w. (Inr \<lparr>pg_received = 1, pg_upload = [], pg_backup = Some sample_made\<rparr>, w),
      wk_backup_delete := \<lambda>n i b w. (Inr (), w), wk_restore := \<lambda>n i b w. (Inr (), w),
      wk_merge := \<lambda>n i b w. (Inr (), w), wk_identity := \<lambda>n i w. (Inr None, w)\<rparr>"

lemmas act_simps = bind_act_def attempt_def catch_def ask_def here_def ret_def fail_def

lemma movers:
  "wk_spec (logged sample_movers) n i (w, l) = (Inr sample_spec, w, l)"
  "wk_create (logged sample_movers) n sp a (w, l) = (Inr \<lparr>cr_state = [], cr_port = None, cr_ports = []\<rparr>, w,
     l @ [(CCreate, nc_name n, sp_instance_id sp, True)])"
  "wk_stop (logged sample_movers) n i (w, l) = (Inr (), w, l @ [(CStop, nc_name n, i, True)])"
  "wk_start (logged sample_movers) n i (w, l) = (Inr (), w, l @ [(CStart, nc_name n, i, True)])"
  "wk_remove (logged sample_movers) n i (w, l) = (Inr (), w, l @ [(CRemove, nc_name n, i, True)])"
  "wk_make (logged sample_movers) n i t (w, l) = (Inr sample_made, w, l @ [(CMake, nc_name n, i, True)])"
  "wk_read (logged sample_movers) n i b k (w, l) = (Inr (1, [5]), w, l @ [(CRead, nc_name n, i, True)])"
  "wk_write (logged sample_movers) n i u k len bs (w, l) =
     (Inr \<lparr>pg_received = 1, pg_upload = [], pg_backup = Some sample_made\<rparr>, w, l @ [(CWrite, nc_name n, i, True)])"
  "wk_backup_delete (logged sample_movers) n i b (w, l) = (Inr (), w, l @ [(CDelete, nc_name n, i, True)])"
  "wk_restore (logged sample_movers) n i b (w, l) = (Inr (), w, l @ [(CRestore, nc_name n, i, True)])"
  "wk_merge (logged sample_movers) n i b (w, l) = (Inr (), w, l @ [(CMerge, nc_name n, i, True)])"
  "wk_identity (logged sample_movers) n i (w, l) = (Inr None, w, l @ [(CIdentity, nc_name n, i, True)])"
  by (simp_all add: logged_simps noting_def quiet_def sample_movers_def silent_workers_def)

lemma sample_fetch: "fetch_from (logged sample_movers) n i b (w, l) = Some (Ok [5], w, l @ [(CRead, nc_name n, i, True)])"
  unfolding fetch_from_def by (subst fetch_loop.simps) (simp add: movers ask_def)

lemma sample_push: "push_backup (logged sample_movers) n i c (w, l) = Some (Ok sample_made, w, l @ [(CWrite, nc_name n, i, True)])"
  unfolding push_backup_def by (subst push_loop.simps) (simp add: movers ask_def)

lemma sample_made_simps: "bk_bytes sample_made = 1" "bk_started_unix sample_made = Some 7" "bk_name sample_made = []"
  by (simp_all add: sample_made_def)

lemma sample_pass: "\<exists>m. copy_pass (logged sample_movers) n n' i j since (w, l) = Some (Ok (7, 1), w, l @ m)"
  by (cases since) (simp_all add: copy_pass_def act_simps sample_fetch sample_push movers sample_made_simps
      MAX_IMPORT_BYTES_def)

lemma sample_move_files:
  "\<exists>l'. move_files (logged sample_movers) n n' i j True (w, l) = Some (Ok (), w, l')"
proof -
  obtain m1 where 1: "copy_pass (logged sample_movers) n n' i j None (w, l @ [(CStop, nc_name n', j, True)])
      = Some (Ok (7, 1), w, l @ [(CStop, nc_name n', j, True)] @ m1)"
    using sample_pass [of n n' i j None w "l @ [(CStop, nc_name n', j, True)]"] by auto
  obtain m2 where 2: "copy_pass (logged sample_movers) n n' i j (Some 7) (w, l @ [(CStop, nc_name n', j, True)] @ m1)
      = Some (Ok (7, 1), w, l @ [(CStop, nc_name n', j, True)] @ m1 @ m2)"
    using sample_pass [of n n' i j "Some 7" w "l @ [(CStop, nc_name n', j, True)] @ m1"] by auto
  obtain m3 where 3: "copy_pass (logged sample_movers) n n' i j (Some 7)
      (w, l @ [(CStop, nc_name n', j, True)] @ m1 @ m2 @ [(CStop, nc_name n, i, True)])
      = Some (Ok (7, 1), w, l @ [(CStop, nc_name n', j, True)] @ m1 @ m2 @ [(CStop, nc_name n, i, True)] @ m3)"
    using sample_pass [of n n' i j "Some 7" w "l @ [(CStop, nc_name n', j, True)] @ m1 @ m2 @ [(CStop, nc_name n, i, True)]"] by auto
  show ?thesis
    using 1 2 3 by (simp add: move_files_def stop_on_def remove_on_def start_on_def land_def MAX_LIVE_DELTAS_def
        SMALL_DELTA_BYTES_def numeral_3_eq_3 act_simps movers)
qed

definition sample_two :: hosting_config where
  "sample_two = sample_config [sample_node [1] 0, sample_node [2] 0]"

lemma sample_owned: "owned sample_movers sample_two [97] [9] () = (Ok (hosted_of (sample_node [1] 0) sample_row, sample_node [1] 0), ())"
  by (simp add: owned_def find_for_def all_instances_def node_instances_def sample_movers_def silent_workers_def
      sample_two_def sample_config_def sample_node_def sample_row_def hosted_of_def is_owner_def delete_in_secs_def ascii_def)

lemma sample_all: "fst (all_instances sample_movers sample_two ()) = [hosted_of (sample_node [1] 0) sample_row]"
  by (simp add: all_instances_def node_instances_def sample_movers_def silent_workers_def
      sample_two_def sample_config_def sample_node_def sample_row_def hosted_of_def delete_in_secs_def ascii_def)

lemma sample_target: "choose_target (logged sample_movers) sample_two existing (sample_node [1] 0) Auto ((), l)
    = (Ok (sample_node [2] 0), (), l)"
  by (simp add: choose_target_def move_candidates_def sample_two_def sample_config_def node_capacity_logged)
    (simp add: node_capacity_def sample_movers_def silent_workers_def sample_node_def sample_capacity_def rank_node_def)

lemma sample_run: "\<exists>h l. relocate_to (logged sample_movers) sample_two [97] [9] Auto {} (Some []) ((), []) = Some (Ok h, (), l)"
proof -
  have run: "hi_state (hosted_of (sample_node [1] 0) sample_row) = ascii ''running''"
    by (simp add: hosted_of_def sample_row_def)
  obtain l' where "move_files (logged sample_movers) (sample_node [1] 0) (sample_node [2] 0) [9]
      (ascii ''game'' @ [45]) True ((), [(CCreate, [2], ascii ''game'' @ [45], True)]) = Some (Ok (), (), l')"
    using sample_move_files by blast
  then show ?thesis
    by (simp add: relocate_to_def act_simps owned_logged sample_owned all_instances_logged sample_all sample_target movers run
        new_instance_id_def sample_spec_def hex_encode_def Let_def)
      (simp add: sample_node_def ret_def)
qed

theorem a_move_leaves_one_server_witness:
  "\<exists>h l. relocate_to (logged sample_movers) sample_two [97] [9] Auto {} (Some []) ((), []) = Some (Ok h, (), l)
     \<and> move_outcome (sample_node [1] 0) [9] True (Ok h) l"
proof -
  obtain h l where run: "relocate_to (logged sample_movers) sample_two [97] [9] Auto {} (Some []) ((), []) = Some (Ok h, (), l)"
    using sample_run by blast
  from a_move_leaves_one_server [OF run] have "move_outcome (sample_node [1] 0) [9] True (Ok h) l"
    by (auto simp: sample_owned hosted_of_def sample_row_def)
  with run show ?thesis by blast
qed

lemma movers_honest: "honest_length (logged sample_movers) n i name 1"
  by (simp add: honest_length_def movers split_paired_all)

text \<open>A server of one account on the first of two nodes, whose backups are a byte long: the move copies them and succeeds.\<close>

theorem a_move_returns_if_nodes_let_it_witness:
  "relocate_to (logged sample_movers) sample_two [97] [9] Auto {} (Some []) ((), []) \<noteq> None
     \<and> fst (owned (logged sample_movers) sample_two [97] [9] ((), [])) = Ok (hosted_of (sample_node [1] 0) sample_row, sample_node [1] 0)
     \<and> (\<forall>name k. fst (wk_read (logged sample_movers) (sample_node [1] 0) [9] name k ((), [])) = Inr (1, [5]))
     \<and> fetch_from growing_workers (sample_node [1] 0) [9] sample_backup () = None"
proof (intro conjI)
  note both = a_move_returns_if_nodes_let_it [of "logged sample_movers" sample_two "[97]" "[9]" "((), [])" Auto "{}" "Some []" "sample_node [1] 0" "[9]" sample_backup]
  show "relocate_to (logged sample_movers) sample_two [97] [9] Auto {} (Some []) ((), []) \<noteq> None"
    using conjunct1 [OF both] movers_honest by blast
  show "fetch_from growing_workers (sample_node [1] 0) [9] sample_backup () = None" by (rule conjunct2 [OF both])
qed (simp_all add: owned_logged sample_owned movers)

end
