(* ===== verification/Instance.thy ===== *)
theory Instance
  imports Console Tables
begin

text \<open>
  What a node is asked to run and where its files live: \<^verbatim>\<open>crates/platform-agent/src/instance.rs\<close> (the spec and
  its checks, how a container ended), \<^verbatim>\<open>store.rs\<close> (the layout of content and instances, and the mounts of one
  instance) and \<^verbatim>\<open>resources.rs\<close> (whether a size fits the host). A path is its components after an absolute or
  relative start, as Rust's \<^verbatim>\<open>Path\<close> compares them; \<open>join\<close> is Unix's.
\<close>

section \<open>The spec\<close>

definition MAX_ID_LEN :: nat where "MAX_ID_LEN = 64"
definition MIN_HEAP_MB :: nat where "MIN_HEAP_MB = 512"
definition MAX_HEAP_MB :: nat where "MAX_HEAP_MB = 256 * 1024"
definition MAX_CPUS :: nat where "MAX_CPUS = 256"

record memory_spec =
  me_min_mb :: u32
  me_max_mb :: u32

definition container_limit_bytes :: "memory_spec \<Rightarrow> nat" where
  "container_limit_bytes m = (unat (me_max_mb m) + unat (me_max_mb m) div 4 + 512) * 1024 * 1024"

datatype gamemode = Survival | Creative | Adventure | Spectator
datatype difficulty = Peaceful | Easy | Normal | Hard

fun gamemode_str :: "gamemode \<Rightarrow> str" where
  "gamemode_str Survival = ascii ''survival''"
| "gamemode_str Creative = ascii ''creative''"
| "gamemode_str Adventure = ascii ''adventure''"
| "gamemode_str Spectator = ascii ''spectator''"

fun difficulty_str :: "difficulty \<Rightarrow> str" where
  "difficulty_str Peaceful = ascii ''peaceful''"
| "difficulty_str Easy = ascii ''easy''"
| "difficulty_str Normal = ascii ''normal''"
| "difficulty_str Hard = ascii ''hard''"

record minecraft_settings =
  mc_gamemode :: gamemode
  mc_difficulty :: difficulty
  mc_pvp :: bool
  mc_whitelist :: bool
  mc_online_mode :: bool
  mc_seed :: "str option"

record server_options =
  so_content_version :: "str option"
  so_memory :: "memory_spec option"
  so_cpus :: "u16 option"
  so_eula_accepted_at :: "u64 option"
  so_minecraft :: "minecraft_settings option"
  so_stopped :: bool

record server_spec =
  ss_instance_id :: str
  ss_game_id :: str
  ss_name :: str
  ss_max_players :: u8
  ss_port :: "u16 option"
  ss_extra_ports :: "(u8, u16) table"
  ss_bots :: "u8 option"
  ss_map :: "str option"
  ss_restart_on_crash :: bool
  ss_owner :: "str option"
  ss_options :: server_options

datatype instance_state = Creating | Running | Stopped | Missing | Unknown

datatype transport = Udp | Tcp

record published_port =
  pp_channel :: u8
  pp_container_port :: u16
  pp_host_port :: u16
  pp_transport :: transport

record port_row =
  pr_channel :: u8
  pr_host_port :: u16
  pr_transport :: transport

datatype spec_error =
    EmptyId | IdTooLong nat | IdNotAllowed str | EmptyGameId | EmptyName
  | BadName server_name_error | BadMap map_name_error | TooManyBots u8
  | HeapTooSmall | HeapUpsideDown | HeapTooLarge u32
  | BadCpus u16 | BadSeed str | BadContentVersion str

definition id_byte :: "u8 \<Rightarrow> bool" where
  "id_byte b \<longleftrightarrow> 97 \<le> unat b \<and> unat b \<le> 122 \<or> is_digit b \<or> b = 46 \<or> b = 95 \<or> b = 45"

definition validate_id :: "str \<Rightarrow> (spec_error, unit) outcome" where
  "validate_id s =
     (if s = [] then Err EmptyId
      else if length s > MAX_ID_LEN then Err (IdTooLong (length s))
      else if s = [46] \<or> s = [46, 46] \<or> starts_with [46] s then Err (IdNotAllowed s)
      else if \<not> list_all id_byte s then Err (IdNotAllowed s)
      else Ok ())"

definition is_seed :: "str \<Rightarrow> bool" where
  "is_seed s \<longleftrightarrow> 1 \<le> length s \<and> length s \<le> 32 \<and> list_all (\<lambda>b. is_alnum b \<or> b = 45) s"

definition check_memory :: "memory_spec \<Rightarrow> (spec_error, unit) outcome" where
  "check_memory m =
     (if unat (me_max_mb m) < MIN_HEAP_MB \<or> unat (me_min_mb m) < MIN_HEAP_MB then Err HeapTooSmall
      else if me_min_mb m > me_max_mb m then Err HeapUpsideDown
      else if unat (me_max_mb m) > MAX_HEAP_MB then Err (HeapTooLarge (me_max_mb m))
      else Ok ())"

definition check_options :: "server_options \<Rightarrow> (spec_error, unit) outcome" where
  "check_options p =
     and_then (case so_memory p of None \<Rightarrow> Ok () | Some m \<Rightarrow> check_memory m) (\<lambda>_.
     and_then (case so_cpus p of None \<Rightarrow> Ok () | Some c \<Rightarrow>
         if c = 0 \<or> unat c > MAX_CPUS then Err (BadCpus c) else Ok ()) (\<lambda>_.
     and_then (case so_minecraft p of None \<Rightarrow> Ok () | Some mc \<Rightarrow>
         (case mc_seed mc of None \<Rightarrow> Ok () | Some seed \<Rightarrow> if is_seed seed then Ok () else Err (BadSeed seed))) (\<lambda>_.
     case so_content_version p of None \<Rightarrow> Ok () | Some v \<Rightarrow>
       (case validate_id v of Err _ \<Rightarrow> Err (BadContentVersion v) | r \<Rightarrow> r))))"

definition validate :: "server_spec \<Rightarrow> (spec_error, unit) outcome" where
  "validate s =
     and_then (validate_id (ss_instance_id s)) (\<lambda>_.
     if ss_game_id s = [] then Err EmptyGameId
     else if str_trim (ss_name s) = [] then Err EmptyName
     else and_then (case validate_server_name (ss_name s) of Err e \<Rightarrow> Err (BadName e) | Ok u \<Rightarrow> Ok u | Panic \<Rightarrow> Panic) (\<lambda>_.
       and_then (case ss_map s of None \<Rightarrow> Ok () | Some map_name \<Rightarrow>
         (case validate_map_name map_name of Err e \<Rightarrow> Err (BadMap e) | Ok u \<Rightarrow> Ok u | Panic \<Rightarrow> Panic)) (\<lambda>_.
       and_then (case ss_bots s of None \<Rightarrow> Ok () | Some bots \<Rightarrow> if bots > MAX_BOTS then Err (TooManyBots bots) else Ok ()) (\<lambda>_.
       check_options (ss_options s)))))"

definition CONTAINER_PREFIX :: str where "CONTAINER_PREFIX = ascii ''gpp-''"

definition container_name :: "str \<Rightarrow> str" where
  "container_name instance_id = CONTAINER_PREFIX @ instance_id"

text \<open>How a container last ended; when it did is Docker's text.\<close>

record last_exit =
  le_code :: int
  le_oom_killed :: bool
  le_finished_at :: "str option"
  le_error :: "str option"

definition is_crash :: "last_exit \<Rightarrow> bool" where
  "is_crash e \<longleftrightarrow> le_oom_killed e \<or> (case le_error e of None \<Rightarrow> False | Some t \<Rightarrow> t \<noteq> []) \<or> le_code e \<notin> {0, 130, 137, 143}"

section \<open>Where files live\<close>

record path =
  pt_absolute :: bool
  pt_parts :: "str list"

definition parts_of :: "str \<Rightarrow> str list" where
  "parts_of s = filter (\<lambda>p. p \<noteq> [] \<and> p \<noteq> [46]) (split_all 47 s)"

definition join :: "path \<Rightarrow> str \<Rightarrow> path" where
  "join p s = (if starts_with [47] s then \<lparr>pt_absolute = True, pt_parts = parts_of s\<rparr>
     else p\<lparr>pt_parts := pt_parts p @ parts_of s\<rparr>)"

definition path_starts_with :: "path \<Rightarrow> path \<Rightarrow> bool" where
  "path_starts_with p q \<longleftrightarrow> pt_absolute p = pt_absolute q \<and> take (length (pt_parts q)) (pt_parts p) = pt_parts q"

record content_ref =
  cn_game_id :: str
  cn_version :: str

record mount =
  mt_host_path :: path
  mt_container_path :: path
  mt_read_only :: bool

record instance_plan =
  pl_instance_id :: str
  pl_content :: content_ref
  pl_mounts :: "mount list"
  pl_host_dirs :: "path list"
  pl_required :: "path list"

datatype plan_error =
    PlanEmptyId | PlanIdTooLong | PlanInvalidId | EmptyWritablePath | AbsoluteWritablePath | NulInPath | BackslashInPath
  | EmptyPathComponent | DotComponent | DotDotComponent | DuplicateWritablePath | NestedWritablePath
  | SlotCollision | EscapeAttempt | InvalidContainerRoot

definition plan_id :: "str \<Rightarrow> (plan_error, unit) outcome" where
  "plan_id s = (case validate_id s of Ok u \<Rightarrow> Ok u | Panic \<Rightarrow> Panic
     | Err e \<Rightarrow> Err (case e of EmptyId \<Rightarrow> PlanEmptyId | IdTooLong _ \<Rightarrow> PlanIdTooLong | _ \<Rightarrow> PlanInvalidId))"

fun check_parts :: "str list \<Rightarrow> (plan_error, unit) outcome" where
  "check_parts [] = Ok ()"
| "check_parts (p # ps) =
     (if p = [] then Err EmptyPathComponent else if p = [46] then Err DotComponent
      else if p = [46, 46] then Err DotDotComponent else check_parts ps)"

definition validate_writable_path :: "str \<Rightarrow> (plan_error, unit) outcome" where
  "validate_writable_path p =
     (if p = [] then Err EmptyWritablePath
      else if 0 \<in> set p then Err NulInPath
      else if 92 \<in> set p then Err BackslashInPath
      else if starts_with [47] p then Err AbsoluteWritablePath
      else check_parts (split_all 47 p))"

fun join_with :: "str \<Rightarrow> str list \<Rightarrow> str" where
  "join_with sep [] = []"
| "join_with sep [p] = p"
| "join_with sep (p # ps) = p @ sep @ join_with sep ps"

definition slot_name :: "str \<Rightarrow> str" where
  "slot_name p = join_with [95] (split_all 47 p)"

definition content_dir :: "path \<Rightarrow> content_ref \<Rightarrow> (plan_error, path) outcome" where
  "content_dir root c =
     and_then (plan_id (cn_game_id c)) (\<lambda>_. and_then (plan_id (cn_version c)) (\<lambda>_.
       Ok (join (join (join root (ascii ''content'')) (cn_game_id c)) (cn_version c))))"

definition instance_dir :: "path \<Rightarrow> str \<Rightarrow> (plan_error, path) outcome" where
  "instance_dir root i = and_then (plan_id i) (\<lambda>_. Ok (join (join root (ascii ''instances'')) i))"

fun parse_paths :: "str list \<Rightarrow> (plan_error, str list list) outcome" where
  "parse_paths [] = Ok []"
| "parse_paths (p # ps) = and_then (validate_writable_path p) (\<lambda>_.
     and_then (parse_paths ps) (\<lambda>rest. Ok (split_all 47 p # rest)))"

definition clash :: "str list \<Rightarrow> str list \<Rightarrow> plan_error option" where
  "clash p q =
     (if p = q then Some DuplicateWritablePath
      else let (shorter, longer) = if length p \<le> length q then (p, q) else (q, p) in
        if length shorter < length longer \<and> take (length shorter) longer = shorter then Some NestedWritablePath else None)"

fun check_pairs :: "str list list \<Rightarrow> (plan_error, unit) outcome" where
  "check_pairs [] = Ok ()"
| "check_pairs (p # ps) =
     (case List.map_filter (clash p) ps of e # _ \<Rightarrow> Err e | [] \<Rightarrow> check_pairs ps)"

fun take_slots :: "str list \<Rightarrow> str list \<Rightarrow> (plan_error, str list) outcome" where
  "take_slots slots [] = Ok slots"
| "take_slots slots (p # ps) =
     (if slot_name p \<in> set slots then Err SlotCollision else take_slots (slots @ [slot_name p]) ps)"

fun writable_mounts :: "path \<Rightarrow> path \<Rightarrow> (str \<times> str) list \<Rightarrow> (plan_error, mount list) outcome" where
  "writable_mounts writable_root container_root [] = Ok []"
| "writable_mounts writable_root container_root ((p, slot) # ps) =
     (let host = join writable_root slot; inside = join container_root p in
      if \<not> path_starts_with host writable_root then Err EscapeAttempt
      else if \<not> path_starts_with inside container_root then Err EscapeAttempt
      else and_then (writable_mounts writable_root container_root ps) (\<lambda>rest.
        Ok (\<lparr>mt_host_path = host, mt_container_path = inside, mt_read_only = False\<rparr> # rest)))"

definition plan_instance :: "path \<Rightarrow> str \<Rightarrow> content_ref \<Rightarrow> path \<Rightarrow> str list \<Rightarrow> (plan_error, instance_plan) outcome" where
  "plan_instance root i content container_root writable_paths =
     and_then (plan_id i) (\<lambda>_.
     and_then (content_dir root content) (\<lambda>content_host.
     if \<not> pt_absolute container_root \<or> list_ex (\<lambda>p. 0 \<in> set p) (pt_parts container_root) then Err InvalidContainerRoot
     else
       let dir = join (join root (ascii ''instances'')) i;
           writable_root = join dir (ascii ''writable'');
           logs = join dir (ascii ''logs'') in
       and_then (parse_paths writable_paths) (\<lambda>parsed.
       and_then (check_pairs parsed) (\<lambda>_.
       and_then (take_slots [] writable_paths) (\<lambda>slots.
       and_then (writable_mounts writable_root container_root (zip writable_paths slots)) (\<lambda>mounts.
         Ok \<lparr>pl_instance_id = i, pl_content = content,
             pl_mounts = \<lparr>mt_host_path = content_host, mt_container_path = container_root, mt_read_only = True\<rparr> # mounts,
             pl_host_dirs = [dir, writable_root] @ map (join writable_root) slots @ [logs],
             pl_required = map (join content_host) writable_paths\<rparr>))))))"

definition missing_content_dirs :: "(path \<Rightarrow> bool) \<Rightarrow> instance_plan \<Rightarrow> path list" where
  "missing_content_dirs is_dir plan = filter (\<lambda>p. \<not> is_dir p) (pl_required plan)"

definition orphan_instance_dirs :: "path \<Rightarrow> str list \<Rightarrow> str list \<Rightarrow> path list" where
  "orphan_instance_dirs root keep entries =
     List.map_filter (\<lambda>e. case instance_dir root e of Ok d \<Rightarrow> Some d | _ \<Rightarrow> None) (filter (\<lambda>e. e \<notin> set keep) entries)"

section \<open>Whether a size fits the host\<close>

definition MIB :: nat where "MIB = 1024 * 1024"
definition MIN_RESERVE_BYTES :: nat where "MIN_RESERVE_BYTES = 1024 * MIB"

record host_resources =
  hr_total_bytes :: nat
  hr_available_bytes :: nat
  hr_cpus :: nat

datatype resource_level = LevelOk | Warn | Refuse

datatype resource_message =
    OverOperator nat nat | NotEnoughMemory nat nat nat | OverHalfMemory nat nat | NoMemoryFigure
  | TooManyCores nat u16 | OverHalfCores nat u16

record resource_verdict =
  rv_level :: resource_level
  rv_messages :: "resource_message list"
  rv_total_mb :: "nat option"
  rv_available_mb :: "nat option"
  rv_reserve_mb :: "nat option"
  rv_limit_mb :: "nat option"
  rv_host_cpus :: nat

definition reserve_bytes :: "nat \<Rightarrow> nat" where
  "reserve_bytes total_bytes = max MIN_RESERVE_BYTES (total_bytes div 10)"

definition judge_operator :: "nat option \<Rightarrow> int option \<Rightarrow> resource_message list" where
  "judge_operator limit operator_limit =
     (case (limit, operator_limit) of
        (Some l, Some ceiling) \<Rightarrow>
          if l > nat (max ceiling 0) then [OverOperator (nat (max ceiling 0) div MIB) (l div MIB)] else []
      | _ \<Rightarrow> [])"

definition judge_memory :: "host_resources option \<Rightarrow> nat option \<Rightarrow> resource_message list \<times> resource_message list" where
  "judge_memory host limit =
     (case (host, limit) of
        (Some h, Some l) \<Rightarrow>
          (let kept = reserve_bytes (hr_total_bytes h) in
           if l > hr_available_bytes h - kept
           then ([NotEnoughMemory (l div MIB) (hr_available_bytes h div MIB) (kept div MIB)], [])
           else if l > hr_available_bytes h div 2
           then ([], [OverHalfMemory (l div MIB) (hr_available_bytes h div MIB)])
           else ([], []))
      | (None, Some _) \<Rightarrow> ([], [NoMemoryFigure])
      | _ \<Rightarrow> ([], []))"

definition judge_cpus :: "host_resources option \<Rightarrow> u16 option \<Rightarrow> resource_message list \<times> resource_message list" where
  "judge_cpus host cpus =
     (case (cpus, host) of
        (Some c, Some h) \<Rightarrow>
          if unat c > hr_cpus h then ([TooManyCores (hr_cpus h) c], [])
          else if unat c * 2 > hr_cpus h then ([], [OverHalfCores (hr_cpus h) c])
          else ([], [])
      | _ \<Rightarrow> ([], []))"

definition judge :: "host_resources option \<Rightarrow> memory_spec option \<Rightarrow> u16 option \<Rightarrow> int option \<Rightarrow> resource_verdict" where
  "judge host memory cpus operator_limit =
     (let limit = map_option container_limit_bytes memory;
          (refuse_m, warn_m) = judge_memory host limit;
          (refuse_c, warn_c) = judge_cpus host cpus;
          refuse = judge_operator limit operator_limit @ refuse_m @ refuse_c;
          warn = warn_m @ warn_c in
      \<lparr>rv_level = (if refuse \<noteq> [] then Refuse else if warn \<noteq> [] then Warn else LevelOk),
       rv_messages = refuse @ warn,
       rv_total_mb = map_option (\<lambda>h. hr_total_bytes h div MIB) host,
       rv_available_mb = map_option (\<lambda>h. hr_available_bytes h div MIB) host,
       rv_reserve_mb = map_option (\<lambda>h. reserve_bytes (hr_total_bytes h) div MIB) host,
       rv_limit_mb = map_option (\<lambda>l. l div MIB) limit,
       rv_host_cpus = (case host of None \<Rightarrow> 0 | Some h \<Rightarrow> hr_cpus h)\<rparr>)"

section \<open>Components of a path\<close>

text \<open>A component that neither ends a path early nor climbs.\<close>

definition plain_part :: "str \<Rightarrow> bool" where
  "plain_part p \<longleftrightarrow> p \<noteq> [] \<and> p \<noteq> [46] \<and> p \<noteq> [46, 46] \<and> 47 \<notin> set p"

definition apart :: "path \<Rightarrow> path \<Rightarrow> bool" where
  "apart p q \<longleftrightarrow> \<not> path_starts_with p q \<and> \<not> path_starts_with q p"

lemma split_all_alone: "c \<notin> set s \<Longrightarrow> split_all c s = [s]"
  by (induction s) auto

lemma split_all_parts: "p \<in> set (split_all c s) \<Longrightarrow> c \<notin> set p"
  by (induction s arbitrary: p) (auto split: if_splits list.splits)

lemma split_all_cons: "split_all c s \<noteq> []"
  by (cases s) (auto split: list.split)

lemma starts_slash: "starts_with [47] s \<longleftrightarrow> (\<exists>r. s = 47 # r)"
  by (cases s) (auto simp: starts_with_def)

lemma plain_parts_of: "plain_part s \<Longrightarrow> parts_of s = [s]"
  by (simp add: parts_of_def split_all_alone plain_part_def)

lemma join_plain: "plain_part s \<Longrightarrow> join p s = p\<lparr>pt_parts := pt_parts p @ [s]\<rparr>"
  by (auto simp: join_def plain_parts_of starts_slash) (simp add: plain_part_def)

lemma validate_id_plain: "validate_id s = Ok u \<Longrightarrow> plain_part s"
  by (auto simp: validate_id_def plain_part_def list_all_iff id_byte_def is_digit_def split: if_splits)

lemma plan_id_plain: "plan_id s = Ok u \<Longrightarrow> plain_part s"
  by (auto simp: plan_id_def split: outcome.splits dest: validate_id_plain)

lemma plain_names: "plain_part (ascii ''content'')" "plain_part (ascii ''instances'')" "plain_part (ascii ''writable'')"
  by (simp_all add: plain_part_def ascii_def)

lemma check_parts_Ok: "check_parts ps = Ok u \<Longrightarrow> p \<in> set ps \<Longrightarrow> p \<noteq> [] \<and> p \<noteq> [46] \<and> p \<noteq> [46, 46]"
  by (induction ps) (auto split: if_splits)

lemma writable_parts:
  assumes "validate_writable_path w = Ok u"
  shows "parts_of w = split_all 47 w" "\<not> starts_with [47] w" "list_all plain_part (split_all 47 w)"
proof -
  have ps: "check_parts (split_all 47 w) = Ok u" and ns: "\<not> starts_with [47] w"
    using assms by (auto simp: validate_writable_path_def split: if_splits)
  show "parts_of w = split_all 47 w" unfolding parts_of_def using check_parts_Ok [OF ps] by (simp add: filter_id_conv)
  show "\<not> starts_with [47] w" by (rule ns)
  show "list_all plain_part (split_all 47 w)"
    using check_parts_Ok [OF ps] split_all_parts by (auto simp: list_all_iff plain_part_def)
qed

lemma join_with_set: "set (join_with sep ps) \<subseteq> set sep \<union> \<Union> (set ` set ps)"
  by (induction sep ps rule: join_with.induct) auto

lemma slot_plain:
  assumes "validate_writable_path w = Ok u"
  shows "plain_part (slot_name w)"
proof -
  obtain p ps where ps: "split_all 47 w = p # ps" using split_all_cons [of 47 w] by (cases "split_all 47 w") auto
  have no_slash: "47 \<notin> set (slot_name w)"
    using join_with_set [of "[95]" "split_all 47 w"] split_all_parts [of _ 47 w] by (auto simp: slot_name_def)
  show ?thesis
  proof (cases ps)
    case Nil
    then show ?thesis using writable_parts(3) [OF assms] by (simp add: slot_name_def ps)
  next
    case (Cons q qs)
    then have "95 \<in> set (slot_name w)" by (simp add: slot_name_def ps)
    then show ?thesis using no_slash unfolding plain_part_def by auto
  qed
qed

section \<open>What a plan mounts\<close>

lemma parse_paths_Ok: "parse_paths ws = Ok ps \<Longrightarrow> ps = map (split_all 47) ws \<and> list_all (\<lambda>w. validate_writable_path w = Ok ()) ws"
  by (induction ws arbitrary: ps) (auto simp: and_then_eq_Ok)

lemma take_slots_Ok: "take_slots slots ws = Ok all \<Longrightarrow> distinct slots \<Longrightarrow> all = slots @ map slot_name ws \<and> distinct all"
  by (induction slots ws rule: take_slots.induct) (fastforce split: if_splits)+

lemma prefix_clash:
  assumes "clash p q = None"
  shows "take (length p) q \<noteq> p" "take (length q) p \<noteq> q"
  using assms by (auto simp: clash_def Let_def split: if_splits)

lemma check_pairs_Ok:
  "check_pairs ps = Ok u \<Longrightarrow> i < j \<Longrightarrow> j < length ps \<Longrightarrow> clash (ps ! i) (ps ! j) = None"
proof (induction ps arbitrary: i j)
  case (Cons p ps)
  have none: "List.map_filter (clash p) ps = []" and rest: "check_pairs ps = Ok u"
    using Cons.prems(1) by (auto split: list.splits)
  show ?case
  proof (cases i)
    case 0
    have "ps ! (j - 1) \<in> set ps" using Cons.prems(2,3) by (intro nth_mem) auto
    then show ?thesis using none Cons.prems(2) 0 by (auto simp: List.map_filter_def filter_empty_conv nth_Cons')
  next
    case (Suc k)
    then show ?thesis using Cons.IH [OF rest, of k "j - 1"] Cons.prems(2,3) by (auto simp: nth_Cons')
  qed
qed simp

lemma join_writable:
  assumes "validate_writable_path w = Ok u"
  shows "join p w = p\<lparr>pt_parts := pt_parts p @ split_all 47 w\<rparr>"
  using writable_parts(1,2) [OF assms] by (simp add: join_def)

lemma path_starts_append: "path_starts_with (p\<lparr>pt_parts := pt_parts p @ xs\<rparr>) p"
  by (simp add: path_starts_with_def)

text \<open>The check of the built path never fires: the check of the text has seen to it.\<close>

lemma writable_mounts_Ok:
  "list_all (\<lambda>w. validate_writable_path w = Ok ()) ws \<Longrightarrow>
    writable_mounts wr cr (zip ws (map slot_name ws)) = Ok (map (\<lambda>w. \<lparr>mt_host_path = wr\<lparr>pt_parts := pt_parts wr @ [slot_name w]\<rparr>,
      mt_container_path = cr\<lparr>pt_parts := pt_parts cr @ split_all 47 w\<rparr>, mt_read_only = False\<rparr>) ws)"
  by (induction ws) (simp_all add: join_plain [OF slot_plain] join_writable path_starts_append)

definition content_path :: "path \<Rightarrow> content_ref \<Rightarrow> path" where
  "content_path root c = root\<lparr>pt_parts := pt_parts root @ [ascii ''content'', cn_game_id c, cn_version c]\<rparr>"

definition writable_path :: "path \<Rightarrow> str \<Rightarrow> str \<Rightarrow> path" where
  "writable_path root i slot = root\<lparr>pt_parts := pt_parts root @ [ascii ''instances'', i, ascii ''writable'', slot]\<rparr>"

lemma plan_Ok:
  assumes "plan_instance root i content cr ws = Ok plan"
  shows "pl_mounts plan = \<lparr>mt_host_path = content_path root content, mt_container_path = cr, mt_read_only = True\<rparr>
      # map (\<lambda>w. \<lparr>mt_host_path = writable_path root i (slot_name w),
          mt_container_path = cr\<lparr>pt_parts := pt_parts cr @ split_all 47 w\<rparr>, mt_read_only = False\<rparr>) ws"
    "list_all (\<lambda>w. validate_writable_path w = Ok ()) ws" "distinct (map slot_name ws)"
    "check_pairs (map (split_all 47) ws) = Ok ()" "plain_part i"
proof -
  obtain ch parsed slots mounts where pid: "plan_id i = Ok ()" and cd: "content_dir root content = Ok ch"
    and pp: "parse_paths ws = Ok parsed" and cp: "check_pairs parsed = Ok ()" and ts: "take_slots [] ws = Ok slots"
    and wm: "writable_mounts (join (join (join root (ascii ''instances'')) i) (ascii ''writable'')) cr (zip ws slots) = Ok mounts"
    and pl: "pl_mounts plan = \<lparr>mt_host_path = ch, mt_container_path = cr, mt_read_only = True\<rparr> # mounts"
    using assms by (auto simp: plan_instance_def and_then_eq_Ok Let_def split: if_splits)
  have parsed: "parsed = map (split_all 47) ws" and ok: "list_all (\<lambda>w. validate_writable_path w = Ok ()) ws"
    using parse_paths_Ok [OF pp] by auto
  have slots: "slots = map slot_name ws" "distinct slots" using take_slots_Ok [OF ts] by auto
  have i: "plain_part i" by (rule plan_id_plain [OF pid])
  have ch: "ch = content_path root content"
    using cd by (auto simp: content_dir_def and_then_eq_Ok content_path_def join_plain plain_names dest!: plan_id_plain)
  have wr: "join (join (join root (ascii ''instances'')) i) (ascii ''writable'')
      = root\<lparr>pt_parts := pt_parts root @ [ascii ''instances'', i, ascii ''writable'']\<rparr>"
    by (simp add: join_plain plain_names i)
  show "pl_mounts plan = \<lparr>mt_host_path = content_path root content, mt_container_path = cr, mt_read_only = True\<rparr>
      # map (\<lambda>w. \<lparr>mt_host_path = writable_path root i (slot_name w),
          mt_container_path = cr\<lparr>pt_parts := pt_parts cr @ split_all 47 w\<rparr>, mt_read_only = False\<rparr>) ws"
    using wm by (simp add: pl ch slots(1) writable_mounts_Ok [OF ok] wr writable_path_def)
  show "list_all (\<lambda>w. validate_writable_path w = Ok ()) ws" by (rule ok)
  show "distinct (map slot_name ws)" using slots by simp
  show "check_pairs (map (split_all 47) ws) = Ok ()" using cp by (simp add: parsed)
  show "plain_part i" by (rule i)
qed

lemma names_differ: "ascii ''content'' \<noteq> ascii ''instances''"
  by (simp add: ascii_def)

lemma apart_content: "apart (writable_path root i slot) (content_path root c)"
  using names_differ by (simp add: apart_def path_starts_with_def writable_path_def content_path_def)

lemma apart_writable: "i \<noteq> j \<or> slot \<noteq> slot' \<Longrightarrow> apart (writable_path root i slot) (writable_path root j slot')"
  by (auto simp: apart_def path_starts_with_def writable_path_def)

lemma apart_inside:
  assumes "check_pairs (map (split_all 47) ws) = Ok ()" "w \<in> set ws" "w' \<in> set ws" "w \<noteq> w'"
  shows "apart (cr\<lparr>pt_parts := pt_parts cr @ split_all 47 w\<rparr>) (cr\<lparr>pt_parts := pt_parts cr @ split_all 47 w'\<rparr>)"
proof -
  obtain a b where ab: "a < length ws" "b < length ws" "ws ! a = w" "ws ! b = w'"
    using assms(2,3) by (metis in_set_conv_nth)
  then have "a \<noteq> b" using assms(4) by auto
  then consider "a < b" | "b < a" by linarith
  then have "take (length (split_all 47 w)) (split_all 47 w') \<noteq> split_all 47 w"
    "take (length (split_all 47 w')) (split_all 47 w) \<noteq> split_all 47 w'"
    using check_pairs_Ok [OF assms(1), of a b] check_pairs_Ok [OF assms(1), of b a] ab
      prefix_clash [of "split_all 47 w" "split_all 47 w'"] prefix_clash [of "split_all 47 w'" "split_all 47 w"]
    by (cases; simp)+
  then show ?thesis by (auto simp: apart_def path_starts_with_def)
qed

section \<open>What an accepted spec promises\<close>

lemma accepted_facts:
  assumes "validate s = Ok ()"
  shows "validate_id (ss_instance_id s) = Ok ()" "ss_game_id s \<noteq> []" "str_trim (ss_name s) \<noteq> []"
    "validate_server_name (ss_name s) = Ok ()" "ss_map s = Some mp \<Longrightarrow> validate_map_name mp = Ok ()"
    "ss_bots s = Some bots \<Longrightarrow> bots \<le> MAX_BOTS" "check_options (ss_options s) = Ok ()"
  using assms by (auto simp: validate_def and_then_eq_Ok split: if_splits outcome.splits option.splits)

lemma check_options_Ok:
  assumes "check_options p = Ok ()"
  shows "so_memory p = Some m \<Longrightarrow> check_memory m = Ok ()" "so_cpus p = Some c \<Longrightarrow> c \<noteq> 0 \<and> unat c \<le> MAX_CPUS"
    "so_content_version p = Some v \<Longrightarrow> plain_part v"
  using assms by (auto simp: check_options_def and_then_eq_Ok split: if_splits outcome.splits option.splits dest: validate_id_plain)

lemma check_memory_Ok:
  assumes "check_memory m = Ok ()"
  shows "MIN_HEAP_MB \<le> unat (me_min_mb m)" "unat (me_min_mb m) \<le> unat (me_max_mb m)" "unat (me_max_mb m) \<le> MAX_HEAP_MB"
  using assms by (auto simp: check_memory_def word_le_nat_alt not_less split: if_splits)

lemma limit_fits:
  assumes "check_memory m = Ok ()"
  shows "container_limit_bytes m < 2 ^ 63"
proof -
  let ?mb = "unat (me_max_mb m)"
  have mb: "?mb \<le> 262144" using check_memory_Ok(3) [OF assms] by (simp add: MAX_HEAP_MB_def)
  then have "?mb div 4 \<le> 65536" by linarith
  with mb have "?mb + ?mb div 4 + 512 \<le> 328192" by linarith
  then have "container_limit_bytes m \<le> 328192 * 1024 * 1024" by (simp add: container_limit_bytes_def)
  also have "(328192 * 1024 * 1024 :: nat) < 2 ^ 63" by simp
  finally show ?thesis .
qed

lemma quota_lines_total: "bots \<le> MAX_BOTS \<Longrightarrow> \<exists>ls. quota_lines p bots = Ok ls"
  by (auto simp: quota_lines_def)

lemma judge_refuses:
  "rv_level (judge host memory cpus operator_limit) = Refuse \<longleftrightarrow>
    (\<exists>m ceiling. memory = Some m \<and> operator_limit = Some ceiling \<and> int (container_limit_bytes m) > max ceiling 0)
    \<or> (\<exists>h m. host = Some h \<and> memory = Some m
        \<and> container_limit_bytes m + reserve_bytes (hr_total_bytes h) > hr_available_bytes h)
    \<or> (\<exists>h c. host = Some h \<and> cpus = Some c \<and> unat c > hr_cpus h)"
proof -
  have pos: "0 < container_limit_bytes m" for m by (simp add: container_limit_bytes_def)
  have sub: "l > (a :: nat) - k \<longleftrightarrow> l + k > a" if "0 < l" for a k l using that by linarith
  have ceil: "l > nat (max c 0) \<longleftrightarrow> int l > max c 0" for l c by linarith
  show ?thesis
    by (cases host; cases memory; cases cpus; cases operator_limit)
      (auto simp: judge_def judge_operator_def judge_memory_def judge_cpus_def Let_def sub [OF pos] ceil split: if_splits)
qed

section \<open>Mounts of two plans\<close>

lemma writable_mount:
  assumes "plan_instance root i content cr ws = Ok plan" "m \<in> set (pl_mounts plan)" "\<not> mt_read_only m"
  obtains w where "w \<in> set ws" "m = \<lparr>mt_host_path = writable_path root i (slot_name w),
      mt_container_path = cr\<lparr>pt_parts := pt_parts cr @ split_all 47 w\<rparr>, mt_read_only = False\<rparr>"
  using assms(2,3) by (auto simp: plan_Ok(1) [OF assms(1)])

lemma writable_mount_inside:
  assumes "plan_instance root i content cr ws = Ok plan" "m \<in> set (pl_mounts plan)" "\<not> mt_read_only m"
  shows "\<exists>slot. plain_part slot \<and> plain_part i
      \<and> pt_parts (mt_host_path m) = pt_parts root @ [ascii ''instances'', i, ascii ''writable'', slot]"
    "path_starts_with (mt_container_path m) cr"
proof -
  obtain w where w: "w \<in> set ws" "m = \<lparr>mt_host_path = writable_path root i (slot_name w),
      mt_container_path = cr\<lparr>pt_parts := pt_parts cr @ split_all 47 w\<rparr>, mt_read_only = False\<rparr>"
    using writable_mount [OF assms] by blast
  have "plain_part (slot_name w)" using plan_Ok(2) [OF assms(1)] w(1) slot_plain by (auto simp: list_all_iff)
  then show "\<exists>slot. plain_part slot \<and> plain_part i
      \<and> pt_parts (mt_host_path m) = pt_parts root @ [ascii ''instances'', i, ascii ''writable'', slot]"
    using plan_Ok(5) [OF assms(1)] by (intro exI [of _ "slot_name w"]) (simp add: w(2) writable_path_def)
  show "path_starts_with (mt_container_path m) cr" by (simp add: w(2) path_starts_append)
qed

lemma mounts_apart:
  assumes "plan_instance root i content cr ws = Ok plan" "plan_instance root j content' cr' ws' = Ok other"
    "m \<in> set (pl_mounts plan)" "n \<in> set (pl_mounts other)" "\<not> mt_read_only m" "i \<noteq> j \<or> (ws' = ws \<and> cr' = cr \<and> m \<noteq> n)"
  shows "apart (mt_host_path m) (mt_host_path n)"
    "ws' = ws \<Longrightarrow> cr' = cr \<Longrightarrow> mt_container_path m \<noteq> mt_container_path n \<Longrightarrow> \<not> mt_read_only n
      \<Longrightarrow> apart (mt_container_path m) (mt_container_path n)"
proof -
  obtain w where w: "w \<in> set ws" and m: "m = \<lparr>mt_host_path = writable_path root i (slot_name w),
      mt_container_path = cr\<lparr>pt_parts := pt_parts cr @ split_all 47 w\<rparr>, mt_read_only = False\<rparr>"
    using writable_mount [OF assms(1,3,5)] by blast
  consider (shared) "n = \<lparr>mt_host_path = content_path root content', mt_container_path = cr', mt_read_only = True\<rparr>"
    | (own) w' where "w' \<in> set ws'" "n = \<lparr>mt_host_path = writable_path root j (slot_name w'),
      mt_container_path = cr'\<lparr>pt_parts := pt_parts cr' @ split_all 47 w'\<rparr>, mt_read_only = False\<rparr>"
    using assms(4) by (auto simp: plan_Ok(1) [OF assms(2)])
  note cases = this
  show "apart (mt_host_path m) (mt_host_path n)"
    using cases
  proof cases
    case shared
    then show ?thesis by (simp add: m apart_content)
  next
    case own
    have "i \<noteq> j \<or> slot_name w \<noteq> slot_name w'"
    proof (cases "i = j")
      case True
      then have eq: "ws' = ws" "cr' = cr" "m \<noteq> n" using assms(6) by auto
      then have "w \<noteq> w'" using True own(2) by (auto simp: m)
      moreover have "inj_on slot_name (set ws)" using plan_Ok(3) [OF assms(1)] by (simp add: distinct_map)
      ultimately show ?thesis using w own(1) eq(1) by (auto dest: inj_onD)
    qed simp
    then show ?thesis by (simp add: m own(2) apart_writable)
  qed
  show "apart (mt_container_path m) (mt_container_path n)"
    if same: "ws' = ws" "cr' = cr" and diff: "mt_container_path m \<noteq> mt_container_path n" "\<not> mt_read_only n"
    using cases
  proof cases
    case shared
    then show ?thesis using diff by simp
  next
    case own
    then have "w \<noteq> w'" using diff(1) by (auto simp: m same)
    then show ?thesis using apart_inside [OF plan_Ok(4) [OF assms(1)] w] own same by (simp add: m)
  qed
qed

section \<open>Samples\<close>

definition sample_root :: path where
  "sample_root = \<lparr>pt_absolute = True, pt_parts = [[100]]\<rparr>"

definition sample_content :: content_ref where
  "sample_content = \<lparr>cn_game_id = [103], cn_version = [49]\<rparr>"

definition plain_options :: server_options where
  "plain_options = \<lparr>so_content_version = None, so_memory = None, so_cpus = None, so_eula_accepted_at = None,
     so_minecraft = None, so_stopped = False\<rparr>"

definition sample_server :: server_spec where
  "sample_server = \<lparr>ss_instance_id = [105], ss_game_id = [103], ss_name = [78], ss_max_players = 8, ss_port = None,
     ss_extra_ports = [], ss_bots = Some 4, ss_map = Some [109], ss_restart_on_crash = True, ss_owner = Some [111],
     ss_options = plain_options\<lparr>so_memory := Some \<lparr>me_min_mb = 1024, me_max_mb = 4096\<rparr>, so_cpus := Some 2\<rparr>\<rparr>"

lemma sample_accepted: "validate sample_server = Ok ()"
proof -
  have id_ok: "validate_id [105] = Ok ()" by code_simp
  have name_ok: "validate_server_name [78] = Ok ()" "str_trim [78] \<noteq> []" by code_simp+
  have map_ok: "validate_map_name [109] = Ok ()" by code_simp
  have "check_options (ss_options sample_server) = Ok ()"
    by (simp add: sample_server_def plain_options_def check_options_def check_memory_def MIN_HEAP_MB_def MAX_HEAP_MB_def MAX_CPUS_def)
  then show ?thesis
    using id_ok name_ok map_ok by (simp add: validate_def sample_server_def MAX_BOTS_def)
qed

definition sample_paths :: "str list" where
  "sample_paths = [[109, 47, 97], [108]]"

lemma sample_plans: "\<exists>plan. plan_instance sample_root i sample_content sample_root sample_paths = Ok plan" if "plan_id i = Ok ()" for i
proof -
  have ids: "plan_id [103] = Ok ()" "plan_id [49] = Ok ()" by code_simp+
  have ws: "list_all (\<lambda>w. validate_writable_path w = Ok ()) sample_paths" by code_simp
  have parsed: "parse_paths sample_paths = Ok (map (split_all 47) sample_paths)" by code_simp
  have pairs: "check_pairs (map (split_all 47) sample_paths) = Ok ()" by code_simp
  have slots: "take_slots [] sample_paths = Ok (map slot_name sample_paths)" by code_simp
  have abs: "pt_absolute sample_root" "\<not> list_ex (\<lambda>p. 0 \<in> set p) (pt_parts sample_root)" by (simp_all add: sample_root_def)
  show ?thesis
    unfolding plan_instance_def content_dir_def
    by (simp add: that ids parsed pairs slots writable_mounts_Ok [OF ws] abs sample_content_def Let_def)
qed

section \<open>Properties\<close>

text \<open>C14.
  A server's container can write only the directories made for that server. Each writable mount is one directory
  below the server's own, whatever the pack wrote as a path and whatever the ids; it lies inside the content
  mount in the container; and no mount of another server, and no other mount of the same one, lies on it, in
  it or around it, on the host. Inside the container no two writable mounts cover each other. The shared copy of
  the game is mounted read-only.
\<close>
theorem a_server_writes_only_its_own:
  assumes "plan_instance root i content cr ws = Ok plan" "plan_instance root j content' cr' ws' = Ok other"
    "m \<in> set (pl_mounts plan)" "n \<in> set (pl_mounts other)" "\<not> mt_read_only m" "i \<noteq> j \<or> (ws' = ws \<and> cr' = cr \<and> m \<noteq> n)"
  shows "(\<exists>slot. plain_part slot \<and> plain_part i
        \<and> pt_parts (mt_host_path m) = pt_parts root @ [ascii ''instances'', i, ascii ''writable'', slot])
      \<and> path_starts_with (mt_container_path m) cr
      \<and> apart (mt_host_path m) (mt_host_path n)
      \<and> (ws' = ws \<and> cr' = cr \<and> mt_container_path m \<noteq> mt_container_path n \<and> \<not> mt_read_only n
          \<longrightarrow> apart (mt_container_path m) (mt_container_path n))"
  using writable_mount_inside [OF assms(1,3,5)] mounts_apart [OF assms] by blast

theorem a_server_writes_only_its_own_witness:
  "\<exists>plan other. plan_instance sample_root [105] sample_content sample_root sample_paths = Ok plan
    \<and> plan_instance sample_root [106] sample_content sample_root sample_paths = Ok other
    \<and> apart (mt_host_path (pl_mounts plan ! 1)) (mt_host_path (pl_mounts other ! 2))"
proof -
  have ids: "plan_id [105] = Ok ()" "plan_id [106] = Ok ()" by code_simp+
  obtain plan other where p: "plan_instance sample_root [105] sample_content sample_root sample_paths = Ok plan"
    and q: "plan_instance sample_root [106] sample_content sample_root sample_paths = Ok other"
    using sample_plans [OF ids(1)] sample_plans [OF ids(2)] by blast
  note m = plan_Ok(1) [OF p] and n = plan_Ok(1) [OF q]
  have "apart (mt_host_path (pl_mounts plan ! 1)) (mt_host_path (pl_mounts other ! 2))"
    using a_server_writes_only_its_own [OF p q, of "pl_mounts plan ! 1" "pl_mounts other ! 2"]
    by (simp add: m n sample_paths_def)
  with p q show ?thesis by blast
qed

text \<open>C35.
  What the checks of a spec promise to the code that runs it: the id names one file and one container; any
  console that takes a plain line as one command reads the server's name as words of one command, never as a second one; a number of bots that was
  accepted is one the console lines can be made for; and the limits the container is given, in bytes and in
  billionths of a core, fit the signed 64 bits Docker takes.
\<close>
theorem accepted_specs_are_safe_to_run:
  assumes "validate s = Ok ()"
  shows "plain_part (ss_instance_id s) \<and> list_all id_byte (ss_instance_id s)
    \<and> (utf8_valid (ss_name s) \<longrightarrow> (\<forall>reads. takes_plain reads \<longrightarrow> reads (ss_name s) = [space_words (ss_name s)]))
    \<and> (\<forall>bots p. ss_bots s = Some bots \<longrightarrow> (\<exists>ls. quota_lines p bots = Ok ls))
    \<and> (\<forall>m. so_memory (ss_options s) = Some m \<longrightarrow> container_limit_bytes m < 2 ^ 63)
    \<and> (\<forall>n. so_cpus (ss_options s) = Some n \<longrightarrow> 0 < unat n \<and> unat n * 1000000000 < 2 ^ 63)"
proof (intro conjI allI impI)
  note v = accepted_facts [OF assms] and opts = check_options_Ok [OF accepted_facts(7) [OF assms]]
  show "plain_part (ss_instance_id s)" by (rule validate_id_plain [OF v(1)])
  show "list_all id_byte (ss_instance_id s)" using v(1) by (auto simp: validate_id_def split: if_splits)
  show "reads (ss_name s) = [space_words (ss_name s)]" if "utf8_valid (ss_name s)" "takes_plain reads" for reads
    by (rule reads_plain [OF that(2) server_name_plain [OF v(4) that(1)]])
  show "\<exists>ls. quota_lines p bots = Ok ls" if "ss_bots s = Some bots" for bots p
    by (rule quota_lines_total [OF v(6) [OF that]])
  show "container_limit_bytes m < 2 ^ 63" if "so_memory (ss_options s) = Some m" for m
    by (rule limit_fits [OF opts(1) [OF that]])
  fix n assume "so_cpus (ss_options s) = Some n"
  from opts(2) [OF this] have "n \<noteq> 0" "unat n \<le> 256" by (simp_all add: MAX_CPUS_def)
  then show "0 < unat n" "unat n * 1000000000 < 2 ^ 63" by (simp_all add: unat_gt_0)
qed

theorem accepted_specs_are_safe_to_run_witness:
  "plain_part [105 :: u8] \<and> container_limit_bytes \<lparr>me_min_mb = 1024, me_max_mb = 4096\<rparr> < 2 ^ 63"
  using accepted_specs_are_safe_to_run [OF sample_accepted]
  by (simp add: sample_server_def)

end
