(* ===== verification/Containers.thy ===== *)
theory Containers
  imports Instance
begin

text \<open>
  \<^verbatim>\<open>crates/platform-agent/src/docker.rs\<close>: the containers of a node. The Docker daemon is a parameter, the record
  \<open>daemon\<close> of the calls the code makes, over any state of the machine; what is assumed of it is a hypothesis of the
  theorem that needs it. The state of the runtime is the cached gateway and the daemon.
\<close>

section \<open>Operations that may fail\<close>

type_synonym ('s, 'e, 'a) io = "'s \<Rightarrow> ('e + 'a) \<times> 's"

definition io_ok :: "'a \<Rightarrow> ('s, 'e, 'a) io" where
  "io_ok a s = (Inr a, s)"

definition io_err :: "'e \<Rightarrow> ('s, 'e, 'a) io" where
  "io_err e s = (Inl e, s)"

definition io_bind :: "('s, 'e, 'a) io \<Rightarrow> ('a \<Rightarrow> ('s, 'e, 'b) io) \<Rightarrow> ('s, 'e, 'b) io" where
  "io_bind f g s = (case f s of (Inr a, s) \<Rightarrow> g a s | (Inl e, s) \<Rightarrow> (Inl e, s))"

text \<open>The result as a value: the caller looks at it.\<close>

definition io_try :: "('s, 'e, 'a) io \<Rightarrow> ('s, 'e, 'e + 'a) io" where
  "io_try f s = (case f s of (r, s) \<Rightarrow> (Inr r, s))"

definition io_here :: "'e + 'a \<Rightarrow> ('s, 'e, 'a) io" where
  "io_here r s = (r, s)"

section \<open>Labels\<close>

definition MANAGED_LABEL :: str where "MANAGED_LABEL = ascii ''org.idan2025.gaming-platform-prns.managed''"
definition INSTANCE_LABEL :: str where "INSTANCE_LABEL = ascii ''org.idan2025.gaming-platform-prns.instance''"
definition OWNER_LABEL :: str where "OWNER_LABEL = ascii ''org.idan2025.gaming-platform-prns.owner''"
definition PORTS_LABEL :: str where "PORTS_LABEL = ascii ''org.idan2025.gaming-platform-prns.ports''"
definition GAME_LABEL :: str where "GAME_LABEL = ascii ''org.idan2025.gaming-platform-prns.game''"
definition TASK_LABEL :: str where "TASK_LABEL = ascii ''org.idan2025.gaming-platform-prns.task''"
definition GAMES_NETWORK :: str where "GAMES_NETWORK = ascii ''gpp-games''"
definition GAME_PIDS_LIMIT :: int where "GAME_PIDS_LIMIT = 512"
definition CHANNEL_GAME :: u8 where "CHANNEL_GAME = 0"

fun proto :: "transport \<Rightarrow> str" where
  "proto Udp = ascii ''udp''"
| "proto Tcp = ascii ''tcp''"

definition port_entry :: "published_port \<Rightarrow> str" where
  "port_entry p = show_nat (unat (pp_channel p)) @ [58] @ show_nat (unat (pp_host_port p)) @ [47] @ proto (pp_transport p)"

definition encode_ports_label :: "published_port list \<Rightarrow> str" where
  "encode_ports_label ports = join_with [44] (map port_entry ports)"

text \<open>\<open>str::parse\<close> to an unsigned integer below a bound: an optional plus, then digits.\<close>

definition parse_below :: "nat \<Rightarrow> str \<Rightarrow> nat option" where
  "parse_below bound s =
     (let ds = (if length s > 1 \<and> hd s = 43 then tl s else s) in
      if ds = [] \<or> \<not> list_all is_digit ds \<or> digits_value ds \<ge> bound then None else Some (digits_value ds))"

definition parse_word :: "str \<Rightarrow> 'a::len word option" where
  "parse_word s = map_option of_nat (parse_below (2 ^ LENGTH('a)) s)"

definition decode_entry :: "str \<Rightarrow> port_row option" where
  "decode_entry entry =
     (case split_at_byte 58 entry of None \<Rightarrow> None | Some (channel, rest) \<Rightarrow>
       (case split_at_byte 47 rest of None \<Rightarrow> None | Some (port, protocol) \<Rightarrow>
         (case (if protocol = ascii ''udp'' then Some Udp else if protocol = ascii ''tcp'' then Some Tcp else None) of
            None \<Rightarrow> None
          | Some t \<Rightarrow>
              (case parse_word channel of None \<Rightarrow> None | Some ch \<Rightarrow>
                (case parse_word port of None \<Rightarrow> None | Some p \<Rightarrow>
                  Some \<lparr>pr_channel = ch, pr_host_port = p, pr_transport = t\<rparr>)))))"

definition decode_ports_label :: "str \<Rightarrow> port_row list" where
  "decode_ports_label label = List.map_filter decode_entry (filter (\<lambda>s. s \<noteq> []) (split_all 44 label))"

section \<open>What a container is created with\<close>

record game_runtime =
  gr_image :: str
  gr_content_root :: path
  gr_content_version :: str
  gr_memory_limit_bytes :: "int option"
  gr_nano_cpus :: "int option"
  gr_env :: "(str \<times> str) list"
  gr_bots :: "bot_protocol option"
  gr_writable_paths :: "str list"
  gr_writable_limit_bytes :: "nat option"

text \<open>\<open>gr_nano_cpus\<close> is the operator's fraction of a core, in billionths; the source multiplies.\<close>

definition show_path :: "path \<Rightarrow> str" where
  "show_path p = (if pt_absolute p then [47] else []) @ join_with [47] (pt_parts p)"

definition bind_of :: "mount \<Rightarrow> str" where
  "bind_of m = show_path (mt_host_path m) @ [58] @ show_path (mt_container_path m) @ [58]
     @ (if mt_read_only m then ascii ''ro'' else ascii ''rw'')"

definition show_bool :: "bool \<Rightarrow> str" where
  "show_bool b = (if b then ascii ''true'' else ascii ''false'')"

definition GPP :: str where "GPP = ascii ''GPP_''"

text \<open>One entry of an environment: a variable and its value; \<open>entry\<close> is its text.\<close>

definition entry :: "str \<times> str \<Rightarrow> str" where
  "entry kv = fst kv @ [61] @ snd kv"

definition some_entry :: "string \<Rightarrow> str option \<Rightarrow> (str \<times> str) list" where
  "some_entry k v = (case v of None \<Rightarrow> [] | Some x \<Rightarrow> [(ascii k, x)])"

definition minecraft_env :: "minecraft_settings \<Rightarrow> (str \<times> str) list" where
  "minecraft_env mc =
     [(ascii ''GPP_MC_GAMEMODE'', gamemode_str (mc_gamemode mc)), (ascii ''GPP_MC_DIFFICULTY'', difficulty_str (mc_difficulty mc)),
      (ascii ''GPP_MC_PVP'', show_bool (mc_pvp mc)), (ascii ''GPP_MC_WHITELIST'', show_bool (mc_whitelist mc)),
      (ascii ''GPP_MC_ONLINE_MODE'', show_bool (mc_online_mode mc))] @ some_entry ''GPP_MC_SEED'' (mc_seed mc)"

definition options_env :: "server_options \<Rightarrow> (str \<times> str) list" where
  "options_env p =
     some_entry ''GPP_BUILD'' (so_content_version p)
     @ (case so_memory p of None \<Rightarrow> [] | Some m \<Rightarrow>
          [(ascii ''GPP_MEMORY_MIN_MB'', show_nat (unat (me_min_mb m))), (ascii ''GPP_MEMORY_MAX_MB'', show_nat (unat (me_max_mb m)))])
     @ some_entry ''GPP_CPUS'' (map_option (\<lambda>c. show_nat (unat c)) (so_cpus p))
     @ some_entry ''GPP_EULA_ACCEPTED_AT'' (map_option (\<lambda>t. show_nat (unat t)) (so_eula_accepted_at p))
     @ (case so_minecraft p of None \<Rightarrow> [] | Some mc \<Rightarrow> minecraft_env mc)"

definition game_port :: "published_port list \<Rightarrow> published_port option" where
  "game_port ports = List.find (\<lambda>p. pp_channel p = CHANNEL_GAME) ports"

definition operator_env :: "game_runtime \<Rightarrow> (str \<times> str) list" where
  "operator_env runtime = filter (\<lambda>(k, v). \<not> starts_with GPP k) (gr_env runtime)"

definition platform_env :: "server_spec \<Rightarrow> game_runtime \<Rightarrow> published_port list \<Rightarrow> (str \<times> str) list" where
  "platform_env spec runtime ports =
     [(ascii ''GPP_INSTANCE_ID'', ss_instance_id spec), (ascii ''GPP_GAME_ID'', ss_game_id spec), (ascii ''GPP_SERVER_NAME'', ss_name spec),
      (ascii ''GPP_MAX_PLAYERS'', show_nat (unat (ss_max_players spec))), (ascii ''GPP_CONTENT_ROOT'', show_path (gr_content_root runtime))]
     @ some_entry ''GPP_PORT'' (map_option (\<lambda>p. show_nat (unat (pp_container_port p))) (game_port ports))
     @ some_entry ''GPP_MAP'' (ss_map spec)
     @ some_entry ''GPP_BOTS'' (map_option (\<lambda>b. show_nat (unat b)) (ss_bots spec))
     @ options_env (ss_options spec)"

definition container_env :: "server_spec \<Rightarrow> game_runtime \<Rightarrow> published_port list \<Rightarrow> str list" where
  "container_env spec runtime ports = map entry (operator_env runtime @ platform_env spec runtime ports)"

definition container_labels :: "server_spec \<Rightarrow> published_port list \<Rightarrow> (str, str) table" where
  "container_labels spec ports =
     (let labels = tput PORTS_LABEL (encode_ports_label ports) (tput GAME_LABEL (ss_game_id spec)
        (tput INSTANCE_LABEL (ss_instance_id spec) (tput MANAGED_LABEL [49] []))) in
      case ss_owner spec of None \<Rightarrow> labels | Some owner \<Rightarrow> tput OWNER_LABEL owner labels)"

record container_config =
  cc_image :: str
  cc_labels :: "(str, str) table"
  cc_env :: "str list"
  cc_cmd :: "str list"
  cc_user :: "str option"
  cc_binds :: "str list"
  cc_port_bindings :: "(str, str) table"
  cc_memory :: "int option"
  cc_nano_cpus :: "int option"
  cc_network_mode :: "str option"
  cc_cap_drop :: "str list"
  cc_security_opt :: "str list"
  cc_pids_limit :: "int option"
  cc_init :: bool
  cc_open_stdin :: bool
  cc_stdin_once :: bool

definition container_port :: "published_port \<Rightarrow> str" where
  "container_port p = show_nat (unat (pp_container_port p)) @ [47] @ proto (pp_transport p)"

definition config_of :: "server_spec \<Rightarrow> game_runtime \<Rightarrow> mount list \<Rightarrow> published_port list \<Rightarrow> container_config" where
  "config_of spec runtime mounts ports =
     \<lparr>cc_image = gr_image runtime, cc_labels = container_labels spec ports, cc_env = container_env spec runtime ports,
      cc_cmd = [], cc_user = None, cc_binds = map bind_of mounts,
      cc_port_bindings = fold (\<lambda>p. tput (container_port p) (show_nat (unat (pp_host_port p)))) ports [],
      cc_memory = (case so_memory (ss_options spec) of Some m \<Rightarrow> Some (int (container_limit_bytes m)) | None \<Rightarrow> gr_memory_limit_bytes runtime),
      cc_nano_cpus = (case so_cpus (ss_options spec) of Some n \<Rightarrow> Some (int (unat n) * 1000000000) | None \<Rightarrow> gr_nano_cpus runtime),
      cc_network_mode = Some GAMES_NETWORK, cc_cap_drop = [ascii ''ALL''], cc_security_opt = [ascii ''no-new-privileges''],
      cc_pids_limit = Some GAME_PIDS_LIMIT, cc_init = True, cc_open_stdin = True, cc_stdin_once = False\<rparr>"

section \<open>Reading a container back\<close>

definition env_table :: "str list \<Rightarrow> (str, str) table" where
  "env_table env = fold (\<lambda>(k, v). tput k v) (List.map_filter (split_at_byte 61) env) []"

definition parse_bool_or :: "bool \<Rightarrow> str option \<Rightarrow> bool" where
  "parse_bool_or fallback v = (case v of None \<Rightarrow> fallback | Some t \<Rightarrow> t = ascii ''true'')"

definition gamemode_of :: "str option \<Rightarrow> gamemode" where
  "gamemode_of v =
     (case v of None \<Rightarrow> Survival | Some t \<Rightarrow>
        if t = ascii ''creative'' then Creative else if t = ascii ''adventure'' then Adventure
        else if t = ascii ''spectator'' then Spectator else Survival)"

definition difficulty_of :: "str option \<Rightarrow> difficulty" where
  "difficulty_of v =
     (case v of None \<Rightarrow> Normal | Some t \<Rightarrow>
        if t = ascii ''peaceful'' then Peaceful else if t = ascii ''easy'' then Easy
        else if t = ascii ''hard'' then Hard else Normal)"

definition parsed_var :: "(str, str) table \<Rightarrow> string \<Rightarrow> 'a::len word option" where
  "parsed_var env k = (case tget env (ascii k) of None \<Rightarrow> None | Some v \<Rightarrow> parse_word v)"

definition options_from_env :: "(str, str) table \<Rightarrow> server_options" where
  "options_from_env env =
     \<lparr>so_content_version = tget env (ascii ''GPP_BUILD''),
      so_memory = (case (parsed_var env ''GPP_MEMORY_MIN_MB'', parsed_var env ''GPP_MEMORY_MAX_MB'') of
          (Some lo, Some hi) \<Rightarrow> Some \<lparr>me_min_mb = lo, me_max_mb = hi\<rparr> | _ \<Rightarrow> None),
      so_cpus = parsed_var env ''GPP_CPUS'',
      so_eula_accepted_at = parsed_var env ''GPP_EULA_ACCEPTED_AT'',
      so_minecraft = (if thas env (ascii ''GPP_MC_GAMEMODE'') then
          Some \<lparr>mc_gamemode = gamemode_of (tget env (ascii ''GPP_MC_GAMEMODE'')),
                mc_difficulty = difficulty_of (tget env (ascii ''GPP_MC_DIFFICULTY'')),
                mc_pvp = parse_bool_or True (tget env (ascii ''GPP_MC_PVP'')),
                mc_whitelist = parse_bool_or False (tget env (ascii ''GPP_MC_WHITELIST'')),
                mc_online_mode = parse_bool_or True (tget env (ascii ''GPP_MC_ONLINE_MODE'')),
                mc_seed = tget env (ascii ''GPP_MC_SEED'')\<rparr>
          else None),
      so_stopped = False\<rparr>"

datatype runtime_error =
    Docker str | NotManaged str | NetworkNotIsolated | NoGateway | NotOneLine | NotRunning str | NoConsole str
  | NoConfig str | NoGameLabel str | NoServerName str | NoPlayerLimit str | NoPortLabel str
  | TaskCancelled str | NotATask str

definition spec_from_parts :: "str \<Rightarrow> (str, str) table \<Rightarrow> (str, str) table \<Rightarrow> runtime_error + server_spec" where
  "spec_from_parts i labels env =
     (case tget labels GAME_LABEL of None \<Rightarrow> Inl (NoGameLabel i) | Some game \<Rightarrow>
      (case tget env (ascii ''GPP_SERVER_NAME'') of None \<Rightarrow> Inl (NoServerName i) | Some name \<Rightarrow>
      (case parsed_var env ''GPP_MAX_PLAYERS'' of None \<Rightarrow> Inl (NoPlayerLimit i) | Some players \<Rightarrow>
        let ports = (case tget labels PORTS_LABEL of None \<Rightarrow> [] | Some l \<Rightarrow> decode_ports_label l) in
        (case List.find (\<lambda>p. pr_channel p = CHANNEL_GAME) ports of None \<Rightarrow> Inl (NoPortLabel i) | Some p \<Rightarrow>
          Inr \<lparr>ss_instance_id = i, ss_game_id = game, ss_name = name, ss_max_players = players,
               ss_port = Some (pr_host_port p),
               ss_extra_ports = fold (\<lambda>p. tput (pr_channel p) (pr_host_port p)) (filter (\<lambda>p. pr_channel p \<noteq> CHANNEL_GAME) ports) [],
               ss_bots = parsed_var env ''GPP_BOTS'', ss_map = tget env (ascii ''GPP_MAP''), ss_restart_on_crash = False,
               ss_owner = tget labels OWNER_LABEL, ss_options = options_from_env env\<rparr>))))"

section \<open>The daemon\<close>

record inspected_config =
  ic_labels :: "(str, str) table"
  ic_env :: "str list"
  ic_open_stdin :: bool

record container_state =
  st_running :: "bool option"
  st_restarting :: "bool option"
  st_exit_code :: "int option"
  st_oom_killed :: "bool option"
  st_finished_at :: "str option"
  st_error :: "str option"

record container_info =
  ci_config :: "inspected_config option"
  ci_state :: "container_state option"

record container_summary =
  cs_id :: "str option"
  cs_labels :: "(str, str) table"
  cs_state :: "str option"
  cs_public_ports :: "u16 option list"
  cs_created :: "int option"
  cs_ips :: "str option list"
  cs_mounts :: "str option list"

record network_info =
  ni_icc :: "str option"
  ni_gateways :: "str option list"

datatype daemon_error = NotFound | Refused str

text \<open>\<open>dk_output\<close> is what could be read of a log before its stream ended or broke.\<close>

record 'd daemon =
  dk_list :: "str \<Rightarrow> 'd \<Rightarrow> (daemon_error + container_summary list) \<times> 'd"
  dk_list_named :: "str \<Rightarrow> 'd \<Rightarrow> (daemon_error + container_summary list) \<times> 'd"
  dk_inspect :: "str \<Rightarrow> 'd \<Rightarrow> (daemon_error + container_info) \<times> 'd"
  dk_create :: "str \<Rightarrow> container_config \<Rightarrow> 'd \<Rightarrow> (daemon_error + str) \<times> 'd"
  dk_start :: "str \<Rightarrow> 'd \<Rightarrow> (daemon_error + unit) \<times> 'd"
  dk_stop :: "str \<Rightarrow> 'd \<Rightarrow> (daemon_error + unit) \<times> 'd"
  dk_restart :: "str \<Rightarrow> 'd \<Rightarrow> (daemon_error + unit) \<times> 'd"
  dk_remove :: "str \<Rightarrow> 'd \<Rightarrow> (daemon_error + unit) \<times> 'd"
  dk_attach :: "str \<Rightarrow> bytes \<Rightarrow> 'd \<Rightarrow> (daemon_error + unit) \<times> 'd"
  dk_logs :: "str \<Rightarrow> nat \<Rightarrow> 'd \<Rightarrow> (daemon_error + str) \<times> 'd"
  dk_output :: "str \<Rightarrow> nat \<Rightarrow> 'd \<Rightarrow> str \<times> 'd"
  dk_wait :: "str \<Rightarrow> 'd \<Rightarrow> (daemon_error + int) \<times> 'd"
  dk_network :: "'d \<Rightarrow> (daemon_error + network_info) \<times> 'd"
  dk_create_network :: "'d \<Rightarrow> (daemon_error + unit) \<times> 'd"

type_synonym ('d, 'a) runtime = "(str option \<times> 'd, runtime_error, 'a) io"

definition raw :: "('d \<Rightarrow> (daemon_error + 'a) \<times> 'd) \<Rightarrow> ('d, daemon_error + 'a) runtime" where
  "raw f s = (let (r, d) = f (snd s) in (Inr r, fst s, d))"

definition io_do :: "('d \<Rightarrow> 'a \<times> 'd) \<Rightarrow> ('d, 'a) runtime" where
  "io_do f s = (let (a, d) = f (snd s) in (Inr a, fst s, d))"

text \<open>\<open>?\<close> with its context.\<close>

definition ask_daemon :: "string \<Rightarrow> ('d \<Rightarrow> (daemon_error + 'a) \<times> 'd) \<Rightarrow> ('d, 'a) runtime" where
  "ask_daemon context f = io_bind (raw f) (\<lambda>r. case r of Inr a \<Rightarrow> io_ok a | Inl _ \<Rightarrow> io_err (Docker (ascii context)))"

definition first_some :: "'a option list \<Rightarrow> 'a option" where
  "first_some xs = (case List.map_filter id xs of [] \<Rightarrow> None | x # _ \<Rightarrow> Some x)"

definition games_network_gateway :: "network_info \<Rightarrow> runtime_error + str" where
  "games_network_gateway n =
     (if ni_icc n \<noteq> Some (ascii ''false'') then Inl NetworkNotIsolated
      else case first_some (ni_gateways n) of
        None \<Rightarrow> Inl NoGateway | Some g \<Rightarrow> if g = [] then Inl NoGateway else Inr g)"

definition games_gateway :: "'d daemon \<Rightarrow> ('d, str) runtime" where
  "games_gateway D s =
     (case fst s of
        Some gateway \<Rightarrow> (Inr gateway, s)
      | None \<Rightarrow>
          io_bind (io_bind (raw (dk_network D)) (\<lambda>r. case r of
              Inr network \<Rightarrow> io_ok network
            | Inl NotFound \<Rightarrow> io_bind (raw (dk_create_network D)) (\<lambda>_. ask_daemon ''creating the network'' (dk_network D))
            | Inl (Refused _) \<Rightarrow> io_err (Docker (ascii ''reading the network''))))
            (\<lambda>network. io_bind (io_here (games_network_gateway network)) (\<lambda>gateway (_, d). (Inr gateway, Some gateway, d))) s)"

record managed_container =
  mg_instance_id :: str
  mg_container_id :: str
  mg_state :: instance_state
  mg_port :: "u16 option"
  mg_ports :: "port_row list"
  mg_owner :: "str option"
  mg_game_id :: "str option"
  mg_ip :: "str option"
  mg_created_unix :: "int option"
  mg_mount_sources :: "str list"

definition listed_state :: "str option \<Rightarrow> instance_state" where
  "listed_state st =
     (if st = Some (ascii ''running'') then Running
      else if st = Some (ascii ''created'') then Creating
      else if st \<in> {Some (ascii ''exited''), Some (ascii ''dead''), Some (ascii ''paused'')} then Stopped
      else Unknown)"

definition managed_of :: "container_summary \<Rightarrow> managed_container option" where
  "managed_of c =
     (case tget (cs_labels c) INSTANCE_LABEL of None \<Rightarrow> None | Some i \<Rightarrow>
       let ports = (case tget (cs_labels c) PORTS_LABEL of None \<Rightarrow> [] | Some l \<Rightarrow> decode_ports_label l) in
       Some \<lparr>mg_instance_id = i, mg_container_id = (case cs_id c of None \<Rightarrow> [] | Some x \<Rightarrow> x),
             mg_state = listed_state (cs_state c),
             mg_port = (case List.find (\<lambda>p. pr_channel p = CHANNEL_GAME) ports of
                Some p \<Rightarrow> Some (pr_host_port p) | None \<Rightarrow> first_some (cs_public_ports c)),
             mg_ports = ports, mg_owner = tget (cs_labels c) OWNER_LABEL, mg_game_id = tget (cs_labels c) GAME_LABEL,
             mg_ip = List.find (\<lambda>a. a \<noteq> []) (List.map_filter id (cs_ips c)), mg_created_unix = cs_created c,
             mg_mount_sources = List.map_filter id (cs_mounts c)\<rparr>)"

definition list_managed :: "'d daemon \<Rightarrow> ('d, managed_container list) runtime" where
  "list_managed D = io_bind (ask_daemon ''listing managed containers'' (dk_list D MANAGED_LABEL))
     (\<lambda>cs. io_ok (List.map_filter managed_of cs))"

definition is_managed :: "container_info \<Rightarrow> bool" where
  "is_managed info = (case ci_config info of None \<Rightarrow> False | Some c \<Rightarrow> thas (ic_labels c) MANAGED_LABEL)"

definition assert_managed :: "'d daemon \<Rightarrow> str \<Rightarrow> ('d, unit) runtime" where
  "assert_managed D name = io_bind (ask_daemon ''inspecting container'' (dk_inspect D name)) (\<lambda>info.
     if \<not> is_managed info then io_err (NotManaged name) else io_ok ())"

definition create_and_start :: "'d daemon \<Rightarrow> server_spec \<Rightarrow> game_runtime \<Rightarrow> mount list \<Rightarrow> published_port list \<Rightarrow> ('d, str) runtime" where
  "create_and_start D spec runtime mounts ports =
     (let name = container_name (ss_instance_id spec) in
      io_bind (\<lambda>(_, d). (Inr (), None, d)) (\<lambda>_.
      io_bind (games_gateway D) (\<lambda>_.
      io_bind (ask_daemon ''creating container'' (dk_create D name (config_of spec runtime mounts ports))) (\<lambda>cid.
      io_bind (if \<not> so_stopped (ss_options spec) then ask_daemon ''starting container'' (dk_start D name) else io_ok ()) (\<lambda>_.
        io_ok cid)))))"

text \<open>At most \<open>n\<close> more looks at the list, one every 100 ms.\<close>

definition LIST_CATCH_UP_POLLS :: nat where "LIST_CATCH_UP_POLLS = 50"

fun wait_listed_stopped :: "'d daemon \<Rightarrow> str \<Rightarrow> nat \<Rightarrow> ('d, unit) runtime" where
  "wait_listed_stopped D name n =
     io_bind (raw (dk_list_named D name)) (\<lambda>listed.
       let running = (case listed of Inr cs \<Rightarrow> list_ex (\<lambda>c. cs_state c = Some (ascii ''running'')) cs | Inl _ \<Rightarrow> False) in
       if \<not> running then io_ok ()
       else case n of 0 \<Rightarrow> io_ok () | Suc m \<Rightarrow> wait_listed_stopped D name m)"

declare wait_listed_stopped.simps [simp del]

definition rt_stop :: "'d daemon \<Rightarrow> str \<Rightarrow> ('d, unit) runtime" where
  "rt_stop D i = (let name = container_name i in
     io_bind (assert_managed D name) (\<lambda>_.
     io_bind (ask_daemon ''stopping container'' (dk_stop D name)) (\<lambda>_.
     wait_listed_stopped D name LIST_CATCH_UP_POLLS)))"

definition rt_restart :: "'d daemon \<Rightarrow> str \<Rightarrow> ('d, unit) runtime" where
  "rt_restart D i = (let name = container_name i in
     io_bind (assert_managed D name) (\<lambda>_. ask_daemon ''restarting container'' (dk_restart D name)))"

definition rt_remove :: "'d daemon \<Rightarrow> str \<Rightarrow> ('d, unit) runtime" where
  "rt_remove D i = (let name = container_name i in
     io_bind (assert_managed D name) (\<lambda>_. ask_daemon ''removing container'' (dk_remove D name)))"

definition state_of :: "'d daemon \<Rightarrow> str \<Rightarrow> ('d, instance_state) runtime" where
  "state_of D i = io_bind (raw (dk_inspect D (container_name i))) (\<lambda>r. case r of
       Inr info \<Rightarrow>
         if \<not> is_managed info then io_ok Unknown
         else io_ok (case (case ci_state info of None \<Rightarrow> None | Some st \<Rightarrow> st_running st) of
            Some True \<Rightarrow> Running | Some False \<Rightarrow> Stopped | None \<Rightarrow> Unknown)
     | Inl NotFound \<Rightarrow> io_ok Missing
     | Inl (Refused _) \<Rightarrow> io_err (Docker (ascii ''inspecting container'')))"

definition send_console_line :: "'d daemon \<Rightarrow> str \<Rightarrow> str \<Rightarrow> ('d, unit) runtime" where
  "send_console_line D i line =
     (if 10 \<in> set line \<or> 13 \<in> set line then io_err NotOneLine
      else let name = container_name i in
        io_bind (assert_managed D name) (\<lambda>_.
        io_bind (state_of D i) (\<lambda>st.
        if st \<noteq> Running then io_err (NotRunning i)
        else io_bind (ask_daemon ''inspecting container'' (dk_inspect D name)) (\<lambda>info.
          if \<not> (case ci_config info of None \<Rightarrow> False | Some c \<Rightarrow> ic_open_stdin c) then io_err (NoConsole i)
          else ask_daemon ''writing to the console'' (dk_attach D name (line @ [10]))))))"

definition logs_tail :: "'d daemon \<Rightarrow> str \<Rightarrow> nat \<Rightarrow> ('d, str) runtime" where
  "logs_tail D i lines = (let name = container_name i in
     io_bind (assert_managed D name) (\<lambda>_. ask_daemon ''reading the log'' (dk_logs D name lines)))"

definition exit_of :: "container_info \<Rightarrow> last_exit option" where
  "exit_of info =
     (case ci_state info of None \<Rightarrow> None | Some st \<Rightarrow>
       if st_running st = Some True \<or> st_restarting st = Some True then None
       else case (case st_finished_at st of None \<Rightarrow> None | Some t \<Rightarrow> if starts_with (ascii ''0001-'') t then None else Some t) of
          None \<Rightarrow> None
        | Some t \<Rightarrow> Some \<lparr>le_code = (case st_exit_code st of None \<Rightarrow> 0 | Some c \<Rightarrow> c),
            le_oom_killed = (st_oom_killed st = Some True), le_finished_at = Some t,
            le_error = (case st_error st of None \<Rightarrow> None | Some e \<Rightarrow> if e = [] then None else Some e)\<rparr>)"

definition last_exit_of :: "'d daemon \<Rightarrow> str \<Rightarrow> ('d, last_exit option) runtime" where
  "last_exit_of D cid = io_bind (ask_daemon ''inspecting container'' (dk_inspect D cid)) (\<lambda>info. io_ok (exit_of info))"

definition spec_of :: "'d daemon \<Rightarrow> str \<Rightarrow> ('d, server_spec) runtime" where
  "spec_of D i = (let name = container_name i in
     io_bind (assert_managed D name) (\<lambda>_.
     io_bind (ask_daemon ''inspecting container'' (dk_inspect D name)) (\<lambda>info.
       case ci_config info of None \<Rightarrow> io_err (NoConfig name)
       | Some c \<Rightarrow> io_here (spec_from_parts i (ic_labels c) (env_table (ic_env c))))))"

section \<open>One-shot containers\<close>

definition task_config :: "str \<Rightarrow> str list \<Rightarrow> mount list \<Rightarrow> int option \<Rightarrow> str list \<Rightarrow> str \<Rightarrow> container_config" where
  "task_config img cmd mounts memory env user =
     \<lparr>cc_image = img, cc_labels = tput TASK_LABEL [49] (tput MANAGED_LABEL [49] []), cc_env = env, cc_cmd = cmd,
      cc_user = Some user, cc_binds = map bind_of mounts, cc_port_bindings = [], cc_memory = memory, cc_nano_cpus = None,
      cc_network_mode = None, cc_cap_drop = [], cc_security_opt = [], cc_pids_limit = None, cc_init = False,
      cc_open_stdin = False, cc_stdin_once = False\<rparr>"

definition await_task :: "'d daemon \<Rightarrow> str \<Rightarrow> nat \<Rightarrow> ('d, int \<times> str) runtime" where
  "await_task D name tail_lines =
     io_bind (ask_daemon ''starting task container'' (dk_start D name)) (\<lambda>_.
     io_bind (ask_daemon ''waiting for a task'' (dk_wait D name)) (\<lambda>code.
     io_bind (io_do (dk_output D name tail_lines)) (\<lambda>output. io_ok (code, output))))"

definition run_task :: "'d daemon \<Rightarrow> str \<Rightarrow> str \<Rightarrow> str list \<Rightarrow> mount list \<Rightarrow> int option \<Rightarrow> str list \<Rightarrow> str \<Rightarrow> bool \<Rightarrow> nat
    \<Rightarrow> ('d, int \<times> str) runtime" where
  "run_task D name img cmd mounts memory env user cancelled tail_lines =
     io_bind (ask_daemon ''creating task container'' (dk_create D name (task_config img cmd mounts memory env user))) (\<lambda>_.
     if cancelled
     then io_bind (raw (dk_remove D name)) (\<lambda>_. io_err (TaskCancelled name))
     else io_bind (io_try (await_task D name tail_lines)) (\<lambda>result.
          io_bind (raw (dk_remove D name)) (\<lambda>_. io_here result)))"

definition remove_task :: "'d daemon \<Rightarrow> str \<Rightarrow> ('d, unit) runtime" where
  "remove_task D name =
     io_bind (raw (dk_inspect D name)) (\<lambda>r. case r of
       Inl NotFound \<Rightarrow> io_ok ()
     | Inl (Refused _) \<Rightarrow> io_err (Docker (ascii ''inspecting task container''))
     | Inr info \<Rightarrow>
         let labels = (case ci_config info of None \<Rightarrow> [] | Some c \<Rightarrow> ic_labels c) in
         if \<not> (thas labels MANAGED_LABEL \<and> thas labels TASK_LABEL) then io_err (NotATask name)
         else io_bind (raw (dk_remove D name)) (\<lambda>r. case r of
            Inr _ \<Rightarrow> io_ok () | Inl NotFound \<Rightarrow> io_ok () | Inl (Refused _) \<Rightarrow> io_err (Docker (ascii ''removing task container''))))"

section \<open>Text there and back\<close>

lemma ascii_eq_iff: "ascii s = ascii t \<longleftrightarrow> s = t"
proof
  have inj: "of_nat (of_char x) = (of_nat (of_char y) :: u8) \<Longrightarrow> x = y" for x y :: char
  proof -
    assume "of_nat (of_char x) = (of_nat (of_char y) :: u8)"
    then have "unat (of_nat (of_char x) :: u8) = unat (of_nat (of_char y) :: u8)" by simp
    moreover have "unat (of_nat (of_char z) :: u8) = of_char z" for z :: char
      by (simp add: unat_of_nat of_char_mod_256)
    ultimately show "x = y" by simp
  qed
  assume "ascii s = ascii t"
  then show "s = t" unfolding ascii_def
    by (induction s arbitrary: t) (auto dest: inj)
qed simp

lemma parse_show_word: "parse_word (show_nat (unat (w :: 'a::len word))) = Some w"
proof -
  have "hd (show_nat (unat w)) \<noteq> 43"
    using show_nat_digits [of "unat w"] by (cases "show_nat (unat w)") (auto simp: is_digit_def)
  then show ?thesis
    using show_nat_digits [of "unat w"] unsigned_less [of w, where ?'a = nat]
    by (simp add: parse_word_def parse_below_def not_le)
qed

lemma show_nat_no: "b \<notin> {48..57} \<Longrightarrow> b \<notin> set (show_nat n)"
  using show_nat_digits [of n] by (auto simp: list_all_iff is_digit_def word_le_nat_alt)

lemma proto_text: "44 \<notin> set (proto t)" "proto t = ascii ''udp'' \<longleftrightarrow> t = Udp" "proto t = ascii ''tcp'' \<longleftrightarrow> t = Tcp"
  by (cases t; simp add: ascii_def)+

definition row_of :: "published_port \<Rightarrow> port_row" where
  "row_of p = \<lparr>pr_channel = pp_channel p, pr_host_port = pp_host_port p, pr_transport = pp_transport p\<rparr>"

lemma decode_port_entry: "decode_entry (port_entry p) = Some (row_of p)"
proof -
  have "58 \<notin> set (show_nat (unat (pp_channel p)))" "47 \<notin> set (show_nat (unat (pp_host_port p)))"
    by (rule show_nat_no, simp add: word_le_nat_alt)+
  then show ?thesis
    by (cases "pp_transport p")
      (simp_all add: decode_entry_def port_entry_def split_at_byte_append parse_show_word row_of_def ascii_eq_iff)
qed

lemma port_entry_text: "44 \<notin> set (port_entry p)" "port_entry p \<noteq> []"
proof -
  have "44 \<notin> set (show_nat n)" for n by (rule show_nat_no) (simp add: word_le_nat_alt)
  then show "44 \<notin> set (port_entry p)" by (simp add: port_entry_def proto_text)
  show "port_entry p \<noteq> []" by (simp add: port_entry_def)
qed

lemma split_join: "list_all (\<lambda>p. c \<notin> set p) ps \<Longrightarrow> ps \<noteq> [] \<Longrightarrow> split_all c (join_with [c] ps) = ps"
  by (induction "[c]" ps rule: join_with.induct) (simp_all add: split_all_alone split_all_piece)

lemma decode_encode_ports: "decode_ports_label (encode_ports_label ports) = map row_of ports"
proof (cases "ports = []")
  case True
  then show ?thesis by (simp add: decode_ports_label_def encode_ports_label_def List.map_filter_def)
next
  case False
  have "split_all 44 (join_with [44] (map port_entry ports)) = map port_entry ports"
    by (rule split_join) (simp_all add: list_all_iff port_entry_text False)
  then show ?thesis
    by (simp add: decode_ports_label_def encode_ports_label_def List.map_filter_def filter_id_conv port_entry_text comp_def decode_port_entry)
qed

section \<open>A container's environment read back\<close>

lemma tget_fold: "tget (fold (\<lambda>(k, v). tput k v) kvs t) k = (case map_of (rev kvs) k of Some v \<Rightarrow> Some v | None \<Rightarrow> tget t k)"
proof (induction kvs arbitrary: t)
  case (Cons kv kvs)
  then show ?case by (cases kv) (auto simp: tbl.get_put map_add_def split: option.split)
qed simp

lemma tget_env: "tget (env_table E) k = map_of (rev (List.map_filter (split_at_byte 61) E)) k"
  by (simp add: env_table_def tget_fold tbl.get_empty split: option.split)

lemma split_at_byte_Some: "split_at_byte c s = Some (l, r) \<Longrightarrow> s = l @ c # r \<and> c \<notin> set l"
  by (induction s arbitrary: l) (auto split: if_splits)

lemma starts_before: "c \<notin> set pre \<Longrightarrow> starts_with pre (k @ c # v) \<longleftrightarrow> starts_with pre k"
proof
  assume c: "c \<notin> set pre" and st: "starts_with pre (k @ c # v)"
  show "starts_with pre k"
  proof (cases "length pre \<le> length k")
    case True
    then show ?thesis using st by (simp add: starts_with_def)
  next
    case False
    then have pre: "pre = k @ take (length pre - length k) (c # v)" using st by (simp add: starts_with_def)
    obtain n where "length pre - length k = Suc n" using False by (cases "length pre - length k") auto
    then have "c \<in> set pre" by (subst pre) simp
    with c show ?thesis by simp
  qed
next
  assume k: "starts_with pre k"
  then have "length pre \<le> length k" unfolding starts_with_def by (metis length_take min.cobounded1)
  with k show "starts_with pre (k @ c # v)" by (simp add: starts_with_def)
qed

lemma GPP_no_equals: "61 \<notin> set GPP"
  by (simp add: GPP_def ascii_def)

lemma map_filter_split_gpp:
  "filter (\<lambda>(k, v). starts_with GPP k) (List.map_filter (split_at_byte 61) E)
     = List.map_filter (split_at_byte 61) (filter (starts_with GPP) E)"
  by (induction E)
    (auto simp: List.map_filter_simps starts_before [OF GPP_no_equals] split: option.splits dest!: split_at_byte_Some)

lemma map_of_filter_keys: "P k \<Longrightarrow> map_of (filter (\<lambda>(k, v). P k) kvs) k = map_of kvs k"
  by (induction kvs) auto

lemma tget_env_gpp:
  assumes "starts_with GPP k"
  shows "tget (env_table E) k = map_of (rev (List.map_filter (split_at_byte 61) (filter (starts_with GPP) E))) k"
  using map_of_filter_keys [of "starts_with GPP" k "rev (List.map_filter (split_at_byte 61) E)"] assms
  by (simp add: tget_env rev_filter map_filter_split_gpp [symmetric])

lemma split_entry: "61 \<notin> set k \<Longrightarrow> split_at_byte 61 (entry (k, v)) = Some (k, v)"
  by (simp add: entry_def split_at_byte_append)

lemma map_filter_entries:
  "list_all (\<lambda>(k, v). 61 \<notin> set k) kvs \<Longrightarrow> List.map_filter (split_at_byte 61) (map entry kvs) = kvs"
  by (induction kvs) (auto simp: List.map_filter_simps split_entry)

lemma starts_entry: "starts_with GPP (entry (k, v)) \<longleftrightarrow> starts_with GPP k"
  by (simp add: entry_def starts_before GPP_no_equals)

lemma ascii_no_equals: "CHR ''='' \<notin> set s \<Longrightarrow> 61 \<notin> set (ascii s)"
proof
  assume no: "CHR ''='' \<notin> set s" and "61 \<in> set (ascii s)"
  then obtain x where "x \<in> set s" "of_nat (of_char x) = (61 :: u8)" by (auto simp: ascii_def)
  moreover from this(2) have "ascii [x] = ascii ''=''" by (simp add: ascii_def)
  ultimately show False using no by (simp add: ascii_eq_iff)
qed

lemma starts_ascii: "starts_with GPP (ascii s) \<longleftrightarrow> take 4 s = ''GPP_''"
proof -
  have "length GPP = 4" by (simp add: GPP_def ascii_def)
  then have "starts_with GPP (ascii s) \<longleftrightarrow> ascii (take 4 s) = ascii ''GPP_''"
    unfolding starts_with_def ascii_def GPP_def by (simp only: take_map)
  then show ?thesis by (simp add: ascii_eq_iff)
qed

lemma some_entry_simps [simp]:
  "rev (some_entry k v) = some_entry k v" "map_of (some_entry k v) x = (if x = ascii k then v else None)"
  by (cases v; simp add: some_entry_def)+

definition gpp_entry :: "str \<times> str \<Rightarrow> bool" where
  "gpp_entry = (\<lambda>(k, v). starts_with GPP k \<and> 61 \<notin> set k)"

lemma gpp_some: "list_all gpp_entry (some_entry k v) \<longleftrightarrow> v = None \<or> gpp_entry (ascii k, [])"
  by (cases v) (auto simp: some_entry_def gpp_entry_def)

lemma gpp_ascii: "gpp_entry (ascii k, v) \<longleftrightarrow> take 4 k = ''GPP_'' \<and> 61 \<notin> set (ascii k)"
  by (simp add: gpp_entry_def starts_ascii)

lemma platform_gpp: "list_all gpp_entry (platform_env spec runtime ports)"
  by (simp add: platform_env_def options_env_def minecraft_env_def gpp_some gpp_ascii ascii_no_equals split: option.split)

lemma kept_entries:
  assumes "filter (starts_with GPP) E = filter (starts_with GPP) (container_env spec runtime ports)" "starts_with GPP k"
  shows "tget (env_table E) k = map_of (rev (platform_env spec runtime ports)) k"
proof -
  have "filter (starts_with GPP) (map entry (operator_env runtime)) = []"
    by (auto simp: operator_env_def filter_empty_conv starts_entry)
  moreover have "filter (starts_with GPP) (map entry (platform_env spec runtime ports)) = map entry (platform_env spec runtime ports)"
    using platform_gpp [of spec runtime ports] by (auto simp: filter_id_conv list_all_iff gpp_entry_def starts_entry)
  ultimately have "filter (starts_with GPP) E = map entry (platform_env spec runtime ports)"
    by (simp add: assms(1) container_env_def)
  moreover have "list_all (\<lambda>(k, v). 61 \<notin> set k) (platform_env spec runtime ports)"
    using platform_gpp [of spec runtime ports] by (auto simp: list_all_iff gpp_entry_def)
  ultimately show ?thesis by (simp add: tget_env_gpp [OF assms(2)] map_filter_entries)
qed

lemmas platform_lookup = platform_env_def options_env_def minecraft_env_def map_add_def ascii_eq_iff

lemma platform_vars:
  "map_of (rev (platform_env spec runtime ports)) (ascii ''GPP_SERVER_NAME'') = Some (ss_name spec)"
  "map_of (rev (platform_env spec runtime ports)) (ascii ''GPP_MAX_PLAYERS'') = Some (show_nat (unat (ss_max_players spec)))"
  "map_of (rev (platform_env spec runtime ports)) (ascii ''GPP_MAP'') = ss_map spec"
  "map_of (rev (platform_env spec runtime ports)) (ascii ''GPP_BOTS'') = map_option (\<lambda>b. show_nat (unat b)) (ss_bots spec)"
  by (simp_all add: platform_lookup split: option.split)

lemma options_vars:
  fixes spec runtime ports
  defines "L \<equiv> map_of (rev (platform_env spec runtime ports))" and "p \<equiv> ss_options spec"
  shows "L (ascii ''GPP_BUILD'') = so_content_version p"
    "L (ascii ''GPP_MEMORY_MIN_MB'') = map_option (\<lambda>m. show_nat (unat (me_min_mb m))) (so_memory p)"
    "L (ascii ''GPP_MEMORY_MAX_MB'') = map_option (\<lambda>m. show_nat (unat (me_max_mb m))) (so_memory p)"
    "L (ascii ''GPP_CPUS'') = map_option (\<lambda>n. show_nat (unat n)) (so_cpus p)"
    "L (ascii ''GPP_EULA_ACCEPTED_AT'') = map_option (\<lambda>n. show_nat (unat n)) (so_eula_accepted_at p)"
  unfolding L_def p_def by (simp_all add: platform_lookup split: option.split)

lemma minecraft_vars:
  fixes spec runtime ports
  defines "L \<equiv> map_of (rev (platform_env spec runtime ports))" and "p \<equiv> so_minecraft (ss_options spec)"
  shows "L (ascii ''GPP_MC_GAMEMODE'') = map_option (\<lambda>m. gamemode_str (mc_gamemode m)) p"
    "L (ascii ''GPP_MC_DIFFICULTY'') = map_option (\<lambda>m. difficulty_str (mc_difficulty m)) p"
    "L (ascii ''GPP_MC_PVP'') = map_option (\<lambda>m. show_bool (mc_pvp m)) p"
    "L (ascii ''GPP_MC_WHITELIST'') = map_option (\<lambda>m. show_bool (mc_whitelist m)) p"
    "L (ascii ''GPP_MC_ONLINE_MODE'') = map_option (\<lambda>m. show_bool (mc_online_mode m)) p"
    "L (ascii ''GPP_MC_SEED'') = (case p of None \<Rightarrow> None | Some m \<Rightarrow> mc_seed m)"
  unfolding L_def p_def by (simp_all add: platform_lookup split: option.split)

lemma words_back:
  "gamemode_of (Some (gamemode_str g)) = g" "difficulty_of (Some (difficulty_str d)) = d"
  "parse_bool_or fallback (Some (show_bool b)) = b"
proof -
  show "gamemode_of (Some (gamemode_str g)) = g" by (cases g) (simp_all add: gamemode_of_def ascii_eq_iff)
  show "difficulty_of (Some (difficulty_str d)) = d" by (cases d) (simp_all add: difficulty_of_def ascii_eq_iff)
  show "parse_bool_or fallback (Some (show_bool b)) = b" by (simp add: parse_bool_or_def show_bool_def ascii_eq_iff)
qed

lemma options_back:
  assumes "\<And>k. starts_with GPP (ascii k) \<Longrightarrow> tget env (ascii k) = map_of (rev (platform_env spec runtime ports)) (ascii k)"
  shows "options_from_env env = (ss_options spec)\<lparr>so_stopped := False\<rparr>"
proof -
  note t = assms [unfolded starts_ascii]
  obtain v me cpu eu mc st where p: "ss_options spec = \<lparr>so_content_version = v, so_memory = me, so_cpus = cpu,
      so_eula_accepted_at = eu, so_minecraft = mc, so_stopped = st\<rparr>" by (cases "ss_options spec") blast
  show ?thesis
    by (cases me; cases cpu; cases eu; cases mc)
      (simp_all add: options_from_env_def parsed_var_def t options_vars minecraft_vars p thas_def parse_show_word words_back)
qed

lemma label_names:
  "distinct [MANAGED_LABEL, INSTANCE_LABEL, OWNER_LABEL, PORTS_LABEL, GAME_LABEL, TASK_LABEL]"
  by (simp add: MANAGED_LABEL_def INSTANCE_LABEL_def OWNER_LABEL_def PORTS_LABEL_def GAME_LABEL_def TASK_LABEL_def ascii_eq_iff)

lemma labels_back:
  "tget (container_labels spec ports) GAME_LABEL = Some (ss_game_id spec)"
  "tget (container_labels spec ports) PORTS_LABEL = Some (encode_ports_label ports)"
  "tget (container_labels spec ports) INSTANCE_LABEL = Some (ss_instance_id spec)"
  "tget (container_labels spec ports) OWNER_LABEL = ss_owner spec"
  "thas (container_labels spec ports) MANAGED_LABEL"
  using label_names by (auto simp: container_labels_def Let_def tbl.get_put tbl.get_empty thas_def split: option.split)

lemma game_row: "List.find (\<lambda>p. pr_channel p = CHANNEL_GAME) (map row_of ports) = map_option row_of (game_port ports)"
  unfolding game_port_def by (induction ports) (auto simp: row_of_def)

definition extra_ports_of :: "published_port list \<Rightarrow> (u8, u16) table" where
  "extra_ports_of ports = fold (\<lambda>p. tput (pp_channel p) (pp_host_port p)) (filter (\<lambda>p. pp_channel p \<noteq> CHANNEL_GAME) ports) []"

lemma extra_rows:
  "fold (\<lambda>p. tput (pr_channel p) (pr_host_port p)) (filter (\<lambda>p. pr_channel p \<noteq> CHANNEL_GAME) (map row_of ports)) t
     = fold (\<lambda>p. tput (pp_channel p) (pp_host_port p)) (filter (\<lambda>p. pp_channel p \<noteq> CHANNEL_GAME) ports) t"
  by (induction ports arbitrary: t) (simp_all add: row_of_def)

definition requested_port :: "server_spec \<Rightarrow> u8 \<Rightarrow> u16 option" where
  "requested_port spec channel = (if channel = CHANNEL_GAME then ss_port spec else tget (ss_extra_ports spec) channel)"

lemma extra_ports_get:
  assumes "distinct (map pp_channel ports)" "p \<in> set ports" "pp_channel p \<noteq> CHANNEL_GAME"
  shows "tget (extra_ports_of ports) (pp_channel p) = Some (pp_host_port p)"
proof -
  have "tget (fold (\<lambda>p. tput (pp_channel p) (pp_host_port p)) (filter (\<lambda>p. pp_channel p \<noteq> CHANNEL_GAME) ps) t) (pp_channel p)
      = (if p \<in> set ps then Some (pp_host_port p) else tget t (pp_channel p))"
    if "distinct (map pp_channel ps)" "p \<in> set ps \<or> pp_channel p \<notin> pp_channel ` set ps" for ps t
    using that
  proof (induction ps arbitrary: t)
    case (Cons q ps)
    show ?case
    proof (cases "p = q")
      case True
      then show ?thesis using Cons.IH [of "tput (pp_channel q) (pp_host_port q) t"] Cons.prems assms(3) by (auto simp: tbl.get_put)
    next
      case False
      then have "pp_channel q \<noteq> pp_channel p \<or> p \<notin> set ps" using Cons.prems by auto
      then show ?thesis using Cons.IH False Cons.prems by (auto simp: tbl.get_put)
    qed
  qed simp
  from this [OF assms(1), of "[]"] assms(2) show ?thesis by (simp add: extra_ports_of_def)
qed

lemma game_port_get:
  assumes "distinct (map pp_channel ports)" "p \<in> set ports" "pp_channel p = CHANNEL_GAME"
  shows "game_port ports = Some p"
  using assms unfolding game_port_def by (induction ports) (auto simp: image_iff)

lemma spec_back:
  assumes "filter (starts_with GPP) E = filter (starts_with GPP) (container_env spec runtime ports)" "game_port ports = Some p"
    "tget L GAME_LABEL = Some (ss_game_id spec)" "tget L PORTS_LABEL = Some (encode_ports_label ports)" "tget L OWNER_LABEL = ss_owner spec"
  shows "spec_from_parts (ss_instance_id spec) L (env_table E)
    = Inr (spec\<lparr>ss_port := Some (pp_host_port p), ss_extra_ports := extra_ports_of ports, ss_restart_on_crash := False,
        ss_options := (ss_options spec)\<lparr>so_stopped := False\<rparr>\<rparr>)"
proof -
  have t: "tget (env_table E) (ascii k) = map_of (rev (platform_env spec runtime ports)) (ascii k)" if "starts_with GPP (ascii k)" for k
    by (rule kept_entries [OF assms(1) that])
  have opts: "options_from_env (env_table E) = (ss_options spec)\<lparr>so_stopped := False\<rparr>"
    by (rule options_back) (rule t)
  have bots: "parsed_var (env_table E) ''GPP_BOTS'' = ss_bots spec"
    by (cases "ss_bots spec") (simp_all add: parsed_var_def t starts_ascii platform_vars parse_show_word)
  show ?thesis
    by (simp add: spec_from_parts_def assms(3-5) t starts_ascii platform_vars parsed_var_def [of _ "''GPP_MAX_PLAYERS''"]
        parse_show_word decode_encode_ports game_row assms(2) Let_def opts bots extra_rows extra_ports_of_def)
      (cases spec, simp add: row_of_def)
qed

section \<open>What is done to which container\<close>

text \<open>The calls that reach the daemon, each with the container it names; \<open>noted\<close> writes them down.\<close>

datatype daemon_call = Looked str bool | Made str | Touched str

definition quiet :: "('d \<Rightarrow> 'r \<times> 'd) \<Rightarrow> 'l \<times> 'd \<Rightarrow> 'r \<times> 'l \<times> 'd" where
  "quiet f s = (let (r, d) = f (snd s) in (r, fst s, d))"

definition noting :: "('r \<Rightarrow> daemon_call list) \<Rightarrow> ('d \<Rightarrow> 'r \<times> 'd) \<Rightarrow> daemon_call list \<times> 'd \<Rightarrow> 'r \<times> daemon_call list \<times> 'd" where
  "noting c f s = (let (r, d) = f (snd s) in (r, fst s @ c r, d))"

definition noted :: "'d daemon \<Rightarrow> (daemon_call list \<times> 'd) daemon" where
  "noted D =
     \<lparr>dk_list = \<lambda>x. quiet (dk_list D x), dk_list_named = \<lambda>x. quiet (dk_list_named D x),
      dk_inspect = \<lambda>n. noting (\<lambda>r. [Looked n (case r of Inr info \<Rightarrow> is_managed info | Inl _ \<Rightarrow> False)]) (dk_inspect D n),
      dk_create = \<lambda>n c. noting (\<lambda>r. case r of Inr _ \<Rightarrow> [Made n] | Inl _ \<Rightarrow> []) (dk_create D n c),
      dk_start = \<lambda>n. noting (\<lambda>_. [Touched n]) (dk_start D n), dk_stop = \<lambda>n. noting (\<lambda>_. [Touched n]) (dk_stop D n),
      dk_restart = \<lambda>n. noting (\<lambda>_. [Touched n]) (dk_restart D n), dk_remove = \<lambda>n. noting (\<lambda>_. [Touched n]) (dk_remove D n),
      dk_attach = \<lambda>n b. noting (\<lambda>_. [Touched n]) (dk_attach D n b), dk_logs = \<lambda>n k. noting (\<lambda>_. [Touched n]) (dk_logs D n k),
      dk_output = \<lambda>n k. noting (\<lambda>_. [Touched n]) (dk_output D n k), dk_wait = \<lambda>n. noting (\<lambda>_. [Touched n]) (dk_wait D n),
      dk_network = quiet (dk_network D), dk_create_network = quiet (dk_create_network D)\<rparr>"

text \<open>A container is touched only after it was seen to carry the label, or was made.\<close>

fun only_own :: "str set \<Rightarrow> daemon_call list \<Rightarrow> bool" where
  "only_own known [] = True"
| "only_own known (Looked n m # l) = only_own (if m then insert n known else known) l"
| "only_own known (Made n # l) = only_own (insert n known) l"
| "only_own known (Touched n # l) = (n \<in> known \<and> only_own known l)"

fun learned :: "str set \<Rightarrow> daemon_call list \<Rightarrow> str set" where
  "learned known [] = known"
| "learned known (Looked n m # l) = learned (if m then insert n known else known) l"
| "learned known (Made n # l) = learned (insert n known) l"
| "learned known (Touched n # l) = learned known l"

lemma only_own_mono: "only_own K l \<Longrightarrow> K \<subseteq> K' \<Longrightarrow> only_own K' l"
  by (induction K l arbitrary: K' rule: only_own.induct) (auto split: if_splits, blast+)

lemma only_own_append: "only_own K (l @ l') \<longleftrightarrow> only_own K l \<and> only_own (learned K l) l'"
  by (induction K l rule: only_own.induct) auto

lemma learned_append: "learned K (l @ l') = learned (learned K l) l'"
  by (induction K l rule: only_own.induct) auto

lemma learned_mono: "K \<subseteq> K' \<Longrightarrow> learned K l \<subseteq> learned K' l"
  by (induction K l arbitrary: K' rule: learned.induct) (auto, blast+)

lemma learned_grows: "K \<subseteq> learned K l"
  by (induction K l rule: learned.induct) (auto split: if_splits)

text \<open>\<open>own K m Q\<close>: knowing \<open>K\<close>, what \<open>m\<close> calls is allowed, and after a result \<open>a\<close> it knows \<open>Q a\<close> too.\<close>

definition own :: "str set \<Rightarrow> (daemon_call list \<times> 'd, 'a) runtime \<Rightarrow> ('a \<Rightarrow> str set) \<Rightarrow> bool" where
  "own K m Q \<longleftrightarrow> (\<forall>g l d. \<exists>r g' l' d'. m (g, l, d) = (r, g', l @ l', d') \<and> only_own K l'
     \<and> (case r of Inr a \<Rightarrow> Q a \<subseteq> learned K l' | Inl _ \<Rightarrow> True))"

lemma own_bind:
  assumes "own K f Q" "\<And>a. own (K \<union> Q a) (g a) R"
  shows "own K (io_bind f g) R"
  unfolding own_def
proof (intro allI)
  fix gw l d
  obtain r g1 l1 d1 where f: "f (gw, l, d) = (r, g1, l @ l1, d1)" "only_own K l1"
    and q: "case r of Inr a \<Rightarrow> Q a \<subseteq> learned K l1 | Inl _ \<Rightarrow> True"
    using assms(1) unfolding own_def by blast
  show "\<exists>r g' l' d'. io_bind f g (gw, l, d) = (r, g', l @ l', d') \<and> only_own K l'
      \<and> (case r of Inr a \<Rightarrow> R a \<subseteq> learned K l' | Inl _ \<Rightarrow> True)"
  proof (cases r)
    case (Inl e)
    then show ?thesis using f by (simp add: io_bind_def)
  next
    case (Inr a)
    obtain r2 g2 l2 d2 where g: "g a (g1, l @ l1, d1) = (r2, g2, (l @ l1) @ l2, d2)" "only_own (K \<union> Q a) l2"
      and rr: "case r2 of Inr b \<Rightarrow> R b \<subseteq> learned (K \<union> Q a) l2 | Inl _ \<Rightarrow> True"
      using assms(2) [of a] unfolding own_def by blast
    have sub: "K \<union> Q a \<subseteq> learned K l1" using q Inr learned_grows [of K l1] by auto
    have "only_own K (l1 @ l2)" using f(2) only_own_mono [OF g(2) sub] by (simp add: only_own_append)
    moreover have "case r2 of Inr b \<Rightarrow> R b \<subseteq> learned K (l1 @ l2) | Inl _ \<Rightarrow> True"
      using rr learned_mono [OF sub, of l2] by (auto simp: learned_append split: sum.splits)
    ultimately show ?thesis using f(1) g(1) Inr by (simp add: io_bind_def)
  qed
qed

lemma own_leaf:
  "own K (io_ok a) (\<lambda>_. {})" "own K (io_err e) Q" "own K (io_here x) (\<lambda>_. {})"
  by (simp_all add: own_def io_ok_def io_err_def io_here_def split: sum.split)

lemma own_ok: "Q a \<subseteq> K \<Longrightarrow> own K (io_ok a) Q"
  by (simp add: own_def io_ok_def)

lemma own_mono: "own K m Q \<Longrightarrow> K \<subseteq> K' \<Longrightarrow> (\<And>a. Q' a \<subseteq> Q a) \<Longrightarrow> own K' m Q'"
  unfolding own_def
proof (intro allI)
  fix g l d
  assume m: "\<forall>g l d. \<exists>r g' l' d'. m (g, l, d) = (r, g', l @ l', d') \<and> only_own K l'
    \<and> (case r of Inr a \<Rightarrow> Q a \<subseteq> learned K l' | Inl _ \<Rightarrow> True)" and K: "K \<subseteq> K'" and Q: "\<And>a. Q' a \<subseteq> Q a"
  obtain r g' l' d' where s: "m (g, l, d) = (r, g', l @ l', d')" "only_own K l'"
    "case r of Inr a \<Rightarrow> Q a \<subseteq> learned K l' | Inl _ \<Rightarrow> True" using m by blast
  have "case r of Inr a \<Rightarrow> Q' a \<subseteq> learned K' l' | Inl _ \<Rightarrow> True"
    using s(3) Q learned_mono [OF K, of l'] by (auto split: sum.splits)
  then show "\<exists>r g' l' d'. m (g, l, d) = (r, g', l @ l', d') \<and> only_own K' l'
      \<and> (case r of Inr a \<Rightarrow> Q' a \<subseteq> learned K' l' | Inl _ \<Rightarrow> True)"
    using s(1) only_own_mono [OF s(2) K] by blast
qed

lemma own_try:
  assumes "own K m Q"
  shows "own K (io_try m) (\<lambda>_. {})"
  unfolding own_def
proof (intro allI)
  fix g l d
  obtain r g' l' d' where "m (g, l, d) = (r, g', l @ l', d')" "only_own K l'"
    using assms unfolding own_def by blast
  then show "\<exists>r g' l' d'. io_try m (g, l, d) = (r, g', l @ l', d') \<and> only_own K l'
      \<and> (case r of Inr a \<Rightarrow> {} \<subseteq> learned K l' | Inl _ \<Rightarrow> True)"
    by (auto simp: io_try_def split: sum.split)
qed

lemma own_quiet: "own K (raw (quiet f)) (\<lambda>_. {})"
  by (auto simp: own_def raw_def quiet_def split_def Let_def)

lemma own_looked:
  "own K (raw (dk_inspect (noted D) n)) (\<lambda>r. case r of Inr info \<Rightarrow> if is_managed info then {n} else {} | Inl _ \<Rightarrow> {})"
  using learned_grows
  by (auto simp: own_def raw_def noted_def noting_def split_def Let_def split: sum.split)

lemma own_made: "own K (raw (dk_create (noted D) n c)) (\<lambda>r. case r of Inr _ \<Rightarrow> {n} | Inl _ \<Rightarrow> {})"
  by (auto simp: own_def raw_def noted_def noting_def split_def Let_def split: sum.split)

lemma own_touched:
  assumes "n \<in> K"
  shows "own K (raw (dk_start (noted D) n)) (\<lambda>_. {})" "own K (raw (dk_stop (noted D) n)) (\<lambda>_. {})"
    "own K (raw (dk_restart (noted D) n)) (\<lambda>_. {})" "own K (raw (dk_remove (noted D) n)) (\<lambda>_. {})"
    "own K (raw (dk_attach (noted D) n b)) (\<lambda>_. {})" "own K (raw (dk_logs (noted D) n k)) (\<lambda>_. {})"
    "own K (raw (dk_wait (noted D) n)) (\<lambda>_. {})" "own K (io_do (dk_output (noted D) n k)) (\<lambda>_. {})"
  using assms by (auto simp: own_def raw_def io_do_def noted_def noting_def split_def Let_def)

lemma own_ask: "own K (raw f) Q \<Longrightarrow> (\<And>r. Q' r \<subseteq> Q (Inr r)) \<Longrightarrow> own K (ask_daemon c f) Q'"
  unfolding ask_daemon_def
  by (rule own_bind, assumption) (auto intro!: own_leaf own_ok split: sum.split)

lemma own_ask0: "own K (raw f) Q \<Longrightarrow> own K (ask_daemon c f) (\<lambda>_. {})"
  by (rule own_ask) auto

lemma own_network:
  "own K (raw (dk_network (noted D))) (\<lambda>_. {})" "own K (raw (dk_create_network (noted D))) (\<lambda>_. {})"
  "own K (raw (dk_list (noted D) x)) (\<lambda>_. {})" "own K (raw (dk_list_named (noted D) x)) (\<lambda>_. {})"
  by (simp_all add: noted_def own_quiet)

lemma own_cache: "own K (\<lambda>(_, s). (Inr a, g, s)) (\<lambda>_. {})"
  by (simp add: own_def)

lemma own_gateway: "own K (games_gateway (noted D)) (\<lambda>_. {})"
proof -
  have net: "own K (io_bind (io_bind (raw (dk_network (noted D))) (\<lambda>r. case r of
              Inr network \<Rightarrow> io_ok network
            | Inl NotFound \<Rightarrow> io_bind (raw (dk_create_network (noted D))) (\<lambda>_. ask_daemon ''creating the network'' (dk_network (noted D)))
            | Inl (Refused _) \<Rightarrow> io_err (Docker (ascii ''reading the network''))))
            (\<lambda>network. io_bind (io_here (games_network_gateway network)) (\<lambda>gateway (_, d). (Inr gateway, Some gateway, d)))) (\<lambda>_. {})"
    by (intro own_bind [where Q = "\<lambda>_. {}"] own_network own_leaf own_cache)
      (auto intro!: own_leaf own_bind [where Q = "\<lambda>_. {}"] own_network own_ask0 split: sum.split daemon_error.split)
  show ?thesis
    unfolding own_def
  proof (intro allI)
    fix g l d
    show "\<exists>r g' l' d'. games_gateway (noted D) (g, l, d) = (r, g', l @ l', d') \<and> only_own K l'
      \<and> (case r of Inr a \<Rightarrow> {} \<subseteq> learned K l' | Inl _ \<Rightarrow> True)"
    proof (cases g)
      case None
      then show ?thesis using net [unfolded own_def, rule_format, of None l d] by (simp add: games_gateway_def)
    qed (auto simp: games_gateway_def)
  qed
qed

lemma own_assert: "own K (assert_managed (noted D) n) (\<lambda>_. {n})"
  unfolding assert_managed_def
  by (rule own_bind [where Q = "\<lambda>info. if is_managed info then {n} else {}"], rule own_ask [OF own_looked])
    (auto intro!: own_ok own_leaf)

lemma own_create: "own K (create_and_start (noted D) spec runtime mounts ports) (\<lambda>_. {})"
proof -
  let ?n = "container_name (ss_instance_id spec)"
  have made: "own K (ask_daemon ''creating container'' (dk_create (noted D) ?n c)) (\<lambda>_. {?n})" for K c
    by (rule own_ask [OF own_made]) simp
  show ?thesis
    unfolding create_and_start_def Let_def
    by (intro own_bind [where Q = "\<lambda>_. {}"] own_cache own_gateway own_bind [OF made])
      (auto intro!: own_leaf own_ask0 own_touched)
qed

lemma own_wait: "own K (wait_listed_stopped (noted D) n k) (\<lambda>_. {})"
proof (induction k)
  case 0
  then show ?case
    by (subst wait_listed_stopped.simps)
      (auto intro!: own_bind [where Q = "\<lambda>_. {}"] own_network own_leaf simp: Let_def)
next
  case (Suc k)
  then show ?case
    by (subst wait_listed_stopped.simps)
      (auto intro!: own_bind [where Q = "\<lambda>_. {}"] own_network own_leaf simp: Let_def)
qed

lemma own_stop: "own K (rt_stop (noted D) i) (\<lambda>_. {})"
  unfolding rt_stop_def Let_def
  by (rule own_bind [OF own_assert]) (auto intro!: own_bind [where Q = "\<lambda>_. {}"] own_ask0 own_touched own_wait)

lemma own_restart: "own K (rt_restart (noted D) i) (\<lambda>_. {})"
  unfolding rt_restart_def Let_def by (rule own_bind [OF own_assert]) (auto intro!: own_ask0 own_touched)

lemma own_remove: "own K (rt_remove (noted D) i) (\<lambda>_. {})"
  unfolding rt_remove_def Let_def by (rule own_bind [OF own_assert]) (auto intro!: own_ask0 own_touched)

lemma own_state: "own K (state_of (noted D) i) (\<lambda>_. {})"
  unfolding state_of_def
  by (rule own_bind [OF own_looked]) (auto intro!: own_leaf split: sum.split daemon_error.split)

lemma own_console: "own K (send_console_line (noted D) i line) (\<lambda>_. {})"
proof -
  have rest: "own K (io_bind (state_of (noted D) i) (\<lambda>st. if st \<noteq> Running then io_err (NotRunning i)
        else io_bind (ask_daemon ''inspecting container'' (dk_inspect (noted D) (container_name i))) (\<lambda>info.
          if \<not> (case ci_config info of None \<Rightarrow> False | Some c \<Rightarrow> ic_open_stdin c) then io_err (NoConsole i)
          else ask_daemon ''writing to the console'' (dk_attach (noted D) (container_name i) (line @ [10]))))) (\<lambda>_. {})"
    if "container_name i \<in> K" for K
    using that
    by (auto intro!: own_bind [where Q = "\<lambda>_. {}"] own_state own_leaf own_ask0 [OF own_touched(5)] own_ask0 [OF own_looked])
  show ?thesis
    unfolding send_console_line_def Let_def using own_bind [OF own_assert rest] by (auto intro: own_leaf)
qed

lemma own_reads:
  "own K (list_managed (noted D)) (\<lambda>_. {})" "own K (logs_tail (noted D) i k) (\<lambda>_. {})"
  "own K (last_exit_of (noted D) c) (\<lambda>_. {})" "own K (spec_of (noted D) i) (\<lambda>_. {})"
proof -
  show "own K (list_managed (noted D)) (\<lambda>_. {})"
    unfolding list_managed_def by (auto intro!: own_bind [where Q = "\<lambda>_. {}"] own_ask0 own_network own_leaf)
  show "own K (logs_tail (noted D) i k) (\<lambda>_. {})"
    unfolding logs_tail_def Let_def by (rule own_bind [OF own_assert]) (auto intro!: own_ask0 own_touched)
  show "own K (last_exit_of (noted D) c) (\<lambda>_. {})"
    unfolding last_exit_of_def by (auto intro!: own_bind [where Q = "\<lambda>_. {}"] own_ask0 [OF own_looked] own_leaf)
  show "own K (spec_of (noted D) i) (\<lambda>_. {})"
    unfolding spec_of_def Let_def
    by (rule own_bind [OF own_assert])
      (auto intro!: own_bind [where Q = "\<lambda>_. {}"] own_ask0 [OF own_looked] own_leaf split: option.split)
qed

lemma own_tasks:
  "own K (run_task (noted D) n img cmd mounts me env user cancelled k) (\<lambda>_. {})" "own K (remove_task (noted D) n) (\<lambda>_. {})"
proof -
  have made: "own K (ask_daemon ''creating task container'' (dk_create (noted D) n c)) (\<lambda>_. {n})" for K c
    by (rule own_ask [OF own_made]) simp
  have await: "own K (await_task (noted D) n k) (\<lambda>_. {})" if "n \<in> K" for K
    unfolding await_task_def using that
    by (auto intro!: own_bind [where Q = "\<lambda>_. {}"] own_ask0 own_touched own_leaf)
  show "own K (run_task (noted D) n img cmd mounts me env user cancelled k) (\<lambda>_. {})"
    unfolding run_task_def
    by (rule own_bind [OF made]) (auto intro!: own_bind [where Q = "\<lambda>_. {}"] own_touched own_leaf own_try [OF await])
  have managed: "is_managed info" if "thas (case ci_config info of None \<Rightarrow> [] | Some c \<Rightarrow> ic_labels c) MANAGED_LABEL" for info
    using that by (auto simp: is_managed_def thas_def tbl.get_empty split: option.splits)
  show "own K (remove_task (noted D) n) (\<lambda>_. {})"
    unfolding remove_task_def Let_def
    by (rule own_bind [OF own_looked])
      (auto intro!: own_bind [where Q = "\<lambda>_. {}"] own_touched own_leaf dest!: managed split: sum.split daemon_error.split)
qed

section \<open>Runs\<close>

datatype runtime_op =
    CreateServer server_spec game_runtime "mount list" "published_port list"
  | StopServer str | RestartServer str | RemoveServer str | SayLine str str | ReadLog str nat | ReadState str | ReadSpec str
  | ListServers | ReadExit str | RunTask str str "str list" "mount list" "int option" "str list" str bool nat | RemoveTask str

fun run_op :: "'d daemon \<Rightarrow> runtime_op \<Rightarrow> ('d, unit) runtime" where
  "run_op D (CreateServer spec runtime mounts ports) = io_bind (create_and_start D spec runtime mounts ports) (\<lambda>_. io_ok ())"
| "run_op D (StopServer i) = rt_stop D i"
| "run_op D (RestartServer i) = rt_restart D i"
| "run_op D (RemoveServer i) = rt_remove D i"
| "run_op D (SayLine i line) = send_console_line D i line"
| "run_op D (ReadLog i n) = io_bind (logs_tail D i n) (\<lambda>_. io_ok ())"
| "run_op D (ReadState i) = io_bind (state_of D i) (\<lambda>_. io_ok ())"
| "run_op D (ReadSpec i) = io_bind (spec_of D i) (\<lambda>_. io_ok ())"
| "run_op D ListServers = io_bind (list_managed D) (\<lambda>_. io_ok ())"
| "run_op D (ReadExit cid) = io_bind (last_exit_of D cid) (\<lambda>_. io_ok ())"
| "run_op D (RunTask n img cmd mounts me env user cancelled k) =
     io_bind (run_task D n img cmd mounts me env user cancelled k) (\<lambda>_. io_ok ())"
| "run_op D (RemoveTask n) = remove_task D n"

text \<open>One operation after another, whatever each answered.\<close>

fun run_ops :: "'d daemon \<Rightarrow> runtime_op list \<Rightarrow> ('d, unit) runtime" where
  "run_ops D [] = io_ok ()"
| "run_ops D (p # ps) = io_bind (io_try (run_op D p)) (\<lambda>_. run_ops D ps)"

lemma own_op: "own K (run_op (noted D) p) (\<lambda>_. {})"
  by (cases p)
    (simp_all add: own_bind [OF own_create own_leaf(1)] own_stop own_restart own_remove own_console own_bind [OF own_reads(1) own_leaf(1)]
      own_bind [OF own_reads(2) own_leaf(1)] own_bind [OF own_reads(3) own_leaf(1)] own_bind [OF own_reads(4) own_leaf(1)]
      own_bind [OF own_state own_leaf(1)] own_bind [OF own_tasks(1) own_leaf(1)] own_tasks(2))

lemma own_ops: "own K (run_ops (noted D) ps) (\<lambda>_. {})"
proof (induction ps arbitrary: K)
  case (Cons p ps)
  show ?case using own_bind [OF own_try [OF own_op [of K D p]] Cons.IH] by simp
qed (simp add: own_leaf)

section \<open>Properties\<close>

text \<open>C6.
  Whatever is asked of the container runtime, in any order, and whatever Docker answers, a container is started, stopped,
  restarted, removed, written to or has its log read only after Docker said that it carries this agent's label, or after the
  agent made it. A stranger's container with a name like ours is never touched.
\<close>
theorem only_its_own_containers:
  "\<exists>calls s. snd (run_ops (noted D) ops (gateway, [], d)) = (fst s, calls, snd s) \<and> only_own {} calls"
proof -
  obtain r g' l' d' where "run_ops (noted D) ops (gateway, [], d) = (r, g', [] @ l', d')" "only_own {} l'"
    using own_ops [of "{}" D ops] unfolding own_def by blast
  then show ?thesis by (intro exI [of _ l'] exI [of _ "(g', d')"]) simp
qed

text \<open>C23.
  A server is made again as it was. What a container was created with is enough to read its spec back, whatever the operator
  and the image add to its environment: name, players, map, bots, owner, and every option, with each port fixed to the one
  it had, so that the next container asks for exactly those. Only two things are not on the container: that a crash
  restarts it, which is kept beside it, and that it was once made without starting it.
\<close>
theorem a_server_is_remade_as_it_was:
  assumes "filter (starts_with GPP) E = filter (starts_with GPP) (cc_env (config_of spec runtime mounts ports))"
    "\<And>k. k \<in> {GAME_LABEL, PORTS_LABEL, OWNER_LABEL} \<Longrightarrow> tget L k = tget (cc_labels (config_of spec runtime mounts ports)) k"
    "distinct (map pp_channel ports)" "game \<in> set ports" "pp_channel game = CHANNEL_GAME"
  shows "\<exists>again. spec_from_parts (ss_instance_id spec) L (env_table E) = Inr again
    \<and> map (requested_port again) (map pp_channel ports) = map (Some \<circ> pp_host_port) ports
    \<and> again\<lparr>ss_port := ss_port spec, ss_extra_ports := ss_extra_ports spec, ss_restart_on_crash := ss_restart_on_crash spec,
        ss_options := (ss_options again)\<lparr>so_stopped := so_stopped (ss_options spec)\<rparr>\<rparr> = spec"
proof -
  have kept: "filter (starts_with GPP) E = filter (starts_with GPP) (container_env spec runtime ports)"
    using assms(1) by (simp add: config_of_def)
  have labels: "tget L GAME_LABEL = Some (ss_game_id spec)" "tget L PORTS_LABEL = Some (encode_ports_label ports)"
    "tget L OWNER_LABEL = ss_owner spec"
    using assms(2) labels_back [of spec ports] by (simp_all add: config_of_def)
  have game: "game_port ports = Some game" by (rule game_port_get [OF assms(3-5)])
  have "requested_port (spec\<lparr>ss_port := Some (pp_host_port game), ss_extra_ports := extra_ports_of ports, ss_restart_on_crash := False,
        ss_options := (ss_options spec)\<lparr>so_stopped := False\<rparr>\<rparr>) (pp_channel p) = Some (pp_host_port p)" if "p \<in> set ports" for p
    using that extra_ports_get [OF assms(3) that] game_port_get [OF assms(3) that] game by (auto simp: requested_port_def)
  then show ?thesis
    using spec_back [OF kept game labels] by (simp add: comp_def)
qed

definition sample_ports :: "published_port list" where
  "sample_ports = [\<lparr>pp_channel = 0, pp_container_port = 27015, pp_host_port = 2000, pp_transport = Udp\<rparr>,
     \<lparr>pp_channel = 1, pp_container_port = 27015, pp_host_port = 2001, pp_transport = Tcp\<rparr>]"

definition sample_runtime :: game_runtime where
  "sample_runtime = \<lparr>gr_image = [105], gr_content_root = sample_root, gr_content_version = [49], gr_memory_limit_bytes = None,
     gr_nano_cpus = None, gr_env = [([65], [66])], gr_bots = None, gr_writable_paths = [], gr_writable_limit_bytes = None\<rparr>"

theorem a_server_is_remade_as_it_was_witness:
  "\<exists>again. spec_from_parts [105] (cc_labels (config_of sample_server sample_runtime [] sample_ports))
      (env_table (cc_env (config_of sample_server sample_runtime [] sample_ports))) = Inr again
    \<and> map (requested_port again) [0, 1] = [Some 2000, Some 2001]"
proof -
  have "ss_instance_id sample_server = [105]" by (simp add: sample_server_def)
  then show ?thesis
    using a_server_is_remade_as_it_was [OF refl refl, of sample_ports "hd sample_ports" sample_server sample_runtime "[]"]
    by (auto simp: sample_ports_def CHANNEL_GAME_def)
qed

end
