(* ===== verification/Packs.thy ===== *)
theory Packs
  imports Containers Lan_Filter Announce
begin

text \<open>
  What a game pack says and how it is checked: \<^verbatim>\<open>crates/game-bridge/src/pack.rs\<close>, \<^verbatim>\<open>profile.rs\<close>, \<^verbatim>\<open>content.rs\<close> and
  \<^verbatim>\<open>launch.rs\<close>. Reading TOML is a parameter; what a pack is after it is the record \<open>game_pack\<close>.
\<close>

section \<open>Where the files come from\<close>

definition SHA256_HEX_LEN :: nat where "SHA256_HEX_LEN = 64"
definition MAX_STRIP_COMPONENTS :: u8 where "MAX_STRIP_COMPONENTS = 8"
definition MAX_MOD_NAME_LEN :: nat where "MAX_MOD_NAME_LEN = 32"

datatype steam_platform = Linux | Windows | WindowsFirst

datatype pack_content =
    Manual "str option"
  | Archive str str u8
  | Steamcmd u32 "str option" steam_platform
  | MinecraftContent

datatype content_error = UnsupportedUrlScheme str | MalformedDigest str | StripTooDeep u8 | BadAppId u32 | BadModName str

definition is_hex_digit :: "u8 \<Rightarrow> bool" where
  "is_hex_digit b \<longleftrightarrow> is_digit b \<or> (65 \<le> unat b \<and> unat b \<le> 70) \<or> (97 \<le> unat b \<and> unat b \<le> 102)"

definition mod_byte :: "u8 \<Rightarrow> bool" where
  "mod_byte b \<longleftrightarrow> (97 \<le> unat b \<and> unat b \<le> 122) \<or> is_digit b \<or> b = 95 \<or> b = 45"

definition validate_mod_name :: "str \<Rightarrow> (content_error, unit) outcome" where
  "validate_mod_name name =
     (if name = [] \<or> length name > MAX_MOD_NAME_LEN then Err (BadModName name)
      else if \<not> list_all mod_byte name then Err (BadModName name) else Ok ())"

fun validate_content :: "pack_content \<Rightarrow> (content_error, unit) outcome" where
  "validate_content (Manual _) = Ok ()"
| "validate_content (Archive url sha256 strip) =
     (if \<not> (starts_with (ascii ''https://'') url \<or> starts_with (ascii ''http://'') url) then Err (UnsupportedUrlScheme url)
      else if length sha256 \<noteq> SHA256_HEX_LEN \<or> \<not> list_all is_hex_digit sha256 then Err (MalformedDigest sha256)
      else if strip > MAX_STRIP_COMPONENTS then Err (StripTooDeep strip)
      else Ok ())"
| "validate_content MinecraftContent = Ok ()"
| "validate_content (Steamcmd app mod_dir _) =
     (if app = 0 then Err (BadAppId app)
      else case mod_dir of None \<Rightarrow> Ok () | Some name \<Rightarrow> validate_mod_name name)"

fun is_automatic :: "pack_content \<Rightarrow> bool" where
  "is_automatic (Manual _) = False" | "is_automatic _ = True"

fun driver_name :: "pack_content \<Rightarrow> str" where
  "driver_name (Manual _) = ascii ''manual''"
| "driver_name (Archive _ _ _) = ascii ''archive''"
| "driver_name (Steamcmd _ _ _) = ascii ''steamcmd''"
| "driver_name MinecraftContent = ascii ''minecraft''"

section \<open>How a player's own copy is started\<close>

definition MAX_ARGS :: nat where "MAX_ARGS = 32"
definition MAX_ARG_LEN :: nat where "MAX_ARG_LEN = 512"

datatype launch_kind = LaunchGoldsrc | LaunchSource

record launch_profile =
  lc_kind :: launch_kind
  lc_steam_app_id :: "u32 option"
  lc_args :: "str list"

datatype placeholder = Address | Port | Password | PlayerNick

fun token :: "placeholder \<Rightarrow> str" where
  "token Address = ascii ''address''"
| "token Port = ascii ''port''"
| "token Password = ascii ''password''"
| "token PlayerNick = ascii ''name''"

definition parse_placeholder :: "str \<Rightarrow> placeholder option" where
  "parse_placeholder t = List.find (\<lambda>p. token p = t) [Address, Port, Password, PlayerNick]"

record launch_values =
  lv_address :: str
  lv_port :: u16
  lv_password :: "str option"
  lv_name :: "str option"

definition no_values :: launch_values where
  "no_values = \<lparr>lv_address = [], lv_port = 0, lv_password = None, lv_name = None\<rparr>"

datatype launch_error = UnknownPlaceholder str | UnclosedPlaceholder str | TooManyArgs nat | ArgTooLong nat

fun value_of :: "placeholder \<Rightarrow> launch_values \<Rightarrow> str option" where
  "value_of Address v = Some (lv_address v)"
| "value_of Port v = Some (show_nat (unat (lv_port v)))"
| "value_of Password v = lv_password v"
| "value_of PlayerNick v = lv_name v"

lemma split_at_byte_shorter: "split_at_byte c s = Some (l, r) \<Longrightarrow> length r < length s"
  by (induction s arbitrary: l) (fastforce split: if_splits)+

text \<open>The loop of \<^verbatim>\<open>expand\<close>: what is written so far and what is left of the template.\<close>

function expand_from :: "str \<Rightarrow> launch_values \<Rightarrow> str \<Rightarrow> str \<Rightarrow> (launch_error, str option) outcome" where
  "expand_from template v out rest =
     (case split_at_byte 123 rest of
        None \<Rightarrow> Ok (Some (out @ rest))
      | Some (before, after) \<Rightarrow>
          (case split_at_byte 125 after of
             None \<Rightarrow> Err (UnclosedPlaceholder template)
           | Some (t, rest') \<Rightarrow>
               (case parse_placeholder t of
                  None \<Rightarrow> Err (UnknownPlaceholder t)
                | Some p \<Rightarrow>
                    (case value_of p v of
                       None \<Rightarrow> Ok None
                     | Some x \<Rightarrow> expand_from template v (out @ before @ x) rest'))))"
  by pat_completeness auto
termination
  by (relation "measure (\<lambda>(_, _, _, rest). length rest)") (auto dest!: split_at_byte_shorter)

declare expand_from.simps [simp del]

definition expand :: "str \<Rightarrow> launch_values \<Rightarrow> (launch_error, str option) outcome" where
  "expand template v = expand_from template v [] template"

fun split_pieces :: "launch_values \<Rightarrow> str list \<Rightarrow> str list \<Rightarrow> (launch_error, str list) outcome" where
  "split_pieces v out [] = Ok out"
| "split_pieces v out (piece # ps) =
     and_then (expand piece v) (\<lambda>r. case r of Some x \<Rightarrow> split_pieces v (out @ [x]) ps | None \<Rightarrow> Ok [])"

definition split_whitespace :: "str \<Rightarrow> str list" where
  "split_whitespace s = map word_text (split_words [] (char_slices s))"

definition split_template :: "str \<Rightarrow> launch_values \<Rightarrow> (launch_error, str list) outcome" where
  "split_template template v = split_pieces v [] (split_whitespace template)"

fun build_from :: "launch_values \<Rightarrow> str list \<Rightarrow> (launch_error, str list) outcome" where
  "build_from v [] = Ok []"
| "build_from v (t # ts) =
     and_then (split_template t v) (\<lambda>xs. and_then (build_from v ts) (\<lambda>ys. Ok (xs @ ys)))"

definition build_args :: "launch_profile \<Rightarrow> launch_values \<Rightarrow> (launch_error, str list) outcome" where
  "build_args p v = build_from v (lc_args p)"

fun check_templates :: "str list \<Rightarrow> (launch_error, unit) outcome" where
  "check_templates [] = Ok ()"
| "check_templates (arg # args) =
     (if length arg > MAX_ARG_LEN then Err (ArgTooLong (length arg))
      else and_then (expand arg no_values) (\<lambda>_. check_templates args))"

definition validate_launch :: "launch_profile \<Rightarrow> (launch_error, unit) outcome" where
  "validate_launch p =
     (if length (lc_args p) > MAX_ARGS then Err (TooManyArgs (length (lc_args p))) else check_templates (lc_args p))"

section \<open>What varies between games\<close>

definition MAX_CHANNEL :: u8 where "MAX_CHANNEL = 7"
definition FRAMING_V1 :: u8 where "FRAMING_V1 = 1"
definition FRAMING_V2 :: u8 where "FRAMING_V2 = 2"

datatype query_protocol = A2s | MinecraftPing

record game_port =
  gp_channel :: u8
  gp_name :: str
  gp_port :: u16
  gp_transport :: Instance.transport

record game_profile =
  pf_id :: str
  pf_app_name :: str
  pf_display_name :: str
  pf_default_port :: u16
  pf_transport :: Instance.transport
  pf_min_link_class :: u8
  pf_query :: "query_protocol option"
  pf_writable_paths :: "str list"
  pf_extra_ports :: "game_port list"

datatype profile_error =
    ProfileEmptyId | ExtraPortOnGameChannel | ChannelTooLarge u8 | DuplicateChannel u8 | BadPortName str
  | ProfileIdTooLong nat | IdNotAscii | EmptyAppName | UnknownLinkClass u8

definition ports_of :: "game_profile \<Rightarrow> game_port list" where
  "ports_of p = \<lparr>gp_channel = CHANNEL_GAME, gp_name = ascii ''game'', gp_port = pf_default_port p, gp_transport = pf_transport p\<rparr>
     # pf_extra_ports p"

definition protocol_version :: "game_profile \<Rightarrow> u8" where
  "protocol_version p = (if pf_extra_ports p = [] then FRAMING_V1 else FRAMING_V2)"

fun check_extra_ports :: "u8 set \<Rightarrow> str set \<Rightarrow> game_port list \<Rightarrow> (profile_error, unit) outcome" where
  "check_extra_ports channels names [] = Ok ()"
| "check_extra_ports channels names (p # ps) =
     (if gp_channel p = CHANNEL_GAME then Err ExtraPortOnGameChannel
      else if gp_channel p > MAX_CHANNEL then Err (ChannelTooLarge (gp_channel p))
      else if gp_channel p \<in> channels then Err (DuplicateChannel (gp_channel p))
      else if str_trim (gp_name p) = [] \<or> gp_name p \<in> names then Err (BadPortName (gp_name p))
      else check_extra_ports (insert (gp_channel p) channels) (insert (gp_name p) names) ps)"

definition validate_profile :: "game_profile \<Rightarrow> (profile_error, unit) outcome" where
  "validate_profile p =
     (if pf_id p = [] then Err ProfileEmptyId
      else if length (pf_id p) > MAX_GAME_ID_LEN then Err (ProfileIdTooLong (length (pf_id p)))
      else if \<not> is_ascii (pf_id p) then Err IdNotAscii
      else if pf_app_name p = [] then Err EmptyAppName
      else if \<not> (1 \<le> pf_min_link_class p \<and> pf_min_link_class p \<le> 3) then Err (UnknownLinkClass (pf_min_link_class p))
      else check_extra_ports {} {} (pf_extra_ports p))"

section \<open>Packs\<close>

definition PACK_SCHEMA_VERSION :: u32 where "PACK_SCHEMA_VERSION = 1"
definition MAX_LAN_PORTS :: nat where "MAX_LAN_PORTS = 16"

datatype pack_transport = PackUdp | PackTcp
datatype pack_query = PackA2s | PackMinecraftPing
datatype pack_console = PackGoldsrc | PackSource | PackMinecraft | PackBedrock
datatype pack_bots = PackZbot
datatype pack_lan_inbound = Declared | AnyPort

record pack_eula =
  eu_name :: str
  eu_url :: str

record pack_lan_port =
  ll_port :: u16
  ll_transport :: pack_transport

record pack_lan =
  la_ports :: "pack_lan_port list"
  la_inbound :: pack_lan_inbound
  la_tested :: bool

record pack_port =
  pp_pack_channel :: u8
  pp_pack_name :: str
  pp_pack_port :: u16
  pp_pack_transport :: pack_transport

record game_pack =
  pk_schema_version :: u32
  pk_id :: str
  pk_display_name :: str
  pk_app_name :: str
  pk_default_port :: u16
  pk_transport :: pack_transport
  pk_min_link_class :: u8
  pk_query :: "pack_query option"
  pk_writable_paths :: "str list"
  pk_content :: pack_content
  pk_extra_ports :: "pack_port list"
  pk_maps_dir :: "str option"
  pk_console :: "pack_console option"
  pk_bots :: "pack_bots option"
  pk_notes :: "str option"
  pk_launch :: "launch_profile option"
  pk_lan :: "pack_lan option"
  pk_art :: "str option"
  pk_eula :: "pack_eula option"

fun transport_of :: "pack_transport \<Rightarrow> Instance.transport" where
  "transport_of PackUdp = Instance.Udp" | "transport_of PackTcp = Instance.Tcp"

fun query_of :: "pack_query \<Rightarrow> query_protocol" where
  "query_of PackA2s = A2s" | "query_of PackMinecraftPing = MinecraftPing"

fun console_of_pack :: "pack_console \<Rightarrow> console_protocol" where
  "console_of_pack PackGoldsrc = Goldsrc" | "console_of_pack PackSource = Source"
| "console_of_pack PackMinecraft = Minecraft" | "console_of_pack PackBedrock = Bedrock"

fun bots_of_pack :: "pack_bots \<Rightarrow> bot_protocol" where
  "bots_of_pack PackZbot = Zbot"

definition port_of_pack :: "pack_port \<Rightarrow> game_port" where
  "port_of_pack p = \<lparr>gp_channel = pp_pack_channel p, gp_name = pp_pack_name p, gp_port = pp_pack_port p,
     gp_transport = transport_of (pp_pack_transport p)\<rparr>"

definition url_char :: "str \<Rightarrow> u8 \<Rightarrow> bool" where
  "url_char others b \<longleftrightarrow> is_alnum b \<or> b \<in> set others"

datatype pack_text_error =
    EulaName | EulaNotHttps | EulaUrl | ArtNotHttps | ArtNoPath | ArtHost str | ArtTooLong | ArtPath
  | LanNoPorts | LanTooManyPorts nat | LanPortZero

text \<open>\<open>s.strip_prefix(pre)\<close>.\<close>

definition strip_prefix :: "str \<Rightarrow> str \<Rightarrow> str option" where
  "strip_prefix pre s = (if starts_with pre s then Some (drop (length pre) s) else None)"

definition validate_eula :: "pack_eula \<Rightarrow> (pack_text_error, unit) outcome" where
  "validate_eula e =
     (if str_trim (eu_name e) = [] \<or> length (eu_name e) > 120 \<or> list_ex is_control (chars_of (eu_name e)) then Err EulaName
      else case strip_prefix (ascii ''https://'') (eu_url e) of
        None \<Rightarrow> Err EulaNotHttps
      | Some rest \<Rightarrow>
          if length (eu_url e) > 300 \<or> rest = [] \<or> \<not> list_all (url_char (ascii ''-._~/%:?=&#'')) rest \<or> starts_with [47] rest
          then Err EulaUrl else Ok ())"

definition id_is_file_safe :: "str \<Rightarrow> bool" where
  "id_is_file_safe s \<longleftrightarrow> s \<noteq> [] \<and> \<not> starts_with [46] s \<and> list_all (\<lambda>b. is_alnum b \<or> b = 45 \<or> b = 95 \<or> b = 46) s"

definition art_url :: "game_pack \<Rightarrow> str option" where
  "art_url p =
     (case pk_art p of
        Some a \<Rightarrow> Some a
      | None \<Rightarrow> map_option (\<lambda>n. ascii ''https://cdn.cloudflare.steamstatic.com/steam/apps/'' @ show_nat (unat n) @ ascii ''/header.jpg'')
          (case pk_launch p of None \<Rightarrow> None | Some l \<Rightarrow> lc_steam_app_id l))"

definition ART_HOSTS :: "str list" where
  "ART_HOSTS = [ascii ''upload.wikimedia.org'', ascii ''cdn.cloudflare.steamstatic.com'',
     ascii ''shared.cloudflare.steamstatic.com'', ascii ''cdn.akamai.steamstatic.com'']"

definition validate_art_url :: "str \<Rightarrow> (pack_text_error, unit) outcome" where
  "validate_art_url url =
     (case strip_prefix (ascii ''https://'') url of
        None \<Rightarrow> Err ArtNotHttps
      | Some rest \<Rightarrow>
          (case split_at_byte 47 rest of
             None \<Rightarrow> Err ArtNoPath
           | Some (host, path) \<Rightarrow>
               if host \<notin> set ART_HOSTS then Err (ArtHost host)
               else if length url > 300 then Err ArtTooLong
               else if path = [] \<or> \<not> list_all (url_char (ascii ''-._~/%()'')) path \<or> Console.contains (ascii ''..'') path
               then Err ArtPath else Ok ()))"

definition validate_lan :: "pack_lan \<Rightarrow> (pack_text_error, unit) outcome" where
  "validate_lan l =
     (if la_ports l = [] \<and> la_inbound l = Declared then Err LanNoPorts
      else if length (la_ports l) > MAX_LAN_PORTS then Err (LanTooManyPorts (length (la_ports l)))
      else if list_ex (\<lambda>p. ll_port p = 0) (la_ports l) then Err LanPortZero
      else Ok ())"

definition policy_of_pack :: "pack_lan \<Rightarrow> lan_policy" where
  "policy_of_pack l =
     \<lparr>po_ports = map (\<lambda>p. \<lparr>lp_proto = (case ll_transport p of PackUdp \<Rightarrow> Lan_Filter.Udp | PackTcp \<Rightarrow> Lan_Filter.Tcp),
         lp_port = ll_port p\<rparr>) (la_ports l),
      po_any = (la_inbound l = AnyPort)\<rparr>"

datatype pack_error =
    PackIo | PackParse | UnsupportedSchema u32 | PackInvalid profile_error | InvalidContent content_error
  | InvalidLaunch launch_error | InvalidLan pack_text_error | InvalidArt pack_text_error | InvalidEula pack_text_error
  | InvalidPackId str

definition map_err :: "('e \<Rightarrow> 'f) \<Rightarrow> ('e, 'a) outcome \<Rightarrow> ('f, 'a) outcome" where
  "map_err f r = (case r of Ok a \<Rightarrow> Ok a | Err e \<Rightarrow> Err (f e) | Panic \<Rightarrow> Panic)"

definition profile_of :: "game_pack \<Rightarrow> game_profile" where
  "profile_of p =
     \<lparr>pf_id = pk_id p, pf_app_name = pk_app_name p, pf_display_name = pk_display_name p, pf_default_port = pk_default_port p,
      pf_transport = transport_of (pk_transport p), pf_min_link_class = pk_min_link_class p,
      pf_query = map_option query_of (pk_query p), pf_writable_paths = pk_writable_paths p,
      pf_extra_ports = map port_of_pack (pk_extra_ports p)\<rparr>"

definition to_profile :: "game_pack \<Rightarrow> (profile_error, game_profile) outcome" where
  "to_profile p = and_then (validate_profile (profile_of p)) (\<lambda>_. Ok (profile_of p))"

definition check_some :: "('a \<Rightarrow> ('e, unit) outcome) \<Rightarrow> 'a option \<Rightarrow> ('e, unit) outcome" where
  "check_some f x = (case x of None \<Rightarrow> Ok () | Some a \<Rightarrow> f a)"

text \<open>Everything \<^verbatim>\<open>GamePack::parse\<close> asks of a pack once TOML gave one.\<close>

definition check_pack :: "game_pack \<Rightarrow> (pack_error, game_pack) outcome" where
  "check_pack p =
     (if pk_schema_version p \<noteq> PACK_SCHEMA_VERSION then Err (UnsupportedSchema (pk_schema_version p))
      else and_then (map_err PackInvalid (to_profile p)) (\<lambda>_.
        if \<not> id_is_file_safe (pk_id p) then Err (InvalidPackId (pk_id p))
        else and_then (map_err InvalidContent (validate_content (pk_content p))) (\<lambda>_.
          and_then (map_err InvalidLaunch (check_some validate_launch (pk_launch p))) (\<lambda>_.
          and_then (map_err InvalidLan (check_some validate_lan (pk_lan p))) (\<lambda>_.
          and_then (map_err InvalidArt (check_some validate_art_url (pk_art p))) (\<lambda>_.
          and_then (map_err InvalidEula (check_some validate_eula (pk_eula p))) (\<lambda>_. Ok p)))))))"

definition parse_pack :: "(str \<Rightarrow> game_pack option) \<Rightarrow> str \<Rightarrow> (pack_error, game_pack) outcome" where
  "parse_pack toml src = (case toml src of None \<Rightarrow> Err PackParse | Some p \<Rightarrow> check_pack p)"

definition load_pack :: "(str \<Rightarrow> game_pack option) \<Rightarrow> str option \<Rightarrow> (pack_error, game_pack) outcome" where
  "load_pack toml content = (case content of None \<Rightarrow> Err PackIo | Some src \<Rightarrow> parse_pack toml src)"

text \<open>A directory: each file's name and, when it can be read, its text. A name has the extension \<^verbatim>\<open>toml\<close> when a stem is left.\<close>

definition is_toml :: "str \<Rightarrow> bool" where
  "is_toml name \<longleftrightarrow> length name > 5 \<and> drop (length name - 5) name = ascii ''.toml''"

record loaded_packs =
  ld_packs :: "game_pack list"
  ld_errors :: "(str \<times> pack_error) list"

definition load_each :: "(str \<Rightarrow> game_pack option) \<Rightarrow> (str \<times> str option) \<Rightarrow> loaded_packs \<Rightarrow> loaded_packs" where
  "load_each toml en ld =
     (if \<not> is_toml (fst en) then ld
      else case load_pack toml (snd en) of
        Ok p \<Rightarrow> ld\<lparr>ld_packs := ld_packs ld @ [p]\<rparr>
      | Err e \<Rightarrow> ld\<lparr>ld_errors := ld_errors ld @ [(fst en, e)]\<rparr>
      | Panic \<Rightarrow> ld)"

definition load_dir :: "(str \<Rightarrow> game_pack option) \<Rightarrow> (str \<times> str option) list \<Rightarrow> loaded_packs" where
  "load_dir toml entries =
     (let ld = fold (load_each toml) entries \<lparr>ld_packs = [], ld_errors = []\<rparr> in
      ld\<lparr>ld_packs := sort_by (\<lambda>a b. cmp (pk_id a) (pk_id b)) (ld_packs ld)\<rparr>)"

section \<open>Templates\<close>

text \<open>What a template is made of, whatever the values are.\<close>

datatype part = Text str | Hole placeholder

function parts :: "str \<Rightarrow> part list" where
  "parts rest =
     (case split_at_byte 123 rest of
        None \<Rightarrow> [Text rest]
      | Some (before, after) \<Rightarrow>
          (case split_at_byte 125 after of
             None \<Rightarrow> []
           | Some (t, rest') \<Rightarrow>
               (case parse_placeholder t of None \<Rightarrow> [] | Some p \<Rightarrow> Text before # Hole p # parts rest')))"
  by pat_completeness auto
termination
  by (relation "measure length") (auto dest!: split_at_byte_shorter)

declare parts.simps [simp del]

fun part_text :: "launch_values \<Rightarrow> part \<Rightarrow> str" where
  "part_text v (Text s) = s"
| "part_text v (Hole p) = (case value_of p v of None \<Rightarrow> [] | Some x \<Rightarrow> x)"

definition fill :: "launch_values \<Rightarrow> part list \<Rightarrow> str" where
  "fill v ps = concat (map (part_text v) ps)"

definition same_given :: "launch_values \<Rightarrow> launch_values \<Rightarrow> bool" where
  "same_given v w \<longleftrightarrow> (lv_password v = None \<longleftrightarrow> lv_password w = None) \<and> (lv_name v = None \<longleftrightarrow> lv_name w = None)"

lemma same_given_value: "same_given v w \<Longrightarrow> value_of p v = None \<longleftrightarrow> value_of p w = None"
  by (cases p) (auto simp: same_given_def)

lemma expand_from_end:
  assumes "split_at_byte 123 rest = None"
  shows "expand_from t v out rest = Ok (Some (out @ rest))" "parts rest = [Text rest]"
  by (subst expand_from.simps, simp add: assms) (subst parts.simps, simp add: assms)

lemma expand_from_hole:
  assumes "split_at_byte 123 rest = Some (before, after)" "split_at_byte 125 after = Some (tok, rest')"
    "parse_placeholder tok = Some p"
  shows "expand_from t v out rest = (case value_of p v of None \<Rightarrow> Ok None | Some x \<Rightarrow> expand_from t v (out @ before @ x) rest')"
    "parts rest = Text before # Hole p # parts rest'"
  by (subst expand_from.simps, simp add: assms) (subst parts.simps, simp add: assms)

lemma expand_from_Ok:
  assumes "expand_from t v out rest = Ok r"
  obtains "split_at_byte 123 rest = None"
    | before after tok rest' p where "split_at_byte 123 rest = Some (before, after)" "split_at_byte 125 after = Some (tok, rest')"
      "parse_placeholder tok = Some p"
proof (cases "split_at_byte 123 rest")
  case (Some ba)
  obtain before after where ba: "ba = (before, after)" by (cases ba)
  have r: "(case split_at_byte 125 after of None \<Rightarrow> Err (UnclosedPlaceholder t)
      | Some (tok, rest') \<Rightarrow> (case parse_placeholder tok of None \<Rightarrow> Err (UnknownPlaceholder tok)
          | Some p \<Rightarrow> (case value_of p v of None \<Rightarrow> Ok None | Some x \<Rightarrow> expand_from t v (out @ before @ x) rest'))) = Ok r"
    using assms by (subst (asm) expand_from.simps) (simp add: Some ba)
  obtain tok rest' where tr: "split_at_byte 125 after = Some (tok, rest')" using r by (auto split: option.splits)
  have "parse_placeholder tok \<noteq> None" using r by (auto simp: tr split: option.splits)
  then show ?thesis using that Some ba tr by blast
qed (use that in blast)

lemma expand_from_some:
  assumes "same_given v w"
  shows "expand_from t v out rest = Ok r \<Longrightarrow>
    expand_from t w out' rest = Ok (case r of None \<Rightarrow> None | Some _ \<Rightarrow> Some (out' @ fill w (parts rest)))"
proof (induction "length rest" arbitrary: out out' rest rule: less_induct)
  case less
  from less.prems show ?case
  proof (cases rule: expand_from_Ok)
    case 1
    then show ?thesis using less.prems by (auto simp: expand_from_end fill_def)
  next
    case (2 before after tok rest' p)
    note step = expand_from_hole [OF 2]
    show ?thesis
    proof (cases "value_of p v")
      case None
      moreover have "value_of p w = None" using None same_given_value [OF assms] by blast
      ultimately show ?thesis using less.prems by (auto simp: step(1))
    next
      case (Some x)
      obtain y where y: "value_of p w = Some y" using Some same_given_value [OF assms, of p] by (cases "value_of p w") auto
      have shorter: "length rest' < length rest" using 2(1,2) by (auto dest!: split_at_byte_shorter)
      have "expand_from t v (out @ before @ x) rest' = Ok r" using less.prems Some by (simp add: step(1))
      from less.hyps [OF shorter this, of "out' @ before @ y"] show ?thesis
        by (cases r) (simp_all add: step y fill_def)
    qed
  qed
qed

lemma expand_given:
  assumes "expand piece v = Ok r" "same_given v w"
  shows "expand piece w = Ok (case r of None \<Rightarrow> None | Some _ \<Rightarrow> Some (fill w (parts piece)))"
  using expand_from_some [OF assms(2), of piece "[]" piece r "[]"] assms(1) by (simp add: expand_def split: option.splits)

lemma split_pieces_given:
  "split_pieces v out ps = Ok xs \<Longrightarrow>
    (\<forall>w out'. same_given v w \<longrightarrow> split_pieces w out' ps = Ok [])
    \<or> (\<forall>w out'. same_given v w \<longrightarrow> split_pieces w out' ps = Ok (out' @ map (\<lambda>p. fill w (parts p)) ps))"
proof (induction ps arbitrary: out)
  case (Cons p ps)
  obtain r where r: "expand p v = Ok r" using Cons.prems by (auto simp: and_then_eq_Ok)
  note same = expand_given [OF r]
  show ?case
  proof (cases r)
    case None
    then show ?thesis using same by simp
  next
    case (Some x)
    then have "split_pieces v (out @ [x]) ps = Ok xs" using Cons.prems r by simp
    from Cons.IH [OF this] show ?thesis using same Some by fastforce
  qed
qed simp

lemma build_from_given:
  "build_from v ts = Ok args \<Longrightarrow> \<exists>shapes. \<forall>w. same_given v w \<longrightarrow> build_from w ts = Ok (map (fill w) shapes)"
proof (induction ts arbitrary: args)
  case Nil
  show ?case by (intro exI [of _ "[]"]) simp
next
  case (Cons t ts)
  obtain xs ys where xs: "split_pieces v [] (split_whitespace t) = Ok xs" and ys: "build_from v ts = Ok ys"
    using Cons.prems by (auto simp: and_then_eq_Ok split_template_def)
  obtain shapes where shapes: "\<forall>w. same_given v w \<longrightarrow> build_from w ts = Ok (map (fill w) shapes)"
    using Cons.IH [OF ys] by blast
  from split_pieces_given [OF xs] show ?case
  proof
    assume "\<forall>w out'. same_given v w \<longrightarrow> split_pieces w out' (split_whitespace t) = Ok []"
    then show ?case using shapes by (intro exI [of _ shapes]) (simp add: split_template_def)
  next
    assume "\<forall>w out'. same_given v w \<longrightarrow> split_pieces w out' (split_whitespace t)
      = Ok (out' @ map (\<lambda>p. fill w (parts p)) (split_whitespace t))"
    then show ?case
      using shapes by (intro exI [of _ "map parts (split_whitespace t) @ shapes"]) (simp add: split_template_def comp_def)
  qed
qed

section \<open>What the checks promise\<close>

lemma check_extra_ports_Ok:
  "check_extra_ports cs ns ps = Ok u \<Longrightarrow>
    distinct (map gp_channel ps) \<and> set (map gp_channel ps) \<inter> cs = {} \<and> (\<forall>p\<in>set ps. gp_channel p \<noteq> CHANNEL_GAME \<and> gp_channel p \<le> MAX_CHANNEL)
    \<and> distinct (map gp_name ps) \<and> set (map gp_name ps) \<inter> ns = {}"
  by (induction cs ns ps rule: check_extra_ports.induct) (fastforce split: if_splits)+

lemma validate_profile_Ok:
  assumes "validate_profile p = Ok u"
  shows "pf_id p \<noteq> []" "length (pf_id p) \<le> MAX_GAME_ID_LEN" "is_ascii (pf_id p)" "pf_app_name p \<noteq> []"
    "1 \<le> pf_min_link_class p" "pf_min_link_class p \<le> 3" "distinct (map gp_channel (ports_of p))"
    "\<forall>q\<in>set (ports_of p). gp_channel q \<le> MAX_CHANNEL" "distinct (map gp_name (pf_extra_ports p))"
proof -
  have extra: "check_extra_ports {} {} (pf_extra_ports p) = Ok u"
    using assms by (auto simp: validate_profile_def split: if_splits)
  note e = check_extra_ports_Ok [OF extra]
  show "pf_id p \<noteq> []" "length (pf_id p) \<le> MAX_GAME_ID_LEN" "is_ascii (pf_id p)" "pf_app_name p \<noteq> []"
    "1 \<le> pf_min_link_class p" "pf_min_link_class p \<le> 3"
    using assms by (auto simp: validate_profile_def split: if_splits)
  show "distinct (map gp_channel (ports_of p))" using e by (auto simp: ports_of_def)
  show "\<forall>q\<in>set (ports_of p). gp_channel q \<le> MAX_CHANNEL" using e by (auto simp: ports_of_def CHANNEL_GAME_def)
  show "distinct (map gp_name (pf_extra_ports p))" using e by blast
qed

lemma few_channels:
  assumes "distinct (map gp_channel ps)" "\<forall>q\<in>set ps. gp_channel q \<le> MAX_CHANNEL"
  shows "length ps \<le> 8"
proof -
  have "set (map (unat \<circ> gp_channel) ps) \<subseteq> {..<8}"
    using assms(2) by (auto simp: MAX_CHANNEL_def word_le_nat_alt)
  then have "card (set (map (unat \<circ> gp_channel) ps)) \<le> 8" using card_mono [OF finite_lessThan, of _ 8] by force
  moreover have "distinct (map (unat \<circ> gp_channel) ps)"
    using assms(1) by (simp add: distinct_map inj_on_def word_unat_eq_iff)
  ultimately show ?thesis using distinct_card [of "map (unat \<circ> gp_channel) ps"] by simp
qed

lemma map_err_Ok [simp]: "map_err f r = Ok a \<longleftrightarrow> r = Ok a"
  by (cases r) (simp_all add: map_err_def)

lemma check_pack_Ok:
  assumes "check_pack p = Ok q"
  shows "q = p" "validate_profile (profile_of p) = Ok ()" "to_profile p = Ok (profile_of p)" "id_is_file_safe (pk_id p)"
    "validate_content (pk_content p) = Ok ()" "check_some validate_launch (pk_launch p) = Ok ()"
    "check_some validate_lan (pk_lan p) = Ok ()" "check_some validate_art_url (pk_art p) = Ok ()"
  using assms by (auto simp: check_pack_def and_then_eq_Ok to_profile_def split: if_splits)

text \<open>What a pack says of the paths its game writes is not looked at.\<close>

lemma check_pack_writable: "check_pack p = Ok q \<Longrightarrow> check_pack (p\<lparr>pk_writable_paths := ws\<rparr>) = Ok (p\<lparr>pk_writable_paths := ws\<rparr>)"
proof -
  have "validate_profile (profile_of (p\<lparr>pk_writable_paths := ws\<rparr>)) = validate_profile (profile_of p)"
    by (simp add: validate_profile_def profile_of_def)
  then show "check_pack p = Ok q \<Longrightarrow> ?thesis"
    by (auto simp: check_pack_def and_then_eq_Ok to_profile_def split: if_splits)
qed

lemma plan_needs_paths:
  assumes "plan_instance root i c cr ws = Ok plan"
  shows "\<forall>w\<in>set ws. validate_writable_path w = Ok ()" "list_all id_byte (cn_game_id c)"
  using plan_Ok(2) [OF assms] assms
  by (auto simp: list_all_iff plan_instance_def and_then_eq_Ok content_dir_def plan_id_def validate_id_def split: outcome.splits if_splits)

section \<open>Properties\<close>

text \<open>A pack that loads describes a game the rest of the program can carry. Its id fits the announce record and names a file
  without leaving its folder; its ports are at most eight, the game's own first, each on a channel of its own that the
  header of a frame can hold; an archive is fixed by a whole SHA-256 digest and fetched over the network only; a LAN
  policy lets in no port 0 and, unless it says any port, at most sixteen.
\<close>
theorem a_loaded_pack_is_sound:
  assumes "parse_pack toml src = Ok p"
  shows "pk_id p \<noteq> [] \<and> length (pk_id p) \<le> MAX_GAME_ID_LEN \<and> is_ascii (pk_id p) \<and> 47 \<notin> set (pk_id p) \<and> \<not> starts_with [46] (pk_id p)
    \<and> (\<exists>profile. to_profile p = Ok profile \<and> length (ports_of profile) \<le> 8 \<and> gp_channel (hd (ports_of profile)) = CHANNEL_GAME
        \<and> distinct (map gp_channel (ports_of profile)) \<and> (\<forall>q\<in>set (ports_of profile). gp_channel q \<le> MAX_CHANNEL))
    \<and> (\<forall>url sha256 strip. pk_content p = Archive url sha256 strip \<longrightarrow>
        length sha256 = 64 \<and> list_all is_hex_digit sha256 \<and> (starts_with (ascii ''https://'') url \<or> starts_with (ascii ''http://'') url))
    \<and> (\<forall>l. pk_lan p = Some l \<longrightarrow> \<not> lists (policy_of_pack l) pr 0 \<and> length (po_ports (policy_of_pack l)) \<le> MAX_LAN_PORTS)"
proof -
  obtain p0 where "check_pack p0 = Ok p" using assms by (auto simp: parse_pack_def split: option.splits)
  then have ok: "check_pack p = Ok p" using check_pack_Ok(1) by metis
  note c = check_pack_Ok [OF ok] and v = validate_profile_Ok [OF check_pack_Ok(2) [OF ok]]
  have ident: "pf_id (profile_of p) = pk_id p" by (simp add: profile_of_def)
  have safe: "47 \<notin> set (pk_id p)" "\<not> starts_with [46] (pk_id p)"
    using c(4) by (auto simp: id_is_file_safe_def list_all_iff is_alnum_def is_digit_def)
  have archive: "length sha256 = 64 \<and> list_all is_hex_digit sha256
      \<and> (starts_with (ascii ''https://'') url \<or> starts_with (ascii ''http://'') url)" if "pk_content p = Archive url sha256 strip" for url sha256 strip
    using c(5) that by (simp add: SHA256_HEX_LEN_def split: if_splits)
  have lan: "\<not> lists (policy_of_pack l) pr 0 \<and> length (po_ports (policy_of_pack l)) \<le> MAX_LAN_PORTS" if "pk_lan p = Some l" for l
    using c(7) that by (auto simp: check_some_def validate_lan_def lists_def policy_of_pack_def list_ex_iff split: if_splits)
  have "hd (ports_of q) = hd [\<lparr>gp_channel = CHANNEL_GAME, gp_name = ascii ''game'', gp_port = pf_default_port q, gp_transport = pf_transport q\<rparr>]" for q
    by (simp add: ports_of_def)
  then show ?thesis using c(3) v(1-3) [unfolded ident] v(7,8) few_channels [OF v(7,8)] safe archive lan by auto
qed

text \<open>C27.
  What a player or a server typed never becomes an argument of its own. Which arguments a game is started with is fixed by
  the pack and by which of the values are there at all: each is the pack's own text with the values put in their places,
  so a password or a name with spaces, quotes or dashes stays inside the one argument the pack put it in.
\<close>
theorem values_stay_inside_their_argument:
  assumes "build_args p v = Ok args"
  shows "\<exists>shapes. args = map (fill v) shapes \<and> (\<forall>w. same_given v w \<longrightarrow> build_args p w = Ok (map (fill w) shapes))"
proof -
  obtain shapes where s: "\<forall>w. same_given v w \<longrightarrow> build_from w (lc_args p) = Ok (map (fill w) shapes)"
    using build_from_given assms unfolding build_args_def by blast
  have "same_given v v" by (simp add: same_given_def)
  with s have "build_from v (lc_args p) = Ok (map (fill v) shapes)" by blast
  with s assms show ?thesis unfolding build_args_def by (intro exI [of _ shapes]) simp
qed

lemmas split_ascii = split_whitespace_def char_slices_ascii is_ascii_def ascii_def is_whitespace_def word_text_def

text \<open>C40.
  The check of a template when a pack is loaded stops at the first value that may be missing. Whatever follows
  \<^verbatim>\<open>{password}\<close> in an argument is accepted, a placeholder nobody knows included, and the player learns of it when a
  server with a password is joined: then no arguments can be made at all.
\<close>
theorem a_checked_template_can_still_fail:
  assumes "length rest \<le> 500"
  shows "validate_launch \<lparr>lc_kind = k, lc_steam_app_id = n, lc_args = [ascii ''{password}'' @ rest]\<rparr> = Ok ()
    \<and> (lv_password v \<noteq> None \<longrightarrow>
        build_args \<lparr>lc_kind = k, lc_steam_app_id = n, lc_args = [ascii ''{password}{pass}'']\<rparr> v = Err (UnknownPlaceholder (ascii ''pass'')))"
proof -
  have pw: "split_at_byte 123 (ascii ''{password}'' @ r) = Some ([], ascii ''password}'' @ r)"
    "split_at_byte 125 (ascii ''password}'' @ r) = Some (ascii ''password'', r)" for r
    by (simp_all add: ascii_def)
  have hole: "parse_placeholder (ascii ''password'') = Some Password" "parse_placeholder (ascii ''pass'') = None" by code_simp+
  have "expand (ascii ''{password}'' @ rest) no_values = Ok None"
    unfolding expand_def by (subst expand_from.simps) (simp add: pw hole no_values_def)
  moreover have "length (ascii ''{password}'' @ rest) \<le> 512" using assms by (simp add: ascii_def)
  ultimately have "validate_launch \<lparr>lc_kind = k, lc_steam_app_id = n, lc_args = [ascii ''{password}'' @ rest]\<rparr> = Ok ()"
    by (simp add: validate_launch_def MAX_ARGS_def MAX_ARG_LEN_def)
  moreover have "build_args \<lparr>lc_kind = k, lc_steam_app_id = n, lc_args = [ascii ''{password}{pass}'']\<rparr> v = Err (UnknownPlaceholder (ascii ''pass''))"
    if "lv_password v = Some x" for x
  proof -
    have words: "split_whitespace (ascii ''{password}{pass}'') = [ascii ''{password}{pass}'']" by (simp add: split_ascii)
    have two: "ascii ''{password}{pass}'' = ascii ''{password}'' @ ascii ''{pass}''" by (simp add: ascii_def)
    have next_hole: "split_at_byte 123 (ascii ''{pass}'') = Some ([], ascii ''pass}'')"
      "split_at_byte 125 (ascii ''pass}'') = Some (ascii ''pass'', [])" by (simp_all add: ascii_def)
    have "expand (ascii ''{password}{pass}'') v = Err (UnknownPlaceholder (ascii ''pass''))"
      unfolding expand_def by (subst expand_from.simps, simp add: two pw hole that) (subst expand_from.simps, simp add: next_hole hole)
    then show ?thesis by (simp add: build_args_def split_template_def words)
  qed
  ultimately show ?thesis by auto
qed

text \<open>A pack can load and still be one no node can run: a path its game writes that climbs out of the game's folder, or an id
  with a capital letter, is refused by every node when a server is planned, and by nothing when the pack is loaded.
\<close>
theorem a_loaded_pack_no_node_can_run:
  assumes "check_pack p = Ok p" "cn_game_id c = pk_id p"
  shows "check_pack (p\<lparr>pk_writable_paths := ws\<rparr>) = Ok (p\<lparr>pk_writable_paths := ws\<rparr>)
    \<and> ((\<exists>w\<in>set ws. validate_writable_path w \<noteq> Ok ()) \<or> \<not> list_all id_byte (pk_id p) \<longrightarrow> plan_instance root i c cr ws \<noteq> Ok plan)"
  using check_pack_writable [OF assms(1)] plan_needs_paths [of root i c cr ws plan] assms(2) by auto

section \<open>Samples\<close>

definition sample_pack :: game_pack where
  "sample_pack = \<lparr>pk_schema_version = 1, pk_id = [103], pk_display_name = [71], pk_app_name = [103], pk_default_port = 27015,
     pk_transport = PackUdp, pk_min_link_class = 1, pk_query = Some PackA2s, pk_writable_paths = [[108]], pk_content = MinecraftContent,
     pk_extra_ports = [\<lparr>pp_pack_channel = 1, pp_pack_name = [114], pp_pack_port = 27015, pp_pack_transport = PackTcp\<rparr>],
     pk_maps_dir = None, pk_console = Some PackGoldsrc, pk_bots = None, pk_notes = None, pk_launch = None, pk_lan = None, pk_art = None,
     pk_eula = None\<rparr>"

lemma sample_pack_checked: "check_pack sample_pack = Ok sample_pack"
proof -
  have trim: "str_trim [114] \<noteq> []" by code_simp
  have id: "id_is_file_safe [103]" by code_simp
  have "validate_profile (profile_of sample_pack) = Ok ()"
    by (simp add: validate_profile_def profile_of_def sample_pack_def MAX_GAME_ID_LEN_def is_ascii_def port_of_pack_def CHANNEL_GAME_def
      MAX_CHANNEL_def trim)
  then show ?thesis
    by (simp add: check_pack_def to_profile_def PACK_SCHEMA_VERSION_def and_then_eq_Ok check_some_def)
      (simp add: sample_pack_def id)
qed

theorem a_loaded_pack_is_sound_witness:
  "\<exists>profile. to_profile sample_pack = Ok profile \<and> length (ports_of profile) \<le> 8 \<and> distinct (map gp_channel (ports_of profile))"
proof -
  have "parse_pack (\<lambda>_. Some sample_pack) [] = Ok sample_pack" by (simp add: parse_pack_def sample_pack_checked)
  from a_loaded_pack_is_sound [OF this, of Lan_Filter.Udp] show ?thesis by auto
qed

theorem values_stay_inside_their_argument_witness:
  "\<exists>shapes. build_args \<lparr>lc_kind = LaunchSource, lc_steam_app_id = None, lc_args = [ascii ''+connect {address}'']\<rparr>
      (no_values\<lparr>lv_address := ascii ''a -x''\<rparr>) = Ok (map (fill (no_values\<lparr>lv_address := ascii ''a -x''\<rparr>)) shapes)
    \<and> map (fill (no_values\<lparr>lv_address := ascii ''a -x''\<rparr>)) shapes = [ascii ''+connect'', ascii ''a -x'']"
proof -
  have "build_args \<lparr>lc_kind = LaunchSource, lc_steam_app_id = None, lc_args = [ascii ''+connect {address}'']\<rparr>
      (no_values\<lparr>lv_address := ascii ''a -x''\<rparr>) = Ok [ascii ''+connect'', ascii ''a -x'']"
  proof -
    have words: "split_whitespace (ascii ''+connect {address}'') = [ascii ''+connect'', ascii ''{address}'']" by (simp add: split_ascii)
    have holes: "split_at_byte 123 (ascii ''+connect'') = None" "split_at_byte 123 (ascii ''{address}'') = Some ([], ascii ''address}'')"
      "split_at_byte 125 (ascii ''address}'') = Some (ascii ''address'', [])"
      by (simp_all add: ascii_def)
    have "parse_placeholder (ascii ''address'') = Some Address" by code_simp
    then have "expand (ascii ''{address}'') w = Ok (Some (lv_address w))" "expand (ascii ''+connect'') w = Ok (Some (ascii ''+connect''))" for w
      using holes by (simp_all add: expand_def expand_from_hole expand_from_end)
    then show ?thesis by (simp add: build_args_def split_template_def words)
  qed
  from values_stay_inside_their_argument [OF this] this show ?thesis by metis
qed

theorem a_checked_template_can_still_fail_witness:
  "validate_launch \<lparr>lc_kind = LaunchSource, lc_steam_app_id = None, lc_args = [ascii ''{password}'' @ ascii ''{pass}'']\<rparr> = Ok ()
    \<and> build_args \<lparr>lc_kind = LaunchSource, lc_steam_app_id = None, lc_args = [ascii ''{password}{pass}'']\<rparr> (no_values\<lparr>lv_password := Some [112]\<rparr>)
      = Err (UnknownPlaceholder (ascii ''pass''))"
  using a_checked_template_can_still_fail [of "ascii ''{pass}''" LaunchSource None "no_values\<lparr>lv_password := Some [112]\<rparr>"]
  by (simp add: ascii_def no_values_def)

theorem a_loaded_pack_no_node_can_run_witness:
  "check_pack (sample_pack\<lparr>pk_writable_paths := [ascii ''../saves'']\<rparr>) = Ok (sample_pack\<lparr>pk_writable_paths := [ascii ''../saves'']\<rparr>)
    \<and> plan_instance sample_root [105] \<lparr>cn_game_id = [103], cn_version = [49]\<rparr> sample_root [ascii ''../saves''] \<noteq> Ok plan"
proof -
  have "validate_writable_path (ascii ''../saves'') \<noteq> Ok ()" by code_simp
  then show ?thesis
    using a_loaded_pack_no_node_can_run [OF sample_pack_checked, of "\<lparr>cn_game_id = [103], cn_version = [49]\<rparr>" "[ascii ''../saves'']"
      sample_root "[105]" sample_root plan]
    by (simp add: sample_pack_def)
qed

end
