(* ===== verification/Builds.thy ===== *)
theory Builds
  imports Packs
begin

text \<open>
  Minecraft builds, \<^verbatim>\<open>crates/game-bridge/src/minecraft.rs\<close>: which build ids there are, which hosts a node fetches from, and
  what the publishers' listings are read as. A listing is the JSON value it parses to; parsing is a parameter.
\<close>

section \<open>Build ids\<close>

definition MAX_VERSION_LEN :: nat where "MAX_VERSION_LEN = 24"
definition OLDEST_RELEASE :: str where "OLDEST_RELEASE = ascii ''1.18.1''"
definition JAVA_RUNTIMES :: "nat list" where "JAVA_RUNTIMES = [17, 21, 25]"

definition HOSTS :: "str list" where
  "HOSTS = [ascii ''piston-meta.mojang.com'', ascii ''piston-data.mojang.com'', ascii ''fill.papermc.io'',
     ascii ''fill-data.papermc.io'', ascii ''meta.fabricmc.net'', ascii ''maven.fabricmc.net'',
     ascii ''files.minecraftforge.net'', ascii ''maven.minecraftforge.net'']"

datatype minecraft_server = Vanilla | Paper | Fabric | Forge

fun server_str :: "minecraft_server \<Rightarrow> str" where
  "server_str Vanilla = ascii ''vanilla''"
| "server_str Paper = ascii ''paper''"
| "server_str Fabric = ascii ''fabric''"
| "server_str Forge = ascii ''forge''"

definition from_word :: "str \<Rightarrow> minecraft_server option" where
  "from_word w = List.find (\<lambda>s. server_str s = w) [Vanilla, Paper, Fabric, Forge]"

fun has_loader :: "minecraft_server \<Rightarrow> bool" where
  "has_loader Fabric = True" | "has_loader Forge = True" | "has_loader _ = False"

record minecraft_build =
  mb_server :: minecraft_server
  mb_game_version :: str
  mb_loader :: "str option"

datatype build_error = UnknownServer str | Shape str | BadVersion str | TooOld str

definition is_release_version :: "str \<Rightarrow> bool" where
  "is_release_version v \<longleftrightarrow>
     (let ps = split_all 46 v in
      length v \<le> MAX_VERSION_LEN \<and> length ps \<ge> 2 \<and> list_all (\<lambda>p. p \<noteq> [] \<and> list_all is_digit p) ps)"

text \<open>A part too long for a \<^verbatim>\<open>u32\<close> counts as nought. Lists of numbers are ordered as Rust orders vectors.\<close>

definition version_key :: "str \<Rightarrow> nat list" where
  "version_key v = map (\<lambda>p. case parse_u32 p of None \<Rightarrow> 0 | Some n \<Rightarrow> unat n) (split_all 46 v)"

definition build_id :: "minecraft_build \<Rightarrow> str" where
  "build_id b = server_str (mb_server b) @ [45] @ mb_game_version b @ (case mb_loader b of None \<Rightarrow> [] | Some l \<Rightarrow> [45] @ l)"

definition parse_build :: "str \<Rightarrow> (build_error, minecraft_build) outcome" where
  "parse_build s =
     (let ps = split_all 45 s in
      case from_word (hd ps) of
        None \<Rightarrow> Err (UnknownServer (hd ps))
      | Some server \<Rightarrow>
          if length ps \<noteq> (if has_loader server then 3 else 2) then Err (Shape s)
          else case List.find (\<lambda>v. \<not> is_release_version v) (tl ps) of
            Some v \<Rightarrow> Err (BadVersion v)
          | None \<Rightarrow>
              if version_key (ps ! 1) < version_key OLDEST_RELEASE then Err (TooOld (ps ! 1))
              else Ok \<lparr>mb_server = server, mb_game_version = ps ! 1, mb_loader = (if length ps > 2 then Some (ps ! 2) else None)\<rparr>)"

definition new_build :: "minecraft_server \<Rightarrow> str \<Rightarrow> str option \<Rightarrow> (build_error, minecraft_build) outcome" where
  "new_build server game_version loader =
     parse_build (build_id \<lparr>mb_server = server, mb_game_version = game_version, mb_loader = loader\<rparr>)"

definition host_of :: "str \<Rightarrow> str" where
  "host_of rest = takeWhile (\<lambda>b. b \<notin> {47, 63, 35}) rest"

definition host_allowed :: "str \<Rightarrow> bool" where
  "host_allowed url \<longleftrightarrow>
     (case strip_prefix (ascii ''https://'') url of
        None \<Rightarrow> False
      | Some rest \<Rightarrow> let host = host_of rest in 64 \<notin> set host \<and> 58 \<notin> set host \<and> host \<in> set HOSTS)"

section \<open>Downloads\<close>

datatype digest = Sha1 str | Sha256 str

definition is_hex :: "str \<Rightarrow> nat \<Rightarrow> bool" where
  "is_hex s n \<longleftrightarrow> length s = n \<and> list_all is_hex_digit s"

definition lower :: "u8 \<Rightarrow> u8" where
  "lower b = (if 65 \<le> unat b \<and> unat b \<le> 90 then b + 32 else b)"

definition sha1_of :: "str \<Rightarrow> digest option" where
  "sha1_of hex = (if is_hex hex 40 then Some (Sha1 (map lower hex)) else None)"

definition sha256_of :: "str \<Rightarrow> digest option" where
  "sha256_of hex = (if is_hex hex 64 then Some (Sha256 (map lower hex)) else None)"

record download =
  dn_url :: str
  dn_digest :: digest

record build_info =
  bi_build :: minecraft_build
  bi_java :: nat
  bi_file :: str

definition java_runtime_for :: "nat \<Rightarrow> nat" where
  "java_runtime_for major = (case List.find (\<lambda>j. j \<ge> major) JAVA_RUNTIMES of Some j \<Rightarrow> j | None \<Rightarrow> last JAVA_RUNTIMES)"

definition new_info :: "minecraft_build \<Rightarrow> nat \<Rightarrow> build_info" where
  "new_info b java_major = \<lparr>bi_build = b, bi_java = java_runtime_for java_major,
     bi_file = (if has_loader (mb_server b) then ascii ''installer.jar'' else ascii ''server.jar'')\<rparr>"

definition line :: "string \<Rightarrow> str \<Rightarrow> str" where
  "line k v = ascii k @ [61] @ v @ [10]"

definition info_text :: "build_info \<Rightarrow> str" where
  "info_text i =
     line ''build'' (build_id (bi_build i)) @ line ''server'' (server_str (mb_server (bi_build i)))
     @ line ''version'' (mb_game_version (bi_build i))
     @ line ''loader'' (case mb_loader (bi_build i) of None \<Rightarrow> [] | Some l \<Rightarrow> l)
     @ line ''java'' (show_nat (bi_java i)) @ line ''file'' (bi_file i)"

section \<open>Listings\<close>

text \<open>A JSON value; a number is what \<^verbatim>\<open>as_u64\<close> says of it. Indexing what is not there is \<open>Null\<close>.\<close>

datatype json = Null | Bool bool | Number "nat option" | String str | Array "json list" | Object "(str \<times> json) list"

fun field :: "string \<Rightarrow> json \<Rightarrow> json" where
  "field k (Object kvs) = (case map_of kvs (ascii k) of None \<Rightarrow> Null | Some v \<Rightarrow> v)"
| "field k _ = Null"

fun as_str :: "json \<Rightarrow> str option" where "as_str (String s) = Some s" | "as_str _ = None"
fun as_u64 :: "json \<Rightarrow> nat option" where "as_u64 (Number n) = n" | "as_u64 _ = None"
fun as_array :: "json \<Rightarrow> json list option" where "as_array (Array xs) = Some xs" | "as_array _ = None"
fun as_object :: "json \<Rightarrow> (str \<times> json) list option" where "as_object (Object kvs) = Some kvs" | "as_object _ = None"

datatype listing_error =
    NotJson | NoVersions | NoServerDownload | NoDigest | OtherHost str | NotStable | NotAList | NoStableInstaller | NoInstallerUrl | NoPromos

definition read_json :: "(str \<Rightarrow> json option) \<Rightarrow> str \<Rightarrow> (listing_error, json) outcome" where
  "read_json js t = ok_or (js t) NotJson"

definition vanilla_release :: "json \<Rightarrow> (str \<times> download) option" where
  "vanilla_release e =
     (case (as_str (field ''id'' e), as_str (field ''url'' e), as_str (field ''sha1'' e)) of
        (Some i, Some url, Some sha) \<Rightarrow>
          (case sha1_of sha of None \<Rightarrow> None | Some d \<Rightarrow>
             if is_release_version i \<and> host_allowed url then Some (i, \<lparr>dn_url = url, dn_digest = d\<rparr>) else None)
      | _ \<Rightarrow> None)"

definition vanilla_releases :: "(str \<Rightarrow> json option) \<Rightarrow> str \<Rightarrow> (listing_error, (str \<times> download) list) outcome" where
  "vanilla_releases js manifest =
     and_then (read_json js manifest) (\<lambda>v. and_then (ok_or (as_array (field ''versions'' v)) NoVersions) (\<lambda>list.
       Ok (List.map_filter vanilla_release (filter (\<lambda>e. field ''type'' e = String (ascii ''release'')) list))))"

definition vanilla_server :: "(str \<Rightarrow> json option) \<Rightarrow> str \<Rightarrow> (listing_error, download \<times> nat) outcome" where
  "vanilla_server js version_file =
     and_then (read_json js version_file) (\<lambda>v.
       let server = field ''server'' (field ''downloads'' v) in
       and_then (ok_or (as_str (field ''url'' server)) NoServerDownload) (\<lambda>url.
       and_then (ok_or (sha1_of (case as_str (field ''sha1'' server) of None \<Rightarrow> [] | Some s \<Rightarrow> s)) NoDigest) (\<lambda>d.
       if \<not> host_allowed url then Err (OtherHost url)
       else Ok (\<lparr>dn_url = url, dn_digest = d\<rparr>,
         (case as_u64 (field ''majorVersion'' (field ''javaVersion'' v)) of None \<Rightarrow> 8 | Some j \<Rightarrow> j mod 2 ^ 32)))))"

text \<open>\<^verbatim>\<open>dedup\<close> and \<^verbatim>\<open>dedup_by\<close>: neighbours that agree with the last one kept are dropped.\<close>

fun dedup_by :: "('a \<Rightarrow> 'a \<Rightarrow> bool) \<Rightarrow> 'a list \<Rightarrow> 'a list" where
  "dedup_by same (x # y # ys) = (if same y x then dedup_by same (x # ys) else x # dedup_by same (y # ys))"
| "dedup_by same xs = xs"

definition paper_versions :: "(str \<Rightarrow> json option) \<Rightarrow> str \<Rightarrow> (listing_error, str list) outcome" where
  "paper_versions js project =
     and_then (read_json js project) (\<lambda>v. and_then (ok_or (as_object (field ''versions'' v)) NoVersions) (\<lambda>groups.
       Ok (dedup_by (=) (sort_by (\<lambda>a b. rev_order (cmp (version_key a) (version_key b)))
         (filter is_release_version (List.map_filter as_str (concat (List.map_filter as_array (map snd groups)))))))))"

definition PAPER_PROJECT :: str where "PAPER_PROJECT = ascii ''https://fill.papermc.io/v3/projects/paper''"

definition paper_latest_build_url :: "str \<Rightarrow> (build_error, str) outcome" where
  "paper_latest_build_url version =
     (if \<not> is_release_version version then Err (BadVersion version)
      else Ok (PAPER_PROJECT @ ascii ''/versions/'' @ version @ ascii ''/builds/latest''))"

definition paper_server :: "(str \<Rightarrow> json option) \<Rightarrow> str \<Rightarrow> (listing_error, download) outcome" where
  "paper_server js build =
     and_then (read_json js build) (\<lambda>v.
       if field ''channel'' v \<noteq> String (ascii ''STABLE'') then Err NotStable
       else let d = field ''server:default'' (field ''downloads'' v) in
         and_then (ok_or (as_str (field ''url'' d)) NoServerDownload) (\<lambda>url.
         and_then (ok_or (sha256_of (case as_str (field ''sha256'' (field ''checksums'' d)) of None \<Rightarrow> [] | Some s \<Rightarrow> s)) NoDigest) (\<lambda>h.
         if \<not> host_allowed url then Err (OtherHost url) else Ok \<lparr>dn_url = url, dn_digest = h\<rparr>)))"

definition fabric_loaders_url :: "str \<Rightarrow> (build_error, str) outcome" where
  "fabric_loaders_url game_version =
     (if \<not> is_release_version game_version then Err (BadVersion game_version)
      else Ok (ascii ''https://meta.fabricmc.net/v2/versions/loader/'' @ game_version))"

definition fabric_loaders :: "(str \<Rightarrow> json option) \<Rightarrow> str \<Rightarrow> (listing_error, (str \<times> bool) list) outcome" where
  "fabric_loaders js listing =
     and_then (read_json js listing) (\<lambda>v. and_then (ok_or (as_array v) NotAList) (\<lambda>list.
       Ok (List.map_filter (\<lambda>e. case as_str (field ''version'' (field ''loader'' e)) of None \<Rightarrow> None | Some version \<Rightarrow>
         if is_release_version version then Some (version, field ''stable'' (field ''loader'' e) = Bool True) else None) list)))"

definition with_suffix :: "str \<Rightarrow> str \<times> str" where
  "with_suffix url = (url, url @ ascii ''.sha256'')"

definition fabric_installer :: "(str \<Rightarrow> json option) \<Rightarrow> str \<Rightarrow> (listing_error, str \<times> str) outcome" where
  "fabric_installer js listing =
     and_then (read_json js listing) (\<lambda>v. and_then (ok_or (as_array v) NotAList) (\<lambda>list.
       and_then (ok_or (List.find (\<lambda>e. field ''stable'' e = Bool True
           \<and> (case as_str (field ''version'' e) of None \<Rightarrow> False | Some s \<Rightarrow> is_release_version s)) list) NoStableInstaller) (\<lambda>e.
       and_then (ok_or (as_str (field ''url'' e)) NoInstallerUrl) (\<lambda>url.
       if \<not> host_allowed url then Err (OtherHost url) else Ok (with_suffix url)))))"

text \<open>\<^verbatim>\<open>rsplit_once\<close>.\<close>

definition rsplit_at :: "u8 \<Rightarrow> str \<Rightarrow> (str \<times> str) option" where
  "rsplit_at c s = map_option (\<lambda>(l, r). (rev r, rev l)) (split_at_byte c (rev s))"

definition forge_build :: "str \<times> json \<Rightarrow> (str \<times> str \<times> bool) option" where
  "forge_build kv =
     (case (rsplit_at 45 (fst kv), as_str (snd kv)) of
        (Some (mc, kind), Some forge) \<Rightarrow>
          if is_release_version mc \<and> is_release_version forge \<and> kind \<in> {ascii ''recommended'', ascii ''latest''}
          then Some (mc, forge, kind = ascii ''recommended'') else None
      | _ \<Rightarrow> None)"

definition forge_builds :: "(str \<Rightarrow> json option) \<Rightarrow> str \<Rightarrow> (listing_error, (str \<times> str \<times> bool) list) outcome" where
  "forge_builds js promotions =
     and_then (read_json js promotions) (\<lambda>v. and_then (ok_or (as_object (field ''promos'' v)) NoPromos) (\<lambda>promos.
       Ok (dedup_by (\<lambda>a b. fst a = fst b \<and> fst (snd a) = fst (snd b))
         (sort_by (\<lambda>a b. then_cmp (cmp (version_key (fst b)) (version_key (fst a))) (cmp (snd (snd b)) (snd (snd a))))
           (List.map_filter forge_build promos)))))"

definition forge_installer :: "str \<Rightarrow> str \<Rightarrow> (build_error, str \<times> str) outcome" where
  "forge_installer game_version forge =
     (case List.find (\<lambda>v. \<not> is_release_version v) [game_version, forge] of
        Some v \<Rightarrow> Err (BadVersion v)
      | None \<Rightarrow>
          let full = game_version @ [45] @ forge in
          Ok (with_suffix (ascii ''https://maven.minecraftforge.net/net/minecraftforge/forge/'' @ full @ ascii ''/forge-'' @ full
            @ ascii ''-installer.jar'')))"

definition sidecar_sha256 :: "str \<Rightarrow> digest option" where
  "sidecar_sha256 t = (case split_whitespace t of [] \<Rightarrow> None | w # _ \<Rightarrow> sha256_of w)"

section \<open>What an accepted build is\<close>

lemma join_split: "join_with [c] (split_all c s) = s"
proof (induction s)
  case (Cons b s)
  obtain p ps where ps: "split_all c s = p # ps" using split_all_cons [of c s] by (cases "split_all c s") auto
  show ?case using Cons by (cases ps) (auto simp: ps)
qed simp

text \<open>The numbers of a version, as long as they are.\<close>

definition version_numbers :: "str \<Rightarrow> nat list" where
  "version_numbers v = map digits_value (split_all 46 v)"

lemma parse_u32_digits: "p \<noteq> [] \<Longrightarrow> list_all is_digit p \<Longrightarrow> parse_u32 p = Some n \<Longrightarrow> unat n = digits_value p"
  by (cases p) (auto simp: parse_u32_def Let_def is_digit_def unat_of_nat split: if_splits)

lemma pointwise_le: "list_all2 (\<le>) xs ys \<Longrightarrow> xs \<le> (ys :: nat list)"
  by (induction rule: list_all2_induct) (auto simp: list_le_def le_less)

lemma version_key_le:
  assumes "is_release_version v"
  shows "version_key v \<le> version_numbers v"
proof (rule pointwise_le)
  have parts: "p \<noteq> [] \<and> list_all is_digit p" if "p \<in> set (split_all 46 v)" for p
    using assms that by (auto simp: is_release_version_def Let_def list_all_iff)
  show "list_all2 (\<le>) (version_key v) (version_numbers v)"
    unfolding version_key_def version_numbers_def list_all2_map1 list_all2_map2
    using parts by (auto simp: list_all2_same intro: eq_refl [OF parse_u32_digits] split: option.split)
qed

lemma oldest_key: "version_key OLDEST_RELEASE = [1, 18, 1]"
  by (simp add: version_key_def OLDEST_RELEASE_def ascii_def parse_u32_def digits_value_def is_digit_def)

lemma release_bytes:
  assumes "is_release_version v"
  shows "set v \<subseteq> {b. is_digit b} \<union> {46}" "length v \<le> 24"
proof -
  have "set v \<subseteq> {46} \<union> \<Union> (set ` set (split_all 46 v))"
    using join_with_set [of "[46]" "split_all 46 v"] by (simp add: join_split)
  then show "set v \<subseteq> {b. is_digit b} \<union> {46}"
    using assms by (fastforce simp: is_release_version_def Let_def list_all_iff)
  show "length v \<le> 24" using assms by (simp add: is_release_version_def Let_def MAX_VERSION_LEN_def)
qed

lemma from_word_Some: "from_word w = Some s \<Longrightarrow> w = server_str s"
  unfolding from_word_def by (drule find_Some) simp

lemma server_bytes: "server_str s \<noteq> []" "length (server_str s) \<le> 7" "list_all id_byte (server_str s)" "\<not> starts_with [46] (server_str s @ t)"
  by (cases s; simp add: ascii_def id_byte_def starts_with_def)+

lemma parse_build_Ok:
  assumes "parse_build s = Ok b"
  shows "build_id b = s" "is_release_version (mb_game_version b)" "mb_loader b = Some l \<Longrightarrow> is_release_version l"
    "mb_loader b \<noteq> None \<longleftrightarrow> has_loader (mb_server b)" "version_key OLDEST_RELEASE \<le> version_key (mb_game_version b)"
proof -
  let ?ps = "split_all 45 s"
  obtain server where w: "from_word (hd ?ps) = Some server" and len: "length ?ps = (if has_loader server then 3 else 2)"
    and none: "List.find (\<lambda>v. \<not> is_release_version v) (tl ?ps) = None" and new: "\<not> version_key (?ps ! 1) < version_key OLDEST_RELEASE"
    and b: "b = \<lparr>mb_server = server, mb_game_version = ?ps ! 1, mb_loader = (if length ?ps > 2 then Some (?ps ! 2) else None)\<rparr>"
    using assms by (auto simp: parse_build_def Let_def split: option.splits if_splits)
  obtain p v rest where ps: "?ps = p # v # rest" using len by (cases ?ps; cases "tl ?ps") (auto split: if_splits)
  have p: "p = server_str server" using from_word_Some [OF w] ps by simp
  have "\<forall>x\<in>set (tl ?ps). is_release_version x" using none by (simp only: find_None) simp
  then have rel: "is_release_version x" if "x \<in> set (v # rest)" for x using that ps by auto
  have rest: "rest = (if has_loader server then [rest ! 0] else [])" using len ps by (cases rest) (auto split: if_splits)
  show "build_id b = s"
    using join_split [of 45 s] len by (cases rest; cases "tl rest") (auto simp: b ps p build_id_def split: if_splits)
  show "is_release_version (mb_game_version b)" using rel by (simp add: b ps)
  show "mb_loader b = Some l \<Longrightarrow> is_release_version l" using rel rest by (cases rest) (auto simp: b ps split: if_splits)
  show "mb_loader b \<noteq> None \<longleftrightarrow> has_loader (mb_server b)" using rest by (cases rest) (auto simp: b ps split: if_splits)
  show "version_key OLDEST_RELEASE \<le> version_key (mb_game_version b)" using new by (simp add: b)
qed

lemma digit_id_byte: "is_digit b \<Longrightarrow> id_byte b"
  by (simp add: id_byte_def)

lemma release_id_bytes: "is_release_version v \<Longrightarrow> list_all id_byte v"
  using release_bytes(1) [of v] by (auto simp: list_all_iff id_byte_def)

section \<open>Properties\<close>

text \<open>Every Minecraft build a node accepts is written in one way, can name a directory, and is of a release no older than
  1.18.1, so none of the releases whose logging lets a player run code is hosted, however long the numbers of the
  version are; it names a loader exactly when its server has one.
\<close>
theorem accepted_builds_are_past_the_hole:
  assumes "parse_build s = Ok b"
  shows "build_id b = s \<and> validate_id s = Ok () \<and> [1, 18, 1] \<le> version_numbers (mb_game_version b)
    \<and> (mb_loader b \<noteq> None \<longleftrightarrow> has_loader (mb_server b))"
proof (intro conjI)
  note p = parse_build_Ok [OF assms]
  show "build_id b = s" by (rule p(1))
  show "mb_loader b \<noteq> None \<longleftrightarrow> has_loader (mb_server b)" by (rule p(4))
  show "[1, 18, 1] \<le> version_numbers (mb_game_version b)"
    using p(5) version_key_le [OF p(2)] unfolding oldest_key by (rule order_trans)
  let ?s = "server_str (mb_server b)"
  have s: "s = ?s @ [45] @ mb_game_version b @ (case mb_loader b of None \<Rightarrow> [] | Some l \<Rightarrow> [45] @ l)"
    using p(1) by (simp add: build_id_def)
  have bytes: "list_all id_byte s"
    using server_bytes(3) release_id_bytes [OF p(2)] release_id_bytes [OF p(3)] by (subst s) (auto simp: id_byte_def split: option.split)
  have len: "length s \<le> 64"
    using server_bytes(2) [of "mb_server b"] release_bytes(2) [OF p(2)] release_bytes(2) [OF p(3)]
    by (subst s) (cases "mb_loader b"; fastforce)
  have dot: "\<not> starts_with [46] s" using server_bytes(4) by (subst s)
  then have "s \<noteq> [46]" "s \<noteq> [46, 46]" by (auto simp: starts_with_def)
  moreover have "s \<noteq> []" using server_bytes(1) by (subst s) simp
  ultimately show "validate_id s = Ok ()" using bytes len dot by (simp add: validate_id_def MAX_ID_LEN_def)
qed

theorem accepted_builds_are_past_the_hole_witness:
  "build_id \<lparr>mb_server = Fabric, mb_game_version = ascii ''26.3'', mb_loader = Some (ascii ''0.20.0'')\<rparr> = ascii ''fabric-26.3-0.20.0''
    \<and> validate_id (ascii ''fabric-26.3-0.20.0'') = Ok ()"
proof -
  have "parse_build (ascii ''fabric-26.3-0.20.0'')
      = Ok \<lparr>mb_server = Fabric, mb_game_version = ascii ''26.3'', mb_loader = Some (ascii ''0.20.0'')\<rparr>"
  proof -
    have parts: "split_all 45 (ascii ''fabric-26.3-0.20.0'') = [ascii ''fabric'', ascii ''26.3'', ascii ''0.20.0'']" by (simp add: ascii_def)
    have word: "from_word (ascii ''fabric'') = Some Fabric" by code_simp
    have rel: "is_release_version (ascii ''26.3'')" "is_release_version (ascii ''0.20.0'')"
      by (simp_all add: is_release_version_def Let_def ascii_def MAX_VERSION_LEN_def is_digit_def)
    have "version_key (ascii ''26.3'') = [26, 3]"
      by (simp add: version_key_def ascii_def parse_u32_def digits_value_def is_digit_def)
    then show ?thesis by (simp add: parse_build_def parts word rel oldest_key)
  qed
  from accepted_builds_are_past_the_hole [OF this] show ?thesis by blast
qed

end
