(* ===== verification/Updates.thy ===== *)
theory Updates
  imports Tables
begin

text \<open>
  \<^verbatim>\<open>crates/platform-agent/src/updates.rs\<close>: when a node looks for a game's new build, what it does with one, when its
  servers move onto it, and the disk space downloads leave free. Unix seconds are \<open>int\<close>, bytes of a disk \<open>nat\<close> with the
  saturation of \<^verbatim>\<open>u64\<close> written out. Reasons for a person are values, not their texts.
\<close>

section \<open>The reserve\<close>

definition GIB :: nat where "GIB = 1024 * 1024 * 1024"
definition DEFAULT_RESERVE_MIN_BYTES :: nat where "DEFAULT_RESERVE_MIN_BYTES = 5 * GIB"
definition DEFAULT_RESERVE_PERCENT :: nat where "DEFAULT_RESERVE_PERCENT = 10"
definition UPDATE_DELTA_PERCENT :: nat where "UPDATE_DELTA_PERCENT = 10"
definition MAX_CHECK_EVERY_HOURS :: u32 where "MAX_CHECK_EVERY_HOURS = 720"

text \<open>\<^verbatim>\<open>u64::saturating_add\<close>.\<close>

definition sat_add :: "nat \<Rightarrow> nat \<Rightarrow> nat" where
  "sat_add a b = min (a + b) (2 ^ 64 - 1)"

definition default_reserve :: "nat \<Rightarrow> nat" where
  "default_reserve disk = max (disk div 100 * DEFAULT_RESERVE_PERCENT) DEFAULT_RESERVE_MIN_BYTES"

definition update_needs :: "nat \<Rightarrow> nat" where
  "update_needs copy_bytes = sat_add copy_bytes (copy_bytes div 100 * UPDATE_DELTA_PERCENT)"

definition fits :: "nat \<Rightarrow> nat \<Rightarrow> nat \<Rightarrow> bool" where
  "fits free need reserve \<longleftrightarrow> free \<ge> sat_add need reserve"

record update_settings =
  us_check_every_hours :: "u32 option"
  us_reserve_bytes :: "nat option"

datatype update_error = IntervalZero | IntervalTooLong | NeedsDate | BadHours | EmptyWindow

definition validate_settings :: "update_settings \<Rightarrow> (update_error, unit) outcome" where
  "validate_settings s =
     (case us_check_every_hours s of
        None \<Rightarrow> Ok ()
      | Some h \<Rightarrow> if h = 0 then Err IntervalZero else if h > MAX_CHECK_EVERY_HOURS then Err IntervalTooLong else Ok ())"

definition reserve_on :: "update_settings \<Rightarrow> nat \<Rightarrow> nat" where
  "reserve_on s disk = (case us_reserve_bytes s of Some b \<Rightarrow> b | None \<Rightarrow> default_reserve disk)"

section \<open>The choices for a game\<close>

datatype on_new_build = Notify | Download
datatype move_servers = Never | WhenEmpty | Window | Once

record game_policy =
  gp_on_new_build :: on_new_build
  gp_move_servers :: move_servers
  gp_window_start_utc :: u8
  gp_window_end_utc :: u8
  gp_force_in_window :: bool
  gp_move_at_unix :: "int option"
  gp_check_every_hours :: "u32 option"
  gp_checks_off :: bool

definition default_window_end :: u8 where "default_window_end = 6"

definition default_policy :: game_policy where
  "default_policy =
     \<lparr>gp_on_new_build = Notify, gp_move_servers = Never, gp_window_start_utc = 0, gp_window_end_utc = default_window_end,
      gp_force_in_window = False, gp_move_at_unix = None, gp_check_every_hours = None, gp_checks_off = False\<rparr>"

record policy_patch =
  px_on_new_build :: "on_new_build option"
  px_move_servers :: "move_servers option"
  px_window_start_utc :: "u8 option"
  px_window_end_utc :: "u8 option"
  px_force_in_window :: "bool option"
  px_move_at_unix :: "int option"
  px_check_every_hours :: "u32 option"
  px_checks_off :: "bool option"

definition given :: "'a option \<Rightarrow> 'a \<Rightarrow> 'a" where
  "given x old = (case x of Some v \<Rightarrow> v | None \<Rightarrow> old)"

definition patched :: "game_policy \<Rightarrow> policy_patch \<Rightarrow> (update_error, game_policy) outcome" where
  "patched p x =
     (if (case px_check_every_hours x of Some v \<Rightarrow> v > MAX_CHECK_EVERY_HOURS | None \<Rightarrow> False) then Err IntervalTooLong
      else
        let q = \<lparr>gp_on_new_build = given (px_on_new_build x) (gp_on_new_build p),
                 gp_move_servers = given (px_move_servers x) (gp_move_servers p),
                 gp_window_start_utc = given (px_window_start_utc x) (gp_window_start_utc p),
                 gp_window_end_utc = given (px_window_end_utc x) (gp_window_end_utc p),
                 gp_force_in_window = given (px_force_in_window x) (gp_force_in_window p),
                 gp_move_at_unix = (case px_move_at_unix x of Some v \<Rightarrow> Some v | None \<Rightarrow> gp_move_at_unix p),
                 gp_check_every_hours = (case px_check_every_hours x of
                    Some v \<Rightarrow> if v > 0 then Some v else None | None \<Rightarrow> gp_check_every_hours p),
                 gp_checks_off = given (px_checks_off x) (gp_checks_off p)\<rparr> in
        if gp_move_servers q = Once \<and> gp_move_at_unix q = None then Err NeedsDate
        else if gp_window_start_utc q > 23 \<or> gp_window_end_utc q > 23 then Err BadHours
        else if gp_window_start_utc q = gp_window_end_utc q then Err EmptyWindow
        else Ok q)"

definition check_hours :: "game_policy \<Rightarrow> u32 option \<Rightarrow> u32 option" where
  "check_hours p node = (if gp_checks_off p then None else case gp_check_every_hours p of Some h \<Rightarrow> Some h | None \<Rightarrow> node)"

definition in_window :: "game_policy \<Rightarrow> u8 \<Rightarrow> bool" where
  "in_window p hour =
     (let start = gp_window_start_utc p; finish = gp_window_end_utc p in
      if start < finish then start \<le> hour \<and> hour < finish else hour \<ge> start \<or> hour < finish)"

datatype wait_reason =
    Emptying "u32 option" | BeforeWindow u8 u8 | BeforeDate int | NoWayToWarn "u32 option"

datatype move_decision = Stay | Wait wait_reason | Move | WarnThenMove

definition utc_hour :: "int \<Rightarrow> u8" where
  "utc_hour now = of_int (now mod 86400 div 3600)"

definition I64_MAX :: int where "I64_MAX = 2 ^ 63 - 1"

definition move_decision :: "game_policy \<Rightarrow> u32 option \<Rightarrow> int \<Rightarrow> bool \<Rightarrow> move_decision" where
  "move_decision p humans now can_warn =
     (let opened = (\<lambda>open not_yet.
        if \<not> open then Wait not_yet
        else if humans = Some 0 then Move
        else if gp_force_in_window p \<and> can_warn then WarnThenMove
        else if gp_force_in_window p then Wait (NoWayToWarn humans)
        else Wait (Emptying humans)) in
      case gp_move_servers p of
        Never \<Rightarrow> Stay
      | WhenEmpty \<Rightarrow> if humans = Some 0 then Move else Wait (Emptying humans)
      | Window \<Rightarrow> opened (in_window p (utc_hour now)) (BeforeWindow (gp_window_start_utc p) (gp_window_end_utc p))
      | Once \<Rightarrow> (let at = given (gp_move_at_unix p) I64_MAX in opened (now \<ge> at) (BeforeDate at)))"

section \<open>What is remembered of the checks\<close>

record game_check =
  gk_checked_unix :: "int option"
  gk_latest_build :: "str option"
  gk_error :: "str option"
  gk_snooze_until_unix :: "int option"
  gk_skip_build :: "str option"
  gk_auto_build :: "str option"
  gk_auto_unix :: "int option"

definition no_check :: game_check where
  "no_check = \<lparr>gk_checked_unix = None, gk_latest_build = None, gk_error = None, gk_snooze_until_unix = None, gk_skip_build = None,
     gk_auto_build = None, gk_auto_unix = None\<rparr>"

text \<open>\<^verbatim>\<open>i64::saturating_sub\<close>.\<close>

definition sat_sub :: "int \<Rightarrow> int \<Rightarrow> int" where
  "sat_sub a b = max (- (2 ^ 63)) (min (a - b) I64_MAX)"

definition check_due :: "game_check \<Rightarrow> int \<Rightarrow> u32 \<Rightarrow> bool" where
  "check_due k now hours = (case gk_checked_unix k of None \<Rightarrow> True | Some at \<Rightarrow> sat_sub now at \<ge> int (unat hours) * 3600)"

definition snoozed :: "game_check \<Rightarrow> int \<Rightarrow> bool" where
  "snoozed k now \<longleftrightarrow> (case gk_snooze_until_unix k of None \<Rightarrow> False | Some until \<Rightarrow> until > now)
     \<or> gk_skip_build k \<noteq> None \<and> gk_skip_build k = gk_latest_build k"

definition may_auto_download :: "game_check \<Rightarrow> int \<Rightarrow> bool" where
  "may_auto_download k now =
     (case gk_latest_build k of
        None \<Rightarrow> False
      | Some latest \<Rightarrow>
          if snoozed k now then False
          else case (gk_auto_build k, gk_auto_unix k, gk_checked_unix k) of
              (Some tried, Some at, Some checked) \<Rightarrow> if tried = latest then checked > at else True
            | (Some tried, _, _) \<Rightarrow> tried \<noteq> latest
            | _ \<Rightarrow> True)"

record update_notice =
  un_game_id :: str
  un_version :: str
  un_installed_build :: "str option"
  un_latest_build :: "str option"
  un_available :: "bool option"
  un_snoozed :: bool
  un_checked_unix :: "int option"
  un_error :: "str option"
  un_snooze_until_unix :: "int option"
  un_skip_build :: "str option"
  un_on_new_build :: on_new_build
  un_policy :: game_policy

definition new_notice :: "str \<Rightarrow> str \<Rightarrow> str option \<Rightarrow> game_check \<Rightarrow> game_policy \<Rightarrow> int \<Rightarrow> update_notice" where
  "new_notice game version installed k p now =
     \<lparr>un_game_id = game, un_version = version, un_installed_build = installed, un_latest_build = gk_latest_build k,
      un_available = (case (installed, gk_latest_build k) of (Some have, Some latest) \<Rightarrow> Some (have \<noteq> latest) | _ \<Rightarrow> None),
      un_snoozed = snoozed k now, un_checked_unix = gk_checked_unix k, un_error = gk_error k,
      un_snooze_until_unix = gk_snooze_until_unix k, un_skip_build = gk_skip_build k, un_on_new_build = gp_on_new_build p, un_policy = p\<rparr>"

record update_checks =
  uc_settings :: update_settings
  uc_games :: "(str, game_check) table"
  uc_policies :: "(str, game_policy) table"

definition no_update_checks :: update_checks where
  "no_update_checks = \<lparr>uc_settings = \<lparr>us_check_every_hours = None, us_reserve_bytes = None\<rparr>, uc_games = [], uc_policies = []\<rparr>"

text \<open>What is read at start: \<open>None\<close> for a file that is missing or unreadable.\<close>

definition load_checks :: "update_checks option \<Rightarrow> update_checks" where
  "load_checks stored = given stored no_update_checks"

definition game_check_of :: "update_checks \<Rightarrow> str \<Rightarrow> game_check" where
  "game_check_of u game = given (tget (uc_games u) game) no_check"

definition policy_of_game :: "update_checks \<Rightarrow> str \<Rightarrow> game_policy" where
  "policy_of_game u game = given (tget (uc_policies u) game) default_policy"

definition put_check :: "str \<Rightarrow> (game_check \<Rightarrow> game_check) \<Rightarrow> update_checks \<Rightarrow> update_checks" where
  "put_check game f u = u\<lparr>uc_games := tput game (f (game_check_of u game)) (uc_games u)\<rparr>"

definition set_settings :: "update_settings \<Rightarrow> update_checks \<Rightarrow> (update_error, update_checks) outcome" where
  "set_settings s u = and_then (validate_settings s) (\<lambda>_. Ok (u\<lparr>uc_settings := s\<rparr>))"

text \<open>\<open>Inl\<close> why the check failed, or \<open>Inr\<close> the build it saw.\<close>

definition record_check :: "str \<Rightarrow> int \<Rightarrow> str + str \<Rightarrow> update_checks \<Rightarrow> update_checks" where
  "record_check game now result = put_check game (\<lambda>k. case result of
       Inr build \<Rightarrow> k\<lparr>gk_checked_unix := Some now, gk_latest_build := Some build, gk_error := None\<rparr>
     | Inl e \<Rightarrow> k\<lparr>gk_checked_unix := Some now, gk_error := Some e\<rparr>)"

definition set_policy :: "str \<Rightarrow> game_policy \<Rightarrow> update_checks \<Rightarrow> update_checks" where
  "set_policy game p u = u\<lparr>uc_policies := (if p = default_policy then tdel game (uc_policies u) else tput game p (uc_policies u))\<rparr>"

definition record_auto :: "str \<Rightarrow> str \<Rightarrow> int \<Rightarrow> update_checks \<Rightarrow> update_checks" where
  "record_auto game build now = put_check game (\<lambda>k. k\<lparr>gk_auto_build := Some build, gk_auto_unix := Some now\<rparr>)"

definition snooze :: "str \<Rightarrow> int option \<Rightarrow> str option \<Rightarrow> update_checks \<Rightarrow> update_checks" where
  "snooze game until skip = put_check game (\<lambda>k. k\<lparr>gk_snooze_until_unix := until, gk_skip_build := skip\<rparr>)"

section \<open>When a server moves\<close>

text \<open>The hours of a window, counted around the clock from its start.\<close>

definition open_for_move :: "game_policy \<Rightarrow> int \<Rightarrow> bool" where
  "open_for_move p now =
     (case gp_move_servers p of
        Never \<Rightarrow> False
      | WhenEmpty \<Rightarrow> True
      | Window \<Rightarrow> (int (unat (utc_hour now)) - int (unat (gp_window_start_utc p))) mod 24
          < (int (unat (gp_window_end_utc p)) - int (unat (gp_window_start_utc p))) mod 24
      | Once \<Rightarrow> (\<exists>at. gp_move_at_unix p = Some at \<and> at \<le> now))"

definition sound_policy :: "game_policy \<Rightarrow> bool" where
  "sound_policy p \<longleftrightarrow> gp_window_start_utc p \<le> 23 \<and> gp_window_end_utc p \<le> 23 \<and> gp_window_start_utc p \<noteq> gp_window_end_utc p
     \<and> (gp_move_servers p = Once \<longrightarrow> gp_move_at_unix p \<noteq> None)"

lemma patched_sound: "patched p x = Ok q \<Longrightarrow> sound_policy q"
  unfolding patched_def Let_def sound_policy_def by (auto split: if_splits)

lemma utc_hour_value: "unat (utc_hour now) = nat (now mod 86400 div 3600)" "unat (utc_hour now) < 24"
proof -
  have h: "0 \<le> now mod 86400 div 3600" "now mod 86400 div 3600 < 24" by (simp_all add: div_less_iff_less_mult pos_imp_zdiv_nonneg_iff)
  have "unat (utc_hour now) = nat (now mod 86400 div 3600 mod 256)"
    by (simp add: utc_hour_def unat_eq_nat_uint unsigned_of_int take_bit_int_def)
  also have "now mod 86400 div 3600 mod 256 = now mod 86400 div 3600" using h by (intro mod_pos_pos_trivial) auto
  finally show "unat (utc_hour now) = nat (now mod 86400 div 3600)" .
  then show "unat (utc_hour now) < 24" using nat_less_iff [OF h(1), of 24] h(2) by simp
qed

lemma circular: "(a - b) mod 24 = (if b \<le> a then a - b else a - b + 24)" if r: "0 \<le> a" "a < 24" "0 \<le> b" "b < (24 :: int)"
proof (cases "b \<le> a")
  case True
  then show ?thesis using r by (simp add: mod_pos_pos_trivial)
next
  case False
  have "(a - b) mod 24 = (a - b + 24) mod 24" by (simp only: mod_add_self2)
  also have "\<dots> = a - b + 24" using r False by (intro mod_pos_pos_trivial) auto
  finally show ?thesis using False by simp
qed

lemma circle_less:
  assumes "0 \<le> h" "h < 24" "0 \<le> s" "s < 24" "0 \<le> e" "e < 24" "s \<noteq> (e :: int)"
  shows "(if s < e then s \<le> h \<and> h < e else s \<le> h \<or> h < e) \<longleftrightarrow> (h - s) mod 24 < (e - s) mod 24"
  unfolding circular [OF assms(1-4)] circular [OF assms(5,6,3,4)] using assms by auto

lemma in_window_circular:
  assumes "sound_policy p" "unat hour < 24"
  shows "in_window p hour \<longleftrightarrow> (int (unat hour) - int (unat (gp_window_start_utc p))) mod 24
    < (int (unat (gp_window_end_utc p)) - int (unat (gp_window_start_utc p))) mod 24"
proof -
  have b: "unat (gp_window_start_utc p) < 24" "unat (gp_window_end_utc p) < 24" "unat (gp_window_start_utc p) \<noteq> unat (gp_window_end_utc p)"
    using assms(1) by (auto simp: sound_policy_def word_le_nat_alt word_unat_eq_iff)
  have "in_window p hour \<longleftrightarrow> (if int (unat (gp_window_start_utc p)) < int (unat (gp_window_end_utc p))
      then int (unat (gp_window_start_utc p)) \<le> int (unat hour) \<and> int (unat hour) < int (unat (gp_window_end_utc p))
      else int (unat (gp_window_start_utc p)) \<le> int (unat hour) \<or> int (unat hour) < int (unat (gp_window_end_utc p)))"
    unfolding in_window_def Let_def word_less_nat_alt word_le_nat_alt of_nat_less_iff of_nat_le_iff by simp
  also have "\<dots> \<longleftrightarrow> (int (unat hour) - int (unat (gp_window_start_utc p))) mod 24
      < (int (unat (gp_window_end_utc p)) - int (unat (gp_window_start_utc p))) mod 24"
    using b assms(2) by (intro circle_less) (simp_all only: of_nat_0_le_iff of_nat_less_iff of_nat_eq_iff of_nat_less_numeral_iff not_False_eq_True)
  finally show ?thesis .
qed

lemma decision_cases:
  assumes "sound_policy p"
  shows "move_decision p humans now can_warn = Move \<longleftrightarrow> open_for_move p now \<and> humans = Some 0"
    "move_decision p humans now can_warn = WarnThenMove \<longleftrightarrow>
      open_for_move p now \<and> humans \<noteq> Some 0 \<and> gp_move_servers p \<in> {Window, Once} \<and> gp_force_in_window p \<and> can_warn"
  using assms in_window_circular [OF assms utc_hour_value(2), of now]
  by (auto simp: move_decision_def open_for_move_def Let_def given_def sound_policy_def split: move_servers.split option.split)

section \<open>When a build is downloaded\<close>

datatype check_op = Checked int "str + str" | Snoozed "int option" "str option"

fun check_step :: "str \<Rightarrow> check_op \<Rightarrow> update_checks \<Rightarrow> update_checks" where
  "check_step game (Checked now result) u = record_check game now result u"
| "check_step game (Snoozed until skip) u = snooze game until skip u"

definition tried_at :: "str \<Rightarrow> int \<Rightarrow> game_check \<Rightarrow> bool" where
  "tried_at build now k \<longleftrightarrow> gk_auto_build k = Some build \<and> gk_auto_unix k = Some now \<and> (\<forall>at. gk_checked_unix k = Some at \<longrightarrow> at \<le> now)"

lemma put_check_get: "game_check_of (put_check game f u) game = f (game_check_of u game)"
  by (simp add: put_check_def game_check_of_def given_def tbl.get_put)

lemma tried_step:
  assumes "tried_at build now (game_check_of u game)" "\<And>t r. op = Checked t r \<Longrightarrow> t \<le> now"
  shows "tried_at build now (game_check_of (check_step game op u) game)"
  using assms by (cases op) (auto simp: tried_at_def record_check_def snooze_def put_check_get split: sum.split)

lemma tried_steps:
  assumes "tried_at build now (game_check_of u game)" "\<forall>op\<in>set ops. \<forall>t r. op = Checked t r \<longrightarrow> t \<le> now"
  shows "tried_at build now (game_check_of (fold (check_step game) ops u) game)"
  using assms by (induction ops arbitrary: u) (auto intro: tried_step)

lemma tried_waits: "tried_at build now k \<Longrightarrow> gk_latest_build k = Some build \<Longrightarrow> \<not> may_auto_download k later"
  by (auto simp: tried_at_def may_auto_download_def split: option.split)

section \<open>Properties\<close>

text \<open>C25.
  Players are never moved unasked. Under any choice an operator could save, a server is moved at once exactly when the game
  answered that nobody is playing and its time has come: always, in the hours of its window counted around the clock, or from
  its date on. With players on, or with a game that does not answer, it is moved only in a window or from a date, only if the
  operator allowed force, and only if its game has a console to warn them on.
\<close>
theorem players_are_never_moved_unasked:
  assumes "patched p x = Ok q"
  shows "(move_decision q humans now can_warn = Move \<longleftrightarrow> open_for_move q now \<and> humans = Some 0)
    \<and> (move_decision q humans now can_warn = WarnThenMove \<longleftrightarrow>
        open_for_move q now \<and> humans \<noteq> Some 0 \<and> gp_move_servers q \<in> {Window, Once} \<and> gp_force_in_window q \<and> can_warn)"
  using decision_cases [OF patched_sound [OF assms]] by blast

definition night_window :: policy_patch where
  "night_window = \<lparr>px_on_new_build = None, px_move_servers = Some Window, px_window_start_utc = Some 22, px_window_end_utc = Some 4,
     px_force_in_window = Some True, px_move_at_unix = None, px_check_every_hours = None, px_checks_off = None\<rparr>"

theorem players_are_never_moved_unasked_witness:
  "\<exists>q. patched default_policy night_window = Ok q \<and> move_decision q (Some 3) 3600 True = WarnThenMove \<and> move_decision q (Some 3) 3600 False \<noteq> WarnThenMove"
proof -
  obtain q where q: "patched default_policy night_window = Ok q" "gp_move_servers q = Window" "gp_force_in_window q"
    "gp_window_start_utc q = 22" "gp_window_end_utc q = 4"
    by (auto simp: patched_def night_window_def default_policy_def Let_def given_def)
  have "utc_hour 3600 = 1" by (simp add: utc_hour_def)
  then have "open_for_move q 3600" using q by (simp add: open_for_move_def)
  with players_are_never_moved_unasked [OF q(1), of "Some 3" 3600] q show ?thesis by auto
qed

text \<open>A build is downloaded by itself once. After an automatic download of a build has started, whatever is snoozed or shown again
  and whatever is checked up to that moment, that build is not downloaded by itself again, until a check that is later than the
  attempt has been made.
\<close>
theorem a_build_is_tried_once_per_check:
  assumes "\<forall>op\<in>set ops. \<forall>t r. op = Checked t r \<longrightarrow> t \<le> now" "\<forall>at. gk_checked_unix (game_check_of u game) = Some at \<longrightarrow> at \<le> now"
    "gk_latest_build (game_check_of (fold (check_step game) ops (record_auto game build now u)) game) = Some build"
  shows "\<not> may_auto_download (game_check_of (fold (check_step game) ops (record_auto game build now u)) game) later"
proof (rule tried_waits [OF tried_steps [OF _ assms(1)] assms(3)])
  show "tried_at build now (game_check_of (record_auto game build now u) game)"
    using assms(2) by (simp add: tried_at_def record_auto_def put_check_get)
qed

theorem a_build_is_tried_once_per_check_witness:
  "\<not> may_auto_download (game_check_of (fold (check_step [103]) [Snoozed None None] (record_auto [103] [49] 20
      (record_check [103] 10 (Inr [49]) no_update_checks))) [103]) 30
    \<and> may_auto_download (game_check_of (record_check [103] 10 (Inr [49]) no_update_checks) [103]) 30"
proof
  have k: "game_check_of (record_check [103] 10 (Inr [49]) no_update_checks) [103] = no_check\<lparr>gk_checked_unix := Some 10, gk_latest_build := Some [49]\<rparr>"
    by (simp add: record_check_def put_check_get) (simp add: game_check_of_def no_update_checks_def given_def no_check_def tget_def)
  show "may_auto_download (game_check_of (record_check [103] 10 (Inr [49]) no_update_checks) [103]) 30"
    by (simp add: k may_auto_download_def snoozed_def no_check_def)
  show "\<not> may_auto_download (game_check_of (fold (check_step [103]) [Snoozed None None] (record_auto [103] [49] 20
      (record_check [103] 10 (Inr [49]) no_update_checks))) [103]) 30"
    by (rule a_build_is_tried_once_per_check) (simp_all add: k snooze_def record_auto_def put_check_get)
qed

end
