(* ===== verification/Installs.thy ===== *)
theory Installs
  imports Instance
begin

text \<open>
  \<^verbatim>\<open>crates/platform-agent/src/install.rs\<close>, with \<^verbatim>\<open>InstallProgress\<close> of \<^verbatim>\<open>content.rs\<close>: the downloads a node runs. One slot
  per game, one permit per node, and the flag that stops a run. The flag is shared between the slot and the task that works
  on it, so progress objects live in a store and are named by their place in it. Each rule of \<open>install_step\<close> is what one task
  does between two points where it waits.
\<close>

section \<open>What a finished run reports\<close>

record update_report =
  ur_from_version :: str
  ur_to_version :: "str option"
  ur_from_build :: "str option"
  ur_to_build :: "str option"
  ur_old :: str
  ur_old_used_by :: "str list"

record verify_report =
  vr_version :: str
  vr_repaired_version :: "str option"
  vr_changed :: "str list"
  vr_changed_count :: nat
  vr_from_build :: "str option"
  vr_to_build :: "str option"

section \<open>Slots\<close>

text \<open>\<^verbatim>\<open>total_bytes\<close> is never given.\<close>

datatype install_state =
    IdleInstall | RunningInstall nat nat | QueuedInstall nat
  | DoneInstall nat bool "update_report option" "verify_report option" | FailedInstall str

definition is_active :: "install_state \<Rightarrow> bool" where
  "is_active st = (case st of RunningInstall _ _ \<Rightarrow> True | QueuedInstall _ \<Rightarrow> True | _ \<Rightarrow> False)"

record progress =
  pg_staging :: "path option"
  pg_container :: "str option"
  pg_cancelled :: bool
  pg_stop_reason :: "str option"

definition new_progress :: progress where
  "new_progress = \<lparr>pg_staging = None, pg_container = None, pg_cancelled = False, pg_stop_reason = None\<rparr>"

definition cancel_run :: "progress \<Rightarrow> progress" where
  "cancel_run p = p\<lparr>pg_cancelled := True\<rparr>"

definition stop_run :: "str \<Rightarrow> progress \<Rightarrow> progress" where
  "stop_run reason p = cancel_run (p\<lparr>pg_stop_reason := (case pg_stop_reason p of None \<Rightarrow> Some reason | Some r \<Rightarrow> Some r)\<rparr>)"

record install_task =
  it_state :: install_state
  it_started :: time
  it_progress :: nat
  it_held :: bool

record installs =
  in_tasks :: "(str, install_task) table"
  in_progress :: "progress list"
  in_permits :: nat

definition new_installs :: installs where
  "new_installs = \<lparr>in_tasks = [], in_progress = [], in_permits = 1\<rparr>"

definition install_state_of :: "(path \<Rightarrow> nat) \<Rightarrow> time \<Rightarrow> str \<Rightarrow> installs \<Rightarrow> install_state" where
  "install_state_of bytes_in now game s =
     (case tget (in_tasks s) game of
        None \<Rightarrow> IdleInstall
      | Some t \<Rightarrow>
          if it_held t then IdleInstall
          else case it_state t of
              RunningInstall _ _ \<Rightarrow> RunningInstall (now - it_started t)
                (case pg_staging (in_progress s ! it_progress t) of None \<Rightarrow> 0 | Some d \<Rightarrow> bytes_in d)
            | QueuedInstall _ \<Rightarrow> QueuedInstall (now - it_started t)
            | other \<Rightarrow> other)"

definition running_installs :: "installs \<Rightarrow> str list" where
  "running_installs s = map fst (filter (\<lambda>(_, t). \<not> it_held t \<and> is_active (it_state t)) (in_tasks s))"

text \<open>\<open>Some\<close>: stopped, with the container to remove, if one runs.\<close>

definition cancel_install :: "str \<Rightarrow> installs \<Rightarrow> str option option \<times> installs" where
  "cancel_install game s =
     (case tget (in_tasks s) game of
        None \<Rightarrow> (None, s)
      | Some t \<Rightarrow>
          if \<not> it_held t \<and> is_active (it_state t)
          then (Some (pg_container (in_progress s ! it_progress t)),
                s\<lparr>in_progress := (in_progress s)[it_progress t := cancel_run (in_progress s ! it_progress t)]\<rparr>)
          else (None, s))"

definition is_installing :: "str \<Rightarrow> installs \<Rightarrow> bool" where
  "is_installing game s = (case tget (in_tasks s) game of None \<Rightarrow> False | Some t \<Rightarrow> is_active (it_state t))"

definition claim :: "str \<Rightarrow> bool \<Rightarrow> time \<Rightarrow> installs \<Rightarrow> nat option \<times> installs" where
  "claim game hold now s =
     (if is_installing game s then (None, s)
      else
        let p = length (in_progress s) in
        (Some p, s\<lparr>in_progress := in_progress s @ [new_progress],
           in_tasks := tput game \<lparr>it_state = (if hold then RunningInstall 0 0 else QueuedInstall 0), it_started = now, it_progress = p,
             it_held = hold\<rparr> (in_tasks s)\<rparr>))"

definition begin_install :: "str \<Rightarrow> time \<Rightarrow> installs \<Rightarrow> nat option \<times> installs" where
  "begin_install game now s = claim game False now s"

definition start_running :: "str \<Rightarrow> time \<Rightarrow> installs \<Rightarrow> installs" where
  "start_running game now s =
     (case tget (in_tasks s) game of
        None \<Rightarrow> s
      | Some t \<Rightarrow> s\<lparr>in_tasks := tput game (t\<lparr>it_state := RunningInstall 0 0, it_started := now\<rparr>) (in_tasks s)\<rparr>)"

definition finish_install :: "str \<Rightarrow> install_state \<Rightarrow> installs \<Rightarrow> installs" where
  "finish_install game st s =
     (case tget (in_tasks s) game of
        None \<Rightarrow> s
      | Some t \<Rightarrow> s\<lparr>in_tasks := tput game (t\<lparr>it_state := st\<rparr>) (in_tasks s)\<rparr>)"

definition release_hold :: "str \<Rightarrow> installs \<Rightarrow> installs" where
  "release_hold game s = s\<lparr>in_tasks := tdel game (in_tasks s)\<rparr>"

section \<open>The tasks\<close>

text \<open>
  Where the background task of a download stands: looking for the permit; holding it with the flag still to be read; its turn
  taken; working; ended but for the permit; cancelled before its turn. \<open>RoomRefused\<close> is a download the reserve refused
  before it began. \<open>fetch\<close> is what the task is for: an install, of a picked copy or the node's own, an update and whether
  the old copy goes, or a check of the files.
\<close>

datatype job_phase = Looking | Holding | TurnTaken | Working | Leaving | Closing

datatype fetch = FetchInstall "str option" | FetchUpdate bool | FetchVerify

record job =
  jb_game :: str
  jb_fetch :: fetch
  jb_progress :: nat
  jb_phase :: job_phase

datatype work_result = RoomRefused str | WorkDone nat bool "update_report option" "verify_report option" | WorkFailed str

definition after_work :: "progress \<Rightarrow> work_result \<Rightarrow> install_state" where
  "after_work p r = (case r of
       RoomRefused e \<Rightarrow> FailedInstall e
     | WorkDone n there u v \<Rightarrow> DoneInstall n there u v
     | WorkFailed e \<Rightarrow> FailedInstall (case pg_stop_reason p of Some why \<Rightarrow> why | None \<Rightarrow> e))"

record install_world =
  iw_installs :: installs
  iw_jobs :: "job list"
  iw_holds :: "str list"

text \<open>\<^verbatim>\<open>spawn_version\<close>, \<^verbatim>\<open>spawn_update\<close> and \<^verbatim>\<open>spawn_verify\<close> up to the task they start.\<close>

definition spawn_fetch :: "str \<Rightarrow> fetch \<Rightarrow> time \<Rightarrow> install_world \<Rightarrow> bool \<times> install_world" where
  "spawn_fetch game what now w =
     (case begin_install game now (iw_installs w) of
        (None, s) \<Rightarrow> (False, w\<lparr>iw_installs := s\<rparr>)
      | (Some p, s) \<Rightarrow> (True, w\<lparr>iw_installs := s,
          iw_jobs := iw_jobs w @ [\<lparr>jb_game = game, jb_fetch = what, jb_progress = p, jb_phase = Looking\<rparr>]\<rparr>))"

definition change_progress :: "nat \<Rightarrow> (progress \<Rightarrow> progress) \<Rightarrow> installs \<Rightarrow> installs" where
  "change_progress p f s = s\<lparr>in_progress := (in_progress s)[p := f (in_progress s ! p)]\<rparr>"

text \<open>
  What the background tasks do by themselves. \<open>disk_full\<close> is the watch of \<open>watched\<close> stopping the work: it
  reads the cancel flag, then measures the disk, then stops, and a cancel may come in between, so the
  step is one a cancelled download can take as well.
\<close>

inductive task_step :: "install_world \<Rightarrow> install_world \<Rightarrow> bool" where
  gives_up: "jb_phase j = Looking \<Longrightarrow> pg_cancelled (in_progress s ! jb_progress j) \<Longrightarrow>
    task_step \<lparr>iw_installs = s, iw_jobs = js @ j # js', iw_holds = hs\<rparr>
      \<lparr>iw_installs = s, iw_jobs = js @ j\<lparr>jb_phase := Closing\<rparr> # js', iw_holds = hs\<rparr>"
| acquires: "jb_phase j = Looking \<Longrightarrow> in_permits s > 0 \<Longrightarrow>
    task_step \<lparr>iw_installs = s, iw_jobs = js @ j # js', iw_holds = hs\<rparr>
      \<lparr>iw_installs = s\<lparr>in_permits := in_permits s - 1\<rparr>, iw_jobs = js @ j\<lparr>jb_phase := Holding\<rparr> # js', iw_holds = hs\<rparr>"
| too_late: "jb_phase j = Holding \<Longrightarrow> pg_cancelled (in_progress s ! jb_progress j) \<Longrightarrow>
    task_step \<lparr>iw_installs = s, iw_jobs = js @ j # js', iw_holds = hs\<rparr>
      \<lparr>iw_installs = s\<lparr>in_permits := in_permits s + 1\<rparr>, iw_jobs = js @ j\<lparr>jb_phase := Closing\<rparr> # js', iw_holds = hs\<rparr>"
| its_turn: "jb_phase j = Holding \<Longrightarrow> \<not> pg_cancelled (in_progress s ! jb_progress j) \<Longrightarrow>
    task_step \<lparr>iw_installs = s, iw_jobs = js @ j # js', iw_holds = hs\<rparr>
      \<lparr>iw_installs = s, iw_jobs = js @ j\<lparr>jb_phase := TurnTaken\<rparr> # js', iw_holds = hs\<rparr>"
| starts: "jb_phase j = TurnTaken \<Longrightarrow>
    task_step \<lparr>iw_installs = s, iw_jobs = js @ j # js', iw_holds = hs\<rparr>
      \<lparr>iw_installs = start_running (jb_game j) now s, iw_jobs = js @ j\<lparr>jb_phase := Working\<rparr> # js', iw_holds = hs\<rparr>"
| stages: "jb_phase j = Working \<Longrightarrow>
    task_step \<lparr>iw_installs = s, iw_jobs = js @ j # js', iw_holds = hs\<rparr>
      \<lparr>iw_installs = change_progress (jb_progress j) (\<lambda>p. p\<lparr>pg_staging := dir, pg_container := container\<rparr>) s, iw_jobs = js @ j # js', iw_holds = hs\<rparr>"
| disk_full: "jb_phase j = Working \<Longrightarrow>
    task_step \<lparr>iw_installs = s, iw_jobs = js @ j # js', iw_holds = hs\<rparr>
      \<lparr>iw_installs = change_progress (jb_progress j) (stop_run reason) s, iw_jobs = js @ j # js', iw_holds = hs\<rparr>"
| work_ends: "jb_phase j = Working \<Longrightarrow>
    task_step \<lparr>iw_installs = s, iw_jobs = js @ j # js', iw_holds = hs\<rparr>
      \<lparr>iw_installs = finish_install (jb_game j) (after_work (in_progress s ! jb_progress j) r) s, iw_jobs = js @ j\<lparr>jb_phase := Leaving\<rparr> # js',
        iw_holds = hs\<rparr>"
| leaves: "jb_phase j = Leaving \<Longrightarrow>
    task_step \<lparr>iw_installs = s, iw_jobs = js @ j # js', iw_holds = hs\<rparr>
      \<lparr>iw_installs = s\<lparr>in_permits := in_permits s + 1\<rparr>, iw_jobs = js @ js', iw_holds = hs\<rparr>"
| closes: "jb_phase j = Closing \<Longrightarrow>
    task_step \<lparr>iw_installs = s, iw_jobs = js @ j # js', iw_holds = hs\<rparr>
      \<lparr>iw_installs = finish_install (jb_game j) (FailedInstall (ascii ''cancelled'')) s, iw_jobs = js @ js', iw_holds = hs\<rparr>"

text \<open>
  All that happens: a step of a task, or a request. \<open>dropped\<close>: the request that held a slot for a delete
  went away while the delete ran, and its future with it.
\<close>

inductive install_step :: "install_world \<Rightarrow> install_world \<Rightarrow> bool" where
  spawned: "spawn_fetch game what now w = (True, w') \<Longrightarrow> install_step w w'"
| cancel: "cancel_install game s = (Some container, s') \<Longrightarrow>
    install_step \<lparr>iw_installs = s, iw_jobs = js, iw_holds = hs\<rparr> \<lparr>iw_installs = s', iw_jobs = js, iw_holds = hs\<rparr>"
| exclusive: "claim game True now s = (Some p, s') \<Longrightarrow>
    install_step \<lparr>iw_installs = s, iw_jobs = js, iw_holds = hs\<rparr> \<lparr>iw_installs = s', iw_jobs = js, iw_holds = hs @ [game]\<rparr>"
| exclusive_ends: "install_step \<lparr>iw_installs = s, iw_jobs = js, iw_holds = hs @ game # hs'\<rparr>
      \<lparr>iw_installs = release_hold game s, iw_jobs = js, iw_holds = hs @ hs'\<rparr>"
| dropped: "install_step \<lparr>iw_installs = s, iw_jobs = js, iw_holds = hs @ game # hs'\<rparr>
      \<lparr>iw_installs = s, iw_jobs = js, iw_holds = hs @ hs'\<rparr>"
| by_task: "task_step w w' \<Longrightarrow> install_step w w'"

definition first_world :: install_world where
  "first_world = \<lparr>iw_installs = new_installs, iw_jobs = [], iw_holds = []\<rparr>"

inductive reached :: "install_world \<Rightarrow> install_world \<Rightarrow> bool" for w0 where
  here: "reached w0 w0"
| further: "reached w0 w \<Longrightarrow> install_step w w' \<Longrightarrow> reached w0 w'"

inductive tasks_reach :: "install_world \<Rightarrow> install_world \<Rightarrow> bool" for w0 where
  tasks_here: "tasks_reach w0 w0"
| tasks_further: "tasks_reach w0 w \<Longrightarrow> task_step w w' \<Longrightarrow> tasks_reach w0 w'"

lemma tasks_trans: "tasks_reach w1 w2 \<Longrightarrow> tasks_reach w0 w1 \<Longrightarrow> tasks_reach w0 w2"
  by (induction rule: tasks_reach.induct) (auto intro: tasks_reach.intros)

lemma tasks_one: "task_step w w' \<Longrightarrow> tasks_reach w w'"
  by (rule tasks_further [OF tasks_here])

lemma tasks_reached: "tasks_reach w w' \<Longrightarrow> reached w w'"
  by (induction rule: tasks_reach.induct) (auto intro: reached.intros by_task)

lemma reached_trans: "reached w1 w2 \<Longrightarrow> reached w0 w1 \<Longrightarrow> reached w0 w2"
  by (induction rule: reached.induct) (auto intro: reached.intros)

lemma reached_one: "install_step w w' \<Longrightarrow> reached w w'"
  by (rule further [OF here])

section \<open>What holds of every state a node reaches\<close>

definition live_jobs :: "install_world \<Rightarrow> job list" where
  "live_jobs w = filter (\<lambda>j. jb_phase j \<noteq> Leaving) (iw_jobs w)"

definition with_permit :: "job \<Rightarrow> bool" where
  "with_permit j \<longleftrightarrow> jb_phase j \<in> {Holding, TurnTaken, Working, Leaving}"

definition owns :: "installs \<Rightarrow> job \<Rightarrow> bool" where
  "owns s j \<longleftrightarrow> (\<exists>t. tget (in_tasks s) (jb_game j) = Some t \<and> is_active (it_state t) \<and> \<not> it_held t \<and> it_progress t = jb_progress j
     \<and> (jb_phase j = Working \<longleftrightarrow> (\<exists>a b. it_state t = RunningInstall a b)))"

definition is_download :: "installs \<Rightarrow> str \<Rightarrow> bool" where
  "is_download s g \<longleftrightarrow> (\<exists>t. tget (in_tasks s) g = Some t \<and> is_active (it_state t) \<and> \<not> it_held t)"

definition is_held :: "installs \<Rightarrow> str \<Rightarrow> bool" where
  "is_held s g \<longleftrightarrow> (\<exists>t. tget (in_tasks s) g = Some t \<and> is_active (it_state t) \<and> it_held t)"

definition slots_ok :: "install_world \<Rightarrow> bool" where
  "slots_ok w \<longleftrightarrow> in_permits (iw_installs w) + length (filter with_permit (iw_jobs w)) = 1
     \<and> distinct (map jb_game (live_jobs w)) \<and> (\<forall>j\<in>set (live_jobs w). owns (iw_installs w) j)
     \<and> (\<forall>g. is_download (iw_installs w) g \<longrightarrow> g \<in> jb_game ` set (live_jobs w))
     \<and> distinct (iw_holds w) \<and> (\<forall>g\<in>set (iw_holds w). is_held (iw_installs w) g)
     \<and> (\<forall>j\<in>set (iw_jobs w). jb_progress j < length (in_progress (iw_installs w)))"

lemmas slot_simps = slots_ok_def live_jobs_def with_permit_def

lemma slots_ok_first: "slots_ok first_world"
  by (simp add: slot_simps first_world_def new_installs_def is_download_def tget_def)

lemma claim_cases:
  assumes "claim game hold now s = (Some p, s')"
  obtains "\<not> is_installing game s" "p = length (in_progress s)" "in_progress s' = in_progress s @ [new_progress]" "in_permits s' = in_permits s"
    "\<And>g. tget (in_tasks s') g = (if g = game then Some \<lparr>it_state = (if hold then RunningInstall 0 0 else QueuedInstall 0), it_started = now,
        it_progress = p, it_held = hold\<rparr> else tget (in_tasks s) g)"
  using assms by (auto simp: claim_def Let_def tbl.get_put split: if_splits)

lemma not_installing: "\<not> is_installing g s \<Longrightarrow> \<not> is_download s g \<and> \<not> is_held s g \<and> (\<forall>j. jb_game j = g \<longrightarrow> \<not> owns s j)"
  by (auto simp: is_installing_def is_download_def is_held_def owns_def)

lemma tasks_same:
  assumes "in_tasks s' = in_tasks s" shows "owns s' j = owns s j" "is_download s' g = is_download s g" "is_held s' g = is_held s g"
  using assms by (simp_all add: owns_def is_download_def is_held_def)

lemma tasks_cancel:
  assumes "cancel_install g s = (r, s')"
  shows "in_tasks s' = in_tasks s" "in_permits s' = in_permits s" "length (in_progress s') = length (in_progress s)"
  using assms by (auto simp: cancel_install_def split: option.splits if_splits)

lemma tasks_start: "tget (in_tasks (start_running g now s)) h =
    (if h = g then map_option (\<lambda>t. t\<lparr>it_state := RunningInstall 0 0, it_started := now\<rparr>) (tget (in_tasks s) g) else tget (in_tasks s) h)"
  "in_permits (start_running g now s) = in_permits s" "in_progress (start_running g now s) = in_progress s"
  by (auto simp: start_running_def tbl.get_put split: option.split)

lemma tasks_finish: "tget (in_tasks (finish_install g st s)) h =
    (if h = g then map_option (\<lambda>t. t\<lparr>it_state := st\<rparr>) (tget (in_tasks s) g) else tget (in_tasks s) h)"
  "in_permits (finish_install g st s) = in_permits s" "in_progress (finish_install g st s) = in_progress s"
  by (auto simp: finish_install_def tbl.get_put split: option.split)

lemma after_work_inactive: "\<not> is_active (after_work p r)"
  by (cases r) (simp_all add: after_work_def is_active_def)

text \<open>A change of one slot leaves the others alone.\<close>

lemma elsewhere:
  assumes "\<forall>h. h \<noteq> g \<longrightarrow> tget (in_tasks s') h = tget (in_tasks s) h"
  shows "jb_game k \<noteq> g \<Longrightarrow> owns s' k = owns s k" "h \<noteq> g \<Longrightarrow> is_download s' h = is_download s h" "h \<noteq> g \<Longrightarrow> is_held s' h = is_held s h"
  using assms by (auto simp: owns_def is_download_def is_held_def)

lemma ok_claim_download:
  assumes "slots_ok \<lparr>iw_installs = s, iw_jobs = js, iw_holds = hs\<rparr>" "begin_install game now s = (Some p, s')"
  shows "slots_ok \<lparr>iw_installs = s', iw_jobs = js @ [\<lparr>jb_game = game, jb_fetch = what, jb_progress = p, jb_phase = Looking\<rparr>], iw_holds = hs\<rparr>"
  using assms(2) unfolding begin_install_def
proof (cases rule: claim_cases)
  case 1
  note out = not_installing [OF 1(1)]
  have other: "\<forall>h. h \<noteq> game \<longrightarrow> tget (in_tasks s') h = tget (in_tasks s) h" using 1(5) by simp
  have mine: "owns s' \<lparr>jb_game = game, jb_fetch = what, jb_progress = p, jb_phase = Looking\<rparr>"
    using 1(5) by (simp add: owns_def is_active_def)
  have keep: "jb_game k \<noteq> game \<and> owns s' k" if "k \<in> set js" "jb_phase k \<noteq> Leaving" for k
    using assms(1) out that elsewhere(1) [OF other, of k] by (auto simp: slot_simps)
  have downloads: "h = game \<or> h \<in> jb_game ` {k \<in> set js. jb_phase k \<noteq> Leaving}" if "is_download s' h" for h
    using elsewhere(2) [OF other, of h] that assms(1) by (auto simp: slots_ok_def live_jobs_def)
  have holds: "is_held s' h" if "h \<in> set hs" for h
  proof -
    have "is_held s h" using assms(1) that by (simp add: slot_simps)
    then show ?thesis using out elsewhere(3) [OF other, of h] by metis
  qed
  have games: "game \<notin> jb_game ` {k \<in> set js. jb_phase k \<noteq> Leaving}" using keep by auto
  show ?thesis
    using assms(1) mine keep downloads holds games 1(2-4) by (auto simp: slot_simps less_SucI)
qed

lemma ok_claim_hold:
  assumes "slots_ok \<lparr>iw_installs = s, iw_jobs = js, iw_holds = hs\<rparr>" "claim game True now s = (Some p, s')"
  shows "slots_ok \<lparr>iw_installs = s', iw_jobs = js, iw_holds = hs @ [game]\<rparr>"
  using assms(2)
proof (cases rule: claim_cases)
  case 1
  note out = not_installing [OF 1(1)]
  have other: "\<forall>h. h \<noteq> game \<longrightarrow> tget (in_tasks s') h = tget (in_tasks s) h" using 1(5) by simp
  have keep: "owns s' k" if "k \<in> set js" "jb_phase k \<noteq> Leaving" for k
  proof -
    have "owns s k" using assms(1) that by (simp add: slot_simps)
    then show ?thesis using out elsewhere(1) [OF other, of k] by metis
  qed
  have "\<not> is_download s' game" using 1(5) by (auto simp: is_download_def)
  then have downloads: "is_download s h" if "is_download s' h" for h using elsewhere(2) [OF other, of h] that by metis
  have "is_held s' game" using 1(5) by (auto simp: is_held_def is_active_def)
  moreover have fresh: "game \<notin> set hs" using assms(1) out by (auto simp: slot_simps)
  ultimately have holds: "is_held s' h" if "h \<in> set (hs @ [game])" for h
    using assms(1) elsewhere(3) [OF other, of h] that by (auto simp: slot_simps)
  show ?thesis
    using assms(1) keep downloads holds fresh 1(3,4) by (auto simp: slot_simps less_SucI)
qed

lemma ok_release:
  assumes "slots_ok \<lparr>iw_installs = s, iw_jobs = js, iw_holds = hs @ game # hs'\<rparr>"
  shows "slots_ok \<lparr>iw_installs = release_hold game s, iw_jobs = js, iw_holds = hs @ hs'\<rparr>"
proof -
  have other: "\<forall>h. h \<noteq> game \<longrightarrow> tget (in_tasks (release_hold game s)) h = tget (in_tasks s) h"
    by (simp add: release_hold_def tbl.get_del)
  have gone: "tget (in_tasks (release_hold game s)) game = None" by (simp add: release_hold_def tbl.get_del)
  have held: "is_held s game" using assms by (simp add: slot_simps)
  have keep: "owns (release_hold game s) k" if "k \<in> set js" "jb_phase k \<noteq> Leaving" for k
  proof -
    have "owns s k" using assms that by (simp add: slot_simps)
    then have "jb_game k \<noteq> game" using held by (auto simp: owns_def is_held_def)
    then show ?thesis using \<open>owns s k\<close> elsewhere(1) [OF other, of k] by simp
  qed
  have downloads: "is_download s h" if "is_download (release_hold game s) h" for h
    using elsewhere(2) [OF other, of h] that gone by (cases "h = game") (auto simp: is_download_def)
  have holds: "is_held (release_hold game s) h" if "h \<in> set (hs @ hs')" for h
    using assms elsewhere(3) [OF other, of h] that by (auto simp: slot_simps)
  show ?thesis using assms keep downloads holds by (auto simp: slot_simps release_hold_def)
qed

text \<open>A job that only moves on, or only touches the store.\<close>

lemma ok_move_on:
  assumes "slots_ok \<lparr>iw_installs = s, iw_jobs = js @ j # js', iw_holds = hs\<rparr>" "in_tasks s' = in_tasks s"
    "length (in_progress s') = length (in_progress s)" "jb_game j' = jb_game j" "jb_progress j' = jb_progress j"
    "in_permits s' + (if with_permit j' then 1 else 0) = in_permits s + (if with_permit j then 1 else 0)"
    "jb_phase j \<noteq> Leaving" "jb_phase j' \<noteq> Leaving" "jb_phase j' = Working \<longleftrightarrow> jb_phase j = Working"
  shows "slots_ok \<lparr>iw_installs = s', iw_jobs = js @ j' # js', iw_holds = hs\<rparr>"
proof -
  have "owns s' j'" using assms by (auto simp: slot_simps tasks_same [OF assms(2)] owns_def)
  moreover have "in_permits s' + length (filter with_permit (js @ j' # js')) = 1"
  proof -
    have "in_permits s + (if with_permit j then 1 else 0) + length (filter with_permit js) + length (filter with_permit js') = 1"
      using assms(1) by (simp add: slots_ok_def split: if_splits)
    then have "in_permits s' + (if with_permit j' then 1 else 0) + length (filter with_permit js) + length (filter with_permit js') = 1"
      using assms(6) by linarith
    then show ?thesis by (simp split: if_splits)
  qed
  ultimately show ?thesis using assms(1,3-5,7,8) unfolding slots_ok_def live_jobs_def by (auto simp: tasks_same [OF assms(2)])
qed

lemma others_live:
  assumes "slots_ok \<lparr>iw_installs = s, iw_jobs = js @ j # js', iw_holds = hs\<rparr>" "jb_phase j \<noteq> Leaving"
    "k \<in> set js \<union> set js'" "jb_phase k \<noteq> Leaving"
  shows "owns s k" "jb_game k \<noteq> jb_game j"
proof -
  show "owns s k" using assms by (auto simp: slots_ok_def live_jobs_def)
  have "jb_game j \<notin> jb_game ` {k \<in> set js \<union> set js'. jb_phase k \<noteq> Leaving}" using assms(1,2) by (auto simp: slots_ok_def live_jobs_def)
  then show "jb_game k \<noteq> jb_game j" using assms(3,4) by (metis (mono_tags, lifting) imageI mem_Collect_eq)
qed

lemma ok_start:
  assumes "slots_ok \<lparr>iw_installs = s, iw_jobs = js @ j # js', iw_holds = hs\<rparr>" "jb_phase j = TurnTaken"
  shows "slots_ok \<lparr>iw_installs = start_running (jb_game j) now s, iw_jobs = js @ j\<lparr>jb_phase := Working\<rparr> # js', iw_holds = hs\<rparr>"
proof -
  let ?s = "start_running (jb_game j) now s"
  have other: "\<forall>h. h \<noteq> jb_game j \<longrightarrow> tget (in_tasks ?s) h = tget (in_tasks s) h" by (simp add: tasks_start)
  have own: "owns s j" using assms by (simp add: slot_simps)
  then have mine: "owns ?s (j\<lparr>jb_phase := Working\<rparr>)" by (auto simp: owns_def tasks_start is_active_def)
  have keep: "owns ?s k" if "k \<in> set js \<union> set js'" "jb_phase k \<noteq> Leaving" for k
    using others_live [OF assms(1) _ that] assms(2) elsewhere(1) [OF other, of k] by simp
  have downloads: "is_download s h" if "is_download ?s h" for h
    using elsewhere(2) [OF other, of h] that own by (cases "h = jb_game j") (auto simp: is_download_def owns_def)
  have holds: "is_held ?s h" if "h \<in> set hs" for h
  proof -
    have "is_held s h" using assms(1) that by (simp add: slot_simps)
    then show ?thesis using own elsewhere(3) [OF other, of h] by (cases "h = jb_game j") (auto simp: is_held_def owns_def)
  qed
  show ?thesis using assms mine keep downloads holds by (auto simp: slot_simps tasks_start)
qed

text \<open>A job that ends gives its slot back.\<close>

lemma ok_finish:
  assumes "slots_ok \<lparr>iw_installs = s, iw_jobs = js @ j # js', iw_holds = hs\<rparr>" "jb_phase j \<noteq> Leaving" "\<not> is_active st"
    "left = [] \<and> \<not> with_permit j \<or> left = [j\<lparr>jb_phase := Leaving\<rparr>] \<and> with_permit j"
  shows "slots_ok \<lparr>iw_installs = finish_install (jb_game j) st s, iw_jobs = js @ left @ js', iw_holds = hs\<rparr>"
proof -
  let ?s = "finish_install (jb_game j) st s"
  have other: "\<forall>h. h \<noteq> jb_game j \<longrightarrow> tget (in_tasks ?s) h = tget (in_tasks s) h" by (simp add: tasks_finish)
  have own: "owns s j" using assms by (simp add: slot_simps)
  have keep: "owns ?s k" if "k \<in> set js \<union> set js'" "jb_phase k \<noteq> Leaving" for k
    using others_live [OF assms(1,2) that] elsewhere(1) [OF other, of k] by simp
  have "\<not> is_download ?s (jb_game j)" using assms(3) by (auto simp: is_download_def tasks_finish)
  then have d: "is_download s h \<and> h \<noteq> jb_game j" if "is_download ?s h" for h using elsewhere(2) [OF other, of h] that by metis
  have downloads: "h \<in> jb_game ` {k \<in> set js. jb_phase k \<noteq> Leaving} \<or> h \<in> jb_game ` {k \<in> set js'. jb_phase k \<noteq> Leaving}"
    if "is_download ?s h" for h
    using d [OF that] assms(1) by (auto simp: slots_ok_def live_jobs_def split: if_splits)
  have holds: "is_held ?s h" if "h \<in> set hs" for h
  proof -
    have "is_held s h" using assms(1) that by (simp add: slot_simps)
    then have "h \<noteq> jb_game j" using own by (auto simp: is_held_def owns_def)
    then show ?thesis using \<open>is_held s h\<close> elsewhere(3) [OF other, of h] by simp
  qed
  show ?thesis using assms(4)
  proof
    assume "left = [] \<and> \<not> with_permit j"
    then show ?thesis using assms(1,2) keep downloads holds by (auto simp: slot_simps tasks_finish)
  next
    assume "left = [j\<lparr>jb_phase := Leaving\<rparr>] \<and> with_permit j"
    then show ?thesis using assms(1,2) keep downloads holds by (auto simp: slot_simps tasks_finish)
  qed
qed

lemma spawn_cases:
  assumes "spawn_fetch game what now w = (True, w')"
  obtains s js hs s' p where "w = \<lparr>iw_installs = s, iw_jobs = js, iw_holds = hs\<rparr>" "begin_install game now s = (Some p, s')"
    "w' = \<lparr>iw_installs = s', iw_jobs = js @ [\<lparr>jb_game = game, jb_fetch = what, jb_progress = p, jb_phase = Looking\<rparr>], iw_holds = hs\<rparr>"
  using assms by (cases w) (auto simp: spawn_fetch_def split: prod.splits option.splits)

lemma slots_task_step: "task_step w w' \<Longrightarrow> slots_ok w \<Longrightarrow> slots_ok w'"
proof (induction rule: task_step.induct)
  case (work_ends j s js js' hs r)
  then show ?case using ok_finish [OF work_ends(2) _ after_work_inactive, of "[j\<lparr>jb_phase := Leaving\<rparr>]"] by (simp add: with_permit_def)
next
  case (closes j s js js' hs)
  then show ?case using ok_finish [OF closes(2), of "FailedInstall (ascii ''cancelled'')" "[]"] by (simp add: with_permit_def is_active_def)
next
  case (leaves j s js js' hs)
  then show ?case by (auto simp: slot_simps tasks_same [of "s\<lparr>in_permits := Suc 0\<rparr>" s])
qed (auto intro: ok_start ok_move_on simp: with_permit_def change_progress_def)

lemma slots_step: "install_step w w' \<Longrightarrow> slots_ok w \<Longrightarrow> slots_ok w'"
proof (induction rule: install_step.induct)
  case (spawned game what now w w')
  then show ?case using ok_claim_download by (auto elim!: spawn_cases)
next
  case (cancel game s container s' js hs)
  then show ?case by (simp add: slot_simps tasks_cancel [OF cancel(1)] tasks_same [OF tasks_cancel(1) [OF cancel(1)]])
next
  case (dropped s js hs game hs')
  then show ?case by (simp add: slot_simps)
next
  case (by_task w w')
  then show ?case by (rule slots_task_step)
qed (auto intro: ok_claim_hold ok_release)

lemma slots_reached: "reached first_world w \<Longrightarrow> slots_ok w"
  by (induction rule: reached.induct) (auto intro: slots_ok_first slots_step)

section \<open>The slot is given back\<close>

definition running_now :: "installs \<Rightarrow> str \<Rightarrow> bool" where
  "running_now s g \<longleftrightarrow> (\<exists>t a b. tget (in_tasks s) g = Some t \<and> \<not> it_held t \<and> it_state t = RunningInstall a b)"

definition workers :: "str \<Rightarrow> install_world \<Rightarrow> job list" where
  "workers g w = filter (\<lambda>j. jb_game j = g) (live_jobs w)"

lemma one_worker:
  assumes "slots_ok w" shows "length (workers g w) = (if is_download (iw_installs w) g then 1 else 0)"
proof (cases "is_download (iw_installs w) g")
  case True
  then have "g \<in> jb_game ` set (live_jobs w)" using assms by (simp add: slots_ok_def)
  then obtain j where j: "j \<in> set (live_jobs w)" "jb_game j = g" by blast
  have "distinct (map jb_game (live_jobs w))" using assms by (simp add: slots_ok_def)
  moreover from j(1) obtain xs ys where l: "live_jobs w = xs @ j # ys" by (meson split_list)
  ultimately have "jb_game j \<notin> jb_game ` (set xs \<union> set ys)" by (simp add: image_Un)
  then have "\<forall>k\<in>set xs \<union> set ys. jb_game k \<noteq> g" using j(2) by (metis imageI)
  then have "filter (\<lambda>k. jb_game k = g) xs = [] \<and> filter (\<lambda>k. jb_game k = g) ys = []" by (simp add: filter_empty_conv)
  then have "workers g w = [j]" using j(2) by (simp add: workers_def l)
  then show ?thesis using True by simp
next
  case False
  then have "workers g w = []" using assms by (auto simp: workers_def filter_empty_conv slots_ok_def owns_def is_download_def)
  then show ?thesis using False by simp
qed

lemma runs_working:
  assumes "slots_ok w" "running_now (iw_installs w) g"
  obtains j where "j \<in> set (iw_jobs w)" "jb_game j = g" "jb_phase j = Working"
proof -
  have "is_download (iw_installs w) g" using assms(2) by (auto simp: running_now_def is_download_def is_active_def)
  then obtain j where j: "j \<in> set (live_jobs w)" "jb_game j = g" using assms(1) by (auto simp: slots_ok_def)
  then have "owns (iw_installs w) j" using assms(1) by (simp add: slots_ok_def)
  then have "jb_phase j = Working" using assms(2) j(2) by (auto simp: owns_def running_now_def)
  then show ?thesis using that j by (simp add: live_jobs_def)
qed

lemma one_permit:
  assumes "slots_ok w" "j \<in> set (iw_jobs w)" "k \<in> set (iw_jobs w)" "with_permit j" "with_permit k"
  shows "j = k"
proof -
  have "length (filter with_permit (iw_jobs w)) \<le> 1" using assms(1) by (simp add: slots_ok_def)
  then have "card (set (filter with_permit (iw_jobs w))) \<le> Suc 0" using card_length [of "filter with_permit (iw_jobs w)"] by linarith
  then show ?thesis using assms(2-5) card_le_Suc0_iff_eq [of "set (filter with_permit (iw_jobs w))"] by auto
qed

text \<open>From one step to the worlds it leads to.\<close>

lemma leads:
  assumes "task_step w1 w2" "\<exists>w'. tasks_reach w2 w' \<and> P w'" shows "\<exists>w'. tasks_reach w1 w' \<and> P w'"
  using assms tasks_trans [OF _ tasks_one] by blast

text \<open>The permit comes free, whatever the jobs before it do, and a job that waits is still waiting then.\<close>

lemma frees_permit:
  assumes "slots_ok w" "j \<in> set (iw_jobs w)" "jb_phase j = Looking"
  shows "\<exists>w'. tasks_reach w w' \<and> in_permits (iw_installs w') > 0 \<and> j \<in> set (iw_jobs w')"
proof (cases "in_permits (iw_installs w) > 0")
  case True
  then show ?thesis using assms(2) tasks_here by blast
next
  case False
  let ?P = "\<lambda>w'. in_permits (iw_installs w') > 0 \<and> j \<in> set (iw_jobs w')"
  have "length (filter with_permit (iw_jobs w)) = 1" using assms(1) False by (simp add: slots_ok_def)
  then obtain k where k: "k \<in> set (iw_jobs w)" "with_permit k" by (metis One_nat_def filter_empty_conv length_0_conv n_not_Suc_n)
  then obtain js js' where w: "iw_jobs w = js @ k # js'" by (meson split_list)
  obtain s hs where ws: "w = \<lparr>iw_installs = s, iw_jobs = js @ k # js', iw_holds = hs\<rparr>" using w by (cases w) auto
  have other: "j \<in> set js \<union> set js'" using assms(2,3) k(2) ws by (auto simp: with_permit_def)
  let ?w = "\<lambda>s p. \<lparr>iw_installs = s, iw_jobs = js @ k\<lparr>jb_phase := p\<rparr> # js', iw_holds = hs\<rparr>"
  have leaving: "\<exists>w'. tasks_reach (?w s Leaving) w' \<and> ?P w'" for s
    using tasks_one [OF leaves [of "k\<lparr>jb_phase := Leaving\<rparr>" s js js' hs]] other by (intro exI conjI) auto
  have working: "\<exists>w'. tasks_reach (?w s Working) w' \<and> ?P w'" for s
    using leads [OF work_ends [of "k\<lparr>jb_phase := Working\<rparr>" s js js' hs "RoomRefused []"], where P = ?P] leaving by simp
  have turn: "\<exists>w'. tasks_reach (?w s TurnTaken) w' \<and> ?P w'" for s
    using leads [OF starts [of "k\<lparr>jb_phase := TurnTaken\<rparr>" s js js' hs 0], where P = ?P] working by simp
  have holding: "\<exists>w'. tasks_reach (?w s Holding) w' \<and> ?P w'" for s
  proof (cases "pg_cancelled (in_progress s ! jb_progress k)")
    case True
    then show ?thesis using tasks_one [OF too_late [of "k\<lparr>jb_phase := Holding\<rparr>" s js js' hs]] other by (intro exI conjI) auto
  next
    case False
    then show ?thesis using leads [OF its_turn [of "k\<lparr>jb_phase := Holding\<rparr>" s js js' hs], where P = ?P] turn by simp
  qed
  have "jb_phase k \<in> {Holding, TurnTaken, Working, Leaving}" using k(2) by (simp add: with_permit_def)
  then have "\<exists>w'. tasks_reach (?w s (jb_phase k)) w' \<and> ?P w'" using leaving working turn holding
    by (elim insertE) (simp_all only: empty_iff)
  then show ?thesis by (simp add: ws)
qed

lemma finish_frees: "\<not> is_active st \<Longrightarrow> \<not> is_installing g (finish_install g st s)"
  by (auto simp: is_installing_def tasks_finish split: option.split)

lemma job_ends:
  assumes "slots_ok w" "j \<in> set (iw_jobs w)" "jb_phase j \<noteq> Leaving"
  shows "\<exists>w'. tasks_reach w w' \<and> \<not> is_installing (jb_game j) (iw_installs w')"
proof -
  let ?P = "\<lambda>w'. \<not> is_installing (jb_game j) (iw_installs w')"
  let ?w = "\<lambda>s js js' hs p. \<lparr>iw_installs = s, iw_jobs = js @ j\<lparr>jb_phase := p\<rparr> # js', iw_holds = hs\<rparr>"
  have working: "\<exists>w'. tasks_reach (?w s js js' hs Working) w' \<and> ?P w'" for s js js' hs
    using tasks_one [OF work_ends [of "j\<lparr>jb_phase := Working\<rparr>" s js js' hs "RoomRefused []"]] finish_frees [OF after_work_inactive]
    by (intro exI conjI) auto
  have closing: "\<exists>w'. tasks_reach (?w s js js' hs Closing) w' \<and> ?P w'" for s js js' hs
    using tasks_one [OF closes [of "j\<lparr>jb_phase := Closing\<rparr>" s js js' hs]] finish_frees [of "FailedInstall (ascii ''cancelled'')"]
    by (intro exI conjI) (auto simp: is_active_def)
  have turn: "\<exists>w'. tasks_reach (?w s js js' hs TurnTaken) w' \<and> ?P w'" for s js js' hs
    using leads [OF starts [of "j\<lparr>jb_phase := TurnTaken\<rparr>" s js js' hs 0], where P = ?P] working by simp
  have holding: "\<exists>w'. tasks_reach (?w s js js' hs Holding) w' \<and> ?P w'" for s js js' hs
  proof (cases "pg_cancelled (in_progress s ! jb_progress j)")
    case True
    then show ?thesis using leads [OF too_late [of "j\<lparr>jb_phase := Holding\<rparr>" s js js' hs], where P = ?P] closing by simp
  next
    case False
    then show ?thesis using leads [OF its_turn [of "j\<lparr>jb_phase := Holding\<rparr>" s js js' hs], where P = ?P] turn by simp
  qed
  have shape: "\<exists>s js js' hs. w' = ?w s js js' hs (jb_phase j)" if member: "j \<in> set (iw_jobs w')" for w'
  proof -
    obtain js js' where "iw_jobs w' = js @ j # js'" using member by (meson split_list)
    then have "w' = ?w (iw_installs w') js js' (iw_holds w') (jb_phase j)" by simp
    then show ?thesis by blast
  qed
  show ?thesis
  proof (cases "jb_phase j")
    case Looking
    obtain w1 where w1: "tasks_reach w w1" "in_permits (iw_installs w1) > 0" "j \<in> set (iw_jobs w1)"
      using frees_permit [OF assms(1,2) Looking] by blast
    obtain s js js' hs where s: "w1 = ?w s js js' hs Looking" using shape [OF w1(3)] Looking by auto
    have "\<exists>w'. tasks_reach w1 w' \<and> ?P w'"
      using leads [OF acquires [of "j\<lparr>jb_phase := Looking\<rparr>" s js js' hs], where P = ?P] holding w1(2) s by simp
    then show ?thesis using tasks_trans w1(1) by blast
  next
    case Leaving
    then show ?thesis using assms(3) by simp
  qed (use shape [OF assms(2)] working closing turn holding in metis)+
qed

section \<open>Properties\<close>

text \<open>C20.
  One download at a time on a node, one task per game. In every state a node reaches, whatever is asked, cancelled, deleted or
  dropped and in whatever order, at most one download runs, and each game whose slot is taken by a download has exactly one task
  working on it; a game without one has none.
\<close>
theorem one_download_at_a_time:
  assumes "reached first_world w"
  shows "(running_now (iw_installs w) g \<and> running_now (iw_installs w) g' \<longrightarrow> g = g')
    \<and> length (workers g w) = (if is_download (iw_installs w) g then 1 else 0)"
proof
  note ok = slots_reached [OF assms]
  show "length (workers g w) = (if is_download (iw_installs w) g then 1 else 0)" by (rule one_worker [OF ok])
  show "running_now (iw_installs w) g \<and> running_now (iw_installs w) g' \<longrightarrow> g = g'"
  proof
    assume "running_now (iw_installs w) g \<and> running_now (iw_installs w) g'"
    then show "g = g'"
      by (metis runs_working [OF ok] one_permit [OF ok] with_permit_def insertCI)
  qed
qed

definition waiting_world :: "job_phase \<Rightarrow> install_world" where
  "waiting_world ph = \<lparr>iw_installs = snd (begin_install [103] 5 new_installs), iw_jobs = [\<lparr>jb_game = [103], jb_fetch = FetchUpdate False, jb_progress = 0, jb_phase = ph\<rparr>],
     iw_holds = []\<rparr>"

lemma waiting_reached: "reached first_world (waiting_world Looking)"
  by (rule reached_one, rule spawned [of "[103]" "FetchUpdate False" 5])
    (simp add: spawn_fetch_def first_world_def waiting_world_def begin_install_def claim_def is_installing_def new_installs_def tget_def Let_def)

lemma waiting_slot: "tget (in_tasks (iw_installs (waiting_world ph))) [103] =
    Some \<lparr>it_state = QueuedInstall 0, it_started = 5, it_progress = 0, it_held = False\<rparr>"
  by (simp add: waiting_world_def begin_install_def claim_def is_installing_def new_installs_def Let_def tbl.get_put) (simp add: tget_def)

theorem one_download_at_a_time_witness:
  "length (workers [103] (waiting_world Looking)) = 1"
  using one_download_at_a_time [OF waiting_reached, of "[103]" "[103]"] waiting_slot [of Looking]
  by (auto simp: is_download_def is_active_def)

text \<open>C38.
  A download always gives its slot back. From every state a node reaches, a game whose slot a download holds can have it free
  again, running or waiting, cancelled or not, by steps of the background tasks alone, with no further request and so without an
  operator's cancel, whatever the queue before it: no order of requests leaves a download that nobody works on.
\<close>
theorem a_download_slot_is_given_back:
  assumes "reached first_world w" "is_download (iw_installs w) game"
  shows "\<exists>w'. tasks_reach w w' \<and> \<not> is_installing game (iw_installs w')"
proof -
  have ok: "slots_ok w" by (rule slots_reached [OF assms(1)])
  then obtain j where j: "j \<in> set (live_jobs w)" "jb_game j = game" using assms(2) by (auto simp: slots_ok_def)
  then show ?thesis using job_ends [OF ok, of j] by (simp add: live_jobs_def)
qed

theorem a_download_slot_is_given_back_witness:
  "\<exists>w'. tasks_reach (waiting_world Looking) w' \<and> \<not> is_installing [103] (iw_installs w')"
  by (rule a_download_slot_is_given_back [OF waiting_reached]) (simp add: is_download_def waiting_slot is_active_def)

text \<open>
  A slot whose hold was dropped: it is taken, no task works on it and no request will end it.
\<close>

definition wedged :: "str \<Rightarrow> install_world \<Rightarrow> bool" where
  "wedged game w \<longleftrightarrow> is_held (iw_installs w) game \<and> game \<notin> set (iw_holds w) \<and> slots_ok w"

lemma held_is_taken: "is_held s game \<Longrightarrow> fst (claim game hold now s) = None"
  by (auto simp: is_held_def claim_def is_installing_def)

lemma held_finish: "is_held s game \<Longrightarrow> g \<noteq> game \<Longrightarrow> is_held (finish_install g st s) game"
  by (auto simp: is_held_def tasks_finish)

lemma wedged_step: "install_step w w' \<Longrightarrow> wedged game w \<Longrightarrow> wedged game w'"
proof (goal_cases)
  case 1
  have ok: "slots_ok w'" using slots_step [OF 1(1)] 1(2) by (simp add: wedged_def)
  have live: "jb_game j \<noteq> game" if "j \<in> set (iw_jobs w)" "jb_phase j \<noteq> Leaving" for j
  proof -
    have "owns (iw_installs w) j" using 1(2) that by (simp add: wedged_def slots_ok_def live_jobs_def)
    then show ?thesis using 1(2) by (auto simp: owns_def wedged_def is_held_def)
  qed
  have "is_held (iw_installs w') game \<and> game \<notin> set (iw_holds w')"
    using 1(1)
  proof (cases rule: install_step.cases)
    case (spawned g what now)
    show ?thesis using spawned
    proof (cases rule: spawn_cases)
      case (1 s js hs s' p)
      have "g \<noteq> game" using 1(2) \<open>wedged game w\<close> held_is_taken [of s game False now] by (auto simp: 1(1) wedged_def begin_install_def)
      then show ?thesis using 1(2) \<open>wedged game w\<close> by (auto simp: 1(1,3) wedged_def begin_install_def is_held_def elim!: claim_cases)
    qed
  next
    case (cancel g s c s' js hs)
    then show ?thesis using 1(2) by (simp add: wedged_def tasks_same [OF tasks_cancel(1) [OF cancel(3)]])
  next
    case (exclusive g now s p s' js hs)
    have "g \<noteq> game" using exclusive(3) 1(2) held_is_taken [of s game True now] by (auto simp: exclusive(1) wedged_def)
    then show ?thesis using exclusive(3) 1(2) by (auto simp: exclusive(1,2) wedged_def is_held_def elim!: claim_cases)
  next
    case (exclusive_ends s js hs g hs')
    then show ?thesis using 1(2) by (auto simp: wedged_def release_hold_def is_held_def tbl.get_del)
  next
    case by_task
    show ?thesis using by_task
    proof (cases rule: task_step.cases)
      case (starts j s js js' hs now)
      then show ?thesis using 1(2) live [of j] by (auto simp: wedged_def is_held_def tasks_start)
    next
      case (work_ends j s js js' hs r)
      then show ?thesis using 1(2) live [of j] held_finish by (auto simp: wedged_def)
    next
      case (closes j s js js' hs)
      then show ?thesis using 1(2) live [of j] held_finish by (auto simp: wedged_def)
    qed (use 1(2) in \<open>auto simp: wedged_def is_held_def change_progress_def\<close>)
  qed (use 1(2) in \<open>auto simp: wedged_def is_held_def change_progress_def\<close>)
  then show ?case using ok by (simp add: wedged_def)
qed

lemma wedged_forever: "reached w w' \<Longrightarrow> wedged game w \<Longrightarrow> wedged game w'"
  by (induction rule: reached.induct) (auto intro: wedged_step)

text \<open>C30.
  A delete whose request goes away locks its game. If the future that holds a game's slot for a delete is dropped while the
  delete runs, as a server drops the handler of a client that disconnects, the slot is never given back: in every state the
  node reaches afterwards no install, update, file check or delete of that game can begin, while the game reports that nothing
  is being installed.
\<close>
theorem a_dropped_delete_locks_its_game:
  assumes "reached first_world w" "iw_holds w = hs @ game # hs'" "reached (w\<lparr>iw_holds := hs @ hs'\<rparr>) w'"
  shows "fst (claim game hold now (iw_installs w')) = None \<and> install_state_of bytes_in now game (iw_installs w') = IdleInstall"
proof -
  have ok: "slots_ok w" by (rule slots_reached [OF assms(1)])
  obtain s js where w: "w = \<lparr>iw_installs = s, iw_jobs = js, iw_holds = hs @ game # hs'\<rparr>" using assms(2) by (cases w) simp
  have "slots_ok (w\<lparr>iw_holds := hs @ hs'\<rparr>)" using slots_step [OF dropped ok [unfolded w]] by (simp add: w)
  then have "wedged game (w\<lparr>iw_holds := hs @ hs'\<rparr>)" using ok by (auto simp: wedged_def w slots_ok_def)
  then have "is_held (iw_installs w') game" using wedged_forever [OF assms(3)] by (simp add: wedged_def)
  then show ?thesis using held_is_taken by (auto simp: is_held_def install_state_of_def)
qed

lemma hold_reached: "reached first_world \<lparr>iw_installs = snd (claim [103] True 5 new_installs), iw_jobs = [], iw_holds = [[103]]\<rparr>"
proof -
  have "claim [103] True 5 new_installs = (Some 0, snd (claim [103] True 5 new_installs))"
    by (simp add: claim_def is_installing_def new_installs_def tget_def Let_def)
  from exclusive [OF this, of "[]" "[]"] show ?thesis by (auto simp: first_world_def intro: reached_one)
qed

theorem a_dropped_delete_locks_its_game_witness:
  "fst (claim [103] False 9 (snd (claim [103] True 5 new_installs))) = None"
  using a_dropped_delete_locks_its_game [OF hold_reached, of "[]" "[103]" "[]" _ False 9, OF _ here] by simp

end
