(* ===== verification/Node_Agent.thy ===== *)
theory Node_Agent
  imports Builds Ports Updates Installs
begin

text \<open>
  \<^verbatim>\<open>crates/platform-agent/src/agent.rs\<close>: the life of a node's servers, with \<^verbatim>\<open>bans.rs\<close>, the reach of a game in
  \<^verbatim>\<open>mesh.rs\<close> and the copy new servers use in \<^verbatim>\<open>active.rs\<close>. The record \<open>node\<close> is what the agent keeps; the machine
  under it (Docker, files, mesh bridges, clock) is the record \<open>host\<close> of the calls made to it, over any world. Each
  operation runs to its end; background tasks it starts are kept in \<open>nd_tasks\<close>. Log lines are left out.
\<close>

section \<open>What the agent keeps\<close>

definition MAX_CRASH_RESTARTS_PER_HOUR :: nat where "MAX_CRASH_RESTARTS_PER_HOUR = 5"
definition BOT_APPLY_INTERVAL :: duration where "BOT_APPLY_INTERVAL = secs 3"
definition BOT_APPLY_ATTEMPTS :: nat where "BOT_APPLY_ATTEMPTS = 10"
definition MAX_LOG_LINES :: nat where "MAX_LOG_LINES = 2000"
definition RESTART_MARKER :: str where "RESTART_MARKER = ascii ''restart-on-crash''"

record agent_config =
  ac_max_instances :: nat
  ac_games :: "(str, game_runtime) table"
  ac_data_root :: path

definition runtime_for :: "agent_config \<Rightarrow> str \<Rightarrow> game_runtime option" where
  "runtime_for c game = tget (ac_games c) game"

record active_entry =
  ae_base :: str
  ae_active :: str
  ae_pending :: "str list"

record crash_watch =
  cw_seeded :: bool
  cw_seen :: "(str, str) table"
  cw_stopped_here :: "str set"
  cw_restarts :: "(str, time list) table"

record move_in_flight =
  mf_game_id :: str
  mf_from :: str
  mf_to :: str

text \<open>Why a move failed is a text for a person; whether the server is on neither copy is kept.\<close>

datatype move_state = Waiting | Warned | Moving | Moved | RolledBack | Failed bool

record move_record =
  mr_game_id :: str
  mr_from :: str
  mr_to :: str
  mr_state :: move_state

datatype move_outcome = MovedTo str str | RolledBackTo str str

record game_reach =
  ge_host :: str
  ge_port :: u16
  ge_extra_ports :: "(u8, u16) table"

definition from_ports :: "str \<Rightarrow> port_row list \<Rightarrow> u16 option \<Rightarrow> game_reach option" where
  "from_ports host ports published =
     map_option (\<lambda>port. \<lparr>ge_host = host, ge_port = port,
         ge_extra_ports = fold (\<lambda>p. tput (pr_channel p) (pr_host_port p)) (filter (\<lambda>p. pr_channel p \<noteq> CHANNEL_GAME) ports) []\<rparr>)
       (case List.find (\<lambda>p. pr_channel p = CHANNEL_GAME) ports of Some p \<Rightarrow> Some (pr_host_port p) | None \<Rightarrow> published)"

record mesh_announce =
  ma_name :: str
  ma_max_players :: u8
  ma_map :: "str option"

record instance_status =
  is_instance_id :: str
  is_game_id :: str
  is_name :: str
  is_state :: instance_state
  is_port :: "u16 option"
  is_ports :: "port_row list"
  is_container_id :: "str option"
  is_uptime_secs :: "nat option"
  is_owner :: "str option"
  is_container_ip :: "str option"
  is_mesh_destination :: "str option"
  is_bots :: "u8 option"

record server_event =
  sv_instance_id :: str
  sv_game_id :: "str option"
  sv_name :: "str option"
  sv_owner :: "str option"

datatype node_event = ServerCrashed server_event last_exit | StoppedByHost server_event

text \<open>What a background task sends to a console, line by line until it once got through: bans or bots.\<close>

datatype task = SendLines str "str list"

datatype agent_error =
    Runtime runtime_error | AlreadyExists str | AtLimit nat | BadSpec spec_error | NoPack str | NoRuntime str
  | EulaNeeded str | NotJava str | NotAWorld str | BadBuild build_error | BadPlan plan_error | NotInstalled content_ref
  | MissingDirs "path list" | DoesNotFit "resource_message list" | NoDirectory path | BadPack profile_error
  | NoPortForChannel | PortsRefused port_error | BadBots bot_count_error | NoInstance str | AlreadyRunning str
  | OverDiskLimit str nat nat | NoConsoleFor str | BadConsoleLine console_line_error | BadMapName map_name_error
  | BadModeration moderation_error | BanFile | NotStarted | CannotWrite path | StopFirst | BeingMoved | NoBots str | OnlyRunning
  | NoGameLabel | UnknownCopy | SameCopy | NewPort | NoConsoleToWarn | BadWarning server_name_error | NotRemoved agent_error | Lost
  | Provisioning str | NotRecorded | BadUpdate update_error | NothingNewer str | NeverChecked str | NoRoom nat "(str \<times> str) list" bool
  | TooManyUpdates str | OneCopy str | NoSuchBackup str | BackupFailed str | BadIdentity | StillThere str | NotMinecraft | BadBackupSchedule
  | Panicked

record 'w host =
  hs_docker :: "'w daemon"
  hs_is_dir :: "path \<Rightarrow> 'w \<Rightarrow> bool"
  hs_is_file :: "path \<Rightarrow> 'w \<Rightarrow> bool"
  hs_make_dir :: "path \<Rightarrow> 'w \<Rightarrow> bool \<times> 'w"
  hs_touch :: "path \<Rightarrow> 'w \<Rightarrow> bool \<times> 'w"
  hs_delete :: "path \<Rightarrow> 'w \<Rightarrow> bool \<times> 'w"
  hs_rename :: "path \<Rightarrow> path \<Rightarrow> 'w \<Rightarrow> bool \<times> 'w"
  hs_remove_tree :: "path \<Rightarrow> 'w \<Rightarrow> bool \<times> 'w"
  hs_remove_empty :: "path \<Rightarrow> 'w \<Rightarrow> 'w"
  hs_seed :: "'w \<Rightarrow> bytes option \<times> 'w"
  hs_save_active :: "(str, active_entry) table \<Rightarrow> 'w \<Rightarrow> bool \<times> 'w"
  hs_size :: "path \<Rightarrow> 'w \<Rightarrow> nat"
  hs_meminfo :: "'w \<Rightarrow> str option"
  hs_cpus :: "'w \<Rightarrow> nat option"
  hs_clock :: "'w \<Rightarrow> time"
  hs_unix :: "'w \<Rightarrow> nat option"
  hs_sleep :: "duration \<Rightarrow> 'w \<Rightarrow> 'w"
  hs_bans :: "path \<Rightarrow> 'w \<Rightarrow> (unit + str list)"
  hs_mesh_start :: "str \<Rightarrow> game_profile \<Rightarrow> path \<Rightarrow> game_reach \<Rightarrow> mesh_announce \<Rightarrow> 'w \<Rightarrow> (unit + str option) \<times> 'w"
  hs_mesh_stop :: "str \<Rightarrow> 'w \<Rightarrow> 'w"

record 'w node =
  nd_gateway :: "str option"
  nd_ports :: allocator
  nd_packs :: "(str, game_pack) table"
  nd_specs :: "(str, server_spec) table"
  nd_unrecalled :: "str set"
  nd_watch :: crash_watch
  nd_active :: "(str, active_entry) table"
  nd_moving :: "(str, move_in_flight) table"
  nd_move_log :: "(str, move_record) table"
  nd_updates :: update_checks
  nd_installs :: install_world
  nd_tasks :: "task list"
  nd_told :: "node_event list"
  nd_world :: 'w

type_synonym ('w, 'a) agent = "('w node, agent_error, 'a) io"

definition on_docker :: "('w, 'a) runtime \<Rightarrow> ('w, 'a) agent" where
  "on_docker f s =
     (case f (nd_gateway s, nd_world s) of
        (r, gateway, w) \<Rightarrow> (case r of Inl e \<Rightarrow> Inl (Runtime e) | Inr a \<Rightarrow> Inr a, s\<lparr>nd_gateway := gateway, nd_world := w\<rparr>))"

definition change :: "('w node \<Rightarrow> 'w node) \<Rightarrow> ('w, unit) agent" where
  "change f s = (Inr (), f s)"

definition look :: "('w node \<Rightarrow> 'a) \<Rightarrow> ('w, 'a) agent" where
  "look f s = (Inr (f s), s)"

definition in_world :: "('w \<Rightarrow> 'a \<times> 'w) \<Rightarrow> ('w, 'a) agent" where
  "in_world f s = (case f (nd_world s) of (a, w) \<Rightarrow> (Inr a, s\<lparr>nd_world := w\<rparr>))"

definition io_of :: "('e \<Rightarrow> agent_error) \<Rightarrow> ('e, 'a) outcome \<Rightarrow> ('w, 'a) agent" where
  "io_of f r = (case r of Ok a \<Rightarrow> io_ok a | Err e \<Rightarrow> io_err (f e) | Panic \<Rightarrow> io_err Panicked)"

definition need :: "'a option \<Rightarrow> agent_error \<Rightarrow> ('w, 'a) agent" where
  "need x e = (case x of Some a \<Rightarrow> io_ok a | None \<Rightarrow> io_err e)"

text \<open>\<^verbatim>\<open>let _ = ...\<close>.\<close>

definition ignoring :: "('w, 'a) agent \<Rightarrow> ('w, unit) agent" where
  "ignoring f = io_bind (io_try f) (\<lambda>_. io_ok ())"

section \<open>Planning\<close>

definition check_spec_against_pack :: "server_spec \<Rightarrow> game_pack \<Rightarrow> (agent_error, unit) outcome" where
  "check_spec_against_pack spec pack =
     (let p = ss_options spec; minecraft = (pk_content pack = MinecraftContent);
          world = (pk_console pack \<in> {Some PackMinecraft, Some PackBedrock}) in
      if pk_eula pack \<noteq> None \<and> so_eula_accepted_at p = None then Err (EulaNeeded (pk_id pack))
      else if \<not> minecraft \<and> (so_memory p \<noteq> None \<or> so_content_version p \<noteq> None) then Err (NotJava (pk_id pack))
      else if \<not> world \<and> so_minecraft p \<noteq> None then Err (NotAWorld (pk_id pack))
      else case (if minecraft then so_content_version p else None) of
        None \<Rightarrow> Ok ()
      | Some v \<Rightarrow> and_then (map_err BadBuild (parse_build v)) (\<lambda>_. Ok ()))"

definition writable_paths_for :: "agent_config \<Rightarrow> str \<Rightarrow> game_pack \<Rightarrow> str list" where
  "writable_paths_for c game pack =
     (case runtime_for c game of
        None \<Rightarrow> pk_writable_paths pack
      | Some r \<Rightarrow> fold (\<lambda>extra ps. if extra \<in> set ps then ps else ps @ [extra]) (gr_writable_paths r) (pk_writable_paths pack))"

definition active_in :: "(str, active_entry) table \<Rightarrow> str \<Rightarrow> str \<Rightarrow> str option" where
  "active_in t game config_version =
     (case tget t game of None \<Rightarrow> None | Some e \<Rightarrow> if ae_base e = config_version then Some (ae_active e) else None)"

definition active_version_of :: "'w host \<Rightarrow> agent_config \<Rightarrow> 'w node \<Rightarrow> str \<Rightarrow> str \<Rightarrow> str" where
  "active_version_of H c s game config_version =
     (case active_in (nd_active s) game config_version of
        None \<Rightarrow> config_version
      | Some active \<Rightarrow>
          (case content_dir (ac_data_root c) \<lparr>cn_game_id = game, cn_version = active\<rparr> of
             Ok dir \<Rightarrow> if hs_is_dir H dir (nd_world s) then active else config_version
           | _ \<Rightarrow> config_version))"

definition active_version :: "'w host \<Rightarrow> agent_config \<Rightarrow> 'w node \<Rightarrow> str \<Rightarrow> str option" where
  "active_version H c s game = map_option (\<lambda>r. active_version_of H c s game (gr_content_version r)) (runtime_for c game)"

definition version_for :: "'w host \<Rightarrow> agent_config \<Rightarrow> 'w node \<Rightarrow> str \<Rightarrow> str option \<Rightarrow> str \<Rightarrow> str" where
  "version_for H c s game picked config_version =
     (case picked of Some v \<Rightarrow> v | None \<Rightarrow> active_version_of H c s game config_version)"

definition plan_and_check_on :: "'w host \<Rightarrow> agent_config \<Rightarrow> server_spec \<Rightarrow> str option \<Rightarrow> ('w, instance_plan) agent" where
  "plan_and_check_on H c spec version =
     io_bind (io_of BadSpec (validate spec)) (\<lambda>_.
     io_bind (look nd_packs) (\<lambda>packs.
     io_bind (need (tget packs (ss_game_id spec)) (NoPack (ss_game_id spec))) (\<lambda>pack.
     io_bind (need (runtime_for c (ss_game_id spec)) (NoRuntime (ss_game_id spec))) (\<lambda>runtime.
     io_bind (io_of id (check_spec_against_pack spec pack)) (\<lambda>_.
     io_bind (look (\<lambda>s. \<lparr>cn_game_id = ss_game_id spec, cn_version = (case version of Some v \<Rightarrow> v
         | None \<Rightarrow> version_for H c s (ss_game_id spec) (so_content_version (ss_options spec)) (gr_content_version runtime))\<rparr>)) (\<lambda>content.
     io_bind (io_of BadPlan (plan_instance (ac_data_root c) (ss_instance_id spec) content (gr_content_root runtime)
         (writable_paths_for c (ss_game_id spec) pack))) (\<lambda>plan.
     io_bind (io_of BadPlan (content_dir (ac_data_root c) content)) (\<lambda>dir.
     io_bind (look (\<lambda>s. hs_is_dir H dir (nd_world s))) (\<lambda>there.
     if \<not> there then io_err (NotInstalled content)
     else io_bind (look (\<lambda>s. missing_content_dirs (\<lambda>p. hs_is_dir H p (nd_world s)) plan)) (\<lambda>missing.
       if missing \<noteq> [] then io_err (MissingDirs missing) else io_ok plan))))))))))"

text \<open>\<^verbatim>\<open>/proc/meminfo\<close>: the first line with the name counts, in kB.\<close>

definition strip_suffix :: "str \<Rightarrow> str \<Rightarrow> str option" where
  "strip_suffix suf s = map_option rev (strip_prefix (rev suf) (rev s))"

definition meminfo_field :: "string \<Rightarrow> str \<Rightarrow> nat option" where
  "meminfo_field name t =
     (case first_some (map (\<lambda>l. strip_prefix (ascii (name @ '':'')) l) (split_all 10 t)) of
        None \<Rightarrow> None
      | Some v \<Rightarrow>
          (case strip_suffix (ascii ''kB'') (str_trim v) of
             None \<Rightarrow> None
           | Some n \<Rightarrow> map_option (\<lambda>kb. kb * 1024) (parse_below (2 ^ 64) (str_trim n))))"

definition parse_meminfo :: "str \<Rightarrow> (nat \<times> nat) option" where
  "parse_meminfo t =
     (case (meminfo_field ''MemTotal'' t, meminfo_field ''MemAvailable'' t) of (Some a, Some b) \<Rightarrow> Some (a, b) | _ \<Rightarrow> None)"

definition resource_check :: "'w host \<Rightarrow> agent_config \<Rightarrow> str \<Rightarrow> memory_spec option \<Rightarrow> u16 option \<Rightarrow> 'w \<Rightarrow> resource_verdict" where
  "resource_check H c game memory cpus w =
     (let host = (case (case hs_meminfo H w of None \<Rightarrow> None | Some t \<Rightarrow> parse_meminfo t) of
            None \<Rightarrow> None
          | Some (installed, free) \<Rightarrow> Some \<lparr>hr_total_bytes = installed, hr_available_bytes = free,
              hr_cpus = (case hs_cpus H w of None \<Rightarrow> 1 | Some n \<Rightarrow> n)\<rparr>);
          ceiling = (case runtime_for c game of None \<Rightarrow> None | Some r \<Rightarrow> gr_memory_limit_bytes r) in
      judge host memory cpus ceiling)"

section \<open>Reading what runs\<close>

definition docker_list :: "'w host \<Rightarrow> ('w, managed_container list) agent" where
  "docker_list H = on_docker (list_managed (hs_docker H))"

definition find_container :: "str \<Rightarrow> managed_container list \<Rightarrow> managed_container option" where
  "find_container i cs = List.find (\<lambda>c. mg_instance_id c = i) cs"

definition game_address :: "'w host \<Rightarrow> str \<Rightarrow> ('w, game_reach option) agent" where
  "game_address H i =
     io_bind (io_try (docker_list H)) (\<lambda>listed. case listed of
       Inl _ \<Rightarrow> io_ok None
     | Inr cs \<Rightarrow>
         (case find_container i cs of
            None \<Rightarrow> io_ok None
          | Some c \<Rightarrow> io_bind (io_try (on_docker (games_gateway (hs_docker H)))) (\<lambda>gw. case gw of
              Inl _ \<Rightarrow> io_ok None
            | Inr host \<Rightarrow> io_ok (from_ports host (mg_ports c) (mg_port c)))))"

definition game_of :: "'w host \<Rightarrow> str \<Rightarrow> ('w, str option) agent" where
  "game_of H i =
     io_bind (io_try (docker_list H)) (\<lambda>listed. case listed of
       Inl _ \<Rightarrow> io_ok None
     | Inr cs \<Rightarrow> io_ok (case find_container i cs of None \<Rightarrow> None | Some c \<Rightarrow> mg_game_id c))"

definition ensure_instance :: "'w host \<Rightarrow> str \<Rightarrow> ('w, managed_container) agent" where
  "ensure_instance H i = io_bind (docker_list H) (\<lambda>cs. need (find_container i cs) (NoInstance i))"

fun recall_each :: "'w host \<Rightarrow> str list \<Rightarrow> ('w, unit) agent" where
  "recall_each H [] = io_ok ()"
| "recall_each H (i # ids) =
     io_bind (io_try (on_docker (spec_of (hs_docker H) i))) (\<lambda>r.
     io_bind (change (\<lambda>s. case r of
         Inr spec \<Rightarrow> if thas (nd_specs s) i then s else s\<lparr>nd_specs := tput i spec (nd_specs s)\<rparr>
       | Inl _ \<Rightarrow> s\<lparr>nd_unrecalled := insert i (nd_unrecalled s)\<rparr>)) (\<lambda>_.
     recall_each H ids))"

definition recall_specs :: "'w host \<Rightarrow> managed_container list \<Rightarrow> ('w, unit) agent" where
  "recall_specs H cs =
     io_bind (look (\<lambda>s. filter (\<lambda>i. \<not> thas (nd_specs s) i \<and> i \<notin> nd_unrecalled s) (map mg_instance_id cs))) (\<lambda>missing.
     recall_each H missing)"

definition status_of :: "(str, server_spec) table \<Rightarrow> nat option \<Rightarrow> managed_container \<Rightarrow> instance_status" where
  "status_of specs now c =
     (let spec = tget specs (mg_instance_id c) in
      \<lparr>is_instance_id = mg_instance_id c,
       is_game_id = (case mg_game_id c of Some g \<Rightarrow> g | None \<Rightarrow> (case spec of Some s \<Rightarrow> ss_game_id s | None \<Rightarrow> [])),
       is_name = (case spec of Some s \<Rightarrow> ss_name s | None \<Rightarrow> mg_instance_id c),
       is_state = mg_state c, is_port = mg_port c, is_ports = mg_ports c, is_container_id = Some (mg_container_id c),
       is_uptime_secs = (case (mg_created_unix c, now) of
          (Some created, Some n) \<Rightarrow> if created < 0 then None else Some (n - nat created) | _ \<Rightarrow> None),
       is_owner = mg_owner c, is_container_ip = mg_ip c, is_mesh_destination = None,
       is_bots = (case spec of Some s \<Rightarrow> ss_bots s | None \<Rightarrow> None)\<rparr>)"

definition list_servers :: "'w host \<Rightarrow> ('w, instance_status list) agent" where
  "list_servers H =
     io_bind (docker_list H) (\<lambda>cs. io_bind (recall_specs H cs) (\<lambda>_.
       look (\<lambda>s. map (status_of (nd_specs s) (hs_unix H (nd_world s))) cs)))"

definition find_server :: "str \<Rightarrow> instance_status list \<Rightarrow> instance_status option" where
  "find_server i rows = List.find (\<lambda>r. is_instance_id r = i) rows"

definition max_players_of :: "'w host \<Rightarrow> str \<Rightarrow> ('w, u8) agent" where
  "max_players_of H i =
     io_bind (look (\<lambda>s. tget (nd_specs s) i)) (\<lambda>known. case known of
       Some spec \<Rightarrow> io_ok (ss_max_players spec)
     | None \<Rightarrow> io_bind (io_try (on_docker (spec_of (hs_docker H) i))) (\<lambda>r.
         io_ok (case r of Inr spec \<Rightarrow> ss_max_players spec | Inl _ \<Rightarrow> 16)))"

section \<open>Beside the container\<close>

definition identity_path :: "path \<Rightarrow> str \<Rightarrow> path" where
  "identity_path data_root i = join (join (join data_root (ascii ''instances'')) i) (ascii ''mesh.identity'')"

definition restart_marker :: "agent_config \<Rightarrow> str \<Rightarrow> (plan_error, path) outcome" where
  "restart_marker c i = and_then (instance_dir (ac_data_root c) i) (\<lambda>d. Ok (join d RESTART_MARKER))"

definition restart_on_crash :: "'w host \<Rightarrow> agent_config \<Rightarrow> str \<Rightarrow> 'w \<Rightarrow> bool" where
  "restart_on_crash H c i w = (case restart_marker c i of Ok p \<Rightarrow> hs_is_file H p w | _ \<Rightarrow> False)"

definition set_restart_on_crash :: "'w host \<Rightarrow> agent_config \<Rightarrow> str \<Rightarrow> bool \<Rightarrow> ('w, unit) agent" where
  "set_restart_on_crash H c i on =
     io_bind (ensure_instance H i) (\<lambda>_.
     io_bind (io_of BadPlan (restart_marker c i)) (\<lambda>marker.
     if on then
       io_bind (io_of BadPlan (instance_dir (ac_data_root c) i)) (\<lambda>dir.
       io_bind (in_world (hs_make_dir H dir)) (\<lambda>made. if \<not> made then io_err (CannotWrite dir)
         else io_bind (in_world (hs_touch H marker)) (\<lambda>touched. if touched then io_ok () else io_err (CannotWrite marker))))
     else io_bind (look (\<lambda>s. hs_is_file H marker (nd_world s))) (\<lambda>there.
       if \<not> there then io_ok ()
       else io_bind (in_world (hs_delete H marker)) (\<lambda>gone. if gone then io_ok () else io_err (CannotWrite marker)))))"

text \<open>The lines of the task are fixed when it starts; the task itself is \<open>run_task\<close>.\<close>

definition apply_bans_later :: "'w host \<Rightarrow> agent_config \<Rightarrow> str \<Rightarrow> str \<Rightarrow> ('w, unit) agent" where
  "apply_bans_later H c i game =
     io_bind (look (\<lambda>s. case tget (nd_packs s) game of None \<Rightarrow> None | Some p \<Rightarrow> pk_console p)) (\<lambda>console. case console of
       None \<Rightarrow> io_ok ()
     | Some k \<Rightarrow>
         (case instance_dir (ac_data_root c) i of
            Ok dir \<Rightarrow> io_bind (look (\<lambda>s. hs_bans H dir (nd_world s))) (\<lambda>bans. case bans of
              Inl _ \<Rightarrow> io_ok ()
            | Inr ids \<Rightarrow>
                let lines = reapply_bans (console_of_pack k) ids in
                if lines = [] then io_ok () else change (\<lambda>s. s\<lparr>nd_tasks := nd_tasks s @ [SendLines i lines]\<rparr>))
          | _ \<Rightarrow> io_ok ()))"

fun send_lines :: "'w host \<Rightarrow> str \<Rightarrow> str list \<Rightarrow> ('w, unit) agent" where
  "send_lines H i [] = io_ok ()"
| "send_lines H i (l # ls) = io_bind (on_docker (send_console_line (hs_docker H) i l)) (\<lambda>_. send_lines H i ls)"

fun run_attempts :: "'w host \<Rightarrow> str \<Rightarrow> str list \<Rightarrow> nat \<Rightarrow> ('w, bool) agent" where
  "run_attempts H i lines 0 = io_ok False"
| "run_attempts H i lines (Suc n) =
     io_bind (in_world (\<lambda>w. ((), hs_sleep H BOT_APPLY_INTERVAL w))) (\<lambda>_.
     io_bind (io_try (send_lines H i lines)) (\<lambda>r. case r of
       Inr _ \<Rightarrow> io_ok True
     | Inl _ \<Rightarrow> run_attempts H i lines n))"

definition run_task :: "'w host \<Rightarrow> task \<Rightarrow> ('w, bool) agent" where
  "run_task H t = (case t of SendLines i lines \<Rightarrow> run_attempts H i lines BOT_APPLY_ATTEMPTS)"

definition bots_for :: "agent_config \<Rightarrow> 'w node \<Rightarrow> str \<Rightarrow> bot_protocol option" where
  "bots_for c s game =
     (case (case runtime_for c game of None \<Rightarrow> None | Some r \<Rightarrow> gr_bots r) of
        Some b \<Rightarrow> Some b
      | None \<Rightarrow> (case tget (nd_packs s) game of None \<Rightarrow> None | Some p \<Rightarrow> map_option bots_of_pack (pk_bots p)))"

definition mesh_stop :: "'w host \<Rightarrow> str \<Rightarrow> ('w, unit) agent" where
  "mesh_stop H i = in_world (\<lambda>w. ((), hs_mesh_stop H i w))"

definition mesh_start :: "'w host \<Rightarrow> agent_config \<Rightarrow> str \<Rightarrow> game_profile \<Rightarrow> game_reach \<Rightarrow> mesh_announce \<Rightarrow> ('w, unit + str option) agent" where
  "mesh_start H c i profile reach announce =
     in_world (hs_mesh_start H i profile (identity_path (ac_data_root c) i) reach announce)"

section \<open>Creating\<close>

definition requested_ports :: "server_spec \<Rightarrow> game_port list \<Rightarrow> u16 option list" where
  "requested_ports spec wanted =
     map (\<lambda>p. if gp_channel p = CHANNEL_GAME then ss_port spec else tget (ss_extra_ports spec) (gp_channel p)) wanted"

definition publish :: "game_port list \<Rightarrow> u16 list \<Rightarrow> published_port list" where
  "publish wanted host_ports =
     map (\<lambda>(p, h). \<lparr>pp_channel = gp_channel p, pp_container_port = gp_port p, pp_host_port = h, pp_transport = gp_transport p\<rparr>)
       (zip wanted host_ports)"

definition take_ports :: "bool \<Rightarrow> u16 option list \<Rightarrow> ('w, u16 list) agent" where
  "take_ports ports_held requested =
     (if ports_held then (if None \<in> set requested then io_err NoPortForChannel else io_ok (map the requested))
      else (\<lambda>s. case acquire requested (nd_ports s) of (r, a) \<Rightarrow> io_of PortsRefused r (s\<lparr>nd_ports := a\<rparr>)))"

definition give_back :: "u16 list \<Rightarrow> ('w, unit) agent" where
  "give_back host_ports = change (\<lambda>s. s\<lparr>nd_ports := release_all host_ports (nd_ports s)\<rparr>)"

fun make_dirs :: "'w host \<Rightarrow> path list \<Rightarrow> ('w, unit) agent" where
  "make_dirs H [] = io_ok ()"
| "make_dirs H (d # ds) = io_bind (in_world (hs_make_dir H d)) (\<lambda>made. if made then make_dirs H ds else io_err (NoDirectory d))"

definition created_status :: "server_spec \<Rightarrow> published_port list \<Rightarrow> str \<Rightarrow> instance_state \<Rightarrow> str option \<Rightarrow> instance_status" where
  "created_status spec published cid st destination =
     \<lparr>is_instance_id = ss_instance_id spec, is_game_id = ss_game_id spec, is_name = ss_name spec, is_state = st,
      is_port = map_option pp_host_port (game_port published), is_ports = map row_of published, is_container_id = Some cid,
      is_uptime_secs = Some 0, is_owner = ss_owner spec, is_container_ip = None, is_mesh_destination = destination,
      is_bots = ss_bots spec\<rparr>"

definition start_bots :: "agent_config \<Rightarrow> server_spec \<Rightarrow> ('w, unit) agent" where
  "start_bots c spec =
     (case ss_bots spec of
        None \<Rightarrow> io_ok ()
      | Some quota \<Rightarrow>
          io_bind (look (\<lambda>s. bots_for c s (ss_game_id spec))) (\<lambda>bots. case bots of
            None \<Rightarrow> io_ok ()
          | Some b \<Rightarrow> io_bind (io_of BadBots (quota_lines b quota)) (\<lambda>lines.
              change (\<lambda>s. s\<lparr>nd_tasks := nd_tasks s @ [SendLines (ss_instance_id spec) lines]\<rparr>))))"

definition announce_created :: "'w host \<Rightarrow> agent_config \<Rightarrow> server_spec \<Rightarrow> game_profile \<Rightarrow> ('w, str option) agent" where
  "announce_created H c spec profile =
     io_bind (game_address H (ss_instance_id spec)) (\<lambda>addr. case addr of
       None \<Rightarrow> io_ok None
     | Some reach \<Rightarrow> io_bind (mesh_start H c (ss_instance_id spec) profile reach
           \<lparr>ma_name = ss_name spec, ma_max_players = ss_max_players spec, ma_map = ss_map spec\<rparr>) (\<lambda>r.
         io_ok (case r of Inr destination \<Rightarrow> destination | Inl _ \<Rightarrow> None)))"

definition stopped_here :: "(str set \<Rightarrow> str set) \<Rightarrow> ('w, unit) agent" where
  "stopped_here f = change (\<lambda>s. s\<lparr>nd_watch := (nd_watch s)\<lparr>cw_stopped_here := f (cw_stopped_here (nd_watch s))\<rparr>\<rparr>)"

text \<open>What follows once the container is there.\<close>

definition settle_in :: "'w host \<Rightarrow> agent_config \<Rightarrow> server_spec \<Rightarrow> game_profile \<Rightarrow> published_port list \<Rightarrow> str \<Rightarrow> ('w, instance_status) agent" where
  "settle_in H c spec profile published cid =
     io_bind (change (\<lambda>s. s\<lparr>nd_specs := tput (ss_instance_id spec) spec (nd_specs s)\<rparr>)) (\<lambda>_.
     if so_stopped (ss_options spec) then io_ok (created_status spec published cid Stopped None)
     else
       io_bind (apply_bans_later H c (ss_instance_id spec) (ss_game_id spec)) (\<lambda>_.
       io_bind (start_bots c spec) (\<lambda>_.
       io_bind (announce_created H c spec profile) (\<lambda>destination.
       io_bind (stopped_here (\<lambda>S. S - {ss_instance_id spec})) (\<lambda>_.
       io_bind (if ss_restart_on_crash spec then ignoring (set_restart_on_crash H c (ss_instance_id spec) True) else io_ok ()) (\<lambda>_.
         io_ok (created_status spec published cid Running destination)))))))"

definition create_on :: "'w host \<Rightarrow> agent_config \<Rightarrow> server_spec \<Rightarrow> str option \<Rightarrow> bool \<Rightarrow> ('w, instance_status) agent" where
  "create_on H c spec version ports_held =
     io_bind (docker_list H) (\<lambda>existing.
     if \<exists>x\<in>set existing. mg_instance_id x = ss_instance_id spec then io_err (AlreadyExists (ss_instance_id spec))
     else if length existing \<ge> ac_max_instances c then io_err (AtLimit (ac_max_instances c))
     else
       io_bind (plan_and_check_on H c spec version) (\<lambda>plan.
       io_bind (look (\<lambda>s. resource_check H c (ss_game_id spec) (so_memory (ss_options spec)) (so_cpus (ss_options spec)) (nd_world s))) (\<lambda>verdict.
       if rv_level verdict = Refuse then io_err (DoesNotFit (rv_messages verdict))
       else
         io_bind (make_dirs H (pl_host_dirs plan)) (\<lambda>_.
         io_bind (need (runtime_for c (ss_game_id spec)) (NoRuntime (ss_game_id spec))) (\<lambda>runtime.
         io_bind (look nd_packs) (\<lambda>packs.
         io_bind (need (tget packs (ss_game_id spec)) (NoPack (ss_game_id spec))) (\<lambda>pack.
         io_bind (io_of BadPack (to_profile pack)) (\<lambda>profile.
         io_bind (take_ports ports_held (requested_ports spec (ports_of profile))) (\<lambda>host_ports.
         io_bind (io_try (on_docker (create_and_start (hs_docker H) spec runtime (pl_mounts plan) (publish (ports_of profile) host_ports)))) (\<lambda>started.
         case started of
           Inl e \<Rightarrow> io_bind (if ports_held then io_ok () else give_back host_ports) (\<lambda>_. io_err e)
         | Inr cid \<Rightarrow> settle_in H c spec profile (publish (ports_of profile) host_ports) cid))))))))))"

definition create :: "'w host \<Rightarrow> agent_config \<Rightarrow> server_spec \<Rightarrow> ('w, instance_status) agent" where
  "create H c spec = create_on H c spec None False"

end
