(* ===== verification/Node_Ops.thy ===== *)
theory Node_Ops
  imports Node_Agent
begin

text \<open>
  \<^verbatim>\<open>crates/platform-agent/src/agent.rs\<close> after a server exists: stopping, starting and removing it, its console, its
  disk limit, the crash watch, the copies of a game on disk and moving a server onto a new one, with \<^verbatim>\<open>active.rs\<close>.
\<close>

section \<open>Copies of a game\<close>

definition path_of :: "str \<Rightarrow> path" where
  "path_of s = \<lparr>pt_absolute = starts_with [47] s, pt_parts = parts_of s\<rparr>"

definition mounts_under :: "path \<Rightarrow> managed_container list \<Rightarrow> str list" where
  "mounts_under dir cs =
     map mg_instance_id (filter (\<lambda>c. list_ex (\<lambda>m. path_starts_with (path_of m) dir) (mg_mount_sources c)) cs)"

definition servers_moving_with :: "str \<Rightarrow> str \<Rightarrow> (str, move_in_flight) table \<Rightarrow> str list" where
  "servers_moving_with game version moving =
     map fst (filter (\<lambda>(_, m). mf_game_id m = game \<and> (mf_from m = version \<or> mf_to m = version)) moving)"

definition copy_of :: "agent_config \<Rightarrow> str \<Rightarrow> managed_container \<Rightarrow> str option" where
  "copy_of c game x =
     (case content_dir (ac_data_root c) \<lparr>cn_game_id = game, cn_version = ascii ''probe''\<rparr> of
        Ok probe \<Rightarrow>
          let root = probe\<lparr>pt_parts := butlast (pt_parts probe)\<rparr> in
          first_some (map (\<lambda>m. if path_starts_with (path_of m) root
            then (case drop (length (pt_parts root)) (pt_parts (path_of m)) of [] \<Rightarrow> None | v # _ \<Rightarrow> Some v) else None)
            (mg_mount_sources x))
      | _ \<Rightarrow> None)"

datatype delete_error = CopyNotInstalled | BadCopyId plan_error | InUse "str list" | DeleteOther

definition hex_digit :: "nat \<Rightarrow> u8" where
  "hex_digit n = of_nat (if n < 10 then 48 + n else 87 + n)"

definition hex :: "bytes \<Rightarrow> str" where
  "hex bs = concat (map (\<lambda>b. [hex_digit (unat b div 16), hex_digit (unat b mod 16)]) bs)"

definition staging_root :: "agent_config \<Rightarrow> path" where
  "staging_root c = join (ac_data_root c) (ascii ''staging'')"

text \<open>Renamed out of the content tree first, then deleted.\<close>

definition move_aside :: "'w host \<Rightarrow> agent_config \<Rightarrow> path \<Rightarrow> ('w, delete_error + nat) agent" where
  "move_aside H c dir =
     io_bind (look (\<lambda>s. hs_size H dir (nd_world s))) (\<lambda>bytes.
     io_bind (in_world (hs_seed H)) (\<lambda>seed. case seed of
       None \<Rightarrow> io_ok (Inl DeleteOther)
     | Some sd \<Rightarrow>
         let trash = join (staging_root c) (ascii ''deleting-'' @ hex sd) in
         io_bind (in_world (hs_make_dir H (staging_root c))) (\<lambda>made.
         if \<not> made then io_ok (Inl DeleteOther)
         else io_bind (in_world (hs_rename H dir trash)) (\<lambda>moved.
           if \<not> moved then io_ok (Inl DeleteOther)
           else io_bind (in_world (hs_remove_tree H trash)) (\<lambda>gone.
             if \<not> gone then io_ok (Inl DeleteOther)
             else io_bind (in_world (\<lambda>w. ((), hs_remove_empty H (dir\<lparr>pt_parts := butlast (pt_parts dir)\<rparr>) w))) (\<lambda>_. io_ok (Inr bytes)))))))"

definition delete_content :: "'w host \<Rightarrow> agent_config \<Rightarrow> str \<Rightarrow> str \<Rightarrow> ('w, delete_error + nat) agent" where
  "delete_content H c game version =
     (case content_dir (ac_data_root c) \<lparr>cn_game_id = game, cn_version = version\<rparr> of
        Err e \<Rightarrow> io_ok (Inl (BadCopyId e))
      | Panic \<Rightarrow> io_err Panicked
      | Ok dir \<Rightarrow>
          io_bind (look (\<lambda>s. hs_is_dir H dir (nd_world s))) (\<lambda>there.
          if \<not> there then io_ok (Inl CopyNotInstalled)
          else io_bind (io_try (docker_list H)) (\<lambda>listed. case listed of
            Inl _ \<Rightarrow> io_ok (Inl DeleteOther)
          | Inr cs \<Rightarrow>
              if mounts_under dir cs \<noteq> [] then io_ok (Inl (InUse (mounts_under dir cs)))
              else io_bind (look (\<lambda>s. servers_moving_with game version (nd_moving s))) (\<lambda>moving.
                if moving \<noteq> [] then io_ok (Inl (InUse moving)) else move_aside H c dir))))"

definition save_active :: "'w host \<Rightarrow> ((str, active_entry) table \<Rightarrow> (str, active_entry) table) \<Rightarrow> ('w, bool) agent" where
  "save_active H f =
     io_bind (change (\<lambda>s. s\<lparr>nd_active := f (nd_active s)\<rparr>)) (\<lambda>_.
     io_bind (look nd_active) (\<lambda>t. in_world (hs_save_active H t)))"

definition set_active :: "'w host \<Rightarrow> str \<Rightarrow> str \<Rightarrow> str \<Rightarrow> ('w, bool) agent" where
  "set_active H game base active = save_active H (\<lambda>t.
     let old = (case tget t game of Some e \<Rightarrow> ae_pending e | None \<Rightarrow> []) in
     tput game \<lparr>ae_base = base, ae_active = active, ae_pending = filter (\<lambda>v. v \<noteq> active) old\<rparr> t)"

definition add_pending :: "'w host \<Rightarrow> str \<Rightarrow> str \<Rightarrow> ('w, bool) agent" where
  "add_pending H game version =
     io_bind (look (\<lambda>s. tget (nd_active s) game)) (\<lambda>known. case known of
       None \<Rightarrow> io_ok True
     | Some e \<Rightarrow> save_active H (tput game (if ae_active e \<noteq> version \<and> version \<notin> set (ae_pending e)
         then e\<lparr>ae_pending := ae_pending e @ [version]\<rparr> else e)))"

definition remove_pending :: "'w host \<Rightarrow> str \<Rightarrow> str \<Rightarrow> ('w, bool) agent" where
  "remove_pending H game version =
     io_bind (look (\<lambda>s. tget (nd_active s) game)) (\<lambda>known. case known of
       None \<Rightarrow> io_ok True
     | Some e \<Rightarrow> save_active H (tput game (e\<lparr>ae_pending := filter (\<lambda>v. v \<noteq> version) (ae_pending e)\<rparr>)))"

definition pending :: "(str, active_entry) table \<Rightarrow> (str \<times> str) list" where
  "pending t = concat (map (\<lambda>(g, e). map (Pair g) (filter (\<lambda>v. v \<noteq> ae_active e) (ae_pending e))) t)"

fun sweep_each :: "'w host \<Rightarrow> agent_config \<Rightarrow> (str \<times> str) list \<Rightarrow> ('w, unit) agent" where
  "sweep_each H c [] = io_ok ()"
| "sweep_each H c ((game, version) # rest) =
     io_bind (look (\<lambda>s. active_version H c s game)) (\<lambda>active.
     io_bind (if active = Some version then io_ok ()
       else io_bind (delete_content H c game version) (\<lambda>r. case r of
           Inr _ \<Rightarrow> io_bind (remove_pending H game version) (\<lambda>_. io_ok ())
         | Inl CopyNotInstalled \<Rightarrow> io_bind (remove_pending H game version) (\<lambda>_. io_ok ())
         | Inl (BadCopyId _) \<Rightarrow> io_bind (remove_pending H game version) (\<lambda>_. io_ok ())
         | Inl _ \<Rightarrow> io_ok ())) (\<lambda>_.
     sweep_each H c rest))"

definition sweep_old_copies :: "'w host \<Rightarrow> agent_config \<Rightarrow> ('w, unit) agent" where
  "sweep_old_copies H c = io_bind (look (\<lambda>s. pending (nd_active s))) (sweep_each H c)"

section \<open>Stopping, starting, removing\<close>

definition stop :: "'w host \<Rightarrow> str \<Rightarrow> ('w, unit) agent" where
  "stop H i =
     io_bind (mesh_stop H i) (\<lambda>_.
     io_bind (on_docker (rt_stop (hs_docker H) i)) (\<lambda>_.
     stopped_here (insert i)))"

text \<open>\<open>Some\<close> the bytes in use and the limit they are over.\<close>

definition over_disk_limit :: "'w host \<Rightarrow> agent_config \<Rightarrow> str \<Rightarrow> ('w, (nat \<times> nat) option) agent" where
  "over_disk_limit H c i =
     io_bind (io_try (docker_list H)) (\<lambda>listed.
       case (case listed of Inl _ \<Rightarrow> None | Inr cs \<Rightarrow> (case find_container i cs of None \<Rightarrow> None | Some x \<Rightarrow> mg_game_id x)) of
         None \<Rightarrow> io_ok None
       | Some game \<Rightarrow>
           (case (case runtime_for c game of None \<Rightarrow> None | Some r \<Rightarrow> gr_writable_limit_bytes r) of
              None \<Rightarrow> io_ok None
            | Some limit \<Rightarrow>
                (case instance_dir (ac_data_root c) i of
                   Ok dir \<Rightarrow> look (\<lambda>s. let used = hs_size H (join dir (ascii ''writable'')) (nd_world s) in
                     if used > limit then Some (used, limit) else None)
                 | _ \<Rightarrow> io_ok None)))"

definition restart :: "'w host \<Rightarrow> agent_config \<Rightarrow> str \<Rightarrow> ('w, unit) agent" where
  "restart H c i =
     io_bind (over_disk_limit H c i) (\<lambda>over. case over of
       Some (used, limit) \<Rightarrow> io_err (OverDiskLimit i used limit)
     | None \<Rightarrow>
         io_bind (mesh_stop H i) (\<lambda>_.
         io_bind (on_docker (rt_restart (hs_docker H) i)) (\<lambda>_.
         io_bind (stopped_here (\<lambda>S. S - {i})) (\<lambda>_.
         io_bind (game_of H i) (\<lambda>game.
         io_bind (case game of None \<Rightarrow> io_ok () | Some g \<Rightarrow> apply_bans_later H c i g) (\<lambda>_.
         io_bind (list_servers H) (\<lambda>rows. case find_server i rows of
           None \<Rightarrow> io_ok ()
         | Some row \<Rightarrow>
             io_bind (look (\<lambda>s. tget (nd_packs s) (is_game_id row))) (\<lambda>pack. case pack of
               None \<Rightarrow> io_ok ()
             | Some p \<Rightarrow>
                 io_bind (io_of BadPack (to_profile p)) (\<lambda>profile.
                 io_bind (game_address H i) (\<lambda>addr. case addr of
                   None \<Rightarrow> io_ok ()
                 | Some reach \<Rightarrow>
                     io_bind (max_players_of H i) (\<lambda>players.
                     io_bind (look (\<lambda>s. case tget (nd_specs s) i of None \<Rightarrow> None | Some spec \<Rightarrow> ss_map spec)) (\<lambda>seed.
                     io_bind (mesh_start H c i profile reach \<lparr>ma_name = is_name row, ma_max_players = players, ma_map = seed\<rparr>) (\<lambda>_.
                       io_ok ())))))))))))))"

definition start :: "'w host \<Rightarrow> agent_config \<Rightarrow> str \<Rightarrow> ('w, unit) agent" where
  "start H c i =
     io_bind (list_servers H) (\<lambda>rows.
     io_bind (need (find_server i rows) (NoInstance i)) (\<lambda>row.
     if is_state row = Running then io_err (AlreadyRunning i) else restart H c i))"

definition held_by :: "str \<Rightarrow> managed_container list \<Rightarrow> u16 list" where
  "held_by i cs =
     (case find_container i cs of
        None \<Rightarrow> []
      | Some x \<Rightarrow> if mg_ports x = [] then (case mg_port x of None \<Rightarrow> [] | Some p \<Rightarrow> [p]) else map pr_host_port (mg_ports x))"

definition remove :: "'w host \<Rightarrow> agent_config \<Rightarrow> str \<Rightarrow> ('w, unit) agent" where
  "remove H c i =
     io_bind (docker_list H) (\<lambda>cs.
     io_bind (mesh_stop H i) (\<lambda>_.
     io_bind (ignoring (on_docker (rt_stop (hs_docker H) i))) (\<lambda>_.
     io_bind (on_docker (rt_remove (hs_docker H) i)) (\<lambda>_.
     io_bind (give_back (held_by i cs)) (\<lambda>_.
     io_bind (change (\<lambda>s. s\<lparr>nd_specs := tdel i (nd_specs s), nd_unrecalled := nd_unrecalled s - {i}\<rparr>)) (\<lambda>_.
     io_bind (in_world (hs_delete H (identity_path (ac_data_root c) i))) (\<lambda>_.
     sweep_old_copies H c)))))))"

definition event_of :: "instance_status \<Rightarrow> server_event" where
  "event_of r = \<lparr>sv_instance_id = is_instance_id r, sv_game_id = Some (is_game_id r), sv_name = Some (is_name r), sv_owner = is_owner r\<rparr>"

definition tell :: "node_event \<Rightarrow> ('w, unit) agent" where
  "tell e = change (\<lambda>s. s\<lparr>nd_told := nd_told s @ [e]\<rparr>)"

fun check_each_disk :: "'w host \<Rightarrow> agent_config \<Rightarrow> instance_status list \<Rightarrow> ('w, str list) agent" where
  "check_each_disk H c [] = io_ok []"
| "check_each_disk H c (r # rs) =
     io_bind (over_disk_limit H c (is_instance_id r)) (\<lambda>over.
     io_bind (case over of None \<Rightarrow> io_ok []
       | Some _ \<Rightarrow> io_bind (io_try (stop H (is_instance_id r))) (\<lambda>stopped. case stopped of
           Inl _ \<Rightarrow> io_ok [] | Inr _ \<Rightarrow> io_bind (tell (StoppedByHost (event_of r))) (\<lambda>_. io_ok [is_instance_id r]))) (\<lambda>here.
     io_bind (check_each_disk H c rs) (\<lambda>rest. io_ok (here @ rest))))"

definition check_disk_limits :: "'w host \<Rightarrow> agent_config \<Rightarrow> ('w, str list) agent" where
  "check_disk_limits H c =
     io_bind (io_try (list_servers H)) (\<lambda>rows. case rows of
       Inl _ \<Rightarrow> io_ok [] | Inr rs \<Rightarrow> check_each_disk H c (filter (\<lambda>r. is_state r = Running) rs))"

section \<open>Crashes\<close>

definition HOUR :: duration where "HOUR = secs 3600"

definition recent_list :: "time \<Rightarrow> time list \<Rightarrow> time list" where
  "recent_list now ts = filter (\<lambda>t. now - t < HOUR) ts"

definition recent :: "time \<Rightarrow> str \<Rightarrow> crash_watch \<Rightarrow> nat \<times> crash_watch" where
  "recent now i w =
     (let ts = recent_list now (case tget (cw_restarts w) i of None \<Rightarrow> [] | Some ts \<Rightarrow> ts) in
      (length ts, w\<lparr>cw_restarts := tput i ts (cw_restarts w)\<rparr>))"

definition is_moving :: "'w node \<Rightarrow> str \<Rightarrow> bool" where
  "is_moving s i \<longleftrightarrow> thas (nd_moving s) i"

definition crash_event :: "managed_container \<Rightarrow> server_event" where
  "crash_event x = \<lparr>sv_instance_id = mg_instance_id x, sv_game_id = mg_game_id x, sv_name = None, sv_owner = mg_owner x\<rparr>"

text \<open>What one ended container does to the watch, once its exit is known: whether it crashed, and whether it is due.\<close>

definition judge_exit :: "bool \<Rightarrow> time \<Rightarrow> managed_container \<Rightarrow> last_exit \<Rightarrow> crash_watch \<Rightarrow> (bool \<times> bool) \<times> crash_watch" where
  "judge_exit wanted now x e w =
     (let i = mg_instance_id x; key = (case le_finished_at e of None \<Rightarrow> [] | Some t \<Rightarrow> t) in
      if tget (cw_seen w) i = Some key then ((False, False), w)
      else
        let w' = w\<lparr>cw_seen := tput i key (cw_seen w)\<rparr> in
        if \<not> cw_seeded w' \<or> i \<in> cw_stopped_here w' \<or> \<not> is_crash e then ((False, False), w')
        else if \<not> wanted then ((True, False), w')
        else
          let (n, w2) = recent now i w' in
          if n \<ge> MAX_CRASH_RESTARTS_PER_HOUR then ((True, False), w2)
          else ((True, True), w2\<lparr>cw_restarts := tput i ((case tget (cw_restarts w2) i of None \<Rightarrow> [] | Some ts \<Rightarrow> ts) @ [now]) (cw_restarts w2)\<rparr>))"

fun look_for_crashes :: "'w host \<Rightarrow> agent_config \<Rightarrow> managed_container list \<Rightarrow> ('w, (server_event \<times> last_exit) list \<times> str list) agent" where
  "look_for_crashes H c [] = io_ok ([], [])"
| "look_for_crashes H c (x # xs) =
     io_bind (look (\<lambda>s. is_moving s (mg_instance_id x))) (\<lambda>moving.
     io_bind (if moving then io_ok (Inr None) else io_try (on_docker (last_exit_of (hs_docker H) (mg_container_id x)))) (\<lambda>r.
     io_bind (case r of
         Inr (Some e) \<Rightarrow> (\<lambda>s. let (v, w) = judge_exit (restart_on_crash H c (mg_instance_id x) (nd_world s)) (hs_clock H (nd_world s)) x e (nd_watch s)
             in (Inr ((if fst v then [(crash_event x, e)] else []), (if snd v then [mg_instance_id x] else [])), s\<lparr>nd_watch := w\<rparr>))
       | _ \<Rightarrow> io_ok ([], [])) (\<lambda>(crashed, due).
     io_bind (look_for_crashes H c xs) (\<lambda>(crashed', due'). io_ok (crashed @ crashed', due @ due')))))"

fun tell_each :: "(server_event \<times> last_exit) list \<Rightarrow> ('w, unit) agent" where
  "tell_each [] = io_ok ()"
| "tell_each ((v, e) # rest) = io_bind (tell (ServerCrashed v e)) (\<lambda>_. tell_each rest)"

fun restart_each :: "'w host \<Rightarrow> agent_config \<Rightarrow> str list \<Rightarrow> ('w, unit) agent" where
  "restart_each H c [] = io_ok ()"
| "restart_each H c (i # ids) = io_bind (ignoring (restart H c i)) (\<lambda>_. restart_each H c ids)"

definition check_crashes :: "'w host \<Rightarrow> agent_config \<Rightarrow> ('w, unit) agent" where
  "check_crashes H c =
     io_bind (io_try (docker_list H)) (\<lambda>listed. case listed of
       Inl _ \<Rightarrow> io_ok ()
     | Inr cs \<Rightarrow>
         io_bind (look_for_crashes H c (filter (\<lambda>x. mg_state x = Stopped) cs)) (\<lambda>(crashed, due).
         io_bind (change (\<lambda>s. s\<lparr>nd_watch := (nd_watch s)\<lparr>cw_seeded := True\<rparr>\<rparr>)) (\<lambda>_.
         io_bind (tell_each crashed) (\<lambda>_.
         restart_each H c due))))"

section \<open>The console\<close>

definition change_server_map :: "'w host \<Rightarrow> str \<Rightarrow> str \<Rightarrow> ('w, str) agent" where
  "change_server_map H i map_name =
     io_bind (list_servers H) (\<lambda>rows.
     io_bind (need (find_server i rows) (NoInstance i)) (\<lambda>row.
     io_bind (look nd_packs) (\<lambda>packs.
     io_bind (need (tget packs (is_game_id row)) (NoPack (is_game_id row))) (\<lambda>pack.
     io_bind (need (pk_console pack) (NoConsoleFor (is_game_id row))) (\<lambda>console.
     io_bind (io_of BadMapName (Console.change_map (console_of_pack console) map_name)) (\<lambda>l.
     io_bind (on_docker (send_console_line (hs_docker H) i l)) (\<lambda>_. io_ok l)))))))"

definition send_console :: "'w host \<Rightarrow> str \<Rightarrow> str \<Rightarrow> ('w, unit) agent" where
  "send_console H i l =
     io_bind (io_of BadConsoleLine (validate_console_line l)) (\<lambda>_.
     io_bind (list_servers H) (\<lambda>rows.
     io_bind (need (find_server i rows) (NoInstance i)) (\<lambda>row.
     io_bind (look (\<lambda>s. case tget (nd_packs s) (is_game_id row) of None \<Rightarrow> False | Some p \<Rightarrow> pk_console p \<noteq> None)) (\<lambda>has.
     if \<not> has then io_err (NoConsoleFor (is_game_id row))
     else on_docker (send_console_line (hs_docker H) i l)))))"

definition console_of :: "'w host \<Rightarrow> str \<Rightarrow> ('w, str \<times> console_protocol) agent" where
  "console_of H i =
     io_bind (game_of H i) (\<lambda>game.
     io_bind (need game (NoInstance i)) (\<lambda>g.
     io_bind (look (\<lambda>s. case tget (nd_packs s) g of None \<Rightarrow> None | Some p \<Rightarrow> pk_console p)) (\<lambda>console.
     io_bind (need console (NoConsoleFor g)) (\<lambda>k. io_ok (g, console_of_pack k)))))"

definition set_bots :: "'w host \<Rightarrow> agent_config \<Rightarrow> str \<Rightarrow> u8 \<Rightarrow> ('w, str list) agent" where
  "set_bots H c i quota =
     io_bind (list_servers H) (\<lambda>rows.
     io_bind (need (find_server i rows) (NoInstance i)) (\<lambda>row.
     io_bind (look (\<lambda>s. bots_for c s (is_game_id row))) (\<lambda>known.
     io_bind (need known (NoBots (is_game_id row))) (\<lambda>bots.
     io_bind (look nd_packs) (\<lambda>packs.
     io_bind (need (tget packs (is_game_id row)) (NoPack (is_game_id row))) (\<lambda>pack.
     if pk_console pack = None then io_err (NoConsoleFor (is_game_id row))
     else
       io_bind (io_of BadBots (quota_lines bots quota)) (\<lambda>lines.
       io_bind (send_lines H i lines) (\<lambda>_.
       io_bind (change (\<lambda>s. case tget (nd_specs s) i of None \<Rightarrow> s
           | Some spec \<Rightarrow> s\<lparr>nd_specs := tput i (spec\<lparr>ss_bots := Some quota\<rparr>) (nd_specs s)\<rparr>)) (\<lambda>_.
       io_ok lines)))))))))"

section \<open>Moving a server onto a new copy\<close>

definition MOVE_WARNING :: str where
  "MOVE_WARNING = ascii ''This server restarts in about a minute for a game update. It keeps its name and address''"

record move_timing =
  mt_settle :: nat
  mt_warn :: nat

definition default_timing :: move_timing where "default_timing = \<lparr>mt_settle = 30, mt_warn = 60\<rparr>"

definition log_move :: "str \<Rightarrow> str \<Rightarrow> str \<Rightarrow> str \<Rightarrow> move_state \<Rightarrow> ('w, unit) agent" where
  "log_move i game old new st = change (\<lambda>s. s\<lparr>nd_move_log := tput i
     \<lparr>mr_game_id = game, mr_from = old, mr_to = new, mr_state = st\<rparr> (nd_move_log s)\<rparr>)"

datatype unsettled = ExitedWith int | NotUp

text \<open>One look a second until the time is up; a sleep of a second takes at least one, so \<open>n\<close> outlasts the clock.\<close>

fun settled_until :: "'w host \<Rightarrow> str \<Rightarrow> time \<Rightarrow> nat \<Rightarrow> ('w, unsettled option) agent" where
  "settled_until H i until n =
     io_bind (io_try (on_docker (state_of (hs_docker H) i))) (\<lambda>st.
     if st \<noteq> Inr Running then
       io_bind (io_try (docker_list H)) (\<lambda>listed.
         case find_container i (case listed of Inl _ \<Rightarrow> [] | Inr cs \<Rightarrow> cs) of
           None \<Rightarrow> io_ok (Some NotUp)
         | Some x \<Rightarrow> io_bind (io_try (on_docker (last_exit_of (hs_docker H) (mg_container_id x)))) (\<lambda>e.
             io_ok (Some (case e of Inr (Some e) \<Rightarrow> ExitedWith (le_code e) | _ \<Rightarrow> NotUp))))
     else io_bind (look (\<lambda>s. hs_clock H (nd_world s))) (\<lambda>now.
       if now \<ge> until then io_ok None
       else case n of 0 \<Rightarrow> io_ok None
         | Suc m \<Rightarrow> io_bind (in_world (\<lambda>w. ((), hs_sleep H (secs 1) w))) (\<lambda>_. settled_until H i until m)))"

declare settled_until.simps [simp del]

definition settled :: "'w host \<Rightarrow> str \<Rightarrow> nat \<Rightarrow> ('w, unsettled option) agent" where
  "settled H i settle =
     io_bind (look (\<lambda>s. hs_clock H (nd_world s) + secs settle)) (\<lambda>until. settled_until H i until settle)"

text \<open>Everything that can refuse a move before the server is touched: the copies, its spec and, with \<open>warn\<close>, the line.\<close>

definition plan_move :: "'w host \<Rightarrow> agent_config \<Rightarrow> str \<Rightarrow> bool \<Rightarrow> ('w, str \<times> str \<times> str \<times> server_spec \<times> str option) agent" where
  "plan_move H c i warn =
     io_bind (docker_list H) (\<lambda>cs.
     io_bind (need (find_container i cs) (NoInstance i)) (\<lambda>x.
     if mg_state x \<noteq> Running then io_err OnlyRunning
     else
       io_bind (need (mg_game_id x) NoGameLabel) (\<lambda>game.
       io_bind (need (copy_of c game x) UnknownCopy) (\<lambda>old.
       io_bind (look (\<lambda>s. active_version H c s game)) (\<lambda>active.
       io_bind (need active (NoRuntime game)) (\<lambda>new.
       if old = new then io_err SameCopy
       else
         io_bind (on_docker (spec_of (hs_docker H) i)) (\<lambda>spec.
         io_bind (plan_and_check_on H c spec (Some new)) (\<lambda>_.
         io_bind (look nd_packs) (\<lambda>packs.
         io_bind (need (tget packs game) (NoPack game)) (\<lambda>pack.
         io_bind (io_of BadPack (to_profile pack)) (\<lambda>profile.
         if None \<in> set (requested_ports spec (ports_of profile)) then io_err NewPort
         else if \<not> warn then io_ok (game, old, new, spec, None)
         else
           io_bind (need (pk_console pack) NoConsoleToWarn) (\<lambda>k.
           io_bind (io_of BadWarning (say (console_of_pack k) MOVE_WARNING)) (\<lambda>l.
           io_ok (game, old, new, spec, Some l))))))))))))))"

definition spec_ports :: "server_spec \<Rightarrow> u16 list" where
  "spec_ports spec = (case ss_port spec of None \<Rightarrow> [] | Some p \<Rightarrow> [p]) @ map snd (ss_extra_ports spec)"

text \<open>Back onto the old copy.\<close>

definition put_back :: "'w host \<Rightarrow> agent_config \<Rightarrow> str \<Rightarrow> str \<Rightarrow> str \<Rightarrow> str \<Rightarrow> server_spec \<Rightarrow> ('w, move_outcome) agent" where
  "put_back H c i game old new spec =
     io_bind (mesh_stop H i) (\<lambda>_.
     io_bind (ignoring (on_docker (rt_remove (hs_docker H) i))) (\<lambda>_.
     io_bind (io_try (create_on H c spec (Some old) True)) (\<lambda>back. case back of
       Inr _ \<Rightarrow> io_bind (log_move i game old new RolledBack) (\<lambda>_. io_ok (RolledBackTo old new))
     | Inl _ \<Rightarrow>
         io_bind (give_back (spec_ports spec)) (\<lambda>_.
         io_bind (log_move i game old new (Failed True)) (\<lambda>_. io_err Lost)))))"

text \<open>The part of a move for which both copies are pinned.\<close>

definition move_pinned :: "'w host \<Rightarrow> agent_config \<Rightarrow> move_timing \<Rightarrow> str \<Rightarrow> str \<Rightarrow> str \<Rightarrow> str \<Rightarrow> server_spec \<Rightarrow> str option
    \<Rightarrow> ('w, move_outcome) agent" where
  "move_pinned H c t i game old new spec warning =
     io_bind (case warning of None \<Rightarrow> io_ok ()
       | Some l \<Rightarrow>
           io_bind (on_docker (send_console_line (hs_docker H) i l)) (\<lambda>_.
           io_bind (log_move i game old new Warned) (\<lambda>_.
           in_world (\<lambda>w. ((), hs_sleep H (secs (mt_warn t)) w))))) (\<lambda>_.
     io_bind (log_move i game old new Moving) (\<lambda>_.
     io_bind (mesh_stop H i) (\<lambda>_.
     io_bind (ignoring (on_docker (rt_stop (hs_docker H) i))) (\<lambda>_.
     io_bind (io_try (on_docker (rt_remove (hs_docker H) i))) (\<lambda>removed. case removed of
       Inl e \<Rightarrow> io_bind (ignoring (restart H c i)) (\<lambda>_. io_err (NotRemoved e))
     | Inr _ \<Rightarrow>
         io_bind (io_try (create_on H c spec (Some new) True)) (\<lambda>made.
         io_bind (case made of Inl _ \<Rightarrow> io_ok (Some NotUp) | Inr _ \<Rightarrow> settled H i (mt_settle t)) (\<lambda>why. case why of
           None \<Rightarrow> io_bind (log_move i game old new Moved) (\<lambda>_. io_ok (MovedTo old new))
         | Some _ \<Rightarrow> put_back H c i game old new spec)))))))"

definition move_instance :: "'w host \<Rightarrow> agent_config \<Rightarrow> move_timing \<Rightarrow> str \<Rightarrow> bool \<Rightarrow> ('w, move_outcome) agent" where
  "move_instance H c t i warn =
     io_bind (plan_move H c i warn) (\<lambda>(game, old, new, spec, warning).
     io_bind (change (\<lambda>s. s\<lparr>nd_moving := tput i \<lparr>mf_game_id = game, mf_from = old, mf_to = new\<rparr> (nd_moving s)\<rparr>)) (\<lambda>_.
     io_bind (io_try (move_pinned H c t i game old new spec warning)) (\<lambda>r.
     io_bind (change (\<lambda>s. s\<lparr>nd_moving := tdel i (nd_moving s)\<rparr>)) (\<lambda>_.
     io_bind (case r of Inr (MovedTo _ _) \<Rightarrow> sweep_old_copies H c | _ \<Rightarrow> io_ok ()) (\<lambda>_.
     io_here r)))))"

end
