(* ===== verification/Node_Safety.thy ===== *)
theory Node_Safety
  imports Node_Ops
begin

text \<open>
  What the agent of \<open>Node_Agent\<close> and \<open>Node_Ops\<close> can be held to: its books after a create, what a start that fails
  leaves behind, which crash is followed by a restart and how often, what a move may lose, and which copies may go.
\<close>

named_theorems agent_quiet \<open>operations that change nothing but the machine under the agent\<close>

section \<open>What leaves the books alone\<close>

definition same :: "'w node \<Rightarrow> 'w node \<Rightarrow> bool" where
  "same s s' \<longleftrightarrow> (\<exists>g w. s' = s\<lparr>nd_gateway := g, nd_world := w\<rparr>)"

definition quiet_op :: "('w, 'a) agent \<Rightarrow> bool" where
  "quiet_op f \<longleftrightarrow> (\<forall>s. same s (snd (f s)))"

lemma sameI [intro]: "same (s :: 'w node) (s\<lparr>nd_gateway := g, nd_world := w\<rparr>)"
  unfolding same_def by blast

lemma same_world [intro]: "same (s :: 'w node) (s\<lparr>nd_world := w\<rparr>)"
  using sameI [where s = s and g = "nd_gateway s" and w = w] by simp

lemma same_refl [simp, intro]: "same (s :: 'w node) s"
  using same_world [where s = s and w = "nd_world s"] by simp

lemma same_trans: "same (s :: 'w node) s1 \<Longrightarrow> same s1 s2 \<Longrightarrow> same s s2"
proof -
  assume "same s s1" "same s1 s2"
  then obtain g w g' w' where "s1 = s\<lparr>nd_gateway := g, nd_world := w\<rparr>" "s2 = s1\<lparr>nd_gateway := g', nd_world := w'\<rparr>"
    unfolding same_def by blast
  then have "s2 = s\<lparr>nd_gateway := g', nd_world := w'\<rparr>" by simp
  then show ?thesis by auto
qed

lemma same_fields:
  "same s s' \<Longrightarrow> nd_ports s' = nd_ports s \<and> nd_packs s' = nd_packs s \<and> nd_specs s' = nd_specs s \<and> nd_unrecalled s' = nd_unrecalled s
     \<and> nd_watch s' = nd_watch s \<and> nd_active s' = nd_active s \<and> nd_moving s' = nd_moving s \<and> nd_move_log s' = nd_move_log s \<and> nd_updates s' = nd_updates s \<and> nd_installs s' = nd_installs s
     \<and> nd_tasks s' = nd_tasks s \<and> nd_told s' = nd_told s"
  by (auto simp: same_def)

lemma quietD: "quiet_op f \<Longrightarrow> f s = (r, s') \<Longrightarrow> same s s'"
  unfolding quiet_op_def by (metis snd_conv)

lemma quiet_leaf [agent_quiet]:
  "quiet_op (io_ok a)" "quiet_op (io_err e)" "quiet_op (look f)" "quiet_op (io_of h r)" "quiet_op (need x e)"
  "quiet_op (io_here z)"
  by (auto simp: quiet_op_def io_ok_def io_err_def look_def io_of_def need_def io_here_def split: outcome.split option.split)

lemma quiet_calls [agent_quiet]: "quiet_op (on_docker m)" "quiet_op (in_world h)"
  by (auto simp: quiet_op_def on_docker_def in_world_def split: prod.split)

lemma quiet_bind [agent_quiet]:
  assumes "quiet_op f" "\<And>a. quiet_op (g a)" shows "quiet_op (io_bind f g)"
  unfolding quiet_op_def
proof
  fix s
  obtain r s1 where f: "f s = (r, s1)" by (cases "f s")
  show "same s (snd (io_bind f g s))"
  proof (cases r)
    case (Inr a)
    then have "same s1 (snd (g a s1))" using assms(2) [of a] by (simp add: quiet_op_def)
    with Inr show ?thesis using f same_trans [OF quietD [OF assms(1) f]] by (simp add: io_bind_def)
  qed (use f quietD [OF assms(1) f] in \<open>simp add: io_bind_def\<close>)
qed

lemma quiet_try [agent_quiet]: "quiet_op f \<Longrightarrow> quiet_op (io_try f)"
  by (auto simp: quiet_op_def io_try_def split: prod.split) (metis snd_conv)

lemma quiet_ignoring [agent_quiet]: "quiet_op f \<Longrightarrow> quiet_op (ignoring f)"
  unfolding ignoring_def by (intro agent_quiet)

lemma quiet_split [agent_quiet]:
  "(b \<Longrightarrow> quiet_op f) \<Longrightarrow> (\<not> b \<Longrightarrow> quiet_op g) \<Longrightarrow> quiet_op (if b then f else g)"
  "(x = None \<Longrightarrow> quiet_op f) \<Longrightarrow> (\<And>y. x = Some y \<Longrightarrow> quiet_op (h y)) \<Longrightarrow> quiet_op (case x of None \<Rightarrow> f | Some y \<Rightarrow> h y)"
  "(\<And>a. z = Inl a \<Longrightarrow> quiet_op (k a)) \<Longrightarrow> (\<And>b. z = Inr b \<Longrightarrow> quiet_op (l b)) \<Longrightarrow> quiet_op (case z of Inl a \<Rightarrow> k a | Inr b \<Rightarrow> l b)"
  by (auto split: option.split sum.split)

lemma quiet_make_dirs [agent_quiet]: "quiet_op (make_dirs H ds)"
  by (induction ds) (auto intro!: agent_quiet)

lemma quiet_reads [agent_quiet]:
  "quiet_op (docker_list H)" "quiet_op (game_address H i)" "quiet_op (game_of H i)" "quiet_op (ensure_instance H i)"
  "quiet_op (max_players_of H i)" "quiet_op (mesh_stop H i)" "quiet_op (mesh_start H c i profile reach announce)"
  "quiet_op (announce_created H c spec profile)" "quiet_op (set_restart_on_crash H c i on)" "quiet_op (over_disk_limit H c i)"
  unfolding docker_list_def game_address_def game_of_def ensure_instance_def max_players_of_def mesh_stop_def mesh_start_def
    announce_created_def set_restart_on_crash_def over_disk_limit_def
  by (auto intro!: agent_quiet simp: docker_list_def ensure_instance_def game_address_def mesh_start_def split: outcome.split)

lemma quiet_plan [agent_quiet]: "quiet_op (plan_and_check_on H c spec version)"
  unfolding plan_and_check_on_def by (intro agent_quiet)

section \<open>What an operation is bound to\<close>

definition runs :: "('s \<Rightarrow> bool) \<Rightarrow> ('s, 'e, 'a) io \<Rightarrow> ('e + 'a \<Rightarrow> 's \<Rightarrow> bool) \<Rightarrow> bool" where
  "runs P f Q \<longleftrightarrow> (\<forall>s. P s \<longrightarrow> (case f s of (r, s') \<Rightarrow> Q r s'))"

lemma runsD: "runs P f Q \<Longrightarrow> P s \<Longrightarrow> f s = (r, s') \<Longrightarrow> Q r s'"
  by (auto simp: runs_def)

lemma runs_bind:
  assumes "runs P f (\<lambda>r s. case r of Inl e \<Rightarrow> Q (Inl e) s | Inr a \<Rightarrow> R a s)" "\<And>a. runs (R a) (g a) Q"
  shows "runs P (io_bind f g) Q"
  unfolding runs_def
proof (intro allI impI)
  fix s assume P: "P s"
  obtain r s1 where f: "f s = (r, s1)" by (cases "f s")
  from runsD [OF assms(1) P f] show "case io_bind f g s of (r, s') \<Rightarrow> Q r s'"
    using assms(2) f by (cases r) (auto simp: io_bind_def runs_def)
qed

lemma runs_leaf:
  "(\<And>s. P s \<Longrightarrow> Q (Inr a) s) \<Longrightarrow> runs P (io_ok a) Q" "(\<And>s. P s \<Longrightarrow> Q (Inl e) s) \<Longrightarrow> runs P (io_err e) Q"
  "(\<And>s. P' s \<Longrightarrow> Q' (Inr ()) (f s)) \<Longrightarrow> runs P' (change f) Q'" "(\<And>s. P' s \<Longrightarrow> Q2 (Inr (h s)) s) \<Longrightarrow> runs P' (look h) Q2"
  by (auto simp: runs_def io_ok_def io_err_def change_def look_def)

lemma runs_if: "(b \<Longrightarrow> runs P f Q) \<Longrightarrow> (\<not> b \<Longrightarrow> runs P g Q) \<Longrightarrow> runs P (if b then f else g) Q"
  by simp

lemma runs_quiet:
  assumes "quiet_op f" "\<And>s s' r. P s \<Longrightarrow> same s s' \<Longrightarrow> f s = (r, s') \<Longrightarrow> Q r s'" shows "runs P f Q"
  unfolding runs_def using assms(2) quietD [OF assms(1)] by (auto split: prod.split)

text \<open>A quiet operation keeps what holds of the books, whatever it answers.\<close>

lemma runs_bind_quiet:
  assumes "quiet_op f" "\<And>s s'. P s \<Longrightarrow> same s s' \<Longrightarrow> P s'" "\<And>e s. P s \<Longrightarrow> Q (Inl e) s" "\<And>a. runs P (g a) Q"
  shows "runs P (io_bind f g) Q"
proof (rule runs_bind [where R = "\<lambda>_. P"])
  show "runs P f (\<lambda>r s. case r of Inl e \<Rightarrow> Q (Inl e) s | Inr a \<Rightarrow> P s)"
    using assms(2,3) by (intro runs_quiet [OF assms(1)]) (auto split: sum.split)
qed (rule assms(4))

section \<open>Creating\<close>

text \<open>Nothing that follows a started container can fail, and none of it touches the ports.\<close>

lemma runs_apply_bans:
  assumes "\<And>s s'. P s \<Longrightarrow> same s s' \<Longrightarrow> P s'" "\<And>s l. P s \<Longrightarrow> P (s\<lparr>nd_tasks := l\<rparr>)"
  shows "runs P (apply_bans_later H c i game) (\<lambda>r s. r = Inr () \<and> P s)"
  using assms(2) unfolding runs_def apply_bans_later_def look_def io_bind_def io_ok_def change_def
  by (auto simp: Let_def split: option.split outcome.split sum.split)

lemma runs_start_bots:
  assumes "validate spec = Ok ()" "\<And>s l. P s \<Longrightarrow> P (s\<lparr>nd_tasks := l\<rparr>)"
  shows "runs P (start_bots c spec) (\<lambda>r s. r = Inr () \<and> P s)"
proof (cases "ss_bots spec")
  case None
  then show ?thesis by (auto simp: start_bots_def intro!: runs_leaf)
next
  case (Some n)
  have total: "\<exists>ls. quota_lines b n = Ok ls" for b
    using accepted_facts(6) [OF assms(1) Some] by (rule quota_lines_total)
  show ?thesis
    unfolding runs_def
  proof (intro allI impI)
    fix s assume "P s"
    show "case start_bots c spec s of (r, s') \<Rightarrow> r = Inr () \<and> P s'"
    proof (cases "bots_for c s (ss_game_id spec)")
      case None
      then show ?thesis using Some \<open>P s\<close> by (simp add: start_bots_def look_def io_bind_def io_ok_def)
    next
      case (Some b)
      moreover obtain ls where "quota_lines b n = Ok ls" using total by blast
      ultimately show ?thesis
        using \<open>ss_bots spec = Some n\<close> assms(2) [OF \<open>P s\<close>]
        by (simp add: start_bots_def look_def io_bind_def io_ok_def io_of_def change_def)
    qed
  qed
qed

lemma runs_mono: "runs P f Q \<Longrightarrow> (\<And>s. P' s \<Longrightarrow> P s) \<Longrightarrow> (\<And>r s. Q r s \<Longrightarrow> Q' r s) \<Longrightarrow> runs P' f Q'"
  unfolding runs_def by (metis (mono_tags, lifting) case_prod_beta)

lemma runs_bind_unit:
  assumes "runs P f (\<lambda>r s. r = Inr () \<and> P' s)" "runs P' g Q" shows "runs P (io_bind f (\<lambda>_. g)) Q"
  by (rule runs_bind [where R = "\<lambda>_. P'"]) (auto intro: runs_mono [OF assms(1)] assms(2) split: sum.split)

lemma runs_ignoring: "quiet_op f \<Longrightarrow> (\<And>s s'. P s \<Longrightarrow> same s s' \<Longrightarrow> P s') \<Longrightarrow> runs P (ignoring f) (\<lambda>r s. r = Inr () \<and> P s)"
  by (auto simp: runs_def ignoring_def io_bind_def io_try_def io_ok_def split: prod.split dest: quietD)

lemma announce_goes_on: "\<exists>r. fst (announce_created H c spec profile s) = Inr r"
  by (auto simp: announce_created_def game_address_def io_bind_def io_try_def io_ok_def mesh_start_def in_world_def
      split: prod.split sum.split option.split)

definition settled_as :: "server_spec \<Rightarrow> published_port list \<Rightarrow> str \<Rightarrow> instance_status \<Rightarrow> bool" where
  "settled_as spec published cid st \<longleftrightarrow> (\<exists>st' d. st = created_status spec published cid st' d)"

lemma runs_settle_in:
  assumes "validate spec = Ok ()"
  shows "runs (\<lambda>s. nd_ports s = A) (settle_in H c spec profile published cid)
     (\<lambda>r s. nd_ports s = A \<and> tget (nd_specs s) (ss_instance_id spec) = Some spec \<and> (\<exists>st. r = Inr st \<and> settled_as spec published cid st))"
proof -
  let ?P = "\<lambda>s. nd_ports s = A \<and> tget (nd_specs s) (ss_instance_id spec) = Some spec"
  have kept: "?P s'" if "?P s" "same s s'" for s s' using that same_fields [of s s'] by simp
  have told: "runs ?P (announce_created H c spec profile) (\<lambda>r s. case r of Inl e \<Rightarrow> Q (Inl e) s | Inr a \<Rightarrow> ?P s)" for Q
  proof (rule runs_quiet)
    show "quiet_op (announce_created H c spec profile)" by (intro agent_quiet)
    show "case r of Inl e \<Rightarrow> Q (Inl e) s' | Inr a \<Rightarrow> ?P s'"
      if "?P s" "same s s'" "announce_created H c spec profile s = (r, s')" for s s' r
      using kept [OF that(1,2)] announce_goes_on [of H c spec profile s] that(3) by (cases r) auto
  qed
  show ?thesis
    unfolding settle_in_def
  proof (rule runs_bind_unit [where P' = ?P])
    show "runs (\<lambda>s. nd_ports s = A) (change (\<lambda>s. s\<lparr>nd_specs := tput (ss_instance_id spec) spec (nd_specs s)\<rparr>)) (\<lambda>r s. r = Inr () \<and> ?P s)"
      by (rule runs_leaf) (simp add: tbl.get_put)
    show "runs ?P (if so_stopped (ss_options spec) then io_ok (created_status spec published cid Stopped None)
        else io_bind (apply_bans_later H c (ss_instance_id spec) (ss_game_id spec)) (\<lambda>_.
          io_bind (start_bots c spec) (\<lambda>_. io_bind (announce_created H c spec profile) (\<lambda>destination.
          io_bind (stopped_here (\<lambda>S. S - {ss_instance_id spec})) (\<lambda>_.
          io_bind (if ss_restart_on_crash spec then ignoring (set_restart_on_crash H c (ss_instance_id spec) True) else io_ok ()) (\<lambda>_.
            io_ok (created_status spec published cid Running destination)))))))
       (\<lambda>r s. nd_ports s = A \<and> tget (nd_specs s) (ss_instance_id spec) = Some spec \<and> (\<exists>st. r = Inr st \<and> settled_as spec published cid st))"
      (is "runs _ (if _ then _ else ?go) ?Q")
    proof (rule runs_if)
      show "runs ?P (io_ok (created_status spec published cid Stopped None)) ?Q"
        by (rule runs_leaf) (auto simp: settled_as_def)
      show "runs ?P ?go ?Q"
        by (intro runs_bind_unit [OF runs_apply_bans [where P = ?P]] runs_bind_unit [OF runs_start_bots [OF assms, where P = ?P]]
          runs_bind [OF told] runs_bind_unit [where P' = ?P])
          (auto intro!: runs_leaf runs_ignoring agent_quiet simp: stopped_here_def settled_as_def dest: same_fields)
    qed
  qed
qed

text \<open>The books as they were, up to the order in which free ports are handed out.\<close>

definition books_kept :: "'w node \<Rightarrow> 'w node \<Rightarrow> bool" where
  "books_kept s s' \<longleftrightarrow> (\<exists>a. same (s\<lparr>nd_ports := a\<rparr>) s' \<and> alloc_ok a \<and> pa_held a = pa_held (nd_ports s) \<and> pa_range a = pa_range (nd_ports s))"

definition took :: "'w node \<Rightarrow> u16 list \<Rightarrow> 'w node \<Rightarrow> bool" where
  "took s ps s' \<longleftrightarrow> (\<exists>a. same (s\<lparr>nd_ports := a\<rparr>) s' \<and> alloc_ok a \<and> pa_range a = pa_range (nd_ports s) \<and> distinct ps
     \<and> set ps \<inter> pa_held (nd_ports s) = {} \<and> pa_held a = pa_held (nd_ports s) \<union> set ps)"

definition grants :: "'w node \<Rightarrow> server_spec \<Rightarrow> instance_status \<Rightarrow> 'w node \<Rightarrow> bool" where
  "grants s spec st s' \<longleftrightarrow> is_instance_id st = ss_instance_id spec \<and> tget (nd_specs s') (ss_instance_id spec) = Some spec
     \<and> distinct (map pr_host_port (is_ports st)) \<and> set (map pr_host_port (is_ports st)) \<inter> pa_held (nd_ports s) = {}
     \<and> pa_held (nd_ports s') = pa_held (nd_ports s) \<union> set (map pr_host_port (is_ports st)) \<and> alloc_ok (nd_ports s')"

definition create_post :: "'w node \<Rightarrow> server_spec \<Rightarrow> agent_error + instance_status \<Rightarrow> 'w node \<Rightarrow> bool" where
  "create_post s spec r s' = (case r of Inl e \<Rightarrow> books_kept s s' | Inr st \<Rightarrow> grants s spec st s')"

lemma books_kept_refl: "alloc_ok (nd_ports s) \<Longrightarrow> same s s' \<Longrightarrow> books_kept s s'"
  unfolding books_kept_def by (rule exI [of _ "nd_ports s"]) simp

lemma same_put_ports: "same s s' \<Longrightarrow> same (s\<lparr>nd_ports := a\<rparr>) (s'\<lparr>nd_ports := a\<rparr>)"
proof -
  assume "same s s'"
  then obtain g w where "s' = s\<lparr>nd_gateway := g, nd_world := w\<rparr>" unfolding same_def by blast
  then have "s'\<lparr>nd_ports := a\<rparr> = (s\<lparr>nd_ports := a\<rparr>)\<lparr>nd_gateway := g, nd_world := w\<rparr>" by simp
  then show ?thesis by auto
qed

lemma runs_take_ports:
  assumes "alloc_ok (nd_ports s0)"
  shows "runs (same s0) (take_ports False req) (\<lambda>r s. case r of Inl e \<Rightarrow> books_kept s0 s | Inr ps \<Rightarrow> length ps = length req \<and> took s0 ps s)"
  unfolding runs_def
proof (intro allI impI)
  fix s assume s: "same s0 s"
  have ports: "nd_ports s = nd_ports s0" using same_fields [OF s] by simp
  from assms show "case take_ports False req s of (r, s) \<Rightarrow> case r of Inl e \<Rightarrow> books_kept s0 s | Inr ps \<Rightarrow> length ps = length req \<and> took s0 ps s"
  proof (cases rule: acquire_cases [where slots = req])
    case (took ps a')
    then show ?thesis using ports same_put_ports [OF s, of a']
      by (auto simp: take_ports_def io_of_def io_ok_def took_def dest: list_all2_lengthD)
  next
    case (refused e a')
    then show ?thesis using ports same_put_ports [OF s, of a']
      by (auto simp: take_ports_def io_of_def io_err_def books_kept_def)
  qed
qed

lemma gives_back: "took s ps s' \<Longrightarrow> books_kept s (s'\<lparr>nd_ports := release_all ps (nd_ports s')\<rparr>)"
proof -
  assume "took s ps s'"
  then obtain a where a: "same (s\<lparr>nd_ports := a\<rparr>) s'" "alloc_ok a" "pa_range a = pa_range (nd_ports s)"
    "set ps \<inter> pa_held (nd_ports s) = {}" "pa_held a = pa_held (nd_ports s) \<union> set ps" unfolding took_def by blast
  have "nd_ports s' = a" using same_fields [OF a(1)] by simp
  then show ?thesis
    using same_put_ports [OF a(1), of "release_all ps a"] release_all_ok [OF a(2)] a(3-5) unfolding books_kept_def
    by (intro exI [of _ "release_all ps a"]) auto
qed

lemma runs_given: "(F \<Longrightarrow> runs P f Q) \<Longrightarrow> runs (\<lambda>s. F \<and> P s) f Q"
  by (auto simp: runs_def)

lemma plan_validates: "plan_and_check_on H c spec version s = (Inr plan, s') \<Longrightarrow> validate spec = Ok ()"
  by (cases "validate spec") (simp_all add: plan_and_check_on_def io_bind_def io_of_def io_err_def)

lemma published_ports: "length hs = length wanted \<Longrightarrow> map pr_host_port (map row_of (publish wanted hs)) = hs"
proof -
  have "map pp_host_port (publish wanted hs) = map snd (zip wanted hs)" by (simp add: publish_def case_prod_beta)
  then show "length hs = length wanted \<Longrightarrow> ?thesis" by (simp add: row_of_def comp_def)
qed

text \<open>From an accepted plan on.\<close>

lemma runs_placing:
  assumes ok: "alloc_ok (nd_ports s0)" and valid: "validate spec = Ok ()" and wanted: "wanted = ports_of profile"
  shows "runs (same s0)
    (io_bind (take_ports False (requested_ports spec wanted)) (\<lambda>host_ports.
     io_bind (io_try (on_docker (m (publish wanted host_ports)))) (\<lambda>started. case started of
         Inl e \<Rightarrow> io_bind (if False then io_ok () else give_back host_ports) (\<lambda>_. io_err e)
       | Inr cid \<Rightarrow> settle_in H c spec profile (publish wanted host_ports) cid)))
    (create_post s0 spec)"
proof (rule runs_bind)
  show "runs (same s0) (take_ports False (requested_ports spec wanted))
      (\<lambda>r s. case r of Inl e \<Rightarrow> create_post s0 spec (Inl e) s | Inr ps \<Rightarrow> length ps = length wanted \<and> took s0 ps s)"
    by (rule runs_mono [OF runs_take_ports [OF ok]]) (auto simp: create_post_def requested_ports_def split: sum.splits)
  fix ps
  show "runs (\<lambda>s. length ps = length wanted \<and> took s0 ps s)
     (io_bind (io_try (on_docker (m (publish wanted ps)))) (\<lambda>started. case started of
         Inl e \<Rightarrow> io_bind (if False then io_ok () else give_back ps) (\<lambda>_. io_err e)
       | Inr cid \<Rightarrow> settle_in H c spec profile (publish wanted ps) cid)) (create_post s0 spec)"
  proof (rule runs_given)
    assume l: "length ps = length wanted"
    note hosts = published_ports [OF l]
    have kept: "took s0 ps s'" if "took s0 ps s" "same s s'" for s s'
      using that unfolding took_def by (blast intro: same_trans)
    show "runs (took s0 ps) (io_bind (io_try (on_docker (m (publish wanted ps)))) (\<lambda>started. case started of
         Inl e \<Rightarrow> io_bind (if False then io_ok () else give_back ps) (\<lambda>_. io_err e)
       | Inr cid \<Rightarrow> settle_in H c spec profile (publish wanted ps) cid)) (create_post s0 spec)"
    proof (rule runs_bind [where R = "\<lambda>_. took s0 ps"])
      show "runs (took s0 ps) (io_try (on_docker (m (publish wanted ps))))
          (\<lambda>r s. case r of Inl e \<Rightarrow> create_post s0 spec (Inl e) s | Inr a \<Rightarrow> took s0 ps s)"
        by (rule runs_quiet) (auto intro!: agent_quiet intro: kept simp: io_try_def split: sum.split prod.splits)
      fix started :: "agent_error + str"
      show "runs (took s0 ps) (case started of
           Inl e \<Rightarrow> io_bind (if False then io_ok () else give_back ps) (\<lambda>_. io_err e)
         | Inr cid \<Rightarrow> settle_in H c spec profile (publish wanted ps) cid) (create_post s0 spec)"
      proof (cases started)
        case (Inl e)
        then show ?thesis
          using gives_back by (auto simp: runs_def give_back_def change_def io_bind_def io_err_def create_post_def)
      next
        case (Inr cid)
        have "runs (\<lambda>s. nd_ports s = nd_ports s1) (settle_in H c spec profile (publish wanted ps) cid) (create_post s0 spec)"
          if took: "took s0 ps s1" for s1
        proof (rule runs_mono [OF runs_settle_in [OF valid]])
          obtain a where a: "same (s0\<lparr>nd_ports := a\<rparr>) s1" "alloc_ok a" "distinct ps" "set ps \<inter> pa_held (nd_ports s0) = {}"
            "pa_held a = pa_held (nd_ports s0) \<union> set ps" using took unfolding took_def by blast
          have "nd_ports s1 = a" using same_fields [OF a(1)] by simp
          then show "create_post s0 spec r s" if "nd_ports s = nd_ports s1 \<and> tget (nd_specs s) (ss_instance_id spec) = Some spec
              \<and> (\<exists>st. r = Inr st \<and> settled_as spec (publish wanted ps) cid st)" for r s
            using that a(2-5) hosts by (auto simp: create_post_def grants_def settled_as_def created_status_def)
        qed simp
        then show ?thesis using Inr by (auto simp: runs_def)
      qed
    qed
  qed
qed

lemma runs_create:
  assumes ok: "alloc_ok (nd_ports s0)"
  shows "runs (\<lambda>s. s = s0) (create H c spec) (\<lambda>r s'. create_post s0 spec r s' \<and> (\<forall>st. r = Inr st \<longrightarrow>
     (\<exists>existing. fst (docker_list H s0) = Inr existing \<and> ss_instance_id spec \<notin> mg_instance_id ` set existing
        \<and> length existing < ac_max_instances c)))"
proof -
  have refused: "create_post s0 spec (Inl e) s" if "same s0 s" for e s
    using books_kept_refl [OF ok that] by (simp add: create_post_def)
  note step = runs_bind_quiet [where P = "same s0"]
  have rest: "runs (same s0) (io_bind (plan_and_check_on H c spec None) (\<lambda>plan.
       io_bind (look (\<lambda>s. resource_check H c (ss_game_id spec) (so_memory (ss_options spec)) (so_cpus (ss_options spec)) (nd_world s))) (\<lambda>verdict.
       if rv_level verdict = Refuse then io_err (DoesNotFit (rv_messages verdict))
       else
         io_bind (make_dirs H (pl_host_dirs plan)) (\<lambda>_.
         io_bind (need (runtime_for c (ss_game_id spec)) (NoRuntime (ss_game_id spec))) (\<lambda>runtime.
         io_bind (look nd_packs) (\<lambda>packs.
         io_bind (need (tget packs (ss_game_id spec)) (NoPack (ss_game_id spec))) (\<lambda>pack.
         io_bind (io_of BadPack (to_profile pack)) (\<lambda>profile.
         io_bind (take_ports False (requested_ports spec (ports_of profile))) (\<lambda>host_ports.
         io_bind (io_try (on_docker (create_and_start (hs_docker H) spec runtime (pl_mounts plan) (publish (ports_of profile) host_ports)))) (\<lambda>started.
         case started of
           Inl e \<Rightarrow> io_bind (if False then io_ok () else give_back host_ports) (\<lambda>_. io_err e)
         | Inr cid \<Rightarrow> settle_in H c spec profile (publish (ports_of profile) host_ports) cid)))))))))) (create_post s0 spec)"
    (is "runs _ (io_bind ?plan ?go) _" is "runs _ ?rest _")
  proof (rule runs_bind [where R = "\<lambda>plan s. validate spec = Ok () \<and> same s0 s"])
    show "runs (same s0) ?plan (\<lambda>r s. case r of Inl e \<Rightarrow> create_post s0 spec (Inl e) s | Inr plan \<Rightarrow> validate spec = Ok () \<and> same s0 s)"
      by (rule runs_quiet [OF quiet_plan]) (auto split: sum.split intro: refused same_trans plan_validates)
    show "runs (\<lambda>s. validate spec = Ok () \<and> same s0 s) (?go plan) (create_post s0 spec)" for plan
      by (rule runs_given)
        (rule runs_placing [OF ok _ refl] | assumption | rule step | rule runs_if | fastforce intro!: agent_quiet runs_leaf intro: same_trans refused)+
  qed
  have free: "create_post s0 spec r s' \<and> (\<forall>st. r = Inr st \<longrightarrow> (\<exists>existing. fst (docker_list H s0) = Inr existing
       \<and> ss_instance_id spec \<notin> mg_instance_id ` set existing \<and> length existing < ac_max_instances c))"
    if "create H c spec s0 = (r, s')" for r s'
  proof -
    obtain l s1 where l: "docker_list H s0 = (l, s1)" by (cases "docker_list H s0")
    have s1: "same s0 s1" by (rule quietD [OF quiet_reads(1) l])
    show ?thesis
    proof (cases l)
      case (Inl e)
      then show ?thesis using that l refused [OF s1] by (auto simp: create_def create_on_def io_bind_def)
    next
      case (Inr existing)
      show ?thesis
      proof (cases "ss_instance_id spec \<notin> mg_instance_id ` set existing \<and> length existing < ac_max_instances c")
        case True
        then have "create H c spec s0 = ?rest s1"
          using l Inr by (subst create_def, subst create_on_def, subst io_bind_def) (auto simp: image_iff)
        with runsD [OF rest s1] that True l Inr show ?thesis by auto
      next
        case False
        then show ?thesis using that l Inr refused [OF s1]
          by (auto simp: create_def create_on_def io_bind_def io_err_def split: if_splits)
      qed
    qed
  qed
  then show ?thesis by (cases "create H c spec s0") (simp add: runs_def)
qed

section \<open>Moving\<close>

text \<open>With at least as many servers as the node may hold, nothing is created, whatever was freed for it.\<close>

lemma create_on_full:
  assumes "fst (docker_list H s) = Inr cs" "ac_max_instances c \<le> length cs"
  shows "\<exists>e s'. create_on H c spec version ports_held s = (Inl e, s') \<and> same s s'"
proof -
  obtain s1 where l: "docker_list H s = (Inr cs, s1)" using assms(1) by (cases "docker_list H s") auto
  then show ?thesis using quietD [OF quiet_reads(1) l] assms(2) by (auto simp: create_on_def io_bind_def io_err_def)
qed

lemma try_split: "io_bind (io_try f) g s = (case f s of (r, s') \<Rightarrow> g r s')"
  by (simp add: io_bind_def io_try_def split: prod.split)

lemma ignoring_split: "io_bind (ignoring f) (\<lambda>_. g) s = g (snd (f s))"
  by (cases "f s") (simp add: ignoring_def io_bind_def io_try_def io_ok_def)

lemma mesh_stop_split: "io_bind (mesh_stop H i) (\<lambda>_. g) s = g (snd (mesh_stop H i s))"
  by (simp add: mesh_stop_def in_world_def io_bind_def)

lemma change_split: "io_bind (change f) g s = g () (f s)"
  by (simp add: change_def io_bind_def)

lemma pinned_lost:
  assumes full: "\<And>s :: 'w node. \<exists>cs. fst (docker_list H s) = Inr cs \<and> ac_max_instances c \<le> length cs"
    and gone: "\<And>s :: 'w node. fst (on_docker (rt_remove (hs_docker H) i) s) = Inr ()"
  shows "\<exists>s'. move_pinned H c t i game old new spec None s = (Inl Lost, s')
    \<and> tget (nd_move_log s') i = Some \<lparr>mr_game_id = game, mr_from = old, mr_to = new, mr_state = Failed True\<rparr>
    \<and> nd_ports s' = release_all (spec_ports spec) (nd_ports s)"
proof -
  define s1 where "s1 = snd (log_move i game old new Moving s)"
  define s2 where "s2 = snd (mesh_stop H i s1)"
  define s3 where "s3 = snd (on_docker (rt_stop (hs_docker H) i) s2)"
  obtain s4 where removed: "on_docker (rt_remove (hs_docker H) i) s3 = (Inr (), s4)"
    using gone [of s3] by (cases "on_docker (rt_remove (hs_docker H) i) s3") auto
  obtain e s5 where made: "create_on H c spec (Some new) True s4 = (Inl e, s5)" "same s4 s5"
    using full [of s4] create_on_full by blast
  define s6 where "s6 = snd (mesh_stop H i s5)"
  define s7 where "s7 = snd (on_docker (rt_remove (hs_docker H) i) s6)"
  obtain e' s8 where backed: "create_on H c spec (Some old) True s7 = (Inl e', s8)" "same s7 s8"
    using full [of s7] create_on_full by blast
  have unseen: "same s (snd (f s))" if "quiet_op f" for f :: "('w, 'x) agent" and s using that by (simp add: quiet_op_def)
  have "same s1 s8"
    using unseen [OF quiet_reads(6) [of H i], of s1] unseen [OF quiet_calls(1) [of "rt_stop (hs_docker H) i"], of s2]
      quietD [OF quiet_calls(1) removed] made(2) unseen [OF quiet_reads(6) [of H i], of s5]
      unseen [OF quiet_calls(1) [of "rt_remove (hs_docker H) i"], of s6] backed(2)
    unfolding s2_def [symmetric] s3_def [symmetric] s6_def [symmetric] s7_def [symmetric] by (meson same_trans)
  then have ports: "nd_ports s8 = nd_ports s" using same_fields [of s1 s8] by (simp add: s1_def log_move_def change_def)
  let ?s = "s\<lparr>nd_move_log := tput i \<lparr>mr_game_id = game, mr_from = old, mr_to = new, mr_state = Moving\<rparr> (nd_move_log s)\<rparr>"
  have "on_docker (rt_remove (hs_docker H) i) (snd (on_docker (rt_stop (hs_docker H) i) (snd (mesh_stop H i ?s)))) = (Inr (), s4)"
    using removed by (simp add: s3_def s2_def s1_def log_move_def change_def)
  then have "move_pinned H c t i game old new spec None s = put_back H c i game old new spec s5"
    unfolding move_pinned_def log_move_def
    by (simp add: change_split mesh_stop_split ignoring_split try_split made io_bind_def [where f = "io_ok _"] io_ok_def)
  moreover have "put_back H c i game old new spec s5 = (Inl Lost, s8\<lparr>nd_ports := release_all (spec_ports spec) (nd_ports s8),
      nd_move_log := tput i \<lparr>mr_game_id = game, mr_from = old, mr_to = new, mr_state = Failed True\<rparr> (nd_move_log s8)\<rparr>)"
    unfolding put_back_def give_back_def log_move_def
    by (simp add: change_split mesh_stop_split ignoring_split try_split backed [unfolded s7_def s6_def] io_err_def)
  ultimately show ?thesis using ports by (simp add: tbl.get_put)
qed

section \<open>Crashes\<close>

lemma judge_due:
  assumes "judge_exit wanted now x e w = ((crashed, due), w')"
  shows "crashed \<Longrightarrow> is_crash e \<and> cw_seeded w \<and> mg_instance_id x \<notin> cw_stopped_here w" "due \<Longrightarrow> crashed \<and> wanted"
    "cw_stopped_here w' = cw_stopped_here w" "cw_seeded w' = cw_seeded w"
  using assms by (auto simp: judge_exit_def Let_def recent_def split: if_splits)

text \<open>What tells one exit of a container from the next: when it ended.\<close>

definition exit_key :: "last_exit \<Rightarrow> str" where
  "exit_key e = (case le_finished_at e of None \<Rightarrow> [] | Some t \<Rightarrow> t)"

definition seen_exit :: "'w node \<Rightarrow> str \<Rightarrow> str option" where
  "seen_exit s i = tget (cw_seen (nd_watch s)) i"

lemma judge_seen:
  assumes "judge_exit wanted now x e w = ((crashed, due), w')"
  shows "crashed \<Longrightarrow> tget (cw_seen w) (mg_instance_id x) \<noteq> Some (exit_key e)"
    "tget (cw_seen w') i = (if i = mg_instance_id x then Some (exit_key e) else tget (cw_seen w) i)"
  using assms by (auto simp: judge_exit_def exit_key_def recent_def Let_def tbl.get_put split: if_splits)

text \<open>Docker answers this exit for the container, whenever it is asked.\<close>

definition answers_exit :: "'w host \<Rightarrow> str \<Rightarrow> last_exit \<Rightarrow> bool" where
  "answers_exit H cid e \<longleftrightarrow> (\<forall>s :: 'w node. fst (on_docker (last_exit_of (hs_docker H) cid) s) = Inr (Some e))"

lemma look_split: "io_bind (look h) g s = g (h s) s"
  by (simp add: io_bind_def look_def)

lemma bind_eval: "f s = (Inr a, s1) \<Longrightarrow> io_bind f g s = g a s1"
  by (simp add: io_bind_def)

lemma look_for_crashes_step:
  assumes "look_for_crashes H c (x # xs) s = (Inr (crashed, due), s')"
  obtains s1 c1 d1 c2 d2 where "look_for_crashes H c xs s1 = (Inr (c2, d2), s')"
    "cw_stopped_here (nd_watch s1) = cw_stopped_here (nd_watch s)" "cw_seeded (nd_watch s1) = cw_seeded (nd_watch s)"
    "crashed = c1 @ c2" "due = d1 @ d2"
    "\<And>i. i \<in> set d1 \<Longrightarrow> mg_instance_id x = i \<and> (\<exists>w. restart_on_crash H c i w) \<and> (\<exists>(v, e)\<in>set c1. sv_instance_id v = i)"
    "\<And>v e. (v, e) \<in> set c1 \<Longrightarrow> sv_instance_id v \<notin> cw_stopped_here (nd_watch s) \<and> is_crash e \<and> cw_seeded (nd_watch s)"
    "\<And>v e. (v, e) \<in> set c1 \<Longrightarrow> sv_instance_id v = mg_instance_id x \<and> seen_exit s (mg_instance_id x) \<noteq> Some (exit_key e)"
    "\<And>i. i \<noteq> mg_instance_id x \<Longrightarrow> seen_exit s1 i = seen_exit s i" "nd_moving s1 = nd_moving s"
    "\<And>e. answers_exit H (mg_container_id x) e \<Longrightarrow> \<not> is_moving s (mg_instance_id x) \<Longrightarrow>
       seen_exit s1 (mg_instance_id x) = Some (exit_key e)"
proof -
  let ?ask = "(if is_moving s (mg_instance_id x) then io_ok (Inr None)
    else io_try (on_docker (last_exit_of (hs_docker H) (mg_container_id x)))) :: ('a, agent_error + last_exit option) agent"
  obtain r s1 where ask: "?ask s = (Inr r, s1)"
    by (cases "is_moving s (mg_instance_id x)"; cases "on_docker (last_exit_of (hs_docker H) (mg_container_id x)) s")
      (auto simp: io_ok_def io_try_def)
  have "quiet_op ?ask" by (intro agent_quiet)
  then have "same s s1" using ask by (rule quietD)
  then have watch: "nd_watch s1 = nd_watch s" and moving: "nd_moving s1 = nd_moving s" using same_fields by blast+
  have answered: "r = Inr (Some e)" if "answers_exit H (mg_container_id x) e" "\<not> is_moving s (mg_instance_id x)" for e
  proof -
    obtain q s2 where q: "on_docker (last_exit_of (hs_docker H) (mg_container_id x)) s = (q, s2)" by fastforce
    have "fst (on_docker (last_exit_of (hs_docker H) (mg_container_id x)) s) = Inr (Some e)"
      using that(1) by (simp add: answers_exit_def)
    with q that(2) ask show ?thesis by (cases q) (auto simp: io_try_def)
  qed
  let ?rest = "\<lambda>C D. io_bind (look_for_crashes H c xs) (\<lambda>(c', d'). io_ok (C @ c', D @ d'))"
  have later: "\<exists>c2 d2. look_for_crashes H c xs s2 = (Inr (c2, d2), s') \<and> crashed = C @ c2 \<and> due = D @ d2"
    if "?rest C D s2 = (Inr (crashed, due), s')" for C D s2
  proof -
    obtain q s3 where q: "look_for_crashes H c xs s2 = (q, s3)" by (cases "look_for_crashes H c xs s2")
    with that show ?thesis by (cases q) (auto simp: io_bind_def io_ok_def)
  qed
  show thesis
  proof (cases "\<exists>e. r = Inr (Some e)")
    case True
    then obtain e where r: "r = Inr (Some e)" by blast
    let ?now = "hs_clock H (nd_world s1)"
    obtain cr du w where j: "judge_exit (restart_on_crash H c (mg_instance_id x) (nd_world s1)) ?now x e (nd_watch s) = ((cr, du), w)"
      by (metis surj_pair)
    let ?C = "if cr then [(crash_event x, e)] else []" and ?D = "if du then [mg_instance_id x] else []"
    have eval: "look_for_crashes H c (x # xs) s = ?rest ?C ?D (s1\<lparr>nd_watch := w\<rparr>)"
      unfolding look_for_crashes.simps(2) look_split bind_eval [where f = ?ask, OF ask] r
      by (rule bind_eval [where a = "(?C, ?D)" and ?s1.0 = "s1\<lparr>nd_watch := w\<rparr>", THEN trans], simp add: watch j)
        (simp only: split_conv)
    obtain c2 d2 where "look_for_crashes H c xs (s1\<lparr>nd_watch := w\<rparr>) = (Inr (c2, d2), s')" "crashed = ?C @ c2" "due = ?D @ d2"
      using later [OF eval [symmetric, THEN trans, OF assms]] by blast
    moreover have "mg_instance_id x = i \<and> (\<exists>w. restart_on_crash H c i w) \<and> (\<exists>(v, e)\<in>set ?C. sv_instance_id v = i)" if "i \<in> set ?D" for i
    proof -
      have "du" "mg_instance_id x = i" using that by (auto split: if_splits)
      then show ?thesis using judge_due(2) [OF j] by (auto simp: crash_event_def)
    qed
    moreover have "sv_instance_id v \<notin> cw_stopped_here (nd_watch s) \<and> is_crash e' \<and> cw_seeded (nd_watch s)" if "(v, e') \<in> set ?C" for v e'
      using that judge_due(1) [OF j] by (simp add: crash_event_def split: if_splits)
    moreover have "sv_instance_id v = mg_instance_id x \<and> seen_exit s (mg_instance_id x) \<noteq> Some (exit_key e')" if "(v, e') \<in> set ?C" for v e'
      using that judge_seen(1) [OF j] by (simp add: crash_event_def seen_exit_def split: if_splits)
    moreover have "seen_exit (s1\<lparr>nd_watch := w\<rparr>) i = (if i = mg_instance_id x then Some (exit_key e) else seen_exit s i)" for i
      using judge_seen(2) [OF j] by (simp add: seen_exit_def)
    moreover have "e' = e" if "answers_exit H (mg_container_id x) e'" "\<not> is_moving s (mg_instance_id x)" for e'
      using answered [OF that] r by simp
    ultimately show thesis
      using judge_due(3,4) [OF j] moving by (intro that [of "s1\<lparr>nd_watch := w\<rparr>" c2 d2 ?C ?D]) (simp_all add: watch)
  next
    case False
    then have eval: "look_for_crashes H c (x # xs) s = ?rest [] [] s1"
      unfolding look_for_crashes.simps(2) look_split bind_eval [where f = ?ask, OF ask]
      by (subst bind_eval [where a = "([], [])" and ?s1.0 = s1]) (auto simp: io_ok_def split: sum.split option.split)
    obtain c2 d2 where "look_for_crashes H c xs s1 = (Inr (c2, d2), s')" "crashed = [] @ c2" "due = [] @ d2"
      using later [OF eval [symmetric, THEN trans, OF assms]] by blast
    then show thesis using watch moving answered False by (intro that [of s1 c2 d2 "[]" "[]"]) (auto simp: seen_exit_def)
  qed
qed

lemma look_for_crashes_asked:
  assumes "look_for_crashes H c xs s = (Inr (crashed, due), s')"
  shows "(\<forall>i\<in>set due. (\<exists>x\<in>set xs. mg_instance_id x = i) \<and> (\<exists>w. restart_on_crash H c i w) \<and> (\<exists>(v, e)\<in>set crashed. sv_instance_id v = i))
    \<and> (\<forall>(v, e)\<in>set crashed. sv_instance_id v \<notin> cw_stopped_here (nd_watch s) \<and> is_crash e \<and> cw_seeded (nd_watch s))"
  using assms
proof (induction xs arbitrary: s s' crashed due)
  case (Cons x xs)
  from Cons.prems show ?case
  proof (cases rule: look_for_crashes_step)
    case (1 s1 c1 d1 c2 d2)
    from Cons.IH [OF 1(1)] 1(2-7) show ?thesis by fastforce
  qed
qed (simp add: io_ok_def)

text \<open>What the pass reports it had not seen, and what it looked at it has seen.\<close>

lemma look_for_crashes_seen:
  assumes "look_for_crashes H c xs s = (Inr (crashed, due), s')"
  shows "(\<forall>i. i \<notin> mg_instance_id ` set xs \<longrightarrow> seen_exit s' i = seen_exit s i)
    \<and> (distinct (map mg_instance_id xs) \<longrightarrow>
         (\<forall>(v, e)\<in>set crashed. sv_instance_id v \<in> mg_instance_id ` set xs \<and> seen_exit s (sv_instance_id v) \<noteq> Some (exit_key e))
         \<and> (\<forall>x\<in>set xs. \<forall>e. answers_exit H (mg_container_id x) e \<and> \<not> is_moving s (mg_instance_id x)
              \<longrightarrow> seen_exit s' (mg_instance_id x) = Some (exit_key e)))"
  using assms
proof (induction xs arbitrary: s s' crashed due)
  case (Cons x xs)
  from Cons.prems show ?case
  proof (cases rule: look_for_crashes_step)
    case (1 s1 c1 d1 c2 d2)
    note ih = Cons.IH [OF 1(1)]
    have unseen: "seen_exit s' i = seen_exit s i" if "i \<notin> mg_instance_id ` set (x # xs)" for i
      using ih 1(9) [of i] that by simp
    have reported: "sv_instance_id v \<in> mg_instance_id ` set (x # xs) \<and> seen_exit s (sv_instance_id v) \<noteq> Some (exit_key e)"
      if "(v, e) \<in> set crashed" "distinct (map mg_instance_id (x # xs))" for v e
    proof (cases "(v, e) \<in> set c1")
      case True
      with 1(8) show ?thesis by auto
    next
      case False
      with that(1) 1(4) have "(v, e) \<in> set c2" by simp
      with ih that(2) have "sv_instance_id v \<in> mg_instance_id ` set xs" "seen_exit s1 (sv_instance_id v) \<noteq> Some (exit_key e)" by auto
      moreover from this(1) that(2) have "sv_instance_id v \<noteq> mg_instance_id x" by auto
      ultimately show ?thesis using 1(9) by auto
    qed
    have noted: "seen_exit s' (mg_instance_id y) = Some (exit_key e)"
      if "y \<in> set (x # xs)" "answers_exit H (mg_container_id y) e" "\<not> is_moving s (mg_instance_id y)"
        "distinct (map mg_instance_id (x # xs))" for y e
    proof (cases "y = x")
      case True
      have "seen_exit s' (mg_instance_id x) = seen_exit s1 (mg_instance_id x)" using ih that(4) by auto
      with True 1(11) that(2,3) show ?thesis by simp
    next
      case False
      then have "y \<in> set xs" using that(1) by simp
      with ih that(2-4) 1(10) show ?thesis by (simp add: is_moving_def)
    qed
    show ?thesis using unseen reported noted by blast
  qed
qed (simp add: io_ok_def)

text \<open>What may happen to the crash watch.\<close>

datatype watch_op = Ended bool time managed_container last_exit | Stops "str set \<Rightarrow> str set" | Seeds

fun watch_step :: "watch_op \<Rightarrow> crash_watch \<Rightarrow> (str \<times> time) list \<times> crash_watch" where
  "watch_step (Ended wanted now x e) w =
     (case judge_exit wanted now x e w of ((_, due), w') \<Rightarrow> (if due then [(mg_instance_id x, now)] else [], w'))"
| "watch_step (Stops f) w = ([], w\<lparr>cw_stopped_here := f (cw_stopped_here w)\<rparr>)"
| "watch_step Seeds w = ([], w\<lparr>cw_seeded := True\<rparr>)"

fun restarts_of :: "watch_op list \<Rightarrow> crash_watch \<Rightarrow> (str \<times> time) list" where
  "restarts_of [] w = []"
| "restarts_of (p # ps) w = (case watch_step p w of (here, w') \<Rightarrow> here @ restarts_of ps w')"

fun op_times :: "watch_op list \<Rightarrow> time list" where
  "op_times [] = []"
| "op_times (Ended wanted now x e # ps) = now # op_times ps"
| "op_times (_ # ps) = op_times ps"

definition of_server :: "str \<Rightarrow> (str \<times> time) list \<Rightarrow> time list" where
  "of_server i rs = map snd (filter (\<lambda>r. fst r = i) rs)"

definition within_hour :: "time \<Rightarrow> time list \<Rightarrow> time list" where
  "within_hour t ts = filter (\<lambda>u. u \<le> t \<and> t - u < HOUR) ts"

definition kept_times :: "str \<Rightarrow> crash_watch \<Rightarrow> time list" where
  "kept_times i w = (case tget (cw_restarts w) i of None \<Rightarrow> [] | Some ts \<Rightarrow> ts)"

text \<open>The times kept are those that still count, now and later.\<close>

definition counted :: "str \<Rightarrow> time list \<Rightarrow> crash_watch \<Rightarrow> time \<Rightarrow> bool" where
  "counted i hist w latest \<longleftrightarrow> (\<forall>n\<ge>latest. recent_list n (kept_times i w) = recent_list n hist)
     \<and> (\<forall>u\<in>set hist. u \<le> latest) \<and> (\<forall>t. length (within_hour t hist) \<le> MAX_CRASH_RESTARTS_PER_HOUR)"

lemma recent_twice: "now \<le> n \<Longrightarrow> recent_list n (recent_list now ts) = recent_list n ts"
  by (auto simp: recent_list_def intro!: filter_cong)

lemma judge_times:
  assumes "judge_exit wanted now x e w = ((crashed, due), w')"
  shows "mg_instance_id x \<noteq> i \<Longrightarrow> kept_times i w' = kept_times i w"
    "due \<Longrightarrow> kept_times (mg_instance_id x) w' = recent_list now (kept_times (mg_instance_id x) w) @ [now]
       \<and> length (recent_list now (kept_times (mg_instance_id x) w)) < MAX_CRASH_RESTARTS_PER_HOUR"
    "\<not> due \<Longrightarrow> kept_times (mg_instance_id x) w' \<in> {kept_times (mg_instance_id x) w, recent_list now (kept_times (mg_instance_id x) w)}"
  using assms
  by (auto simp: judge_exit_def Let_def recent_def kept_times_def tbl.get_put split: if_splits option.splits)

lemma watch_counted:
  assumes "counted i hist w latest" "watch_step p w = (here, w')" "\<forall>t\<in>set (op_times [p]). latest \<le> t"
  shows "counted i (hist @ of_server i here) w' (Max (set (latest # op_times [p])))"
proof (cases p)
  case (Ended wanted now x e)
  obtain crashed due where j: "judge_exit wanted now x e w = ((crashed, due), w')" and here: "here = (if due then [(mg_instance_id x, now)] else [])"
    using assms(2) Ended by (auto split: prod.splits)
  have later: "latest \<le> now" using assms(3) Ended by simp
  note old = assms(1) [unfolded counted_def]
  show ?thesis
  proof (cases "mg_instance_id x = i \<and> due")
    case True
    note new = judge_times(2) [OF j]
    have few: "length (recent_list now hist) < MAX_CRASH_RESTARTS_PER_HOUR" using new True old later by auto
    have "length (within_hour t (hist @ [now])) \<le> MAX_CRASH_RESTARTS_PER_HOUR" for t
    proof (cases "now \<le> t")
      case True
      have "length (within_hour t hist) \<le> length (recent_list now hist)"
        using True unfolding within_hour_def recent_list_def by (induction hist) auto
      then show ?thesis using few by (simp add: within_hour_def)
    qed (use old in \<open>simp add: within_hour_def\<close>)
    moreover have "recent_list n (kept_times i w') = recent_list n (hist @ [now])" if "n \<ge> now" for n
      using True new old later that recent_twice [OF that] by (simp add: recent_list_def [of n "_ @ _"]) (simp add: recent_list_def)
    ultimately show ?thesis using True here Ended old later by (auto simp: counted_def of_server_def)
  next
    case False
    have "of_server i here = []" using False here by (auto simp: of_server_def)
    moreover have "recent_list n (kept_times i w') = recent_list n hist" if "n \<ge> now" for n
      using judge_times(1) [OF j, of i] judge_times(3) [OF j] False old later that recent_twice [OF that] by (cases "mg_instance_id x = i") fastforce+
    ultimately show ?thesis using Ended old later by (fastforce simp: counted_def)
  qed
qed (use assms in \<open>auto simp: counted_def of_server_def kept_times_def\<close>)

lemma run_counted:
  assumes "counted i hist w latest" "sorted (latest # op_times ps)"
  shows "length (within_hour t (hist @ of_server i (restarts_of ps w))) \<le> MAX_CRASH_RESTARTS_PER_HOUR"
  using assms
proof (induction ps arbitrary: hist w latest)
  case (Cons p ps)
  obtain here w' where step: "watch_step p w = (here, w')" by (cases "watch_step p w")
  have t: "op_times (p # ps) = op_times [p] @ op_times ps" by (cases p) auto
  have after: "counted i (hist @ of_server i here) w' (Max (set (latest # op_times [p])))"
    using watch_counted [OF Cons.prems(1) step] Cons.prems(2) t by auto
  have "sorted (Max (set (latest # op_times [p])) # op_times ps)" using Cons.prems(2) t by (cases p) auto
  from Cons.IH [OF after this] show ?case using step by (simp add: of_server_def)
qed (auto simp: counted_def of_server_def)

section \<open>A small node\<close>

text \<open>A server on an old copy of its game beside another one, on a node that may hold one.\<close>

definition demo_labels :: "str \<Rightarrow> (str, str) table" where
  "demo_labels i = tput PORTS_LABEL (encode_ports_label sample_ports) (tput GAME_LABEL [103] (tput INSTANCE_LABEL i (tput MANAGED_LABEL [49] [])))"

definition demo_summary :: "str \<Rightarrow> container_summary" where
  "demo_summary i = \<lparr>cs_id = Some i, cs_labels = demo_labels i, cs_state = Some (ascii ''running''), cs_public_ports = [],
     cs_created = None, cs_ips = [], cs_mounts = [Some (ascii ''/d/content/g/0'')]\<rparr>"

definition demo_info :: container_info where
  "demo_info = \<lparr>ci_config = Some \<lparr>ic_labels = demo_labels [105], ic_env = [ascii ''GPP_SERVER_NAME=N'', ascii ''GPP_MAX_PLAYERS=8''],
     ic_open_stdin = True\<rparr>,
     ci_state = Some \<lparr>st_running = Some False, st_restarting = None, st_exit_code = Some 1, st_oom_killed = None,
       st_finished_at = Some (ascii ''2026''), st_error = None\<rparr>\<rparr>"

definition demo_daemon :: "bool daemon" where
  "demo_daemon =
     \<lparr>dk_list = \<lambda>_ w. (Inr ((if w then [demo_summary [105]] else []) @ [demo_summary [106]]), w), dk_list_named = \<lambda>_ w. (Inr [], w),
      dk_inspect = \<lambda>_ w. (Inr demo_info, w), dk_create = \<lambda>_ _ w. (Inr [], True), dk_start = \<lambda>_ w. (Inr (), w), dk_stop = \<lambda>_ w. (Inr (), w),
      dk_restart = \<lambda>_ w. (Inr (), w), dk_remove = \<lambda>_ w. (Inr (), False), dk_attach = \<lambda>_ _ w. (Inr (), w), dk_logs = \<lambda>_ _ w. (Inr [], w),
      dk_output = \<lambda>_ _ w. ([], w), dk_wait = \<lambda>_ w. (Inr 0, w), dk_network = \<lambda>w. (Inl NotFound, w), dk_create_network = \<lambda>w. (Inr (), w)\<rparr>"

definition demo_host :: "bool host" where
  "demo_host =
     \<lparr>hs_docker = demo_daemon, hs_is_dir = \<lambda>_ _. True, hs_is_file = \<lambda>_ _. True, hs_make_dir = \<lambda>_ w. (True, w), hs_touch = \<lambda>_ w. (True, w),
      hs_delete = \<lambda>_ w. (True, w), hs_rename = \<lambda>_ _ w. (True, w), hs_remove_tree = \<lambda>_ w. (True, w), hs_remove_empty = \<lambda>_ w. w,
      hs_seed = \<lambda>w. (None, w), hs_save_active = \<lambda>_ w. (True, w), hs_size = \<lambda>_ _. 0, hs_meminfo = \<lambda>_. None, hs_cpus = \<lambda>_. None,
      hs_clock = \<lambda>_. 0, hs_unix = \<lambda>_. None, hs_sleep = \<lambda>_ w. w, hs_bans = \<lambda>_ _. Inr [], hs_mesh_start = \<lambda>_ _ _ _ _ w. (Inr None, w),
      hs_mesh_stop = \<lambda>_ w. w\<rparr>"

definition demo_config :: agent_config where
  "demo_config = \<lparr>ac_max_instances = 1, ac_games = [([103], sample_runtime)], ac_data_root = sample_root\<rparr>"

definition demo_node :: "bool node" where
  "demo_node =
     \<lparr>nd_gateway = None, nd_ports = with_reserved \<lparr>pr_start = 2000, pr_end = 2010\<rparr> [2000, 2001], nd_packs = [([103], sample_pack)], nd_specs = [],
      nd_unrecalled = {}, nd_watch = \<lparr>cw_seeded = True, cw_seen = [], cw_stopped_here = {}, cw_restarts = []\<rparr>, nd_active = [], nd_moving = [],
      nd_move_log = [], nd_updates = no_update_checks, nd_installs = first_world, nd_tasks = [], nd_told = [], nd_world = True\<rparr>"

definition demo_container :: "str \<Rightarrow> managed_container" where
  "demo_container i = \<lparr>mg_instance_id = i, mg_container_id = i, mg_state = Running, mg_port = Some 2000, mg_ports = map row_of sample_ports,
     mg_owner = None, mg_game_id = Some [103], mg_ip = None, mg_created_unix = None, mg_mount_sources = [ascii ''/d/content/g/0'']\<rparr>"

definition demo_spec :: server_spec where
  "demo_spec = \<lparr>ss_instance_id = [105], ss_game_id = [103], ss_name = [78], ss_max_players = 8, ss_port = Some 2000,
     ss_extra_ports = [(1, 2001)], ss_bots = None, ss_map = None, ss_restart_on_crash = False, ss_owner = None, ss_options = plain_options\<rparr>"

lemma demo_labels_get:
  "tget (demo_labels i) INSTANCE_LABEL = Some i" "tget (demo_labels i) GAME_LABEL = Some [103]" "tget (demo_labels i) OWNER_LABEL = None"
  "tget (demo_labels i) PORTS_LABEL = Some (encode_ports_label sample_ports)" "thas (demo_labels i) MANAGED_LABEL"
  by (simp_all add: demo_labels_def thas_def tbl.get_put tbl.get_empty INSTANCE_LABEL_def GAME_LABEL_def OWNER_LABEL_def PORTS_LABEL_def
      MANAGED_LABEL_def ascii_eq_iff)

lemma demo_managed: "managed_of (demo_summary i) = Some (demo_container i)"
  by (simp add: managed_of_def demo_summary_def demo_labels_get decode_encode_ports demo_container_def sample_ports_def row_of_def Containers.CHANNEL_GAME_def
      listed_state_def ascii_eq_iff)

lemma demo_list: "docker_list demo_host s = (Inr ((if nd_world s then [demo_container [105]] else []) @ [demo_container [106]]), s)"
  by (simp add: docker_list_def on_docker_def demo_host_def demo_daemon_def list_managed_def ask_daemon_def raw_def io_bind_def io_ok_def
      demo_managed List.map_filter_simps)

lemma demo_env: "env_table [ascii ''GPP_SERVER_NAME=N'', ascii ''GPP_MAX_PLAYERS=8''] = [(ascii ''GPP_SERVER_NAME'', [78]), (ascii ''GPP_MAX_PLAYERS'', [56])]"
  by code_simp

lemma demo_spec_back: "on_docker (spec_of (hs_docker demo_host) [105]) s = (Inr demo_spec, s)"
proof -
  let ?env = "[(ascii ''GPP_SERVER_NAME'', [78]), (ascii ''GPP_MAX_PLAYERS'', [56])]"
  have eight: "parse_word [56] = Some (8 :: u8)" by code_simp
  have vars: "tget ?env (ascii k) = (if k = ''GPP_SERVER_NAME'' then Some [78] else if k = ''GPP_MAX_PLAYERS'' then Some [56] else None)" for k
    by (simp add: tget_def ascii_eq_iff)
  have "spec_from_parts [105] (demo_labels [105]) (env_table (ic_env (the (ci_config demo_info)))) = Inr demo_spec"
    by (simp add: spec_from_parts_def demo_labels_get demo_info_def demo_env decode_encode_ports sample_ports_def row_of_def Containers.CHANNEL_GAME_def
        vars parsed_var_def eight demo_spec_def options_from_env_def plain_options_def thas_def tput_def)
  then show ?thesis
    by (simp add: on_docker_def demo_host_def demo_daemon_def spec_of_def assert_managed_def ask_daemon_def raw_def io_bind_def io_ok_def io_here_def
      is_managed_def demo_info_def demo_labels_get Let_def)
qed

lemma demo_copy: "copy_of demo_config [103] (demo_container [105]) = Some [48]"
proof -
  have plain: "plan_id [103] = Ok ()" "plan_id (ascii ''probe'') = Ok ()" by code_simp+
  have "path_of (ascii ''/d/content/g/0'') = \<lparr>pt_absolute = True, pt_parts = [[100], ascii ''content'', [103], [48]]\<rparr>" by code_simp
  moreover have "join (join (join sample_root (ascii ''content'')) [103]) (ascii ''probe'')
      = \<lparr>pt_absolute = True, pt_parts = [[100], ascii ''content'', [103], ascii ''probe'']\<rparr>" by code_simp
  ultimately show ?thesis
    by (simp add: copy_of_def content_dir_def demo_config_def plain demo_container_def path_starts_with_def Let_def first_some_def
        List.map_filter_simps)
qed

lemma demo_valid: "validate demo_spec = Ok ()"
proof -
  have "validate_id [105] = Ok ()" "validate_server_name [78] = Ok ()" "str_trim [78] \<noteq> []" by code_simp+
  moreover have "check_options (ss_options demo_spec) = Ok ()" by (simp add: demo_spec_def plain_options_def check_options_def)
  ultimately show ?thesis by (simp add: validate_def demo_spec_def)
qed

definition demo_paths :: "str list" where
  "demo_paths = [[108]]"

lemma demo_plan: "\<exists>plan. plan_and_check_on demo_host demo_config demo_spec (Some [49]) s = (Inr plan, s)" if "nd_packs s = [([103], sample_pack)]"
proof -
  have ids: "plan_id [103] = Ok ()" "plan_id [49] = Ok ()" "plan_id [105] = Ok ()" by code_simp+
  have ws: "list_all (\<lambda>w. validate_writable_path w = Ok ()) demo_paths" by code_simp
  have parsed: "parse_paths demo_paths = Ok (map (split_all 47) demo_paths)" by code_simp
  have pairs: "check_pairs (map (split_all 47) demo_paths) = Ok ()" by code_simp
  have slots: "take_slots [] demo_paths = Ok (map slot_name demo_paths)" by code_simp
  have abs: "pt_absolute sample_root" "\<not> list_ex (\<lambda>p. 0 \<in> set p) (pt_parts sample_root)" by (simp_all add: sample_root_def)
  obtain plan where plan: "plan_instance sample_root [105] \<lparr>cn_game_id = [103], cn_version = [49]\<rparr> sample_root demo_paths = Ok plan"
    unfolding plan_instance_def content_dir_def by (simp add: ids parsed pairs slots writable_mounts_Ok [OF ws] abs Let_def)
  have runtime: "runtime_for demo_config [103] = Some sample_runtime" by (simp add: runtime_for_def demo_config_def tget_def)
  have spec: "ss_game_id demo_spec = [103]" "ss_instance_id demo_spec = [105]" by (simp_all add: demo_spec_def)
  have paths: "writable_paths_for demo_config [103] sample_pack = demo_paths"
    by (simp add: writable_paths_for_def runtime) (simp add: sample_pack_def sample_runtime_def demo_paths_def)
  have fits: "check_spec_against_pack demo_spec sample_pack = Ok ()"
    by (simp add: check_spec_against_pack_def sample_pack_def demo_spec_def plain_options_def)
  obtain dir where dir: "content_dir sample_root \<lparr>cn_game_id = [103], cn_version = [49]\<rparr> = Ok dir" by (simp add: content_dir_def ids)
  have "gr_content_root sample_runtime = sample_root" "ac_data_root demo_config = sample_root" "hs_is_dir demo_host p w" for p w
    by (simp_all add: sample_runtime_def demo_config_def demo_host_def)
  then have "plan_and_check_on demo_host demo_config demo_spec (Some [49]) s = (Inr plan, s)"
    using that unfolding plan_and_check_on_def
    by (simp add: io_bind_def io_of_def io_ok_def look_def need_def demo_valid spec runtime fits paths plan dir tget_def missing_content_dirs_def)
  then show ?thesis by blast
qed

lemma demo_profile: "to_profile sample_pack = Ok (profile_of sample_pack)" "None \<notin> set (requested_ports demo_spec (ports_of (profile_of sample_pack)))"
  using sample_pack_checked
  by (auto simp: check_pack_def and_then_eq_Ok to_profile_def map_err_def split: outcome.splits if_splits)
    (simp add: requested_ports_def ports_of_def profile_of_def sample_pack_def port_of_pack_def demo_spec_def tget_def Framing.CHANNEL_GAME_def)

lemma demo_moves: "plan_move demo_host demo_config [105] False demo_node = (Inr ([103], [48], [49], demo_spec, None), demo_node)"
proof -
  obtain plan where plan: "plan_and_check_on demo_host demo_config demo_spec (Some [49]) demo_node = (Inr plan, demo_node)"
    using demo_plan [of demo_node] by (auto simp: demo_node_def)
  have here: "find_container [105] [demo_container [105], demo_container [106]] = Some (demo_container [105])"
    by (simp add: find_container_def demo_container_def)
  have x: "mg_state (demo_container [105]) = Running" "mg_game_id (demo_container [105]) = Some [103]" by (simp_all add: demo_container_def)
  have active: "active_version demo_host demo_config demo_node [103] = Some [49]"
    by (simp add: active_version_def active_version_of_def active_in_def runtime_for_def demo_config_def tget_def demo_node_def sample_runtime_def)
  have node: "nd_world demo_node" "tget (nd_packs demo_node) [103] = Some sample_pack" by (simp_all add: demo_node_def tget_def)
  show ?thesis
    unfolding plan_move_def
    by (simp add: io_bind_def io_ok_def look_def need_def io_of_def demo_list node here x demo_copy active demo_spec_back plan demo_profile)
qed

lemma demo_exit: "io_try (on_docker (last_exit_of (hs_docker demo_host) cid)) s =
    (Inr (Inr (Some \<lparr>le_code = 1, le_oom_killed = False, le_finished_at = Some (ascii ''2026''), le_error = None\<rparr>)), s)"
proof -
  have "\<not> starts_with (ascii ''0001-'') (ascii ''2026'')" by code_simp
  then show ?thesis
    by (simp add: io_try_def on_docker_def last_exit_of_def ask_daemon_def raw_def io_bind_def io_ok_def demo_host_def demo_daemon_def demo_info_def exit_of_def)
qed

section \<open>Properties\<close>

text \<open>C5.
  Creating a server keeps the agent's books exactly. Whatever refuses it, from the list of containers to the start of the
  container itself, the agent is left knowing what it knew and holding the ports it held. When it succeeds, no server of that
  name ran, the node was below its limit, the spec is remembered, and the ports the answer names are ones that were free,
  each given once, and the only ones added to those held. Nothing after the container has started can make a create fail.
\<close>
theorem a_create_keeps_the_books:
  assumes "alloc_ok (nd_ports s)" "create H c spec s = (r, s')"
  shows "case r of
      Inl e \<Rightarrow> \<exists>a. same (s\<lparr>nd_ports := a\<rparr>) s' \<and> alloc_ok a \<and> pa_held a = pa_held (nd_ports s) \<and> pa_range a = pa_range (nd_ports s)
    | Inr st \<Rightarrow> grants s spec st s' \<and> (\<exists>existing. fst (docker_list H s) = Inr existing
        \<and> ss_instance_id spec \<notin> mg_instance_id ` set existing \<and> length existing < ac_max_instances c)"
  using runsD [OF runs_create [OF assms(1)] refl assms(2)] by (cases r) (simp_all add: create_post_def books_kept_def)

theorem a_create_keeps_the_books_witness:
  "\<exists>a s'. create demo_host demo_config demo_spec demo_node = (Inl (AlreadyExists [105]), s') \<and> same (demo_node\<lparr>nd_ports := a\<rparr>) s'
    \<and> pa_held a = pa_held (nd_ports demo_node)"
proof -
  have ok: "alloc_ok (nd_ports demo_node)" by (simp add: demo_node_def with_reserved_ok)
  have "create demo_host demo_config demo_spec demo_node = (Inl (AlreadyExists [105]), demo_node)"
    by (simp add: create_def create_on_def io_bind_def io_err_def demo_list demo_spec_def) (simp add: demo_node_def demo_container_def)
  from a_create_keeps_the_books [OF ok this] this show ?thesis by auto
qed

text \<open>C29.
  A move can lose the server it moves. The limit of servers a node may hold is only looked at when the container is made
  again, after the old one is gone: on a node that lists as many servers as its limit even without the one moved, as after its
  limit was lowered, and that does remove the old container, a move that passed every check beforehand stops and removes a running server and then can make neither copy again. The server is gone and
  its ports are given away.
\<close>
theorem a_move_can_lose_the_server:
  assumes "\<And>s :: 'w node. \<exists>cs. fst (docker_list H s) = Inr cs \<and> ac_max_instances c \<le> length cs"
    "\<And>s :: 'w node. fst (on_docker (rt_remove (hs_docker H) i) s) = Inr ()"
    "plan_move H c i False s = (Inr (game, old, new, spec, None), s1)"
  shows "\<exists>s'. move_instance H c t i False s = (Inl Lost, s')
    \<and> tget (nd_move_log s') i = Some \<lparr>mr_game_id = game, mr_from = old, mr_to = new, mr_state = Failed True\<rparr>
    \<and> nd_ports s' = release_all (spec_ports spec) (nd_ports s1)"
proof -
  let ?s = "s1\<lparr>nd_moving := tput i \<lparr>mf_game_id = game, mf_from = old, mf_to = new\<rparr> (nd_moving s1)\<rparr>"
  obtain s2 where "move_pinned H c t i game old new spec None ?s = (Inl Lost, s2)"
    "tget (nd_move_log s2) i = Some \<lparr>mr_game_id = game, mr_from = old, mr_to = new, mr_state = Failed True\<rparr>"
    "nd_ports s2 = release_all (spec_ports spec) (nd_ports s1)"
    using pinned_lost [OF assms(1,2), of t game old new spec ?s] by auto
  then show ?thesis
    by (auto simp: move_instance_def io_bind_def [where f = "plan_move _ _ _ _"] assms(3) change_split try_split io_bind_def [where f = "io_ok _"]
        io_ok_def io_here_def)
qed

theorem a_move_can_lose_the_server_witness:
  "\<exists>s'. move_instance demo_host demo_config default_timing [105] False demo_node = (Inl Lost, s') \<and> nd_ports s' = release_all [2000, 2001] (nd_ports demo_node)"
proof -
  have full: "\<exists>cs. fst (docker_list demo_host s) = Inr cs \<and> ac_max_instances demo_config \<le> length cs" for s
    by (simp add: demo_list demo_config_def)
  have gone: "fst (on_docker (rt_remove (hs_docker demo_host) [105]) s) = Inr ()" for s
    by (simp add: on_docker_def demo_host_def demo_daemon_def rt_remove_def assert_managed_def ask_daemon_def raw_def io_bind_def io_ok_def
        is_managed_def demo_info_def demo_labels_get Let_def)
  have "spec_ports demo_spec = [2000, 2001]" by (simp add: spec_ports_def demo_spec_def)
  with a_move_can_lose_the_server [OF full gone demo_moves, of default_timing] show ?thesis by auto
qed

text \<open>C26.
  However often a server crashes, and whatever else happens to the watch in between, it is put up again at most five times
  in any hour: over any run of ended containers, stops and starts, with a clock that does not go back.
\<close>
theorem five_restarts_an_hour:
  assumes "sorted (op_times ps)" "kept_times i w = []"
  shows "length (within_hour t (of_server i (restarts_of ps w))) \<le> MAX_CRASH_RESTARTS_PER_HOUR"
  using run_counted [of i "[]" w 0 ps t] assms
  by (simp add: counted_def within_hour_def recent_list_def)

definition crashed_at :: "nat \<Rightarrow> watch_op" where
  "crashed_at n = Ended True n (demo_container [105]) \<lparr>le_code = 1, le_oom_killed = False, le_finished_at = Some (replicate n 49), le_error = None\<rparr>"

theorem five_restarts_an_hour_witness:
  "length (within_hour 7 (of_server [105] (restarts_of (map crashed_at [1, 2, 3, 4, 5, 6, 7]) (nd_watch demo_node)))) \<le> 5"
  using five_restarts_an_hour [of "map crashed_at [1, 2, 3, 4, 5, 6, 7]" "[105]" "nd_watch demo_node" 7]
  by (simp add: crashed_at_def kept_times_def demo_node_def tget_def MAX_CRASH_RESTARTS_PER_HOUR_def)

text \<open>C36.
  A server is put up again only when that was asked for it and it crashed. Every server due for a restart is one of those that
  ended, its owner asked for it, and it is among those reported as crashed; and none is reported that was stopped through this
  node or that ended in an ordinary way. Nothing is reported on a pass before the watch is seeded, none whose exit an earlier
  pass has seen is reported again, and every exit a pass was told of counts as seen from then on: so one from before the agent
  began to watch, which the first pass sees, is never reported. (One container per server, as their names make it.)
\<close>
theorem only_a_crash_is_restarted:
  assumes "look_for_crashes H c xs s = (Inr (crashed, due), s')" "distinct (map mg_instance_id xs)"
  shows "(\<forall>i\<in>set due. (\<exists>x\<in>set xs. mg_instance_id x = i) \<and> (\<exists>w. restart_on_crash H c i w) \<and> (\<exists>(v, e)\<in>set crashed. sv_instance_id v = i))
    \<and> (\<forall>(v, e)\<in>set crashed. sv_instance_id v \<notin> cw_stopped_here (nd_watch s) \<and> is_crash e \<and> cw_seeded (nd_watch s))
    \<and> (\<forall>(v, e)\<in>set crashed. seen_exit s (sv_instance_id v) \<noteq> Some (exit_key e))
    \<and> (\<forall>x\<in>set xs. \<forall>e. answers_exit H (mg_container_id x) e \<and> \<not> is_moving s (mg_instance_id x)
         \<longrightarrow> seen_exit s' (mg_instance_id x) = Some (exit_key e))"
  using look_for_crashes_asked [OF assms(1)] look_for_crashes_seen [OF assms(1)] assms(2) by (intro conjI) blast+

theorem only_a_crash_is_restarted_witness:
  "\<exists>crashed s'. look_for_crashes demo_host demo_config [demo_container [105]] demo_node = (Inr (crashed, [[105]]), s')
    \<and> (\<exists>(v, e)\<in>set crashed. sv_instance_id v = [105]) \<and> seen_exit s' [105] = Some (ascii ''2026'')"
proof -
  have marked: "restart_on_crash demo_host demo_config [105] w" for w
  proof -
    have "plan_id [105] = Ok ()" by code_simp
    then show ?thesis by (simp add: restart_on_crash_def restart_marker_def instance_dir_def demo_host_def)
  qed
  have "\<exists>crashed s'. look_for_crashes demo_host demo_config [demo_container [105]] demo_node = (Inr (crashed, [[105]]), s')"
  proof -
    let ?e = "\<lparr>le_code = 1, le_oom_killed = False, le_finished_at = Some (ascii ''2026''), le_error = None\<rparr> :: last_exit"
    have still: "\<not> is_moving demo_node (mg_instance_id (demo_container [105]))" by (simp add: is_moving_def demo_node_def thas_def tget_def)
    obtain w where "judge_exit True 0 (demo_container [105]) ?e (nd_watch demo_node) = ((True, True), w)"
      by (simp add: judge_exit_def demo_node_def demo_container_def tget_def is_crash_def recent_def recent_list_def MAX_CRASH_RESTARTS_PER_HOUR_def Let_def)
    moreover have "mg_instance_id (demo_container [105]) = [105]" "hs_clock demo_host v = 0" for v by (simp_all add: demo_container_def demo_host_def)
    ultimately show ?thesis
      using still
      by (simp add: look_split bind_eval [where f = "io_try _"] demo_exit marked bind_eval [where f = "io_ok _"] io_ok_def)
        (simp add: io_bind_def io_ok_def)
  qed
  then obtain crashed s' where p: "look_for_crashes demo_host demo_config [demo_container [105]] demo_node = (Inr (crashed, [[105]]), s')"
    by blast
  have one: "distinct (map mg_instance_id [demo_container [105]])" by simp
  let ?e = "\<lparr>le_code = 1, le_oom_killed = False, le_finished_at = Some (ascii ''2026''), le_error = None\<rparr> :: last_exit"
  have "fst (on_docker (last_exit_of (hs_docker demo_host) cid) s) = Inr (Some ?e)" for cid and s :: "bool node"
    using demo_exit [of cid s] by (simp add: io_try_def split: prod.splits)
  then have told: "answers_exit demo_host cid ?e" for cid by (simp add: answers_exit_def)
  have "\<not> is_moving demo_node (mg_instance_id (demo_container [105]))" by (simp add: is_moving_def demo_node_def thas_def tget_def)
  with only_a_crash_is_restarted [OF p one] told
  have "seen_exit s' (mg_instance_id (demo_container [105])) = Some (exit_key ?e)" "\<exists>(v, e)\<in>set crashed. sv_instance_id v = [105]"
    by auto
  with p show ?thesis by (auto simp: demo_container_def exit_key_def)
qed

text \<open>A copy of a game that is in use is not deleted. While any container of the node has a part of it mounted, or a server is being
  moved from it or onto it, asking for its deletion changes nothing but what was looked at.
\<close>
theorem a_copy_in_use_stays:
  assumes "content_dir (ac_data_root c) \<lparr>cn_game_id = game, cn_version = version\<rparr> = Ok dir" "docker_list H s = (Inr cs, s1)"
    "(\<exists>x\<in>set cs. \<exists>m\<in>set (mg_mount_sources x). path_starts_with (path_of m) dir)
      \<or> (\<exists>i m. (i, m) \<in> set (nd_moving s) \<and> mf_game_id m = game \<and> version \<in> {mf_from m, mf_to m})"
  shows "snd (delete_content H c game version s) \<in> {s, s1} \<and> (\<forall>n. fst (delete_content H c game version s) \<noteq> Inr (Inr n))"
proof -
  have "same s s1" by (rule quietD [OF quiet_reads(1) assms(2)])
  then have moving: "nd_moving s1 = nd_moving s" using same_fields by blast
  have "mounts_under dir cs \<noteq> [] \<or> servers_moving_with game version (nd_moving s1) \<noteq> []"
    using assms(3) by (fastforce simp: mounts_under_def servers_moving_with_def moving list_ex_iff filter_empty_conv)
  then show ?thesis
    using assms(1,2) by (auto simp: delete_content_def look_split try_split io_ok_def)
qed

theorem a_copy_in_use_stays_witness:
  "snd (delete_content demo_host demo_config [103] [48] demo_node) = demo_node"
proof -
  have ids: "plan_id [103] = Ok ()" "plan_id [48] = Ok ()" by code_simp+
  let ?dir = "join (join (join sample_root (ascii ''content'')) [103]) [48]"
  have dir: "content_dir (ac_data_root demo_config) \<lparr>cn_game_id = [103], cn_version = [48]\<rparr> = Ok ?dir"
    by (simp add: content_dir_def ids demo_config_def)
  have list: "docker_list demo_host demo_node = (Inr [demo_container [105], demo_container [106]], demo_node)"
    by (simp add: demo_list) (simp add: demo_node_def)
  have "path_starts_with (path_of (ascii ''/d/content/g/0'')) ?dir" by code_simp
  then have "\<exists>x\<in>set [demo_container [105], demo_container [106]]. \<exists>m\<in>set (mg_mount_sources x). path_starts_with (path_of m) ?dir"
    by (simp add: demo_container_def)
  from a_copy_in_use_stays [OF dir list disjI1 [OF this]] show ?thesis by simp
qed

end
