(* ===== verification/Uplink_Wire.thy ===== *)
theory Uplink_Wire
  imports Hosting Auth
begin

text \<open>
  \<^verbatim>\<open>crates/platform-agent/src/uplink_wire.rs\<close>: the control channel between an index and a node, and how its
  long answers are cut to one packet. Payloads are JSON, which is not in the repository: a \<open>shape\<close> is how
  one type is written and read, and what is assumed of it is a hypothesis. A node's row of the listing is
  \<open>instance_row\<close>, the fields an index reads.
\<close>

section \<open>Constants\<close>

definition UPLINK_SCHEMA :: u8 where "UPLINK_SCHEMA = 1"
definition MAX_BODY_LEN :: nat where "MAX_BODY_LEN = 1800"
definition OP_CHALLENGE :: u8 where "OP_CHALLENGE = 1"
definition OP_VERIFY :: u8 where "OP_VERIFY = 2"
definition OP_CREATE :: u8 where "OP_CREATE = 3"
definition OP_STOP :: u8 where "OP_STOP = 4"
definition OP_REMOVE :: u8 where "OP_REMOVE = 5"
definition OP_LIST :: u8 where "OP_LIST = 6"
definition OP_CAPACITY :: u8 where "OP_CAPACITY = 7"
definition OP_START :: u8 where "OP_START = 8"
definition OP_LOGS :: u8 where "OP_LOGS = 9"
definition OP_BACKUPS :: u8 where "OP_BACKUPS = 10"
definition OP_BACKUP_CREATE :: u8 where "OP_BACKUP_CREATE = 11"
definition OP_BACKUP_RESTORE :: u8 where "OP_BACKUP_RESTORE = 12"
definition OP_BACKUP_DELETE :: u8 where "OP_BACKUP_DELETE = 13"
definition OP_SPEC :: u8 where "OP_SPEC = 14"
definition OP_BACKUP_READ :: u8 where "OP_BACKUP_READ = 15"
definition OP_BACKUP_WRITE :: u8 where "OP_BACKUP_WRITE = 16"
definition OP_DELTA_CREATE :: u8 where "OP_DELTA_CREATE = 17"
definition OP_DELTA_MERGE :: u8 where "OP_DELTA_MERGE = 18"
definition OP_IDENTITY_READ :: u8 where "OP_IDENTITY_READ = 19"
definition OP_IDENTITY_SET :: u8 where "OP_IDENTITY_SET = 20"
definition OP_MAPS :: u8 where "OP_MAPS = 21"
definition OP_MAP :: u8 where "OP_MAP = 22"
definition PIECE_MAX :: nat where "PIECE_MAX = 256 * 1024"

lemmas op_codes = OP_CHALLENGE_def OP_VERIFY_def OP_CREATE_def OP_STOP_def OP_REMOVE_def OP_LIST_def OP_CAPACITY_def
  OP_START_def OP_LOGS_def OP_BACKUPS_def OP_BACKUP_CREATE_def OP_BACKUP_RESTORE_def OP_BACKUP_DELETE_def OP_SPEC_def
  OP_BACKUP_READ_def OP_BACKUP_WRITE_def OP_DELTA_CREATE_def OP_DELTA_MERGE_def OP_IDENTITY_READ_def OP_IDENTITY_SET_def
  OP_MAPS_def OP_MAP_def

definition STATUS_OK :: u8 where "STATUS_OK = 0"
definition STATUS_ERR :: u8 where "STATUS_ERR = 1"

datatype wire_error =
    Truncated | TooLarge nat | UnsupportedSchema u8 | UnknownOp u8 | UnknownStatus u8 | BadPayload str

text \<open>A number as text, and the errors as they are shown: an index reads them.\<close>

fun decimal :: "nat \<Rightarrow> str" where
  "decimal n = (if n < 10 then [48 + of_nat n] else decimal (n div 10) @ [48 + of_nat (n mod 10)])"

declare decimal.simps [simp del]

fun wire_text :: "wire_error \<Rightarrow> str" where
  "wire_text Truncated = ascii ''uplink message is truncated''"
| "wire_text (TooLarge n) = ascii ''uplink message is '' @ decimal n @ ascii '' bytes, over the cap''"
| "wire_text (UnsupportedSchema v) = ascii ''uplink schema '' @ decimal (unat v) @ ascii '' is not supported''"
| "wire_text (UnknownOp v) = ascii ''uplink op '' @ decimal (unat v) @ ascii '' is not known''"
| "wire_text (UnknownStatus v) = ascii ''uplink status '' @ decimal (unat v) @ ascii '' is not known''"
| "wire_text (BadPayload s) = ascii ''uplink payload did not parse: '' @ s"

fun auth_text :: "auth_error \<Rightarrow> str" where
  "auth_text UnknownChallenge = ascii ''no such challenge, or it was already answered''"
| "auth_text ChallengeExpired = ascii ''challenge expired''"
| "auth_text MalformedPublicKey = ascii ''public key must be 64 bytes''"
| "auth_text MalformedSignature = ascii ''signature must be 64 bytes''"
| "auth_text BadSignature = ascii ''signature did not verify''"
| "auth_text UnknownSession = ascii ''no such session''"
| "auth_text SessionExpired = ascii ''session expired''"
| "auth_text ClockWentBackwards = ascii ''the system clock moved backwards''"
| "auth_text NoEntropy = ascii ''no entropy available to issue a challenge''"
| "auth_text Busy = ascii ''too many sign-ins in progress; try again shortly''"

section \<open>Payloads\<close>

record create_req =
  cq_token :: str
  cq_spec :: instance_spec

record instance_req =
  iq_token :: str
  iq_instance_id :: str

record logs_req =
  lq_token :: str
  lq_instance_id :: str
  lq_lines :: u32

record maps_req =
  mq_token :: str
  mq_game_id :: str
  mq_offset :: u32

record map_req =
  pq_token :: str
  pq_instance_id :: str
  pq_map :: str

record backup_req =
  bq_token :: str
  bq_instance_id :: str
  bq_name :: str

record delta_req =
  dq_token :: str
  dq_instance_id :: str
  dq_since :: int

record identity_set_req =
  sq_token :: str
  sq_instance_id :: str
  sq_identity :: str

record identity_resp =
  ir_identity :: "str option"

record backup_read_req =
  eq_token :: str
  eq_instance_id :: str
  eq_name :: str
  eq_offset :: u64

record backup_write_req =
  wq_token :: str
  wq_instance_id :: str
  wq_upload :: "str option"
  wq_offset :: u64
  wq_total :: u64

record token_req =
  tq_token :: str

record logs_resp =
  lr_text :: str
  lr_truncated :: bool

record backups_resp =
  br_backups :: "backup list"
  br_truncated :: bool

record maps_resp =
  mr_maps :: "str list"
  mr_next :: "u32 option"

record list_resp =
  ls_instances :: "instance_row list"
  ls_truncated :: bool
  ls_total_matched :: u16

section \<open>JSON\<close>

text \<open>How values of one type are written and read: an error is serde's text.\<close>

record 'a shape =
  sh_put :: "'a \<Rightarrow> str + bytes"
  sh_get :: "bytes \<Rightarrow> str + 'a"

definition parse_payload :: "'a shape \<Rightarrow> bytes \<Rightarrow> (wire_error, 'a) outcome" where
  "parse_payload sh body = (case sh_get sh body of Inr x \<Rightarrow> Ok x | Inl e \<Rightarrow> Err (BadPayload e))"

definition payload_bytes :: "'a shape \<Rightarrow> 'a \<Rightarrow> (wire_error, bytes) outcome" where
  "payload_bytes sh x = (case sh_put sh x of Inr b \<Rightarrow> Ok b | Inl e \<Rightarrow> Err (BadPayload e))"

text \<open>\<^verbatim>\<open>payload_bytes(..).unwrap_or_default()\<close>\<close>

definition bytes_or_default :: "'a shape \<Rightarrow> 'a \<Rightarrow> bytes" where
  "bytes_or_default sh x = (case payload_bytes sh x of Ok b \<Rightarrow> b | _ \<Rightarrow> [])"

text \<open>What serde promises of a type that derives both: a value is read back as it was written.\<close>

definition carries :: "'a shape \<Rightarrow> 'a \<Rightarrow> bool" where
  "carries sh x \<longleftrightarrow> (case sh_put sh x of Inr b \<Rightarrow> sh_get sh b = Inr x | Inl e \<Rightarrow> False)"

section \<open>The envelope\<close>

definition encode_request :: "u8 \<Rightarrow> bytes \<Rightarrow> bytes" where
  "encode_request opc body = [UPLINK_SCHEMA, opc] @ body"

definition decode_request :: "bytes \<Rightarrow> (wire_error, u8 \<times> bytes) outcome" where
  "decode_request buf =
     (if length buf < 2 then Err Truncated
      else and_then (byte_at buf 0) (\<lambda>schema.
        if schema \<noteq> UPLINK_SCHEMA then Err (UnsupportedSchema schema)
        else and_then (byte_at buf 1) (\<lambda>opc. and_then (slice_at buf 2 (length buf)) (\<lambda>body. Ok (opc, body)))))"

definition encode_ok :: "u8 \<Rightarrow> bytes \<Rightarrow> bytes" where
  "encode_ok opc body = [UPLINK_SCHEMA, opc, STATUS_OK] @ body"

definition encode_err :: "u8 \<Rightarrow> str \<Rightarrow> bytes" where
  "encode_err opc message = [UPLINK_SCHEMA, opc, STATUS_ERR] @ message"

definition decode_response :: "bytes \<Rightarrow> (wire_error, u8 \<times> bool \<times> bytes) outcome" where
  "decode_response buf =
     (if length buf < 3 then Err Truncated
      else and_then (byte_at buf 0) (\<lambda>schema.
        if schema \<noteq> UPLINK_SCHEMA then Err (UnsupportedSchema schema)
        else and_then (byte_at buf 1) (\<lambda>opc. and_then (byte_at buf 2) (\<lambda>status.
          and_then (if status = STATUS_OK then Ok True else if status = STATUS_ERR then Ok False
                    else Err (UnknownStatus status)) (\<lambda>ok.
          and_then (slice_at buf 3 (length buf)) (\<lambda>body. Ok (opc, ok, body)))))))"

definition fits :: "nat \<Rightarrow> (wire_error, unit) outcome" where
  "fits body_len = (if body_len > MAX_BODY_LEN then Err (TooLarge body_len) else Ok ())"

section \<open>File pieces\<close>

definition encode_chunk :: "u64 \<Rightarrow> bytes \<Rightarrow> bytes" where
  "encode_chunk len data = to_be 8 len @ data"

definition decode_chunk :: "bytes \<Rightarrow> (wire_error, u64 \<times> bytes) outcome" where
  "decode_chunk body = (if length body < 8 then Err Truncated else Ok (of_be (take 8 body), drop 8 body))"

definition encode_write_body :: "backup_write_req shape \<Rightarrow> backup_write_req \<Rightarrow> bytes \<Rightarrow> (wire_error, bytes) outcome" where
  "encode_write_body sh header data =
     and_then (payload_bytes sh header) (\<lambda>json. Ok (to_be 4 (of_nat (length json) :: u32) @ json @ data))"

definition decode_write_body :: "backup_write_req shape \<Rightarrow> bytes \<Rightarrow> (wire_error, backup_write_req \<times> bytes) outcome" where
  "decode_write_body sh body =
     (if length body < 4 then Err Truncated
      else let len = unat (of_be (take 4 body) :: u32); rest = drop 4 body in
        if length rest < len \<or> len > MAX_BODY_LEN then Err Truncated
        else let json = take len rest; data = drop len rest in
          if length data > PIECE_MAX then Err (TooLarge (length data))
          else and_then (parse_payload sh json) (\<lambda>h. Ok (h, data)))"

section \<open>Answers cut to a packet\<close>

text \<open>As many maps from \<open>offset\<close> as fit, at least one while any remain: the loop's \<open>n\<close> is how many are tried.\<close>

function maps_loop :: "maps_resp shape \<Rightarrow> str list \<Rightarrow> u32 \<Rightarrow> nat \<Rightarrow> bytes" where
  "maps_loop sh rest offset n =
     (let more = (if n < length rest then Some (offset + of_nat n) else None);
          body = bytes_or_default sh \<lparr>mr_maps = take n rest, mr_next = more\<rparr>
      in if length body \<le> MAX_BODY_LEN \<or> n \<le> 1 then encode_ok OP_MAPS body
         else maps_loop sh rest offset (max 1 (n div 2)))"
  by pat_completeness auto
termination by (relation "measure (\<lambda>(sh, rest, offset, n). n)") auto

declare maps_loop.simps [simp del]

definition encode_maps_resp :: "maps_resp shape \<Rightarrow> str list \<Rightarrow> u32 \<Rightarrow> bytes" where
  "encode_maps_resp sh maps offset =
     (let rest = drop (unat offset) maps in maps_loop sh rest offset (length rest))"

text \<open>\<^verbatim>\<open>str::is_char_boundary\<close> on the bytes of a text.\<close>

definition is_char_boundary :: "str \<Rightarrow> nat \<Rightarrow> bool" where
  "is_char_boundary chars i \<longleftrightarrow>
     i = 0 \<or> i = length chars \<or> (i < length chars \<and> \<not> (0x80 \<le> unat (chars ! i) \<and> unat (chars ! i) < 0xC0))"

function next_boundary :: "str \<Rightarrow> nat \<Rightarrow> nat" where
  "next_boundary chars start =
     (if start < length chars \<and> \<not> is_char_boundary chars start then next_boundary chars (start + 1) else start)"
  by pat_completeness auto
termination by (relation "measure (\<lambda>(chars, start). length chars - start)") auto

declare next_boundary.simps [simp del]

lemma next_boundary_ge: "start \<le> next_boundary chars start"
proof (induction chars start rule: next_boundary.induct)
  case (1 chars start)
  then show ?case by (subst next_boundary.simps) (auto intro: Suc_leD)
qed

text \<open>The newest chars that fits, cut from the front; \<open>&chars[start..]\<close> panics off a boundary.\<close>

function logs_loop :: "logs_resp shape \<Rightarrow> str \<Rightarrow> nat \<Rightarrow> (wire_error, bytes) outcome" where
  "logs_loop sh chars start =
     (if \<not> is_char_boundary chars start then Panic
      else let kept = drop start chars;
               body = bytes_or_default sh \<lparr>lr_text = kept, lr_truncated = start > 0\<rparr>
      in if length body \<le> MAX_BODY_LEN \<or> kept = [] then Ok (encode_ok OP_LOGS body)
         else logs_loop sh chars (min (length chars) (next_boundary chars (start + max 1 (length kept div 8)))))"
  by pat_completeness auto
termination
proof (relation "measure (\<lambda>(sh, chars, start). length chars - start)", goal_cases)
  case (2 sh chars start kept body)
  have "start < next_boundary chars (start + max 1 (length kept div 8))"
    using next_boundary_ge [of "start + max 1 (length kept div 8)" chars] by simp
  with 2 show ?case by auto
qed simp

declare logs_loop.simps [simp del]

definition encode_logs_resp :: "logs_resp shape \<Rightarrow> str \<Rightarrow> (wire_error, bytes) outcome" where
  "encode_logs_resp sh chars = logs_loop sh chars 0"

function backups_loop :: "backups_resp shape \<Rightarrow> backup list \<Rightarrow> nat \<Rightarrow> bytes" where
  "backups_loop sh bks start =
     (let body = bytes_or_default sh \<lparr>br_backups = drop start bks, br_truncated = start > 0\<rparr>
      in if length body \<le> MAX_BODY_LEN \<or> start + 1 \<ge> length bks then encode_ok OP_BACKUPS body
         else backups_loop sh bks (start + 1))"
  by pat_completeness auto
termination by (relation "measure (\<lambda>(sh, bks, start). length bks - start)") auto

declare backups_loop.simps [simp del]

definition encode_backups_resp :: "backups_resp shape \<Rightarrow> backup list \<Rightarrow> bytes" where
  "encode_backups_resp sh backups = backups_loop sh (sort_by (\<lambda>a b. cmp (bk_name a) (bk_name b)) backups) 0"

text \<open>The listing: rows are dropped from the end until the rest fits.\<close>

fun list_loop :: "list_resp shape \<Rightarrow> instance_row list \<Rightarrow> nat \<Rightarrow> bool \<Rightarrow> nat \<Rightarrow> bytes" where
  "list_loop sh instances matched truncated included =
     (case payload_bytes sh \<lparr>ls_instances = take included instances,
          ls_truncated = (truncated \<or> included < matched),
          ls_total_matched = of_nat (min matched (2 ^ 16 - 1))\<rparr> of
        Ok body \<Rightarrow>
          if length body \<le> MAX_BODY_LEN then encode_ok OP_LIST body
          else (case included of 0 \<Rightarrow> encode_ok OP_LIST [] | Suc n \<Rightarrow> list_loop sh instances matched True n)
      | _ \<Rightarrow> encode_ok OP_LIST [])"

declare list_loop.simps [simp del]

definition encode_list_resp :: "list_resp shape \<Rightarrow> instance_row list \<Rightarrow> nat \<Rightarrow> bytes" where
  "encode_list_resp sh instances matched = list_loop sh instances matched False (length instances)"

section \<open>Lemmas on the envelope\<close>

lemma decode_request_encode [simp]: "decode_request (encode_request opc body) = Ok (opc, body)"
  by (simp add: decode_request_def encode_request_def)

lemma decode_response_ok [simp]: "decode_response (encode_ok opc body) = Ok (opc, True, body)"
  by (simp add: decode_response_def encode_ok_def)

lemma decode_response_err [simp]: "decode_response (encode_err opc m) = Ok (opc, False, m)"
  by (simp add: decode_response_def encode_err_def STATUS_OK_def STATUS_ERR_def)

lemma decode_chunk_encode [simp]: "decode_chunk (encode_chunk len data) = Ok (len, data)"
  by (simp add: decode_chunk_def encode_chunk_def)

lemma carries_payload:
  assumes "carries sh x"
  shows "payload_bytes sh x = Ok (bytes_or_default sh x)" "parse_payload sh (bytes_or_default sh x) = Ok x"
  using assms by (auto simp: carries_def bytes_or_default_def payload_bytes_def parse_payload_def split: sum.splits)

lemma decode_write_body_encode:
  assumes "carries sh h" "encode_write_body sh h data = Ok body" "length data \<le> PIECE_MAX"
    "length (bytes_or_default sh h) \<le> MAX_BODY_LEN"
  shows "decode_write_body sh body = Ok (h, data)"
proof -
  let ?b = "bytes_or_default sh h"
  note b = carries_payload [OF assms(1)]
  then have body: "body = to_be 4 (of_nat (length ?b) :: u32) @ ?b @ data"
    using assms(2) by (simp add: encode_write_body_def)
  have len: "unat (of_nat (length ?b) :: u32) = length ?b"
    using assms(4) by (simp add: MAX_BODY_LEN_def unat_of_nat)
  show ?thesis
    using b(2) assms(3,4) by (simp add: decode_write_body_def body len Let_def)
qed

lemma decoders_never_panic:
  "decode_request buf \<noteq> Panic" "decode_response buf \<noteq> Panic" "decode_chunk buf \<noteq> Panic" "decode_write_body sh buf \<noteq> Panic"
  by (auto simp: decode_request_def decode_response_def decode_chunk_def decode_write_body_def parse_payload_def Let_def
      byte_at_def outcome_simps split: if_splits sum.splits)

section \<open>Lemmas on cut answers\<close>

text \<open>The listing with its first \<open>k\<close> rows.\<close>

definition list_body :: "instance_row list \<Rightarrow> nat \<Rightarrow> list_resp" where
  "list_body rows k = \<lparr>ls_instances = take k rows, ls_truncated = (k < length rows),
     ls_total_matched = of_nat (min (length rows) (2 ^ 16 - 1))\<rparr>"

definition list_fits :: "list_resp shape \<Rightarrow> instance_row list \<Rightarrow> nat \<Rightarrow> bool" where
  "list_fits sh rows k \<longleftrightarrow> length (bytes_or_default sh (list_body rows k)) \<le> MAX_BODY_LEN"

lemma list_loop_step:
  assumes "carries sh (list_body rows k)" "tr \<Longrightarrow> k < length rows"
  shows "list_loop sh rows (length rows) tr k =
    (if list_fits sh rows k then encode_ok OP_LIST (bytes_or_default sh (list_body rows k))
     else case k of 0 \<Rightarrow> encode_ok OP_LIST [] | Suc n \<Rightarrow> list_loop sh rows (length rows) True n)"
proof -
  have "\<lparr>ls_instances = take k rows, ls_truncated = (tr \<or> k < length rows),
      ls_total_matched = of_nat (min (length rows) (2 ^ 16 - 1))\<rparr> = list_body rows k"
    using assms(2) by (auto simp: list_body_def)
  then show ?thesis
    using carries_payload(1) [OF assms(1)] by (subst list_loop.simps) (simp add: list_fits_def)
qed

lemma list_loop_cut:
  assumes "\<And>j. carries sh (list_body rows j)" "k \<le> length rows" "tr \<Longrightarrow> k < length rows" "list_fits sh rows m" "m \<le> k"
    "\<And>j. m < j \<Longrightarrow> j \<le> k \<Longrightarrow> \<not> list_fits sh rows j"
  shows "list_loop sh rows (length rows) tr k = encode_ok OP_LIST (bytes_or_default sh (list_body rows m))"
  using assms(2,3,5,6)
proof (induction k arbitrary: tr)
  case 0
  then show ?case using assms(4) list_loop_step [OF assms(1), of tr 0] by simp
next
  case (Suc k)
  show ?case
  proof (cases "m = Suc k")
    case True
    then show ?thesis using assms(4) list_loop_step [OF assms(1), of tr "Suc k"] Suc.prems(2) by simp
  next
    case False
    with Suc.prems(3) have m: "m \<le> k" by simp
    have "\<not> list_fits sh rows (Suc k)" using Suc.prems(4) [of "Suc k"] m by simp
    then have "list_loop sh rows (length rows) tr (Suc k) = list_loop sh rows (length rows) True k"
      using list_loop_step [OF assms(1), of tr "Suc k"] Suc.prems(2) by simp
    also have "\<dots> = encode_ok OP_LIST (bytes_or_default sh (list_body rows m))"
      by (rule Suc.IH) (use Suc.prems m in auto)
    finally show ?thesis .
  qed
qed

lemma encode_list_resp_cut:
  assumes "\<And>j. carries sh (list_body rows j)" "list_fits sh rows m" "m \<le> length rows"
    "\<And>j. m < j \<Longrightarrow> j \<le> length rows \<Longrightarrow> \<not> list_fits sh rows j"
  shows "encode_list_resp sh rows (length rows) = encode_ok OP_LIST (bytes_or_default sh (list_body rows m))"
  unfolding encode_list_resp_def by (rule list_loop_cut) (use assms in auto)

text \<open>A page of maps: at least one while any remain.\<close>

lemma maps_loop_page:
  "\<exists>k\<le>n. (n \<ge> 1 \<longrightarrow> k \<ge> 1) \<and> maps_loop sh rest offset n
     = encode_ok OP_MAPS (bytes_or_default sh \<lparr>mr_maps = take k rest, mr_next = (if k < length rest then Some (offset + of_nat k) else None)\<rparr>)"
proof (induction sh rest offset n rule: maps_loop.induct)
  case (1 sh rest offset n)
  let ?body = "bytes_or_default sh \<lparr>mr_maps = take n rest, mr_next = (if n < length rest then Some (offset + of_nat n) else None)\<rparr>"
  show ?case
  proof (cases "length ?body \<le> MAX_BODY_LEN \<or> n \<le> 1")
    case True
    then show ?thesis by (subst maps_loop.simps) (auto simp: Let_def intro: exI [of _ n])
  next
    case False
    then obtain k where "k \<le> max 1 (n div 2)" "max 1 (n div 2) \<ge> 1 \<longrightarrow> k \<ge> 1"
      "maps_loop sh rest offset (max 1 (n div 2))
       = encode_ok OP_MAPS (bytes_or_default sh \<lparr>mr_maps = take k rest, mr_next = (if k < length rest then Some (offset + of_nat k) else None)\<rparr>)"
      using 1 [OF refl refl] by auto
    moreover have "max 1 (n div 2) \<le> n" using False by simp
    moreover have "maps_loop sh rest offset n = maps_loop sh rest offset (max 1 (n div 2))"
      using False by (subst maps_loop.simps) (simp add: Let_def)
    ultimately show ?thesis by (intro exI [of _ k]) auto
  qed
qed

lemma encode_maps_page:
  "\<exists>k. (unat offset < length maps \<longrightarrow> k \<ge> 1) \<and> unat offset + k \<le> max (unat offset) (length maps)
     \<and> encode_maps_resp sh maps offset = encode_ok OP_MAPS (bytes_or_default sh
         \<lparr>mr_maps = take k (drop (unat offset) maps),
          mr_next = (if unat offset + k < length maps then Some (offset + of_nat k) else None)\<rparr>)"
proof -
  obtain k where "k \<le> length maps - unat offset" "length maps - unat offset \<ge> 1 \<longrightarrow> k \<ge> 1"
    "encode_maps_resp sh maps offset = encode_ok OP_MAPS (bytes_or_default sh \<lparr>mr_maps = take k (drop (unat offset) maps),
       mr_next = (if k < length maps - unat offset then Some (offset + of_nat k) else None)\<rparr>)"
    using maps_loop_page [of "length (drop (unat offset) maps)" sh "drop (unat offset) maps" offset]
    by (auto simp: encode_maps_resp_def Let_def)
  then show ?thesis by (intro exI [of _ k]) (auto simp: less_diff_conv add.commute)
qed

text \<open>Cut log text starts on a character.\<close>

lemma next_boundary_on: "is_char_boundary chars (min (length chars) (next_boundary chars start))"
proof (induction chars start rule: next_boundary.induct)
  case (1 chars start)
  show ?case
  proof (cases "start < length chars \<and> \<not> is_char_boundary chars start")
    case True
    then show ?thesis using 1 by (subst next_boundary.simps) simp
  next
    case False
    then show ?thesis by (subst next_boundary.simps) (auto simp: min_def is_char_boundary_def)
  qed
qed

lemma logs_loop_cut:
  assumes "is_char_boundary chars start"
  shows "\<exists>k. start \<le> k \<and> is_char_boundary chars k
    \<and> logs_loop sh chars start = Ok (encode_ok OP_LOGS (bytes_or_default sh \<lparr>lr_text = drop k chars, lr_truncated = k > 0\<rparr>))
    \<and> (length (bytes_or_default sh \<lparr>lr_text = drop k chars, lr_truncated = k > 0\<rparr>) \<le> MAX_BODY_LEN \<or> drop k chars = [])"
  using assms
proof (induction sh chars start rule: logs_loop.induct)
  case (1 sh chars start)
  let ?kept = "drop start chars"
  let ?body = "bytes_or_default sh \<lparr>lr_text = ?kept, lr_truncated = start > 0\<rparr>"
  let ?next = "min (length chars) (next_boundary chars (start + max 1 (length ?kept div 8)))"
  show ?case
  proof (cases "length ?body \<le> MAX_BODY_LEN \<or> ?kept = []")
    case True
    then show ?thesis
      using 1(2) by (intro exI [of _ start]) (subst logs_loop.simps, auto simp: Let_def)
  next
    case False
    have first: "start \<le> ?next"
      using False next_boundary_ge [of "start + max 1 (length ?kept div 8)" chars] by simp
    moreover have "logs_loop sh chars start = logs_loop sh chars ?next"
      using 1(2) False by (subst logs_loop.simps) (simp add: Let_def)
    moreover obtain k where "?next \<le> k" "is_char_boundary chars k"
      "logs_loop sh chars ?next = Ok (encode_ok OP_LOGS (bytes_or_default sh \<lparr>lr_text = drop k chars, lr_truncated = k > 0\<rparr>))"
      "length (bytes_or_default sh \<lparr>lr_text = drop k chars, lr_truncated = k > 0\<rparr>) \<le> MAX_BODY_LEN \<or> drop k chars = []"
      using 1(1) [OF _ refl refl False next_boundary_on] 1(2) by auto
    moreover have "start \<le> k" by (rule order_trans [OF first]) fact
    ultimately show ?thesis by (intro exI [of _ k] conjI) simp_all
  qed
qed

section \<open>A concrete way to write payloads\<close>

text \<open>Fields one after another, each byte marked, each field ended.\<close>

fun unpack :: "bytes \<Rightarrow> str list" where
  "unpack [] = []"
| "unpack (m # r) =
     (if m = 0 then [] # unpack r
      else case r of [] \<Rightarrow> [] | b # r \<Rightarrow> (case unpack r of f # fs \<Rightarrow> (b # f) # fs | [] \<Rightarrow> [[b]]))"

definition pack :: "str list \<Rightarrow> bytes" where
  "pack parts = concat (map (\<lambda>f. concat (map (\<lambda>b. [1, b]) f) @ [0]) parts)"

lemma unpack_pack [simp]: "unpack (pack parts) = parts"
proof -
  have "unpack (concat (map (\<lambda>b. [1, b]) f) @ 0 # r) = f # unpack r" for f r
    by (induction f) simp_all
  then show ?thesis by (induction parts) (simp_all add: pack_def)
qed

lemma length_pack: "length (pack parts) = sum_list (map (\<lambda>f. 2 * length f + 1) parts)"
proof -
  have "length (concat (map (\<lambda>b. [1, b]) f)) = 2 * length f" for f :: bytes
    by (induction f) simp_all
  then show ?thesis by (induction parts) (simp_all add: pack_def)
qed

definition packed :: "('a \<Rightarrow> str list) \<Rightarrow> (str list \<Rightarrow> 'a) \<Rightarrow> 'a shape" where
  "packed parts rebuild = \<lparr>sh_put = \<lambda>x. Inr (pack (parts x)), sh_get = \<lambda>b. Inr (rebuild (unpack b))\<rparr>"

lemma carries_packed: "rebuild (parts x) = x \<Longrightarrow> carries (packed parts rebuild) x"
  by (simp add: carries_def packed_def)

definition sample_header :: "backup_write_req shape" where
  "sample_header = packed
     (\<lambda>h. [wq_token h, wq_instance_id h, case wq_upload h of None \<Rightarrow> [] | Some u \<Rightarrow> 1 # u, to_be 8 (wq_offset h), to_be 8 (wq_total h)])
     (\<lambda>fs. \<lparr>wq_token = fs ! 0, wq_instance_id = fs ! 1, wq_upload = (if fs ! 2 = [] then None else Some (tl (fs ! 2))),
        wq_offset = of_be (fs ! 3), wq_total = of_be (fs ! 4)\<rparr>)"

lemma sample_header_carries: "carries sample_header h"
  unfolding sample_header_def by (rule carries_packed) (cases h, simp add: numeral_eq_Suc split: option.split)

section \<open>Properties\<close>

text \<open>What one side of the control channel writes the other reads back: requests, answers, refusals, file
  pieces and the header of an upload. Reading is total: bytes from anywhere are refused or read, never a
  panic.
\<close>
theorem uplink_frames_round_trip:
  assumes "carries sh h" "encode_write_body sh h data = Ok body" "length data \<le> PIECE_MAX"
    "length (bytes_or_default sh h) \<le> MAX_BODY_LEN"
  shows "decode_request (encode_request opc b) = Ok (opc, b)
    \<and> decode_response (encode_ok opc b) = Ok (opc, True, b)
    \<and> decode_response (encode_err opc b) = Ok (opc, False, b)
    \<and> decode_chunk (encode_chunk len b) = Ok (len, b)
    \<and> decode_write_body sh body = Ok (h, data)
    \<and> decode_request buf \<noteq> Panic \<and> decode_response buf \<noteq> Panic \<and> decode_chunk buf \<noteq> Panic \<and> decode_write_body sh buf \<noteq> Panic"
  using decode_write_body_encode [OF assms] by (simp add: decoders_never_panic)

theorem uplink_frames_round_trip_witness:
  "decode_write_body sample_header (to_be 4 (41 :: u32) @ pack [[5], [6], [], to_be 8 (0 :: u64), to_be 8 (1 :: u64)] @ [7])
     = Ok (\<lparr>wq_token = [5], wq_instance_id = [6], wq_upload = None, wq_offset = 0, wq_total = 1\<rparr>, [7])"
proof -
  let ?h = "\<lparr>wq_token = [5], wq_instance_id = [6], wq_upload = None, wq_offset = 0, wq_total = 1\<rparr>"
  let ?b = "pack [[5], [6], [], to_be 8 (0 :: u64), to_be 8 (1 :: u64)]"
  have b: "payload_bytes sample_header ?h = Ok ?b" "bytes_or_default sample_header ?h = ?b"
    by (simp_all add: sample_header_def packed_def payload_bytes_def bytes_or_default_def)
  have len: "length ?b = 41" by (simp add: length_pack)
  have "encode_write_body sample_header ?h [7] = Ok (to_be 4 (41 :: u32) @ ?b @ [7])"
    by (simp add: encode_write_body_def b len)
  from uplink_frames_round_trip [OF sample_header_carries this] show ?thesis
    by (simp add: b len PIECE_MAX_def MAX_BODY_LEN_def)
qed

end
