(* ===== verification/Node_Updates.thy ===== *)
theory Node_Updates
  imports Uplink_Wire Node_Ops
begin

text \<open>
  \<^verbatim>\<open>crates/platform-agent/src/agent.rs\<close>: the copies of a game a node keeps. Installing, updating and checking one, which
  copy new servers use, the disk reserve, looking for new builds and downloading them, moving servers onto a new copy when
  its game's choice says so, and what is left over on the disk. The provisioner
  (\<^verbatim>\<open>content.rs\<close>) and the disk are the record \<open>depot\<close>; sizes are read from the disk each time, without the agent's cache of them.
\<close>

section \<open>The provisioner and the disk\<close>

datatype updated = NewBuild "str option" "str option" | UpToDate "str option"
datatype verified = Intact "str option" | Repaired "str list" "str option" "str option"

text \<open>
  \<open>dp_storage\<close> is the whole disk and what is free of it; \<open>dp_ensure\<close> answers the bytes that landed, \<open>None\<close> when the copy was
  there; \<open>dp_ask\<close> is a game's query, players and bots, and answers nothing for a host that is no address; \<open>dp_age\<close> is the
  time since a directory's last change.
\<close>

record 'w depot =
  dp_save :: "update_checks \<Rightarrow> 'w \<Rightarrow> bool \<times> 'w"
  dp_storage :: "'w \<Rightarrow> (nat \<times> nat) option"
  dp_latest_build :: "u32 \<Rightarrow> 'w \<Rightarrow> (str + str) \<times> 'w"
  dp_build_id :: "path \<Rightarrow> u32 \<Rightarrow> 'w \<Rightarrow> str option"
  dp_ensure :: "content_ref \<Rightarrow> pack_content \<Rightarrow> 'w \<Rightarrow> (str + nat option) \<times> 'w"
  dp_update :: "content_ref \<Rightarrow> content_ref \<Rightarrow> pack_content \<Rightarrow> 'w \<Rightarrow> (str + updated) \<times> 'w"
  dp_verify :: "content_ref \<Rightarrow> content_ref \<Rightarrow> pack_content \<Rightarrow> 'w \<Rightarrow> (str + verified) \<times> 'w"
  dp_exists :: "path \<Rightarrow> 'w \<Rightarrow> bool"
  dp_modified :: "path \<Rightarrow> 'w \<Rightarrow> int option"
  dp_age :: "path \<Rightarrow> 'w \<Rightarrow> duration option"
  dp_content_dirs :: "'w \<Rightarrow> (str \<times> str) list"
  dp_instance_dirs :: "'w \<Rightarrow> str list"
  dp_ask :: "query_protocol \<Rightarrow> str \<Rightarrow> u16 \<Rightarrow> 'w \<Rightarrow> (u8 \<times> u8) option \<times> 'w"
  dp_text :: "agent_error \<Rightarrow> str"

definition now_unix :: "'w host \<Rightarrow> 'w \<Rightarrow> int" where
  "now_unix H w = int (given (hs_unix H w) 0)"

definition save_checks :: "'w depot \<Rightarrow> (update_checks \<Rightarrow> update_checks) \<Rightarrow> ('w, unit) agent" where
  "save_checks D f =
     io_bind (change (\<lambda>s. s\<lparr>nd_updates := f (nd_updates s)\<rparr>)) (\<lambda>_.
     io_bind (look nd_updates) (\<lambda>u.
     io_bind (in_world (dp_save D u)) (\<lambda>saved. if saved then io_ok () else io_err NotRecorded)))"

section \<open>The reserve\<close>

definition reserve :: "'w depot \<Rightarrow> 'w node \<Rightarrow> (nat \<times> nat \<times> nat) option" where
  "reserve D s = map_option (\<lambda>(whole, free). (whole, free, reserve_on (uc_settings (nd_updates s)) whole)) (dp_storage D (nd_world s))"

definition disk_reached_reserve :: "'w depot \<Rightarrow> 'w node \<Rightarrow> bool" where
  "disk_reached_reserve D s = (case reserve D s of None \<Rightarrow> False | Some (_, free, kept) \<Rightarrow> free < kept)"

definition update_needs_of :: "'w host \<Rightarrow> agent_config \<Rightarrow> 'w node \<Rightarrow> str \<Rightarrow> nat" where
  "update_needs_of H c s game =
     (case active_version H c s game of
        None \<Rightarrow> 0
      | Some version \<Rightarrow>
          (case content_dir (ac_data_root c) \<lparr>cn_game_id = game, cn_version = version\<rparr> of
             Ok dir \<Rightarrow> if hs_is_dir H dir (nd_world s) then update_needs (hs_size H dir (nd_world s)) else 0
           | _ \<Rightarrow> 0))"

record installed_copy =
  ic_game_id :: str
  ic_version :: str
  ic_bytes :: nat
  ic_modified_unix :: "int option"
  ic_configured :: bool
  ic_used_by :: "str list"
  ic_unused :: bool
  ic_updatable :: bool

definition is_steamcmd :: "game_pack \<Rightarrow> bool" where
  "is_steamcmd p = (case pk_content p of Steamcmd _ _ _ \<Rightarrow> True | _ \<Rightarrow> False)"

definition copy_row :: "'w host \<Rightarrow> agent_config \<Rightarrow> 'w depot \<Rightarrow> 'w node \<Rightarrow> managed_container list \<Rightarrow> str \<times> str \<Rightarrow> installed_copy option" where
  "copy_row H c D s cs gv =
     (let game = fst gv; version = snd gv in
      case content_dir (ac_data_root c) \<lparr>cn_game_id = game, cn_version = version\<rparr> of
        Ok dir \<Rightarrow>
          let used = mounts_under dir cs; configured = (active_version H c s game = Some version) in
          Some \<lparr>ic_game_id = game, ic_version = version, ic_bytes = hs_size H dir (nd_world s),
             ic_modified_unix = dp_modified D dir (nd_world s), ic_configured = configured, ic_used_by = used,
             ic_unused = (\<not> configured \<and> used = []),
             ic_updatable = (configured \<and> (case tget (nd_packs s) game of None \<Rightarrow> False | Some p \<Rightarrow> is_steamcmd p))\<rparr>
      | _ \<Rightarrow> None)"

definition copy_cmp :: "installed_copy \<Rightarrow> installed_copy \<Rightarrow> ordering" where
  "copy_cmp a b = then_cmp (cmp (ic_unused b) (ic_unused a))
     (then_cmp (cmp (ic_game_id a) (ic_game_id b)) (cmp (ic_version a) (ic_version b)))"

definition installed :: "'w host \<Rightarrow> agent_config \<Rightarrow> 'w depot \<Rightarrow> ('w, installed_copy list) agent" where
  "installed H c D =
     io_bind (docker_list H) (\<lambda>cs.
     look (\<lambda>s. sort_by copy_cmp (List.map_filter (copy_row H c D s cs) (dp_content_dirs D (nd_world s)))))"

definition room_for :: "'w host \<Rightarrow> agent_config \<Rightarrow> 'w depot \<Rightarrow> nat \<Rightarrow> ('w, unit) agent" where
  "room_for H c D needed =
     io_bind (look (reserve D)) (\<lambda>r. case r of
       None \<Rightarrow> io_ok ()
     | Some (_, free, kept) \<Rightarrow>
         if fits free needed kept then io_ok ()
         else io_bind (io_try (installed H c D)) (\<lambda>copies.
           let unused = filter ic_unused (case copies of Inl _ \<Rightarrow> [] | Inr cs \<Rightarrow> cs);
               freed = sum_list (map ic_bytes unused) in
           io_err (NoRoom needed (map (\<lambda>x. (ic_game_id x, ic_version x)) unused) (fits (sat_add free freed) needed kept))))"

record capacity_resp =
  cr_max_instances :: nat
  cr_running :: nat
  cr_port_range :: port_range
  cr_memory :: "(nat \<times> nat) option"
  cr_cpus :: "nat option"
  cr_disk_free_bytes :: "nat option"
  cr_disk_reserve_bytes :: "nat option"

definition capacity :: "'w host \<Rightarrow> agent_config \<Rightarrow> 'w depot \<Rightarrow> ('w, capacity_resp) agent" where
  "capacity H c D =
     io_bind (io_try (list_servers H)) (\<lambda>rows.
     look (\<lambda>s. \<lparr>cr_max_instances = ac_max_instances c,
       cr_running = (case rows of Inl _ \<Rightarrow> 0 | Inr rs \<Rightarrow> length (filter (\<lambda>r. is_state r = Running) rs)),
       cr_port_range = pa_range (nd_ports s),
       cr_memory = (case hs_meminfo H (nd_world s) of None \<Rightarrow> None | Some t \<Rightarrow> parse_meminfo t),
       cr_cpus = hs_cpus H (nd_world s),
       cr_disk_free_bytes = map_option (\<lambda>(_, free, _). free) (reserve D s),
       cr_disk_reserve_bytes = map_option (\<lambda>(_, _, kept). kept) (reserve D s)\<rparr>))"

section \<open>Copies\<close>

definition check_spec :: "server_spec \<Rightarrow> ('w, unit) agent" where
  "check_spec spec =
     io_bind (look nd_packs) (\<lambda>packs. case tget packs (ss_game_id spec) of
       Some pk \<Rightarrow> io_of id (check_spec_against_pack spec pk)
     | None \<Rightarrow> io_ok ())"

fun make_mountpoints :: "'w host \<Rightarrow> path \<Rightarrow> str list \<Rightarrow> ('w, unit) agent" where
  "make_mountpoints H root [] = io_ok ()"
| "make_mountpoints H root (p # ps) =
     io_bind (io_of BadPlan (validate_writable_path p)) (\<lambda>_.
     let target = join root p in
     if \<not> path_starts_with target root then io_err (BadPlan EscapeAttempt)
     else io_bind (look (\<lambda>s. hs_is_dir H target (nd_world s))) (\<lambda>there.
       io_bind (if there then io_ok True else in_world (hs_make_dir H target)) (\<lambda>made.
       if made then make_mountpoints H root ps else io_err (NoDirectory target))))"

definition create_writable_mountpoints :: "'w host \<Rightarrow> agent_config \<Rightarrow> content_ref \<Rightarrow> str list \<Rightarrow> ('w, unit) agent" where
  "create_writable_mountpoints H c content paths =
     io_bind (io_of BadPlan (content_dir (ac_data_root c) content)) (\<lambda>root. make_mountpoints H root paths)"

definition ensure_content_tracked :: "'w host \<Rightarrow> agent_config \<Rightarrow> 'w depot \<Rightarrow> str \<Rightarrow> str option \<Rightarrow> ('w, nat option) agent" where
  "ensure_content_tracked H c D game version =
     io_bind (look nd_packs) (\<lambda>packs.
     io_bind (need (tget packs game) (NoPack game)) (\<lambda>pk.
     io_bind (need (runtime_for c game) (NoRuntime game)) (\<lambda>runtime.
     if version \<noteq> None \<and> pk_content pk \<noteq> MinecraftContent then io_err (OneCopy game)
     else
       io_bind (look (\<lambda>s. \<lparr>cn_game_id = game, cn_version = version_for H c s game version (gr_content_version runtime)\<rparr>)) (\<lambda>content.
       io_bind (in_world (dp_ensure D content (pk_content pk))) (\<lambda>r. case r of
         Inl e \<Rightarrow> io_err (Provisioning e)
       | Inr landed \<Rightarrow>
           io_bind (create_writable_mountpoints H c content (writable_paths_for c game pk)) (\<lambda>_. io_ok landed))))))"

definition content_is_missing :: "'w host \<Rightarrow> agent_config \<Rightarrow> 'w node \<Rightarrow> str \<Rightarrow> str option \<Rightarrow> bool" where
  "content_is_missing H c s game version =
     (case runtime_for c game of
        None \<Rightarrow> False
      | Some runtime \<Rightarrow>
          if \<not> thas (nd_packs s) game then False
          else case content_dir (ac_data_root c) \<lparr>cn_game_id = game, cn_version = version_for H c s game version (gr_content_version runtime)\<rparr> of
              Ok dir \<Rightarrow> \<not> hs_is_dir H dir (nd_world s)
            | _ \<Rightarrow> False)"

record content_state =
  ct_driver :: str
  ct_installed :: bool
  ct_version :: str
  ct_install_dir :: "path option"
  ct_must_contain :: "str list"
  ct_missing :: "str list"
  ct_note :: "str option"
  ct_fetch_allowed :: bool

definition content_state_of :: "'w host \<Rightarrow> agent_config \<Rightarrow> bool \<Rightarrow> 'w node \<Rightarrow> str \<Rightarrow> content_state option" where
  "content_state_of H c allow_fetch s game =
     (case (tget (nd_packs s) game, active_version H c s game) of
        (Some pk, Some version) \<Rightarrow>
          (case content_dir (ac_data_root c) \<lparr>cn_game_id = game, cn_version = version\<rparr> of
             Ok dir \<Rightarrow>
               let there = hs_is_dir H dir (nd_world s); manual = (case pk_content pk of Manual _ \<Rightarrow> True | _ \<Rightarrow> False);
                   paths = writable_paths_for c game pk in
               Some \<lparr>ct_driver = driver_name (pk_content pk), ct_installed = there, ct_version = version,
                 ct_install_dir = (if manual \<and> \<not> there then Some dir else None), ct_must_contain = (if manual then paths else []),
                 ct_missing = filter (\<lambda>p. there \<and> \<not> hs_is_dir H (join dir p) (nd_world s)) paths,
                 ct_note = (case pk_content pk of Manual said \<Rightarrow> said | _ \<Rightarrow> None), ct_fetch_allowed = (\<not> manual \<and> allow_fetch)\<rparr>
           | _ \<Rightarrow> None)
      | _ \<Rightarrow> None)"

text \<open>Days since 1970 to year, month and day.\<close>

definition civil_from_days :: "int \<Rightarrow> int \<times> int \<times> int" where
  "civil_from_days days =
     (let z = days + 719468; era = z div 146097; doe = z mod 146097;
          yoe = (doe - doe div 1460 + doe div 36524 - doe div 146096) div 365;
          doy = doe - (365 * yoe + yoe div 4 - yoe div 100);
          mp = (5 * doy + 2) div 153;
          d = doy - (153 * mp + 2) div 5 + 1;
          m = (if mp < 10 then mp + 3 else mp - 9) in
      (yoe + era * 400 + (if m \<le> 2 then 1 else 0), m, d))"

definition padded :: "nat \<Rightarrow> int \<Rightarrow> str" where
  "padded w n = (let d = decimal (nat n) in replicate (w - length d) 48 @ d)"

definition MAX_UPDATES_A_DAY :: nat where "MAX_UPDATES_A_DAY = 99"

definition version_stem :: "'w host \<Rightarrow> str \<Rightarrow> 'w \<Rightarrow> str" where
  "version_stem H base w =
     (case civil_from_days (int (given (hs_unix H w) 0 div 86400)) of
        (y, m, d) \<Rightarrow> base @ [45] @ padded 4 y @ padded 2 m @ padded 2 d)"

fun first_free_name :: "'w host \<Rightarrow> agent_config \<Rightarrow> 'w depot \<Rightarrow> str \<Rightarrow> str \<Rightarrow> nat list \<Rightarrow> ('w, str) agent" where
  "first_free_name H c D game stem [] = io_err (TooManyUpdates game)"
| "first_free_name H c D game stem (n # ns) =
     (let name = (if n = 1 then stem else stem @ [45] @ decimal n) in
      io_bind (io_of BadPlan (content_dir (ac_data_root c) \<lparr>cn_game_id = game, cn_version = name\<rparr>)) (\<lambda>dir.
      io_bind (look (\<lambda>s. dp_exists D dir (nd_world s))) (\<lambda>there.
      if there then first_free_name H c D game stem ns else io_ok name)))"

definition next_version_name :: "'w host \<Rightarrow> agent_config \<Rightarrow> 'w depot \<Rightarrow> str \<Rightarrow> str \<Rightarrow> ('w, str) agent" where
  "next_version_name H c D game base =
     io_bind (look (\<lambda>s. version_stem H base (nd_world s))) (\<lambda>stem. first_free_name H c D game stem [1..<Suc MAX_UPDATES_A_DAY])"

definition copy_used_by :: "'w host \<Rightarrow> agent_config \<Rightarrow> str \<Rightarrow> str \<Rightarrow> ('w, str list) agent" where
  "copy_used_by H c game version =
     io_bind (io_of BadPlan (content_dir (ac_data_root c) \<lparr>cn_game_id = game, cn_version = version\<rparr>)) (\<lambda>dir.
     io_bind (look (\<lambda>s. hs_is_dir H dir (nd_world s))) (\<lambda>there.
     if \<not> there then io_ok [] else io_bind (docker_list H) (\<lambda>cs. io_ok (mounts_under dir cs))))"

definition saved_or :: "agent_error \<Rightarrow> ('w, bool) agent \<Rightarrow> ('w, unit) agent" where
  "saved_or e f = io_bind f (\<lambda>saved. if saved then io_ok () else io_err e)"

definition take_old_away :: "'w host \<Rightarrow> agent_config \<Rightarrow> str \<Rightarrow> str \<Rightarrow> update_report \<Rightarrow> ('w, update_report) agent" where
  "take_old_away H c game current report =
     io_bind (saved_or NotRecorded (add_pending H game current)) (\<lambda>_.
     io_bind (sweep_old_copies H c) (\<lambda>_.
     io_bind (io_try (copy_used_by H c game current)) (\<lambda>r.
     let used = (case r of Inl _ \<Rightarrow> [] | Inr ids \<Rightarrow> ids) in
     io_ok (report\<lparr>ur_old_used_by := used, ur_old := (if used = [] then ascii ''removed'' else ascii ''waiting'')\<rparr>))))"

definition update_content :: "'w host \<Rightarrow> agent_config \<Rightarrow> 'w depot \<Rightarrow> str \<Rightarrow> bool \<Rightarrow> ('w, update_report) agent" where
  "update_content H c D game remove_old =
     io_bind (look nd_packs) (\<lambda>packs.
     io_bind (need (tget packs game) (NoPack game)) (\<lambda>pk.
     io_bind (need (runtime_for c game) (NoRuntime game)) (\<lambda>runtime.
     let base = gr_content_version runtime in
     io_bind (look (\<lambda>s. active_version_of H c s game base)) (\<lambda>current.
     io_bind (next_version_name H c D game base) (\<lambda>new.
     let old_ref = \<lparr>cn_game_id = game, cn_version = current\<rparr>; new_ref = \<lparr>cn_game_id = game, cn_version = new\<rparr> in
     io_bind (in_world (dp_update D old_ref new_ref (pk_content pk))) (\<lambda>r. case r of
       Inl e \<Rightarrow> io_err (Provisioning e)
     | Inr (UpToDate build) \<Rightarrow> io_ok \<lparr>ur_from_version = current, ur_to_version = None, ur_from_build = build, ur_to_build = build,
         ur_old = ascii ''kept'', ur_old_used_by = []\<rparr>
     | Inr (NewBuild from_build to_build) \<Rightarrow>
         io_bind (saved_or NotRecorded (set_active H game base new)) (\<lambda>_.
         io_bind (look (\<lambda>s. tget (nd_packs s) game)) (\<lambda>known.
         io_bind (case known of None \<Rightarrow> io_ok () | Some p \<Rightarrow> create_writable_mountpoints H c new_ref (writable_paths_for c game p)) (\<lambda>_.
         let report = \<lparr>ur_from_version = current, ur_to_version = Some new, ur_from_build = from_build, ur_to_build = to_build,
               ur_old = ascii ''kept'', ur_old_used_by = []\<rparr> in
         if remove_old then take_old_away H c game current report else io_ok report)))))))))"

definition VERIFY_REPORT_FILES :: nat where "VERIFY_REPORT_FILES = 50"

definition verify_content :: "'w host \<Rightarrow> agent_config \<Rightarrow> 'w depot \<Rightarrow> str \<Rightarrow> ('w, verify_report) agent" where
  "verify_content H c D game =
     io_bind (look nd_packs) (\<lambda>packs.
     io_bind (need (tget packs game) (NoPack game)) (\<lambda>pk.
     io_bind (need (runtime_for c game) (NoRuntime game)) (\<lambda>runtime.
     io_bind (look (\<lambda>s. active_version_of H c s game (gr_content_version runtime))) (\<lambda>current.
     io_bind (next_version_name H c D game (gr_content_version runtime)) (\<lambda>new.
     io_bind (in_world (dp_verify D \<lparr>cn_game_id = game, cn_version = current\<rparr> \<lparr>cn_game_id = game, cn_version = new\<rparr> (pk_content pk))) (\<lambda>r.
     case r of
       Inl e \<Rightarrow> io_err (Provisioning e)
     | Inr (Intact build) \<Rightarrow> io_ok \<lparr>vr_version = current, vr_repaired_version = None, vr_changed = [], vr_changed_count = 0,
         vr_from_build = build, vr_to_build = build\<rparr>
     | Inr (Repaired changed from_build to_build) \<Rightarrow> io_ok \<lparr>vr_version = current, vr_repaired_version = Some new,
         vr_changed = take VERIFY_REPORT_FILES changed, vr_changed_count = length changed, vr_from_build = from_build,
         vr_to_build = to_build\<rparr>))))))"

definition use_copy :: "'w host \<Rightarrow> agent_config \<Rightarrow> str \<Rightarrow> str \<Rightarrow> ('w, unit) agent" where
  "use_copy H c game version =
     io_bind (need (runtime_for c game) (NoRuntime game)) (\<lambda>runtime.
     let content = \<lparr>cn_game_id = game, cn_version = version\<rparr> in
     io_bind (io_of BadPlan (content_dir (ac_data_root c) content)) (\<lambda>dir.
     io_bind (look (\<lambda>s. hs_is_dir H dir (nd_world s))) (\<lambda>there.
     if \<not> there then io_err (NotInstalled content)
     else
       io_bind (look (\<lambda>s. tget (nd_packs s) game)) (\<lambda>known.
       io_bind (case known of None \<Rightarrow> io_ok () | Some p \<Rightarrow> create_writable_mountpoints H c content (writable_paths_for c game p)) (\<lambda>_.
       saved_or NotRecorded (set_active H game (gr_content_version runtime) version))))))"

section \<open>What a download task does in its turn\<close>

text \<open>A run the node itself stopped at the reserve says so instead: \<open>after_work\<close>.\<close>

definition no_room :: "'w depot \<Rightarrow> agent_error \<Rightarrow> work_result" where
  "no_room D e = RoomRefused (dp_text D e)"

definition run_fetch :: "'w host \<Rightarrow> agent_config \<Rightarrow> 'w depot \<Rightarrow> str \<Rightarrow> fetch \<Rightarrow> ('w, work_result) agent" where
  "run_fetch H c D game what = (case what of
       FetchInstall version \<Rightarrow>
         io_bind (look (\<lambda>s. content_is_missing H c s game version)) (\<lambda>missing.
         io_bind (if missing then io_try (room_for H c D 0) else io_ok (Inr ())) (\<lambda>room. case room of
           Inl e \<Rightarrow> io_ok (no_room D e)
         | Inr _ \<Rightarrow> io_bind (io_try (ensure_content_tracked H c D game version)) (\<lambda>r. io_ok (case r of
             Inl e \<Rightarrow> WorkFailed (dp_text D e)
           | Inr None \<Rightarrow> WorkDone 0 True None None
           | Inr (Some bytes) \<Rightarrow> WorkDone bytes False None None))))
     | FetchUpdate remove_old \<Rightarrow>
         io_bind (look (\<lambda>s. update_needs_of H c s game)) (\<lambda>needed.
         io_bind (io_try (room_for H c D needed)) (\<lambda>room. case room of
           Inl e \<Rightarrow> io_ok (no_room D e)
         | Inr _ \<Rightarrow> io_bind (io_try (update_content H c D game remove_old)) (\<lambda>r. io_ok (case r of
             Inl e \<Rightarrow> WorkFailed (dp_text D e)
           | Inr report \<Rightarrow> WorkDone 0 (ur_to_version report = None) (Some report) None))))
     | FetchVerify \<Rightarrow>
         io_bind (look (\<lambda>s. update_needs_of H c s game)) (\<lambda>needed.
         io_bind (io_try (room_for H c D needed)) (\<lambda>room. case room of
           Inl e \<Rightarrow> io_ok (no_room D e)
         | Inr _ \<Rightarrow> io_bind (io_try (verify_content H c D game)) (\<lambda>r. io_ok (case r of
             Inl e \<Rightarrow> WorkFailed (dp_text D e)
           | Inr report \<Rightarrow> WorkDone 0 True None (Some report))))))"

section \<open>Looking for new builds\<close>

definition steam_app :: "'w node \<Rightarrow> str \<Rightarrow> (agent_error, u32) outcome" where
  "steam_app s game =
     (case tget (nd_packs s) game of
        None \<Rightarrow> Err (NoPack game)
      | Some p \<Rightarrow> (case pk_content p of Steamcmd app _ _ \<Rightarrow> Ok app | other \<Rightarrow> Err (NothingNewer (driver_name other))))"

definition notice_for :: "'w host \<Rightarrow> 'w depot \<Rightarrow> 'w node \<Rightarrow> str \<Rightarrow> str \<Rightarrow> u32 \<Rightarrow> path \<Rightarrow> update_notice" where
  "notice_for H D s game version app dir =
     new_notice game version (dp_build_id D dir app (nd_world s)) (game_check_of (nd_updates s) game) (policy_of_game (nd_updates s) game)
       (now_unix H (nd_world s))"

definition check_for_update :: "'w host \<Rightarrow> agent_config \<Rightarrow> 'w depot \<Rightarrow> str \<Rightarrow> ('w, update_notice) agent" where
  "check_for_update H c D game =
     io_bind (look (\<lambda>s. steam_app s game)) (\<lambda>known.
     io_bind (io_of id known) (\<lambda>app.
     io_bind (look (\<lambda>s. active_version H c s game)) (\<lambda>active.
     io_bind (need active (NoRuntime game)) (\<lambda>version.
     io_bind (io_of BadPlan (content_dir (ac_data_root c) \<lparr>cn_game_id = game, cn_version = version\<rparr>)) (\<lambda>dir.
     io_bind (look (\<lambda>s. hs_is_dir H dir (nd_world s))) (\<lambda>there.
     if \<not> there then io_err (NotInstalled \<lparr>cn_game_id = game, cn_version = version\<rparr>)
     else
       io_bind (in_world (dp_latest_build D app)) (\<lambda>result.
       io_bind (look (\<lambda>s. now_unix H (nd_world s))) (\<lambda>now.
       io_bind (save_checks D (record_check game now result)) (\<lambda>_.
       look (\<lambda>s. notice_for H D s game version app dir))))))))))"

definition notice_of :: "'w host \<Rightarrow> agent_config \<Rightarrow> 'w depot \<Rightarrow> 'w node \<Rightarrow> game_pack \<Rightarrow> update_notice option" where
  "notice_of H c D s p =
     (case pk_content p of
        Steamcmd app _ _ \<Rightarrow>
          (case active_version H c s (pk_id p) of
             None \<Rightarrow> None
           | Some version \<Rightarrow>
               (case content_dir (ac_data_root c) \<lparr>cn_game_id = pk_id p, cn_version = version\<rparr> of
                  Ok dir \<Rightarrow> if hs_is_dir H dir (nd_world s) then Some (notice_for H D s (pk_id p) version app dir) else None
                | _ \<Rightarrow> None))
      | _ \<Rightarrow> None)"

definition update_notices :: "'w host \<Rightarrow> agent_config \<Rightarrow> 'w depot \<Rightarrow> 'w node \<Rightarrow> update_notice list" where
  "update_notices H c D s = List.map_filter (notice_of H c D s) (map snd (nd_packs s))"

fun check_each_due :: "'w host \<Rightarrow> agent_config \<Rightarrow> 'w depot \<Rightarrow> u32 option \<Rightarrow> int \<Rightarrow> update_notice list \<Rightarrow> ('w, unit) agent" where
  "check_each_due H c D node now [] = io_ok ()"
| "check_each_due H c D node now (n # ns) =
     io_bind (look (\<lambda>s. case check_hours (policy_of_game (nd_updates s) (un_game_id n)) node of
         None \<Rightarrow> False | Some hours \<Rightarrow> check_due (game_check_of (nd_updates s) (un_game_id n)) now hours)) (\<lambda>due.
     io_bind (if due then ignoring (check_for_update H c D (un_game_id n)) else io_ok ()) (\<lambda>_.
     check_each_due H c D node now ns))"

definition spawn_on :: "'w host \<Rightarrow> str \<Rightarrow> fetch \<Rightarrow> ('w, bool) agent" where
  "spawn_on H game what s =
     (case spawn_fetch game what (hs_clock H (nd_world s)) (nd_installs s) of (started, i) \<Rightarrow> (Inr started, s\<lparr>nd_installs := i\<rparr>))"

fun download_each :: "'w host \<Rightarrow> 'w depot \<Rightarrow> int \<Rightarrow> update_notice list \<Rightarrow> ('w, unit) agent" where
  "download_each H D now [] = io_ok ()"
| "download_each H D now (n # ns) =
     io_bind (if un_on_new_build n \<noteq> Download \<or> un_available n \<noteq> Some True then io_ok ()
       else io_bind (look (\<lambda>s. game_check_of (nd_updates s) (un_game_id n))) (\<lambda>check.
         if \<not> may_auto_download check now then io_ok ()
         else case gk_latest_build check of
             None \<Rightarrow> io_ok ()
           | Some build \<Rightarrow>
               io_bind (look (\<lambda>s. is_installing (un_game_id n) (iw_installs (nd_installs s)))) (\<lambda>running.
               if running then io_ok ()
               else io_bind (io_try (save_checks D (record_auto (un_game_id n) build now))) (\<lambda>r. case r of
                 Inl _ \<Rightarrow> io_ok ()
               | Inr _ \<Rightarrow> io_bind (spawn_on H (un_game_id n) (FetchUpdate False)) (\<lambda>_. io_ok ()))))) (\<lambda>_.
     download_each H D now ns)"

definition start_automatic_downloads :: "'w host \<Rightarrow> agent_config \<Rightarrow> 'w depot \<Rightarrow> ('w, unit) agent" where
  "start_automatic_downloads H c D =
     io_bind (look (\<lambda>s. now_unix H (nd_world s))) (\<lambda>now.
     io_bind (look (update_notices H c D)) (\<lambda>notices. download_each H D now notices))"

definition check_due_updates :: "'w host \<Rightarrow> agent_config \<Rightarrow> 'w depot \<Rightarrow> ('w, unit) agent" where
  "check_due_updates H c D =
     io_bind (look (\<lambda>s. us_check_every_hours (uc_settings (nd_updates s)))) (\<lambda>node.
     io_bind (look (\<lambda>s. now_unix H (nd_world s))) (\<lambda>now.
     io_bind (look (update_notices H c D)) (\<lambda>notices.
     io_bind (check_each_due H c D node now notices) (\<lambda>_.
     start_automatic_downloads H c D))))"

definition set_update_policy :: "'w depot \<Rightarrow> str \<Rightarrow> policy_patch \<Rightarrow> ('w, unit) agent" where
  "set_update_policy D game x =
     io_bind (look (\<lambda>s. steam_app s game)) (\<lambda>known.
     io_bind (io_of id known) (\<lambda>_.
     io_bind (look (\<lambda>s. patched (policy_of_game (nd_updates s) game) x)) (\<lambda>p.
     io_bind (io_of BadUpdate p) (\<lambda>policy. save_checks D (set_policy game policy)))))"

definition set_update_settings :: "'w depot \<Rightarrow> update_settings \<Rightarrow> ('w, unit) agent" where
  "set_update_settings D settings =
     io_bind (look (\<lambda>s. set_settings settings (nd_updates s))) (\<lambda>r.
     io_bind (io_of BadUpdate r) (\<lambda>u. save_checks D (\<lambda>_. u)))"

definition snooze_update :: "'w host \<Rightarrow> 'w depot \<Rightarrow> str \<Rightarrow> u32 option \<Rightarrow> bool \<Rightarrow> ('w, unit) agent" where
  "snooze_update H D game hours skip_build =
     io_bind (look (\<lambda>s. map_option (\<lambda>h. now_unix H (nd_world s) + int (unat h) * 3600) hours)) (\<lambda>until.
     io_bind (look (\<lambda>s. gk_latest_build (game_check_of (nd_updates s) game))) (\<lambda>latest.
     io_bind (if skip_build then need (map_option Some latest) (NeverChecked game) else io_ok None) (\<lambda>skip.
     save_checks D (snooze game until skip))))"

section \<open>Moving servers when their game's choice says so\<close>

definition ask_game :: "'w host \<Rightarrow> 'w depot \<Rightarrow> instance_status \<Rightarrow> ('w, (u8 \<times> u8) option) agent" where
  "ask_game H D r =
     (if is_state r \<noteq> Running then io_ok None
      else io_bind (look (\<lambda>s. case tget (nd_packs s) (is_game_id r) of None \<Rightarrow> None
          | Some p \<Rightarrow> (case to_profile p of Ok profile \<Rightarrow> pf_query profile | _ \<Rightarrow> None))) (\<lambda>protocol. case protocol of
        None \<Rightarrow> io_ok None
      | Some q \<Rightarrow> io_bind (io_try (on_docker (games_gateway (hs_docker H)))) (\<lambda>gw. case gw of
          Inl _ \<Rightarrow> io_ok None
        | Inr host \<Rightarrow> (case from_ports host (is_ports r) (is_port r) of
            None \<Rightarrow> io_ok None
          | Some reach \<Rightarrow> in_world (dp_ask D q (ge_host reach) (ge_port reach))))))"

text \<open>Players less bots, not below none.\<close>

definition humans_on :: "'w host \<Rightarrow> 'w depot \<Rightarrow> instance_status \<Rightarrow> ('w, u32 option) agent" where
  "humans_on H D r = io_bind (ask_game H D r) (\<lambda>stats.
     io_ok (map_option (\<lambda>(players, bots). if bots \<ge> players then 0 else ucast (players - bots)) stats))"

definition has_failed :: "move_state \<Rightarrow> bool" where
  "has_failed st = (case st of Failed _ \<Rightarrow> True | _ \<Rightarrow> False)"

definition did_not_move :: "move_state \<Rightarrow> bool" where
  "did_not_move st = (case st of RolledBack \<Rightarrow> True | Failed _ \<Rightarrow> True | _ \<Rightarrow> False)"

definition move_one :: "'w host \<Rightarrow> agent_config \<Rightarrow> 'w depot \<Rightarrow> move_timing \<Rightarrow> instance_status list \<Rightarrow> str \<Rightarrow> bool \<Rightarrow> game_policy \<Rightarrow> str
    \<Rightarrow> managed_container \<Rightarrow> ('w, unit) agent" where
  "move_one H c D t rows game can_warn policy new x =
     (case copy_of c game x of
        None \<Rightarrow> io_ok ()
      | Some old \<Rightarrow>
          if old = new then io_ok ()
          else io_bind (look (\<lambda>s. case tget (nd_move_log s) (mg_instance_id x) of None \<Rightarrow> False
              | Some r \<Rightarrow> mr_to r = new \<and> did_not_move (mr_state r))) (\<lambda>tried.
            if tried then io_ok ()
            else if mg_state x \<noteq> Running then log_move (mg_instance_id x) game old new Waiting
            else
              io_bind (case find_server (mg_instance_id x) rows of None \<Rightarrow> io_ok None | Some r \<Rightarrow> humans_on H D r) (\<lambda>humans.
              io_bind (look (\<lambda>s. move_decision policy humans (now_unix H (nd_world s)) can_warn)) (\<lambda>decision. case decision of
                Stay \<Rightarrow> io_ok ()
              | Wait _ \<Rightarrow> log_move (mg_instance_id x) game old new Waiting
              | _ \<Rightarrow>
                  io_bind (io_try (move_instance H c t (mg_instance_id x) (decision = WarnThenMove))) (\<lambda>r. case r of
                    Inr _ \<Rightarrow> io_ok ()
                  | Inl _ \<Rightarrow>
                      io_bind (look (\<lambda>s. case tget (nd_move_log s) (mg_instance_id x) of None \<Rightarrow> False
                          | Some m \<Rightarrow> has_failed (mr_state m))) (\<lambda>failed.
                      if failed then io_ok () else log_move (mg_instance_id x) game old new (Failed False)))))))"

fun move_each :: "'w host \<Rightarrow> agent_config \<Rightarrow> 'w depot \<Rightarrow> move_timing \<Rightarrow> instance_status list \<Rightarrow> str \<Rightarrow> bool \<Rightarrow> game_policy \<Rightarrow> str
    \<Rightarrow> managed_container list \<Rightarrow> ('w, unit) agent" where
  "move_each H c D t rows game can_warn policy new [] = io_ok ()"
| "move_each H c D t rows game can_warn policy new (x # xs) =
     io_bind (move_one H c D t rows game can_warn policy new x) (\<lambda>_. move_each H c D t rows game can_warn policy new xs)"

fun move_each_game :: "'w host \<Rightarrow> agent_config \<Rightarrow> 'w depot \<Rightarrow> move_timing \<Rightarrow> managed_container list \<Rightarrow> instance_status list
    \<Rightarrow> (str \<times> bool) list \<Rightarrow> ('w, unit) agent" where
  "move_each_game H c D t cs rows [] = io_ok ()"
| "move_each_game H c D t cs rows ((game, can_warn) # games) =
     io_bind (look (\<lambda>s. policy_of_game (nd_updates s) game)) (\<lambda>policy.
     io_bind (look (\<lambda>s. if gp_move_servers policy = Never then None
         else case active_version H c s game of None \<Rightarrow> None
           | Some new \<Rightarrow> (case content_dir (ac_data_root c) \<lparr>cn_game_id = game, cn_version = new\<rparr> of
               Ok dir \<Rightarrow> if hs_is_dir H dir (nd_world s) then Some new else None | _ \<Rightarrow> None))) (\<lambda>target.
     io_bind (case target of None \<Rightarrow> io_ok ()
       | Some new \<Rightarrow> move_each H c D t rows game can_warn policy new (filter (\<lambda>x. mg_game_id x = Some game) cs)) (\<lambda>_.
     move_each_game H c D t cs rows games)))"

definition move_servers_pass :: "'w host \<Rightarrow> agent_config \<Rightarrow> 'w depot \<Rightarrow> move_timing \<Rightarrow> ('w, unit) agent" where
  "move_servers_pass H c D t =
     io_bind (io_try (docker_list H)) (\<lambda>listed. case listed of
       Inl _ \<Rightarrow> io_ok ()
     | Inr cs \<Rightarrow> io_bind (io_try (list_servers H)) (\<lambda>r. case r of
         Inl _ \<Rightarrow> io_ok ()
       | Inr rows \<Rightarrow>
           io_bind (change (\<lambda>s. s\<lparr>nd_move_log := tretain (\<lambda>i m. list_ex (\<lambda>x. mg_instance_id x = i) cs \<and> mr_state m \<noteq> Waiting) (nd_move_log s)\<rparr>)) (\<lambda>_.
           io_bind (look (\<lambda>s. map (\<lambda>(_, p). (pk_id p, pk_console p \<noteq> None)) (nd_packs s))) (\<lambda>games.
           move_each_game H c D t cs rows games))))"

section \<open>Leftover instance directories\<close>

definition ORPHAN_MIN_AGE :: duration where "ORPHAN_MIN_AGE = secs 600"

record orphan_report =
  or_count :: nat
  or_bytes :: nat
  or_skipped_recent :: nat
  or_failed :: nat

definition no_orphans :: orphan_report where
  "no_orphans = \<lparr>or_count = 0, or_bytes = 0, or_skipped_recent = 0, or_failed = 0\<rparr>"

definition recently_touched :: "'w depot \<Rightarrow> path \<Rightarrow> 'w \<Rightarrow> bool" where
  "recently_touched D p w = (case dp_age D p w of None \<Rightarrow> False | Some age \<Rightarrow> age < ORPHAN_MIN_AGE)"

definition orphan_dirs :: "'w host \<Rightarrow> agent_config \<Rightarrow> 'w depot \<Rightarrow> ('w, path list) agent" where
  "orphan_dirs H c D =
     io_bind (docker_list H) (\<lambda>cs.
     look (\<lambda>s. orphan_instance_dirs (ac_data_root c) (map mg_instance_id cs) (dp_instance_dirs D (nd_world s))))"

fun report_each :: "'w host \<Rightarrow> 'w depot \<Rightarrow> 'w \<Rightarrow> path list \<Rightarrow> orphan_report \<Rightarrow> orphan_report" where
  "report_each H D w [] r = r"
| "report_each H D w (d # ds) r = report_each H D w ds
     (if recently_touched D d w then r\<lparr>or_skipped_recent := or_skipped_recent r + 1\<rparr>
      else r\<lparr>or_count := or_count r + 1, or_bytes := or_bytes r + hs_size H d w\<rparr>)"

definition report_orphans :: "'w host \<Rightarrow> agent_config \<Rightarrow> 'w depot \<Rightarrow> ('w, orphan_report) agent" where
  "report_orphans H c D = io_bind (orphan_dirs H c D) (\<lambda>dirs. look (\<lambda>s. report_each H D (nd_world s) dirs no_orphans))"

fun clean_each :: "'w host \<Rightarrow> 'w depot \<Rightarrow> path list \<Rightarrow> orphan_report \<Rightarrow> ('w, orphan_report) agent" where
  "clean_each H D [] r = io_ok r"
| "clean_each H D (d # ds) r =
     io_bind (look (\<lambda>s. (recently_touched D d (nd_world s), hs_size H d (nd_world s)))) (\<lambda>(recent, bytes).
     if recent then clean_each H D ds (r\<lparr>or_skipped_recent := or_skipped_recent r + 1\<rparr>)
     else io_bind (in_world (hs_remove_tree H d)) (\<lambda>gone.
       clean_each H D ds (if gone then r\<lparr>or_count := or_count r + 1, or_bytes := or_bytes r + bytes\<rparr>
         else r\<lparr>or_failed := or_failed r + 1\<rparr>)))"

definition clean_orphans :: "'w host \<Rightarrow> agent_config \<Rightarrow> 'w depot \<Rightarrow> ('w, orphan_report) agent" where
  "clean_orphans H c D = io_bind (orphan_dirs H c D) (\<lambda>dirs. clean_each H D dirs no_orphans)"

end
