(* ===== verification/Update_Safety.thy ===== *)
theory Update_Safety
  imports Node_Updates Node_Safety
begin

text \<open>
  What \<open>Node_Updates\<close> can be held to: the reserve a download leaves, what a download started by itself may do, and where an
  update or a cleanup says or does something else than it means.
\<close>

section \<open>The reserve\<close>

text \<open>What must be free beside the reserve for a download that is held to it at all: nothing for a game that is not on the disk, and
  for an update or a check of the files the copy in use, whole, and a tenth of it in steps of ten bytes.\<close>

definition copy_on_disk :: "'w host \<Rightarrow> agent_config \<Rightarrow> 'w node \<Rightarrow> str \<Rightarrow> nat \<Rightarrow> bool" where
  "copy_on_disk H c s game len \<longleftrightarrow> (\<exists>v dir. active_version H c s game = Some v
     \<and> content_dir (ac_data_root c) \<lparr>cn_game_id = game, cn_version = v\<rparr> = Ok dir \<and> hs_is_dir H dir (nd_world s)
     \<and> len = hs_size H dir (nd_world s))"

definition must_be_free :: "'w host \<Rightarrow> agent_config \<Rightarrow> 'w node \<Rightarrow> str \<Rightarrow> fetch \<Rightarrow> nat \<Rightarrow> bool" where
  "must_be_free H c s game what n = (case what of
       FetchInstall v \<Rightarrow> content_is_missing H c s game v \<and> n = 0
     | _ \<Rightarrow> \<exists>len. copy_on_disk H c s game len \<and> n = len + len div 100 * 10)"

definition kept_free :: "'w node \<Rightarrow> nat \<Rightarrow> nat" where
  "kept_free s whole = (case us_reserve_bytes (uc_settings (nd_updates s)) of
     Some b \<Rightarrow> b | None \<Rightarrow> max (whole div 100 * 10) (5 * 1024 * 1024 * 1024))"

lemma kept_free_reserve: "kept_free s whole = reserve_on (uc_settings (nd_updates s)) whole"
  by (simp add: kept_free_def reserve_on_def default_reserve_def DEFAULT_RESERVE_PERCENT_def DEFAULT_RESERVE_MIN_BYTES_def GIB_def
      split: option.split)

definition fetch_needs :: "'w host \<Rightarrow> agent_config \<Rightarrow> 'w node \<Rightarrow> str \<Rightarrow> fetch \<Rightarrow> nat" where
  "fetch_needs H c s game what = (case what of FetchInstall _ \<Rightarrow> 0 | _ \<Rightarrow> update_needs_of H c s game)"

lemma copy_needs: "copy_on_disk H c s game len \<Longrightarrow> update_needs_of H c s game = sat_add len (len div 100 * 10)"
  by (auto simp: copy_on_disk_def update_needs_of_def update_needs_def UPDATE_DELTA_PERCENT_def)

lemma fetch_needs_free:
  assumes "must_be_free H c s game what n" "free < 2 ^ 64 - 1"
  shows "Updates.fits free (fetch_needs H c s game what) kept \<longleftrightarrow> n + kept \<le> free"
proof -
  have "fetch_needs H c s game what = min n (2 ^ 64 - 1)"
    using assms(1) by (cases what) (auto simp: must_be_free_def fetch_needs_def copy_needs sat_add_def)
  then show ?thesis using assms(2) by (cases "n \<le> 2 ^ 64 - 1") (auto simp: Updates.fits_def sat_add_def)
qed

lemma room_refused:
  assumes "dp_storage D (nd_world s) = Some (whole, free)" "\<not> Updates.fits free needed (reserve_on (uc_settings (nd_updates s)) whole)"
  shows "\<exists>e. room_for H c D needed s = (Inl e, snd (docker_list H s))"
  using assms by (auto simp: room_for_def reserve_def installed_def io_bind_def look_def io_try_def io_err_def Let_def split: prod.split sum.split)

lemma fetch_refused:
  assumes "\<exists>e. room_for H c D (fetch_needs H c s game what) s = (Inl e, s')" "\<forall>v. what = FetchInstall v \<longrightarrow> content_is_missing H c s game v"
  shows "\<exists>e. run_fetch H c D game what s = (Inr (RoomRefused e), s')"
  using assms by (cases what)
    (auto simp: run_fetch_def fetch_needs_def io_bind_def look_def io_try_def io_ok_def no_room_def)

lemma fetch_let_in:
  assumes "room_for H c D (fetch_needs H c s game what) s = (Inr (), s')"
  shows "fst (run_fetch H c D game what s) \<noteq> Inr (RoomRefused e)"
  using assms by (cases what)
    (auto simp: run_fetch_def fetch_needs_def io_bind_def look_def io_try_def io_ok_def split: prod.splits sum.splits option.splits)

lemma room_given:
  assumes "dp_storage D (nd_world s) = Some (whole, free)" "Updates.fits free needed (reserve_on (uc_settings (nd_updates s)) whole)"
  shows "room_for H c D needed s = (Inr (), s)"
  using assms by (simp add: room_for_def reserve_def io_bind_def look_def io_ok_def)

lemma install_fits: "must_be_free H c s game what n \<Longrightarrow> \<forall>v. what = FetchInstall v \<longrightarrow> content_is_missing H c s game v"
  by (auto simp: must_be_free_def)

section \<open>Downloads a node starts by itself\<close>

definition auto_ok :: "'w node \<Rightarrow> update_notice list \<Rightarrow> int \<Rightarrow> 'w node \<Rightarrow> bool" where
  "auto_ok s0 ns now s \<longleftrightarrow> nd_active s = nd_active s0 \<and> (\<forall>j\<in>set (iw_jobs (nd_installs s)). j \<in> set (iw_jobs (nd_installs s0))
     \<or> jb_fetch j = FetchUpdate False \<and> gk_auto_unix (game_check_of (nd_updates s) (jb_game j)) = Some now
       \<and> (\<exists>n\<in>set ns. un_game_id n = jb_game j \<and> un_on_new_build n = Download))"

lemma auto_same: "auto_ok s0 ns now s \<Longrightarrow> same s s' \<Longrightarrow> auto_ok s0 ns now s'"
  using same_fields [of s s'] by (simp add: auto_ok_def)

lemma check_elsewhere: "game_check_of (put_check g f u) h = (if h = g then f (game_check_of u g) else game_check_of u h)"
  by (simp add: put_check_def game_check_of_def given_def tbl.get_put)

lemma auto_record:
  assumes "auto_ok s0 ns now s"
  shows "auto_ok s0 ns now (s\<lparr>nd_updates := record_auto g build now (nd_updates s)\<rparr>)"
  using assms by (auto simp: auto_ok_def record_auto_def check_elsewhere)

lemma runs_record:
  "runs (auto_ok s0 ns now) (save_checks D (record_auto g build now))
     (\<lambda>r s. auto_ok s0 ns now s \<and> gk_auto_unix (game_check_of (nd_updates s) g) = Some now)"
  unfolding runs_def
proof (intro allI impI)
  fix s assume a: "auto_ok s0 ns now s"
  let ?s = "s\<lparr>nd_updates := record_auto g build now (nd_updates s)\<rparr>"
  have "auto_ok s0 ns now (?s\<lparr>nd_world := w\<rparr>)" for w by (rule auto_same [OF auto_record [OF a]]) auto
  then show "case save_checks D (record_auto g build now) s of (r, s) \<Rightarrow> auto_ok s0 ns now s \<and> gk_auto_unix (game_check_of (nd_updates s) g) = Some now"
    by (auto simp: save_checks_def io_bind_def change_def look_def in_world_def io_ok_def io_err_def record_auto_def check_elsewhere split: prod.split)
qed

lemma spawn_jobs:
  "spawn_fetch g what now w = (b, w') \<Longrightarrow> \<exists>js. iw_jobs w' = iw_jobs w @ js \<and> (\<forall>j\<in>set js. jb_game j = g \<and> jb_fetch j = what)"
  by (auto simp: spawn_fetch_def split: prod.splits option.splits)

lemma runs_spawn:
  assumes "n \<in> set ns" "un_on_new_build n = Download"
  shows "runs (\<lambda>s. auto_ok s0 ns now s \<and> gk_auto_unix (game_check_of (nd_updates s) (un_game_id n)) = Some now)
     (spawn_on H (un_game_id n) (FetchUpdate False)) (\<lambda>r s. auto_ok s0 ns now s)"
  unfolding runs_def
proof (intro allI impI)
  fix s assume a: "auto_ok s0 ns now s \<and> gk_auto_unix (game_check_of (nd_updates s) (un_game_id n)) = Some now"
  obtain b w' where w: "spawn_fetch (un_game_id n) (FetchUpdate False) (hs_clock H (nd_world s)) (nd_installs s) = (b, w')"
    by (cases "spawn_fetch (un_game_id n) (FetchUpdate False) (hs_clock H (nd_world s)) (nd_installs s)")
  obtain js where "iw_jobs w' = iw_jobs (nd_installs s) @ js" "\<forall>j\<in>set js. jb_game j = un_game_id n \<and> jb_fetch j = FetchUpdate False"
    using spawn_jobs [OF w] by blast
  then show "case spawn_on H (un_game_id n) (FetchUpdate False) s of (r, s) \<Rightarrow> auto_ok s0 ns now s"
    using a assms by (auto simp: spawn_on_def w auto_ok_def)
qed

lemma runs_try: "runs P f (\<lambda>r s. Q s) \<Longrightarrow> runs P (io_try f) (\<lambda>r s. Q s)"
  by (auto simp: runs_def io_try_def split: prod.split)

lemma runs_look: "(\<And>s. P s \<Longrightarrow> runs P (g (f s)) Q) \<Longrightarrow> runs P (io_bind (look f) g) Q"
  by (auto simp: runs_def io_bind_def look_def)

lemma runs_always: "runs P f (\<lambda>r s. Q s) \<Longrightarrow> (\<And>a. runs Q (g a) R) \<Longrightarrow> (\<And>e s. Q s \<Longrightarrow> R (Inl e) s) \<Longrightarrow> runs P (io_bind f g) R"
  by (rule runs_bind [where R = "\<lambda>_. Q"]) (auto elim: runs_mono split: sum.split)

lemma runs_start_one:
  assumes "n \<in> set ns" "un_on_new_build n = Download"
  shows "runs (auto_ok s0 ns now)
    (io_bind (io_try (save_checks D (record_auto (un_game_id n) build now))) (\<lambda>r. case r of
         Inl _ \<Rightarrow> io_ok ()
       | Inr _ \<Rightarrow> io_bind (spawn_on H (un_game_id n) (FetchUpdate False)) (\<lambda>_. io_ok ())))
    (\<lambda>r s. auto_ok s0 ns now s)"
proof (rule runs_always [OF runs_try [OF runs_record]])
  show "runs (\<lambda>s. auto_ok s0 ns now s \<and> gk_auto_unix (game_check_of (nd_updates s) (un_game_id n)) = Some now)
      (case r of Inl _ \<Rightarrow> io_ok () | Inr _ \<Rightarrow> io_bind (spawn_on H (un_game_id n) (FetchUpdate False)) (\<lambda>_. io_ok ()))
      (\<lambda>r s. auto_ok s0 ns now s)" for r :: "agent_error + unit"
    by (cases r) (auto intro!: runs_leaf runs_always [OF runs_spawn [OF assms]])
qed simp

lemma runs_download_each:
  "set todo \<subseteq> set ns \<Longrightarrow> runs (auto_ok s0 ns now) (download_each H D now todo) (\<lambda>r s. auto_ok s0 ns now s)"
proof (induction todo)
  case (Cons n todo)
  show ?case unfolding download_each.simps
  proof (rule runs_always [where Q = "auto_ok s0 ns now"])
    show "runs (auto_ok s0 ns now) (if un_on_new_build n \<noteq> Download \<or> un_available n \<noteq> Some True then io_ok ()
       else io_bind (look (\<lambda>s. game_check_of (nd_updates s) (un_game_id n))) (\<lambda>check.
         if \<not> may_auto_download check now then io_ok ()
         else case gk_latest_build check of
             None \<Rightarrow> io_ok ()
           | Some build \<Rightarrow>
               io_bind (look (\<lambda>s. is_installing (un_game_id n) (iw_installs (nd_installs s)))) (\<lambda>running.
               if running then io_ok ()
               else io_bind (io_try (save_checks D (record_auto (un_game_id n) build now))) (\<lambda>r. case r of
                 Inl _ \<Rightarrow> io_ok ()
               | Inr _ \<Rightarrow> io_bind (spawn_on H (un_game_id n) (FetchUpdate False)) (\<lambda>_. io_ok ()))))) (\<lambda>r s. auto_ok s0 ns now s)"
      using Cons.prems by (auto intro!: runs_leaf runs_look runs_start_one split: option.split)
    show "runs (auto_ok s0 ns now) (download_each H D now todo) (\<lambda>r s. auto_ok s0 ns now s)"
      using Cons.IH Cons.prems by simp
  qed simp
qed (auto intro: runs_leaf)

lemma notice_policy:
  assumes "n \<in> set (update_notices H c D s)"
  shows "un_on_new_build n = gp_on_new_build (policy_of_game (nd_updates s) (un_game_id n))"
proof -
  obtain p where "notice_of H c D s p = Some n" using assms by (auto simp: update_notices_def set_map_filter)
  then have "\<exists>g v app dir. n = notice_for H D s g v app dir"
    by (auto simp: notice_of_def split: pack_content.splits option.splits outcome.splits if_splits)
  then show ?thesis by (auto simp: notice_for_def new_notice_def)
qed

lemma same_active: "same s s' \<Longrightarrow> nd_active s' = nd_active s" and same_moving: "same s s' \<Longrightarrow> nd_moving s' = nd_moving s"
  by (simp_all add: same_fields)

section \<open>An update whose last step fails\<close>

lemma quiet_mountpoints [agent_quiet]: "quiet_op (make_mountpoints H root ps)"
  by (induction ps) (auto intro!: agent_quiet simp: Let_def)

lemma quiet_create_mountpoints [agent_quiet]: "quiet_op (create_writable_mountpoints H c content ps)"
  unfolding create_writable_mountpoints_def by (intro agent_quiet)

lemma names_read_only: "first_free_name H c D game stem ns s = (r, s') \<Longrightarrow> s' = s"
  by (induction ns) (auto simp: io_bind_def io_of_def io_err_def io_ok_def look_def Let_def split: outcome.splits if_splits)

lemma name_is_free:
  "first_free_name H c D game stem ns s = (Inr name, s') \<Longrightarrow>
     \<exists>dir. content_dir (ac_data_root c) \<lparr>cn_game_id = game, cn_version = name\<rparr> = Ok dir \<and> \<not> dp_exists D dir (nd_world s)"
  by (induction ns) (auto simp: io_bind_def io_of_def io_err_def io_ok_def look_def Let_def split: outcome.splits if_splits)

text \<open>Asked to make a new copy ready; \<open>s2\<close> is the node once the copy is the one in use.\<close>

definition in_use :: "str \<Rightarrow> str \<Rightarrow> str \<Rightarrow> 'w \<Rightarrow> 'w node \<Rightarrow> 'w node" where
  "in_use game base new w s = s\<lparr>nd_active := tput game \<lparr>ae_base = base, ae_active = new,
     ae_pending = filter (\<lambda>v. v \<noteq> new) (case tget (nd_active s) game of Some e \<Rightarrow> ae_pending e | None \<Rightarrow> [])\<rparr> (nd_active s), nd_world := w\<rparr>"

lemma set_active_done:
  assumes "hs_save_active H (nd_active (in_use game base new w1 s)) w1 = (True, w2)"
  shows "set_active H game base new (s\<lparr>nd_world := w1\<rparr>) = (Inr True, in_use game base new w2 s)"
  using assms by (simp add: set_active_def save_active_def io_bind_def change_def look_def in_world_def in_use_def Let_def)

lemma use_copy_fails:
  assumes "tget (nd_packs s) game = Some p" "runtime_for c game = Some r"
    "content_dir (ac_data_root c) \<lparr>cn_game_id = game, cn_version = version\<rparr> = Ok dir" "hs_is_dir H dir (nd_world s)"
    "create_writable_mountpoints H c \<lparr>cn_game_id = game, cn_version = version\<rparr> (writable_paths_for c game p) s = (Inl e, s')"
  shows "use_copy H c game version s = (Inl e, s')"
  unfolding use_copy_def io_bind_def need_def io_ok_def io_of_def look_def Let_def using assms by simp

lemma update_after_build:
  assumes "tget (nd_packs s) game = Some p" "runtime_for c game = Some r"
    "next_version_name H c D game (gr_content_version r) s = (Inr new, s)"
    "dp_update D \<lparr>cn_game_id = game, cn_version = active_version_of H c s game (gr_content_version r)\<rparr> \<lparr>cn_game_id = game, cn_version = new\<rparr>
       (pk_content p) (nd_world s) = (Inr (NewBuild f t), w1)"
    "hs_save_active H (nd_active (in_use game (gr_content_version r) new w1 s)) w1 = (True, w2)"
    "create_writable_mountpoints H c \<lparr>cn_game_id = game, cn_version = new\<rparr> (writable_paths_for c game p)
       (in_use game (gr_content_version r) new w2 s) = (Inl e, s3)"
  shows "update_content H c D game remove_old s = (Inl e, s3)"
  using assms(1-4,6) set_active_done [OF assms(5)]
  by (simp add: update_content_def io_bind_def look_def need_def io_ok_def in_world_def saved_or_def Let_def) (simp add: in_use_def)

section \<open>An old copy that is still there\<close>

definition docker_down :: "'w host \<Rightarrow> bool" where
  "docker_down H \<longleftrightarrow> (\<forall>w. \<exists>e. dk_list (hs_docker H) MANAGED_LABEL w = (Inl e, w))"

definition saves_active :: "'w host \<Rightarrow> path \<Rightarrow> bool" where
  "saves_active H dir \<longleftrightarrow> (\<forall>t w. \<exists>w'. hs_save_active H t w = (True, w') \<and> hs_is_dir H dir w' = hs_is_dir H dir w)"

lemma list_down: "docker_down H \<Longrightarrow> \<exists>e. docker_list H s = (Inl e, s)"
proof -
  assume "docker_down H"
  then obtain e where "dk_list (hs_docker H) MANAGED_LABEL (nd_world s) = (Inl e, nd_world s)" by (auto simp: docker_down_def)
  then show ?thesis by (simp add: docker_list_def on_docker_def list_managed_def ask_daemon_def raw_def io_bind_def io_err_def io_ok_def)
qed

definition old_kept :: "'w host \<Rightarrow> path \<Rightarrow> str \<Rightarrow> str \<Rightarrow> 'w node \<Rightarrow> bool" where
  "old_kept H dir game old s \<longleftrightarrow> hs_is_dir H dir (nd_world s) \<and> (\<exists>e. tget (nd_active s) game = Some e \<and> ae_active e \<noteq> old \<and> old \<in> set (ae_pending e))"

lemma delete_down:
  assumes "docker_down H" "content_dir (ac_data_root c) \<lparr>cn_game_id = game, cn_version = old\<rparr> = Ok dir" "hs_is_dir H dir (nd_world s)"
  shows "delete_content H c game old s = (Inr (Inl DeleteOther), s)"
proof -
  obtain e where "docker_list H s = (Inl e, s)" using list_down [OF assms(1)] by blast
  then show ?thesis using assms(2,3) by (simp add: delete_content_def io_bind_def look_def io_try_def io_ok_def)
qed

lemma id_no_panic: "content_dir root content \<noteq> Panic"
proof -
  have "plan_id i = Ok () \<or> (\<exists>e. plan_id i = Err e)" for i
    by (auto simp: plan_id_def validate_id_def Let_def split: if_splits)
  then show ?thesis by (metis and_then.simps content_dir_def outcome.distinct(3,5))
qed

lemma delete_down_quiet: "docker_down H \<Longrightarrow> \<exists>e. delete_content H c game old s = (Inr (Inl e), s)"
proof -
  assume down: "docker_down H"
  obtain e where "docker_list H s = (Inl e, s)" using list_down [OF down] by blast
  then show ?thesis
    by (auto simp: delete_content_def io_bind_def look_def io_try_def io_ok_def id_no_panic split: outcome.split)
qed

lemma kept_remove:
  assumes "saves_active H dir" "old_kept H dir game old s" "g = game \<longrightarrow> v \<noteq> old"
  shows "\<exists>s'. remove_pending H g v s = (Inr True, s') \<and> old_kept H dir game old s'"
proof -
  have ok: "\<exists>w'. hs_save_active H t w = (True, w') \<and> hs_is_dir H dir w' = hs_is_dir H dir w" for t w
    using assms(1) by (simp add: saves_active_def)
  show ?thesis
  proof (cases "tget (nd_active s) g")
    case None
    then show ?thesis using assms(2) by (simp add: remove_pending_def io_bind_def look_def io_ok_def)
  next
    case (Some e)
    let ?t = "tput g (e\<lparr>ae_pending := filter (\<lambda>x. x \<noteq> v) (ae_pending e)\<rparr>) (nd_active s)"
    obtain w' where "hs_save_active H ?t (nd_world s) = (True, w')" "hs_is_dir H dir w' = hs_is_dir H dir (nd_world s)" using ok by blast
    then show ?thesis using Some assms(2,3)
      by (auto simp: remove_pending_def save_active_def io_bind_def look_def change_def in_world_def old_kept_def tbl.get_put)
  qed
qed

lemma sweep_down:
  assumes "docker_down H" "saves_active H dir" "content_dir (ac_data_root c) \<lparr>cn_game_id = game, cn_version = old\<rparr> = Ok dir"
  shows "old_kept H dir game old s \<Longrightarrow> \<exists>s'. sweep_each H c ps s = (Inr (), s') \<and> old_kept H dir game old s'"
proof (induction ps arbitrary: s)
  case (Cons gv ps)
  obtain g v where gv: "gv = (g, v)" by (cases gv)
  obtain e where e: "delete_content H c g v s = (Inr (Inl e), s)" using delete_down_quiet [OF assms(1)] by blast
  have same: "e = DeleteOther" if "g = game" "v = old"
  proof -
    have "hs_is_dir H dir (nd_world s)" using Cons.prems by (simp add: old_kept_def)
    then show ?thesis using delete_down [OF assms(1,3)] e that by simp
  qed
  let ?one = "if active_version H c s g = Some v then io_ok ()
    else io_bind (delete_content H c g v) (\<lambda>r. case r of
           Inr _ \<Rightarrow> io_bind (remove_pending H g v) (\<lambda>_. io_ok ())
         | Inl CopyNotInstalled \<Rightarrow> io_bind (remove_pending H g v) (\<lambda>_. io_ok ())
         | Inl (BadCopyId _) \<Rightarrow> io_bind (remove_pending H g v) (\<lambda>_. io_ok ())
         | Inl _ \<Rightarrow> io_ok ())"
  have "\<exists>s1. ?one s = (Inr (), s1) \<and> old_kept H dir game old s1"
  proof (cases "e = DeleteOther \<or> (\<exists>ids. e = InUse ids) \<or> active_version H c s g = Some v")
    case True
    then show ?thesis using e Cons.prems by (auto simp: io_bind_def io_ok_def)
  next
    case False
    then have "g = game \<longrightarrow> v \<noteq> old" using same by blast
    then obtain s1 where "remove_pending H g v s = (Inr True, s1)" "old_kept H dir game old s1"
      using kept_remove [OF assms(2) Cons.prems] by blast
    then show ?thesis using e False by (cases e) (auto simp: io_bind_def io_ok_def)
  qed
  then obtain s1 where one: "?one s = (Inr (), s1)" "old_kept H dir game old s1" by blast
  obtain s' where "sweep_each H c ps s1 = (Inr (), s')" "old_kept H dir game old s'" using Cons.IH [OF one(2)] by blast
  then show ?case using one(1) by (auto simp: gv io_bind_def look_def)
qed (auto simp: io_ok_def)

lemma old_reported_removed:
  assumes "docker_down H" "saves_active H dir" "content_dir (ac_data_root c) \<lparr>cn_game_id = game, cn_version = old\<rparr> = Ok dir"
    "hs_is_dir H dir (nd_world s)" "tget (nd_active s) game = Some e" "ae_active e \<noteq> old"
  shows "\<exists>s'. take_old_away H c game old report s = (Inr (report\<lparr>ur_old_used_by := [], ur_old := ascii ''removed''\<rparr>), s') \<and> old_kept H dir game old s'"
proof -
  let ?e = "if ae_active e \<noteq> old \<and> old \<notin> set (ae_pending e) then e\<lparr>ae_pending := ae_pending e @ [old]\<rparr> else e"
  obtain w' where w: "hs_save_active H (tput game ?e (nd_active s)) (nd_world s) = (True, w')" "hs_is_dir H dir w'"
    using assms(2,4) by (auto simp: saves_active_def)
  let ?s = "s\<lparr>nd_active := tput game ?e (nd_active s), nd_world := w'\<rparr>"
  have add: "add_pending H game old s = (Inr True, ?s)"
    using assms(5) w(1) by (simp add: add_pending_def save_active_def io_bind_def look_def change_def in_world_def)
  have kept: "old_kept H dir game old ?s" using w(2) assms(6) by (auto simp: old_kept_def tbl.get_put)
  obtain s' where swept: "sweep_each H c (pending (nd_active ?s)) ?s = (Inr (), s')" "old_kept H dir game old s'"
    using sweep_down [OF assms(1-3) kept] by blast
  obtain d where "docker_list H s' = (Inl d, s')" using list_down [OF assms(1)] by blast
  moreover have "hs_is_dir H dir (nd_world s')" using swept(2) by (simp add: old_kept_def)
  ultimately have "copy_used_by H c game old s' = (Inl d, s')"
    using assms(3) by (simp add: copy_used_by_def io_bind_def io_of_def io_ok_def look_def)
  then show ?thesis using add swept
    by (simp add: take_old_away_def saved_or_def io_bind_def io_ok_def sweep_old_copies_def look_def io_try_def Let_def)
qed

lemma pending_member:
  assumes "(game, e) \<in> set t" "ae_active e \<noteq> old" "old \<in> set (ae_pending e)" shows "(game, old) \<in> set (pending t)"
  using assms unfolding pending_def by (intro UN_I [of "(game, e)", folded set_concat] | auto intro!: bexI [of _ "(game, e)"])+

section \<open>Cleaning up\<close>

text \<open>A move without a warning, in two: up to the answer to the removal of the old container, and from it on. Other tasks of the
  node run between the two, as each waits for Docker.\<close>

definition pinned :: "str \<Rightarrow> str \<Rightarrow> str \<Rightarrow> str \<Rightarrow> 'w node \<Rightarrow> 'w node" where
  "pinned i game old new s = s\<lparr>nd_moving := tput i \<lparr>mf_game_id = game, mf_from = old, mf_to = new\<rparr> (nd_moving s)\<rparr>"

definition until_removed :: "'w host \<Rightarrow> str \<Rightarrow> str \<Rightarrow> str \<Rightarrow> str \<Rightarrow> ('w, agent_error + unit) agent" where
  "until_removed H i game old new =
     io_bind (log_move i game old new Moving) (\<lambda>_.
     io_bind (mesh_stop H i) (\<lambda>_.
     io_bind (ignoring (on_docker (rt_stop (hs_docker H) i))) (\<lambda>_.
     io_try (on_docker (rt_remove (hs_docker H) i)))))"

definition from_removed :: "'w host \<Rightarrow> agent_config \<Rightarrow> move_timing \<Rightarrow> str \<Rightarrow> str \<Rightarrow> str \<Rightarrow> str \<Rightarrow> server_spec \<Rightarrow> ('w, move_outcome) agent" where
  "from_removed H c t i game old new spec =
     io_bind (io_try (create_on H c spec (Some new) True)) (\<lambda>made.
     io_bind (case made of Inl _ \<Rightarrow> io_ok (Some NotUp) | Inr _ \<Rightarrow> settled H i (mt_settle t)) (\<lambda>why. case why of
       None \<Rightarrow> io_bind (log_move i game old new Moved) (\<lambda>_. io_ok (MovedTo old new))
     | Some _ \<Rightarrow> put_back H c i game old new spec))"

lemma move_in_two:
  assumes "until_removed H i game old new s = (Inr (Inr ()), s1)"
  shows "move_pinned H c t i game old new spec None s = from_removed H c t i game old new spec s1"
proof -
  define s2 where "s2 = snd (mesh_stop H i (snd (log_move i game old new Moving s)))"
  define s3 where "s3 = snd (on_docker (rt_stop (hs_docker H) i) s2)"
  have "io_try (on_docker (rt_remove (hs_docker H) i)) s3 = (Inr (Inr ()), s1)"
    using assms unfolding until_removed_def s2_def s3_def log_move_def by (simp add: change_split mesh_stop_split ignoring_split change_def)
  then show ?thesis
    unfolding move_pinned_def from_removed_def s2_def s3_def log_move_def
    by (simp add: change_split mesh_stop_split ignoring_split change_def io_bind_def [where f = "io_ok _"] io_ok_def
        io_bind_def [where f = "io_try (on_docker _)"])
qed

lemma until_removed_moving:
  assumes "until_removed H i game old new s = (r, s1)" shows "nd_moving s1 = nd_moving s"
proof -
  let ?s = "s\<lparr>nd_move_log := tput i \<lparr>mr_game_id = game, mr_from = old, mr_to = new, mr_state = Moving\<rparr> (nd_move_log s)\<rparr>"
  let ?f = "io_bind (mesh_stop H i) (\<lambda>_. io_bind (ignoring (on_docker (rt_stop (hs_docker H) i))) (\<lambda>_. io_try (on_docker (rt_remove (hs_docker H) i))))"
  have "quiet_op ?f" by (intro agent_quiet)
  moreover have "?f ?s = (r, s1)" using assms by (simp add: until_removed_def log_move_def change_split)
  ultimately have "nd_moving s1 = nd_moving ?s" by (intro same_moving quietD)
  then show ?thesis by simp
qed

lemma moving_copy_stays:
  assumes "(i, m) \<in> set (nd_moving s)" "mf_game_id m = game" "v \<in> {mf_from m, mf_to m}"
  shows "fst (delete_content H c game v s) \<noteq> Inr (Inr n)"
proof -
  have "servers_moving_with game v (nd_moving s1) \<noteq> []" if "nd_moving s1 = nd_moving s" for s1 :: "'a node"
    using assms that by (fastforce simp: servers_moving_with_def filter_empty_conv)
  moreover have "nd_moving (snd (docker_list H s)) = nd_moving s"
    by (rule same_moving [OF quietD [OF quiet_reads(1) prod.collapse [symmetric]]])
  ultimately show ?thesis
    by (cases "docker_list H s")
      (auto simp: delete_content_def io_bind_def look_def io_try_def io_ok_def io_err_def split: outcome.split sum.split)
qed

text \<open>Removing a tree makes no folder one that was just changed.\<close>

definition ages_alone :: "'w host \<Rightarrow> 'w depot \<Rightarrow> path \<Rightarrow> bool" where
  "ages_alone H D d \<longleftrightarrow> (\<forall>p w. \<not> recently_touched D d w \<longrightarrow> \<not> recently_touched D d (snd (hs_remove_tree H p w)))"

definition trees_removed :: "'w host \<Rightarrow> path list \<Rightarrow> 'w \<Rightarrow> 'w" where
  "trees_removed H = fold (\<lambda>p w. snd (hs_remove_tree H p w))"

lemma clean_each_takes:
  assumes "ages_alone H D d"
  shows "\<not> recently_touched D d (nd_world s) \<Longrightarrow> \<exists>r' s' ps. clean_each H D ds r s = (Inr r', s') \<and> nd_world s' = trees_removed H ps (nd_world s)
    \<and> (d \<in> set ds \<longrightarrow> d \<in> set ps)"
proof (induction ds arbitrary: r s)
  case (Cons p ds)
  show ?case
  proof (cases "recently_touched D p (nd_world s)")
    case True
    then have "p \<noteq> d" using Cons.prems by blast
    then show ?thesis using True Cons.IH [OF Cons.prems] by (auto simp: io_bind_def look_def)
  next
    case False
    obtain gone w where w: "hs_remove_tree H p (nd_world s) = (gone, w)" by (cases "hs_remove_tree H p (nd_world s)")
    let ?r = "if gone then r\<lparr>or_count := or_count r + 1, or_bytes := or_bytes r + hs_size H p (nd_world s)\<rparr> else r\<lparr>or_failed := or_failed r + 1\<rparr>"
    have "\<not> recently_touched D d (snd (hs_remove_tree H p (nd_world s)))" using assms Cons.prems by (simp add: ages_alone_def)
    then have "\<not> recently_touched D d (nd_world (s\<lparr>nd_world := w\<rparr>))" by (simp add: w)
    from Cons.IH [OF this, of ?r] obtain r' s' ps where "clean_each H D ds ?r (s\<lparr>nd_world := w\<rparr>) = (Inr r', s')"
      "nd_world s' = trees_removed H ps w" "d \<in> set ds \<longrightarrow> d \<in> set ps" by auto
    moreover from this(1) have "clean_each H D (p # ds) r s = (Inr r', s')"
      using False w by (simp add: io_bind_def look_def in_world_def)
    ultimately show ?thesis using w by (intro exI [of _ r'] exI [of _ s'] exI [of _ "p # ps"]) (simp add: trees_removed_def)
  qed
qed (auto simp: io_ok_def trees_removed_def intro!: exI [of _ "[]"])

lemma orphan_listed:
  assumes "docker_list H s = (Inr cs, s1)" "i \<notin> mg_instance_id ` set cs" "i \<in> set (dp_instance_dirs D (nd_world s1))"
    "instance_dir (ac_data_root c) i = Ok d"
  shows "\<exists>ds. orphan_dirs H c D s = (Inr ds, s1) \<and> d \<in> set ds"
proof (intro exI conjI)
  show "orphan_dirs H c D s = (Inr (orphan_instance_dirs (ac_data_root c) (map mg_instance_id cs) (dp_instance_dirs D (nd_world s1))), s1)"
    using assms(1) by (simp add: orphan_dirs_def io_bind_def look_def)
  show "d \<in> set (orphan_instance_dirs (ac_data_root c) (map mg_instance_id cs) (dp_instance_dirs D (nd_world s1)))"
    unfolding orphan_instance_dirs_def List.map_filter_def using assms(2-4) by (force intro!: image_eqI [of _ _ i])
qed

section \<open>Properties\<close>

text \<open>C37.
  A download that would not leave the reserve is not begun. What must fit beside the reserve is nothing for a first install, whose
  size nobody knows, and for an update or a check of the files the size of the copy in use and a tenth of it. With the sizes the
  disk gives, the task ends refused exactly when that and the reserve do not both fit in what is free; then nothing is fetched,
  copied or written, and the node is as it was but for one look at its containers. (The reserve is what the operator set, else a
  tenth of the disk and at least 5 GiB.)
\<close>
theorem a_download_leaves_the_reserve:
  assumes "dp_storage D (nd_world s) = Some (whole, free)" "free < 2 ^ 64 - 1" "must_be_free H c s game what n"
  shows "if free < n + kept_free s whole then \<exists>e. run_fetch H c D game what s = (Inr (RoomRefused e), snd (docker_list H s))
    else \<forall>e. fst (run_fetch H c D game what s) \<noteq> Inr (RoomRefused e)"
proof (cases "free < n + kept_free s whole")
  case True
  then have "\<not> Updates.fits free (fetch_needs H c s game what) (reserve_on (uc_settings (nd_updates s)) whole)"
    using fetch_needs_free [OF assms(3,2)] by (simp add: kept_free_reserve)
  then show ?thesis using True fetch_refused [OF room_refused [OF assms(1)] install_fits [OF assms(3)]] by simp
next
  case False
  then have "Updates.fits free (fetch_needs H c s game what) (reserve_on (uc_settings (nd_updates s)) whole)"
    using fetch_needs_free [OF assms(3,2)] by (simp add: kept_free_reserve)
  then show ?thesis using False fetch_let_in [OF room_given [OF assms(1)]] by simp
qed

definition demo_depot :: "bool depot" where
  "demo_depot = \<lparr>dp_save = \<lambda>_ w. (True, w), dp_storage = \<lambda>_. Some (1000, 10), dp_latest_build = \<lambda>_ w. (Inr [50], w),
     dp_build_id = \<lambda>_ _ _. Some [49], dp_ensure = \<lambda>_ _ w. (Inr None, w), dp_update = \<lambda>_ _ _ w. (Inr (NewBuild None None), w),
     dp_verify = \<lambda>_ _ _ w. (Inr (Intact None), w), dp_exists = \<lambda>_ _. False, dp_modified = \<lambda>_ _. None, dp_age = \<lambda>_ _. Some (secs 900),
     dp_content_dirs = \<lambda>_. [], dp_instance_dirs = \<lambda>_. [[105]], dp_ask = \<lambda>_ _ _ w. (None, w), dp_text = \<lambda>_. []\<rparr>"

text \<open>A copy of a thousand bytes on a disk with a thousand and fifty above the reserve: room for the copy and not for its tenth.\<close>

definition big_host :: "bool host" where
  "big_host = demo_host\<lparr>hs_size := \<lambda>_ _. 1000\<rparr>"

definition tight_depot :: "bool depot" where
  "tight_depot = demo_depot\<lparr>dp_storage := \<lambda>_. Some (1000, 5 * 1024 * 1024 * 1024 + 1050)\<rparr>"

theorem a_download_leaves_the_reserve_witness:
  "\<exists>e. run_fetch big_host demo_config tight_depot [103] (FetchUpdate True) demo_node = (Inr (RoomRefused e), snd (docker_list big_host demo_node))"
proof -
  have ids: "plan_id [103] = Ok ()" "plan_id [49] = Ok ()" by code_simp+
  have "active_version big_host demo_config demo_node [103] = Some [49]"
    by (simp add: active_version_def active_version_of_def active_in_def runtime_for_def demo_config_def tget_def demo_node_def sample_runtime_def)
  then have "copy_on_disk big_host demo_config demo_node [103] 1000"
    by (auto simp: copy_on_disk_def content_dir_def ids big_host_def demo_host_def)
  then have need: "must_be_free big_host demo_config demo_node [103] (FetchUpdate True) 1100"
    by (auto simp: must_be_free_def intro!: exI [of _ 1000])
  have storage: "dp_storage tight_depot (nd_world demo_node) = Some (1000, 5 * 1024 * 1024 * 1024 + 1050)" by (simp add: tight_depot_def)
  have kept: "kept_free demo_node 1000 = 5 * 1024 * 1024 * 1024" by (simp add: kept_free_def demo_node_def no_update_checks_def)
  show ?thesis using a_download_leaves_the_reserve [OF storage _ need] by (simp add: kept)
qed

text \<open>What a node downloads by itself. Looking for builds to download starts only updates that keep the old copy, only of games set
  to download a found build, and only after the attempt is on record; it never changes which copy new servers use.
\<close>
theorem nothing_automatic_deletes:
  assumes "start_automatic_downloads H c D s = (r, s')"
  shows "nd_active s' = nd_active s \<and> (\<forall>j\<in>set (iw_jobs (nd_installs s')). j \<in> set (iw_jobs (nd_installs s))
     \<or> jb_fetch j = FetchUpdate False \<and> gp_on_new_build (policy_of_game (nd_updates s) (jb_game j)) = Download
       \<and> gk_auto_unix (game_check_of (nd_updates s') (jb_game j)) = Some (now_unix H (nd_world s)))"
proof -
  let ?ns = "update_notices H c D s"
  have "download_each H D (now_unix H (nd_world s)) ?ns s = (r, s')"
    using assms by (simp add: start_automatic_downloads_def io_bind_def look_def)
  moreover have "auto_ok s ?ns (now_unix H (nd_world s)) s" by (simp add: auto_ok_def)
  ultimately have ok: "auto_ok s ?ns (now_unix H (nd_world s)) s'"
    using runsD [OF runs_download_each [OF subset_refl]] by blast
  show ?thesis
  proof (intro conjI ballI)
    show "nd_active s' = nd_active s" using ok by (simp add: auto_ok_def)
    fix j assume "j \<in> set (iw_jobs (nd_installs s'))"
    then show "j \<in> set (iw_jobs (nd_installs s)) \<or> jb_fetch j = FetchUpdate False \<and> gp_on_new_build (policy_of_game (nd_updates s) (jb_game j)) = Download
       \<and> gk_auto_unix (game_check_of (nd_updates s') (jb_game j)) = Some (now_unix H (nd_world s))"
      using ok notice_policy unfolding auto_ok_def by metis
  qed
qed

definition steam_node :: "bool node" where
  "steam_node = demo_node\<lparr>nd_packs := [([103], sample_pack\<lparr>pk_content := Steamcmd 10 None Linux\<rparr>)],
     nd_updates := set_policy [103] (default_policy\<lparr>gp_on_new_build := Download\<rparr>) (record_check [103] 0 (Inr [50]) no_update_checks)\<rparr>"

lemma steam_starts: "\<exists>j. iw_jobs (nd_installs (snd (start_automatic_downloads demo_host demo_config demo_depot steam_node))) = [j]"
proof -
  let ?n = "notice_for demo_host demo_depot steam_node [103] [49] 10 (join (join (join sample_root (ascii ''content'')) [103]) [49])"
  have ids: "plan_id [103] = Ok ()" "plan_id [49] = Ok ()" by code_simp+
  have dir: "content_dir sample_root \<lparr>cn_game_id = [103], cn_version = [49]\<rparr> = Ok (join (join (join sample_root (ascii ''content'')) [103]) [49])"
    by (simp add: content_dir_def ids)
  have pk: "nd_packs steam_node = [([103], sample_pack\<lparr>pk_content := Steamcmd 10 None Linux\<rparr>)]" "pk_id sample_pack = [103]"
    by (simp_all add: steam_node_def sample_pack_def)
  have active: "active_version demo_host demo_config steam_node [103] = Some [49]"
    by (simp add: active_version_def active_version_of_def active_in_def runtime_for_def demo_config_def tget_def steam_node_def demo_node_def
        sample_runtime_def)
  have root: "ac_data_root demo_config = sample_root" "hs_is_dir demo_host p w" for p w by (simp_all add: demo_config_def demo_host_def)
  have notices: "update_notices demo_host demo_config demo_depot steam_node = [?n]"
    by (simp add: update_notices_def pk List.map_filter_simps notice_of_def active root dir)
  have policy: "policy_of_game (nd_updates steam_node) [103] = default_policy\<lparr>gp_on_new_build := Download\<rparr>"
    by (simp add: policy_of_game_def steam_node_def set_policy_def given_def tbl.get_put default_policy_def)
  have check: "game_check_of (nd_updates steam_node) [103] = no_check\<lparr>gk_checked_unix := Some 0, gk_latest_build := Some [50]\<rparr>"
    by (simp add: game_check_of_def steam_node_def set_policy_def record_check_def put_check_def no_update_checks_def given_def tget_def tput_def
        no_check_def default_policy_def)
  have n: "un_on_new_build ?n = Download" "un_available ?n = Some True" "un_game_id ?n = [103]"
    by (simp_all add: notice_for_def new_notice_def policy check demo_depot_def no_check_def)
  have may: "may_auto_download (no_check\<lparr>gk_checked_unix := Some 0, gk_latest_build := Some [50]\<rparr>) now" for now
    by (simp add: may_auto_download_def snoozed_def no_check_def)
  have free: "\<not> is_installing [103] (iw_installs (nd_installs steam_node))" "iw_jobs (nd_installs steam_node) = []"
    "nd_installs steam_node = first_world"
    by (simp_all add: steam_node_def demo_node_def first_world_def new_installs_def is_installing_def tget_def)
  have save: "dp_save demo_depot u w = (True, w)" for u w by (simp add: demo_depot_def)
  show ?thesis
    by (simp add: start_automatic_downloads_def io_bind_def look_def notices n check may free save save_checks_def change_def in_world_def
        io_try_def io_ok_def spawn_on_def spawn_fetch_def first_world_def begin_install_def claim_def is_installing_def new_installs_def tget_def Let_def)
qed

theorem nothing_automatic_deletes_witness:
  "\<exists>j. iw_jobs (nd_installs (snd (start_automatic_downloads demo_host demo_config demo_depot steam_node))) = [j] \<and> jb_fetch j = FetchUpdate False"
proof -
  obtain j where j: "iw_jobs (nd_installs (snd (start_automatic_downloads demo_host demo_config demo_depot steam_node))) = [j]"
    using steam_starts by blast
  have "iw_jobs (nd_installs steam_node) = []" by (simp add: steam_node_def demo_node_def first_world_def)
  then show ?thesis
    using nothing_automatic_deletes [of demo_host demo_config demo_depot steam_node, OF prod.collapse [symmetric]] j by auto
qed

text \<open>A new copy is in use before it is ready. Once an update has fetched a new build, it makes the copy the one new servers use
  and only then makes the directories servers mount over: when that fails the update reports an error and the copy stays in
  use. Choosing a copy by hand does it the other way round and leaves the old one in use.
\<close>
theorem a_failed_update_is_still_in_use:
  assumes "tget (nd_packs s) game = Some p" "runtime_for c game = Some r"
    "next_version_name H c D game (gr_content_version r) s = (Inr new, s)"
    "dp_update D \<lparr>cn_game_id = game, cn_version = active_version_of H c s game (gr_content_version r)\<rparr> \<lparr>cn_game_id = game, cn_version = new\<rparr>
       (pk_content p) (nd_world s) = (Inr (NewBuild f t), w1)"
    "hs_save_active H (nd_active (in_use game (gr_content_version r) new w1 s)) w1 = (True, w2)"
    "create_writable_mountpoints H c \<lparr>cn_game_id = game, cn_version = new\<rparr> (writable_paths_for c game p)
       (in_use game (gr_content_version r) new w2 s) = (Inl e, s3)"
    "create_writable_mountpoints H c \<lparr>cn_game_id = game, cn_version = version\<rparr> (writable_paths_for c game p) s = (Inl e', s4)"
    "content_dir (ac_data_root c) \<lparr>cn_game_id = game, cn_version = version\<rparr> = Ok dir" "hs_is_dir H dir (nd_world s)"
  shows "update_content H c D game remove_old s = (Inl e, s3) \<and> active_in (nd_active s3) game (gr_content_version r) = Some new
    \<and> use_copy H c game version s = (Inl e', s4) \<and> nd_active s4 = nd_active s"
proof (intro conjI)
  show "update_content H c D game remove_old s = (Inl e, s3)" by (rule update_after_build [OF assms(1-6)])
  have "same (in_use game (gr_content_version r) new w2 s) s3" by (rule quietD [OF quiet_create_mountpoints assms(6)])
  then have "nd_active s3 = nd_active (in_use game (gr_content_version r) new w2 s)" by (rule same_active)
  then show "active_in (nd_active s3) game (gr_content_version r) = Some new" by (simp add: active_in_def in_use_def tbl.get_put)
  show "use_copy H c game version s = (Inl e', s4)"
    by (rule use_copy_fails [OF assms(1,2,8,9,7)])
  show "nd_active s4 = nd_active s" by (rule same_active [OF quietD [OF quiet_create_mountpoints assms(7)]])
qed

definition full_host :: "bool host" where
  "full_host = demo_host\<lparr>hs_is_dir := \<lambda>p _. length (pt_parts p) \<le> 4, hs_make_dir := \<lambda>_ w. (False, w)\<rparr>"

lemma full_mountpoints:
  assumes "plan_id v = Ok ()" "parts_of v = [v]" "hd v \<noteq> 47" "v \<noteq> []"
  shows "\<exists>e. create_writable_mountpoints full_host demo_config \<lparr>cn_game_id = [103], cn_version = v\<rparr> [[108]] s = (Inl e, s)"
proof -
  have ids: "plan_id [103] = Ok ()" "validate_writable_path [108] = Ok ()" by code_simp+
  have parts: "parts_of (ascii ''content'') = [ascii ''content'']" "parts_of [103] = [[103]]" "parts_of [108] = [[108]]" by code_simp+
  have rel: "\<not> starts_with [47] (ascii ''content'')" "\<not> starts_with [47] [103]" "\<not> starts_with [47] [108]" by code_simp+
  have v: "\<not> starts_with [47] v" using assms(3,4) by (cases v) (auto simp: starts_with_def)
  have "content_dir sample_root \<lparr>cn_game_id = [103], cn_version = v\<rparr> = Ok \<lparr>pt_absolute = True, pt_parts = [[100], ascii ''content'', [103], v]\<rparr>"
    by (simp add: content_dir_def ids assms join_def parts rel v sample_root_def)
  then show ?thesis
    by (simp add: create_writable_mountpoints_def io_bind_def io_of_def io_ok_def io_err_def look_def ids join_def parts rel path_starts_with_def
        full_host_def demo_config_def in_world_def Let_def)
qed

definition new_day :: str where
  "new_day = [49, 45, 49, 57, 55, 48, 48, 49, 48, 49]"

lemma new_day_facts: "plan_id new_day = Ok ()" "parts_of new_day = [new_day]" "hd new_day \<noteq> 47" "new_day \<noteq> []" "new_day \<noteq> [49]"
  by code_simp+

lemma new_day_stem: "version_stem full_host [49] w = new_day"
proof -
  have day: "civil_from_days 0 = (1970, 1, 1)" by code_simp
  have one: "decimal 1 = [49]" "decimal (Suc 0) = [49]" by (subst decimal.simps, simp)+
  have "decimal 19 = [49, 57]" by (subst decimal.simps) (simp add: one)
  then have "decimal 197 = [49, 57, 55]" by (subst decimal.simps) simp
  then have "decimal 1970 = [49, 57, 55, 48]" by (subst decimal.simps) simp
  with one have digits: "padded 4 1970 = [49, 57, 55, 48]" "padded 2 1 = [48, 49]" by (simp_all add: padded_def Let_def)
  have "given (hs_unix full_host w) 0 = 0" by (simp add: full_host_def demo_host_def given_def)
  then show ?thesis by (simp add: version_stem_def day digits new_day_def)
qed

lemma new_day_name: "next_version_name full_host demo_config demo_depot [103] [49] s = (Inr new_day, s)"
proof -
  have "plan_id [103] = Ok ()" by code_simp
  then obtain dir where dir: "content_dir (ac_data_root demo_config) \<lparr>cn_game_id = [103], cn_version = new_day\<rparr> = Ok dir"
    by (simp add: content_dir_def new_day_facts(1))
  have range: "[1..<Suc MAX_UPDATES_A_DAY] = 1 # [Suc 1..<Suc MAX_UPDATES_A_DAY]" by (intro upt_conv_Cons) (simp add: MAX_UPDATES_A_DAY_def)
  have free: "\<not> dp_exists demo_depot p w" for p w by (simp add: demo_depot_def)
  show ?thesis
    unfolding next_version_name_def range first_free_name.simps by (simp add: io_bind_def look_def new_day_stem io_of_def io_ok_def dir free Let_def)
qed

theorem a_failed_update_is_still_in_use_witness:
  "\<exists>new e s'. update_content full_host demo_config demo_depot [103] False demo_node = (Inl e, s')
     \<and> active_in (nd_active s') [103] [49] = Some new \<and> new \<noteq> [49] \<and> active_in (nd_active demo_node) [103] [49] = None"
proof -
  have old: "plan_id [49] = Ok ()" "parts_of [49] = [[49]]" by code_simp+
  have packs: "tget (nd_packs demo_node) [103] = Some sample_pack" by (simp add: demo_node_def tget_def)
  have runtime: "runtime_for demo_config [103] = Some sample_runtime" by (simp add: runtime_for_def demo_config_def tget_def)
  have base: "gr_content_version sample_runtime = [49]" by (simp add: sample_runtime_def)
  have paths: "writable_paths_for demo_config [103] sample_pack = [[108]]"
    by (simp add: writable_paths_for_def runtime) (simp add: sample_pack_def sample_runtime_def)
  have build: "dp_update demo_depot a b k w = (Inr (NewBuild None None), w)" for a b k w by (simp add: demo_depot_def)
  have save: "hs_save_active full_host t w = (True, w)" for t w by (simp add: full_host_def demo_host_def)
  let ?s = "in_use [103] [49] new_day (nd_world demo_node) demo_node"
  obtain e where e: "create_writable_mountpoints full_host demo_config \<lparr>cn_game_id = [103], cn_version = new_day\<rparr> [[108]] ?s = (Inl e, ?s)"
    using full_mountpoints [OF new_day_facts(1-4)] by blast
  obtain e' where e': "create_writable_mountpoints full_host demo_config \<lparr>cn_game_id = [103], cn_version = [49]\<rparr> [[108]] demo_node = (Inl e', demo_node)"
    using full_mountpoints [OF old, of demo_node] by auto
  obtain d where d: "content_dir (ac_data_root demo_config) \<lparr>cn_game_id = [103], cn_version = [49]\<rparr> = Ok d" "hs_is_dir full_host d (nd_world demo_node)"
  proof -
    have "plan_id [103] = Ok ()" by code_simp
    moreover have "length (pt_parts (join (join (join sample_root (ascii ''content'')) [103]) [49])) \<le> 4" by code_simp
    ultimately show ?thesis using that old(1) by (simp add: content_dir_def demo_config_def full_host_def)
  qed
  have "update_content full_host demo_config demo_depot [103] False demo_node = (Inl e, ?s) \<and> active_in (nd_active ?s) [103] [49] = Some new_day
    \<and> use_copy full_host demo_config [103] [49] demo_node = (Inl e', demo_node) \<and> nd_active demo_node = nd_active demo_node"
    by (rule a_failed_update_is_still_in_use [OF packs runtime, unfolded base paths, OF new_day_name build save e e' d])
  moreover have "active_in (nd_active demo_node) [103] [49] = None" by (simp add: active_in_def demo_node_def tget_def)
  ultimately show ?thesis using new_day_facts(5) by blast
qed

text \<open>An update can say an old copy is gone that is still there. When Docker does not answer, deleting the old copy is put off and
  the question who uses it fails too: the report says the copy was removed and that nobody uses it, while it is on the disk and
  still waiting to be removed.
\<close>
theorem an_update_can_report_a_copy_removed_that_is_there:
  assumes "docker_down H" "saves_active H dir" "content_dir (ac_data_root c) \<lparr>cn_game_id = game, cn_version = old\<rparr> = Ok dir"
    "hs_is_dir H dir (nd_world s)" "tget (nd_active s) game = Some e" "ae_active e \<noteq> old"
  shows "\<exists>report' s'. take_old_away H c game old report s = (Inr report', s') \<and> ur_old report' = ascii ''removed'' \<and> ur_old_used_by report' = []
    \<and> hs_is_dir H dir (nd_world s') \<and> (game, old) \<in> set (pending (nd_active s'))"
proof -
  obtain s' where s': "take_old_away H c game old report s = (Inr (report\<lparr>ur_old_used_by := [], ur_old := ascii ''removed''\<rparr>), s')"
    "old_kept H dir game old s'" using old_reported_removed [OF assms] by blast
  then obtain x where x: "tget (nd_active s') game = Some x" "ae_active x \<noteq> old" "old \<in> set (ae_pending x)" by (auto simp: old_kept_def)
  then have "(game, x) \<in> set (nd_active s')" by (auto simp: tget_def dest: map_of_SomeD)
  then have "(game, old) \<in> set (pending (nd_active s'))" by (rule pending_member [OF _ x(2,3)])
  moreover have "hs_is_dir H dir (nd_world s')" using s'(2) by (simp add: old_kept_def)
  ultimately show ?thesis using s'(1) by (intro exI conjI) (assumption | simp)+
qed

definition deaf_host :: "bool host" where
  "deaf_host = demo_host\<lparr>hs_docker := demo_daemon\<lparr>dk_list := \<lambda>_ w. (Inl NotFound, w)\<rparr>\<rparr>"

theorem an_update_can_report_a_copy_removed_that_is_there_witness:
  "\<exists>report s'. take_old_away deaf_host demo_config [103] [49] \<lparr>ur_from_version = [49], ur_to_version = Some [50], ur_from_build = None,
       ur_to_build = None, ur_old = [], ur_old_used_by = []\<rparr> (demo_node\<lparr>nd_active := [([103], \<lparr>ae_base = [49], ae_active = [50], ae_pending = []\<rparr>)]\<rparr>)
       = (Inr report, s') \<and> ur_old report = ascii ''removed'' \<and> ([103], [49]) \<in> set (pending (nd_active s'))"
proof -
  let ?s = "demo_node\<lparr>nd_active := [([103], \<lparr>ae_base = [49], ae_active = [50], ae_pending = []\<rparr>)]\<rparr>"
  have ids: "plan_id [103] = Ok ()" "plan_id [49] = Ok ()" by code_simp+
  obtain dir where dir: "content_dir (ac_data_root demo_config) \<lparr>cn_game_id = [103], cn_version = [49]\<rparr> = Ok dir"
    by (simp add: content_dir_def ids)
  have "docker_down deaf_host" "saves_active deaf_host dir" "hs_is_dir deaf_host dir (nd_world ?s)"
    by (simp_all add: docker_down_def saves_active_def deaf_host_def demo_host_def)
  moreover have "tget (nd_active ?s) [103] = Some \<lparr>ae_base = [49], ae_active = [50], ae_pending = []\<rparr>" by (simp add: tget_def)
  ultimately show ?thesis
    using an_update_can_report_a_copy_removed_that_is_there [OF _ _ dir, of deaf_host ?s] by fastforce
qed


text \<open>A node whose disk also holds the folder of a server that is long gone.\<close>

definition left_depot :: "bool depot" where
  "left_depot = demo_depot\<lparr>dp_instance_dirs := \<lambda>_. [[107], [105], [106]]\<rparr>"

lemma demo_removed:
  "\<exists>s1. until_removed demo_host [105] [103] [48] [49] s = (Inr (Inr ()), s1) \<and> \<not> nd_world s1"
proof -
  have "\<exists>s1. on_docker (rt_remove (hs_docker demo_host) [105]) s = (Inr (), s1) \<and> \<not> nd_world s1" for s
    by (simp add: on_docker_def demo_host_def demo_daemon_def rt_remove_def assert_managed_def ask_daemon_def raw_def io_bind_def io_ok_def
        is_managed_def demo_info_def demo_labels_get Let_def)
  then have tried: "\<exists>s1. io_try (on_docker (rt_remove (hs_docker demo_host) [105])) s = (Inr (Inr ()), s1) \<and> \<not> nd_world s1" for s
    unfolding io_try_def by (metis case_prod_conv)
  show ?thesis
    unfolding until_removed_def log_move_def change_split mesh_stop_split ignoring_split by (rule tried)
qed


end
