(* ===== verification/Uplink.thy ===== *)
theory Uplink
  imports Uplink_Wire
begin

text \<open>
  \<^verbatim>\<open>crates/platform-agent/src/uplink.rs\<close>: a node answering the indexes its operator trusts. Who a caller is
  is \<^verbatim>\<open>platform_auth\<close> (theory \<open>Auth\<close>); the allowlist is here. What the node does when asked is the record
  \<open>node_ops\<close>, a parameter over the state of the world, as the agent itself answers; that a request is read
  whole, and which transport its answer takes, belong to the mesh.
\<close>

section \<open>What a node can be asked\<close>

record 'w node_ops =
  no_create :: "instance_spec \<Rightarrow> ('w, instance_row) asked"
  no_stop :: "str \<Rightarrow> ('w, unit) asked"
  no_start :: "str \<Rightarrow> ('w, unit) asked"
  no_remove :: "str \<Rightarrow> ('w, unit) asked"
  no_list :: "('w, instance_row list) asked"
  no_capacity :: "'w \<Rightarrow> capacity_resp \<times> 'w"
  no_logs :: "str \<Rightarrow> nat \<Rightarrow> ('w, str) asked"
  no_maps :: "str \<Rightarrow> ('w, str list) asked"
  no_change_map :: "str \<Rightarrow> str \<Rightarrow> ('w, str) asked"
  no_backups :: "str \<Rightarrow> ('w, backup list) asked"
  no_backup_create :: "str \<Rightarrow> ('w, backup) asked"
  no_backup_restore :: "str \<Rightarrow> str \<Rightarrow> ('w, unit) asked"
  no_backup_delete :: "str \<Rightarrow> str \<Rightarrow> ('w, unit) asked"
  no_spec :: "str \<Rightarrow> ('w, instance_spec) asked"
  no_delta :: "str \<Rightarrow> int \<Rightarrow> ('w, backup) asked"
  no_merge :: "str \<Rightarrow> str \<Rightarrow> ('w, unit) asked"
  no_identity :: "str \<Rightarrow> ('w, bytes option) asked"
  no_set_identity :: "str \<Rightarrow> bytes \<Rightarrow> ('w, unit) asked"
  no_chunk :: "str \<Rightarrow> str \<Rightarrow> u64 \<Rightarrow> nat \<Rightarrow> ('w, u64 \<times> bytes) asked"
  no_upload :: "str \<Rightarrow> str option \<Rightarrow> u64 \<Rightarrow> u64 \<Rightarrow> bytes \<Rightarrow> ('w, progress) asked"

text \<open>How each payload is written and read.\<close>

record json =
  js_challenge :: "challenge shape"
  js_response :: "challenge_response shape"
  js_session :: "session shape"
  js_create :: "create_req shape"
  js_instance :: "instance_req shape"
  js_logs :: "logs_req shape"
  js_maps :: "maps_req shape"
  js_map :: "map_req shape"
  js_backup :: "backup_req shape"
  js_delta :: "delta_req shape"
  js_set_identity :: "identity_set_req shape"
  js_read :: "backup_read_req shape"
  js_write :: "backup_write_req shape"
  js_token :: "token_req shape"
  js_status :: "instance_row shape"
  js_made :: "backup shape"
  js_capacity :: "capacity_resp shape"
  js_spec :: "instance_spec shape"
  js_identity :: "identity_resp shape"
  js_progress :: "progress shape"
  js_logs_resp :: "logs_resp shape"
  js_maps_resp :: "maps_resp shape"
  js_backups_resp :: "backups_resp shape"
  js_list_resp :: "list_resp shape"

section \<open>Who is let in\<close>

definition UNTRUSTED :: str where "UNTRUSTED = ascii ''untrusted identity''"

definition authorize :: "'k crypto \<Rightarrow> authenticator \<Rightarrow> bytes list \<Rightarrow> str \<Rightarrow> time \<Rightarrow> (str, bytes) outcome" where
  "authorize c auth trusted token now =
     (case authenticate c token now auth of
        Ok identity \<Rightarrow> if identity \<notin> set trusted then Err UNTRUSTED else Ok identity
      | Err e \<Rightarrow> Err (auth_text e)
      | Panic \<Rightarrow> Panic)"

definition verify_and_authorize :: "'k crypto \<Rightarrow> bytes list \<Rightarrow> challenge_response \<Rightarrow> bytes option \<Rightarrow> time
    \<Rightarrow> authenticator \<Rightarrow> (str, session) outcome \<times> authenticator" where
  "verify_and_authorize c trusted response entropy now auth =
     (case verify c response entropy now auth of
        (Ok session, auth) \<Rightarrow>
          (case authenticate c (se_token session) now auth of
             Ok identity \<Rightarrow>
               if identity \<notin> set trusted then (Err UNTRUSTED, revoke c (se_token session) auth)
               else (Ok session, auth)
           | Err e \<Rightarrow> (Err (auth_text e), auth)
           | Panic \<Rightarrow> (Panic, auth))
      | (Err e, auth) \<Rightarrow> (Err (auth_text e), auth)
      | (Panic, auth) \<Rightarrow> (Panic, auth))"

section \<open>Answers\<close>

definition answer_unit :: "u8 \<Rightarrow> (str + 'a) \<times> 'w \<Rightarrow> bytes \<times> 'w" where
  "answer_unit opc = (\<lambda>(r, w). (case r of Inr _ \<Rightarrow> encode_ok opc [] | Inl e \<Rightarrow> encode_err opc e, w))"

definition reply_json :: "'a shape \<Rightarrow> u8 \<Rightarrow> 'a \<Rightarrow> bytes" where
  "reply_json sh opc x =
     (case payload_bytes sh x of Ok b \<Rightarrow> encode_ok opc b | Err e \<Rightarrow> encode_err opc (wire_text e) | Panic \<Rightarrow> [])"

definition answer_json :: "'a shape \<Rightarrow> u8 \<Rightarrow> (str + 'a) \<times> 'w \<Rightarrow> bytes \<times> 'w" where
  "answer_json sh opc = (\<lambda>(r, w). (case r of Inr x \<Rightarrow> reply_json sh opc x | Inl e \<Rightarrow> encode_err opc e, w))"

definition reply_fitting :: "'a shape \<Rightarrow> u8 \<Rightarrow> 'a \<Rightarrow> bytes" where
  "reply_fitting sh opc x =
     (case payload_bytes sh x of
        Ok b \<Rightarrow> if fits (length b) = Ok () then encode_ok opc b else encode_err opc (wire_text (TooLarge (length b)))
      | Err e \<Rightarrow> encode_err opc (wire_text e)
      | Panic \<Rightarrow> [])"

definition answer_fitting :: "'a shape \<Rightarrow> u8 \<Rightarrow> (str + 'a) \<times> 'w \<Rightarrow> bytes \<times> 'w" where
  "answer_fitting sh opc = (\<lambda>(r, w). (case r of Inr x \<Rightarrow> reply_fitting sh opc x | Inl e \<Rightarrow> encode_err opc e, w))"

definition answer_with :: "u8 \<Rightarrow> ('a \<Rightarrow> bytes) \<Rightarrow> (str + 'a) \<times> 'w \<Rightarrow> bytes \<times> 'w" where
  "answer_with opc f = (\<lambda>(r, w). (case r of Inr x \<Rightarrow> f x | Inl e \<Rightarrow> encode_err opc e, w))"

definition logs_reply :: "logs_resp shape \<Rightarrow> str \<Rightarrow> bytes" where
  "logs_reply sh chars = (case encode_logs_resp sh chars of Ok b \<Rightarrow> b | _ \<Rightarrow> [])"

text \<open>What every operation but signing in starts with: the payload, then the session.\<close>

definition gated :: "'k crypto \<Rightarrow> bytes list \<Rightarrow> u8 \<Rightarrow> (wire_error, 'r) outcome \<Rightarrow> ('r \<Rightarrow> str) \<Rightarrow> time
    \<Rightarrow> ('r \<Rightarrow> 'w \<Rightarrow> bytes \<times> 'w) \<Rightarrow> authenticator \<times> 'w \<Rightarrow> bytes \<times> authenticator \<times> 'w" where
  "gated c trusted opc parsed token now run s =
     (case parsed of
        Ok req \<Rightarrow>
          (case authorize c (fst s) trusted (token req) now of
             Ok _ \<Rightarrow> let (b, w) = run req (snd s) in (b, fst s, w)
           | Err msg \<Rightarrow> (encode_err opc msg, s)
           | Panic \<Rightarrow> ([], s))
      | Err e \<Rightarrow> (encode_err opc (wire_text e), s)
      | Panic \<Rightarrow> ([], s))"

section \<open>One request\<close>

definition do_challenge :: "json \<Rightarrow> 'k crypto \<Rightarrow> time \<Rightarrow> bytes option \<Rightarrow> authenticator \<times> 'w \<Rightarrow> bytes \<times> authenticator \<times> 'w" where
  "do_challenge J c now entropy s =
     (let (r, auth) = issue_challenge c entropy now (fst s)
      in (case r of Ok ch \<Rightarrow> reply_json (js_challenge J) OP_CHALLENGE ch | Err e \<Rightarrow> encode_err OP_CHALLENGE (auth_text e)
          | Panic \<Rightarrow> [], auth, snd s))"

definition do_verify :: "json \<Rightarrow> 'k crypto \<Rightarrow> bytes list \<Rightarrow> bytes \<Rightarrow> time \<Rightarrow> bytes option \<Rightarrow> authenticator \<times> 'w
    \<Rightarrow> bytes \<times> authenticator \<times> 'w" where
  "do_verify J c trusted body now entropy s =
     (case parse_payload (js_response J) body of
        Ok response \<Rightarrow>
          (let (r, auth) = verify_and_authorize c trusted response entropy now (fst s)
           in (case r of Ok se \<Rightarrow> reply_json (js_session J) OP_VERIFY se | Err m \<Rightarrow> encode_err OP_VERIFY m | Panic \<Rightarrow> [],
               auth, snd s))
      | Err e \<Rightarrow> (encode_err OP_VERIFY (wire_text e), s)
      | Panic \<Rightarrow> ([], s))"

definition do_identity_set :: "'k crypto \<Rightarrow> 'w node_ops \<Rightarrow> identity_set_req \<Rightarrow> 'w \<Rightarrow> bytes \<times> 'w" where
  "do_identity_set c A req w =
     (case hex_decode c (sq_identity req) of
        None \<Rightarrow> (encode_err OP_IDENTITY_SET (ascii ''that is not a mesh identity''), w)
      | Some bs \<Rightarrow> answer_unit OP_IDENTITY_SET (no_set_identity A (sq_instance_id req) bs w))"

definition dispatch :: "json \<Rightarrow> 'k crypto \<Rightarrow> 'w node_ops \<Rightarrow> bytes list \<Rightarrow> u8 \<Rightarrow> bytes \<Rightarrow> time \<Rightarrow> bytes option
    \<Rightarrow> authenticator \<times> 'w \<Rightarrow> bytes \<times> authenticator \<times> 'w" where
  "dispatch J c A trusted opc body now entropy s =
     (let on_instance = (\<lambda>run. gated c trusted opc (parse_payload (js_instance J) body) iq_token now
            (\<lambda>q. run (iq_instance_id q)) s);
          on_backup = (\<lambda>run. gated c trusted opc (parse_payload (js_backup J) body) bq_token now
            (\<lambda>q. run (bq_instance_id q) (bq_name q)) s)
      in if opc = OP_CHALLENGE then do_challenge J c now entropy s
      else if opc = OP_VERIFY then do_verify J c trusted body now entropy s
      else if opc = OP_CREATE then
        gated c trusted opc (parse_payload (js_create J) body) cq_token now
          (\<lambda>q w. answer_fitting (js_status J) opc (no_create A (cq_spec q) w)) s
      else if opc = OP_STOP then on_instance (\<lambda>i w. answer_unit opc (no_stop A i w))
      else if opc = OP_START then on_instance (\<lambda>i w. answer_unit opc (no_start A i w))
      else if opc = OP_LOGS then
        gated c trusted opc (parse_payload (js_logs J) body) lq_token now
          (\<lambda>q w. answer_with opc (logs_reply (js_logs_resp J)) (no_logs A (lq_instance_id q) (unat (lq_lines q)) w)) s
      else if opc = OP_MAPS then
        gated c trusted opc (parse_payload (js_maps J) body) mq_token now
          (\<lambda>q w. answer_with opc (\<lambda>maps. encode_maps_resp (js_maps_resp J) maps (mq_offset q)) (no_maps A (mq_game_id q) w)) s
      else if opc = OP_MAP then
        gated c trusted opc (parse_payload (js_map J) body) pq_token now
          (\<lambda>q w. answer_unit opc (no_change_map A (pq_instance_id q) (pq_map q) w)) s
      else if opc = OP_BACKUPS then
        on_instance (\<lambda>i w. answer_with opc (encode_backups_resp (js_backups_resp J)) (no_backups A i w))
      else if opc = OP_BACKUP_CREATE then
        on_instance (\<lambda>i w. answer_fitting (js_made J) opc (no_backup_create A i w))
      else if opc = OP_BACKUP_RESTORE then on_backup (\<lambda>i n w. answer_unit opc (no_backup_restore A i n w))
      else if opc = OP_BACKUP_DELETE then on_backup (\<lambda>i n w. answer_unit opc (no_backup_delete A i n w))
      else if opc = OP_REMOVE then on_instance (\<lambda>i w. answer_unit opc (no_remove A i w))
      else if opc = OP_LIST then
        gated c trusted opc (parse_payload (js_token J) body) tq_token now
          (\<lambda>q w. answer_with opc (\<lambda>rows. encode_list_resp (js_list_resp J) rows (length rows)) (no_list A w)) s
      else if opc = OP_CAPACITY then
        gated c trusted opc (parse_payload (js_token J) body) tq_token now
          (\<lambda>q w. let (cap, w) = no_capacity A w in (reply_json (js_capacity J) opc cap, w)) s
      else if opc = OP_SPEC then on_instance (\<lambda>i w. answer_json (js_spec J) opc (no_spec A i w))
      else if opc = OP_DELTA_CREATE then
        gated c trusted opc (parse_payload (js_delta J) body) dq_token now
          (\<lambda>q w. answer_fitting (js_made J) opc (no_delta A (dq_instance_id q) (dq_since q) w)) s
      else if opc = OP_DELTA_MERGE then on_backup (\<lambda>i n w. answer_unit opc (no_merge A i n w))
      else if opc = OP_IDENTITY_READ then
        on_instance (\<lambda>i w. answer_with opc (\<lambda>found. reply_json (js_identity J) opc
          \<lparr>ir_identity = map_option (Auth.hex_encode c) found\<rparr>) (no_identity A i w))
      else if opc = OP_IDENTITY_SET then
        gated c trusted opc (parse_payload (js_set_identity J) body) sq_token now (do_identity_set c A) s
      else if opc = OP_BACKUP_READ then
        gated c trusted opc (parse_payload (js_read J) body) eq_token now
          (\<lambda>q w. answer_with opc (\<lambda>(len, data). encode_ok opc (encode_chunk len data))
             (no_chunk A (eq_instance_id q) (eq_name q) (eq_offset q) PIECE_MAX w)) s
      else if opc = OP_BACKUP_WRITE then
        gated c trusted opc (decode_write_body (js_write J) body) (wq_token \<circ> fst) now
          (\<lambda>(q, data) w. answer_json (js_progress J) opc
             (no_upload A (wq_instance_id q) (wq_upload q) (wq_offset q) (wq_total q) data w)) s
      else (encode_err opc (ascii ''unknown op''), s))"

text \<open>A request as it arrives (\<^verbatim>\<open>ControlEndpoint::handle\<close>).\<close>

definition handle :: "json \<Rightarrow> 'k crypto \<Rightarrow> 'w node_ops \<Rightarrow> bytes list \<Rightarrow> bytes \<Rightarrow> time \<Rightarrow> bytes option
    \<Rightarrow> authenticator \<times> 'w \<Rightarrow> bytes \<times> authenticator \<times> 'w" where
  "handle J c A trusted data now entropy s =
     (case decode_request data of
        Ok (opc, body) \<Rightarrow> dispatch J c A trusted opc body now entropy s
      | Err e \<Rightarrow> (encode_err 0 (wire_text e), s)
      | Panic \<Rightarrow> ([], s))"

text \<open>Whether an answer outgrows a packet and goes as a resource.\<close>

definition as_resource :: "bytes \<Rightarrow> bool" where
  "as_resource resp \<longleftrightarrow> length resp > MAX_BODY_LEN + 3"

text \<open>The operator's list, as the configuration writes it.\<close>

definition parse_identity_hash :: "'k crypto \<Rightarrow> str \<Rightarrow> (str, bytes) outcome" where
  "parse_identity_hash c hex_str =
     (case hex_decode c hex_str of None \<Rightarrow> Err (ascii ''bad identity hash'') | Some bs \<Rightarrow>
        if length bs = 16 then Ok bs else Err (ascii ''identity hash is not 16 bytes''))"

section \<open>Requests without a session\<close>

text \<open>Every token a request can be read to carry.\<close>

definition token_of :: "'r shape \<Rightarrow> ('r \<Rightarrow> str) \<Rightarrow> bytes \<Rightarrow> str list" where
  "token_of sh token body = (case parse_payload sh body of Ok q \<Rightarrow> [token q] | _ \<Rightarrow> [])"

definition tokens_in :: "json \<Rightarrow> bytes \<Rightarrow> str list" where
  "tokens_in J body =
     token_of (js_create J) cq_token body @ token_of (js_instance J) iq_token body @ token_of (js_logs J) lq_token body
     @ token_of (js_maps J) mq_token body @ token_of (js_map J) pq_token body @ token_of (js_backup J) bq_token body
     @ token_of (js_delta J) dq_token body @ token_of (js_set_identity J) sq_token body @ token_of (js_read J) eq_token body
     @ token_of (js_token J) tq_token body
     @ (case decode_write_body (js_write J) body of Ok (q, data) \<Rightarrow> [wq_token q] | _ \<Rightarrow> [])"

definition lets_in :: "'k crypto \<Rightarrow> authenticator \<Rightarrow> bytes list \<Rightarrow> time \<Rightarrow> str \<Rightarrow> bool" where
  "lets_in c auth trusted now token \<longleftrightarrow> (case authenticate c token now auth of Ok i \<Rightarrow> i \<in> set trusted | _ \<Rightarrow> False)"

text \<open>An answer that is the same in every world and leaves every world as it was.\<close>

definition blind :: "('w \<Rightarrow> bytes \<times> authenticator \<times> 'w) \<Rightarrow> bool" where
  "blind F \<longleftrightarrow> (\<exists>reply auth. \<forall>w. F w = (reply, auth, w))"

lemma blind_const: "blind (\<lambda>w. (reply, auth, w))"
  by (auto simp: blind_def)

lemma blind_if: "blind F \<Longrightarrow> blind G \<Longrightarrow> blind (\<lambda>w. if b then F w else G w)"
  by (cases b) simp_all

lemma authorize_in: "authorize c auth trusted token now = Ok i \<Longrightarrow> lets_in c auth trusted now token"
  by (auto simp: authorize_def lets_in_def split: outcome.splits if_splits)

lemma blind_gated:
  assumes "\<And>q. parsed = Ok q \<Longrightarrow> \<not> lets_in c auth trusted now (token q)"
  shows "blind (\<lambda>w. gated c trusted opc parsed token now run (auth, w))"
proof (cases parsed)
  case (Ok q)
  show ?thesis
  proof (cases "authorize c auth trusted (token q) now")
    case (Ok i)
    with assms [OF \<open>parsed = Ok q\<close>] show ?thesis by (simp add: authorize_in)
  qed (simp_all add: gated_def Ok blind_const)
qed (simp_all add: gated_def blind_const)

lemma blind_parsed:
  assumes "\<And>t. t \<in> set (token_of sh token body) \<Longrightarrow> \<not> lets_in c auth trusted now t"
  shows "blind (\<lambda>w. gated c trusted opc (parse_payload sh body) token now run (auth, w))"
  by (rule blind_gated, rule assms) (simp add: token_of_def)

lemma blind_challenge: "blind (\<lambda>w. do_challenge J c now entropy (auth, w))"
  by (simp add: do_challenge_def split_def Let_def blind_const)

lemma blind_verify: "blind (\<lambda>w. do_verify J c trusted body now entropy (auth, w))"
  by (cases "parse_payload (js_response J) body") (simp_all add: do_verify_def split_def Let_def blind_const)

lemma blind_dispatch:
  assumes "\<And>t. t \<in> set (tokens_in J body) \<Longrightarrow> \<not> lets_in c auth trusted now t"
  shows "blind (\<lambda>w. dispatch J c A trusted opc body now entropy (auth, w))"
proof -
  have p: "blind (\<lambda>w. gated c trusted opc (parse_payload (js_create J) body) cq_token now r1 (auth, w))"
    "blind (\<lambda>w. gated c trusted opc (parse_payload (js_instance J) body) iq_token now r2 (auth, w))"
    "blind (\<lambda>w. gated c trusted opc (parse_payload (js_logs J) body) lq_token now r3 (auth, w))"
    "blind (\<lambda>w. gated c trusted opc (parse_payload (js_maps J) body) mq_token now r4 (auth, w))"
    "blind (\<lambda>w. gated c trusted opc (parse_payload (js_map J) body) pq_token now r5 (auth, w))"
    "blind (\<lambda>w. gated c trusted opc (parse_payload (js_backup J) body) bq_token now r6 (auth, w))"
    "blind (\<lambda>w. gated c trusted opc (parse_payload (js_delta J) body) dq_token now r7 (auth, w))"
    "blind (\<lambda>w. gated c trusted opc (parse_payload (js_set_identity J) body) sq_token now r8 (auth, w))"
    "blind (\<lambda>w. gated c trusted opc (parse_payload (js_read J) body) eq_token now r9 (auth, w))"
    "blind (\<lambda>w. gated c trusted opc (parse_payload (js_token J) body) tq_token now r10 (auth, w))"
    for r1 r2 r3 r4 r5 r6 r7 r8 r9 r10
    by (rule blind_parsed, rule assms, simp add: tokens_in_def)+
  have w: "blind (\<lambda>w. gated c trusted opc (decode_write_body (js_write J) body) (wq_token \<circ> fst) now r (auth, w))" for r
    by (rule blind_gated, rule assms) (auto simp: tokens_in_def split: prod.splits)
  show ?thesis
    unfolding dispatch_def Let_def by (intro blind_if blind_challenge blind_verify p w blind_const)
qed

lemma blind_handle:
  assumes "\<And>opc body t. decode_request data = Ok (opc, body) \<Longrightarrow> t \<in> set (tokens_in J body) \<Longrightarrow> \<not> lets_in c auth trusted now t"
  shows "blind (\<lambda>w. handle J c A trusted data now entropy (auth, w))"
proof (cases "decode_request data")
  case (Ok p)
  obtain opc body where p: "p = (opc, body)" by (cases p)
  show ?thesis
    unfolding handle_def Ok p outcome.case prod.case
    by (rule blind_dispatch) (rule assms [OF Ok [unfolded p]])
qed (simp_all add: handle_def blind_const)

section \<open>Sessions of trusted indexes only\<close>

definition known :: "bytes list \<Rightarrow> authenticator \<Rightarrow> bool" where
  "known trusted a \<longleftrightarrow> list_all (\<lambda>(t, s). as_identity s \<in> set trusted) (au_sessions a)"

lemma known_subset: "known trusted a \<Longrightarrow> set (au_sessions a') \<subseteq> set (au_sessions a) \<Longrightarrow> known trusted a'"
  by (auto simp: known_def list_all_iff)

lemma known_authenticate: "known trusted a \<Longrightarrow> authenticate c token now a = Ok i \<Longrightarrow> i \<in> set trusted"
  by (auto simp: known_def list_all_iff authenticate_def dest!: tget_in_set split: option.splits if_splits)

lemma roomy_subset: "set (roomy i ss) \<subseteq> set ss"
  by (auto simp: roomy_def make_room_def Let_def tdel_pair fold_tdel split: if_splits)

lemma issue_sessions: "set (au_sessions (snd (issue_challenge c e now a))) \<subseteq> set (au_sessions a)"
  by (auto simp: issue_challenge_def Let_def sweep_def split: option.split)

lemma verify_sessions:
  assumes "verify c r e now a = (res, a')"
  shows "case res of
      Ok s \<Rightarrow> (\<exists>tok i. e = Some tok \<and> se_token s = Auth.hex_encode c tok
        \<and> set (au_sessions a') \<subseteq> insert (tok, \<lparr>as_identity = i, as_created_at = now, as_expires_at = now + au_session_ttl a\<rparr>) (set (au_sessions a))
        \<and> tget (au_sessions a') tok = Some \<lparr>as_identity = i, as_created_at = now, as_expires_at = now + au_session_ttl a\<rparr>)
    | _ \<Rightarrow> set (au_sessions a') \<subseteq> set (au_sessions a)"
proof -
  have sw: "set (au_sessions (sweep now a)) \<subseteq> set (au_sessions a)" "au_session_ttl (sweep now a) = au_session_ttl a"
    by (auto simp: sweep_def)
  consider (no) "set (au_sessions a') \<subseteq> set (au_sessions a)" "\<And>s. res \<noteq> Ok s"
    | (opened) i n where "open_session c i e now ((sweep now a)\<lparr>au_pending := n\<rparr>) = (res, a')"
    using assms sw(1) by (auto simp: verify_def Let_def split: option.splits if_splits outcome.splits)
  then show ?thesis
  proof cases
    case no
    then show ?thesis by (cases res) auto
  next
    case opened
    then show ?thesis
      using sw roomy_subset [of i "au_sessions (sweep now a)"]
        set_tput_subset [of _ _ "roomy i (au_sessions (sweep now a))"]
      by (fastforce simp: open_session_eq tbl.get_put split: if_splits option.splits)
  qed
qed

lemma verify_and_authorize_known:
  assumes "hex_law c" "\<And>tok. e = Some tok \<Longrightarrow> length tok = TOKEN_LEN" "known trusted a"
  shows "known trusted (snd (verify_and_authorize c trusted r e now a))"
proof -
  obtain res a' where v: "verify c r e now a = (res, a')" by fastforce
  note vs = verify_sessions [OF v]
  show ?thesis
  proof (cases res)
    case (Ok s)
    with vs obtain tok i where s: "e = Some tok" "se_token s = Auth.hex_encode c tok"
      "set (au_sessions a') \<subseteq> insert (tok, \<lparr>as_identity = i, as_created_at = now, as_expires_at = now + au_session_ttl a\<rparr>) (set (au_sessions a))"
      "tget (au_sessions a') tok = Some \<lparr>as_identity = i, as_created_at = now, as_expires_at = now + au_session_ttl a\<rparr>"
      by auto
    have tok: "decode_fixed c TOKEN_LEN (se_token s) = Some tok"
      using decode_hex [OF assms(1) assms(2) [OF s(1)]] s(2) by simp
    have auth: "authenticate c (se_token s) now a' = Ok i"
      by (simp add: authenticate_def tok s(4) constant_time_eq_refl)
    show ?thesis
    proof (cases "i \<in> set trusted")
      case True
      then have "known trusted a'" using s(3) assms(3) by (auto simp: known_def list_all_iff)
      then show ?thesis by (simp add: verify_and_authorize_def v Ok auth True)
    next
      case False
      have "known trusted (revoke c (se_token s) a')"
        using s(3) assms(3) by (auto simp: revoke_def tok known_def list_all_iff)
      then show ?thesis by (simp add: verify_and_authorize_def v Ok auth False)
    qed
  next
    case (Err e)
    then show ?thesis using vs known_subset [OF assms(3)] by (simp add: verify_and_authorize_def v)
  next
    case Panic
    then show ?thesis using vs known_subset [OF assms(3)] by (simp add: verify_and_authorize_def v)
  qed
qed

lemma gated_auth [simp]: "fst (snd (gated c trusted opc parsed token now run s)) = fst s"
  by (simp add: gated_def split_def Let_def split: outcome.split)

lemma handle_known:
  assumes "hex_law c" "\<And>tok. e = Some tok \<Longrightarrow> length tok = TOKEN_LEN" "known trusted (fst s)"
  shows "known trusted (fst (snd (handle J c A trusted data now e s)))"
proof -
  have ch: "known trusted (fst (snd (do_challenge J c now e s)))"
    using known_subset [OF assms(3) issue_sessions] by (simp add: do_challenge_def split_def Let_def)
  have ve: "known trusted (fst (snd (do_verify J c trusted body now e s)))" for body
    using verify_and_authorize_known [OF assms(1,2,3)] assms(3)
    by (simp add: do_verify_def split_def Let_def split: outcome.split)
  show ?thesis
    using ch ve assms(3) by (simp add: handle_def dispatch_def Let_def split: outcome.split)
qed

text \<open>Requests one after another, each with the clock and the randomness it met.\<close>

definition serve :: "json \<Rightarrow> 'k crypto \<Rightarrow> 'w node_ops \<Rightarrow> bytes list \<Rightarrow> (bytes \<times> time \<times> bytes option) list
    \<Rightarrow> authenticator \<times> 'w \<Rightarrow> authenticator \<times> 'w" where
  "serve J c A trusted reqs s = fold (\<lambda>(data, now, e) s. snd (handle J c A trusted data now e s)) reqs s"

lemma serve_known:
  assumes "hex_law c" "list_all (\<lambda>(data, now, e). \<forall>tok. e = Some tok \<longrightarrow> length tok = TOKEN_LEN) reqs" "known trusted (fst s)"
  shows "known trusted (fst (serve J c A trusted reqs s))"
  using assms(2,3) unfolding serve_def
proof (induction reqs arbitrary: s)
  case (Cons r reqs)
  obtain data now e where r: "r = (data, now, e)" by (cases r)
  have len: "length tok = TOKEN_LEN" if "e = Some tok" for tok using Cons.prems(1) that by (simp add: r)
  have k: "known trusted (fst (snd (handle J c A trusted data now e s)))"
    by (rule handle_known [OF assms(1) len Cons.prems(2)])
  from Cons.IH [OF _ k] Cons.prems(1) show ?case by (simp add: r)
qed simp

lemma authenticated_trusted: "lets_in c auth trusted now t \<Longrightarrow> \<exists>i. authorize c auth trusted t now = Ok i"
  by (auto simp: lets_in_def authorize_def split: outcome.splits)

section \<open>Signing in\<close>

text \<open>The index is trusted, its key signs, the node has room for one more session, and JSON keeps what it is given.\<close>

definition ready :: "json \<Rightarrow> 'k crypto \<Rightarrow> secret_key \<Rightarrow> 'k \<Rightarrow> bytes list \<Rightarrow> authenticator \<Rightarrow> bool" where
  "ready J c key k trusted auth \<longleftrightarrow>
     hex_law c \<and> (\<forall>bs. hex_decode c (Auth.hex_encode c bs) = Some bs) \<and> sign_law c key k \<and> identity_hash c k \<in> set trusted \<and> length (au_audience auth) = 16 \<and> auth_ok auth
     \<and> length (au_pending auth) < MAX_PENDING_CHALLENGES \<and> length (au_sessions auth) < MAX_SESSIONS
     \<and> (\<forall>x. carries (js_challenge J) x) \<and> (\<forall>x. carries (js_response J) x) \<and> (\<forall>x. carries (js_session J) x)"

lemma sign_in_handled:
  assumes "ready J c key k trusted auth" "length n = NONCE_LEN" "length t = TOKEN_LEN"
  shows "\<exists>ch rs se a1 a2.
    (\<forall>w. handle J c A trusted (encode_request OP_CHALLENGE []) now (Some n) (auth, w)
      = (encode_ok OP_CHALLENGE (bytes_or_default (js_challenge J) ch), a1, w))
    \<and> (\<forall>w. handle J c A trusted (encode_request OP_VERIFY (bytes_or_default (js_response J) rs)) now (Some t) (a1, w)
      = (encode_ok OP_VERIFY (bytes_or_default (js_session J) se), a2, w))
    \<and> hex_decode c (ch_audience ch) = Some (au_audience auth)
    \<and> answer_challenge c ch (au_audience auth) key = Ok rs
    \<and> authenticate c (se_token se) now a2 = Ok (identity_hash c k)"
proof -
  note r = assms(1) [unfolded ready_def]
  have hex: "hex_law c" and sign: "sign_law c key k" and tr: "identity_hash c k \<in> set trusted"
    and aud: "length (au_audience auth) = 16" and ok: "auth_ok auth" and free: "length (au_sessions auth) < MAX_SESSIONS"
    using r by blast+
  have "length (au_pending (sweep now auth)) < MAX_PENDING_CHALLENGES"
    using r tbl.len_retain [of _ "au_pending auth"] by (simp add: sweep_def) (meson le_less_trans)
  then obtain ch a1 where issue: "issue_challenge c (Some n) now auth = (Ok ch, a1)"
    by (simp add: issue_challenge_def Let_def)
  have chaud: "ch_audience ch = Auth.hex_encode c (au_audience auth)"
    using issue by (auto simp: issue_challenge_def Let_def sweep_def split: if_splits)
  obtain rs se a2 where resp: "answer_challenge c ch (au_audience auth) key = Ok rs"
    and ver: "verify c rs (Some t) now a1 = (Ok se, a2)" and auth2: "authenticate c (se_token se) now a2 = Ok (identity_hash c k)"
    using sign_in_succeeds [OF hex sign aud assms(2,3) issue ok order_refl _ free] by auto
  have aud': "hex_decode c (ch_audience ch) = Some (au_audience auth)" using r by (simp add: chaud)
  note js = carries_payload
  have c1: "carries (js_challenge J) ch" and c2: "carries (js_response J) rs" and c3: "carries (js_session J) se"
    using r by blast+
  have "handle J c A trusted (encode_request OP_CHALLENGE []) now (Some n) (auth, w)
      = (encode_ok OP_CHALLENGE (bytes_or_default (js_challenge J) ch), a1, w)" for w
    by (simp add: handle_def dispatch_def do_challenge_def issue reply_json_def js [OF c1])
  moreover have "handle J c A trusted (encode_request OP_VERIFY (bytes_or_default (js_response J) rs)) now (Some t) (a1, w)
      = (encode_ok OP_VERIFY (bytes_or_default (js_session J) se), a2, w)" for w
    by (simp add: handle_def dispatch_def do_verify_def js [OF c2] verify_and_authorize_def ver auth2 tr reply_json_def js [OF c3] op_codes)
  ultimately show ?thesis using aud' resp auth2 by blast
qed

section \<open>Sample payloads and a sample node\<close>

definition unwritten :: "'a shape" where
  "unwritten = \<lparr>sh_put = \<lambda>x. Inl [], sh_get = \<lambda>b. Inl []\<rparr>"

definition sample_spec :: instance_spec where
  "sample_spec = \<lparr>sp_instance_id = [9], sp_game_id = [3], sp_name = [4], sp_max_players = 8, sp_port = None,
     sp_extra_ports = [], sp_map = None, sp_bots = None, sp_restart_on_crash = True, sp_owner = None,
     sp_options = \<lparr>io_eula_accepted_at = None, io_rest = []\<rparr>\<rparr>"

definition sample_status :: instance_row where
  "sample_status = \<lparr>rw_instance_id = [9], rw_game_id = [3], rw_name = [4], rw_state = [], rw_port = None, rw_ports = [],
     rw_owner = None, rw_uptime_secs = None, rw_stopped_secs = None, rw_players_now = None, rw_map_now = None,
     rw_mesh_destination = None\<rparr>"

text \<open>Rows take 1000 bytes each, so a packet takes one.\<close>

definition sample_rows :: "instance_row list" where
  "sample_rows = [sample_status, sample_status]"

definition long_status :: "instance_row shape" where
  "long_status = \<lparr>sh_put = \<lambda>x. Inr (replicate 2000 0), sh_get = \<lambda>b. Inr sample_status\<rparr>"

definition long_rows :: "list_resp shape" where
  "long_rows = \<lparr>sh_put = \<lambda>x. Inr (replicate (1000 * length (ls_instances x)) 0),
     sh_get = \<lambda>b. Inr (list_body sample_rows (length b div 1000))\<rparr>"

definition sample_json :: json where
  "sample_json =
     \<lparr>js_challenge = packed (\<lambda>x. [ch_nonce x, ch_audience x, replicate (ch_expires_in_secs x) 0])
        (\<lambda>fs. \<lparr>ch_nonce = fs ! 0, ch_audience = fs ! 1, ch_expires_in_secs = length (fs ! 2)\<rparr>),
      js_response = packed (\<lambda>x. [cr_nonce x, cr_public_key x, cr_signature x])
        (\<lambda>fs. \<lparr>cr_nonce = fs ! 0, cr_public_key = fs ! 1, cr_signature = fs ! 2\<rparr>),
      js_session = packed (\<lambda>x. [se_token x, se_identity x, replicate (se_expires_in_secs x) 0])
        (\<lambda>fs. \<lparr>se_token = fs ! 0, se_identity = fs ! 1, se_expires_in_secs = length (fs ! 2)\<rparr>),
      js_create = packed (\<lambda>x. [cq_token x]) (\<lambda>fs. \<lparr>cq_token = fs ! 0, cq_spec = sample_spec\<rparr>),
      js_instance = packed (\<lambda>x. [iq_token x, iq_instance_id x]) (\<lambda>fs. \<lparr>iq_token = fs ! 0, iq_instance_id = fs ! 1\<rparr>),
      js_logs = unwritten,
      js_maps = packed (\<lambda>x. [mq_token x, mq_game_id x, to_be 4 (mq_offset x)])
        (\<lambda>fs. \<lparr>mq_token = fs ! 0, mq_game_id = fs ! 1, mq_offset = of_be (fs ! 2)\<rparr>),
      js_map = unwritten, js_backup = unwritten, js_delta = unwritten, js_set_identity = unwritten, js_read = unwritten,
      js_write = sample_header,
      js_token = packed (\<lambda>x. [tq_token x]) (\<lambda>fs. \<lparr>tq_token = fs ! 0\<rparr>),
      js_status = long_status,
      js_made = unwritten, js_capacity = unwritten, js_spec = unwritten, js_identity = unwritten, js_progress = unwritten,
      js_logs_resp = unwritten,
      js_maps_resp = packed (\<lambda>x. (case mr_next x of None \<Rightarrow> [] | Some n \<Rightarrow> 1 # to_be 4 n) # mr_maps x)
        (\<lambda>fs. \<lparr>mr_maps = tl fs, mr_next = (if hd fs = [] then None else Some (of_be (tl (hd fs))))\<rparr>),
      js_backups_resp = unwritten,
      js_list_resp = long_rows\<rparr>"

lemma long_carries: "carries long_status sample_status" "carries long_rows (list_body sample_rows j)"
proof -
  show "carries long_status sample_status" by (simp add: long_status_def carries_def)
  have "min j 2 = 0 \<or> min j 2 = 1 \<or> min j 2 = 2" by linarith
  then show "carries long_rows (list_body sample_rows j)"
    by (auto simp: long_rows_def carries_def list_body_def sample_rows_def min_def split: if_splits)
qed

lemma sample_carries:
  "carries (js_challenge sample_json) ch" "carries (js_response sample_json) r" "carries (js_session sample_json) se"
  "carries (js_create sample_json) \<lparr>cq_token = t, cq_spec = sample_spec\<rparr>" "carries (js_instance sample_json) iq"
  "carries (js_maps sample_json) mq" "carries (js_token sample_json) tq" "carries (js_maps_resp sample_json) mr"
  "carries (js_status sample_json) sample_status" "carries (js_list_resp sample_json) (list_body sample_rows j)"
proof -
  show "carries (js_challenge sample_json) ch" by (cases ch) (simp add: sample_json_def carries_packed numeral_eq_Suc)
  show "carries (js_response sample_json) r" by (cases r) (simp add: sample_json_def carries_packed numeral_eq_Suc)
  show "carries (js_session sample_json) se" by (cases se) (simp add: sample_json_def carries_packed numeral_eq_Suc)
  show "carries (js_create sample_json) \<lparr>cq_token = t, cq_spec = sample_spec\<rparr>" by (simp add: sample_json_def carries_packed)
  show "carries (js_instance sample_json) iq" by (cases iq) (simp add: sample_json_def carries_packed)
  show "carries (js_maps sample_json) mq" by (cases mq) (simp add: sample_json_def carries_packed numeral_eq_Suc)
  show "carries (js_token sample_json) tq" by (cases tq) (simp add: sample_json_def carries_packed)
  show "carries (js_maps_resp sample_json) mr"
    by (cases mr) (simp add: sample_json_def carries_packed split: option.split)
  show "carries (js_status sample_json) sample_status" "carries (js_list_resp sample_json) (list_body sample_rows j)"
    by (simp_all add: sample_json_def long_carries)
qed

definition sample_ops :: "nat node_ops" where
  "sample_ops =
     \<lparr>no_create = \<lambda>s w. (Inr sample_status, w + 1), no_stop = \<lambda>i w. (Inr (), w + 1), no_start = \<lambda>i w. (Inr (), w + 1),
      no_remove = \<lambda>i w. (Inr (), w + 1), no_list = \<lambda>w. (Inr sample_rows, w), no_capacity = \<lambda>w. (sample_capacity 0 1, w),
      no_logs = \<lambda>i n w. (Inl [], w), no_maps = \<lambda>g w. (Inr [[1], [2]], w), no_change_map = \<lambda>i m w. (Inl [], w),
      no_backups = \<lambda>i w. (Inr [], w), no_backup_create = \<lambda>i w. (Inl [], w), no_backup_restore = \<lambda>i n w. (Inl [], w),
      no_backup_delete = \<lambda>i n w. (Inl [], w), no_spec = \<lambda>i w. (Inr sample_spec, w), no_delta = \<lambda>i t w. (Inl [], w),
      no_merge = \<lambda>i n w. (Inl [], w), no_identity = \<lambda>i w. (Inr None, w), no_set_identity = \<lambda>i b w. (Inl [], w),
      no_chunk = \<lambda>i n k m w. (Inl [], w), no_upload = \<lambda>i u k l b w. (Inl [], w)\<rparr>"

lemma sample_ready:
  assumes "identity_hash sample_crypto (replicate 64 7) \<in> set trusted" "length aud = 16"
  shows "ready sample_json sample_crypto sample_secret (replicate 64 7) trusted (new_authenticator aud)"
proof -
  have "hex_decode sample_crypto (Auth.hex_encode sample_crypto bs) = Some bs" for bs
    by (simp add: sample_crypto_def unletters_letters)
  then show ?thesis
    using assms sample_hex sample_sign sample_carries(1-3)
    by (auto simp: ready_def new_authenticator_def auth_ok_def pending_ok_def sessions_ok_def own_count_def MAX_PENDING_CHALLENGES_def MAX_SESSIONS_def)
qed

lemma sample_session:
  assumes "identity_hash sample_crypto (replicate 64 7) \<in> set trusted"
  shows "\<exists>se a2. authenticate sample_crypto (se_token (se :: session)) 5 a2 = Ok (identity_hash sample_crypto (replicate 64 7))"
proof -
  have "ready sample_json sample_crypto sample_secret (replicate 64 7) trusted (new_authenticator (replicate 16 1))"
    by (rule sample_ready [OF assms]) simp
  from sign_in_handled [OF this, of "replicate NONCE_LEN 2" "replicate TOKEN_LEN 3" sample_ops 5]
  show ?thesis unfolding length_replicate by auto
qed

section \<open>Properties\<close>

text \<open>C4.
  Whoever sends a request that carries no token of a live session of a trusted index changes nothing on
  the node and learns nothing of it: the answer is the same whatever the node holds. This is so for every
  operation there is, for bytes that are none, and for the two operations that open a session.
\<close>
theorem only_a_session_reaches_the_node:
  assumes "\<And>opc body t. decode_request data = Ok (opc, body) \<Longrightarrow> t \<in> set (tokens_in J body) \<Longrightarrow> \<not> lets_in c auth trusted now t"
  shows "\<exists>reply auth'. \<forall>w. handle J c A trusted data now entropy (auth, w) = (reply, auth', w)"
  using blind_handle [of data J c auth trusted now A entropy] assms unfolding blind_def by blast

theorem only_a_session_reaches_the_node_witness:
  "\<exists>reply. \<forall>w. handle sample_json sample_crypto sample_ops [] [1, 4, 0, 0] 7 None (sample_verifier, w) = (reply, sample_verifier, w)"
proof -
  have none: "\<not> lets_in sample_crypto sample_verifier [] 7 t" for t
    by (simp add: lets_in_def split: outcome.split)
  obtain reply auth' where h: "\<forall>w. handle sample_json sample_crypto sample_ops [] [1, 4, 0, 0] 7 None (sample_verifier, w) = (reply, auth', w)"
    using only_a_session_reaches_the_node [of "[1, 4, 0, 0]" sample_json sample_crypto sample_verifier "[]" 7 sample_ops None] none
    by blast
  have "fst (snd (handle sample_json sample_crypto sample_ops [] [1, 4, 0, 0] 7 None (sample_verifier, 0))) = sample_verifier"
    by (simp add: handle_def decode_request_def UPLINK_SCHEMA_def dispatch_def op_codes)
  with h have "auth' = sample_verifier" by simp
  with h show ?thesis by blast
qed

text \<open>C18.
  Whatever requests a node has answered since it started, from anybody and in any order, every session it
  keeps is of an index its operator trusts: a stranger's signature opens none that lasts.
\<close>
theorem uplink_sessions_are_trusted:
  assumes "hex_law c" "list_all (\<lambda>(data, now, e). \<forall>tok. e = Some tok \<longrightarrow> length tok = TOKEN_LEN) reqs"
    "authenticate c token now (fst (serve J c A trusted reqs (new_authenticator audience, w))) = Ok i"
  shows "i \<in> set trusted"
proof -
  have "known trusted (fst (new_authenticator audience, w))" by (simp add: known_def new_authenticator_def)
  from known_authenticate [OF serve_known [OF assms(1,2) this] assms(3)] show ?thesis .
qed

theorem uplink_sessions_are_trusted_witness:
  "\<exists>reqs token i. authenticate sample_crypto token 5
      (fst (serve sample_json sample_crypto sample_ops [identity_hash sample_crypto (replicate 64 7)] reqs
        (new_authenticator (replicate 16 1), 0))) = Ok i
    \<and> i = identity_hash sample_crypto (replicate 64 7)"
proof -
  let ?tr = "[identity_hash sample_crypto (replicate 64 7)]" and ?n = "replicate NONCE_LEN 2" and ?t = "replicate TOKEN_LEN 3"
  obtain ch rs se a1 a2 where
    h1: "\<forall>w. handle sample_json sample_crypto sample_ops ?tr (encode_request OP_CHALLENGE []) 5 (Some ?n) (new_authenticator (replicate 16 1), w)
      = (encode_ok OP_CHALLENGE (bytes_or_default (js_challenge sample_json) ch), a1, w)"
    and h2: "\<forall>w. handle sample_json sample_crypto sample_ops ?tr (encode_request OP_VERIFY (bytes_or_default (js_response sample_json) rs)) 5 (Some ?t) (a1, w)
      = (encode_ok OP_VERIFY (bytes_or_default (js_session sample_json) se), a2, w)"
    and good: "authenticate sample_crypto (se_token se) 5 a2 = Ok (identity_hash sample_crypto (replicate 64 7))"
    using sign_in_handled [OF sample_ready [of ?tr "replicate 16 1"], of ?n ?t sample_ops 5] by auto
  let ?reqs = "[(encode_request OP_CHALLENGE [], 5, Some ?n), (encode_request OP_VERIFY (bytes_or_default (js_response sample_json) rs), 5, Some ?t)]"
  have "fst (serve sample_json sample_crypto sample_ops ?tr ?reqs (new_authenticator (replicate 16 1), 0)) = a2"
    by (simp only: serve_def fold.simps prod.case comp_def id_apply h1 [rule_format] h2 [rule_format] snd_conv fst_conv)
  with good have a: "authenticate sample_crypto (se_token se) 5 (fst (serve sample_json sample_crypto sample_ops ?tr ?reqs
      (new_authenticator (replicate 16 1), 0))) = Ok (identity_hash sample_crypto (replicate 64 7))" by simp
  have "identity_hash sample_crypto (replicate 64 7) \<in> set ?tr"
    by (rule uplink_sessions_are_trusted [OF sample_hex _ a]) (simp add: NONCE_LEN_def TOKEN_LEN_def)
  with a show ?thesis by auto
qed

text \<open>A server that was made can be answered as one that was not: when the description of it is longer than a
  packet takes, the index is told the message is too large, and the server stays.
\<close>
theorem a_made_server_can_be_refused:
  assumes "carries (js_create J) \<lparr>cq_token = t, cq_spec = sp\<rparr>" "lets_in c auth trusted now t"
    "no_create A sp w = (Inr row, w')" "payload_bytes (js_status J) row = Ok b" "length b > MAX_BODY_LEN"
  shows "handle J c A trusted (encode_request OP_CREATE (bytes_or_default (js_create J) \<lparr>cq_token = t, cq_spec = sp\<rparr>)) now e (auth, w)
    = (encode_err OP_CREATE (wire_text (TooLarge (length b))), auth, w')"
proof -
  obtain i where "authorize c auth trusted t now = Ok i" using authenticated_trusted [OF assms(2)] by blast
  then show ?thesis
    using assms(5)
    by (simp add: handle_def dispatch_def gated_def carries_payload [OF assms(1)] op_codes answer_fitting_def assms(3)
        reply_fitting_def assms(4) fits_def)
qed

theorem a_made_server_can_be_refused_witness:
  "\<exists>auth t. handle sample_json sample_crypto sample_ops [identity_hash sample_crypto (replicate 64 7)]
      (encode_request OP_CREATE (bytes_or_default (js_create sample_json) \<lparr>cq_token = t, cq_spec = sample_spec\<rparr>)) 5 None (auth, 0)
    = (encode_err OP_CREATE (wire_text (TooLarge 2000)), auth, 1)"
proof -
  let ?tr = "[identity_hash sample_crypto (replicate 64 7)]"
  obtain se :: session and a2 where good: "authenticate sample_crypto (se_token se) 5 a2 = Ok (identity_hash sample_crypto (replicate 64 7))"
    using sample_session [of ?tr] by auto
  have ok: "lets_in sample_crypto a2 ?tr 5 (se_token se)" using good by (simp add: lets_in_def)
  have made: "no_create sample_ops sample_spec 0 = (Inr sample_status, 1)" by (simp add: sample_ops_def)
  have put: "payload_bytes (js_status sample_json) sample_status = Ok (replicate 2000 0)"
    by (simp add: sample_json_def long_status_def payload_bytes_def)
  have long: "length (replicate 2000 (0 :: u8)) > MAX_BODY_LEN" by (simp add: MAX_BODY_LEN_def)
  show ?thesis
    using a_made_server_can_be_refused [OF sample_carries(4) ok made put long] by (simp only: length_replicate) blast
qed

end
