(* ===== verification/Agent_Client.thy ===== *)
theory Agent_Client
  imports Uplink Moves
begin

text \<open>
  \<^verbatim>\<open>crates/platform-index/src/agent_client.rs\<close>: an index driving its nodes over the control channel. The mesh
  (a path, a link, a request over it) is the record \<open>mesh\<close>, a parameter; a client keeps one session token per
  node. Errors are texts, as \<^verbatim>\<open>anyhow\<close> has them. How long a request may take is the mesh's.
\<close>

section \<open>The mesh and the client\<close>

record 'm mesh =
  ms_link :: "bytes \<Rightarrow> ('m, nat) asked"
  ms_path :: "bytes \<Rightarrow> ('m, unit) asked"
  ms_request :: "nat \<Rightarrow> bytes \<Rightarrow> ('m, bytes) asked"
  ms_close :: "nat \<Rightarrow> 'm \<Rightarrow> 'm"

type_synonym tokens = "(bytes, str) table"
type_synonym ('m, 'a) client = "tokens \<times> 'm \<Rightarrow> (str + 'a) \<times> tokens \<times> 'm"

definition then_do :: "('m, 'a) client \<Rightarrow> ('a \<Rightarrow> ('m, 'b) client) \<Rightarrow> ('m, 'b) client" where
  "then_do f g s = (case f s of (Inr a, s) \<Rightarrow> g a s | (Inl e, s) \<Rightarrow> (Inl e, s))"

definition pure_do :: "str + 'a \<Rightarrow> ('m, 'a) client" where
  "pure_do r s = (r, s)"

definition on_mesh :: "('m, 'a) asked \<Rightarrow> ('m, 'a) client" where
  "on_mesh f s = (let (r, m) = f (snd s) in (r, fst s, m))"

definition or_text :: "str \<Rightarrow> (wire_error, 'a) outcome \<Rightarrow> str + 'a" where
  "or_text prefix r = (case r of Ok a \<Rightarrow> Inr a | Err e \<Rightarrow> Inl (prefix @ wire_text e) | Panic \<Rightarrow> Inl prefix)"

text \<open>\<^verbatim>\<open>String::from_utf8_lossy\<close>: a sequence cut short or broken becomes one replacement character.\<close>

definition cont :: "u8 \<Rightarrow> bool" where
  "cont b \<longleftrightarrow> 0x80 \<le> unat b \<and> unat b \<le> 0xBF"

definition second_ok :: "u8 \<Rightarrow> u8 \<Rightarrow> bool" where
  "second_ok a b \<longleftrightarrow> cont b \<and>
     (if a = 0xE0 then 0xA0 \<le> unat b else if a = 0xED then unat b \<le> 0x9F
      else if a = 0xF0 then 0x90 \<le> unat b else if a = 0xF4 then unat b \<le> 0x8F else True)"

definition broken_len :: "bytes \<Rightarrow> nat" where
  "broken_len bs =
     (case bs of
        a # b # r \<Rightarrow>
          if 0xE0 \<le> unat a \<and> unat a \<le> 0xF4 \<and> second_ok a b
          then (if 0xF0 \<le> unat a \<and> r \<noteq> [] \<and> cont (hd r) then 3 else 2) else 1
      | _ \<Rightarrow> 1)"

function lossy :: "bytes \<Rightarrow> str" where
  "lossy bs =
     (if bs = [] then []
      else case utf8_next bs of
        Some (ch, r) \<Rightarrow> take (length bs - length r) bs @ lossy r
      | None \<Rightarrow> [0xEF, 0xBF, 0xBD] @ lossy (drop (broken_len bs) bs))"
  by pat_completeness auto
termination
  by (relation "measure length")
    (auto dest: utf8_next_shorter simp: broken_len_def split: list.splits)

declare lossy.simps [simp del]

section \<open>Reading an answer\<close>

definition is_auth_error :: "bytes \<Rightarrow> bool" where
  "is_auth_error raw =
     (case decode_response raw of
        Ok (opc, ok, body) \<Rightarrow>
          \<not> ok \<and> (let msg = ascii_lowercase (lossy body) in
            contains_text (ascii ''untrusted identity'') msg \<or> contains_text (ascii ''no such session'') msg
            \<or> contains_text (ascii ''session expired'') msg)
      | _ \<Rightarrow> False)"

definition ok_body :: "bytes \<Rightarrow> u8 \<Rightarrow> str + bytes" where
  "ok_body raw opc =
     (case or_text (ascii ''agent reply we cannot read: '') (decode_response raw) of
        Inl e \<Rightarrow> Inl e
      | Inr (resp_op, ok, body) \<Rightarrow>
          if resp_op \<noteq> opc
          then Inl (ascii ''agent replied with op '' @ decimal (unat resp_op) @ ascii '', expected '' @ decimal (unat opc))
          else if \<not> ok then Inl (ascii ''the agent refused: '' @ lossy body)
          else Inr body)"

definition parse_ok :: "'a shape \<Rightarrow> bytes \<Rightarrow> u8 \<Rightarrow> str + 'a" where
  "parse_ok sh raw opc =
     (case ok_body raw opc of
        Inl e \<Rightarrow> Inl e
      | Inr body \<Rightarrow> or_text (ascii ''agent reply payload did not parse: '') (parse_payload sh body))"

definition expect_empty :: "bytes \<Rightarrow> u8 \<Rightarrow> str + unit" where
  "expect_empty raw opc = (case ok_body raw opc of Inl e \<Rightarrow> Inl e | Inr _ \<Rightarrow> Inr ())"

section \<open>Links and sessions\<close>

definition link_to :: "'m mesh \<Rightarrow> bytes \<Rightarrow> ('m, nat) client" where
  "link_to W agent = on_mesh (\<lambda>m.
     case ms_link W agent m of
       (Inr l, m) \<Rightarrow> (Inr l, m)
     | (Inl _, m) \<Rightarrow>
         (case ms_path W agent m of
            (Inl e, m) \<Rightarrow> (Inl (ascii ''no path to the agent: '' @ e), m)
          | (Inr _, m) \<Rightarrow>
              (case ms_link W agent m of
                 (Inr l, m) \<Rightarrow> (Inr l, m)
               | (Inl e, m) \<Rightarrow> (Inl (ascii ''link to the agent failed: '' @ e), m))))"

definition request_on :: "'m mesh \<Rightarrow> nat \<Rightarrow> str \<Rightarrow> bytes \<Rightarrow> ('m, bytes) client" where
  "request_on W l prefix data = on_mesh (\<lambda>m. case ms_request W l data m of
     (Inr raw, m) \<Rightarrow> (Inr raw, m) | (Inl e, m) \<Rightarrow> (Inl (prefix @ e), m))"

definition close_link :: "'m mesh \<Rightarrow> nat \<Rightarrow> ('m, unit) client" where
  "close_link W l = on_mesh (\<lambda>m. (Inr (), ms_close W l m))"

text \<open>The audience signed for is the one the challenge names.\<close>

definition answer_for :: "'k crypto \<Rightarrow> secret_key \<Rightarrow> challenge \<Rightarrow> str + challenge_response" where
  "answer_for c key challenge =
     (case hex_decode c (ch_audience challenge) of
        None \<Rightarrow> Inl (ascii ''agent challenge audience is not hex'')
      | Some audience \<Rightarrow>
          if length audience \<noteq> 16 then Inl (ascii ''agent challenge audience is not 16 bytes'')
          else case answer_challenge c challenge audience key of
            Ok response \<Rightarrow> Inr response
          | Err e \<Rightarrow> Inl (ascii ''signing the challenge: '' @ auth_text e)
          | Panic \<Rightarrow> Inl [])"

definition authenticate_to :: "'m mesh \<Rightarrow> json \<Rightarrow> 'k crypto \<Rightarrow> secret_key \<Rightarrow> bytes \<Rightarrow> ('m, session) client" where
  "authenticate_to W J c key agent =
     then_do (link_to W agent) (\<lambda>l.
     then_do (request_on W l (ascii ''challenge request failed: '') (encode_request OP_CHALLENGE [])) (\<lambda>challenge_raw.
     then_do (pure_do (or_text (ascii ''agent sent a challenge we cannot read: '') (decode_response challenge_raw))) (\<lambda>(_, ok, body).
     if \<not> ok then pure_do (Inl (ascii ''agent refused the challenge: '' @ lossy body))
     else then_do (pure_do (or_text [] (parse_payload (js_challenge J) body))) (\<lambda>challenge.
     then_do (pure_do (answer_for c key challenge)) (\<lambda>response.
     then_do (pure_do (or_text [] (payload_bytes (js_response J) response))) (\<lambda>sent.
     then_do (request_on W l (ascii ''verify request failed: '') (encode_request OP_VERIFY sent)) (\<lambda>verify_raw.
     then_do (close_link W l) (\<lambda>_.
     then_do (pure_do (or_text (ascii ''agent sent a verify reply we cannot read: '') (decode_response verify_raw))) (\<lambda>(_, ok, body).
     if \<not> ok then pure_do (Inl (ascii ''agent refused to verify this index: '' @ lossy body))
     else pure_do (or_text [] (parse_payload (js_session J) body)))))))))))"

definition call_agent :: "'m mesh \<Rightarrow> bytes \<Rightarrow> u8 \<Rightarrow> bytes \<Rightarrow> ('m, bytes) client" where
  "call_agent W agent opc body =
     then_do (link_to W agent) (\<lambda>l.
     then_do (request_on W l (ascii ''agent '' @ decimal (unat opc) @ ascii '' request failed: '') (encode_request opc body)) (\<lambda>raw.
     then_do (close_link W l) (\<lambda>_. pure_do (Inr raw))))"

definition resolve_token :: "'m mesh \<Rightarrow> json \<Rightarrow> 'k crypto \<Rightarrow> secret_key \<Rightarrow> bytes \<Rightarrow> ('m, str) client" where
  "resolve_token W J c key agent s =
     (case tget (fst s) agent of
        Some t \<Rightarrow> (Inr t, s)
      | None \<Rightarrow> then_do (authenticate_to W J c key agent)
          (\<lambda>session (tokens, m). (Inr (se_token session), tput agent (se_token session) tokens, m)) s)"

definition signed_with :: "'m mesh \<Rightarrow> json \<Rightarrow> 'k crypto \<Rightarrow> secret_key \<Rightarrow> bytes \<Rightarrow> u8 \<Rightarrow> (str \<Rightarrow> str + bytes) \<Rightarrow> ('m, bytes) client" where
  "signed_with W J c key agent opc build =
     then_do (resolve_token W J c key agent) (\<lambda>token.
     then_do (pure_do (build token)) (\<lambda>body.
     then_do (call_agent W agent opc body) (\<lambda>raw.
     if is_auth_error raw
     then then_do (\<lambda>(tokens, m). (Inr (), tdel agent tokens, m)) (\<lambda>_.
          then_do (resolve_token W J c key agent) (\<lambda>token.
          then_do (pure_do (build token)) (\<lambda>body. call_agent W agent opc body)))
     else pure_do (Inr raw))))"

text \<open>\<open>inject_token\<close>: the body is read as the operation's payload, given the token, and written again.\<close>

definition inject :: "'r shape \<Rightarrow> (str \<Rightarrow> 'r \<Rightarrow> 'r) \<Rightarrow> bytes \<Rightarrow> str \<Rightarrow> str + bytes" where
  "inject sh set_token body token =
     (case or_text [] (parse_payload sh body) of Inl e \<Rightarrow> Inl e | Inr r \<Rightarrow> or_text [] (payload_bytes sh (set_token token r)))"

definition inject_token :: "json \<Rightarrow> u8 \<Rightarrow> bytes \<Rightarrow> str \<Rightarrow> str + bytes" where
  "inject_token J opc body token =
     (if opc = OP_CREATE then inject (js_create J) (\<lambda>t r. r\<lparr>cq_token := t\<rparr>) body token
      else if opc \<in> {OP_STOP, OP_START, OP_REMOVE, OP_SPEC, OP_IDENTITY_READ, OP_BACKUPS, OP_BACKUP_CREATE}
        then inject (js_instance J) (\<lambda>t r. r\<lparr>iq_token := t\<rparr>) body token
      else if opc \<in> {OP_LIST, OP_CAPACITY} then inject (js_token J) (\<lambda>t r. r\<lparr>tq_token := t\<rparr>) body token
      else if opc = OP_LOGS then inject (js_logs J) (\<lambda>t r. r\<lparr>lq_token := t\<rparr>) body token
      else if opc = OP_MAPS then inject (js_maps J) (\<lambda>t r. r\<lparr>mq_token := t\<rparr>) body token
      else if opc = OP_MAP then inject (js_map J) (\<lambda>t r. r\<lparr>pq_token := t\<rparr>) body token
      else if opc \<in> {OP_BACKUP_RESTORE, OP_BACKUP_DELETE, OP_DELTA_MERGE}
        then inject (js_backup J) (\<lambda>t r. r\<lparr>bq_token := t\<rparr>) body token
      else if opc = OP_DELTA_CREATE then inject (js_delta J) (\<lambda>t r. r\<lparr>dq_token := t\<rparr>) body token
      else if opc = OP_IDENTITY_SET then inject (js_set_identity J) (\<lambda>t r. r\<lparr>sq_token := t\<rparr>) body token
      else if opc = OP_BACKUP_READ then inject (js_read J) (\<lambda>t r. r\<lparr>eq_token := t\<rparr>) body token
      else Inl (ascii ''cannot inject a token into op '' @ decimal (unat opc)))"

text \<open>One operation: its payload with no token, then the call, then its answer read.\<close>

definition asks :: "'m mesh \<Rightarrow> json \<Rightarrow> 'k crypto \<Rightarrow> secret_key \<Rightarrow> bytes \<Rightarrow> u8 \<Rightarrow> 'r shape \<Rightarrow> 'r \<Rightarrow> (bytes \<Rightarrow> str + 'a) \<Rightarrow> ('m, 'a) client" where
  "asks W J c key agent opc sh req readit =
     then_do (pure_do (or_text [] (payload_bytes sh req))) (\<lambda>body.
     then_do (signed_with W J c key agent opc (inject_token J opc body)) (\<lambda>raw. pure_do (readit raw)))"

section \<open>The operations\<close>

definition agent_create where
  "agent_create W J c key agent spec owner = asks W J c key agent OP_CREATE (js_create J)
     \<lparr>cq_token = [], cq_spec = spec\<lparr>sp_owner := owner\<rparr>\<rparr> (\<lambda>raw. parse_ok (js_status J) raw OP_CREATE)"

definition agent_stop where
  "agent_stop W J c key agent i = asks W J c key agent OP_STOP (js_instance J) \<lparr>iq_token = [], iq_instance_id = i\<rparr>
     (\<lambda>raw. expect_empty raw OP_STOP)"

definition agent_start where
  "agent_start W J c key agent i = asks W J c key agent OP_START (js_instance J) \<lparr>iq_token = [], iq_instance_id = i\<rparr>
     (\<lambda>raw. expect_empty raw OP_START)"

definition agent_remove where
  "agent_remove W J c key agent i = asks W J c key agent OP_REMOVE (js_instance J) \<lparr>iq_token = [], iq_instance_id = i\<rparr>
     (\<lambda>raw. expect_empty raw OP_REMOVE)"

definition agent_list where
  "agent_list W J c key agent = asks W J c key agent OP_LIST (js_token J) \<lparr>tq_token = []\<rparr>
     (\<lambda>raw. map_sum id ls_instances (parse_ok (js_list_resp J) raw OP_LIST))"

definition agent_logs where
  "agent_logs W J c key agent i n = asks W J c key agent OP_LOGS (js_logs J)
     \<lparr>lq_token = [], lq_instance_id = i, lq_lines = n\<rparr> (\<lambda>raw. parse_ok (js_logs_resp J) raw OP_LOGS)"

definition maps_page where
  "maps_page W J c key agent game offset = asks W J c key agent OP_MAPS (js_maps J)
     \<lparr>mq_token = [], mq_game_id = game, mq_offset = offset\<rparr> (\<lambda>raw. parse_ok (js_maps_resp J) raw OP_MAPS)"

lemma fewer_left: "a < b \<Longrightarrow> 4294967296 - unat b < 4294967296 - unat a" for a b :: u32
  using unsigned_less [of b, where ?'a = nat] by (simp add: word_less_nat_alt diff_less_mono2)

function agent_maps_from :: "'m mesh \<Rightarrow> json \<Rightarrow> 'k crypto \<Rightarrow> secret_key \<Rightarrow> bytes \<Rightarrow> str \<Rightarrow> u32 \<Rightarrow> str list
    \<Rightarrow> ('m, str list) client" where
  "agent_maps_from W J c key agent game offset maps s =
     (case maps_page W J c key agent game offset s of
        (Inl e, s) \<Rightarrow> (Inl e, s)
      | (Inr page, s) \<Rightarrow>
          (case mr_next page of
             None \<Rightarrow> (Inr (maps @ mr_maps page), s)
           | Some next \<Rightarrow>
               if next > offset then agent_maps_from W J c key agent game next (maps @ mr_maps page) s
               else (Inr (maps @ mr_maps page), s)))"
  by pat_completeness auto
termination
  by (relation "measure (\<lambda>(W, J, c, key, agent, game, offset, maps, s). 2 ^ 32 - unat offset)")
    (auto dest: fewer_left)

declare agent_maps_from.simps [simp del]

definition agent_maps where
  "agent_maps W J c key agent game = agent_maps_from W J c key agent game 0 []"

definition agent_change_map where
  "agent_change_map W J c key agent i name = asks W J c key agent OP_MAP (js_map J)
     \<lparr>pq_token = [], pq_instance_id = i, pq_map = name\<rparr> (\<lambda>raw. expect_empty raw OP_MAP)"

definition agent_backups where
  "agent_backups W J c key agent i = asks W J c key agent OP_BACKUPS (js_instance J) \<lparr>iq_token = [], iq_instance_id = i\<rparr>
     (\<lambda>raw. parse_ok (js_backups_resp J) raw OP_BACKUPS)"

definition agent_backup_create where
  "agent_backup_create W J c key agent i = asks W J c key agent OP_BACKUP_CREATE (js_instance J)
     \<lparr>iq_token = [], iq_instance_id = i\<rparr> (\<lambda>raw. parse_ok (js_made J) raw OP_BACKUP_CREATE)"

definition agent_backup_restore where
  "agent_backup_restore W J c key agent i name = asks W J c key agent OP_BACKUP_RESTORE (js_backup J)
     \<lparr>bq_token = [], bq_instance_id = i, bq_name = name\<rparr> (\<lambda>raw. expect_empty raw OP_BACKUP_RESTORE)"

definition agent_backup_delete where
  "agent_backup_delete W J c key agent i name = asks W J c key agent OP_BACKUP_DELETE (js_backup J)
     \<lparr>bq_token = [], bq_instance_id = i, bq_name = name\<rparr> (\<lambda>raw. expect_empty raw OP_BACKUP_DELETE)"

definition agent_delta_create where
  "agent_delta_create W J c key agent i since = asks W J c key agent OP_DELTA_CREATE (js_delta J)
     \<lparr>dq_token = [], dq_instance_id = i, dq_since = since\<rparr> (\<lambda>raw. parse_ok (js_made J) raw OP_DELTA_CREATE)"

definition agent_delta_merge where
  "agent_delta_merge W J c key agent i name = asks W J c key agent OP_DELTA_MERGE (js_backup J)
     \<lparr>bq_token = [], bq_instance_id = i, bq_name = name\<rparr> (\<lambda>raw. expect_empty raw OP_DELTA_MERGE)"

definition agent_identity_read where
  "agent_identity_read W J c key agent i = asks W J c key agent OP_IDENTITY_READ (js_instance J)
     \<lparr>iq_token = [], iq_instance_id = i\<rparr> (\<lambda>raw. case parse_ok (js_identity J) raw OP_IDENTITY_READ of
        Inl e \<Rightarrow> Inl e
      | Inr reply \<Rightarrow> (case ir_identity reply of None \<Rightarrow> Inr None | Some h \<Rightarrow>
          (case hex_decode c h of None \<Rightarrow> Inl (ascii ''the node sent an identity we cannot read'') | Some b \<Rightarrow> Inr (Some b))))"

definition agent_identity_set where
  "agent_identity_set W J c key agent i identity = asks W J c key agent OP_IDENTITY_SET (js_set_identity J)
     \<lparr>sq_token = [], sq_instance_id = i, sq_identity = Auth.hex_encode c identity\<rparr> (\<lambda>raw. expect_empty raw OP_IDENTITY_SET)"

definition agent_spec where
  "agent_spec W J c key agent i = asks W J c key agent OP_SPEC (js_instance J) \<lparr>iq_token = [], iq_instance_id = i\<rparr>
     (\<lambda>raw. parse_ok (js_spec J) raw OP_SPEC)"

definition agent_backup_read where
  "agent_backup_read W J c key agent i name offset = asks W J c key agent OP_BACKUP_READ (js_read J)
     \<lparr>eq_token = [], eq_instance_id = i, eq_name = name, eq_offset = offset\<rparr>
     (\<lambda>raw. case ok_body raw OP_BACKUP_READ of Inl e \<Rightarrow> Inl e
        | Inr piece \<Rightarrow> or_text (ascii ''agent sent a piece we cannot read: '') (decode_chunk piece))"

definition agent_backup_write where
  "agent_backup_write W J c key agent i upload offset len data =
     then_do (signed_with W J c key agent OP_BACKUP_WRITE (\<lambda>token. or_text [] (encode_write_body (js_write J)
        \<lparr>wq_token = token, wq_instance_id = i, wq_upload = upload, wq_offset = offset, wq_total = len\<rparr> data)))
       (\<lambda>raw. pure_do (parse_ok (js_progress J) raw OP_BACKUP_WRITE))"

definition agent_capacity where
  "agent_capacity W J c key agent = asks W J c key agent OP_CAPACITY (js_token J) \<lparr>tq_token = []\<rparr>
     (\<lambda>raw. parse_ok (js_capacity J) raw OP_CAPACITY)"

section \<open>A mesh whose links end at one node\<close>

text \<open>Every request is answered by that node's \<open>handle\<close>, with the next of \<open>es\<close> as its randomness.\<close>

definition through :: "json \<Rightarrow> 'k crypto \<Rightarrow> 'w node_ops \<Rightarrow> bytes list \<Rightarrow> time
    \<Rightarrow> ((authenticator \<times> 'w) \<times> bytes list) mesh" where
  "through J c A trusted now =
     \<lparr>ms_link = \<lambda>d m. (Inr 0, m), ms_path = \<lambda>d m. (Inr (), m),
      ms_request = \<lambda>l data (s, es).
        let (reply, s) = handle J c A trusted data now (case es of [] \<Rightarrow> None | e # _ \<Rightarrow> Some e) s in (Inr reply, s, tl es),
      ms_close = \<lambda>l m. m\<rparr>"

lemma link_through: "link_to (through J c A trusted now) d s = (Inr 0, s)"
  by (simp add: link_to_def on_mesh_def through_def)

lemma close_through: "close_link (through J c A trusted now) l s = (Inr (), s)"
  by (simp add: close_link_def on_mesh_def through_def)

lemma request_through:
  "request_on (through J c A trusted now) l prefix data (tk, s, es) =
     (let (reply, s') = handle J c A trusted data now (case es of [] \<Rightarrow> None | e # _ \<Rightarrow> Some e) s
      in (Inr reply, tk, s', tl es))"
  by (simp add: request_on_def on_mesh_def through_def split_def Let_def)

lemma call_through:
  "call_agent (through J c A trusted now) d opc body (tk, s, es) =
     (let (reply, s') = handle J c A trusted (encode_request opc body) now (case es of [] \<Rightarrow> None | e # _ \<Rightarrow> Some e) s
      in (Inr reply, tk, s', tl es))"
  by (simp add: call_agent_def then_do_def link_through request_through close_through pure_do_def split_def Let_def)

lemma sign_in_through:
  assumes "ready J c key k trusted auth" "length n = NONCE_LEN" "length t = TOKEN_LEN"
  shows "\<exists>se a. authenticate_to (through J c A trusted now) J c key d (tk, (auth, w), n # t # es) = (Inr se, tk, (a, w), es)
    \<and> authenticate c (se_token se) now a = Ok (identity_hash c k)"
proof -
  have carried: "carries (js_challenge J) ch" "carries (js_response J) rs" "carries (js_session J) se" for ch rs se
    using assms(1) unfolding ready_def by blast+
  have aud: "length (au_audience auth) = 16" using assms(1) unfolding ready_def by blast
  obtain ch rs se a1 a2 where h1: "\<And>w. handle J c A trusted (encode_request OP_CHALLENGE []) now (Some n) (auth, w)
      = (encode_ok OP_CHALLENGE (bytes_or_default (js_challenge J) ch), a1, w)"
    and h2: "\<And>w. handle J c A trusted (encode_request OP_VERIFY (bytes_or_default (js_response J) rs)) now (Some t) (a1, w)
      = (encode_ok OP_VERIFY (bytes_or_default (js_session J) se), a2, w)"
    and aud': "hex_decode c (ch_audience ch) = Some (au_audience auth)"
    and resp: "answer_challenge c ch (au_audience auth) key = Ok rs"
    and good: "authenticate c (se_token se) now a2 = Ok (identity_hash c k)"
    using sign_in_handled [OF assms, of A now] by blast
  have ans: "answer_for c key ch = Inr rs" by (simp add: answer_for_def aud' aud resp)
  have "authenticate_to (through J c A trusted now) J c key d (tk, (auth, w), n # t # es) = (Inr se, tk, (a2, w), es)"
    by (simp add: authenticate_to_def then_do_def link_through request_through close_through pure_do_def or_text_def
        h1 h2 carries_payload [OF carried(1)] carries_payload [OF carried(2)] carries_payload [OF carried(3)] ans)
  with good show ?thesis by blast
qed

text \<open>A call that any token can be put into: what is refused for want of a session is asked again with a new one.\<close>

definition gate_of :: "json \<Rightarrow> 'k crypto \<Rightarrow> 'w node_ops \<Rightarrow> bytes list \<Rightarrow> time \<Rightarrow> u8 \<Rightarrow> (str \<Rightarrow> bytes) \<Rightarrow> ('w \<Rightarrow> bytes \<times> 'w) \<Rightarrow> bool" where
  "gate_of J c A trusted now opc body run \<longleftrightarrow>
     (\<forall>t e auth w. handle J c A trusted (encode_request opc (body t)) now e (auth, w) =
        (case authorize c auth trusted t now of
           Ok _ \<Rightarrow> (fst (run w), auth, snd (run w)) | Err m \<Rightarrow> (encode_err opc m, auth, w) | Panic \<Rightarrow> ([], auth, w)))"

definition holds_token :: "'k crypto \<Rightarrow> bytes list \<Rightarrow> time \<Rightarrow> bytes \<Rightarrow> tokens \<Rightarrow> authenticator \<Rightarrow> bool" where
  "holds_token c trusted now d tk auth \<longleftrightarrow>
     (\<exists>t i. tget tk d = Some t \<and> authenticate c t now auth = Ok i \<and> i \<in> set trusted)"

lemma authorize_Ok: "authenticate c t now auth = Ok i \<Longrightarrow> i \<in> set trusted \<Longrightarrow> authorize c auth trusted t now = Ok i"
  by (simp add: authorize_def)

lemma authenticate_cases:
  "authenticate c t now auth = Err UnknownSession \<or> authenticate c t now auth = Err SessionExpired \<or> (\<exists>i. authenticate c t now auth = Ok i)"
  by (auto simp: authenticate_def split: option.split)

text \<open>The texts a client takes for a lost session.\<close>

lemma session_texts:
  "is_auth_error (encode_err opc (auth_text UnknownSession))" "is_auth_error (encode_err opc (auth_text SessionExpired))"
  "is_auth_error (encode_err opc UNTRUSTED)"
proof -
  have "contains_text (ascii ''no such session'') (ascii_lowercase (lossy (auth_text UnknownSession)))"
    "contains_text (ascii ''session expired'') (ascii_lowercase (lossy (auth_text SessionExpired)))"
    "contains_text (ascii ''untrusted identity'') (ascii_lowercase (lossy UNTRUSTED))"
    by code_simp+
  then show "is_auth_error (encode_err opc (auth_text UnknownSession))" "is_auth_error (encode_err opc (auth_text SessionExpired))"
    "is_auth_error (encode_err opc UNTRUSTED)"
    by (simp_all only: is_auth_error_def decode_response_err outcome.case prod.case Let_def not_False_eq_True simp_thms)
qed

lemma refused_is_auth_error:
  assumes "\<not> (\<exists>i. authenticate c t now auth = Ok i \<and> i \<in> set trusted)"
  shows "\<exists>m. authorize c auth trusted t now = Err m \<and> is_auth_error (encode_err opc m)"
  using authenticate_cases [of c t now auth] assms session_texts
  by (elim disjE exE) (auto simp: authorize_def)

lemma signed_with_token:
  assumes "gate_of J c A trusted now opc body run" "holds_token c trusted now d tk auth"
    "\<And>t. build t = Inr (body t)" "\<not> is_auth_error (fst (run w))"
  shows "signed_with (through J c A trusted now) J c key d opc build (tk, (auth, w), es)
    = (Inr (fst (run w)), tk, (auth, snd (run w)), tl es)"
proof -
  obtain t i where t: "tget tk d = Some t" "authorize c auth trusted t now = Ok i"
    using assms(2) authorize_Ok unfolding holds_token_def by metis
  show ?thesis
    using assms(1,4) t
    by (simp add: signed_with_def then_do_def resolve_token_def pure_do_def assms(3) call_through gate_of_def)
qed

lemma signed_with_gate:
  assumes "ready J c key k trusted auth" "gate_of J c A trusted now opc body run"
    "\<And>t. build t = Inr (body t)" "\<not> is_auth_error (fst (run w))"
    "length e0 = 32" "length e1 = 32" "length e2 = 32"
  shows "\<exists>tk' auth' es'. signed_with (through J c A trusted now) J c key d opc build (tk, (auth, w), e0 # e1 # e2 # e3 # es)
    = (Inr (fst (run w)), tk', (auth', snd (run w)), es') \<and> holds_token c trusted now d tk' auth'"
proof -
  let ?W = "through J c A trusted now"
  have tr: "identity_hash c k \<in> set trusted" using assms(1) by (simp add: ready_def)
  have len: "length e0 = NONCE_LEN" "length e1 = TOKEN_LEN" "length e1 = NONCE_LEN" "length e2 = TOKEN_LEN"
    using assms(5-7) by (simp_all add: NONCE_LEN_def TOKEN_LEN_def)
  note gate = assms(2) [unfolded gate_of_def, rule_format]
  consider (none) "tget tk d = None" | (good) "holds_token c trusted now d tk auth"
    | (stale) t where "tget tk d = Some t" "\<not> (\<exists>i. authenticate c t now auth = Ok i \<and> i \<in> set trusted)"
    unfolding holds_token_def by (cases "tget tk d") auto
  then show ?thesis
  proof cases
    case none
    obtain se a where si: "authenticate_to ?W J c key d (tk, (auth, w), e0 # e1 # e2 # e3 # es) = (Inr se, tk, (a, w), e2 # e3 # es)"
      and good: "authenticate c (se_token se) now a = Ok (identity_hash c k)"
      using sign_in_through [OF assms(1) len(1,2), of A now d tk w "e2 # e3 # es"] by blast
    have "holds_token c trusted now d (tput d (se_token se) tk) a"
      using good tr by (simp add: holds_token_def tbl.get_put)
    moreover have "signed_with ?W J c key d opc build (tk, (auth, w), e0 # e1 # e2 # e3 # es)
      = (Inr (fst (run w)), tput d (se_token se) tk, (a, snd (run w)), e3 # es)"
      using assms(4) authorize_Ok [OF good tr]
      by (simp add: signed_with_def then_do_def resolve_token_def none si pure_do_def assms(3) call_through gate)
    ultimately show ?thesis by blast
  next
    case good
    show ?thesis using signed_with_token [OF assms(2) good assms(3,4)] good by blast
  next
    case stale
    obtain m where m: "authorize c auth trusted t now = Err m" "is_auth_error (encode_err opc m)"
      using refused_is_auth_error [OF stale(2)] by blast
    obtain se a where si: "authenticate_to ?W J c key d (tdel d tk, (auth, w), e1 # e2 # e3 # es) = (Inr se, tdel d tk, (a, w), e3 # es)"
      and good: "authenticate c (se_token se) now a = Ok (identity_hash c k)"
      using sign_in_through [OF assms(1) len(3,4), of A now d "tdel d tk" w "e3 # es"] by blast
    have "holds_token c trusted now d (tput d (se_token se) (tdel d tk)) a"
      using good tr by (simp add: holds_token_def tbl.get_put)
    moreover have "signed_with ?W J c key d opc build (tk, (auth, w), e0 # e1 # e2 # e3 # es)
      = (Inr (fst (run w)), tput d (se_token se) (tdel d tk), (a, snd (run w)), es)"
      using authorize_Ok [OF good tr]
      by (simp add: signed_with_def then_do_def resolve_token_def stale(1) si pure_do_def assms(3) call_through gate m tbl.get_del)
    ultimately show ?thesis by blast
  qed
qed

text \<open>The calls of \<open>gate_of\<close>'s shape.\<close>

lemma gate_stop:
  assumes "\<And>x. carries (js_instance J) x"
  shows "gate_of J c A trusted now OP_STOP (\<lambda>t. bytes_or_default (js_instance J) \<lparr>iq_token = t, iq_instance_id = i\<rparr>)
    (\<lambda>w. answer_unit OP_STOP (no_stop A i w))"
  by (simp add: gate_of_def handle_def dispatch_def gated_def carries_payload(2) [OF assms] op_codes split_def Let_def
      split: outcome.split)

lemma gate_start:
  assumes "\<And>x. carries (js_instance J) x"
  shows "gate_of J c A trusted now OP_START (\<lambda>t. bytes_or_default (js_instance J) \<lparr>iq_token = t, iq_instance_id = i\<rparr>)
    (\<lambda>w. answer_unit OP_START (no_start A i w))"
  by (simp add: gate_of_def handle_def dispatch_def gated_def carries_payload(2) [OF assms] op_codes split_def Let_def
      split: outcome.split)

lemma gate_remove:
  assumes "\<And>x. carries (js_instance J) x"
  shows "gate_of J c A trusted now OP_REMOVE (\<lambda>t. bytes_or_default (js_instance J) \<lparr>iq_token = t, iq_instance_id = i\<rparr>)
    (\<lambda>w. answer_unit OP_REMOVE (no_remove A i w))"
  by (simp add: gate_of_def handle_def dispatch_def gated_def carries_payload(2) [OF assms] op_codes split_def Let_def
      split: outcome.split)

lemma gate_create:
  assumes "\<And>x. carries (js_create J) x"
  shows "gate_of J c A trusted now OP_CREATE (\<lambda>t. bytes_or_default (js_create J) \<lparr>cq_token = t, cq_spec = sp\<rparr>)
    (\<lambda>w. answer_fitting (js_status J) OP_CREATE (no_create A sp w))"
  by (simp add: gate_of_def handle_def dispatch_def gated_def carries_payload(2) [OF assms] op_codes split_def Let_def
      split: outcome.split)

lemma gate_list:
  assumes "\<And>x. carries (js_token J) x"
  shows "gate_of J c A trusted now OP_LIST (\<lambda>t. bytes_or_default (js_token J) \<lparr>tq_token = t\<rparr>)
    (\<lambda>w. answer_with OP_LIST (\<lambda>rows. encode_list_resp (js_list_resp J) rows (length rows)) (no_list A w))"
  by (simp add: gate_of_def handle_def dispatch_def gated_def carries_payload(2) [OF assms] op_codes split_def Let_def
      split: outcome.split)

lemma gate_maps:
  assumes "\<And>x. carries (js_maps J) x"
  shows "gate_of J c A trusted now OP_MAPS (\<lambda>t. bytes_or_default (js_maps J) \<lparr>mq_token = t, mq_game_id = g, mq_offset = off\<rparr>)
    (\<lambda>w. answer_with OP_MAPS (\<lambda>maps. encode_maps_resp (js_maps_resp J) maps off) (no_maps A g w))"
  by (simp add: gate_of_def handle_def dispatch_def gated_def carries_payload(2) [OF assms] op_codes split_def Let_def
      split: outcome.split)

lemma inject_tokens:
  "(\<And>x. carries (js_instance J) x) \<Longrightarrow> opc \<in> {OP_STOP, OP_START, OP_REMOVE} \<Longrightarrow>
    inject_token J opc (bytes_or_default (js_instance J) \<lparr>iq_token = [], iq_instance_id = i\<rparr>) t
      = Inr (bytes_or_default (js_instance J) \<lparr>iq_token = t, iq_instance_id = i\<rparr>)"
  "(\<And>x. carries (js_create J) x) \<Longrightarrow>
    inject_token J OP_CREATE (bytes_or_default (js_create J) \<lparr>cq_token = [], cq_spec = sp\<rparr>) t
      = Inr (bytes_or_default (js_create J) \<lparr>cq_token = t, cq_spec = sp\<rparr>)"
  "(\<And>x. carries (js_token J) x) \<Longrightarrow>
    inject_token J OP_LIST (bytes_or_default (js_token J) \<lparr>tq_token = []\<rparr>) t = Inr (bytes_or_default (js_token J) \<lparr>tq_token = t\<rparr>)"
  "(\<And>x. carries (js_maps J) x) \<Longrightarrow>
    inject_token J OP_MAPS (bytes_or_default (js_maps J) \<lparr>mq_token = [], mq_game_id = g, mq_offset = off\<rparr>) t
      = Inr (bytes_or_default (js_maps J) \<lparr>mq_token = t, mq_game_id = g, mq_offset = off\<rparr>)"
  by (auto simp: inject_token_def inject_def or_text_def carries_payload op_codes)

lemma asks_through:
  assumes "carries sh req" "ready J c key k trusted auth"
    "gate_of J c A trusted now opc body run" "\<And>t. inject_token J opc (bytes_or_default sh req) t = Inr (body t)"
    "\<not> is_auth_error (fst (run w))" "length e0 = 32" "length e1 = 32" "length e2 = 32"
  shows "\<exists>tk' auth' es'. asks (through J c A trusted now) J c key d opc sh req readit (tk, (auth, w), e0 # e1 # e2 # e3 # es)
    = (readit (fst (run w)), tk', (auth', snd (run w)), es') \<and> holds_token c trusted now d tk' auth'"
proof -
  obtain tk' auth' es' where s: "signed_with (through J c A trusted now) J c key d opc
      (inject_token J opc (bytes_or_default sh req)) (tk, (auth, w), e0 # e1 # e2 # e3 # es)
    = (Inr (fst (run w)), tk', (auth', snd (run w)), es')" "holds_token c trusted now d tk' auth'"
    using signed_with_gate [OF assms(2-8), of d tk e3 es] by blast
  then show ?thesis by (simp add: asks_def then_do_def pure_do_def or_text_def carries_payload [OF assms(1)])
qed

lemma asks_with_token:
  assumes "carries sh req" "gate_of J c A trusted now opc body run" "holds_token c trusted now d tk auth"
    "\<And>t. inject_token J opc (bytes_or_default sh req) t = Inr (body t)" "\<not> is_auth_error (fst (run w))"
  shows "asks (through J c A trusted now) J c key d opc sh req readit (tk, (auth, w), es)
    = (readit (fst (run w)), tk, (auth, snd (run w)), tl es)"
  by (simp add: asks_def then_do_def pure_do_def or_text_def carries_payload [OF assms(1)] signed_with_token [OF assms(2,3,4,5)])

text \<open>A refusal that no client takes for a lost session.\<close>

definition plain_refusal :: "str + 'a \<Rightarrow> bool" where
  "plain_refusal r \<longleftrightarrow> (case r of Inr _ \<Rightarrow> True | Inl e \<Rightarrow> \<not> is_auth_error (encode_err 0 e))"

lemma is_auth_error_op: "is_auth_error (encode_err opc e) = is_auth_error (encode_err 0 e)"
  by (simp add: is_auth_error_def)

lemma ok_not_auth_error: "\<not> is_auth_error (encode_ok opc b)"
  by (simp add: is_auth_error_def)

text \<open>What a client makes of the node's answer.\<close>

definition told :: "str + 'a \<Rightarrow> str + unit" where
  "told r = (case r of Inr _ \<Rightarrow> Inr () | Inl e \<Rightarrow> Inl (ascii ''the agent refused: '' @ lossy e))"

lemma told_unit: "expect_empty (fst (answer_unit opc (r, w))) opc = told r"
  by (simp add: expect_empty_def ok_body_def or_text_def answer_unit_def told_def split: sum.split)

lemma unit_not_auth: "plain_refusal (fst x) \<Longrightarrow> \<not> is_auth_error (fst (answer_unit opc x))"
  using is_auth_error_op [of opc] ok_not_auth_error
  by (cases x) (auto simp: answer_unit_def plain_refusal_def split: sum.splits)

lemma unit_op_through:
  assumes "ready J c key k trusted auth" "\<And>x. carries (js_instance J) x" "opc \<in> {OP_STOP, OP_START, OP_REMOVE}"
    "gate_of J c A trusted now opc (\<lambda>t. bytes_or_default (js_instance J) \<lparr>iq_token = t, iq_instance_id = i\<rparr>) (\<lambda>w. answer_unit opc (f w))"
    "plain_refusal (fst (f w))" "length e0 = 32" "length e1 = 32" "length e2 = 32"
  shows "\<exists>tk' auth' es'. asks (through J c A trusted now) J c key d opc (js_instance J) \<lparr>iq_token = [], iq_instance_id = i\<rparr>
      (\<lambda>raw. expect_empty raw opc) (tk, (auth, w), e0 # e1 # e2 # e3 # es)
    = (told (fst (f w)), tk', (auth', snd (f w)), es')"
  using asks_through [OF assms(2) assms(1,4) inject_tokens(1) [OF assms(2,3)] unit_not_auth [OF assms(5)] assms(6-8),
      of d "\<lambda>raw. expect_empty raw opc" tk e3 es]
  by (cases "f w") (auto simp: told_unit, auto simp: answer_unit_def)

section \<open>Long answers\<close>

text \<open>\<open>m\<close> is the most rows of a listing that one packet takes.\<close>

definition most_rows :: "list_resp shape \<Rightarrow> instance_row list \<Rightarrow> nat \<Rightarrow> bool" where
  "most_rows sh rows m \<longleftrightarrow> m \<le> length rows \<and> list_fits sh rows m
     \<and> list_all (\<lambda>j. m < j \<longrightarrow> \<not> list_fits sh rows j) [0..<Suc (length rows)]"

lemma list_through:
  assumes "ready J c key k trusted auth" "\<And>x. carries (js_token J) x" "\<And>j. carries (js_list_resp J) (list_body rows j)"
    "no_list A w = (Inr rows, w')" "most_rows (js_list_resp J) rows m" "length e0 = 32" "length e1 = 32" "length e2 = 32"
  shows "\<exists>tk' auth' es'. agent_list (through J c A trusted now) J c key d (tk, (auth, w), e0 # e1 # e2 # e3 # es)
    = (Inr (take m rows), tk', (auth', w'), es')"
proof -
  let ?run = "\<lambda>w. answer_with OP_LIST (\<lambda>rows. encode_list_resp (js_list_resp J) rows (length rows)) (no_list A w)"
  have "\<not> list_fits (js_list_resp J) rows j" if "m < j" "j \<le> length rows" for j
    using assms(5) that by (auto simp: most_rows_def list_all_iff le_less)
  then have cut: "encode_list_resp (js_list_resp J) rows (length rows)
      = encode_ok OP_LIST (bytes_or_default (js_list_resp J) (list_body rows m))"
    using assms(5) by (intro encode_list_resp_cut [OF assms(3)]) (simp_all add: most_rows_def)
  have run: "?run w = (encode_ok OP_LIST (bytes_or_default (js_list_resp J) (list_body rows m)), w')"
    by (simp add: answer_with_def assms(4) cut)
  have parsed: "map_sum id ls_instances (parse_ok (js_list_resp J) (encode_ok OP_LIST (bytes_or_default (js_list_resp J) (list_body rows m))) OP_LIST)
      = Inr (take m rows)"
    by (simp add: parse_ok_def ok_body_def or_text_def carries_payload(2) [OF assms(3)]) (simp add: list_body_def)
  have plain: "\<not> is_auth_error (fst (?run w))" by (simp add: run ok_not_auth_error)
  from asks_through [OF assms(2,1) gate_list [OF assms(2)] inject_tokens(3) [OF assms(2)] plain assms(6-8),
      where d = d and readit = "\<lambda>raw. map_sum id ls_instances (parse_ok (js_list_resp J) raw OP_LIST)" and tk = tk and es = es and ?e3.0 = e3 and now = now]
  show ?thesis by (auto simp: agent_list_def run parsed)
qed

text \<open>The maps of a node that always answers the same list, page by page.\<close>

definition page_at :: "maps_resp shape \<Rightarrow> str list \<Rightarrow> u32 \<Rightarrow> maps_resp \<Rightarrow> bool" where
  "page_at sh maps offset page \<longleftrightarrow> encode_maps_resp sh maps offset = encode_ok OP_MAPS (bytes_or_default sh page)
     \<and> (\<exists>k. (unat offset < length maps \<longrightarrow> k \<ge> 1) \<and> unat offset + k \<le> max (unat offset) (length maps)
          \<and> page = \<lparr>mr_maps = take k (drop (unat offset) maps),
                    mr_next = (if unat offset + k < length maps then Some (offset + of_nat k) else None)\<rparr>)"

lemma page_exists: "\<exists>page. page_at sh maps offset page"
proof -
  obtain k where "unat offset < length maps \<longrightarrow> k \<ge> 1" "unat offset + k \<le> max (unat offset) (length maps)"
    "encode_maps_resp sh maps offset = encode_ok OP_MAPS (bytes_or_default sh \<lparr>mr_maps = take k (drop (unat offset) maps),
       mr_next = (if unat offset + k < length maps then Some (offset + of_nat k) else None)\<rparr>)"
    using encode_maps_page [of offset maps sh] by blast
  then show ?thesis unfolding page_at_def by blast
qed

lemma page_answer:
  assumes "page_at (js_maps_resp J) maps offset page" "\<And>x. carries (js_maps_resp J) x"
  shows "parse_ok (js_maps_resp J) (encode_maps_resp (js_maps_resp J) maps offset) OP_MAPS = Inr page"
  using assms(1) by (simp add: page_at_def parse_ok_def ok_body_def or_text_def carries_payload(2) [OF assms(2)])

lemma page_not_auth: "\<not> is_auth_error (encode_maps_resp sh maps offset)"
  using encode_maps_page [of offset maps sh] ok_not_auth_error by auto

lemma page_step:
  assumes "page_at sh maps offset page" "length maps < 2 ^ 32" "unat offset \<le> length maps" "mr_next page = Some nx"
  shows "offset < nx" "unat nx \<le> length maps" "take (unat offset) maps @ mr_maps page = take (unat nx) maps"
proof -
  obtain k where k: "unat offset < length maps \<longrightarrow> k \<ge> 1"
    "page = \<lparr>mr_maps = take k (drop (unat offset) maps), mr_next = (if unat offset + k < length maps then Some (offset + of_nat k) else None)\<rparr>"
    using assms(1) by (auto simp: page_at_def)
  then have lt: "unat offset + k < length maps" and nxe: "nx = offset + of_nat k"
    using assms(4) by (auto split: if_splits)
  have "unat (of_nat k :: u32) = k" using lt assms(2) by (simp add: unat_of_nat)
  then have un: "unat nx = unat offset + k"
    using lt assms(2) by (simp add: nxe unat_word_ariths)
  with k(1) lt show "offset < nx" by (simp add: word_less_nat_alt)
  from un lt show "unat nx \<le> length maps" by simp
  show "take (unat offset) maps @ mr_maps page = take (unat nx) maps"
    by (simp add: k(2) un take_add)
qed

lemma page_last:
  assumes "page_at sh maps offset page" "unat offset \<le> length maps" "mr_next page = None"
  shows "take (unat offset) maps @ mr_maps page = maps"
proof -
  obtain k where "unat offset + k \<le> max (unat offset) (length maps)"
    "page = \<lparr>mr_maps = take k (drop (unat offset) maps), mr_next = (if unat offset + k < length maps then Some (offset + of_nat k) else None)\<rparr>"
    using assms(1) by (auto simp: page_at_def)
  moreover from this have "k = length maps - unat offset" using assms(2,3) by (auto split: if_splits)
  ultimately show ?thesis by simp
qed

lemma maps_from_token:
  assumes "\<And>x. carries (js_maps J) x" "\<And>x. carries (js_maps_resp J) x" "\<And>w. no_maps A g w = (Inr maps, w)"
    "length maps < 2 ^ 32" "holds_token c trusted now d tk auth" "unat offset \<le> length maps"
  shows "\<exists>es'. agent_maps_from (through J c A trusted now) J c key d g offset (take (unat offset) maps) (tk, (auth, w), es)
    = (Inr maps, tk, (auth, w), es')"
  using assms(6)
proof (induction "length maps - unat offset" arbitrary: offset es rule: less_induct)
  case less
  let ?W = "through J c A trusted now"
  let ?run = "\<lambda>w. answer_with OP_MAPS (\<lambda>maps. encode_maps_resp (js_maps_resp J) maps offset) (no_maps A g w)"
  obtain page where page: "page_at (js_maps_resp J) maps offset page" using page_exists by blast
  have run: "?run w = (encode_maps_resp (js_maps_resp J) maps offset, w)" by (simp add: answer_with_def assms(3))
  have ask: "maps_page ?W J c key d g offset (tk, (auth, w), es) = (Inr page, tk, (auth, w), tl es)"
    using asks_with_token [OF assms(1) gate_maps [OF assms(1)] assms(5) inject_tokens(4) [OF assms(1)],
        where w = w and es = es and key = key and readit = "\<lambda>raw. parse_ok (js_maps_resp J) raw OP_MAPS"]
    by (simp add: maps_page_def run page_not_auth page_answer [OF page assms(2)])
  show ?case
  proof (cases "mr_next page")
    case None
    then show ?thesis
      using page_last [OF page less.prems None] by (subst agent_maps_from.simps) (simp add: ask)
  next
    case (Some nx)
    note st = page_step [OF page assms(4) less.prems Some]
    have "length maps - unat nx < length maps - unat offset"
      using st(1,2) by (simp add: word_less_nat_alt diff_less_mono2)
    from less.hyps [OF this st(2), of "tl es"] show ?thesis
      using st(1,3) by (subst agent_maps_from.simps) (simp add: ask Some)
  qed
qed

lemma maps_through:
  assumes "ready J c key k trusted auth" "\<And>x. carries (js_maps J) x" "\<And>x. carries (js_maps_resp J) x"
    "\<And>w. no_maps A g w = (Inr maps, w)" "length maps < 2 ^ 32" "length e0 = 32" "length e1 = 32" "length e2 = 32"
  shows "\<exists>tk' auth' es'. agent_maps (through J c A trusted now) J c key d g (tk, (auth, w), e0 # e1 # e2 # e3 # es)
    = (Inr maps, tk', (auth', w), es')"
proof -
  let ?W = "through J c A trusted now"
  let ?run = "\<lambda>w. answer_with OP_MAPS (\<lambda>maps. encode_maps_resp (js_maps_resp J) maps 0) (no_maps A g w)"
  obtain page where page: "page_at (js_maps_resp J) maps 0 page" using page_exists by blast
  have run: "?run w = (encode_maps_resp (js_maps_resp J) maps 0, w)" by (simp add: answer_with_def assms(4))
  have plain: "\<not> is_auth_error (fst (?run w))" by (simp add: run page_not_auth)
  obtain tk' auth' es' where ask: "maps_page ?W J c key d g 0 (tk, (auth, w), e0 # e1 # e2 # e3 # es) = (Inr page, tk', (auth', w), es')"
    and held: "holds_token c trusted now d tk' auth'"
    using asks_through [OF assms(2,1) gate_maps [OF assms(2)] inject_tokens(4) [OF assms(2)] plain assms(6-8),
        where d = d and readit = "\<lambda>raw. parse_ok (js_maps_resp J) raw OP_MAPS" and tk = tk and es = es and ?e3.0 = e3 and now = now]
    by (auto simp: maps_page_def run page_answer [OF page assms(3)])
  show ?thesis
  proof (cases "mr_next page")
    case None
    then show ?thesis
      using page_last [OF page _ None] unfolding agent_maps_def
      by (subst agent_maps_from.simps) (auto simp: ask)
  next
    case (Some nx)
    note st = page_step [OF page assms(5) _ Some]
    obtain es'' where "agent_maps_from ?W J c key d g nx (take (unat nx) maps) (tk', (auth', w), es') = (Inr maps, tk', (auth', w), es'')"
      using maps_from_token [OF assms(2-5) held st(2), where key = key and w = w and es = es'] by auto
    then show ?thesis
      using st(1,3) unfolding agent_maps_def by (subst agent_maps_from.simps) (auto simp: ask Some)
  qed
qed

lemma sample_readiness:
  "ready sample_json sample_crypto sample_secret (replicate 64 7) [identity_hash sample_crypto (replicate 64 7)]
    (new_authenticator (replicate 16 1))"
  by (rule sample_ready) simp_all

lemma sample_randomness: "replicate 4 (replicate 32 (2 :: u8)) = replicate 32 2 # replicate 32 2 # replicate 32 2 # replicate 32 2 # []"
  by (simp add: numeral_eq_Suc del: replicate_Suc) (simp only: replicate.simps)

lemma sample_most: "most_rows (js_list_resp sample_json) sample_rows 1"
proof -
  have "list_fits (js_list_resp sample_json) sample_rows j = (1000 * min j 2 \<le> MAX_BODY_LEN)" for j
    by (simp add: sample_json_def list_fits_def long_rows_def bytes_or_default_def payload_bytes_def list_body_def sample_rows_def min.commute numeral_2_eq_2)
  moreover have "length sample_rows = 2" by (simp add: sample_rows_def)
  ultimately show ?thesis by (simp add: most_rows_def MAX_BODY_LEN_def upt_rec)
qed

lemma relayed_challenge:
  assumes "ready J c key k trusted auth" "au_audience auth \<noteq> mine"
    "issue_challenge c (Some n) now auth = (Ok ch, a)"
  shows "answer_challenge c ch mine key = Err BadSignature"
proof -
  have "hex_law c" "length (au_audience auth) = 16" using assms(1) unfolding ready_def by blast+
  moreover have "ch_audience ch = Auth.hex_encode c (au_audience auth)"
    using assms(3) by (auto simp: issue_challenge_def Let_def sweep_def split: if_splits)
  ultimately show ?thesis using assms(2) by (simp add: answer_challenge_def decode_fixed_def hex_law_def)
qed

section \<open>Properties\<close>

text \<open>C15.
  Stopping, starting or removing a server over the mesh does on the node what the operation itself does there,
  exactly once, and tells the index what the node answered, whatever token the index had kept: none, a good one,
  or one of a session the node has forgotten, let expire or no longer trusts.
\<close>
theorem the_uplink_asks_the_node:
  assumes "ready J c key k trusted auth" "\<And>x. carries (js_instance J) x"
    "plain_refusal (fst (no_stop A i w))" "plain_refusal (fst (no_start A i w))" "plain_refusal (fst (no_remove A i w))"
    "length e0 = 32" "length e1 = 32" "length e2 = 32"
  shows "(\<exists>tk' auth' es'. agent_stop (through J c A trusted now) J c key d i (tk, (auth, w), e0 # e1 # e2 # e3 # es)
      = (told (fst (no_stop A i w)), tk', (auth', snd (no_stop A i w)), es'))
    \<and> (\<exists>tk' auth' es'. agent_start (through J c A trusted now) J c key d i (tk, (auth, w), e0 # e1 # e2 # e3 # es)
      = (told (fst (no_start A i w)), tk', (auth', snd (no_start A i w)), es'))
    \<and> (\<exists>tk' auth' es'. agent_remove (through J c A trusted now) J c key d i (tk, (auth, w), e0 # e1 # e2 # e3 # es)
      = (told (fst (no_remove A i w)), tk', (auth', snd (no_remove A i w)), es'))"
  unfolding agent_stop_def agent_start_def agent_remove_def
  by (intro conjI
      unit_op_through [OF assms(1,2) _ gate_stop [OF assms(2)] assms(3,6-8)]
      unit_op_through [OF assms(1,2) _ gate_start [OF assms(2)] assms(4,6-8)]
      unit_op_through [OF assms(1,2) _ gate_remove [OF assms(2)] assms(5,6-8)]) simp_all

theorem the_uplink_asks_the_node_witness:
  "\<exists>tk' auth' es'. agent_stop (through sample_json sample_crypto sample_ops [identity_hash sample_crypto (replicate 64 7)] 5)
      sample_json sample_crypto sample_secret [8] [9]
      ([([8], [7])], (new_authenticator (replicate 16 1), 0), replicate 4 (replicate 32 2))
    = (Inr (), tk', (auth', 1), es')"
proof -
  have acts: "no_stop sample_ops [9] 0 = (Inr (), 1)" "no_start sample_ops [9] 0 = (Inr (), 1)" "no_remove sample_ops [9] 0 = (Inr (), 1)"
    by (simp_all add: sample_ops_def)
  have plain: "plain_refusal (fst (no_stop sample_ops [9] 0))" "plain_refusal (fst (no_start sample_ops [9] 0))"
    "plain_refusal (fst (no_remove sample_ops [9] 0))"
    by (simp_all add: acts plain_refusal_def)
  show ?thesis
    using the_uplink_asks_the_node [OF sample_readiness sample_carries(5) plain length_replicate length_replicate length_replicate,
        of 5 "[8]" "[([8], [7])]" 2 2 2 "replicate 32 2" "[]"]
    by (simp only: sample_randomness acts told_def sum.case fst_conv snd_conv)
qed

text \<open>C19.
  A node's listing is cut to the rows one packet takes, and the index takes what is left for all there is: nothing
  in its answer tells it that rows are missing.
\<close>
theorem a_long_listing_loses_rows:
  assumes "ready J c key k trusted auth" "\<And>x. carries (js_token J) x" "\<And>j. carries (js_list_resp J) (list_body rows j)"
    "no_list A w = (Inr rows, w')" "most_rows (js_list_resp J) rows m" "length e0 = 32" "length e1 = 32" "length e2 = 32"
  shows "\<exists>tk' auth' es'. agent_list (through J c A trusted now) J c key d (tk, (auth, w), e0 # e1 # e2 # e3 # es)
    = (Inr (take m rows), tk', (auth', w'), es')"
  by (rule list_through [OF assms])

theorem a_long_listing_loses_rows_witness:
  "\<exists>tk' auth' es'. agent_list (through sample_json sample_crypto sample_ops [identity_hash sample_crypto (replicate 64 7)] 5)
      sample_json sample_crypto sample_secret [8] ([], (new_authenticator (replicate 16 1), 0), replicate 4 (replicate 32 2))
    = (Inr [sample_status], tk', (auth', 0), es')"
proof -
  have rows: "no_list sample_ops 0 = (Inr sample_rows, 0)" by (simp add: sample_ops_def)
  show ?thesis
    using a_long_listing_loses_rows [OF sample_readiness sample_carries(7,10) rows sample_most length_replicate length_replicate length_replicate,
        of 5 "[8]" "[]" 2 2 2 "replicate 32 2" "[]"]
    by (simp only: sample_randomness) (simp add: sample_rows_def)
qed

text \<open>C33.
  The maps of a game come over page by page, as many pages as it takes: the index ends with every map the node has,
  in the node's order, and none twice.
\<close>
theorem every_map_page_by_page:
  assumes "ready J c key k trusted auth" "\<And>x. carries (js_maps J) x" "\<And>x. carries (js_maps_resp J) x"
    "\<And>w. no_maps A g w = (Inr maps, w)" "length maps < 2 ^ 32" "length e0 = 32" "length e1 = 32" "length e2 = 32"
  shows "\<exists>tk' auth' es'. agent_maps (through J c A trusted now) J c key d g (tk, (auth, w), e0 # e1 # e2 # e3 # es)
    = (Inr maps, tk', (auth', w), es')"
  by (rule maps_through [OF assms])

theorem every_map_page_by_page_witness:
  "\<exists>tk' auth' es'. agent_maps (through sample_json sample_crypto sample_ops [identity_hash sample_crypto (replicate 64 7)] 5)
      sample_json sample_crypto sample_secret [8] [3] ([], (new_authenticator (replicate 16 1), 0), replicate 4 (replicate 32 2))
    = (Inr [[1], [2]], tk', (auth', 0), es')"
proof -
  have maps: "no_maps sample_ops [3] w = (Inr [[1], [2]], w)" for w by (simp add: sample_ops_def)
  have short: "length [[1 :: u8], [2]] < 2 ^ 32" by simp
  show ?thesis
    using every_map_page_by_page [OF sample_readiness sample_carries(6,8) maps short length_replicate length_replicate length_replicate,
        of 5 "[8]" "[]" 0 2 2 2 "replicate 32 2" "[]"]
    by (simp only: sample_randomness)
qed

text \<open>C24.
  A node can borrow the index's name. One that answers the index with a challenge it fetched from another node, and
  sends that node what the index signed, is given a session there as the index: the index signs for whichever node
  the challenge names. Had it signed only for the node it called, that challenge would have been refused.
\<close>
theorem a_node_can_borrow_the_index:
  assumes "ready J c key k trusted auth" "au_audience auth \<noteq> mine" "length n = NONCE_LEN" "length t = TOKEN_LEN"
  shows "(\<exists>se a. authenticate_to (through J c A trusted now) J c key d (tk, (auth, w), n # t # es) = (Inr se, tk, (a, w), es)
      \<and> authenticate c (se_token se) now a = Ok (identity_hash c k))
    \<and> (\<forall>ch a. issue_challenge c (Some n) now auth = (Ok ch, a) \<longrightarrow> answer_challenge c ch mine key = Err BadSignature)"
  by (intro conjI allI impI sign_in_through [OF assms(1,3,4)] relayed_challenge [OF assms(1,2)])

theorem a_node_can_borrow_the_index_witness:
  "\<exists>(se :: session) a. authenticate_to (through sample_json sample_crypto sample_ops [identity_hash sample_crypto (replicate 64 7)] 5)
      sample_json sample_crypto sample_secret (replicate 16 2)
      ([], (new_authenticator (replicate 16 1), 0), [replicate NONCE_LEN 2, replicate TOKEN_LEN 3]) = (Inr se, [], (a, 0), [])
    \<and> authenticate sample_crypto (se_token se) 5 a = Ok (identity_hash sample_crypto (replicate 64 7))"
proof -
  have other: "au_audience (new_authenticator (replicate 16 1)) \<noteq> replicate 16 2"
    by (simp add: new_authenticator_def numeral_eq_Suc)
  show ?thesis
    using a_node_can_borrow_the_index [OF sample_readiness other length_replicate length_replicate] by (rule conjunct1)
qed

end
