(* ===== verification/Requests.thy ===== *)
theory Requests
  imports Moves
begin

text \<open>
  \<^verbatim>\<open>crates/platform-index/src/regions.rs\<close> and \<^verbatim>\<open>admins.rs\<close>, and the calls of \<^verbatim>\<open>hosting.rs\<close> that use them: requests
  to move a server to another region, requests to become an admin of the index, and who decides them. Each
  store is kept in memory and in a file that is written after a change; whether the write succeeds is an
  argument (\<open>ok\<close>), and what JSON reads back is what was written.
\<close>

section \<open>A store and its file\<close>

text \<open>
  \<open>kp_file\<close>: \<open>None\<close> when the store lives in memory only, \<open>Some None\<close> while there is no file yet. A change is made in
  memory first; \<open>save\<close> then writes it beside and renames.
\<close>

record 'a kept =
  kp_mem :: 'a
  kp_file :: "'a option option"

definition in_memory :: "'a \<Rightarrow> 'a kept" where
  "in_memory fresh = \<lparr>kp_mem = fresh, kp_file = None\<rparr>"

definition load_kept :: "'a \<Rightarrow> 'a option \<Rightarrow> 'a kept" where
  "load_kept fresh stored = \<lparr>kp_mem = (case stored of Some x \<Rightarrow> x | None \<Rightarrow> fresh), kp_file = Some stored\<rparr>"

definition save :: "bool \<Rightarrow> 'a kept \<Rightarrow> (hosting_error, unit) outcome \<times> 'a kept" where
  "save ok k =
     (case kp_file k of
        None \<Rightarrow> (Ok (), k)
      | Some _ \<Rightarrow> if ok then (Ok (), k\<lparr>kp_file := Some (Some (kp_mem k))\<rparr>) else (Err NotSaved, k))"

text \<open>\<open>put_kept\<close>: a change in memory, then the write, and an answer if it succeeds.\<close>

definition put_kept :: "bool \<Rightarrow> 'a \<Rightarrow> 'r \<Rightarrow> 'a kept \<Rightarrow> (hosting_error, 'r) outcome \<times> 'a kept" where
  "put_kept ok new reply k =
     (let (saved, k) = save ok (k\<lparr>kp_mem := new\<rparr>) in (and_then saved (\<lambda>_. Ok reply), k))"

definition unix :: "time \<Rightarrow> nat" where
  "unix t = t div 1000000000"

definition same_account :: "str \<Rightarrow> str \<Rightarrow> bool" where
  "same_account a b \<longleftrightarrow> ascii_lowercase a = ascii_lowercase b"

section \<open>Region requests (\<^verbatim>\<open>regions.rs\<close>)\<close>

datatype request_state = Pending | Approved | Denied | Cancelled

record region_request =
  rq_id :: str
  rq_instance_id :: str
  rq_owner :: str
  rq_game_id :: str
  rq_name :: str
  rq_from_region :: "str option"
  rq_to_region :: str
  rq_created_unix :: nat
  rq_state :: request_state
  rq_decided_unix :: "nat option"
  rq_decided_by :: "str option"
  rq_note :: "str option"
  rq_moved_to :: "str option"

type_synonym region_requests = "region_request list kept"

definition valid_request_id :: "str \<Rightarrow> bool" where
  "valid_request_id i \<longleftrightarrow> length i = 16 \<and> list_all (\<lambda>b. digit b \<or> (97 \<le> unat b \<and> unat b \<le> 102)) i"

definition create_request :: "bytes option \<Rightarrow> bool \<Rightarrow> region_request \<Rightarrow> region_requests
    \<Rightarrow> (hosting_error, region_request) outcome \<times> region_requests" where
  "create_request entropy ok r k =
     (if list_ex (\<lambda>q. rq_instance_id q = rq_instance_id r \<and> rq_state q = Pending) (kp_mem k) then (Err AlreadyAsked, k)
      else case entropy of None \<Rightarrow> (Err NoEntropy, k) | Some bs \<Rightarrow>
        let r = r\<lparr>rq_id := hex_encode bs, rq_state := Pending\<rparr> in put_kept ok (kp_mem k @ [r]) r k)"

definition all_requests :: "region_requests \<Rightarrow> region_request list" where
  "all_requests k = sort_by (\<lambda>a b. cmp (rq_created_unix b) (rq_created_unix a)) (kp_mem k)"

definition requests_for_owner :: "region_requests \<Rightarrow> str \<Rightarrow> region_request list" where
  "requests_for_owner k owner = filter (\<lambda>r. rq_owner r = owner) (all_requests k)"

definition get_request :: "region_requests \<Rightarrow> str \<Rightarrow> region_request option" where
  "get_request k i = List.find (\<lambda>r. rq_id r = i) (kp_mem k)"

text \<open>Change the first element that satisfies \<open>P\<close>.\<close>

fun change_first :: "('a \<Rightarrow> bool) \<Rightarrow> ('a \<Rightarrow> 'a) \<Rightarrow> 'a list \<Rightarrow> 'a list" where
  "change_first P f [] = []"
| "change_first P f (x # xs) = (if P x then f x # xs else x # change_first P f xs)"

definition update_pending :: "str \<Rightarrow> (region_request \<Rightarrow> region_request) \<Rightarrow> bool \<Rightarrow> region_requests
    \<Rightarrow> (hosting_error, region_request) outcome \<times> region_requests" where
  "update_pending i change ok k =
     (case get_request k i of None \<Rightarrow> (Err NoSuchRequest, k) | Some r \<Rightarrow>
        if rq_state r \<noteq> Pending then (Err AlreadyDecided, k)
        else put_kept ok (change_first (\<lambda>r. rq_id r = i) change (kp_mem k)) (change r) k)"

definition approve_request :: "str \<Rightarrow> str \<Rightarrow> nat \<Rightarrow> str \<Rightarrow> bool \<Rightarrow> region_requests
    \<Rightarrow> (hosting_error, region_request) outcome \<times> region_requests" where
  "approve_request i by_whom now moved_to =
     update_pending i (\<lambda>r. r\<lparr>rq_state := Approved, rq_decided_by := Some by_whom, rq_decided_unix := Some now,
       rq_moved_to := Some moved_to, rq_note := None\<rparr>)"

definition deny_request :: "str \<Rightarrow> str \<Rightarrow> nat \<Rightarrow> str option \<Rightarrow> bool \<Rightarrow> region_requests
    \<Rightarrow> (hosting_error, region_request) outcome \<times> region_requests" where
  "deny_request i by_whom now why =
     update_pending i (\<lambda>r. r\<lparr>rq_state := Denied, rq_decided_by := Some by_whom, rq_decided_unix := Some now,
       rq_note := why\<rparr>)"

definition note_failure :: "str \<Rightarrow> str \<Rightarrow> bool \<Rightarrow> region_requests
    \<Rightarrow> (hosting_error, region_request) outcome \<times> region_requests" where
  "note_failure i why = update_pending i (\<lambda>r. r\<lparr>rq_note := Some why\<rparr>)"

definition cancel_request :: "str \<Rightarrow> str \<Rightarrow> bool \<Rightarrow> region_requests
    \<Rightarrow> (hosting_error, region_request) outcome \<times> region_requests" where
  "cancel_request owner i ok k =
     (if (case get_request k i of None \<Rightarrow> True | Some r \<Rightarrow> rq_owner r \<noteq> owner) then (Err NoSuchRequest, k)
      else update_pending i (\<lambda>r. r\<lparr>rq_state := Cancelled\<rparr>) ok k)"

definition forget_requests :: "str \<Rightarrow> bool \<Rightarrow> region_requests \<Rightarrow> (hosting_error, nat) outcome \<times> region_requests" where
  "forget_requests identity ok k =
     (let left = filter (\<lambda>r. \<not> same_account (rq_owner r) identity) (kp_mem k);
          removed = length (kp_mem k) - length left;
          decided = (\<lambda>r. case rq_decided_by r of None \<Rightarrow> False | Some b \<Rightarrow> same_account b identity);
          new = map (\<lambda>r. if decided r then r\<lparr>rq_decided_by := None\<rparr> else r) left
      in if removed > 0 \<or> list_ex decided left then put_kept ok new removed k
         else (Ok removed, k\<lparr>kp_mem := new\<rparr>))"

definition retarget :: "str \<Rightarrow> str \<Rightarrow> bool \<Rightarrow> region_requests \<Rightarrow> (hosting_error, unit) outcome \<times> region_requests" where
  "retarget old new ok k =
     (let hit = (\<lambda>r. rq_instance_id r = old \<and> rq_state r = Pending);
          list = map (\<lambda>r. if hit r then r\<lparr>rq_instance_id := new\<rparr> else r) (kp_mem k)
      in if list_ex hit (kp_mem k) then put_kept ok list () k else (Ok (), k\<lparr>kp_mem := list\<rparr>))"

section \<open>Admins beyond the hosting file (\<^verbatim>\<open>admins.rs\<close>)\<close>

record grant =
  gr_identity :: str
  gr_granted_by :: str
  gr_granted_unix :: nat

record admin_request =
  ar_id :: str
  ar_identity :: str
  ar_note :: "str option"
  ar_created_unix :: nat
  ar_state :: request_state
  ar_decided_by :: "str option"
  ar_decided_unix :: "nat option"
  ar_reason :: "str option"

record admin_lists =
  al_granted :: "grant list"
  al_requests :: "admin_request list"

type_synonym admin_store = "admin_lists kept"

definition no_admins :: admin_lists where
  "no_admins = \<lparr>al_granted = [], al_requests = []\<rparr>"

definition is_granted :: "admin_store \<Rightarrow> str \<Rightarrow> bool" where
  "is_granted s identity \<longleftrightarrow> list_ex (\<lambda>g. same_account (gr_identity g) identity) (al_granted (kp_mem s))"

definition ask_admin :: "bytes option \<Rightarrow> bool \<Rightarrow> str \<Rightarrow> str option \<Rightarrow> nat \<Rightarrow> admin_store
    \<Rightarrow> (hosting_error, admin_request) outcome \<times> admin_store" where
  "ask_admin entropy ok identity why now s =
     (if list_ex (\<lambda>r. ar_identity r = identity \<and> ar_state r = Pending) (al_requests (kp_mem s)) then (Err AlreadyAsked, s)
      else case entropy of None \<Rightarrow> (Err NoEntropy, s) | Some bs \<Rightarrow>
        let r = \<lparr>ar_id = hex_encode bs, ar_identity = identity, ar_note = why, ar_created_unix = now,
                 ar_state = Pending, ar_decided_by = None, ar_decided_unix = None, ar_reason = None\<rparr>
        in put_kept ok ((kp_mem s)\<lparr>al_requests := al_requests (kp_mem s) @ [r]\<rparr>) r s)"

definition admin_requests_all :: "admin_store \<Rightarrow> admin_request list" where
  "admin_requests_all s = sort_by (\<lambda>a b. cmp (ar_created_unix b) (ar_created_unix a)) (al_requests (kp_mem s))"

definition latest_for :: "admin_store \<Rightarrow> str \<Rightarrow> admin_request option" where
  "latest_for s identity = List.find (\<lambda>r. ar_identity r = identity) (admin_requests_all s)"

definition approve_grant :: "str \<Rightarrow> str \<Rightarrow> nat \<Rightarrow> bool \<Rightarrow> admin_store
    \<Rightarrow> (hosting_error, admin_request) outcome \<times> admin_store" where
  "approve_grant i by_whom now ok s =
     (case List.find (\<lambda>r. ar_id r = i) (al_requests (kp_mem s)) of None \<Rightarrow> (Err NoSuchRequest, s) | Some r \<Rightarrow>
        if ar_state r \<noteq> Pending then (Err AlreadyDecided, s)
        else let change = (\<lambda>r. r\<lparr>ar_state := Approved, ar_decided_by := Some by_whom, ar_decided_unix := Some now\<rparr>);
                 granted = al_granted (kp_mem s);
                 granted = (if list_ex (\<lambda>g. gr_identity g = ar_identity r) granted then granted
                            else granted @ [\<lparr>gr_identity = ar_identity r, gr_granted_by = by_whom, gr_granted_unix = now\<rparr>])
             in put_kept ok \<lparr>al_granted = granted,
                  al_requests = change_first (\<lambda>r. ar_id r = i) change (al_requests (kp_mem s))\<rparr> (change r) s)"

definition deny_grant :: "str \<Rightarrow> str \<Rightarrow> nat \<Rightarrow> str option \<Rightarrow> bool \<Rightarrow> admin_store
    \<Rightarrow> (hosting_error, admin_request) outcome \<times> admin_store" where
  "deny_grant i by_whom now why ok s =
     (case List.find (\<lambda>r. ar_id r = i) (al_requests (kp_mem s)) of None \<Rightarrow> (Err NoSuchRequest, s) | Some r \<Rightarrow>
        if ar_state r \<noteq> Pending then (Err AlreadyDecided, s)
        else let change = (\<lambda>r. r\<lparr>ar_state := Denied, ar_decided_by := Some by_whom, ar_decided_unix := Some now,
                   ar_reason := why\<rparr>)
             in put_kept ok ((kp_mem s)\<lparr>al_requests := change_first (\<lambda>r. ar_id r = i) change (al_requests (kp_mem s))\<rparr>)
                  (change r) s)"

definition revoke_grant :: "str \<Rightarrow> bool \<Rightarrow> admin_store \<Rightarrow> (hosting_error, unit) outcome \<times> admin_store" where
  "revoke_grant identity ok s =
     (let left = filter (\<lambda>g. \<not> same_account (gr_identity g) identity) (al_granted (kp_mem s)); s' = s\<lparr>kp_mem := (kp_mem s)\<lparr>al_granted := left\<rparr>\<rparr>
      in if length left = length (al_granted (kp_mem s)) then (Err NotGranted, s') else save ok s')"

section \<open>Who decides (\<^verbatim>\<open>hosting.rs\<close>)\<close>

definition is_admin :: "hosting_config \<Rightarrow> admin_store \<Rightarrow> account_id \<Rightarrow> bool" where
  "is_admin c s account \<longleftrightarrow> list_ex (\<lambda>a. same_account a account) (hc_admins c) \<or> is_granted s account"

definition admin_only :: "hosting_config \<Rightarrow> admin_store \<Rightarrow> account_id \<Rightarrow> (hosting_error, unit) outcome" where
  "admin_only c s account = (if is_admin c s account then Ok () else Err NotAdmin)"

definition request_admin :: "hosting_config \<Rightarrow> bytes option \<Rightarrow> bool \<Rightarrow> account_id \<Rightarrow> str option \<Rightarrow> time \<Rightarrow> admin_store
    \<Rightarrow> (hosting_error, admin_request) outcome \<times> admin_store" where
  "request_admin c entropy ok account why now s =
     (if is_admin c s account then (Err AlreadyAdmin, s) else ask_admin entropy ok account why (unix now) s)"

definition admin_status :: "hosting_config \<Rightarrow> admin_store \<Rightarrow> account_id \<Rightarrow> bool \<times> admin_request option" where
  "admin_status c s account = (is_admin c s account, latest_for s account)"

definition admin_requests :: "hosting_config \<Rightarrow> admin_store \<Rightarrow> account_id \<Rightarrow> (hosting_error, admin_request list) outcome" where
  "admin_requests c s admin = and_then (admin_only c s admin) (\<lambda>_. Ok (admin_requests_all s))"

definition approve_admin_request :: "hosting_config \<Rightarrow> account_id \<Rightarrow> str \<Rightarrow> time \<Rightarrow> bool \<Rightarrow> admin_store
    \<Rightarrow> (hosting_error, admin_request) outcome \<times> admin_store" where
  "approve_admin_request c admin i now ok s =
     (if is_admin c s admin then approve_grant i admin (unix now) ok s else (Err NotAdmin, s))"

definition deny_admin_request :: "hosting_config \<Rightarrow> account_id \<Rightarrow> str \<Rightarrow> str option \<Rightarrow> time \<Rightarrow> bool \<Rightarrow> admin_store
    \<Rightarrow> (hosting_error, admin_request) outcome \<times> admin_store" where
  "deny_admin_request c admin i why now ok s =
     (if is_admin c s admin then deny_grant i admin (unix now) why ok s else (Err NotAdmin, s))"

record admin_view =
  av_identity :: str
  av_from_file :: bool
  av_granted_by :: "str option"

fun add_granted :: "admin_view list \<Rightarrow> grant list \<Rightarrow> admin_view list" where
  "add_granted out [] = out"
| "add_granted out (g # gs) =
     (if list_ex (\<lambda>a. same_account (av_identity a) (gr_identity g)) out then add_granted out gs
      else add_granted (out @ [\<lparr>av_identity = gr_identity g, av_from_file = False, av_granted_by = Some (gr_granted_by g)\<rparr>]) gs)"

definition admin_views :: "hosting_config \<Rightarrow> admin_store \<Rightarrow> admin_view list" where
  "admin_views c s = add_granted
     (map (\<lambda>a. \<lparr>av_identity = ascii_lowercase a, av_from_file = True, av_granted_by = None\<rparr>) (hc_admins c))
     (al_granted (kp_mem s))"

definition admins :: "hosting_config \<Rightarrow> admin_store \<Rightarrow> account_id \<Rightarrow> (hosting_error, admin_view list) outcome" where
  "admins c s admin = and_then (admin_only c s admin) (\<lambda>_. Ok (admin_views c s))"

definition revoke_admin :: "hosting_config \<Rightarrow> account_id \<Rightarrow> str \<Rightarrow> bool \<Rightarrow> admin_store
    \<Rightarrow> (hosting_error, unit) outcome \<times> admin_store" where
  "revoke_admin c admin identity ok s =
     (if \<not> is_admin c s admin then (Err NotAdmin, s)
      else if list_ex (\<lambda>a. same_account a identity) (hc_admins c) then (Err AdminInFile, s)
      else if length (admin_views c s) \<le> 1 then (Err LastAdmin, s)
      else revoke_grant identity ok s)"

definition request_region :: "'w workers \<Rightarrow> hosting_config \<Rightarrow> bytes option \<Rightarrow> bool \<Rightarrow> account_id \<Rightarrow> str \<Rightarrow> str
    \<Rightarrow> time \<Rightarrow> 'w \<times> region_requests \<Rightarrow> (hosting_error, region_request) outcome \<times> 'w \<times> region_requests" where
  "request_region W c entropy ok account instance_id region now st =
     (let (found, w) = owned W c account instance_id (fst st); k = snd st in
      case found of
        Err e \<Rightarrow> (Err e, w, k)
      | Panic \<Rightarrow> (Panic, w, k)
      | Ok (i, node) \<Rightarrow>
          if \<not> valid_class region then (Err BadRegion, w, k)
          else if nc_region node = Some region then (Err AlreadyInRegion, w, k)
          else if \<not> list_ex (\<lambda>n. nc_class n = nc_class node \<and> nc_region n = Some region) (hc_nodes c)
            then (Err NoWorkerThere, w, k)
          else let (r, k) = create_request entropy ok
                 \<lparr>rq_id = [], rq_instance_id = instance_id, rq_owner = account, rq_game_id = hi_game_id i,
                  rq_name = hi_name i, rq_from_region = nc_region node, rq_to_region = region,
                  rq_created_unix = unix now, rq_state = Pending, rq_decided_unix = None, rq_decided_by = None,
                  rq_note = None, rq_moved_to = None\<rparr> k
               in (r, w, k))"

definition all_region_requests :: "hosting_config \<Rightarrow> admin_store \<Rightarrow> region_requests \<Rightarrow> account_id
    \<Rightarrow> (hosting_error, region_request list) outcome" where
  "all_region_requests c s k admin = and_then (admin_only c s admin) (\<lambda>_. Ok (all_requests k))"

definition deny_region_request :: "hosting_config \<Rightarrow> admin_store \<Rightarrow> account_id \<Rightarrow> str \<Rightarrow> str option \<Rightarrow> time \<Rightarrow> bool
    \<Rightarrow> region_requests \<Rightarrow> (hosting_error, region_request) outcome \<times> region_requests" where
  "deny_region_request c s admin i why now ok k =
     (if is_admin c s admin then deny_request i admin (unix now) why ok k else (Err NotAdmin, k))"

text \<open>
  A move also takes a pending request along to the server's new id (\<open>retarget\<close>, whose failure is only
  logged). \<open>others\<close> is what other calls did to the requests while the move went on: the store is
  not locked meanwhile.
\<close>

definition move_and_follow :: "'w workers \<Rightarrow> hosting_config \<Rightarrow> account_id \<Rightarrow> str \<Rightarrow> move_target \<Rightarrow> str set
    \<Rightarrow> bytes option \<Rightarrow> bool \<Rightarrow> (region_requests \<Rightarrow> region_requests) \<Rightarrow> 'w \<times> region_requests
    \<Rightarrow> ((hosting_error, hosted_instance) outcome \<times> 'w \<times> region_requests) option" where
  "move_and_follow W c account instance_id target moving entropy ok others st =
     (case relocate_to W c account instance_id target moving entropy (fst st) of
        None \<Rightarrow> None
      | Some (Ok h, w) \<Rightarrow> Some (Ok h, w, snd (retarget instance_id (hi_instance_id h) ok (others (snd st))))
      | Some (r, w) \<Rightarrow> Some (r, w, others (snd st)))"

definition approve_region_request :: "'w workers \<Rightarrow> hosting_config \<Rightarrow> admin_store \<Rightarrow> (hosting_error \<Rightarrow> str) \<Rightarrow> account_id
    \<Rightarrow> str \<Rightarrow> time \<Rightarrow> str set \<Rightarrow> bytes option \<Rightarrow> bool \<Rightarrow> (region_requests \<Rightarrow> region_requests) \<Rightarrow> 'w \<times> region_requests
    \<Rightarrow> ((hosting_error, region_request) outcome \<times> 'w \<times> region_requests) option" where
  "approve_region_request W c s error_text admin i now moving entropy ok others st =
     (if \<not> is_admin c s admin then Some (Err NotAdmin, st)
      else case get_request (snd st) i of None \<Rightarrow> Some (Err NoSuchRequest, st) | Some r \<Rightarrow>
        if rq_state r \<noteq> Pending then Some (Err AlreadyDecided, st)
        else case move_and_follow W c (rq_owner r) (rq_instance_id r) (Region (rq_to_region r)) moving entropy ok others st of
          None \<Rightarrow> None
        | Some (moved, w, k) \<Rightarrow>
            (case moved of
               Ok h \<Rightarrow> (let (a, k) = approve_request i admin (unix now) (hi_instance_id h) ok k in Some (a, w, k))
             | Err e \<Rightarrow> Some (Err e, w, snd (note_failure i (error_text e) ok k))
             | Panic \<Rightarrow> Some (Panic, w, k)))"

end
