(* ===== verification/Decisions.thy ===== *)
theory Decisions
  imports Requests Move_Safety
begin

text \<open>
  What holds of the requests and the admins of an index whatever is called in whatever order: an index that
  has an admin keeps one, nobody becomes one but through an admin, a request is decided once, and what an
  approval does when the store changes under it.
\<close>

section \<open>Stores\<close>

lemma put_kept_mem [simp]: "kp_mem (snd (put_kept ok new reply k)) = new"
  by (simp add: put_kept_def save_def split_def Let_def split: option.split)

lemma put_kept_file: "kp_file (snd (put_kept ok new reply k)) \<in> {kp_file k, Some (Some new)}"
  by (simp add: put_kept_def save_def split_def Let_def split: option.split)

lemma put_kept_Ok: "fst (put_kept ok new reply k) = Ok r \<Longrightarrow> r = reply"
  by (auto simp: put_kept_def save_def split_def Let_def split: option.splits if_splits)

lemma save_mem [simp]: "kp_mem (snd (save ok k)) = kp_mem k"
  by (simp add: save_def split: option.split)

lemma save_file: "kp_file (snd (save ok k)) \<in> {kp_file k, Some (Some (kp_mem k))}"
  by (simp add: save_def split: option.split)

lemma set_change_first: "set (change_first P f xs) \<subseteq> set xs \<union> f ` {x \<in> set xs. P x}"
  by (induction xs) auto

lemma map_change_first: "(\<And>x. g (f x) = g x) \<Longrightarrow> map g (change_first P f xs) = map g xs"
  by (induction xs) auto

section \<open>Admins\<close>

text \<open>What may happen to the admins: the calls, and the index starting again from its file.\<close>

datatype admin_call =
    Ask account_id "str option" time "bytes option" bool
  | Approve account_id str time bool
  | Deny account_id str "str option" time bool
  | Revoke account_id str bool
  | Restart

definition restarted :: "admin_store \<Rightarrow> admin_store" where
  "restarted s = (case kp_file s of None \<Rightarrow> in_memory no_admins | Some f \<Rightarrow> load_kept no_admins f)"

fun call_admin :: "hosting_config \<Rightarrow> admin_call \<Rightarrow> admin_store \<Rightarrow> admin_store" where
  "call_admin c (Ask a why now e ok) s = snd (request_admin c e ok a why now s)"
| "call_admin c (Approve a i now ok) s = snd (approve_admin_request c a i now ok s)"
| "call_admin c (Deny a i why now ok) s = snd (deny_admin_request c a i why now ok s)"
| "call_admin c (Revoke a x ok) s = snd (revoke_admin c a x ok s)"
| "call_admin c Restart s = restarted s"

definition call_admins :: "hosting_config \<Rightarrow> admin_call list \<Rightarrow> admin_store \<Rightarrow> admin_store" where
  "call_admins c calls s = fold (call_admin c) calls s"

lemma call_admins_simps [simp]:
  "call_admins c [] s = s" "call_admins c (calls @ [a]) s = call_admin c a (call_admins c calls s)"
  by (simp_all add: call_admins_def)

text \<open>The lists an index may come to work with: the ones in memory, and the ones a restart would read.\<close>

definition lists_of :: "admin_store \<Rightarrow> admin_lists set" where
  "lists_of s = {kp_mem s, kp_mem (restarted s)}"

lemma lists_of_restarted: "lists_of (restarted s) \<subseteq> lists_of s"
  by (auto simp: lists_of_def restarted_def in_memory_def load_kept_def split: option.splits)

lemma restarted_cases:
  "kp_file s' \<in> {kp_file s, Some (Some x)} \<Longrightarrow> kp_mem (restarted s') \<in> {kp_mem (restarted s), x}"
  by (auto simp: restarted_def load_kept_def)

lemma lists_of_put: "x \<in> lists_of (snd (put_kept ok new reply s)) \<Longrightarrow> x \<in> lists_of s \<or> x = new"
  using restarted_cases [OF put_kept_file [of ok new reply s]] by (auto simp: lists_of_def)

lemma lists_of_save: "x \<in> lists_of (snd (save ok (s\<lparr>kp_mem := new\<rparr>))) \<Longrightarrow> x \<in> lists_of s \<or> x = new"
  using restarted_cases [OF save_file [of ok "s\<lparr>kp_mem := new\<rparr>"]] by (auto simp: lists_of_def restarted_def)

text \<open>Every list after a call was there before it, or was made from the one in memory by that call.\<close>

inductive makes :: "hosting_config \<Rightarrow> admin_store \<Rightarrow> admin_call \<Rightarrow> admin_lists \<Rightarrow> bool" for c s where
  asked: "makes c s (Ask a why now e ok)
    ((kp_mem s)\<lparr>al_requests := al_requests (kp_mem s) @ [\<lparr>ar_id = i, ar_identity = a, ar_note = why, ar_created_unix = unix now,
       ar_state = Pending, ar_decided_by = None, ar_decided_unix = None, ar_reason = None\<rparr>]\<rparr>)"
| approved: "is_admin c s a \<Longrightarrow> r \<in> set (al_requests (kp_mem s)) \<Longrightarrow> ar_state r = Pending \<Longrightarrow>
    set gs \<subseteq> insert \<lparr>gr_identity = ar_identity r, gr_granted_by = a, gr_granted_unix = unix now\<rparr> (set (al_granted (kp_mem s))) \<Longrightarrow>
    set (al_granted (kp_mem s)) \<subseteq> set gs \<Longrightarrow>
    ar_identity ` set rs \<subseteq> ar_identity ` set (al_requests (kp_mem s)) \<Longrightarrow>
    makes c s (Approve a i now ok) \<lparr>al_granted = gs, al_requests = rs\<rparr>"
| denied: "ar_identity ` set rs \<subseteq> ar_identity ` set (al_requests (kp_mem s)) \<Longrightarrow>
    makes c s (Deny a i why now ok) ((kp_mem s)\<lparr>al_requests := rs\<rparr>)"
| revoked: "\<not> list_ex (\<lambda>a. same_account a x) (hc_admins c) \<Longrightarrow> 1 < length (admin_views c s) \<Longrightarrow>
    makes c s (Revoke a x ok) ((kp_mem s)\<lparr>al_granted := filter (\<lambda>g. \<not> same_account (gr_identity g) x) (al_granted (kp_mem s))\<rparr>)"

lemma ar_identity_change_first:
  "(\<And>r. ar_identity (f r) = ar_identity r) \<Longrightarrow> ar_identity ` set (change_first P f rs) = ar_identity ` set rs"
  by (metis map_change_first list.set_map)

lemma asked_lists:
  assumes "x \<in> lists_of (snd (request_admin c e ok a why now s))"
  shows "x \<in> lists_of s \<or> makes c s (Ask a why now e ok) x"
proof (cases "is_admin c s a \<or> list_ex (\<lambda>r. ar_identity r = a \<and> ar_state r = Pending) (al_requests (kp_mem s)) \<or> e = None")
  case True
  with assms show ?thesis by (auto simp: request_admin_def ask_admin_def split: if_splits)
next
  case False
  then obtain bs where "e = Some bs" by blast
  with False assms show ?thesis
    by (auto simp: request_admin_def ask_admin_def Let_def makes.asked dest!: lists_of_put)
qed

lemma approved_lists:
  assumes "x \<in> lists_of (snd (approve_admin_request c a i now ok s))"
  shows "x \<in> lists_of s \<or> makes c s (Approve a i now ok) x"
proof (cases "is_admin c s a")
  case True
  show ?thesis
  proof (cases "List.find (\<lambda>r. ar_id r = i) (al_requests (kp_mem s))")
    case None
    with True assms show ?thesis by (simp add: approve_admin_request_def approve_grant_def)
  next
    case (Some r)
    let ?gs = "if list_ex (\<lambda>g. gr_identity g = ar_identity r) (al_granted (kp_mem s)) then al_granted (kp_mem s)
      else al_granted (kp_mem s) @ [\<lparr>gr_identity = ar_identity r, gr_granted_by = a, gr_granted_unix = unix now\<rparr>]"
    let ?f = "\<lambda>r. r\<lparr>ar_state := Approved, ar_decided_by := Some a, ar_decided_unix := Some (unix now)\<rparr>"
    let ?rs = "change_first (\<lambda>r. ar_id r = i) ?f (al_requests (kp_mem s))"
    show ?thesis
    proof (cases "ar_state r = Pending")
      case False
      with True Some assms show ?thesis by (simp add: approve_admin_request_def approve_grant_def)
    next
      case pending: True
      have "x \<in> lists_of (snd (put_kept ok \<lparr>al_granted = ?gs, al_requests = ?rs\<rparr> (?f r) s))"
        using assms True Some pending by (simp add: approve_admin_request_def approve_grant_def Let_def)
      from lists_of_put [OF this] consider "x \<in> lists_of s" | "x = \<lparr>al_granted = ?gs, al_requests = ?rs\<rparr>" by blast
      then show ?thesis
      proof cases
        case 2
        show ?thesis
          unfolding 2 using find_Some [OF Some] pending True
          by (intro disjI2 makes.approved [where r = r]) (simp_all add: ar_identity_change_first subset_insertI)
      qed simp
    qed
  qed
next
  case False
  with assms show ?thesis by (simp add: approve_admin_request_def)
qed

lemma denied_lists:
  assumes "x \<in> lists_of (snd (deny_admin_request c a i why now ok s))"
  shows "x \<in> lists_of s \<or> makes c s (Deny a i why now ok) x"
proof (cases "List.find (\<lambda>r. ar_id r = i) (al_requests (kp_mem s))")
  case None
  with assms show ?thesis by (simp add: deny_admin_request_def deny_grant_def split: if_splits)
next
  case (Some r)
  let ?f = "\<lambda>r. r\<lparr>ar_state := Denied, ar_decided_by := Some a, ar_decided_unix := Some (unix now), ar_reason := why\<rparr>"
  let ?rs = "change_first (\<lambda>r. ar_id r = i) ?f (al_requests (kp_mem s))"
  have "x \<in> lists_of s \<or> x = (kp_mem s)\<lparr>al_requests := ?rs\<rparr>"
    using assms Some by (auto simp: deny_admin_request_def deny_grant_def Let_def dest!: lists_of_put split: if_splits)
  moreover have "makes c s (Deny a i why now ok) ((kp_mem s)\<lparr>al_requests := ?rs\<rparr>)"
    by (rule makes.denied) (simp add: ar_identity_change_first)
  ultimately show ?thesis by blast
qed

lemma revoked_lists:
  assumes "x \<in> lists_of (snd (revoke_admin c a y ok s))"
  shows "x \<in> lists_of s \<or> makes c s (Revoke a y ok) x"
proof (cases "\<not> is_admin c s a \<or> list_ex (\<lambda>a. same_account a y) (hc_admins c) \<or> length (admin_views c s) \<le> 1")
  case True
  with assms show ?thesis by (auto simp: revoke_admin_def split: if_splits)
next
  case False
  let ?l = "(kp_mem s)\<lparr>al_granted := filter (\<lambda>g. \<not> same_account (gr_identity g) y) (al_granted (kp_mem s))\<rparr>"
  have "x \<in> lists_of (snd (revoke_grant y ok s))" using assms False by (auto simp: revoke_admin_def)
  moreover have "lists_of (s\<lparr>kp_mem := ?l\<rparr>) \<subseteq> insert ?l (lists_of s)"
    by (auto simp: lists_of_def restarted_def)
  ultimately have "x \<in> lists_of s \<or> x = ?l"
    by (auto simp: revoke_grant_def Let_def dest!: lists_of_save split: if_splits)
  moreover have "makes c s (Revoke a y ok) ?l" using False by (intro makes.revoked) auto
  ultimately show ?thesis by blast
qed

lemma call_admin_lists: "x \<in> lists_of (call_admin c call s) \<Longrightarrow> x \<in> lists_of s \<or> makes c s call x"
  using asked_lists approved_lists denied_lists revoked_lists lists_of_restarted [of s] by (cases call) auto

section \<open>An admin remains\<close>

definition lists_admin :: "hosting_config \<Rightarrow> admin_lists \<Rightarrow> account_id \<Rightarrow> bool" where
  "lists_admin c l a \<longleftrightarrow> list_ex (\<lambda>x. same_account x a) (hc_admins c) \<or> (\<exists>g\<in>set (al_granted l). same_account (gr_identity g) a)"

lemma is_admin_lists: "is_admin c s a \<longleftrightarrow> lists_admin c (kp_mem s) a"
  by (auto simp: is_admin_def lists_admin_def is_granted_def list_ex_iff)

lemma same_account_refl [simp]: "same_account a a"
  by (simp add: same_account_def)

lemma add_granted_distinct:
  "distinct (map (ascii_lowercase \<circ> av_identity) out) \<Longrightarrow>
     distinct (map (ascii_lowercase \<circ> av_identity) (add_granted out gs))"
proof (induction gs arbitrary: out)
  case (Cons g gs)
  let ?out = "out @ [\<lparr>av_identity = gr_identity g, av_from_file = False, av_granted_by = Some (gr_granted_by g)\<rparr>]"
  show ?case using Cons.IH [of ?out] Cons.IH [of out] Cons.prems by (auto simp: list_ex_iff same_account_def image_iff) metis
qed simp

lemma add_granted_from: "v \<in> set (add_granted out gs) \<Longrightarrow> v \<in> set out \<or> (\<exists>g\<in>set gs. gr_identity g = av_identity v)"
  by (induction gs arbitrary: out) (force split: if_splits)+

lemma two_different: "distinct xs \<Longrightarrow> 1 < length xs \<Longrightarrow> \<exists>x\<in>set xs. x \<noteq> y"
  by (cases xs; cases "tl xs") auto

text \<open>With no admin in the file and two in the list, one is left when an account is revoked.\<close>

lemma revoke_leaves_one:
  assumes "\<not> list_ex (\<lambda>a. same_account a x) (hc_admins c)" "1 < length (admin_views c s)"
  shows "\<exists>a. lists_admin c ((kp_mem s)\<lparr>al_granted := filter (\<lambda>g. \<not> same_account (gr_identity g) x) (al_granted (kp_mem s))\<rparr>) a"
proof (cases "hc_admins c")
  case Nil
  let ?l = "map (ascii_lowercase \<circ> av_identity) (admin_views c s)"
  have "distinct ?l" by (simp add: admin_views_def Nil add_granted_distinct)
  with two_different [of ?l "ascii_lowercase x"] assms(2) obtain v
    where v: "v \<in> set (admin_views c s)" "ascii_lowercase (av_identity v) \<noteq> ascii_lowercase x" by auto
  from add_granted_from v(1) Nil obtain g where "g \<in> set (al_granted (kp_mem s))" "gr_identity g = av_identity v"
    by (fastforce simp: admin_views_def)
  with v(2) show ?thesis by (intro exI [of _ "gr_identity g"]) (auto simp: lists_admin_def same_account_def)
next
  case (Cons a as)
  then show ?thesis by (intro exI [of _ a]) (simp add: lists_admin_def)
qed

lemma makes_admin: "makes c s call x \<Longrightarrow> \<exists>a. lists_admin c (kp_mem s) a \<Longrightarrow> \<exists>a. lists_admin c x a"
proof (induction rule: makes.induct)
  case (approved a r gs now rs i ok)
  then show ?case by (auto simp: lists_admin_def)
next
  case (revoked y a ok)
  then show ?case by (intro revoke_leaves_one)
qed (auto simp: lists_admin_def)

definition has_admin :: "hosting_config \<Rightarrow> admin_store \<Rightarrow> bool" where
  "has_admin c s \<longleftrightarrow> (\<forall>l\<in>lists_of s. \<exists>a. lists_admin c l a)"

lemma call_admins_has: "has_admin c s \<Longrightarrow> has_admin c (call_admins c calls s)"
proof (induction calls rule: rev_induct)
  case (snoc call calls)
  then show ?case
    using call_admin_lists [of _ c call "call_admins c calls s"] makes_admin
    by (fastforce simp: has_admin_def lists_of_def)
qed simp

section \<open>Where a grant comes from\<close>

definition asked_by :: "admin_call list \<Rightarrow> account_id \<Rightarrow> bool" where
  "asked_by calls a \<longleftrightarrow> (\<exists>why now e ok. Ask a why now e ok \<in> set calls)"

lemma asked_by_append [simp]: "asked_by (calls @ rest) a \<longleftrightarrow> asked_by calls a \<or> asked_by rest a"
  by (auto simp: asked_by_def)

lemma asked_by_Ask [simp]: "asked_by [Ask a why now e ok] b \<longleftrightarrow> b = a"
  by (auto simp: asked_by_def)

definition granted_by_admin :: "hosting_config \<Rightarrow> admin_store \<Rightarrow> admin_call list \<Rightarrow> grant \<Rightarrow> bool" where
  "granted_by_admin c s0 calls g \<longleftrightarrow> (\<exists>pre a i now ok post. calls = pre @ Approve a i now ok # post
     \<and> gr_granted_by g = a \<and> is_admin c (call_admins c pre s0) a \<and> asked_by pre (gr_identity g))"

definition grants_traced :: "hosting_config \<Rightarrow> admin_store \<Rightarrow> admin_call list \<Rightarrow> admin_lists \<Rightarrow> bool" where
  "grants_traced c s0 calls l \<longleftrightarrow> (\<forall>g\<in>set (al_granted l). granted_by_admin c s0 calls g)
     \<and> (\<forall>r\<in>set (al_requests l). asked_by calls (ar_identity r))"

lemma granted_by_admin_more: "granted_by_admin c s0 calls g \<Longrightarrow> granted_by_admin c s0 (calls @ rest) g"
  unfolding granted_by_admin_def by (metis append.assoc append_Cons)

lemma grants_traced_more: "grants_traced c s0 calls l \<Longrightarrow> grants_traced c s0 (calls @ rest) l"
  unfolding grants_traced_def by (auto intro: granted_by_admin_more)

lemma traced_requests:
  assumes "grants_traced c s0 calls l" "ar_identity ` set rs \<subseteq> ar_identity ` set (al_requests l)" "r \<in> set rs"
  shows "asked_by calls (ar_identity r)"
proof -
  from assms(2,3) obtain q where "q \<in> set (al_requests l)" "ar_identity q = ar_identity r" by (metis image_iff subset_iff)
  with assms(1) show ?thesis by (auto simp: grants_traced_def)
qed

lemma traced_weaken:
  assumes "grants_traced c s0 calls l" "set (al_granted l') \<subseteq> set (al_granted l)"
    "ar_identity ` set (al_requests l') \<subseteq> ar_identity ` set (al_requests l)"
  shows "grants_traced c s0 calls l'"
  unfolding grants_traced_def
proof (intro conjI ballI)
  show "granted_by_admin c s0 calls g" if "g \<in> set (al_granted l')" for g
    using assms(1,2) that by (auto simp: grants_traced_def)
qed (rule traced_requests [OF assms(1,3)])

lemma makes_traced:
  assumes "makes c s call x" "s = call_admins c calls s0" "grants_traced c s0 calls (kp_mem s)"
  shows "grants_traced c s0 (calls @ [call]) x"
  using assms(1)
proof cases
  case (asked a why now e ok i)
  with assms(3) have "granted_by_admin c s0 calls g" if "g \<in> set (al_granted x)" for g
    using that by (simp add: grants_traced_def)
  moreover have "asked_by (calls @ [call]) (ar_identity r)" if "r \<in> set (al_requests x)" for r
    using that asked assms(3) by (auto simp: grants_traced_def)
  ultimately show ?thesis unfolding grants_traced_def by (blast intro: granted_by_admin_more)
next
  case (approved a r gs now rs i ok)
  have "granted_by_admin c s0 (calls @ [call]) g" if "g \<in> set gs" for g
  proof (cases "g \<in> set (al_granted (kp_mem s))")
    case True
    with assms(3) show ?thesis by (auto simp: grants_traced_def intro: granted_by_admin_more)
  next
    case False
    with that approved(6) have g: "gr_identity g = ar_identity r" "gr_granted_by g = a" by auto
    from assms(3) approved(4) have "asked_by calls (gr_identity g)" by (auto simp: grants_traced_def g)
    with g approved(1,3) show ?thesis unfolding granted_by_admin_def by (intro exI [of _ calls] exI) (auto simp: assms(2))
  qed
  moreover have "asked_by (calls @ [call]) (ar_identity r)" if "r \<in> set rs" for r
    using traced_requests [OF assms(3) approved(8) that] by auto
  ultimately show ?thesis by (simp add: grants_traced_def approved(2))
next
  case (denied rs a i why now ok)
  with assms(3) show ?thesis by (intro grants_traced_more, elim traced_weaken) auto
next
  case (revoked y a ok)
  with assms(3) show ?thesis by (intro grants_traced_more, elim traced_weaken) auto
qed

lemma call_admins_traced:
  assumes "\<And>l. l \<in> lists_of s0 \<Longrightarrow> al_granted l = [] \<and> al_requests l = []"
  shows "l \<in> lists_of (call_admins c calls s0) \<Longrightarrow> grants_traced c s0 calls l"
proof (induction calls arbitrary: l rule: rev_induct)
  case Nil
  with assms show ?case by (simp add: grants_traced_def)
next
  case (snoc call calls)
  let ?s = "call_admins c calls s0"
  from snoc.prems call_admin_lists [of l c call ?s] consider "l \<in> lists_of ?s" | "makes c ?s call l" by auto
  then show ?case
  proof cases
    case 1
    then show ?thesis by (intro grants_traced_more snoc.IH)
  next
    case 2
    then show ?thesis by (rule makes_traced) (auto intro: snoc.IH simp: lists_of_def)
  qed
qed

section \<open>Region requests are decided once\<close>

datatype request_call =
    Create region_request "bytes option" bool
  | ApproveMove str str nat str bool
  | DenyMove str str nat "str option" bool
  | NoteFailure str str bool
  | Cancel str str bool
  | Forget str bool
  | Retarget str str bool

fun call_request :: "request_call \<Rightarrow> region_requests \<Rightarrow> region_requests" where
  "call_request (Create r e ok) k = snd (create_request e ok r k)"
| "call_request (ApproveMove i a now t ok) k = snd (approve_request i a now t ok k)"
| "call_request (DenyMove i a now why ok) k = snd (deny_request i a now why ok k)"
| "call_request (NoteFailure i why ok) k = snd (note_failure i why ok k)"
| "call_request (Cancel owner i ok) k = snd (cancel_request owner i ok k)"
| "call_request (Forget a ok) k = snd (forget_requests a ok k)"
| "call_request (Retarget old new ok) k = snd (retarget old new ok k)"

text \<open>The randomness gives an id not used before, and a moved server one no pending request names.\<close>

fun fresh_call :: "str set \<Rightarrow> request_call \<Rightarrow> region_requests \<Rightarrow> bool" where
  "fresh_call used (Create r e ok) k \<longleftrightarrow> (case e of None \<Rightarrow> True | Some bs \<Rightarrow> hex_encode bs \<notin> used)"
| "fresh_call used (Retarget old new ok) k \<longleftrightarrow> (\<forall>r\<in>set (kp_mem k). rq_instance_id r = new \<longrightarrow> rq_state r \<noteq> Pending)"
| "fresh_call used _ k \<longleftrightarrow> True"

inductive comes_to :: "region_requests \<Rightarrow> str set \<Rightarrow> region_requests \<Rightarrow> bool" for k0 where
  start: "comes_to k0 (rq_id ` set (kp_mem k0)) k0"
| call: "comes_to k0 used k \<Longrightarrow> fresh_call used a k \<Longrightarrow> k' = call_request a k \<Longrightarrow>
    comes_to k0 (used \<union> rq_id ` set (kp_mem k')) k'"

inductive_cases comes_toE: "comes_to k0 used k"

definition pending_ids :: "region_request list \<Rightarrow> str list" where
  "pending_ids rs = map rq_instance_id (filter (\<lambda>r. rq_state r = Pending) rs)"

definition orderly :: "region_request list \<Rightarrow> bool" where
  "orderly rs \<longleftrightarrow> distinct (map rq_id rs) \<and> distinct (pending_ids rs)"

definition same_decision :: "region_request \<Rightarrow> region_request \<Rightarrow> bool" where
  "same_decision r q \<longleftrightarrow> rq_state q = rq_state r \<and> rq_instance_id q = rq_instance_id r \<and> rq_owner q = rq_owner r
     \<and> rq_from_region q = rq_from_region r \<and> rq_to_region q = rq_to_region r \<and> rq_moved_to q = rq_moved_to r
     \<and> rq_decided_unix q = rq_decided_unix r \<and> rq_note q = rq_note r
     \<and> (rq_decided_by q = rq_decided_by r \<or> rq_decided_by q = None)"

text \<open>What one call does to one request.\<close>

definition becomes :: "request_call \<Rightarrow> region_request \<Rightarrow> region_request \<Rightarrow> bool" where
  "becomes a r q \<longleftrightarrow> rq_id q = rq_id r \<and> rq_owner q = rq_owner r \<and> rq_to_region q = rq_to_region r
     \<and> (if rq_state r \<noteq> Pending then same_decision r q
        else case a of
          ApproveMove i a now t ok \<Rightarrow> q = r \<or> i = rq_id r \<and> rq_state q = Approved \<and> rq_decided_by q = Some a \<and> rq_moved_to q = Some t
        | DenyMove i a now why ok \<Rightarrow> q = r \<or> i = rq_id r \<and> rq_state q = Denied \<and> rq_decided_by q = Some a
        | Cancel owner i ok \<Rightarrow> q = r \<or> i = rq_id r \<and> owner = rq_owner r \<and> rq_state q = Cancelled
        | _ \<Rightarrow> rq_state q = Pending)"

lemma same_decision_refl [simp]: "same_decision r r"
  by (simp add: same_decision_def)

lemma becomes_refl [simp]: "becomes a r r"
  by (simp add: becomes_def split: request_call.split)

lemma change_first_split:
  "List.find P xs = Some x \<Longrightarrow> \<exists>ys zs. xs = ys @ x # zs \<and> change_first P f xs = ys @ f x # zs"
proof (induction xs)
  case (Cons y xs)
  show ?case
  proof (cases "P y")
    case True
    with Cons.prems show ?thesis by (intro exI [of _ "[]"] exI [of _ xs]) simp
  next
    case False
    with Cons obtain ys zs where "xs = ys @ x # zs" "change_first P f xs = ys @ f x # zs" by auto
    with False show ?thesis by (intro exI [of _ "y # ys"] exI [of _ zs]) simp
  qed
qed simp

lemma update_pending_cases:
  obtains "kp_mem (snd (update_pending i f ok k)) = kp_mem k"
  | ys r zs where "kp_mem k = ys @ r # zs" "rq_id r = i" "rq_state r = Pending"
      "kp_mem (snd (update_pending i f ok k)) = ys @ f r # zs"
proof (cases "get_request k i")
  case None
  then show ?thesis using that(1) by (simp add: update_pending_def)
next
  case (Some r)
  show ?thesis
  proof (cases "rq_state r = Pending")
    case True
    from change_first_split [OF Some [unfolded get_request_def], of f] obtain ys zs
      where "kp_mem k = ys @ r # zs" "change_first (\<lambda>r. rq_id r = i) f (kp_mem k) = ys @ f r # zs" by blast
    with that(2) [of ys r zs] True Some find_Some [OF Some [unfolded get_request_def]] show ?thesis
      by (simp add: update_pending_def)
  qed (use that(1) Some in \<open>simp add: update_pending_def\<close>)
qed

lemma orderly_change:
  assumes "orderly (ys @ r # zs)" "rq_id (f r) = rq_id r" "rq_instance_id (f r) = rq_instance_id r" "rq_state r = Pending"
  shows "orderly (ys @ f r # zs)"
  using assms by (auto simp: orderly_def pending_ids_def)

text \<open>The three changes an owner or an admin makes to a pending request keep its id and its server.\<close>

lemma decided_orderly:
  assumes "orderly (kp_mem k)" "\<And>r. rq_id (f r) = rq_id r" "\<And>r. rq_instance_id (f r) = rq_instance_id r"
  shows "orderly (kp_mem (snd (update_pending i f ok k)))"
  by (rule update_pending_cases [of i f ok k]) (use assms in \<open>auto intro: orderly_change\<close>)

lemma update_becomes:
  assumes "orderly (kp_mem k)" "r \<in> set (kp_mem k)" "q \<in> set (kp_mem (snd (update_pending i f ok k)))" "rq_id q = rq_id r"
    "\<And>r. rq_id (f r) = rq_id r" "rq_state r = Pending \<Longrightarrow> rq_id r = i \<Longrightarrow> becomes a r (f r)"
  shows "becomes a r q"
proof (rule update_pending_cases [of i f ok k])
  assume "kp_mem (snd (update_pending i f ok k)) = kp_mem k"
  with assms(1-4) have "q = r" by (auto simp: orderly_def distinct_map inj_on_def)
  then show ?thesis by simp
next
  fix ys p zs
  assume k: "kp_mem k = ys @ p # zs" "rq_id p = i" "rq_state p = Pending" "kp_mem (snd (update_pending i f ok k)) = ys @ f p # zs"
  from assms(1) have inj: "inj_on rq_id (set (kp_mem k))" by (simp add: orderly_def distinct_map)
  from assms(3) k(4) consider "q = f p" | "q \<in> set (kp_mem k)" by (auto simp: k(1))
  then show ?thesis
  proof cases
    case 1
    then have "r = p" using inj assms(2,4,5) k(1) by (auto simp: inj_on_def)
    with 1 assms(6) k(2,3) show ?thesis by simp
  next
    case 2
    then have "q = r" using inj assms(2,4) by (auto simp: inj_on_def)
    then show ?thesis by simp
  qed
qed

lemma orderly_same: "orderly (kp_mem k) \<Longrightarrow> r \<in> set (kp_mem k) \<Longrightarrow> q \<in> set (kp_mem k) \<Longrightarrow> rq_id q = rq_id r \<Longrightarrow> q = r"
  by (auto simp: orderly_def distinct_map inj_on_def)

lemma create_mem:
  obtains "kp_mem (snd (create_request e ok r k)) = kp_mem k"
  | bs where "e = Some bs" "\<forall>q\<in>set (kp_mem k). rq_instance_id q = rq_instance_id r \<longrightarrow> rq_state q \<noteq> Pending"
      "kp_mem (snd (create_request e ok r k)) = kp_mem k @ [r\<lparr>rq_id := hex_encode bs, rq_state := Pending\<rparr>]"
  by (cases "list_ex (\<lambda>q. rq_instance_id q = rq_instance_id r \<and> rq_state q = Pending) (kp_mem k)"; cases e)
    (auto simp: create_request_def Let_def list_ex_iff)

lemma forget_mem: "kp_mem (snd (forget_requests a ok k)) =
    map (\<lambda>r. if (case rq_decided_by r of None \<Rightarrow> False | Some b \<Rightarrow> same_account b a) then r\<lparr>rq_decided_by := None\<rparr> else r)
      (filter (\<lambda>r. \<not> same_account (rq_owner r) a) (kp_mem k))"
  by (simp add: forget_requests_def Let_def)

lemma retarget_mem: "kp_mem (snd (retarget old new ok k)) =
    map (\<lambda>r. if rq_instance_id r = old \<and> rq_state r = Pending then r\<lparr>rq_instance_id := new\<rparr> else r) (kp_mem k)"
  by (simp add: retarget_def Let_def)

lemmas deciding = approve_request_def deny_request_def note_failure_def

lemma cancel_cases:
  obtains "snd (cancel_request owner i ok k) = k"
  | r where "get_request k i = Some r" "rq_owner r = owner"
      "snd (cancel_request owner i ok k) = snd (update_pending i (\<lambda>r. r\<lparr>rq_state := Cancelled\<rparr>) ok k)"
proof (cases "case get_request k i of None \<Rightarrow> True | Some r \<Rightarrow> rq_owner r \<noteq> owner")
  case True
  then show ?thesis using that(1) by (simp add: cancel_request_def)
next
  case False
  then obtain r where "get_request k i = Some r" "rq_owner r = owner" by (auto split: option.splits)
  then show ?thesis using that(2) by (simp add: cancel_request_def)
qed

lemma map_pending_ids:
  "(\<And>r. rq_state (f r) = rq_state r) \<Longrightarrow> (\<And>r. rq_state r = Pending \<Longrightarrow> rq_instance_id (f r) = g (rq_instance_id r)) \<Longrightarrow>
     pending_ids (map f rs) = map g (pending_ids rs)"
  by (induction rs) (auto simp: pending_ids_def)

lemma call_orderly:
  assumes "orderly (kp_mem k)" "fresh_call used a k" "rq_id ` set (kp_mem k) \<subseteq> used"
  shows "orderly (kp_mem (call_request a k))"
proof (cases a)
  case (Create r e ok)
  show ?thesis
  proof (rule create_mem [of e ok r k])
    fix bs assume "e = Some bs" "\<forall>q\<in>set (kp_mem k). rq_instance_id q = rq_instance_id r \<longrightarrow> rq_state q \<noteq> Pending"
      "kp_mem (snd (create_request e ok r k)) = kp_mem k @ [r\<lparr>rq_id := hex_encode bs, rq_state := Pending\<rparr>]"
    with assms Create show ?thesis by (auto simp: orderly_def pending_ids_def)
  qed (use assms(1) Create in simp)
next
  case (Cancel owner i ok)
  show ?thesis
    by (rule cancel_cases [of owner i ok k]) (use assms(1) Cancel in \<open>auto intro: decided_orderly\<close>)
next
  case (Forget b ok)
  let ?f = "\<lambda>r. if (case rq_decided_by r of None \<Rightarrow> False | Some c \<Rightarrow> same_account c b) then r\<lparr>rq_decided_by := None\<rparr> else r"
  let ?l = "filter (\<lambda>r. \<not> same_account (rq_owner r) b) (kp_mem k)"
  have "map rq_id (map ?f ?l) = map rq_id ?l" by simp
  moreover have "pending_ids (map ?f ?l) = map (\<lambda>i. i) (pending_ids ?l)" by (rule map_pending_ids) simp_all
  moreover have "distinct (map rq_id ?l)" "distinct (pending_ids ?l)"
    using assms(1) by (auto simp: orderly_def pending_ids_def distinct_map_filter inj_on_def distinct_map)
  ultimately show ?thesis by (simp add: Forget forget_mem orderly_def del: map_map)
next
  case (Retarget old new ok)
  let ?f = "\<lambda>r. if rq_instance_id r = old \<and> rq_state r = Pending then r\<lparr>rq_instance_id := new\<rparr> else r"
  have "map rq_id (map ?f (kp_mem k)) = map rq_id (kp_mem k)" by simp
  moreover have "pending_ids (map ?f (kp_mem k)) = map (\<lambda>i. if i = old then new else i) (pending_ids (kp_mem k))"
    by (rule map_pending_ids) simp_all
  moreover have "new \<notin> set (pending_ids (kp_mem k))" using assms(2) Retarget by (auto simp: pending_ids_def)
  ultimately show ?thesis
    using assms(1) by (auto simp: Retarget retarget_mem orderly_def distinct_map inj_on_def)
qed (use assms(1) in \<open>auto simp: deciding intro: decided_orderly\<close>)

lemma call_becomes:
  assumes "orderly (kp_mem k)" "fresh_call used a k" "rq_id ` set (kp_mem k) \<subseteq> used"
    "r \<in> set (kp_mem k)" "q \<in> set (kp_mem (call_request a k))" "rq_id q = rq_id r"
  shows "becomes a r q"
proof (cases a)
  case (Create p e ok)
  from assms(2-6) have "q \<in> set (kp_mem k)"
    by (cases rule: create_mem [of e ok p k]) (auto simp: Create)
  then show ?thesis using orderly_same [OF assms(1,4) _ assms(6)] by simp
next
  case (Cancel owner i ok)
  show ?thesis
  proof (rule cancel_cases [of owner i ok k])
    assume "snd (cancel_request owner i ok k) = k"
    then show ?thesis using orderly_same [OF assms(1,4) _ assms(6)] assms(5) Cancel by simp
  next
    fix p assume p: "get_request k i = Some p" "rq_owner p = owner"
      "snd (cancel_request owner i ok k) = snd (update_pending i (\<lambda>r. r\<lparr>rq_state := Cancelled\<rparr>) ok k)"
    show ?thesis
    proof (rule update_becomes [OF assms(1,4) _ assms(6), of i "\<lambda>r. r\<lparr>rq_state := Cancelled\<rparr>" ok])
      assume "rq_state r = Pending" "rq_id r = i"
      moreover from p(1) have "p \<in> set (kp_mem k)" "rq_id p = i" unfolding get_request_def by (auto dest: find_Some)
      ultimately have "p = r" using orderly_same [OF assms(1,4)] by simp
      with p(2) show "becomes a r (r\<lparr>rq_state := Cancelled\<rparr>)" using \<open>rq_state r = Pending\<close> \<open>rq_id r = i\<close> Cancel
        by (simp add: becomes_def)
    qed (use assms(5) Cancel p(3) in simp_all)
  qed
next
  case (ApproveMove i b now t ok)
  show ?thesis
    by (rule update_becomes [OF assms(1,4), where i = i and ok = ok and
          f = "\<lambda>r. r\<lparr>rq_state := Approved, rq_decided_by := Some b, rq_decided_unix := Some now,
          rq_moved_to := Some t, rq_note := None\<rparr>"])
      (use assms(5,6) in \<open>simp_all add: ApproveMove deciding becomes_def\<close>)
next
  case (DenyMove i b now why ok)
  show ?thesis
    by (rule update_becomes [OF assms(1,4), where i = i and ok = ok and
          f = "\<lambda>r. r\<lparr>rq_state := Denied, rq_decided_by := Some b, rq_decided_unix := Some now, rq_note := why\<rparr>"])
      (use assms(5,6) in \<open>simp_all add: DenyMove deciding becomes_def\<close>)
next
  case (NoteFailure i why ok)
  show ?thesis
    by (rule update_becomes [OF assms(1,4), where i = i and ok = ok and
          f = "\<lambda>r. r\<lparr>rq_note := Some why\<rparr>"])
      (use assms(5,6) in \<open>simp_all add: NoteFailure deciding becomes_def\<close>)
next
  case (Forget b ok)
  from assms(5) Forget obtain p where p: "p \<in> set (kp_mem k)"
    "q = (if (case rq_decided_by p of None \<Rightarrow> False | Some c \<Rightarrow> same_account c b) then p\<lparr>rq_decided_by := None\<rparr> else p)"
    by (auto simp: forget_mem)
  then have "p = r" using orderly_same [OF assms(1,4)] assms(6) by (simp split: if_splits)
  with p(2) Forget show ?thesis by (auto simp: becomes_def same_decision_def split: if_splits)
next
  case (Retarget old new ok)
  from assms(5) Retarget obtain p where p: "p \<in> set (kp_mem k)"
    "q = (if rq_instance_id p = old \<and> rq_state p = Pending then p\<lparr>rq_instance_id := new\<rparr> else p)"
    by (auto simp: retarget_mem)
  then have "p = r" using orderly_same [OF assms(1,4)] assms(6) by (simp split: if_splits)
  with p(2) Retarget show ?thesis by (auto simp: becomes_def split: if_splits)
qed

lemma comes_to_orderly:
  assumes "comes_to k0 used k" "orderly (kp_mem k0)"
  shows "orderly (kp_mem k) \<and> rq_id ` set (kp_mem k) \<subseteq> used"
  using assms by (induction rule: comes_to.induct) (auto intro: call_orderly)

lemma same_decision_trans: "same_decision r q \<Longrightarrow> same_decision q p \<Longrightarrow> same_decision r p"
  by (auto simp: same_decision_def)

lemma call_ids:
  assumes "q \<in> set (kp_mem (call_request a k))"
  shows "(\<exists>r\<in>set (kp_mem k). rq_id r = rq_id q) \<or> (\<exists>p bs ok. a = Create p (Some bs) ok \<and> rq_id q = hex_encode bs)"
proof (cases a)
  case (Create p e ok)
  show ?thesis by (rule create_mem [of e ok p k]) (use assms Create in auto)
next
  case (Cancel owner i ok)
  show ?thesis
  proof (rule cancel_cases [of owner i ok k])
    assume "snd (cancel_request owner i ok k) = snd (update_pending i (\<lambda>r. r\<lparr>rq_state := Cancelled\<rparr>) ok k)"
    with assms Cancel show ?thesis
      by (cases rule: update_pending_cases [of i "\<lambda>r. r\<lparr>rq_state := Cancelled\<rparr>" ok k]) auto
  qed (use assms Cancel in auto)
next
  case (ApproveMove i b now t ok)
  with assms show ?thesis by (cases rule: update_pending_cases [of i "\<lambda>r. r\<lparr>rq_state := Approved,
    rq_decided_by := Some b, rq_decided_unix := Some now, rq_moved_to := Some t, rq_note := None\<rparr>" ok k]) (auto simp: deciding)
next
  case (DenyMove i b now why ok)
  with assms show ?thesis by (cases rule: update_pending_cases [of i "\<lambda>r. r\<lparr>rq_state := Denied,
    rq_decided_by := Some b, rq_decided_unix := Some now, rq_note := why\<rparr>" ok k]) (auto simp: deciding)
next
  case (NoteFailure i why ok)
  with assms show ?thesis by (cases rule: update_pending_cases [of i "\<lambda>r. r\<lparr>rq_note := Some why\<rparr>" ok k]) (auto simp: deciding)
next
  case (Forget b ok)
  with assms show ?thesis by (auto simp: forget_mem split: if_splits)
next
  case (Retarget old new ok)
  with assms show ?thesis by (auto simp: retarget_mem split: if_splits)
qed

lemma comes_to_decided:
  assumes "comes_to k0 used k" "orderly (kp_mem k0)" "r \<in> set (kp_mem k0)" "rq_state r \<noteq> Pending"
  shows "\<forall>q\<in>set (kp_mem k). rq_id q = rq_id r \<longrightarrow> same_decision r q"
  using assms
proof (induction rule: comes_to.induct)
  case start
  then show ?case using orderly_same [OF assms(2,3)] same_decision_refl by metis
next
  case (call used k a k')
  note o = comes_to_orderly [OF call.hyps(1) assms(2)]
  have "rq_id r \<in> used" using call.hyps(1) assms(3) by (induction rule: comes_to.induct) auto
  show ?case
  proof (intro ballI impI)
    fix q assume q: "q \<in> set (kp_mem k')" "rq_id q = rq_id r"
    from call_ids [of q a k] q(1) call.hyps(3) consider p where "p \<in> set (kp_mem k)" "rq_id p = rq_id q"
      | p bs ok where "a = Create p (Some bs) ok" "rq_id q = hex_encode bs" by auto
    then show "same_decision r q"
    proof cases
      case 1
      with call.IH assms q(2) have "same_decision r p" by auto
      moreover from call_becomes [OF conjunct1 [OF o] call.hyps(2) conjunct2 [OF o] 1(1), of q] q(1) 1(2) call.hyps(3)
      have "becomes a p q" by simp
      then have "same_decision p q" using \<open>same_decision r p\<close> assms(4) by (simp add: becomes_def same_decision_def split: if_splits)
      ultimately show ?thesis by (rule same_decision_trans)
    next
      case 2
      with call.hyps(2) q(2) \<open>rq_id r \<in> used\<close> show ?thesis by simp
    qed
  qed
qed

section \<open>An approval and the move it makes\<close>

lemma bind_act_Ok: "bind_act m f w = Some (Ok b, w') \<longleftrightarrow> (\<exists>a w1. m w = Some (Ok a, w1) \<and> f a w1 = Some (Ok b, w'))"
  by (auto simp: bind_act_def split: option.splits outcome.splits)

lemma relocate_lands:
  assumes "relocate_to W c account j target moving entropy w = Some (Ok h, w')"
  shows "\<exists>existing from to w1 w2. choose_target W c existing from target w1 = (Ok to, w2) \<and> hi_node h = nc_name to"
  using assms by (fastforce simp: relocate_to_def bind_act_Ok here_def ret_def fail_def Let_def split: if_splits)

lemma relocate_region:
  assumes "relocate_to W c account j (Region region) moving entropy w = Some (Ok h, w')"
  shows "\<exists>n\<in>set (hc_nodes c). nc_name n = hi_node h \<and> nc_region n = Some region"
proof -
  from relocate_lands [OF assms] obtain existing "from" to w1 w2
    where t: "choose_target W c existing from (Region region) w1 = (Ok to, w2)" "hi_node h = nc_name to" by blast
  from choose_target_Ok [OF t(1)] obtain ns x where "move_candidates c from (Region region) = Ok ns" "(to, Some x) \<in> set (capacities W ns w1)" by blast
  from move_candidates_Ok [OF this(1) capacities_node [OF this(2)]] t(2) show ?thesis by auto
qed

lemma find_change_first: "List.find P xs = Some x \<Longrightarrow> P (f x) \<Longrightarrow> List.find P (change_first P f xs) = Some (f x)"
  by (induction xs) (auto split: if_splits)

lemma find_map: "(\<And>x. P (f x) = P x) \<Longrightarrow> List.find P (map f xs) = map_option f (List.find P xs)"
  by (induction xs) auto

lemma get_request_put [simp]: "get_request (snd (put_kept ok new reply k)) i = List.find (\<lambda>r. rq_id r = i) new"
  by (simp add: get_request_def)

lemma get_request_update:
  assumes "get_request k i = Some r" "rq_state r = Pending" "rq_id (f r) = rq_id r"
  shows "get_request (snd (update_pending i f ok k)) i = Some (f r)"
  using assms find_Some [of "\<lambda>r. rq_id r = i" "kp_mem k" r]
  by (auto simp: update_pending_def get_request_def intro: find_change_first)

lemma get_request_retarget: "get_request (snd (retarget old new ok k)) i = map_option
    (\<lambda>r. if rq_instance_id r = old \<and> rq_state r = Pending then r\<lparr>rq_instance_id := new\<rparr> else r) (get_request k i)"
  unfolding get_request_def retarget_mem by (rule find_map) simp

lemma approve_Ok:
  assumes "approve_request i a now t ok k = (Ok q, k')"
  shows "rq_state q = Approved \<and> rq_decided_by q = Some a \<and> rq_moved_to q = Some t"
  using assms put_kept_Ok
  by (fastforce simp: approve_request_def update_pending_def split: option.splits if_splits dest: arg_cong [where f = fst])

lemma approval_Ok:
  assumes "approve_region_request W c s et admin i now moving entropy ok others (w, k) = Some (Ok q, w', k')"
  shows "is_admin c s admin \<and> (\<exists>r h. get_request k i = Some r \<and> rq_state r = Pending
    \<and> relocate_to W c (rq_owner r) (rq_instance_id r) (Region (rq_to_region r)) moving entropy w = Some (Ok h, w')
    \<and> (\<exists>n\<in>set (hc_nodes c). nc_name n = hi_node h \<and> nc_region n = Some (rq_to_region r))
    \<and> rq_state q = Approved \<and> rq_decided_by q = Some admin \<and> rq_moved_to q = Some (hi_instance_id h))"
proof -
  from assms obtain r where r: "is_admin c s admin" "get_request k i = Some r" "rq_state r = Pending"
    by (auto simp: approve_region_request_def split: if_splits option.splits)
  with assms obtain h k1 where h: "relocate_to W c (rq_owner r) (rq_instance_id r) (Region (rq_to_region r)) moving entropy w = Some (Ok h, w')"
    and a: "approve_request i admin (unix now) (hi_instance_id h) ok k1 = (Ok q, k')"
    by (auto simp: approve_region_request_def move_and_follow_def split_def Let_def split: option.splits outcome.splits)
      (metis prod.collapse)+
  from r h relocate_region [OF h] approve_Ok [OF a] show ?thesis by blast
qed

lemma approval_failed:
  assumes "is_admin c s admin" "get_request k i = Some r" "rq_state r = Pending"
    "relocate_to W c (rq_owner r) (rq_instance_id r) (Region (rq_to_region r)) moving entropy w = Some (Err e, w')"
  shows "\<exists>k'. approve_region_request W c s et admin i now moving entropy ok (\<lambda>k. k) (w, k) = Some (Err e, w', k')
    \<and> get_request k' i = Some (r\<lparr>rq_note := Some (et e)\<rparr>)"
  using assms by (simp add: approve_region_request_def move_and_follow_def note_failure_def get_request_update)

lemma approval_refused:
  "\<not> is_admin c s admin \<Longrightarrow> approve_region_request W c s et admin i now moving entropy ok others st = Some (Err NotAdmin, st)"
  by (simp add: approve_region_request_def)

lemma cancel_during_approval:
  assumes "is_admin c s admin" "get_request k i = Some r" "rq_state r = Pending"
    "relocate_to W c (rq_owner r) (rq_instance_id r) (Region (rq_to_region r)) moving entropy w = Some (Ok h, w')"
  shows "\<exists>k'. approve_region_request W c s et admin i now moving entropy ok (\<lambda>k. snd (cancel_request (rq_owner r) i ok k)) (w, k)
      = Some (Err AlreadyDecided, w', k')
    \<and> get_request k' i = Some (r\<lparr>rq_state := Cancelled\<rparr>)"
proof -
  let ?k = "snd (retarget (rq_instance_id r) (hi_instance_id h) ok (snd (cancel_request (rq_owner r) i ok k)))"
  have "get_request (snd (cancel_request (rq_owner r) i ok k)) i = Some (r\<lparr>rq_state := Cancelled\<rparr>)"
    using assms(2,3) by (simp add: cancel_request_def get_request_update)
  then have q: "get_request ?k i = Some (r\<lparr>rq_state := Cancelled\<rparr>)" by (simp add: get_request_retarget)
  then have "approve_request i admin (unix now) (hi_instance_id h) ok ?k = (Err AlreadyDecided, ?k)"
    by (simp add: approve_request_def update_pending_def)
  with q assms show ?thesis by (simp add: approve_region_request_def move_and_follow_def)
qed

section \<open>A write that fails\<close>

lemma failed_grant:
  assumes "is_admin c s admin" "List.find (\<lambda>r. ar_id r = i) (al_requests (kp_mem s)) = Some r" "ar_state r = Pending"
    "kp_file s = Some f"
  shows "\<exists>s'. approve_admin_request c admin i now False s = (Err NotSaved, s') \<and> is_admin c s' (ar_identity r)
    \<and> approve_admin_request c admin i now' True s' = (Err AlreadyDecided, s') \<and> restarted s' = restarted s"
proof -
  let ?f = "\<lambda>r. r\<lparr>ar_state := Approved, ar_decided_by := Some admin, ar_decided_unix := Some (unix now)\<rparr>"
  let ?gs = "if list_ex (\<lambda>g. gr_identity g = ar_identity r) (al_granted (kp_mem s)) then al_granted (kp_mem s)
    else al_granted (kp_mem s) @ [\<lparr>gr_identity = ar_identity r, gr_granted_by = admin, gr_granted_unix = unix now\<rparr>]"
  let ?l = "\<lparr>al_granted = ?gs, al_requests = change_first (\<lambda>r. ar_id r = i) ?f (al_requests (kp_mem s))\<rparr>"
  let ?s = "s\<lparr>kp_mem := ?l\<rparr>"
  have "approve_admin_request c admin i now False s = (Err NotSaved, ?s)"
    using assms by (simp add: approve_admin_request_def approve_grant_def Let_def put_kept_def save_def)
  moreover have "is_admin c ?s (ar_identity r)"
  proof -
    have g: "\<exists>g\<in>set ?gs. gr_identity g = ar_identity r" by (auto simp: list_ex_iff)
    have "lists_admin c l a" if "\<exists>g\<in>set (al_granted l). gr_identity g = a" for l a
      unfolding lists_admin_def using that same_account_refl by blast
    with g show ?thesis unfolding is_admin_lists by simp
  qed
  moreover have "is_admin c ?s admin" using assms(1) by (auto simp: is_admin_lists lists_admin_def)
  moreover have "List.find (\<lambda>r. ar_id r = i) (al_requests (kp_mem ?s)) = Some (?f r)"
    using assms(2) find_Some [OF assms(2)] by (simp add: find_change_first)
  ultimately show ?thesis
    by (intro exI [of _ ?s]) (simp add: approve_admin_request_def approve_grant_def restarted_def)
qed

section \<open>Properties\<close>

text \<open>C11. The admins of an index. Whatever is asked, granted, denied and revoked, by whomever, with any writes
  failing and the index restarted from its file at any point: an index that has an admin (and whose file
  has one) keeps at least one. And in one that began with no grants, everybody granted had asked, and was
  let in by somebody who was an admin at that moment.\<close>

theorem admins_come_from_admins:
  "(has_admin c s \<longrightarrow> (\<exists>a. is_admin c (call_admins c calls s) a))
    \<and> ((\<forall>l\<in>lists_of s. al_granted l = [] \<and> al_requests l = []) \<longrightarrow>
         (\<forall>g\<in>set (al_granted (kp_mem (call_admins c calls s))). granted_by_admin c s calls g))"
proof (intro conjI impI)
  assume "has_admin c s"
  then have "has_admin c (call_admins c calls s)" by (rule call_admins_has)
  then show "\<exists>a. is_admin c (call_admins c calls s) a" by (auto simp: has_admin_def lists_of_def is_admin_lists)
next
  assume "\<forall>l\<in>lists_of s. al_granted l = [] \<and> al_requests l = []"
  then have "grants_traced c s calls (kp_mem (call_admins c calls s))"
    by (intro call_admins_traced) (auto simp: lists_of_def)
  then show "\<forall>g\<in>set (al_granted (kp_mem (call_admins c calls s))). granted_by_admin c s calls g"
    by (simp add: grants_traced_def)
qed

text \<open>A region request is decided once. From an orderly list, through any calls, ids stay distinct and a
  server has at most one request waiting; a request that was decided keeps its decision for as long as it
  is kept (only the name of who decided may go, when that account is erased); and one that is waiting is
  approved or denied by no call but an approval or a denial of it, and cancelled by no one but its owner.\<close>

theorem requests_are_decided_once:
  assumes "comes_to k0 used k" "orderly (kp_mem k0)"
  shows "orderly (kp_mem k)
    \<and> (\<forall>r\<in>set (kp_mem k0). rq_state r \<noteq> Pending \<longrightarrow> (\<forall>q\<in>set (kp_mem k). rq_id q = rq_id r \<longrightarrow> same_decision r q))
    \<and> (\<forall>a. fresh_call used a k \<longrightarrow> (\<forall>r\<in>set (kp_mem k). \<forall>q\<in>set (kp_mem (call_request a k)). rq_id q = rq_id r \<longrightarrow> becomes a r q))"
  using comes_to_orderly [OF assms] comes_to_decided [OF assms] call_becomes by blast

text \<open>What an approval does. Only an admin's does anything. It succeeds only when the server was moved to a
  node of the region asked for, and then the request says so; when the move fails the request stays
  waiting, with the reason.\<close>

theorem an_approval_moves_the_server:
  "(\<not> is_admin c s admin \<longrightarrow> approve_region_request W c s et admin i now moving entropy ok others st = Some (Err NotAdmin, st))
    \<and> (approve_region_request W c s et admin i now moving entropy ok others (w, k) = Some (Ok q, w', k') \<longrightarrow>
        is_admin c s admin \<and> (\<exists>r h. get_request k i = Some r \<and> rq_state r = Pending
          \<and> relocate_to W c (rq_owner r) (rq_instance_id r) (Region (rq_to_region r)) moving entropy w = Some (Ok h, w')
          \<and> (\<exists>n\<in>set (hc_nodes c). nc_name n = hi_node h \<and> nc_region n = Some (rq_to_region r))
          \<and> rq_state q = Approved \<and> rq_decided_by q = Some admin \<and> rq_moved_to q = Some (hi_instance_id h)))
    \<and> (is_admin c s admin \<and> get_request k i = Some r \<and> rq_state r = Pending
        \<and> relocate_to W c (rq_owner r) (rq_instance_id r) (Region (rq_to_region r)) moving entropy w = Some (Err e, w') \<longrightarrow>
        (\<exists>k'. approve_region_request W c s et admin i now moving entropy ok (\<lambda>k. k) (w, k) = Some (Err e, w', k')
          \<and> get_request k' i = Some (r\<lparr>rq_note := Some (et e)\<rparr>)))"
  by (rule conjI, rule impI, erule approval_refused, rule conjI, rule impI, erule approval_Ok,
      rule impI, elim conjE, rule approval_failed)

text \<open>A request taken back while its approval is moving the server. The store is not held during the move,
  so the owner's cancellation succeeds; the server is moved all the same, and the admin is told that the
  request was already decided. The request then says cancelled, and not where the server went.\<close>

theorem a_cancelled_move_still_happens:
  assumes "is_admin c s admin" "get_request k i = Some r" "rq_state r = Pending"
    "relocate_to W c (rq_owner r) (rq_instance_id r) (Region (rq_to_region r)) moving entropy w = Some (Ok h, w')"
  shows "\<exists>k'. approve_region_request W c s et admin i now moving entropy ok (\<lambda>k. snd (cancel_request (rq_owner r) i ok k)) (w, k)
      = Some (Err AlreadyDecided, w', k')
    \<and> get_request k' i = Some (r\<lparr>rq_state := Cancelled\<rparr>)"
  by (rule cancel_during_approval [OF assms])

text \<open>A grant whose write fails. The admin is told it was not saved, yet the account is an admin until the
  index restarts, and approving it again is refused, as already decided.\<close>

theorem a_failed_write_grants_until_restart:
  assumes "is_admin c s admin" "List.find (\<lambda>r. ar_id r = i) (al_requests (kp_mem s)) = Some r" "ar_state r = Pending"
    "kp_file s = Some f"
  shows "\<exists>s'. approve_admin_request c admin i now False s = (Err NotSaved, s') \<and> is_admin c s' (ar_identity r)
    \<and> approve_admin_request c admin i now' True s' = (Err AlreadyDecided, s') \<and> restarted s' = restarted s"
  by (rule failed_grant [OF assms])

section \<open>Witnesses\<close>

definition sample_admins :: hosting_config where
  "sample_admins = (sample_config [])\<lparr>hc_admins := [[97]]\<rparr>"

definition sample_store :: admin_store where
  "sample_store = load_kept no_admins None"

definition sample_calls :: "admin_call list" where
  "sample_calls = [Ask [98] None 0 (Some [1]) True, Approve [97] (hex_encode [1]) 0 True]"

lemmas sample_eval = sample_admins_def sample_config_def sample_calls_def sample_store_def load_kept_def no_admins_def
  request_admin_def ask_admin_def approve_admin_request_def approve_grant_def is_admin_def is_granted_def same_account_def
  put_kept_def save_def Let_def restarted_def hex_encode_def unix_def ascii_lowercase_def upper_def

lemma sample_granted: "al_granted (kp_mem (call_admins sample_admins sample_calls sample_store))
    = [\<lparr>gr_identity = [98], gr_granted_by = [97], gr_granted_unix = 0\<rparr>]"
  by (simp add: call_admins_def sample_eval)

theorem admins_come_from_admins_witness:
  "(\<exists>a. is_admin sample_admins (call_admins sample_admins sample_calls sample_store) a)
    \<and> granted_by_admin sample_admins sample_store sample_calls
        \<lparr>gr_identity = [98], gr_granted_by = [97], gr_granted_unix = 0\<rparr>"
proof -
  have e: "lists_of sample_store = {no_admins}" by (simp add: lists_of_def restarted_def sample_store_def load_kept_def)
  have "has_admin sample_admins sample_store"
    unfolding has_admin_def e by (auto simp: lists_admin_def sample_admins_def intro!: exI [of _ "[97]"])
  with admins_come_from_admins [of sample_admins sample_store sample_calls] show ?thesis
    by (simp add: e sample_granted no_admins_def)
qed

definition sample_request :: region_request where
  "sample_request = \<lparr>rq_id = [], rq_instance_id = [9], rq_owner = [97], rq_game_id = [], rq_name = [], rq_from_region = None,
     rq_to_region = ascii ''eu'', rq_created_unix = 0, rq_state = Pending, rq_decided_unix = None, rq_decided_by = None,
     rq_note = None, rq_moved_to = None\<rparr>"

definition sample_asked :: region_requests where
  "sample_asked = in_memory [sample_request\<lparr>rq_id := hex_encode [1]\<rparr>]"

definition sample_cancelled :: region_requests where
  "sample_cancelled = call_request (Cancel [97] (hex_encode [1]) True) sample_asked"

theorem requests_are_decided_once_witness:
  "orderly (kp_mem (call_request (ApproveMove (hex_encode [1]) [98] 7 [3] True) sample_cancelled))
    \<and> rq_state (hd (kp_mem (call_request (ApproveMove (hex_encode [1]) [98] 7 [3] True) sample_cancelled))) = Cancelled"
proof -
  let ?k = "call_request (ApproveMove (hex_encode [1]) [98] 7 [3] True) sample_cancelled"
  have o: "orderly (kp_mem sample_cancelled)"
    by (simp add: sample_cancelled_def sample_asked_def in_memory_def cancel_request_def get_request_def update_pending_def
        put_kept_def save_def orderly_def pending_ids_def sample_request_def)
  have "\<exists>used. comes_to sample_cancelled used ?k" by (rule exI, rule comes_to.call [OF comes_to.start _ refl]) simp
  then obtain used where "comes_to sample_cancelled used ?k" by blast
  from requests_are_decided_once [OF this o] have "orderly (kp_mem ?k)" by blast
  moreover have "rq_state (hd (kp_mem ?k)) = Cancelled"
    by (simp add: sample_cancelled_def sample_asked_def in_memory_def cancel_request_def get_request_def update_pending_def
        put_kept_def save_def approve_request_def sample_request_def)
  ultimately show ?thesis by blast
qed

theorem a_failed_write_grants_until_restart_witness:
  "\<exists>s'. approve_admin_request sample_admins [97] (hex_encode [1]) 0 False
       (call_admins sample_admins [Ask [98] None 0 (Some [1]) True] sample_store) = (Err NotSaved, s')
     \<and> is_admin sample_admins s' [98] \<and> \<not> is_admin sample_admins (restarted s') [98]"
proof -
  let ?s = "call_admins sample_admins [Ask [98] None 0 (Some [1]) True] sample_store"
  let ?r = "\<lparr>ar_id = hex_encode [1], ar_identity = [98], ar_note = None, ar_created_unix = 0,
       ar_state = Pending, ar_decided_by = None, ar_decided_unix = None, ar_reason = None\<rparr>"
  have 1: "is_admin sample_admins ?s [97]" by (simp add: call_admins_def sample_eval)
  have 2: "List.find (\<lambda>r. ar_id r = hex_encode [1]) (al_requests (kp_mem ?s)) = Some ?r" by (simp add: call_admins_def sample_eval)
  have 3: "kp_file ?s = Some (Some (kp_mem ?s))" by (simp add: call_admins_def sample_eval)
  have 4: "\<not> is_admin sample_admins (restarted ?s) [98]" by (simp add: call_admins_def sample_eval)
  have "ar_state ?r = Pending" "ar_identity ?r = [98]" by simp_all
  with a_failed_write_grants_until_restart [OF 1 2 _ 3, of 0 0] obtain s'
    where "approve_admin_request sample_admins [97] (hex_encode [1]) 0 False ?s = (Err NotSaved, s')"
      "is_admin sample_admins s' [98]" "restarted s' = restarted ?s" by auto
  with 4 show ?thesis by auto
qed

text \<open>A move to another region that lands.\<close>

definition sample_regions :: hosting_config where
  "sample_regions = (sample_config [sample_node [1] 0, (sample_node [2] 0)\<lparr>nc_region := Some (ascii ''eu'')\<rparr>])
     \<lparr>hc_admins := [[97]]\<rparr>"

lemma regions_owned: "owned sample_movers sample_regions [97] [9] () = (Ok (hosted_of (sample_node [1] 0) sample_row, sample_node [1] 0), ())"
  by (simp add: owned_def find_for_def all_instances_def node_instances_def sample_movers_def silent_workers_def
      sample_regions_def sample_config_def sample_node_def sample_row_def hosted_of_def is_owner_def delete_in_secs_def ascii_def)

lemma regions_target: "choose_target (logged sample_movers) sample_regions existing (sample_node [1] 0) (Region (ascii ''eu'')) ((), l)
    = (Ok ((sample_node [2] 0)\<lparr>nc_region := Some (ascii ''eu'')\<rparr>), (), l)"
  by (simp add: choose_target_def move_candidates_def sample_regions_def sample_config_def node_capacity_logged)
    (simp add: node_capacity_def sample_movers_def silent_workers_def sample_node_def sample_capacity_def rank_node_def)

lemma regions_run: "\<exists>h l. relocate_to (logged sample_movers) sample_regions [97] [9] (Region (ascii ''eu'')) {} (Some []) ((), [])
    = Some (Ok h, (), l)"
proof -
  let ?to = "(sample_node [2] 0)\<lparr>nc_region := Some (ascii ''eu'')\<rparr>"
  have run: "hi_state (hosted_of (sample_node [1] 0) sample_row) = ascii ''running''"
    by (simp add: hosted_of_def sample_row_def)
  obtain l' where "move_files (logged sample_movers) (sample_node [1] 0) ?to [9]
      (ascii ''game'' @ [45]) True ((), [(CCreate, [2], ascii ''game'' @ [45], True)]) = Some (Ok (), (), l')"
    using sample_move_files by blast
  then show ?thesis
    by (simp add: relocate_to_def act_simps owned_logged regions_owned all_instances_logged regions_target movers run
        new_instance_id_def sample_spec_def hex_encode_def Let_def)
      (simp add: sample_node_def ret_def)
qed

lemma regions_request:
  "get_request sample_asked (hex_encode [1]) = Some (sample_request\<lparr>rq_id := hex_encode [1]\<rparr>)"
  "is_admin sample_regions sample_store [97]"
  by (simp_all add: get_request_def sample_asked_def in_memory_def is_admin_def sample_regions_def)

theorem a_cancelled_move_still_happens_witness:
  "\<exists>l k'. approve_region_request (logged sample_movers) sample_regions sample_store (\<lambda>_. []) [97] (hex_encode [1]) 0 {} (Some []) True
      (\<lambda>k. snd (cancel_request [97] (hex_encode [1]) True k)) (((), []), sample_asked) = Some (Err AlreadyDecided, ((), l), k')
    \<and> get_request k' (hex_encode [1]) = Some (sample_request\<lparr>rq_id := hex_encode [1], rq_state := Cancelled\<rparr>)"
proof -
  let ?r = "sample_request\<lparr>rq_id := hex_encode [1]\<rparr>"
  have r: "rq_state ?r = Pending" "rq_owner ?r = [97]" "rq_instance_id ?r = [9]" "rq_to_region ?r = ascii ''eu''"
    by (simp_all add: sample_request_def)
  obtain h l where "relocate_to (logged sample_movers) sample_regions (rq_owner ?r) (rq_instance_id ?r) (Region (rq_to_region ?r)) {} (Some [])
      ((), []) = Some (Ok h, (), l)" using regions_run r by auto
  from a_cancelled_move_still_happens [OF regions_request(2,1) r(1) this, of "\<lambda>_. []" 0 True] r(2) show ?thesis by auto
qed

theorem an_approval_moves_the_server_witness:
  "\<exists>q st. approve_region_request (logged sample_movers) sample_regions sample_store (\<lambda>_. []) [97] (hex_encode [1]) 0 {} (Some []) True
      (\<lambda>k. k) (((), []), sample_asked) = Some (Ok q, st) \<and> rq_state q = Approved \<and> rq_decided_by q = Some [97]"
proof -
  let ?r = "sample_request\<lparr>rq_id := hex_encode [1]\<rparr>"
  obtain h l where run: "relocate_to (logged sample_movers) sample_regions [97] [9] (Region (ascii ''eu'')) {} (Some [])
      ((), []) = Some (Ok h, (), l)" using regions_run by auto
  obtain q st where q: "approve_region_request (logged sample_movers) sample_regions sample_store (\<lambda>_. []) [97] (hex_encode [1]) 0 {} (Some []) True
      (\<lambda>k. k) (((), []), sample_asked) = Some (Ok q, st)"
    using run by (simp add: approve_region_request_def regions_request move_and_follow_def sample_request_def approve_request_def
        update_pending_def get_request_def put_kept_def sample_asked_def in_memory_def retarget_def save_def split_def Let_def)
  obtain w' k' where "st = (w', k')" by (cases st)
  with q an_approval_moves_the_server [of sample_regions sample_store "[97]" "logged sample_movers" "\<lambda>_. []" "hex_encode [1]" 0 "{}" "Some []" True "\<lambda>k. k"
      "(((), []), sample_asked)" "((), [])" sample_asked q w' k'] show ?thesis by blast
qed

end
