(* ===== verification/Operate.thy ===== *)
theory Operate
  imports Requests Console
begin

text \<open>
  \<^verbatim>\<open>crates/platform-index/src/hosting.rs\<close>, what an account asks of the index: a new server, and everything its
  owner (or whom the access policy lets) does with one; and the two sweeps the index makes by itself. The
  hosting file is one value throughout a call.
\<close>

section \<open>Deploying\<close>

record deploy_request =
  dr_game_id :: str
  dr_name :: str
  dr_max_players :: u8
  dr_map :: "str option"
  dr_class :: "str option"
  dr_region :: "str option"
  dr_bots :: "u8 option"
  dr_restart_on_crash :: bool
  dr_options :: instance_options

definition listing :: "'w workers \<Rightarrow> hosting_config \<Rightarrow> ('w, hosted_instance list) act" where
  "listing W c = here (\<lambda>w. let (all, w) = all_instances W c w in (Ok all, w))"

text \<open>The checks made before any node is asked for anything.\<close>

definition check_deploy :: "hosting_config \<Rightarrow> account_id \<Rightarrow> deploy_request \<Rightarrow> (hosting_error, unit) outcome" where
  "check_deploy c account r =
     (if \<not> enabled c then Err NotOffered
      else if \<not> hosts_game c (dr_game_id r) then Err (GameNotHosted (dr_game_id r))
      else if str_trim (dr_name r) = [] then Err NoName
      else if validate_server_name (dr_name r) \<noteq> Ok () then Err BadName
      else case dr_class r of
        None \<Rightarrow> Ok ()
      | Some class \<Rightarrow>
          if \<not> valid_class class \<or> \<not> may_use_class (quotas c) account class then Err ClassRefused else Ok ())"

definition deploy_spec :: "deploy_request \<Rightarrow> str \<Rightarrow> time \<Rightarrow> instance_spec" where
  "deploy_spec r instance_id now =
     \<lparr>sp_instance_id = instance_id, sp_game_id = dr_game_id r, sp_name = dr_name r, sp_max_players = dr_max_players r,
      sp_port = None, sp_extra_ports = [], sp_map = dr_map r, sp_bots = dr_bots r,
      sp_restart_on_crash = dr_restart_on_crash r, sp_owner = None,
      sp_options = (dr_options r)\<lparr>io_eula_accepted_at := map_option (\<lambda>_. unix now) (io_eula_accepted_at (dr_options r))\<rparr>\<rparr>"

definition deployed :: "deploy_request \<Rightarrow> str \<Rightarrow> account_id \<Rightarrow> node_config \<Rightarrow> created \<Rightarrow> hosted_instance" where
  "deployed r instance_id account node made =
     \<lparr>hi_instance_id = instance_id, hi_node = nc_name node, hi_game_id = dr_game_id r, hi_name = dr_name r,
      hi_state = cr_state made, hi_port = cr_port made, hi_ports = cr_ports made, hi_stopped_secs = None,
      hi_delete_in_secs = None, hi_owner = Some account, hi_uptime_secs = Some 0, hi_players_now = Some 0,
      hi_map_now = None, hi_mesh_destination = None, hi_region = None\<rparr>"

definition deploy :: "'w workers \<Rightarrow> hosting_config \<Rightarrow> account_id \<Rightarrow> deploy_request \<Rightarrow> time \<Rightarrow> bytes option
    \<Rightarrow> ('w, hosted_instance) act" where
  "deploy W c account r now entropy =
     bind_act (here (\<lambda>w. (check_deploy c account r, w))) (\<lambda>_.
     bind_act (listing W c) (\<lambda>existing.
     bind_act (here (\<lambda>w. (case admit (quotas c) account (map (\<lambda>i. record_for i now) existing) now of
         Ok _ \<Rightarrow> Ok () | Err e \<Rightarrow> Err (QuotaDenied e) | Panic \<Rightarrow> Panic, w))) (\<lambda>_.
     if (case dr_region r of None \<Rightarrow> False | Some region \<Rightarrow> \<not> valid_class region) then fail BadRegion
     else bind_act (here (\<lambda>w. let (node, w) = pick_node W c existing (dr_class r) (dr_region r) w
                              in (ok_or node NoNodeWithRoom, w))) (\<lambda>node.
     bind_act (here (\<lambda>w. (new_instance_id (dr_game_id r) entropy, w))) (\<lambda>instance_id.
     bind_act (ask (wk_create W node (deploy_spec r instance_id now) account)) (\<lambda>made.
     ret (deployed r instance_id account node made)))))))"

section \<open>Running one's servers\<close>

definition own :: "'w workers \<Rightarrow> hosting_config \<Rightarrow> account_id \<Rightarrow> str \<Rightarrow> ('w, hosted_instance \<times> node_config) act" where
  "own W c account i = here (owned W c account i)"

definition may_run :: "'w workers \<Rightarrow> access \<Rightarrow> hosting_config \<Rightarrow> account_id \<Rightarrow> str
    \<Rightarrow> ('w, hosted_instance \<times> node_config) act" where
  "may_run W ax c account i = here (operable W ax c account i)"

definition stop_server :: "'w workers \<Rightarrow> access \<Rightarrow> hosting_config \<Rightarrow> account_id \<Rightarrow> str \<Rightarrow> ('w, unit) act" where
  "stop_server W ax c account i = bind_act (may_run W ax c account i) (\<lambda>(_, node). stop_on W node i)"

definition start_server :: "'w workers \<Rightarrow> access \<Rightarrow> hosting_config \<Rightarrow> account_id \<Rightarrow> str \<Rightarrow> ('w, unit) act" where
  "start_server W ax c account i = bind_act (may_run W ax c account i) (\<lambda>(found, node).
     if hi_state found = ascii ''running'' then fail AlreadyRunning else start_on W node i)"

definition destroy :: "'w workers \<Rightarrow> hosting_config \<Rightarrow> account_id \<Rightarrow> str \<Rightarrow> ('w, unit) act" where
  "destroy W c account i = bind_act (own W c account i) (\<lambda>(_, node). remove_on W node i)"

definition too_old_or :: "node_config \<Rightarrow> ('w, 'a) act \<Rightarrow> ('w, 'a) act" where
  "too_old_or node m = catch m (\<lambda>e. fail (old_agent node e))"

definition logs :: "'w workers \<Rightarrow> access \<Rightarrow> hosting_config \<Rightarrow> account_id \<Rightarrow> str \<Rightarrow> u32 \<Rightarrow> ('w, str \<times> bool) act" where
  "logs W ax c account i lines = bind_act (may_run W ax c account i) (\<lambda>(_, node).
     too_old_or node (ask (wk_logs W node i lines)))"

definition change_server_map :: "'w workers \<Rightarrow> access \<Rightarrow> hosting_config \<Rightarrow> account_id \<Rightarrow> str \<Rightarrow> str \<Rightarrow> ('w, unit) act" where
  "change_server_map W ax c account i name =
     (if validate_map_name name \<noteq> Ok () then fail BadMapName
      else bind_act (may_run W ax c account i) (\<lambda>(found, node).
        if hi_state found \<noteq> ascii ''running'' then fail NotRunning
        else too_old_or node (ask (wk_change_map W node i name))))"

fun first_maps :: "'w workers \<Rightarrow> str \<Rightarrow> node_config list \<Rightarrow> ('w, str list) act" where
  "first_maps W game [] = ret []"
| "first_maps W game (node # nodes) =
     bind_act (attempt (ask (wk_maps W node game))) (\<lambda>r.
       case r of Ok maps \<Rightarrow> if maps \<noteq> [] then ret maps else first_maps W game nodes | _ \<Rightarrow> first_maps W game nodes)"

definition game_maps :: "'w workers \<Rightarrow> hosting_config \<Rightarrow> str \<Rightarrow> ('w, str list) act" where
  "game_maps W c game = (if \<not> hosts_game c game then fail (GameNotHosted game) else first_maps W game (hc_nodes c))"

section \<open>Backups\<close>

definition backups :: "'w workers \<Rightarrow> hosting_config \<Rightarrow> account_id \<Rightarrow> str \<Rightarrow> ('w, backup list) act" where
  "backups W c account i = bind_act (own W c account i) (\<lambda>(_, node). too_old_or node (ask (wk_backups W node i)))"

text \<open>Counting is in \<open>u32\<close>, held at its top.\<close>

fun held_on :: "'w workers \<Rightarrow> hosting_config \<Rightarrow> account_id \<Rightarrow> hosted_instance list \<Rightarrow> nat \<Rightarrow> ('w, nat) act" where
  "held_on W c account [] held = ret held"
| "held_on W c account (i # is) held =
     bind_act (backups W c account (hi_instance_id i)) (\<lambda>listed.
       held_on W c account is (min (2 ^ 32 - 1) (held + length listed mod 2 ^ 32)))"

definition mine :: "account_id \<Rightarrow> hosted_instance list \<Rightarrow> hosted_instance list" where
  "mine account rows = filter (\<lambda>i. hi_owner i = Some account) rows"

fun held_over :: "'w workers \<Rightarrow> hosting_config \<Rightarrow> account_id \<Rightarrow> node_config list \<Rightarrow> nat \<Rightarrow> ('w, nat) act" where
  "held_over W c account [] held = ret held"
| "held_over W c account (node # nodes) held =
     bind_act (ask (node_instances W node)) (\<lambda>rows.
     bind_act (held_on W c account (mine account rows) held) (\<lambda>held.
     held_over W c account nodes held))"

definition backups_held :: "'w workers \<Rightarrow> hosting_config \<Rightarrow> account_id \<Rightarrow> ('w, nat) act" where
  "backups_held W c account = held_over W c account (hc_nodes c) 0"

definition backup_create :: "'w workers \<Rightarrow> hosting_config \<Rightarrow> account_id \<Rightarrow> str \<Rightarrow> ('w, backup) act" where
  "backup_create W c account i =
     bind_act (own W c account i) (\<lambda>(_, node).
     bind_act (if max_backups_for (quotas c) account \<noteq> None
       then bind_act (backups_held W c account) (\<lambda>held.
         here (\<lambda>w. (case admit_backup (quotas c) account (of_nat held) of
           Ok _ \<Rightarrow> Ok () | Err e \<Rightarrow> Err (QuotaDenied e) | Panic \<Rightarrow> Panic, w)))
       else ret ()) (\<lambda>_.
     too_old_or node (ask (wk_make W node i None))))"

definition backup_named :: "'w workers \<Rightarrow> hosting_config \<Rightarrow> account_id \<Rightarrow> str \<Rightarrow> str \<Rightarrow> bool \<Rightarrow> ('w, unit) act" where
  "backup_named W c account i name restore =
     (if \<not> valid_name name then fail BadBackupName
      else bind_act (own W c account i) (\<lambda>(_, node).
        too_old_or node (ask (if restore then wk_restore W node i name else wk_backup_delete W node i name))))"

definition backup_restore :: "'w workers \<Rightarrow> hosting_config \<Rightarrow> account_id \<Rightarrow> str \<Rightarrow> str \<Rightarrow> ('w, unit) act" where
  "backup_restore W c account i name = backup_named W c account i name True"

definition backup_delete :: "'w workers \<Rightarrow> hosting_config \<Rightarrow> account_id \<Rightarrow> str \<Rightarrow> str \<Rightarrow> ('w, unit) act" where
  "backup_delete W c account i name = backup_named W c account i name False"

section \<open>Erasing an account\<close>

record erased =
  er_servers_removed :: "str list"
  er_backups_deleted :: nat
  er_requests_forgotten :: nat

fun owned_over :: "'w workers \<Rightarrow> account_id \<Rightarrow> node_config list \<Rightarrow> ('w, hosted_instance list) act" where
  "owned_over W account [] = ret []"
| "owned_over W account (node # nodes) =
     bind_act (ask (node_instances W node)) (\<lambda>rows.
     bind_act (owned_over W account nodes) (\<lambda>more. ret (mine account rows @ more)))"

definition owned_everywhere :: "'w workers \<Rightarrow> hosting_config \<Rightarrow> account_id \<Rightarrow> ('w, hosted_instance list) act" where
  "owned_everywhere W c account = owned_over W account (hc_nodes c)"

fun delete_each :: "'w workers \<Rightarrow> hosting_config \<Rightarrow> account_id \<Rightarrow> str \<Rightarrow> backup list \<Rightarrow> nat \<Rightarrow> ('w, nat) act" where
  "delete_each W c account i [] n = ret n"
| "delete_each W c account i (b # bs) n =
     bind_act (backup_delete W c account i (bk_name b)) (\<lambda>_. delete_each W c account i bs (n + 1))"

fun erase_each :: "'w workers \<Rightarrow> hosting_config \<Rightarrow> account_id \<Rightarrow> hosted_instance list \<Rightarrow> erased \<Rightarrow> ('w, erased) act" where
  "erase_each W c account [] e = ret e"
| "erase_each W c account (i # is) e =
     bind_act (backups W c account (hi_instance_id i)) (\<lambda>listed.
     bind_act (delete_each W c account (hi_instance_id i) listed (er_backups_deleted e)) (\<lambda>n.
     bind_act (destroy W c account (hi_instance_id i)) (\<lambda>_.
     erase_each W c account is (e\<lparr>er_backups_deleted := n, er_servers_removed := er_servers_removed e @ [hi_instance_id i]\<rparr>))))"

definition erase_servers :: "'w workers \<Rightarrow> hosting_config \<Rightarrow> account_id \<Rightarrow> ('w, erased) act" where
  "erase_servers W c account =
     bind_act (owned_everywhere W c account) (\<lambda>owned.
       erase_each W c account owned \<lparr>er_servers_removed = [], er_backups_deleted = 0, er_requests_forgotten = 0\<rparr>)"

definition erase_account :: "'w workers \<Rightarrow> hosting_config \<Rightarrow> account_id \<Rightarrow> bool \<Rightarrow> ('w \<times> region_requests, erased) act" where
  "erase_account W c account ok st =
     (case erase_servers W c account (fst st) of
        None \<Rightarrow> None
      | Some (Ok e, w) \<Rightarrow>
          let (n, k) = forget_requests account ok (snd st)
          in Some (and_then n (\<lambda>n. Ok (e\<lparr>er_requests_forgotten := n\<rparr>)), w, k)
      | Some (r, w) \<Rightarrow> Some (r, w, snd st))"

section \<open>The sweeps\<close>

definition reap_records :: "hosted_instance list \<Rightarrow> time \<Rightarrow> instance_record list" where
  "reap_records existing now = map (\<lambda>i. record_for i now) existing"

text \<open>\<open>for (id, reason) in ...\<close>: a server or node that is not found is passed over, a refusal too.\<close>

fun reap_each :: "'w workers \<Rightarrow> hosting_config \<Rightarrow> hosted_instance list \<Rightarrow> (str \<times> reap_reason) list
    \<Rightarrow> (str \<times> reap_reason) list \<Rightarrow> ('w, (str \<times> reap_reason) list) act" where
  "reap_each W c existing [] reaped = ret reaped"
| "reap_each W c existing ((i, reason) # rest) reaped =
     (case List.find (\<lambda>x. hi_instance_id x = i) existing of
        None \<Rightarrow> reap_each W c existing rest reaped
      | Some x \<Rightarrow>
         (case List.find (\<lambda>n. nc_name n = hi_node x) (hc_nodes c) of
            None \<Rightarrow> reap_each W c existing rest reaped
          | Some node \<Rightarrow>
              bind_act (attempt (stop_on W node i)) (\<lambda>r.
                reap_each W c existing rest (case r of Ok _ \<Rightarrow> reaped @ [(i, reason)] | _ \<Rightarrow> reaped))))"

definition reap_idle :: "'w workers \<Rightarrow> hosting_config \<Rightarrow> time \<Rightarrow> ('w, (str \<times> reap_reason) list) act" where
  "reap_idle W c now =
     (if idle_timeout (quotas c) = None then ret []
      else bind_act (listing W c) (\<lambda>existing.
        reap_each W c existing (to_reap (quotas c) (reap_records existing now) now) []))"

definition past_expiry :: "hosting_config \<Rightarrow> hosted_instance \<Rightarrow> bool" where
  "past_expiry c i =
     (case hi_stopped_secs i of None \<Rightarrow> False | Some stopped_for \<Rightarrow>
        stopped_expired (quotas c) (case hi_owner i of None \<Rightarrow> [] | Some a \<Rightarrow> a) (secs stopped_for))"

fun expire_each :: "'w workers \<Rightarrow> hosting_config \<Rightarrow> hosted_instance list \<Rightarrow> str list \<Rightarrow> ('w, str list) act" where
  "expire_each W c [] removed = ret removed"
| "expire_each W c (i # is) removed =
     (if \<not> past_expiry c i then expire_each W c is removed
      else case List.find (\<lambda>n. nc_name n = hi_node i) (hc_nodes c) of
        None \<Rightarrow> expire_each W c is removed
      | Some node \<Rightarrow>
          bind_act (attempt (remove_on W node (hi_instance_id i))) (\<lambda>r.
            expire_each W c is (case r of Ok _ \<Rightarrow> removed @ [hi_instance_id i] | _ \<Rightarrow> removed)))"

definition expire_stopped :: "'w workers \<Rightarrow> hosting_config \<Rightarrow> ('w, str list) act" where
  "expire_stopped W c =
     (if stopped_expiry (quotas c) = None then ret []
      else bind_act (listing W c) (\<lambda>existing.
        expire_each W c (filter (\<lambda>i. hi_state i = ascii ''stopped'') existing) []))"

section \<open>What an admin sees\<close>

record worker_view =
  wv_name :: str
  wv_region :: "str option"
  wv_class :: "str option"
  wv_priority :: int
  wv_answered :: bool
  wv_servers :: nat
  wv_capacity :: "capacity_resp option"

fun view_each :: "'w workers \<Rightarrow> hosted_instance list \<Rightarrow> node_config list \<Rightarrow> 'w \<Rightarrow> worker_view list \<times> 'w" where
  "view_each W existing [] w = ([], w)"
| "view_each W existing (node # nodes) w =
     (let (cap, w) = node_capacity W node w;
          (more, w) = view_each W existing nodes w
      in (\<lparr>wv_name = nc_name node, wv_region = nc_region node, wv_class = nc_class node, wv_priority = nc_priority node,
           wv_answered = (cap \<noteq> None), wv_servers = servers_on existing node, wv_capacity = cap\<rparr> # more, w))"

definition workers_seen :: "'w workers \<Rightarrow> hosting_config \<Rightarrow> admin_store \<Rightarrow> account_id \<Rightarrow> ('w, worker_view list) act" where
  "workers_seen W c s admin =
     bind_act (here (\<lambda>w. (admin_only c s admin, w))) (\<lambda>_.
     bind_act (listing W c) (\<lambda>existing.
     here (\<lambda>w. let (views, w) = view_each W existing (hc_nodes c) w in (Ok views, w))))"

end
