(* ===== verification/Operate_Safety.thy ===== *)
theory Operate_Safety
  imports Operate Node_Log Decisions
begin

text \<open>
  What the operations of \<open>Operate\<close> ask of the nodes: when a server is created at all, whose servers an
  account can touch, and which ones the two sweeps stop or remove.
\<close>

section \<open>Running an operation one step at a time\<close>

lemma run_listing: "listing W c w = Some (Ok (fst (all_instances W c w)), snd (all_instances W c w))"
  by (simp add: listing_def here_def split_def Let_def)

lemma run_here: "here f w = Some (f w)"
  by (simp add: here_def)

lemma run_noting:
  "ask (noting k n i f) (w, l) = Some (remote (fst (f w)), snd (f w), l @ [(k, n, i, \<not> isl (fst (f w)))])"
  by (simp add: ask_def noting_def split_def Let_def)

lemma run_attempt_noting:
  "attempt (ask (noting k n i f)) (w, l)
     = Some (Ok (remote (fst (f w))), snd (f w), l @ [(k, n, i, \<not> isl (fst (f w)))])"
  by (cases "fst (f w)") (simp_all add: attempt_def run_noting)

lemma run_bind_Ok: "bind_act m f w = Some (Ok b, w') \<longleftrightarrow> (\<exists>a v. m w = Some (Ok a, v) \<and> f a v = Some (Ok b, w'))"
  by (simp add: bind_act_def split: option.split outcome.split)

lemma own_logged:
  "own (logged W) c account i (w, l) = Some (fst (owned W c account i w), snd (owned W c account i w), l)"
  by (simp add: own_def here_def owned_logged)

lemma may_run_logged:
  "may_run (logged W) ax c account i (w, l) = Some (fst (operable W ax c account i w), snd (operable W ax c account i w), l)"
  by (simp add: may_run_def here_def operable_def find_for_logged)

lemma pick_loop_logged:
  "pick_loop (logged W) existing region nodes best (w, l)
     = (fst (pick_loop W existing region nodes best w), snd (pick_loop W existing region nodes best w), l)"
  by (induction nodes arbitrary: best w) (simp_all add: node_capacity_logged split_def Let_def split: option.split)

lemma pick_node_logged:
  "pick_node (logged W) c existing class region (w, l)
     = (fst (pick_node W c existing class region w), snd (pick_node W c existing class region w), l)"
  by (simp add: pick_node_def pick_node_except_def pick_loop_logged split_def Let_def)

text \<open>The nodes of the class asked for, with what each answers about its room; the one chosen, and that all of them are full.\<close>

definition asked_for_room :: "'w workers \<Rightarrow> hosting_config \<Rightarrow> deploy_request \<Rightarrow> 'w \<Rightarrow> (node_config \<times> capacity_resp option) list" where
  "asked_for_room W c r w = capacities W (filter (\<lambda>n. nc_class n = dr_class r \<and> nc_name n \<noteq> []) (hc_nodes c)) w"

definition placed_well :: "'w workers \<Rightarrow> hosting_config \<Rightarrow> deploy_request \<Rightarrow> 'w \<Rightarrow> node_config \<Rightarrow> bool" where
  "placed_well W c r w node \<longleftrightarrow> node \<in> set (hc_nodes c) \<and> nc_class node = dr_class r
     \<and> (\<exists>cap. (node, cap) \<in> set (asked_for_room W c r w) \<and> not_full cap
          \<and> list_all (\<lambda>(m, cap'). as_good (dr_region r) node cap m cap') (asked_for_room W c r w))"

definition all_full :: "'w workers \<Rightarrow> hosting_config \<Rightarrow> deploy_request \<Rightarrow> 'w \<Rightarrow> bool" where
  "all_full W c r w \<longleftrightarrow> list_all (\<lambda>(m, cap). \<not> not_full cap) (asked_for_room W c r w)"

lemma pick_node_placed:
  "case fst (pick_node W c existing (dr_class r) (dr_region r) w) of None \<Rightarrow> all_full W c r w | Some n \<Rightarrow> placed_well W c r w n"
proof -
  obtain chosen w' where p: "pick_node_except W c existing (dr_class r) (dr_region r) [] w = (chosen, w')" by fastforce
  from placement [OF p] show ?thesis
    by (simp add: pick_node_def p all_full_def placed_well_def asked_for_room_def split: option.split_asm option.split)
qed

section \<open>Deploying\<close>

lemma check_deploy_Ok:
  assumes "check_deploy c account r = Ok u"
  shows "enabled c" "hosts_game c (dr_game_id r)" "str_trim (dr_name r) \<noteq> []" "validate_server_name (dr_name r) = Ok ()"
    "dr_class r = Some class \<Longrightarrow> valid_class class \<and> may_use_class (quotas c) account class"
  using assms by (simp_all add: check_deploy_def split: if_splits option.splits)

text \<open>How old the index takes a server to be.\<close>

definition age_of :: "time \<Rightarrow> hosted_instance \<Rightarrow> duration" where
  "age_of now x = (case hi_uptime_secs x of None \<Rightarrow> 0 | Some u \<Rightarrow> if u > now div 1000000000 + 2 ^ 63 then 0 else min now (secs u))"

lemma record_age: "now - ir_created_at (record_for x now) = age_of now x"
  by (auto simp: record_for_def age_of_def min_def split: option.split)

text \<open>What an account held when its request was looked at, as far as the nodes said, and that none of it is too young.\<close>

definition room_for :: "hosting_config \<Rightarrow> account_id \<Rightarrow> hosted_instance list \<Rightarrow> bool" where
  "room_for c account existing \<longleftrightarrow>
     length (mine account existing) < unat (max_instances_for (quotas c) account)
     \<and> length existing < unat (max_total_instances (quotas c))"

definition cooled_down :: "hosting_config \<Rightarrow> account_id \<Rightarrow> hosted_instance list \<Rightarrow> time \<Rightarrow> bool" where
  "cooled_down c account existing now \<longleftrightarrow>
     (\<forall>wait. cooldown_for (quotas c) account = Some wait \<longrightarrow> list_all (\<lambda>x. wait \<le> age_of now x) (mine account existing))"

lemma mine_records:
  "length (mine account existing) \<le> length (filter (\<lambda>i. ir_account i = account) (map (\<lambda>i. record_for i now) existing))"
  by (induction existing) (auto simp: mine_def record_for_def split: option.splits)

lemma admitted_room:
  assumes "admit (quotas c) account (map (\<lambda>i. record_for i now) existing) now = Ok u" "length existing < 2 ^ 32"
  shows "room_for c account existing" "cooled_down c account existing now"
proof -
  have adm: "admit (quotas c) account (map (\<lambda>i. record_for i now) existing) now = Ok ()" using assms(1) by simp
  have short: "length (map (\<lambda>i. record_for i now) existing) < 2 ^ 32" using assms(2) by simp
  show "room_for c account existing"
    using admit_Ok(1,2) [OF adm short] mine_records [of account existing now] by (simp add: room_for_def)
  show "cooled_down c account existing now"
    unfolding cooled_down_def list_all_iff
  proof (intro allI impI ballI)
    fix wait x assume wait: "cooldown_for (quotas c) account = Some wait" and x: "x \<in> set (mine account existing)"
    then have "record_for x now \<in> set (map (\<lambda>i. record_for i now) existing)" "ir_account (record_for x now) = account"
      by (auto simp: mine_def record_for_def)
    from admit_Ok(3) [OF adm short wait this] show "wait \<le> age_of now x"
      unfolding record_age [symmetric] by auto
  qed
qed

definition deploy_allowed :: "hosting_config \<Rightarrow> account_id \<Rightarrow> deploy_request \<Rightarrow> hosted_instance list \<Rightarrow> time \<Rightarrow> bool" where
  "deploy_allowed c account r existing now \<longleftrightarrow>
     check_deploy c account r = Ok ()
     \<and> admit (quotas c) account (map (\<lambda>i. record_for i now) existing) now = Ok ()
     \<and> (case dr_region r of None \<Rightarrow> True | Some region \<Rightarrow> valid_class region)"

text \<open>Every rule of the index, as a reader would state them.\<close>

definition rules_passed :: "hosting_config \<Rightarrow> account_id \<Rightarrow> deploy_request \<Rightarrow> hosted_instance list \<Rightarrow> time \<Rightarrow> bool" where
  "rules_passed c account r existing now \<longleftrightarrow>
     enabled c \<and> hosts_game c (dr_game_id r) \<and> str_trim (dr_name r) \<noteq> [] \<and> validate_server_name (dr_name r) = Ok ()
     \<and> (case dr_class r of None \<Rightarrow> True | Some class \<Rightarrow> valid_class class \<and> may_use_class (quotas c) account class)
     \<and> (case dr_region r of None \<Rightarrow> True | Some region \<Rightarrow> valid_class region)
     \<and> room_for c account existing \<and> cooled_down c account existing now"

lemma deploy_allowed_facts:
  assumes "deploy_allowed c account r existing now" "length existing < 2 ^ 32"
  shows "rules_passed c account r existing now"
proof -
  from assms(1) have ok: "check_deploy c account r = Ok ()"
    and adm: "admit (quotas c) account (map (\<lambda>i. record_for i now) existing) now = Ok ()"
    and reg: "case dr_region r of None \<Rightarrow> True | Some region \<Rightarrow> valid_class region"
    by (simp_all only: deploy_allowed_def)
  have cls: "case dr_class r of None \<Rightarrow> True | Some class \<Rightarrow> valid_class class \<and> may_use_class (quotas c) account class"
    using check_deploy_Ok(5) [OF ok] by (simp split: option.split)
  show ?thesis
    unfolding rules_passed_def using check_deploy_Ok(1-4) [OF ok] cls reg admitted_room [OF adm assms(2)] by (intro conjI)
qed

lemma admit_refused:
  assumes "admit p account rs now \<noteq> Ok ()"
  shows "\<not> held_by account rs < max_instances_for p account \<or> \<not> of_nat (length rs) < max_total_instances p
    \<or> (\<exists>wait i. cooldown_for p account = Some wait \<and> i \<in> set rs \<and> ir_account i = account \<and> now < ir_created_at i + wait)"
proof (rule ccontr)
  assume no: "\<not> ?thesis"
  have "admit p account rs now = Ok ()" by (rule admit_complete) (use no in \<open>auto simp: not_less\<close>)
  with assms show False by simp
qed

text \<open>And of an account with a name, these are all of them.\<close>

lemma rules_allow:
  assumes "rules_passed c account r existing now" "account \<noteq> []" "length existing < 2 ^ 32"
  shows "deploy_allowed c account r existing now"
proof -
  let ?rs = "map (\<lambda>i. record_for i now) existing"
  have mine: "length (filter (\<lambda>i. ir_account i = account) ?rs) = length (mine account existing)"
    using assms(2) by (induction existing) (auto simp: mine_def record_for_def split: option.splits)
  have small: "length (mine account existing) < 2 ^ 32"
    unfolding mine_def by (rule le_less_trans [OF length_filter_le assms(3)])
  have u: "n < 2 ^ 32 \<Longrightarrow> unat (of_nat n :: u32) = n" for n :: nat by (simp add: unat_of_nat)
  have room: "room_for c account existing" and cool: "cooled_down c account existing now" using assms(1) by (simp_all add: rules_passed_def)
  have adm: "admit (quotas c) account ?rs now = Ok ()"
  proof (rule admit_complete)
    show "held_by account ?rs < max_instances_for (quotas c) account"
      using room u [OF small] by (simp only: room_for_def held_by_def mine word_less_nat_alt)
    show "of_nat (length ?rs) < max_total_instances (quotas c)"
      using room u [OF assms(3)] by (simp only: room_for_def length_map word_less_nat_alt)
    fix wait i assume wait: "cooldown_for (quotas c) account = Some wait" and i: "i \<in> set ?rs" "ir_account i = account"
    then obtain x where x: "x \<in> set existing" "i = record_for x now" by auto
    then have "x \<in> set (mine account existing)" using i(2) assms(2) by (auto simp: mine_def record_for_def split: option.splits)
    then have "wait \<le> now - ir_created_at i" using cool wait x(2) by (simp add: cooled_down_def list_all_iff record_age)
    moreover have "ir_created_at i \<le> now" by (simp add: x(2) record_for_def split: option.split)
    ultimately show "ir_created_at i + wait \<le> now" by linarith
  qed
  have "check_deploy c account r = Ok ()" using assms(1) by (auto simp: rules_passed_def check_deploy_def split: option.splits)
  with adm assms(1) show ?thesis by (simp add: deploy_allowed_def rules_passed_def)
qed

lemma deploy_cases:
  assumes "deploy (logged W) c account r now entropy (w, []) = Some (res, w', l)"
  shows "(l = [] \<and> (\<exists>e. res = Err e) \<and> (deploy_allowed c account r (fst (all_instances W c w)) now
       \<longrightarrow> all_full W c r (snd (all_instances W c w)) \<or> (\<exists>e. new_instance_id (dr_game_id r) entropy = Err e))) \<or>
    (\<exists>node i made. deploy_allowed c account r (fst (all_instances W c w)) now
       \<and> placed_well W c r (snd (all_instances W c w)) node
       \<and> l = [(CCreate, nc_name node, i, \<not> isl made)]
       \<and> res = and_then (remote made) (\<lambda>m. Ok (deployed r i account node m)))"
proof -
  let ?w1 = "snd (all_instances W c w)" and ?ex = "fst (all_instances W c w)"
  let ?adm = "admit (quotas c) account (map (\<lambda>i. record_for i now) ?ex) now"
  let ?pick = "pick_node W c ?ex (dr_class r) (dr_region r) ?w1"
  consider (no) "check_deploy c account r \<noteq> Ok ()" | (quota) "check_deploy c account r = Ok ()" "?adm \<noteq> Ok ()"
    | (region) rg where "check_deploy c account r = Ok ()" "?adm = Ok ()" "dr_region r = Some rg" "\<not> valid_class rg"
    | (ok) "deploy_allowed c account r ?ex now"
    unfolding deploy_allowed_def by (cases "dr_region r") (simp_all, metis+)
  then show ?thesis
  proof cases
    case no
    then obtain e where "check_deploy c account r = Err e"
      by (cases "check_deploy c account r") (auto simp: check_deploy_def split: if_splits option.splits)
    then show ?thesis using assms no by (auto simp: deploy_def bind_act_def run_here deploy_allowed_def)
  next
    case quota
    then obtain e where "?adm = Err e"
      by (cases ?adm) (auto simp: admit_def Let_def split: if_splits option.splits)
    then show ?thesis
      using assms quota by (auto simp: deploy_def bind_act_def run_here run_listing all_instances_logged deploy_allowed_def)
  next
    case region
    then show ?thesis
      using assms by (auto simp: deploy_def bind_act_def run_here run_listing all_instances_logged fail_def deploy_allowed_def)
  next
    case ok
    then have facts: "check_deploy c account r = Ok ()" "?adm = Ok ()"
      "\<not> (case dr_region r of None \<Rightarrow> False | Some region \<Rightarrow> \<not> valid_class region)"
      by (auto simp: deploy_allowed_def split: option.splits)
    show ?thesis
    proof (cases "fst ?pick")
      case None
      then have "all_full W c r ?w1" using pick_node_placed [of W c r ?w1 ?ex] by simp
      then show ?thesis using assms facts None
        by (auto simp: deploy_def bind_act_def run_here run_listing all_instances_logged pick_node_logged ok_or_def split_def Let_def)
    next
      case (Some node)
      have node: "placed_well W c r ?w1 node" using pick_node_placed [of W c r ?w1 ?ex] by (simp add: Some)
      show ?thesis
      proof (cases "new_instance_id (dr_game_id r) entropy")
        case (Ok i)
        let ?made = "fst (wk_create W node (deploy_spec r i now) account (snd ?pick))"
        have "res = and_then (remote ?made) (\<lambda>m. Ok (deployed r i account node m))
          \<and> l = [(CCreate, nc_name node, i, \<not> isl ?made)]"
          using assms facts Some Ok
          by (cases ?made) (auto simp: deploy_def bind_act_def run_here run_listing all_instances_logged pick_node_logged
              ok_or_def split_def Let_def logged_simps run_noting deploy_spec_def ret_def)
        with ok node show ?thesis by blast
      next
        case (Err e)
        then show ?thesis using assms facts Some
          by (auto simp: deploy_def bind_act_def run_here run_listing all_instances_logged pick_node_logged ok_or_def split_def Let_def)
      next
        case Panic
        then show ?thesis by (simp add: new_instance_id_def Let_def split: option.splits)
      qed
    qed
  qed
qed

section \<open>The sweeps\<close>

definition answered_ids :: "event list \<Rightarrow> str list" where
  "answered_ids l = map (\<lambda>(k, n, i, ok). i) (filter (\<lambda>(k, n, i, ok). ok) l)"

lemma answered_ids_simps [simp]:
  "answered_ids [] = []" "answered_ids ((k, n, i, ok) # l) = (if ok then [i] else []) @ answered_ids l"
  by (simp_all add: answered_ids_def)

definition called :: "event list \<Rightarrow> (call \<times> str \<times> str) list" where
  "called l = map (\<lambda>(k, n, i, ok). (k, n, i)) l"

lemma called_simps [simp]: "called [] = []" "called ((k, n, i, ok) # l) = (k, n, i) # called l"
  by (simp_all add: called_def)

lemma remote_Ok: "(case remote x of Ok _ \<Rightarrow> a | _ \<Rightarrow> b) = (if isl x then b else a)"
  by (cases x) simp_all

definition listed_nodes :: "hosting_config \<Rightarrow> hosted_instance list \<Rightarrow> bool" where
  "listed_nodes c rows \<longleftrightarrow> list_all (\<lambda>x. hi_node x \<in> nc_name ` set (hc_nodes c)) rows"

lemma listed_nodes_all: "listed_nodes c (fst (all_instances W c w))"
  by (auto simp: listed_nodes_def list_all_iff dest!: all_instances_reported listings_nodes)

lemma find_named:
  assumes "a \<in> f ` set xs"
  obtains x where "List.find (\<lambda>x. f x = a) xs = Some x" "f x = a" "x \<in> set xs"
proof (cases "List.find (\<lambda>x. f x = a) xs")
  case None
  then show ?thesis using assms by (auto simp: find_None_iff)
next
  case (Some x)
  then show ?thesis using that by (auto dest: find_Some)
qed

text \<open>The server a reaped id is looked up to.\<close>

definition under_id :: "hosted_instance list \<Rightarrow> str \<Rightarrow> hosted_instance" where
  "under_id rows i = (case List.find (\<lambda>x. hi_instance_id x = i) rows of Some x \<Rightarrow> x | None \<Rightarrow> hd rows)"

lemma reap_each_log:
  assumes "reap_each (logged W) c existing todo reaped (w, l0) = Some (r, w', l)"
    "listed_nodes c existing" "set (map fst todo) \<subseteq> hi_instance_id ` set existing"
  shows "\<exists>gone m. r = Ok (reaped @ gone) \<and> l = l0 @ m \<and> map fst gone = answered_ids m \<and> set gone \<subseteq> set todo
    \<and> called m = map (\<lambda>(i, why). (CStop, hi_node (under_id existing i), i)) todo"
  using assms(1,3)
proof (induction todo arbitrary: reaped w l0)
  case Nil
  then show ?case by (simp add: ret_def)
next
  case (Cons t rest)
  obtain i reason where t: "t = (i, reason)" by (cases t)
  with Cons.prems(2) have "i \<in> hi_instance_id ` set existing" by simp
  then obtain x where x: "List.find (\<lambda>x. hi_instance_id x = i) existing = Some x" "x \<in> set existing"
    by (rule find_named)
  then have "hi_node x \<in> nc_name ` set (hc_nodes c)" using assms(2) by (auto simp: listed_nodes_def list_all_iff)
  then obtain node where node: "List.find (\<lambda>n. nc_name n = hi_node x) (hc_nodes c) = Some node" "nc_name node = hi_node x"
    by (rule find_named)
  let ?a = "fst (wk_stop W node i w)" and ?w = "snd (wk_stop W node i w)"
  let ?one = "if isl ?a then [] else [(i, reason)]" and ?e = "(CStop, nc_name node, i, \<not> isl ?a)"
  have "reap_each (logged W) c existing rest (reaped @ ?one) (?w, l0 @ [?e]) = Some (r, w', l)"
    using Cons.prems(1)
    by (simp add: t x node bind_act_def stop_on_def logged_simps run_attempt_noting remote_Ok split: if_splits)
  from Cons.IH [OF this] Cons.prems(2) obtain gone m where m: "r = Ok ((reaped @ ?one) @ gone)" "l = (l0 @ [?e]) @ m"
    "map fst gone = answered_ids m" "set gone \<subseteq> set rest"
    "called m = map (\<lambda>(i, why). (CStop, hi_node (under_id existing i), i)) rest" by auto
  have "map fst (?one @ gone) = answered_ids (?e # m)" "set (?one @ gone) \<subseteq> set (t # rest)"
    using m(3,4) by (auto simp: t)
  moreover have "called (?e # m) = map (\<lambda>(i, why). (CStop, hi_node (under_id existing i), i)) (t # rest)"
    using m(5) node(2) x(1) by (simp add: t under_id_def)
  ultimately show ?case using m(1,2) by (intro exI [of _ "?one @ gone"] exI [of _ "?e # m"]) auto
qed

lemma expire_each_log:
  assumes "expire_each (logged W) c rows removed (w, l0) = Some (r, w', l)" "listed_nodes c rows"
  shows "\<exists>m. r = Ok (removed @ answered_ids m) \<and> l = l0 @ m
    \<and> called m = map (\<lambda>x. (CRemove, hi_node x, hi_instance_id x)) (filter (past_expiry c) rows)"
  using assms
proof (induction rows arbitrary: removed w l0)
  case Nil
  then show ?case by (simp add: ret_def)
next
  case (Cons x rows)
  have rows: "listed_nodes c rows" and named: "hi_node x \<in> nc_name ` set (hc_nodes c)"
    using Cons.prems(2) by (simp_all add: listed_nodes_def)
  from named obtain node where node: "List.find (\<lambda>n. nc_name n = hi_node x) (hc_nodes c) = Some node" "nc_name node = hi_node x"
    by (rule find_named)
  show ?case
  proof (cases "past_expiry c x")
    case False
    then show ?thesis using Cons.prems Cons.IH rows by simp
  next
    case True
    let ?i = "hi_instance_id x"
    let ?a = "fst (wk_remove W node ?i w)" and ?w = "snd (wk_remove W node ?i w)"
    let ?one = "if isl ?a then [] else [?i]" and ?e = "(CRemove, nc_name node, ?i, \<not> isl ?a)"
    have "expire_each (logged W) c rows (removed @ ?one) (?w, l0 @ [?e]) = Some (r, w', l)"
      using Cons.prems(1)
      by (simp add: True node bind_act_def remove_on_def logged_simps run_attempt_noting remote_Ok split: if_splits)
    from Cons.IH [OF this rows] obtain m where m: "r = Ok ((removed @ ?one) @ answered_ids m)" "l = (l0 @ [?e]) @ m"
      "called m = map (\<lambda>x. (CRemove, hi_node x, hi_instance_id x)) (filter (past_expiry c) rows)" by blast
    then show ?thesis using True node(2) by (intro exI [of _ "?e # m"]) auto
  qed
qed

text \<open>Which servers the sweep stops. Nothing here says when anybody last played.\<close>

definition reapable :: "hosting_config \<Rightarrow> time \<Rightarrow> hosted_instance \<Rightarrow> bool" where
  "reapable c now x \<longleftrightarrow> hi_players_now x = Some 0
     \<and> \<not> never_reaped (quotas c) (case hi_owner x of None \<Rightarrow> [] | Some a \<Rightarrow> a)
     \<and> (case idle_timeout (quotas c) of None \<Rightarrow> False | Some t \<Rightarrow> min_lifetime (quotas c) + t < age_of now x)"

lemma reaped_record:
  assumes "idle_timeout (quotas c) = Some t"
  shows "reap_one (quotas c) t now (record_for x now) = Some (i, why)
    \<longleftrightarrow> i = hi_instance_id x \<and> reapable c now x \<and> why = NeverHadPlayers (age_of now x)"
  unfolding reap_one_Some record_age
  by (auto simp: record_for_def reapable_def assms split: option.splits)

lemma to_reap_ids:
  "fst ` set (to_reap (quotas c) (reap_records existing now) now) = hi_instance_id ` {x \<in> set existing. reapable c now x}"
proof (cases "idle_timeout (quotas c)")
  case None
  then show ?thesis by (simp add: to_reap_def reapable_def)
next
  case (Some t)
  have "(i, why) \<in> set (to_reap (quotas c) (reap_records existing now) now) \<longleftrightarrow>
      (\<exists>x\<in>set existing. i = hi_instance_id x \<and> reapable c now x \<and> why = NeverHadPlayers (age_of now x))" for i why
    by (auto simp: set_to_reap Some reap_records_def reaped_record [OF Some])
  then show ?thesis by (auto simp: image_iff) (metis fst_conv)
qed

lemma under_id_distinct:
  assumes "distinct (map hi_instance_id existing)" "x \<in> set existing"
  shows "under_id existing (hi_instance_id x) = x"
proof -
  have "hi_instance_id x \<in> hi_instance_id ` set existing" using assms(2) by simp
  then obtain y where y: "List.find (\<lambda>y. hi_instance_id y = hi_instance_id x) existing = Some y"
    "hi_instance_id y = hi_instance_id x" "y \<in> set existing" by (rule find_named)
  with assms have "y = x" by (auto simp: distinct_map dest: inj_onD)
  with y(1) show ?thesis by (simp add: under_id_def)
qed

lemma reap_idle_log:
  assumes "reap_idle (logged W) c now (w, []) = Some (r, w', l)"
    "distinct (map hi_instance_id (fst (all_instances W c w)))"
  shows "(\<exists>gone. r = Ok gone \<and> map fst gone = answered_ids l)
    \<and> set (called l) = (\<lambda>x. (CStop, hi_node x, hi_instance_id x)) ` {x \<in> set (fst (all_instances W c w)). reapable c now x}"
proof (cases "idle_timeout (quotas c)")
  case None
  then show ?thesis using assms(1) by (auto simp: reap_idle_def ret_def reapable_def)
next
  case (Some t)
  let ?ex = "fst (all_instances W c w)"
  let ?todo = "to_reap (quotas c) (reap_records ?ex now) now"
  have "reap_each (logged W) c ?ex ?todo [] (snd (all_instances W c w), []) = Some (r, w', l)"
    using assms(1) by (simp add: reap_idle_def Some bind_act_def run_listing all_instances_logged)
  from reap_each_log [OF this listed_nodes_all] obtain gone where gone: "r = Ok gone" "map fst gone = answered_ids l"
    "called l = map (\<lambda>(i, why). (CStop, hi_node (under_id ?ex i), i)) ?todo"
    using to_reap_ids [of c ?ex now] by auto
  have "set (called l) = (\<lambda>i. (CStop, hi_node (under_id ?ex i), i)) ` fst ` set ?todo"
    unfolding gone(3) by (force simp: image_image)
  also have "\<dots> = (\<lambda>x. (CStop, hi_node x, hi_instance_id x)) ` {x \<in> set ?ex. reapable c now x}"
    unfolding to_reap_ids image_image
    by (rule image_cong) (simp_all add: under_id_distinct [OF assms(2)])
  finally show ?thesis using gone(1,2) by blast
qed

lemma expire_stopped_log:
  assumes "expire_stopped (logged W) c (w, []) = Some (r, w', l)"
  shows "r = Ok (answered_ids l) \<and> called l = map (\<lambda>x. (CRemove, hi_node x, hi_instance_id x))
    (filter (\<lambda>x. hi_state x = ascii ''stopped'' \<and> past_expiry c x) (fst (all_instances W c w)))"
proof (cases "stopped_expiry (quotas c)")
  case None
  then have "\<not> past_expiry c x" for x
    by (simp add: past_expiry_def stopped_expired_def stopped_expiry_for_def split: option.split)
  then show ?thesis using assms by (simp add: expire_stopped_def None ret_def)
next
  case (Some t)
  let ?rows = "filter (\<lambda>i. hi_state i = ascii ''stopped'') (fst (all_instances W c w))"
  have "expire_each (logged W) c ?rows [] (snd (all_instances W c w), []) = Some (r, w', l)"
    using assms by (simp add: expire_stopped_def Some bind_act_def run_listing all_instances_logged)
  moreover have "listed_nodes c ?rows"
    using listed_nodes_all [of c W w] by (simp add: listed_nodes_def list_all_iff)
  ultimately have "r = Ok ([] @ answered_ids l) \<and> called l = map (\<lambda>x. (CRemove, hi_node x, hi_instance_id x)) (filter (past_expiry c) ?rows)"
    using expire_each_log by fastforce
  then show ?thesis by (simp add: conj_commute)
qed

section \<open>Erasing an account\<close>

text \<open>
  \<open>erased_log I e l\<close>: every call so far deletes a backup of or removes a server of \<open>I\<close>, and \<open>e\<close> says which were answered.
\<close>

definition confined :: "str set \<Rightarrow> event list \<Rightarrow> bool" where
  "confined I l \<longleftrightarrow> list_all (\<lambda>(k, n, i, ok). (k = CDelete \<or> k = CRemove) \<and> i \<in> I) l"

definition removed_ids :: "event list \<Rightarrow> str list" where
  "removed_ids l = answered_ids (filter (\<lambda>(k, n, i, ok). k = CRemove) l)"

definition deleted_count :: "event list \<Rightarrow> nat" where
  "deleted_count l = length (filter (\<lambda>(k, n, i, ok). k = CDelete \<and> ok) l)"

definition erased_log :: "str set \<Rightarrow> erased \<Rightarrow> event list \<Rightarrow> bool" where
  "erased_log I e l \<longleftrightarrow> confined I l \<and> er_servers_removed e = removed_ids l \<and> er_backups_deleted e = deleted_count l"

lemma erase_log_simps [simp]:
  "confined I []" "removed_ids [] = []" "deleted_count [] = 0"
  "confined I (l @ [(k, n, i, ok)]) \<longleftrightarrow> confined I l \<and> (k = CDelete \<or> k = CRemove) \<and> i \<in> I"
  "removed_ids (l @ [(k, n, i, ok)]) = removed_ids l @ (if k = CRemove \<and> ok then [i] else [])"
  "deleted_count (l @ [(k, n, i, ok)]) = deleted_count l + (if k = CDelete \<and> ok then 1 else 0)"
  by (simp_all add: confined_def removed_ids_def deleted_count_def answered_ids_def)

lemma keeps_own: "keeps P (own (logged W) c account i) (\<lambda>_. P) (\<lambda>_. P)"
proof (rule keepsI)
  fix s r s' assume "P (snd s)" "own (logged W) c account i s = Some (r, s')"
  then show "answered (\<lambda>_. P) (\<lambda>_. P) r (snd s')"
    using owned_not_Panic [of W c account i "fst s"] by (cases s; cases r) (auto simp: own_logged)
qed

lemma keeps_too_old: "keeps P m Q (\<lambda>_. E) \<Longrightarrow> keeps P (too_old_or node m) Q (\<lambda>_. E)"
  unfolding too_old_or_def by (erule keeps_catch) (rule keeps_fail)

lemma keeps_backups: "keeps P (backups (logged W) c account i) (\<lambda>_. P) (\<lambda>_. P)"
  unfolding backups_def split_def logged_simps
  by (rule keeps_bind [OF keeps_own keeps_too_old [OF keeps_ask_quiet]])

lemma keeps_backup_delete:
  assumes "i \<in> I"
  shows "keeps (erased_log I e) (backup_delete (logged W) c account i name)
    (\<lambda>_. erased_log I (e\<lparr>er_backups_deleted := er_backups_deleted e + 1\<rparr>)) (\<lambda>_. confined I)"
proof (cases "valid_name name")
  case True
  have ask: "keeps (erased_log I e) (ask (wk_backup_delete (logged W) node i name))
      (\<lambda>_. erased_log I (e\<lparr>er_backups_deleted := er_backups_deleted e + 1\<rparr>)) (\<lambda>_. confined I)" for node
    unfolding logged_simps by (rule keeps_ask_noting) (use assms in \<open>simp_all add: erased_log_def\<close>)
  have own: "keeps (erased_log I e) (own (logged W) c account i) (\<lambda>_. erased_log I e) (\<lambda>_. confined I)"
    by (rule keeps_weaken [OF keeps_own [of "erased_log I e"]]) (simp_all add: erased_log_def)
  show ?thesis
    unfolding backup_delete_def backup_named_def split_def
    using keeps_bind [OF own keeps_too_old [OF ask]] True by simp
next
  case False
  then show ?thesis
    by (auto simp: backup_delete_def backup_named_def erased_log_def intro!: keeps_fail)
qed

lemma keeps_delete_each:
  assumes "i \<in> I"
  shows "keeps (erased_log I (e\<lparr>er_backups_deleted := n\<rparr>)) (delete_each (logged W) c account i bs n)
    (\<lambda>n'. erased_log I (e\<lparr>er_backups_deleted := n'\<rparr>)) (\<lambda>_. confined I)"
proof (induction bs arbitrary: n)
  case Nil
  then show ?case by (simp add: keeps_ret)
next
  case (Cons b bs)
  show ?case
    unfolding delete_each.simps
    by (rule keeps_bind [OF _ Cons.IH])
      (use keeps_backup_delete [OF assms, of "e\<lparr>er_backups_deleted := n\<rparr>"] in simp)
qed

lemma keeps_destroy:
  assumes "i \<in> I"
  shows "keeps (erased_log I e) (destroy (logged W) c account i)
    (\<lambda>_. erased_log I (e\<lparr>er_servers_removed := er_servers_removed e @ [i]\<rparr>)) (\<lambda>_. confined I)"
proof -
  have ask: "keeps (erased_log I e) (remove_on (logged W) node i)
      (\<lambda>_. erased_log I (e\<lparr>er_servers_removed := er_servers_removed e @ [i]\<rparr>)) (\<lambda>_. confined I)" for node
    unfolding remove_on_def logged_simps by (rule keeps_ask_noting) (use assms in \<open>simp_all add: erased_log_def\<close>)
  have own: "keeps (erased_log I e) (own (logged W) c account i) (\<lambda>_. erased_log I e) (\<lambda>_. confined I)"
    by (rule keeps_weaken [OF keeps_own [of "erased_log I e"]]) (simp_all add: erased_log_def)
  show ?thesis unfolding destroy_def split_def by (rule keeps_bind [OF own ask])
qed

lemma keeps_erase_each:
  assumes "set (map hi_instance_id rows) \<subseteq> I"
  shows "keeps (erased_log I e) (erase_each (logged W) c account rows e)
    (\<lambda>e' l. erased_log I e' l \<and> er_servers_removed e' = er_servers_removed e @ map hi_instance_id rows) (\<lambda>_. confined I)"
  using assms
proof (induction rows arbitrary: e)
  case Nil
  then show ?case by (simp add: keeps_ret)
next
  case (Cons x rows)
  then have x: "hi_instance_id x \<in> I" and rows: "set (map hi_instance_id rows) \<subseteq> I" by simp_all
  have list: "keeps (erased_log I e) (backups (logged W) c account (hi_instance_id x)) (\<lambda>_. erased_log I e) (\<lambda>_. confined I)"
    by (rule keeps_weaken [OF keeps_backups [of "erased_log I e"]]) (simp_all add: erased_log_def)
  have dels: "keeps (erased_log I e) (delete_each (logged W) c account (hi_instance_id x) bs (er_backups_deleted e))
      (\<lambda>n. erased_log I (e\<lparr>er_backups_deleted := n\<rparr>)) (\<lambda>_. confined I)" for bs
    using keeps_delete_each [OF x, where e = e and n = "er_backups_deleted e"] by simp
  have rest: "keeps (erased_log I (e\<lparr>er_backups_deleted := n, er_servers_removed := er_servers_removed e @ [hi_instance_id x]\<rparr>))
      (erase_each (logged W) c account rows (e\<lparr>er_backups_deleted := n, er_servers_removed := er_servers_removed e @ [hi_instance_id x]\<rparr>))
      (\<lambda>e' l. erased_log I e' l \<and> er_servers_removed e' = er_servers_removed e @ map hi_instance_id (x # rows)) (\<lambda>_. confined I)" for n
    using Cons.IH [OF rows, of "e\<lparr>er_backups_deleted := n, er_servers_removed := er_servers_removed e @ [hi_instance_id x]\<rparr>"] by simp
  have gone: "keeps (erased_log I (e\<lparr>er_backups_deleted := n\<rparr>)) (destroy (logged W) c account (hi_instance_id x))
      (\<lambda>_. erased_log I (e\<lparr>er_backups_deleted := n, er_servers_removed := er_servers_removed e @ [hi_instance_id x]\<rparr>)) (\<lambda>_. confined I)" for n
    using keeps_destroy [OF x, of "e\<lparr>er_backups_deleted := n\<rparr>"] by simp
  show ?case
    unfolding erase_each.simps by (rule keeps_bind [OF list keeps_bind [OF dels keeps_bind [OF gone rest]]])
qed

text \<open>The servers found when every node was asked.\<close>

definition listed_as_mine :: "account_id \<Rightarrow> (node_config \<times> instance_row list) list \<Rightarrow> hosted_instance list" where
  "listed_as_mine account answers = concat (map (\<lambda>(n, rs). mine account (map (hosted_of n) rs)) answers)"

lemma owned_over_run:
  "\<exists>r. owned_over (logged W) account nodes (w, l) = Some (r, snd (gather W nodes w), l)
     \<and> r = Ok (listed_as_mine account (listings W nodes w)) \<and> map fst (listings W nodes w) = nodes
   \<or> (\<exists>e w'. owned_over (logged W) account nodes (w, l) = Some (Err e, w', l))"
proof (induction nodes arbitrary: w)
  case Nil
  then show ?case by (simp add: ret_def listed_as_mine_def)
next
  case (Cons n nodes)
  obtain x v where x: "wk_list W n w = (x, v)" by fastforce
  show ?case
  proof (cases x)
    case (Inl e)
    then show ?thesis by (simp add: bind_act_def ask_def node_instances_def logged_simps quiet_def x)
  next
    case (Inr rows)
    then show ?thesis using Cons.IH [of v]
      by (auto simp: bind_act_def ask_def node_instances_def logged_simps quiet_def x ret_def listed_as_mine_def split_def Let_def)
  qed
qed

lemma erase_servers_log:
  assumes "erase_servers (logged W) c account (w, []) = Some (r, w', l)"
  defines "found \<equiv> listed_as_mine account (listings W (hc_nodes c) w)"
  shows "(l = [] \<and> (\<exists>e. r = Err e)) \<or> (map fst (listings W (hc_nodes c) w) = hc_nodes c
    \<and> confined (set (map hi_instance_id found)) l
    \<and> (case r of Ok e \<Rightarrow> er_servers_removed e = map hi_instance_id found \<and> removed_ids l = map hi_instance_id found
         \<and> er_backups_deleted e = deleted_count l | Err _ \<Rightarrow> True | Panic \<Rightarrow> False))"
proof (cases "\<exists>e v. owned_over (logged W) account (hc_nodes c) (w, []) = Some (Err e, v, [])")
  case True
  then show ?thesis using assms(1) by (auto simp: erase_servers_def owned_everywhere_def bind_act_def)
next
  case False
  let ?e = "\<lparr>er_servers_removed = [], er_backups_deleted = 0, er_requests_forgotten = 0\<rparr>"
  from False owned_over_run [of W account "hc_nodes c" w "[]"]
  have all: "map fst (listings W (hc_nodes c) w) = hc_nodes c"
    and run: "owned_over (logged W) account (hc_nodes c) (w, []) = Some (Ok found, snd (gather W (hc_nodes c) w), [])"
    by (auto simp: found_def)
  have each: "erase_each (logged W) c account found ?e (snd (gather W (hc_nodes c) w), []) = Some (r, w', l)"
    using assms(1) by (simp add: erase_servers_def owned_everywhere_def bind_act_def run)
  have "answered (\<lambda>e' l. erased_log (set (map hi_instance_id found)) e' l \<and> er_servers_removed e' = er_servers_removed ?e @ map hi_instance_id found)
      (\<lambda>_. confined (set (map hi_instance_id found))) r (snd (w', l))"
    by (rule keepsD [OF keeps_erase_each _ each]) (simp_all add: erased_log_def)
  with all show ?thesis by (cases r) (auto simp: erased_log_def)
qed

text \<open>
  What a node does with backups, as far as erasing rests on it: \<open>kept w i\<close> are the names of the backups there are of server
  \<open>i\<close>. A listing that is answered names them all (an agent answers it for a server of its own only), a deletion that is
  answered deletes, and neither these two nor a listing of servers or a removal makes one.
\<close>

definition keeps_backups :: "'w workers \<Rightarrow> ('w \<Rightarrow> str \<Rightarrow> str set) \<Rightarrow> bool" where
  "keeps_backups W kept \<longleftrightarrow>
     (\<forall>n w j. kept (snd (wk_list W n w)) j \<subseteq> kept w j)
     \<and> (\<forall>n i w j. kept (snd (wk_backups W n i w)) j \<subseteq> kept w j)
     \<and> (\<forall>n i w j. kept (snd (wk_remove W n i w)) j \<subseteq> kept w j)
     \<and> (\<forall>n i b w j. kept (snd (wk_backup_delete W n i b w)) j \<subseteq> kept w j)
     \<and> (\<forall>n i w bs. fst (wk_backups W n i w) = Inr bs \<longrightarrow> kept (snd (wk_backups W n i w)) i \<subseteq> bk_name ` set bs)
     \<and> (\<forall>n i b w. fst (wk_backup_delete W n i b w) = Inr () \<longrightarrow> b \<notin> kept (snd (wk_backup_delete W n i b w)) i)"

lemma keeps_backups_laws:
  assumes "keeps_backups W kept"
  shows "wk_list W n w = (x, w') \<Longrightarrow> kept w' j \<subseteq> kept w j"
    "wk_backups W n i w = (y, w') \<Longrightarrow> kept w' j \<subseteq> kept w j"
    "wk_remove W n i w = (u, w') \<Longrightarrow> kept w' j \<subseteq> kept w j"
    "wk_backup_delete W n i b w = (u, w') \<Longrightarrow> kept w' j \<subseteq> kept w j"
    "wk_backups W n i w = (Inr bs, w') \<Longrightarrow> kept w' i \<subseteq> bk_name ` set bs"
    "wk_backup_delete W n i b w = (Inr (), w') \<Longrightarrow> b \<notin> kept w' i"
  using assms unfolding keeps_backups_def by (metis fst_conv snd_conv)+

lemma keeps_backups_logged: "keeps_backups W kept \<Longrightarrow> keeps_backups (logged W) (\<lambda>s. kept (fst s))"
  unfolding keeps_backups_def logged_simps quiet_def noting_def split_def Let_def fst_conv snd_conv
  by (elim conjE) (intro conjI allI; simp)

lemma kept_gather: "keeps_backups W kept \<Longrightarrow> kept (snd (gather W nodes w)) j \<subseteq> kept w j"
proof (induction nodes arbitrary: w)
  case (Cons n nodes)
  obtain x v where x: "wk_list W n w = (x, v)" by fastforce
  have "kept v j \<subseteq> kept w j" by (rule keeps_backups_laws(1) [OF Cons.prems x])
  with Cons.IH [OF Cons.prems, of v] show ?case by (simp add: node_instances_def x split_def Let_def)
qed simp

lemma kept_own: "keeps_backups W kept \<Longrightarrow> own W c account i w = Some (r, w') \<Longrightarrow> kept w' j \<subseteq> kept w j"
  using kept_gather [of W kept "hc_nodes c" w j]
  by (auto simp: own_def here_def owned_def find_for_def all_instances_def split_def Let_def split: option.splits if_splits)

lemma ask_Ok: "ask f w = Some (Ok a, w') \<longleftrightarrow> f w = (Inr a, w')"
  by (cases "fst (f w)") (auto simp: ask_def split_def prod_eq_iff)

lemma too_old_Ok: "too_old_or n m w = Some (Ok a, w') \<longleftrightarrow> m w = Some (Ok a, w')"
  by (auto simp: too_old_or_def catch_def fail_def split: option.splits outcome.splits)

lemma kept_backups:
  assumes "keeps_backups W kept" "backups W c account i w = Some (Ok bs, w')"
  shows "kept w' i \<subseteq> bk_name ` set bs \<and> kept w' j \<subseteq> kept w j"
proof -
  obtain x n v where "own W c account i w = Some (Ok (x, n), v)" "wk_backups W n i v = (Inr bs, w')"
    using assms(2) by (auto simp: backups_def run_bind_Ok too_old_Ok ask_Ok)
  then show ?thesis
    using kept_own [OF assms(1)] keeps_backups_laws(2,5) [OF assms(1)] by (meson order_trans)
qed

lemma kept_deleted:
  assumes "keeps_backups W kept" "backup_delete W c account i b w = Some (Ok u, w')"
  shows "b \<notin> kept w' i \<and> kept w' j \<subseteq> kept w j"
proof -
  obtain x n v where "own W c account i w = Some (Ok (x, n), v)" "wk_backup_delete W n i b v = (Inr (), w')"
    using assms(2) by (auto simp: backup_delete_def backup_named_def run_bind_Ok too_old_Ok ask_Ok fail_def split: if_splits)
  then show ?thesis
    using kept_own [OF assms(1)] keeps_backups_laws(4,6) [OF assms(1)] by (meson order_trans)
qed

lemma kept_delete_each:
  assumes "keeps_backups W kept"
  shows "delete_each W c account i bs n w = Some (Ok m, w') \<Longrightarrow> bk_name ` set bs \<inter> kept w' i = {} \<and> (\<forall>j. kept w' j \<subseteq> kept w j)"
proof (induction bs arbitrary: n w)
  case (Cons b bs)
  then obtain u v where v: "backup_delete W c account i (bk_name b) w = Some (Ok u, v)" "delete_each W c account i bs (n + 1) v = Some (Ok m, w')"
    by (auto simp: run_bind_Ok)
  from Cons.IH [OF v(2)] kept_deleted [OF assms v(1)] show ?case by (auto simp: subset_iff)
qed (simp add: ret_def)

lemma kept_destroy:
  assumes "keeps_backups W kept" "destroy W c account i w = Some (Ok u, w')"
  shows "kept w' j \<subseteq> kept w j"
proof -
  obtain x n v where "own W c account i w = Some (Ok (x, n), v)" "wk_remove W n i v = (Inr (), w')"
    using assms(2) by (auto simp: destroy_def remove_on_def run_bind_Ok ask_Ok)
  then show ?thesis using kept_own [OF assms(1)] keeps_backups_laws(3) [OF assms(1)] by (meson order_trans)
qed

lemma kept_erase_each:
  assumes "keeps_backups W kept"
  shows "erase_each W c account rows e w = Some (Ok e', w') \<Longrightarrow> (\<forall>x\<in>set rows. kept w' (hi_instance_id x) = {}) \<and> (\<forall>j. kept w' j \<subseteq> kept w j)"
proof (induction rows arbitrary: e w)
  case (Cons x rows)
  let ?i = "hi_instance_id x"
  obtain bs w1 n w2 u w3 e1 where run: "backups W c account ?i w = Some (Ok bs, w1)"
    "delete_each W c account ?i bs (er_backups_deleted e) w1 = Some (Ok n, w2)" "destroy W c account ?i w2 = Some (Ok u, w3)"
    "erase_each W c account rows e1 w3 = Some (Ok e', w')"
    using Cons.prems unfolding erase_each.simps run_bind_Ok by blast
  have one: "kept w1 ?i \<subseteq> bk_name ` set bs" "\<And>j. kept w1 j \<subseteq> kept w j" using kept_backups [OF assms run(1)] by blast+
  have two: "bk_name ` set bs \<inter> kept w2 ?i = {}" "\<And>j. kept w2 j \<subseteq> kept w1 j" using kept_delete_each [OF assms run(2)] by blast+
  have three: "\<And>j. kept w3 j \<subseteq> kept w2 j" by (rule kept_destroy [OF assms run(3)])
  have four: "\<forall>x\<in>set rows. kept w' (hi_instance_id x) = {}" "\<And>j. kept w' j \<subseteq> kept w3 j" using Cons.IH [OF run(4)] by blast+
  have "kept w2 ?i = {}" using one(1) two(1) two(2) [of ?i] by blast
  then have "kept w' ?i = {}" using three [of ?i] four(2) [of ?i] by blast
  moreover have "kept w' j \<subseteq> kept w j" for j using one(2) [of j] two(2) [of j] three [of j] four(2) [of j] by blast
  ultimately show ?case using four(1) by simp
qed (simp add: ret_def)

lemma erase_servers_kept:
  assumes "keeps_backups W kept" "erase_servers (logged W) c account (w, []) = Some (Ok e, w', l)"
    "x \<in> set (listed_as_mine account (listings W (hc_nodes c) w))"
  shows "kept w' (hi_instance_id x) = {}"
proof -
  have logged: "keeps_backups (logged W) (\<lambda>s. kept (fst s))" by (rule keeps_backups_logged [OF assms(1)])
  obtain rows v e0 where over: "owned_over (logged W) account (hc_nodes c) (w, []) = Some (Ok rows, v)"
    and each: "erase_each (logged W) c account rows e0 v = Some (Ok e, w', l)"
    using assms(2) unfolding erase_servers_def owned_everywhere_def run_bind_Ok by blast
  have "rows = listed_as_mine account (listings W (hc_nodes c) w)"
    using owned_over_run [of W account "hc_nodes c" w "[]"] over by auto
  then show ?thesis using kept_erase_each [OF logged each] assms(3) by simp
qed

section \<open>Servers of others\<close>

definition hidden :: "(hosted_instance \<Rightarrow> bool) \<Rightarrow> str \<Rightarrow> hosted_instance list \<Rightarrow> bool" where
  "hidden may i rows \<longleftrightarrow> list_all (\<lambda>x. hi_instance_id x = i \<longrightarrow> \<not> may x) rows"

lemma find_for_hidden:
  assumes "hidden (allowed account) i (fst (all_instances W c w))"
  shows "find_for W c account i allowed w = (Err NoSuchInstance, snd (all_instances W c w))"
  using assms
  by (auto simp: find_for_def split_def Let_def hidden_def list_all_iff dest!: find_Some split: option.split)

lemma own_hidden:
  assumes "hidden (is_owner account) i (fst (all_instances W c w))"
  shows "own (logged W) c account i (w, l) = Some (Err NoSuchInstance, snd (all_instances W c w), l)"
  unfolding own_logged owned_def find_for_hidden [of is_owner, OF assms] by simp

lemma may_run_hidden:
  assumes "hidden (ax_may_operate ax account) i (fst (all_instances W c w))"
  shows "may_run (logged W) ax c account i (w, l) = Some (Err NoSuchInstance, snd (all_instances W c w), l)"
  unfolding may_run_logged operable_def find_for_hidden [of "ax_may_operate ax", OF assms] by simp

lemma bind_step: "m w = Some (Ok a, v) \<Longrightarrow> bind_act m f w = f a v"
  by (simp add: bind_act_def)

lemma bind_Err: "m w = Some (Err e, w') \<Longrightarrow> bind_act m f w = Some (Err e, w')"
  by (simp add: bind_act_def)

section \<open>Limits and silent nodes\<close>

lemma gather_without:
  assumes "\<And>w. isl (fst (wk_list W node w))" "x \<in> set (fst (gather W nodes w))"
  shows "\<exists>n\<in>set nodes. n \<noteq> node \<and> hi_node x = nc_name n"
  using assms(2)
proof (induction nodes arbitrary: w)
  case (Cons n nodes)
  show ?case
  proof (cases "n = node")
    case True
    then have "x \<in> set (fst (gather W nodes (snd (wk_list W n w))))"
      using Cons.prems assms(1) [of w] by (cases "fst (wk_list W node w)") (auto simp: node_instances_def split_def Let_def)
    from Cons.IH [OF this] show ?thesis by auto
  next
    case False
    have "hi_node x = nc_name n \<or> x \<in> set (fst (gather W nodes (snd (wk_list W n w))))"
      using Cons.prems
      by (cases "fst (wk_list W n w)") (auto simp: node_instances_def split_def Let_def hosted_of_def)
    with False Cons.IH [of "snd (wk_list W n w)"] show ?thesis by auto
  qed
qed simp

lemma silent_held:
  assumes "\<And>w. isl (fst (wk_list W node w))" "node \<in> set nodes"
  shows "held_over W c account nodes held w \<noteq> Some (Ok n, w')"
  using assms(2)
proof (induction nodes arbitrary: held w)
  case (Cons x nodes)
  show ?case
  proof (cases "x = node")
    case True
    then have "\<exists>e. fst (node_instances W x w) = Inl e"
      using assms(1) [of w] by (auto simp: node_instances_def split_def Let_def isl_def)
    then show ?thesis by (auto simp: bind_act_def ask_def)
  next
    case False
    with Cons show ?thesis by (auto simp: run_bind_Ok)
  qed
qed simp

section \<open>Sample nodes\<close>

definition sample_host_row :: instance_row where
  "sample_host_row = \<lparr>rw_instance_id = [9], rw_game_id = ascii ''cs'', rw_name = [9], rw_state = ascii ''stopped'', rw_port = None,
     rw_ports = [], rw_owner = Some [97], rw_uptime_secs = Some 10, rw_stopped_secs = Some 1, rw_players_now = Some 0,
     rw_map_now = None, rw_mesh_destination = None\<rparr>"

text \<open>One node that lists one server and does whatever it is asked.\<close>

definition sample_hosts :: "unit workers" where
  "sample_hosts = silent_workers\<lparr>wk_list := \<lambda>n w. (Inr [sample_host_row], w),
     wk_create := \<lambda>n s a w. (Inr \<lparr>cr_state = [], cr_port = None, cr_ports = []\<rparr>, w),
     wk_remove := \<lambda>n i w. (Inr (), w), wk_stop := \<lambda>n i w. (Inr (), w), wk_backups := \<lambda>n i w. (Inr [], w)\<rparr>"

definition sample_deploy_request :: deploy_request where
  "sample_deploy_request = \<lparr>dr_game_id = ascii ''cs'', dr_name = [97], dr_max_players = 8, dr_map = None, dr_class = None,
     dr_region = None, dr_bots = None, dr_restart_on_crash = True,
     dr_options = \<lparr>io_eula_accepted_at = None, io_rest = []\<rparr>\<rparr>"

lemmas sample_operate = sample_hosts_def silent_workers_def sample_host_row_def sample_config_def sample_node_def
  sample_settings_def sample_deploy_request_def

lemma sample_listing: "all_instances sample_hosts (sample_config [sample_node [1] 0]) () =
    ([hosted_of (sample_node [1] 0) sample_host_row], ())"
  by (simp add: all_instances_def node_instances_def sample_operate hosted_of_def delete_in_secs_def quotas_def policy_of_def
      stopped_expiry_for_def never_reaped_def)

lemma sample_checked: "check_deploy (sample_config [sample_node [1] 0]) [98] sample_deploy_request = Ok ()"
  by code_simp

lemma sample_admitted: "admit (quotas (sample_config [sample_node [1] 0])) [98]
    (map (\<lambda>i. record_for i 0) [hosted_of (sample_node [1] 0) sample_host_row]) 0 = Ok ()"
  by (rule admit_complete) (simp_all add: held_by_def record_for_def hosted_of_def sample_operate quotas_def policy_of_def
      max_instances_for_def override_of_def cooldown_for_def tget_def)

lemma sample_placed: "pick_node sample_hosts (sample_config [sample_node [1] 0]) existing None None () = (Some (sample_node [1] 0), ())"
  by (simp add: pick_node_def pick_node_except_def sample_operate node_capacity_def rank_node_def split_def Let_def)

lemma sample_deploy:
  "\<exists>h. deploy (logged sample_hosts) (sample_config [sample_node [1] 0]) [98] sample_deploy_request 0 (Some [5]) ((), []) = Some (Ok h, (),
     [(CCreate, [1], ascii ''cs-05'', True)])"
proof -
  have i: "new_instance_id (dr_game_id sample_deploy_request) (Some [5]) = Ok (ascii ''cs-05'')" by code_simp
  have r: "dr_class sample_deploy_request = None" "dr_region sample_deploy_request = None" by (simp_all add: sample_deploy_request_def)
  have n: "nc_name (sample_node [1] 0) = [1]" by (simp add: sample_node_def)
  have m: "wk_create sample_hosts = (\<lambda>n s a w. (Inr \<lparr>cr_state = [], cr_port = None, cr_ports = []\<rparr>, w))"
    by (simp add: sample_hosts_def)
  let ?c = "sample_config [sample_node [1] 0]" and ?rows = "[hosted_of (sample_node [1] 0) sample_host_row]"
  have list: "listing (logged sample_hosts) ?c ((), []) = Some (Ok ?rows, (), [])"
    by (simp only: run_listing all_instances_logged sample_listing fst_conv snd_conv)
  have check: "here (\<lambda>w. (check_deploy ?c [98] sample_deploy_request, w)) ((), []) = Some (Ok (), (), [])"
    by (simp only: run_here sample_checked)
  have adm: "here (\<lambda>w. (case admit (quotas ?c) [98] (map (\<lambda>i. record_for i 0) ?rows) 0 of
      Ok _ \<Rightarrow> Ok () | Err e \<Rightarrow> Err (QuotaDenied e) | Panic \<Rightarrow> Panic, w)) ((), []) = Some (Ok (), (), [])"
    by (simp only: run_here sample_admitted outcome.case)
  have new: "here (\<lambda>w. (new_instance_id (dr_game_id sample_deploy_request) (Some [5]), w)) ((), []) = Some (Ok (ascii ''cs-05''), (), [])"
    by (simp only: run_here i)
  have pick: "here (\<lambda>w. let (node, w) = pick_node (logged sample_hosts) ?c ?rows (dr_class sample_deploy_request) (dr_region sample_deploy_request) w
      in (ok_or node NoNodeWithRoom, w)) ((), []) = Some (Ok (sample_node [1] 0), (), [])"
    by (simp add: run_here pick_node_logged r sample_placed ok_or_def)
  have create: "ask (wk_create (logged sample_hosts) (sample_node [1] 0) (deploy_spec sample_deploy_request (ascii ''cs-05'') 0) [98]) ((), [])
      = Some (Ok \<lparr>cr_state = [], cr_port = None, cr_ports = []\<rparr>, (), [(CCreate, [1], ascii ''cs-05'', True)])"
    by (simp add: logged_simps run_noting m n deploy_spec_def)
  show ?thesis
    unfolding deploy_def
    by (simp only: bind_act_def check list adm r pick [unfolded r] new create ret_def option.case outcome.case prod.case if_False) blast
qed

text \<open>A server up ten seconds with nobody on, where empty servers are stopped after one.\<close>

definition sample_reaping :: hosting_config where
  "sample_reaping = (sample_config [sample_node [1] 0])\<lparr>hc_quota := sample_settings\<lparr>qs_idle_timeout_secs := Some 1\<rparr>\<rparr>"

lemma sample_reaping_listing: "all_instances sample_hosts sample_reaping () = ([hosted_of (sample_node [1] 0) sample_host_row], ())"
  by (simp add: all_instances_def node_instances_def sample_reaping_def sample_operate hosted_of_def delete_in_secs_def quotas_def
      policy_of_def stopped_expiry_for_def never_reaped_def split: option.split)

lemma sample_reapable: "reapable sample_reaping (secs 100) (hosted_of (sample_node [1] 0) sample_host_row)"
  by (simp add: reapable_def age_of_def sample_reaping_def sample_operate hosted_of_def quotas_def policy_of_def
      never_reaped_def override_of_def tget_def secs_def)

lemma reap_each_returns: "\<exists>r s'. reap_each W c existing todo reaped s = Some (r, s')"
proof (induction todo arbitrary: reaped s)
  case (Cons t todo)
  have stop: "attempt (stop_on W node i) s = Some (Ok (remote (fst (wk_stop W node i s))), snd (wk_stop W node i s))" for node i
    by (cases "fst (wk_stop W node i s)") (simp_all add: attempt_def stop_on_def ask_def)
  obtain i reason where "t = (i, reason)" by (cases t)
  then show ?case
    by (simp add: bind_act_def stop Cons.IH split: option.split)
qed (simp add: ret_def)

lemma reap_idle_returns: "\<exists>r s'. reap_idle W c now s = Some (r, s')"
  by (simp add: reap_idle_def ret_def bind_act_def run_listing reap_each_returns)

section \<open>Properties\<close>

text \<open>C8.
  A request for a server has a node create one only once every rule has been passed: hosting is on, the game is one the
  index hosts, the name is not blank and one a console can be told, the class is one the account may use, the region is a
  name, the account and the whole index held fewer servers than their limits and none of the account's was too young,
  counting what the nodes that answered listed (fewer than \<open>2 ^ 32\<close> servers). Then exactly one node is asked, once, to
  create it: one of the class asked for with room, and of those the best, the region asked for first; and the answer is that
  node's. Otherwise the request is refused and no node is asked to change anything (they are asked what they hold and what
  room they have); and an account with a name whose request passes them all is refused only if every node of the class is full or no id could be drawn.
\<close>
theorem deploy_keeps_the_rules:
  assumes "deploy (logged W) c account r now entropy (w, []) = Some (res, w', l)"
    "length (fst (all_instances W c w)) < 2 ^ 32"
  shows "(l = [] \<and> (\<exists>e. res = Err e) \<and> (account \<noteq> [] \<and> rules_passed c account r (fst (all_instances W c w)) now
        \<longrightarrow> all_full W c r (snd (all_instances W c w)) \<or> (\<exists>e. new_instance_id (dr_game_id r) entropy = Err e)))
    \<or> (\<exists>node i made. l = [(CCreate, nc_name node, i, \<not> isl made)]
       \<and> res = and_then (remote made) (\<lambda>m. Ok (deployed r i account node m))
       \<and> rules_passed c account r (fst (all_instances W c w)) now
       \<and> placed_well W c r (snd (all_instances W c w)) node)"
proof (rule disjE [OF deploy_cases [OF assms(1)]])
  let ?none = "all_full W c r (snd (all_instances W c w)) \<or> (\<exists>e. new_instance_id (dr_game_id r) entropy = Err e)"
  assume "l = [] \<and> (\<exists>e. res = Err e) \<and> (deploy_allowed c account r (fst (all_instances W c w)) now \<longrightarrow> ?none)"
  then show ?thesis using rules_allow [OF _ _ assms(2)] by blast
next
  assume "\<exists>node i made. deploy_allowed c account r (fst (all_instances W c w)) now \<and> placed_well W c r (snd (all_instances W c w)) node
    \<and> l = [(CCreate, nc_name node, i, \<not> isl made)] \<and> res = and_then (remote made) (\<lambda>m. Ok (deployed r i account node m))"
  then show ?thesis using deploy_allowed_facts [OF _ assms(2)] by blast
qed

theorem deploy_keeps_the_rules_witness:
  "rules_passed (sample_config [sample_node [1] 0]) [98] sample_deploy_request [hosted_of (sample_node [1] 0) sample_host_row] 0
    \<and> placed_well sample_hosts (sample_config [sample_node [1] 0]) sample_deploy_request () (sample_node [1] 0)"
proof -
  obtain h where h: "deploy (logged sample_hosts) (sample_config [sample_node [1] 0]) [98] sample_deploy_request 0 (Some [5]) ((), [])
      = Some (Ok h, (), [(CCreate, [1], ascii ''cs-05'', True)])"
    using sample_deploy by blast
  have "node = sample_node [1] 0" if "placed_well sample_hosts (sample_config [sample_node [1] 0]) sample_deploy_request () node" for node
    using that by (simp add: placed_well_def sample_config_def)
  with deploy_keeps_the_rules [OF h] show ?thesis unfolding sample_listing fst_conv snd_conv by auto
qed


text \<open>The same node with one backup of the server, until it is deleted: its world holds what was.\<close>

definition sample_keeper :: "(unit \<times> event list) workers" where
  "sample_keeper = silent_workers\<lparr>wk_list := \<lambda>n w. (Inr [sample_host_row], w), wk_remove := \<lambda>n i w. (Inr (), w),
     wk_backups := \<lambda>n i w. (Inr (if snd w = [] then [sample_backup] else []), w),
     wk_backup_delete := \<lambda>n i b w. (Inr (), fst w, if b = bk_name sample_backup then [(CDelete, [], i, True)] else snd w)\<rparr>"

definition sample_kept :: "unit \<times> event list \<Rightarrow> str \<Rightarrow> str set" where
  "sample_kept w i = (if snd w = [] then {bk_name sample_backup} else {})"

lemma sample_keeps: "keeps_backups sample_keeper sample_kept"
  by (simp add: keeps_backups_def sample_keeper_def sample_kept_def)

lemma sample_keeper_erase: "\<exists>e w. erase_account (logged sample_keeper) (sample_config [sample_node [1] 0]) [97] True ((((), []), []), in_memory []) =
    Some (Ok e, (w, [(CDelete, [1], [9], True), (CRemove, [1], [9], True)]), in_memory [])"
proof -
  let ?c = "sample_config [sample_node [1] 0]" and ?row = "hosted_of (sample_node [1] 0) sample_host_row"
  have nodes: "hc_nodes ?c = [sample_node [1] 0]" by (simp add: sample_config_def)
  have id: "hi_instance_id ?row = [9]" by (simp add: hosted_of_def sample_host_row_def)
  have rows: "node_instances (logged sample_keeper) (sample_node [1] 0) s = (Inr [?row], s)" for s
    by (cases s) (simp add: node_instances_def logged_simps quiet_def sample_keeper_def)
  have mine: "mine [97] [?row] = [?row]" by (simp add: mine_def hosted_of_def sample_host_row_def)
  have over: "owned_over (logged sample_keeper) [97] [sample_node [1] 0] s = Some (Ok [?row], s)" for s
    by (simp add: bind_act_def ask_def rows ret_def mine)
  have listed: "all_instances sample_keeper ?c w = ([?row], w)" for w
    by (simp add: all_instances_def node_instances_def sample_keeper_def sample_operate hosted_of_def delete_in_secs_def quotas_def policy_of_def
        stopped_expiry_for_def never_reaped_def)
  have owned: "owned sample_keeper ?c [97] [9] w = (Ok (?row, sample_node [1] 0), w)" for w
    by (simp add: owned_def find_for_def listed is_owner_def) (simp add: sample_host_row_def hosted_of_def sample_config_def sample_node_def)
  have own: "own (logged sample_keeper) ?c [97] [9] (w, l) = Some (Ok (?row, sample_node [1] 0), w, l)" for w l
    by (simp add: own_logged owned)
  have name: "nc_name (sample_node [1] 0) = [1]" by (simp add: sample_node_def)
  have sel: "wk_backups sample_keeper = (\<lambda>n i w. (Inr (if snd w = [] then [sample_backup] else []), w))"
    "wk_remove sample_keeper = (\<lambda>n i w. (Inr (), w))"
    "wk_backup_delete sample_keeper = (\<lambda>n i b w. (Inr (), fst w, if b = bk_name sample_backup then [(CDelete, [], i, True)] else snd w))"
    by (simp_all add: sample_keeper_def)
  have valid: "Carry.valid_name (bk_name sample_backup)" by code_simp
  have backups: "backups (logged sample_keeper) ?c [97] [9] (((), []), l) = Some (Ok [sample_backup], ((), []), l)" for l
    by (simp add: backups_def bind_act_def own too_old_or_def catch_def ask_def logged_simps quiet_def sel)
  have delete: "backup_delete (logged sample_keeper) ?c [97] [9] (bk_name sample_backup) (((), []), l)
      = Some (Ok (), ((), [(CDelete, [], [9], True)]), l @ [(CDelete, [1], [9], True)])" for l
    by (simp add: backup_delete_def backup_named_def valid bind_act_def own too_old_or_def catch_def logged_simps run_noting sel name)
  have gone: "destroy (logged sample_keeper) ?c [97] [9] (w, l) = Some (Ok (), w, l @ [(CRemove, [1], [9], True)])" for w l
    by (simp add: destroy_def bind_act_def own remove_on_def logged_simps run_noting sel name)
  have "\<exists>e w. erase_servers (logged sample_keeper) ?c [97] (((), []), []) = Some (Ok e, w, [(CDelete, [1], [9], True), (CRemove, [1], [9], True)])"
    by (simp add: erase_servers_def owned_everywhere_def nodes bind_act_def over id backups delete gone ret_def del: owned_over.simps)
  then show ?thesis by (auto simp: erase_account_def forget_requests_def in_memory_def)
qed


text \<open>The sweep of idle servers asks nodes only to stop servers, and exactly those that report nobody on, are
  not of an account that is never reaped, and have been up longer than the minimum lifetime and the idle
  timeout together, whenever somebody last played there. The sweep of stopped servers asks nodes only to
  remove servers, exactly the stopped ones past their owner's expiry, in the order of the listing. Both
  answer with the servers whose node agreed.
\<close>
theorem sweeps_take_what_the_rules_name:
  "(\<forall>r w' l. reap_idle (logged W) c now (w, []) = Some (r, w', l) \<longrightarrow> distinct (map hi_instance_id (fst (all_instances W c w))) \<longrightarrow>
      (\<exists>gone. r = Ok gone \<and> map fst gone = answered_ids l)
      \<and> set (called l) = (\<lambda>x. (CStop, hi_node x, hi_instance_id x)) ` {x \<in> set (fst (all_instances W c w)). reapable c now x})
   \<and> (\<forall>r w' l. expire_stopped (logged W) c (w, []) = Some (r, w', l) \<longrightarrow>
      r = Ok (answered_ids l) \<and> called l = map (\<lambda>x. (CRemove, hi_node x, hi_instance_id x))
        (filter (\<lambda>x. hi_state x = ascii ''stopped'' \<and> past_expiry c x) (fst (all_instances W c w))))"
  by (rule conjI; intro allI impI) (erule (1) reap_idle_log, erule expire_stopped_log)

theorem sweeps_take_what_the_rules_name_witness:
  "\<exists>l. reap_idle (logged sample_hosts) sample_reaping (secs 100) ((), []) \<noteq> None \<and> (CStop, [1], [9]) \<in> set (called l)"
proof -
  let ?x = "hosted_of (sample_node [1] 0) sample_host_row"
  obtain r l where run: "reap_idle (logged sample_hosts) sample_reaping (secs 100) ((), []) = Some (r, (), l)"
    using reap_idle_returns [of "logged sample_hosts" sample_reaping "secs 100" "((), [])"] by auto
  have "distinct (map hi_instance_id (fst (all_instances sample_hosts sample_reaping ())))"
    by (simp add: sample_reaping_listing)
  then have "set (called l) = (\<lambda>x. (CStop, hi_node x, hi_instance_id x)) ` {x \<in> {?x}. reapable sample_reaping (secs 100) x}"
    using sweeps_take_what_the_rules_name [of sample_hosts sample_reaping "secs 100" "()"] run
    by (simp add: sample_reaping_listing)
  then have "(CStop, [1], [9]) \<in> set (called l)"
    using sample_reapable by (simp add: hosted_of_def sample_host_row_def sample_node_def)
  with run show ?thesis by auto
qed

text \<open>C22.
  For a server an account may not run (one that is not there, or one of somebody else), every operation on it says
  there is no such server: stopping, starting, its log and map, removing it, its backups, moving it, where it could go
  and asking for another region. No node is asked for anything but its servers, and no request is kept. Only a name
  of a map or a backup that is malformed in itself is said to be so, whoever asks, and then no node is asked at all.
\<close>
theorem strangers_learn_nothing:
  assumes "hidden (ax_may_operate ax account) i (fst (all_instances W c w))"
    "hidden (is_owner account) i (fst (all_instances W c w))"
  shows "stop_server (logged W) ax c account i (w, l) = Some (Err NoSuchInstance, snd (all_instances W c w), l)
    \<and> start_server (logged W) ax c account i (w, l) = Some (Err NoSuchInstance, snd (all_instances W c w), l)
    \<and> logs (logged W) ax c account i lines (w, l) = Some (Err NoSuchInstance, snd (all_instances W c w), l)
    \<and> change_server_map (logged W) ax c account i name (w, l) =
        (if validate_map_name name = Ok () then Some (Err NoSuchInstance, snd (all_instances W c w), l) else Some (Err BadMapName, w, l))
    \<and> destroy (logged W) c account i (w, l) = Some (Err NoSuchInstance, snd (all_instances W c w), l)
    \<and> backups (logged W) c account i (w, l) = Some (Err NoSuchInstance, snd (all_instances W c w), l)
    \<and> backup_create (logged W) c account i (w, l) = Some (Err NoSuchInstance, snd (all_instances W c w), l)
    \<and> backup_restore (logged W) c account i b (w, l) =
        (if Carry.valid_name b then Some (Err NoSuchInstance, snd (all_instances W c w), l) else Some (Err BadBackupName, w, l))
    \<and> backup_delete (logged W) c account i b (w, l) =
        (if Carry.valid_name b then Some (Err NoSuchInstance, snd (all_instances W c w), l) else Some (Err BadBackupName, w, l))
    \<and> relocate_to (logged W) c account i target moving entropy (w, l) = Some (Err NoSuchInstance, snd (all_instances W c w), l)
    \<and> move_targets (logged W) c account i (w, l) = (Err NoSuchInstance, snd (all_instances W c w), l)
    \<and> request_region (logged W) c entropy ok account i region now ((w, l), k) = (Err NoSuchInstance, (snd (all_instances W c w), l), k)"
proof -
  note may = may_run_hidden [of ax, OF assms(1)] and own = own_hidden [OF assms(2)]
  note step = bind_act_def option.case outcome.case prod.case
  have owned: "owned (logged W) c account i (w, l) = (Err NoSuchInstance, snd (all_instances W c w), l)"
    using own by (simp add: own_def here_def)
  have named: "backup_named (logged W) c account i b restore (w, l) =
      (if Carry.valid_name b then Some (Err NoSuchInstance, snd (all_instances W c w), l) else Some (Err BadBackupName, w, l))" for restore
    by (cases "Carry.valid_name b") (simp_all only: backup_named_def not_True_eq_False not_False_eq_True if_True if_False step own fail_def)
  have map: "change_server_map (logged W) ax c account i name (w, l) =
      (if validate_map_name name = Ok () then Some (Err NoSuchInstance, snd (all_instances W c w), l) else Some (Err BadMapName, w, l))"
    by (cases "validate_map_name name = Ok ()")
      (simp_all only: change_server_map_def simp_thms if_True if_False step may fail_def)
  have rest: "move_targets (logged W) c account i (w, l) = (Err NoSuchInstance, snd (all_instances W c w), l)"
    "request_region (logged W) c entropy ok account i region now ((w, l), k) = (Err NoSuchInstance, (snd (all_instances W c w), l), k)"
    by (simp_all add: move_targets_def request_region_def owned)
  show ?thesis
    unfolding map rest backup_restore_def backup_delete_def named
    by (simp only: stop_server_def start_server_def logs_def destroy_def backups_def backup_create_def
        relocate_to_def own_def [symmetric] step may own simp_thms)
qed

text \<open>A stranger on the node's one server: removing it, changing its map, asking for another region.\<close>

theorem strangers_learn_nothing_witness:
  "destroy (logged sample_hosts) (sample_config [sample_node [1] 0]) [98] [9] ((), []) = Some (Err NoSuchInstance, (), [])
    \<and> change_server_map (logged sample_hosts) owner_only (sample_config [sample_node [1] 0]) [98] [9] [97] ((), []) = Some (Err NoSuchInstance, (), [])
    \<and> request_region (logged sample_hosts) (sample_config [sample_node [1] 0]) None True [98] [9] [97] 0 (((), []), in_memory []) =
        (Err NoSuchInstance, ((), []), in_memory [])"
proof -
  have map: "validate_map_name [97] = Ok ()" by code_simp
  have "hidden (is_owner [98]) [9] (fst (all_instances sample_hosts (sample_config [sample_node [1] 0]) ()))"
    by (simp add: sample_listing hidden_def is_owner_def hosted_of_def sample_host_row_def)
  then show ?thesis
    using strangers_learn_nothing [of owner_only "[98]" "[9]" sample_hosts "sample_config [sample_node [1] 0]" "()" "[]" _ "[97]"] map
    by (simp add: owner_only_def sample_listing)
qed

text \<open>A node that answers nothing lifts its servers out of the limits: none of them is in the listing a new
  server is counted against, while the same silence refuses a backup, whose count is then unknown.
\<close>
theorem a_silent_node_is_not_counted:
  assumes "\<And>w. isl (fst (wk_list W node w))" "node \<in> set (hc_nodes c)"
  shows "list_all (\<lambda>x. \<exists>n\<in>set (hc_nodes c). n \<noteq> node \<and> hi_node x = nc_name n) (fst (all_instances W c w))
    \<and> backups_held W c account w \<noteq> Some (Ok n, w')"
proof
  show "list_all (\<lambda>x. \<exists>n\<in>set (hc_nodes c). n \<noteq> node \<and> hi_node x = nc_name n) (fst (all_instances W c w))"
    using gather_without [where W = W and node = node and nodes = "hc_nodes c" and w = w, OF assms(1)]
    by (auto simp: all_instances_def list_all_iff split_def Let_def)
  show "backups_held W c account w \<noteq> Some (Ok n, w')"
    unfolding backups_held_def by (rule silent_held [OF assms])
qed

theorem a_silent_node_is_not_counted_witness:
  "backups_held silent_workers (sample_config [sample_node [1] 0]) [97] () \<noteq> Some (Ok 0, ())"
  using a_silent_node_is_not_counted [of silent_workers "sample_node [1] 0" "sample_config [sample_node [1] 0]" "()" "[97]" 0 "()"]
  by (simp add: silent_workers_def sample_config_def)

end
