(* ===== verification/Spec2Isabelle.thy ===== *)
theory Spec2Isabelle
  imports Framing Console Announce Ports Quota Schedule Lan_Room Lan_Wire Lan_Filter Lan_Rebind
    Lan_Probe Lan_Pump Lan_Relay Browse Registry Index_Wire Auth Accounts Hosting Placement
    Carry Node_Log Moves Move_Safety Instance Containers Packs Builds Node_Agent Node_Ops
    Node_Safety Updates Installs Node_Updates Update_Safety Uplink_Wire Uplink Agent_Client
    Requests Decisions Operate Operate_Safety
begin

text \<open>
  Lanthorn is a decentralised game-server browser and host over the Reticulum network: players' launchers
  hear servers announce themselves on the mesh and bridge a game's datagrams over links; optional indexes
  cache the mesh and run servers for people on nodes; rooms give a group of players a virtual LAN. This
  library models the logic of its crates under \<^verbatim>\<open>crates/\<close> in HOL, one theory per part, in the order
  the parts depend on each other.

  \<^bold>\<open>Conventions.\<close> Machine integers that can wrap are words (\<open>u8\<close>, \<open>u16\<close>, \<open>u32\<close>, \<open>u64\<close>); lengths and byte counts
  below 2^64 are \<open>nat\<close>. A \<^verbatim>\<open>String\<close> or \<^verbatim>\<open>[u8]\<close> is a byte list (\<open>str\<close>, \<open>bytes\<close>), UTF-8 where Rust says so.
  A \<^verbatim>\<open>Result\<close> is an \<open>outcome\<close>, whose third value \<open>Panic\<close> stands for Rust's panics, so that "never panics" is a
  statement. A \<^verbatim>\<open>HashMap\<close> is an association list used only through the interface \<open>hash_map\<close>. The clock,
  randomness, cryptography and other machines are arguments; what is assumed of them is a hypothesis
  of the theorem that needs it.

  \<^bold>\<open>Shared theories.\<close> \<open>Prelude\<close>: integers on the wire, UTF-8, outcomes, counted sequences (locales \<open>seq_codec\<close>,
  \<open>strict_codec\<close>). \<open>Tables\<close>: hash maps (locale \<open>hash_map\<close>) and capped tables of recent keys (locale
  \<open>flow_cache\<close>). \<open>Sorts\<close>: Rust's stable \<^verbatim>\<open>sort_by\<close> and the contract of a comparator (locale \<open>rust_order\<close>).

  \<^bold>\<open>The bridge\<close> (\<^verbatim>\<open>game-bridge\<close>). \<open>Framing\<close> (\<^verbatim>\<open>framing.rs\<close>): datagrams cut into chunks, both generations of
  reassembly; round trip under any interleaving, and the buffer bound that is not there. \<open>Announce\<close>
  (\<^verbatim>\<open>announce.rs\<close>): the server record, total decoder, round trip. \<open>Browse\<close> (\<^verbatim>\<open>browse.rs\<close>): filter and stable
  order. \<open>Console\<close> (\<^verbatim>\<open>console.rs\<close>): what may be typed at a game's console; the console itself is the game's,
  and how it reads a line is a parameter.

  \<^bold>\<open>Virtual LAN\<close> (\<^verbatim>\<open>game-bridge\<close>). \<open>Lan_Room\<close>, \<open>Lan_Wire\<close> (\<^verbatim>\<open>lan.rs\<close>): members and addresses, messages, the
  host's routing. \<open>Lan_Filter\<close> (\<^verbatim>\<open>lan_filter.rs\<close>): what a member's machine lets in, and why. \<open>Lan_Rebind\<close>
  (\<^verbatim>\<open>lan_rebind.rs\<close>): address translation and every checksum. \<open>Lan_Probe\<close> (\<^verbatim>\<open>lan_check.rs\<close>): check packets.
  \<open>Lan_Pump\<close> (\<^verbatim>\<open>lan_pump.rs\<close>): the composition, adapter to room and back. \<open>Lan_Relay\<close> (\<^verbatim>\<open>lan_relay.rs\<close>): the link
  to the elevated helper.

  \<^bold>\<open>The index\<close> (\<^verbatim>\<open>platform-index\<close>, \<^verbatim>\<open>index-client\<close>, \<^verbatim>\<open>platform-auth\<close>). \<open>Registry\<close> (\<^verbatim>\<open>registry.rs\<close>) refines the
  latest announce of each destination. \<open>Index_Wire\<close> (\<^verbatim>\<open>wire.rs\<close>): queries and answers. \<open>Auth\<close>
  (\<^verbatim>\<open>platform-auth\<close>): sign-in with an identity. \<open>Quota\<close> (\<^verbatim>\<open>quota.rs\<close>): admission and reaping. \<open>Hosting\<close>
  (\<^verbatim>\<open>hosting.rs\<close>, \<^verbatim>\<open>access.rs\<close>): the hosting file, the listing, ownership; the nodes are the record \<open>workers\<close> of
  what they answer, over an arbitrary world. \<open>Placement\<close>: which node. \<open>Carry\<close>: a backup pulled from one node
  and pushed to another, with the node's side of both (\<^verbatim>\<open>agent.rs\<close>, \<^verbatim>\<open>backups.rs\<close>), the two sides' contracts
  being the locales \<open>piece_source\<close> and \<open>piece_sink\<close>, interpreted on the node's model. \<open>Moves\<close>: moving a
  server. \<open>Node_Log\<close>: every call written down, and triples over the log. \<open>Move_Safety\<close>: what a move does to
  both servers.
  \<open>Requests\<close> (\<^verbatim>\<open>regions.rs\<close>, \<^verbatim>\<open>admins.rs\<close> and their callers): requests to move to another region and to become an
  admin, each store with its file. \<open>Decisions\<close>: who decides, that a request is decided once, and what an approval
  does when the store changes under it. \<open>Operate\<close> (\<^verbatim>\<open>hosting.rs\<close>): what an account asks for and the sweeps;
  \<open>Operate_Safety\<close>: when a server is created, whose servers are touched, what is left of an erased account, and what a node's silence hides.
  \<open>Agent_Client\<close> (\<^verbatim>\<open>agent_client.rs\<close>): the index driving its nodes over the mesh, closed with a node's own handler:
  what is asked is done once, the maps all arrive, a long listing does not, and whom the index signs for.

  \<^bold>\<open>The node\<close> (\<^verbatim>\<open>platform-agent\<close>). \<open>Ports\<close> (\<^verbatim>\<open>ports.rs\<close>): the allocator. \<open>Schedule\<close> (\<^verbatim>\<open>schedule.rs\<close> and
  the visits of \<^verbatim>\<open>agent.rs\<close>): restarts and backups. \<open>Accounts\<close> (\<^verbatim>\<open>accounts.rs\<close>): passwords, codes, roles and
  sessions.
  \<open>Uplink_Wire\<close>, \<open>Uplink\<close> (\<^verbatim>\<open>uplink_wire.rs\<close>, \<^verbatim>\<open>uplink.rs\<close>): the control channel's frames and the handler of every
  operation; who may ask, and which sessions last. \<open>Instance\<close> (\<^verbatim>\<open>instance.rs\<close>, \<^verbatim>\<open>store.rs\<close>, \<^verbatim>\<open>resources.rs\<close>): a
  server's spec, its directories and mounts, and whether its size fits. \<open>Containers\<close> (\<^verbatim>\<open>docker.rs\<close>): the container
  runtime over a Docker that is a parameter; which containers it touches, and that a server is remade as it was.
  \<open>Packs\<close> (\<^verbatim>\<open>pack.rs\<close>, \<^verbatim>\<open>profile.rs\<close>, \<^verbatim>\<open>content.rs\<close>, \<^verbatim>\<open>launch.rs\<close> of the bridge): what a game pack must be, and the
  arguments a launcher makes of it. \<open>Builds\<close> (\<^verbatim>\<open>minecraft.rs\<close> of the bridge): Minecraft builds and their publishers'
  listings. \<open>Node_Agent\<close>, \<open>Node_Ops\<close> (\<^verbatim>\<open>agent.rs\<close>, \<^verbatim>\<open>active.rs\<close>): the life of a node's servers over the record
  \<open>host\<close> of the calls made to the machine; \<open>Node_Safety\<close>: the agent's books after a create, what a move can lose,
  which crash is reported and followed by a restart, and how often, and which copies of a game stay. \<open>Updates\<close>
  (\<^verbatim>\<open>updates.rs\<close>): the reserve, when a build is looked for and downloaded, when players may be moved. \<open>Installs\<close>
  (\<^verbatim>\<open>install.rs\<close>): downloads in turn as a step relation; one runs at a time, and each gives its slot back
  by its own steps.
  \<open>Node_Updates\<close> (\<^verbatim>\<open>agent.rs\<close>): the copies of a game, updates and leftovers over the record \<open>depot\<close>;
  \<open>Update_Safety\<close>: the reserve a download leaves, what starts by itself, and what an update or a cleanup gets wrong.

  \<^bold>\<open>Bounds and fuel.\<close> Loops over data are structural or have a measure; the watch over a moved server counts the seconds it
  sleeps, and no clock is behind its sleeps, so the count ends after the time it waits for; the one loop of the
  model that may not return (reading a backup from a node) is a \<^verbatim>\<open>partial_function (option)\<close>, and when it
  returns is a theorem. Second and byte counts of Rust's \<^verbatim>\<open>u64\<close> are \<open>nat\<close> where no sum can overflow.

  \<^bold>\<open>Not modelled.\<close> Reticulum itself, sockets, Docker, the file system, HTTP, TOML and JSON, hashes and
  signatures: code that is not in the repository, and parameters here. Operating-system adapters and
  firewalls (\<^verbatim>\<open>lan_adapter\<close>, \<^verbatim>\<open>lan_firewall.rs\<close>), front doors (\<^verbatim>\<open>http.rs\<close>, \<^verbatim>\<open>api.rs\<close>), the launcher's
  interface and the command line have no logic of their own beyond calling the parts above. The asynchronous
  tasks of \<^verbatim>\<open>relay.rs\<close> and \<^verbatim>\<open>lan_session.rs\<close>, pack signatures, fetching and unpacking a game's files, and the detail probes are not
  modelled. Display texts of errors are modelled
  where they cross the control channel (\<open>wire_text\<close>, \<open>auth_text\<close>).
\<close>

end
